(* ===== verification/Prelude.thy ===== *)
theory Prelude
  imports Main "HOL-Library.Char_ord" "HOL-Library.List_Lexorder" "HOL-Library.Product_Lexorder"
begin

text \<open>
  Shared vocabulary of the development.

  A Python call that may raise is a value of type \<open>'a result\<close>: \<open>Inl e\<close> for a raised
  exception of class \<open>e\<close>, \<open>Inr x\<close> for a normal return.  The exception class is kept, because
  the code's own \<open>except\<close> clauses select on it; the message text is dropped.  Guards that raise
  are written as nested \<open>if\<close>s in the order of the source, so the first failing guard decides.
  \<open>bind_r\<close>, \<open>map_r\<close> and \<open>all_r\<close> are a sequenced call, a comprehension whose body may raise,
  and a \<open>for\<close> loop that only validates.
\<close>

section \<open>Exceptions and results\<close>

datatype exn = ValueError | TypeError | IndexError | KeyError | LookupError | RuntimeError
  | AttributeError | AssertionError | OverflowError | StopIteration

type_synonym 'a result = "exn + 'a"

definition bind_r :: "'a result \<Rightarrow> ('a \<Rightarrow> 'b result) \<Rightarrow> 'b result" where
  "bind_r m f = (case m of Inl e \<Rightarrow> Inl e | Inr x \<Rightarrow> f x)"

definition is_ok :: "'a result \<Rightarrow> bool" where
  "is_ok m = (case m of Inl _ \<Rightarrow> False | Inr _ \<Rightarrow> True)"

fun map_r :: "('a \<Rightarrow> 'b result) \<Rightarrow> 'a list \<Rightarrow> 'b list result" where
  "map_r f [] = Inr []"
| "map_r f (x # xs) =
     (case f x of Inl e \<Rightarrow> Inl e
      | Inr y \<Rightarrow> (case map_r f xs of Inl e \<Rightarrow> Inl e | Inr ys \<Rightarrow> Inr (y # ys)))"

fun all_r :: "('a \<Rightarrow> unit result) \<Rightarrow> 'a list \<Rightarrow> unit result" where
  "all_r f [] = Inr ()"
| "all_r f (x # xs) = (case f x of Inl e \<Rightarrow> Inl e | Inr _ \<Rightarrow> all_r f xs)"

text \<open>
  \<open>result_simps\<close> collects the rewriting of sequenced results; \<open>validity\<close> collects the
  characterisations of the executable validators.
\<close>

named_theorems result_simps
named_theorems validity

lemma bind_r_Inl [simp, result_simps]: "bind_r (Inl e) f = Inl e"
  by (simp add: bind_r_def)

lemma bind_r_Inr [simp, result_simps]: "bind_r (Inr x) f = f x"
  by (simp add: bind_r_def)

lemma bind_r_eq_Inr [result_simps]:
  "bind_r m f = Inr y \<longleftrightarrow> (\<exists>x. m = Inr x \<and> f x = Inr y)"
  by (cases m) simp_all

lemma is_ok_iff: "is_ok m \<longleftrightarrow> (\<exists>x. m = Inr x)"
  by (cases m) (simp_all add: is_ok_def)

lemma is_ok_Inr [simp]: "is_ok (Inr x)"
  by (simp add: is_ok_def)

lemma is_ok_Inl [simp]: "\<not> is_ok (Inl e)"
  by (simp add: is_ok_def)

lemma map_r_Inr_iff:
  "map_r f xs = Inr ys \<longleftrightarrow> list_all2 (\<lambda>x y. f x = Inr y) xs ys"
proof (induction xs arbitrary: ys)
  case Nil
  then show ?case by auto
next
  case (Cons x xs)
  show ?case
  proof (cases ys)
    case Nil
    then show ?thesis by (auto split: sum.splits)
  next
    case ys: (Cons z zs)
    show ?thesis
    proof (cases "map_r f xs")
      case (Inl e)
      then show ?thesis using Cons.IH [of zs] by (auto simp: ys split: sum.splits)
    next
      case (Inr vs)
      then show ?thesis using Cons.IH [of zs] by (auto simp: ys split: sum.splits)
    qed
  qed
qed

lemma map_r_each: "map_r f xs = Inr ys \<Longrightarrow> x \<in> set xs \<Longrightarrow> \<exists>y\<in>set ys. f x = Inr y"
  by (induction xs arbitrary: ys) (auto split: sum.splits)

lemma map_r_map: "map_r f (map g xs) = map_r (\<lambda>x. f (g x)) xs"
  by (induction xs) (auto split: sum.splits)

lemma map_r_total:
  assumes "\<And>x. x \<in> set xs \<Longrightarrow> f x = Inr (g x)"
  shows "map_r f xs = Inr (map g xs)"
  using assms by (induction xs) auto

lemma map_r_Inl: "map_r f xs = Inl e \<Longrightarrow> \<exists>x\<in>set xs. f x = Inl e"
  by (induction xs) (auto split: sum.splits)

lemma bind_r_Inl_cases: "bind_r m f = Inl e \<Longrightarrow> m = Inl e \<or> (\<exists>x. m = Inr x \<and> f x = Inl e)"
  by (cases m) simp_all

lemma map_r_length: "map_r f xs = Inr ys \<Longrightarrow> length ys = length xs"
  by (auto simp: map_r_Inr_iff dest: list_all2_lengthD)

lemma all_r_Inr_iff [validity]:
  "all_r f xs = Inr u \<longleftrightarrow> (\<forall>x\<in>set xs. f x = Inr ())"
  by (induction xs) (auto split: sum.splits)

lemma all_r_Inl: "all_r f xs = Inl e \<Longrightarrow> \<exists>x\<in>set xs. f x \<noteq> Inr ()"
  by (induction xs) (auto split: sum.splits)

lemma all_r_is_ok: "is_ok (all_r f xs) \<longleftrightarrow> (\<forall>x\<in>set xs. f x = Inr ())"
  by (auto simp: is_ok_iff all_r_Inr_iff)

lemma map_r_cong [fundef_cong]:
  "xs = ys \<Longrightarrow> (\<And>x. x \<in> set ys \<Longrightarrow> f x = g x) \<Longrightarrow> map_r f xs = map_r g ys"
proof (induction xs arbitrary: ys)
  case (Cons x xs)
  then have "map_r f xs = map_r g xs" and "f x = g x" by auto
  then show ?case using Cons.prems(1) by (auto split: sum.splits)
qed simp

lemma all_r_cong [fundef_cong]:
  "xs = ys \<Longrightarrow> (\<And>x. x \<in> set ys \<Longrightarrow> f x = g x) \<Longrightarrow> all_r f xs = all_r g ys"
proof (induction xs arbitrary: ys)
  case (Cons x xs)
  then have "all_r f xs = all_r g xs" and "f x = g x" by auto
  then show ?case using Cons.prems(1) by (auto split: sum.splits)
qed simp

section \<open>Lists indexed by Python integers\<close>

text \<open>\<open>in_range i n\<close> is the code's \<open>0 <= i < n\<close> for a length \<open>n\<close>.\<close>

definition in_range :: "int \<Rightarrow> nat \<Rightarrow> bool" where
  "in_range i n \<longleftrightarrow> 0 \<le> i \<and> i < int n"

lemma in_range_nat: "in_range i n \<Longrightarrow> nat i < n"
  by (auto simp: in_range_def)

lemma in_range_int [simp]: "in_range (int k) n \<longleftrightarrow> k < n"
  by (simp add: in_range_def)

lemma in_rangeE:
  assumes "in_range i n"
  obtains k where "i = int k" and "k < n"
  using assms by (metis in_range_def nonneg_int_cases of_nat_less_iff)

definition upto_int :: "int \<Rightarrow> int list" where
  "upto_int n = map int [0..<nat n]"

lemma set_upto_int [simp]: "set (upto_int n) = {0..<n}"
proof (rule set_eqI)
  fix x
  show "x \<in> set (upto_int n) \<longleftrightarrow> x \<in> {0..<n}"
  proof
    assume "x \<in> {0..<n}"
    then have "x = int (nat x)" "nat x < nat n" by auto
    then show "x \<in> set (upto_int n)" by (metis atLeastLessThan_iff imageI
        upto_int_def list.set_map set_upt zero_le)
  qed (auto simp: upto_int_def)
qed

lemma length_upto_int [simp]: "length (upto_int n) = nat n"
  by (simp add: upto_int_def)

lemma distinct_upto_int [simp]: "distinct (upto_int n)"
  by (simp add: upto_int_def distinct_map inj_on_def)

lemma set_take_drop_mid: "set (take k xs) \<union> (A \<union> set (drop k xs)) = set xs \<union> A"
  using set_append [of "take k xs" "drop k xs"] by auto

text \<open>\<open>itertools.product(xs, repeat=n)\<close>: the rightmost position varies fastest.\<close>

fun product_repeat :: "'a list \<Rightarrow> nat \<Rightarrow> 'a list list" where
  "product_repeat xs 0 = [[]]"
| "product_repeat xs (Suc n) = concat (map (\<lambda>x. map (\<lambda>ys. x # ys) (product_repeat xs n)) xs)"

lemma set_product_repeat:
  "set (product_repeat xs n) = {ys. length ys = n \<and> set ys \<subseteq> set xs}"
proof (induction n)
  case 0
  then show ?case by auto
next
  case (Suc n)
  show ?case
  proof (rule set_eqI)
    fix ys
    show "ys \<in> set (product_repeat xs (Suc n)) \<longleftrightarrow>
        ys \<in> {ys. length ys = Suc n \<and> set ys \<subseteq> set xs}"
      using Suc.IH by (cases ys) auto
  qed
qed

lemma length_product_repeat: "length (product_repeat xs n) = length xs ^ n"
  by (induction n) (simp_all add: length_concat comp_def sum_list_triv)

lemma distinct_product_repeat: "distinct xs \<Longrightarrow> distinct (product_repeat xs n)"
proof (induction n)
  case 0
  then show ?case by simp
next
  case (Suc n)
  have aux: "distinct zs \<Longrightarrow>
      distinct (concat (map (\<lambda>x. map (\<lambda>ys. x # ys) (product_repeat xs n)) zs))" for zs
    using Suc by (induction zs) (auto simp: distinct_map inj_on_def)
  from Suc.prems show ?case by (simp add: aux)
qed

lemma concat_distinctI:
  assumes "distinct xs"
    and "\<And>x. x \<in> set xs \<Longrightarrow> distinct (f x)"
    and "\<And>x y. x \<in> set xs \<Longrightarrow> y \<in> set xs \<Longrightarrow> x \<noteq> y \<Longrightarrow> set (f x) \<inter> set (f y) = {}"
  shows "distinct (concat (map f xs))"
  using assms by (induction xs) (auto simp: disjoint_iff)

end
