(* ===== verification/Sha256.thy ===== *)
theory Sha256
  imports Prelude "HOL-Library.Word"
begin

text \<open>
  The digest the code takes with \<open>hashlib.sha256(text.encode()).hexdigest()\<close>: UTF-8 encoding of
  the text (characters here are the code points below 256), FIPS 180-4 SHA-256 on bytes, and the
  lower-case hexadecimal rendering.  Everything computes; what the rest of the development uses is that a digest has 64
  lower-case hexadecimal digits.
\<close>

unbundle bit_operations_syntax

type_synonym byte = "8 word"
type_synonym u32 = "32 word"

fun utf8_char :: "char \<Rightarrow> byte list" where
  "utf8_char c =
     (let b = of_char c :: byte
      in if b < 0x80 then [b] else [0xC0 OR drop_bit 6 b, 0x80 OR (b AND 0x3F)])"

definition utf8 :: "string \<Rightarrow> byte list" where
  "utf8 s = concat (map utf8_char s)"

text \<open>
  The constants by their definition: the first 32 bits of the fractional parts of the cube roots
  (round constants) and square roots (initial state) of the first primes.  \<open>int_root k bits n\<close> is
  the integer \<open>k\<close>-th root of \<open>n\<close>, one binary digit at a time.
\<close>

fun int_root :: "nat \<Rightarrow> nat \<Rightarrow> nat \<Rightarrow> nat \<Rightarrow> nat" where
  "int_root k 0 n r = r"
| "int_root k (Suc b) n r = int_root k b n (if (r + 2 ^ b) ^ k \<le> n then r + 2 ^ b else r)"

definition sha_primes :: "nat list" where
  "sha_primes = filter (\<lambda>p. \<forall>d\<in>set [2..<p]. p mod d \<noteq> 0) [2..<312]"

definition sha_k :: "u32 list" where
  "sha_k = map (\<lambda>p. word_of_nat (int_root 3 36 (p * 2 ^ 96) 0)) sha_primes"

definition sha_init :: "u32 list" where
  "sha_init = map (\<lambda>p. word_of_nat (int_root 2 40 (p * 2 ^ 64) 0)) [2, 3, 5, 7, 11, 13, 17, 19]"

definition rotr32 :: "nat \<Rightarrow> u32 \<Rightarrow> u32" where
  "rotr32 n x = drop_bit n x OR push_bit (32 - n) x"

definition big_sigma0 :: "u32 \<Rightarrow> u32" where
  "big_sigma0 x = rotr32 2 x XOR rotr32 13 x XOR rotr32 22 x"

definition big_sigma1 :: "u32 \<Rightarrow> u32" where
  "big_sigma1 x = rotr32 6 x XOR rotr32 11 x XOR rotr32 25 x"

definition small_sigma0 :: "u32 \<Rightarrow> u32" where
  "small_sigma0 x = rotr32 7 x XOR rotr32 18 x XOR drop_bit 3 x"

definition small_sigma1 :: "u32 \<Rightarrow> u32" where
  "small_sigma1 x = rotr32 17 x XOR rotr32 19 x XOR drop_bit 10 x"

definition be64 :: "nat \<Rightarrow> byte list" where
  "be64 n = map (\<lambda>k. word_of_int (int n div 256 ^ k)) [7, 6, 5, 4, 3, 2, 1, 0]"

definition sha_pad :: "byte list \<Rightarrow> byte list" where
  "sha_pad bs = bs @ [0x80] @ replicate ((119 - length bs mod 64) mod 64) 0 @ be64 (8 * length bs)"

fun words_of :: "byte list \<Rightarrow> u32 list" where
  "words_of (a # b # c # d # bs) =
     (push_bit 24 (ucast a) OR push_bit 16 (ucast b) OR push_bit 8 (ucast c) OR ucast d)
       # words_of bs"
| "words_of _ = []"

text \<open>The message schedule, newest word first.\<close>

fun schedule :: "nat \<Rightarrow> u32 list \<Rightarrow> u32 list" where
  "schedule 0 r = r"
| "schedule (Suc n) r =
     schedule n ((small_sigma1 (r ! 1) + r ! 6 + small_sigma0 (r ! 14) + r ! 15) # r)"

fun sha_round :: "u32 list \<Rightarrow> u32 \<times> u32 \<Rightarrow> u32 list" where
  "sha_round [a, b, c, d, e, f, g, h] (k, w) =
     (let t1 = h + big_sigma1 e + ((e AND f) XOR (NOT e AND g)) + k + w;
          t2 = big_sigma0 a + ((a AND b) XOR (a AND c) XOR (b AND c))
      in [t1 + t2, a, b, c, d + t1, e, f, g])"
| "sha_round hs _ = hs"

definition compress :: "u32 list \<Rightarrow> byte list \<Rightarrow> u32 list" where
  "compress hs block =
     (let ws = rev (schedule 48 (rev (words_of block)))
      in map2 (+) hs (foldl sha_round hs (zip sha_k ws)))"

fun sha_blocks :: "nat \<Rightarrow> u32 list \<Rightarrow> byte list \<Rightarrow> u32 list" where
  "sha_blocks 0 hs bs = hs"
| "sha_blocks (Suc n) hs bs = sha_blocks n (compress hs (take 64 bs)) (drop 64 bs)"

definition sha256_words :: "byte list \<Rightarrow> u32 list" where
  "sha256_words bs = (let p = sha_pad bs in sha_blocks (length p div 64) sha_init p)"

definition hex_digits :: string where
  "hex_digits = ''0123456789abcdef''"

definition hex_of_u32 :: "u32 \<Rightarrow> string" where
  "hex_of_u32 w = map (\<lambda>k. hex_digits ! unat (drop_bit (4 * k) w AND 15)) [7, 6, 5, 4, 3, 2, 1, 0]"

definition sha256_hex :: "string \<Rightarrow> string" where
  "sha256_hex s = concat (map hex_of_u32 (sha256_words (utf8 s)))"

section \<open>Shape of a digest\<close>

lemma length_sha_round: "length hs = 8 \<Longrightarrow> length (sha_round hs kw) = 8"
  by (induction hs kw rule: sha_round.induct) (auto simp: Let_def)

lemma length_sha_rounds: "length hs = 8 \<Longrightarrow> length (foldl sha_round hs kws) = 8"
  by (induction kws arbitrary: hs) (auto simp: length_sha_round)

lemma length_compress: "length hs = 8 \<Longrightarrow> length (compress hs b) = 8"
  by (simp add: compress_def Let_def length_sha_rounds)

lemma length_sha_blocks: "length hs = 8 \<Longrightarrow> length (sha_blocks n hs bs) = 8"
  by (induction n hs bs rule: sha_blocks.induct) (simp_all add: length_compress)

lemma length_sha256_words [simp]: "length (sha256_words bs) = 8"
  by (simp add: sha256_words_def Let_def length_sha_blocks sha_init_def)

lemma length_hex_of_u32 [simp]: "length (hex_of_u32 w) = 8"
  by (simp add: hex_of_u32_def)

lemma unat_and_15: "unat (x AND 15 :: u32) < 16"
  using word_and_le1 [of x 15] by (simp add: word_le_nat_alt)

lemma set_hex_of_u32: "set (hex_of_u32 w) \<subseteq> set hex_digits"
proof -
  have "length hex_digits = 16" by (simp add: hex_digits_def)
  then show ?thesis by (auto simp: hex_of_u32_def unat_and_15)
qed

lemma length_concat_hex: "length (concat (map hex_of_u32 ws)) = 8 * length ws"
  by (induction ws) simp_all

lemma length_sha256_hex [simp]: "length (sha256_hex s) = 64"
  by (simp add: sha256_hex_def length_concat_hex)

lemma set_sha256_hex: "set (sha256_hex s) \<subseteq> set hex_digits"
  using set_hex_of_u32 by (fastforce simp: sha256_hex_def)

lemma sha256_hex_nonempty [simp]: "sha256_hex s \<noteq> []"
  using length_sha256_hex [of s] by (metis length_greater_0_conv zero_less_numeral)

lemma sha256_hex_no_nul: "CHR 0x00 \<notin> set (sha256_hex s)"
  using set_sha256_hex [of s] by (auto simp: hex_digits_def)

end
