(* ===== verification/PyValue.thy ===== *)
theory PyValue
  imports Sha256
begin

text \<open>
  The dynamically typed values that cross the code's persistence boundary (the argument of every
  \<open>from_payload\<close>, the result of every \<open>payload\<close>), Python's \<open>int(...)\<close> and \<open>str(...)\<close>
  of such a value,
  and the canonical JSON text the digests are taken on:
  \<open>json.dumps(x, sort_keys=True, separators=(",", ":"))\<close> with ASCII escaping.
  A dictionary is an association list in insertion order with distinct keys.  Floats do not
  occur in the payloads that are digested here, so \<open>pyval\<close> has none.
\<close>

datatype pyval =
    PNone
  | PBool bool
  | PInt int
  | PStr string
  | PList "pyval list"
  | PDict "(string \<times> pyval) list"

fun dict_get :: "(string \<times> pyval) list \<Rightarrow> string \<Rightarrow> pyval" where
  "dict_get kvs k = (case map_of kvs k of None \<Rightarrow> PNone | Some v \<Rightarrow> v)"

fun dict_get_default :: "(string \<times> pyval) list \<Rightarrow> string \<Rightarrow> pyval \<Rightarrow> pyval" where
  "dict_get_default kvs k d = (case map_of kvs k of None \<Rightarrow> d | Some v \<Rightarrow> v)"

fun opt_int_value :: "int option \<Rightarrow> pyval" where
  "opt_int_value None = PNone"
| "opt_int_value (Some i) = PInt i"

text \<open>\<open>bool(value)\<close>, \<open>isinstance(value, Sequence)\<close> with the elements, \<open>tuple(value)\<close>, and
  \<open>value == n\<close> for an integer \<open>n\<close> (a boolean equals 0 or 1).\<close>

fun py_bool :: "pyval \<Rightarrow> bool" where
  "py_bool PNone = False"
| "py_bool (PBool b) = b"
| "py_bool (PInt i) = (i \<noteq> 0)"
| "py_bool (PStr s) = (s \<noteq> [])"
| "py_bool (PList xs) = (xs \<noteq> [])"
| "py_bool (PDict kvs) = (kvs \<noteq> [])"

fun py_sequence :: "pyval \<Rightarrow> pyval list option" where
  "py_sequence (PList xs) = Some xs"
| "py_sequence (PStr s) = Some (map (\<lambda>c. PStr [c]) s)"
| "py_sequence _ = None"

fun py_tuple :: "pyval \<Rightarrow> pyval list result" where
  "py_tuple (PList xs) = Inr xs"
| "py_tuple (PStr s) = Inr (map (\<lambda>c. PStr [c]) s)"
| "py_tuple (PDict kvs) = Inr (map (\<lambda>kv. PStr (fst kv)) kvs)"
| "py_tuple _ = Inl TypeError"

fun py_eq_int :: "pyval \<Rightarrow> int \<Rightarrow> bool" where
  "py_eq_int (PInt i) n = (i = n)"
| "py_eq_int (PBool b) n = ((if b then 1 else 0) = n)"
| "py_eq_int _ n = False"

text \<open>\<open>len(value)\<close>, and equality with a dictionary of distinct keys, in any order.\<close>

fun py_len :: "pyval \<Rightarrow> nat result" where
  "py_len (PStr s) = Inr (length s)"
| "py_len (PList xs) = Inr (length xs)"
| "py_len (PDict kvs) = Inr (length kvs)"
| "py_len _ = Inl TypeError"

definition dict_same :: "(string \<times> pyval) list \<Rightarrow> (string \<times> pyval) list \<Rightarrow> bool" where
  "dict_same kvs ref \<longleftrightarrow> length kvs = length ref \<and> list_all (\<lambda>(k, v). map_of kvs k = Some v) ref"

section \<open>\<open>int(value)\<close> and \<open>int(text, 16)\<close>\<close>

definition is_space :: "char \<Rightarrow> bool" where
  "is_space c \<longleftrightarrow> c \<in> {CHR '' '', CHR 0x09, CHR 0x0A, CHR 0x0B, CHR 0x0C, CHR 0x0D,
     CHR 0x1C, CHR 0x1D, CHR 0x1E, CHR 0x1F, CHR 0x85, CHR 0xA0}"

definition strip :: "string \<Rightarrow> string" where
  "strip s = rev (dropWhile is_space (rev (dropWhile is_space s)))"

definition digit_value :: "char \<Rightarrow> nat option" where
  "digit_value c =
     (let n = of_char c :: nat
      in if 48 \<le> n \<and> n \<le> 57 then Some (n - 48)
         else if 97 \<le> n \<and> n \<le> 122 then Some (n - 87)
         else if 65 \<le> n \<and> n \<le> 90 then Some (n - 55)
         else None)"

text \<open>Digits with single underscores between them; the flag says the last character was a digit.\<close>

fun int_digits :: "nat \<Rightarrow> bool \<Rightarrow> int \<Rightarrow> string \<Rightarrow> int option" where
  "int_digits base prev acc [] = (if prev then Some acc else None)"
| "int_digits base prev acc (c # cs) =
     (if c = CHR ''_'' then (if prev then int_digits base False acc cs else None)
      else (case digit_value c of
              None \<Rightarrow> None
            | Some d \<Rightarrow> if d < base then int_digits base True (int base * acc + int d) cs else None))"

definition split_sign :: "string \<Rightarrow> bool \<times> string" where
  "split_sign s =
     (case s of c # cs \<Rightarrow> (if c = CHR ''-'' then (True, cs) else if c = CHR ''+'' then (False, cs)
                           else (False, s))
      | [] \<Rightarrow> (False, s))"

definition strip_0x :: "string \<Rightarrow> string" where
  "strip_0x s =
     (case s of z # x # cs \<Rightarrow>
        (if z = CHR ''0'' \<and> (x = CHR ''x'' \<or> x = CHR ''X'')
         then (case cs of u # cs' \<Rightarrow> (if u = CHR ''_'' then cs' else cs) | [] \<Rightarrow> cs) else s)
      | _ \<Rightarrow> s)"

definition int_of_text :: "string \<Rightarrow> int option" where
  "int_of_text s =
     (let (neg, t) = split_sign (strip s)
      in map_option (\<lambda>n. if neg then - n else n) (int_digits 10 False 0 t))"

definition int16_of_text :: "string \<Rightarrow> int option" where
  "int16_of_text s =
     (let (neg, t) = split_sign (strip s)
      in map_option (\<lambda>n. if neg then - n else n) (int_digits 16 False 0 (strip_0x t)))"

fun py_int :: "pyval \<Rightarrow> int result" where
  "py_int (PInt i) = Inr i"
| "py_int (PBool b) = Inr (if b then 1 else 0)"
| "py_int (PStr s) = (case int_of_text s of None \<Rightarrow> Inl ValueError | Some i \<Rightarrow> Inr i)"
| "py_int _ = Inl TypeError"

text \<open>
  The digest-shape test the code repeats in several modules: a string of length 64 that
  \<open>int(value, 16)\<close> accepts.
\<close>

definition digest_ok :: "string \<Rightarrow> bool" where
  "digest_ok s \<longleftrightarrow> length s = 64 \<and> int16_of_text s \<noteq> None"

lemma hex_digit_value:
  "c \<in> set hex_digits \<Longrightarrow> \<exists>d. digit_value c = Some d \<and> d < 16"
  by (auto simp: hex_digits_def digit_value_def of_char_Char)

lemma hex_digit_not_special:
  assumes "c \<in> set hex_digits"
  shows "\<not> is_space c" and "c \<notin> {CHR ''_'', CHR ''-'', CHR ''+'', CHR ''x'', CHR ''X''}"
  using assms by (auto simp: hex_digits_def is_space_def)

lemma int_digits_hex:
  "set s \<subseteq> set hex_digits \<Longrightarrow> s \<noteq> [] \<or> prev \<Longrightarrow> \<exists>n. int_digits 16 prev acc s = Some n"
proof (induction s arbitrary: prev acc)
  case Nil
  then show ?case by simp
next
  case (Cons c s)
  then obtain d where d: "digit_value c = Some d" "d < 16"
    using hex_digit_value [of c] by auto
  have "c \<noteq> CHR ''_''" using Cons.prems hex_digit_not_special(2) [of c] by auto
  moreover have "\<exists>n. int_digits 16 True (16 * acc + int d) s = Some n"
    using Cons.IH Cons.prems by simp
  ultimately show ?case using d by simp
qed

lemma dropWhile_none: "\<forall>c\<in>set s. \<not> P c \<Longrightarrow> dropWhile P s = s"
  by (cases s) auto

lemma strip_hex: "set s \<subseteq> set hex_digits \<Longrightarrow> strip s = s"
proof -
  assume "set s \<subseteq> set hex_digits"
  then have "\<forall>c\<in>set s. \<not> is_space c" using hex_digit_not_special(1) by auto
  then show ?thesis by (simp add: strip_def dropWhile_none)
qed

lemma digest_ok_hex:
  assumes "length s = 64" and "set s \<subseteq> set hex_digits"
  shows "digest_ok s"
proof -
  obtain c cs where s: "s = c # cs" using assms(1) by (cases s) auto
  obtain x xs where cs: "cs = x # xs" using assms(1) s by (cases cs) auto
  have x: "x \<noteq> CHR ''x''" "x \<noteq> CHR ''X''" "c \<noteq> CHR ''-''" "c \<noteq> CHR ''+''"
    using assms(2) hex_digit_not_special(2) [of x] hex_digit_not_special(2) [of c]
    by (auto simp: s cs)
  then have "strip_0x s = s" "split_sign s = (False, s)"
    by (simp_all add: strip_0x_def split_sign_def s cs)
  moreover obtain n where "int_digits 16 False 0 s = Some n"
    using int_digits_hex [OF assms(2), of False 0] s by auto
  ultimately have "int16_of_text s = Some n"
    by (simp add: int16_of_text_def strip_hex [OF assms(2)])
  with assms(1) show ?thesis by (simp add: digest_ok_def)
qed

lemma digest_ok_sha256 [simp]: "digest_ok (sha256_hex s)"
  by (rule digest_ok_hex) (auto simp: set_sha256_hex [THEN subsetD])

section \<open>Canonical JSON text\<close>

definition hex4 :: "nat \<Rightarrow> string" where
  "hex4 n = map (\<lambda>k. hex_digits ! (n div 16 ^ k mod 16)) [3, 2, 1, 0]"

fun json_char :: "char \<Rightarrow> string" where
  "json_char c =
     (let n = of_char c :: nat
      in if c = CHR 0x22 then [CHR 0x5C, CHR 0x22]
         else if c = CHR 0x5C then [CHR 0x5C, CHR 0x5C]
         else if n = 10 then [CHR 0x5C, CHR ''n'']
         else if n = 13 then [CHR 0x5C, CHR ''r'']
         else if n = 9 then [CHR 0x5C, CHR ''t'']
         else if n = 12 then [CHR 0x5C, CHR ''f'']
         else if n = 8 then [CHR 0x5C, CHR ''b'']
         else if 32 \<le> n \<and> n \<le> 126 then [c]
         else [CHR 0x5C, CHR ''u''] @ hex4 n)"

definition json_string :: "string \<Rightarrow> string" where
  "json_string s = [CHR 0x22] @ concat (map json_char s) @ [CHR 0x22]"

fun nat_digits :: "nat \<Rightarrow> string" where
  "nat_digits n =
     (if n < 10 then [char_of (48 + n)] else nat_digits (n div 10) @ [char_of (48 + n mod 10)])"

declare nat_digits.simps [simp del]

definition int_text :: "int \<Rightarrow> string" where
  "int_text i = (if i < 0 then CHR ''-'' # nat_digits (nat (- i)) else nat_digits (nat i))"

fun join :: "string \<Rightarrow> string list \<Rightarrow> string" where
  "join sep [] = []"
| "join sep [x] = x"
| "join sep (x # y # xs) = x @ sep @ join sep (y # xs)"

fun json_dumps :: "pyval \<Rightarrow> string" where
  "json_dumps PNone = ''null''"
| "json_dumps (PBool b) = (if b then ''true'' else ''false'')"
| "json_dumps (PInt i) = int_text i"
| "json_dumps (PStr s) = json_string s"
| "json_dumps (PList xs) = ''['' @ join '','' (map json_dumps xs) @ '']''"
| "json_dumps (PDict kvs) =
     ''{'' @ join '','' (map snd (sort_key fst
       (map (\<lambda>kv. (fst kv, json_string (fst kv) @ '':'' @ json_dumps (snd kv))) kvs))) @ ''}''"

text \<open>The same text assembled from the texts of its parts, where a part holds floats: objects have their keys sorted.\<close>

definition json_object :: "(string \<times> string) list \<Rightarrow> string" where
  "json_object kvs =
     ''{'' @ join '','' (map snd (sort_key fst (map (\<lambda>(k, v). (k, json_string k @ '':'' @ v)) kvs))) @ ''}''"

definition json_array :: "string list \<Rightarrow> string" where
  "json_array xs = ''['' @ join '','' xs @ '']''"

definition digest_payload :: "pyval \<Rightarrow> string" where
  "digest_payload v = sha256_hex (json_dumps v)"

lemma digest_ok_payload [simp]: "digest_ok (digest_payload v)"
  by (simp add: digest_payload_def)

lemma length_digest_payload [simp]: "length (digest_payload v) = 64"
  by (simp add: digest_payload_def)

section \<open>\<open>str(value)\<close>\<close>

text \<open>\<open>repr\<close> of a string picks double quotes when it holds a single one and no double one.\<close>

definition repr_char :: "char \<Rightarrow> char \<Rightarrow> string" where
  "repr_char quote c =
     (let n = of_char c :: nat
      in if c = quote \<or> n = 92 then [CHR 0x5C, c]
         else if n = 9 then [CHR 0x5C, CHR ''t'']
         else if n = 10 then [CHR 0x5C, CHR ''n'']
         else if n = 13 then [CHR 0x5C, CHR ''r'']
         else if n < 32 \<or> 127 \<le> n \<and> n \<le> 160 \<or> n = 173
         then [CHR 0x5C, CHR ''x'', hex_digits ! (n div 16), hex_digits ! (n mod 16)]
         else [c])"

definition repr_string :: "string \<Rightarrow> string" where
  "repr_string s =
     (let quote = (if CHR 0x27 \<in> set s \<and> CHR 0x22 \<notin> set s then CHR 0x22 else CHR 0x27)
      in [quote] @ concat (map (repr_char quote) s) @ [quote])"

fun py_repr :: "pyval \<Rightarrow> string" where
  "py_repr PNone = ''None''"
| "py_repr (PBool b) = (if b then ''True'' else ''False'')"
| "py_repr (PInt i) = int_text i"
| "py_repr (PStr s) = repr_string s"
| "py_repr (PList xs) = ''['' @ join '', '' (map py_repr xs) @ '']''"
| "py_repr (PDict kvs) =
     ''{'' @ join '', '' (map (\<lambda>kv. repr_string (fst kv) @ '': '' @ py_repr (snd kv)) kvs) @ ''}''"

fun py_str :: "pyval \<Rightarrow> string" where
  "py_str (PStr s) = s"
| "py_str v = py_repr v"

end
