(* ===== verification/ControlFlow.thy ===== *)
theory ControlFlow
  imports PyValue
begin

text \<open>
  The counter-machine programs of \<open>control_flow.py\<close>: instructions, their validator, programs,
  their payload form and digest, and the bounded executor.

  \<open>ControlFlowInstruction\<close>, \<open>ControlFlowProgram\<close> and \<open>ControlFlowExecution\<close> are the records
  \<open>cf_instruction\<close>, \<open>cf_program\<close> and \<open>cf_execution\<close>; the \<open>validate\<close> methods return
  \<open>Inl ValueError\<close> where the code raises.  The \<open>for\<close> loop of \<open>execute\<close> is \<open>cf_loop\<close>, one
  iteration is \<open>cf_step\<close>.  An operation the dataclass does not know is kept as \<open>OtherOp\<close>, so
  that a malformed payload reaches the validator as it does in the code.
\<close>

section \<open>Instructions\<close>

datatype cf_op = Inc | Dec | Jump | JumpIfZero | JumpIfNonzero | Halt | OtherOp pyval

record cf_instruction =
  ci_op :: cf_op
  ci_counter :: "int option"
  ci_target :: "int option"

definition CONTROL_FLOW_INSTRUCTION_SCHEMA :: string where
  "CONTROL_FLOW_INSTRUCTION_SCHEMA = ''neural-computer.external-control-flow-instruction.v1''"

definition CONTROL_FLOW_PROGRAM_SCHEMA :: string where
  "CONTROL_FLOW_PROGRAM_SCHEMA = ''neural-computer.external-control-flow-program.v1''"

text \<open>\<open>self.counter is None or not 0 <= self.counter < counter_count\<close>, negated.\<close>

fun opt_within :: "int option \<Rightarrow> int \<Rightarrow> bool" where
  "opt_within None n = False"
| "opt_within (Some k) n = (0 \<le> k \<and> k < n)"

definition cfi_validate :: "int \<Rightarrow> int \<Rightarrow> cf_instruction \<Rightarrow> unit result" where
  "cfi_validate counter_count program_length i =
     (if counter_count < 2 then Inl ValueError
      else if program_length < 1 then Inl ValueError
      else if ci_op i = Inc \<or> ci_op i = Dec then
        (if \<not> opt_within (ci_counter i) counter_count then Inl ValueError
         else if ci_target i \<noteq> None then Inl ValueError
         else Inr ())
      else if ci_op i = Halt then
        (if ci_counter i \<noteq> None \<or> ci_target i \<noteq> None then Inl ValueError else Inr ())
      else if ci_op i = Jump then
        (if ci_counter i \<noteq> None then Inl ValueError
         else if \<not> opt_within (ci_target i) program_length then Inl ValueError
         else Inr ())
      else if ci_op i = JumpIfZero \<or> ci_op i = JumpIfNonzero then
        (if \<not> opt_within (ci_counter i) counter_count then Inl ValueError
         else if \<not> opt_within (ci_target i) program_length then Inl ValueError
         else Inr ())
      else Inl ValueError)"

fun op_value :: "cf_op \<Rightarrow> pyval" where
  "op_value Inc = PStr ''inc''"
| "op_value Dec = PStr ''dec''"
| "op_value Jump = PStr ''jump''"
| "op_value JumpIfZero = PStr ''jump_if_zero''"
| "op_value JumpIfNonzero = PStr ''jump_if_nonzero''"
| "op_value Halt = PStr ''halt''"
| "op_value (OtherOp v) = v"

definition op_of_value :: "pyval \<Rightarrow> cf_op" where
  "op_of_value v =
     (if v = PStr ''inc'' then Inc
      else if v = PStr ''dec'' then Dec
      else if v = PStr ''jump'' then Jump
      else if v = PStr ''jump_if_zero'' then JumpIfZero
      else if v = PStr ''jump_if_nonzero'' then JumpIfNonzero
      else if v = PStr ''halt'' then Halt
      else OtherOp v)"

definition opt_int_of_value :: "pyval \<Rightarrow> int option result" where
  "opt_int_of_value v =
     (if v = PNone then Inr None
      else (case py_int v of Inl e \<Rightarrow> Inl e | Inr i \<Rightarrow> Inr (Some i)))"

definition cfi_payload :: "cf_instruction \<Rightarrow> pyval" where
  "cfi_payload i = PDict
     [(''schema'', PStr CONTROL_FLOW_INSTRUCTION_SCHEMA),
      (''op'', op_value (ci_op i)),
      (''counter'', opt_int_value (ci_counter i)),
      (''target'', opt_int_value (ci_target i))]"

fun cfi_from_payload :: "pyval \<Rightarrow> cf_instruction result" where
  "cfi_from_payload (PDict kvs) =
     (if dict_get kvs ''schema'' \<noteq> PStr CONTROL_FLOW_INSTRUCTION_SCHEMA then Inl ValueError
      else (case opt_int_of_value (dict_get kvs ''counter'') of Inl e \<Rightarrow> Inl e
            | Inr c \<Rightarrow>
              (case opt_int_of_value (dict_get kvs ''target'') of Inl e \<Rightarrow> Inl e
               | Inr t \<Rightarrow> Inr \<lparr>ci_op = op_of_value (dict_get kvs ''op''),
                              ci_counter = c, ci_target = t\<rparr>)))"
| "cfi_from_payload _ = Inl TypeError"

section \<open>Programs\<close>

record cf_program =
  cp_counter_count :: int
  cp_instructions :: "cf_instruction list"
  cp_schema :: pyval

definition mk_program :: "int \<Rightarrow> cf_instruction list \<Rightarrow> cf_program" where
  "mk_program n is = \<lparr>cp_counter_count = n, cp_instructions = is,
     cp_schema = PStr CONTROL_FLOW_PROGRAM_SCHEMA\<rparr>"

lemma mk_program_sel:
  "cp_counter_count (mk_program n is) = n" "cp_instructions (mk_program n is) = is"
  by (simp_all add: mk_program_def)

definition cp_length :: "cf_program \<Rightarrow> int" where
  "cp_length p = int (length (cp_instructions p))"

definition cp_validate :: "cf_program \<Rightarrow> cf_program result" where
  "cp_validate p =
     (if cp_schema p \<noteq> PStr CONTROL_FLOW_PROGRAM_SCHEMA then Inl ValueError
      else if cp_counter_count p < 2 then Inl ValueError
      else if cp_instructions p = [] then Inl ValueError
      else (case all_r (cfi_validate (cp_counter_count p) (cp_length p)) (cp_instructions p) of
              Inl e \<Rightarrow> Inl e
            | Inr _ \<Rightarrow>
                if ci_op (last (cp_instructions p)) \<noteq> Halt then Inl ValueError else Inr p))"

definition cp_payload :: "cf_program \<Rightarrow> pyval result" where
  "cp_payload p = bind_r (cp_validate p) (\<lambda>_. Inr (PDict
     [(''schema'', cp_schema p),
      (''counter_count'', PInt (cp_counter_count p)),
      (''instructions'', PList (map cfi_payload (cp_instructions p)))]))"

fun cp_from_payload :: "pyval \<Rightarrow> cf_program result" where
  "cp_from_payload (PDict kvs) =
     (case dict_get kvs ''instructions'' of
        PList raw \<Rightarrow>
          (case py_int (dict_get_default kvs ''counter_count'' (PInt (-1))) of Inl e \<Rightarrow> Inl e
           | Inr n \<Rightarrow>
             (case map_r cfi_from_payload raw of Inl e \<Rightarrow> Inl e
              | Inr is \<Rightarrow> cp_validate \<lparr>cp_counter_count = n, cp_instructions = is,
                                        cp_schema = dict_get kvs ''schema''\<rparr>))
      | _ \<Rightarrow> Inl TypeError)"
| "cp_from_payload _ = Inl TypeError"

definition cp_digest :: "cf_program \<Rightarrow> string result" where
  "cp_digest p = bind_r (cp_payload p) (\<lambda>v. Inr (digest_payload v))"

section \<open>Execution\<close>

datatype cf_status = Halted | StepBudgetExhausted | CounterLimit | CounterUnderflow

record cf_execution =
  ce_counters :: "int list"
  ce_pointer :: int
  ce_steps :: int
  ce_status :: cf_status
  ce_trace :: "(int \<times> int list) list"

definition ce_validate :: "int \<Rightarrow> cf_execution \<Rightarrow> cf_execution result" where
  "ce_validate counter_count e =
     (if int (length (ce_counters e)) \<noteq> counter_count \<or> (\<exists>v\<in>set (ce_counters e). v < 0)
      then Inl ValueError
      else if ce_pointer e < 0 \<or> ce_steps e < 0 then Inl ValueError
      else if (\<exists>t\<in>set (ce_trace e). fst t < 0 \<or> int (length (snd t)) \<noteq> counter_count)
      then Inl ValueError
      else Inr e)"

text \<open>
  One iteration of the loop on pointer \<open>p\<close> and counters \<open>s\<close>: stop with a status, or go on.
  The operands are asserted present by the code; \<open>operand\<close> reads them.
\<close>

datatype cf_outcome = Stop cf_status "int list" | Go int "int list"

fun operand :: "int option \<Rightarrow> int" where
  "operand (Some k) = k"
| "operand None = 0"

definition cf_step :: "cf_instruction list \<Rightarrow> int \<Rightarrow> int \<Rightarrow> int list \<Rightarrow> cf_outcome" where
  "cf_step is max_counter p s =
     (let i = is ! nat p; c = nat (operand (ci_counter i)); t = operand (ci_target i)
      in if ci_op i = Halt then Stop Halted s
         else if ci_op i = Inc then
           (let s' = s[c := s ! c + 1]
            in if s' ! c > max_counter then Stop CounterLimit s' else Go (p + 1) s')
         else if ci_op i = Dec then
           (if s ! c = 0 then Stop CounterUnderflow s else Go (p + 1) (s[c := s ! c - 1]))
         else if ci_op i = Jump then Go t s
         else
           (let condition = (s ! c = 0);
                condition' = (if ci_op i = JumpIfNonzero then \<not> condition else condition)
            in Go (if condition' then t else p + 1) s))"

fun cf_loop :: "cf_instruction list \<Rightarrow> int \<Rightarrow> int \<Rightarrow> nat \<Rightarrow> int \<Rightarrow> int \<Rightarrow> int list
    \<Rightarrow> (int \<times> int list) list \<Rightarrow> cf_execution result" where
  "cf_loop is max_counter trace_limit 0 steps p s trace =
     Inr \<lparr>ce_counters = s, ce_pointer = p, ce_steps = steps,
          ce_status = StepBudgetExhausted, ce_trace = trace\<rparr>"
| "cf_loop is max_counter trace_limit (Suc n) steps p s trace =
     (let trace' = (if int (length trace) < trace_limit then trace @ [(p, s)] else trace)
      in case cf_step is max_counter p s of
           Stop status s' \<Rightarrow>
             Inr \<lparr>ce_counters = s', ce_pointer = p, ce_steps = steps + 1,
                  ce_status = status, ce_trace = trace'\<rparr>
         | Go p' s' \<Rightarrow>
             if p' \<ge> int (length is) then Inl RuntimeError
             else cf_loop is max_counter trace_limit n (steps + 1) p' s' trace')"

definition cp_execute :: "cf_program \<Rightarrow> int list \<Rightarrow> int \<Rightarrow> int \<Rightarrow> int \<Rightarrow> cf_execution result" where
  "cp_execute p counters max_steps max_counter trace_limit =
     bind_r (cp_validate p) (\<lambda>_.
       if int (length counters) \<noteq> cp_counter_count p \<or> (\<exists>v\<in>set counters. v < 0)
       then Inl ValueError
       else if max_steps < 1 \<or> max_counter < 1 then Inl ValueError
       else bind_r (cf_loop (cp_instructions p) max_counter trace_limit (nat max_steps) 0 0 counters [])
              (ce_validate (cp_counter_count p)))"

text \<open>The default of the \<open>max_counter\<close> keyword.\<close>

definition default_max_counter :: int where
  "default_max_counter = 1000000"

section \<open>The validators, characterised\<close>

definition valid_instruction :: "int \<Rightarrow> int \<Rightarrow> cf_instruction \<Rightarrow> bool" where
  "valid_instruction n l i \<longleftrightarrow> cfi_validate n l i = Inr ()"

definition valid_program :: "cf_program \<Rightarrow> bool" where
  "valid_program p \<longleftrightarrow> cp_validate p = Inr p"

lemma opt_within_iff: "opt_within x n \<longleftrightarrow> (\<exists>k. x = Some k \<and> 0 \<le> k \<and> k < n)"
  by (cases x) auto

definition is_jump :: "cf_op \<Rightarrow> bool" where
  "is_jump x \<longleftrightarrow> x = Jump \<or> x = JumpIfZero \<or> x = JumpIfNonzero"

definition uses_counter :: "cf_op \<Rightarrow> bool" where
  "uses_counter x \<longleftrightarrow> x = Inc \<or> x = Dec \<or> x = JumpIfZero \<or> x = JumpIfNonzero"

lemma valid_instruction_iff [validity]:
  "valid_instruction n l i \<longleftrightarrow> 2 \<le> n \<and> 1 \<le> l \<and> (ci_op i = Halt \<or> is_jump (ci_op i) \<or> uses_counter (ci_op i))
     \<and> (if uses_counter (ci_op i) then opt_within (ci_counter i) n else ci_counter i = None)
     \<and> (if is_jump (ci_op i) then opt_within (ci_target i) l else ci_target i = None)"
  by (cases "ci_op i")
     (auto simp: valid_instruction_def cfi_validate_def is_jump_def uses_counter_def)

lemma cp_validate_Inr: "cp_validate p = Inr q \<longleftrightarrow> q = p \<and> valid_program p"
  by (auto simp: valid_program_def cp_validate_def split: if_splits sum.splits)

lemma cp_validate_error: "\<not> valid_program p \<Longrightarrow> \<exists>e. cp_validate p = Inl e"
  using cp_validate_Inr by (cases "cp_validate p") auto

lemma valid_program_iff [validity]:
  "valid_program p \<longleftrightarrow> cp_schema p = PStr CONTROL_FLOW_PROGRAM_SCHEMA \<and> 2 \<le> cp_counter_count p
     \<and> cp_instructions p \<noteq> []
     \<and> (\<forall>i\<in>set (cp_instructions p). valid_instruction (cp_counter_count p) (cp_length p) i)
     \<and> ci_op (last (cp_instructions p)) = Halt"
  by (auto simp: valid_program_def cp_validate_def valid_instruction_def all_r_Inr_iff
      dest: all_r_Inl split: sum.splits)

lemma valid_mk_program:
  "valid_program (mk_program n is) \<longleftrightarrow> 2 \<le> n \<and> is \<noteq> []
     \<and> (\<forall>i\<in>set is. valid_instruction n (int (length is)) i) \<and> ci_op (last is) = Halt"
  by (simp add: valid_program_iff mk_program_def cp_length_def)

lemma valid_program_eq_mk:
  "valid_program p \<Longrightarrow> p = mk_program (cp_counter_count p) (cp_instructions p)"
  by (simp add: valid_program_iff mk_program_def)

lemma valid_program_nth:
  assumes "valid_program p" and "k < length (cp_instructions p)"
  shows "valid_instruction (cp_counter_count p) (cp_length p) (cp_instructions p ! k)"
  using assms by (simp add: valid_program_iff)

lemma valid_program_last:
  assumes "valid_program p"
  shows "ci_op (cp_instructions p ! (length (cp_instructions p) - 1)) = Halt"
  using assms by (auto simp: valid_program_iff last_conv_nth)

lemma valid_program_length: "valid_program p \<Longrightarrow> 0 < length (cp_instructions p)"
  by (simp add: valid_program_iff)

section \<open>Payload round trip\<close>

lemma op_of_value_op_value [simp]:
  "x = Halt \<or> is_jump x \<or> uses_counter x \<Longrightarrow> op_of_value (op_value x) = x"
  by (auto simp: op_of_value_def is_jump_def uses_counter_def)

lemma opt_int_roundtrip [simp]: "opt_int_of_value (opt_int_value x) = Inr x"
  by (cases x) (simp_all add: opt_int_of_value_def)

lemma cfi_roundtrip:
  "valid_instruction n l i \<Longrightarrow> cfi_from_payload (cfi_payload i) = Inr i"
  by (simp add: cfi_payload_def valid_instruction_iff)

lemma cp_from_payload_valid: "cp_from_payload v = Inr p \<Longrightarrow> valid_program p"
  by (induction v rule: cp_from_payload.induct)
     (auto simp: cp_validate_Inr split: pyval.splits sum.splits)

lemma cp_payload_Inr:
  "cp_payload p = Inr v \<longleftrightarrow> valid_program p \<and> v = PDict
     [(''schema'', cp_schema p),
      (''counter_count'', PInt (cp_counter_count p)),
      (''instructions'', PList (map cfi_payload (cp_instructions p)))]"
  by (auto simp: cp_payload_def bind_r_eq_Inr cp_validate_Inr)

lemma cp_roundtrip:
  assumes "valid_program p" and "cp_payload p = Inr v"
  shows "cp_from_payload v = Inr p"
proof -
  have "map_r cfi_from_payload (map cfi_payload (cp_instructions p)) = Inr (cp_instructions p)"
    using assms(1) unfolding map_r_Inr_iff valid_program_iff
    by (auto simp: list_all2_map1 list_all2_same intro: cfi_roundtrip)
  then show ?thesis
    using assms by (cases p) (simp add: cp_payload_Inr cp_validate_Inr)
qed

lemma cp_payload_valid: "valid_program p \<Longrightarrow> \<exists>v. cp_payload p = Inr v"
  using cp_payload_Inr by blast

lemma cp_digest_valid:
  assumes "valid_program p"
  shows "\<exists>v. cp_payload p = Inr v \<and> cp_digest p = Inr (digest_payload v)"
proof -
  obtain v where "cp_payload p = Inr v" using cp_payload_valid [OF assms] by blast
  then show ?thesis by (simp add: cp_digest_def)
qed

lemma cp_digest_ok: "cp_digest p = Inr d \<Longrightarrow> digest_ok d"
  by (auto simp: cp_digest_def bind_r_eq_Inr)

lemma cfi_validate_cases: "cfi_validate n l i = Inr () \<or> cfi_validate n l i = Inl ValueError"
  by (simp add: cfi_validate_def)

lemma all_r_validate_cases:
  "all_r (cfi_validate n l) xs = Inr () \<or> all_r (cfi_validate n l) xs = Inl ValueError"
proof (induction xs)
  case (Cons x xs)
  then show ?case using cfi_validate_cases [of n l x] by auto
qed simp

lemma cp_validate_cases:
  "cp_validate p = (if valid_program p then Inr p else Inl ValueError)"
proof (cases "valid_program p")
  case False
  then show ?thesis
    using all_r_validate_cases [of "cp_counter_count p" "cp_length p" "cp_instructions p"]
    by (auto simp: valid_program_def cp_validate_def split: if_splits)
qed (simp add: valid_program_def)

section \<open>Properties\<close>

text \<open>A file that moves counter 0 into counter 1, used as the concrete input of several witnesses.\<close>

definition drain :: cf_program where
  "drain = mk_program 2
     [\<lparr>ci_op = JumpIfZero, ci_counter = Some 0, ci_target = Some 4\<rparr>,
      \<lparr>ci_op = Dec, ci_counter = Some 0, ci_target = None\<rparr>,
      \<lparr>ci_op = Inc, ci_counter = Some 1, ci_target = None\<rparr>,
      \<lparr>ci_op = Jump, ci_counter = None, ci_target = Some 0\<rparr>,
      \<lparr>ci_op = Halt, ci_counter = None, ci_target = None\<rparr>]"

lemma drain_valid: "valid_program drain"
  by code_simp

text \<open>
  C1. A valid program survives persistence: its payload can be taken, the digest is the digest of
  that payload and has the shape the stores require, and reading the payload back gives the same
  program.
\<close>

theorem program_payload_roundtrip:
  assumes "valid_program p"
  shows "\<exists>v. cp_payload p = Inr v \<and> cp_from_payload v = Inr p
    \<and> cp_digest p = Inr (digest_payload v) \<and> digest_ok (digest_payload v)"
  using cp_digest_valid [OF assms] cp_roundtrip [OF assms] by auto

theorem program_payload_roundtrip_witness:
  "\<exists>v. cp_payload drain = Inr v \<and> cp_from_payload v = Inr drain
    \<and> cp_digest drain = Inr (digest_payload v) \<and> digest_ok (digest_payload v)"
  by (rule program_payload_roundtrip [OF drain_valid])

end
