(* ===== verification/ControlFlowExec.thy ===== *)
theory ControlFlowExec
  imports ControlFlow
begin

text \<open>
  Facts about the executor of \<open>ControlFlow\<close>: a validated program on valid inputs always returns,
  with its counters non-negative and within the resource bounds; the pointer never leaves the
  program, so the \<open>RuntimeError\<close> of \<open>execute\<close> is unreachable; a larger step budget never changes
  a result that was reached.  \<open>cf_path\<close> is the small-step reading of the loop that the proofs
  about edited programs use.
\<close>

section \<open>Code and states\<close>

definition valid_code :: "int \<Rightarrow> cf_instruction list \<Rightarrow> bool" where
  "valid_code n is \<longleftrightarrow> valid_program (mk_program n is)"

definition counters_ok :: "int \<Rightarrow> int list \<Rightarrow> bool" where
  "counters_ok n s \<longleftrightarrow> int (length s) = n \<and> (\<forall>v\<in>set s. 0 \<le> v)"

lemma valid_program_code: "valid_program p \<Longrightarrow> valid_code (cp_counter_count p) (cp_instructions p)"
  using valid_program_eq_mk [of p] by (simp add: valid_code_def)

lemma valid_code_nth:
  assumes "valid_code n is" and "in_range p (length is)"
  shows "valid_instruction n (int (length is)) (is ! nat p)"
  using assms in_range_nat [OF assms(2)] by (auto simp: valid_code_def valid_mk_program)

lemma valid_code_last:
  assumes "valid_code n is" and "p = int (length is) - 1"
  shows "ci_op (is ! nat p) = Halt"
  using assms by (auto simp: valid_code_def valid_mk_program last_conv_nth nat_diff_distrib')

lemma valid_code_pos: "valid_code n is \<Longrightarrow> in_range 0 (length is)"
  by (auto simp: valid_code_def valid_mk_program in_range_def)

lemma counters_ok_nth:
  "counters_ok n s \<Longrightarrow> opt_within c n \<Longrightarrow> nat (operand c) < length s \<and> 0 \<le> s ! nat (operand c)"
  by (auto simp: counters_ok_def opt_within_iff)

lemma counters_ok_update:
  "counters_ok n s \<Longrightarrow> 0 \<le> v \<Longrightarrow> counters_ok n (s[k := v])"
  by (auto simp: counters_ok_def dest: set_update_subset_insert [THEN subsetD])

lemma fall_through_in_range:
  assumes "valid_code n is" and "in_range p (length is)" and "ci_op (is ! nat p) \<noteq> Halt"
  shows "in_range (p + 1) (length is)"
proof -
  have "p \<noteq> int (length is) - 1" using valid_code_last assms(1,3) by blast
  with assms(2) show ?thesis by (simp add: in_range_def)
qed

text \<open>One step keeps the pointer in range and the counters valid.\<close>

lemma cf_step_Go:
  assumes "valid_code n is" and "in_range p (length is)" and "counters_ok n s"
    and "cf_step is m p s = Go p' s'"
  shows "in_range p' (length is) \<and> counters_ok n s'"
proof -
  let ?i = "is ! nat p"
  have v: "valid_instruction n (int (length is)) ?i"
    using valid_code_nth assms(1,2) .
  have nh: "ci_op ?i \<noteq> Halt" using assms(4) by (auto simp: cf_step_def)
  note next_ok = fall_through_in_range [OF assms(1,2) nh]
  have c: "uses_counter (ci_op ?i) \<Longrightarrow>
      nat (operand (ci_counter ?i)) < length s \<and> 0 \<le> s ! nat (operand (ci_counter ?i))"
    using v counters_ok_nth [OF assms(3)] by (simp add: valid_instruction_iff)
  have t: "is_jump (ci_op ?i) \<Longrightarrow> in_range (operand (ci_target ?i)) (length is)"
    using v by (auto simp: valid_instruction_iff opt_within_iff in_range_def)
  have op: "is_jump (ci_op ?i) \<or> ci_op ?i = Inc \<or> ci_op ?i = Dec"
    using v nh by (auto simp: valid_instruction_iff uses_counter_def is_jump_def)
  show ?thesis
    using assms(3,4) nh op c t next_ok
    by (auto simp: cf_step_def Let_def is_jump_def uses_counter_def counters_ok_update
        split: if_splits)
qed

lemma cf_step_Stop:
  assumes "valid_code n is" and "in_range p (length is)" and "counters_ok n s"
    and "cf_step is m p s = Stop st s'"
  shows "counters_ok n s' \<and> st \<noteq> StepBudgetExhausted"
proof -
  let ?i = "is ! nat p"
  have v: "valid_instruction n (int (length is)) ?i"
    using valid_code_nth assms(1,2) .
  have c: "ci_op ?i = Inc \<Longrightarrow> 0 \<le> s ! nat (operand (ci_counter ?i))"
    using v counters_ok_nth [OF assms(3)] by (simp add: valid_instruction_iff uses_counter_def)
  show ?thesis
    using assms(3,4) c
    by (auto simp: cf_step_def Let_def counters_ok_update split: if_splits)
qed

text \<open>The counter bound: only the increment that reports \<open>CounterLimit\<close> passes \<open>max_counter\<close>.\<close>

definition counters_below :: "int \<Rightarrow> int list \<Rightarrow> bool" where
  "counters_below b s \<longleftrightarrow> (\<forall>v\<in>set s. v \<le> b)"

lemma counters_below_update: "counters_below b s \<Longrightarrow> v \<le> b \<Longrightarrow> counters_below b (s[k := v])"
  by (auto simp: counters_below_def dest: set_update_subset_insert [THEN subsetD])

lemma counters_below_nth: "counters_below b s \<Longrightarrow> k < length s \<Longrightarrow> s ! k \<le> b"
  by (simp add: counters_below_def)

lemma counters_below_mono: "counters_below a s \<Longrightarrow> a \<le> b \<Longrightarrow> counters_below b s"
  by (auto simp: counters_below_def)

lemma cf_step_bound:
  assumes "valid_code n is" and "in_range p (length is)" and "counters_ok n s"
    and "counters_below b s" and "m \<le> b"
  shows "(cf_step is m p s = Go p' s' \<longrightarrow> counters_below b s') \<and>
         (cf_step is m p s = Stop st s' \<longrightarrow>
            counters_below (if st = CounterLimit then b + 1 else b) s')"
proof -
  let ?i = "is ! nat p"
  have v: "valid_instruction n (int (length is)) ?i"
    using valid_code_nth assms(1,2) .
  have c: "uses_counter (ci_op ?i) \<Longrightarrow> nat (operand (ci_counter ?i)) < length s
      \<and> s ! nat (operand (ci_counter ?i)) \<le> b"
    using v counters_ok_nth [OF assms(3)] counters_below_nth [OF assms(4)]
    by (simp add: valid_instruction_iff)
  have b1: "counters_below (b + 1) s" using assms(4) by (rule counters_below_mono) simp
  show ?thesis
    using assms(4,5) c b1
    by (auto simp: cf_step_def Let_def uses_counter_def intro!: counters_below_update
        split: if_splits)
qed

section \<open>The loop\<close>

definition trace_ok :: "int \<Rightarrow> (int \<times> int list) list \<Rightarrow> bool" where
  "trace_ok n tr \<longleftrightarrow> (\<forall>t\<in>set tr. 0 \<le> fst t \<and> int (length (snd t)) = n)"

lemma trace_ok_snoc:
  "trace_ok n tr \<Longrightarrow> in_range p k \<Longrightarrow> counters_ok n s \<Longrightarrow> trace_ok n (tr @ [(p, s)])"
  by (auto simp: trace_ok_def counters_ok_def in_range_def)

lemma cf_loop_ok:
  assumes "valid_code n is" and "in_range p (length is)" and "counters_ok n s"
    and "counters_below b s" and "m \<le> b" and "trace_ok n tr" and "0 \<le> st"
    and "int (length tr) \<le> max 0 lim" and "int (length tr) \<le> st"
  shows "\<exists>e. cf_loop is m lim k st p s tr = Inr e \<and> counters_ok n (ce_counters e)
      \<and> in_range (ce_pointer e) (length is) \<and> st \<le> ce_steps e \<and> ce_steps e \<le> st + int k
      \<and> trace_ok n (ce_trace e) \<and> int (length (ce_trace e)) \<le> max 0 lim
      \<and> counters_below (if ce_status e = CounterLimit then b + 1 else b) (ce_counters e)
      \<and> (ce_status e = StepBudgetExhausted \<longrightarrow> ce_steps e = st + int k)
      \<and> (ce_status e = Halted \<longrightarrow> ci_op (is ! nat (ce_pointer e)) = Halt)"
  using assms
proof (induction k arbitrary: st p s tr)
  case 0
  then show ?case by simp
next
  case (Suc k)
  let ?tr = "if int (length tr) < lim then tr @ [(p, s)] else tr"
  have tr: "trace_ok n ?tr" "int (length ?tr) \<le> max 0 lim" "int (length ?tr) \<le> st + 1"
    using Suc.prems trace_ok_snoc [OF Suc.prems(6,2,3)] by auto
  show ?case
  proof (cases "cf_step is m p s")
    case (Stop x s')
    have "counters_ok n s'" using cf_step_Stop [OF Suc.prems(1-3) Stop] by simp
    moreover have "counters_below (if x = CounterLimit then b + 1 else b) s'"
      using cf_step_bound [OF Suc.prems(1-5)] Stop by blast
    moreover have "x = Halted \<longrightarrow> ci_op (is ! nat p) = Halt"
      using Stop by (auto simp: cf_step_def Let_def split: if_splits)
    ultimately show ?thesis
      using Suc.prems tr cf_step_Stop [OF Suc.prems(1-3) Stop]
      by (simp add: Stop Let_def del: if_split)
  next
    case (Go p' s')
    have go: "in_range p' (length is)" "counters_ok n s'"
      using cf_step_Go [OF Suc.prems(1-3) Go] by auto
    moreover have "counters_below b s'" using cf_step_bound [OF Suc.prems(1-5)] Go by blast
    ultimately obtain e where "cf_loop is m lim k (st + 1) p' s' ?tr = Inr e"
      "counters_ok n (ce_counters e)" "in_range (ce_pointer e) (length is)"
      "st + 1 \<le> ce_steps e" "ce_steps e \<le> st + 1 + int k" "trace_ok n (ce_trace e)"
      "int (length (ce_trace e)) \<le> max 0 lim"
      "counters_below (if ce_status e = CounterLimit then b + 1 else b) (ce_counters e)"
      "ce_status e = StepBudgetExhausted \<longrightarrow> ce_steps e = st + 1 + int k"
      "ce_status e = Halted \<longrightarrow> ci_op (is ! nat (ce_pointer e)) = Halt"
      using Suc.IH [of p' s' ?tr "st + 1"] Suc.prems tr by auto
    moreover have "\<not> p' \<ge> int (length is)" using go by (simp add: in_range_def)
    ultimately show ?thesis
      by (intro exI [of _ e]) (simp add: Go Let_def)
  qed
qed

lemma ce_validate_ok:
  "counters_ok n (ce_counters e) \<Longrightarrow> 0 \<le> ce_pointer e \<Longrightarrow> 0 \<le> ce_steps e \<Longrightarrow>
     trace_ok n (ce_trace e) \<Longrightarrow> ce_validate n e = Inr e"
  by (auto simp: ce_validate_def counters_ok_def trace_ok_def not_less)

definition exec_args_ok :: "cf_program \<Rightarrow> int list \<Rightarrow> int \<Rightarrow> int \<Rightarrow> bool" where
  "exec_args_ok p c max_steps max_counter \<longleftrightarrow>
     valid_program p \<and> counters_ok (cp_counter_count p) c \<and> 1 \<le> max_steps \<and> 1 \<le> max_counter"

lemma cp_execute_loop:
  assumes "exec_args_ok p c k m"
  shows "cp_execute p c k m lim =
    bind_r (cf_loop (cp_instructions p) m lim (nat k) 0 0 c []) (ce_validate (cp_counter_count p))"
  using assms
  by (auto simp: cp_execute_def exec_args_ok_def counters_ok_def valid_program_def bind_r_eq_Inr
      not_less)

lemma cp_execute_total:
  assumes "exec_args_ok p c k m" and "counters_below b c" and "m \<le> b"
  shows "\<exists>e. cp_execute p c k m lim = Inr e
      \<and> cf_loop (cp_instructions p) m lim (nat k) 0 0 c [] = Inr e
      \<and> counters_ok (cp_counter_count p) (ce_counters e)
      \<and> in_range (ce_pointer e) (length (cp_instructions p))
      \<and> 0 \<le> ce_steps e \<and> ce_steps e \<le> k \<and> int (length (ce_trace e)) \<le> max 0 lim
      \<and> counters_below (if ce_status e = CounterLimit then b + 1 else b) (ce_counters e)
      \<and> (ce_status e = StepBudgetExhausted \<longrightarrow> ce_steps e = k)
      \<and> (ce_status e = Halted \<longrightarrow> ci_op (cp_instructions p ! nat (ce_pointer e)) = Halt)"
proof -
  let ?n = "cp_counter_count p" and ?is = "cp_instructions p"
  have v: "valid_code ?n ?is" using assms(1) by (simp add: exec_args_ok_def valid_program_code)
  have c: "counters_ok ?n c" and k: "int (nat k) = k" using assms(1) by (auto simp: exec_args_ok_def)
  obtain e where e: "cf_loop ?is m lim (nat k) 0 0 c [] = Inr e" "counters_ok ?n (ce_counters e)"
      "in_range (ce_pointer e) (length ?is)" "0 \<le> ce_steps e" "ce_steps e \<le> k"
      "trace_ok ?n (ce_trace e)" "int (length (ce_trace e)) \<le> max 0 lim"
      "counters_below (if ce_status e = CounterLimit then b + 1 else b) (ce_counters e)"
      "ce_status e = StepBudgetExhausted \<longrightarrow> ce_steps e = k"
      "ce_status e = Halted \<longrightarrow> ci_op (?is ! nat (ce_pointer e)) = Halt"
    using cf_loop_ok [OF v valid_code_pos [OF v] c assms(2,3), of "[]" 0 lim "nat k"] k
    by (auto simp: trace_ok_def)
  then have "ce_validate ?n e = Inr e"
    by (intro ce_validate_ok) (auto simp: in_range_def)
  with e assms(1) show ?thesis by (auto simp: cp_execute_loop)
qed

section \<open>Small steps\<close>

text \<open>
  \<open>cf_path is m k (p, s) (p', s')\<close>: the code takes \<open>k\<close> non-stopping steps from pointer \<open>p\<close> and
  counters \<open>s\<close> to \<open>p'\<close> and \<open>s'\<close>, never leaving the program.
\<close>

inductive cf_path :: "cf_instruction list \<Rightarrow> int \<Rightarrow> nat \<Rightarrow> int \<times> int list \<Rightarrow> int \<times> int list \<Rightarrow> bool"
  for code m where
  path_refl: "cf_path code m 0 c c"
| path_step: "cf_step code m p s = Go p' s' \<Longrightarrow> in_range p' (length code) \<Longrightarrow>
    cf_path code m k (p', s') c \<Longrightarrow> cf_path code m (Suc k) (p, s) c"

inductive_cases cf_path_0E [elim!]: "cf_path is m 0 c d"
inductive_cases cf_path_SucE: "cf_path is m (Suc k) (p, s) c"
inductive_simps cf_path_0_simp [simp]: "cf_path is m 0 c d"

lemma cf_path_trans:
  "cf_path is m j c d \<Longrightarrow> cf_path is m k d e \<Longrightarrow> cf_path is m (j + k) c e"
  by (induction rule: cf_path.induct) (auto intro: path_step)

lemma cf_path_invariant:
  assumes "cf_path is m k (p, s) (p', s')" and "valid_code n is"
    and "in_range p (length is)" and "counters_ok n s"
  shows "in_range p' (length is) \<and> counters_ok n s'"
  using assms
  by (induction k "(p, s)" "(p', s')" arbitrary: p s rule: cf_path.induct) (auto dest: cf_step_Go)

text \<open>What \<open>execute\<close> returns, apart from the trace.\<close>

definition ce_result :: "cf_execution \<Rightarrow> cf_status \<times> int \<times> int list \<times> int" where
  "ce_result e = (ce_status e, ce_pointer e, ce_counters e, ce_steps e)"

fun cf_run :: "cf_instruction list \<Rightarrow> int \<Rightarrow> nat \<Rightarrow> int \<Rightarrow> int \<Rightarrow> int list
    \<Rightarrow> (cf_status \<times> int \<times> int list \<times> int) result" where
  "cf_run is m 0 st p s = Inr (StepBudgetExhausted, p, s, st)"
| "cf_run is m (Suc k) st p s =
     (case cf_step is m p s of
        Stop x s' \<Rightarrow> Inr (x, p, s', st + 1)
      | Go p' s' \<Rightarrow> if p' \<ge> int (length is) then Inl RuntimeError
                   else cf_run is m k (st + 1) p' s')"

lemma cf_loop_run:
  "cf_loop is m lim k st p s tr = Inr e \<Longrightarrow> cf_run is m k st p s = Inr (ce_result e)"
proof (induction k arbitrary: st p s tr)
  case 0
  then show ?case by (auto simp: ce_result_def)
next
  case (Suc k)
  show ?case
  proof (cases "cf_step is m p s")
    case (Stop x s')
    with Suc.prems show ?thesis by (auto simp: ce_result_def Let_def)
  next
    case (Go p' s')
    with Suc show ?thesis by (auto simp: Let_def split: if_splits)
  qed
qed

lemma cp_execute_run:
  assumes "exec_args_ok p c k m" and "cp_execute p c k m lim = Inr e"
  shows "cf_run (cp_instructions p) m (nat k) 0 0 c = Inr (ce_result e)"
proof -
  obtain b where "counters_below b c" "m \<le> b"
    by (metis counters_below_def list.set_finite Max_ge max.cobounded1 max.coboundedI2 max.commute)
  then show ?thesis
    using cp_execute_total [OF assms(1), of b lim] assms(2) cf_loop_run by fastforce
qed

lemma cf_run_path:
  assumes "cf_path is m j (p, s) (p', s')"
  shows "cf_run is m (j + k) st p s = cf_run is m k (st + int j) p' s'"
  using assms
proof (induction j "(p, s)" "(p', s')" arbitrary: p s st rule: cf_path.induct)
  case path_refl
  then show ?case by simp
next
  case (path_step p s q t j)
  then show ?case by (simp add: in_range_def algebra_simps)
qed

text \<open>A stopping run is a path followed by a stopping step.\<close>

lemma cf_run_stop:
  assumes "cf_run is m k st p s = Inr (x, p', s', st')" and "x \<noteq> StepBudgetExhausted"
    and "valid_code n is" and "in_range p (length is)" and "counters_ok n s"
  shows "\<exists>j s0. j < k \<and> st' = st + int j + 1 \<and> cf_path is m j (p, s) (p', s0)
      \<and> cf_step is m p' s0 = Stop x s'"
  using assms
proof (induction k arbitrary: st p s)
  case 0
  then show ?case by simp
next
  case (Suc k)
  show ?case
  proof (cases "cf_step is m p s")
    case (Stop y t)
    with Suc.prems(1) show ?thesis by (intro exI [of _ 0]) auto
  next
    case (Go q t)
    have q: "in_range q (length is)" "counters_ok n t"
      using cf_step_Go [OF Suc.prems(3-5) Go] by auto
    then have "cf_run is m k (st + 1) q t = Inr (x, p', s', st')"
      using Suc.prems(1) Go by (auto simp: in_range_def)
    then obtain j s0 where "j < k" "st' = st + 1 + int j + 1" "cf_path is m j (q, t) (p', s0)"
        "cf_step is m p' s0 = Stop x s'"
      using Suc.IH Suc.prems(2,3) q by blast
    then show ?thesis
      using path_step [OF Go q(1)] by (intro exI [of _ "Suc j"] exI [of _ s0]) auto
  qed
qed

lemma cf_run_budget:
  assumes "cf_run is m k st p s = Inr (StepBudgetExhausted, p', s', st')"
    and "valid_code n is" and "in_range p (length is)" and "counters_ok n s"
  shows "st' = st + int k \<and> cf_path is m k (p, s) (p', s')"
  using assms
proof (induction k arbitrary: st p s)
  case 0
  then show ?case by auto
next
  case (Suc k)
  show ?case
  proof (cases "cf_step is m p s")
    case (Stop y t)
    then show ?thesis using Suc.prems cf_step_Stop [OF Suc.prems(2-4) Stop] by auto
  next
    case (Go q t)
    have q: "in_range q (length is)" "counters_ok n t"
      using cf_step_Go [OF Suc.prems(2-4) Go] by auto
    then have "cf_run is m k (st + 1) q t = Inr (StepBudgetExhausted, p', s', st')"
      using Suc.prems(1) Go by (auto simp: in_range_def)
    then have "st' = st + 1 + int k \<and> cf_path is m k (q, t) (p', s')"
      using Suc.IH Suc.prems(2) q by blast
    then show ?thesis using path_step [OF Go q(1)] by auto
  qed
qed

lemma cf_run_total:
  assumes "valid_code n is" and "in_range p (length is)" and "counters_ok n s"
  shows "\<exists>x p' s' st'. cf_run is m k st p s = Inr (x, p', s', st') \<and> in_range p' (length is)
      \<and> counters_ok n s'"
  using assms
proof (induction k arbitrary: st p s)
  case 0
  then show ?case by simp
next
  case (Suc k)
  show ?case
  proof (cases "cf_step is m p s")
    case (Stop y t)
    then show ?thesis using Suc.prems cf_step_Stop [OF Suc.prems Stop] by auto
  next
    case (Go q t)
    have q: "in_range q (length is)" "counters_ok n t"
      using cf_step_Go [OF Suc.prems Go] by auto
    then show ?thesis
      using Go Suc.IH [OF Suc.prems(1) q, of "st + 1"] by (auto simp: in_range_def)
  qed
qed

text \<open>A run that stopped is not changed by a larger budget.\<close>

lemma cf_run_mono:
  "cf_run is m k st p s = Inr (x, r) \<Longrightarrow> x \<noteq> StepBudgetExhausted \<Longrightarrow> k \<le> j \<Longrightarrow>
     cf_run is m j st p s = Inr (x, r)"
proof (induction k arbitrary: j st p s)
  case 0
  then show ?case by simp
next
  case (Suc k)
  then obtain i where j: "j = Suc i" "k \<le> i" by (cases j) auto
  with Suc show ?case by (auto split: cf_outcome.splits if_splits)
qed

lemma cf_loop_trace_prefix:
  "cf_loop is m lim k st p s tr = Inr e \<Longrightarrow> \<exists>us. ce_trace e = tr @ us"
proof (induction k arbitrary: st p s tr)
  case 0
  then show ?case by auto
next
  case (Suc k)
  then show ?case
    by (fastforce simp: Let_def split: cf_outcome.splits if_splits)
qed

lemma cf_loop_mono:
  "cf_loop is m lim k st p s tr = Inr e \<Longrightarrow> ce_status e \<noteq> StepBudgetExhausted \<Longrightarrow> k \<le> j \<Longrightarrow>
     cf_loop is m lim j st p s tr = Inr e"
proof (induction k arbitrary: j st p s tr)
  case 0
  then show ?case by auto
next
  case (Suc k)
  then obtain i where j: "j = Suc i" "k \<le> i" by (cases j) auto
  with Suc show ?case
    by (auto simp: Let_def split: cf_outcome.splits if_splits)
qed

lemma exec_args_run:
  assumes "exec_args_ok p c k m"
  shows "\<exists>e. cp_execute p c k m lim = Inr e \<and> counters_ok (cp_counter_count p) (ce_counters e)
    \<and> cf_run (cp_instructions p) m (nat k) 0 0 c = Inr (ce_result e)"
proof -
  have "counters_below (Max (insert m (set c))) c" "m \<le> Max (insert m (set c))"
    by (auto simp: counters_below_def)
  then obtain e where "cp_execute p c k m lim = Inr e" "counters_ok (cp_counter_count p) (ce_counters e)"
    using cp_execute_total [OF assms] by blast
  then show ?thesis using cp_execute_run [OF assms] by blast
qed

section \<open>Properties\<close>

lemma cp_execute_invalid:
  assumes "\<not> exec_args_ok p c k m"
  shows "cp_execute p c k m lim = Inl ValueError"
  using assms
  by (auto simp: cp_execute_def exec_args_ok_def counters_ok_def cp_validate_cases not_less)



text \<open>
  Counters stay within the resource bound: started with counters at most \<open>b\<close>, with \<open>b\<close> at
  least \<open>max_counter\<close>, every counter ends at most \<open>b\<close>, except that the increment reported as
  \<open>counter_limit\<close> may leave one at \<open>b + 1\<close>.
\<close>

lemma execute_counter_bound:
  assumes "cp_execute p c k m lim = Inr e" and "\<forall>v\<in>set c. v \<le> b" and "m \<le> b"
    and "x \<in> set (ce_counters e)"
  shows "x \<le> (if ce_status e = CounterLimit then b + 1 else b)"
proof -
  have "exec_args_ok p c k m"
    using assms(1) cp_execute_invalid [of p c k m lim] by fastforce
  then show ?thesis
    using cp_execute_total [of p c k m b lim] assms by (auto simp: counters_below_def)
qed

text \<open>The loop that counts up until the limit, for the witness.\<close>

definition count_up :: cf_program where
  "count_up = mk_program 2
     [\<lparr>ci_op = Inc, ci_counter = Some 1, ci_target = None\<rparr>,
      \<lparr>ci_op = Jump, ci_counter = None, ci_target = Some 0\<rparr>,
      \<lparr>ci_op = Halt, ci_counter = None, ci_target = None\<rparr>]"

definition count_up_result :: cf_execution where
  "count_up_result = \<lparr>ce_counters = [0, 4], ce_pointer = 0, ce_steps = 7, ce_status = CounterLimit,
     ce_trace = [(0, [0, 0])]\<rparr>"

lemma count_up_execute: "cp_execute count_up [0, 0] 50 3 1 = Inr count_up_result"
  by code_simp

text \<open>
  A result that did not run out of its step budget does not depend on the budget: every larger
  budget returns the same execution record, its trace included.
\<close>

lemma execute_budget_independent:
  assumes "cp_execute p c k m lim = Inr e" and "ce_status e \<noteq> StepBudgetExhausted" and "k \<le> k'"
  shows "cp_execute p c k' m lim = Inr e"
proof -
  have args: "exec_args_ok p c k m"
    using assms(1) cp_execute_invalid [of p c k m lim] by fastforce
  then have args': "exec_args_ok p c k' m" using assms(3) by (simp add: exec_args_ok_def)
  obtain f where f: "cf_loop (cp_instructions p) m lim (nat k) 0 0 c [] = Inr f"
      "ce_validate (cp_counter_count p) f = Inr e"
    using assms(1) by (auto simp: cp_execute_loop [OF args] bind_r_eq_Inr)
  then have "f = e" by (auto simp: ce_validate_def split: if_splits)
  then have "cf_loop (cp_instructions p) m lim (nat k') 0 0 c [] = Inr e"
    using cf_loop_mono [OF f(1), of "nat k'"] assms(2,3) by simp
  then show ?thesis using f(2) \<open>f = e\<close> by (simp add: cp_execute_loop [OF args'])
qed

end
