(* ===== verification/ControlFlowEdit.thy ===== *)
theory ControlFlowEdit
  imports ControlFlowExec
begin

text \<open>
  The structural edits of \<open>control_flow.py\<close>: inserting and deleting one instruction, sequential
  composition and splicing of a fragment, each with its relocation of jump targets.

  The locale \<open>relocation\<close> is the contract between an edit and the executor: a piece of source
  code sits at relocated positions of the edited code, its jump targets rewritten by one map.
  Its extension \<open>embedding\<close> adds that falling through agrees with the rewritten targets, and
  then runs of the source code are runs of the edited code.  Every edit of the file interprets
  one of them.
\<close>

section \<open>The edits\<close>

definition retarget :: "(int \<Rightarrow> int) \<Rightarrow> cf_instruction \<Rightarrow> cf_instruction" where
  "retarget f i = (if is_jump (ci_op i)
     then \<lparr>ci_op = ci_op i, ci_counter = ci_counter i, ci_target = map_option f (ci_target i)\<rparr>
     else i)"

definition insert_shift :: "int \<Rightarrow> int \<Rightarrow> int" where
  "insert_shift position t = t + (if t \<ge> position then 1 else 0)"

definition insert_control_flow_instruction ::
    "cf_program \<Rightarrow> int \<Rightarrow> cf_instruction \<Rightarrow> cf_program result" where
  "insert_control_flow_instruction p position i =
     bind_r (cp_validate p) (\<lambda>_.
       if \<not> (0 \<le> position \<and> position < cp_length p) then Inl ValueError
       else if ci_op i = Halt then Inl ValueError
       else bind_r (cfi_validate (cp_counter_count p) (cp_length p + 1) i) (\<lambda>_.
         let is = map (retarget (insert_shift position)) (cp_instructions p)
         in cp_validate (mk_program (cp_counter_count p)
              (take (nat position) is @ [i] @ drop (nat position) is))))"

definition delete_shift :: "int \<Rightarrow> int \<Rightarrow> int" where
  "delete_shift position t = t - (if t > position then 1 else 0)"

definition delete_relocate :: "int \<Rightarrow> cf_instruction \<Rightarrow> cf_instruction result" where
  "delete_relocate position i =
     (if \<not> is_jump (ci_op i) then Inr i
      else if ci_target i = Some position then Inl ValueError
      else Inr (retarget (delete_shift position) i))"

definition delete_control_flow_instruction :: "cf_program \<Rightarrow> int \<Rightarrow> cf_program result" where
  "delete_control_flow_instruction p position =
     bind_r (cp_validate p) (\<lambda>_.
       if \<not> (0 \<le> position \<and> position < cp_length p - 1) then Inl ValueError
       else bind_r (map_r (delete_relocate position)
              (take (nat position) (cp_instructions p) @ drop (nat position + 1) (cp_instructions p)))
            (\<lambda>is. cp_validate (mk_program (cp_counter_count p) is)))"

definition has_internal_halt :: "cf_program \<Rightarrow> bool" where
  "has_internal_halt p \<longleftrightarrow> (\<exists>i\<in>set (butlast (cp_instructions p)). ci_op i = Halt)"

definition component_shift :: "int \<Rightarrow> int \<Rightarrow> int \<Rightarrow> int \<Rightarrow> int" where
  "component_shift component_offset next_target terminal t =
     (if t = terminal then next_target else component_offset + t)"

text \<open>
  The loop over \<open>enumerate(validated)\<close>.  A component starts at the sum of the body lengths
  before it (\<open>offsets\<close>); its \<open>next_target\<close> is the offset of the next component, or the total body
  length for the last one, and both are the running sum after this body.
\<close>

fun compose_bodies :: "int \<Rightarrow> cf_program list \<Rightarrow> cf_instruction list" where
  "compose_bodies offset [] = []"
| "compose_bodies offset (p # ps) =
     (let next_target = offset + (cp_length p - 1)
      in map (retarget (component_shift offset next_target (cp_length p - 1)))
           (butlast (cp_instructions p)) @ compose_bodies next_target ps)"

definition halt_instruction :: cf_instruction where
  "halt_instruction = \<lparr>ci_op = Halt, ci_counter = None, ci_target = None\<rparr>"

definition compose_control_flow_programs :: "cf_program list \<Rightarrow> cf_program result" where
  "compose_control_flow_programs ps =
     (if ps = [] then Inl ValueError
      else bind_r (map_r cp_validate ps) (\<lambda>validated.
        let counter_count = cp_counter_count (hd validated)
        in if \<exists>p\<in>set validated. cp_counter_count p \<noteq> counter_count then Inl ValueError
           else if \<exists>p\<in>set validated. has_internal_halt p then Inl ValueError
           else cp_validate (mk_program counter_count
                  (compose_bodies 0 validated @ [halt_instruction]))))"

definition splice_parent_shift :: "int \<Rightarrow> int \<Rightarrow> int \<Rightarrow> int" where
  "splice_parent_shift position shift t = t + (if t > position then shift else 0)"

definition splice_fragment_shift :: "int \<Rightarrow> int \<Rightarrow> int \<Rightarrow> int \<Rightarrow> int" where
  "splice_fragment_shift position continuation terminal t =
     (if t = terminal then continuation else position + t)"

definition splice_control_flow_program ::
    "cf_program \<Rightarrow> int \<Rightarrow> cf_program \<Rightarrow> cf_program result" where
  "splice_control_flow_program p position f =
     bind_r (cp_validate p) (\<lambda>_. bind_r (cp_validate f) (\<lambda>_.
       if cp_counter_count p \<noteq> cp_counter_count f then Inl ValueError
       else if \<not> (0 \<le> position \<and> position \<le> cp_length p - 1) then Inl ValueError
       else if butlast (cp_instructions f) = [] then Inl ValueError
       else
         let shift = cp_length f - 1;
             continuation = position + shift;
             rebased_fragment =
               map (retarget (splice_fragment_shift position continuation (cp_length f - 1)))
                 (butlast (cp_instructions f));
             rebased_parent =
               map (retarget (splice_parent_shift position shift)) (cp_instructions p)
         in cp_validate (mk_program (cp_counter_count p)
              (take (nat position) rebased_parent @ rebased_fragment
                @ drop (nat position) rebased_parent))))"

section \<open>Relocated code\<close>

text \<open>
  \<open>'c\<close> is what an edit is applied to.  \<open>src c\<close> sits in \<open>dst c\<close>: the instruction at \<open>p \<in> body c\<close>
  is at \<open>loc c p\<close> with its targets rewritten by \<open>jmp c\<close>.
\<close>

lemma retarget_simps [simp]:
  "ci_op (retarget f i) = ci_op i" "ci_counter (retarget f i) = ci_counter i"
  by (simp_all add: retarget_def)

lemma retarget_target:
  "ci_target (retarget f i) = (if is_jump (ci_op i) then map_option f (ci_target i) else ci_target i)"
  by (simp add: retarget_def)

lemma valid_retarget:
  assumes "valid_instruction n l i" and "1 \<le> l'"
    and "\<And>t. 0 \<le> t \<Longrightarrow> t < l \<Longrightarrow> 0 \<le> f t \<and> f t < l'"
  shows "valid_instruction n l' (retarget f i)"
  using assms by (auto simp: valid_instruction_iff retarget_target opt_within_iff)

text \<open>A step is a fall-through to the next position or a jump to the target.\<close>

fun step_relocated :: "(int \<Rightarrow> int) \<Rightarrow> int \<Rightarrow> int \<Rightarrow> bool \<Rightarrow> cf_outcome \<Rightarrow> cf_outcome" where
  "step_relocated f p p' jumped (Stop x s) = Stop x s"
| "step_relocated f p p' jumped (Go q s) = Go (if jumped then f q else p' + 1) s"

definition jumps :: "cf_instruction \<Rightarrow> int list \<Rightarrow> bool" where
  "jumps i s \<longleftrightarrow> is_jump (ci_op i) \<and>
     (ci_op i = Jump \<or> (ci_op i = JumpIfNonzero) = (s ! nat (operand (ci_counter i)) \<noteq> 0))"

lemma cf_step_no_jump:
  assumes "valid_instruction n l (is ! nat p)" and "\<not> jumps (is ! nat p) s"
    and "cf_step is m p s = Go q t"
  shows "q = p + 1"
  using assms
  by (auto simp: cf_step_def Let_def jumps_def is_jump_def valid_instruction_iff uses_counter_def
      split: if_splits)

lemma cf_step_retarget:
  assumes "valid_instruction n l (is ! nat p)" and "js ! nat p' = retarget f (is ! nat p)"
  shows "cf_step js m p' s =
    step_relocated f p p' (jumps (is ! nat p) s) (cf_step is m p s)"
  using assms
  by (cases "ci_op (is ! nat p)")
     (auto simp: cf_step_def Let_def jumps_def is_jump_def retarget_target opt_within_iff
       valid_instruction_iff uses_counter_def)

locale relocation =
  fixes ok :: "'c \<Rightarrow> bool"
    and width :: "'c \<Rightarrow> int"
    and src :: "'c \<Rightarrow> cf_instruction list"
    and dst :: "'c \<Rightarrow> cf_instruction list"
    and body :: "'c \<Rightarrow> int set"
    and loc :: "'c \<Rightarrow> int \<Rightarrow> int"
    and jmp :: "'c \<Rightarrow> int \<Rightarrow> int"
  assumes src_valid: "ok c \<Longrightarrow> valid_code (width c) (src c)"
    and dst_valid: "ok c \<Longrightarrow> valid_code (width c) (dst c)"
    and body_src: "ok c \<Longrightarrow> p \<in> body c \<Longrightarrow> in_range p (length (src c))"
    and placed: "ok c \<Longrightarrow> p \<in> body c \<Longrightarrow> dst c ! nat (loc c p) = retarget (jmp c) (src c ! nat p)"
    and loc_range: "ok c \<Longrightarrow> p \<in> body c \<Longrightarrow> in_range (loc c p) (length (dst c))"
begin

lemma step_eq:
  assumes "ok c" and "p \<in> body c"
  shows "cf_step (dst c) m (loc c p) s =
    step_relocated (jmp c) p (loc c p) (jumps (src c ! nat p) s) (cf_step (src c) m p s)"
  using cf_step_retarget [OF valid_code_nth [OF src_valid body_src] placed] assms by blast

lemma step_Stop:
  assumes "ok c" and "p \<in> body c" and "cf_step (src c) m p s = Stop x t"
  shows "cf_step (dst c) m (loc c p) s = Stop x t"
  using step_eq [OF assms(1,2)] assms(3) by simp

lemma step_Go_cases:
  assumes "ok c" and "p \<in> body c" and "cf_step (src c) m p s = Go q t"
  shows "cf_step (dst c) m (loc c p) s = Go (jmp c q) t
    \<or> q = p + 1 \<and> ci_op (src c ! nat p) \<noteq> Jump \<and> cf_step (dst c) m (loc c p) s = Go (loc c p + 1) t"
proof -
  have "ci_op (src c ! nat p) = Jump \<Longrightarrow> jumps (src c ! nat p) s"
    by (simp add: jumps_def is_jump_def)
  then show ?thesis
    using step_eq [OF assms(1,2), of m s] assms(3)
      cf_step_no_jump [OF valid_code_nth [OF src_valid [OF assms(1)] body_src [OF assms(1,2)]] _ assms(3)]
    by (cases "jumps (src c ! nat p) s") auto
qed

end

locale embedding = relocation +
  assumes fall: "ok c \<Longrightarrow> p \<in> body c \<Longrightarrow> ci_op (src c ! nat p) \<noteq> Halt \<Longrightarrow>
      ci_op (src c ! nat p) \<noteq> Jump \<Longrightarrow> jmp c (p + 1) = loc c p + 1"
begin

lemma step_Go:
  assumes "ok c" and "p \<in> body c" and "cf_step (src c) m p s = Go q t"
  shows "cf_step (dst c) m (loc c p) s = Go (jmp c q) t"
proof -
  have "ci_op (src c ! nat p) \<noteq> Halt" using assms(3) by (auto simp: cf_step_def)
  then show ?thesis using step_Go_cases [OF assms] fall [OF assms(1,2)] by auto
qed

lemma step_Go_range:
  assumes "ok c" and "p \<in> body c" and "cf_step (src c) m p s = Go q t"
    and "counters_ok (width c) s"
  shows "in_range (jmp c q) (length (dst c))"
  using cf_step_Go [OF dst_valid [OF assms(1)] loc_range [OF assms(1,2)] assms(4)
      step_Go [OF assms(1-3)]] by simp

text \<open>
  Runs carry over when the code outside the body only stops and arrival and location agree
  inside it.
\<close>

lemma path_embedded:
  assumes "cf_path (src c) m k (p, s) (q, t)" and "ok c"
    and outside: "\<And>r u q' v. in_range r (length (src c)) \<Longrightarrow> r \<notin> body c \<Longrightarrow>
        cf_step (src c) m r u \<noteq> Go q' v"
    and same: "\<And>r. r \<in> body c \<Longrightarrow> jmp c r = loc c r"
    and "in_range p (length (src c))" and "counters_ok (width c) s"
  shows "cf_path (dst c) m k (jmp c p, s) (jmp c q, t)"
  using assms(1,5,6)
proof (induction k "(p, s)" "(q, t)" arbitrary: p s rule: cf_path.induct)
  case path_refl
  show ?case by simp
next
  case (path_step p s p' s' k)
  have body: "p \<in> body c" using outside path_step.prems(1) path_step.hyps(1) by blast
  have s': "counters_ok (width c) s'"
    using cf_step_Go [OF src_valid [OF assms(2)] path_step.prems(1,2) path_step.hyps(1)] by simp
  have "cf_step (dst c) m (jmp c p) s = Go (jmp c p') s'"
    using step_Go [OF assms(2) body path_step.hyps(1)] same [OF body] by simp
  moreover have "in_range (jmp c p') (length (dst c))"
    using step_Go_range [OF assms(2) body path_step.hyps(1) path_step.prems(2)] .
  ultimately show ?case
    using path_step.hyps(4) [OF path_step.hyps(2) s'] by (auto intro: cf_path.path_step)
qed

text \<open>When the body is the whole source, the two codes run in lock step.\<close>

lemma whole_run:
  assumes "ok c" and "\<And>r. in_range r (length (src c)) \<Longrightarrow> r \<in> body c \<and> jmp c r = loc c r"
    and "in_range p (length (src c))" and "counters_ok (width c) s"
    and "cf_run (src c) m k st p s = Inr (x, q, t, n)"
  shows "cf_run (dst c) m k st (loc c p) s = Inr (x, loc c q, t, n)"
  using assms(3-5)
proof (induction k arbitrary: st p s)
  case (Suc k)
  have body: "p \<in> body c" using assms(2) Suc.prems(1) by blast
  show ?case
  proof (cases "cf_step (src c) m p s")
    case (Stop y u)
    then show ?thesis using Suc.prems(3) step_Stop [OF assms(1) body Stop] by auto
  next
    case (Go p' s')
    have go: "in_range p' (length (src c))" "counters_ok (width c) s'"
      using cf_step_Go [OF src_valid [OF assms(1)] Suc.prems(1,2) Go] by auto
    have "cf_step (dst c) m (loc c p) s = Go (loc c p') s'"
      using step_Go [OF assms(1) body Go] assms(2) [OF go(1)] by simp
    moreover have "in_range (loc c p') (length (dst c))"
      using step_Go_range [OF assms(1) body Go Suc.prems(2)] assms(2) [OF go(1)] by simp
    ultimately show ?thesis
      using Suc.IH [OF go, of "st + 1"] Suc.prems(3) Go go(1) by (simp add: in_range_def)
  qed
qed simp

end

text \<open>
  A body that is everything but the source's closing \<open>halt\<close>, entered at its first instruction and
  left by arriving at that \<open>halt\<close>: running the source as a program of its own predicts the run of
  the edited code up to the exit.
\<close>

locale segment = embedding +
  assumes jmp_loc: "jmp c r = loc c r"
    and terminal: "ok c \<Longrightarrow> in_range r (length (src c)) \<Longrightarrow> r \<notin> body c \<longleftrightarrow> r = int (length (src c)) - 1"
begin

lemma outside_stops:
  assumes "ok c" and "in_range r (length (src c))" and "r \<notin> body c"
  shows "cf_step (src c) m r u = Stop Halted u"
proof -
  have "ci_op (src c ! nat r) = Halt"
    using valid_code_last [OF src_valid [OF assms(1)]] terminal [OF assms(1,2)] assms(3) by blast
  then show ?thesis by (simp add: cf_step_def Let_def)
qed

lemma segment_path:
  assumes "ok c" and "cf_path (src c) m k (0, s) (q, t)" and "counters_ok (width c) s"
  shows "cf_path (dst c) m k (loc c 0, s) (loc c q, t)"
proof -
  have "in_range 0 (length (src c))"
    using valid_code_pos [OF src_valid [OF assms(1)]] .
  then have "cf_path (dst c) m k (jmp c 0, s) (jmp c q, t)"
    by (intro path_embedded [OF assms(2,1) _ _ _ assms(3)])
       (simp_all add: outside_stops [OF assms(1)] jmp_loc)
  then show ?thesis by (simp add: jmp_loc)
qed

lemma segment_run:
  assumes ok: "ok c" and s: "counters_ok (width c) s"
    and run: "cf_run (src c) m k 0 0 s = Inr (x, q, t, n)"
  shows "if x = Halted \<and> q = int (length (src c)) - 1
    then 1 \<le> n \<and> n \<le> int k \<and> counters_ok (width c) t \<and>
      cf_run (dst c) m k st (loc c 0) s =
        cf_run (dst c) m (k - nat (n - 1)) (st + (n - 1)) (loc c q) t
    else cf_run (dst c) m k st (loc c 0) s = Inr (x, loc c q, t, st + n)"
proof -
  note v = src_valid [OF ok]
  note p0 = valid_code_pos [OF v]
  show ?thesis
  proof (cases "x = StepBudgetExhausted")
    case True
    then have "n = int k" "cf_path (src c) m k (0, s) (q, t)"
      using cf_run_budget [OF run [unfolded True] v p0 s] by auto
    then show ?thesis
      using cf_run_path [OF segment_path [OF ok _ s], of m k q t 0 st] True by simp
  next
    case False
    obtain j s0 where j: "j < k" "n = int j + 1" "cf_path (src c) m j (0, s) (q, s0)"
        "cf_step (src c) m q s0 = Stop x t"
      using cf_run_stop [OF run False v p0 s] by auto
    have q: "in_range q (length (src c))" "counters_ok (width c) s0"
      using cf_path_invariant [OF j(3) v p0 s] by auto
    have run': "cf_run (dst c) m k st (loc c 0) s =
        cf_run (dst c) m (k - j) (st + int j) (loc c q) s0"
      using cf_run_path [OF segment_path [OF ok j(3) s], of "k - j" st] j(1) by simp
    show ?thesis
    proof (cases "q \<in> body c")
      case True
      then have "q \<noteq> int (length (src c)) - 1" using terminal [OF ok q(1)] by blast
      moreover have "cf_step (dst c) m (loc c q) s0 = Stop x t"
        using step_Stop [OF ok True j(4)] .
      moreover have "k - j = Suc (k - Suc j)" using j(1) by simp
      ultimately show ?thesis using run' j(2) by simp
    next
      case False
      then have "x = Halted" "t = s0" "q = int (length (src c)) - 1"
        using outside_stops [OF ok q(1) False, of m s0] j(4) terminal [OF ok q(1)] by auto
      then show ?thesis using run' j(1,2) q(2) by simp
    qed
  qed
qed

end

end
