(* ===== verification/ControlFlowCompose.thy ===== *)
theory ControlFlowCompose
  imports ControlFlowEdit
begin

text \<open>
  Correctness of \<open>compose_control_flow_programs\<close>: the composed program behaves like running the
  components one after the other, each from the counters the previous one halted with.
  \<open>seq_execute\<close> is that reference; the components' bodies are an \<open>embedding\<close> in the composed code.
\<close>

section \<open>Layout of the composed code\<close>

definition body_total :: "cf_program list \<Rightarrow> int" where
  "body_total ps = sum_list (map (\<lambda>p. cp_length p - 1) ps)"

lemma body_total_simps [simp]:
  "body_total [] = 0" "body_total (p # ps) = cp_length p - 1 + body_total ps"
  "body_total (ps @ qs) = body_total ps + body_total qs"
  by (simp_all add: body_total_def)

lemma cp_length_pos: "valid_program p \<Longrightarrow> 1 \<le> cp_length p"
  by (cases "cp_instructions p") (auto simp: cp_length_def valid_program_iff)

lemma body_total_nonneg: "\<forall>p\<in>set ps. valid_program p \<Longrightarrow> 0 \<le> body_total ps"
  by (induction ps) (auto dest: cp_length_pos)

lemma compose_bodies_append:
  "compose_bodies b (ps @ qs) = compose_bodies b ps @ compose_bodies (b + body_total ps) qs"
  by (induction ps arbitrary: b) (simp_all add: Let_def algebra_simps)

lemma length_compose_bodies:
  "\<forall>p\<in>set ps. valid_program p \<Longrightarrow> int (length (compose_bodies b ps)) = body_total ps"
proof (induction ps arbitrary: b)
  case (Cons p ps)
  then have "int (length (cp_instructions p) - 1) = cp_length p - 1"
    by (cases "cp_instructions p") (auto simp: cp_length_def valid_program_iff)
  with Cons show ?case by (simp add: Let_def)
qed simp

definition composable :: "int \<Rightarrow> cf_program list \<Rightarrow> bool" where
  "composable n ps \<longleftrightarrow> 2 \<le> n \<and> (\<forall>p\<in>set ps. valid_program p \<and> cp_counter_count p = n \<and> \<not> has_internal_halt p)"

definition composed_code :: "cf_program list \<Rightarrow> cf_instruction list" where
  "composed_code ps = compose_bodies 0 ps @ [halt_instruction]"

lemma composable_simps [simp]:
  "composable n (p # ps) \<longleftrightarrow> valid_program p \<and> cp_counter_count p = n \<and> \<not> has_internal_halt p \<and> composable n ps"
  "composable n (ps @ qs) \<longleftrightarrow> composable n ps \<and> composable n qs"
  by (auto simp: composable_def)

lemma composable_iff:
  "2 \<le> n \<Longrightarrow> \<forall>p\<in>set ps. valid_program p \<Longrightarrow> composable n ps \<longleftrightarrow>
     \<not> (\<exists>p\<in>set ps. cp_counter_count p \<noteq> n) \<and> \<not> (\<exists>p\<in>set ps. has_internal_halt p)"
  by (auto simp: composable_def)

lemma composableD: "composable n ps \<Longrightarrow> \<forall>p\<in>set ps. valid_program p"
  by (simp add: composable_def)

lemma valid_compose_bodies:
  assumes "composable n ps" and "0 \<le> b" and "b + body_total ps < l"
    and "i \<in> set (compose_bodies b ps)"
  shows "valid_instruction n l i"
  using assms
proof (induction ps arbitrary: b)
  case (Cons p ps)
  let ?next = "b + (cp_length p - 1)"
  have pv: "valid_program p" "cp_counter_count p = n" and nn: "0 \<le> body_total ps"
    using Cons.prems(1) composableD body_total_nonneg by auto
  have len: "1 \<le> cp_length p" using cp_length_pos [OF pv(1)] .
  consider j where "j \<in> set (butlast (cp_instructions p))"
      "i = retarget (component_shift b ?next (cp_length p - 1)) j"
    | "i \<in> set (compose_bodies ?next ps)"
    using Cons.prems(4) by (auto simp: Let_def)
  then show ?case
  proof cases
    case 1
    have "valid_instruction n (cp_length p) j"
      using pv in_set_butlastD [OF 1(1)] by (auto simp: valid_program_iff)
    then show ?thesis
      unfolding 1(2)
      by (rule valid_retarget) (use Cons.prems(2,3) len nn in \<open>auto simp: component_shift_def\<close>)
  next
    case 2
    then show ?thesis using Cons.IH [of ?next] Cons.prems len by simp
  qed
qed simp

lemma valid_halt: "valid_instruction n l halt_instruction \<longleftrightarrow> 2 \<le> n \<and> 1 \<le> l"
  by (simp add: valid_instruction_iff halt_instruction_def is_jump_def uses_counter_def)

lemma valid_composed_code:
  assumes "composable n ps"
  shows "valid_code n (composed_code ps)"
proof -
  note v = composableD [OF assms]
  have len: "int (length (composed_code ps)) = body_total ps + 1"
    using length_compose_bodies [OF v, of 0] by (simp add: composed_code_def)
  have "valid_instruction n (body_total ps + 1) i" if "i \<in> set (compose_bodies 0 ps)" for i
    by (rule valid_compose_bodies [OF assms, of 0]) (use that in auto)
  moreover have "2 \<le> n" using assms by (simp add: composable_def)
  ultimately show ?thesis
    using body_total_nonneg [OF v]
    by (simp add: valid_code_def valid_mk_program len valid_halt)
       (auto simp: composed_code_def halt_instruction_def valid_halt [unfolded halt_instruction_def])
qed

lemma compose_Inr:
  "compose_control_flow_programs ps = Inr q \<longleftrightarrow>
     ps \<noteq> [] \<and> composable (cp_counter_count (hd ps)) ps
     \<and> q = mk_program (cp_counter_count (hd ps)) (composed_code ps)"
proof (cases "\<forall>p\<in>set ps. valid_program p")
  case True
  then have m: "map_r cp_validate ps = Inr ps"
    using map_r_total [of ps cp_validate id] by (auto simp: valid_program_def)
  obtain n where n: "cp_counter_count (hd ps) = n" by blast
  have "ps \<noteq> [] \<Longrightarrow> 2 \<le> n"
    using True n by (cases ps) (auto simp: valid_program_iff)
  then have c: "ps \<noteq> [] \<Longrightarrow> composable n ps \<longleftrightarrow>
      \<not> (\<exists>p\<in>set ps. cp_counter_count p \<noteq> n) \<and> \<not> (\<exists>p\<in>set ps. has_internal_halt p)"
    using composable_iff True by blast
  show ?thesis
    using m c valid_composed_code [of n ps]
    unfolding compose_control_flow_programs_def Let_def composed_code_def [symmetric] valid_code_def n
    by (cases "ps = []"; cases "composable n ps") (auto simp: cp_validate_Inr n)
next
  case False
  have "map_r cp_validate ps \<noteq> Inr vs" for vs
  proof
    assume "map_r cp_validate ps = Inr vs"
    then have "\<forall>p\<in>set ps. \<exists>v. cp_validate p = Inr v"
      by (auto simp: map_r_Inr_iff list_all2_conv_all_nth in_set_conv_nth)
    then show False using False by (auto simp: cp_validate_Inr)
  qed
  then show ?thesis
    using False by (auto simp: compose_control_flow_programs_def bind_r_eq_Inr composable_def)
qed

section \<open>The components embedded\<close>

type_synonym component = "cf_program list \<times> cf_program \<times> cf_program list"

fun comp_ok :: "component \<Rightarrow> bool" where
  "comp_ok (pre, p, post) = composable (cp_counter_count p) (pre @ p # post)"

fun comp_width :: "component \<Rightarrow> int" where
  "comp_width (pre, p, post) = cp_counter_count p"

fun comp_src :: "component \<Rightarrow> cf_instruction list" where
  "comp_src (pre, p, post) = cp_instructions p"

fun comp_dst :: "component \<Rightarrow> cf_instruction list" where
  "comp_dst (pre, p, post) = composed_code (pre @ p # post)"

fun comp_body :: "component \<Rightarrow> int set" where
  "comp_body (pre, p, post) = {0..<cp_length p - 1}"

fun comp_loc :: "component \<Rightarrow> int \<Rightarrow> int" where
  "comp_loc (pre, p, post) r = body_total pre + r"

fun comp_jmp :: "component \<Rightarrow> int \<Rightarrow> int" where
  "comp_jmp (pre, p, post) r =
     component_shift (body_total pre) (body_total pre + (cp_length p - 1)) (cp_length p - 1) r"

lemma comp_jmp_loc: "comp_jmp c r = comp_loc c r"
  by (cases c) (simp add: component_shift_def)

lemma comp_jmp_eq: "comp_jmp (pre, p, post) =
    component_shift (body_total pre) (body_total pre + (cp_length p - 1)) (cp_length p - 1)"
  by (simp add: fun_eq_iff)

lemma comp_placed:
  assumes "comp_ok c" and "p \<in> comp_body c"
  shows "comp_dst c ! nat (comp_loc c p) = retarget (comp_jmp c) (comp_src c ! nat p)"
proof -
  obtain pre g post where c: "c = (pre, g, post)" by (cases c) auto
  have pre: "\<forall>p\<in>set pre. valid_program p" and g: "valid_program g"
    using assms(1) composableD [of "cp_counter_count g" pre] by (auto simp: c)
  have len: "length (compose_bodies 0 pre) = nat (body_total pre)"
    using length_compose_bodies [OF pre, of 0] by linarith
  have nn: "0 \<le> body_total pre" using body_total_nonneg [OF pre] .
  have p: "0 \<le> p" "nat p < length (cp_instructions g) - 1"
    using assms(2) by (auto simp: c cp_length_def)
  have "nat (body_total pre + p) = nat (body_total pre) + nat p"
    using nn p(1) by (rule nat_add_distrib)
  then show ?thesis
    using p len
    by (simp add: c composed_code_def compose_bodies_append nth_append Let_def nth_butlast
        comp_jmp_eq del: comp_jmp.simps)
qed

interpretation composed: segment comp_ok comp_width comp_src comp_dst comp_body comp_loc comp_jmp
proof
  fix c p
  show "comp_jmp c p = comp_loc c p" by (rule comp_jmp_loc)
  assume ok: "comp_ok c"
  obtain pre g post where c: "c = (pre, g, post)" by (cases c) auto
  have pre: "\<forall>p\<in>set pre. valid_program p" and post: "\<forall>p\<in>set post. valid_program p"
    and g: "valid_program g"
    using ok composableD [of "cp_counter_count g" pre] composableD [of "cp_counter_count g" post]
    by (auto simp: c)
  show "valid_code (comp_width c) (comp_src c)" using valid_program_code [OF g] by (simp add: c)
  show "valid_code (comp_width c) (comp_dst c)" using ok valid_composed_code by (simp add: c)
  show "p \<notin> comp_body c \<longleftrightarrow> p = int (length (comp_src c)) - 1"
    if "in_range p (length (comp_src c))"
    using that by (auto simp: c in_range_def cp_length_def)
  assume p: "p \<in> comp_body c"
  show "in_range p (length (comp_src c))" using p by (auto simp: c in_range_def cp_length_def)
  show "comp_dst c ! nat (comp_loc c p) = retarget (comp_jmp c) (comp_src c ! nat p)"
    using comp_placed [OF ok p] .
  have "int (length (comp_dst c)) = body_total (pre @ g # post) + 1"
    using length_compose_bodies [of "pre @ g # post" 0] pre post g
    by (simp add: c composed_code_def ball_Un)
  then show "in_range (comp_loc c p) (length (comp_dst c))"
    using p body_total_nonneg [OF pre] body_total_nonneg [OF post] by (auto simp: c in_range_def)
  show "comp_jmp c (p + 1) = comp_loc c p + 1" by (simp add: c component_shift_def)
qed

section \<open>Sequential execution as the reference\<close>

text \<open>
  \<open>seq_execute ps c k m\<close> runs the files of \<open>ps\<close> one after the other: a component that halts
  passes its counters and the rest of the step budget on (its own halting step is not charged,
  since the composed file has no instruction for it); any other status ends the sequence.
\<close>

fun seq_execute :: "cf_program list \<Rightarrow> int list \<Rightarrow> int \<Rightarrow> int \<Rightarrow> (cf_status \<times> int list \<times> int) result" where
  "seq_execute [] c k m = Inl ValueError"
| "seq_execute [p] c k m =
     bind_r (cp_execute p c k m 0) (\<lambda>e. Inr (ce_status e, ce_counters e, ce_steps e))"
| "seq_execute (p # q # ps) c k m =
     bind_r (cp_execute p c k m 0) (\<lambda>e.
       if ce_status e = Halted
       then bind_r (seq_execute (q # ps) (ce_counters e) (k - (ce_steps e - 1)) m)
              (\<lambda>r. Inr (fst r, fst (snd r), ce_steps e - 1 + snd (snd r)))
       else Inr (ce_status e, ce_counters e, ce_steps e))"

lemma comp_inside_no_halt:
  assumes "comp_ok c" and "r \<in> comp_body c"
  shows "cf_step (comp_src c) m r u \<noteq> Stop Halted v"
proof -
  obtain pre p post where c: "c = (pre, p, post)" by (cases c) auto
  have r: "nat r < length (butlast (cp_instructions p))"
    using assms(2) by (auto simp: c cp_length_def)
  then have "cp_instructions p ! nat r \<in> set (butlast (cp_instructions p))"
    by (metis nth_butlast nth_mem)
  then have "ci_op (cp_instructions p ! nat r) \<noteq> Halt"
    using assms(1) by (auto simp: c has_internal_halt_def)
  then show ?thesis by (auto simp: c cf_step_def Let_def split: if_splits)
qed

lemma comp_segment:
  assumes ok: "comp_ok c" and s: "counters_ok (comp_width c) s"
    and run: "cf_run (comp_src c) m k 0 0 s = Inr (x, q, t, n)"
  shows "if x = Halted
    then 1 \<le> n \<and> n \<le> int k \<and> q = int (length (comp_src c)) - 1 \<and>
      cf_run (comp_dst c) m k st (comp_loc c 0) s =
        cf_run (comp_dst c) m (k - nat (n - 1)) (st + (n - 1)) (comp_loc c q) t
    else cf_run (comp_dst c) m k st (comp_loc c 0) s = Inr (x, comp_loc c q, t, st + n)"
proof -
  note v = composed.src_valid [OF ok]
  have "q = int (length (comp_src c)) - 1" if x: "x = Halted"
  proof -
    obtain j s0 where j: "cf_path (comp_src c) m j (0, s) (q, s0)"
        "cf_step (comp_src c) m q s0 = Stop x t"
      using cf_run_stop [OF run _ v valid_code_pos [OF v] s] x by auto
    then have "q \<notin> comp_body c" "in_range q (length (comp_src c))"
      using comp_inside_no_halt [OF ok] x cf_path_invariant [OF j(1) v valid_code_pos [OF v] s]
      by auto
    then show ?thesis using composed.terminal [OF ok] by blast
  qed
  then show ?thesis using composed.segment_run [OF ok s run, of st] by (simp split: if_splits)
qed

lemma seq_execute_run:
  assumes "ps \<noteq> []" and "composable n (pre @ ps)" and "counters_ok n s" and "1 \<le> k" and "1 \<le> m"
  shows "\<exists>x q t i. seq_execute ps s k m = Inr (x, t, i) \<and>
    cf_run (composed_code (pre @ ps)) m (nat k) st (body_total pre) s = Inr (x, q, t, st + i)"
  using assms
proof (induction ps s k m arbitrary: pre st rule: seq_execute.induct)
  case (1 c k m)
  then show ?case by simp
next
  case (2 p c k m)
  let ?c = "(pre, p, []) :: component"
  have ok: "comp_ok ?c" and args: "exec_args_ok p c k m"
    using "2.prems" by (auto simp: exec_args_ok_def)
  have s: "counters_ok (comp_width ?c) c" using "2.prems" by simp
  obtain e where e: "cp_execute p c k m 0 = Inr e"
      "cf_run (cp_instructions p) m (nat k) 0 0 c = Inr (ce_result e)"
    using exec_args_run [OF args] by blast
  obtain x q t i where r: "ce_result e = (x, q, t, i)" by (cases "ce_result e")
  then have seq: "seq_execute [p] c k m = Inr (x, t, i)" using e(1) by (simp add: ce_result_def)
  have run: "cf_run (comp_src ?c) m (nat k) 0 0 c = Inr (x, q, t, i)" using e(2) r by simp
  show ?case
  proof (cases "x = Halted")
    case False
    then show ?thesis using seq comp_segment [OF ok s run, of st] by simp
  next
    case True
    then have i: "1 \<le> i" "i \<le> int (nat k)" "q = int (length (comp_src ?c)) - 1"
      and run': "cf_run (comp_dst ?c) m (nat k) st (comp_loc ?c 0) c =
        cf_run (comp_dst ?c) m (nat k - nat (i - 1)) (st + (i - 1)) (comp_loc ?c q) t"
      using comp_segment [OF ok s run, of st] by simp_all
    have "nat k - nat (i - 1) = Suc (nat k - nat i)" using i(1,2) by linarith
    moreover have "comp_loc ?c q = int (length (comp_dst ?c)) - 1"
      using i(3) length_compose_bodies [OF composableD, of n "pre @ [p]" 0] "2.prems"
      by (simp add: composed_code_def cp_length_def)
    moreover have "valid_code n (comp_dst ?c)" using composed.dst_valid [OF ok] "2.prems" by simp
    ultimately have "cf_run (comp_dst ?c) m (nat k) st (comp_loc ?c 0) c
        = Inr (Halted, comp_loc ?c q, t, st + i)"
      using run' valid_code_last [of n "comp_dst ?c"] by (simp add: cf_step_def Let_def)
    then show ?thesis using seq True by simp
  qed
next
  case (3 p p' ps c k m)
  let ?c = "(pre, p, p' # ps) :: component"
  have ok: "comp_ok ?c" and args: "exec_args_ok p c k m"
    using "3.prems" by (auto simp: exec_args_ok_def)
  have s: "counters_ok (comp_width ?c) c" using "3.prems" by simp
  obtain e where e: "cp_execute p c k m 0 = Inr e" "counters_ok n (ce_counters e)"
      "cf_run (cp_instructions p) m (nat k) 0 0 c = Inr (ce_result e)"
    using exec_args_run [OF args] "3.prems" by auto
  obtain x q t i where r: "ce_result e = (x, q, t, i)" by (cases "ce_result e")
  then have fields: "ce_status e = x" "ce_counters e = t" "ce_steps e = i"
    by (simp_all add: ce_result_def)
  have run: "cf_run (comp_src ?c) m (nat k) 0 0 c = Inr (x, q, t, i)" using e(3) r by simp
  show ?case
  proof (cases "x = Halted")
    case False
    then show ?thesis using e(1) fields comp_segment [OF ok s run, of st] by simp
  next
    case True
    then have i: "1 \<le> i" "i \<le> int (nat k)" "q = int (length (comp_src ?c)) - 1"
      and run': "cf_run (comp_dst ?c) m (nat k) st (comp_loc ?c 0) c =
        cf_run (comp_dst ?c) m (nat k - nat (i - 1)) (st + (i - 1)) (comp_loc ?c q) t"
      using comp_segment [OF ok s run, of st] by simp_all
    have "1 \<le> k - (i - 1)" "nat k - nat (i - 1) = nat (k - (i - 1))"
      using i(1,2) "3.prems"(4) by auto
    moreover have "comp_loc ?c q = body_total (pre @ [p])" using i(3) by (simp add: cp_length_def)
    ultimately show ?thesis
      using "3.IH" [of e "pre @ [p]" "st + (i - 1)"] "3.prems" e True fields run' by auto
  qed
qed

lemma compose_sequence:
  assumes "compose_control_flow_programs ps = Inr q"
    and "counters_ok (cp_counter_count q) s" and "1 \<le> k" and "1 \<le> m"
  shows "\<exists>e. cp_execute q s k m lim = Inr e
    \<and> seq_execute ps s k m = Inr (ce_status e, ce_counters e, ce_steps e)"
proof -
  let ?n = "cp_counter_count (hd ps)"
  have ps: "ps \<noteq> []" "composable ?n ps" and q: "q = mk_program ?n (composed_code ps)"
    using assms(1) unfolding compose_Inr by blast+
  have n: "cp_counter_count q = ?n" "cp_instructions q = composed_code ps"
    by (subst q, simp add: mk_program_def)+
  obtain x r t i where run: "seq_execute ps s k m = Inr (x, t, i)"
      "cf_run (composed_code ps) m (nat k) 0 0 s = Inr (x, r, t, i)"
    using seq_execute_run [of ps ?n "[]" s k m 0] ps assms(2-4) n(1) by auto
  have "valid_program q" using valid_composed_code [OF ps(2)] q by (simp add: valid_code_def)
  then have args: "exec_args_ok q s k m" using assms(2-4) by (simp add: exec_args_ok_def)
  obtain e where e: "cp_execute q s k m lim = Inr e"
      "cf_run (cp_instructions q) m (nat k) 0 0 s = Inr (ce_result e)"
    using exec_args_run [OF args, of lim] by blast
  then have "ce_result e = (x, r, t, i)" using run(2) n(2) by simp
  then show ?thesis using e(1) run(1) by (auto simp: ce_result_def)
qed

section \<open>Properties\<close>


definition drain_twice :: cf_program where
  "drain_twice = mk_program 2 (composed_code [drain, drain])"

lemma compose_drain: "compose_control_flow_programs [drain, drain] = Inr drain_twice"
  by code_simp


end
