(* ===== verification/ControlFlowSplice.thy ===== *)
theory ControlFlowSplice
  imports ControlFlowCompose
begin

text \<open>
  Correctness of the local edits.  \<open>splice_control_flow_program\<close>: the spliced file behaves like
  the parent that runs the fragment whenever control arrives at the splice position;
  parent and fragment are both embedded.  \<open>insert_control_flow_instruction\<close> and
  \<open>delete_control_flow_instruction\<close>: relocated code, and deletion undoes insertion.
\<close>

section \<open>Splicing\<close>

type_synonym splice_site = "cf_program \<times> int \<times> cf_program"

definition splice_code :: "splice_site \<Rightarrow> cf_instruction list" where
  "splice_code c = (case c of (p, position, f) \<Rightarrow>
     (let shift = cp_length f - 1;
          rp = map (retarget (splice_parent_shift position shift)) (cp_instructions p)
      in take (nat position) rp
         @ map (retarget (splice_fragment_shift position (position + shift) (cp_length f - 1)))
             (butlast (cp_instructions f))
         @ drop (nat position) rp))"

fun splice_ok :: "splice_site \<Rightarrow> bool" where
  "splice_ok (p, position, f) \<longleftrightarrow> valid_program p \<and> valid_program f
     \<and> cp_counter_count p = cp_counter_count f \<and> in_range position (length (cp_instructions p))
     \<and> 2 \<le> cp_length f"

fun splice_width :: "splice_site \<Rightarrow> int" where
  "splice_width (p, position, f) = cp_counter_count p"

fun parent_src :: "splice_site \<Rightarrow> cf_instruction list" where
  "parent_src (p, position, f) = cp_instructions p"

fun parent_body :: "splice_site \<Rightarrow> int set" where
  "parent_body (p, position, f) = {0..<cp_length p}"

fun parent_loc :: "splice_site \<Rightarrow> int \<Rightarrow> int" where
  "parent_loc (p, position, f) r = (if r < position then r else r + (cp_length f - 1))"

fun parent_jmp :: "splice_site \<Rightarrow> int \<Rightarrow> int" where
  "parent_jmp (p, position, f) = splice_parent_shift position (cp_length f - 1)"

fun fragment_src :: "splice_site \<Rightarrow> cf_instruction list" where
  "fragment_src (p, position, f) = cp_instructions f"

fun fragment_body :: "splice_site \<Rightarrow> int set" where
  "fragment_body (p, position, f) = {0..<cp_length f - 1}"

fun fragment_loc :: "splice_site \<Rightarrow> int \<Rightarrow> int" where
  "fragment_loc (p, position, f) r = position + r"

fun fragment_jmp :: "splice_site \<Rightarrow> int \<Rightarrow> int" where
  "fragment_jmp (p, position, f) =
     splice_fragment_shift position (position + (cp_length f - 1)) (cp_length f - 1)"

lemma fragment_jmp_loc: "fragment_jmp c r = fragment_loc c r"
  by (cases c) (simp add: splice_fragment_shift_def)

lemma length_splice_code:
  "splice_ok (p, position, f) \<Longrightarrow>
     int (length (splice_code (p, position, f))) = cp_length p + (cp_length f - 1)"
  by (cases "cp_instructions f")
     (auto simp: splice_code_def Let_def in_range_def cp_length_def min_def)

lemma take_drop_nth:
  "k < length xs \<Longrightarrow> (take i xs @ ys @ drop i xs) ! (if k < i then k else k + length ys) = xs ! k"
  by (auto simp: nth_append min_def)

lemma take_drop_nth_mid:
  "i \<le> length xs \<Longrightarrow> k < length ys \<Longrightarrow> (take i xs @ ys @ drop i xs) ! (i + k) = ys ! k"
  by (simp add: nth_append)

lemma parent_placed:
  assumes "splice_ok (p, position, f)" and "0 \<le> r" and "r < cp_length p"
  shows "splice_code (p, position, f) ! nat (parent_loc (p, position, f) r)
    = retarget (splice_parent_shift position (cp_length f - 1)) (cp_instructions p ! nat r)"
proof -
  let ?ys = "map (retarget (splice_fragment_shift position (position + (cp_length f - 1))
      (cp_length f - 1))) (butlast (cp_instructions f))"
  have len: "int (length ?ys) = cp_length f - 1"
    using assms(1) by (cases "cp_instructions f") (auto simp: cp_length_def)
  have "nat (parent_loc (p, position, f) r)
      = (if nat r < nat position then nat r else nat r + length ?ys)"
    using assms len by (auto simp: in_range_def nat_add_distrib)
  then show ?thesis
    using assms(2,3) take_drop_nth [of "nat r" "map (retarget (splice_parent_shift position
        (cp_length f - 1))) (cp_instructions p)" "nat position" ?ys]
    by (simp add: splice_code_def Let_def cp_length_def del: parent_loc.simps)
qed

lemma fragment_placed:
  assumes "splice_ok (p, position, f)" and "0 \<le> r" and "r < cp_length f - 1"
  shows "splice_code (p, position, f) ! nat (position + r)
    = retarget (splice_fragment_shift position (position + (cp_length f - 1)) (cp_length f - 1))
        (cp_instructions f ! nat r)"
proof -
  have "nat (position + r) = nat position + nat r"
    using assms by (auto simp: in_range_def nat_add_distrib)
  moreover have "nat r < length (butlast (cp_instructions f))"
    using assms(2,3) by (simp add: cp_length_def)
  moreover have "nat position \<le> length (cp_instructions p)"
    using assms(1) by (auto simp: in_range_def)
  ultimately show ?thesis
    by (simp add: splice_code_def Let_def take_drop_nth_mid nth_butlast)
qed

lemma splice_code_set:
  "set (splice_code (p, position, f)) =
     retarget (splice_parent_shift position (cp_length f - 1)) ` set (cp_instructions p) \<union>
     retarget (splice_fragment_shift position (position + (cp_length f - 1)) (cp_length f - 1))
       ` set (butlast (cp_instructions f))"
  by (simp add: splice_code_def Let_def set_take_drop_mid)

lemma valid_splice_code:
  assumes "splice_ok c"
  shows "valid_code (splice_width c) (splice_code c)"
proof -
  obtain p position f where c: "c = (p, position, f)" by (cases c) auto
  let ?is = "splice_code c"
  note ok = assms [unfolded c]
  have len: "int (length ?is) = cp_length p + (cp_length f - 1)"
    using length_splice_code [OF ok] by (simp add: c)
  have pos: "0 \<le> position" "position < cp_length p" "2 \<le> cp_length f"
    using ok by (auto simp: in_range_def cp_length_def)
  have p: "valid_program p" and f: "valid_program f" "cp_counter_count f = cp_counter_count p"
    using ok by auto
  have "valid_instruction (cp_counter_count p) (int (length ?is)) i" if mem: "i \<in> set ?is" for i
  proof -
    consider j where "j \<in> set (cp_instructions p)"
        "i = retarget (splice_parent_shift position (cp_length f - 1)) j"
      | j where "j \<in> set (butlast (cp_instructions f))"
        "i = retarget (splice_fragment_shift position (position + (cp_length f - 1)) (cp_length f - 1)) j"
      using mem unfolding c splice_code_set by auto
    then show ?thesis
    proof cases
      case 1
      have "valid_instruction (cp_counter_count p) (cp_length p) j"
        using p 1(1) by (simp add: valid_program_iff)
      then show ?thesis unfolding 1(2) len
        by (rule valid_retarget) (use pos in \<open>auto simp: splice_parent_shift_def\<close>)
    next
      case 2
      have "valid_instruction (cp_counter_count p) (cp_length f) j"
        using f in_set_butlastD [OF 2(1)] by (auto simp: valid_program_iff)
      then show ?thesis unfolding 2(2) len
        by (rule valid_retarget) (use pos in \<open>auto simp: splice_fragment_shift_def\<close>)
    qed
  qed
  moreover have "ci_op (last ?is) = Halt"
    using p pos by (auto simp: c splice_code_def Let_def cp_length_def last_append last_map
        valid_program_iff)
  moreover have "?is \<noteq> []" using len pos by auto
  moreover have "2 \<le> cp_counter_count p" using p by (simp add: valid_program_iff)
  ultimately show ?thesis by (simp add: valid_code_def valid_mk_program c)
qed

interpretation spliced_parent: embedding splice_ok splice_width parent_src splice_code parent_body
  parent_loc parent_jmp
proof
  fix c r
  assume ok: "splice_ok c"
  obtain p position f where c: "c = (p, position, f)" by (cases c) auto
  have pf: "valid_program p" "valid_program f" "cp_counter_count f = cp_counter_count p"
    using ok by (simp_all add: c)
  show "valid_code (splice_width c) (parent_src c)" using valid_program_code [OF pf(1)] by (simp add: c)
  show "valid_code (splice_width c) (splice_code c)" using valid_splice_code [OF ok] .
  assume r: "r \<in> parent_body c"
  then have r': "0 \<le> r" "r < cp_length p" by (auto simp: c)
  show "in_range r (length (parent_src c))" using r' by (simp add: c in_range_def cp_length_def)
  show "splice_code c ! nat (parent_loc c r) = retarget (parent_jmp c) (parent_src c ! nat r)"
    using parent_placed [OF ok [unfolded c] r'] by (simp add: c del: parent_loc.simps)
  show "in_range (parent_loc c r) (length (splice_code c))"
    using r' ok length_splice_code [OF ok [unfolded c]] by (auto simp: c in_range_def)
  show "parent_jmp c (r + 1) = parent_loc c r + 1" by (simp add: c splice_parent_shift_def)
qed

interpretation spliced_fragment: segment splice_ok splice_width fragment_src splice_code
  fragment_body fragment_loc fragment_jmp
proof
  fix c r
  show "fragment_jmp c r = fragment_loc c r" by (rule fragment_jmp_loc)
  assume ok: "splice_ok c"
  obtain p position f where c: "c = (p, position, f)" by (cases c) auto
  have pf: "valid_program p" "valid_program f" "cp_counter_count f = cp_counter_count p"
    using ok by (simp_all add: c)
  show "valid_code (splice_width c) (fragment_src c)"
    using valid_program_code [OF pf(2)] pf(3) by (simp add: c)
  show "valid_code (splice_width c) (splice_code c)" using valid_splice_code [OF ok] .
  show "r \<notin> fragment_body c \<longleftrightarrow> r = int (length (fragment_src c)) - 1"
    if "in_range r (length (fragment_src c))"
    using that by (auto simp: c in_range_def cp_length_def)
  assume r: "r \<in> fragment_body c"
  then have r': "0 \<le> r" "r < cp_length f - 1" by (auto simp: c)
  show "in_range r (length (fragment_src c))" using r' by (simp add: c in_range_def cp_length_def)
  show "splice_code c ! nat (fragment_loc c r) = retarget (fragment_jmp c) (fragment_src c ! nat r)"
    using fragment_placed [OF ok [unfolded c] r'] by (simp add: c)
  show "in_range (fragment_loc c r) (length (splice_code c))"
    using r' ok length_splice_code [OF ok [unfolded c]] by (auto simp: c in_range_def cp_length_def)
  show "fragment_jmp c (r + 1) = fragment_loc c r + 1" by (simp add: c splice_fragment_shift_def)
qed

lemma splice_Inr:
  "splice_control_flow_program p position f = Inr q \<longleftrightarrow>
     splice_ok (p, position, f) \<and> q = mk_program (cp_counter_count p) (splice_code (p, position, f))"
proof (cases "valid_program p \<and> valid_program f")
  case True
  have "butlast (cp_instructions f) = [] \<longleftrightarrow> cp_length f < 2"
    using True by (cases "cp_instructions f") (auto simp: cp_length_def valid_program_iff)
  then show ?thesis
    using True valid_splice_code [of "(p, position, f)"]
    by (auto simp: splice_control_flow_program_def bind_r_eq_Inr cp_validate_Inr in_range_def
        cp_length_def valid_code_def Let_def splice_code_def split: if_splits)
next
  case False
  then show ?thesis
    by (auto simp: splice_control_flow_program_def bind_r_eq_Inr cp_validate_Inr)
qed

section \<open>Subroutine execution as the reference\<close>

text \<open>
  \<open>call_run (p, position, f) m k st r s\<close> executes the parent from instruction \<open>r\<close> with \<open>k\<close> steps
  left, and before each execution of the instruction at \<open>position\<close> runs the fragment as a program
  of its own.  A fragment that halts at its last instruction returns to the parent (its halting
  step is not charged); one that stops anywhere else, by a counter bound, the budget or a \<open>halt\<close>
  inside its body, ends the whole run.
\<close>

fun call_run :: "splice_site \<Rightarrow> int \<Rightarrow> nat \<Rightarrow> int \<Rightarrow> int \<Rightarrow> int list \<Rightarrow> (cf_status \<times> int list \<times> int) result" where
  "call_run c m 0 st r s = Inr (StepBudgetExhausted, s, st)"
| "call_run (p, position, f) m (Suc k) st r s =
     (let parent = (\<lambda>j st s. case cf_step (cp_instructions p) m r s of
                Stop x s' \<Rightarrow> Inr (x, s', st + 1)
              | Go r' s' \<Rightarrow> call_run (p, position, f) m (k - j) (st + 1) r' s')
      in if r \<noteq> position then parent 0 st s
         else bind_r (cp_execute f s (int (Suc k)) m 0) (\<lambda>e.
           if ce_status e = Halted \<and> ce_pointer e = cp_length f - 1
           then parent (nat (ce_steps e - 1)) (st + (ce_steps e - 1)) (ce_counters e)
           else Inr (ce_status e, ce_counters e, st + ce_steps e)))"

lemma spliced_parent_step:
  assumes ok: "splice_ok c" and r: "r \<in> parent_body c" and s: "counters_ok (splice_width c) s"
    and cont: "\<And>r' s'. in_range r' (length (parent_src c)) \<Longrightarrow> counters_ok (splice_width c) s' \<Longrightarrow>
      \<exists>x q t i. next r' s' = Inr (x, t, i)
        \<and> cf_run (splice_code c) m k (st + 1) (parent_jmp c r') s' = Inr (x, q, t, i)"
  shows "\<exists>x q t i.
    (case cf_step (parent_src c) m r s of Stop x s' \<Rightarrow> Inr (x, s', st + 1) | Go r' s' \<Rightarrow> next r' s')
      = Inr (x, t, i)
    \<and> cf_run (splice_code c) m (Suc k) st (parent_loc c r) s = Inr (x, q, t, i)"
proof (cases "cf_step (parent_src c) m r s")
  case (Stop x s')
  then show ?thesis using spliced_parent.step_Stop [OF ok r Stop] by simp
next
  case (Go r' s')
  have "in_range r' (length (parent_src c))" "counters_ok (splice_width c) s'"
    using cf_step_Go [OF spliced_parent.src_valid [OF ok] spliced_parent.body_src [OF ok r] s Go]
    by simp_all
  then obtain x q t i where "next r' s' = Inr (x, t, i)"
      "cf_run (splice_code c) m k (st + 1) (parent_jmp c r') s' = Inr (x, q, t, i)"
    using cont by blast
  moreover have "\<not> int (length (splice_code c)) \<le> parent_jmp c r'"
    using spliced_parent.step_Go_range [OF ok r Go s] by (simp add: in_range_def)
  ultimately show ?thesis using Go spliced_parent.step_Go [OF ok r Go] by simp
qed

lemma call_run_spliced:
  assumes "splice_ok c" and "in_range r (length (parent_src c))"
    and "counters_ok (splice_width c) s" and "1 \<le> m"
  shows "\<exists>x q t i. call_run c m k st r s = Inr (x, t, i)
    \<and> cf_run (splice_code c) m k st (parent_jmp c r) s = Inr (x, q, t, i)"
  using assms
proof (induction k arbitrary: st r s rule: less_induct)
  case (less n)
  obtain p position f where c: "c = (p, position, f)" by (cases c) auto
  note ok = less.prems(1) and s = less.prems(3)
  have fr: "cp_counter_count f = cp_counter_count p" "2 \<le> cp_length f" "valid_program f"
    using ok by (simp_all add: c)
  have r: "r \<in> parent_body c" using less.prems(2) by (auto simp: c in_range_def cp_length_def)
  show ?case
  proof (cases n)
    case 0
    then show ?thesis by (cases c) simp
  next
    case (Suc k)
    have parent: "\<exists>x q t i.
      (case cf_step (parent_src c) m r u of Stop x s' \<Rightarrow> Inr (x, s', st' + 1)
        | Go r' s' \<Rightarrow> call_run c m (k - j) (st' + 1) r' s') = Inr (x, t, i)
      \<and> cf_run (splice_code c) m (Suc (k - j)) st' (parent_loc c r) u = Inr (x, q, t, i)"
      if u: "counters_ok (splice_width c) u" for st' j u
      by (rule spliced_parent_step [OF ok r u]) (use Suc less.IH less.prems in simp)
    show ?thesis
    proof (cases "r = position")
      case False
      then have "parent_jmp c r = parent_loc c r" by (simp add: c splice_parent_shift_def)
      moreover have "call_run c m (Suc k) st r s =
          (case cf_step (parent_src c) m r s of Stop x s' \<Rightarrow> Inr (x, s', st + 1)
            | Go r' s' \<Rightarrow> call_run c m (k - 0) (st + 1) r' s')"
        using False unfolding c by (simp add: Let_def)
      ultimately show ?thesis using parent [OF s, of st 0] unfolding Suc by (simp only: diff_zero)
    next
      case True
      have jmp: "parent_jmp c r = fragment_loc c 0" using True by (simp add: c splice_parent_shift_def)
      have s': "counters_ok (splice_width c) s" using s .
      have args: "exec_args_ok f s (int (Suc k)) m"
        using fr s less.prems(4) by (simp add: exec_args_ok_def c)
      obtain e where e: "cp_execute f s (int (Suc k)) m 0 = Inr e"
          "cf_run (cp_instructions f) m (nat (int (Suc k))) 0 0 s = Inr (ce_result e)"
        using exec_args_run [OF args] by blast
      obtain x q t i where res: "ce_result e = (x, q, t, i)" by (cases "ce_result e")
      have run: "cf_run (fragment_src c) m (Suc k) 0 0 s = Inr (x, q, t, i)"
        using e(2) res by (simp only: c fragment_src.simps nat_int)
      have fields: "ce_status e = x" "ce_pointer e = q" "ce_counters e = t" "ce_steps e = i"
        using res by (simp_all add: ce_result_def)
      note seg = spliced_fragment.segment_run [OF ok s' run, of st]
      show ?thesis
      proof (cases "x = Halted \<and> q = int (length (fragment_src c)) - 1")
        case False
        then have "call_run c m n st r s = Inr (x, t, st + i)"
          using True e(1) fields by (auto simp: Suc c Let_def cp_length_def)
        then show ?thesis using seg False jmp unfolding Suc by (simp only: if_False) blast
      next
        case exit: True
        then have i: "1 \<le> i" "i \<le> int (Suc k)" "counters_ok (splice_width c) t"
          and run': "cf_run (splice_code c) m (Suc k) st (fragment_loc c 0) s =
            cf_run (splice_code c) m (Suc k - nat (i - 1)) (st + (i - 1)) (fragment_loc c q) t"
          using seg by simp_all
        have "fragment_loc c q = parent_loc c r"
          using exit True by (simp add: c cp_length_def)
        moreover have "Suc k - nat (i - 1) = Suc (k - nat (i - 1))" using i(1,2) by linarith
        ultimately have "cf_run (splice_code c) m n st (parent_jmp c r) s =
            cf_run (splice_code c) m (Suc (k - nat (i - 1))) (st + (i - 1)) (parent_loc c r) t"
          using run' jmp unfolding Suc by simp
        moreover have "call_run c m n st r s =
          (case cf_step (parent_src c) m r t of Stop x s' \<Rightarrow> Inr (x, s', st + (i - 1) + 1)
            | Go r' s' \<Rightarrow> call_run c m (k - nat (i - 1)) (st + (i - 1) + 1) r' s')"
          using exit True e(1) fields unfolding c Suc by (simp add: Let_def cp_length_def)
        ultimately show ?thesis using parent [OF i(3), of "st + (i - 1)" "nat (i - 1)"]
          by (simp only:)
      qed
    qed
  qed
qed

section \<open>Properties\<close>

text \<open>
  C17. Splicing refines a subroutine call.  Whenever \<open>splice_control_flow_program\<close> accepts,
  executing the spliced file gives, for every step budget and counter bound, what the parent
  gives when the fragment is executed as a program of its own each time control is about to
  execute the instruction at the splice position.
\<close>

theorem splice_calls_fragment:
  assumes "splice_control_flow_program p position f = Inr q"
    and "counters_ok (cp_counter_count p) s" and "1 \<le> k" and "1 \<le> m"
  shows "\<exists>e. cp_execute q s k m lim = Inr e
    \<and> call_run (p, position, f) m (nat k) 0 0 s = Inr (ce_status e, ce_counters e, ce_steps e)"
proof -
  let ?c = "(p, position, f) :: splice_site"
  have ok: "splice_ok ?c" and q: "q = mk_program (cp_counter_count p) (splice_code ?c)"
    using assms(1) unfolding splice_Inr by blast+
  have n: "cp_counter_count q = cp_counter_count p" "cp_instructions q = splice_code ?c"
    by (subst q, simp add: mk_program_def)+
  have r: "in_range 0 (length (parent_src ?c))" "counters_ok (splice_width ?c) s"
    using ok assms(2) by (auto simp: in_range_def)
  have zero: "parent_jmp ?c 0 = 0" using ok by (simp add: splice_parent_shift_def in_range_def)
  obtain x r t i where run: "call_run ?c m (nat k) 0 0 s = Inr (x, t, i)"
      "cf_run (splice_code ?c) m (nat k) 0 (parent_jmp ?c 0) s = Inr (x, r, t, i)"
    using call_run_spliced [OF ok r assms(4), of "nat k" 0] by blast
  have "valid_program q" using valid_splice_code [OF ok] q by (simp add: valid_code_def)
  then have args: "exec_args_ok q s k m" using assms(2-4) n(1) by (simp add: exec_args_ok_def)
  obtain e where e: "cp_execute q s k m lim = Inr e"
      "cf_run (cp_instructions q) m (nat k) 0 0 s = Inr (ce_result e)"
    using exec_args_run [OF args, of lim] by blast
  then have "ce_result e = (x, r, t, i)" using run(2) n(2) zero by simp
  then show ?thesis using e(1) run(1) by (auto simp: ce_result_def)
qed

definition drain_spliced :: cf_program where
  "drain_spliced = mk_program 2 (splice_code (drain, 3, count_up))"

lemma splice_drain: "splice_control_flow_program drain 3 count_up = Inr drain_spliced"
  by code_simp

theorem splice_calls_fragment_witness:
  "\<exists>e. cp_execute drain_spliced [2, 1] 50 100 0 = Inr e
    \<and> call_run (drain, 3, count_up) 100 (nat 50) 0 0 [2, 1]
      = Inr (ce_status e, ce_counters e, ce_steps e)"
  by (rule splice_calls_fragment [OF splice_drain]) (simp_all add: drain_def mk_program_def counters_ok_def)

end
