(* ===== verification/ControlFlowLocalEdit.thy ===== *)
theory ControlFlowLocalEdit
  imports ControlFlowEdit
begin

text \<open>
  Correctness of \<open>insert_control_flow_instruction\<close> and \<open>delete_control_flow_instruction\<close>: when
  each succeeds, that they are inverse to one another, and that instructions which control never
  falls into can be inserted without changing any run.
\<close>

section \<open>Retargeting\<close>

lemma retarget_retarget: "retarget f (retarget g i) = retarget (f \<circ> g) i"
  by (simp add: retarget_def option.map_comp)

lemma retarget_id:
  assumes "\<And>t. is_jump (ci_op i) \<Longrightarrow> ci_target i = Some t \<Longrightarrow> f t = t"
  shows "retarget f i = i"
  using assms by (cases i; cases "ci_target i") (auto simp: retarget_def)

lemma retarget_ids: "(\<And>i. i \<in> set is \<Longrightarrow> retarget f i = i) \<Longrightarrow> map (retarget f) is = is"
  by (induction "is") auto

lemma delete_insert_shift: "delete_shift position \<circ> insert_shift position = id"
  by (auto simp: fun_eq_iff delete_shift_def insert_shift_def)

lemma insert_delete_shift: "t \<noteq> position \<Longrightarrow> insert_shift position (delete_shift position t) = t"
  by (simp add: delete_shift_def insert_shift_def)

lemma insert_shift_ne: "insert_shift position t \<noteq> position"
  by (simp add: insert_shift_def)

definition targets :: "int \<Rightarrow> cf_instruction \<Rightarrow> bool" where
  "targets position i \<longleftrightarrow> is_jump (ci_op i) \<and> ci_target i = Some position"

lemma delete_relocate_Inr:
  "delete_relocate position i = Inr j \<longleftrightarrow> \<not> targets position i \<and> j = retarget (delete_shift position) i"
  by (auto simp: delete_relocate_def targets_def retarget_def)

lemma map_r_delete_relocate:
  "map_r (delete_relocate position) is = Inr js \<longleftrightarrow>
     (\<forall>i\<in>set is. \<not> targets position i) \<and> js = map (retarget (delete_shift position)) is"
  unfolding map_r_Inr_iff delete_relocate_Inr
  by (auto simp: list_all2_conv_all_nth all_set_conv_all_nth intro: nth_equalityI)

lemma not_targets_insert: "\<not> targets position (retarget (insert_shift position) i)"
  by (auto simp: targets_def retarget_target insert_shift_ne)

lemma retarget_delete_insert: "retarget (delete_shift position) (retarget (insert_shift position) i) = i"
  by (simp add: retarget_retarget delete_insert_shift retarget_id)

lemma retarget_insert_delete:
  "\<not> targets position i \<Longrightarrow>
     retarget (insert_shift position) (retarget (delete_shift position) i) = i"
  unfolding retarget_retarget by (rule retarget_id) (auto simp: targets_def insert_delete_shift)

section \<open>When the edits succeed\<close>

definition inserted_code :: "cf_instruction list \<Rightarrow> int \<Rightarrow> cf_instruction \<Rightarrow> cf_instruction list" where
  "inserted_code is position i =
     (let js = map (retarget (insert_shift position)) is
      in take (nat position) js @ [i] @ drop (nat position) js)"

definition others :: "int \<Rightarrow> cf_instruction list \<Rightarrow> cf_instruction list" where
  "others position is = take (nat position) is @ drop (nat position + 1) is"

definition insert_ok :: "cf_program \<Rightarrow> int \<Rightarrow> cf_instruction \<Rightarrow> bool" where
  "insert_ok p position i \<longleftrightarrow> valid_program p \<and> in_range position (length (cp_instructions p))
     \<and> ci_op i \<noteq> Halt \<and> valid_instruction (cp_counter_count p) (cp_length p + 1) i"

definition delete_ok :: "cf_program \<Rightarrow> int \<Rightarrow> bool" where
  "delete_ok p position \<longleftrightarrow> valid_program p \<and> 0 \<le> position \<and> position < cp_length p - 1
     \<and> (\<forall>i\<in>set (others position (cp_instructions p)). \<not> targets position i)"

lemma length_inserted_code:
  "in_range position (length is) \<Longrightarrow> length (inserted_code is position i) = Suc (length is)"
  by (auto simp: inserted_code_def Let_def in_range_def)

lemma last_take_drop: "k < length xs \<Longrightarrow> last (drop k xs) = last xs"
  by simp

lemma set_inserted_code:
  "set (inserted_code is position i) = insert i (retarget (insert_shift position) ` set is)"
  using set_take_drop_mid [of "nat position" "map (retarget (insert_shift position)) is" "{i}"]
  by (simp add: inserted_code_def Let_def)

lemma valid_inserted_code:
  assumes "insert_ok p position i"
  shows "valid_code (cp_counter_count p) (inserted_code (cp_instructions p) position i)"
proof -
  let ?is = "cp_instructions p" and ?n = "cp_counter_count p"
  note ok = assms [unfolded insert_ok_def]
  have len: "int (length (inserted_code ?is position i)) = cp_length p + 1"
    using ok length_inserted_code by (simp add: cp_length_def)
  have "valid_instruction ?n (cp_length p + 1) j" if "j \<in> set (inserted_code ?is position i)" for j
  proof (cases "j = i")
    case False
    then obtain j' where j': "j' \<in> set ?is" "j = retarget (insert_shift position) j'"
      using \<open>j \<in> _\<close> by (auto simp: set_inserted_code)
    have "valid_instruction ?n (cp_length p) j'"
      using ok j'(1) by (simp add: valid_program_iff)
    then show ?thesis
      unfolding j'(2) by (rule valid_retarget) (auto simp: insert_shift_def cp_length_def)
  qed (use ok in simp)
  moreover have "ci_op (last (inserted_code ?is position i)) = Halt"
    using ok by (auto simp: inserted_code_def Let_def in_range_def last_append drop_map last_map
        valid_program_iff)
  moreover have "2 \<le> ?n" "inserted_code ?is position i \<noteq> []"
    using ok by (auto simp: valid_program_iff inserted_code_def Let_def)
  ultimately show ?thesis by (simp add: valid_code_def valid_mk_program len)
qed

lemma insert_Inr:
  "insert_control_flow_instruction p position i = Inr q \<longleftrightarrow>
     insert_ok p position i
     \<and> q = mk_program (cp_counter_count p) (inserted_code (cp_instructions p) position i)"
  using valid_inserted_code [of p position i]
  by (auto simp: insert_control_flow_instruction_def bind_r_eq_Inr cp_validate_Inr insert_ok_def
      in_range_def cp_length_def valid_instruction_def valid_code_def inserted_code_def Let_def
      split: if_splits)

lemma delete_length:
  "0 \<le> position \<Longrightarrow> position < int (length is) \<Longrightarrow> length (others position is) = length is - 1"
  by (auto simp: others_def)

lemma valid_deleted_code:
  assumes "delete_ok p position"
  shows "valid_code (cp_counter_count p)
    (map (retarget (delete_shift position)) (others position (cp_instructions p)))"
proof -
  let ?is = "cp_instructions p" and ?n = "cp_counter_count p"
  let ?os = "others position ?is"
  have ok: "valid_program p" "0 \<le> position" "position < cp_length p - 1"
      "\<And>i. i \<in> set ?os \<Longrightarrow> \<not> targets position i"
    using assms by (auto simp: delete_ok_def)
  have len: "int (length ?os) = cp_length p - 1"
    using ok delete_length [of position ?is] by (simp add: cp_length_def)
  have sub: "set ?os \<subseteq> set ?is"
    by (auto simp: others_def dest: in_set_takeD in_set_dropD)
  have "valid_instruction ?n (cp_length p - 1) (retarget (delete_shift position) j)"
    if j: "j \<in> set ?os" for j
  proof -
    have v: "valid_instruction ?n (cp_length p) j" using ok(1) sub j by (auto simp: valid_program_iff)
    then have "0 \<le> delete_shift position t \<and> delete_shift position t < cp_length p - 1"
      if "is_jump (ci_op j)" "ci_target j = Some t" for t
      using ok(2,3) ok(4) [OF j] that
      by (auto simp: delete_shift_def targets_def valid_instruction_iff)
    then show ?thesis using v ok(2,3)
      by (auto simp: valid_instruction_iff retarget_target opt_within_iff)
  qed
  moreover have "?os \<noteq> []" using len ok(2,3) by auto
  moreover have "ci_op (last ?os) = Halt"
    using ok by (auto simp: others_def last_append cp_length_def valid_program_iff)
  moreover have "2 \<le> ?n" using ok(1) by (simp add: valid_program_iff)
  ultimately show ?thesis by (simp add: valid_code_def valid_mk_program len last_map)
qed

lemma delete_Inr:
  "delete_control_flow_instruction p position = Inr q \<longleftrightarrow>
     delete_ok p position
     \<and> q = mk_program (cp_counter_count p)
         (map (retarget (delete_shift position)) (others position (cp_instructions p)))"
proof (cases "valid_program p \<and> 0 \<le> position \<and> position < cp_length p - 1")
  case True
  then show ?thesis
    using valid_deleted_code [of p position]
    unfolding delete_control_flow_instruction_def others_def [symmetric] delete_ok_def
      valid_code_def
    by (auto simp: bind_r_eq_Inr cp_validate_Inr map_r_delete_relocate)
next
  case False
  then show ?thesis
    by (auto simp: delete_control_flow_instruction_def bind_r_eq_Inr cp_validate_Inr delete_ok_def
        split: if_splits)
qed

section \<open>The edits undo one another\<close>

lemma others_inserted:
  "in_range position (length is) \<Longrightarrow>
     others position (inserted_code is position i) = map (retarget (insert_shift position)) is"
  by (auto simp: others_def inserted_code_def Let_def in_range_def min_def)

lemma delete_inserted:
  assumes "insert_control_flow_instruction p position i = Inr q"
  shows "delete_control_flow_instruction q position = Inr p"
proof -
  have ok: "insert_ok p position i" and q: "q = mk_program (cp_counter_count p)
      (inserted_code (cp_instructions p) position i)"
    using assms by (auto simp: insert_Inr)
  have r: "in_range position (length (cp_instructions p))" and v: "valid_program p"
    using ok by (auto simp: insert_ok_def)
  have "delete_ok q position"
    using r valid_inserted_code [OF ok] length_inserted_code [OF r, of i] not_targets_insert
    by (auto simp: delete_ok_def q valid_code_def mk_program_def cp_length_def others_inserted
        in_range_def)
  moreover have "map (retarget (delete_shift position)) (others position (cp_instructions q))
      = cp_instructions p"
    using others_inserted [OF r] by (simp add: q mk_program_def comp_def retarget_delete_insert)
  ultimately show ?thesis
    using valid_program_eq_mk [OF v] by (auto simp: delete_Inr q mk_program_def)
qed

lemma inserted_others:
  assumes "0 \<le> position" and "position < int (length is)"
    and "\<forall>i\<in>set (others position is). \<not> targets position i"
  shows "inserted_code (map (retarget (delete_shift position)) (others position is)) position
      (is ! nat position) = is"
proof -
  have m: "map (retarget (insert_shift position) \<circ> retarget (delete_shift position)) (others position is)
      = others position is"
    using assms(3) by (intro map_idI) (simp add: retarget_insert_delete)
  have "take (nat position) (others position is) = take (nat position) is"
      "drop (nat position) (others position is) = drop (nat position + 1) is"
    using assms(1,2) by (auto simp: others_def min_def)
  then have "inserted_code (map (retarget (delete_shift position)) (others position is)) position
      (is ! nat position) = take (nat position) is @ (is ! nat position) # drop (Suc (nat position)) is"
    by (simp add: inserted_code_def Let_def m)
  also have "\<dots> = is" using assms(1,2) by (intro id_take_nth_drop [symmetric]) linarith
  finally show ?thesis .
qed

lemma insert_deleted:
  assumes "delete_control_flow_instruction q position = Inr p"
    and "ci_op (cp_instructions q ! nat position) \<noteq> Halt"
  shows "insert_control_flow_instruction p position (cp_instructions q ! nat position) = Inr q"
proof -
  let ?is = "cp_instructions q" and ?i = "cp_instructions q ! nat position"
  have ok: "delete_ok q position" and p: "p = mk_program (cp_counter_count q)
      (map (retarget (delete_shift position)) (others position ?is))"
    using assms(1) by (auto simp: delete_Inr)
  have b: "0 \<le> position" "position < int (length ?is) - 1" and v: "valid_program q"
    using ok by (auto simp: delete_ok_def cp_length_def)
  have len: "length (others position ?is) = length ?is - 1" using b by (simp add: delete_length)
  have same: "inserted_code (cp_instructions p) position ?i = ?is"
    using inserted_others [of position ?is] ok b by (simp add: p mk_program_def delete_ok_def)
  have "valid_instruction (cp_counter_count q) (cp_length q) ?i"
    using valid_program_nth [OF v, of "nat position"] b by simp
  moreover have "cp_length p + 1 = cp_length q" using b by (simp add: p mk_program_def cp_length_def len)
  ultimately have "insert_ok p position ?i"
    using valid_deleted_code [OF ok] assms(2) b
    by (simp add: insert_ok_def p valid_code_def mk_program_def in_range_def len)
  then show ?thesis
    using same valid_program_eq_mk [OF v] by (auto simp: insert_Inr p mk_program_def)
qed

section \<open>Insertions control never falls into\<close>

type_synonym insert_site = "cf_program \<times> int \<times> cf_instruction"

text \<open>
  Jumps to \<open>position\<close> are redirected past the inserted instruction, so only falling through from
  \<open>position - 1\<close> reaches it; after an unconditional jump or a \<open>halt\<close> nothing does.
\<close>

fun dead_insert :: "insert_site \<Rightarrow> bool" where
  "dead_insert (p, position, i) \<longleftrightarrow> insert_ok p position i \<and> 0 < position
     \<and> ci_op (cp_instructions p ! nat (position - 1)) \<in> {Jump, Halt}"

fun insert_width :: "insert_site \<Rightarrow> int" where
  "insert_width (p, position, i) = cp_counter_count p"

fun insert_src :: "insert_site \<Rightarrow> cf_instruction list" where
  "insert_src (p, position, i) = cp_instructions p"

fun insert_dst :: "insert_site \<Rightarrow> cf_instruction list" where
  "insert_dst (p, position, i) = inserted_code (cp_instructions p) position i"

fun insert_body :: "insert_site \<Rightarrow> int set" where
  "insert_body (p, position, i) = {0..<cp_length p}"

fun insert_loc :: "insert_site \<Rightarrow> int \<Rightarrow> int" where
  "insert_loc (p, position, i) = insert_shift position"

lemma inserted_code_nth:
  assumes "in_range position (length is)" and "in_range r (length is)"
  shows "inserted_code is position i ! nat (insert_shift position r)
    = retarget (insert_shift position) (is ! nat r)"
  using assms
  by (auto simp: inserted_code_def Let_def insert_shift_def nth_append in_range_def min_def
      nat_add_distrib nth_Cons Suc_diff_le split: nat.splits)

interpretation inserted: embedding dead_insert insert_width insert_src insert_dst insert_body
  insert_loc insert_loc
proof
  fix c r
  assume ok: "dead_insert c"
  obtain p position i where c: "c = (p, position, i)" by (cases c) auto
  have iok: "insert_ok p position i" and v: "valid_program p"
    and pos: "in_range position (length (cp_instructions p))"
    using ok by (auto simp: c insert_ok_def)
  show "valid_code (insert_width c) (insert_src c)" using valid_program_code [OF v] by (simp add: c)
  show "valid_code (insert_width c) (insert_dst c)"
    using valid_inserted_code [OF iok] by (simp add: c)
  assume r: "r \<in> insert_body c"
  then have r': "in_range r (length (cp_instructions p))"
    by (auto simp: c in_range_def cp_length_def)
  then show "in_range r (length (insert_src c))" by (simp add: c)
  show "insert_dst c ! nat (insert_loc c r) = retarget (insert_loc c) (insert_src c ! nat r)"
    using inserted_code_nth [OF pos r'] by (simp add: c)
  show "in_range (insert_loc c r) (length (insert_dst c))"
    using r' length_inserted_code [OF pos] by (auto simp: c in_range_def insert_shift_def)
  assume "ci_op (insert_src c ! nat r) \<noteq> Halt" "ci_op (insert_src c ! nat r) \<noteq> Jump"
  then have "r \<noteq> position - 1" using ok by (auto simp: c)
  then show "insert_loc c (r + 1) = insert_loc c r + 1" by (auto simp: c insert_shift_def)
qed

lemma dead_insert_run:
  assumes "dead_insert (p, position, i)" and "counters_ok (cp_counter_count p) s"
    and "cf_run (cp_instructions p) m k st 0 s = Inr (x, q, t, n)"
  shows "cf_run (inserted_code (cp_instructions p) position i) m k st 0 s
    = Inr (x, insert_shift position q, t, n)"
proof -
  have "in_range 0 (length (cp_instructions p))" "insert_shift position 0 = 0"
    using assms(1) valid_program_length by (auto simp: insert_ok_def in_range_def insert_shift_def)
  then show ?thesis
    using inserted.whole_run [of "(p, position, i)" 0 s m k st x q t n] assms
    by (simp add: in_range_def cp_length_def)
qed

section \<open>Properties\<close>

text \<open>
  Insertion and deletion undo each other: deleting what was inserted gives the original file
  back, and re-inserting a deleted instruction (other than a \<open>halt\<close>, which \<open>insert\<close> refuses)
  gives the undeleted file back, every jump target included.
\<close>

lemma insert_delete_inverse:
  "(insert_control_flow_instruction p position i = Inr q \<longrightarrow>
      delete_control_flow_instruction q position = Inr p)
   \<and> (delete_control_flow_instruction q position = Inr p
      \<and> ci_op (cp_instructions q ! nat position) \<noteq> Halt \<longrightarrow>
      insert_control_flow_instruction p position (cp_instructions q ! nat position) = Inr q)"
  using delete_inserted insert_deleted by blast

definition decrement :: cf_instruction where
  "decrement = \<lparr>ci_op = Dec, ci_counter = Some 1, ci_target = None\<rparr>"

definition drain_inserted :: cf_program where
  "drain_inserted = mk_program 2 (inserted_code (cp_instructions drain) 4 decrement)"

lemma insert_drain: "insert_control_flow_instruction drain 4 decrement = Inr drain_inserted"
  by code_simp

text \<open>
  The edits fail only on their own guards: the validation of the edited file never fails.
  An insertion succeeds exactly for a valid program, a position inside it and a valid
  non-\<open>halt\<close> instruction; a deletion exactly when the position is not the last and no other
  instruction jumps to it; the edited file is valid, has the same counters and is one
  instruction longer or shorter.
\<close>

lemma local_edits_succeed_iff:
  "(\<exists>q. insert_control_flow_instruction p position i = Inr q \<and> valid_program q
        \<and> cp_counter_count q = cp_counter_count p \<and> cp_length q = cp_length p + 1)
     = insert_ok p position i
   \<and> is_ok (insert_control_flow_instruction p position i) = insert_ok p position i
   \<and> (\<exists>q. delete_control_flow_instruction p position = Inr q \<and> valid_program q
        \<and> cp_counter_count q = cp_counter_count p \<and> cp_length q = cp_length p - 1)
     = delete_ok p position
   \<and> is_ok (delete_control_flow_instruction p position) = delete_ok p position"
proof -
  have "valid_program (mk_program (cp_counter_count p) (inserted_code (cp_instructions p) position i))
      \<and> length (inserted_code (cp_instructions p) position i) = Suc (length (cp_instructions p))"
    if "insert_ok p position i"
    using valid_inserted_code [OF that] length_inserted_code that
    by (simp add: valid_code_def insert_ok_def)
  moreover have "valid_program (mk_program (cp_counter_count p)
        (map (retarget (delete_shift position)) (others position (cp_instructions p))))
      \<and> int (length (others position (cp_instructions p))) = cp_length p - 1"
    if "delete_ok p position"
    using valid_deleted_code [OF that] delete_length [of position "cp_instructions p"] that
    by (auto simp: valid_code_def delete_ok_def cp_length_def)
  ultimately show ?thesis
    unfolding is_ok_iff insert_Inr delete_Inr by (auto simp: mk_program_def cp_length_def)
qed

text \<open>
  An instruction inserted where control never falls into it, after an unconditional jump or a
  \<open>halt\<close>, changes no execution: status, counters and step count are those of the original, for
  every budget, and the final pointer is the relocated one.
\<close>

lemma dead_insertion_invisible:
  assumes "insert_control_flow_instruction p position i = Inr q" and "0 < position"
    and "ci_op (cp_instructions p ! nat (position - 1)) \<in> {Jump, Halt}"
    and "cp_execute p s k m lim = Inr e"
  shows "\<exists>f. cp_execute q s k m lim = Inr f \<and> ce_status f = ce_status e
    \<and> ce_counters f = ce_counters e \<and> ce_steps f = ce_steps e
    \<and> ce_pointer f = insert_shift position (ce_pointer e)"
proof -
  have ok: "insert_ok p position i" and q: "q = mk_program (cp_counter_count p)
      (inserted_code (cp_instructions p) position i)"
    using assms(1) unfolding insert_Inr by blast+
  have args: "exec_args_ok p s k m" using assms(4) cp_execute_invalid [of p s k m lim] by fastforce
  then have args': "exec_args_ok q s k m"
    using valid_inserted_code [OF ok] by (simp add: exec_args_ok_def q valid_code_def mk_program_def)
  obtain f where f: "cp_execute q s k m lim = Inr f"
      "cf_run (cp_instructions q) m (nat k) 0 0 s = Inr (ce_result f)"
    using exec_args_run [OF args', of lim] by blast
  obtain x r t n where e: "ce_result e = (x, r, t, n)" by (cases "ce_result e")
  have "cf_run (cp_instructions q) m (nat k) 0 0 s = Inr (x, insert_shift position r, t, n)"
    using dead_insert_run [of p position i s m "nat k" 0 x r t n] ok assms(2,3) args
      cp_execute_run [OF args assms(4)] e
    by (simp add: exec_args_ok_def q mk_program_def)
  then have "ce_result f = (x, insert_shift position r, t, n)" using f(2) by simp
  then show ?thesis using f(1) e by (auto simp: ce_result_def)
qed

end
