(* ===== verification/PyFloat.thy ===== *)
theory PyFloat
  imports Prelude Complex_Main
begin

text \<open>
  Python floats as the code uses them: a finite value, the two infinities, or NaN, with the
  IEEE order (every comparison with NaN is false).  \<open>pyfloat\<close> is made an instance of the
  library's \<open>ord\<close> class, so the code's \<open>x < y\<close> and \<open>x <= y\<close> are written as they are.
  Finite values are exact rationals: every double is one, and comparing, \<open>min\<close> and \<open>max\<close>
  are exact on doubles.  Sums and quotients are exact here, where the interpreter rounds.
\<close>

datatype pyfloat = Fin rat | PosInf | NegInf | NaN

fun pf_le :: "pyfloat \<Rightarrow> pyfloat \<Rightarrow> bool" where
  "pf_le NaN _ = False"
| "pf_le _ NaN = False"
| "pf_le NegInf _ = True"
| "pf_le _ PosInf = True"
| "pf_le (Fin a) (Fin b) = (a \<le> b)"
| "pf_le _ _ = False"

fun pf_lt :: "pyfloat \<Rightarrow> pyfloat \<Rightarrow> bool" where
  "pf_lt NaN _ = False"
| "pf_lt _ NaN = False"
| "pf_lt NegInf NegInf = False"
| "pf_lt NegInf _ = True"
| "pf_lt PosInf _ = False"
| "pf_lt _ PosInf = True"
| "pf_lt (Fin a) (Fin b) = (a < b)"
| "pf_lt (Fin a) NegInf = False"

instantiation pyfloat :: ord
begin

definition less_eq_pyfloat :: "pyfloat \<Rightarrow> pyfloat \<Rightarrow> bool" where
  "less_eq_pyfloat = pf_le"

definition less_pyfloat :: "pyfloat \<Rightarrow> pyfloat \<Rightarrow> bool" where
  "less_pyfloat = pf_lt"

instance by standard

end

text \<open>\<open>math.isfinite\<close>, and the value of a finite float.\<close>

fun isfinite :: "pyfloat \<Rightarrow> bool" where
  "isfinite (Fin _) = True"
| "isfinite _ = False"

fun fin_val :: "pyfloat \<Rightarrow> rat" where
  "fin_val (Fin a) = a"
| "fin_val _ = 0"

lemma Fin_le [simp]: "(Fin a \<le> Fin b) = (a \<le> b)"
  by (simp add: less_eq_pyfloat_def)

lemma Fin_less [simp]: "(Fin a < Fin b) = (a < b)"
  by (simp add: less_pyfloat_def)

lemma NaN_compare [simp]:
  "\<not> NaN \<le> x" "\<not> x \<le> NaN" "\<not> NaN < x" "\<not> x < NaN"
  by (cases x; simp add: less_eq_pyfloat_def less_pyfloat_def)+

lemma Inf_compare [simp]:
  "\<not> PosInf \<le> Fin a" "Fin a \<le> PosInf" "NegInf \<le> Fin a" "\<not> Fin a \<le> NegInf"
  "\<not> PosInf < Fin a" "Fin a < PosInf" "NegInf < Fin a" "\<not> Fin a < NegInf"
  by (simp_all add: less_eq_pyfloat_def less_pyfloat_def)

lemma isfinite_iff: "isfinite x \<longleftrightarrow> (\<exists>a. x = Fin a)"
  by (cases x) simp_all

lemma Fin_fin_val [simp]: "isfinite x \<Longrightarrow> Fin (fin_val x) = x"
  by (cases x) simp_all

text \<open>\<open>0.0 <= x <= 1.0\<close> and \<open>0.0 < x <= 1.0\<close>; both fail on NaN and the infinities.\<close>

definition in_unit :: "pyfloat \<Rightarrow> bool" where
  "in_unit x \<longleftrightarrow> Fin 0 \<le> x \<and> x \<le> Fin 1"

definition in_unit_pos :: "pyfloat \<Rightarrow> bool" where
  "in_unit_pos x \<longleftrightarrow> Fin 0 < x \<and> x \<le> Fin 1"

lemma in_unit_Fin [simp]: "in_unit (Fin a) \<longleftrightarrow> 0 \<le> a \<and> a \<le> 1"
  by (simp add: in_unit_def)

lemma in_unit_iff: "in_unit x \<longleftrightarrow> (\<exists>a. x = Fin a \<and> 0 \<le> a \<and> a \<le> 1)"
  by (cases x) (simp_all add: in_unit_def)

lemma in_unit_pos_Fin [simp]: "in_unit_pos (Fin a) \<longleftrightarrow> 0 < a \<and> a \<le> 1"
  by (simp add: in_unit_pos_def)

lemma in_unit_pos_iff: "in_unit_pos x \<longleftrightarrow> (\<exists>a. x = Fin a \<and> 0 < a \<and> a \<le> 1)"
  by (cases x) (simp_all add: in_unit_pos_def)

lemma in_unit_alt: "in_unit v \<longleftrightarrow> \<not> (\<not> isfinite v \<or> \<not> (Fin 0 \<le> v \<and> v \<le> Fin 1))"
  by (cases v) (auto simp: in_unit_def)

lemma in_unit_isfinite: "in_unit x \<Longrightarrow> isfinite x"
  by (auto simp: in_unit_iff)

text \<open>Means of finite values, \<open>sum(values) / len(values)\<close>.\<close>

definition mean :: "rat list \<Rightarrow> rat" where
  "mean xs = sum_list xs / of_nat (length xs)"

lemma sum_list_unit:
  "\<forall>x\<in>set xs. 0 \<le> x \<and> x \<le> 1 \<Longrightarrow> 0 \<le> sum_list xs \<and> sum_list xs \<le> of_nat (length xs)"
  for xs :: "rat list"
  by (induction xs) auto

lemma mean_in_unit:
  assumes "xs \<noteq> []" and "\<forall>x\<in>set xs. 0 \<le> x \<and> x \<le> 1"
  shows "0 \<le> mean xs \<and> mean xs \<le> 1"
  using sum_list_unit [OF assms(2)] assms(1)
  by (simp add: mean_def divide_le_eq)

lemma sum_list_all_one:
  "\<forall>x\<in>set xs. x = 1 \<Longrightarrow> sum_list xs = of_nat (length xs)" for xs :: "rat list"
  by (induction xs) auto

end
