(* ===== verification/ProgramStore.thy ===== *)
theory ProgramStore
  imports PyFloat
begin

text \<open>
  What the external program memories share.

  \<open>stable_from\<close> is the loop of the admission evaluators: the first index from which at least
  \<open>min_stable\<close> outcomes remain and all of them reach the threshold.  \<open>stable_None_iff\<close> says when
  there is one, in terms of the last \<open>min_stable\<close> outcomes only.

  The locale \<open>program_store\<close> is the contract of an append-only memory of protected files: every
  operation that changes it appends one file with its protection mark or sets one mark.  What a
  client may rely on follows once: a slot, once filled, keeps its file, and a mark, once set,
  stays set, over any sequence of operations.
\<close>

section \<open>The stable verifier prefix\<close>

fun stable_from :: "rat \<Rightarrow> int \<Rightarrow> int \<Rightarrow> rat list \<Rightarrow> int option" where
  "stable_from threshold min_stable index [] = None"
| "stable_from threshold min_stable index (v # vs) =
     (if int (length (v # vs)) \<ge> min_stable \<and> Min (set (v # vs)) \<ge> threshold then Some (index + 1)
      else stable_from threshold min_stable (index + 1) vs)"

lemma Min_ge_iff_all: "vs \<noteq> [] \<Longrightarrow> Min (set vs) \<ge> t \<longleftrightarrow> (\<forall>x\<in>set vs. t \<le> x)" for t :: rat
  by simp

lemma stable_from_Some:
  "stable_from t ms k vs = Some j \<Longrightarrow>
     \<exists>i < length vs. j = k + int i + 1 \<and> ms \<le> int (length vs) - int i
       \<and> (\<forall>x\<in>set (drop i vs). t \<le> x)
       \<and> (\<forall>i' < i. \<not> (ms \<le> int (length vs) - int i' \<and> (\<forall>x\<in>set (drop i' vs). t \<le> x)))"
proof (induction vs arbitrary: k)
  case (Cons v vs)
  show ?case
  proof (cases "int (length (v # vs)) \<ge> ms \<and> Min (set (v # vs)) \<ge> t")
    case True
    then show ?thesis using Cons.prems by (intro exI [of _ 0]) (auto simp: Min_ge_iff_all)
  next
    case False
    then have "stable_from t ms (k + 1) vs = Some j" using Cons.prems by (simp split: if_splits)
    then obtain i where i: "i < length vs" "j = k + 1 + int i + 1" "ms \<le> int (length vs) - int i"
        "\<forall>x\<in>set (drop i vs). t \<le> x"
        "\<forall>i' < i. \<not> (ms \<le> int (length vs) - int i' \<and> (\<forall>x\<in>set (drop i' vs). t \<le> x))"
      using Cons.IH by blast
    have "\<not> (ms \<le> int (length (v # vs)) - int i' \<and> (\<forall>x\<in>set (drop i' (v # vs)). t \<le> x))"
      if "i' < Suc i" for i'
      using i(5) that False by (cases i') (auto simp: Min_ge_iff_all)
    then show ?thesis using i by (intro exI [of _ "Suc i"]) auto
  qed
qed simp

lemma stable_from_None:
  "stable_from t ms k vs = None \<longleftrightarrow>
     (\<forall>i < length vs. \<not> (ms \<le> int (length vs) - int i \<and> (\<forall>x\<in>set (drop i vs). t \<le> x)))"
proof (induction vs arbitrary: k)
  case (Cons v vs)
  have "(\<forall>i < length (v # vs). \<not> (ms \<le> int (length (v # vs)) - int i \<and> (\<forall>x\<in>set (drop i (v # vs)). t \<le> x)))
    \<longleftrightarrow> \<not> (ms \<le> int (length (v # vs)) \<and> Min (set (v # vs)) \<ge> t)
      \<and> (\<forall>i < length vs. \<not> (ms \<le> int (length vs) - int i \<and> (\<forall>x\<in>set (drop i vs). t \<le> x)))"
    using Min_ge_iff_all [of "v # vs" t] by (auto simp: All_less_Suc2 simp del: Min_ge_iff)
  then show ?case using Cons.IH [of "k + 1"] by simp
qed simp

definition stably_above :: "rat \<Rightarrow> int \<Rightarrow> rat list \<Rightarrow> bool" where
  "stably_above t ms vs \<longleftrightarrow> ms \<le> int (length vs) \<and> (\<forall>x\<in>set (drop (length vs - nat ms) vs). t \<le> x)"

lemma stable_None_iff:
  assumes "1 \<le> ms"
  shows "stable_from t ms k vs = None \<longleftrightarrow> \<not> stably_above t ms vs"
proof
  assume "stable_from t ms k vs = None"
  then show "\<not> stably_above t ms vs"
    using assms by (cases "vs = []")
      (auto simp: stable_from_None stably_above_def dest!: spec [of _ "length vs - nat ms"])
next
  assume no: "\<not> stably_above t ms vs"
  show "stable_from t ms k vs = None"
    unfolding stable_from_None
  proof (intro allI impI notI)
    fix i assume i: "i < length vs"
      "ms \<le> int (length vs) - int i \<and> (\<forall>x\<in>set (drop i vs). t \<le> x)"
    then have "i \<le> length vs - nat ms" using assms by linarith
    then have "set (drop (length vs - nat ms) vs) \<subseteq> set (drop i vs)"
      by (rule set_drop_subset_set_drop)
    then show False using no i by (auto simp: stably_above_def)
  qed
qed

text \<open>\<open>values.min()\<close> of outcomes that are all finite.\<close>

definition float_min :: "pyfloat list \<Rightarrow> pyfloat" where
  "float_min vs = Fin (Min (set (map fin_val vs)))"

lemma float_min_unit:
  assumes "vs \<noteq> []" and "\<forall>v\<in>set vs. in_unit v"
  shows "in_unit (float_min vs)"
proof -
  have "Min (set (map fin_val vs)) \<in> set (map fin_val vs)" using assms(1) by (intro Min_in) auto
  then obtain v where "v \<in> set vs" "Min (set (map fin_val vs)) = fin_val v" by auto
  then show ?thesis using assms(2) by (auto simp: float_min_def in_unit_iff)
qed

section \<open>Append-only memories of protected files\<close>

locale program_store =
  fixes inv :: "'m \<Rightarrow> bool"
    and files :: "'m \<Rightarrow> 'p list"
    and marks :: "'m \<Rightarrow> bool list"
    and lookup :: "'m \<Rightarrow> int \<Rightarrow> 'p result"
    and step :: "'m \<Rightarrow> 'm \<Rightarrow> bool"
  assumes marks_length: "inv m \<Longrightarrow> length (marks m) = length (files m)"
    and lookup_iff: "inv m \<Longrightarrow> lookup m k = Inr p \<longleftrightarrow>
      in_range k (length (files m)) \<and> p = files m ! nat k"
    and step_inv: "inv m \<Longrightarrow> step m m' \<Longrightarrow> inv m'"
    and step_effect: "inv m \<Longrightarrow> step m m' \<Longrightarrow>
      (\<exists>p b. files m' = files m @ [p] \<and> marks m' = marks m @ [b])
      \<or> (\<exists>k. files m' = files m \<and> marks m' = (marks m)[k := True])"
begin

definition later :: "'m \<Rightarrow> 'm \<Rightarrow> bool" where
  "later m m' \<longleftrightarrow> (\<exists>ps. files m' = files m @ ps)
     \<and> (\<forall>k < length (files m). marks m ! k \<longrightarrow> marks m' ! k)"

lemma steps_inv: "step\<^sup>*\<^sup>* m m' \<Longrightarrow> inv m \<Longrightarrow> inv m'"
  by (induction rule: rtranclp_induct) (auto dest: step_inv)

lemma step_later:
  assumes "inv m" and "step m m'"
  shows "later m m'"
proof -
  have len: "length (marks m) = length (files m)" using marks_length [OF assms(1)] .
  show ?thesis
    using step_effect [OF assms] len
    by (auto simp: later_def nth_append) (metis nth_list_update_eq nth_list_update_neq)
qed

lemma later_trans: "later m m' \<Longrightarrow> later m' m'' \<Longrightarrow> later m m''"
  by (auto simp: later_def)

lemma steps_later: "step\<^sup>*\<^sup>* m m' \<Longrightarrow> inv m \<Longrightarrow> later m m'"
proof (induction rule: rtranclp_induct)
  case base
  then show ?case by (simp add: later_def)
next
  case (step y z)
  then show ?case using steps_inv step_later later_trans by blast
qed

lemma lookup_stable:
  assumes "step\<^sup>*\<^sup>* m m'" and "inv m" and "lookup m k = Inr p"
  shows "lookup m' k = Inr p"
proof -
  have "in_range k (length (files m))" "p = files m ! nat k"
    using lookup_iff [OF assms(2)] assms(3) by auto
  moreover obtain ps where "files m' = files m @ ps"
    using steps_later [OF assms(1,2)] by (auto simp: later_def)
  ultimately show ?thesis
    using lookup_iff [OF steps_inv [OF assms(1,2)]] by (auto simp: in_range_def nth_append)
qed

lemma marks_stable:
  assumes "step\<^sup>*\<^sup>* m m'" and "inv m" and "k < length (files m)" and "marks m ! k"
  shows "marks m' ! k"
  using steps_later [OF assms(1,2)] assms(3,4) by (simp add: later_def)

lemma count_mono: "step\<^sup>*\<^sup>* m m' \<Longrightarrow> inv m \<Longrightarrow> length (files m) \<le> length (files m')"
  using steps_later by (force simp: later_def)

end

end
