(* ===== verification/ControlFlowMemory.thy ===== *)
theory ControlFlowMemory
  imports ControlFlowCompose ControlFlowSplice ControlFlowLocalEdit ProgramStore
begin

text \<open>
  \<open>evaluate_control_flow_admission\<close> and the class \<open>ControlFlowProgramMemory\<close> of
  \<open>control_flow.py\<close>: programs with protection marks, admitted on scalar evidence, and the
  checksummed payload form.  A method that mutates \<open>self\<close> returns the new record.
\<close>

section \<open>Admission\<close>

record cf_receipt =
  cr_accepted :: bool
  cr_slot :: "int option"
  cr_stable :: "int option"
  cr_reason :: string

definition admission_reason :: "bool \<Rightarrow> string" where
  "admission_reason accepted =
     (if \<not> accepted then ''control-flow verifier prefix did not remain above threshold''
      else ''control-flow program passed a stable verifier prefix'')"

definition evaluate_control_flow_admission ::
    "cf_program \<Rightarrow> pyfloat list \<Rightarrow> pyfloat \<Rightarrow> int \<Rightarrow> int \<Rightarrow> cf_receipt result" where
  "evaluate_control_flow_admission p outcomes threshold min_observations min_stable =
     bind_r (cp_validate p) (\<lambda>_.
       if outcomes = [] \<or> (\<exists>v\<in>set outcomes. \<not> isfinite v \<or> \<not> (Fin 0 \<le> v \<and> v \<le> Fin 1))
       then Inl ValueError
       else if \<not> (Fin 0 < threshold \<and> threshold \<le> Fin 1) \<or> min_observations < 1 \<or> min_stable < 1
       then Inl ValueError
       else
         let stable = stable_from (fin_val threshold) min_stable 0 (map fin_val outcomes);
             accepted = (int (length outcomes) \<ge> min_observations \<and> stable \<noteq> None)
         in Inr \<lparr>cr_accepted = accepted, cr_slot = None, cr_stable = stable,
               cr_reason = admission_reason accepted\<rparr>)"

section \<open>The memory\<close>

definition CONTROL_FLOW_MEMORY_SCHEMA :: string where
  "CONTROL_FLOW_MEMORY_SCHEMA = ''neural-computer.external-control-flow-memory.v1''"

record cf_memory =
  cm_counter_count :: int
  cm_programs :: "cf_program list"
  cm_protected :: "bool list"

definition cm_init :: "int \<Rightarrow> cf_memory result" where
  "cm_init counter_count =
     (if counter_count < 2 then Inl ValueError
      else Inr \<lparr>cm_counter_count = counter_count, cm_programs = [], cm_protected = []\<rparr>)"

definition cm_file_count :: "cf_memory \<Rightarrow> int" where
  "cm_file_count m = int (length (cm_programs m))"

definition cm_add_program :: "cf_memory \<Rightarrow> cf_program \<Rightarrow> bool \<Rightarrow> (cf_memory \<times> int) result" where
  "cm_add_program m p protect =
     bind_r (cp_validate p) (\<lambda>_.
       if cp_counter_count p \<noteq> cm_counter_count m then Inl ValueError
       else let m' = m\<lparr>cm_programs := cm_programs m @ [p], cm_protected := cm_protected m @ [protect]\<rparr>
            in Inr (m', cm_file_count m' - 1))"

definition cm_program :: "cf_memory \<Rightarrow> int \<Rightarrow> cf_program result" where
  "cm_program m slot =
     (if \<not> (0 \<le> slot \<and> slot < cm_file_count m) then Inl IndexError
      else Inr (cm_programs m ! nat slot))"

definition cm_protect_file :: "cf_memory \<Rightarrow> int \<Rightarrow> cf_memory result" where
  "cm_protect_file m slot =
     (if \<not> (0 \<le> slot \<and> slot < cm_file_count m) then Inl IndexError
      else Inr (m\<lparr>cm_protected := (cm_protected m)[nat slot := True]\<rparr>))"

definition cm_is_file_protected :: "cf_memory \<Rightarrow> int \<Rightarrow> bool result" where
  "cm_is_file_protected m slot =
     (if \<not> (0 \<le> slot \<and> slot < cm_file_count m) then Inl IndexError
      else Inr (cm_protected m ! nat slot))"

text \<open>\<open>isinstance(slot, int) and not isinstance(slot, bool)\<close>, then the range check.\<close>

fun cm_slot :: "cf_memory \<Rightarrow> pyval \<Rightarrow> int result" where
  "cm_slot m (PInt slot) =
     (if \<not> (0 \<le> slot \<and> slot < cm_file_count m) then Inl IndexError else Inr slot)"
| "cm_slot m _ = Inl TypeError"

fun py_position :: "pyval \<Rightarrow> int result" where
  "py_position (PInt i) = Inr i"
| "py_position _ = Inl TypeError"

definition cm_compose :: "cf_memory \<Rightarrow> pyval list \<Rightarrow> cf_program result" where
  "cm_compose m slots =
     (if slots = [] then Inl ValueError
      else bind_r (map_r (cm_slot m) slots) (\<lambda>normalized.
        bind_r (map_r (cm_program m) normalized) compose_control_flow_programs))"

definition cm_splice :: "cf_memory \<Rightarrow> pyval \<Rightarrow> pyval \<Rightarrow> pyval \<Rightarrow> cf_program result" where
  "cm_splice m parent_slot position fragment_slot =
     bind_r (cm_slot m parent_slot) (\<lambda>ps.
     bind_r (cm_slot m fragment_slot) (\<lambda>fs.
     bind_r (py_position position) (\<lambda>pos.
     bind_r (cm_program m ps) (\<lambda>p.
     bind_r (cm_program m fs) (\<lambda>f.
       splice_control_flow_program p pos f)))))"

definition admitted_reason :: string where
  "admitted_reason = ''control-flow program admitted after stable verifier prefix''"

definition cm_admit_verified :: "cf_memory \<Rightarrow> cf_program \<Rightarrow> pyfloat list \<Rightarrow> pyfloat \<Rightarrow> int \<Rightarrow> int \<Rightarrow> bool
    \<Rightarrow> (cf_memory \<times> cf_receipt) result" where
  "cm_admit_verified m p outcomes threshold min_observations min_stable protect =
     bind_r (cp_validate p) (\<lambda>_.
       if cp_counter_count p \<noteq> cm_counter_count m then Inl ValueError
       else bind_r (evaluate_control_flow_admission p outcomes threshold min_observations min_stable)
         (\<lambda>receipt.
           if \<not> cr_accepted receipt then Inr (m, receipt)
           else bind_r (cm_add_program m p protect) (\<lambda>(m', slot).
             Inr (m', \<lparr>cr_accepted = True, cr_slot = Some slot, cr_stable = cr_stable receipt,
               cr_reason = admitted_reason\<rparr>))))"

definition cm_compose_verified :: "cf_memory \<Rightarrow> pyval list \<Rightarrow> pyfloat list \<Rightarrow> pyfloat \<Rightarrow> int \<Rightarrow> int
    \<Rightarrow> bool \<Rightarrow> (cf_memory \<times> cf_receipt) result" where
  "cm_compose_verified m slots outcomes threshold min_observations min_stable protect =
     bind_r (cm_compose m slots) (\<lambda>p.
       cm_admit_verified m p outcomes threshold min_observations min_stable protect)"

definition cm_splice_verified :: "cf_memory \<Rightarrow> pyval \<Rightarrow> pyval \<Rightarrow> pyval \<Rightarrow> pyfloat list \<Rightarrow> pyfloat
    \<Rightarrow> int \<Rightarrow> int \<Rightarrow> bool \<Rightarrow> (cf_memory \<times> cf_receipt) result" where
  "cm_splice_verified m parent_slot position fragment_slot outcomes threshold min_observations
      min_stable protect =
     bind_r (cm_splice m parent_slot position fragment_slot) (\<lambda>p.
       cm_admit_verified m p outcomes threshold min_observations min_stable protect)"

section \<open>Persistence\<close>

definition cm_body :: "cf_memory \<Rightarrow> (string \<times> pyval) list result" where
  "cm_body m = bind_r (map_r cp_payload (cm_programs m)) (\<lambda>ps. Inr
     [(''schema'', PStr CONTROL_FLOW_MEMORY_SCHEMA),
      (''counter_count'', PInt (cm_counter_count m)),
      (''programs'', PList ps),
      (''protected'', PList (map PBool (cm_protected m)))])"

definition cm_payload :: "cf_memory \<Rightarrow> pyval result" where
  "cm_payload m = bind_r (cm_body m) (\<lambda>body.
     Inr (PDict (body @ [(''sha256'', PStr (digest_payload (PDict body)))])))"

definition unsigned_body :: "(string \<times> pyval) list \<Rightarrow> (string \<times> pyval) list" where
  "unsigned_body kvs = filter (\<lambda>kv. fst kv \<noteq> ''sha256'') kvs"

fun cm_restore :: "cf_memory \<Rightarrow> (pyval \<times> pyval) list \<Rightarrow> cf_memory result" where
  "cm_restore m [] = Inr m"
| "cm_restore m ((raw, PBool b) # rest) =
     bind_r (cp_from_payload raw) (\<lambda>p.
       bind_r (cm_add_program m p b) (\<lambda>(m', _). cm_restore m' rest))"
| "cm_restore m ((raw, _) # rest) = Inl TypeError"

fun cm_from_payload :: "pyval \<Rightarrow> cf_memory result" where
  "cm_from_payload (PDict kvs) =
     (if dict_get kvs ''schema'' \<noteq> PStr CONTROL_FLOW_MEMORY_SCHEMA then Inl ValueError
      else if dict_get kvs ''sha256'' \<noteq> PStr (digest_payload (PDict (unsigned_body kvs))) then Inl ValueError
      else (case (dict_get kvs ''programs'', dict_get kvs ''protected'') of
          (PList programs, PList protected) \<Rightarrow>
            (if length programs \<noteq> length protected then Inl ValueError
             else bind_r (py_int (dict_get_default kvs ''counter_count'' (PInt (-1)))) (\<lambda>n.
               bind_r (cm_init n) (\<lambda>m. cm_restore m (zip programs protected))))
        | _ \<Rightarrow> Inl TypeError))"
| "cm_from_payload _ = Inl ValueError"

definition cm_digest :: "cf_memory \<Rightarrow> string result" where
  "cm_digest m = bind_r (cm_body m) (\<lambda>body. Inr (digest_payload (PDict body)))"

section \<open>Admission characterised\<close>

definition admission_args_ok :: "cf_program \<Rightarrow> pyfloat list \<Rightarrow> pyfloat \<Rightarrow> int \<Rightarrow> int \<Rightarrow> bool" where
  "admission_args_ok p outcomes threshold min_observations min_stable \<longleftrightarrow>
     valid_program p \<and> outcomes \<noteq> [] \<and> (\<forall>v\<in>set outcomes. in_unit v) \<and> in_unit_pos threshold
     \<and> 1 \<le> min_observations \<and> 1 \<le> min_stable"

definition admissible :: "pyfloat list \<Rightarrow> pyfloat \<Rightarrow> int \<Rightarrow> int \<Rightarrow> bool" where
  "admissible outcomes threshold min_observations min_stable \<longleftrightarrow>
     min_observations \<le> int (length outcomes) \<and> min_stable \<le> int (length outcomes)
     \<and> (\<forall>v\<in>set (drop (length outcomes - nat min_stable) outcomes). threshold \<le> v)"

lemma stably_above_admissible:
  assumes "\<forall>v\<in>set outcomes. in_unit v" and "in_unit_pos threshold"
  shows "stably_above (fin_val threshold) ms (map fin_val outcomes) \<longleftrightarrow>
    ms \<le> int (length outcomes)
    \<and> (\<forall>v\<in>set (drop (length outcomes - nat ms) outcomes). threshold \<le> v)"
proof -
  obtain t where t: "threshold = Fin t" using assms(2) by (auto simp: in_unit_pos_iff)
  have "fin_val threshold \<le> fin_val v \<longleftrightarrow> threshold \<le> v" if "v \<in> set (drop k outcomes)" for v k
    using assms(1) in_set_dropD [OF that] by (auto simp: t in_unit_iff)
  then show ?thesis by (simp add: stably_above_def drop_map)
qed

lemma evaluate_admission_Inr:
  "evaluate_control_flow_admission p outcomes threshold mo ms = Inr r \<longleftrightarrow>
     admission_args_ok p outcomes threshold mo ms
     \<and> cr_stable r = stable_from (fin_val threshold) ms 0 (map fin_val outcomes)
     \<and> cr_accepted r = admissible outcomes threshold mo ms \<and> cr_slot r = None
     \<and> cr_reason r = admission_reason (admissible outcomes threshold mo ms)"
proof (cases "admission_args_ok p outcomes threshold mo ms")
  case True
  then have ok: "valid_program p" "outcomes \<noteq> []" "\<forall>v\<in>set outcomes. in_unit v"
      "in_unit_pos threshold" "1 \<le> mo" "1 \<le> ms"
    by (auto simp: admission_args_ok_def)
  have acc: "(int (length outcomes) \<ge> mo
      \<and> stable_from (fin_val threshold) ms 0 (map fin_val outcomes) \<noteq> None)
      = admissible outcomes threshold mo ms"
    using stable_None_iff [OF ok(6)] stably_above_admissible [OF ok(3,4), of ms]
    by (auto simp: admissible_def)
  have "cp_validate p = Inr p" "\<not> (outcomes = [] \<or> (\<exists>v\<in>set outcomes. \<not> isfinite v \<or> \<not> (Fin 0 \<le> v \<and> v \<le> Fin 1)))"
      "\<not> (\<not> (Fin 0 < threshold \<and> threshold \<le> Fin 1) \<or> mo < 1 \<or> ms < 1)"
    using ok by (auto simp: cp_validate_Inr in_unit_alt in_unit_pos_def)
  then have "evaluate_control_flow_admission p outcomes threshold mo ms = Inr
      \<lparr>cr_accepted = admissible outcomes threshold mo ms, cr_slot = None,
        cr_stable = stable_from (fin_val threshold) ms 0 (map fin_val outcomes),
        cr_reason = admission_reason (admissible outcomes threshold mo ms)\<rparr>"
    unfolding evaluate_control_flow_admission_def acc [symmetric] by (simp only: bind_r_Inr if_False Let_def)
  then show ?thesis using True by (cases r) auto
next
  case False
  have "evaluate_control_flow_admission p outcomes threshold mo ms \<noteq> Inr r"
  proof
    assume "evaluate_control_flow_admission p outcomes threshold mo ms = Inr r"
    then have "valid_program p" "outcomes \<noteq> []" "\<forall>v\<in>set outcomes. in_unit v"
        "in_unit_pos threshold" "1 \<le> mo" "1 \<le> ms"
      unfolding evaluate_control_flow_admission_def in_unit_alt in_unit_pos_def
      by (auto simp only: bind_r_eq_Inr cp_validate_Inr not_less split: if_splits)
    then show False using False by (simp add: admission_args_ok_def)
  qed
  then show ?thesis using False by simp
qed

section \<open>What each operation does\<close>

definition memory_ok :: "cf_memory \<Rightarrow> bool" where
  "memory_ok m \<longleftrightarrow> 2 \<le> cm_counter_count m \<and> length (cm_protected m) = length (cm_programs m)
     \<and> (\<forall>p\<in>set (cm_programs m). valid_program p \<and> cp_counter_count p = cm_counter_count m)"

definition with_program :: "cf_memory \<Rightarrow> cf_program \<Rightarrow> bool \<Rightarrow> cf_memory" where
  "with_program m p b =
     m\<lparr>cm_programs := cm_programs m @ [p], cm_protected := cm_protected m @ [b]\<rparr>"

lemma with_program_simps [simp]:
  "cm_programs (with_program m p b) = cm_programs m @ [p]"
  "cm_protected (with_program m p b) = cm_protected m @ [b]"
  "cm_counter_count (with_program m p b) = cm_counter_count m"
  by (simp_all add: with_program_def)

lemma cm_init_Inr: "cm_init n = Inr m \<longleftrightarrow> 2 \<le> n \<and>
    m = \<lparr>cm_counter_count = n, cm_programs = [], cm_protected = []\<rparr>"
  by (auto simp: cm_init_def)

lemma cm_add_Inr:
  "cm_add_program m p b = Inr (m', slot) \<longleftrightarrow>
     valid_program p \<and> cp_counter_count p = cm_counter_count m
     \<and> m' = with_program m p b \<and> slot = cm_file_count m"
  by (auto simp: cm_add_program_def bind_r_eq_Inr cp_validate_Inr with_program_def cm_file_count_def
      Let_def)

lemma cm_program_Inr:
  "cm_program m slot = Inr p \<longleftrightarrow>
     in_range slot (length (cm_programs m)) \<and> p = cm_programs m ! nat slot"
  by (auto simp: cm_program_def cm_file_count_def in_range_def)

lemma cm_protect_Inr:
  "cm_protect_file m slot = Inr m' \<longleftrightarrow>
     in_range slot (length (cm_programs m)) \<and> m' = m\<lparr>cm_protected := (cm_protected m)[nat slot := True]\<rparr>"
  by (auto simp: cm_protect_file_def cm_file_count_def in_range_def)

lemma cm_slot_Inr:
  "cm_slot m v = Inr slot \<longleftrightarrow> v = PInt slot \<and> in_range slot (length (cm_programs m))"
  by (cases v) (auto simp: cm_file_count_def in_range_def)

lemma cm_admit_Inr:
  "cm_admit_verified m p outcomes threshold mo ms protect = Inr (m', r) \<longleftrightarrow>
     admission_args_ok p outcomes threshold mo ms \<and> cp_counter_count p = cm_counter_count m
     \<and> cr_stable r = stable_from (fin_val threshold) ms 0 (map fin_val outcomes)
     \<and> cr_accepted r = admissible outcomes threshold mo ms
     \<and> (if admissible outcomes threshold mo ms
        then m' = with_program m p protect \<and> cr_slot r = Some (cm_file_count m)
          \<and> cr_reason r = admitted_reason
        else m' = m \<and> cr_slot r = None \<and> cr_reason r = admission_reason False)"
proof (cases "admission_args_ok p outcomes threshold mo ms \<and> cp_counter_count p = cm_counter_count m")
  case True
  then have v: "valid_program p" by (simp add: admission_args_ok_def)
  obtain e where e: "evaluate_control_flow_admission p outcomes threshold mo ms = Inr e"
    "cr_stable e = stable_from (fin_val threshold) ms 0 (map fin_val outcomes)"
    "cr_accepted e = admissible outcomes threshold mo ms" "cr_slot e = None"
    "cr_reason e = admission_reason (admissible outcomes threshold mo ms)"
    using True evaluate_admission_Inr [of p outcomes threshold mo ms] by (metis cf_receipt.select_convs)
  have "cm_add_program m p protect = Inr (with_program m p protect, cm_file_count m)"
    using cm_add_Inr v True by blast
  then have "cm_admit_verified m p outcomes threshold mo ms protect =
      (if admissible outcomes threshold mo ms
       then Inr (with_program m p protect, \<lparr>cr_accepted = True, cr_slot = Some (cm_file_count m),
         cr_stable = cr_stable e,
         cr_reason = admitted_reason\<rparr>)
       else Inr (m, e))"
    using True v e by (simp add: cm_admit_verified_def cp_validate_Inr [of p p, THEN iffD2])
  then show ?thesis using True e by (cases r) auto
next
  case False
  then show ?thesis
    by (auto simp: cm_admit_verified_def bind_r_eq_Inr cp_validate_Inr evaluate_admission_Inr
        split: if_splits)
qed

lemma cm_compose_Inr:
  "cm_compose m slots = Inr q \<longleftrightarrow>
     (\<exists>ks. ks \<noteq> [] \<and> slots = map PInt ks \<and> (\<forall>k\<in>set ks. in_range k (length (cm_programs m)))
       \<and> compose_control_flow_programs (map (\<lambda>k. cm_programs m ! nat k) ks) = Inr q)"
proof -
  have slots: "map_r (cm_slot m) slots = Inr ks \<longleftrightarrow>
      slots = map PInt ks \<and> (\<forall>k\<in>set ks. in_range k (length (cm_programs m)))" for ks
    unfolding map_r_Inr_iff cm_slot_Inr
    by (auto simp: list_all2_conv_all_nth all_set_conv_all_nth intro: nth_equalityI)
  have progs: "map_r (cm_program m) ks = Inr (map (\<lambda>k. cm_programs m ! nat k) ks)"
    if "\<forall>k\<in>set ks. in_range k (length (cm_programs m))" for ks
    by (rule map_r_total) (use that in \<open>simp add: cm_program_Inr\<close>)
  show ?thesis
    by (auto simp: cm_compose_def bind_r_eq_Inr slots progs)
qed

lemma cm_splice_Inr:
  "cm_splice m pv pos fv = Inr q \<longleftrightarrow>
     (\<exists>ps i fs. pv = PInt ps \<and> pos = PInt i \<and> fv = PInt fs
       \<and> in_range ps (length (cm_programs m)) \<and> in_range fs (length (cm_programs m))
       \<and> splice_control_flow_program (cm_programs m ! nat ps) i (cm_programs m ! nat fs) = Inr q)"
proof -
  have "py_position pos = Inr i \<longleftrightarrow> pos = PInt i" for i by (cases pos) auto
  then show ?thesis by (auto simp: cm_splice_def bind_r_eq_Inr cm_slot_Inr cm_program_Inr)
qed

section \<open>The memory as an append-only store\<close>

inductive cm_step :: "cf_memory \<Rightarrow> cf_memory \<Rightarrow> bool" where
  step_add: "cm_add_program m p b = Inr (m', slot) \<Longrightarrow> cm_step m m'"
| step_protect: "cm_protect_file m slot = Inr m' \<Longrightarrow> cm_step m m'"
| step_admit: "cm_admit_verified m p vs t mo ms b = Inr (m', r) \<Longrightarrow> cr_accepted r \<Longrightarrow> cm_step m m'"
| step_compose: "cm_compose_verified m ks vs t mo ms b = Inr (m', r) \<Longrightarrow> cr_accepted r \<Longrightarrow>
    cm_step m m'"
| step_splice: "cm_splice_verified m pv pos fv vs t mo ms b = Inr (m', r) \<Longrightarrow> cr_accepted r \<Longrightarrow>
    cm_step m m'"

lemma cm_admit_step:
  "cm_admit_verified m p vs t mo ms b = Inr (m', r) \<Longrightarrow> cr_accepted r \<Longrightarrow>
     \<exists>p b. valid_program p \<and> cp_counter_count p = cm_counter_count m \<and> m' = with_program m p b"
  unfolding cm_admit_Inr admission_args_ok_def by auto

lemma cm_step_cases:
  assumes "cm_step m m'"
  shows "(\<exists>p b. valid_program p \<and> cp_counter_count p = cm_counter_count m \<and> m' = with_program m p b)
    \<or> (\<exists>k. m' = m\<lparr>cm_protected := (cm_protected m)[k := True]\<rparr>)"
  using assms
proof cases
  case (step_admit p vs t mo ms b r)
  then show ?thesis using cm_admit_step by blast
next
  case (step_compose ks vs t mo ms b r)
  then obtain p where "cm_admit_verified m p vs t mo ms b = Inr (m', r)"
    by (auto simp: cm_compose_verified_def bind_r_eq_Inr)
  then show ?thesis using step_compose cm_admit_step by blast
next
  case (step_splice pv pos fv vs t mo ms b r)
  then obtain p where "cm_admit_verified m p vs t mo ms b = Inr (m', r)"
    by (auto simp: cm_splice_verified_def bind_r_eq_Inr)
  then show ?thesis using step_splice cm_admit_step by blast
qed (auto simp: cm_add_Inr cm_protect_Inr)

interpretation cf_store: program_store memory_ok cm_programs cm_protected cm_program cm_step
proof
  fix m m' :: cf_memory and k and p :: cf_program
  assume ok: "memory_ok m"
  show "length (cm_protected m) = length (cm_programs m)" using ok by (simp add: memory_ok_def)
  show "cm_program m k = Inr p \<longleftrightarrow> in_range k (length (cm_programs m)) \<and> p = cm_programs m ! nat k"
    by (rule cm_program_Inr)
  assume step: "cm_step m m'"
  show "memory_ok m'" using cm_step_cases [OF step] ok by (auto simp: memory_ok_def)
  show "(\<exists>p b. cm_programs m' = cm_programs m @ [p] \<and> cm_protected m' = cm_protected m @ [b])
      \<or> (\<exists>k. cm_programs m' = cm_programs m \<and> cm_protected m' = (cm_protected m)[k := True])"
    using cm_step_cases [OF step] by auto
qed

section \<open>Persistence\<close>

lemma cm_body_Inr:
  assumes "memory_ok m"
  shows "\<exists>ps. map_r cp_payload (cm_programs m) = Inr ps \<and> length ps = length (cm_programs m)
    \<and> cm_body m = Inr [(''schema'', PStr CONTROL_FLOW_MEMORY_SCHEMA),
        (''counter_count'', PInt (cm_counter_count m)),
        (''programs'', PList ps),
        (''protected'', PList (map PBool (cm_protected m)))]"
proof -
  have "\<exists>ps. map_r cp_payload xs = Inr ps" if "\<forall>p\<in>set xs. valid_program p" for xs
    using that
  proof (induction xs)
    case (Cons x xs)
    then obtain v where "cp_payload x = Inr v" using cp_payload_valid [of x] by auto
    with Cons show ?case by auto
  qed simp
  then obtain ps where "map_r cp_payload (cm_programs m) = Inr ps"
    using assms by (auto simp: memory_ok_def)
  then show ?thesis using map_r_length by (auto simp: cm_body_def)
qed

lemma cm_restore_snapshot:
  assumes "list_all2 (\<lambda>p v. cp_payload p = Inr v) ps vs" and "length bs = length ps"
    and "\<forall>p\<in>set ps. valid_program p \<and> cp_counter_count p = cm_counter_count m"
  shows "cm_restore m (zip vs (map PBool bs))
    = Inr (m\<lparr>cm_programs := cm_programs m @ ps, cm_protected := cm_protected m @ bs\<rparr>)"
  using assms
proof (induction arbitrary: m bs rule: list_all2_induct)
  case Nil
  then show ?case by simp
next
  case (Cons p ps v vs)
  then obtain b bs' where bs: "bs = b # bs'" by (cases bs) auto
  have "cp_from_payload v = Inr p" using cp_roundtrip Cons by simp
  moreover have "cm_add_program m p b = Inr (with_program m p b, cm_file_count m)"
    using Cons.prems by (simp add: cm_add_Inr)
  moreover have "cm_restore (with_program m p b) (zip vs (map PBool bs'))
      = Inr ((with_program m p b)\<lparr>cm_programs := cm_programs (with_program m p b) @ ps,
          cm_protected := cm_protected (with_program m p b) @ bs'\<rparr>)"
    by (rule Cons.IH) (use Cons.prems bs in auto)
  ultimately show ?case by (simp add: bs with_program_def)
qed

lemma cm_roundtrip_ex:
  assumes "memory_ok m"
  shows "\<exists>v. cm_payload m = Inr v \<and> cm_from_payload v = Inr m"
proof -
  obtain ps where ps: "map_r cp_payload (cm_programs m) = Inr ps" "length ps = length (cm_programs m)"
    and body: "cm_body m = Inr [(''schema'', PStr CONTROL_FLOW_MEMORY_SCHEMA),
        (''counter_count'', PInt (cm_counter_count m)),
        (''programs'', PList ps),
        (''protected'', PList (map PBool (cm_protected m)))]"
    using cm_body_Inr [OF assms] by blast
  have "cm_restore \<lparr>cm_counter_count = cm_counter_count m, cm_programs = [], cm_protected = []\<rparr>
      (zip ps (map PBool (cm_protected m))) = Inr m"
    using cm_restore_snapshot [OF ps(1) [unfolded map_r_Inr_iff], of "cm_protected m"
        "\<lparr>cm_counter_count = cm_counter_count m, cm_programs = [], cm_protected = []\<rparr>"] assms
    by (simp add: memory_ok_def)
  then show ?thesis
    using assms ps(2)
    by (simp add: cm_payload_def body unsigned_body_def cm_init_def memory_ok_def)
qed

lemma with_program_ok:
  "memory_ok m \<Longrightarrow> valid_program p \<Longrightarrow> cp_counter_count p = cm_counter_count m \<Longrightarrow>
     memory_ok (with_program m p b)"
  by (simp add: memory_ok_def)

lemma cm_restore_ok: "cm_restore m rs = Inr m' \<Longrightarrow> memory_ok m \<Longrightarrow> memory_ok m'"
proof (induction rs arbitrary: m)
  case Nil
  then show ?case by simp
next
  case (Cons r rs)
  then obtain raw b where r: "r = (raw, PBool b)"
    by (cases "(m, r # rs)" rule: cm_restore.cases) auto
  then obtain p m1 k where "cm_add_program m p b = Inr (m1, k)" "cm_restore m1 rs = Inr m'"
    using Cons.prems(1) by (auto simp: bind_r_eq_Inr)
  then show ?case
    using Cons.IH [of m1] with_program_ok [OF Cons.prems(2), of p b] unfolding cm_add_Inr by blast
qed

lemma cm_from_payload_parts:
  assumes "cm_from_payload (PDict kvs) = Inr m"
  shows "dict_get kvs ''schema'' = PStr CONTROL_FLOW_MEMORY_SCHEMA"
    and "dict_get kvs ''sha256'' = PStr (digest_payload (PDict (unsigned_body kvs)))"
    and "\<exists>n m0 rs. cm_init n = Inr m0 \<and> cm_restore m0 rs = Inr m"
proof -
  obtain a b where ab: "dict_get kvs ''programs'' = a" "dict_get kvs ''protected'' = b" by blast
  note eq = assms [unfolded cm_from_payload.simps ab]
  show schema: "dict_get kvs ''schema'' = PStr CONTROL_FLOW_MEMORY_SCHEMA"
    by (rule ccontr) (use eq in \<open>simp only: if_True not_False_eq_True\<close>, simp)
  show sum: "dict_get kvs ''sha256'' = PStr (digest_payload (PDict (unsigned_body kvs)))"
    by (rule ccontr) (use eq schema in \<open>simp only: if_True if_False not_False_eq_True not_True_eq_False\<close>, simp)
  have "(case (a, b) of (PList programs, PList protected) \<Rightarrow>
            (if length programs \<noteq> length protected then Inl ValueError
             else bind_r (py_int (dict_get_default kvs ''counter_count'' (PInt (-1)))) (\<lambda>n.
               bind_r (cm_init n) (\<lambda>m. cm_restore m (zip programs protected))))
        | _ \<Rightarrow> Inl TypeError) = Inr m"
    using eq schema sum by (simp only: if_False not_True_eq_False simp_thms)
  then show "\<exists>n m0 rs. cm_init n = Inr m0 \<and> cm_restore m0 rs = Inr m"
    by (cases a; cases b) (auto simp: bind_r_eq_Inr simp del: dict_get_default.simps split: if_splits)
qed

lemma cm_from_payload_ok:
  assumes "cm_from_payload v = Inr m"
  shows "memory_ok m
    \<and> (\<exists>kvs. v = PDict kvs \<and> dict_get kvs ''sha256'' = PStr (digest_payload (PDict (unsigned_body kvs))))"
proof -
  obtain kvs where v: "v = PDict kvs" using assms by (cases v) auto
  obtain n m0 rs where "cm_init n = Inr m0" "cm_restore m0 rs = Inr m"
    using cm_from_payload_parts(3) assms v by blast
  then have "memory_ok m"
    using cm_restore_ok [of m0 rs m] by (auto simp: cm_init_Inr memory_ok_def)
  then show ?thesis using cm_from_payload_parts(2) assms v by blast
qed

section \<open>Properties\<close>

text \<open>The outcomes from the one-based position \<open>k\<close> on are enough and all reach the threshold.\<close>

definition clears_from :: "pyfloat list \<Rightarrow> pyfloat \<Rightarrow> int \<Rightarrow> int \<Rightarrow> bool" where
  "clears_from outcomes threshold min_stable k \<longleftrightarrow>
     1 \<le> k \<and> k \<le> int (length outcomes) \<and> min_stable \<le> int (length outcomes) - k + 1
     \<and> (\<forall>v\<in>set (drop (nat (k - 1)) outcomes). threshold \<le> v)"

lemma stable_from_clears:
  assumes "\<forall>v\<in>set outcomes. in_unit v" and "in_unit_pos threshold"
    and "stable_from (fin_val threshold) ms 0 (map fin_val outcomes) = Some k"
  shows "clears_from outcomes threshold ms k \<and> (\<forall>j<k. \<not> clears_from outcomes threshold ms j)"
proof -
  obtain t where t: "threshold = Fin t" using assms(2) by (auto simp: in_unit_pos_iff)
  have le: "(\<forall>v\<in>set (drop i outcomes). threshold \<le> v)
      \<longleftrightarrow> (\<forall>x\<in>set (drop i (map fin_val outcomes)). fin_val threshold \<le> x)" for i
  proof -
    have "threshold \<le> v \<longleftrightarrow> fin_val threshold \<le> fin_val v" if "v \<in> set (drop i outcomes)" for v
      using assms(1) in_set_dropD [OF that] by (auto simp: t in_unit_iff)
    then show ?thesis by (simp add: drop_map)
  qed
  obtain i where i: "i < length outcomes" "k = int i + 1" "ms \<le> int (length outcomes) - int i"
      "\<forall>x\<in>set (drop i (map fin_val outcomes)). fin_val threshold \<le> x"
      "\<forall>i' < i. \<not> (ms \<le> int (length outcomes) - int i'
        \<and> (\<forall>x\<in>set (drop i' (map fin_val outcomes)). fin_val threshold \<le> x))"
    using stable_from_Some [OF assms(3)] by auto
  have "\<not> clears_from outcomes threshold ms j" if "j < k" for j
  proof
    assume c: "clears_from outcomes threshold ms j"
    then have "nat (j - 1) < i" "ms \<le> int (length outcomes) - int (nat (j - 1))"
      using that i(2) by (auto simp: clears_from_def)
    then show False using i(5) c le by (auto simp: clears_from_def)
  qed
  then show ?thesis using i le by (auto simp: clears_from_def)
qed

text \<open>
  C18. Scalar admission.  Invalid evidence or thresholds raise \<open>ValueError\<close>.  Otherwise a candidate
  is accepted exactly when there are at least \<open>min_observations\<close> outcomes and the last
  \<open>min_stable_observations\<close> of them all reach the threshold, so an early failure never counts
  against it and a late one always does; the reported position is the earliest from which the
  stream stays above the threshold for long enough.
\<close>

theorem admission_decision:
  "case evaluate_control_flow_admission p outcomes threshold mo ms of
     Inl x \<Rightarrow> \<not> admission_args_ok p outcomes threshold mo ms
   | Inr r \<Rightarrow> admission_args_ok p outcomes threshold mo ms
       \<and> cr_accepted r = admissible outcomes threshold mo ms
       \<and> (case cr_stable r of
            None \<Rightarrow> \<not> admissible outcomes threshold 0 ms
          | Some k \<Rightarrow> clears_from outcomes threshold ms k
              \<and> k = (LEAST j. clears_from outcomes threshold ms j))"
proof (cases "evaluate_control_flow_admission p outcomes threshold mo ms")
  case (Inl x)
  have "\<not> admission_args_ok p outcomes threshold mo ms"
  proof
    assume "admission_args_ok p outcomes threshold mo ms"
    then have "\<exists>r. evaluate_control_flow_admission p outcomes threshold mo ms = Inr r"
      unfolding evaluate_admission_Inr by (metis cf_receipt.select_convs)
    then show False using Inl by simp
  qed
  then show ?thesis by (simp add: Inl)
next
  case (Inr r)
  then have args: "admission_args_ok p outcomes threshold mo ms"
    and r: "cr_stable r = stable_from (fin_val threshold) ms 0 (map fin_val outcomes)"
      "cr_accepted r = admissible outcomes threshold mo ms"
    unfolding evaluate_admission_Inr by blast+
  have vs: "\<forall>v\<in>set outcomes. in_unit v" "in_unit_pos threshold" "1 \<le> ms"
    using args by (auto simp: admission_args_ok_def)
  have "\<not> admissible outcomes threshold 0 ms" if "cr_stable r = None"
    using that stable_None_iff [OF vs(3)] stably_above_admissible [OF vs(1,2), of ms]
    by (auto simp: r(1) admissible_def)
  moreover have "clears_from outcomes threshold ms k
      \<and> k = (LEAST j. clears_from outcomes threshold ms j)" if "cr_stable r = Some k" for k
    using stable_from_clears [OF vs(1,2), of ms k] that
    by (auto simp: r(1) intro!: Least_equality [symmetric]) (meson not_less)
  ultimately show ?thesis using args r(2) by (simp add: Inr split: option.splits)
qed

text \<open>
  C19. The memory is append-only under every sequence of its operations (adding, protecting,
  verified admission, verified composition and splicing): a slot keeps the program it was given,
  a protected slot stays protected, and every stored program stays valid with the memory's
  counter width.
\<close>

theorem memory_append_only:
  assumes "cm_step\<^sup>*\<^sup>* m m'" and "memory_ok m" and "cm_program m slot = Inr p"
  shows "cm_program m' slot = Inr p \<and> valid_program p
    \<and> cp_counter_count p = cm_counter_count m'
    \<and> (cm_is_file_protected m slot = Inr True \<longrightarrow> cm_is_file_protected m' slot = Inr True)
    \<and> memory_ok m'"
proof -
  have ok: "memory_ok m'" and look: "cm_program m' slot = Inr p"
    using cf_store.steps_inv cf_store.lookup_stable assms by blast+
  have r: "in_range slot (length (cm_programs m))" "in_range slot (length (cm_programs m'))"
      "p = cm_programs m' ! nat slot"
    using assms(3) look by (auto simp: cm_program_Inr)
  then have "cm_is_file_protected m' slot = Inr True" if "cm_is_file_protected m slot = Inr True"
    using that cf_store.marks_stable [OF assms(1,2), of "nat slot"] in_range_nat [OF r(1)]
    by (auto simp: cm_is_file_protected_def cm_file_count_def in_range_def split: if_splits)
  moreover have "p \<in> set (cm_programs m')" using r in_range_nat [OF r(2)] by simp
  ultimately show ?thesis using ok look by (auto simp: memory_ok_def)
qed

definition one_file :: cf_memory where
  "one_file = \<lparr>cm_counter_count = 2, cm_programs = [drain], cm_protected = [True]\<rparr>"

lemma one_file_ok: "memory_ok one_file"
  by code_simp

lemma one_file_step: "cm_step one_file (with_program one_file drain_twice False)"
proof (rule step_add)
  show "cm_add_program one_file drain_twice False = Inr (with_program one_file drain_twice False, 1)"
    by code_simp
qed

theorem memory_append_only_witness:
  "cm_is_file_protected (with_program one_file drain_twice False) 0 = Inr True"
proof -
  have "cm_program one_file 0 = Inr drain" "cm_is_file_protected one_file 0 = Inr True"
    by (code_simp, code_simp)
  then show ?thesis
    using memory_append_only [of one_file "with_program one_file drain_twice False" 0 drain]
      one_file_step one_file_ok by blast
qed

text \<open>
  Verified composition end to end.  When \<open>compose_verified\<close> accepts, the named slots exist,
  the evidence is admissible, the new file is the only change and sits at the returned slot, and
  executing it behaves like executing the stored files one after the other.
\<close>

lemma compose_verified_runs_slots:
  assumes "memory_ok m" and "cm_compose_verified m slots outcomes threshold mo ms protect = Inr (m', r)"
    and "cr_accepted r"
    and "counters_ok (cm_counter_count m) s" and "1 \<le> k" and "1 \<le> b"
  shows "\<exists>ks q e. slots = map PInt ks \<and> admissible outcomes threshold mo ms
    \<and> cr_slot r = Some (cm_file_count m) \<and> m' = with_program m q protect
    \<and> cp_execute q s k b tr = Inr e
    \<and> seq_execute (map (\<lambda>k. cm_programs m ! nat k) ks) s k b
        = Inr (ce_status e, ce_counters e, ce_steps e)"
proof -
  obtain q where q: "cm_compose m slots = Inr q"
      "cm_admit_verified m q outcomes threshold mo ms protect = Inr (m', r)"
    using assms(2) by (auto simp: cm_compose_verified_def bind_r_eq_Inr)
  obtain ks where ks: "slots = map PInt ks"
      "compose_control_flow_programs (map (\<lambda>k. cm_programs m ! nat k) ks) = Inr q"
    using q(1) unfolding cm_compose_Inr by blast
  have a: "admissible outcomes threshold mo ms" "cp_counter_count q = cm_counter_count m"
      "m' = with_program m q protect" "cr_slot r = Some (cm_file_count m)"
    using q(2) assms(3) unfolding cm_admit_Inr by auto
  obtain e where "cp_execute q s k b tr = Inr e"
      "seq_execute (map (\<lambda>k. cm_programs m ! nat k) ks) s k b
        = Inr (ce_status e, ce_counters e, ce_steps e)"
    using compose_sequence [OF ks(2), of s k b tr] assms(4-6) a(2) by auto
  then show ?thesis using ks(1) a by blast
qed

definition verified_receipt :: cf_receipt where
  "verified_receipt = \<lparr>cr_accepted = True, cr_slot = Some 1, cr_stable = Some 2,
     cr_reason = admitted_reason\<rparr>"

lemma one_file_compose:
  "cm_compose_verified one_file [PInt 0, PInt 0] [Fin 0, Fin 1, Fin 1] (Fin 1) 2 2 False
    = Inr (with_program one_file drain_twice False, verified_receipt)"
  by code_simp

text \<open>
  Persistence of the memory.  The payload of a well-formed memory reads back as the same
  memory, protection marks included; and whatever payload is accepted carries the checksum of its
  own content and yields a well-formed memory.
\<close>

lemma memory_payload_roundtrip:
  "memory_ok m = (\<exists>v. cm_payload m = Inr v \<and> cm_from_payload v = Inr m)
   \<and> (\<forall>v. cm_from_payload v = Inr m \<longrightarrow>
        (\<exists>kvs. v = PDict kvs
          \<and> dict_get kvs ''sha256'' = PStr (digest_payload (PDict (unsigned_body kvs)))))"
  using cm_roundtrip_ex cm_from_payload_ok by blast

end
