(* ===== verification/SearchLedger.thy ===== *)
theory SearchLedger
  imports PyFloat PyValue
begin

text \<open>
  What the outcome-only searches share.  A search keeps a ledger of the candidate keys it has
  evaluated; recording outcomes appends the candidate's key and refuses one it has seen.

  The locale \<open>search_ledger\<close> is that contract, \<open>exhaustive_search\<close> adds the proposer: it offers a
  key of its candidate space that was not evaluated yet, and gives up only when none is left.
  \<open>search_loop\<close> is the propose--evaluate--record loop of a caller; it evaluates the whole space,
  each key once, and then stops.

  \<open>search_state\<close> is the record of \<open>ControlFlowCompositionSearchState\<close> and
  \<open>ControlFlowSpliceSearchState\<close>, which differ in their schema string only.
\<close>

section \<open>The caller's loop\<close>

fun fold_r :: "('s \<Rightarrow> 'a \<Rightarrow> 's result) \<Rightarrow> 's \<Rightarrow> 'a list \<Rightarrow> 's result" where
  "fold_r f s [] = Inr s"
| "fold_r f s (x # xs) = bind_r (f s x) (\<lambda>s'. fold_r f s' xs)"

fun search_loop :: "('s \<Rightarrow> 'p result) \<Rightarrow> ('s \<Rightarrow> 'p \<Rightarrow> 's result) \<Rightarrow> nat \<Rightarrow> 's \<Rightarrow> 's result" where
  "search_loop propose record 0 s = Inr s"
| "search_loop propose record (Suc n) s =
     (case propose s of
        Inl e \<Rightarrow> if e = RuntimeError then Inr s else Inl e
      | Inr p \<Rightarrow> bind_r (record s p) (search_loop propose record n))"

section \<open>The contract\<close>

locale search_ledger =
  fixes inv :: "'x \<Rightarrow> 's \<Rightarrow> bool"
    and seen :: "'s \<Rightarrow> 'k list"
    and key :: "'p \<Rightarrow> 'k"
    and record_outcome :: "'x \<Rightarrow> 's \<Rightarrow> 'p \<Rightarrow> 'o \<Rightarrow> 's result"
  assumes seen_distinct: "inv x s \<Longrightarrow> distinct (seen s)"
    and record_effect: "inv x s \<Longrightarrow> record_outcome x s p e = Inr s' \<Longrightarrow>
      key p \<notin> set (seen s) \<and> seen s' = seen s @ [key p] \<and> inv x s'"
begin

lemma record_all:
  assumes "fold_r (\<lambda>s pe. record_outcome x s (fst pe) (snd pe)) s pes = Inr s'" and "inv x s"
  shows "seen s' = seen s @ map (key \<circ> fst) pes \<and> inv x s'"
  using assms
proof (induction pes arbitrary: s)
  case Nil
  then show ?case by simp
next
  case (Cons pe pes)
  then obtain s1 where s1: "record_outcome x s (fst pe) (snd pe) = Inr s1"
      "fold_r (\<lambda>s pe. record_outcome x s (fst pe) (snd pe)) s1 pes = Inr s'"
    by (auto simp: bind_r_eq_Inr)
  then have "seen s1 = seen s @ [key (fst pe)]" "inv x s1"
    using record_effect [OF Cons.prems(2)] by blast+
  then show ?case using Cons.IH [OF s1(2)] by simp
qed

lemma never_twice:
  assumes "inv x s" and "record_outcome x s p e = Inr s1"
    and "fold_r (\<lambda>s pe. record_outcome x s (fst pe) (snd pe)) s1 pes = Inr s2"
    and "key q = key p"
  shows "\<exists>err. record_outcome x s2 q f = Inl err"
proof (cases "record_outcome x s2 q f")
  case (Inr s3)
  have "inv x s1" "key p \<in> set (seen s1)" using record_effect [OF assms(1,2)] by auto
  then have "inv x s2" "key p \<in> set (seen s2)" using record_all [OF assms(3)] by auto
  then show ?thesis using record_effect [of x s2 q f] Inr assms(4) by auto
qed auto

end

locale exhaustive_search = search_ledger +
  fixes scope_fine :: "'g \<Rightarrow> bool"
    and space :: "'x \<Rightarrow> 'g \<Rightarrow> 'k list"
    and propose :: "'x \<Rightarrow> 's \<Rightarrow> 'g \<Rightarrow> 'p result"
    and evidence_fine :: "'x \<Rightarrow> 'o \<Rightarrow> bool"
  assumes propose_some: "inv x s \<Longrightarrow> scope_fine g \<Longrightarrow> \<not> set (space x g) \<subseteq> set (seen s) \<Longrightarrow>
      \<exists>p. propose x s g = Inr p \<and> key p \<in> set (space x g) - set (seen s)"
    and propose_none: "inv x s \<Longrightarrow> scope_fine g \<Longrightarrow> set (space x g) \<subseteq> set (seen s) \<Longrightarrow>
      propose x s g = Inl RuntimeError"
    and record_proposed: "inv x s \<Longrightarrow> scope_fine g \<Longrightarrow> propose x s g = Inr p \<Longrightarrow>
      evidence_fine x e \<Longrightarrow> \<exists>s'. record_outcome x s p e = Inr s'"
begin

lemma loop_exhausts:
  assumes "inv x s" and "scope_fine g" and "\<And>p. evidence_fine x (evaluate p)"
    and "card (set (space x g) - set (seen s)) \<le> n"
  shows "\<exists>s'. search_loop (\<lambda>s. propose x s g) (\<lambda>s p. record_outcome x s p (evaluate p)) n s = Inr s'
    \<and> inv x s' \<and> (\<exists>ks. seen s' = seen s @ ks \<and> distinct ks \<and> set ks = set (space x g) - set (seen s))
    \<and> propose x s' g = Inl RuntimeError"
  using assms(1,4)
proof (induction n arbitrary: s)
  case 0
  then have "set (space x g) \<subseteq> set (seen s)" by auto
  then show ?case using propose_none [OF 0(1) assms(2)] 0 by auto
next
  case (Suc n)
  show ?case
  proof (cases "set (space x g) \<subseteq> set (seen s)")
    case True
    then show ?thesis using propose_none [OF Suc.prems(1) assms(2) True] Suc.prems(1) by auto
  next
    case False
    then obtain p where p: "propose x s g = Inr p" "key p \<in> set (space x g) - set (seen s)"
      using propose_some [OF Suc.prems(1) assms(2)] by blast
    obtain s1 where s1: "record_outcome x s p (evaluate p) = Inr s1"
      using record_proposed [OF Suc.prems(1) assms(2) p(1) assms(3)] by blast
    have e: "seen s1 = seen s @ [key p]" "inv x s1"
      using record_effect [OF Suc.prems(1) s1] by auto
    have "set (space x g) - set (seen s) = insert (key p) (set (space x g) - set (seen s1))"
      using p(2) by (auto simp: e(1))
    moreover have "key p \<notin> set (space x g) - set (seen s1)" by (simp add: e(1))
    ultimately have eq: "set (space x g) - set (seen s) = insert (key p) (set (space x g) - set (seen s1))"
      and "card (set (space x g) - set (seen s1)) \<le> n"
      using Suc.prems(2) by simp_all
    then obtain s' ks where "search_loop (\<lambda>s. propose x s g)
          (\<lambda>s p. record_outcome x s p (evaluate p)) n s1 = Inr s'"
        "inv x s'" "seen s' = seen s1 @ ks" "distinct ks" "set ks = set (space x g) - set (seen s1)"
        "propose x s' g = Inl RuntimeError"
      using Suc.IH [OF e(2)] by blast
    then show ?thesis
      using p(1) s1 e(1) eq by (intro exI [of _ s']) (auto intro!: exI [of _ "key p # ks"])
  qed
qed

end

section \<open>Scoped candidate keys\<close>

definition NUL :: char where
  "NUL = CHR 0x00"

definition scope_ok :: "string \<Rightarrow> bool" where
  "scope_ok scope \<longleftrightarrow> scope \<noteq> [] \<and> NUL \<notin> set scope"

text \<open>\<open>key.rsplit("\0", 1)\<close> of a key that holds a NUL.\<close>

definition rsplit_nul :: "string \<Rightarrow> string \<times> string" where
  "rsplit_nul key =
     (let r = rev key in (rev (drop 1 (dropWhile (\<lambda>c. c \<noteq> NUL) r)), rev (takeWhile (\<lambda>c. c \<noteq> NUL) r)))"

lemma rsplit_nul_join:
  assumes "NUL \<notin> set digest"
  shows "rsplit_nul (scope @ [NUL] @ digest) = (scope, digest)"
proof -
  have d: "\<forall>c\<in>set (rev digest). c \<noteq> NUL" using assms by auto
  have "dropWhile (\<lambda>c. c \<noteq> NUL) (rev digest @ NUL # rev scope) = NUL # rev scope"
    using d by (simp add: dropWhile_append)
  moreover have "takeWhile (\<lambda>c. c \<noteq> NUL) (rev digest @ NUL # rev scope) = rev digest"
    using d by (simp add: takeWhile_append)
  ultimately show ?thesis by (simp add: rsplit_nul_def Let_def)
qed

lemma NUL_not_hex: "NUL \<notin> set (digest_payload v)"
  unfolding digest_payload_def using set_sha256_hex by (auto simp: NUL_def hex_digits_def)

section \<open>The first slot with a digest\<close>

fun digest_slot :: "string \<Rightarrow> string list \<Rightarrow> int \<Rightarrow> int option" where
  "digest_slot d [] k = None"
| "digest_slot d (x # xs) k = (if x = d then Some k else digest_slot d xs (k + 1))"

lemma digest_slot_cases:
  "case digest_slot d xs k of None \<Rightarrow> d \<notin> set xs
   | Some j \<Rightarrow> k \<le> j \<and> j < k + int (length xs) \<and> xs ! nat (j - k) = d"
proof (induction xs arbitrary: k)
  case (Cons x xs)
  show ?case
  proof (cases "x = d")
    case False
    show ?thesis
    proof (cases "digest_slot d xs (k + 1)")
      case None
      then show ?thesis using Cons.IH [of "k + 1"] False by simp
    next
      case (Some j)
      then have j: "k + 1 \<le> j" "j < k + 1 + int (length xs)" "xs ! nat (j - (k + 1)) = d"
        using Cons.IH [of "k + 1"] by simp_all
      then have "nat (j - k) = Suc (nat (j - (k + 1)))" by linarith
      then show ?thesis using j Some False by simp
    qed
  qed simp
qed simp

section \<open>Search states bound to a memory\<close>

record search_state =
  ss_memory_digest :: string
  ss_slot_count :: int
  ss_min_length :: int
  ss_max_length :: int
  ss_seen :: "string list"
  ss_proposals :: int
  ss_accepted :: int
  ss_best_quality :: pyfloat
  ss_schema :: string

definition validate_digest :: "string \<Rightarrow> unit result" where
  "validate_digest value =
     (if length value \<noteq> 64 then Inl ValueError
      else if int16_of_text value = None then Inl ValueError else Inr ())"

definition validate_key :: "string \<Rightarrow> unit result" where
  "validate_key key =
     (if NUL \<notin> set key then Inl ValueError
      else (case rsplit_nul key of (scope, digest) \<Rightarrow>
        if scope = [] \<or> NUL \<in> set scope then Inl ValueError else validate_digest digest))"

definition search_state_validate :: "string \<Rightarrow> search_state \<Rightarrow> search_state result" where
  "search_state_validate schema s =
     (if ss_schema s \<noteq> schema then Inl ValueError
      else bind_r (validate_digest (ss_memory_digest s)) (\<lambda>_.
        if ss_slot_count s < 1 then Inl ValueError
        else if ss_min_length s < 2 \<or> ss_max_length s < ss_min_length s then Inl ValueError
        else if ss_proposals s < 0 \<or> ss_accepted s < 0 \<or> ss_accepted s > ss_proposals s
        then Inl ValueError
        else if int (length (ss_seen s)) \<noteq> ss_proposals s
          \<or> card (set (ss_seen s)) \<noteq> length (ss_seen s) then Inl ValueError
        else bind_r (all_r validate_key (ss_seen s)) (\<lambda>_.
          if \<not> isfinite (ss_best_quality s) \<or> \<not> (Fin 0 \<le> ss_best_quality s \<and> ss_best_quality s \<le> Fin 1)
          then Inl ValueError else Inr s)))"

text \<open>The state with one more evaluated candidate; \<open>max\<close> keeps its first argument on a tie.\<close>

definition py_max :: "pyfloat \<Rightarrow> pyfloat \<Rightarrow> pyfloat" where
  "py_max a b = (if a < b then b else a)"

definition search_state_next :: "search_state \<Rightarrow> string \<Rightarrow> bool \<Rightarrow> pyfloat \<Rightarrow> search_state" where
  "search_state_next s key accepted quality =
     s\<lparr>ss_seen := ss_seen s @ [key], ss_proposals := ss_proposals s + 1,
       ss_accepted := ss_accepted s + (if accepted then 1 else 0),
       ss_best_quality := py_max (ss_best_quality s) quality\<rparr>"

definition key_ok :: "string \<Rightarrow> bool" where
  "key_ok key \<longleftrightarrow> validate_key key = Inr ()"

definition search_state_ok :: "string \<Rightarrow> search_state \<Rightarrow> bool" where
  "search_state_ok schema s \<longleftrightarrow> ss_schema s = schema \<and> digest_ok (ss_memory_digest s)
     \<and> 1 \<le> ss_slot_count s \<and> 2 \<le> ss_min_length s \<and> ss_min_length s \<le> ss_max_length s
     \<and> 0 \<le> ss_accepted s \<and> ss_accepted s \<le> ss_proposals s
     \<and> int (length (ss_seen s)) = ss_proposals s \<and> distinct (ss_seen s)
     \<and> (\<forall>k\<in>set (ss_seen s). key_ok k) \<and> in_unit (ss_best_quality s)"

lemma validate_digest_Inr: "validate_digest d = Inr () \<longleftrightarrow> digest_ok d"
  by (simp add: validate_digest_def digest_ok_def)

lemma search_state_validate_Inr:
  "search_state_validate schema s = Inr t \<longleftrightarrow> search_state_ok schema s \<and> t = s"
  unfolding search_state_validate_def search_state_ok_def in_unit_alt
  by (auto simp: bind_r_eq_Inr validate_digest_Inr all_r_Inr_iff key_ok_def not_less
      distinct_card card_distinct)

lemma py_max_unit: "in_unit a \<Longrightarrow> in_unit b \<Longrightarrow> in_unit (py_max a b)"
  by (simp add: py_max_def)

lemma search_state_next_ok:
  assumes "search_state_ok schema s" and "key \<notin> set (ss_seen s)" and "key_ok key"
    and "in_unit quality"
  shows "search_state_ok schema (search_state_next s key accepted quality)"
  using assms by (auto simp: search_state_ok_def search_state_next_def py_max_unit)

lemma scoped_key_ok:
  assumes "scope_ok scope"
  shows "key_ok (scope @ [NUL] @ digest_payload v)"
  using assms rsplit_nul_join [OF NUL_not_hex [of v], of scope]
  by (simp add: key_ok_def validate_key_def scope_ok_def validate_digest_Inr)

text \<open>The quality \<open>sum(values) / len(values)\<close> of checked outcomes.\<close>

definition quality_of :: "pyfloat list \<Rightarrow> pyfloat" where
  "quality_of vs = Fin (mean (map fin_val vs))"

lemma quality_in_unit:
  assumes "vs \<noteq> []" and "\<forall>v\<in>set vs. in_unit v"
  shows "in_unit (quality_of vs)"
proof -
  have "\<forall>x\<in>set (map fin_val vs). 0 \<le> x \<and> x \<le> 1" using assms(2) by (auto simp: in_unit_iff)
  then show ?thesis using mean_in_unit [of "map fin_val vs"] assms(1) by (simp add: quality_of_def)
qed

section \<open>Collecting candidates\<close>

text \<open>
  The loop of the \<open>_candidates\<close> methods over the coordinates of a candidate: materialise it,
  skip it when that raises one of the three exceptions of the \<open>except\<close> clause or it does not
  fit, and keep it unless its key was seen.
\<close>

definition caught :: "exn \<Rightarrow> bool" where
  "caught e \<longleftrightarrow> e \<in> {IndexError, TypeError, ValueError}"

fun collect_candidates :: "('a \<Rightarrow> 'p result) \<Rightarrow> ('p \<Rightarrow> bool) \<Rightarrow> ('a \<Rightarrow> 'p \<Rightarrow> string result)
    \<Rightarrow> string list \<Rightarrow> 'a list \<Rightarrow> ('a \<times> 'p \<times> string) list result" where
  "collect_candidates materialize fits key seen [] = Inr []"
| "collect_candidates materialize fits key seen (a # as) =
     (let rest = collect_candidates materialize fits key seen as
      in case materialize a of
           Inl e \<Rightarrow> if caught e then rest else Inl e
         | Inr p \<Rightarrow>
             if \<not> fits p then rest
             else bind_r (key a p) (\<lambda>k. bind_r rest (\<lambda>cs.
               Inr (if k \<notin> set seen then (a, p, k) # cs else cs))))"

definition candidate_at :: "('a \<Rightarrow> 'p result) \<Rightarrow> ('p \<Rightarrow> bool) \<Rightarrow> ('a \<Rightarrow> 'p \<Rightarrow> string result)
    \<Rightarrow> 'a \<Rightarrow> ('a \<times> 'p \<times> string) option" where
  "candidate_at materialize fits key a =
     (case materialize a of
        Inl e \<Rightarrow> None
      | Inr p \<Rightarrow> if fits p then (case key a p of Inl e \<Rightarrow> None | Inr k \<Rightarrow> Some (a, p, k)) else None)"

lemma candidate_at_Some:
  "candidate_at materialize fits key a = Some (b, p, k) \<longleftrightarrow>
     b = a \<and> materialize a = Inr p \<and> fits p \<and> key a p = Inr k"
  by (auto simp: candidate_at_def split: sum.splits)

lemma collect_candidates_spec:
  assumes "\<And>a e. a \<in> set as \<Longrightarrow> materialize a = Inl e \<Longrightarrow> caught e"
    and "\<And>a p. a \<in> set as \<Longrightarrow> materialize a = Inr p \<Longrightarrow> \<exists>k. key a p = Inr k"
  shows "collect_candidates materialize fits key seen as
    = Inr (filter (\<lambda>c. snd (snd c) \<notin> set seen)
        (List.map_filter (candidate_at materialize fits key) as))"
  using assms
proof (induction "as")
  case Nil
  then show ?case by simp
next
  case (Cons a as)
  then have IH: "collect_candidates materialize fits key seen as
    = Inr (filter (\<lambda>c. snd (snd c) \<notin> set seen)
        (List.map_filter (candidate_at materialize fits key) as))"
    by (intro Cons.IH) auto
  show ?case
  proof (cases "materialize a")
    case (Inl e)
    then have "candidate_at materialize fits key a = None" by (simp add: candidate_at_def)
    then show ?thesis using Inl IH Cons.prems(1) [of a e] by (simp add: List.map_filter_simps)
  next
    case (Inr p)
    then obtain k where "key a p = Inr k" using Cons.prems(2) [of a p] by auto
    then have "candidate_at materialize fits key a = (if fits p then Some (a, p, k) else None)"
      using Inr by (simp add: candidate_at_def)
    then show ?thesis using IH Inr \<open>key a p = Inr k\<close> by (simp add: List.map_filter_simps)
  qed
qed

lemma candidates_filter_Nil:
  "filter (\<lambda>c. snd (snd c) \<notin> S) cs = [] \<longleftrightarrow> set (map (\<lambda>c. snd (snd c)) cs) \<subseteq> S"
  by (auto simp: filter_empty_conv)

lemma in_map_filter: "c \<in> set (List.map_filter f xs) \<longleftrightarrow> (\<exists>x\<in>set xs. f x = Some c)"
  by (force simp: List.map_filter_def)

lemma probability_one_over:
  "cs \<noteq> [] \<Longrightarrow> Fin 0 < Fin (1 / of_nat (length cs)) \<and> Fin (1 / of_nat (length cs)) \<le> Fin 1"
  by (cases cs) (simp_all add: divide_le_eq add_pos_nonneg)

end
