(* ===== verification/CompositionSearch.thy ===== *)
theory CompositionSearch
  imports ControlFlowMemory SearchLedger
begin

text \<open>
  \<open>control_flow_composition.py\<close>: the search over ordered sequences of stored files.  The torch
  generator is a parameter \<open>pick\<close>, with \<open>pick n < n\<close> for \<open>torch.randint(n)\<close>.
\<close>

section \<open>Keys, states and proposals\<close>

definition CONTROL_FLOW_COMPOSITION_SEARCH_SCHEMA :: string where
  "CONTROL_FLOW_COMPOSITION_SEARCH_SCHEMA =
     ''neural-computer.external-control-flow-composition-search.v1''"

definition CONTROL_FLOW_COMPOSITION_PROPOSAL_SCHEMA :: string where
  "CONTROL_FLOW_COMPOSITION_PROPOSAL_SCHEMA =
     ''neural-computer.external-control-flow-composition-proposal.v1''"

definition cc_candidate_digest :: "int list \<Rightarrow> cf_program \<Rightarrow> string result" where
  "cc_candidate_digest slots p =
     bind_r (cp_digest p) (\<lambda>d.
       Inr (digest_payload (PDict [(''slots'', PList (map PInt slots)), (''program'', PStr d)])))"

definition cc_scoped_key :: "string \<Rightarrow> int list \<Rightarrow> cf_program \<Rightarrow> string result" where
  "cc_scoped_key scope slots p =
     (if \<not> scope_ok scope then Inl ValueError
      else bind_r (cc_candidate_digest slots p) (\<lambda>d. Inr (scope @ [NUL] @ d)))"

definition cc_state_validate :: "search_state \<Rightarrow> search_state result" where
  "cc_state_validate = search_state_validate CONTROL_FLOW_COMPOSITION_SEARCH_SCHEMA"

record cc_proposal =
  cc_slots :: "int list"
  cc_program :: cf_program
  cc_key :: string
  cc_attempt :: int
  cc_probability :: pyfloat
  cc_scope :: string
  cc_schema :: string

definition cc_proposal_validate :: "cc_proposal \<Rightarrow> cc_proposal result" where
  "cc_proposal_validate r =
     (if cc_schema r \<noteq> CONTROL_FLOW_COMPOSITION_PROPOSAL_SCHEMA then Inl ValueError
      else if length (cc_slots r) < 2 \<or> (\<exists>slot\<in>set (cc_slots r). slot < 0) then Inl ValueError
      else bind_r (cp_validate (cc_program r)) (\<lambda>_.
        bind_r (cc_scoped_key (cc_scope r) (cc_slots r) (cc_program r)) (\<lambda>expected.
          if cc_key r \<noteq> expected then Inl ValueError
          else if cc_attempt r < 0 then Inl ValueError
          else if \<not> isfinite (cc_probability r)
            \<or> \<not> (Fin 0 < cc_probability r \<and> cc_probability r \<le> Fin 1) then Inl ValueError
          else Inr r)))"

record cc_feedback =
  cb_proposal :: cc_proposal
  cb_receipt :: cf_receipt
  cb_quality :: pyfloat
  cb_state :: search_state

section \<open>The search\<close>

record cc_search =
  cs_memory :: cf_memory
  cs_min_length :: int
  cs_max_length :: int

definition cc_init :: "cf_memory \<Rightarrow> int \<Rightarrow> int \<Rightarrow> cc_search result" where
  "cc_init m lo hi =
     (if cm_file_count m < 1 then Inl ValueError
      else if lo < 2 \<or> hi < lo then Inl ValueError
      else Inr \<lparr>cs_memory = m, cs_min_length = lo, cs_max_length = hi\<rparr>)"

definition cc_initial_state :: "cc_search \<Rightarrow> search_state result" where
  "cc_initial_state x =
     bind_r (cm_digest (cs_memory x)) (\<lambda>d. cc_state_validate
       \<lparr>ss_memory_digest = d, ss_slot_count = cm_file_count (cs_memory x),
        ss_min_length = cs_min_length x, ss_max_length = cs_max_length x,
        ss_seen = [], ss_proposals = 0, ss_accepted = 0, ss_best_quality = Fin 0,
        ss_schema = CONTROL_FLOW_COMPOSITION_SEARCH_SCHEMA\<rparr>)"

definition cc_validate_state :: "cc_search \<Rightarrow> search_state \<Rightarrow> unit result" where
  "cc_validate_state x s =
     bind_r (cc_state_validate s) (\<lambda>_.
     bind_r (cm_digest (cs_memory x)) (\<lambda>d.
       if ss_memory_digest s \<noteq> d then Inl ValueError
       else if ss_slot_count s \<noteq> cm_file_count (cs_memory x) then Inl ValueError
       else if ss_min_length s \<noteq> cs_min_length x \<or> ss_max_length s \<noteq> cs_max_length x
       then Inl ValueError
       else Inr ()))"

definition cc_slot_lists :: "cc_search \<Rightarrow> int list list" where
  "cc_slot_lists x =
     concat (map (\<lambda>length. product_repeat (upto_int (cm_file_count (cs_memory x))) (nat length))
       [cs_min_length x..cs_max_length x])"

definition cc_candidates :: "cc_search \<Rightarrow> search_state \<Rightarrow> string
    \<Rightarrow> (int list \<times> cf_program \<times> string) list result" where
  "cc_candidates x s scope =
     bind_r (cc_validate_state x s) (\<lambda>_.
       if \<not> scope_ok scope then Inl ValueError
       else collect_candidates (\<lambda>slots. cm_compose (cs_memory x) (map PInt slots)) (\<lambda>p. True)
              (cc_scoped_key scope) (ss_seen s) (cc_slot_lists x))"

definition cc_choose :: "search_state \<Rightarrow> string \<Rightarrow> (int list \<times> cf_program \<times> string) list \<Rightarrow> nat
    \<Rightarrow> cc_proposal result" where
  "cc_choose s scope candidates selected =
     (case candidates ! selected of (slots, p, key) \<Rightarrow>
        cc_proposal_validate
          \<lparr>cc_slots = slots, cc_program = p, cc_key = key, cc_attempt = ss_proposals s,
           cc_probability = Fin (1 / of_nat (length candidates)), cc_scope = scope,
           cc_schema = CONTROL_FLOW_COMPOSITION_PROPOSAL_SCHEMA\<rparr>)"

definition cc_propose :: "(nat \<Rightarrow> nat) \<Rightarrow> cc_search \<Rightarrow> search_state \<Rightarrow> string \<Rightarrow> cc_proposal result" where
  "cc_propose pick x s scope =
     bind_r (cc_candidates x s scope) (\<lambda>candidates.
       if candidates = [] then Inl RuntimeError
       else cc_choose s scope candidates (pick (length candidates)))"

definition cc_propose_exhaustive :: "cc_search \<Rightarrow> search_state \<Rightarrow> string \<Rightarrow> cc_proposal result" where
  "cc_propose_exhaustive x s scope =
     bind_r (cc_candidates x s scope) (\<lambda>candidates.
       if candidates = [] then Inl RuntimeError else cc_choose s scope candidates 0)"

type_synonym evidence = "pyfloat list \<times> pyfloat \<times> int \<times> int"

fun cc_record_outcomes :: "cc_search \<Rightarrow> search_state \<Rightarrow> cc_proposal \<Rightarrow> evidence \<Rightarrow> cc_feedback result" where
  "cc_record_outcomes x s r (values, threshold, min_observations, min_stable) =
     bind_r (cc_validate_state x s) (\<lambda>_.
     bind_r (cc_proposal_validate r) (\<lambda>_.
       if cc_attempt r \<noteq> ss_proposals s then Inl ValueError
       else if cc_key r \<in> set (ss_seen s) then Inl ValueError
       else (case cm_compose (cs_memory x) (map PInt (cc_slots r)) of
           Inl e \<Rightarrow> Inl (if caught e then ValueError else e)
         | Inr materialized \<Rightarrow>
             bind_r (cp_digest materialized) (\<lambda>d. bind_r (cp_digest (cc_program r)) (\<lambda>d'.
               if d \<noteq> d' then Inl ValueError
               else bind_r (evaluate_control_flow_admission (cc_program r) values threshold
                      min_observations min_stable) (\<lambda>receipt.
                 bind_r (cc_state_validate
                   (search_state_next s (cc_key r) (cr_accepted receipt) (quality_of values)))
                 (\<lambda>next_state. Inr \<lparr>cb_proposal = r, cb_receipt = receipt,
                    cb_quality = quality_of values, cb_state = next_state\<rparr>)))))))"

section \<open>The search as a ledger\<close>

fun evidence_ok :: "evidence \<Rightarrow> bool" where
  "evidence_ok (vs, threshold, mo, ms) \<longleftrightarrow> vs \<noteq> [] \<and> (\<forall>v\<in>set vs. in_unit v)
     \<and> in_unit_pos threshold \<and> 1 \<le> mo \<and> 1 \<le> ms"

definition cc_ok :: "cc_search \<Rightarrow> bool" where
  "cc_ok x \<longleftrightarrow> memory_ok (cs_memory x) \<and> 1 \<le> cm_file_count (cs_memory x)
     \<and> 2 \<le> cs_min_length x \<and> cs_min_length x \<le> cs_max_length x"

definition cc_inv :: "cc_search \<Rightarrow> search_state \<Rightarrow> bool" where
  "cc_inv x s \<longleftrightarrow> cc_ok x \<and> cc_validate_state x s = Inr ()"

definition cc_next :: "cc_search \<Rightarrow> search_state \<Rightarrow> cc_proposal \<Rightarrow> evidence \<Rightarrow> search_state result" where
  "cc_next x s r e = bind_r (cc_record_outcomes x s r e) (\<lambda>b. Inr (cb_state b))"

definition cc_space :: "cc_search \<Rightarrow> string \<Rightarrow> (int list \<times> cf_program \<times> string) list" where
  "cc_space x scope = List.map_filter
     (candidate_at (\<lambda>slots. cm_compose (cs_memory x) (map PInt slots)) (\<lambda>p. True) (cc_scoped_key scope))
     (cc_slot_lists x)"

lemma cm_digest_ok:
  assumes "memory_ok m"
  shows "\<exists>v. cm_digest m = Inr (digest_payload v)"
  using cm_body_Inr [OF assms] by (auto simp: cm_digest_def)

lemma compose_error:
  assumes "compose_control_flow_programs ps = Inl e"
  shows "e = ValueError"
proof -
  have "map_r cp_validate ps = Inl e' \<Longrightarrow> e' = ValueError" for e'
    by (drule map_r_Inl) (auto simp: cp_validate_cases split: if_splits)
  then show ?thesis
    using assms unfolding compose_control_flow_programs_def Let_def
    by (auto dest!: bind_r_Inl_cases simp: cp_validate_cases split: if_splits)
qed

lemma cm_slot_caught: "cm_slot m v = Inl e \<Longrightarrow> caught e"
  by (cases v) (auto simp: caught_def split: if_splits)

lemma cm_program_caught: "cm_program m k = Inl e \<Longrightarrow> caught e"
  by (auto simp: cm_program_def caught_def split: if_splits)

lemma compose_caught: "compose_control_flow_programs ps = Inl e \<Longrightarrow> caught e"
  using compose_error by (auto simp: caught_def)

lemma cm_compose_caught: "cm_compose m slots = Inl e \<Longrightarrow> caught e"
  unfolding cm_compose_def
  by (auto dest!: bind_r_Inl_cases map_r_Inl dest: cm_slot_caught cm_program_caught compose_caught
      simp: caught_def [of ValueError] split: if_splits)

lemma cm_compose_valid: "cm_compose m slots = Inr p \<Longrightarrow> valid_program p"
  using valid_composed_code by (auto simp: cm_compose_Inr compose_Inr valid_code_def)

lemma cc_scoped_key_valid:
  assumes "scope_ok scope" and "valid_program p"
  shows "\<exists>v. cc_scoped_key scope slots p = Inr (scope @ [NUL] @ digest_payload v)"
  using cp_digest_valid [OF assms(2)] assms(1)
  by (auto simp: cc_scoped_key_def cc_candidate_digest_def)

lemma cc_candidates_eq:
  assumes "cc_inv x s" and "scope_ok scope"
  shows "cc_candidates x s scope
    = Inr (filter (\<lambda>c. snd (snd c) \<notin> set (ss_seen s)) (cc_space x scope))"
proof -
  have "\<exists>k. cc_scoped_key scope slots p = Inr k" if "cm_compose (cs_memory x) (map PInt slots) = Inr p"
    for slots p
    using cc_scoped_key_valid [OF assms(2) cm_compose_valid [OF that]] by blast
  then show ?thesis
    using assms unfolding cc_candidates_def cc_space_def cc_inv_def
    by (simp add: collect_candidates_spec cm_compose_caught)
qed

lemma cc_validate_state_Inr:
  assumes "cc_ok x"
  shows "cc_validate_state x s = Inr () \<longleftrightarrow>
    search_state_ok CONTROL_FLOW_COMPOSITION_SEARCH_SCHEMA s
    \<and> cm_digest (cs_memory x) = Inr (ss_memory_digest s)
    \<and> ss_slot_count s = cm_file_count (cs_memory x) \<and> ss_min_length s = cs_min_length x
    \<and> ss_max_length s = cs_max_length x"
  by (auto simp: cc_validate_state_def bind_r_eq_Inr cc_state_validate_def
      search_state_validate_Inr split: if_splits)

lemma slot_listsD:
  assumes "cc_ok x" and "slots \<in> set (cc_slot_lists x)"
  shows "2 \<le> length slots" and "\<forall>slot\<in>set slots. 0 \<le> slot"
  using assms by (auto simp: cc_slot_lists_def set_product_repeat cc_ok_def)

lemma cc_choose_ok:
  assumes "cc_inv x s" and "scope_ok scope" and "cc_candidates x s scope = Inr cs" and "i < length cs"
  shows "\<exists>slots p key. cs ! i = (slots, p, key) \<and> (slots, p, key) \<in> set (cc_space x scope)
    \<and> key \<notin> set (ss_seen s) \<and> key_ok key
    \<and> cm_compose (cs_memory x) (map PInt slots) = Inr p
    \<and> cc_choose s scope cs i = Inr
        \<lparr>cc_slots = slots, cc_program = p, cc_key = key, cc_attempt = ss_proposals s,
         cc_probability = Fin (1 / of_nat (length cs)), cc_scope = scope,
         cc_schema = CONTROL_FLOW_COMPOSITION_PROPOSAL_SCHEMA\<rparr>
    \<and> cc_proposal_validate
        \<lparr>cc_slots = slots, cc_program = p, cc_key = key, cc_attempt = ss_proposals s,
         cc_probability = Fin (1 / of_nat (length cs)), cc_scope = scope,
         cc_schema = CONTROL_FLOW_COMPOSITION_PROPOSAL_SCHEMA\<rparr> = Inr
        \<lparr>cc_slots = slots, cc_program = p, cc_key = key, cc_attempt = ss_proposals s,
         cc_probability = Fin (1 / of_nat (length cs)), cc_scope = scope,
         cc_schema = CONTROL_FLOW_COMPOSITION_PROPOSAL_SCHEMA\<rparr>"
proof -
  obtain slots p key where c: "cs ! i = (slots, p, key)" by (cases "cs ! i")
  have x: "cc_ok x" using assms(1) by (simp add: cc_inv_def)
  have "(slots, p, key) \<in> set cs" using assms(4) c by (metis nth_mem)
  then have mem: "(slots, p, key) \<in> set (cc_space x scope)" "key \<notin> set (ss_seen s)"
    using assms(3) by (auto simp: cc_candidates_eq [OF assms(1,2)])
  then have cand: "slots \<in> set (cc_slot_lists x)"
      "cm_compose (cs_memory x) (map PInt slots) = Inr p" "cc_scoped_key scope slots p = Inr key"
    by (auto simp: cc_space_def in_map_filter candidate_at_Some)
  have v: "valid_program p" using cm_compose_valid cand(2) .
  have k: "key_ok key"
    using cc_scoped_key_valid [OF assms(2) v, of slots] cand(3) scoped_key_ok [OF assms(2)] by auto
  have i: "cs \<noteq> []" using assms(4) by auto
  have s: "0 \<le> ss_proposals s"
    using assms(1) x by (auto simp: cc_inv_def cc_validate_state_Inr search_state_ok_def)
  have "cc_proposal_validate
        \<lparr>cc_slots = slots, cc_program = p, cc_key = key, cc_attempt = ss_proposals s,
         cc_probability = Fin (1 / of_nat (length cs)), cc_scope = scope,
         cc_schema = CONTROL_FLOW_COMPOSITION_PROPOSAL_SCHEMA\<rparr> = Inr
        \<lparr>cc_slots = slots, cc_program = p, cc_key = key, cc_attempt = ss_proposals s,
         cc_probability = Fin (1 / of_nat (length cs)), cc_scope = scope,
         cc_schema = CONTROL_FLOW_COMPOSITION_PROPOSAL_SCHEMA\<rparr>"
    using slot_listsD [OF x cand(1)] v s probability_one_over [of cs] assms(4) i
    by (auto simp: cc_proposal_validate_def cp_validate_cases cand(3) simp del: Fin_le Fin_less)
  then show ?thesis using c mem k cand(2) by (simp add: cc_choose_def)
qed

lemma cc_record_effect:
  assumes "cc_inv x s" and "cc_next x s r e = Inr s'"
  shows "cc_key r \<notin> set (ss_seen s) \<and> ss_seen s' = ss_seen s @ [cc_key r] \<and> cc_inv x s'"
proof -
  obtain vs t mo ms where e: "e = (vs, t, mo, ms)" by (cases e) auto
  have x: "cc_ok x" using assms(1) by (simp add: cc_inv_def)
  obtain acc where *: "cc_key r \<notin> set (ss_seen s)"
      "cc_state_validate (search_state_next s (cc_key r) acc (quality_of vs)) = Inr s'"
    using assms(2) by (auto simp: e cc_next_def bind_r_eq_Inr split: if_splits sum.splits)
  then have "s' = search_state_next s (cc_key r) acc (quality_of vs)"
      "search_state_ok CONTROL_FLOW_COMPOSITION_SEARCH_SCHEMA s'"
    by (auto simp: cc_state_validate_def search_state_validate_Inr)
  then show ?thesis
    using assms(1) x *(1)
    by (auto simp: cc_inv_def cc_validate_state_Inr search_state_next_def)
qed

lemma cc_record_ok:
  assumes "cc_inv x s" and "cc_proposal_validate r = Inr r"
    and "cc_attempt r = ss_proposals s" and "cc_key r \<notin> set (ss_seen s)" and "key_ok (cc_key r)"
    and "cm_compose (cs_memory x) (map PInt (cc_slots r)) = Inr (cc_program r)"
    and "evidence_ok e"
  shows "\<exists>s'. cc_next x s r e = Inr s'"
proof -
  obtain vs t mo ms where e: "e = (vs, t, mo, ms)" by (cases e) auto
  have x: "cc_ok x" using assms(1) by (simp add: cc_inv_def)
  have v: "valid_program (cc_program r)" using cm_compose_valid assms(6) .
  then obtain d where d: "cp_digest (cc_program r) = Inr d" using cp_digest_valid by blast
  have "admission_args_ok (cc_program r) vs t mo ms"
    using v assms(7) by (simp add: e admission_args_ok_def)
  then obtain a where a: "evaluate_control_flow_admission (cc_program r) vs t mo ms = Inr a"
    unfolding evaluate_admission_Inr by (metis cf_receipt.select_convs)
  have "search_state_ok CONTROL_FLOW_COMPOSITION_SEARCH_SCHEMA
      (search_state_next s (cc_key r) (cr_accepted a) (quality_of vs))"
    using assms x quality_in_unit [of vs]
    by (intro search_state_next_ok) (auto simp: cc_inv_def cc_validate_state_Inr e)
  then show ?thesis
    using assms a d
    by (simp add: cc_next_def e cc_inv_def cc_state_validate_def search_state_validate_Inr
        bind_r_eq_Inr)
qed

definition cc_space_keys :: "cc_search \<Rightarrow> string \<Rightarrow> string list" where
  "cc_space_keys x scope = map (\<lambda>c. snd (snd c)) (cc_space x scope)"

lemma cc_choice:
  assumes "cc_inv x s" and "scope_ok g" and "\<And>n. 0 < n \<Longrightarrow> pick n < n"
  shows "\<not> set (cc_space_keys x g) \<subseteq> set (ss_seen s) \<Longrightarrow>
      \<exists>r. cc_propose pick x s g = Inr r \<and> cc_key r \<in> set (cc_space_keys x g) - set (ss_seen s)"
    and "set (cc_space_keys x g) \<subseteq> set (ss_seen s) \<Longrightarrow> cc_propose pick x s g = Inl RuntimeError"
    and "cc_propose pick x s g = Inr r \<Longrightarrow> evidence_ok e \<Longrightarrow> \<exists>s'. cc_next x s r e = Inr s'"
proof -
  let ?cs = "filter (\<lambda>c. snd (snd c) \<notin> set (ss_seen s)) (cc_space x g)"
  note cands = cc_candidates_eq [OF assms(1,2)]
  have chosen: "cc_propose pick x s g
      = (if ?cs = [] then Inl RuntimeError else cc_choose s g ?cs (pick (length ?cs)))"
    by (simp add: cc_propose_def cands)
  have none: "?cs = [] \<longleftrightarrow> set (cc_space_keys x g) \<subseteq> set (ss_seen s)"
    unfolding cc_space_keys_def by (rule candidates_filter_Nil)
  have pick: "?cs \<noteq> [] \<Longrightarrow> pick (length ?cs) < length ?cs" using assms(3) by blast
  show "set (cc_space_keys x g) \<subseteq> set (ss_seen s) \<Longrightarrow> cc_propose pick x s g = Inl RuntimeError"
    using none chosen by simp
  show "\<exists>r. cc_propose pick x s g = Inr r \<and> cc_key r \<in> set (cc_space_keys x g) - set (ss_seen s)"
    if "\<not> set (cc_space_keys x g) \<subseteq> set (ss_seen s)"
  proof -
    have ne: "?cs \<noteq> []" using that none by blast
    obtain slots p key where "(slots, p, key) \<in> set (cc_space x g)" "key \<notin> set (ss_seen s)"
        "cc_choose s g ?cs (pick (length ?cs)) = Inr
          \<lparr>cc_slots = slots, cc_program = p, cc_key = key, cc_attempt = ss_proposals s,
           cc_probability = Fin (1 / of_nat (length ?cs)), cc_scope = g,
           cc_schema = CONTROL_FLOW_COMPOSITION_PROPOSAL_SCHEMA\<rparr>"
      using cc_choose_ok [OF assms(1,2) cands pick [OF ne]] by blast
    then show ?thesis using ne by (force simp: chosen cc_space_keys_def)
  qed
  show "\<exists>s'. cc_next x s r e = Inr s'" if r: "cc_propose pick x s g = Inr r" and e: "evidence_ok e"
  proof -
    have ne: "?cs \<noteq> []" using r chosen by auto
    then have "cc_choose s g ?cs (pick (length ?cs)) = Inr r" using r chosen by simp
    then show ?thesis
      using cc_choose_ok [OF assms(1,2) cands pick [OF ne]] e
      by (elim exE conjE) (rule cc_record_ok [OF assms(1)], auto)
  qed
qed

interpretation composition: exhaustive_search
  "\<lambda>x s. (\<forall>n>0. fst x n < n) \<and> cc_inv (snd x) s" ss_seen cc_key "\<lambda>x. cc_next (snd x)"
  scope_ok "\<lambda>x. cc_space_keys (snd x)" "\<lambda>x. cc_propose (fst x) (snd x)" "\<lambda>x. evidence_ok"
proof
  fix x :: "(nat \<Rightarrow> nat) \<times> cc_search" and s s' :: search_state and r :: cc_proposal
    and e :: evidence and g :: string
  assume inv: "(\<forall>n>0. fst x n < n) \<and> cc_inv (snd x) s"
  then have i: "cc_inv (snd x) s" and p: "\<And>n. 0 < n \<Longrightarrow> fst x n < n" by auto
  show "distinct (ss_seen s)"
    using i by (auto simp: cc_inv_def cc_validate_state_Inr search_state_ok_def)
  show "cc_next (snd x) s r e = Inr s' \<Longrightarrow> cc_key r \<notin> set (ss_seen s)
      \<and> ss_seen s' = ss_seen s @ [cc_key r] \<and> (\<forall>n>0. fst x n < n) \<and> cc_inv (snd x) s'"
    using cc_record_effect [OF i] inv by blast
  assume g: "scope_ok g"
  show "\<not> set (cc_space_keys (snd x) g) \<subseteq> set (ss_seen s) \<Longrightarrow> \<exists>r. cc_propose (fst x) (snd x) s g = Inr r
      \<and> cc_key r \<in> set (cc_space_keys (snd x) g) - set (ss_seen s)"
    by (rule cc_choice(1) [OF i g p])
  show "set (cc_space_keys (snd x) g) \<subseteq> set (ss_seen s) \<Longrightarrow>
      cc_propose (fst x) (snd x) s g = Inl RuntimeError"
    by (rule cc_choice(2) [OF i g p])
  show "cc_propose (fst x) (snd x) s g = Inr r \<Longrightarrow> evidence_ok e \<Longrightarrow>
      \<exists>s'. cc_next (snd x) s r e = Inr s'"
    by (rule cc_choice(3) [OF i g p])
qed

section \<open>Properties\<close>

lemma cc_initial:
  assumes "cc_ok x"
  shows "\<exists>s. cc_initial_state x = Inr s \<and> cc_inv x s \<and> ss_seen s = []"
proof -
  obtain v where "cm_digest (cs_memory x) = Inr (digest_payload v)"
    using cm_digest_ok assms by (auto simp: cc_ok_def)
  then show ?thesis
    using assms
    by (simp add: cc_initial_state_def cc_inv_def cc_validate_state_Inr cc_state_validate_def
        search_state_validate_Inr search_state_ok_def) (simp add: cc_ok_def)
qed

lemma card_space_bound: "card (set (cc_space_keys x g)) \<le> length (cc_slot_lists x)"
proof -
  have "length (List.map_filter f xs) \<le> length xs" for f and xs :: "'a list"
    by (induction xs) (auto simp: List.map_filter_simps split: option.splits)
  then have "length (cc_space_keys x g) \<le> length (cc_slot_lists x)"
    by (simp add: cc_space_keys_def cc_space_def)
  then show ?thesis using card_length le_trans by blast
qed

text \<open>
  The composition search evaluates its whole space and stops.  From the initial state, with
  any generator and any valid evidence, the propose--evaluate--record loop never fails, records
  every composable slot sequence of the configured lengths exactly once, needs no more rounds than
  there are slot sequences, and ends with the \<open>RuntimeError\<close> of an exhausted neighbourhood.
\<close>

lemma composition_search_exhausts:
  assumes "cc_ok x" and "scope_ok g" and "\<And>n. 0 < n \<Longrightarrow> pick n < n"
    and "\<And>r. evidence_ok (evaluate r)"
  shows "\<exists>s s'. cc_initial_state x = Inr s
    \<and> search_loop (\<lambda>s. cc_propose pick x s g) (\<lambda>s r. cc_next x s r (evaluate r))
        (length (cc_slot_lists x)) s = Inr s'
    \<and> distinct (ss_seen s') \<and> set (ss_seen s') = set (cc_space_keys x g)
    \<and> cc_propose pick x s' g = Inl RuntimeError"
proof -
  obtain s where s: "cc_initial_state x = Inr s" "cc_inv x s" "ss_seen s = []"
    using cc_initial [OF assms(1)] by blast
  obtain s' where "search_loop (\<lambda>s. cc_propose pick x s g) (\<lambda>s r. cc_next x s r (evaluate r))
        (length (cc_slot_lists x)) s = Inr s'"
      "\<exists>ks. ss_seen s' = ss_seen s @ ks \<and> distinct ks \<and> set ks = set (cc_space_keys x g) - set (ss_seen s)"
      "cc_propose pick x s' g = Inl RuntimeError"
    using composition.loop_exhausts [of "(pick, x)" s g evaluate "length (cc_slot_lists x)"]
      s assms card_space_bound [of x g] by auto
  then show ?thesis using s by auto
qed

definition small_search :: cc_search where
  "small_search = \<lparr>cs_memory = one_file, cs_min_length = 2, cs_max_length = 3\<rparr>"

lemma small_search_ok: "cc_ok small_search"
  using one_file_ok by (simp add: cc_ok_def small_search_def cm_file_count_def one_file_def)

text \<open>
  A composition ledger is honest.  Recording only ever appends the key of the proposal it was
  given; after any further sequence of recorded outcomes the state is still the valid state of the
  same memory, and no proposal with that key can be recorded again.
\<close>

lemma composition_never_twice:
  assumes "cc_inv x s" and "cc_next x s r e = Inr s1"
    and "fold_r (\<lambda>s re. cc_next x s (fst re) (snd re)) s1 later = Inr s2"
    and "cc_key r' = cc_key r"
  shows "ss_seen s2 = ss_seen s @ cc_key r # map (cc_key \<circ> fst) later \<and> cc_inv x s2
    \<and> (\<exists>err. cc_next x s2 r' f = Inl err)"
proof -
  let ?x = "(\<lambda>n. 0, x) :: (nat \<Rightarrow> nat) \<times> cc_search"
  have inv: "(\<forall>n>0. fst ?x n < n) \<and> cc_inv (snd ?x) s" using assms(1) by simp
  have 1: "ss_seen s1 = ss_seen s @ [cc_key r]" "(\<forall>n>0. fst ?x n < n) \<and> cc_inv (snd ?x) s1"
    using composition.record_effect [OF inv, of r e s1] assms(2) by simp_all
  have "\<exists>err. cc_next x s2 r' f = Inl err"
    using composition.never_twice [OF inv, of r e s1 later s2 r' f] assms(2-4) by simp
  then show ?thesis using composition.record_all [OF _ 1(2), of later s2] assms(3) 1(1) by simp
qed

lemma small_first_record:
  "\<exists>s r s1. cc_inv small_search s \<and> cc_next small_search s r ([Fin 1], Fin 1, 1, 1) = Inr s1"
proof -
  obtain s where s: "cc_initial_state small_search = Inr s" "cc_inv small_search s" "ss_seen s = []"
    using cc_initial [OF small_search_ok] by blast
  have "cm_compose one_file (map PInt [0, 0]) = Inr drain_twice" by code_simp
  moreover have "[0, 0] \<in> set (cc_slot_lists small_search)" by code_simp
  moreover obtain k where "cc_scoped_key ''s'' [0, 0] drain_twice = Inr k"
    using cc_scoped_key_valid [of "''s''" drain_twice "[0, 0]"] cm_compose_valid calculation(1)
    by (auto simp: scope_ok_def NUL_def)
  ultimately have "([0, 0], drain_twice, k) \<in> set (cc_space small_search ''s'')"
    by (simp add: cc_space_def in_map_filter candidate_at_Some small_search_def)
  then have "\<not> set (cc_space_keys small_search ''s'') \<subseteq> set (ss_seen s)"
    by (force simp: cc_space_keys_def s(3))
  then obtain r where "cc_propose (\<lambda>n. 0) small_search s ''s'' = Inr r"
    using cc_choice(1) [OF s(2), of "''s''" "\<lambda>n. 0"] by (auto simp: scope_ok_def NUL_def)
  then show ?thesis
    using cc_choice(3) [OF s(2), of "''s''" "\<lambda>n. 0" r "([Fin 1], Fin 1, 1, 1)"] s(2)
    by (auto simp: scope_ok_def NUL_def)
qed

end
