(* ===== verification/SpliceSearch.thy ===== *)
theory SpliceSearch
  imports CompositionSearch
begin

text \<open>
  \<open>control_flow_splice.py\<close>: the search over insertions of one stored file into another.  A
  candidate is a site: parent slot, position, fragment slot.  As in \<open>CompositionSearch\<close> the
  torch generator is a parameter \<open>pick\<close>.
\<close>

section \<open>Keys, states and proposals\<close>

definition CONTROL_FLOW_SPLICE_SEARCH_SCHEMA :: string where
  "CONTROL_FLOW_SPLICE_SEARCH_SCHEMA =
     ''neural-computer.external-control-flow-splice-search.v1''"

definition CONTROL_FLOW_SPLICE_PROPOSAL_SCHEMA :: string where
  "CONTROL_FLOW_SPLICE_PROPOSAL_SCHEMA =
     ''neural-computer.external-control-flow-splice-proposal.v1''"

type_synonym site = "int \<times> int \<times> int"

fun sp_candidate_digest :: "site \<Rightarrow> cf_program \<Rightarrow> string result" where
  "sp_candidate_digest (parent_slot, position, fragment_slot) p =
     bind_r (cp_digest p) (\<lambda>d. Inr (digest_payload (PDict
       [(''fragment_slot'', PInt fragment_slot), (''parent_slot'', PInt parent_slot),
        (''position'', PInt position), (''program'', PStr d)])))"

definition sp_scoped_key :: "string \<Rightarrow> site \<Rightarrow> cf_program \<Rightarrow> string result" where
  "sp_scoped_key scope site p =
     (if \<not> scope_ok scope then Inl ValueError
      else bind_r (sp_candidate_digest site p) (\<lambda>d. Inr (scope @ [NUL] @ d)))"

definition sp_state_validate :: "search_state \<Rightarrow> search_state result" where
  "sp_state_validate = search_state_validate CONTROL_FLOW_SPLICE_SEARCH_SCHEMA"

record sp_proposal =
  sp_site :: site
  sp_program :: cf_program
  sp_key :: string
  sp_attempt :: int
  sp_probability :: pyfloat
  sp_scope :: string
  sp_schema :: string

definition sp_proposal_validate :: "sp_proposal \<Rightarrow> sp_proposal result" where
  "sp_proposal_validate r =
     (if sp_schema r \<noteq> CONTROL_FLOW_SPLICE_PROPOSAL_SCHEMA then Inl ValueError
      else if (case sp_site r of (parent_slot, position, fragment_slot) \<Rightarrow>
          parent_slot < 0 \<or> position < 0 \<or> fragment_slot < 0) then Inl ValueError
      else bind_r (cp_validate (sp_program r)) (\<lambda>_.
        bind_r (sp_scoped_key (sp_scope r) (sp_site r) (sp_program r)) (\<lambda>expected.
          if sp_key r \<noteq> expected then Inl ValueError
          else if sp_attempt r < 0 then Inl ValueError
          else if \<not> isfinite (sp_probability r)
            \<or> \<not> (Fin 0 < sp_probability r \<and> sp_probability r \<le> Fin 1) then Inl ValueError
          else Inr r)))"

record sp_feedback =
  sb_proposal :: sp_proposal
  sb_receipt :: cf_receipt
  sb_quality :: pyfloat
  sb_state :: search_state

section \<open>The search\<close>

record sp_search =
  sx_memory :: cf_memory
  sx_min_length :: int
  sx_max_length :: int

definition sp_init :: "cf_memory \<Rightarrow> int \<Rightarrow> int \<Rightarrow> sp_search result" where
  "sp_init m lo hi =
     (if cm_file_count m < 1 then Inl ValueError
      else if lo < 2 \<or> hi < lo then Inl ValueError
      else Inr \<lparr>sx_memory = m, sx_min_length = lo, sx_max_length = hi\<rparr>)"

definition sp_initial_state :: "sp_search \<Rightarrow> search_state result" where
  "sp_initial_state x =
     bind_r (cm_digest (sx_memory x)) (\<lambda>d. sp_state_validate
       \<lparr>ss_memory_digest = d, ss_slot_count = cm_file_count (sx_memory x),
        ss_min_length = sx_min_length x, ss_max_length = sx_max_length x,
        ss_seen = [], ss_proposals = 0, ss_accepted = 0, ss_best_quality = Fin 0,
        ss_schema = CONTROL_FLOW_SPLICE_SEARCH_SCHEMA\<rparr>)"

definition sp_validate_state :: "sp_search \<Rightarrow> search_state \<Rightarrow> unit result" where
  "sp_validate_state x s =
     bind_r (sp_state_validate s) (\<lambda>_.
     bind_r (cm_digest (sx_memory x)) (\<lambda>d.
       if ss_memory_digest s \<noteq> d then Inl ValueError
       else if ss_slot_count s \<noteq> cm_file_count (sx_memory x) then Inl ValueError
       else if ss_min_length s \<noteq> sx_min_length x \<or> ss_max_length s \<noteq> sx_max_length x
       then Inl ValueError
       else Inr ()))"

text \<open>The three loops: parents, fragments, positions of the parent.\<close>

definition sp_sites :: "sp_search \<Rightarrow> site list" where
  "sp_sites x =
     (let m = sx_memory x; slots = upto_int (cm_file_count m)
      in concat (map (\<lambda>parent_slot. concat (map (\<lambda>fragment_slot.
           map (\<lambda>position. (parent_slot, position, fragment_slot))
             (upto_int (cp_length (cm_programs m ! nat parent_slot)))) slots)) slots))"

fun splice_at :: "cf_memory \<Rightarrow> site \<Rightarrow> cf_program result" where
  "splice_at m (parent_slot, position, fragment_slot) =
     cm_splice m (PInt parent_slot) (PInt position) (PInt fragment_slot)"

definition sp_fits :: "sp_search \<Rightarrow> cf_program \<Rightarrow> bool" where
  "sp_fits x p \<longleftrightarrow> sx_min_length x \<le> cp_length p \<and> cp_length p \<le> sx_max_length x"

definition sp_candidates :: "sp_search \<Rightarrow> search_state \<Rightarrow> string
    \<Rightarrow> (site \<times> cf_program \<times> string) list result" where
  "sp_candidates x s scope =
     bind_r (sp_validate_state x s) (\<lambda>_.
       if \<not> scope_ok scope then Inl ValueError
       else collect_candidates (splice_at (sx_memory x)) (sp_fits x)
              (sp_scoped_key scope) (ss_seen s) (sp_sites x))"

definition sp_choose :: "search_state \<Rightarrow> string \<Rightarrow> (site \<times> cf_program \<times> string) list \<Rightarrow> nat
    \<Rightarrow> sp_proposal result" where
  "sp_choose s scope candidates selected =
     (case candidates ! selected of (site, p, key) \<Rightarrow>
        sp_proposal_validate
          \<lparr>sp_site = site, sp_program = p, sp_key = key, sp_attempt = ss_proposals s,
           sp_probability = Fin (1 / of_nat (length candidates)), sp_scope = scope,
           sp_schema = CONTROL_FLOW_SPLICE_PROPOSAL_SCHEMA\<rparr>)"

definition sp_propose :: "(nat \<Rightarrow> nat) \<Rightarrow> sp_search \<Rightarrow> search_state \<Rightarrow> string \<Rightarrow> sp_proposal result" where
  "sp_propose pick x s scope =
     bind_r (sp_candidates x s scope) (\<lambda>candidates.
       if candidates = [] then Inl RuntimeError
       else sp_choose s scope candidates (pick (length candidates)))"

definition sp_propose_exhaustive :: "sp_search \<Rightarrow> search_state \<Rightarrow> string \<Rightarrow> sp_proposal result" where
  "sp_propose_exhaustive x s scope =
     bind_r (sp_candidates x s scope) (\<lambda>candidates.
       if candidates = [] then Inl RuntimeError else sp_choose s scope candidates 0)"

fun sp_record_outcomes :: "sp_search \<Rightarrow> search_state \<Rightarrow> sp_proposal \<Rightarrow> evidence \<Rightarrow> sp_feedback result" where
  "sp_record_outcomes x s r (values, threshold, min_observations, min_stable) =
     bind_r (sp_validate_state x s) (\<lambda>_.
     bind_r (sp_proposal_validate r) (\<lambda>_.
       if sp_attempt r \<noteq> ss_proposals s then Inl ValueError
       else if sp_key r \<in> set (ss_seen s) then Inl ValueError
       else (case splice_at (sx_memory x) (sp_site r) of
           Inl e \<Rightarrow> Inl (if caught e then ValueError else e)
         | Inr materialized \<Rightarrow>
             bind_r (cp_digest materialized) (\<lambda>d. bind_r (cp_digest (sp_program r)) (\<lambda>d'.
               if d \<noteq> d' then Inl ValueError
               else bind_r (evaluate_control_flow_admission (sp_program r) values threshold
                      min_observations min_stable) (\<lambda>receipt.
                 bind_r (sp_state_validate
                   (search_state_next s (sp_key r) (cr_accepted receipt) (quality_of values)))
                 (\<lambda>next_state. Inr \<lparr>sb_proposal = r, sb_receipt = receipt,
                    sb_quality = quality_of values, sb_state = next_state\<rparr>)))))))"

section \<open>The search as a ledger\<close>

definition sp_ok :: "sp_search \<Rightarrow> bool" where
  "sp_ok x \<longleftrightarrow> memory_ok (sx_memory x) \<and> 1 \<le> cm_file_count (sx_memory x)
     \<and> 2 \<le> sx_min_length x \<and> sx_min_length x \<le> sx_max_length x"

definition sp_inv :: "sp_search \<Rightarrow> search_state \<Rightarrow> bool" where
  "sp_inv x s \<longleftrightarrow> sp_ok x \<and> sp_validate_state x s = Inr ()"

definition sp_next :: "sp_search \<Rightarrow> search_state \<Rightarrow> sp_proposal \<Rightarrow> evidence \<Rightarrow> search_state result" where
  "sp_next x s r e = bind_r (sp_record_outcomes x s r e) (\<lambda>b. Inr (sb_state b))"

definition sp_space :: "sp_search \<Rightarrow> string \<Rightarrow> (site \<times> cf_program \<times> string) list" where
  "sp_space x scope = List.map_filter
     (candidate_at (splice_at (sx_memory x)) (sp_fits x) (sp_scoped_key scope))
     (sp_sites x)"

lemma splice_error:
  assumes "splice_control_flow_program p position f = Inl e"
  shows "e = ValueError"
  using assms unfolding splice_control_flow_program_def Let_def
  by (auto dest!: bind_r_Inl_cases simp: cp_validate_cases split: if_splits)

lemma splice_caught: "splice_control_flow_program p i f = Inl e \<Longrightarrow> caught e"
  using splice_error by (auto simp: caught_def)

lemma splice_at_caught: "splice_at m a = Inl e \<Longrightarrow> caught e"
  by (cases a) (auto simp: cm_splice_def simp del: cm_slot.simps dest!: bind_r_Inl_cases
      dest: cm_slot_caught cm_program_caught splice_caught)

lemma splice_at_valid: "splice_at m a = Inr p \<Longrightarrow> valid_program p"
  using valid_splice_code
  by (cases a) (auto simp: cm_splice_Inr splice_Inr valid_code_def simp del: splice_ok.simps)

lemma sp_scoped_key_valid:
  assumes "scope_ok scope" and "valid_program p"
  shows "\<exists>v. sp_scoped_key scope site p = Inr (scope @ [NUL] @ digest_payload v)"
  using cp_digest_valid [OF assms(2)] assms(1)
  by (cases site) (auto simp: sp_scoped_key_def)

lemma sp_candidates_eq:
  assumes "sp_inv x s" and "scope_ok scope"
  shows "sp_candidates x s scope
    = Inr (filter (\<lambda>c. snd (snd c) \<notin> set (ss_seen s)) (sp_space x scope))"
proof -
  have "\<exists>k. sp_scoped_key scope site p = Inr k" if "splice_at (sx_memory x) site = Inr p"
    for site p
    using sp_scoped_key_valid [OF assms(2) splice_at_valid [OF that]] by blast
  then show ?thesis
    using assms unfolding sp_candidates_def sp_space_def sp_inv_def
    by (simp add: collect_candidates_spec splice_at_caught)
qed

lemma sp_validate_state_Inr:
  assumes "sp_ok x"
  shows "sp_validate_state x s = Inr () \<longleftrightarrow>
    search_state_ok CONTROL_FLOW_SPLICE_SEARCH_SCHEMA s
    \<and> cm_digest (sx_memory x) = Inr (ss_memory_digest s)
    \<and> ss_slot_count s = cm_file_count (sx_memory x) \<and> ss_min_length s = sx_min_length x
    \<and> ss_max_length s = sx_max_length x"
  by (auto simp: sp_validate_state_def bind_r_eq_Inr sp_state_validate_def
      search_state_validate_Inr split: if_splits)

lemma sitesD:
  assumes "site \<in> set (sp_sites x)"
  shows "case site of (parent_slot, position, fragment_slot) \<Rightarrow>
    \<not> (parent_slot < 0 \<or> position < 0 \<or> fragment_slot < 0)"
  using assms by (auto simp: sp_sites_def Let_def)

lemma sp_choose_ok:
  assumes "sp_inv x s" and "scope_ok scope" and "sp_candidates x s scope = Inr cs" and "i < length cs"
  shows "\<exists>site p key. cs ! i = (site, p, key) \<and> (site, p, key) \<in> set (sp_space x scope)
    \<and> key \<notin> set (ss_seen s) \<and> key_ok key
    \<and> splice_at (sx_memory x) site = Inr p
    \<and> sp_choose s scope cs i = Inr
        \<lparr>sp_site = site, sp_program = p, sp_key = key, sp_attempt = ss_proposals s,
         sp_probability = Fin (1 / of_nat (length cs)), sp_scope = scope,
         sp_schema = CONTROL_FLOW_SPLICE_PROPOSAL_SCHEMA\<rparr>
    \<and> sp_proposal_validate
        \<lparr>sp_site = site, sp_program = p, sp_key = key, sp_attempt = ss_proposals s,
         sp_probability = Fin (1 / of_nat (length cs)), sp_scope = scope,
         sp_schema = CONTROL_FLOW_SPLICE_PROPOSAL_SCHEMA\<rparr> = Inr
        \<lparr>sp_site = site, sp_program = p, sp_key = key, sp_attempt = ss_proposals s,
         sp_probability = Fin (1 / of_nat (length cs)), sp_scope = scope,
         sp_schema = CONTROL_FLOW_SPLICE_PROPOSAL_SCHEMA\<rparr>"
proof -
  obtain site p key where c: "cs ! i = (site, p, key)" by (cases "cs ! i")
  have x: "sp_ok x" using assms(1) by (simp add: sp_inv_def)
  have "(site, p, key) \<in> set cs" using assms(4) c by (metis nth_mem)
  then have mem: "(site, p, key) \<in> set (sp_space x scope)" "key \<notin> set (ss_seen s)"
    using assms(3) by (auto simp: sp_candidates_eq [OF assms(1,2)])
  then have cand: "site \<in> set (sp_sites x)"
      "splice_at (sx_memory x) site = Inr p" "sp_scoped_key scope site p = Inr key"
    by (auto simp: sp_space_def in_map_filter candidate_at_Some)
  have v: "valid_program p" using splice_at_valid cand(2) .
  have k: "key_ok key"
    using sp_scoped_key_valid [OF assms(2) v, of site] cand(3) scoped_key_ok [OF assms(2)] by auto
  have i: "cs \<noteq> []" using assms(4) by auto
  have s: "0 \<le> ss_proposals s"
    using assms(1) x by (auto simp: sp_inv_def sp_validate_state_Inr search_state_ok_def)
  have "sp_proposal_validate
        \<lparr>sp_site = site, sp_program = p, sp_key = key, sp_attempt = ss_proposals s,
         sp_probability = Fin (1 / of_nat (length cs)), sp_scope = scope,
         sp_schema = CONTROL_FLOW_SPLICE_PROPOSAL_SCHEMA\<rparr> = Inr
        \<lparr>sp_site = site, sp_program = p, sp_key = key, sp_attempt = ss_proposals s,
         sp_probability = Fin (1 / of_nat (length cs)), sp_scope = scope,
         sp_schema = CONTROL_FLOW_SPLICE_PROPOSAL_SCHEMA\<rparr>"
    using sitesD [OF cand(1)] v s probability_one_over [of cs] assms(4) i
    by (auto simp: sp_proposal_validate_def cp_validate_cases cand(3) simp del: Fin_le Fin_less)
  then show ?thesis using c mem k cand(2) by (simp add: sp_choose_def)
qed

lemma sp_record_effect:
  assumes "sp_inv x s" and "sp_next x s r e = Inr s'"
  shows "sp_key r \<notin> set (ss_seen s) \<and> ss_seen s' = ss_seen s @ [sp_key r] \<and> sp_inv x s'"
proof -
  obtain vs t mo ms where e: "e = (vs, t, mo, ms)" by (cases e) auto
  have x: "sp_ok x" using assms(1) by (simp add: sp_inv_def)
  obtain acc where *: "sp_key r \<notin> set (ss_seen s)"
      "sp_state_validate (search_state_next s (sp_key r) acc (quality_of vs)) = Inr s'"
    using assms(2) by (auto simp: e sp_next_def bind_r_eq_Inr split: if_splits sum.splits)
  then have "s' = search_state_next s (sp_key r) acc (quality_of vs)"
      "search_state_ok CONTROL_FLOW_SPLICE_SEARCH_SCHEMA s'"
    by (auto simp: sp_state_validate_def search_state_validate_Inr)
  then show ?thesis
    using assms(1) x *(1)
    by (auto simp: sp_inv_def sp_validate_state_Inr search_state_next_def)
qed

lemma sp_record_ok:
  assumes "sp_inv x s" and "sp_proposal_validate r = Inr r"
    and "sp_attempt r = ss_proposals s" and "sp_key r \<notin> set (ss_seen s)" and "key_ok (sp_key r)"
    and "splice_at (sx_memory x) (sp_site r) = Inr (sp_program r)"
    and "evidence_ok e"
  shows "\<exists>s'. sp_next x s r e = Inr s'"
proof -
  obtain vs t mo ms where e: "e = (vs, t, mo, ms)" by (cases e) auto
  have x: "sp_ok x" using assms(1) by (simp add: sp_inv_def)
  have v: "valid_program (sp_program r)" using splice_at_valid assms(6) .
  then obtain d where d: "cp_digest (sp_program r) = Inr d" using cp_digest_valid by blast
  have "admission_args_ok (sp_program r) vs t mo ms"
    using v assms(7) by (simp add: e admission_args_ok_def)
  then obtain a where a: "evaluate_control_flow_admission (sp_program r) vs t mo ms = Inr a"
    unfolding evaluate_admission_Inr by (metis cf_receipt.select_convs)
  have "search_state_ok CONTROL_FLOW_SPLICE_SEARCH_SCHEMA
      (search_state_next s (sp_key r) (cr_accepted a) (quality_of vs))"
    using assms x quality_in_unit [of vs]
    by (intro search_state_next_ok) (auto simp: sp_inv_def sp_validate_state_Inr e)
  then show ?thesis
    using assms a d
    by (simp add: sp_next_def e sp_inv_def sp_state_validate_def search_state_validate_Inr
        bind_r_eq_Inr)
qed

definition sp_space_keys :: "sp_search \<Rightarrow> string \<Rightarrow> string list" where
  "sp_space_keys x scope = map (\<lambda>c. snd (snd c)) (sp_space x scope)"

lemma sp_choice:
  assumes "sp_inv x s" and "scope_ok g" and "\<And>n. 0 < n \<Longrightarrow> pick n < n"
  shows "\<not> set (sp_space_keys x g) \<subseteq> set (ss_seen s) \<Longrightarrow>
      \<exists>r. sp_propose pick x s g = Inr r \<and> sp_key r \<in> set (sp_space_keys x g) - set (ss_seen s)"
    and "set (sp_space_keys x g) \<subseteq> set (ss_seen s) \<Longrightarrow> sp_propose pick x s g = Inl RuntimeError"
    and "sp_propose pick x s g = Inr r \<Longrightarrow> evidence_ok e \<Longrightarrow> \<exists>s'. sp_next x s r e = Inr s'"
proof -
  let ?cs = "filter (\<lambda>c. snd (snd c) \<notin> set (ss_seen s)) (sp_space x g)"
  note cands = sp_candidates_eq [OF assms(1,2)]
  have chosen: "sp_propose pick x s g
      = (if ?cs = [] then Inl RuntimeError else sp_choose s g ?cs (pick (length ?cs)))"
    by (simp add: sp_propose_def cands)
  have none: "?cs = [] \<longleftrightarrow> set (sp_space_keys x g) \<subseteq> set (ss_seen s)"
    unfolding sp_space_keys_def by (rule candidates_filter_Nil)
  have pick: "?cs \<noteq> [] \<Longrightarrow> pick (length ?cs) < length ?cs" using assms(3) by blast
  show "set (sp_space_keys x g) \<subseteq> set (ss_seen s) \<Longrightarrow> sp_propose pick x s g = Inl RuntimeError"
    using none chosen by simp
  show "\<exists>r. sp_propose pick x s g = Inr r \<and> sp_key r \<in> set (sp_space_keys x g) - set (ss_seen s)"
    if "\<not> set (sp_space_keys x g) \<subseteq> set (ss_seen s)"
  proof -
    have ne: "?cs \<noteq> []" using that none by blast
    obtain site p key where "(site, p, key) \<in> set (sp_space x g)" "key \<notin> set (ss_seen s)"
        "sp_choose s g ?cs (pick (length ?cs)) = Inr
          \<lparr>sp_site = site, sp_program = p, sp_key = key, sp_attempt = ss_proposals s,
           sp_probability = Fin (1 / of_nat (length ?cs)), sp_scope = g,
           sp_schema = CONTROL_FLOW_SPLICE_PROPOSAL_SCHEMA\<rparr>"
      using sp_choose_ok [OF assms(1,2) cands pick [OF ne]] by blast
    then show ?thesis using ne by (force simp: chosen sp_space_keys_def)
  qed
  show "\<exists>s'. sp_next x s r e = Inr s'" if r: "sp_propose pick x s g = Inr r" and e: "evidence_ok e"
  proof -
    have ne: "?cs \<noteq> []" using r chosen by auto
    then have "sp_choose s g ?cs (pick (length ?cs)) = Inr r" using r chosen by simp
    then show ?thesis
      using sp_choose_ok [OF assms(1,2) cands pick [OF ne]] e
      by (elim exE conjE) (rule sp_record_ok [OF assms(1)], auto)
  qed
qed

interpretation splicing: exhaustive_search
  "\<lambda>x s. (\<forall>n>0. fst x n < n) \<and> sp_inv (snd x) s" ss_seen sp_key "\<lambda>x. sp_next (snd x)"
  scope_ok "\<lambda>x. sp_space_keys (snd x)" "\<lambda>x. sp_propose (fst x) (snd x)" "\<lambda>x. evidence_ok"
proof
  fix x :: "(nat \<Rightarrow> nat) \<times> sp_search" and s s' :: search_state and r :: sp_proposal
    and e :: evidence and g :: string
  assume inv: "(\<forall>n>0. fst x n < n) \<and> sp_inv (snd x) s"
  then have i: "sp_inv (snd x) s" and p: "\<And>n. 0 < n \<Longrightarrow> fst x n < n" by auto
  show "distinct (ss_seen s)"
    using i by (auto simp: sp_inv_def sp_validate_state_Inr search_state_ok_def)
  show "sp_next (snd x) s r e = Inr s' \<Longrightarrow> sp_key r \<notin> set (ss_seen s)
      \<and> ss_seen s' = ss_seen s @ [sp_key r] \<and> (\<forall>n>0. fst x n < n) \<and> sp_inv (snd x) s'"
    using sp_record_effect [OF i] inv by blast
  assume g: "scope_ok g"
  show "\<not> set (sp_space_keys (snd x) g) \<subseteq> set (ss_seen s) \<Longrightarrow> \<exists>r. sp_propose (fst x) (snd x) s g = Inr r
      \<and> sp_key r \<in> set (sp_space_keys (snd x) g) - set (ss_seen s)"
    by (rule sp_choice(1) [OF i g p])
  show "set (sp_space_keys (snd x) g) \<subseteq> set (ss_seen s) \<Longrightarrow>
      sp_propose (fst x) (snd x) s g = Inl RuntimeError"
    by (rule sp_choice(2) [OF i g p])
  show "sp_propose (fst x) (snd x) s g = Inr r \<Longrightarrow> evidence_ok e \<Longrightarrow>
      \<exists>s'. sp_next (snd x) s r e = Inr s'"
    by (rule sp_choice(3) [OF i g p])
qed

section \<open>Properties\<close>

lemma sp_initial:
  assumes "sp_ok x"
  shows "\<exists>s. sp_initial_state x = Inr s \<and> sp_inv x s \<and> ss_seen s = []"
proof -
  obtain v where "cm_digest (sx_memory x) = Inr (digest_payload v)"
    using cm_digest_ok assms by (auto simp: sp_ok_def)
  then show ?thesis
    using assms
    by (simp add: sp_initial_state_def sp_inv_def sp_validate_state_Inr sp_state_validate_def
        search_state_validate_Inr search_state_ok_def) (simp add: sp_ok_def)
qed

lemma card_site_bound: "card (set (sp_space_keys x g)) \<le> length (sp_sites x)"
proof -
  have "length (List.map_filter f xs) \<le> length xs" for f and xs :: "'a list"
    by (induction xs) (auto simp: List.map_filter_simps split: option.splits)
  then have "length (sp_space_keys x g) \<le> length (sp_sites x)"
    by (simp add: sp_space_keys_def sp_space_def)
  then show ?thesis using card_length le_trans by blast
qed

text \<open>
  The splice search evaluates its whole space and stops.  From the initial state, with any
  generator and any valid evidence, the propose--evaluate--record loop never fails, records every
  splice site whose result has an allowed length exactly once, needs no more rounds than there are
  sites, and ends with the \<open>RuntimeError\<close> of an exhausted neighbourhood.
\<close>

lemma splice_search_exhausts:
  assumes "sp_ok x" and "scope_ok g" and "\<And>n. 0 < n \<Longrightarrow> pick n < n"
    and "\<And>r. evidence_ok (evaluate r)"
  shows "\<exists>s s'. sp_initial_state x = Inr s
    \<and> search_loop (\<lambda>s. sp_propose pick x s g) (\<lambda>s r. sp_next x s r (evaluate r))
        (length (sp_sites x)) s = Inr s'
    \<and> distinct (ss_seen s') \<and> set (ss_seen s') = set (sp_space_keys x g)
    \<and> sp_propose pick x s' g = Inl RuntimeError"
proof -
  obtain s where s: "sp_initial_state x = Inr s" "sp_inv x s" "ss_seen s = []"
    using sp_initial [OF assms(1)] by blast
  obtain s' where "search_loop (\<lambda>s. sp_propose pick x s g) (\<lambda>s r. sp_next x s r (evaluate r))
        (length (sp_sites x)) s = Inr s'"
      "\<exists>ks. ss_seen s' = ss_seen s @ ks \<and> distinct ks \<and> set ks = set (sp_space_keys x g) - set (ss_seen s)"
      "sp_propose pick x s' g = Inl RuntimeError"
    using splicing.loop_exhausts [of "(pick, x)" s g evaluate "length (sp_sites x)"]
      s assms card_site_bound [of x g] by auto
  then show ?thesis using s by auto
qed

definition small_splices :: sp_search where
  "small_splices = \<lparr>sx_memory = one_file, sx_min_length = 2, sx_max_length = 16\<rparr>"

lemma small_splices_ok: "sp_ok small_splices"
  using one_file_ok by (simp add: sp_ok_def small_splices_def cm_file_count_def one_file_def)

end
