(* ===== verification/OperatorStats.thy ===== *)
theory OperatorStats
  imports PyFloat
begin

text \<open>
  The per-operator statistics of the outcome-only searches: tensors with one entry per edit operator,
  checked finite and non-negative, to which a recorded outcome adds at one index.
\<close>

text \<open>\<open>int(values.sum().item())\<close> of finite non-negative values.\<close>

definition stat_sum :: "pyfloat list \<Rightarrow> int" where
  "stat_sum xs = \<lfloor>sum_list (map fin_val xs)\<rfloor>"

text \<open>The shape and range check of one tensor with \<open>n\<close> entries.\<close>

definition stat_validate :: "nat \<Rightarrow> pyfloat list \<Rightarrow> unit result" where
  "stat_validate n xs =
     (if length xs \<noteq> n then Inl ValueError
      else if (\<exists>x\<in>set xs. \<not> isfinite x) \<or> (\<exists>x\<in>set xs. x < Fin 0) then Inl ValueError
      else Inr ())"

text \<open>\<open>xs[i] += v\<close>.\<close>

definition bump :: "pyfloat list \<Rightarrow> int \<Rightarrow> pyfloat \<Rightarrow> pyfloat list" where
  "bump xs i v = xs[nat i := Fin (fin_val (xs ! nat i) + fin_val v)]"

definition stat_ok :: "nat \<Rightarrow> pyfloat list \<Rightarrow> bool" where
  "stat_ok n xs \<longleftrightarrow> length xs = n \<and> (\<forall>x\<in>set xs. \<exists>a. x = Fin a \<and> 0 \<le> a)"

lemma stat_validate_Inr: "stat_validate n xs = Inr () \<longleftrightarrow> stat_ok n xs"
proof -
  have "(\<exists>a. x = Fin a \<and> 0 \<le> a) \<longleftrightarrow> isfinite x \<and> \<not> x < Fin 0" for x by (cases x) auto
  then show ?thesis by (auto simp: stat_validate_def stat_ok_def)
qed

lemma stat_ok_nth: "stat_ok n xs \<Longrightarrow> k < n \<Longrightarrow> \<exists>a. xs ! k = Fin a \<and> 0 \<le> a"
  by (auto simp: stat_ok_def)

lemma stat_ok_zeros [simp]: "stat_ok n (replicate n (Fin 0))"
  by (auto simp: stat_ok_def)

lemma stat_sum_zeros [simp]: "stat_sum (replicate n (Fin 0)) = 0"
  by (simp add: stat_sum_def sum_list_replicate)

lemma bump_nth:
  assumes "stat_ok n xs" and "in_range i n" and "k < n"
  shows "fin_val (bump xs i (Fin v) ! k) = fin_val (xs ! k) + (if k = nat i then v else 0)"
  using assms by (auto simp: bump_def stat_ok_def nth_list_update)

lemma bump_ok:
  assumes "stat_ok n xs" and "in_range i n" and "0 \<le> v"
  shows "stat_ok n (bump xs i (Fin v))"
proof -
  obtain a where "xs ! nat i = Fin a" "0 \<le> a" using stat_ok_nth [OF assms(1) in_range_nat [OF assms(2)]] by blast
  then show ?thesis
    using assms by (auto simp: bump_def stat_ok_def dest!: set_update_subset_insert [THEN subsetD])
qed

lemma sum_list_add_at:
  "k < length xs \<Longrightarrow> sum_list (xs[k := xs ! k + v]) = sum_list xs + v" for v :: rat
  by (induction xs arbitrary: k) (auto split: nat.splits)

lemma bump_sum:
  assumes "stat_ok n xs" and "in_range i n"
  shows "stat_sum (bump xs i (Fin 1)) = stat_sum xs + 1"
proof -
  have i: "nat i < length xs" using assms in_range_nat by (auto simp: stat_ok_def)
  have "map fin_val (bump xs i (Fin 1)) = (map fin_val xs)[nat i := map fin_val xs ! nat i + 1]"
    using i by (simp add: bump_def map_update)
  then have "sum_list (map fin_val (bump xs i (Fin 1))) = sum_list (map fin_val xs) + 1"
    using sum_list_add_at [of "nat i" "map fin_val xs" 1] i by simp
  then show ?thesis by (simp add: stat_sum_def)
qed

section \<open>The tensor library\<close>

text \<open>
  The parts of torch the searches call, as a parameter: \<open>log\<close>, \<open>sqrt\<close>, \<open>softmax\<close>, \<open>multinomial\<close>
  (one draw) and \<open>randint\<close>, on exact values.
\<close>

record torch_lib =
  tl_log :: "rat \<Rightarrow> rat"
  tl_sqrt :: "rat \<Rightarrow> rat"
  tl_softmax :: "rat list \<Rightarrow> rat list"
  tl_multinomial :: "rat list \<Rightarrow> nat"
  tl_randint :: "nat \<Rightarrow> nat"

text \<open>What the code relies on of torch: documented behaviour, in exact arithmetic.\<close>

definition torch_ok :: "torch_lib \<Rightarrow> bool" where
  "torch_ok torch \<longleftrightarrow> (\<forall>xs. length (tl_softmax torch xs) = length xs
        \<and> (\<forall>p\<in>set (tl_softmax torch xs). 0 < p \<and> p \<le> 1))
     \<and> (\<forall>ps. ps \<noteq> [] \<longrightarrow> tl_multinomial torch ps < length ps)
     \<and> (\<forall>n>0. tl_randint torch n < n)"

definition uniform_torch :: torch_lib where
  "uniform_torch = \<lparr>tl_log = (\<lambda>x. x - 1), tl_sqrt = id,
     tl_softmax = (\<lambda>xs. replicate (length xs) (1 / of_nat (length xs))),
     tl_multinomial = (\<lambda>ps. 0), tl_randint = (\<lambda>n. n - 1)\<rparr>"

lemma uniform_torch_ok: "torch_ok uniform_torch"
  by (auto simp: torch_ok_def uniform_torch_def divide_le_eq Suc_le_eq)

end
