(* ===== verification/ControlFlowSearch.thy ===== *)
theory ControlFlowSearch
  imports ControlFlowMemory SearchLedger OperatorStats
begin

text \<open>
  \<open>control_flow_search.py\<close>: the instruction bank and the enumeration of all programs of bounded
  length, the one-edit neighbourhood of a program, and the outcome-only credit search over it.

  The parts of torch the search calls are a parameter of type \<open>torch_lib\<close>: \<open>log\<close>, \<open>sqrt\<close>,
  \<open>softmax\<close>, \<open>multinomial\<close> (one draw) and \<open>randint\<close>.  \<open>torch_ok\<close> states what the code relies on:
  softmax keeps the length and returns positive probabilities, a draw is a valid index.
\<close>

section \<open>The instruction bank and the enumeration\<close>

definition mk_instruction :: "cf_op \<Rightarrow> int option \<Rightarrow> int option \<Rightarrow> cf_instruction" where
  "mk_instruction x c t = \<lparr>ci_op = x, ci_counter = c, ci_target = t\<rparr>"

definition bank_list :: "int \<Rightarrow> int \<Rightarrow> cf_instruction list" where
  "bank_list counter_count program_length =
     concat (map (\<lambda>counter. [mk_instruction Inc (Some counter) None,
                             mk_instruction Dec (Some counter) None]) (upto_int counter_count))
     @ concat (map (\<lambda>target. mk_instruction Jump None (Some target)
         # concat (map (\<lambda>counter. [mk_instruction JumpIfZero (Some counter) (Some target),
                                   mk_instruction JumpIfNonzero (Some counter) (Some target)])
             (upto_int counter_count))) (upto_int program_length))"

definition control_flow_instruction_bank :: "int \<Rightarrow> int \<Rightarrow> cf_instruction list result" where
  "control_flow_instruction_bank counter_count program_length =
     (if counter_count < 2 \<or> program_length < 1 then Inl ValueError
      else Inr (bank_list counter_count program_length))"

text \<open>The generator \<open>iter_control_flow_programs\<close>, as the list of what it yields.\<close>

definition iter_control_flow_programs :: "int \<Rightarrow> int \<Rightarrow> int \<Rightarrow> cf_program list result" where
  "iter_control_flow_programs counter_count min_length max_length =
     (if counter_count < 2 \<or> min_length < 1 \<or> max_length < min_length then Inl ValueError
      else bind_r (map_r (\<lambda>length.
             bind_r (control_flow_instruction_bank counter_count length) (\<lambda>atoms.
               map_r (\<lambda>prefix. cp_validate (mk_program counter_count (prefix @ [halt_instruction])))
                 (product_repeat atoms (nat (length - 1)))))
             [min_length..max_length])
           (\<lambda>pss. Inr (concat pss)))"

section \<open>Search states and proposals\<close>

definition CONTROL_FLOW_SEARCH_SCHEMA :: string where
  "CONTROL_FLOW_SEARCH_SCHEMA = ''neural-computer.external-control-flow-search.v1''"

definition CONTROL_FLOW_PROPOSAL_SCHEMA :: string where
  "CONTROL_FLOW_PROPOSAL_SCHEMA = ''neural-computer.external-control-flow-proposal.v1''"

definition CONTROL_FLOW_MUTATION_OPERATORS :: "string list" where
  "CONTROL_FLOW_MUTATION_OPERATORS = [''replace_instruction'', ''swap_instructions'']"

definition cs_scoped_digest :: "string \<Rightarrow> string \<Rightarrow> string" where
  "cs_scoped_digest scope digest = sha256_hex (scope @ '':'' @ digest)"

record cfs_state =
  fs_totals :: "pyfloat list"
  fs_counts :: "pyfloat list"
  fs_accepts :: "pyfloat list"
  fs_fails :: "pyfloat list"
  fs_seen :: "string list"
  fs_proposals :: int
  fs_accepted :: int
  fs_best_quality :: pyfloat
  fs_schema :: string

definition cfs_validate :: "cfs_state \<Rightarrow> cfs_state result" where
  "cfs_validate s =
     (if fs_schema s \<noteq> CONTROL_FLOW_SEARCH_SCHEMA then Inl ValueError
      else bind_r (all_r (stat_validate (length CONTROL_FLOW_MUTATION_OPERATORS))
          [fs_totals s, fs_counts s, fs_accepts s, fs_fails s]) (\<lambda>_.
        if fs_proposals s < 0 \<or> fs_accepted s < 0 \<or> fs_accepted s > fs_proposals s
        then Inl ValueError
        else if stat_sum (fs_counts s) \<noteq> fs_proposals s then Inl ValueError
        else if stat_sum (fs_accepts s) \<noteq> fs_accepted s then Inl ValueError
        else if stat_sum (fs_fails s) \<noteq> fs_proposals s - fs_accepted s then Inl ValueError
        else if int (length (fs_seen s)) \<noteq> fs_proposals s then Inl ValueError
        else if card (set (fs_seen s)) \<noteq> length (fs_seen s) then Inl ValueError
        else if \<not> isfinite (fs_best_quality s)
          \<or> \<not> (Fin 0 \<le> fs_best_quality s \<and> fs_best_quality s \<le> Fin 1) then Inl ValueError
        else Inr s))"

definition cfs_initial_state :: "cfs_state result" where
  "cfs_initial_state =
     (let zeros = replicate (length CONTROL_FLOW_MUTATION_OPERATORS) (Fin 0)
      in cfs_validate \<lparr>fs_totals = zeros, fs_counts = zeros, fs_accepts = zeros, fs_fails = zeros,
           fs_seen = [], fs_proposals = 0, fs_accepted = 0, fs_best_quality = Fin 0,
           fs_schema = CONTROL_FLOW_SEARCH_SCHEMA\<rparr>)"

record cf_proposal =
  fp_program :: cf_program
  fp_parent_digest :: string
  fp_operator :: string
  fp_operator_index :: int
  fp_attempt :: int
  fp_probability :: pyfloat
  fp_scope :: string
  fp_schema :: string

definition cf_proposal_validate :: "cf_proposal \<Rightarrow> cf_proposal result" where
  "cf_proposal_validate r =
     bind_r (cp_validate (fp_program r)) (\<lambda>_.
       if fp_schema r \<noteq> CONTROL_FLOW_PROPOSAL_SCHEMA then Inl ValueError
       else if length (fp_parent_digest r) \<noteq> 64 \<or> length (fp_scope r) < 1 then Inl ValueError
       else if int16_of_text (fp_parent_digest r) = None then Inl ValueError
       else if fp_operator r \<notin> set CONTROL_FLOW_MUTATION_OPERATORS then Inl ValueError
       else if \<not> in_range (fp_operator_index r) (length CONTROL_FLOW_MUTATION_OPERATORS)
       then Inl ValueError
       else if CONTROL_FLOW_MUTATION_OPERATORS ! nat (fp_operator_index r) \<noteq> fp_operator r
       then Inl ValueError
       else if fp_attempt r < 0 \<or> \<not> (Fin 0 < fp_probability r \<and> fp_probability r \<le> Fin 1)
       then Inl ValueError
       else bind_r (cp_digest (fp_program r)) (\<lambda>d.
         if d = fp_parent_digest r then Inl ValueError else Inr r))"

record cf_feedback =
  fb_proposal :: cf_proposal
  fb_quality :: pyfloat
  fb_accepted :: bool
  fb_stable :: "int option"
  fb_state :: cfs_state

section \<open>The neighbourhood\<close>

text \<open>
  \<open>add\<close> on the edited instruction lists in order: \<open>seen\<close> holds the digests added so far, a
  \<open>ValueError\<close> of the validation drops the edit.
\<close>

fun add_neighbors :: "int \<Rightarrow> string \<Rightarrow> string list \<Rightarrow> (string \<times> cf_instruction list) list
    \<Rightarrow> (string \<times> cf_program) list result" where
  "add_neighbors counter_count parent_digest seen [] = Inr []"
| "add_neighbors counter_count parent_digest seen ((operator, is) # edits) =
     (case cp_validate (mk_program counter_count is) of
        Inl e \<Rightarrow> if e = ValueError then add_neighbors counter_count parent_digest seen edits else Inl e
      | Inr p \<Rightarrow>
          bind_r (cp_digest p) (\<lambda>digest.
            if digest = parent_digest \<or> digest \<in> set seen
            then add_neighbors counter_count parent_digest seen edits
            else bind_r (add_neighbors counter_count parent_digest (seen @ [digest]) edits)
                   (\<lambda>ns. Inr ((operator, p) # ns))))"

definition replacements :: "cf_instruction list \<Rightarrow> cf_instruction list \<Rightarrow> cf_instruction list list" where
  "replacements atoms is =
     concat (map (\<lambda>index. map (\<lambda>i. is[index := i]) atoms) [0..<length is - 1])"

definition swaps :: "cf_instruction list \<Rightarrow> cf_instruction list list" where
  "swaps is =
     concat (map (\<lambda>first. map (\<lambda>second. is[first := is ! second, second := is ! first])
       [first + 1..<length is - 1]) [0..<length is - 1])"

definition neighbors :: "cf_program \<Rightarrow> (string \<times> cf_program) list result" where
  "neighbors parent =
     bind_r (cp_validate parent) (\<lambda>_.
     bind_r (control_flow_instruction_bank (cp_counter_count parent) (cp_length parent)) (\<lambda>atoms.
     bind_r (cp_digest parent) (\<lambda>parent_digest.
       add_neighbors (cp_counter_count parent) parent_digest []
         (map (\<lambda>is. (''replace_instruction'', is)) (replacements atoms (cp_instructions parent))
          @ map (\<lambda>is. (''swap_instructions'', is)) (swaps (cp_instructions parent))))))"

section \<open>Proposing and recording\<close>

record cf_search =
  os_exploration :: rat
  os_temperature :: rat

definition cf_search_init :: "pyfloat \<Rightarrow> pyfloat \<Rightarrow> cf_search result" where
  "cf_search_init exploration temperature =
     (if \<not> isfinite exploration \<or> exploration < Fin 0 then Inl ValueError
      else if \<not> isfinite temperature \<or> temperature \<le> Fin 0 then Inl ValueError
      else Inr \<lparr>os_exploration = fin_val exploration, os_temperature = fin_val temperature\<rparr>)"

definition operator_probabilities :: "torch_lib \<Rightarrow> cf_search \<Rightarrow> cfs_state \<Rightarrow> rat list result" where
  "operator_probabilities torch x s =
     bind_r (cfs_validate s) (\<lambda>_.
       let total = of_int (fs_proposals s + 1);
           scores = map2 (\<lambda>t c.
             let reward_total = fin_val t; count = fin_val c;
                 mean = (if count > 0 then reward_total / max count 1 else 0);
                 bonus = os_exploration x * tl_sqrt torch (tl_log torch total / (count + 1))
             in (mean + bonus) / os_temperature x) (fs_totals s) (fs_counts s)
       in Inr (tl_softmax torch scores))"

fun index_of :: "'a \<Rightarrow> 'a list \<Rightarrow> nat result" where
  "index_of x [] = Inl ValueError"
| "index_of x (y # ys) = (if x = y then Inr 0 else bind_r (index_of x ys) (\<lambda>k. Inr (Suc k)))"

fun unseen_neighbors :: "string \<Rightarrow> string list \<Rightarrow> (string \<times> cf_program) list
    \<Rightarrow> (string \<times> cf_program) list result" where
  "unseen_neighbors scope seen [] = Inr []"
| "unseen_neighbors scope seen ((operator, p) # ns) =
     bind_r (cp_digest p) (\<lambda>d.
     bind_r (unseen_neighbors scope seen ns) (\<lambda>rest.
       Inr (if cs_scoped_digest scope d \<notin> set seen then (operator, p) # rest else rest)))"

definition cfs_propose :: "torch_lib \<Rightarrow> cf_search \<Rightarrow> cfs_state \<Rightarrow> cf_program \<Rightarrow> string \<Rightarrow> cf_proposal result" where
  "cfs_propose torch x s parent scope =
     bind_r (cfs_validate s) (\<lambda>_.
     bind_r (cp_validate parent) (\<lambda>_.
       if scope = [] then Inl ValueError
       else bind_r (neighbors parent) (\<lambda>ns.
         if ns = [] then Inl RuntimeError
         else bind_r (unseen_neighbors scope (fs_seen s) ns) (\<lambda>unseen.
           if unseen = [] then Inl RuntimeError
           else bind_r (operator_probabilities torch x s) (\<lambda>probabilities.
             let drawn = tl_multinomial torch probabilities;
                 same = filter (\<lambda>c. fst c = CONTROL_FLOW_MUTATION_OPERATORS ! drawn) unseen;
                 candidates = (if same = [] then unseen else same)
             in bind_r (if same = [] then index_of (fst (hd unseen)) CONTROL_FLOW_MUTATION_OPERATORS
                        else Inr drawn) (\<lambda>selected_operator.
                let selected = candidates ! tl_randint torch (length candidates)
                in bind_r (cp_digest parent) (\<lambda>parent_digest.
                     cf_proposal_validate
                       \<lparr>fp_program = snd selected, fp_parent_digest = parent_digest,
                        fp_operator = fst selected, fp_operator_index = int selected_operator,
                        fp_attempt = fs_proposals s,
                        fp_probability = Fin (probabilities ! selected_operator),
                        fp_scope = scope, fp_schema = CONTROL_FLOW_PROPOSAL_SCHEMA\<rparr>)))))))"

fun cfs_record_outcomes :: "cfs_state \<Rightarrow> cf_proposal \<Rightarrow> pyfloat list \<times> pyfloat \<times> int \<times> int
    \<Rightarrow> cf_feedback result" where
  "cfs_record_outcomes s r (values, threshold, min_observations, min_stable) =
     bind_r (cfs_validate s) (\<lambda>_.
     bind_r (cf_proposal_validate r) (\<lambda>_.
       if fp_attempt r \<noteq> fs_proposals s then Inl ValueError
       else bind_r (cp_digest (fp_program r)) (\<lambda>d.
         let key = cs_scoped_digest (fp_scope r) d
         in if key \<in> set (fs_seen s) then Inl ValueError
         else if values = [] \<or> (\<exists>v\<in>set values. \<not> isfinite v \<or> \<not> (Fin 0 \<le> v \<and> v \<le> Fin 1))
         then Inl ValueError
         else if \<not> (Fin 0 < threshold \<and> threshold \<le> Fin 1) \<or> min_observations < 1 \<or> min_stable < 1
         then Inl ValueError
         else
           let stable = stable_from (fin_val threshold) min_stable 0 (map fin_val values);
               accepted = (int (length values) \<ge> min_observations \<and> stable \<noteq> None);
               quality = quality_of values;
               index = fp_operator_index r
           in bind_r (cfs_validate
                \<lparr>fs_totals = bump (fs_totals s) index quality,
                 fs_counts = bump (fs_counts s) index (Fin 1),
                 fs_accepts = (if accepted then bump (fs_accepts s) index (Fin 1) else fs_accepts s),
                 fs_fails = (if accepted then fs_fails s else bump (fs_fails s) index (Fin 1)),
                 fs_seen = fs_seen s @ [key],
                 fs_proposals = fs_proposals s + 1,
                 fs_accepted = fs_accepted s + (if accepted then 1 else 0),
                 fs_best_quality = py_max (fs_best_quality s) quality,
                 fs_schema = CONTROL_FLOW_SEARCH_SCHEMA\<rparr>)
              (\<lambda>next_state. Inr \<lparr>fb_proposal = r, fb_quality = quality, fb_accepted = accepted,
                 fb_stable = stable, fb_state = next_state\<rparr>))))"

section \<open>The bank and the enumeration, characterised\<close>

lemma mk_instruction_sel [simp]:
  "ci_op (mk_instruction x c t) = x" "ci_counter (mk_instruction x c t) = c"
  "ci_target (mk_instruction x c t) = t"
  by (simp_all add: mk_instruction_def)

lemma mk_instruction_inject [simp]:
  "mk_instruction x c t = mk_instruction x' c' t' \<longleftrightarrow> x = x' \<and> c = c' \<and> t = t'"
  by (auto simp: mk_instruction_def)

lemma instruction_eq: "i = mk_instruction (ci_op i) (ci_counter i) (ci_target i)"
  by (cases i) (simp add: mk_instruction_def)

lemma set_bank:
  "set (bank_list n l) = {mk_instruction x (Some c) None |x c. x \<in> {Inc, Dec} \<and> 0 \<le> c \<and> c < n}
     \<union> {mk_instruction Jump None (Some t) |t. 0 \<le> t \<and> t < l}
     \<union> {mk_instruction x (Some c) (Some t) |x c t. x \<in> {JumpIfZero, JumpIfNonzero}
          \<and> 0 \<le> c \<and> c < n \<and> 0 \<le> t \<and> t < l}"
  by (auto simp: bank_list_def)

lemma bank_iff:
  assumes "2 \<le> n" and "1 \<le> l"
  shows "i \<in> set (bank_list n l) \<longleftrightarrow> valid_instruction n l i \<and> ci_op i \<noteq> Halt"
proof
  assume "i \<in> set (bank_list n l)"
  then show "valid_instruction n l i \<and> ci_op i \<noteq> Halt"
    using assms by (auto simp: set_bank valid_instruction_iff is_jump_def uses_counter_def)
next
  assume v: "valid_instruction n l i \<and> ci_op i \<noteq> Halt"
  obtain x c t where i: "i = mk_instruction x c t" using instruction_eq by blast
  show "i \<in> set (bank_list n l)"
    using v by (cases x)
      (auto simp: i set_bank valid_instruction_iff is_jump_def uses_counter_def opt_within_iff)
qed

lemma distinct_bank: "distinct (bank_list n l)"
proof -
  have 1: "distinct (concat (map (\<lambda>c. [mk_instruction Inc (Some c) None, mk_instruction Dec (Some c) None])
      (upto_int n)))"
    by (rule concat_distinctI) auto
  have 2: "distinct (concat (map (\<lambda>c. [mk_instruction JumpIfZero (Some c) (Some t),
      mk_instruction JumpIfNonzero (Some c) (Some t)]) (upto_int n)))" for t
    by (rule concat_distinctI) auto
  have 3: "distinct (concat (map (\<lambda>t. mk_instruction Jump None (Some t)
      # concat (map (\<lambda>c. [mk_instruction JumpIfZero (Some c) (Some t),
          mk_instruction JumpIfNonzero (Some c) (Some t)]) (upto_int n))) (upto_int l)))"
    by (rule concat_distinctI) (use 2 in auto)
  show ?thesis unfolding bank_list_def using 1 3 by auto
qed

lemma length_bank:
  assumes "0 \<le> n" and "0 \<le> l"
  shows "int (length (bank_list n l)) = 2 * n + l * (2 * n + 1)"
proof -
  have "length (bank_list n l) = nat n * 2 + nat l * Suc (nat n * 2)"
    by (simp add: bank_list_def length_concat comp_def sum_list_triv)
  then show ?thesis using assms by (simp add: algebra_simps)
qed

definition enumerated :: "int \<Rightarrow> int \<Rightarrow> cf_program list" where
  "enumerated n l = map (\<lambda>prefix. mk_program n (prefix @ [halt_instruction]))
     (product_repeat (bank_list n l) (nat (l - 1)))"

lemma prefix_valid:
  assumes "2 \<le> n" and "1 \<le> l" and "length prefix = nat (l - 1)" and "set prefix \<subseteq> set (bank_list n l)"
  shows "valid_program (mk_program n (prefix @ [halt_instruction]))"
proof -
  have "int (length (prefix @ [halt_instruction])) = l" using assms(2,3) by simp
  moreover have "valid_instruction n l i" if "i \<in> set prefix" for i
    using assms(4) that bank_iff [OF assms(1,2)] by blast
  ultimately show ?thesis
    using assms(1,2) valid_halt [of n l] by (auto simp: valid_mk_program halt_instruction_def)
qed

lemma iter_Inr:
  assumes "2 \<le> n" and "1 \<le> lo" and "lo \<le> hi"
  shows "iter_control_flow_programs n lo hi = Inr (concat (map (enumerated n) [lo..hi]))"
proof -
  have "map_r (\<lambda>prefix. cp_validate (mk_program n (prefix @ [halt_instruction])))
      (product_repeat (bank_list n l) (nat (l - 1))) = Inr (enumerated n l)" if "1 \<le> l" for l
    unfolding enumerated_def
    by (rule map_r_total)
       (use prefix_valid [OF assms(1) that] in \<open>auto simp: set_product_repeat cp_validate_cases\<close>)
  then have "map_r (\<lambda>length. bind_r (control_flow_instruction_bank n length) (\<lambda>atoms.
        map_r (\<lambda>prefix. cp_validate (mk_program n (prefix @ [halt_instruction])))
          (product_repeat atoms (nat (length - 1))))) [lo..hi] = Inr (map (enumerated n) [lo..hi])"
    using assms by (intro map_r_total) (simp add: control_flow_instruction_bank_def)
  then show ?thesis using assms by (simp add: iter_control_flow_programs_def)
qed

lemma enumerated_iff:
  assumes "2 \<le> n" and "1 \<le> l"
  shows "q \<in> set (enumerated n l) \<longleftrightarrow>
    valid_program q \<and> cp_counter_count q = n \<and> cp_length q = l \<and> \<not> has_internal_halt q"
proof
  assume "q \<in> set (enumerated n l)"
  then obtain prefix where p: "length prefix = nat (l - 1)" "set prefix \<subseteq> set (bank_list n l)"
      "q = mk_program n (prefix @ [halt_instruction])"
    by (auto simp: enumerated_def set_product_repeat)
  have "ci_op i \<noteq> Halt" if "i \<in> set prefix" for i
    using p(2) that bank_iff [OF assms] by blast
  then show "valid_program q \<and> cp_counter_count q = n \<and> cp_length q = l \<and> \<not> has_internal_halt q"
    using prefix_valid [OF assms p(1,2)] p(1,3) assms(2)
    by (auto simp: mk_program_def cp_length_def has_internal_halt_def)
next
  assume q: "valid_program q \<and> cp_counter_count q = n \<and> cp_length q = l \<and> \<not> has_internal_halt q"
  let ?prefix = "butlast (cp_instructions q)"
  have ne: "cp_instructions q \<noteq> []" and last: "ci_op (last (cp_instructions q)) = Halt"
    using q by (auto simp: valid_program_iff)
  have "last (cp_instructions q) = halt_instruction"
  proof -
    have "valid_instruction n l (last (cp_instructions q))"
      using q last_in_set [OF ne] by (auto simp: valid_program_iff)
    then show ?thesis
      using last by (subst instruction_eq)
        (auto simp: valid_instruction_iff is_jump_def uses_counter_def halt_instruction_def
          mk_instruction_def)
  qed
  then have "q = mk_program n (?prefix @ [halt_instruction])"
    using q valid_program_eq_mk [of q] ne by (metis append_butlast_last_id)
  moreover have "length ?prefix = nat (l - 1)" using q by (auto simp: cp_length_def)
  moreover have "set ?prefix \<subseteq> set (bank_list n l)"
  proof
    fix i assume i: "i \<in> set ?prefix"
    then have "valid_instruction n l i" "ci_op i \<noteq> Halt"
      using q in_set_butlastD [OF i] by (auto simp: valid_program_iff has_internal_halt_def)
    then show "i \<in> set (bank_list n l)" using bank_iff [OF assms] by blast
  qed
  ultimately show "q \<in> set (enumerated n l)" by (auto simp: enumerated_def set_product_repeat)
qed

lemma distinct_enumerated: "distinct (enumerated n l)"
  unfolding enumerated_def
  by (auto simp: distinct_map distinct_product_repeat distinct_bank inj_on_def mk_program_def)

lemma length_enumerated:
  assumes "0 \<le> n" and "0 \<le> l"
  shows "int (length (enumerated n l)) = (2 * n + l * (2 * n + 1)) ^ nat (l - 1)"
  using length_bank [OF assms] by (simp add: enumerated_def length_product_repeat)

section \<open>The neighbourhood, characterised\<close>

definition digest_of :: "cf_program \<Rightarrow> string" where
  "digest_of p = (case cp_digest p of Inl e \<Rightarrow> [] | Inr d \<Rightarrow> d)"

lemma digest_of_valid: "valid_program p \<Longrightarrow> cp_digest p = Inr (digest_of p)"
  using cp_digest_valid [of p] by (auto simp: digest_of_def)

lemma digest_of_ok: "valid_program p \<Longrightarrow> digest_ok (digest_of p)"
  using digest_of_valid cp_digest_ok by blast

definition sound_neighbors :: "int \<Rightarrow> string set \<Rightarrow> (string \<times> cf_instruction list) list
    \<Rightarrow> (string \<times> cf_program) list \<Rightarrow> bool" where
  "sound_neighbors n D edits ns \<longleftrightarrow> distinct (map (digest_of \<circ> snd) ns)
     \<and> (\<forall>x p. (x, p) \<in> set ns \<longrightarrow> (\<exists>is. (x, is) \<in> set edits \<and> p = mk_program n is)
          \<and> valid_program p \<and> digest_of p \<notin> D)"

definition complete_neighbors :: "int \<Rightarrow> string set \<Rightarrow> (string \<times> cf_instruction list) list
    \<Rightarrow> (string \<times> cf_program) list \<Rightarrow> bool" where
  "complete_neighbors n D edits ns \<longleftrightarrow>
     (\<forall>x is. (x, is) \<in> set edits \<and> valid_program (mk_program n is) \<longrightarrow>
        digest_of (mk_program n is) \<in> D \<union> digest_of ` snd ` set ns)"

lemma sound_neighborsD:
  "sound_neighbors n D edits ns \<Longrightarrow> (x, p) \<in> set ns \<Longrightarrow>
     \<exists>is. (x, is) \<in> set edits \<and> p = mk_program n is \<and> valid_program p \<and> digest_of p \<notin> D"
  unfolding sound_neighbors_def by blast

lemma complete_neighborsD:
  "complete_neighbors n D edits ns \<Longrightarrow> (x, is) \<in> set edits \<Longrightarrow> valid_program (mk_program n is) \<Longrightarrow>
     digest_of (mk_program n is) \<in> D \<union> digest_of ` snd ` set ns"
  unfolding complete_neighbors_def by blast

lemma add_neighbors_spec:
  "\<exists>ns. add_neighbors n pd seen edits = Inr ns
    \<and> sound_neighbors n (insert pd (set seen)) edits ns
    \<and> complete_neighbors n (insert pd (set seen)) edits ns"
proof (induction edits arbitrary: seen)
  case Nil
  then show ?case by (simp add: sound_neighbors_def complete_neighbors_def)
next
  case (Cons edit edits)
  obtain x "is" where edit: "edit = (x, is)" by (cases edit)
  let ?p = "mk_program n is" and ?d = "digest_of (mk_program n is)"
  show ?case
  proof (cases "valid_program ?p \<and> ?d \<noteq> pd \<and> ?d \<notin> set seen")
    case True
    then have v: "cp_validate ?p = Inr ?p" "cp_digest ?p = Inr ?d"
      by (auto simp: cp_validate_cases digest_of_valid)
    obtain ns where ns: "add_neighbors n pd (seen @ [?d]) edits = Inr ns"
        "sound_neighbors n (insert ?d (insert pd (set seen))) edits ns"
        "complete_neighbors n (insert ?d (insert pd (set seen))) edits ns"
      using Cons.IH [of "seen @ [?d]"] by (auto simp: insert_commute)
    have run: "add_neighbors n pd seen (edit # edits) = Inr ((x, ?p) # ns)"
      using v ns(1) True by (simp add: edit)
    have "?d \<notin> set (map (digest_of \<circ> snd) ns)"
      using sound_neighborsD [OF ns(2)] by fastforce
    then have "sound_neighbors n (insert pd (set seen)) (edit # edits) ((x, ?p) # ns)"
      using ns(2) True unfolding sound_neighbors_def edit by (simp, blast)
    moreover have "complete_neighbors n (insert pd (set seen)) (edit # edits) ((x, ?p) # ns)"
      using ns(3) unfolding complete_neighbors_def edit by auto
    ultimately show ?thesis using run by blast
  next
    case False
    then have run: "add_neighbors n pd seen (edit # edits) = add_neighbors n pd seen edits"
      by (auto simp: edit cp_validate_cases digest_of_valid)
    obtain ns where ns: "add_neighbors n pd seen edits = Inr ns"
        "sound_neighbors n (insert pd (set seen)) edits ns"
        "complete_neighbors n (insert pd (set seen)) edits ns"
      using Cons.IH [of seen] by blast
    have "sound_neighbors n (insert pd (set seen)) (edit # edits) ns"
      using ns(2) unfolding sound_neighbors_def by auto
    moreover have "complete_neighbors n (insert pd (set seen)) (edit # edits) ns"
      using ns(3) False unfolding complete_neighbors_def edit by auto
    ultimately show ?thesis using run ns(1) by auto
  qed
qed

text \<open>An edit of the neighbourhood: one replaced or two swapped non-terminal instructions.\<close>

definition one_edit :: "cf_program \<Rightarrow> cf_instruction list \<Rightarrow> bool" where
  "one_edit parent is \<longleftrightarrow>
     (\<exists>k i. int k < cp_length parent - 1
        \<and> valid_instruction (cp_counter_count parent) (cp_length parent) i \<and> ci_op i \<noteq> Halt
        \<and> is = (cp_instructions parent)[k := i])
     \<or> (\<exists>j k. j < k \<and> int k < cp_length parent - 1
        \<and> is = (cp_instructions parent)[j := cp_instructions parent ! k,
                                        k := cp_instructions parent ! j])"

lemma set_replacements:
  "js \<in> set (replacements atoms is) \<longleftrightarrow> (\<exists>k i. k < length is - 1 \<and> i \<in> set atoms \<and> js = is[k := i])"
  by (auto simp: replacements_def)

lemma set_swaps:
  "js \<in> set (swaps is) \<longleftrightarrow>
     (\<exists>j k. j < k \<and> k < length is - 1 \<and> js = is[j := is ! k, k := is ! j])"
proof -
  have "js \<in> set (swaps is) \<longleftrightarrow> (\<exists>j\<in>{0..<length is - 1}. \<exists>k\<in>{j + 1..<length is - 1}.
      js = is[j := is ! k, k := is ! j])"
    by (simp add: swaps_def image_iff)
  also have "\<dots> \<longleftrightarrow> (\<exists>j k. j < k \<and> k < length is - 1 \<and> js = is[j := is ! k, k := is ! j])"
  proof
    assume "\<exists>j k. j < k \<and> k < length is - 1 \<and> js = is[j := is ! k, k := is ! j]"
    then obtain j k where jk: "j < k" "k < length is - 1" "js = is[j := is ! k, k := is ! j]"
      by blast
    then have "j \<in> {0..<length is - 1}" "k \<in> {j + 1..<length is - 1}" by auto
    then show "\<exists>j\<in>{0..<length is - 1}. \<exists>k\<in>{j + 1..<length is - 1}.
        js = is[j := is ! k, k := is ! j]" using jk(3) by blast
  qed (force simp: Suc_le_eq)
  finally show ?thesis .
qed

lemma neighbors_spec:
  assumes v: "valid_program parent"
  shows "\<exists>ns. neighbors parent = Inr ns
    \<and> (\<forall>x p. (x, p) \<in> set ns \<longrightarrow> x \<in> set CONTROL_FLOW_MUTATION_OPERATORS \<and> valid_program p
        \<and> cp_counter_count p = cp_counter_count parent \<and> one_edit parent (cp_instructions p)
        \<and> digest_of p \<noteq> digest_of parent)
    \<and> distinct (map (digest_of \<circ> snd) ns)
    \<and> (\<forall>is. one_edit parent is \<and> valid_program (mk_program (cp_counter_count parent) is) \<longrightarrow>
        digest_of (mk_program (cp_counter_count parent) is)
          \<in> insert (digest_of parent) (digest_of ` snd ` set ns))"
proof -
  let ?n = "cp_counter_count parent" and ?is = "cp_instructions parent"
  let ?edits = "map (\<lambda>is. (''replace_instruction'', is)) (replacements (bank_list ?n (cp_length parent)) ?is)
    @ map (\<lambda>is. (''swap_instructions'', is)) (swaps ?is)"
  have n: "2 \<le> ?n" "1 \<le> cp_length parent"
    using v cp_length_pos [OF v] by (auto simp: valid_program_iff)
  obtain es where es: "es = ?edits" by blast
  have eq: "neighbors parent = add_neighbors ?n (digest_of parent) [] es"
    using v n by (simp add: es neighbors_def cp_validate_cases digest_of_valid
        control_flow_instruction_bank_def)
  have len: "k < length ?is - 1 \<longleftrightarrow> int k < cp_length parent - 1" for k
    by (auto simp: cp_length_def)
  have edits: "snd ` set es = {is. one_edit parent is}"
  proof (rule set_eqI)
    fix js
    have "js \<in> snd ` set es \<longleftrightarrow>
        js \<in> set (replacements (bank_list ?n (cp_length parent)) ?is) \<or> js \<in> set (swaps ?is)"
      by (simp add: es image_Un image_image)
    then show "js \<in> snd ` set es \<longleftrightarrow> js \<in> {is. one_edit parent is}"
      by (simp only: set_replacements set_swaps bank_iff [OF n] len one_edit_def mem_Collect_eq)
         blast
  qed
  have ops: "fst e \<in> set CONTROL_FLOW_MUTATION_OPERATORS" if "e \<in> set es" for e
    using that by (auto simp: es CONTROL_FLOW_MUTATION_OPERATORS_def)
  obtain ns where ns: "add_neighbors ?n (digest_of parent) [] es = Inr ns"
      "sound_neighbors ?n {digest_of parent} es ns"
      "complete_neighbors ?n {digest_of parent} es ns"
    using add_neighbors_spec [of ?n "digest_of parent" "[]" es] unfolding list.set(1) by blast
  have sound: "x \<in> set CONTROL_FLOW_MUTATION_OPERATORS \<and> valid_program p \<and> cp_counter_count p = ?n
      \<and> one_edit parent (cp_instructions p) \<and> digest_of p \<noteq> digest_of parent"
    if mem: "(x, p) \<in> set ns" for x p
  proof -
    obtain js where js: "(x, js) \<in> set es" "p = mk_program ?n js" "valid_program p"
        "digest_of p \<noteq> digest_of parent"
      using sound_neighborsD [OF ns(2) mem] unfolding singleton_iff by blast
    have "js \<in> snd ` set es" using js(1) by (metis image_eqI snd_conv)
    then have "one_edit parent js" using edits by blast
    moreover have "cp_counter_count p = ?n" "cp_instructions p = js"
      unfolding js(2) by (rule mk_program_sel)+
    moreover have "x \<in> set CONTROL_FLOW_MUTATION_OPERATORS" using ops [OF js(1)] by (simp only: fst_conv)
    ultimately show ?thesis using js(3,4) by blast
  qed
  have complete: "digest_of (mk_program ?n js) \<in> insert (digest_of parent) (digest_of ` snd ` set ns)"
    if "one_edit parent js" "valid_program (mk_program ?n js)" for js
  proof -
    have "js \<in> snd ` set es" using that(1) edits by blast
    then obtain e where "e \<in> set es" "js = snd e" by (rule imageE)
    then have "(fst e, js) \<in> set es" by (simp only: prod.collapse)
    then show ?thesis using complete_neighborsD [OF ns(3) _ that(2)] by blast
  qed
  have "distinct (map (digest_of \<circ> snd) ns)" using ns(2) by (simp add: sound_neighbors_def)
  then show ?thesis using sound complete unfolding eq ns(1) by blast
qed

section \<open>States\<close>

definition cfs_ok :: "cfs_state \<Rightarrow> bool" where
  "cfs_ok s \<longleftrightarrow> fs_schema s = CONTROL_FLOW_SEARCH_SCHEMA
     \<and> stat_ok 2 (fs_totals s) \<and> stat_ok 2 (fs_counts s) \<and> stat_ok 2 (fs_accepts s) \<and> stat_ok 2 (fs_fails s)
     \<and> 0 \<le> fs_accepted s \<and> fs_accepted s \<le> fs_proposals s
     \<and> stat_sum (fs_counts s) = fs_proposals s \<and> stat_sum (fs_accepts s) = fs_accepted s
     \<and> stat_sum (fs_fails s) = fs_proposals s - fs_accepted s
     \<and> int (length (fs_seen s)) = fs_proposals s \<and> distinct (fs_seen s)
     \<and> in_unit (fs_best_quality s)"

lemma length_operators: "length CONTROL_FLOW_MUTATION_OPERATORS = 2"
  by (simp add: CONTROL_FLOW_MUTATION_OPERATORS_def)

lemma cfs_validate_Inr: "cfs_validate s = Inr t \<longleftrightarrow> cfs_ok s \<and> t = s"
  unfolding cfs_validate_def cfs_ok_def in_unit_alt
  by (auto simp: bind_r_eq_Inr all_r_Inr_iff stat_validate_Inr length_operators not_less distinct_card card_distinct
      simp del: all_r.simps)

definition proposal_ok :: "cf_proposal \<Rightarrow> bool" where
  "proposal_ok r \<longleftrightarrow> valid_program (fp_program r) \<and> fp_schema r = CONTROL_FLOW_PROPOSAL_SCHEMA
     \<and> digest_ok (fp_parent_digest r) \<and> fp_scope r \<noteq> [] \<and> in_range (fp_operator_index r) 2
     \<and> CONTROL_FLOW_MUTATION_OPERATORS ! nat (fp_operator_index r) = fp_operator r
     \<and> 0 \<le> fp_attempt r \<and> Fin 0 < fp_probability r \<and> fp_probability r \<le> Fin 1
     \<and> digest_of (fp_program r) \<noteq> fp_parent_digest r"

lemma cf_proposal_validate_Inr: "cf_proposal_validate r = Inr t \<longleftrightarrow> proposal_ok r \<and> t = r"
proof -
  have mem: "in_range i (length xs) \<Longrightarrow> xs ! nat i = y \<Longrightarrow> y \<in> set xs" for i and xs :: "string list" and y
    by (auto simp: in_range_def)
  show ?thesis
  proof (cases "valid_program (fp_program r)")
    case True
    have "length (fp_scope r) < 1 \<longleftrightarrow> fp_scope r = []" by auto
    then show ?thesis
      using True mem [of "fp_operator_index r" CONTROL_FLOW_MUTATION_OPERATORS]
      unfolding cf_proposal_validate_def proposal_ok_def digest_ok_def length_operators [symmetric]
      by (auto simp: cp_validate_cases digest_of_valid)
  next
    case False
    then show ?thesis by (simp add: cf_proposal_validate_def proposal_ok_def cp_validate_cases)
  qed
qed

definition fp_key :: "cf_proposal \<Rightarrow> string" where
  "fp_key r = cs_scoped_digest (fp_scope r) (digest_of (fp_program r))"

fun search_evidence_ok :: "pyfloat list \<times> pyfloat \<times> int \<times> int \<Rightarrow> bool" where
  "search_evidence_ok (vs, threshold, mo, ms) \<longleftrightarrow> vs \<noteq> [] \<and> (\<forall>v\<in>set vs. in_unit v)
     \<and> in_unit_pos threshold \<and> 1 \<le> mo \<and> 1 \<le> ms"

definition recorded_state :: "cfs_state \<Rightarrow> cf_proposal \<Rightarrow> bool \<Rightarrow> pyfloat \<Rightarrow> cfs_state" where
  "recorded_state s r accepted quality =
     \<lparr>fs_totals = bump (fs_totals s) (fp_operator_index r) quality,
      fs_counts = bump (fs_counts s) (fp_operator_index r) (Fin 1),
      fs_accepts = (if accepted then bump (fs_accepts s) (fp_operator_index r) (Fin 1) else fs_accepts s),
      fs_fails = (if accepted then fs_fails s else bump (fs_fails s) (fp_operator_index r) (Fin 1)),
      fs_seen = fs_seen s @ [fp_key r],
      fs_proposals = fs_proposals s + 1,
      fs_accepted = fs_accepted s + (if accepted then 1 else 0),
      fs_best_quality = py_max (fs_best_quality s) quality,
      fs_schema = CONTROL_FLOW_SEARCH_SCHEMA\<rparr>"

lemma recorded_state_ok:
  assumes "cfs_ok s" and "proposal_ok r" and "fp_key r \<notin> set (fs_seen s)" and "in_unit quality"
  shows "cfs_ok (recorded_state s r accepted quality)"
proof -
  obtain q where q: "quality = Fin q" "0 \<le> q" using assms(4) by (auto simp: in_unit_iff)
  have i: "in_range (fp_operator_index r) 2" using assms(2) by (simp add: proposal_ok_def)
  note s = assms(1) [unfolded cfs_ok_def]
  show ?thesis
    using s assms(3,4) bump_ok [OF _ i] bump_sum [OF _ i] q
    by (simp add: cfs_ok_def recorded_state_def py_max_unit)
qed

lemma recorded_distinct:
  "distinct (fs_seen (recorded_state s r accepted quality)) \<longleftrightarrow>
     distinct (fs_seen s) \<and> fp_key r \<notin> set (fs_seen s)"
  by (auto simp: recorded_state_def)

lemma cfs_record_Inr:
  "cfs_record_outcomes s r (vs, threshold, mo, ms) = Inr b \<longleftrightarrow>
     cfs_ok s \<and> proposal_ok r \<and> fp_attempt r = fs_proposals s \<and> fp_key r \<notin> set (fs_seen s)
     \<and> search_evidence_ok (vs, threshold, mo, ms)
     \<and> b = \<lparr>fb_proposal = r, fb_quality = quality_of vs, fb_accepted = admissible vs threshold mo ms,
            fb_stable = stable_from (fin_val threshold) ms 0 (map fin_val vs),
            fb_state = recorded_state s r (admissible vs threshold mo ms) (quality_of vs)\<rparr>"
proof (cases "cfs_ok s \<and> proposal_ok r \<and> search_evidence_ok (vs, threshold, mo, ms)
    \<and> fp_attempt r = fs_proposals s \<and> fp_key r \<notin> set (fs_seen s)")
  case True
  then have ev: "vs \<noteq> []" "\<forall>v\<in>set vs. in_unit v" "in_unit_pos threshold" "1 \<le> mo" "1 \<le> ms"
    by simp_all
  have v: "valid_program (fp_program r)" using True by (simp add: proposal_ok_def)
  have acc: "(int (length vs) \<ge> mo \<and> stable_from (fin_val threshold) ms 0 (map fin_val vs) \<noteq> None)
      = admissible vs threshold mo ms"
    using stable_None_iff [OF ev(5)] stably_above_admissible [OF ev(2,3), of ms]
    by (auto simp: admissible_def)
  have checks: "\<not> (vs = [] \<or> (\<exists>v\<in>set vs. \<not> isfinite v \<or> \<not> (Fin 0 \<le> v \<and> v \<le> Fin 1)))"
      "\<not> (\<not> (Fin 0 < threshold \<and> threshold \<le> Fin 1) \<or> mo < 1 \<or> ms < 1)"
    using ev by (auto simp: in_unit_alt in_unit_pos_def)
  have st: "cfs_validate s = Inr s" "cf_proposal_validate r = Inr r"
    using True by (auto simp: cfs_validate_Inr cf_proposal_validate_Inr)
  have next_ok: "cfs_validate (recorded_state s r (admissible vs threshold mo ms) (quality_of vs))
      = Inr (recorded_state s r (admissible vs threshold mo ms) (quality_of vs))"
    using recorded_state_ok True quality_in_unit [OF ev(1,2)] by (simp add: cfs_validate_Inr)
  have fresh: "cs_scoped_digest (fp_scope r) (digest_of (fp_program r)) \<notin> set (fs_seen s)"
    using True by (simp add: fp_key_def)
  have "cfs_record_outcomes s r (vs, threshold, mo, ms) =
     Inr \<lparr>fb_proposal = r, fb_quality = quality_of vs, fb_accepted = admissible vs threshold mo ms,
            fb_stable = stable_from (fin_val threshold) ms 0 (map fin_val vs),
            fb_state = recorded_state s r (admissible vs threshold mo ms) (quality_of vs)\<rparr>"
    using True next_ok
    unfolding cfs_record_outcomes.simps st bind_r_Inr digest_of_valid [OF v] Let_def acc
      recorded_state_def fp_key_def [of r]
    by (simp only: checks fresh if_False simp_thms bind_r_Inr)
  then show ?thesis using True by auto
next
  case False
  then show ?thesis
    by (auto simp: bind_r_eq_Inr cfs_validate_Inr cf_proposal_validate_Inr Let_def fp_key_def
        digest_of_valid proposal_ok_def in_unit_alt in_unit_pos_def not_less split: if_splits)
qed

section \<open>Proposals\<close>

definition unseen_of :: "string \<Rightarrow> cfs_state \<Rightarrow> (string \<times> cf_program) list \<Rightarrow> (string \<times> cf_program) list" where
  "unseen_of scope s ns =
     filter (\<lambda>c. cs_scoped_digest scope (digest_of (snd c)) \<notin> set (fs_seen s)) ns"

lemma unseen_neighbors_eq:
  "\<forall>x p. (x, p) \<in> set ns \<longrightarrow> valid_program p \<Longrightarrow>
     unseen_neighbors scope (fs_seen s) ns = Inr (unseen_of scope s ns)"
proof (induction ns)
  case Nil
  then show ?case by (simp add: unseen_of_def)
next
  case (Cons c ns)
  then have "unseen_neighbors scope (fs_seen s) ns = Inr (unseen_of scope s ns)"
      and "cp_digest (snd c) = Inr (digest_of (snd c))"
    by (auto simp: digest_of_valid) (metis digest_of_valid prod.collapse)
  then show ?case by (cases c) (simp add: unseen_of_def)
qed

lemma index_of_mem: "x \<in> set xs \<Longrightarrow> \<exists>k. index_of x xs = Inr k \<and> k < length xs \<and> xs ! k = x"
  by (induction xs) auto

lemma operators_two: "\<exists>a b. CONTROL_FLOW_MUTATION_OPERATORS = [a, b]"
  by (simp add: CONTROL_FLOW_MUTATION_OPERATORS_def)

text \<open>
  The operator the proposal names is the operator of the chosen edit: when the drawn operator has
  no unseen edit left, every unseen edit has the other one.
\<close>

lemma operator_choice:
  assumes "unseen \<noteq> []" and "\<forall>c\<in>set unseen. fst c \<in> set CONTROL_FLOW_MUTATION_OPERATORS"
    and "drawn < 2" and "same = filter (\<lambda>c. fst c = CONTROL_FLOW_MUTATION_OPERATORS ! drawn) unseen"
    and "c \<in> set (if same = [] then unseen else same)"
  shows "\<exists>k. (if same = [] then index_of (fst (hd unseen)) CONTROL_FLOW_MUTATION_OPERATORS else Inr drawn)
      = Inr k \<and> k < 2 \<and> CONTROL_FLOW_MUTATION_OPERATORS ! k = fst c"
proof (cases "same = []")
  case False
  then show ?thesis using assms by auto
next
  case True
  obtain a b where ops: "CONTROL_FLOW_MUTATION_OPERATORS = [a, b]" using operators_two by blast
  have other: "fst d = (if drawn = 0 then b else a)" if "d \<in> set unseen" for d
  proof -
    have "fst d \<noteq> CONTROL_FLOW_MUTATION_OPERATORS ! drawn"
      using True that unfolding assms(4) filter_empty_conv by blast
    moreover have "fst d \<in> set CONTROL_FLOW_MUTATION_OPERATORS" using assms(2) that by blast
    then have "fst d \<in> {a, b}" by (simp add: ops)
    moreover have "drawn = 0 \<or> drawn = 1" using assms(3) by auto
    ultimately show ?thesis by (auto simp: ops)
  qed
  have "fst (hd unseen) \<in> set CONTROL_FLOW_MUTATION_OPERATORS" using assms(1,2) by simp
  then obtain k where "index_of (fst (hd unseen)) CONTROL_FLOW_MUTATION_OPERATORS = Inr k"
      "k < 2" "CONTROL_FLOW_MUTATION_OPERATORS ! k = fst (hd unseen)"
    using index_of_mem [of "fst (hd unseen)" CONTROL_FLOW_MUTATION_OPERATORS] length_operators by auto
  moreover have "fst c = fst (hd unseen)" using other assms(1,5) True by auto
  ultimately show ?thesis using True by auto
qed

definition cfs_space :: "cf_program \<Rightarrow> string \<Rightarrow> string list" where
  "cfs_space parent scope = (case neighbors parent of Inl e \<Rightarrow> []
     | Inr ns \<Rightarrow> map (\<lambda>c. cs_scoped_digest scope (digest_of (snd c))) ns)"

lemma operator_probabilities_ok:
  assumes "torch_ok torch" and "cfs_ok s"
  shows "\<exists>ps. operator_probabilities torch x s = Inr ps \<and> length ps = 2
    \<and> (\<forall>p\<in>set ps. 0 < p \<and> p \<le> 1) \<and> tl_multinomial torch ps < 2"
proof -
  have len: "length (fs_totals s) = 2" "length (fs_counts s) = 2"
    using assms(2) by (auto simp: cfs_ok_def stat_ok_def)
  have v: "cfs_validate s = Inr s" using assms(2) by (simp add: cfs_validate_Inr)
  obtain xs where xs: "operator_probabilities torch x s = Inr (tl_softmax torch xs)" "length xs = 2"
    using len by (simp add: operator_probabilities_def v Let_def)
  have "length (tl_softmax torch xs) = 2" "\<forall>p\<in>set (tl_softmax torch xs). 0 < p \<and> p \<le> 1"
    using assms(1) xs(2) by (simp_all add: torch_ok_def)
  moreover from this(1) have "tl_multinomial torch (tl_softmax torch xs) < 2"
    using assms(1) by (metis torch_ok_def length_0_conv zero_neq_numeral)
  ultimately show ?thesis using xs(1) by blast
qed

lemma cfs_propose_cases:
  assumes t: "torch_ok torch" and v: "valid_program parent" and s: "cfs_ok s" and g: "scope \<noteq> []"
  shows "if set (cfs_space parent scope) \<subseteq> set (fs_seen s)
    then cfs_propose torch x s parent scope = Inl RuntimeError
    else \<exists>r. cfs_propose torch x s parent scope = Inr r \<and> proposal_ok r
      \<and> fp_attempt r = fs_proposals s \<and> fp_key r \<in> set (cfs_space parent scope) - set (fs_seen s)"
proof -
  obtain ns where ns: "neighbors parent = Inr ns"
      "\<forall>x p. (x, p) \<in> set ns \<longrightarrow> x \<in> set CONTROL_FLOW_MUTATION_OPERATORS \<and> valid_program p
        \<and> cp_counter_count p = cp_counter_count parent \<and> one_edit parent (cp_instructions p)
        \<and> digest_of p \<noteq> digest_of parent"
    using neighbors_spec [OF v] by blast
  let ?un = "unseen_of scope s ns"
  have empty: "?un = [] \<longleftrightarrow> set (cfs_space parent scope) \<subseteq> set (fs_seen s)"
    by (auto simp: cfs_space_def ns(1) unseen_of_def filter_empty_conv)
  have un: "unseen_neighbors scope (fs_seen s) ns = Inr ?un"
    by (rule unseen_neighbors_eq) (use ns(2) in blast)
  have ns_empty: "ns = [] \<Longrightarrow> ?un = []" by (simp add: unseen_of_def)
  obtain ps where ps: "operator_probabilities torch x s = Inr ps" "length ps = 2"
      "\<forall>p\<in>set ps. 0 < p \<and> p \<le> 1" "tl_multinomial torch ps < 2"
    using operator_probabilities_ok [OF t s] by blast
  note pre = v [unfolded valid_program_def] s
  have start: "cfs_validate s = Inr s" "cp_validate parent = Inr parent"
    using s v by (simp_all add: cfs_validate_Inr cp_validate_cases)
  show ?thesis
  proof (cases "?un = []")
    case True
    then have "cfs_propose torch x s parent scope = Inl RuntimeError"
      by (simp add: cfs_propose_def start g ns(1) un)
    then show ?thesis using True empty by simp
  next
    case False
    obtain same where same: "same = filter (\<lambda>c. fst c = CONTROL_FLOW_MUTATION_OPERATORS
        ! tl_multinomial torch ps) ?un" by blast
    obtain cands where cands: "cands = (if same = [] then ?un else same)" by blast
    obtain c where c: "c = cands ! tl_randint torch (length cands)" by blast
    have "cands \<noteq> []" using False by (simp add: cands)
    then have "c \<in> set cands" using t by (simp add: c torch_ok_def)
    moreover have "set cands \<subseteq> set ?un" by (auto simp: cands same)
    ultimately have mem: "c \<in> set (if same = [] then ?un else same)" "c \<in> set ?un"
      using cands by auto
    have ops: "\<forall>c\<in>set ?un. fst c \<in> set CONTROL_FLOW_MUTATION_OPERATORS"
      using ns(2) by (auto simp: unseen_of_def)
    obtain k where k: "(if same = [] then index_of (fst (hd ?un)) CONTROL_FLOW_MUTATION_OPERATORS
        else Inr (tl_multinomial torch ps)) = Inr k" "k < 2"
        "CONTROL_FLOW_MUTATION_OPERATORS ! k = fst c"
      using operator_choice [OF False ops ps(4) same mem(1)] by blast
    obtain r where r: "r = \<lparr>fp_program = snd c, fp_parent_digest = digest_of parent,
        fp_operator = fst c, fp_operator_index = int k, fp_attempt = fs_proposals s,
        fp_probability = Fin (ps ! k), fp_scope = scope,
        fp_schema = CONTROL_FLOW_PROPOSAL_SCHEMA\<rparr>" by blast
    have "(fst c, snd c) \<in> set ns" "cs_scoped_digest scope (digest_of (snd c)) \<notin> set (fs_seen s)"
      using mem(2) by (auto simp: unseen_of_def)
    then have good: "valid_program (snd c)" "digest_of (snd c) \<noteq> digest_of parent"
        "cs_scoped_digest scope (digest_of (snd c)) \<in> set (cfs_space parent scope) - set (fs_seen s)"
      using ns(2) by (blast, blast, force simp: cfs_space_def ns(1))
    have "0 < ps ! k" "ps ! k \<le> 1" using ps(2,3) k(2) by simp_all
    moreover have "0 \<le> fs_proposals s" using s by (auto simp: cfs_ok_def)
    ultimately have ok: "proposal_ok r"
      using good k digest_of_ok [OF v] g by (simp add: proposal_ok_def r in_range_def)
    have "ns \<noteq> []" using False ns_empty by blast
    then have "cfs_propose torch x s parent scope = cf_proposal_validate r"
      unfolding cfs_propose_def start bind_r_Inr ns(1) un ps(1) Let_def same [symmetric]
        cands [symmetric] k(1) c [symmetric] digest_of_valid [OF v] r
      using False g by simp
    then have "cfs_propose torch x s parent scope = Inr r"
      using ok by (simp add: cf_proposal_validate_Inr)
    moreover have "fp_key r \<in> set (cfs_space parent scope) - set (fs_seen s)"
      using good(3) by (simp add: fp_key_def r)
    moreover have "fp_attempt r = fs_proposals s" by (simp add: r)
    ultimately show ?thesis using ok False empty by auto
  qed
qed

section \<open>The search as a ledger\<close>

type_synonym bound_search = "torch_lib \<times> cf_search \<times> cf_program"

fun cfs_inv :: "bound_search \<Rightarrow> cfs_state \<Rightarrow> bool" where
  "cfs_inv (torch, x, parent) s \<longleftrightarrow> torch_ok torch \<and> valid_program parent \<and> cfs_ok s"

definition cfs_next :: "cfs_state \<Rightarrow> cf_proposal \<Rightarrow> pyfloat list \<times> pyfloat \<times> int \<times> int \<Rightarrow> cfs_state result" where
  "cfs_next s r e = bind_r (cfs_record_outcomes s r e) (\<lambda>b. Inr (fb_state b))"

lemma cfs_next_Inr:
  "cfs_next s r (vs, threshold, mo, ms) = Inr s' \<longleftrightarrow>
     cfs_ok s \<and> proposal_ok r \<and> fp_attempt r = fs_proposals s \<and> fp_key r \<notin> set (fs_seen s)
     \<and> search_evidence_ok (vs, threshold, mo, ms)
     \<and> s' = recorded_state s r (admissible vs threshold mo ms) (quality_of vs)"
  unfolding cfs_next_def bind_r_eq_Inr cfs_record_Inr by auto

lemma cfs_next_effect:
  assumes "cfs_next s r e = Inr s'"
  shows "fp_key r \<notin> set (fs_seen s) \<and> fs_seen s' = fs_seen s @ [fp_key r] \<and> cfs_ok s'"
proof -
  obtain vs t mo ms where e: "e = (vs, t, mo, ms)" by (cases e) auto
  have "in_unit (quality_of vs)"
    using assms quality_in_unit [of vs] unfolding e cfs_next_Inr by simp
  then show ?thesis
    using assms recorded_state_ok unfolding e cfs_next_Inr by (auto simp: recorded_state_def)
qed

lemma cfs_record_proposed:
  assumes "cfs_ok s" and "proposal_ok r" and "fp_attempt r = fs_proposals s"
    and "fp_key r \<notin> set (fs_seen s)" and "search_evidence_ok e"
  shows "\<exists>s'. cfs_next s r e = Inr s'"
proof -
  obtain vs t mo ms where "e = (vs, t, mo, ms)" by (cases e) auto
  then show ?thesis using assms cfs_next_Inr by blast
qed

interpretation edit_search: exhaustive_search cfs_inv fs_seen fp_key "\<lambda>x. cfs_next"
  "\<lambda>g. g \<noteq> []" "\<lambda>x. cfs_space (snd (snd x))" "\<lambda>x s. cfs_propose (fst x) (fst (snd x)) s (snd (snd x))"
  "\<lambda>x. search_evidence_ok"
proof
  fix x :: bound_search and s s' :: cfs_state and r :: cf_proposal
    and e :: "pyfloat list \<times> pyfloat \<times> int \<times> int" and g :: string
  obtain torch os parent where x: "x = (torch, os, parent)" by (cases x) auto
  assume inv: "cfs_inv x s"
  then have i: "torch_ok torch" "valid_program parent" "cfs_ok s" by (simp_all add: x)
  show "distinct (fs_seen s)" using i(3) by (simp add: cfs_ok_def)
  show "cfs_next s r e = Inr s' \<Longrightarrow>
      fp_key r \<notin> set (fs_seen s) \<and> fs_seen s' = fs_seen s @ [fp_key r] \<and> cfs_inv x s'"
    using cfs_next_effect i by (auto simp: x)
  assume g: "g \<noteq> []"
  note cases = cfs_propose_cases [OF i g, of os]
  show "\<not> set (cfs_space (snd (snd x)) g) \<subseteq> set (fs_seen s) \<Longrightarrow>
      \<exists>r. cfs_propose (fst x) (fst (snd x)) s (snd (snd x)) g = Inr r
        \<and> fp_key r \<in> set (cfs_space (snd (snd x)) g) - set (fs_seen s)"
    using cases by (auto simp: x)
  show "set (cfs_space (snd (snd x)) g) \<subseteq> set (fs_seen s) \<Longrightarrow>
      cfs_propose (fst x) (fst (snd x)) s (snd (snd x)) g = Inl RuntimeError"
    using cases by (auto simp: x)
  show "cfs_propose (fst x) (fst (snd x)) s (snd (snd x)) g = Inr r \<Longrightarrow> search_evidence_ok e \<Longrightarrow>
      \<exists>s'. cfs_next s r e = Inr s'"
    using cases cfs_record_proposed [OF i(3), of r e] by (auto simp: x split: if_splits)
qed

section \<open>Properties\<close>

lemma distinct_all_enumerated:
  assumes "2 \<le> n" and "1 \<le> lo"
  shows "distinct (concat (map (enumerated n) [lo..hi]))"
proof (rule concat_distinctI)
  fix l m assume lm: "l \<in> set [lo..hi]" "m \<in> set [lo..hi]" "l \<noteq> m"
  then have "1 \<le> l" "1 \<le> m" using assms(2) by auto
  note iffs = enumerated_iff [OF assms(1) this(1)] enumerated_iff [OF assms(1) this(2)]
  show "set (enumerated n l) \<inter> set (enumerated n m) = {}"
    unfolding disjoint_iff iffs using lm(3) by blast
qed (simp_all add: distinct_enumerated)

lemma length_concat_int:
  "int (length (concat (map f xs))) = sum_list (map (\<lambda>x. int (length (f x))) xs)"
  by (induction xs) simp_all

lemma sum_list_upto: "sum_list (map f [lo..hi]) = sum f {lo..hi}" for f :: "int \<Rightarrow> int"
  by (simp add: sum_list_distinct_conv_sum_set)

text \<open>
  C23. The enumeration is exact.  \<open>iter_control_flow_programs\<close> yields every valid program of the
  given counter width and length range whose only \<open>halt\<close> is the last instruction, and nothing
  else, each exactly once; the number of programs of length \<open>l\<close> is
  \<open>(2n + l(2n+1))^(l-1)\<close>.
\<close>

theorem enumeration_exact:
  assumes "2 \<le> n" and "1 \<le> lo" and "lo \<le> hi"
  shows "\<exists>ps. iter_control_flow_programs n lo hi = Inr ps \<and> distinct ps
    \<and> (\<forall>q. q \<in> set ps \<longleftrightarrow> valid_program q \<and> cp_counter_count q = n
          \<and> lo \<le> cp_length q \<and> cp_length q \<le> hi \<and> \<not> has_internal_halt q)
    \<and> int (length ps) = (\<Sum>l\<in>{lo..hi}. (2 * n + l * (2 * n + 1)) ^ nat (l - 1))"
proof (intro exI conjI allI)
  let ?ps = "concat (map (enumerated n) [lo..hi])"
  show "iter_control_flow_programs n lo hi = Inr ?ps" by (rule iter_Inr [OF assms])
  show "distinct ?ps" using distinct_all_enumerated assms by blast
  show "q \<in> set ?ps \<longleftrightarrow> valid_program q \<and> cp_counter_count q = n
          \<and> lo \<le> cp_length q \<and> cp_length q \<le> hi \<and> \<not> has_internal_halt q" for q
    using enumerated_iff [OF assms(1)] assms(2) by force
  have "int (length ?ps) = sum_list (map (\<lambda>l. int (length (enumerated n l))) [lo..hi])"
    by (rule length_concat_int)
  also have "\<dots> = sum_list (map (\<lambda>l. (2 * n + l * (2 * n + 1)) ^ nat (l - 1)) [lo..hi])"
    using assms by (intro arg_cong [where f = sum_list] map_cong) (auto simp: length_enumerated)
  finally show "int (length ?ps) = (\<Sum>l\<in>{lo..hi}. (2 * n + l * (2 * n + 1)) ^ nat (l - 1))"
    by (simp only: sum_list_upto)
qed

theorem enumeration_exact_witness:
  "\<exists>ps. iter_control_flow_programs 2 1 5 = Inr ps \<and> drain \<in> set ps"
proof -
  have "cp_counter_count drain = 2 \<and> 1 \<le> cp_length drain \<and> cp_length drain \<le> 5
      \<and> \<not> has_internal_halt drain" by code_simp
  then show ?thesis using enumeration_exact [of 2 1 5] drain_valid by auto
qed

text \<open>
  The neighbourhood of a valid program always exists and holds one-edit variants only: valid
  files of the same counter width obtained by replacing one or swapping two non-terminal
  instructions, never the parent itself and never two with the same digest.  It is complete up to
  digests: every valid one-edit variant has the digest of the parent or of a listed neighbour.
\<close>

lemma neighbors_sound_complete:
  assumes "valid_program parent"
  shows "\<exists>ns. neighbors parent = Inr ns
    \<and> (\<forall>x p. (x, p) \<in> set ns \<longrightarrow> x \<in> set CONTROL_FLOW_MUTATION_OPERATORS \<and> valid_program p
        \<and> cp_counter_count p = cp_counter_count parent \<and> one_edit parent (cp_instructions p)
        \<and> digest_of p \<noteq> digest_of parent)
    \<and> distinct (map (digest_of \<circ> snd) ns)
    \<and> (\<forall>is. one_edit parent is \<and> valid_program (mk_program (cp_counter_count parent) is) \<longrightarrow>
        digest_of (mk_program (cp_counter_count parent) is)
          \<in> insert (digest_of parent) (digest_of ` snd ` set ns))"
  by (rule neighbors_spec [OF assms])

text \<open>
  The edit search explores the whole neighbourhood.  From any valid state, with any torch
  behaviour that meets its documentation and any valid evidence, the propose--evaluate--record loop
  never fails, evaluates each neighbour not seen before exactly once whatever operators are drawn,
  and ends with the \<open>RuntimeError\<close> of an exhausted neighbourhood.
\<close>

lemma edit_search_exhausts:
  assumes "torch_ok torch" and "valid_program parent" and "cfs_ok s" and "scope \<noteq> []"
    and "\<And>r. search_evidence_ok (evaluate r)" and "length (cfs_space parent scope) \<le> n"
  shows "\<exists>s' ks. search_loop (\<lambda>s. cfs_propose torch x s parent scope)
        (\<lambda>s r. cfs_next s r (evaluate r)) n s = Inr s'
    \<and> cfs_ok s' \<and> fs_seen s' = fs_seen s @ ks \<and> distinct ks
    \<and> set ks = set (cfs_space parent scope) - set (fs_seen s)
    \<and> cfs_propose torch x s' parent scope = Inl RuntimeError"
proof -
  have "card (set (cfs_space parent scope) - set (fs_seen s)) \<le> card (set (cfs_space parent scope))"
    by (rule card_mono) auto
  also have "\<dots> \<le> n" using card_length assms(6) le_trans by blast
  finally show ?thesis
    using edit_search.loop_exhausts [of "(torch, x, parent)" s scope evaluate n] assms(1-5) by auto
qed

lemma cfs_initial: "\<exists>s. cfs_initial_state = Inr s \<and> cfs_ok s \<and> fs_seen s = []"
  by (simp add: cfs_initial_state_def Let_def cfs_validate_Inr cfs_ok_def stat_ok_def stat_sum_def
      length_operators numeral_2_eq_2)

text \<open>What one recorded outcome adds to the quality total of operator \<open>k\<close>.\<close>

fun credit :: "nat \<Rightarrow> cf_proposal \<times> pyfloat list \<times> pyfloat \<times> int \<times> int \<Rightarrow> rat" where
  "credit k (r, vs, threshold, mo, ms) =
     (if nat (fp_operator_index r) = k then fin_val (quality_of vs) else 0)"

text \<open>
  The statistics are exactly the recorded evidence.  After any sequence of recorded outcomes
  from a valid state, the number of proposals has grown by the number of outcomes, the accepted
  count by the number of admissible ones, and the quality total of each operator by the mean
  qualities of the outcomes recorded for that operator.
\<close>

lemma credit_accounting:
  assumes "fold_r (\<lambda>s re. cfs_next s (fst re) (snd re)) s res = Inr s'" and "k < 2" and "cfs_ok s"
  shows "fs_proposals s' = fs_proposals s + int (length res)
    \<and> fs_accepted s' = fs_accepted s
        + int (length (filter (\<lambda>(r, vs, threshold, mo, ms). admissible vs threshold mo ms) res))
    \<and> fin_val (fs_totals s' ! k) = fin_val (fs_totals s ! k) + sum_list (map (credit k) res)
    \<and> fs_seen s' = fs_seen s @ map (fp_key \<circ> fst) res \<and> cfs_ok s'"
  using assms
proof (induction res arbitrary: s)
  case Nil
  then show ?case by simp
next
  case (Cons re res)
  obtain r vs t mo ms where re: "re = (r, vs, t, mo, ms)" by (cases re) auto
  obtain s1 where s1: "cfs_next s r (vs, t, mo, ms) = Inr s1"
      "fold_r (\<lambda>s re. cfs_next s (fst re) (snd re)) s1 res = Inr s'"
    using Cons.prems(1) by (auto simp: re bind_r_eq_Inr)
  have rec: "s1 = recorded_state s r (admissible vs t mo ms) (quality_of vs)" "proposal_ok r"
    using s1(1) unfolding cfs_next_Inr by blast+
  have i: "in_range (fp_operator_index r) 2" using rec(2) by (simp add: proposal_ok_def)
  have "stat_ok 2 (fs_totals s)" using Cons.prems(3) by (simp add: cfs_ok_def)
  then have total: "fin_val (fs_totals s1 ! k) = fin_val (fs_totals s ! k) + credit k re"
    using bump_nth [OF _ i Cons.prems(2)] by (simp add: rec(1) recorded_state_def re quality_of_def)
  have "cfs_ok s1" using cfs_next_effect [OF s1(1)] by simp
  then show ?case
    using Cons.IH [OF s1(2) Cons.prems(2)] total by (simp add: rec(1) recorded_state_def re)
qed

lemma drain_first_record:
  "\<exists>s r s1. cfs_initial_state = Inr s \<and> cfs_ok s
    \<and> cfs_next s r ([Fin 1, Fin 0], Fin 1, 1, 1) = Inr s1"
proof -
  obtain s where s: "cfs_initial_state = Inr s" "cfs_ok s" "fs_seen s = []" using cfs_initial by blast
  have digits: "digest_ok (replicate 64 (CHR ''0''))" "digest_ok (replicate 64 (CHR ''1''))"
    by (auto intro!: digest_ok_hex simp: hex_digits_def)
  have "replicate 64 (CHR ''0'') \<noteq> replicate 64 (CHR ''1'')" by (simp add: replicate_eq_replicate)
  then obtain d where d: "digest_ok d" "digest_of drain \<noteq> d" using digits by metis
  obtain r where r: "r = \<lparr>fp_program = drain, fp_parent_digest = d,
      fp_operator = CONTROL_FLOW_MUTATION_OPERATORS ! 0, fp_operator_index = 0,
      fp_attempt = fs_proposals s, fp_probability = Fin (1 / 2), fp_scope = ''s'',
      fp_schema = CONTROL_FLOW_PROPOSAL_SCHEMA\<rparr>" by blast
  have "proposal_ok r"
    using d drain_valid s(2) by (auto simp: proposal_ok_def r in_range_def cfs_ok_def)
  then show ?thesis
    using cfs_record_proposed [OF s(2), of r "([Fin 1, Fin 0], Fin 1, 1, 1)"] s by (auto simp: r)
qed

end
