(* ===== verification/RecipeBasis.thy ===== *)
theory RecipeBasis
  imports PyValue
begin

text \<open>
  \<open>recipe_basis.py\<close>: instructions over a register of opaque slot values, their validator and
  effect, the basis of candidate instructions, and the two expressibility probes.

  A register state is a list of integers, \<open>slot_values\<close> gives the size of each slot's domain.
  The \<open>reason\<close> texts of the probe results are dropped, like exception messages.
\<close>

section \<open>Instructions\<close>

datatype recipe_op = Noop | RInc | RDec | CInc | CDec | Copy | Swap | Parallel | ROther pyval

datatype recipe_instruction =
  RI (ri_op: recipe_op) (ri_first: "int option") (ri_second: "int option")
     (ri_modulus: "int option") (ri_children: "recipe_instruction list option")

text \<open>The argument \<open>values: int | Sequence[int]\<close>.\<close>

datatype slot_spec = Uniform int | PerSlot "int list"

fun normalize_slot_values :: "slot_spec \<Rightarrow> int \<Rightarrow> int list result" where
  "normalize_slot_values (Uniform v) slot_count =
     (if \<exists>v\<in>set (replicate (nat slot_count) v). v < 2 then Inl ValueError
      else Inr (replicate (nat slot_count) v))"
| "normalize_slot_values (PerSlot vs) slot_count =
     (if int (length vs) \<noteq> slot_count then Inl ValueError
      else if \<exists>v\<in>set vs. v < 2 then Inl ValueError
      else Inr vs)"

definition is_arith :: "recipe_op \<Rightarrow> bool" where
  "is_arith x \<longleftrightarrow> x = RInc \<or> x = RDec \<or> x = CInc \<or> x = CDec"

definition is_binary :: "recipe_op \<Rightarrow> bool" where
  "is_binary x \<longleftrightarrow> x = CInc \<or> x = CDec \<or> x = Copy \<or> x = Swap"

text \<open>
  \<open>read_slots\<close> and \<open>written_slots\<close>; the latter raises on an operation it does not know.  An
  absent slot, which the validator refuses, trips the assertions of the copying and binary
  branches; the unary branches would put \<open>None\<close> in the set, which is an error here as well.
\<close>

fun slot_set :: "int option list \<Rightarrow> int set result" where
  "slot_set [] = Inr {}"
| "slot_set (None # xs) = Inl AssertionError"
| "slot_set (Some k # xs) = bind_r (slot_set xs) (\<lambda>A. Inr (insert k A))"

fun ri_read_slots :: "recipe_instruction \<Rightarrow> int set result" where
  "ri_read_slots (RI x first second m children) =
     (if x = Parallel then
        (case children of
           Some [a, b] \<Rightarrow> bind_r (ri_read_slots a) (\<lambda>A. bind_r (ri_read_slots b) (\<lambda>B. Inr (A \<union> B)))
         | _ \<Rightarrow> Inl AssertionError)
      else if is_binary x then slot_set [first, second]
      else if x = Noop then Inr {} else slot_set [first])"

fun ri_written_slots :: "recipe_instruction \<Rightarrow> int set result" where
  "ri_written_slots (RI x first second m children) =
     (if x = Parallel then
        (case children of
           Some [a, b] \<Rightarrow>
             bind_r (ri_written_slots a) (\<lambda>A. bind_r (ri_written_slots b) (\<lambda>B. Inr (A \<union> B)))
         | _ \<Rightarrow> Inl AssertionError)
      else if x = Noop then Inr {}
      else if is_arith x then slot_set [first]
      else if x = Copy then slot_set [first]
      else if x = Swap then slot_set [first, second]
      else Inl ValueError)"

definition in_slots :: "int option \<Rightarrow> int \<Rightarrow> bool" where
  "in_slots x n = (case x of None \<Rightarrow> False | Some k \<Rightarrow> 0 \<le> k \<and> k < n)"

text \<open>An operation that is no hashable value fails the membership test in a set of names.\<close>

fun unhashable :: "recipe_op \<Rightarrow> bool" where
  "unhashable (ROther (PList _)) = True"
| "unhashable (ROther (PDict _)) = True"
| "unhashable _ = False"

fun ri_validate :: "int \<Rightarrow> bool \<Rightarrow> recipe_instruction \<Rightarrow> unit result" where
  "ri_validate slot_count allow_parallel (RI x first second m children) =
     (if x = Parallel then
        (if m \<noteq> None then Inl ValueError
         else if \<not> allow_parallel then Inl ValueError
         else (case children of
             Some [a, b] \<Rightarrow>
               bind_r (ri_validate slot_count False a) (\<lambda>_.
               bind_r (ri_validate slot_count False b) (\<lambda>_.
               bind_r (ri_written_slots a) (\<lambda>A.
               bind_r (ri_written_slots b) (\<lambda>B.
                 if A \<inter> B \<noteq> {} then Inl ValueError else Inr ()))))
           | _ \<Rightarrow> Inl ValueError))
      else if children \<noteq> None then Inl ValueError
      else if unhashable x then Inl TypeError
      else if is_arith x \<and> (case m of None \<Rightarrow> True | Some k \<Rightarrow> k < 2) then Inl ValueError
      else if \<not> is_arith x \<and> m \<noteq> None then Inl ValueError
      else if x = Noop then
        (if first \<noteq> None \<or> second \<noteq> None then Inl ValueError else Inr ())
      else if \<not> in_slots first slot_count then Inl ValueError
      else if is_binary x then
        (if \<not> in_slots second slot_count then Inl ValueError
         else if x = Swap \<and> first = second then Inl ValueError
         else Inr ())
      else if second \<noteq> None then Inl ValueError
      else Inr ())"

section \<open>Effects\<close>

text \<open>\<open>any(value < 0 or value >= slot_values[index] for index, value in enumerate(state))\<close>, negated.\<close>

definition in_domain :: "int list \<Rightarrow> int list \<Rightarrow> bool" where
  "in_domain slot_values state \<longleftrightarrow> list_all2 (\<lambda>n v. 0 \<le> v \<and> v < n) slot_values state"

text \<open>The branches of \<open>apply\<close> for an atomic instruction, on validated slots.\<close>

definition atomic_effect :: "recipe_op \<Rightarrow> nat \<Rightarrow> nat \<Rightarrow> int \<Rightarrow> int list \<Rightarrow> int list result" where
  "atomic_effect x first second m state =
     (if x = RInc then Inr (state[first := (state ! first + 1) mod m])
      else if x = RDec then Inr (state[first := (state ! first - 1) mod m])
      else if x = CInc then
        Inr (if state ! second \<noteq> 0 then state[first := (state ! first + 1) mod m] else state)
      else if x = CDec then
        Inr (if state ! second \<noteq> 0 then state[first := (state ! first - 1) mod m] else state)
      else if x = Copy then Inr (state[first := state ! second])
      else if x = Swap then Inr (state[first := state ! second, second := state ! first])
      else Inl ValueError)"

definition commit :: "int list \<Rightarrow> int set \<Rightarrow> int list \<Rightarrow> int list" where
  "commit merged slots result =
     map (\<lambda>k. if int k \<in> slots then result ! k else merged ! k) [0..<length merged]"

fun opt_nat :: "int option \<Rightarrow> nat" where
  "opt_nat None = 0"
| "opt_nat (Some k) = nat k"

fun ri_apply :: "recipe_instruction \<Rightarrow> int list \<Rightarrow> slot_spec \<Rightarrow> int list result" where
  "ri_apply (RI x first second m children) state values =
     bind_r (ri_validate (int (length state)) True (RI x first second m children)) (\<lambda>_.
     bind_r (normalize_slot_values values (int (length state))) (\<lambda>slot_values.
       if \<not> in_domain slot_values state then Inl ValueError
       else if x = Parallel then
         (case children of
            Some [a, b] \<Rightarrow>
              bind_r (ri_apply a state (PerSlot slot_values)) (\<lambda>first_result.
              bind_r (ri_apply b state (PerSlot slot_values)) (\<lambda>second_result.
              bind_r (ri_written_slots a) (\<lambda>A.
              bind_r (ri_written_slots b) (\<lambda>B.
                Inr (commit (commit state A first_result) B second_result)))))
          | _ \<Rightarrow> Inl AssertionError)
       else if x = Noop then Inr state
       else if is_arith x \<and> m \<noteq> Some (slot_values ! opt_nat first) then Inl ValueError
       else bind_r (atomic_effect x (opt_nat first) (opt_nat second)
              (case m of None \<Rightarrow> 0 | Some k \<Rightarrow> k) state) (\<lambda>result.
         if \<not> in_domain slot_values result then Inl ValueError else Inr result)))"

fun apply_sequence :: "recipe_instruction list \<Rightarrow> int list \<Rightarrow> slot_spec \<Rightarrow> int list result" where
  "apply_sequence [] state values = Inr state"
| "apply_sequence (i # is) state values =
     bind_r (ri_apply i state values) (\<lambda>s. apply_sequence is s values)"

section \<open>The basis\<close>

record recipe_basis =
  rb_slot_count :: int
  rb_slot_values :: "int list"
  rb_values :: int
  rb_allow_parallel :: bool

definition rb_init :: "int \<Rightarrow> int \<Rightarrow> int list option \<Rightarrow> bool \<Rightarrow> recipe_basis result" where
  "rb_init slot_count values slot_values allow_parallel =
     (if slot_count < 1 \<or> values < 2 then Inl ValueError
      else bind_r (normalize_slot_values
             (case slot_values of None \<Rightarrow> Uniform values | Some vs \<Rightarrow> PerSlot vs) slot_count) (\<lambda>vs.
        Inr \<lparr>rb_slot_count = slot_count, rb_slot_values = vs, rb_values = Max (set vs),
             rb_allow_parallel = allow_parallel\<rparr>))"

definition RECIPE_BASIS_SCHEMA :: string where
  "RECIPE_BASIS_SCHEMA = ''neural-computer.recipe-basis.v2''"

definition rb_configuration :: "recipe_basis \<Rightarrow> pyval" where
  "rb_configuration b = PDict
     [(''schema'', PStr RECIPE_BASIS_SCHEMA),
      (''slot_count'', PInt (rb_slot_count b)),
      (''values'', PInt (rb_values b)),
      (''slot_values'', PList (map PInt (rb_slot_values b))),
      (''allow_parallel'', PBool (rb_allow_parallel b)),
      (''atomicity'', PStr ''one_instruction_one_verifier_step_v1'')]"

definition unary :: "recipe_op \<Rightarrow> int \<Rightarrow> int \<Rightarrow> recipe_instruction" where
  "unary x first m = RI x (Some first) None (Some m) None"

definition binary :: "recipe_op \<Rightarrow> int \<Rightarrow> int \<Rightarrow> int option \<Rightarrow> recipe_instruction" where
  "binary x first second m = RI x (Some first) (Some second) m None"

definition parallel_of :: "recipe_instruction \<Rightarrow> recipe_instruction \<Rightarrow> recipe_instruction" where
  "parallel_of a b = RI Parallel None None None (Some [a, b])"

fun pairs_after :: "'a list \<Rightarrow> ('a \<times> 'a) list" where
  "pairs_after [] = []"
| "pairs_after (x # xs) = map (\<lambda>y. (x, y)) xs @ pairs_after xs"

definition disjoint_writers :: "recipe_instruction \<times> recipe_instruction \<Rightarrow> bool" where
  "disjoint_writers p =
     (case (ri_written_slots (fst p), ri_written_slots (snd p)) of
        (Inr A, Inr B) \<Rightarrow> A \<noteq> {} \<and> B \<noteq> {} \<and> A \<inter> B = {}
      | _ \<Rightarrow> False)"

definition atomic_part :: "recipe_basis \<Rightarrow> recipe_instruction list" where
  "atomic_part b =
     (let slots = upto_int (rb_slot_count b); value = (\<lambda>k. rb_slot_values b ! nat k)
      in [RI Noop None None None None]
         @ concat (map (\<lambda>slot. [unary RInc slot (value slot), unary RDec slot (value slot)]) slots)
         @ concat (map (\<lambda>first.
             concat (map (\<lambda>second.
               if first = second then []
               else [binary CInc first second (Some (value first)),
                     binary CDec first second (Some (value first))]
                    @ (if value second \<le> value first then [binary Copy first second None] else []))
               slots)
             @ concat (map (\<lambda>second.
                 if value first = value second then [binary Swap first second None] else [])
                 [first + 1..rb_slot_count b - 1])) slots))"

definition atomic_candidates :: "recipe_basis \<Rightarrow> recipe_instruction list" where
  "atomic_candidates b =
     atomic_part b
     @ (if rb_allow_parallel b
        then map (\<lambda>p. parallel_of (fst p) (snd p)) (filter disjoint_writers (pairs_after (atomic_part b)))
        else [])"

section \<open>The atomic probe\<close>

datatype probe_status = Expressible | Inexpressible | BudgetExhausted | Invalid

record probe_result =
  pr_status :: probe_status
  pr_instruction :: "recipe_instruction option"
  pr_checked :: int

definition target_caught :: "exn \<Rightarrow> bool" where
  "target_caught e \<longleftrightarrow> e \<in> {AssertionError, IndexError, KeyError, TypeError, ValueError}"

fun all_states :: "int list \<Rightarrow> int list list" where
  "all_states [] = [[]]"
| "all_states (n # ns) = concat (map (\<lambda>v. map (\<lambda>s. v # s) (all_states ns)) (upto_int n))"

text \<open>
  The loop that asks the target for the wanted result of each probe state: \<open>None\<close> is the early
  \<open>invalid\<close> return, an exception the loop does not catch propagates.
\<close>

fun expected_results :: "recipe_basis \<Rightarrow> (int list \<Rightarrow> bool) \<Rightarrow> (int list \<Rightarrow> int list result)
    \<Rightarrow> int list list \<Rightarrow> int list list option result" where
  "expected_results b state_ok target [] = Inr (Some [])"
| "expected_results b state_ok target (s # states) =
     (if \<not> state_ok s then Inr None
      else (case target s of
          Inl e \<Rightarrow> if target_caught e then Inr None else Inl e
        | Inr t \<Rightarrow>
            if int (length t) \<noteq> rb_slot_count b \<or> \<not> in_domain (rb_slot_values b) t then Inr None
            else bind_r (expected_results b state_ok target states)
                   (\<lambda>rest. Inr (map_option (\<lambda>ts. t # ts) rest))))"

definition probe_states :: "recipe_basis \<Rightarrow> int list list option \<Rightarrow> int list list" where
  "probe_states b states =
     (case states of None \<Rightarrow> all_states (rb_slot_values b) | Some ss \<Rightarrow> ss)"

text \<open>\<open>all(candidate.apply(state) == want for state, want in zip(...))\<close>, which stops at the first
  mismatch.\<close>

fun matches_all :: "int list \<Rightarrow> recipe_instruction \<Rightarrow> (int list \<times> int list) list \<Rightarrow> bool result" where
  "matches_all vs i [] = Inr True"
| "matches_all vs i ((s, want) # rest) =
     bind_r (ri_apply i s (PerSlot vs)) (\<lambda>t. if t = want then matches_all vs i rest else Inr False)"

fun first_match :: "int list \<Rightarrow> (int list \<times> int list) list \<Rightarrow> int \<Rightarrow> recipe_instruction list
    \<Rightarrow> (recipe_instruction \<times> int) option result" where
  "first_match vs wanted index [] = Inr None"
| "first_match vs wanted index (i # is) =
     bind_r (matches_all vs i wanted) (\<lambda>ok.
       if ok then Inr (Some (i, index)) else first_match vs wanted (index + 1) is)"

definition expressibility_probe :: "recipe_basis \<Rightarrow> (int list \<Rightarrow> int list result)
    \<Rightarrow> int list list option \<Rightarrow> probe_result result" where
  "expressibility_probe b target states =
     (let ss = probe_states b states;
          invalid = \<lparr>pr_status = Invalid, pr_instruction = None, pr_checked = 0\<rparr>
      in if ss = [] then Inr invalid
         else bind_r (expected_results b (\<lambda>s. int (length s) = rb_slot_count b) target ss) (\<lambda>expected.
           case expected of
             None \<Rightarrow> Inr invalid
           | Some ts \<Rightarrow>
               bind_r (first_match (rb_slot_values b) (zip ss ts) 1 (atomic_candidates b)) (\<lambda>found.
                 case found of
                   Some (i, index) \<Rightarrow>
                     Inr \<lparr>pr_status = Expressible, pr_instruction = Some i, pr_checked = index\<rparr>
                 | None \<Rightarrow>
                     Inr \<lparr>pr_status = Inexpressible, pr_instruction = None,
                          pr_checked = int (length (atomic_candidates b))\<rparr>)))"

definition paired_increment_target :: "int \<Rightarrow> int \<Rightarrow> int \<Rightarrow> (int list \<Rightarrow> int list result) result" where
  "paired_increment_target first second m =
     (if first = second then Inl ValueError
      else if m < 2 then Inl ValueError
      else Inr (\<lambda>state.
        if in_range first (length state) \<and> in_range second (length state)
        then let r = state[nat first := (state ! nat first + 1) mod m]
             in Inr (r[nat second := (r ! nat second + 1) mod m])
        else Inl IndexError))"

section \<open>The sequence probe\<close>

record sequence_result =
  sr_status :: probe_status
  sr_instructions :: "recipe_instruction list option"
  sr_checked :: int
  sr_visited :: int
  sr_max_length :: int

text \<open>
  The breadth-first search over effects, the tuples of results on all probe states.  \<open>move\<close> applies
  a candidate to an effect.  A search state counts the checks, lists the visited effects and
  collects the next frontier; \<open>Finish\<close> is an early return.
\<close>

record 'e bfs =
  bf_checked :: int
  bf_visited :: "'e list"
  bf_next :: "('e \<times> recipe_instruction list) list"

datatype 'e bfs_outcome = Finish probe_status "recipe_instruction list option" "'e bfs" | Continue "'e bfs"

fun bfs_expand :: "(recipe_instruction \<Rightarrow> 'e \<Rightarrow> 'e result) \<Rightarrow> 'e \<Rightarrow> int option
    \<Rightarrow> 'e \<Rightarrow> recipe_instruction list \<Rightarrow> recipe_instruction list \<Rightarrow> 'e bfs \<Rightarrow> 'e bfs_outcome result" where
  "bfs_expand move target budget effect prefix [] st = Inr (Continue st)"
| "bfs_expand move target budget effect prefix (c # cs) st =
     (if (case budget of None \<Rightarrow> False | Some n \<Rightarrow> bf_checked st \<ge> n)
      then Inr (Finish BudgetExhausted None st)
      else bind_r (move c effect) (\<lambda>next_effect.
        let st = st\<lparr>bf_checked := bf_checked st + 1\<rparr>; sequence = prefix @ [c]
        in if next_effect = target then Inr (Finish Expressible (Some sequence) st)
           else if next_effect \<notin> set (bf_visited st)
           then bfs_expand move target budget effect prefix cs
                  (st\<lparr>bf_visited := bf_visited st @ [next_effect],
                      bf_next := bf_next st @ [(next_effect, sequence)]\<rparr>)
           else bfs_expand move target budget effect prefix cs st))"

fun bfs_level :: "(recipe_instruction \<Rightarrow> 'e \<Rightarrow> 'e result) \<Rightarrow> 'e \<Rightarrow> int option \<Rightarrow> recipe_instruction list
    \<Rightarrow> ('e \<times> recipe_instruction list) list \<Rightarrow> 'e bfs \<Rightarrow> 'e bfs_outcome result" where
  "bfs_level move target budget candidates [] st = Inr (Continue st)"
| "bfs_level move target budget candidates ((effect, prefix) # frontier) st =
     bind_r (bfs_expand move target budget effect prefix candidates st) (\<lambda>out.
       case out of
         Finish x is st' \<Rightarrow> Inr (Finish x is st')
       | Continue st' \<Rightarrow> bfs_level move target budget candidates frontier st')"

fun bfs_loop :: "(recipe_instruction \<Rightarrow> 'e \<Rightarrow> 'e result) \<Rightarrow> 'e \<Rightarrow> int option \<Rightarrow> recipe_instruction list
    \<Rightarrow> nat \<Rightarrow> ('e \<times> recipe_instruction list) list \<Rightarrow> 'e bfs \<Rightarrow> 'e bfs_outcome result" where
  "bfs_loop move target budget candidates 0 frontier st = Inr (Finish Inexpressible None st)"
| "bfs_loop move target budget candidates (Suc n) frontier st =
     bind_r (bfs_level move target budget candidates frontier (st\<lparr>bf_next := []\<rparr>)) (\<lambda>out.
       case out of
         Finish x is st' \<Rightarrow> Inr (Finish x is st')
       | Continue st' \<Rightarrow>
           if bf_next st' = [] then Inr (Finish Inexpressible None st')
           else bfs_loop move target budget candidates n (bf_next st') st')"

fun length_argument :: "pyval \<Rightarrow> int" where
  "length_argument (PInt i) = i"
| "length_argument (PBool b) = (if b then 1 else 0)"
| "length_argument _ = -1"

definition valid_max_length :: "pyval \<Rightarrow> bool" where
  "valid_max_length v = (case v of PInt i \<Rightarrow> 0 \<le> i | _ \<Rightarrow> False)"

definition valid_max_expansions :: "pyval \<Rightarrow> bool" where
  "valid_max_expansions v = (case v of PNone \<Rightarrow> True | PInt i \<Rightarrow> 1 \<le> i | _ \<Rightarrow> False)"

fun budget_of :: "pyval \<Rightarrow> int option" where
  "budget_of (PInt i) = Some i"
| "budget_of _ = None"

definition effect_move :: "int list \<Rightarrow> recipe_instruction \<Rightarrow> int list list \<Rightarrow> int list list result" where
  "effect_move vs c effect = map_r (\<lambda>s. ri_apply c s (PerSlot vs)) effect"

definition sequence_probe :: "recipe_basis \<Rightarrow> (int list \<Rightarrow> int list result) \<Rightarrow> pyval
    \<Rightarrow> int list list option \<Rightarrow> pyval \<Rightarrow> sequence_result result" where
  "sequence_probe b target max_length states max_expansions =
     (let n = length_argument max_length;
          invalid = \<lparr>sr_status = Invalid, sr_instructions = None, sr_checked = 0, sr_visited = 0,
            sr_max_length = n\<rparr>
      in if \<not> valid_max_length max_length then Inr invalid
         else if \<not> valid_max_expansions max_expansions then Inr invalid
         else
           let ss = probe_states b states
           in if ss = [] then Inr invalid
              else bind_r (expected_results b
                     (\<lambda>s. int (length s) = rb_slot_count b \<and> in_domain (rb_slot_values b) s) target ss)
                   (\<lambda>expected. case expected of
                      None \<Rightarrow> Inr invalid
                    | Some ts \<Rightarrow>
                        if ts = ss
                        then Inr \<lparr>sr_status = Expressible, sr_instructions = Some [], sr_checked = 0,
                               sr_visited = 1, sr_max_length = n\<rparr>
                        else bind_r (bfs_loop (effect_move (rb_slot_values b)) ts
                               (budget_of max_expansions) (atomic_candidates b) (nat n) [(ss, [])]
                               \<lparr>bf_checked = 0, bf_visited = [ss], bf_next = []\<rparr>) (\<lambda>out.
                          case out of
                            Finish x is st \<Rightarrow>
                              Inr \<lparr>sr_status = x, sr_instructions = is, sr_checked = bf_checked st,
                                sr_visited = int (length (bf_visited st)), sr_max_length = n\<rparr>
                          | Continue st \<Rightarrow>
                              Inr \<lparr>sr_status = Inexpressible, sr_instructions = None,
                                sr_checked = bf_checked st,
                                sr_visited = int (length (bf_visited st)), sr_max_length = n\<rparr>)))"

section \<open>Domains\<close>

lemma op_class_simps [simp]:
  "is_arith RInc" "is_arith RDec" "is_arith CInc" "is_arith CDec" "\<not> is_arith Noop"
  "\<not> is_arith Copy" "\<not> is_arith Swap" "\<not> is_arith Parallel" "\<not> is_arith (ROther v)"
  "is_binary CInc" "is_binary CDec" "is_binary Copy" "is_binary Swap" "\<not> is_binary Noop"
  "\<not> is_binary RInc" "\<not> is_binary RDec" "\<not> is_binary Parallel" "\<not> is_binary (ROther v)"
  by (simp_all add: is_arith_def is_binary_def)

lemma in_domain_nth:
  "in_domain vs s \<longleftrightarrow> length s = length vs \<and> (\<forall>k < length vs. 0 \<le> s ! k \<and> s ! k < vs ! k)"
  by (auto simp: in_domain_def list_all2_conv_all_nth)

lemma in_domain_length: "in_domain vs s \<Longrightarrow> length s = length vs"
  by (simp add: in_domain_nth)

lemma in_domain_update:
  "in_domain vs s \<Longrightarrow> 0 \<le> v \<Longrightarrow> v < vs ! k \<Longrightarrow> in_domain vs (s[k := v])"
  unfolding in_domain_nth by (metis length_list_update nth_list_update_eq nth_list_update_neq)

lemma normalize_PerSlot:
  "normalize_slot_values (PerSlot vs) n = Inr ws \<longleftrightarrow>
     ws = vs \<and> int (length vs) = n \<and> (\<forall>v\<in>set vs. 2 \<le> v)"
  by (auto simp: not_less) (meson not_le)

lemma normalize_again:
  "normalize_slot_values spec n = Inr vs \<Longrightarrow> 0 \<le> n \<Longrightarrow> normalize_slot_values (PerSlot vs) n = Inr vs"
  by (cases spec) (auto split: if_splits)

lemma normalize_length: "normalize_slot_values spec n = Inr vs \<Longrightarrow> 0 \<le> n \<Longrightarrow> int (length vs) = n"
  by (cases spec) (auto split: if_splits)

text \<open>What an instruction that returns has checked, and the effect it has.\<close>

definition valid_in :: "int \<Rightarrow> recipe_instruction \<Rightarrow> bool" where
  "valid_in n i \<longleftrightarrow> ri_validate n True i = Inr ()"

lemma validate_weaken: "ri_validate n False i = Inr () \<Longrightarrow> ri_validate n True i = Inr ()"
proof (cases i)
  case (RI x f g m cs)
  then show "ri_validate n False i = Inr () \<Longrightarrow> ?thesis"
    by (cases "x = Parallel"; cases "m = None") simp_all
qed

lemma ri_apply_Inr:
  assumes "ri_apply i s spec = Inr t"
  shows "\<exists>vs. normalize_slot_values spec (int (length s)) = Inr vs \<and> in_domain vs s
    \<and> valid_in (int (length s)) i \<and> ri_apply i s (PerSlot vs) = Inr t"
proof -
  obtain x f g m cs where i: "i = RI x f g m cs" by (cases i)
  obtain vs where vs: "normalize_slot_values spec (int (length s)) = Inr vs"
      "ri_validate (int (length s)) True i = Inr ()"
    using assms by (auto simp: i bind_r_eq_Inr simp del: ri_validate.simps normalize_slot_values.simps)
  have dom: "in_domain vs s"
    using assms vs
    by (auto simp: i bind_r_eq_Inr simp del: ri_validate.simps normalize_slot_values.simps
        split: if_splits)
  have "ri_apply i s (PerSlot vs) = ri_apply i s spec"
    using vs normalize_again [OF vs(1)]
    by (simp add: i del: ri_validate.simps normalize_slot_values.simps)
  then show ?thesis using vs dom assms by (auto simp: valid_in_def)
qed

lemma commit_nth:
  "k < length s \<Longrightarrow> commit s A t ! k = (if int k \<in> A then t ! k else s ! k)"
  by (simp add: commit_def)

lemma length_commit [simp]: "length (commit s A t) = length s"
  by (simp add: commit_def)

text \<open>The cases of a returning instruction, for the inductive proofs.\<close>

lemma ri_apply_cases:
  assumes "ri_apply (RI x f g m cs) s (PerSlot vs) = Inr t"
  obtains (parallel) a b ta tb A B where "x = Parallel" "cs = Some [a, b]"
      "ri_apply a s (PerSlot vs) = Inr ta" "ri_apply b s (PerSlot vs) = Inr tb"
      "ri_written_slots a = Inr A" "ri_written_slots b = Inr B" "A \<inter> B = {}"
      "t = commit (commit s A ta) B tb"
  | (noop) "x = Noop" "t = s"
  | (atomic) "x \<noteq> Parallel" "x \<noteq> Noop"
      "atomic_effect x (opt_nat f) (opt_nat g) (case m of None \<Rightarrow> 0 | Some k \<Rightarrow> k) s = Inr t"
      "in_domain vs t"
proof -
  have v: "ri_validate (int (length s)) True (RI x f g m cs) = Inr ()"
    using assms by (auto simp: bind_r_eq_Inr simp del: ri_validate.simps normalize_slot_values.simps)
  have body: "(if x = Parallel then
         (case cs of
            Some [a, b] \<Rightarrow>
              bind_r (ri_apply a s (PerSlot vs)) (\<lambda>first_result.
              bind_r (ri_apply b s (PerSlot vs)) (\<lambda>second_result.
              bind_r (ri_written_slots a) (\<lambda>A.
              bind_r (ri_written_slots b) (\<lambda>B.
                Inr (commit (commit s A first_result) B second_result)))))
          | _ \<Rightarrow> Inl AssertionError)
       else if x = Noop then Inr s
       else if is_arith x \<and> m \<noteq> Some (vs ! opt_nat f) then Inl ValueError
       else bind_r (atomic_effect x (opt_nat f) (opt_nat g)
              (case m of None \<Rightarrow> 0 | Some k \<Rightarrow> k) s) (\<lambda>result.
         if \<not> in_domain vs result then Inl ValueError else Inr result)) = Inr t"
    using assms by (auto simp: bind_r_eq_Inr normalize_PerSlot
        simp del: ri_validate.simps normalize_slot_values.simps split: if_splits)
  show ?thesis
  proof (cases "x = Parallel")
    case True
    obtain a b where ab: "cs = Some [a, b]"
      using body True by (auto split: option.splits list.splits)
    have body': "bind_r (ri_apply a s (PerSlot vs)) (\<lambda>ta. bind_r (ri_apply b s (PerSlot vs)) (\<lambda>tb.
        bind_r (ri_written_slots a) (\<lambda>A. bind_r (ri_written_slots b) (\<lambda>B.
          Inr (commit (commit s A ta) B tb))))) = Inr t"
      using body True ab by simp
    then obtain ta tb A B where *: "ri_apply a s (PerSlot vs) = Inr ta"
        "ri_apply b s (PerSlot vs) = Inr tb" "ri_written_slots a = Inr A" "ri_written_slots b = Inr B"
        "t = commit (commit s A ta) B tb"
      by (auto simp: bind_r_eq_Inr)
    moreover have "A \<inter> B = {}" using v True ab *(3,4) by (auto simp: bind_r_eq_Inr split: if_splits)
    ultimately show ?thesis using parallel [OF True ab] by blast
  next
    case False
    then show ?thesis
      using body by (cases "x = Noop") (auto simp: bind_r_eq_Inr split: if_splits intro: noop atomic)
  qed
qed


lemmas apply_simp_off = ri_validate.simps normalize_slot_values.simps

lemma valid_atomic:
  assumes "valid_in n (RI x f g m cs)" and "x \<noteq> Parallel" and "x \<noteq> Noop"
  shows "in_slots f n" and "is_binary x \<Longrightarrow> in_slots g n" and "x = Swap \<Longrightarrow> f \<noteq> g"
  using assms by (auto simp: valid_in_def split: if_splits)

lemma in_slots_nat:
  "in_slots f (int n) \<Longrightarrow> opt_nat f < n \<and> f = Some (int (opt_nat f))"
  by (cases f) (auto simp: in_slots_def)

text \<open>Applying an instruction keeps the state in its domain.\<close>

lemma apply_in_domain:
  "ri_apply i s (PerSlot vs) = Inr t \<Longrightarrow> in_domain vs t"
proof (induction i arbitrary: t rule: recipe_instruction.induct)
  case (RI x f g m cs)
  have s: "in_domain vs s"
    using ri_apply_Inr [OF RI.prems] by (auto simp: normalize_PerSlot simp del: normalize_slot_values.simps)
  from RI.prems show ?case
  proof (cases rule: ri_apply_cases)
    case (parallel a b ta tb A B)
    then have "in_domain vs ta" "in_domain vs tb" using RI.IH by auto
    then show ?thesis using s by (auto simp: parallel(8) in_domain_nth commit_nth)
  qed (use s in auto)
qed

text \<open>The frame: only written slots change.\<close>

lemma atomic_effect_frame:
  assumes "atomic_effect x f g k s = Inr t" and "j \<noteq> f" and "x = Swap \<Longrightarrow> j \<noteq> g"
  shows "t ! j = s ! j"
  using assms by (auto simp: atomic_effect_def split: if_splits)

lemma written_atomic:
  assumes "ri_written_slots (RI x f g m cs) = Inr W" and "x \<noteq> Parallel" and "x \<noteq> Noop"
  shows "W = (if x = Swap then {the f, the g} else {the f})"
  using assms by (cases f; cases g) (auto simp: bind_r_eq_Inr split: if_splits)

lemma read_atomic:
  assumes "ri_read_slots (RI x f g m cs) = Inr R" and "x \<noteq> Parallel" and "x \<noteq> Noop"
  shows "R = (if is_binary x then {the f, the g} else {the f})"
  using assms by (cases f; cases g) (auto simp: bind_r_eq_Inr split: if_splits)

lemma apply_frame:
  "ri_apply i s (PerSlot vs) = Inr t \<Longrightarrow> ri_written_slots i = Inr W \<Longrightarrow> k < length s \<Longrightarrow>
     int k \<notin> W \<Longrightarrow> t ! k = s ! k"
proof (cases i)
  case (RI x f g m cs)
  assume prems: "ri_apply i s (PerSlot vs) = Inr t" "ri_written_slots i = Inr W" "k < length s"
    "int k \<notin> W"
  from prems(1) show ?thesis unfolding RI
  proof (cases rule: ri_apply_cases)
    case (parallel a b ta tb A B)
    then have "W = A \<union> B" using prems(2) by (auto simp: RI)
    then show ?thesis using prems(3,4) by (simp add: parallel(8) commit_nth)
  next
    case atomic
    have v: "valid_in (int (length s)) i" using ri_apply_Inr [OF prems(1)] by blast
    have "the f = int (opt_nat f)" "x = Swap \<Longrightarrow> the g = int (opt_nat g)"
      using valid_atomic [OF v [unfolded RI] atomic(1,2)] in_slots_nat
      by (auto simp: is_binary_def dest!: in_slots_nat) (metis option.sel)+
    then show ?thesis
      using atomic_effect_frame [OF atomic(3), of k] written_atomic [of x f g m cs W] prems(2,4) atomic
      by (auto simp: RI split: if_splits)
  qed simp
qed

text \<open>
  Locality: what an instruction writes depends only on what it reads.
\<close>

lemma apply_local:
  "ri_apply i s (PerSlot vs) = Inr t \<Longrightarrow> ri_apply i s' (PerSlot vs) = Inr t' \<Longrightarrow>
     ri_read_slots i = Inr R \<Longrightarrow> ri_written_slots i = Inr W \<Longrightarrow>
     (\<forall>k < length vs. int k \<in> R \<longrightarrow> s ! k = s' ! k) \<Longrightarrow>
     k < length vs \<Longrightarrow> int k \<in> W \<Longrightarrow> t ! k = t' ! k"
proof (induction i arbitrary: t t' R W k rule: recipe_instruction.induct)
  case (RI x f g m cs)
  have dom: "in_domain vs s" "in_domain vs s'" "valid_in (int (length s)) (RI x f g m cs)"
    using ri_apply_Inr [OF RI.prems(1)] ri_apply_Inr [OF RI.prems(2)]
    by (auto simp: normalize_PerSlot simp del: normalize_slot_values.simps)
  then have len: "length s = length vs" "length s' = length vs" by (auto dest: in_domain_length)
  from RI.prems(1) show ?case
  proof (cases rule: ri_apply_cases)
    case (parallel a b ta tb A B)
    note p = parallel
    obtain ta' tb' where q: "ri_apply a s' (PerSlot vs) = Inr ta'" "ri_apply b s' (PerSlot vs) = Inr tb'"
        "t' = commit (commit s' A ta') B tb'"
      using RI.prems(2) by (cases rule: ri_apply_cases) (use p in auto)
    obtain Ra Rb where R: "ri_read_slots a = Inr Ra" "ri_read_slots b = Inr Rb" "R = Ra \<union> Rb"
      using RI.prems(3) p(1,2) by (auto simp: bind_r_eq_Inr)
    have W: "W = A \<union> B" using RI.prems(4) p by auto
    have "ta ! k = ta' ! k" if "int k \<in> A"
      using RI.IH [of "[a, b]" a, OF _ _ p(3) q(1) R(1) p(5)] RI.prems(5,6) R(3) p(2) that by auto
    moreover have "tb ! k = tb' ! k" if "int k \<in> B"
      using RI.IH [of "[a, b]" b, OF _ _ p(4) q(2) R(2) p(6)] RI.prems(5,6) R(3) p(2) that by auto
    ultimately show ?thesis
      using RI.prems(6,7) W len by (auto simp: p(8) q(3) commit_nth)
  next
    case noop
    then show ?thesis using RI.prems(4,7) by auto
  next
    case atomic
    obtain f' where f: "f = Some (int f')" "opt_nat f = f'" "f' < length s"
      using in_slots_nat valid_atomic(1) [OF dom(3) atomic(1,2)] by (metis)
    have g: "is_binary x \<Longrightarrow> \<exists>g'. g = Some (int g') \<and> opt_nat g = g' \<and> g' < length s"
      using in_slots_nat valid_atomic(2) [OF dom(3) atomic(1,2)] by (metis)
    have ne: "x = Swap \<Longrightarrow> f \<noteq> g" using valid_atomic(3) [OF dom(3) atomic(1,2)] .
    have t': "atomic_effect x (opt_nat f) (opt_nat g) (case m of None \<Rightarrow> 0 | Some k \<Rightarrow> k) s' = Inr t'"
      using RI.prems(2) by (cases rule: ri_apply_cases) (use atomic in auto)
    have R: "R = (if is_binary x then {the f, the g} else {the f})"
      using read_atomic [OF RI.prems(3) atomic(1,2)] .
    have W: "W = (if x = Swap then {the f, the g} else {the f})"
      using written_atomic [OF RI.prems(4) atomic(1,2)] .
    have same: "s ! f' = s' ! f'" "is_binary x \<Longrightarrow> s ! opt_nat g = s' ! opt_nat g"
      using R RI.prems(5) f g len by (auto split: if_splits) (metis option.sel)
    have "is_binary x \<Longrightarrow> the g = int (opt_nat g)" using g by (metis option.sel)
    then show ?thesis
      using atomic(1-3) t' W f g ne RI.prems(6,7) len same
      by (cases x) (auto simp: atomic_effect_def nth_list_update)
  qed
qed

section \<open>The candidates of a basis\<close>

definition basis_ok :: "recipe_basis \<Rightarrow> bool" where
  "basis_ok b \<longleftrightarrow> 1 \<le> rb_slot_count b \<and> int (length (rb_slot_values b)) = rb_slot_count b
     \<and> (\<forall>v\<in>set (rb_slot_values b). 2 \<le> v)"

lemma normalize_ge_2: "normalize_slot_values spec n = Inr vs \<Longrightarrow> \<forall>v\<in>set vs. 2 \<le> v"
  by (cases spec) (auto simp: not_less split: if_splits)

lemma rb_init_ok: "rb_init n v vs a = Inr b \<Longrightarrow> basis_ok b"
  unfolding rb_init_def basis_ok_def
  by (auto simp: bind_r_eq_Inr simp del: normalize_slot_values.simps
      dest: normalize_length normalize_ge_2 split: if_splits)

text \<open>The atomic candidates, by operation.\<close>

definition atomic_candidate :: "recipe_basis \<Rightarrow> recipe_instruction \<Rightarrow> bool" where
  "atomic_candidate b i \<longleftrightarrow>
     (let n = rb_slot_count b; value = (\<lambda>k. rb_slot_values b ! nat k)
      in i = RI Noop None None None None
       \<or> (\<exists>k. 0 \<le> k \<and> k < n \<and> (i = unary RInc k (value k) \<or> i = unary RDec k (value k)))
       \<or> (\<exists>k. 0 \<le> k \<and> k < n
            \<and> ((\<exists>l. 0 \<le> l \<and> l < n \<and> k \<noteq> l
                  \<and> (i = binary CInc k l (Some (value k)) \<or> i = binary CDec k l (Some (value k))
                     \<or> value l \<le> value k \<and> i = binary Copy k l None))
               \<or> (\<exists>l. k < l \<and> l < n \<and> value k = value l \<and> i = binary Swap k l None))))"

lemma bounds_ex:
  "(\<exists>l\<in>{k + 1..n - 1}. P l) \<longleftrightarrow> (\<exists>l. k < l \<and> l < n \<and> P l)"
  "(\<exists>k\<in>{0..<n}. P k) \<longleftrightarrow> (\<exists>k. 0 \<le> k \<and> k < n \<and> P k)" for n :: int
  by (force simp: add1_zle_eq)+

lemma mem_concat_map: "i \<in> set (concat (map f xs)) \<longleftrightarrow> (\<exists>x\<in>set xs. i \<in> set (f x))"
  by auto

lemma mem_if: "i \<in> set (if c then xs else ys) \<longleftrightarrow> (c \<and> i \<in> set xs \<or> \<not> c \<and> i \<in> set ys)"
  by simp

lemma atomic_part_iff: "i \<in> set (atomic_part b) \<longleftrightarrow> atomic_candidate b i"
  unfolding atomic_part_def atomic_candidate_def Let_def set_append Un_iff mem_concat_map
    set_upto_int set_upto bounds_ex
  by (intro disj_cong ex_cong1 conj_cong arg_cong2 [where f = "(\<or>)"] refl) auto

text \<open>A candidate that returns a state of the domain for every state of the domain.\<close>

definition total_in :: "int list \<Rightarrow> recipe_instruction \<Rightarrow> bool" where
  "total_in vs i \<longleftrightarrow> (\<forall>s. in_domain vs s \<longrightarrow> (\<exists>t. ri_apply i s (PerSlot vs) = Inr t))"

lemma value_ge_2:
  "basis_ok b \<Longrightarrow> 0 \<le> k \<Longrightarrow> k < rb_slot_count b \<Longrightarrow> 2 \<le> rb_slot_values b ! nat k"
  by (auto simp: basis_ok_def)

lemma normalize_basis:
  "basis_ok b \<Longrightarrow> in_domain (rb_slot_values b) s \<Longrightarrow>
     normalize_slot_values (PerSlot (rb_slot_values b)) (int (length s)) = Inr (rb_slot_values b)"
  by (auto simp: basis_ok_def in_domain_length not_less)

lemma domain_nth:
  "in_domain vs s \<Longrightarrow> k < length vs \<Longrightarrow> 0 \<le> s ! k \<and> s ! k < vs ! k"
  by (simp add: in_domain_nth)

lemma unary_total:
  assumes b: "basis_ok b" and "x \<in> {RInc, RDec}" and k: "0 \<le> k" "k < rb_slot_count b"
  shows "total_in (rb_slot_values b) (unary x k (rb_slot_values b ! nat k))"
  unfolding total_in_def
proof (intro allI impI)
  let ?vs = "rb_slot_values b"
  fix s assume s: "in_domain ?vs s"
  have n: "int (length s) = rb_slot_count b" using b s by (simp add: basis_ok_def in_domain_length)
  have m: "2 \<le> ?vs ! nat k" using value_ge_2 b k .
  then have "in_domain ?vs (s[nat k := v mod (?vs ! nat k)])" for v
    by (intro in_domain_update [OF s]) auto
  then show "\<exists>t. ri_apply (unary x k (?vs ! nat k)) s (PerSlot ?vs) = Inr t"
    using assms(2) k m s n normalize_basis [OF b s]
    by (auto simp: unary_def in_slots_def atomic_effect_def simp del: normalize_slot_values.simps)
qed

lemma binary_total:
  assumes b: "basis_ok b" and k: "0 \<le> k" "k < rb_slot_count b" and l: "0 \<le> l" "l < rb_slot_count b"
    and ne: "k \<noteq> l"
    and x: "x \<in> {CInc, CDec} \<and> m = Some (rb_slot_values b ! nat k)
      \<or> x = Copy \<and> m = None \<and> rb_slot_values b ! nat l \<le> rb_slot_values b ! nat k
      \<or> x = Swap \<and> m = None \<and> rb_slot_values b ! nat l = rb_slot_values b ! nat k"
  shows "total_in (rb_slot_values b) (binary x k l m)"
  unfolding total_in_def
proof (intro allI impI)
  let ?vs = "rb_slot_values b"
  fix s assume s: "in_domain ?vs s"
  have n: "int (length s) = rb_slot_count b" using b s by (simp add: basis_ok_def in_domain_length)
  have m2: "2 \<le> ?vs ! nat k" using value_ge_2 b k .
  then have dom: "in_domain ?vs (s[nat k := v mod (?vs ! nat k)])" for v
    by (intro in_domain_update [OF s]) auto
  have nk: "nat k < length ?vs" "nat l < length ?vs" using b k l by (auto simp: basis_ok_def)
  have sk: "0 \<le> s ! nat k" "s ! nat k < ?vs ! nat k" "0 \<le> s ! nat l" "s ! nat l < ?vs ! nat l"
    using domain_nth [OF s nk(1)] domain_nth [OF s nk(2)] by auto
  have copy: "in_domain ?vs (s[nat k := s ! nat l])" if "?vs ! nat l \<le> ?vs ! nat k"
    using in_domain_update [OF s, of "s ! nat l" "nat k"] sk that by simp
  then have swap: "in_domain ?vs (s[nat k := s ! nat l, nat l := s ! nat k])"
    if "?vs ! nat l = ?vs ! nat k"
    using in_domain_update [of ?vs "s[nat k := s ! nat l]" "s ! nat k" "nat l"] sk that by simp
  show "\<exists>t. ri_apply (binary x k l m) s (PerSlot ?vs) = Inr t"
    using x k l m2 s n ne dom copy swap normalize_basis [OF b s]
    by (elim disjE conjE; auto simp: binary_def in_slots_def atomic_effect_def
        simp del: normalize_slot_values.simps)
qed

lemma noop_total: "basis_ok b \<Longrightarrow> total_in (rb_slot_values b) (RI Noop None None None None)"
  by (auto simp: total_in_def normalize_basis simp del: normalize_slot_values.simps)

lemma atomic_total:
  assumes b: "basis_ok b" and "atomic_candidate b i"
  shows "total_in (rb_slot_values b) i"
  using assms(2) unfolding atomic_candidate_def Let_def
proof (elim disjE exE conjE)
  assume "i = RI Noop None None None None"
  then show ?thesis using noop_total b by simp
qed (use unary_total [OF b] binary_total [OF b] in auto)

lemma pairs_after_mem: "(x, y) \<in> set (pairs_after xs) \<Longrightarrow> x \<in> set xs \<and> y \<in> set xs"
  by (induction xs) auto

lemma total_validates:
  assumes "basis_ok b" and "total_in (rb_slot_values b) i"
  shows "ri_validate (rb_slot_count b) True i = Inr ()"
proof -
  let ?zero = "replicate (length (rb_slot_values b)) (0::int)"
  have "in_domain (rb_slot_values b) ?zero"
    using assms(1) by (auto simp: in_domain_nth basis_ok_def dest!: nth_mem)
  then obtain t where t: "ri_apply i ?zero (PerSlot (rb_slot_values b)) = Inr t"
    using assms(2) by (auto simp: total_in_def)
  have "valid_in (int (length ?zero)) i" using ri_apply_Inr [OF t] by blast
  then show ?thesis using assms(1) by (simp add: valid_in_def basis_ok_def)
qed

lemma atomic_not_parallel: "atomic_candidate b i \<Longrightarrow> ri_op i \<noteq> Parallel"
  by (auto simp: atomic_candidate_def Let_def unary_def binary_def)

lemma validate_atomic: "ri_op i \<noteq> Parallel \<Longrightarrow> ri_validate n False i = ri_validate n True i"
  by (cases i) simp

lemma parallel_apply:
  assumes b: "basis_ok b" and i: "atomic_candidate b i" and j: "atomic_candidate b j"
    and d: "disjoint_writers (i, j)" and s: "in_domain (rb_slot_values b) s"
  shows "\<exists>ti tj A B. ri_apply i s (PerSlot (rb_slot_values b)) = Inr ti
    \<and> ri_apply j s (PerSlot (rb_slot_values b)) = Inr tj
    \<and> ri_written_slots i = Inr A \<and> ri_written_slots j = Inr B \<and> A \<inter> B = {}
    \<and> ri_apply (parallel_of i j) s (PerSlot (rb_slot_values b)) = Inr (commit (commit s A ti) B tj)"
proof -
  let ?vs = "rb_slot_values b"
  obtain A B where w: "ri_written_slots i = Inr A" "ri_written_slots j = Inr B" "A \<inter> B = {}"
    using d by (auto simp: disjoint_writers_def split: sum.splits)
  obtain ti where ti: "ri_apply i s (PerSlot ?vs) = Inr ti"
    using atomic_total [OF b i] s unfolding total_in_def by blast
  obtain tj where "ri_apply j s (PerSlot ?vs) = Inr tj"
    using atomic_total [OF b j] s unfolding total_in_def by blast
  note t = ti this
  have n: "int (length s) = rb_slot_count b" using b s by (simp add: basis_ok_def in_domain_length)
  have "ri_validate (rb_slot_count b) False i = Inr ()" "ri_validate (rb_slot_count b) False j = Inr ()"
    using total_validates [OF b atomic_total [OF b i]] total_validates [OF b atomic_total [OF b j]]
      validate_atomic atomic_not_parallel i j by auto
  then show ?thesis
    using w t n s normalize_basis [OF b s]
    by (simp add: parallel_of_def del: normalize_slot_values.simps)
qed

lemma candidates_cases:
  "i \<in> set (atomic_candidates b) \<Longrightarrow> atomic_candidate b i
     \<or> (rb_allow_parallel b \<and> (\<exists>l r. i = parallel_of l r \<and> atomic_candidate b l \<and> atomic_candidate b r
          \<and> disjoint_writers (l, r)))"
  unfolding atomic_candidates_def
  by (auto simp: atomic_part_iff split: if_splits) (metis atomic_part_iff pairs_after_mem)

lemma candidates_total:
  assumes "basis_ok b" and "i \<in> set (atomic_candidates b)"
  shows "total_in (rb_slot_values b) i"
  using candidates_cases [OF assms(2)]
proof (elim disjE exE conjE)
  assume "atomic_candidate b i"
  then show ?thesis by (rule atomic_total [OF assms(1)])
next
  fix l r assume "i = parallel_of l r" "atomic_candidate b l" "atomic_candidate b r"
    "disjoint_writers (l, r)"
  then show ?thesis using parallel_apply [OF assms(1)] unfolding total_in_def by blast
qed

section \<open>The atomic probe, characterised\<close>

definition result_on :: "int list \<Rightarrow> recipe_instruction \<Rightarrow> int list \<Rightarrow> int list" where
  "result_on vs i s = (case ri_apply i s (PerSlot vs) of Inl e \<Rightarrow> [] | Inr t \<Rightarrow> t)"

lemma result_on_total:
  "total_in vs i \<Longrightarrow> in_domain vs s \<Longrightarrow> ri_apply i s (PerSlot vs) = Inr (result_on vs i s)"
  by (auto simp: total_in_def result_on_def split: sum.splits)

lemma all_states_iff: "s \<in> set (all_states vs) \<longleftrightarrow> in_domain vs s"
proof (induction vs arbitrary: s)
  case Nil
  then show ?case by (auto simp: in_domain_def)
next
  case (Cons n vs)
  then show ?case by (cases s) (auto simp: in_domain_def image_iff)
qed

text \<open>A target that returns a register state of the domain on the given states.\<close>

definition target_fine :: "recipe_basis \<Rightarrow> (int list \<Rightarrow> int list result) \<Rightarrow> int list list \<Rightarrow> bool" where
  "target_fine b target ss \<longleftrightarrow>
     (\<forall>s\<in>set ss. \<exists>t. target s = Inr t \<and> in_domain (rb_slot_values b) t)"

definition wanted :: "(int list \<Rightarrow> int list result) \<Rightarrow> int list \<Rightarrow> int list" where
  "wanted target s = (case target s of Inl e \<Rightarrow> [] | Inr t \<Rightarrow> t)"

lemma expected_results_fine:
  assumes "basis_ok b" and "target_fine b target ss" and "\<forall>s\<in>set ss. ok s"
  shows "expected_results b ok target ss = Inr (Some (map (wanted target) ss))"
  using assms(2,3)
proof (induction ss)
  case (Cons s ss)
  obtain t where t: "target s = Inr t" "in_domain (rb_slot_values b) t"
    using Cons.prems(1) by (auto simp: target_fine_def)
  moreover have "int (length t) = rb_slot_count b"
    using t(2) assms(1) by (simp add: basis_ok_def in_domain_length)
  moreover have "expected_results b ok target ss = Inr (Some (map (wanted target) ss))"
    using Cons by (simp add: target_fine_def)
  ultimately show ?case using Cons.prems(2) by (simp add: wanted_def)
qed simp

lemma matches_all_total:
  assumes "total_in vs i" and "\<forall>s\<in>set ss. in_domain vs s"
  shows "matches_all vs i (zip ss (map f ss)) = Inr (\<forall>s\<in>set ss. result_on vs i s = f s)"
  using assms(2) by (induction ss) (auto simp: result_on_total [OF assms(1)])

text \<open>\<open>matching vs f ss i\<close>: the candidate has the wanted result on every probe state.\<close>

definition matching :: "int list \<Rightarrow> (int list \<Rightarrow> int list) \<Rightarrow> int list list \<Rightarrow> recipe_instruction \<Rightarrow> bool" where
  "matching vs f ss i \<longleftrightarrow> (\<forall>s\<in>set ss. result_on vs i s = f s)"

lemma first_match_spec:
  assumes "\<forall>i\<in>set is. total_in vs i" and "\<forall>s\<in>set ss. in_domain vs s"
  shows "(\<forall>i\<in>set is. \<not> matching vs f ss i) \<and> first_match vs (zip ss (map f ss)) k is = Inr None
    \<or> (\<exists>pre i post. is = pre @ i # post \<and> matching vs f ss i \<and> (\<forall>j\<in>set pre. \<not> matching vs f ss j)
        \<and> first_match vs (zip ss (map f ss)) k is = Inr (Some (i, k + int (length pre))))"
  using assms(1)
proof (induction "is" arbitrary: k)
  case Nil
  then show ?case by simp
next
  case (Cons i "is")
  have m: "matches_all vs i (zip ss (map f ss)) = Inr (matching vs f ss i)"
    using matches_all_total Cons.prems assms(2) by (simp add: matching_def)
  show ?case
  proof (cases "matching vs f ss i")
    case True
    then show ?thesis using m by (intro disjI2 exI [of _ "[]"]) simp
  next
    case False
    have eq: "first_match vs (zip ss (map f ss)) k (i # is)
        = first_match vs (zip ss (map f ss)) (k + 1) is"
      using m False by simp
    have "\<forall>i\<in>set is. total_in vs i" using Cons.prems by simp
    from Cons.IH [OF this, of "k + 1"] show ?thesis
    proof (elim disjE exE conjE)
      fix pre i' post
      assume "is = pre @ i' # post" "matching vs f ss i'" "\<forall>j\<in>set pre. \<not> matching vs f ss j"
        "first_match vs (zip ss (map f ss)) (k + 1) is = Inr (Some (i', k + 1 + int (length pre)))"
      then show ?thesis
        using eq False by (intro disjI2 exI [of _ "i # pre"] exI [of _ i'] exI [of _ post]) auto
    qed (use eq False in auto)
  qed
qed

lemma expressibility_probe_cases:
  assumes b: "basis_ok b" and ss: "probe_states b states \<noteq> []"
    and dom: "\<forall>s\<in>set (probe_states b states). in_domain (rb_slot_values b) s"
    and t: "target_fine b target (probe_states b states)"
  shows "\<exists>r. expressibility_probe b target states = Inr r \<and>
    (case pr_status r of
       Expressible \<Rightarrow> \<exists>i. pr_instruction r = Some i \<and> i \<in> set (atomic_candidates b)
         \<and> (\<forall>s\<in>set (probe_states b states). ri_apply i s (PerSlot (rb_slot_values b)) = target s)
     | Inexpressible \<Rightarrow> pr_instruction r = None \<and> pr_checked r = int (length (atomic_candidates b))
         \<and> (\<forall>i\<in>set (atomic_candidates b). \<exists>s\<in>set (probe_states b states).
              ri_apply i s (PerSlot (rb_slot_values b)) \<noteq> target s)
     | _ \<Rightarrow> False)"
proof -
  let ?ss = "probe_states b states" and ?vs = "rb_slot_values b" and ?f = "wanted target"
  have exp: "expected_results b (\<lambda>s. int (length s) = rb_slot_count b) target ?ss
      = Inr (Some (map ?f ?ss))"
  proof (rule expected_results_fine [OF b t])
    show "\<forall>s\<in>set ?ss. int (length s) = rb_slot_count b"
      using dom b in_domain_length unfolding basis_ok_def by metis
  qed
  have agree: "ri_apply i s (PerSlot ?vs) = target s \<longleftrightarrow> result_on ?vs i s = ?f s"
    if i: "i \<in> set (atomic_candidates b)" and s: "s \<in> set ?ss" for i s
  proof -
    have "ri_apply i s (PerSlot ?vs) = Inr (result_on ?vs i s)"
      using result_on_total [OF candidates_total [OF b i]] dom s by blast
    moreover have "target s = Inr (?f s)" using t s by (auto simp: target_fine_def wanted_def)
    ultimately show ?thesis by simp
  qed
  have cands: "\<forall>i\<in>set (atomic_candidates b). total_in ?vs i"
    using candidates_total [OF b] by blast
  from first_match_spec [OF cands dom, of ?f 1] show ?thesis
  proof (elim disjE exE conjE)
    assume "\<forall>i\<in>set (atomic_candidates b). \<not> matching ?vs ?f ?ss i"
      "first_match ?vs (zip ?ss (map ?f ?ss)) 1 (atomic_candidates b) = Inr None"
    then show ?thesis
      using ss exp agree by (simp add: expressibility_probe_def Let_def matching_def)
  next
    fix pre i post
    assume *: "atomic_candidates b = pre @ i # post" "matching ?vs ?f ?ss i"
      "first_match ?vs (zip ?ss (map ?f ?ss)) 1 (atomic_candidates b)
        = Inr (Some (i, 1 + int (length pre)))"
    then have "i \<in> set (atomic_candidates b)" by simp
    then show ?thesis
      using * ss exp agree [of i] by (simp add: expressibility_probe_def Let_def matching_def)
  qed
qed

end
