(* ===== verification/RecipeSequence.thy ===== *)
theory RecipeSequence
  imports RecipeBasis
begin

text \<open>
  The breadth-first sequence probe of \<open>recipe_basis.py\<close>: the search proved correct once, over any
  total move relation, and interpreted on the effects of the candidates.
\<close>

section \<open>Breadth-first search over a move relation\<close>

type_synonym 'e move = "recipe_instruction \<Rightarrow> 'e \<Rightarrow> 'e result"

fun run_moves :: "'e move \<Rightarrow> recipe_instruction list \<Rightarrow> 'e \<Rightarrow> 'e result" where
  "run_moves move [] e = Inr e"
| "run_moves move (c # cs) e = bind_r (move c e) (run_moves move cs)"

lemma run_moves_append:
  "run_moves move (cs @ ds) e = bind_r (run_moves move cs e) (run_moves move ds)"
  by (induction cs arbitrary: e) (auto simp: bind_r_def split: sum.splits)

lemma run_moves_snoc:
  "run_moves move (cs @ [c]) e = bind_r (run_moves move cs e) (move c)"
  by (induction cs arbitrary: e) (auto simp: bind_r_def split: sum.splits)

definition within_budget :: "int option \<Rightarrow> 'e bfs \<Rightarrow> bool" where
  "within_budget budget st = (case budget of None \<Rightarrow> True | Some n \<Rightarrow> bf_checked st \<le> n)"

lemma within_budget_cong:
  "bf_checked st = bf_checked st' \<Longrightarrow> within_budget budget st = within_budget budget st'"
  by (cases budget) (simp_all add: within_budget_def)

text \<open>
  What a stretch of the search over the work items \<open>(effect, prefix, candidate)\<close> may do: the
  contract that \<open>bfs_expand\<close> and \<open>bfs_level\<close> meet.
\<close>

type_synonym 'e item = "'e \<times> recipe_instruction list \<times> recipe_instruction"

definition finds :: "'e move \<Rightarrow> 'e \<Rightarrow> recipe_instruction list \<Rightarrow> 'e item \<Rightarrow> bool" where
  "finds move e' s w = (case w of (e, p, c) \<Rightarrow> s = p @ [c] \<and> move c e = Inr e')"

definition covered :: "'e move \<Rightarrow> 'e bfs \<Rightarrow> 'e item \<Rightarrow> bool" where
  "covered move st w = (case w of (e, p, c) \<Rightarrow> \<exists>e'\<in>set (bf_visited st). move c e = Inr e')"

definition adds :: "'e move \<Rightarrow> 'e \<Rightarrow> 'e item set \<Rightarrow> 'e bfs \<Rightarrow> 'e bfs
    \<Rightarrow> ('e \<times> recipe_instruction list) list \<Rightarrow> bool" where
  "adds move target W st st' new \<longleftrightarrow>
     bf_next st' = bf_next st @ new
     \<and> set (bf_visited st') = set (bf_visited st) \<union> fst ` set new
     \<and> target \<notin> fst ` set new
     \<and> (\<forall>n\<in>set new. \<exists>w\<in>W. finds move (fst n) (snd n) w)"

fun work_outcome :: "'e move \<Rightarrow> 'e \<Rightarrow> int option \<Rightarrow> 'e item set \<Rightarrow> 'e bfs \<Rightarrow> 'e bfs_outcome \<Rightarrow> bool"
  where
  "work_outcome move target budget W st (Finish x s st') \<longleftrightarrow>
     within_budget budget st'
     \<and> (x = BudgetExhausted \<and> s = None \<and> budget = Some (bf_checked st')
        \<or> x = Expressible \<and> (\<exists>q. s = Some q \<and> (\<exists>w\<in>W. finds move target q w)))"
| "work_outcome move target budget W st (Continue st') \<longleftrightarrow>
     within_budget budget st' \<and> (\<exists>new. adds move target W st st' new)
     \<and> (\<forall>w\<in>W. covered move st' w)"

lemma work_nothing: "within_budget budget st \<Longrightarrow> work_outcome move target budget {} st (Continue st)"
proof -
  have "adds move target {} st st []" by (simp add: adds_def)
  then show "within_budget budget st \<Longrightarrow> work_outcome move target budget {} st (Continue st)" by auto
qed

lemma adds_trans:
  assumes "adds move target W st st' new" and "adds move target W' st' st'' new'"
  shows "adds move target (W \<union> W') st st'' (new @ new')"
  using assms unfolding adds_def
proof (elim conjE, intro conjI)
  assume "\<forall>n\<in>set new. \<exists>w\<in>W. finds move (fst n) (snd n) w"
    "\<forall>n\<in>set new'. \<exists>w\<in>W'. finds move (fst n) (snd n) w"
  then show "\<forall>n\<in>set (new @ new'). \<exists>w\<in>W \<union> W'. finds move (fst n) (snd n) w"
    by (metis Un_iff set_append)
qed auto

lemma covered_mono:
  "adds move target W st st' new \<Longrightarrow> covered move st w \<Longrightarrow> covered move st' w"
  by (auto simp: adds_def covered_def split: prod.splits)

lemma work_trans:
  assumes "work_outcome move target budget W st (Continue st')"
    and "work_outcome move target budget W' st' out"
  shows "work_outcome move target budget (W \<union> W') st out"
proof (cases out)
  case (Finish x s st'')
  then show ?thesis using assms(2) by auto
next
  case (Continue st'')
  obtain new where new: "adds move target W st st' new" using assms(1) by auto
  obtain new' where new': "adds move target W' st' st'' new'" using assms(2) Continue by auto
  have "adds move target (W \<union> W') st st'' (new @ new')" using adds_trans [OF new new'] .
  moreover have "\<forall>w\<in>W \<union> W'. covered move st'' w"
    using assms Continue covered_mono [OF new'] by auto
  ultimately show ?thesis using assms(2) Continue by auto
qed

locale move_system =
  fixes move :: "'e move" and ok :: "'e \<Rightarrow> bool" and cands :: "recipe_instruction list"
  assumes move_total: "ok e \<Longrightarrow> c \<in> set cands \<Longrightarrow> \<exists>e'. move c e = Inr e' \<and> ok e'"
begin

lemma expand_outcome:
  assumes "ok e" and "set cs \<subseteq> set cands" and "within_budget budget st"
  shows "\<exists>out. bfs_expand move target budget e p cs st = Inr out
    \<and> work_outcome move target budget {(e, p, c) | c. c \<in> set cs} st out"
  using assms(2,3)
proof (induction cs arbitrary: st)
  case Nil
  then show ?case using work_nothing [OF Nil(2)] by (simp del: work_outcome.simps)
next
  case (Cons c cs)
  let ?stop = "case budget of None \<Rightarrow> False | Some n \<Rightarrow> bf_checked st \<ge> n"
  obtain e' where e': "move c e = Inr e'" using move_total [OF assms(1), of c] Cons.prems(1) by auto
  have items: "{(e, p, d) | d. d \<in> set (c # cs)} = {(e, p, c)} \<union> {(e, p, d) | d. d \<in> set cs}" by auto
  show ?case
  proof (cases ?stop)
    case True
    then show ?thesis using Cons.prems(2) by (auto simp: within_budget_def split: option.splits)
  next
    case False
    obtain st1 where st1_def: "st1 = st\<lparr>bf_checked := bf_checked st + 1\<rparr>" by simp
    have w1: "within_budget budget st1"
      using False by (auto simp: st1_def within_budget_def split: option.splits)
    show ?thesis
    proof (cases "e' = target")
      case True
      then show ?thesis
        using False e' w1 by (auto simp: Let_def finds_def st1_def)
    next
      case ne: False
      obtain st2 where st2_def: "st2 = (if e' \<in> set (bf_visited st) then st1
        else st1\<lparr>bf_visited := bf_visited st1 @ [e'], bf_next := bf_next st1 @ [(e', p @ [c])]\<rparr>)"
        by simp
      have "bf_checked st2 = bf_checked st1" by (simp add: st2_def)
      then have w2: "within_budget budget st2" using w1 within_budget_cong by blast
      have "adds move target {(e, p, c)} st st2
          (if e' \<in> set (bf_visited st) then [] else [(e', p @ [c])])"
        using e' ne by (auto simp: adds_def st2_def st1_def finds_def)
      moreover have "covered move st2 (e, p, c)"
        using e' by (auto simp: covered_def st2_def st1_def)
      ultimately have one: "work_outcome move target budget {(e, p, c)} st (Continue st2)"
        using w2 by auto
      have "bfs_expand move target budget e p (c # cs) st = bfs_expand move target budget e p cs st2"
        using False e' ne by (simp add: Let_def st2_def st1_def)
      then show ?thesis
        using Cons.IH [OF _ w2] Cons.prems(1) work_trans [OF one] unfolding items by auto
    qed
  qed
qed

lemma level_outcome:
  assumes "\<forall>x\<in>set F. ok (fst x)" and "within_budget budget st"
  shows "\<exists>out. bfs_level move target budget cands F st = Inr out
    \<and> work_outcome move target budget {(fst x, snd x, c) | x c. x \<in> set F \<and> c \<in> set cands} st out"
  using assms
proof (induction F arbitrary: st)
  case Nil
  then show ?case using work_nothing [OF Nil(2)] by (simp del: work_outcome.simps)
next
  case (Cons x F)
  obtain e p where x: "x = (e, p)" by (cases x)
  let ?W = "{(e, p, c) | c. c \<in> set cands}"
  have items: "{(fst y, snd y, c) | y c. y \<in> set (x # F) \<and> c \<in> set cands}
      = ?W \<union> {(fst y, snd y, c) | y c. y \<in> set F \<and> c \<in> set cands}" by (auto simp: x)
  obtain out where out: "bfs_expand move target budget e p cands st = Inr out"
      "work_outcome move target budget ?W st out"
    using expand_outcome [of e cands budget st target p] Cons.prems x by auto
  show ?case
  proof (cases out)
    case (Finish y s st')
    then show ?thesis using out by (auto simp: x)
  next
    case (Continue st')
    then have "within_budget budget st'" using out(2) by auto
    then show ?thesis
      using Cons.IH [of st'] Cons.prems(1) out work_trans [of move target budget ?W st st'] Continue
      unfolding items by (auto simp: x)
  qed
qed

text \<open>The state of the search before a level: every sequence of at most \<open>d\<close> candidates has its
  effect among the visited ones, and a visited effect is on the frontier or fully expanded.\<close>

definition search_inv :: "'e \<Rightarrow> 'e \<Rightarrow> int option \<Rightarrow> nat \<Rightarrow> ('e \<times> recipe_instruction list) list \<Rightarrow> 'e bfs
    \<Rightarrow> bool" where
  "search_inv start target budget d F st \<longleftrightarrow>
     within_budget budget st \<and> target \<notin> set (bf_visited st)
     \<and> (\<forall>x\<in>set F. ok (fst x) \<and> set (snd x) \<subseteq> set cands \<and> length (snd x) = d
          \<and> run_moves move (snd x) start = Inr (fst x))
     \<and> (\<forall>cs. set cs \<subseteq> set cands \<longrightarrow> length cs \<le> d \<longrightarrow>
          (\<exists>e\<in>set (bf_visited st). run_moves move cs start = Inr e))
     \<and> (\<forall>e\<in>set (bf_visited st). e \<in> fst ` set F
          \<or> (\<forall>c\<in>set cands. \<exists>e'\<in>set (bf_visited st). move c e = Inr e'))"

lemma inv_start:
  assumes "ok start" and "start \<noteq> target" and "within_budget budget st"
    and "bf_visited st = [start]"
  shows "search_inv start target budget 0 [(start, [])] st"
  using assms by (auto simp: search_inv_def)

lemma inv_reach:
  "search_inv start target budget d F st \<Longrightarrow> set cs \<subseteq> set cands \<Longrightarrow> length cs \<le> d \<Longrightarrow>
     run_moves move cs start \<noteq> Inr target"
  unfolding search_inv_def by (metis sum.inject(2))

lemma inv_level:
  assumes inv: "search_inv start target budget d F st"
    and out: "work_outcome move target budget {(fst x, snd x, c) | x c. x \<in> set F \<and> c \<in> set cands}
      (st\<lparr>bf_next := []\<rparr>) (Continue st')"
  shows "search_inv start target budget (Suc d) (bf_next st') st'"
proof -
  let ?W = "{(fst x, snd x, c) | x c. x \<in> set F \<and> c \<in> set cands}"
  let ?V = "set (bf_visited st)" and ?V' = "set (bf_visited st')"
  obtain new where "adds move target ?W (st\<lparr>bf_next := []\<rparr>) st' new" and cov: "\<forall>w\<in>?W. covered move st' w"
    and w: "within_budget budget st'" using out by auto
  then have new: "bf_next st' = new" "?V' = ?V \<union> fst ` set new" "target \<notin> fst ` set new"
      "\<forall>n\<in>set new. \<exists>w\<in>?W. finds move (fst n) (snd n) w" by (auto simp: adds_def)
  have old: "\<forall>x\<in>set F. ok (fst x) \<and> set (snd x) \<subseteq> set cands \<and> length (snd x) = d
          \<and> run_moves move (snd x) start = Inr (fst x)"
    and reach: "\<And>cs. set cs \<subseteq> set cands \<Longrightarrow> length cs \<le> d \<Longrightarrow> \<exists>e\<in>?V. run_moves move cs start = Inr e"
    and closed: "\<forall>e\<in>?V. e \<in> fst ` set F \<or> (\<forall>c\<in>set cands. \<exists>e'\<in>?V. move c e = Inr e')"
    and fresh: "target \<notin> ?V"
    using inv unfolding search_inv_def by auto
  have step: "\<exists>e'\<in>?V'. move c e = Inr e'" if e: "e \<in> ?V" and c: "c \<in> set cands" for e c
  proof (cases "e \<in> fst ` set F")
    case True
    then obtain x where "x \<in> set F" "fst x = e" by auto
    then have "(e, snd x, c) \<in> ?W" using c by auto
    then have "covered move st' (e, snd x, c)" using cov by blast
    then show ?thesis by (auto simp: covered_def)
  next
    case False
    then have "\<exists>e'\<in>?V. move c e = Inr e'" using closed e c by blast
    then show ?thesis unfolding new(2) by blast
  qed
  have frontier: "ok (fst n) \<and> set (snd n) \<subseteq> set cands \<and> length (snd n) = Suc d
      \<and> run_moves move (snd n) start = Inr (fst n)" if n: "n \<in> set new" for n
  proof -
    obtain x c where x: "x \<in> set F" "c \<in> set cands" "snd n = snd x @ [c]" "move c (fst x) = Inr (fst n)"
      using new(4) n unfolding finds_def by auto
    then have "ok (fst n)" using old move_total [of "fst x" c] by auto
    then show ?thesis using x old by (auto simp: run_moves_snoc)
  qed
  have reach': "\<exists>e\<in>?V'. run_moves move cs start = Inr e"
    if cs: "set cs \<subseteq> set cands" "length cs \<le> Suc d" for cs
  proof (cases "length cs \<le> d")
    case True
    then show ?thesis using reach [OF cs(1)] new(2) by auto
  next
    case False
    then have "cs \<noteq> []" by auto
    then obtain ds c where ds: "cs = ds @ [c]" by (metis rev_exhaust)
    then obtain e where e: "e \<in> ?V" "run_moves move ds start = Inr e" using reach [of ds] cs by auto
    then show ?thesis using step [OF e(1), of c] cs(1) ds by (auto simp: run_moves_snoc)
  qed
  show ?thesis
    unfolding search_inv_def new(1)
  proof (intro conjI)
    show "\<forall>e\<in>?V'. e \<in> fst ` set new \<or> (\<forall>c\<in>set cands. \<exists>e'\<in>?V'. move c e = Inr e')"
      using step new(2) by auto
    show "\<forall>cs. set cs \<subseteq> set cands \<longrightarrow> length cs \<le> Suc d \<longrightarrow> (\<exists>e\<in>?V'. run_moves move cs start = Inr e)"
      using reach' by blast
    show "\<forall>x\<in>set new. ok (fst x) \<and> set (snd x) \<subseteq> set cands \<and> length (snd x) = Suc d
          \<and> run_moves move (snd x) start = Inr (fst x)" using frontier by blast
  qed (use w new fresh in auto)
qed

text \<open>With no frontier left the visited effects are closed under every candidate.\<close>

lemma inv_closed:
  assumes inv: "search_inv start target budget d [] st" and "set cs \<subseteq> set cands"
  shows "\<exists>e\<in>set (bf_visited st). run_moves move cs start = Inr e"
  using assms(2)
proof (induction cs rule: rev_induct)
  case Nil
  have "\<forall>cs. set cs \<subseteq> set cands \<longrightarrow> length cs \<le> d \<longrightarrow>
      (\<exists>e\<in>set (bf_visited st). run_moves move cs start = Inr e)"
    using inv unfolding search_inv_def by blast
  from this [rule_format, of "[]"] show ?case by simp
next
  case (snoc c cs)
  then obtain e where e: "e \<in> set (bf_visited st)" "run_moves move cs start = Inr e" by auto
  have "\<forall>e\<in>set (bf_visited st). \<forall>c\<in>set cands. \<exists>e'\<in>set (bf_visited st). move c e = Inr e'"
    using inv unfolding search_inv_def by simp
  then show ?case using e snoc.prems by (auto simp: run_moves_snoc)
qed

lemma loop_outcome:
  assumes "search_inv start target budget d F st"
  shows "\<exists>x s st'. bfs_loop move target budget cands n F st = Inr (Finish x s st')
    \<and> within_budget budget st' \<and>
    (case x of
       Expressible \<Rightarrow> \<exists>q. s = Some q \<and> set q \<subseteq> set cands \<and> length q \<le> d + n
         \<and> run_moves move q start = Inr target
         \<and> (\<forall>cs. set cs \<subseteq> set cands \<longrightarrow> length cs < length q \<longrightarrow> run_moves move cs start \<noteq> Inr target)
     | Inexpressible \<Rightarrow> s = None
         \<and> (\<forall>cs. set cs \<subseteq> set cands \<longrightarrow> length cs \<le> d + n \<longrightarrow> run_moves move cs start \<noteq> Inr target)
     | BudgetExhausted \<Rightarrow> s = None \<and> budget = Some (bf_checked st')
     | Invalid \<Rightarrow> False)"
  using assms
proof (induction n arbitrary: d F st)
  case 0
  then show ?case using inv_reach [OF 0] by (auto simp: search_inv_def)
next
  case (Suc n)
  let ?W = "{(fst x, snd x, c) | x c. x \<in> set F \<and> c \<in> set cands}"
  have "\<forall>x\<in>set F. ok (fst x)" "within_budget budget (st\<lparr>bf_next := []\<rparr>)"
    using Suc.prems within_budget_cong [of "st\<lparr>bf_next := []\<rparr>" st] by (auto simp: search_inv_def)
  then obtain out where out: "bfs_level move target budget cands F (st\<lparr>bf_next := []\<rparr>) = Inr out"
      "work_outcome move target budget ?W (st\<lparr>bf_next := []\<rparr>) out"
    using level_outcome by blast
  show ?case
  proof (cases out)
    case (Continue st')
    note inv = inv_level [OF Suc.prems out(2) [unfolded Continue]]
    show ?thesis
    proof (cases "bf_next st' = []")
      case True
      have "run_moves move cs start \<noteq> Inr target" if "set cs \<subseteq> set cands" for cs
        using inv_closed [OF inv [unfolded True] that] inv by (auto simp: search_inv_def)
      then show ?thesis
        using True inv out(1) Continue by (auto simp: search_inv_def)
    next
      case False
      then have "bfs_loop move target budget cands (Suc n) F st
          = bfs_loop move target budget cands n (bf_next st') st'" using out(1) Continue by simp
      moreover have "d + Suc n = Suc d + n" by simp
      ultimately show ?thesis using Suc.IH [OF inv] by (simp only:)
    qed
  next
    case (Finish x s st')
    show ?thesis
    proof (cases "x = BudgetExhausted")
      case True
      then show ?thesis using Finish out by auto
    next
      case False
      then obtain q w where q: "x = Expressible" "s = Some q" "w \<in> ?W" "finds move target q w"
          "within_budget budget st'"
        using out(2) Finish by auto
      then obtain y c where y: "y \<in> set F" "c \<in> set cands" "q = snd y @ [c]" "move c (fst y) = Inr target"
        by (auto simp: finds_def)
      have old: "set (snd y) \<subseteq> set cands" "length (snd y) = d" "run_moves move (snd y) start = Inr (fst y)"
        using Suc.prems y(1) by (auto simp: search_inv_def)
      have "\<forall>cs. set cs \<subseteq> set cands \<longrightarrow> length cs < length q \<longrightarrow> run_moves move cs start \<noteq> Inr target"
        using inv_reach [OF Suc.prems] y(3) old(2) by auto
      then show ?thesis
        using q(1,2,5) y old out(1) Finish by (simp add: run_moves_snoc)
    qed
  qed
qed

end

section \<open>The sequence probe\<close>

interpretation sequence_search: move_system "effect_move (rb_slot_values b)"
    "\<lambda>e. basis_ok b \<and> (\<forall>s\<in>set e. in_domain (rb_slot_values b) s)" "atomic_candidates b" for b
proof
  let ?vs = "rb_slot_values b"
  fix e c assume e: "basis_ok b \<and> (\<forall>s\<in>set e. in_domain ?vs s)" and c: "c \<in> set (atomic_candidates b)"
  then have t: "total_in ?vs c" using candidates_total by blast
  have "effect_move ?vs c e = Inr (map (result_on ?vs c) e)"
    unfolding effect_move_def using e result_on_total [OF t] by (intro map_r_total) blast
  moreover have "in_domain ?vs (result_on ?vs c s)" if "s \<in> set e" for s
    using apply_in_domain [OF result_on_total [OF t]] e that by blast
  ultimately show "\<exists>e'. effect_move ?vs c e = Inr e' \<and> basis_ok b \<and> (\<forall>s\<in>set e'. in_domain ?vs s)"
    using e by auto
qed

lemma effect_run:
  assumes "basis_ok b" and "set cs \<subseteq> set (atomic_candidates b)"
    and "\<forall>s\<in>set ss. in_domain (rb_slot_values b) s"
  shows "run_moves (effect_move (rb_slot_values b)) cs ss
    = map_r (\<lambda>s. apply_sequence cs s (PerSlot (rb_slot_values b))) ss"
  using assms(2,3)
proof (induction cs arbitrary: ss)
  case Nil
  then show ?case using map_r_total [of ss Inr id] by simp
next
  case (Cons c cs)
  let ?vs = "rb_slot_values b"
  have t: "total_in ?vs c" using candidates_total [OF assms(1)] Cons.prems(1) by simp
  have r: "ri_apply c s (PerSlot ?vs) = Inr (result_on ?vs c s)" if "s \<in> set ss" for s
    using result_on_total [OF t] Cons.prems(2) that by blast
  have m: "effect_move ?vs c ss = Inr (map (result_on ?vs c) ss)"
    unfolding effect_move_def using r by (intro map_r_total)
  have "\<forall>s\<in>set (map (result_on ?vs c) ss). in_domain ?vs s"
    using apply_in_domain [OF r] by auto
  then have "run_moves (effect_move ?vs) cs (map (result_on ?vs c) ss)
      = map_r (\<lambda>s. apply_sequence cs s (PerSlot ?vs)) (map (result_on ?vs c) ss)"
    using Cons by auto
  also have "\<dots> = map_r (\<lambda>s. apply_sequence (c # cs) s (PerSlot ?vs)) ss"
    unfolding map_r_map using r by (intro map_r_cong) auto
  finally show ?case using m by simp
qed

text \<open>\<open>realizes\<close>: the instructions, run in sequence, do what the target does on every state.\<close>

definition realizes :: "recipe_basis \<Rightarrow> (int list \<Rightarrow> int list result) \<Rightarrow> int list list
    \<Rightarrow> recipe_instruction list \<Rightarrow> bool" where
  "realizes b target ss cs \<longleftrightarrow>
     (\<forall>s\<in>set ss. apply_sequence cs s (PerSlot (rb_slot_values b)) = target s)"

lemma realizes_effect:
  assumes b: "basis_ok b" and cs: "set cs \<subseteq> set (atomic_candidates b)"
    and ss: "\<forall>s\<in>set ss. in_domain (rb_slot_values b) s" and t: "target_fine b target ss"
  shows "run_moves (effect_move (rb_slot_values b)) cs ss = Inr (map (wanted target) ss)
    \<longleftrightarrow> realizes b target ss cs"
proof -
  have w: "target s = Inr (wanted target s)" if "s \<in> set ss" for s
    using t that by (auto simp: target_fine_def wanted_def)
  have "map_r f ss = Inr (map g ss) \<longleftrightarrow> (\<forall>s\<in>set ss. f s = Inr (g s))"
    for f and g :: "int list \<Rightarrow> int list"
    by (induction ss) (auto split: sum.splits)
  then show ?thesis using w unfolding effect_run [OF b cs ss] realizes_def by auto
qed

lemma sequence_probe_loop:
  assumes b: "basis_ok b" and ss: "\<forall>s\<in>set ss. in_domain (rb_slot_values b) s"
    and t: "target_fine b target ss" and ne: "map (wanted target) ss \<noteq> ss"
    and budget: "case budget of None \<Rightarrow> True | Some n \<Rightarrow> 1 \<le> n"
  shows "\<exists>x q st. bfs_loop (effect_move (rb_slot_values b)) (map (wanted target) ss) budget
        (atomic_candidates b) n [(ss, [])] \<lparr>bf_checked = 0, bf_visited = [ss], bf_next = []\<rparr>
        = Inr (Finish x q st) \<and>
    (case x of
       Expressible \<Rightarrow> \<exists>p. q = Some p \<and> set p \<subseteq> set (atomic_candidates b) \<and> length p \<le> n
         \<and> realizes b target ss p
         \<and> (\<forall>cs. set cs \<subseteq> set (atomic_candidates b) \<longrightarrow> length cs < length p \<longrightarrow> \<not> realizes b target ss cs)
     | Inexpressible \<Rightarrow> q = None
         \<and> (\<forall>cs. set cs \<subseteq> set (atomic_candidates b) \<longrightarrow> length cs \<le> n \<longrightarrow> \<not> realizes b target ss cs)
     | BudgetExhausted \<Rightarrow> q = None \<and> budget = Some (bf_checked st)
     | Invalid \<Rightarrow> False)"
proof -
  let ?st = "\<lparr>bf_checked = 0, bf_visited = [ss], bf_next = []\<rparr>"
  have "within_budget budget ?st" using budget by (cases budget) (auto simp: within_budget_def)
  then have "sequence_search.search_inv b ss (map (wanted target) ss) budget 0 [(ss, [])] ?st"
    using sequence_search.inv_start b ss ne by auto
  from sequence_search.loop_outcome [OF this, of n] show ?thesis
  proof (elim exE conjE)
    fix x q st'
    assume l: "bfs_loop (effect_move (rb_slot_values b)) (map (wanted target) ss) budget
        (atomic_candidates b) n [(ss, [])] ?st = Inr (Finish x q st')"
      and c: "case x of
       Expressible \<Rightarrow> \<exists>p. q = Some p \<and> set p \<subseteq> set (atomic_candidates b) \<and> length p \<le> 0 + n
         \<and> run_moves (effect_move (rb_slot_values b)) p ss = Inr (map (wanted target) ss)
         \<and> (\<forall>cs. set cs \<subseteq> set (atomic_candidates b) \<longrightarrow> length cs < length p \<longrightarrow>
              run_moves (effect_move (rb_slot_values b)) cs ss \<noteq> Inr (map (wanted target) ss))
     | Inexpressible \<Rightarrow> q = None
         \<and> (\<forall>cs. set cs \<subseteq> set (atomic_candidates b) \<longrightarrow> length cs \<le> 0 + n \<longrightarrow>
              run_moves (effect_move (rb_slot_values b)) cs ss \<noteq> Inr (map (wanted target) ss))
     | BudgetExhausted \<Rightarrow> q = None \<and> budget = Some (bf_checked st')
     | Invalid \<Rightarrow> False"
    note r = realizes_effect [OF b _ ss t]
    show ?thesis using l c by (cases x) (auto simp: r)
  qed
qed

lemma sequence_probe_unfold:
  assumes b: "basis_ok b" and ss: "probe_states b states = ss" "ss \<noteq> []"
    and dom: "\<forall>s\<in>set ss. in_domain (rb_slot_values b) s" and t: "target_fine b target ss"
    and n: "0 \<le> n" and v: "valid_max_expansions budget"
  shows "sequence_probe b target (PInt n) states budget =
    (if map (wanted target) ss = ss
     then Inr \<lparr>sr_status = Expressible, sr_instructions = Some [], sr_checked = 0,
       sr_visited = 1, sr_max_length = n\<rparr>
     else bind_r (bfs_loop (effect_move (rb_slot_values b)) (map (wanted target) ss)
            (budget_of budget) (atomic_candidates b) (nat n) [(ss, [])]
            \<lparr>bf_checked = 0, bf_visited = [ss], bf_next = []\<rparr>) (\<lambda>out.
       case out of
         Finish x q st \<Rightarrow>
           Inr \<lparr>sr_status = x, sr_instructions = q, sr_checked = bf_checked st,
             sr_visited = int (length (bf_visited st)), sr_max_length = n\<rparr>
       | Continue st \<Rightarrow>
           Inr \<lparr>sr_status = Inexpressible, sr_instructions = None, sr_checked = bf_checked st,
             sr_visited = int (length (bf_visited st)), sr_max_length = n\<rparr>))"
proof -
  have "\<forall>s\<in>set ss. int (length s) = rb_slot_count b \<and> in_domain (rb_slot_values b) s"
    using dom b in_domain_length unfolding basis_ok_def by metis
  note e = expected_results_fine [OF b t this]
  show ?thesis
    unfolding sequence_probe_def Let_def ss(1) e using ss(2) n v
    by (simp add: valid_max_length_def)
qed

text \<open>
  C24. The sequence probe is exact: over a constructed basis, a target that returns states of the
  domain and a non-empty list of probe states of the domain, it returns.  \<open>expressible\<close> comes with
  a sequence of candidates, within the length bound, that does what the target does on every probe
  state, and no shorter sequence does; \<open>inexpressible\<close> means that no sequence within the bound
  does; \<open>budget_exhausted\<close> occurs only when the number of checked moves is the given budget.
\<close>

theorem sequence_probe_exact:
  assumes "rb_init count vals slots parallel = Inr b" and "0 \<le> n" and "valid_max_expansions budget"
    and "probe_states b states \<noteq> []"
    and "\<forall>s\<in>set (probe_states b states). in_domain (rb_slot_values b) s"
    and "target_fine b target (probe_states b states)"
  shows "\<exists>r. sequence_probe b target (PInt n) states budget = Inr r \<and>
    (case sr_status r of
       Expressible \<Rightarrow> \<exists>p. sr_instructions r = Some p \<and> set p \<subseteq> set (atomic_candidates b)
         \<and> int (length p) \<le> n \<and> realizes b target (probe_states b states) p
         \<and> (\<forall>cs. set cs \<subseteq> set (atomic_candidates b) \<longrightarrow> length cs < length p \<longrightarrow>
              \<not> realizes b target (probe_states b states) cs)
     | Inexpressible \<Rightarrow> sr_instructions r = None
         \<and> (\<forall>cs. set cs \<subseteq> set (atomic_candidates b) \<longrightarrow> int (length cs) \<le> n \<longrightarrow>
              \<not> realizes b target (probe_states b states) cs)
     | BudgetExhausted \<Rightarrow> sr_instructions r = None \<and> budget = PInt (sr_checked r)
     | Invalid \<Rightarrow> False)"
proof -
  let ?ss = "probe_states b states"
  have b: "basis_ok b" using rb_init_ok assms(1) .
  note u = sequence_probe_unfold [OF b refl assms(4,5,6,2,3)]
  show ?thesis
  proof (cases "map (wanted target) ?ss = ?ss")
    case True
    then have "realizes b target ?ss []"
      using realizes_effect [OF b _ assms(5,6), of "[]"] by simp
    then show ?thesis using True u assms(2) by simp
  next
    case False
    have budget: "case budget_of budget of None \<Rightarrow> True | Some n \<Rightarrow> 1 \<le> n"
        "budget_of budget = Some k \<Longrightarrow> budget = PInt k" for k
      using assms(3) by (auto simp: valid_max_expansions_def split: pyval.splits)
    have len: "int k \<le> n \<longleftrightarrow> k \<le> nat n" for k using assms(2) by linarith
    from sequence_probe_loop [OF b assms(5,6) False budget(1), of "nat n"] show ?thesis
    proof (elim exE conjE)
      fix x q st
      assume l: "bfs_loop (effect_move (rb_slot_values b)) (map (wanted target) ?ss)
          (budget_of budget) (atomic_candidates b) (nat n) [(?ss, [])]
          \<lparr>bf_checked = 0, bf_visited = [?ss], bf_next = []\<rparr> = Inr (Finish x q st)"
        and c: "case x of
       Expressible \<Rightarrow> \<exists>p. q = Some p \<and> set p \<subseteq> set (atomic_candidates b) \<and> length p \<le> nat n
         \<and> realizes b target ?ss p
         \<and> (\<forall>cs. set cs \<subseteq> set (atomic_candidates b) \<longrightarrow> length cs < length p \<longrightarrow> \<not> realizes b target ?ss cs)
     | Inexpressible \<Rightarrow> q = None
         \<and> (\<forall>cs. set cs \<subseteq> set (atomic_candidates b) \<longrightarrow> length cs \<le> nat n \<longrightarrow> \<not> realizes b target ?ss cs)
     | BudgetExhausted \<Rightarrow> q = None \<and> budget_of budget = Some (bf_checked st)
     | Invalid \<Rightarrow> False"
      show ?thesis unfolding u using False l c budget(2) by (cases x) (auto simp: len)
    qed
  qed
qed

section \<open>Instances\<close>

definition flip_basis :: recipe_basis where
  "flip_basis = \<lparr>rb_slot_count = 1, rb_slot_values = [2], rb_values = 2, rb_allow_parallel = False\<rparr>"

definition flip_target :: "int list \<Rightarrow> int list result" where
  "flip_target s = Inr [1 - s ! 0]"

lemma flip_facts:
  "rb_init 1 2 None False = Inr flip_basis"
  "probe_states flip_basis None = [[0], [1]]"
  "target_fine flip_basis flip_target [[0], [1]]"
  "\<forall>s\<in>set [[0], [1]]. in_domain (rb_slot_values flip_basis) s"
  by (auto simp: rb_init_def flip_basis_def probe_states_def upto_int_def target_fine_def flip_target_def
      in_domain_def eval_nat_numeral)

lemma case_probe_status:
  "(case x of Expressible \<Rightarrow> a | Inexpressible \<Rightarrow> b | BudgetExhausted \<Rightarrow> c | Invalid \<Rightarrow> False)
     \<Longrightarrow> x \<noteq> Invalid \<and> (x = BudgetExhausted \<longrightarrow> c)"
  by (cases x) auto

theorem sequence_probe_exact_witness:
  "\<exists>r. sequence_probe flip_basis flip_target (PInt 2) None (PInt 5) = Inr r \<and> sr_status r \<noteq> Invalid"
proof -
  have "valid_max_expansions (PInt 5)" by (simp add: valid_max_expansions_def)
  from sequence_probe_exact [OF flip_facts(1) _ this, of 2 None flip_target, unfolded flip_facts(2)]
    flip_facts(3,4)
  obtain r where "sequence_probe flip_basis flip_target (PInt 2) None (PInt 5) = Inr r"
    "sr_status r \<noteq> Invalid"
    by (auto dest: case_probe_status)
  then show ?thesis by blast
qed

end
