(* ===== verification/RecipeProbe.thy ===== *)
theory RecipeProbe
  imports RecipeSequence
begin

text \<open>
  The properties of \<open>recipe_basis.py\<close>: what an instruction may change and read, what parallel
  composition means, that the candidates cover the instruction set, and what the atomic probe
  certifies.
\<close>

section \<open>What an instruction reads and writes\<close>

lemma ri_apply_atomic:
  assumes "x \<noteq> Parallel" and "x \<noteq> Noop" and "in_domain vs s" and "\<forall>v\<in>set vs. 2 \<le> v"
    and "valid_in (int (length vs)) (RI x f g m cs)"
  shows "ri_apply (RI x f g m cs) s (PerSlot vs)
    = (if is_arith x \<and> m \<noteq> Some (vs ! opt_nat f) then Inl ValueError
       else bind_r (atomic_effect x (opt_nat f) (opt_nat g) (case m of None \<Rightarrow> 0 | Some k \<Rightarrow> k) s)
         (\<lambda>r. if \<not> in_domain vs r then Inl ValueError else Inr r))"
proof -
  have "normalize_slot_values (PerSlot vs) (int (length s)) = Inr vs" "length s = length vs"
    using assms(3,4) by (auto simp: in_domain_length not_less)
  then show ?thesis
    using assms by (simp add: valid_in_def del: ri_validate.simps normalize_slot_values.simps)
qed

lemma written_total:
  "ri_apply i s (PerSlot vs) = Inr t \<Longrightarrow> \<exists>W. ri_written_slots i = Inr W"
proof (induction i arbitrary: t rule: recipe_instruction.induct)
  case (RI x f g m cs)
  have v: "valid_in (int (length s)) (RI x f g m cs)" using ri_apply_Inr [OF RI.prems] by blast
  from RI.prems show ?case
  proof (cases rule: ri_apply_cases)
    case (atomic)
    have x: "x \<in> {RInc, RDec, CInc, CDec, Copy, Swap}"
      using atomic(3) by (auto simp: atomic_effect_def split: if_splits)
    obtain k where "f = Some k" using valid_atomic(1) [OF v atomic(1,2)] by (cases f) (auto simp: in_slots_def)
    moreover have "x = Swap \<Longrightarrow> \<exists>l. g = Some l"
      using valid_atomic(2) [OF v atomic(1,2)] by (cases g) (auto simp: in_slots_def)
    ultimately show ?thesis using x by auto
  qed auto
qed

text \<open>An atomic instruction that returns on one state returns on every state that agrees on what it
  reads.\<close>

lemma apply_agree:
  assumes s: "ri_apply (RI x f g m cs) s (PerSlot vs) = Inr t" and x: "x \<noteq> Parallel"
    and R: "ri_read_slots (RI x f g m cs) = Inr R" and s': "in_domain vs s'"
    and same: "\<forall>k < length vs. int k \<in> R \<longrightarrow> s ! k = s' ! k"
  shows "\<exists>t'. ri_apply (RI x f g m cs) s' (PerSlot vs) = Inr t'"
proof -
  have n: "normalize_slot_values (PerSlot vs) (int (length s)) = Inr vs" and dom: "in_domain vs s"
    and v: "valid_in (int (length vs)) (RI x f g m cs)" and ge2: "\<forall>v\<in>set vs. 2 \<le> v"
    using ri_apply_Inr [OF s] by (auto simp: normalize_PerSlot in_domain_length simp del: normalize_slot_values.simps)
  have len: "length s = length vs" "length s' = length vs" using dom s' by (auto dest: in_domain_length)
  show ?thesis
  proof (cases "x = Noop")
    case True
    then show ?thesis
      using v n len s' by (simp add: valid_in_def del: ri_validate.simps normalize_slot_values.simps)
  next
    case False
    note a = ri_apply_atomic [OF x False _ ge2 v]
    have eff: "atomic_effect x (opt_nat f) (opt_nat g) (case m of None \<Rightarrow> 0 | Some k \<Rightarrow> k) s = Inr t"
        "in_domain vs t" "\<not> (is_arith x \<and> m \<noteq> Some (vs ! opt_nat f))"
      using s unfolding a [OF dom] by (auto simp: bind_r_eq_Inr split: if_splits)
    obtain f' where f: "f = Some (int f')" "opt_nat f = f'" "f' < length vs"
      using in_slots_nat valid_atomic(1) [OF v x False] by metis
    have g: "is_binary x \<Longrightarrow> \<exists>g'. g = Some (int g') \<and> opt_nat g = g' \<and> g' < length vs"
      using in_slots_nat valid_atomic(2) [OF v x False] by metis
    have eq: "s ! f' = s' ! f'" "is_binary x \<Longrightarrow> s ! opt_nat g = s' ! opt_nat g"
      using read_atomic [OF R x False] same f g by (auto split: if_splits) (metis option.sel)
    obtain t' where t': "atomic_effect x (opt_nat f) (opt_nat g) (case m of None \<Rightarrow> 0 | Some k \<Rightarrow> k) s' = Inr t'"
      using eff(1) by (auto simp: atomic_effect_def split: if_splits)
    have "t' ! k = t ! k \<or> t' ! k = s' ! k" if k: "k < length vs" for k
      using eff(1) t' eq f g k len
      by (cases x) (auto simp: atomic_effect_def nth_list_update)
    moreover have "length t' = length vs"
      using t' len by (auto simp: atomic_effect_def split: if_splits)
    ultimately have "in_domain vs t'" using eff(2) s' unfolding in_domain_nth by metis
    then show ?thesis using a [OF s'] eff(3) t' by auto
  qed
qed

lemma normalize_same:
  "normalize_slot_values spec (int (length s)) = Inr vs \<Longrightarrow> ri_apply i s spec = ri_apply i s (PerSlot vs)"
proof (cases i)
  case (RI x f g m cs)
  assume "normalize_slot_values spec (int (length s)) = Inr vs"
  then show ?thesis
    using normalize_again [of spec "int (length s)" vs]
    by (simp add: RI del: ri_validate.simps normalize_slot_values.simps)
qed

text \<open>
  The footprint of an instruction.  When \<open>apply\<close> returns, the state before and the state after
  lie in the normalised domain, the written slots exist, every other slot is unchanged, and what the
  written slots receive depends only on the read slots: another state of the same length that agrees
  on them gets the same values there.
\<close>

lemma instruction_footprint:
  assumes "ri_apply i s spec = Inr t"
  shows "\<exists>vs W. normalize_slot_values spec (int (length s)) = Inr vs
    \<and> in_domain vs s \<and> in_domain vs t \<and> ri_written_slots i = Inr W
    \<and> (\<forall>k < length s. int k \<notin> W \<longrightarrow> t ! k = s ! k)
    \<and> (\<forall>R s' t'. ri_read_slots i = Inr R \<and> length s' = length s \<and> ri_apply i s' spec = Inr t'
         \<and> (\<forall>k < length s. int k \<in> R \<longrightarrow> s ! k = s' ! k)
         \<longrightarrow> (\<forall>k < length s. int k \<in> W \<longrightarrow> t ! k = t' ! k))"
proof -
  obtain vs where vs: "normalize_slot_values spec (int (length s)) = Inr vs" "in_domain vs s"
      "ri_apply i s (PerSlot vs) = Inr t"
    using ri_apply_Inr [OF assms] by blast
  obtain W where W: "ri_written_slots i = Inr W" using written_total [OF vs(3)] by blast
  have len: "length vs = length s" using vs(2) by (simp add: in_domain_length)
  have "t ! k = t' ! k"
    if "ri_read_slots i = Inr R" "length s' = length s" "ri_apply i s' spec = Inr t'"
      "\<forall>k < length s. int k \<in> R \<longrightarrow> s ! k = s' ! k" "k < length s" "int k \<in> W" for R s' t' k
    using apply_local [OF vs(3) _ that(1) W, of s' t' k] that normalize_same [of spec s' vs i] vs(1) len
    by simp
  then show ?thesis using vs W apply_in_domain [OF vs(3)] apply_frame [OF vs(3) W] by blast
qed

section \<open>Parallel composition\<close>

lemma commit_swap:
  "A \<inter> B = {} \<Longrightarrow> commit (commit s A ta) B tb = commit (commit s B tb) A ta"
  by (auto simp: commit_def)

lemma parallel_parts:
  assumes "ri_apply (parallel_of a b) s (PerSlot vs) = Inr t"
  shows "\<exists>ta tb A B. ri_apply a s (PerSlot vs) = Inr ta \<and> ri_apply b s (PerSlot vs) = Inr tb
    \<and> ri_written_slots a = Inr A \<and> ri_written_slots b = Inr B \<and> A \<inter> B = {}
    \<and> t = commit (commit s A ta) B tb \<and> ri_op a \<noteq> Parallel \<and> ri_op b \<noteq> Parallel
    \<and> ri_validate (int (length s)) False a = Inr () \<and> ri_validate (int (length s)) False b = Inr ()"
proof -
  have "valid_in (int (length s)) (parallel_of a b)" using ri_apply_Inr [OF assms] by blast
  then have v: "ri_validate (int (length s)) False a = Inr ()" "ri_validate (int (length s)) False b = Inr ()"
    by (auto simp: valid_in_def parallel_of_def bind_r_eq_Inr split: if_splits)
  have "ri_op i \<noteq> Parallel" if "ri_validate n False i = Inr ()" for n i
    using that by (cases i) (auto split: if_splits)
  then have "ri_op a \<noteq> Parallel" "ri_op b \<noteq> Parallel" using v by auto
  moreover from assms obtain ta tb A B where
      "ri_apply a s (PerSlot vs) = Inr ta" "ri_apply b s (PerSlot vs) = Inr tb"
      "ri_written_slots a = Inr A" "ri_written_slots b = Inr B" "A \<inter> B = {}"
      "t = commit (commit s A ta) B tb"
    unfolding parallel_of_def by (cases rule: ri_apply_cases) auto
  ultimately show ?thesis using v by blast
qed

lemma parallel_intro:
  assumes "ri_apply a s (PerSlot vs) = Inr ta" and "ri_apply b s (PerSlot vs) = Inr tb"
    and "ri_written_slots a = Inr A" and "ri_written_slots b = Inr B" and "A \<inter> B = {}"
    and "ri_validate (int (length s)) False a = Inr ()" and "ri_validate (int (length s)) False b = Inr ()"
  shows "ri_apply (parallel_of a b) s (PerSlot vs) = Inr (commit (commit s A ta) B tb)"
proof -
  have "normalize_slot_values (PerSlot vs) (int (length s)) = Inr vs" "in_domain vs s"
    using ri_apply_Inr [OF assms(1)] by (auto simp: normalize_PerSlot simp del: normalize_slot_values.simps)
  then show ?thesis using assms by (simp add: parallel_of_def del: normalize_slot_values.simps)
qed

lemma commit_all:
  assumes "\<forall>k < length s. int k \<in> A \<longrightarrow> u ! k = ta ! k" and "\<forall>k < length s. int k \<in> B \<longrightarrow> u ! k = tb ! k"
    and "\<forall>k < length s. int k \<notin> A \<union> B \<longrightarrow> u ! k = s ! k" and "length u = length s"
  shows "commit (commit s A ta) B tb = u"
  using assms by (intro nth_equalityI) (auto simp: commit_nth)

text \<open>
  C25. Parallel composition is order-free and agrees with sequencing: when \<open>parallel\<close> of two
  instructions returns, so does the composition with the children exchanged, with the same result;
  and when the second child reads nothing the first one writes, running them one after the other
  returns that result as well.
\<close>

theorem parallel_is_order_free:
  assumes "ri_apply (parallel_of a b) s spec = Inr t"
  shows "ri_apply (parallel_of b a) s spec = Inr t
    \<and> (\<forall>A R. ri_written_slots a = Inr A \<and> ri_read_slots b = Inr R \<and> A \<inter> R = {}
         \<longrightarrow> apply_sequence [a, b] s spec = Inr t)"
proof -
  obtain vs where vs: "normalize_slot_values spec (int (length s)) = Inr vs" "in_domain vs s"
      "ri_apply (parallel_of a b) s (PerSlot vs) = Inr t"
    using ri_apply_Inr [OF assms] by blast
  have len: "length vs = length s" using vs(2) by (simp add: in_domain_length)
  obtain ta tb A B where p: "ri_apply a s (PerSlot vs) = Inr ta" "ri_apply b s (PerSlot vs) = Inr tb"
      "ri_written_slots a = Inr A" "ri_written_slots b = Inr B" "A \<inter> B = {}"
      "t = commit (commit s A ta) B tb" "ri_op b \<noteq> Parallel"
      "ri_validate (int (length s)) False a = Inr ()" "ri_validate (int (length s)) False b = Inr ()"
    using parallel_parts [OF vs(3)] by blast
  have "B \<inter> A = {}" using p(5) by blast
  then have "ri_apply (parallel_of b a) s spec = Inr t"
    using parallel_intro [OF p(2,1,4,3) _ p(9,8)] commit_swap [OF p(5)] p(6) normalize_same [OF vs(1)]
    by simp
  moreover have "apply_sequence [a, b] s spec = Inr t"
    if R: "ri_read_slots b = Inr R" and disj: "A \<inter> R = {}" for R
  proof -
    have dom: "in_domain vs ta" using apply_in_domain [OF p(1)] .
    have frame: "\<forall>k < length s. int k \<notin> A \<longrightarrow> ta ! k = s ! k" using apply_frame [OF p(1,3)] by blast
    then have same: "\<forall>k < length vs. int k \<in> R \<longrightarrow> s ! k = ta ! k" using disj len by auto
    obtain x f g m cs where b: "b = RI x f g m cs" by (cases b)
    then have x: "x \<noteq> Parallel" using p(7) by simp
    obtain u where u: "ri_apply b ta (PerSlot vs) = Inr u"
      using apply_agree [OF p(2) [unfolded b] x R [unfolded b] dom same] unfolding b by blast
    have lens: "length ta = length s" "length u = length s"
      using in_domain_length [OF dom] in_domain_length [OF apply_in_domain [OF u]] len by auto
    have "u ! k = tb ! k" if "k < length s" "int k \<in> B" for k
      using apply_local [OF p(2) u R p(4) same] that len by simp
    moreover have "u ! k = ta ! k" if "k < length s" "int k \<notin> B" for k
      using apply_frame [OF u p(4)] that lens by simp
    ultimately have "commit (commit s A ta) B tb = u"
      using frame p(5) lens by (intro commit_all) auto
    then show ?thesis
      using normalize_same [OF vs(1)] normalize_same [of spec ta vs] vs(1) lens p(1,6) u by simp
  qed
  ultimately show ?thesis using p(3) by simp
qed

section \<open>The candidates cover the instruction set\<close>

text \<open>No conditional update is guarded by the slot it updates.\<close>

fun plain :: "recipe_instruction \<Rightarrow> bool" where
  "plain (RI x f g m cs) \<longleftrightarrow> \<not> ((x = CInc \<or> x = CDec) \<and> f = g)
     \<and> (case cs of None \<Rightarrow> True | Some is \<Rightarrow> \<forall>i\<in>set is. plain i)"

definition same_effect :: "recipe_basis \<Rightarrow> recipe_instruction \<Rightarrow> recipe_instruction \<Rightarrow> bool" where
  "same_effect b i j \<longleftrightarrow> (\<forall>s. in_domain (rb_slot_values b) s \<longrightarrow>
     ri_apply j s (PerSlot (rb_slot_values b)) = ri_apply i s (PerSlot (rb_slot_values b)))"

abbreviation noop :: recipe_instruction where
  "noop \<equiv> RI Noop None None None None"

lemma noop_apply:
  "basis_ok b \<Longrightarrow> in_domain (rb_slot_values b) s \<Longrightarrow>
     ri_apply noop s (PerSlot (rb_slot_values b)) = Inr s"
  using normalize_basis by (simp del: normalize_slot_values.simps)

lemma top_state:
  assumes "basis_ok b" and "l < length (rb_slot_values b)"
  shows "in_domain (rb_slot_values b)
    ((replicate (length (rb_slot_values b)) 0)[l := rb_slot_values b ! l - 1])"
  using assms by (auto simp: in_domain_nth nth_list_update basis_ok_def dest!: nth_mem)

lemma zero_state:
  "basis_ok b \<Longrightarrow> in_domain (rb_slot_values b) (replicate (length (rb_slot_values b)) 0)"
  by (auto simp: in_domain_nth basis_ok_def dest!: nth_mem)

text \<open>What a total atomic instruction looks like.\<close>

lemma total_atomic:
  assumes b: "basis_ok b" and v: "valid_in (rb_slot_count b) (RI x f g m cs)"
    and t: "total_in (rb_slot_values b) (RI x f g m cs)" and x: "x \<noteq> Parallel" "x \<noteq> Noop"
    and s: "in_domain (rb_slot_values b) s"
  shows "\<exists>r. ri_apply (RI x f g m cs) s (PerSlot (rb_slot_values b)) = Inr r
    \<and> atomic_effect x (opt_nat f) (opt_nat g) (case m of None \<Rightarrow> 0 | Some k \<Rightarrow> k) s = Inr r
    \<and> in_domain (rb_slot_values b) r \<and> (is_arith x \<longrightarrow> m = Some (rb_slot_values b ! opt_nat f))"
proof -
  let ?vs = "rb_slot_values b"
  obtain r where r: "ri_apply (RI x f g m cs) s (PerSlot ?vs) = Inr r"
    using t s unfolding total_in_def by blast
  have "\<forall>v\<in>set ?vs. 2 \<le> v" "valid_in (int (length ?vs)) (RI x f g m cs)"
    using b v by (auto simp: basis_ok_def)
  note eq = ri_apply_atomic [OF x s this]
  have "\<not> (is_arith x \<and> m \<noteq> Some (?vs ! opt_nat f))"
      "atomic_effect x (opt_nat f) (opt_nat g) (case m of None \<Rightarrow> 0 | Some k \<Rightarrow> k) s = Inr r"
      "in_domain ?vs r"
    using r unfolding eq by (auto simp: bind_r_eq_Inr split: if_splits)
  then show ?thesis using r by blast
qed

lemma valid_shape:
  assumes "valid_in n (RI x f g m cs)" and "x \<noteq> Parallel"
  shows "cs = None" and "\<not> is_arith x \<Longrightarrow> m = None" and "x = Noop \<Longrightarrow> f = None \<and> g = None"
    and "x \<noteq> Noop \<Longrightarrow> \<not> is_binary x \<Longrightarrow> g = None"
  using assms by (auto simp: valid_in_def split: if_splits)

lemma copy_fits:
  assumes b: "basis_ok b" and t: "total_in (rb_slot_values b) (RI x f g m cs)"
    and v: "valid_in (rb_slot_count b) (RI x f g m cs)" and x: "x = Copy \<or> x = Swap"
    and k: "f = Some (int k)" "k < length (rb_slot_values b)"
    and l: "g = Some (int l)" "l < length (rb_slot_values b)" and ne: "k \<noteq> l"
  shows "rb_slot_values b ! l \<le> rb_slot_values b ! k"
proof -
  let ?vs = "rb_slot_values b"
  let ?s = "(replicate (length ?vs) 0)[l := ?vs ! l - 1]"
  obtain r where "atomic_effect x (opt_nat f) (opt_nat g) (case m of None \<Rightarrow> 0 | Some k \<Rightarrow> k) ?s = Inr r"
      "in_domain ?vs r"
    using total_atomic [OF b v t _ _ top_state [OF b l(2)]] x by auto
  then have "r ! k = ?vs ! l - 1" "in_domain ?vs r"
    using x k l ne by (auto simp: atomic_effect_def nth_list_update)
  then show ?thesis using k by (auto simp: in_domain_nth)
qed

lemma swap_fits:
  assumes b: "basis_ok b" and t: "total_in (rb_slot_values b) (RI Swap f g m cs)"
    and v: "valid_in (rb_slot_count b) (RI Swap f g m cs)"
    and k: "f = Some (int k)" "k < length (rb_slot_values b)"
    and l: "g = Some (int l)" "l < length (rb_slot_values b)" and ne: "k \<noteq> l"
  shows "rb_slot_values b ! k \<le> rb_slot_values b ! l"
proof -
  let ?vs = "rb_slot_values b"
  let ?s = "(replicate (length ?vs) 0)[k := ?vs ! k - 1]"
  obtain r where "atomic_effect Swap (opt_nat f) (opt_nat g) (case m of None \<Rightarrow> 0 | Some k \<Rightarrow> k) ?s = Inr r"
      "in_domain ?vs r"
    using total_atomic [OF b v t _ _ top_state [OF b k(2)]] by auto
  then have "r ! l = ?vs ! k - 1" "in_domain ?vs r"
    using k l ne by (auto simp: atomic_effect_def nth_list_update)
  then show ?thesis using l by (auto simp: in_domain_nth)
qed

text \<open>Membership in the candidates, for natural slot numbers.\<close>

lemma candidateI:
  assumes "basis_ok b" and "k < length (rb_slot_values b)"
  shows "atomic_candidate b noop"
    and "atomic_candidate b (unary RInc (int k) (rb_slot_values b ! k))"
    and "atomic_candidate b (unary RDec (int k) (rb_slot_values b ! k))"
    and "l < length (rb_slot_values b) \<Longrightarrow> k \<noteq> l \<Longrightarrow>
      atomic_candidate b (binary CInc (int k) (int l) (Some (rb_slot_values b ! k)))"
    and "l < length (rb_slot_values b) \<Longrightarrow> k \<noteq> l \<Longrightarrow>
      atomic_candidate b (binary CDec (int k) (int l) (Some (rb_slot_values b ! k)))"
    and "l < length (rb_slot_values b) \<Longrightarrow> k \<noteq> l \<Longrightarrow> rb_slot_values b ! l \<le> rb_slot_values b ! k \<Longrightarrow>
      atomic_candidate b (binary Copy (int k) (int l) None)"
    and "l < length (rb_slot_values b) \<Longrightarrow> k < l \<Longrightarrow> rb_slot_values b ! k = rb_slot_values b ! l \<Longrightarrow>
      atomic_candidate b (binary Swap (int k) (int l) None)"
proof -
  have k: "0 \<le> int k" "int k < rb_slot_count b" using assms by (auto simp: basis_ok_def)
  have l: "l < length (rb_slot_values b) \<Longrightarrow> int l < rb_slot_count b" for l
    using assms(1) by (simp add: basis_ok_def)
  show "atomic_candidate b noop" by (simp add: atomic_candidate_def)
  show "atomic_candidate b (unary RInc (int k) (rb_slot_values b ! k))"
    "atomic_candidate b (unary RDec (int k) (rb_slot_values b ! k))"
    unfolding atomic_candidate_def Let_def using k by (metis nat_int)+
  show "atomic_candidate b (binary CInc (int k) (int l) (Some (rb_slot_values b ! k)))"
    "atomic_candidate b (binary CDec (int k) (int l) (Some (rb_slot_values b ! k)))"
    if "l < length (rb_slot_values b)" "k \<noteq> l" for l
    unfolding atomic_candidate_def Let_def
    using k l [OF that(1)] that(2) by (metis nat_int of_nat_0_le_iff)+
  show "atomic_candidate b (binary Copy (int k) (int l) None)"
    if "l < length (rb_slot_values b)" "k \<noteq> l" "rb_slot_values b ! l \<le> rb_slot_values b ! k" for l
    unfolding atomic_candidate_def Let_def
    using k l [OF that(1)] that(2,3) by (metis nat_int of_nat_0_le_iff)
  show "atomic_candidate b (binary Swap (int k) (int l) None)"
    if "l < length (rb_slot_values b)" "k < l" "rb_slot_values b ! k = rb_slot_values b ! l" for l
    unfolding atomic_candidate_def Let_def
    using k l [OF that(1)] that(2,3) by (metis nat_int of_nat_less_iff)
qed

text \<open>Every total atomic instruction without a self-guarded update is a candidate, or has the effect
  of one: of \<open>noop\<close>, or of the swap with its slots exchanged.\<close>

lemma atomic_cover:
  assumes b: "basis_ok b" and v: "valid_in (rb_slot_count b) i" and np: "ri_op i \<noteq> Parallel"
    and t: "total_in (rb_slot_values b) i" and p: "plain i"
  shows "\<exists>j. atomic_candidate b j \<and> same_effect b i j
    \<and> (j = noop \<or> ri_written_slots j = ri_written_slots i \<and> ri_written_slots i \<noteq> Inr {})"
proof -
  let ?vs = "rb_slot_values b"
  obtain x f g m cs where i: "i = RI x f g m cs" by (cases i)
  have x: "x \<noteq> Parallel" using np by (simp add: i)
  note v = v [unfolded i] and t = t [unfolded i]
  note shape = valid_shape [OF v x]
  show ?thesis
  proof (cases "x = Noop")
    case True
    then have "i = noop" using shape by (auto simp: i)
    moreover have "atomic_candidate b noop" by (simp add: atomic_candidate_def)
    ultimately show ?thesis by (auto simp: same_effect_def simp del: ri_apply.simps)
  next
    case False
    have n: "rb_slot_count b = int (length ?vs)" using b by (simp add: basis_ok_def)
    obtain k where k: "f = Some (int k)" "k < length ?vs"
      using in_slots_nat valid_atomic(1) [OF v x False] unfolding n by metis
    have g: "is_binary x \<Longrightarrow> \<exists>l. g = Some (int l) \<and> l < length ?vs"
      using in_slots_nat valid_atomic(2) [OF v x False] unfolding n by metis
    have m: "is_arith x \<Longrightarrow> m = Some (?vs ! k)"
      and known: "x \<in> {RInc, RDec, CInc, CDec, Copy, Swap}"
      using total_atomic [OF b v t x False zero_state [OF b]] k
      by (auto simp: atomic_effect_def split: if_splits)
    have self: ?thesis if "atomic_candidate b i" "ri_written_slots i \<noteq> Inr {}"
      using that by (auto simp: same_effect_def)
    have w: "ri_written_slots i \<noteq> Inr {}" using known k g by (auto simp: i)
    have unary: ?thesis if "x = RInc \<or> x = RDec"
      using that self [OF _ w] candidateI(2,3) [OF b k(2)] k m shape
      by (auto simp: i unary_def)
    show ?thesis
    proof (cases "is_binary x")
      case False
      then show ?thesis using known unary by auto
    next
      case True
      then obtain l where l: "g = Some (int l)" "l < length ?vs" using g by blast
      have cond: ?thesis if "x = CInc \<or> x = CDec"
      proof (rule self [OF _ w])
        have "k \<noteq> l" using that p k l by (auto simp: i)
        then show "atomic_candidate b i"
          using that candidateI(4,5) [OF b k(2) l(2)] k l m shape by (auto simp: i binary_def)
      qed
      have copy: ?thesis if c: "x = Copy"
      proof (cases "k = l")
        case True
        have "ri_apply i s (PerSlot ?vs) = Inr s" if "in_domain ?vs s" for s
          using total_atomic [OF b v t x False that] c k l True by (auto simp: i atomic_effect_def)
        then have "same_effect b i noop"
          using noop_apply [OF b] by (auto simp: same_effect_def simp del: ri_apply.simps)
        then show ?thesis using candidateI(1) [OF b k(2)] by blast
      next
        case ne: False
        have "?vs ! l \<le> ?vs ! k" using copy_fits [OF b t v _ k l ne] c by simp
        then show ?thesis
          using self [OF _ w] candidateI(6) [OF b k(2) l(2) ne] c k l shape by (auto simp: i binary_def)
      qed
      have swap: ?thesis if c: "x = Swap"
      proof -
        have ne: "k \<noteq> l" using valid_atomic(3) [OF v x False] c k l by simp
        have eq: "?vs ! k = ?vs ! l"
          using copy_fits [OF b t v _ k l ne] swap_fits [OF b t [unfolded c] v [unfolded c] k l ne] c by auto
        show ?thesis
        proof (cases "k < l")
          case True
          then show ?thesis
            using self [OF _ w] candidateI(7) [OF b k(2) l(2) True eq] c k l shape by (auto simp: i binary_def)
        next
          case False
          then have lk: "l < k" using ne by simp
          let ?j = "binary Swap (int l) (int k) None"
          have j: "atomic_candidate b ?j" using candidateI(7) [OF b l(2) k(2) lk] eq by simp
          have vj: "valid_in (rb_slot_count b) ?j"
            using lk k l n by (auto simp: valid_in_def binary_def in_slots_def)
          have "ri_apply ?j s (PerSlot ?vs) = ri_apply i s (PerSlot ?vs)" if s: "in_domain ?vs s" for s
            using total_atomic [OF b v t x \<open>x \<noteq> Noop\<close> s]
              total_atomic [OF b vj [unfolded binary_def] atomic_total [OF b j, unfolded binary_def] _ _ s]
              c k l lk
            by (auto simp: i atomic_effect_def binary_def list_update_swap simp del: ri_apply.simps)
          then show ?thesis
            using j w c k l shape by (intro exI [of _ ?j]) (auto simp: i same_effect_def binary_def
              simp del: ri_apply.simps)
        qed
      qed
      show ?thesis using known True cond copy swap by auto
    qed
  qed
qed

lemma pairs_after_complete:
  "x \<in> set xs \<Longrightarrow> y \<in> set xs \<Longrightarrow> x \<noteq> y \<Longrightarrow> (x, y) \<in> set (pairs_after xs) \<or> (y, x) \<in> set (pairs_after xs)"
  by (induction xs) auto

lemma parallel_candidate:
  assumes "rb_allow_parallel b" and "atomic_candidate b i" and "atomic_candidate b j"
    and "disjoint_writers (i, j)"
  shows "parallel_of i j \<in> set (atomic_candidates b) \<or> parallel_of j i \<in> set (atomic_candidates b)"
proof -
  have "i \<noteq> j" using assms(4) by (auto simp: disjoint_writers_def split: sum.splits)
  then have "(i, j) \<in> set (pairs_after (atomic_part b)) \<or> (j, i) \<in> set (pairs_after (atomic_part b))"
    using assms(2,3) by (metis pairs_after_complete atomic_part_iff)
  moreover have "disjoint_writers (j, i)"
    using assms(4) by (auto simp: disjoint_writers_def split: sum.splits)
  ultimately show ?thesis using assms(1,4) by (force simp: atomic_candidates_def)
qed

lemma same_effect_apply:
  "same_effect b i j \<Longrightarrow> in_domain (rb_slot_values b) s \<Longrightarrow>
     ri_apply j s (PerSlot (rb_slot_values b)) = ri_apply i s (PerSlot (rb_slot_values b))"
  by (simp add: same_effect_def)

lemma commit_self: "commit s A s = s"
  by (auto simp: commit_def intro: nth_equalityI)

lemma commit_frame:
  assumes "\<forall>k < length s. int k \<notin> A \<longrightarrow> t ! k = s ! k" and "length t = length s"
  shows "commit s A t = t"
  using assms by (intro nth_equalityI) (auto simp: commit_nth)

text \<open>The parts of a total parallel instruction are total, and so are covered.\<close>

lemma parallel_cover:
  assumes b: "basis_ok b" and par: "rb_allow_parallel b"
    and t: "total_in (rb_slot_values b) (parallel_of i j)" and p: "plain i" "plain j"
  shows "\<exists>k\<in>set (atomic_candidates b). same_effect b (parallel_of i j) k"
proof -
  let ?vs = "rb_slot_values b"
  have parts: "\<exists>u ti tj A B. ri_apply (parallel_of i j) s (PerSlot ?vs) = Inr u
      \<and> ri_apply i s (PerSlot ?vs) = Inr ti \<and> ri_apply j s (PerSlot ?vs) = Inr tj
      \<and> ri_written_slots i = Inr A \<and> ri_written_slots j = Inr B \<and> A \<inter> B = {}
      \<and> u = commit (commit s A ti) B tj \<and> ri_op i \<noteq> Parallel \<and> ri_op j \<noteq> Parallel
      \<and> ri_validate (rb_slot_count b) False i = Inr () \<and> ri_validate (rb_slot_count b) False j = Inr ()"
    if s: "in_domain ?vs s" for s
  proof -
    have "int (length s) = rb_slot_count b" using b s by (simp add: basis_ok_def in_domain_length)
    moreover obtain u where u: "ri_apply (parallel_of i j) s (PerSlot ?vs) = Inr u"
      using t s unfolding total_in_def by blast
    ultimately show ?thesis using parallel_parts [OF u] by metis
  qed
  obtain A B where W: "ri_written_slots i = Inr A" "ri_written_slots j = Inr B" "A \<inter> B = {}"
      "ri_op i \<noteq> Parallel" "ri_op j \<noteq> Parallel"
      "valid_in (rb_slot_count b) i" "valid_in (rb_slot_count b) j"
    using parts [OF zero_state [OF b]] validate_weaken unfolding valid_in_def by blast
  have tot: "total_in ?vs i" "total_in ?vs j" unfolding total_in_def using parts by blast+
  obtain i' where i': "atomic_candidate b i'" "same_effect b i i'"
      "i' = noop \<or> ri_written_slots i' = Inr A \<and> A \<noteq> {}"
    using atomic_cover [OF b W(6,4) tot(1) p(1)] W(1) by auto
  obtain j' where j': "atomic_candidate b j'" "same_effect b j j'"
      "j' = noop \<or> ri_written_slots j' = Inr B \<and> B \<noteq> {}"
    using atomic_cover [OF b W(7,5) tot(2) p(2)] W(2) by auto
  have plain_part: "k \<in> set (atomic_candidates b)" if "atomic_candidate b k" for k
    using that by (simp add: atomic_candidates_def atomic_part_iff)
  have run: "\<exists>ti tj. ri_apply (parallel_of i j) s (PerSlot ?vs) = Inr (commit (commit s A ti) B tj)
      \<and> ri_apply i' s (PerSlot ?vs) = Inr ti \<and> ri_apply j' s (PerSlot ?vs) = Inr tj
      \<and> commit s A ti = ti \<and> commit s B tj = tj"
    if s: "in_domain ?vs s" for s
  proof -
    obtain ti tj where *: "ri_apply (parallel_of i j) s (PerSlot ?vs) = Inr (commit (commit s A ti) B tj)"
        "ri_apply i s (PerSlot ?vs) = Inr ti" "ri_apply j s (PerSlot ?vs) = Inr tj"
      using parts [OF s] W(1,2) by auto
    have "length ti = length s" "length tj = length s"
      using apply_in_domain [OF *(2)] apply_in_domain [OF *(3)] s by (auto dest!: in_domain_length)
    then show ?thesis
      using * apply_frame [OF *(2) W(1)] apply_frame [OF *(3) W(2)]
        same_effect_apply [OF i'(2) s] same_effect_apply [OF j'(2) s] commit_frame by metis
  qed
  have noop_run: "ri_apply k s (PerSlot ?vs) = Inr s" if "k = noop" "in_domain ?vs s" for k s
    using noop_apply [OF b that(2)] that(1) by simp
  show ?thesis
  proof (cases "i' = noop")
    case True
    have "ri_apply j' s (PerSlot ?vs) = ri_apply (parallel_of i j) s (PerSlot ?vs)"
      if s: "in_domain ?vs s" for s
      using run [OF s] noop_run [OF True s] by (auto simp: commit_self)
    then have "same_effect b (parallel_of i j) j'" by (simp add: same_effect_def)
    then show ?thesis using plain_part [OF j'(1)] by blast
  next
    case i_ne: False
    show ?thesis
    proof (cases "j' = noop")
      case True
      have "ri_apply i' s (PerSlot ?vs) = ri_apply (parallel_of i j) s (PerSlot ?vs)"
        if s: "in_domain ?vs s" for s
      proof -
        obtain ti where "ri_apply (parallel_of i j) s (PerSlot ?vs) = Inr (commit (commit s A ti) B s)"
            "ri_apply i' s (PerSlot ?vs) = Inr ti" "commit s A ti = ti"
          using run [OF s] noop_run [OF True s] by auto
        then show ?thesis using commit_swap [OF W(3), of s ti s] by (simp add: commit_self)
      qed
      then have "same_effect b (parallel_of i j) i'" by (simp add: same_effect_def)
      then show ?thesis using plain_part [OF i'(1)] by blast
    next
      case False
      have W': "ri_written_slots i' = Inr A" "ri_written_slots j' = Inr B" "disjoint_writers (i', j')"
        using i_ne False i'(3) j'(3) W(3) by (auto simp: disjoint_writers_def)
      have eq: "ri_apply (parallel_of i' j') s (PerSlot ?vs) = ri_apply (parallel_of i j) s (PerSlot ?vs)"
        if s: "in_domain ?vs s" for s
        using parallel_apply [OF b i'(1) j'(1) W'(3) s] run [OF s] W'(1,2) by force
      then have "same_effect b (parallel_of i j) (parallel_of i' j')" by (simp add: same_effect_def)
      moreover have "same_effect b (parallel_of i j) (parallel_of j' i')"
        unfolding same_effect_def
        using parallel_is_order_free eq run by metis
      ultimately show ?thesis using parallel_candidate [OF par i'(1) j'(1) W'(3)] by blast
    qed
  qed
qed

lemma candidates_cover:
  assumes b: "basis_ok b" and v: "ri_validate (rb_slot_count b) (rb_allow_parallel b) i = Inr ()"
    and t: "total_in (rb_slot_values b) i" and p: "plain i"
  shows "\<exists>j\<in>set (atomic_candidates b). same_effect b i j"
proof (cases "ri_op i = Parallel")
  case True
  obtain f g m cs where i: "i = RI Parallel f g m cs" using True by (cases i) auto
  obtain u where u: "ri_apply i (replicate (length (rb_slot_values b)) 0) (PerSlot (rb_slot_values b)) = Inr u"
    using t zero_state [OF b] unfolding total_in_def by blast
  obtain x y where cs: "cs = Some [x, y]"
    using u unfolding i by (cases rule: ri_apply_cases) auto
  have same: "ri_apply i s spec = ri_apply (parallel_of x y) s spec" for s spec
  proof -
    have "m = None" using v by (auto simp: i split: if_splits)
    then show ?thesis by (simp add: i cs parallel_of_def cong: if_cong)
  qed
  have "rb_allow_parallel b" using v by (auto simp: i split: if_splits)
  moreover have "total_in (rb_slot_values b) (parallel_of x y)" using t by (simp add: total_in_def same)
  moreover have "plain x" "plain y" using p by (auto simp: i cs)
  ultimately obtain k where "k \<in> set (atomic_candidates b)" "same_effect b (parallel_of x y) k"
    using parallel_cover [OF b] by blast
  then show ?thesis by (auto simp: same_effect_def same)
next
  case False
  have "valid_in (rb_slot_count b) i"
    using v validate_atomic [OF False] unfolding valid_in_def by (cases "rb_allow_parallel b") auto
  then obtain j where "atomic_candidate b j" "same_effect b i j"
    using atomic_cover [OF b _ False t p] by blast
  then show ?thesis by (auto simp: atomic_candidates_def atomic_part_iff)
qed


section \<open>What the atomic probe certifies\<close>

text \<open>
  C26. The atomic probe is exact: over a constructed basis, a target that returns states of the
  domain and a non-empty list of probe states of the domain, it returns.  \<open>expressible\<close> comes with a
  candidate that does what the target does on every probe state; \<open>inexpressible\<close> means that no
  candidate does.  When all states are enumerated, \<open>inexpressible\<close> also rules out every
  instruction the validator accepts for the basis, whether or not it is among the candidates, except
  a conditional update guarded by its own slot.
\<close>

theorem expressibility_probe_exact:
  assumes "rb_init count vals slots parallel = Inr b" and "probe_states b states \<noteq> []"
    and "\<forall>s\<in>set (probe_states b states). in_domain (rb_slot_values b) s"
    and "target_fine b target (probe_states b states)"
  shows "\<exists>r. expressibility_probe b target states = Inr r \<and>
    (case pr_status r of
       Expressible \<Rightarrow> \<exists>i. pr_instruction r = Some i \<and> i \<in> set (atomic_candidates b)
         \<and> (\<forall>s\<in>set (probe_states b states). ri_apply i s (PerSlot (rb_slot_values b)) = target s)
     | Inexpressible \<Rightarrow> pr_instruction r = None \<and> pr_checked r = int (length (atomic_candidates b))
         \<and> (\<forall>i\<in>set (atomic_candidates b). \<exists>s\<in>set (probe_states b states).
              ri_apply i s (PerSlot (rb_slot_values b)) \<noteq> target s)
         \<and> (states = None \<longrightarrow>
              (\<forall>i. ri_validate (rb_slot_count b) (rb_allow_parallel b) i = Inr () \<and> plain i \<longrightarrow>
                (\<exists>s. in_domain (rb_slot_values b) s
                   \<and> ri_apply i s (PerSlot (rb_slot_values b)) \<noteq> target s)))
     | _ \<Rightarrow> False)"
proof -
  let ?vs = "rb_slot_values b"
  have b: "basis_ok b" using rb_init_ok assms(1) .
  have cover: "\<exists>s. in_domain ?vs s \<and> ri_apply i s (PerSlot ?vs) \<noteq> target s"
    if none: "states = None" and i: "ri_validate (rb_slot_count b) (rb_allow_parallel b) i = Inr ()" "plain i"
      and no: "\<forall>i\<in>set (atomic_candidates b). \<exists>s\<in>set (probe_states b states).
        ri_apply i s (PerSlot ?vs) \<noteq> target s" for i
  proof (rule ccontr)
    assume "\<not> ?thesis"
    then have eq: "\<And>s. in_domain ?vs s \<Longrightarrow> ri_apply i s (PerSlot ?vs) = target s" by blast
    have all: "s \<in> set (probe_states b states) \<longleftrightarrow> in_domain ?vs s" for s
      using none by (simp add: probe_states_def all_states_iff)
    then have "total_in ?vs i" using eq assms(4) unfolding total_in_def target_fine_def by metis
    from candidates_cover [OF b i(1) this i(2)] obtain j where
      "j \<in> set (atomic_candidates b)" "same_effect b i j" by blast
    then show False using no eq all same_effect_apply by metis
  qed
  obtain r where r: "expressibility_probe b target states = Inr r"
    "case pr_status r of
       Expressible \<Rightarrow> \<exists>i. pr_instruction r = Some i \<and> i \<in> set (atomic_candidates b)
         \<and> (\<forall>s\<in>set (probe_states b states). ri_apply i s (PerSlot ?vs) = target s)
     | Inexpressible \<Rightarrow> pr_instruction r = None \<and> pr_checked r = int (length (atomic_candidates b))
         \<and> (\<forall>i\<in>set (atomic_candidates b). \<exists>s\<in>set (probe_states b states).
              ri_apply i s (PerSlot ?vs) \<noteq> target s)
     | _ \<Rightarrow> False"
    using expressibility_probe_cases [OF b assms(2,3,4)] by blast
  show ?thesis
  proof (cases "pr_status r")
    case Expressible
    then show ?thesis using r by simp
  next
    case Inexpressible
    then have no: "\<forall>i\<in>set (atomic_candidates b). \<exists>s\<in>set (probe_states b states).
        ri_apply i s (PerSlot ?vs) \<noteq> target s" using r(2) by simp
    have "states = None \<longrightarrow>
        (\<forall>i. ri_validate (rb_slot_count b) (rb_allow_parallel b) i = Inr () \<and> plain i \<longrightarrow>
          (\<exists>s. in_domain ?vs s \<and> ri_apply i s (PerSlot ?vs) \<noteq> target s))"
      using cover [OF _ _ _ no] by blast
    then show ?thesis using r Inexpressible by simp
  qed (use r in auto)
qed

section \<open>Simultaneous increments\<close>

lemma unary_apply:
  assumes "basis_ok b" and "k < length (rb_slot_values b)" and "in_domain (rb_slot_values b) s"
  shows "ri_apply (unary RInc (int k) (rb_slot_values b ! k)) s (PerSlot (rb_slot_values b))
    = Inr (s[k := (s ! k + 1) mod (rb_slot_values b ! k)])"
proof -
  let ?i = "unary RInc (int k) (rb_slot_values b ! k)"
  have c: "atomic_candidate b ?i" using candidateI(2) assms by blast
  have v: "valid_in (rb_slot_count b) ?i"
    using total_validates [OF assms(1) atomic_total [OF assms(1) c]] by (simp add: valid_in_def)
  from total_atomic [OF assms(1) v [unfolded unary_def] atomic_total [OF assms(1) c, unfolded unary_def]
      _ _ assms(3)]
  show ?thesis by (auto simp: unary_def atomic_effect_def simp del: ri_apply.simps)
qed

text \<open>From the all-zero state an atomic candidate reaches only states with at most one slot changed.\<close>

lemma atomic_from_zero:
  assumes b: "basis_ok b" and i: "atomic_candidate b i"
    and t: "ri_apply i (replicate (length (rb_slot_values b)) 0) (PerSlot (rb_slot_values b)) = Inr t"
  shows "\<exists>k. \<forall>j < length (rb_slot_values b). int j \<noteq> k \<longrightarrow> t ! j = 0"
proof -
  have frame: "ri_written_slots i = Inr W \<Longrightarrow> j < length (rb_slot_values b) \<Longrightarrow> int j \<notin> W \<Longrightarrow> t ! j = 0"
    for W j using apply_frame [OF t] by auto
  consider "i = noop" | (one) k where "ri_written_slots i = Inr {k}"
    | (swap) k l where "i = binary Swap k l None"
    using i unfolding atomic_candidate_def Let_def by (auto simp: unary_def binary_def)
  then show ?thesis
  proof cases
    case 1
    then show ?thesis using frame [of "{}"] by simp
  next
    case one
    then show ?thesis using frame [OF one] by blast
  next
    case swap
    have v: "valid_in (rb_slot_count b) i"
      using total_validates [OF b atomic_total [OF b i]] by (simp add: valid_in_def)
    from total_atomic [OF b v [unfolded swap binary_def] atomic_total [OF b i, unfolded swap binary_def]
        _ _ zero_state [OF b]] t
    have "t = (replicate (length (rb_slot_values b)) 0)[nat k := replicate (length (rb_slot_values b)) 0 ! nat l,
        nat l := replicate (length (rb_slot_values b)) 0 ! nat k]"
      by (auto simp: swap binary_def atomic_effect_def simp del: ri_apply.simps)
    moreover have "nat k < length (rb_slot_values b)" "nat l < length (rb_slot_values b)"
      using v b by (auto simp: swap binary_def valid_in_def in_slots_def basis_ok_def split: if_splits)
    ultimately show ?thesis by (auto simp: nth_list_update)
  qed
qed

lemma paired_run:
  assumes b: "basis_ok b" and f: "f < length (rb_slot_values b)" and g: "g < length (rb_slot_values b)"
    and ne: "f \<noteq> g" and m: "rb_slot_values b ! f = m" "rb_slot_values b ! g = m"
    and s: "in_domain (rb_slot_values b) s"
  shows "ri_apply (parallel_of (unary RInc (int f) m) (unary RInc (int g) m)) s (PerSlot (rb_slot_values b))
    = Inr (s[f := (s ! f + 1) mod m, g := (s ! g + 1) mod m])"
proof -
  have len: "length s = length (rb_slot_values b)" using s by (simp add: in_domain_length)
  have w: "ri_written_slots (unary RInc k m) = Inr {k}" for k by (simp add: unary_def)
  have d: "disjoint_writers (unary RInc (int f) m, unary RInc (int g) m)"
    using ne by (simp add: disjoint_writers_def w)
  have "commit (commit s {int f} (s[f := (s ! f + 1) mod m])) {int g} (s[g := (s ! g + 1) mod m])
      = s[f := (s ! f + 1) mod m, g := (s ! g + 1) mod m]"
    using f g ne len by (intro commit_all) (auto simp: nth_list_update)
  then show ?thesis
    using parallel_apply [OF b candidateI(2) [OF b f, unfolded m(1)] candidateI(2) [OF b g, unfolded m(2)] d s]
      unary_apply [OF b f s] unary_apply [OF b g s] m w by simp
qed

text \<open>
  The paired increment separates the two bases: for two distinct slots with the same domain the
  probe over all states reports the simultaneous increment as inexpressible in a basis without
  parallel instructions and as expressible in the basis with them.
\<close>

lemma paired_increment_needs_parallel:
  assumes "rb_init count vals slots parallel = Inr b"
    and "in_range f (length (rb_slot_values b))" and "in_range g (length (rb_slot_values b))"
    and "rb_slot_values b ! nat f = m" and "rb_slot_values b ! nat g = m"
    and "paired_increment_target f g m = Inr target"
  shows "\<exists>r. expressibility_probe b target None = Inr r
    \<and> pr_status r = (if parallel then Expressible else Inexpressible)"
proof -
  let ?vs = "rb_slot_values b"
  have b: "basis_ok b" using rb_init_ok assms(1) .
  have par: "rb_allow_parallel b = parallel"
    using assms(1) by (auto simp: rb_init_def bind_r_eq_Inr simp del: normalize_slot_values.simps split: if_splits)
  obtain f' where f: "f = int f'" "f' < length ?vs" using in_rangeE [OF assms(2)] by blast
  obtain g' where g: "g = int g'" "g' < length ?vs" using in_rangeE [OF assms(3)] by blast
  have m: "?vs ! f' = m" "?vs ! g' = m" "2 \<le> m" and ne: "f' \<noteq> g'"
    using assms(4,5,6) f g by (auto simp: paired_increment_target_def split: if_splits)
  have target: "target s = Inr (s[f' := (s ! f' + 1) mod m, g' := (s ! g' + 1) mod m])"
    if s: "in_domain ?vs s" for s
  proof -
    have "length s = length ?vs" using s by (simp add: in_domain_length)
    then show ?thesis
      using assms(6) f g ne by (auto simp: paired_increment_target_def Let_def split: if_splits)
  qed
  have run: "ri_apply (parallel_of (unary RInc (int f') m) (unary RInc (int g') m)) s (PerSlot ?vs) = target s"
    "ri_apply (parallel_of (unary RInc (int g') m) (unary RInc (int f') m)) s (PerSlot ?vs) = target s"
    if s: "in_domain ?vs s" for s
    using paired_run [OF b f(2) g(2) ne m(1,2) s] paired_run [OF b g(2) f(2) ne [symmetric] m(2,1) s] target [OF s] ne
    by (simp_all add: list_update_swap)
  have states: "s \<in> set (probe_states b None) \<longleftrightarrow> in_domain ?vs s" for s
    by (simp add: probe_states_def all_states_iff)
  have "probe_states b None \<noteq> []" using zero_state [OF b] states by (metis empty_iff empty_set)
  moreover have dom: "\<forall>s\<in>set (probe_states b None). in_domain ?vs s" using states by blast
  moreover have "target_fine b target (probe_states b None)"
    unfolding target_fine_def using run(1) states apply_in_domain target by metis
  ultimately obtain r where r: "expressibility_probe b target None = Inr r"
    "case pr_status r of
       Expressible \<Rightarrow> \<exists>i. pr_instruction r = Some i \<and> i \<in> set (atomic_candidates b)
         \<and> (\<forall>s\<in>set (probe_states b None). ri_apply i s (PerSlot ?vs) = target s)
     | Inexpressible \<Rightarrow> pr_instruction r = None \<and> pr_checked r = int (length (atomic_candidates b))
         \<and> (\<forall>i\<in>set (atomic_candidates b). \<exists>s\<in>set (probe_states b None).
              ri_apply i s (PerSlot ?vs) \<noteq> target s)
     | _ \<Rightarrow> False"
    using expressibility_probe_cases [OF b] by blast
  show ?thesis
  proof (cases parallel)
    case True
    have "disjoint_writers (unary RInc (int f') m, unary RInc (int g') m)"
      using ne by (simp add: disjoint_writers_def unary_def)
    then have "parallel_of (unary RInc (int f') m) (unary RInc (int g') m) \<in> set (atomic_candidates b)
        \<or> parallel_of (unary RInc (int g') m) (unary RInc (int f') m) \<in> set (atomic_candidates b)"
      using parallel_candidate candidateI(2) [OF b f(2)] candidateI(2) [OF b g(2)] m par True by simp
    then have "\<not> (\<forall>i\<in>set (atomic_candidates b). \<exists>s\<in>set (probe_states b None).
        ri_apply i s (PerSlot ?vs) \<noteq> target s)" using run states by blast
    then show ?thesis using r True by (cases "pr_status r") auto
  next
    case False
    have "pr_status r \<noteq> Expressible"
    proof
      assume "pr_status r = Expressible"
      then obtain i where i: "i \<in> set (atomic_candidates b)"
          "\<forall>s\<in>set (probe_states b None). ri_apply i s (PerSlot ?vs) = target s"
        using r(2) by auto
      have "atomic_candidate b i" using candidates_cases [OF i(1)] par False by simp
      moreover have "ri_apply i (replicate (length ?vs) 0) (PerSlot ?vs)
          = Inr ((replicate (length ?vs) 0)[f' := 1, g' := 1])"
        using i(2) target states zero_state [OF b] f g m ne by simp
      ultimately obtain k where "\<forall>j < length ?vs. int j \<noteq> k \<longrightarrow>
          (replicate (length ?vs) (0::int))[f' := 1, g' := 1] ! j = 0"
        using atomic_from_zero [OF b] by blast
      from this [rule_format, of f'] this [rule_format, of g'] show False
        using f g ne by (metis length_list_update length_replicate nth_list_update_eq nth_list_update_neq
            of_nat_eq_iff zero_neq_one)
    qed
    then show ?thesis using r False by (cases "pr_status r") auto
  qed
qed

section \<open>Instances\<close>

theorem parallel_is_order_free_witness:
  "ri_apply (parallel_of (unary RInc 1 3) (unary RInc 0 2)) [1, 2] (PerSlot [2, 3]) = Inr [0, 0]
    \<and> apply_sequence [unary RInc 0 2, unary RInc 1 3] [1, 2] (PerSlot [2, 3]) = Inr [0, 0]"
  using parallel_is_order_free [of "unary RInc 0 2" "unary RInc 1 3" "[1, 2]" "PerSlot [2, 3]" "[0, 0]"]
  by (simp add: parallel_of_def unary_def in_slots_def in_domain_def atomic_effect_def commit_def)

theorem expressibility_probe_exact_witness:
  "\<exists>r. expressibility_probe flip_basis flip_target None = Inr r
    \<and> (pr_status r = Expressible \<or> pr_status r = Inexpressible)"
proof -
  from expressibility_probe_exact [OF flip_facts(1), of None flip_target, unfolded flip_facts(2)]
    flip_facts(3,4)
  obtain r where "expressibility_probe flip_basis flip_target None = Inr r"
    "pr_status r \<noteq> Invalid" "pr_status r \<noteq> BudgetExhausted"
    by (auto dest: case_probe_status)
  then show ?thesis by (cases "pr_status r") auto
qed

end
