(* ===== verification/RecipeProgram.thy ===== *)
theory RecipeProgram
  imports RecipeProbe ProgramStore
begin

text \<open>
  The first part of \<open>recipe_program.py\<close>: recipe programs, their checksummed payload form, and the
  evaluation of a candidate from its ordered scalar outcomes.

  A field of an instruction payload that is neither an integer nor null is refused with
  \<open>TypeError\<close> when it is read; the code keeps the value and fails in the validator.
\<close>

section \<open>Instruction payloads\<close>

definition RECIPE_PROGRAM_SCHEMA :: string where
  "RECIPE_PROGRAM_SCHEMA = ''neural-computer.external-recipe-program.v1''"

fun rop_value :: "recipe_op \<Rightarrow> pyval" where
  "rop_value Noop = PStr ''noop''"
| "rop_value RInc = PStr ''inc''"
| "rop_value RDec = PStr ''dec''"
| "rop_value CInc = PStr ''cinc''"
| "rop_value CDec = PStr ''cdec''"
| "rop_value Copy = PStr ''copy''"
| "rop_value Swap = PStr ''swap''"
| "rop_value Parallel = PStr ''parallel''"
| "rop_value (ROther v) = v"

definition rop_of_value :: "pyval \<Rightarrow> recipe_op" where
  "rop_of_value v =
     (if v = PStr ''noop'' then Noop else if v = PStr ''inc'' then RInc
      else if v = PStr ''dec'' then RDec else if v = PStr ''cinc'' then CInc
      else if v = PStr ''cdec'' then CDec else if v = PStr ''copy'' then Copy
      else if v = PStr ''swap'' then Swap else if v = PStr ''parallel'' then Parallel
      else ROther v)"

fun ri_payload :: "recipe_instruction \<Rightarrow> pyval" where
  "ri_payload (RI x first second m children) = PDict
     [(''op'', rop_value x),
      (''first'', opt_int_value first),
      (''second'', opt_int_value second),
      (''modulus'', opt_int_value m),
      (''children'', case children of None \<Rightarrow> PNone | Some is \<Rightarrow> PList (map ri_payload is))]"

fun raw_opt_int :: "pyval \<Rightarrow> int option result" where
  "raw_opt_int PNone = Inr None"
| "raw_opt_int (PInt i) = Inr (Some i)"
| "raw_opt_int _ = Inl TypeError"

lemma dict_get_size [termination_simp]:
  assumes "(case map_of kvs k of None \<Rightarrow> PNone | Some v \<Rightarrow> v) = PList xs" and "x \<in> set xs"
  shows "size x < Suc (size_list (\<lambda>kv. Suc (size (snd kv))) kvs)"
proof -
  have "(k, PList xs) \<in> set kvs" using assms(1) by (auto split: option.splits dest: map_of_SomeD)
  then have "size (PList xs) < Suc (size_list (\<lambda>kv. Suc (size (snd kv))) kvs)"
    by (induction kvs) auto
  moreover have "size x < size (PList xs)" using assms(2) by (induction xs) auto
  ultimately show ?thesis by simp
qed

fun ri_from_payload :: "pyval \<Rightarrow> recipe_instruction result" where
  "ri_from_payload (PDict kvs) =
     bind_r (case dict_get kvs ''children'' of
               PNone \<Rightarrow> Inr None
             | PList xs \<Rightarrow>
                 if length xs \<noteq> 2 then Inl ValueError
                 else bind_r (map_r ri_from_payload xs) (\<lambda>is. Inr (Some is))
             | PStr s \<Rightarrow> if length s \<noteq> 2 then Inl ValueError else Inl TypeError
             | _ \<Rightarrow> Inl ValueError) (\<lambda>children.
     bind_r (raw_opt_int (dict_get kvs ''first'')) (\<lambda>first.
     bind_r (raw_opt_int (dict_get kvs ''second'')) (\<lambda>second.
     bind_r (raw_opt_int (dict_get kvs ''modulus'')) (\<lambda>m.
       Inr (RI (rop_of_value (dict_get kvs ''op'')) first second m children)))))"
| "ri_from_payload _ = Inl TypeError"

text \<open>
  An operation that stands for itself: \<open>ROther\<close> of a known name is not a value the code can hold,
  since there the operation is the name.
\<close>

fun canonical :: "recipe_instruction \<Rightarrow> bool" where
  "canonical (RI x f g m cs) \<longleftrightarrow> rop_of_value (rop_value x) = x
     \<and> (case cs of None \<Rightarrow> True | Some is \<Rightarrow> \<forall>i\<in>set is. canonical i)"

lemma rop_roundtrip [simp]:
  "rop_of_value (rop_value Noop) = Noop" "rop_of_value (rop_value RInc) = RInc"
  "rop_of_value (rop_value RDec) = RDec" "rop_of_value (rop_value CInc) = CInc"
  "rop_of_value (rop_value CDec) = CDec" "rop_of_value (rop_value Copy) = Copy"
  "rop_of_value (rop_value Swap) = Swap" "rop_of_value (rop_value Parallel) = Parallel"
  by (simp_all add: rop_of_value_def)

lemma raw_opt_int_value [simp]: "raw_opt_int (opt_int_value f) = Inr f"
  by (cases f) simp_all

lemma ri_payload_keys:
  assumes "ri_payload (RI x f g m cs) = PDict kvs"
  shows "dict_get kvs ''op'' = rop_value x" "dict_get kvs ''first'' = opt_int_value f"
    "dict_get kvs ''second'' = opt_int_value g" "dict_get kvs ''modulus'' = opt_int_value m"
    "dict_get kvs ''children'' = (case cs of None \<Rightarrow> PNone | Some is \<Rightarrow> PList (map ri_payload is))"
  using assms by auto

lemma ri_roundtrip:
  "ri_validate n a i = Inr () \<Longrightarrow> canonical i \<Longrightarrow> ri_from_payload (ri_payload i) = Inr i"
proof (induction i arbitrary: a rule: recipe_instruction.induct)
  case (RI x f g m cs)
  obtain kvs where kvs: "ri_payload (RI x f g m cs) = PDict kvs" by simp
  note keys = ri_payload_keys [OF kvs]
  have x: "rop_of_value (rop_value x) = x" using RI.prems(2) by simp
  show ?case
  proof (cases cs)
    case None
    then show ?thesis
      unfolding kvs ri_from_payload.simps keys x by simp
  next
    case (Some iss)
    then have P: "x = Parallel" using RI.prems(1) by (auto split: if_splits)
    then obtain l r where lr: "iss = [l, r]"
      using RI.prems(1) Some by (auto split: if_splits list.splits)
    have v: "ri_validate n False l = Inr ()" "ri_validate n False r = Inr ()"
      using RI.prems(1) by (auto simp: Some lr P bind_r_eq_Inr split: if_splits)
    have c: "canonical l" "canonical r" using RI.prems(2) by (auto simp: Some lr)
    have "ri_from_payload (ri_payload l) = Inr l" "ri_from_payload (ri_payload r) = Inr r"
      using RI.IH [of iss l] RI.IH [of iss r] v c by (auto simp: Some lr)
    then show ?thesis
      unfolding kvs ri_from_payload.simps keys x by (simp add: Some lr)
  qed
qed

section \<open>Recipe programs\<close>

record recipe_program =
  rp_slot_values :: "int list"
  rp_instructions :: "recipe_instruction list"
  rp_allow_parallel :: bool
  rp_schema :: string

text \<open>The constructor, with the checks of \<open>__post_init__\<close>.\<close>

definition rp_init :: "int list \<Rightarrow> recipe_instruction list \<Rightarrow> bool \<Rightarrow> string \<Rightarrow> recipe_program result" where
  "rp_init values is parallel schema =
     (if schema \<noteq> RECIPE_PROGRAM_SCHEMA then Inl ValueError
      else if values = [] \<or> (\<exists>v\<in>set values. v < 2) then Inl ValueError
      else if is = [] then Inl ValueError
      else bind_r (rb_init (int (length values)) 8 (Some values) parallel) (\<lambda>b.
           bind_r (all_r (ri_validate (rb_slot_count b) (rb_allow_parallel b)) is) (\<lambda>_.
             Inr \<lparr>rp_slot_values = values, rp_instructions = is, rp_allow_parallel = parallel,
                  rp_schema = schema\<rparr>)))"

definition rp_length :: "recipe_program \<Rightarrow> int" where
  "rp_length p = int (length (rp_instructions p))"

definition rp_configuration :: "recipe_program \<Rightarrow> (string \<times> pyval) list" where
  "rp_configuration p =
     [(''schema'', PStr (rp_schema p)),
      (''slot_values'', PList (map PInt (rp_slot_values p))),
      (''allow_parallel'', PBool (rp_allow_parallel p)),
      (''program_length'', PInt (rp_length p)),
      (''execution'', PStr ''recipe_basis_sequence_v1''),
      (''storage'', PStr ''opaque_typed_instruction_file_v1'')]"

definition rp_content :: "recipe_program \<Rightarrow> (string \<times> pyval) list" where
  "rp_content p =
     [(''schema'', PStr (rp_schema p)),
      (''configuration'', PDict (rp_configuration p)),
      (''instructions'', PList (map ri_payload (rp_instructions p)))]"

definition rp_digest :: "recipe_program \<Rightarrow> string" where
  "rp_digest p = digest_payload (PDict (rp_content p))"

definition rp_payload :: "recipe_program \<Rightarrow> pyval" where
  "rp_payload p = PDict (rp_content p @ [(''sha256'', PStr (rp_digest p))])"

fun rp_from_payload :: "pyval \<Rightarrow> recipe_program result" where
  "rp_from_payload (PDict kvs) =
     (if dict_get kvs ''schema'' \<noteq> PStr RECIPE_PROGRAM_SCHEMA then Inl ValueError
      else (case dict_get kvs ''configuration'' of
          PDict config \<Rightarrow>
            (case py_sequence (dict_get kvs ''instructions'') of
               None \<Rightarrow> Inl TypeError
             | Some raw \<Rightarrow>
                 bind_r (py_tuple (dict_get_default config ''slot_values'' (PList []))) (\<lambda>values.
                 bind_r (map_r ri_from_payload raw) (\<lambda>is.
                 bind_r (map_r py_int values) (\<lambda>slot_values.
                 bind_r (rp_init slot_values is
                   (py_bool (dict_get_default config ''allow_parallel'' (PBool False)))
                   RECIPE_PROGRAM_SCHEMA) (\<lambda>p.
                   if \<not> py_eq_int (dict_get config ''program_length'') (rp_length p) then Inl ValueError
                   else if dict_get kvs ''sha256'' \<noteq> PStr (rp_digest p) then Inl ValueError
                   else Inr p)))))
        | _ \<Rightarrow> Inl TypeError))"
| "rp_from_payload _ = Inl TypeError"

definition rp_execute :: "recipe_program \<Rightarrow> int list \<Rightarrow> int list result" where
  "rp_execute p s = apply_sequence (rp_instructions p) s (PerSlot (rp_slot_values p))"

definition recipe_ok :: "recipe_program \<Rightarrow> bool" where
  "recipe_ok p \<longleftrightarrow> rp_schema p = RECIPE_PROGRAM_SCHEMA \<and> rp_slot_values p \<noteq> []
     \<and> (\<forall>v\<in>set (rp_slot_values p). 2 \<le> v) \<and> rp_instructions p \<noteq> []
     \<and> (\<forall>i\<in>set (rp_instructions p).
          ri_validate (int (length (rp_slot_values p))) (rp_allow_parallel p) i = Inr ())"

lemma rb_init_values:
  "values \<noteq> [] \<Longrightarrow> \<forall>v\<in>set values. 2 \<le> v \<Longrightarrow>
     rb_init (int (length values)) 8 (Some values) a
       = Inr \<lparr>rb_slot_count = int (length values), rb_slot_values = values, rb_values = Max (set values),
              rb_allow_parallel = a\<rparr>"
  by (cases "values") (auto simp: rb_init_def not_less)

lemma rp_init_Inr:
  "rp_init values iss a schema = Inr p \<longleftrightarrow>
     p = \<lparr>rp_slot_values = values, rp_instructions = iss, rp_allow_parallel = a, rp_schema = schema\<rparr>
     \<and> recipe_ok p"
proof (cases "values \<noteq> [] \<and> (\<forall>v\<in>set values. 2 \<le> v)")
  case True
  then show ?thesis
    using rb_init_values [of "values" a]
    by (auto simp: rp_init_def recipe_ok_def bind_r_eq_Inr all_r_Inr_iff not_less)
next
  case False
  then show ?thesis by (auto simp: rp_init_def recipe_ok_def not_less)
qed

lemma rp_init_self:
  "recipe_ok p \<Longrightarrow> rp_init (rp_slot_values p) (rp_instructions p) (rp_allow_parallel p) RECIPE_PROGRAM_SCHEMA = Inr p"
  by (cases p) (auto simp: rp_init_Inr recipe_ok_def)

lemma rp_configuration_keys:
  "dict_get_default (rp_configuration p) ''slot_values'' d = PList (map PInt (rp_slot_values p))"
  "dict_get_default (rp_configuration p) ''allow_parallel'' d = PBool (rp_allow_parallel p)"
  "dict_get (rp_configuration p) ''program_length'' = PInt (rp_length p)"
  by (simp_all add: rp_configuration_def)

lemma rp_payload_keys:
  "rp_payload p = PDict kvs \<Longrightarrow>
     dict_get kvs ''schema'' = PStr (rp_schema p)
     \<and> dict_get kvs ''configuration'' = PDict (rp_configuration p)
     \<and> dict_get kvs ''instructions'' = PList (map ri_payload (rp_instructions p))
     \<and> dict_get kvs ''sha256'' = PStr (rp_digest p)"
  by (auto simp: rp_payload_def rp_content_def)

lemma map_r_PInt [simp]: "map_r py_int (map PInt xs) = Inr xs"
  by (induction xs) auto

lemma rp_roundtrip:
  assumes "recipe_ok p" and "\<forall>i\<in>set (rp_instructions p). canonical i"
  shows "rp_from_payload (rp_payload p) = Inr p"
proof -
  obtain kvs where kvs: "rp_payload p = PDict kvs" by (simp add: rp_payload_def)
  have "ri_from_payload (ri_payload i) = Inr i" if "i \<in> set (rp_instructions p)" for i
    using assms that ri_roundtrip by (auto simp: recipe_ok_def)
  then have instrs: "map_r ri_from_payload (map ri_payload (rp_instructions p)) = Inr (rp_instructions p)"
    using map_r_total [of "rp_instructions p" "\<lambda>i. ri_from_payload (ri_payload i)" id]
    by (simp add: map_r_map)
  have schema: "rp_schema p = RECIPE_PROGRAM_SCHEMA" using assms(1) by (simp add: recipe_ok_def)
  show ?thesis
    unfolding kvs rp_from_payload.simps
    using rp_payload_keys [OF kvs] instrs schema rp_init_self [OF assms(1)]
    by (simp add: rp_configuration_keys del: dict_get.simps dict_get_default.simps)
qed

lemma rp_from_payload_Inr:
  assumes "rp_from_payload v = Inr p"
  shows "recipe_ok p \<and> (\<exists>kvs. v = PDict kvs \<and> dict_get kvs ''sha256'' = PStr (rp_digest p))"
proof -
  obtain kvs where v: "v = PDict kvs" using assms by (cases v) auto
  show ?thesis
    using assms unfolding v rp_from_payload.simps
    by (auto simp: bind_r_eq_Inr rp_init_Inr simp del: dict_get.simps dict_get_default.simps
        split: if_splits pyval.splits option.splits)
qed

section \<open>Admission\<close>

definition RECIPE_PROGRAM_ADMISSION_SCHEMA :: string where
  "RECIPE_PROGRAM_ADMISSION_SCHEMA = ''neural-computer.external-recipe-program-admission.v1''"

record recipe_receipt =
  rr_accepted :: bool
  rr_digest :: string
  rr_slot :: "int option"
  rr_observations :: int
  rr_stable :: "int option"
  rr_minimum :: "pyfloat option"
  rr_reason :: string
  rr_schema :: string

definition rr_validate :: "recipe_receipt \<Rightarrow> recipe_receipt result" where
  "rr_validate r =
     (if rr_schema r \<noteq> RECIPE_PROGRAM_ADMISSION_SCHEMA then Inl ValueError
      else if length (rr_digest r) \<noteq> 64 then Inl ValueError
      else if int16_of_text (rr_digest r) = None then Inl ValueError
      else if rr_observations r < 0 then Inl ValueError
      else if (case rr_slot r of None \<Rightarrow> False | Some k \<Rightarrow> k < 0) then Inl ValueError
      else if (case rr_stable r of None \<Rightarrow> False
               | Some k \<Rightarrow> \<not> (1 \<le> k \<and> k \<le> rr_observations r)) then Inl ValueError
      else if (case rr_minimum r of None \<Rightarrow> False | Some v \<Rightarrow> \<not> (Fin 0 \<le> v \<and> v \<le> Fin 1))
      then Inl ValueError
      else if rr_reason r = [] then Inl ValueError
      else Inr r)"

definition NO_OUTCOMES :: string where
  "NO_OUTCOMES = ''no verifier outcomes''"

definition TOO_FEW :: string where
  "TOO_FEW = ''candidate has not reached minimum verifier observations''"

definition NOT_STABLE :: string where
  "NOT_STABLE = ''candidate did not clear a stable verifier prefix''"

definition CLEARED :: string where
  "CLEARED = ''candidate cleared the stable verifier prefix''"

lemma reasons_nonempty [simp]:
  "NO_OUTCOMES \<noteq> []" "TOO_FEW \<noteq> []" "NOT_STABLE \<noteq> []" "CLEARED \<noteq> []"
  by (simp_all add: NO_OUTCOMES_def TOO_FEW_def NOT_STABLE_def CLEARED_def)

definition mk_receipt :: "bool \<Rightarrow> recipe_program \<Rightarrow> int \<Rightarrow> int option \<Rightarrow> pyfloat option \<Rightarrow> string
    \<Rightarrow> recipe_receipt" where
  "mk_receipt accepted p n stab minimum reason =
     \<lparr>rr_accepted = accepted, rr_digest = rp_digest p, rr_slot = None, rr_observations = n,
      rr_stable = stab, rr_minimum = minimum, rr_reason = reason,
      rr_schema = RECIPE_PROGRAM_ADMISSION_SCHEMA\<rparr>"

definition evaluate_recipe_program_admission ::
    "recipe_program \<Rightarrow> pyfloat list \<Rightarrow> pyfloat \<Rightarrow> int \<Rightarrow> int \<Rightarrow> recipe_receipt result" where
  "evaluate_recipe_program_admission p outcomes threshold min_observations min_stable =
     (let n = int (length outcomes)
      in if \<not> (Fin 0 \<le> threshold \<and> threshold \<le> Fin 1) then Inl ValueError
         else if min_observations < 1 \<or> min_stable < 1 then Inl ValueError
         else if outcomes = [] then rr_validate (mk_receipt False p 0 None None NO_OUTCOMES)
         else if (\<exists>v\<in>set outcomes. \<not> isfinite v \<or> v < Fin 0 \<or> Fin 1 < v) then Inl ValueError
         else if n < min_observations
         then rr_validate (mk_receipt False p n None (Some (float_min outcomes)) TOO_FEW)
         else (case stable_from (fin_val threshold) min_stable 0 (map fin_val outcomes) of
             None \<Rightarrow> rr_validate (mk_receipt False p n None (Some (float_min outcomes)) NOT_STABLE)
           | Some k \<Rightarrow> rr_validate (mk_receipt True p n (Some k)
               (Some (float_min (drop (nat (k - 1)) outcomes))) CLEARED)))"

definition recipe_args_ok :: "pyfloat list \<Rightarrow> pyfloat \<Rightarrow> int \<Rightarrow> int \<Rightarrow> bool" where
  "recipe_args_ok outcomes threshold min_observations min_stable \<longleftrightarrow>
     in_unit threshold \<and> 1 \<le> min_observations \<and> 1 \<le> min_stable \<and> (\<forall>v\<in>set outcomes. in_unit v)"

lemma digest_ok_rp [simp]: "digest_ok (rp_digest p)"
  by (simp add: rp_digest_def)

lemma rr_validate_Inr: "rr_validate q = Inr r \<Longrightarrow> q = r"
  by (simp add: rr_validate_def split: if_splits)

lemma rr_validate_mk:
  assumes "0 \<le> n" and "\<And>k. stab = Some k \<Longrightarrow> 1 \<le> k \<and> k \<le> n" and "reason \<noteq> []"
    and "\<And>v. minimum = Some v \<Longrightarrow> in_unit v"
  shows "rr_validate (mk_receipt a p n stab minimum reason) = Inr (mk_receipt a p n stab minimum reason)"
proof -
  have "length (rp_digest p) = 64" "int16_of_text (rp_digest p) \<noteq> None"
    using digest_ok_rp [of p] by (simp_all add: digest_ok_def)
  then show ?thesis
    using assms
    by (cases stab; cases minimum) (auto simp: rr_validate_def mk_receipt_def in_unit_def)
qed

lemma stable_bounds:
  assumes "stable_from t ms 0 vs = Some k"
  shows "1 \<le> k \<and> k \<le> int (length vs) \<and> drop (nat (k - 1)) vs \<noteq> []"
  using stable_from_Some [OF assms] by auto

lemma outcome_unit: "(\<not> isfinite v \<or> v < Fin 0 \<or> Fin 1 < v) \<longleftrightarrow> \<not> in_unit v"
  by (cases v) (auto simp: in_unit_iff)

text \<open>What the evaluator returns, and when.\<close>

lemma recipe_admission_total:
  assumes "recipe_args_ok outcomes threshold mo ms"
  shows "evaluate_recipe_program_admission p outcomes threshold mo ms = Inr
    (if outcomes = [] then mk_receipt False p 0 None None NO_OUTCOMES
     else if int (length outcomes) < mo
     then mk_receipt False p (int (length outcomes)) None (Some (float_min outcomes)) TOO_FEW
     else (case stable_from (fin_val threshold) ms 0 (map fin_val outcomes) of
         None \<Rightarrow> mk_receipt False p (int (length outcomes)) None (Some (float_min outcomes)) NOT_STABLE
       | Some k \<Rightarrow> mk_receipt True p (int (length outcomes)) (Some k)
           (Some (float_min (drop (nat (k - 1)) outcomes))) CLEARED))"
proof -
  have args: "\<not> \<not> (Fin 0 \<le> threshold \<and> threshold \<le> Fin 1)" "\<not> (mo < 1 \<or> ms < 1)"
      "\<not> (\<exists>v\<in>set outcomes. \<not> isfinite v \<or> v < Fin 0 \<or> Fin 1 < v)" "\<forall>v\<in>set outcomes. in_unit v"
    using assms unfolding outcome_unit by (auto simp: recipe_args_ok_def in_unit_def)
  have unit: "in_unit (float_min vs)" if "vs \<noteq> []" "set vs \<subseteq> set outcomes" for vs
    using float_min_unit [OF that(1)] that(2) args(4) by blast
  have no: "rr_validate (mk_receipt False p 0 None None NO_OUTCOMES) = Inr (mk_receipt False p 0 None None NO_OUTCOMES)"
    by (rule rr_validate_mk) auto
  have few: "rr_validate (mk_receipt False p (int (length outcomes)) None (Some (float_min outcomes)) x)
      = Inr (mk_receipt False p (int (length outcomes)) None (Some (float_min outcomes)) x)"
    if "outcomes \<noteq> []" "x \<noteq> []" for x
    using that unit [of outcomes] by (intro rr_validate_mk) auto
  have ok: "rr_validate (mk_receipt True p (int (length outcomes)) (Some k)
        (Some (float_min (drop (nat (k - 1)) outcomes))) CLEARED)
      = Inr (mk_receipt True p (int (length outcomes)) (Some k)
        (Some (float_min (drop (nat (k - 1)) outcomes))) CLEARED)"
    if "stable_from (fin_val threshold) ms 0 (map fin_val outcomes) = Some k" for k
    using stable_bounds [OF that] unit [OF _ set_drop_subset]
    by (intro rr_validate_mk) (auto simp: drop_map)
  show ?thesis
    unfolding evaluate_recipe_program_admission_def Let_def
    using args(1-3) no few ok by (simp only: if_False split: option.split) simp
qed

lemma recipe_admission_args:
  "evaluate_recipe_program_admission p outcomes threshold mo ms = Inr r \<Longrightarrow> recipe_args_ok outcomes threshold mo ms"
  unfolding evaluate_recipe_program_admission_def Let_def recipe_args_ok_def in_unit_def [of threshold] outcome_unit
  by (auto simp: not_less split: if_splits)

text \<open>
  Recipe files survive persistence.  A well-formed program is read back from its payload
  unchanged, and executes the same; whatever payload is accepted yields a well-formed program whose
  own digest is the checksum the payload carries.
\<close>

lemma recipe_program_roundtrip:
  "(recipe_ok p \<and> (\<forall>i\<in>set (rp_instructions p). canonical i) \<longrightarrow> rp_from_payload (rp_payload p) = Inr p)
   \<and> (rp_from_payload v = Inr q \<longrightarrow> recipe_ok q
        \<and> (\<exists>kvs. v = PDict kvs \<and> dict_get kvs ''sha256'' = PStr (rp_digest q)))"
  using rp_roundtrip rp_from_payload_Inr by blast

definition twin_inc :: recipe_program where
  "twin_inc = \<lparr>rp_slot_values = [2, 3],
     rp_instructions = [parallel_of (unary RInc 0 2) (unary RInc 1 3), binary Copy 1 0 None],
     rp_allow_parallel = True, rp_schema = RECIPE_PROGRAM_SCHEMA\<rparr>"

lemma twin_inc_ok: "recipe_ok twin_inc" "\<forall>i\<in>set (rp_instructions twin_inc). canonical i"
  by (auto simp: recipe_ok_def twin_inc_def parallel_of_def unary_def binary_def in_slots_def
      rop_of_value_def)

lemma recipe_admission_decides:
  assumes "evaluate_recipe_program_admission p outcomes threshold mo ms = Inr r"
  shows "rr_digest r = rp_digest p \<and> rr_slot r = None \<and> rr_observations r = int (length outcomes)
      \<and> (rr_accepted r \<longleftrightarrow> mo \<le> int (length outcomes)
            \<and> stably_above (fin_val threshold) ms (map fin_val outcomes))"
proof -
  have args: "recipe_args_ok outcomes threshold mo ms" using recipe_admission_args [OF assms] .
  then have ms: "1 \<le> mo" "1 \<le> ms" by (auto simp: recipe_args_ok_def)
  have empty: "\<not> stably_above (fin_val threshold) ms []" using ms by (simp add: stably_above_def)
  show ?thesis
    using assms [unfolded recipe_admission_total [OF args, of p]] empty ms
      stable_None_iff [OF ms(2), of "fin_val threshold" 0 "map fin_val outcomes"]
    by (auto simp: mk_receipt_def split: if_splits option.splits)
qed

text \<open>
  Recipe admission fails closed.  The evaluator returns a receipt exactly when the threshold,
  the bounds and every outcome are in range; the receipt accepts exactly when there are enough
  outcomes and the last \<open>min_stable\<close> of them all reach the threshold; it carries the digest of the
  candidate and passes its own validator.
\<close>

lemma recipe_admission_fails_closed:
  "case evaluate_recipe_program_admission p outcomes threshold mo ms of
     Inl x \<Rightarrow> x = ValueError \<and> \<not> recipe_args_ok outcomes threshold mo ms
   | Inr r \<Rightarrow> recipe_args_ok outcomes threshold mo ms \<and> rr_digest r = rp_digest p
       \<and> rr_validate r = Inr r \<and> rr_slot r = None \<and> rr_observations r = int (length outcomes)
       \<and> (rr_accepted r \<longleftrightarrow> mo \<le> int (length outcomes)
            \<and> stably_above (fin_val threshold) ms (map fin_val outcomes))"
proof (cases "recipe_args_ok outcomes threshold mo ms")
  case True
  note eq = recipe_admission_total [OF True, of p]
  obtain r where r: "evaluate_recipe_program_admission p outcomes threshold mo ms = Inr r"
    unfolding eq by blast
  have "\<exists>q. rr_validate q = Inr r"
    using r unfolding evaluate_recipe_program_admission_def Let_def
    by (simp split: if_splits option.splits) blast+
  then have valid: "rr_validate r = Inr r" using rr_validate_Inr by blast
  show ?thesis using r valid True recipe_admission_decides [OF r] by simp
next
  case False
  show ?thesis
  proof (cases "evaluate_recipe_program_admission p outcomes threshold mo ms")
    case (Inl x)
    have "rr_validate q = Inl y \<Longrightarrow> y = ValueError" for q y
      by (auto simp: rr_validate_def split: if_splits)
    then have "x = ValueError"
      using Inl unfolding evaluate_recipe_program_admission_def Let_def
      by (auto split: if_splits option.splits)
    then show ?thesis using Inl False by simp
  next
    case (Inr r)
    then show ?thesis using recipe_admission_args [OF Inr] False by simp
  qed
qed

end
