(* ===== verification/RecipeProposal.thy ===== *)
theory RecipeProposal
  imports RecipeProgram SearchLedger OperatorStats "HOL-Library.AList"
begin

text \<open>
  \<open>recipe_program.py\<close>, lines 522 to 1168: the generic factors of a sequence edit and the two external
  memories of proposal credit.  A memory keeps, per opaque context and globally, the total quality and
  the count of the verdicts recorded for a candidate (\<open>OpaqueContextRecipeProposalMemory\<close>) or for the
  factors of an edit (\<open>FactorizedOpaqueContextRecipeProposalMemory\<close>), turns them into scores with an
  exploration bonus, and mixes their softmax with a floor.

  A dictionary of aggregates is an association list in insertion order, an aggregate the list
  \<open>[total, count]\<close> of floats.  \<open>math.log1p\<close> and \<open>math.sqrt\<close>, the softmax of torch and the random
  generator are parameters.  The memories' payloads are in \<open>CreditPayload\<close>.
\<close>

section \<open>Factors of an edit\<close>

definition RECIPE_PROGRAM_MUTATION_OPERATORS :: "string list" where
  "RECIPE_PROGRAM_MUTATION_OPERATORS = [''replace'', ''insert'', ''delete'', ''swap'']"

definition RECIPE_PROPOSAL_FACTORS_SCHEMA :: string where
  "RECIPE_PROPOSAL_FACTORS_SCHEMA = ''neural-computer.recipe-proposal-factors.v1''"

record proposal_factors =
  pf_operator :: int
  pf_primary :: int
  pf_secondary :: "int option"
  pf_digests :: "string list"
  pf_schema :: string

definition pf_validate :: "proposal_factors \<Rightarrow> proposal_factors result" where
  "pf_validate f =
     (if pf_schema f \<noteq> RECIPE_PROPOSAL_FACTORS_SCHEMA then Inl ValueError
      else if \<not> in_range (pf_operator f) (length RECIPE_PROGRAM_MUTATION_OPERATORS) then Inl ValueError
      else if pf_primary f < 0 then Inl ValueError
      else if (case pf_secondary f of None \<Rightarrow> False | Some j \<Rightarrow> j < 0 \<or> j = pf_primary f)
      then Inl ValueError
      else bind_r
        (if pf_operator f = 3
         then (case pf_secondary f of
                 None \<Rightarrow> Inl ValueError
               | Some j \<Rightarrow> if pf_primary f < j then Inr 2 else Inl ValueError)
         else if pf_secondary f \<noteq> None then Inl ValueError else Inr 1) (\<lambda>expected_instructions.
      if length (pf_digests f) \<noteq> expected_instructions then Inl ValueError
      else bind_r (all_r validate_digest (pf_digests f)) (\<lambda>_. Inr f)))"

definition pf_payload :: "proposal_factors \<Rightarrow> pyval result" where
  "pf_payload f =
     bind_r (pf_validate f) (\<lambda>_. Inr (PDict
       [(''schema'', PStr (pf_schema f)),
        (''operator_index'', PInt (pf_operator f)),
        (''primary_position'', PInt (pf_primary f)),
        (''secondary_position'', opt_int_value (pf_secondary f)),
        (''instruction_digests'', PList (map PStr (pf_digests f)))]))"

fun pf_from_payload :: "pyval \<Rightarrow> proposal_factors result" where
  "pf_from_payload (PDict kvs) =
     (case dict_get_default kvs ''instruction_digests'' (PList []) of
        PList instructions \<Rightarrow>
          bind_r (py_int (dict_get_default kvs ''operator_index'' (PInt (- 1)))) (\<lambda>operator_index.
          bind_r (py_int (dict_get_default kvs ''primary_position'' (PInt (- 1)))) (\<lambda>primary.
          bind_r (case dict_get kvs ''secondary_position'' of
                    PNone \<Rightarrow> Inr None
                  | v \<Rightarrow> bind_r (py_int v) (\<lambda>j. Inr (Some j))) (\<lambda>secondary.
            pf_validate \<lparr>pf_operator = operator_index, pf_primary = primary, pf_secondary = secondary,
              pf_digests = map py_str instructions,
              pf_schema = py_str (dict_get_default kvs ''schema'' (PStr []))\<rparr>)))
      | _ \<Rightarrow> Inl TypeError)"
| "pf_from_payload _ = Inl TypeError"

section \<open>Aggregates\<close>

text \<open>The standard library's \<open>math\<close>, and the random generator with its state.\<close>

record math_lib =
  math_log1p :: "rat \<Rightarrow> rat"
  math_sqrt :: "rat \<Rightarrow> rat"

record 'g rng =
  rng_multinomial :: "'g \<Rightarrow> rat list \<Rightarrow> nat \<times> 'g"
  rng_randint :: "'g \<Rightarrow> nat \<Rightarrow> nat \<times> 'g"

text \<open>A draw has positive weight, and \<open>randint\<close> stays below its bound.\<close>

definition rng_ok :: "'g rng \<Rightarrow> bool" where
  "rng_ok rng \<longleftrightarrow>
     (\<forall>g ps. (\<forall>p\<in>set ps. 0 \<le> p) \<longrightarrow> (\<exists>p\<in>set ps. 0 < p) \<longrightarrow>
        fst (rng_multinomial rng g ps) < length ps \<and> 0 < ps ! fst (rng_multinomial rng g ps))
     \<and> (\<forall>g n. 0 < n \<longrightarrow> fst (rng_randint rng g n) < n)"

type_synonym aggregate_table = "(string \<times> pyfloat list) list"

text \<open>\<open>_mean_and_count\<close> and \<open>_aggregate\<close>: the stored total and count.\<close>

definition aggregate :: "pyfloat list option \<Rightarrow> (rat \<times> rat) result" where
  "aggregate entry =
     (case entry of
        None \<Rightarrow> Inr (0, 0)
      | Some e \<Rightarrow>
          if length e \<noteq> 2 then Inl ValueError
          else let total = e ! 0; count = e ! 1
               in if \<not> isfinite total \<or> \<not> isfinite count then Inl ValueError
                  else if total < Fin 0 \<or> count < Fin 0 \<or> count < total then Inl ValueError
                  else Inr (fin_val total, fin_val count))"

text \<open>\<open>entry = table.setdefault(key, [0.0, 0.0])\<close>, then both components are increased.\<close>

definition add_credit :: "aggregate_table \<Rightarrow> string \<Rightarrow> pyfloat \<Rightarrow> aggregate_table" where
  "add_credit t key quality =
     (let entry = (case map_of t key of None \<Rightarrow> [Fin 0, Fin 0] | Some e \<Rightarrow> e)
      in AList.update key (bump (bump entry 0 quality) 1 (Fin 1)) t)"

text \<open>\<open>table.get(key, default)\<close>.\<close>

definition get_or :: "('k \<times> 'v) list \<Rightarrow> 'k \<Rightarrow> 'v \<Rightarrow> 'v" where
  "get_or kvs k d = (case map_of kvs k of None \<Rightarrow> d | Some v \<Rightarrow> v)"

definition invalid_quality :: "pyfloat \<Rightarrow> bool" where
  "invalid_quality q \<longleftrightarrow> \<not> isfinite q \<or> \<not> (Fin 0 \<le> q \<and> q \<le> Fin 1)"

definition bad_weight :: "pyfloat \<Rightarrow> bool" where
  "bad_weight x \<longleftrightarrow> \<not> isfinite x \<or> x < Fin 0"

text \<open>\<open>(1.0 - floor) * softmax(scores / temperature) + floor / len(scores)\<close>.\<close>

definition floored_softmax :: "torch_lib \<Rightarrow> rat \<Rightarrow> rat \<Rightarrow> rat list \<Rightarrow> rat list" where
  "floored_softmax torch eps temperature scores =
     map (\<lambda>p. (1 - eps) * p + eps / of_nat (length scores))
       (tl_softmax torch (map (\<lambda>x. x / temperature) scores))"

section \<open>Credit of whole candidates\<close>

record opaque_memory =
  om_floor :: rat
  om_prior_weight :: rat
  om_bonus :: rat
  om_temperature :: rat
  om_context_stats :: "(string \<times> aggregate_table) list"
  om_global_stats :: aggregate_table

definition om_init :: "pyfloat \<Rightarrow> pyfloat \<Rightarrow> pyfloat \<Rightarrow> pyfloat \<Rightarrow> opaque_memory result" where
  "om_init eps prior_weight bonus temperature =
     (if \<exists>x\<in>set [eps, prior_weight, bonus, temperature]. bad_weight x then Inl ValueError
      else if Fin 1 \<le> eps then Inl ValueError
      else if temperature \<le> Fin 0 then Inl ValueError
      else Inr \<lparr>om_floor = fin_val eps, om_prior_weight = fin_val prior_weight,
                om_bonus = fin_val bonus, om_temperature = fin_val temperature,
                om_context_stats = [], om_global_stats = []\<rparr>)"

definition validate_context :: "string \<Rightarrow> unit result" where
  "validate_context c = (if c = [] \<or> NUL \<in> set c then Inl ValueError else Inr ())"

definition validate_candidates :: "string list \<Rightarrow> unit result" where
  "validate_candidates candidates =
     (if candidates = [] then Inl ValueError
      else bind_r (all_r validate_digest candidates) (\<lambda>_.
        if card (set candidates) \<noteq> length candidates then Inl ValueError else Inr ()))"

definition om_record :: "opaque_memory \<Rightarrow> string \<Rightarrow> string \<Rightarrow> pyfloat \<Rightarrow> opaque_memory result" where
  "om_record m c digest quality =
     bind_r (validate_context c) (\<lambda>_.
     bind_r (validate_digest digest) (\<lambda>_.
       if invalid_quality quality then Inl ValueError
       else Inr (m\<lparr>om_context_stats := AList.update c
                     (add_credit (get_or (om_context_stats m) c []) digest quality) (om_context_stats m),
                   om_global_stats := add_credit (om_global_stats m) digest quality\<rparr>)))"

text \<open>The score of one candidate, as the code computes it from the two aggregates.\<close>

definition om_score :: "math_lib \<Rightarrow> opaque_memory \<Rightarrow> aggregate_table \<Rightarrow> rat \<Rightarrow> string \<Rightarrow> rat result" where
  "om_score math m local scale digest =
     bind_r (aggregate (map_of local digest)) (\<lambda>(local_quality, local_count).
     bind_r (aggregate (map_of (om_global_stats m) digest)) (\<lambda>(global_quality, global_count).
       let effective_count = local_count + om_prior_weight m * global_count;
           effective_total = local_quality * local_count
             + om_prior_weight m * global_quality * global_count;
           mean = (if effective_count \<noteq> 0 then effective_total / effective_count else 0);
           bonus = om_bonus m * math_sqrt math (scale / (effective_count + 1))
       in Inr (mean + bonus)))"

definition om_probabilities :: "math_lib \<Rightarrow> torch_lib \<Rightarrow> opaque_memory \<Rightarrow> string \<Rightarrow> string list
    \<Rightarrow> rat list result" where
  "om_probabilities math torch m c candidates =
     bind_r (validate_context c) (\<lambda>_.
     bind_r (validate_candidates candidates) (\<lambda>_.
     let local = get_or (om_context_stats m) c []
     in bind_r (map_r (\<lambda>d. aggregate (map_of local d)) candidates) (\<lambda>local_entries.
        bind_r (map_r (\<lambda>d. aggregate (map_of (om_global_stats m) d)) candidates) (\<lambda>global_entries.
        let local_total = sum_list (map snd local_entries);
            prior_total = sum_list (map (\<lambda>e. snd e * om_prior_weight m) global_entries);
            scale = math_log1p math (local_total + prior_total + 1)
        in bind_r (map_r (om_score math m local scale) candidates) (\<lambda>scores.
             Inr (floored_softmax torch (om_floor m) (om_temperature m) scores))))))"

definition om_select :: "math_lib \<Rightarrow> torch_lib \<Rightarrow> 'g rng \<Rightarrow> opaque_memory \<Rightarrow> string \<Rightarrow> string list \<Rightarrow> 'g
    \<Rightarrow> (nat \<times> rat \<times> 'g) result" where
  "om_select math torch rng m c candidates g =
     bind_r (om_probabilities math torch m c candidates) (\<lambda>probabilities.
       let (index, g') = rng_multinomial rng g probabilities in Inr (index, probabilities ! index, g'))"

section \<open>Credit of factors\<close>

datatype factor_type = FInstruction | FPosition | FOperator

type_synonym factor_tables = "factor_type \<Rightarrow> aggregate_table"

record factor_memory =
  fm_floor :: rat
  fm_prior_weight :: rat
  fm_bonus :: rat
  fm_instruction_weight :: rat
  fm_position_weight :: rat
  fm_operator_weight :: rat
  fm_temperature :: rat
  fm_context_stats :: "(string \<times> factor_tables) list"
  fm_shared_stats :: factor_tables

definition empty_stats :: factor_tables where
  "empty_stats = (\<lambda>factor_type. [])"

definition fm_init :: "pyfloat \<Rightarrow> pyfloat \<Rightarrow> pyfloat \<Rightarrow> pyfloat \<Rightarrow> pyfloat \<Rightarrow> pyfloat \<Rightarrow> pyfloat
    \<Rightarrow> factor_memory result" where
  "fm_init eps prior_weight bonus instruction_weight position_weight operator_weight temperature =
     (if \<exists>x\<in>set [eps, prior_weight, bonus, instruction_weight, position_weight, operator_weight,
            temperature]. bad_weight x then Inl ValueError
      else if Fin 1 \<le> eps then Inl ValueError
      else if fin_val instruction_weight + fin_val position_weight + fin_val operator_weight \<le> 0
      then Inl ValueError
      else if temperature \<le> Fin 0 then Inl ValueError
      else Inr \<lparr>fm_floor = fin_val eps, fm_prior_weight = fin_val prior_weight,
                fm_bonus = fin_val bonus, fm_instruction_weight = fin_val instruction_weight,
                fm_position_weight = fin_val position_weight,
                fm_operator_weight = fin_val operator_weight, fm_temperature = fin_val temperature,
                fm_context_stats = [], fm_shared_stats = empty_stats\<rparr>)"

text \<open>\<open>_factor_entries\<close>: the keys an edit is credited under.\<close>

definition positions_of :: "proposal_factors \<Rightarrow> int list" where
  "positions_of f = pf_primary f # (case pf_secondary f of None \<Rightarrow> [] | Some j \<Rightarrow> [j])"

definition entry_list :: "proposal_factors \<Rightarrow> (factor_type \<times> string) list" where
  "entry_list f =
     [(FOperator, int_text (pf_operator f))]
     @ map (\<lambda>position. (FPosition, int_text (pf_operator f) @ '':'' @ int_text position)) (positions_of f)
     @ map (\<lambda>digest. (FInstruction, digest)) (pf_digests f)"

definition factor_entries :: "proposal_factors \<Rightarrow> (factor_type \<times> string) list result" where
  "factor_entries f = bind_r (pf_validate f) (\<lambda>_. Inr (entry_list f))"

text \<open>The loop of \<open>record\<close> over the entries, on one set of tables.\<close>

fun credit_entries :: "('f \<Rightarrow> aggregate_table) \<Rightarrow> pyfloat \<Rightarrow> ('f \<times> string) list \<Rightarrow> 'f \<Rightarrow> aggregate_table" where
  "credit_entries T quality [] = T"
| "credit_entries T quality ((factor_type, key) # entries) =
     credit_entries (T(factor_type := add_credit (T factor_type) key quality)) quality entries"

text \<open>
  \<open>record\<close> changes the memory before the factors are checked: the new state comes with the exception,
  if one is raised.
\<close>

definition fm_record :: "factor_memory \<Rightarrow> string \<Rightarrow> string \<Rightarrow> pyfloat \<Rightarrow> proposal_factors
    \<Rightarrow> factor_memory \<times> exn option" where
  "fm_record m c candidate_digest quality factors =
     (case validate_context c of
        Inl e \<Rightarrow> (m, Some e)
      | Inr _ \<Rightarrow>
     (case validate_digest candidate_digest of
        Inl e \<Rightarrow> (m, Some e)
      | Inr _ \<Rightarrow>
        if invalid_quality quality then (m, Some ValueError)
        else let local = get_or (fm_context_stats m) c empty_stats
             in (case factor_entries factors of
                   Inl e \<Rightarrow> (m\<lparr>fm_context_stats := AList.update c local (fm_context_stats m)\<rparr>, Some e)
                 | Inr entries \<Rightarrow>
                     (m\<lparr>fm_context_stats := AList.update c (credit_entries local quality entries)
                          (fm_context_stats m),
                        fm_shared_stats := credit_entries (fm_shared_stats m) quality entries\<rparr>, None))))"

definition fm_factor_score :: "math_lib \<Rightarrow> factor_memory \<Rightarrow> factor_tables \<Rightarrow> factor_type \<Rightarrow> string \<Rightarrow> rat
    \<Rightarrow> rat result" where
  "fm_factor_score math m local factor_type key shared_weight =
     bind_r (aggregate (map_of (local factor_type) key)) (\<lambda>(local_total, local_count).
     bind_r (aggregate (map_of (fm_shared_stats m factor_type) key)) (\<lambda>(shared_total, shared_count).
       let effective_count = local_count + shared_weight * shared_count;
           effective_total = local_total + shared_weight * shared_total;
           mean = (if effective_count \<noteq> 0 then effective_total / effective_count else 0);
           bonus = fm_bonus m * math_sqrt math
             (math_log1p math (local_count + shared_weight * shared_count + 1) / (effective_count + 1))
       in Inr (mean + bonus)))"

text \<open>The prior counts only while the context has no evidence for the factor type.\<close>

definition shared_weight_of :: "factor_memory \<Rightarrow> factor_tables \<Rightarrow> factor_type \<Rightarrow> rat" where
  "shared_weight_of m local factor_type =
     (if list_ex (\<lambda>kv. snd kv \<noteq> []) (local factor_type) then 0 else fm_prior_weight m)"

definition entry_scores :: "math_lib \<Rightarrow> factor_memory \<Rightarrow> factor_tables \<Rightarrow> factor_type
    \<Rightarrow> (factor_type \<times> string) list \<Rightarrow> rat list result" where
  "entry_scores math m local kind entries =
     map_r (\<lambda>(factor_type, key).
         fm_factor_score math m local factor_type key (shared_weight_of m local factor_type))
       (filter (\<lambda>e. fst e = kind) entries)"

definition fm_score :: "math_lib \<Rightarrow> factor_memory \<Rightarrow> factor_tables \<Rightarrow> proposal_factors \<Rightarrow> rat result" where
  "fm_score math m local item =
     bind_r (factor_entries item) (\<lambda>entries.
     bind_r (entry_scores math m local FInstruction entries) (\<lambda>instruction_scores.
     bind_r (entry_scores math m local FPosition entries) (\<lambda>position_scores.
     bind_r (fm_factor_score math m local FOperator (int_text (pf_operator item))
              (shared_weight_of m local FOperator)) (\<lambda>operator_score.
       let instruction = sum_list instruction_scores / of_nat (max 1 (length instruction_scores));
           position = sum_list position_scores / of_nat (max 1 (length position_scores))
       in Inr (fm_instruction_weight m * instruction + fm_position_weight m * position
               + fm_operator_weight m * operator_score)))))"

definition fm_probabilities :: "math_lib \<Rightarrow> torch_lib \<Rightarrow> factor_memory \<Rightarrow> string \<Rightarrow> proposal_factors list
    \<Rightarrow> rat list result" where
  "fm_probabilities math torch m c factors =
     bind_r (validate_context c) (\<lambda>_.
       if factors = [] then Inl ValueError
       else bind_r (map_r pf_validate factors) (\<lambda>_.
         let local = get_or (fm_context_stats m) c empty_stats
         in bind_r (map_r (fm_score math m local) factors) (\<lambda>scores.
              Inr (floored_softmax torch (fm_floor m) (fm_temperature m) scores))))"

definition fm_select :: "math_lib \<Rightarrow> torch_lib \<Rightarrow> 'g rng \<Rightarrow> factor_memory \<Rightarrow> string \<Rightarrow> string list
    \<Rightarrow> proposal_factors list \<Rightarrow> 'g \<Rightarrow> (nat \<times> rat \<times> 'g) result" where
  "fm_select math torch rng m c digests factors g =
     (if length digests \<noteq> length factors then Inl ValueError
      else bind_r (all_r validate_digest digests) (\<lambda>_.
           bind_r (fm_probabilities math torch m c factors) (\<lambda>probabilities.
             let (index, g') = rng_multinomial rng g probabilities
             in Inr (index, probabilities ! index, g'))))"

section \<open>Either memory as the policy of a search\<close>

datatype policy = Opaque opaque_memory | Factorized factor_memory

fun policy_select :: "math_lib \<Rightarrow> torch_lib \<Rightarrow> 'g rng \<Rightarrow> policy \<Rightarrow> string \<Rightarrow> string list
    \<Rightarrow> proposal_factors list \<Rightarrow> 'g \<Rightarrow> (nat \<times> rat \<times> 'g) result" where
  "policy_select math torch rng (Opaque m) c digests factors g = om_select math torch rng m c digests g"
| "policy_select math torch rng (Factorized m) c digests factors g =
     fm_select math torch rng m c digests factors g"

fun policy_record :: "policy \<Rightarrow> string \<Rightarrow> string \<Rightarrow> pyfloat \<Rightarrow> proposal_factors \<Rightarrow> policy \<times> exn option" where
  "policy_record (Opaque m) c digest quality factors =
     (case om_record m c digest quality of
        Inl e \<Rightarrow> (Opaque m, Some e)
      | Inr m' \<Rightarrow> (Opaque m', None))"
| "policy_record (Factorized m) c digest quality factors =
     (case fm_record m c digest quality factors of (m', e) \<Rightarrow> (Factorized m', e))"

section \<open>Aggregates, characterised\<close>

definition table_ok :: "aggregate_table \<Rightarrow> bool" where
  "table_ok t \<longleftrightarrow> (\<forall>k e. map_of t k = Some e \<longrightarrow> (\<exists>a n. e = [Fin a, Fin n] \<and> 0 \<le> a \<and> a \<le> n))"

definition total_of :: "aggregate_table \<Rightarrow> string \<Rightarrow> rat" where
  "total_of t k = (case map_of t k of None \<Rightarrow> 0 | Some e \<Rightarrow> fin_val (e ! 0))"

definition count_of :: "aggregate_table \<Rightarrow> string \<Rightarrow> rat" where
  "count_of t k = (case map_of t k of None \<Rightarrow> 0 | Some e \<Rightarrow> fin_val (e ! 1))"

lemma table_ok_Nil [simp]: "table_ok []"
  by (simp add: table_ok_def)

lemma credit_Nil [simp]: "total_of [] k = 0" "count_of [] k = 0"
  by (simp_all add: total_of_def count_of_def)

lemma table_entry:
  assumes "table_ok t"
  obtains "map_of t k = None" | a n where "map_of t k = Some [Fin a, Fin n]" and "0 \<le> a" and "a \<le> n"
  using assms unfolding table_ok_def by (cases "map_of t k") blast+

lemma aggregate_ok:
  assumes "table_ok t"
  shows "aggregate (map_of t k) = Inr (total_of t k, count_of t k)"
    and "0 \<le> total_of t k" and "total_of t k \<le> count_of t k"
  using assms by (cases rule: table_entry [where k = k]; simp add: aggregate_def total_of_def count_of_def)+

lemma add_credit_ok:
  assumes "table_ok t" and "0 \<le> q" and "q \<le> 1"
  shows "table_ok (add_credit t k (Fin q))"
    and "total_of (add_credit t k (Fin q)) j = total_of t j + (if j = k then q else 0)"
    and "count_of (add_credit t k (Fin q)) j = count_of t j + (if j = k then 1 else 0)"
proof -
  obtain a n where e: "(case map_of t k of None \<Rightarrow> [Fin 0, Fin 0] | Some e \<Rightarrow> e) = [Fin a, Fin n]"
      "0 \<le> a" "a \<le> n" "total_of t k = a" "count_of t k = n"
    using assms(1) by (cases rule: table_entry [where k = k]) (simp_all add: total_of_def count_of_def)
  then have new: "add_credit t k (Fin q) = AList.update k [Fin (a + q), Fin (n + 1)] t"
    by (simp add: add_credit_def bump_def)
  show "table_ok (add_credit t k (Fin q))"
    using assms e(2,3) unfolding new table_ok_def by (auto simp: update_conv')
  show "total_of (add_credit t k (Fin q)) j = total_of t j + (if j = k then q else 0)"
    and "count_of (add_credit t k (Fin q)) j = count_of t j + (if j = k then 1 else 0)"
    using e(4,5) by (simp_all add: new total_of_def count_of_def update_conv')
qed

lemma validate_context_Inr: "validate_context c = Inr u \<longleftrightarrow> scope_ok c"
  by (auto simp: validate_context_def scope_ok_def)

lemma validate_candidates_Inr:
  "validate_candidates ds = Inr u \<longleftrightarrow> ds \<noteq> [] \<and> (\<forall>d\<in>set ds. digest_ok d) \<and> distinct ds"
  by (auto simp: validate_candidates_def bind_r_eq_Inr all_r_Inr_iff validate_digest_Inr distinct_card
      card_distinct)

lemma invalid_quality_iff: "\<not> invalid_quality q \<longleftrightarrow> in_unit q"
  by (simp add: invalid_quality_def in_unit_alt)

definition factors_ok :: "proposal_factors \<Rightarrow> bool" where
  "factors_ok f \<longleftrightarrow> pf_schema f = RECIPE_PROPOSAL_FACTORS_SCHEMA
     \<and> 0 \<le> pf_operator f \<and> pf_operator f < 4 \<and> 0 \<le> pf_primary f
     \<and> (if pf_operator f = 3 then \<exists>j. pf_secondary f = Some j \<and> pf_primary f < j
        else pf_secondary f = None)
     \<and> length (pf_digests f) = (if pf_operator f = 3 then 2 else 1)
     \<and> (\<forall>d\<in>set (pf_digests f). digest_ok d)"

lemma pf_validate_Inr: "pf_validate f = Inr g \<longleftrightarrow> factors_ok f \<and> g = f"
proof -
  have op: "in_range (pf_operator f) (length RECIPE_PROGRAM_MUTATION_OPERATORS)
      \<longleftrightarrow> 0 \<le> pf_operator f \<and> pf_operator f < 4"
    by (simp add: in_range_def RECIPE_PROGRAM_MUTATION_OPERATORS_def)
  show ?thesis
    unfolding pf_validate_def factors_ok_def op
    by (cases "pf_secondary f")
       (auto simp: bind_r_eq_Inr all_r_Inr_iff validate_digest_Inr)
qed

text \<open>Valid factors are read back unchanged from their payload.\<close>

lemma pf_roundtrip:
  assumes "factors_ok f"
  shows "\<exists>v. pf_payload f = Inr v \<and> pf_from_payload v = Inr f"
proof -
  have v: "pf_validate f = Inr f" using assms by (simp add: pf_validate_Inr)
  have ds: "map (py_str \<circ> PStr) xs = xs" for xs by (induction xs) simp_all
  show ?thesis
    by (cases "pf_secondary f"; cases f) (use v in \<open>simp_all add: pf_payload_def ds\<close>)
qed

lemma factor_entries_ok: "factors_ok f \<Longrightarrow> factor_entries f = Inr (entry_list f)"
  using pf_validate_Inr [of f f] by (simp add: factor_entries_def)

lemma all_digests_Inl: "all_r validate_digest ds = Inl e \<Longrightarrow> e = ValueError"
  by (induction ds) (auto simp: validate_digest_def split: if_splits)

section \<open>Well-formed memories\<close>

definition om_ok :: "opaque_memory \<Rightarrow> bool" where
  "om_ok m \<longleftrightarrow> 0 \<le> om_floor m \<and> om_floor m < 1 \<and> 0 \<le> om_prior_weight m \<and> 0 \<le> om_bonus m
     \<and> 0 < om_temperature m \<and> table_ok (om_global_stats m)
     \<and> (\<forall>c. table_ok (get_or (om_context_stats m) c []))"

definition fm_ok :: "factor_memory \<Rightarrow> bool" where
  "fm_ok m \<longleftrightarrow> 0 \<le> fm_floor m \<and> fm_floor m < 1 \<and> 0 \<le> fm_prior_weight m \<and> 0 \<le> fm_bonus m
     \<and> 0 < fm_temperature m \<and> (\<forall>ft. table_ok (fm_shared_stats m ft))
     \<and> (\<forall>c ft. table_ok (get_or (fm_context_stats m) c empty_stats ft))"

lemma get_or_update: "get_or (AList.update c v kvs) k d = (if k = c then v else get_or kvs k d)"
  by (simp add: get_or_def update_conv')

lemma get_or_Nil [simp]: "get_or [] c d = d"
  by (simp add: get_or_def)

lemma om_init_ok: "om_init eps w b t = Inr m \<Longrightarrow> om_ok m"
  by (auto simp: om_init_def om_ok_def bad_weight_def isfinite_iff split: if_splits)

lemma fm_init_ok: "fm_init eps w b iw pw ow t = Inr m \<Longrightarrow> fm_ok m"
  by (auto simp: fm_init_def fm_ok_def bad_weight_def isfinite_iff empty_stats_def split: if_splits)

lemma om_record_ok: "om_ok m \<Longrightarrow> om_record m c d q = Inr m' \<Longrightarrow> om_ok m'"
  by (auto simp: om_record_def bind_r_eq_Inr invalid_quality_iff in_unit_iff om_ok_def get_or_update
      add_credit_ok split: if_splits)

lemma credit_entries_ok:
  assumes "\<forall>ft. table_ok (T ft)" and "0 \<le> q" and "q \<le> 1"
  shows "(\<forall>ft. table_ok (credit_entries T (Fin q) es ft))
    \<and> total_of (credit_entries T (Fin q) es ft) k = total_of (T ft) k + of_nat (count_list es (ft, k)) * q
    \<and> count_of (credit_entries T (Fin q) es ft) k = count_of (T ft) k + of_nat (count_list es (ft, k))"
  using assms(1)
proof (induction es arbitrary: T)
  case Nil
  then show ?case by simp
next
  case (Cons e es)
  obtain et key where e: "e = (et, key)" by (cases e)
  obtain U where U: "U = T(et := add_credit (T et) key (Fin q))" by blast
  have "table_ok (T et)" using Cons.prems by blast
  note add = add_credit_ok [OF this assms(2,3)]
  have "\<forall>ft. table_ok (U ft)" using Cons.prems add(1) by (simp add: U)
  note IH = Cons.IH [OF this]
  have run: "credit_entries T (Fin q) (e # es) = credit_entries U (Fin q) es" by (simp add: e U)
  have "total_of (U ft) k = total_of (T ft) k + (if e = (ft, k) then q else 0)"
    and "count_of (U ft) k = count_of (T ft) k + (if e = (ft, k) then 1 else 0)"
    using add(2,3) by (auto simp: U e)
  then show ?case using IH by (simp add: run algebra_simps)
qed

lemma pf_validate_Inl: "pf_validate f = Inl e \<Longrightarrow> e = ValueError"
  by (auto simp: pf_validate_def validate_digest_def split: if_splits option.splits
      dest!: bind_r_Inl_cases all_digests_Inl)

lemma fm_record_cases:
  "fm_record m c d q f =
     (if scope_ok c \<and> digest_ok d \<and> in_unit q
      then (if factors_ok f
            then (m\<lparr>fm_context_stats := AList.update c
                      (credit_entries (get_or (fm_context_stats m) c empty_stats) q (entry_list f))
                      (fm_context_stats m),
                    fm_shared_stats := credit_entries (fm_shared_stats m) q (entry_list f)\<rparr>, None)
            else (m\<lparr>fm_context_stats := AList.update c (get_or (fm_context_stats m) c empty_stats)
                      (fm_context_stats m)\<rparr>, Some ValueError))
      else (m, Some ValueError))"
proof -
  have c: "validate_context c = (if scope_ok c then Inr () else Inl ValueError)"
    by (auto simp: validate_context_def scope_ok_def)
  have d: "validate_digest d = (if digest_ok d then Inr () else Inl ValueError)"
    by (auto simp: validate_digest_def digest_ok_def)
  have f: "factor_entries f = (if factors_ok f then Inr (entry_list f) else Inl ValueError)"
  proof (cases "factors_ok f")
    case False
    then have "\<forall>g. pf_validate f \<noteq> Inr g" by (simp add: pf_validate_Inr)
    then obtain e where "pf_validate f = Inl e" by (cases "pf_validate f") auto
    then show ?thesis using pf_validate_Inl False by (simp add: factor_entries_def)
  qed (simp add: factor_entries_ok)
  have q: "invalid_quality q = (\<not> in_unit q)" using invalid_quality_iff by blast
  show ?thesis unfolding fm_record_def c d f q by (simp add: Let_def)
qed

lemma fm_record_ok: "fm_ok m \<Longrightarrow> fm_ok (fst (fm_record m c d q f))"
  unfolding fm_record_cases
  by (auto simp: fm_ok_def get_or_update in_unit_iff credit_entries_ok)

text \<open>A sequence of reported verdicts, each a call of \<open>record\<close> (its exception, if any, ignored).\<close>

type_synonym credit_event = "string \<times> string \<times> pyfloat \<times> proposal_factors"

fun fm_replay :: "factor_memory \<Rightarrow> credit_event list \<Rightarrow> factor_memory" where
  "fm_replay m [] = m"
| "fm_replay m ((c, d, q, f) # events) = fm_replay (fst (fm_record m c d q f)) events"

fun event_ok :: "credit_event \<Rightarrow> bool" where
  "event_ok (c, d, q, f) \<longleftrightarrow> scope_ok c \<and> digest_ok d \<and> in_unit q \<and> factors_ok f"

text \<open>How often an event names a factor, and the quality it reports.\<close>

fun event_hits :: "factor_type \<Rightarrow> string \<Rightarrow> credit_event \<Rightarrow> rat" where
  "event_hits ft k (c, d, q, f) = of_nat (count_list (entry_list f) (ft, k))"

fun event_quality :: "credit_event \<Rightarrow> rat" where
  "event_quality (c, d, q, f) = fin_val q"

definition tables_in :: "factor_memory \<Rightarrow> string \<Rightarrow> factor_tables" where
  "tables_in m c = get_or (fm_context_stats m) c empty_stats"

lemma fm_record_effect:
  assumes "fm_ok m" and m': "m' = fst (fm_record m c d q f)"
    and n_def: "n = (if event_ok (c, d, q, f) then event_hits ft k (c, d, q, f) else 0)"
  shows "total_of (fm_shared_stats m' ft) k = total_of (fm_shared_stats m ft) k + n * fin_val q"
    and "count_of (fm_shared_stats m' ft) k = count_of (fm_shared_stats m ft) k + n"
    and "total_of (tables_in m' b ft) k = total_of (tables_in m b ft) k + (if c = b then n * fin_val q else 0)"
    and "count_of (tables_in m' b ft) k = count_of (tables_in m b ft) k + (if c = b then n else 0)"
proof -
  have ok: "\<forall>ft. table_ok (fm_shared_stats m ft)" "\<forall>ft. table_ok (tables_in m c ft)"
    using assms(1) by (auto simp: fm_ok_def tables_in_def)
  note credits = credit_entries_ok [OF ok(1)] credit_entries_ok [OF ok(2)]
  show "total_of (fm_shared_stats m' ft) k = total_of (fm_shared_stats m ft) k + n * fin_val q"
    and "count_of (fm_shared_stats m' ft) k = count_of (fm_shared_stats m ft) k + n"
    using credits by (auto simp: m' fm_record_cases n_def in_unit_iff)
  have "tables_in m' b = (if b = c \<and> event_ok (c, d, q, f)
      then credit_entries (tables_in m c) q (entry_list f) else tables_in m b)"
    by (auto simp: m' fm_record_cases tables_in_def get_or_update)
  then show "total_of (tables_in m' b ft) k = total_of (tables_in m b ft) k + (if c = b then n * fin_val q else 0)"
    and "count_of (tables_in m' b ft) k = count_of (tables_in m b ft) k + (if c = b then n else 0)"
    using credits by (auto simp: n_def in_unit_iff)
qed

section \<open>Scores and distributions\<close>

text \<open>What the code relies on of the softmax besides \<open>torch_ok\<close>: its weights sum to one.\<close>

definition softmax_sums :: "torch_lib \<Rightarrow> bool" where
  "softmax_sums torch \<longleftrightarrow> (\<forall>xs. xs \<noteq> [] \<longrightarrow> sum_list (tl_softmax torch xs) = 1)"

lemma softmax_sums_uniform: "softmax_sums uniform_torch"
  by (simp add: softmax_sums_def uniform_torch_def sum_list_replicate)

lemma floored_softmax_spec:
  assumes "torch_ok torch" and "softmax_sums torch" and "0 \<le> eps" and "eps < 1" and "xs \<noteq> []"
    and ps: "ps = floored_softmax torch eps temperature xs"
  shows "length ps = length xs" and "sum_list ps = 1"
    and "p \<in> set ps \<Longrightarrow> eps / of_nat (length xs) \<le> p \<and> 0 < p \<and> p \<le> 1"
proof -
  obtain qs where qs: "qs = tl_softmax torch (map (\<lambda>x. x / temperature) xs)" by blast
  have n: "length qs = length xs" and q: "\<And>q. q \<in> set qs \<Longrightarrow> 0 < q \<and> q \<le> 1" and s: "sum_list qs = 1"
    using assms(1,2,5) by (auto simp: qs torch_ok_def softmax_sums_def)
  have eq: "ps = map (\<lambda>p. (1 - eps) * p + eps / of_nat (length xs)) qs"
    by (simp add: ps floored_softmax_def qs)
  then show "length ps = length xs" by (simp add: n)
  have "sum_list ps = (1 - eps) * sum_list qs + of_nat (length qs) * (eps / of_nat (length xs))"
    by (simp add: eq sum_list_addf sum_list_const_mult sum_list_triv)
  then show "sum_list ps = 1" using assms(5) by (simp add: s n)
  assume "p \<in> set ps"
  then obtain r where r: "r \<in> set qs" "p = (1 - eps) * r + eps / of_nat (length xs)"
    by (auto simp: eq)
  have "0 < (1 - eps) * r" "(1 - eps) * r \<le> 1 - eps"
    using q [OF r(1)] assms(4) mult_left_mono [of r 1 "1 - eps"] by auto
  moreover have "eps / of_nat (length xs) \<le> eps" "0 \<le> eps / of_nat (length xs)"
    using assms(3,5) by (auto simp: divide_le_eq mult_le_cancel_left1 Suc_le_eq)
  ultimately show "eps / of_nat (length xs) \<le> p \<and> 0 < p \<and> p \<le> 1" using r(2) by linarith
qed

lemma map_r_ex: "\<forall>x\<in>set xs. \<exists>y. f x = Inr y \<Longrightarrow> \<exists>ys. map_r f xs = Inr ys"
  by (induction xs) auto

lemma om_score_eq:
  assumes "om_ok m" and "table_ok local"
  shows "om_score math m local scale d = Inr
    ((let effective_count = count_of local d + om_prior_weight m * count_of (om_global_stats m) d;
          effective_total = total_of local d * count_of local d
            + om_prior_weight m * total_of (om_global_stats m) d * count_of (om_global_stats m) d
      in (if effective_count \<noteq> 0 then effective_total / effective_count else 0)
         + om_bonus m * math_sqrt math (scale / (effective_count + 1))))"
  using assms by (simp add: om_score_def aggregate_ok om_ok_def Let_def)

lemma om_probabilities_eq:
  assumes "om_ok m" and "scope_ok c" and "ds \<noteq> []" and "\<forall>d\<in>set ds. digest_ok d" and "distinct ds"
  shows "\<exists>scores. length scores = length ds
    \<and> om_probabilities math torch m c ds = Inr (floored_softmax torch (om_floor m) (om_temperature m) scores)"
proof -
  obtain local where local: "local = get_or (om_context_stats m) c []" by blast
  have ok: "table_ok local" "table_ok (om_global_stats m)" using assms(1) by (simp_all add: om_ok_def local)
  obtain ls gs where r: "map_r (\<lambda>d. aggregate (map_of local d)) ds = Inr ls"
      "map_r (\<lambda>d. aggregate (map_of (om_global_stats m) d)) ds = Inr gs"
    using map_r_ex aggregate_ok(1) [OF ok(1)] aggregate_ok(1) [OF ok(2)] by metis
  have "\<exists>ss. map_r (om_score math m local scale) ds = Inr ss" for scale
    using map_r_ex om_score_eq [OF assms(1) ok(1)] by metis
  then obtain ss where ss: "map_r (om_score math m local
      (math_log1p math (sum_list (map snd ls) + sum_list (map (\<lambda>e. snd e * om_prior_weight m) gs) + 1))) ds
      = Inr ss" by blast
  have v: "validate_context c = Inr ()" "validate_candidates ds = Inr ()"
    using assms by (simp_all add: validate_context_Inr validate_candidates_Inr)
  show ?thesis
    unfolding om_probabilities_def v bind_r_Inr local [symmetric] Let_def r ss
    using map_r_length [OF ss] by blast
qed

lemma fm_factor_score_eq:
  assumes "fm_ok m" and "table_ok (local ft)" and "0 \<le> w"
  shows "\<exists>mean. 0 \<le> mean \<and> mean \<le> 1 \<and> fm_factor_score math m local ft k w = Inr (mean
    + fm_bonus m * math_sqrt math
        (math_log1p math (count_of (local ft) k + w * count_of (fm_shared_stats m ft) k + 1)
         / (count_of (local ft) k + w * count_of (fm_shared_stats m ft) k + 1)))"
proof -
  have sh: "table_ok (fm_shared_stats m ft)" using assms(1) by (simp add: fm_ok_def)
  obtain a n b l where v: "a = total_of (local ft) k" "n = count_of (local ft) k"
      "b = total_of (fm_shared_stats m ft) k" "l = count_of (fm_shared_stats m ft) k" by blast
  have bounds: "0 \<le> a" "a \<le> n" "0 \<le> b" "b \<le> l"
    using aggregate_ok(2,3) [OF assms(2)] aggregate_ok(2,3) [OF sh] by (simp_all add: v)
  have "0 \<le> w * b" "w * b \<le> w * l" using bounds assms(3) by (simp_all add: mult_left_mono)
  then have "0 \<le> a + w * b" "a + w * b \<le> n + w * l" using bounds by linarith+
  then have m: "0 \<le> (if n + w * l \<noteq> 0 then (a + w * b) / (n + w * l) else 0)"
      "(if n + w * l \<noteq> 0 then (a + w * b) / (n + w * l) else 0) \<le> 1"
    by (auto simp: divide_le_eq)
  then show ?thesis
    unfolding fm_factor_score_def aggregate_ok(1) [OF assms(2)] aggregate_ok(1) [OF sh] bind_r_Inr
      prod.case Let_def v [symmetric] by blast
qed

lemma fm_score_total:
  assumes "fm_ok m" and "\<forall>ft. table_ok (local ft)" and "factors_ok f"
  shows "\<exists>x. fm_score math m local f = Inr x"
proof -
  have w: "0 \<le> shared_weight_of m local ft" for ft
    using assms(1) by (simp add: shared_weight_of_def fm_ok_def)
  have one: "\<exists>x. fm_factor_score math m local ft k (shared_weight_of m local ft) = Inr x" for ft k
    using fm_factor_score_eq [OF assms(1) _ w] assms(2) by blast
  have "\<exists>xs. map_r (\<lambda>(ft, k). fm_factor_score math m local ft k (shared_weight_of m local ft)) es = Inr xs" for es
  proof (induction es)
    case (Cons e es)
    then show ?case using one [of "fst e" "snd e"] by (cases e) auto
  qed simp
  then have many: "\<exists>xs. entry_scores math m local kind es = Inr xs" for kind es
    by (simp add: entry_scores_def)
  have e: "factor_entries f = Inr (entry_list f)"
    by (rule factor_entries_ok [OF assms(3)])
  obtain i p x where "entry_scores math m local FInstruction (entry_list f) = Inr i"
      "entry_scores math m local FPosition (entry_list f) = Inr p"
      "fm_factor_score math m local FOperator (int_text (pf_operator f)) (shared_weight_of m local FOperator) = Inr x"
    using many one by metis
  then show ?thesis by (simp add: fm_score_def e)
qed

lemma fm_probabilities_eq:
  assumes "fm_ok m" and "scope_ok c" and "fs \<noteq> []" and "\<forall>f\<in>set fs. factors_ok f"
  shows "\<exists>scores. length scores = length fs
    \<and> fm_probabilities math torch m c fs = Inr (floored_softmax torch (fm_floor m) (fm_temperature m) scores)"
proof -
  obtain local where local: "local = get_or (fm_context_stats m) c empty_stats" by blast
  have "\<forall>ft. table_ok (local ft)" using assms(1) by (simp add: fm_ok_def local)
  then obtain ss where ss: "map_r (fm_score math m local) fs = Inr ss"
    using map_r_ex [of fs "fm_score math m local"] fm_score_total [OF assms(1)] assms(4) by blast
  have v: "validate_context c = Inr ()" "map_r pf_validate fs = Inr fs"
    using assms map_r_total [of fs pf_validate id] by (auto simp: validate_context_Inr pf_validate_Inr)
  show ?thesis
    unfolding fm_probabilities_def v bind_r_Inr local [symmetric] Let_def ss
    using assms(3) map_r_length [OF ss] by simp blast
qed

fun policy_ok :: "policy \<Rightarrow> bool" where
  "policy_ok (Opaque m) = om_ok m"
| "policy_ok (Factorized m) = fm_ok m"

fun policy_floor :: "policy \<Rightarrow> rat" where
  "policy_floor (Opaque m) = om_floor m"
| "policy_floor (Factorized m) = fm_floor m"

fun policy_probabilities :: "math_lib \<Rightarrow> torch_lib \<Rightarrow> policy \<Rightarrow> string \<Rightarrow> string list
    \<Rightarrow> proposal_factors list \<Rightarrow> rat list result" where
  "policy_probabilities math torch (Opaque m) c ds fs = om_probabilities math torch m c ds"
| "policy_probabilities math torch (Factorized m) c ds fs = fm_probabilities math torch m c fs"

definition offers_ok :: "string list \<Rightarrow> proposal_factors list \<Rightarrow> bool" where
  "offers_ok ds fs \<longleftrightarrow> length ds = length fs \<and> ds \<noteq> [] \<and> distinct ds
     \<and> (\<forall>d\<in>set ds. digest_ok d) \<and> (\<forall>f\<in>set fs. factors_ok f)"

lemma policy_probabilities_eq:
  assumes "policy_ok P" and "scope_ok c" and "offers_ok ds fs"
  shows "\<exists>temperature scores. length scores = length ds \<and> policy_probabilities math torch P c ds fs
    = Inr (floored_softmax torch (policy_floor P) temperature scores)"
proof (cases P)
  case (Opaque m)
  then show ?thesis
    using om_probabilities_eq [of m c ds math torch] assms by (auto simp: offers_ok_def)
next
  case (Factorized m)
  moreover have "fs \<noteq> []" using assms(3) by (auto simp: offers_ok_def)
  ultimately show ?thesis
    using fm_probabilities_eq [of m c fs math torch] assms by (auto simp: offers_ok_def)
qed

lemma policy_select_eq:
  assumes "policy_probabilities math torch P c ds fs = Inr ps" and "offers_ok ds fs"
  shows "policy_select math torch rng P c ds fs g
    = (let (k, g') = rng_multinomial rng g ps in Inr (k, ps ! k, g'))"
proof -
  have "all_r validate_digest ds = Inr ()"
    using assms(2) by (simp add: offers_ok_def all_r_Inr_iff validate_digest_Inr)
  then show ?thesis
    using assms by (cases P) (auto simp: om_select_def fm_select_def offers_ok_def)
qed

lemma policy_record_ok: "policy_ok P \<Longrightarrow> policy_ok (fst (policy_record P c d q f))"
  using om_record_ok fm_record_ok by (cases P) (auto split: sum.splits prod.splits, metis fst_conv)

lemma policy_distribution:
  assumes "torch_ok torch" and "softmax_sums torch" and "rng_ok rng"
    and "policy_ok P" and "scope_ok c" and "offers_ok ds fs"
  shows "\<exists>ps. policy_probabilities math torch P c ds fs = Inr ps \<and> length ps = length ds
    \<and> sum_list ps = 1
    \<and> (\<forall>p\<in>set ps. policy_floor P / of_nat (length ds) \<le> p \<and> 0 < p \<and> p \<le> 1)
    \<and> (\<exists>k g'. rng_multinomial rng g ps = (k, g') \<and> k < length ds
        \<and> policy_select math torch rng P c ds fs g = Inr (k, ps ! k, g'))"
proof -
  obtain temperature scores where s: "length scores = length ds"
      "policy_probabilities math torch P c ds fs
        = Inr (floored_softmax torch (policy_floor P) temperature scores)"
    using policy_probabilities_eq [OF assms(4-6)] by blast
  obtain ps where ps: "ps = floored_softmax torch (policy_floor P) temperature scores" by blast
  have eps: "0 \<le> policy_floor P" "policy_floor P < 1"
    using assms(4) by (cases P; simp add: om_ok_def fm_ok_def)+
  have ne: "scores \<noteq> []" using s(1) assms(6) by (auto simp: offers_ok_def)
  note spec = floored_softmax_spec [OF assms(1,2) eps ne ps]
  have n: "length ps = length ds" "ps \<noteq> []" using spec(1) s(1) ne by auto
  then obtain p where "p \<in> set ps" by (cases ps) auto
  then have "\<forall>p\<in>set ps. 0 \<le> p" "\<exists>p\<in>set ps. 0 < p" using spec(3) by force+
  then have "fst (rng_multinomial rng g ps) < length ds"
    using assms(3) n(1) unfolding rng_ok_def by metis
  then show ?thesis
    using spec(2,3) n(1) s policy_select_eq [OF s(2) assms(6), of rng g]
    by (cases "rng_multinomial rng g ps") (auto simp: ps [symmetric])
qed

section \<open>Properties\<close>

text \<open>
  No candidate becomes unreachable.  Whatever was recorded before, either memory gives every
  offered candidate at least its share of the exploration floor and a positive probability, the
  probabilities sum to one, and the selection returns the index the generator drew, in range, with
  exactly its probability.
\<close>

lemma policy_explores:
  assumes "torch_ok torch" and "softmax_sums torch" and "rng_ok rng"
    and "policy_ok P" and "scope_ok c" and "offers_ok ds fs"
  shows "\<exists>ps. policy_probabilities math torch P c ds fs = Inr ps \<and> length ps = length ds
    \<and> sum_list ps = 1
    \<and> (\<forall>p\<in>set ps. policy_floor P / of_nat (length ds) \<le> p \<and> 0 < p \<and> p \<le> 1)
    \<and> (\<exists>k g'. rng_multinomial rng g ps = (k, g') \<and> k < length ds
        \<and> policy_select math torch rng P c ds fs g = Inr (k, ps ! k, g'))"
  by (rule policy_distribution [OF assms])

text \<open>
  The factor ledger is exact.  After any sequence of reported verdicts, rejected ones included,
  the shared total and count of every factor have grown by exactly the qualities and occurrences of
  the accepted verdicts that name it, the tables of a context by those reported in it, and every
  aggregate stays well formed (so none of the range checks can fail later).
\<close>

lemma factor_credit_ledger:
  assumes "fm_ok m"
  shows "fm_ok (fm_replay m events)
    \<and> total_of (fm_shared_stats (fm_replay m events) ft) k = total_of (fm_shared_stats m ft) k
        + sum_list (map (\<lambda>e. event_hits ft k e * event_quality e) (filter event_ok events))
    \<and> count_of (fm_shared_stats (fm_replay m events) ft) k = count_of (fm_shared_stats m ft) k
        + sum_list (map (event_hits ft k) (filter event_ok events))
    \<and> total_of (tables_in (fm_replay m events) b ft) k = total_of (tables_in m b ft) k
        + sum_list (map (\<lambda>e. event_hits ft k e * event_quality e)
            (filter (\<lambda>e. event_ok e \<and> fst e = b) events))
    \<and> count_of (tables_in (fm_replay m events) b ft) k = count_of (tables_in m b ft) k
        + sum_list (map (event_hits ft k) (filter (\<lambda>e. event_ok e \<and> fst e = b) events))"
  using assms
proof (induction events arbitrary: m)
  case Nil
  then show ?case by simp
next
  case (Cons e events)
  obtain c d q f where e: "e = (c, d, q, f)" by (cases e) auto
  obtain m' where m': "m' = fst (fm_record m c d q f)" by blast
  obtain n where n: "n = (if event_ok (c, d, q, f) then event_hits ft k (c, d, q, f) else 0)" by blast
  have ok: "fm_ok m'" using fm_record_ok [OF Cons.prems] by (simp add: m')
  have run: "fm_replay m (e # events) = fm_replay m' events" by (simp add: e m')
  have qe: "fin_val q = event_quality e" "c = fst e" by (simp_all add: e)
  note step = fm_record_effect [OF Cons.prems m' n, unfolded qe]
  note IH = Cons.IH [OF ok]
  have n': "n = (if event_ok e then event_hits ft k e else 0)" by (simp only: n e)
  show ?case
    unfolding run
    by (cases "event_ok e"; cases "fst e = b")
       (simp_all only: IH step n' if_True if_False filter.simps list.map sum_list_simps
         refl simp_thms mult_zero_left add_0_right add.assoc)
qed

text \<open>
  The exploitation term of the whole-candidate memory is not a mean.  With the prior switched
  off, a candidate with evidence in its context scores its \<^emph>\<open>total\<close> quality plus the exploration
  bonus: \<open>_mean_and_count\<close> returns the total, and the score multiplies it by the count before
  dividing by the count again.  The term therefore grows with the number of verdicts and leaves the
  range of a quality.
\<close>

lemma opaque_score_is_total:
  assumes "om_ok m" and "om_prior_weight m = 0"
    and "count_of (get_or (om_context_stats m) c []) d \<noteq> 0"
  shows "om_score math m (get_or (om_context_stats m) c []) scale d
    = Inr (total_of (get_or (om_context_stats m) c []) d
        + om_bonus m * math_sqrt math (scale / (count_of (get_or (om_context_stats m) c []) d + 1)))"
  using om_score_eq [OF assms(1), of "get_or (om_context_stats m) c []" math scale d] assms
  by (simp add: om_ok_def Let_def)

section \<open>Instances\<close>

definition digest_a :: string where
  "digest_a = replicate 64 (CHR ''a'')"

definition digest_b :: string where
  "digest_b = replicate 64 (CHR ''b'')"

definition task_c :: string where
  "task_c = ''c''"

lemma example_keys: "digest_ok digest_a" "digest_ok digest_b" "digest_a \<noteq> digest_b" "digest_b \<noteq> digest_a"
    "scope_ok task_c"
  by (auto intro!: digest_ok_hex simp: digest_a_def digest_b_def hex_digits_def replicate_eq_replicate
      scope_ok_def NUL_def task_c_def)

definition linear_math :: math_lib where
  "linear_math = \<lparr>math_log1p = id, math_sqrt = id\<rparr>"

text \<open>A generator that always draws the first possible index.\<close>

fun first_positive :: "rat list \<Rightarrow> nat" where
  "first_positive [] = 0"
| "first_positive (p # ps) = (if 0 < p then 0 else Suc (first_positive ps))"

definition first_rng :: "unit rng" where
  "first_rng = \<lparr>rng_multinomial = (\<lambda>g ps. (first_positive ps, g)), rng_randint = (\<lambda>g n. (0, g))\<rparr>"

lemma first_positive_less: "\<exists>p\<in>set ps. 0 < p \<Longrightarrow> first_positive ps < length ps \<and> 0 < ps ! first_positive ps"
  by (induction ps) auto

lemma first_rng_ok: "rng_ok first_rng"
  using first_positive_less by (auto simp: rng_ok_def first_rng_def)

definition replace_at :: "int \<Rightarrow> string \<Rightarrow> proposal_factors" where
  "replace_at k d = \<lparr>pf_operator = 0, pf_primary = k, pf_secondary = None, pf_digests = [d],
     pf_schema = RECIPE_PROPOSAL_FACTORS_SCHEMA\<rparr>"

lemma replace_at_ok: "0 \<le> k \<Longrightarrow> digest_ok d \<Longrightarrow> factors_ok (replace_at k d)"
  by (simp add: factors_ok_def replace_at_def)

lemma offers_example:
  "offers_ok [digest_a, digest_b] [replace_at 0 digest_a, replace_at 0 digest_b]"
  using example_keys replace_at_ok [of 0] by (simp add: offers_ok_def)

definition fresh_factors :: factor_memory where
  "fresh_factors = \<lparr>fm_floor = 1 / 5, fm_prior_weight = 1 / 10, fm_bonus = 1 / 4,
     fm_instruction_weight = 1, fm_position_weight = 3 / 4, fm_operator_weight = 1 / 4,
     fm_temperature = 1 / 2, fm_context_stats = [], fm_shared_stats = empty_stats\<rparr>"

lemma fresh_factors_ok: "fm_ok fresh_factors"
  by (rule fm_init_ok [of "Fin (1 / 5)" "Fin (1 / 10)" "Fin (1 / 4)" "Fin 1" "Fin (3 / 4)" "Fin (1 / 4)"
        "Fin (1 / 2)"]) (simp add: fm_init_def fresh_factors_def bad_weight_def)

definition example_policy :: policy where
  "example_policy = Factorized fresh_factors"

definition example_digests :: "string list" where
  "example_digests = [digest_a, digest_b]"

definition example_factors :: "proposal_factors list" where
  "example_factors = [replace_at 0 digest_a, replace_at 0 digest_b]"

text \<open>Two candidates in one context: one with four verdicts of one half, one with a perfect verdict.\<close>

definition greedy_memory :: "aggregate_table \<Rightarrow> opaque_memory" where
  "greedy_memory t = \<lparr>om_floor = 0, om_prior_weight = 0, om_bonus = 0, om_temperature = 1,
     om_context_stats = [(task_c, t)], om_global_stats = t\<rparr>"

definition two_candidates :: opaque_memory where
  "two_candidates = greedy_memory [(digest_a, [Fin 2, Fin 4]), (digest_b, [Fin 1, Fin 1])]"

lemma greedy_record:
  assumes "digest_ok d" and "in_unit q"
  shows "om_record (greedy_memory t) task_c d q = Inr (greedy_memory (add_credit t d q))"
proof -
  have v: "validate_digest d = Inr ()" "validate_context task_c = Inr ()" "\<not> invalid_quality q"
    using assms example_keys(5) by (simp_all add: validate_digest_Inr validate_context_Inr invalid_quality_iff)
  show ?thesis by (simp add: om_record_def v get_or_def greedy_memory_def)
qed

lemma two_candidates_recorded:
  "fold_r (\<lambda>m (d, q). om_record m task_c d q) (greedy_memory [])
     [(digest_a, Fin (1 / 2)), (digest_a, Fin (1 / 2)), (digest_a, Fin (1 / 2)), (digest_a, Fin (1 / 2)),
      (digest_b, Fin 1)] = Inr two_candidates"
  using example_keys(1-4) by (simp add: greedy_record add_credit_def bump_def two_candidates_def)

end
