(* ===== verification/RecipeSearch.thy ===== *)
theory RecipeSearch
  imports RecipeProposal
begin

text \<open>
  \<open>recipe_program.py\<close>, lines 78 to 94, 443 to 515 and 1171 to 1693: \<open>OutcomeOnlyRecipeSequenceSearch\<close>.
  A search edits a parent program by one replaced, inserted, deleted or swapped instruction, proposes an
  edit whose scoped key was not evaluated yet, and learns from scalar outcomes only: per-operator
  statistics in the search state, and credit in the proposal policy where one is attached.

  The generator of torch is explicit state; \<open>softmax\<close>, \<open>log\<close> and \<open>sqrt\<close> are parameters.  A score masked
  with minus infinity gets the softmax weight zero.  The payloads of state and proposal are not
  modelled: they hold tensors.
\<close>

section \<open>Scoped keys\<close>

definition recipe_key :: "string \<Rightarrow> string \<Rightarrow> string result" where
  "recipe_key scope digest =
     (if scope = [] \<or> NUL \<in> set scope then Inl ValueError
      else bind_r (validate_digest digest) (\<lambda>_. Inr (scope @ [NUL] @ digest)))"

definition validate_recipe_key :: "string \<Rightarrow> unit result" where
  "validate_recipe_key value =
     (if NUL \<notin> set value then Inl ValueError
      else (case rsplit_nul value of (scope, digest) \<Rightarrow>
        bind_r (recipe_key scope digest) (\<lambda>_. Inr ())))"

section \<open>The search state\<close>

definition RECIPE_PROGRAM_SEARCH_SCHEMA :: string where
  "RECIPE_PROGRAM_SEARCH_SCHEMA = ''neural-computer.external-recipe-program-search.v2''"

definition RECIPE_PROGRAM_PROPOSAL_SCHEMA :: string where
  "RECIPE_PROGRAM_PROPOSAL_SCHEMA = ''neural-computer.external-recipe-program-proposal.v2''"

record rs_state =
  rs_totals :: "pyfloat list"
  rs_counts :: "pyfloat list"
  rs_accepts :: "pyfloat list"
  rs_fails :: "pyfloat list"
  rs_seen :: "string list"
  rs_proposals :: int
  rs_accepted :: int
  rs_best_quality :: pyfloat
  rs_schema :: string

definition rs_validate :: "rs_state \<Rightarrow> rs_state result" where
  "rs_validate s =
     (if rs_schema s \<noteq> RECIPE_PROGRAM_SEARCH_SCHEMA then Inl ValueError
      else bind_r (all_r (stat_validate (length RECIPE_PROGRAM_MUTATION_OPERATORS))
             [rs_totals s, rs_counts s, rs_accepts s, rs_fails s]) (\<lambda>_.
        if rs_proposals s < 0 \<or> rs_accepted s < 0 \<or> rs_accepted s > rs_proposals s then Inl ValueError
        else if stat_sum (rs_counts s) \<noteq> rs_proposals s then Inl ValueError
        else if stat_sum (rs_accepts s) \<noteq> rs_accepted s then Inl ValueError
        else if stat_sum (rs_fails s) \<noteq> rs_proposals s - rs_accepted s then Inl ValueError
        else if int (length (rs_seen s)) \<noteq> rs_proposals s
          \<or> card (set (rs_seen s)) \<noteq> length (rs_seen s) then Inl ValueError
        else bind_r (all_r validate_recipe_key (rs_seen s)) (\<lambda>_.
          if \<not> isfinite (rs_best_quality s) \<or> \<not> (Fin 0 \<le> rs_best_quality s \<and> rs_best_quality s \<le> Fin 1)
          then Inl ValueError else Inr s)))"

definition rs_initial :: "rs_state result" where
  "rs_initial =
     (let zeros = replicate (length RECIPE_PROGRAM_MUTATION_OPERATORS) (Fin 0)
      in rs_validate \<lparr>rs_totals = zeros, rs_counts = zeros, rs_accepts = zeros, rs_fails = zeros,
           rs_seen = [], rs_proposals = 0, rs_accepted = 0, rs_best_quality = Fin 0,
           rs_schema = RECIPE_PROGRAM_SEARCH_SCHEMA\<rparr>)"

section \<open>Proposals\<close>

record recipe_proposal =
  rq_program :: recipe_program
  rq_parent_digest :: string
  rq_operator :: string
  rq_operator_index :: int
  rq_attempt :: int
  rq_probability :: pyfloat
  rq_scope :: string
  rq_context :: string
  rq_factors :: "proposal_factors option"
  rq_schema :: string

definition rq_validate :: "recipe_proposal \<Rightarrow> recipe_proposal result" where
  "rq_validate r =
     (if rq_schema r \<noteq> RECIPE_PROGRAM_PROPOSAL_SCHEMA then Inl ValueError
      else if rq_scope r = [] \<or> NUL \<in> set (rq_scope r) then Inl ValueError
      else if rq_context r = [] \<or> NUL \<in> set (rq_context r) then Inl ValueError
      else bind_r
        (case rq_factors r of
           None \<Rightarrow> Inr ()
         | Some f \<Rightarrow> bind_r (pf_validate f) (\<lambda>_.
             if pf_operator f \<noteq> rq_operator_index r then Inl ValueError else Inr ())) (\<lambda>_.
      bind_r (validate_digest (rq_parent_digest r)) (\<lambda>_.
      if rq_operator r \<notin> set RECIPE_PROGRAM_MUTATION_OPERATORS then Inl ValueError
      else if \<not> in_range (rq_operator_index r) (length RECIPE_PROGRAM_MUTATION_OPERATORS)
      then Inl ValueError
      else if RECIPE_PROGRAM_MUTATION_OPERATORS ! nat (rq_operator_index r) \<noteq> rq_operator r
      then Inl ValueError
      else if rq_attempt r < 0 then Inl ValueError
      else if \<not> isfinite (rq_probability r)
        \<or> \<not> (Fin 0 < rq_probability r \<and> rq_probability r \<le> Fin 1) then Inl ValueError
      else if rp_digest (rq_program r) = rq_parent_digest r then Inl ValueError
      else Inr r)))"

record recipe_feedback =
  rf_proposal :: recipe_proposal
  rf_receipt :: recipe_receipt
  rf_quality :: pyfloat
  rf_state :: rs_state

section \<open>The search\<close>

record recipe_search =
  rx_basis :: recipe_basis
  rx_min :: int
  rx_max :: int
  rx_exploration :: rat
  rx_temperature :: rat
  rx_policy :: "policy option"

definition rx_init :: "recipe_basis \<Rightarrow> int \<Rightarrow> int \<Rightarrow> pyfloat \<Rightarrow> pyfloat \<Rightarrow> policy option \<Rightarrow> recipe_search result" where
  "rx_init basis lo hi exploration temperature P =
     (if lo < 1 \<or> hi < lo then Inl ValueError
      else if \<not> isfinite exploration \<or> exploration < Fin 0 then Inl ValueError
      else if \<not> isfinite temperature \<or> temperature \<le> Fin 0 then Inl ValueError
      else Inr \<lparr>rx_basis = basis, rx_min = lo, rx_max = hi, rx_exploration = fin_val exploration,
                rx_temperature = fin_val temperature, rx_policy = P\<rparr>)"

definition rx_validate_parent :: "recipe_search \<Rightarrow> recipe_program \<Rightarrow> unit result" where
  "rx_validate_parent x parent =
     (if rp_slot_values parent \<noteq> rb_slot_values (rx_basis x)
        \<or> rp_allow_parallel parent \<noteq> rb_allow_parallel (rx_basis x) then Inl ValueError
      else if \<not> (rx_min x \<le> rp_length parent \<and> rp_length parent \<le> rx_max x) then Inl ValueError
      else Inr ())"

definition rx_candidate :: "recipe_program \<Rightarrow> recipe_instruction list \<Rightarrow> recipe_program result" where
  "rx_candidate parent is =
     rp_init (rp_slot_values parent) is (rp_allow_parallel parent) RECIPE_PROGRAM_SCHEMA"

text \<open>The edited instruction lists, with the index of the operator, in the order they are added.\<close>

definition recipe_edits :: "recipe_search \<Rightarrow> recipe_instruction list \<Rightarrow> recipe_program
    \<Rightarrow> (nat \<times> recipe_instruction list) list" where
  "recipe_edits x atoms parent =
     (let is = rp_instructions parent; n = length is
      in concat (map (\<lambda>position. map (\<lambda>atom. (0, is[position := atom])) atoms) [0..<n])
         @ (if rp_length parent < rx_max x
            then concat (map (\<lambda>position. map (\<lambda>atom. (1, take position is @ atom # drop position is)) atoms)
                   [0..<n + 1])
            else [])
         @ (if rp_length parent > rx_min x
            then map (\<lambda>position. (2, take position is @ drop (position + 1) is)) [0..<n]
            else [])
         @ (if rp_length parent > 1
            then concat (map (\<lambda>first. map (\<lambda>second. (3, is[first := is ! second, second := is ! first]))
                   [first + 1..<n]) [0..<n])
            else []))"

text \<open>\<open>add\<close> on each of them; \<open>seen\<close> holds the digests added so far.\<close>

fun add_recipes :: "recipe_program \<Rightarrow> string list \<Rightarrow> (nat \<times> recipe_instruction list) list
    \<Rightarrow> (nat \<times> recipe_program) list result" where
  "add_recipes parent seen [] = Inr []"
| "add_recipes parent seen ((k, is) # edits) =
     bind_r (rx_candidate parent is) (\<lambda>p.
       let digest = rp_digest p
       in if digest = rp_digest parent \<or> digest \<in> set seen then add_recipes parent seen edits
          else bind_r (add_recipes parent (seen @ [digest]) edits) (\<lambda>rest. Inr ((k, p) # rest)))"

definition exhaustive_candidates :: "recipe_search \<Rightarrow> recipe_program \<Rightarrow> (nat \<times> recipe_program) list result" where
  "exhaustive_candidates x parent =
     bind_r (rx_validate_parent x parent) (\<lambda>_.
       add_recipes parent [] (recipe_edits x (atomic_candidates (rx_basis x)) parent))"

section \<open>The factors of a candidate\<close>

definition instruction_digest :: "recipe_instruction \<Rightarrow> string" where
  "instruction_digest i = digest_payload (ri_payload i)"

definition mk_factors :: "nat \<Rightarrow> nat \<Rightarrow> nat option \<Rightarrow> recipe_instruction list \<Rightarrow> proposal_factors" where
  "mk_factors k position second is =
     \<lparr>pf_operator = int k, pf_primary = int position, pf_secondary = map_option int second,
      pf_digests = map instruction_digest is, pf_schema = RECIPE_PROPOSAL_FACTORS_SCHEMA\<rparr>"

definition rx_factors :: "recipe_program \<Rightarrow> nat \<Rightarrow> recipe_program \<Rightarrow> proposal_factors result" where
  "rx_factors parent k program =
     (let before = rp_instructions parent; after = rp_instructions program
      in if k = 0 then
           (let differences = filter (\<lambda>j. before ! j \<noteq> after ! j) [0..<min (length before) (length after)]
            in if length before \<noteq> length after \<or> length differences \<noteq> 1 then Inl ValueError
               else pf_validate (mk_factors k (hd differences) None [after ! hd differences]))
         else if k = 1 then
           (if length after \<noteq> length before + 1 then Inl ValueError
            else (case List.find (\<lambda>j. take j after @ drop (j + 1) after = before) [0..<length after] of
                    None \<Rightarrow> Inl ValueError
                  | Some j \<Rightarrow> pf_validate (mk_factors k j None [after ! j])))
         else if k = 2 then
           (if int (length after) \<noteq> int (length before) - 1 then Inl ValueError
            else (case List.find (\<lambda>j. take j before @ drop (j + 1) before = after) [0..<length before] of
                    None \<Rightarrow> Inl ValueError
                  | Some j \<Rightarrow> pf_validate (mk_factors k j None [before ! j])))
         else if k = 3 then
           (if length before \<noteq> length after then Inl ValueError
            else (case List.find (\<lambda>(i, j). before[i := before ! j, j := before ! i] = after)
                      (concat (map (\<lambda>i. map (\<lambda>j. (i, j)) [i + 1..<length before]) [0..<length before])) of
                    None \<Rightarrow> Inl ValueError
                  | Some (i, j) \<Rightarrow> pf_validate (mk_factors k i (Some j) [before ! i, before ! j])))
         else Inl ValueError)"

section \<open>Proposing\<close>

definition mk_recipe_proposal :: "rs_state \<Rightarrow> recipe_program \<Rightarrow> string \<Rightarrow> string \<Rightarrow> nat \<Rightarrow> recipe_program
    \<Rightarrow> rat \<Rightarrow> proposal_factors \<Rightarrow> recipe_proposal" where
  "mk_recipe_proposal s parent scope c k p probability f =
     \<lparr>rq_program = p, rq_parent_digest = rp_digest parent,
      rq_operator = RECIPE_PROGRAM_MUTATION_OPERATORS ! k, rq_operator_index = int k,
      rq_attempt = rs_proposals s, rq_probability = Fin probability, rq_scope = scope,
      rq_context = c, rq_factors = Some f, rq_schema = RECIPE_PROGRAM_PROPOSAL_SCHEMA\<rparr>"

fun first_unseen :: "string \<Rightarrow> string list \<Rightarrow> (nat \<times> recipe_program) list \<Rightarrow> (nat \<times> recipe_program) result" where
  "first_unseen scope seen [] = Inl RuntimeError"
| "first_unseen scope seen ((k, p) # cs) =
     bind_r (recipe_key scope (rp_digest p)) (\<lambda>key.
       if key \<in> set seen then first_unseen scope seen cs else Inr (k, p))"

definition rx_propose_exhaustive :: "recipe_search \<Rightarrow> rs_state \<Rightarrow> recipe_program \<Rightarrow> string \<Rightarrow> string
    \<Rightarrow> recipe_proposal result" where
  "rx_propose_exhaustive x s parent scope c =
     bind_r (rs_validate s) (\<lambda>_.
       if scope = [] \<or> NUL \<in> set scope then Inl ValueError
       else if c = [] \<or> NUL \<in> set c then Inl ValueError
       else bind_r (exhaustive_candidates x parent) (\<lambda>candidates.
            bind_r (first_unseen scope (rs_seen s) candidates) (\<lambda>(k, p).
            bind_r (rx_factors parent k p) (\<lambda>f.
              rq_validate (mk_recipe_proposal s parent scope c k p
                (1 / of_nat (max 1 (length candidates))) f)))))"

text \<open>The candidates a policy chooses from.\<close>

fun available_candidates :: "recipe_program \<Rightarrow> string \<Rightarrow> string list \<Rightarrow> (nat \<times> recipe_program) list
    \<Rightarrow> (nat \<times> recipe_program \<times> proposal_factors) list result" where
  "available_candidates parent scope seen [] = Inr []"
| "available_candidates parent scope seen ((k, p) # cs) =
     bind_r (recipe_key scope (rp_digest p)) (\<lambda>key.
       if key \<in> set seen then available_candidates parent scope seen cs
       else bind_r (rx_factors parent k p) (\<lambda>f.
            bind_r (available_candidates parent scope seen cs) (\<lambda>rest. Inr ((k, p, f) # rest))))"

definition policy_propose :: "math_lib \<Rightarrow> torch_lib \<Rightarrow> 'g rng \<Rightarrow> recipe_search \<Rightarrow> policy \<Rightarrow> rs_state
    \<Rightarrow> recipe_program \<Rightarrow> string \<Rightarrow> string \<Rightarrow> 'g \<Rightarrow> (recipe_proposal \<times> 'g) result" where
  "policy_propose math torch rng x P s parent scope c g =
     bind_r (exhaustive_candidates x parent) (\<lambda>candidates.
     bind_r (available_candidates parent scope (rs_seen s) candidates) (\<lambda>available.
       if available = [] then Inl RuntimeError
       else bind_r (policy_select math torch rng P c (map (\<lambda>(k, p, f). rp_digest p) available)
                     (map (\<lambda>(k, p, f). f) available) g) (\<lambda>(selected, probability, g').
            case available ! selected of (k, p, f) \<Rightarrow>
              bind_r (rq_validate (mk_recipe_proposal s parent scope c k p probability f)) (\<lambda>r.
                Inr (r, g')))))"

definition available_mask :: "recipe_search \<Rightarrow> recipe_program \<Rightarrow> bool list" where
  "available_mask x parent =
     (let n = rp_length parent in [True, n < rx_max x, n > rx_min x, n > 1])"

text \<open>Softmax of the scores the mask leaves, and weight zero elsewhere.\<close>

fun scatter :: "bool list \<Rightarrow> rat list \<Rightarrow> rat list" where
  "scatter [] ps = []"
| "scatter (False # ms) ps = 0 # scatter ms ps"
| "scatter (True # ms) ps = hd ps # scatter ms (tl ps)"

definition rx_operator_probabilities :: "torch_lib \<Rightarrow> recipe_search \<Rightarrow> rs_state \<Rightarrow> recipe_program
    \<Rightarrow> rat list result" where
  "rx_operator_probabilities torch x s parent =
     bind_r (rs_validate s) (\<lambda>_.
       let available = available_mask x parent;
           total = of_int (rs_proposals s + 1);
           scores = map2 (\<lambda>t c.
             let reward_total = fin_val t; count = fin_val c;
                 mean = (if count > 0 then reward_total / max count 1 else 0);
                 bonus = rx_exploration x * tl_sqrt torch (tl_log torch total / (count + 1))
             in (mean + bonus) / rx_temperature x) (rs_totals s) (rs_counts s)
       in Inr (scatter available
            (tl_softmax torch (map snd (filter fst (zip available scores))))))"

text \<open>\<open>torch.randint(n, ())\<close>, which raises on an empty range.\<close>

definition draw_below :: "'g rng \<Rightarrow> 'g \<Rightarrow> nat \<Rightarrow> (nat \<times> 'g) result" where
  "draw_below rng g n = (if n = 0 then Inl RuntimeError else Inr (rng_randint rng g n))"

text \<open>One randomly drawn edit with operator \<open>k\<close>.\<close>

definition draw_edit :: "'g rng \<Rightarrow> recipe_search \<Rightarrow> recipe_program \<Rightarrow> nat \<Rightarrow> 'g
    \<Rightarrow> (recipe_instruction list \<times> 'g) result" where
  "draw_edit rng x parent k g =
     (let atoms = atomic_candidates (rx_basis x); is = rp_instructions parent; n = length is
      in if k = 0 then
           bind_r (draw_below rng g n) (\<lambda>(position, g').
           bind_r (draw_below rng g' (length atoms)) (\<lambda>(a, g'').
             Inr (is[position := atoms ! a], g'')))
         else if k = 1 then
           bind_r (draw_below rng g (n + 1)) (\<lambda>(position, g').
           bind_r (draw_below rng g' (length atoms)) (\<lambda>(a, g'').
             Inr (take position is @ (atoms ! a) # drop position is, g'')))
         else if k = 2 then
           bind_r (draw_below rng g n) (\<lambda>(position, g').
             Inr (take position is @ drop (position + 1) is, g'))
         else
           bind_r (draw_below rng g n) (\<lambda>(first, g').
           bind_r (draw_below rng g' (n - 1)) (\<lambda>(drawn, g'').
             let second = (if drawn \<ge> first then drawn + 1 else drawn)
             in Inr (is[first := is ! second, second := is ! first], g''))))"

text \<open>
  The loop of random attempts: \<open>None\<close> when the \<open>for\<close> loop ends without a proposal.  The mask
  \<open>excluded\<close> of the code is never written, so its \<open>masked_fill\<close> changes nothing.
\<close>

fun random_attempts :: "nat \<Rightarrow> torch_lib \<Rightarrow> 'g rng \<Rightarrow> recipe_search \<Rightarrow> rs_state \<Rightarrow> recipe_program
    \<Rightarrow> string \<Rightarrow> string \<Rightarrow> 'g \<Rightarrow> (recipe_proposal option \<times> 'g) result" where
  "random_attempts 0 torch rng x s parent scope c g = Inr (None, g)"
| "random_attempts (Suc fuel) torch rng x s parent scope c g =
     bind_r (rx_operator_probabilities torch x s parent) (\<lambda>weights.
       if sum_list weights \<le> 0 then Inr (None, g)
       else
         let probabilities = map (\<lambda>p. p / sum_list weights) weights;
             (k, g1) = rng_multinomial rng g probabilities
         in bind_r (draw_edit rng x parent k g1) (\<lambda>(is, g2).
              if \<not> (rx_min x \<le> int (length is) \<and> int (length is) \<le> rx_max x)
              then random_attempts fuel torch rng x s parent scope c g2
              else bind_r (rx_candidate parent is) (\<lambda>p.
                if rp_digest p = rp_digest parent
                then random_attempts fuel torch rng x s parent scope c g2
                else bind_r (recipe_key scope (rp_digest p)) (\<lambda>key.
                  if key \<in> set (rs_seen s)
                  then random_attempts fuel torch rng x s parent scope c g2
                  else bind_r (rx_factors parent k p) (\<lambda>f.
                    bind_r (rq_validate (mk_recipe_proposal s parent scope c k p (probabilities ! k) f))
                      (\<lambda>r. Inr (Some r, g2)))))))"

definition rx_propose :: "math_lib \<Rightarrow> torch_lib \<Rightarrow> 'g rng \<Rightarrow> recipe_search \<Rightarrow> rs_state \<Rightarrow> recipe_program
    \<Rightarrow> string \<Rightarrow> string \<Rightarrow> 'g \<Rightarrow> (recipe_proposal \<times> 'g) result" where
  "rx_propose math torch rng x s parent scope c g =
     bind_r (rs_validate s) (\<lambda>_.
     bind_r (rx_validate_parent x parent) (\<lambda>_.
       if scope = [] \<or> NUL \<in> set scope then Inl ValueError
       else if c = [] \<or> NUL \<in> set c then Inl ValueError
       else (case rx_policy x of
           Some P \<Rightarrow> policy_propose math torch rng x P s parent scope c g
         | None \<Rightarrow>
             bind_r (random_attempts 64 torch rng x s parent scope c g) (\<lambda>(found, g').
               case found of
                 Some r \<Rightarrow> Inr (r, g')
               | None \<Rightarrow> bind_r (rx_propose_exhaustive x s parent scope c) (\<lambda>r. Inr (r, g'))))))"

section \<open>Recording\<close>

text \<open>\<open>record_outcomes\<close> returns the feedback and leaves the search with its updated policy.\<close>

fun rx_record_outcomes :: "recipe_search \<Rightarrow> rs_state \<Rightarrow> recipe_proposal
    \<Rightarrow> pyfloat list \<times> pyfloat \<times> int \<times> int \<Rightarrow> (recipe_feedback \<times> recipe_search) result" where
  "rx_record_outcomes x s r (outcomes, threshold, min_observations, min_stable) =
     bind_r (rs_validate s) (\<lambda>_.
     bind_r (rq_validate r) (\<lambda>_.
       if rq_attempt r \<noteq> rs_proposals s then Inl ValueError
       else bind_r (recipe_key (rq_scope r) (rp_digest (rq_program r))) (\<lambda>key.
         if key \<in> set (rs_seen s) then Inl ValueError
         else bind_r (evaluate_recipe_program_admission (rq_program r) outcomes threshold
                        min_observations min_stable) (\<lambda>receipt.
           let quality = (if outcomes = [] then Fin 0 else quality_of outcomes);
               index = rq_operator_index r;
               accepted = rr_accepted receipt
           in bind_r
                (case rx_policy x of
                   None \<Rightarrow> Inr x
                 | Some P \<Rightarrow>
                     (case rq_factors r of
                        None \<Rightarrow> Inl ValueError
                      | Some f \<Rightarrow>
                          (case policy_record P (rq_context r) (rp_digest (rq_program r)) quality f of
                             (P', None) \<Rightarrow> Inr (x\<lparr>rx_policy := Some P'\<rparr>)
                           | (P', Some e) \<Rightarrow> Inl e))) (\<lambda>x'.
              bind_r (rs_validate
                \<lparr>rs_totals = bump (rs_totals s) index quality,
                 rs_counts = bump (rs_counts s) index (Fin 1),
                 rs_accepts = (if accepted then bump (rs_accepts s) index (Fin 1) else rs_accepts s),
                 rs_fails = (if accepted then rs_fails s else bump (rs_fails s) index (Fin 1)),
                 rs_seen = rs_seen s @ [key],
                 rs_proposals = rs_proposals s + 1,
                 rs_accepted = rs_accepted s + (if accepted then 1 else 0),
                 rs_best_quality = py_max (rs_best_quality s) quality,
                 rs_schema = RECIPE_PROGRAM_SEARCH_SCHEMA\<rparr>) (\<lambda>next_state.
              Inr (\<lparr>rf_proposal = r, rf_receipt = receipt, rf_quality = quality, rf_state = next_state\<rparr>,
                   x')))))))"

section \<open>Candidates, characterised\<close>

definition search_ok :: "recipe_search \<Rightarrow> bool" where
  "search_ok x \<longleftrightarrow> basis_ok (rx_basis x) \<and> 1 \<le> rx_min x
     \<and> (case rx_policy x of None \<Rightarrow> True | Some P \<Rightarrow> policy_ok P)"

definition parent_ok :: "recipe_search \<Rightarrow> recipe_program \<Rightarrow> bool" where
  "parent_ok x p \<longleftrightarrow> recipe_ok p \<and> rp_slot_values p = rb_slot_values (rx_basis x)
     \<and> rp_allow_parallel p = rb_allow_parallel (rx_basis x)
     \<and> rx_min x \<le> rp_length p \<and> rp_length p \<le> rx_max x"

definition edited :: "recipe_program \<Rightarrow> recipe_instruction list \<Rightarrow> recipe_program" where
  "edited parent is = \<lparr>rp_slot_values = rp_slot_values parent, rp_instructions = is,
     rp_allow_parallel = rp_allow_parallel parent, rp_schema = RECIPE_PROGRAM_SCHEMA\<rparr>"

text \<open>The one-instruction edits, as a relation.\<close>

definition recipe_edit :: "recipe_search \<Rightarrow> recipe_program \<Rightarrow> nat \<Rightarrow> recipe_instruction list \<Rightarrow> bool" where
  "recipe_edit x parent k is \<longleftrightarrow>
     (let before = rp_instructions parent; n = length before; atoms = set (atomic_candidates (rx_basis x))
      in k = 0 \<and> (\<exists>j a. j < n \<and> a \<in> atoms \<and> is = before[j := a])
       \<or> k = 1 \<and> int n < rx_max x \<and> (\<exists>j a. j \<le> n \<and> a \<in> atoms \<and> is = take j before @ a # drop j before)
       \<or> k = 2 \<and> rx_min x < int n \<and> (\<exists>j. j < n \<and> is = take j before @ drop (j + 1) before)
       \<or> k = 3 \<and> (\<exists>i j. i < j \<and> j < n \<and> is = before[i := before ! j, j := before ! i]))"

lemma mem_swap_edits:
  "e \<in> set (concat (map (\<lambda>i. map (\<lambda>j. f i j) [i + 1..<n]) [0..<n])) \<longleftrightarrow> (\<exists>i j. i < j \<and> j < n \<and> e = f i j)"
proof -
  have "e \<in> set (concat (map (\<lambda>i. map (\<lambda>j. f i j) [i + 1..<n]) [0..<n]))
      \<longleftrightarrow> (\<exists>i\<in>{0..<n}. \<exists>j\<in>{i + 1..<n}. e = f i j)"
    by (simp add: image_iff)
  also have "\<dots> \<longleftrightarrow> (\<exists>i j. i < j \<and> j < n \<and> e = f i j)"
  proof
    assume "\<exists>i j. i < j \<and> j < n \<and> e = f i j"
    then obtain i j where "i < j" "j < n" "e = f i j" by blast
    moreover from this have "i \<in> {0..<n}" "j \<in> {i + 1..<n}" by auto
    ultimately show "\<exists>i\<in>{0..<n}. \<exists>j\<in>{i + 1..<n}. e = f i j" by blast
  qed (force simp: Suc_le_eq)
  finally show ?thesis .
qed

lemma mem_grid:
  "e \<in> set (concat (map (\<lambda>j. map (\<lambda>a. f j a) atoms) [0..<n])) \<longleftrightarrow> (\<exists>j a. j < n \<and> a \<in> set atoms \<and> e = f j a)"
  by auto

lemma recipe_edits_iff:
  "(k, is) \<in> set (recipe_edits x (atomic_candidates (rx_basis x)) parent) \<longleftrightarrow> recipe_edit x parent k is"
proof -
  let ?b = "rp_instructions parent" and ?atoms = "atomic_candidates (rx_basis x)"
  have e0: "(k, is) \<in> set (concat (map (\<lambda>j. map (\<lambda>a. (0, ?b[j := a])) ?atoms) [0..<length ?b]))
      \<longleftrightarrow> k = 0 \<and> (\<exists>j a. j < length ?b \<and> a \<in> set ?atoms \<and> is = ?b[j := a])"
    by (simp only: mem_grid prod.inject) blast
  have e1: "(k, is) \<in> set (concat (map (\<lambda>j. map (\<lambda>a. (1, take j ?b @ a # drop j ?b)) ?atoms) [0..<length ?b + 1]))
      \<longleftrightarrow> k = 1 \<and> (\<exists>j a. j \<le> length ?b \<and> a \<in> set ?atoms \<and> is = take j ?b @ a # drop j ?b)"
    by (simp only: mem_grid prod.inject less_Suc_eq_le Suc_eq_plus1 [symmetric]) blast
  have e2: "(k, is) \<in> set (map (\<lambda>j. (2, take j ?b @ drop (j + 1) ?b)) [0..<length ?b])
      \<longleftrightarrow> k = 2 \<and> (\<exists>j. j < length ?b \<and> is = take j ?b @ drop (j + 1) ?b)"
    by auto
  have e3: "(k, is) \<in> set (concat (map (\<lambda>i. map (\<lambda>j. (3, ?b[i := ?b ! j, j := ?b ! i])) [i + 1..<length ?b])
        [0..<length ?b]))
      \<longleftrightarrow> k = 3 \<and> (\<exists>i j. i < j \<and> j < length ?b \<and> is = ?b[i := ?b ! j, j := ?b ! i])"
    by (simp only: mem_swap_edits prod.inject) blast
  have one: "rp_length parent > 1 \<longleftrightarrow> 1 < length ?b" by (auto simp: rp_length_def)
  have few: "\<not> 1 < length ?b \<Longrightarrow> i < j \<Longrightarrow> j < length ?b \<Longrightarrow> False" for i j by linarith
  show ?thesis
    unfolding recipe_edits_def recipe_edit_def Let_def set_append Un_iff e0 one
    unfolding rp_length_def
    by (simp only: if_distrib [where f = set] if_split_mem2 e1 e2 e3 list.set empty_iff)
       (use few in \<open>auto split: if_splits\<close>)
qed

lemma candidates_validate:
  assumes "basis_ok b" and "i \<in> set (atomic_candidates b)"
  shows "ri_validate (rb_slot_count b) (rb_allow_parallel b) i = Inr ()"
proof (cases "rb_allow_parallel b")
  case True
  then show ?thesis using total_validates [OF assms(1) candidates_total [OF assms]] by simp
next
  case False
  then have "atomic_candidate b i" using candidates_cases [OF assms(2)] by blast
  then show ?thesis
    using total_validates [OF assms(1) candidates_total [OF assms]] validate_atomic atomic_not_parallel False
    by metis
qed

lemma recipe_edit_parts:
  assumes "recipe_edit x parent k is" and "parent_ok x parent" and "1 \<le> rx_min x"
  shows "set is \<subseteq> set (rp_instructions parent) \<union> set (atomic_candidates (rx_basis x))"
    and "rx_min x \<le> int (length is)" and "int (length is) \<le> rx_max x" and "k < 4"
proof -
  obtain bs where bs: "bs = rp_instructions parent" by blast
  have len: "rx_min x \<le> int (length bs)" "int (length bs) \<le> rx_max x"
    using assms(2) by (simp_all add: parent_ok_def rp_length_def bs)
  have swap: "set (bs[i := bs ! j, j := bs ! i]) \<subseteq> set bs" if "i < j" "j < length bs" for i j
    using that by (auto simp: in_set_conv_nth nth_list_update split: if_splits)
  have drops: "set (take j bs) \<subseteq> set bs" "set (drop j bs) \<subseteq> set bs" for j
    by (rule set_take_subset set_drop_subset)+
  have upd: "set (bs[j := a]) \<subseteq> set bs \<union> set (atomic_candidates (rx_basis x))"
    if "a \<in> set (atomic_candidates (rx_basis x))" for j a
    using set_update_subset_insert [of bs j a] that by auto
  note edit = assms(1) [unfolded recipe_edit_def Let_def, folded bs]
  show "set is \<subseteq> set (rp_instructions parent) \<union> set (atomic_candidates (rx_basis x))"
    unfolding bs [symmetric] using edit
  proof (elim disjE conjE exE)
    fix j a assume "a \<in> set (atomic_candidates (rx_basis x))" "is = bs[j := a]"
    then show "set is \<subseteq> set bs \<union> set (atomic_candidates (rx_basis x))" using upd by simp
  next
    fix j a assume "a \<in> set (atomic_candidates (rx_basis x))" "is = take j bs @ a # drop j bs"
    then show "set is \<subseteq> set bs \<union> set (atomic_candidates (rx_basis x))" using drops by auto
  next
    fix j assume "is = take j bs @ drop (j + 1) bs"
    then show "set is \<subseteq> set bs \<union> set (atomic_candidates (rx_basis x))" using drops by auto
  next
    fix i j assume "i < j" "j < length bs" "is = bs[i := bs ! j, j := bs ! i]"
    then show "set is \<subseteq> set bs \<union> set (atomic_candidates (rx_basis x))" using swap by blast
  qed
  show "rx_min x \<le> int (length is)" "int (length is) \<le> rx_max x" "k < 4"
    using edit len by auto
qed

lemma recipe_edit_valid:
  assumes "recipe_edit x parent k is" and "parent_ok x parent" and "search_ok x"
  shows "recipe_ok (edited parent is)" and "rx_candidate parent is = Inr (edited parent is)"
    and "rx_min x \<le> rp_length (edited parent is)" and "rp_length (edited parent is) \<le> rx_max x"
proof -
  have b: "basis_ok (rx_basis x)" "1 \<le> rx_min x" using assms(3) by (simp_all add: search_ok_def)
  note parts = recipe_edit_parts [OF assms(1,2) b(2)]
  show "rx_min x \<le> rp_length (edited parent is)" "rp_length (edited parent is) \<le> rx_max x"
    using parts by (simp_all add: rp_length_def edited_def)
  have ne: "is \<noteq> []" using parts(2) b(2) by auto
  have p: "recipe_ok parent" "rp_slot_values parent = rb_slot_values (rx_basis x)"
      "rp_allow_parallel parent = rb_allow_parallel (rx_basis x)"
    using assms(2) by (simp_all add: parent_ok_def)
  have n: "int (length (rb_slot_values (rx_basis x))) = rb_slot_count (rx_basis x)"
    using b(1) by (simp add: basis_ok_def)
  have "ri_validate (int (length (rp_slot_values parent))) (rp_allow_parallel parent) i = Inr ()"
    if "i \<in> set is" for i
  proof (cases "i \<in> set (rp_instructions parent)")
    case True
    then show ?thesis using p(1) by (simp add: recipe_ok_def)
  next
    case False
    then have "i \<in> set (atomic_candidates (rx_basis x))" using that parts(1) by blast
    then show ?thesis using candidates_validate [OF b(1)] by (simp add: p(2,3) n)
  qed
  then show ok: "recipe_ok (edited parent is)"
    using p(1) ne by (simp add: recipe_ok_def edited_def)
  then show "rx_candidate parent is = Inr (edited parent is)"
    by (simp add: rx_candidate_def rp_init_Inr edited_def)
qed

definition sound_recipes :: "recipe_program \<Rightarrow> string set \<Rightarrow> (nat \<times> recipe_instruction list) list
    \<Rightarrow> (nat \<times> recipe_program) list \<Rightarrow> bool" where
  "sound_recipes parent excluded edits cs \<longleftrightarrow>
     (\<forall>k p. (k, p) \<in> set cs \<longrightarrow>
        (k, rp_instructions p) \<in> set edits \<and> p = edited parent (rp_instructions p) \<and> rp_digest p \<notin> excluded)
     \<and> distinct (map (\<lambda>c. rp_digest (snd c)) cs)"

definition complete_recipes :: "recipe_program \<Rightarrow> string set \<Rightarrow> (nat \<times> recipe_instruction list) list
    \<Rightarrow> (nat \<times> recipe_program) list \<Rightarrow> bool" where
  "complete_recipes parent known edits cs \<longleftrightarrow>
     (\<forall>k is. (k, is) \<in> set edits \<longrightarrow>
        rp_digest (edited parent is) \<in> known \<union> rp_digest ` snd ` set cs)"

lemma edited_sel [simp]: "rp_instructions (edited parent is) = is"
    "rp_slot_values (edited parent is) = rp_slot_values parent"
    "rp_allow_parallel (edited parent is) = rp_allow_parallel parent"
  by (simp_all add: edited_def)

lemma add_recipes_spec:
  assumes "\<And>k is. (k, is) \<in> set edits \<Longrightarrow> rx_candidate parent is = Inr (edited parent is)"
  shows "\<exists>cs. add_recipes parent seen edits = Inr cs
    \<and> sound_recipes parent (insert (rp_digest parent) (set seen)) edits cs
    \<and> complete_recipes parent (insert (rp_digest parent) (set seen)) edits cs"
  using assms
proof (induction edits arbitrary: seen)
  case Nil
  then show ?case by (simp add: sound_recipes_def complete_recipes_def)
next
  case (Cons edit edits)
  obtain k "is" where edit: "edit = (k, is)" by (cases edit)
  obtain q d where q: "q = edited parent is" "d = rp_digest q" by blast
  have c: "rx_candidate parent is = Inr q" using Cons.prems [of k "is"] by (simp add: edit q)
  have rest: "rx_candidate parent js = Inr (edited parent js)" if "(j, js) \<in> set edits" for j js
    using Cons.prems [of j js] that by simp
  show ?case
  proof (cases "d = rp_digest parent \<or> d \<in> set seen")
    case True
    obtain cs where cs: "add_recipes parent seen edits = Inr cs"
        "sound_recipes parent (insert (rp_digest parent) (set seen)) edits cs"
        "complete_recipes parent (insert (rp_digest parent) (set seen)) edits cs"
      using Cons.IH [of seen] rest by blast
    have "add_recipes parent seen (edit # edits) = Inr cs"
      using True cs(1) by (simp add: edit c Let_def q)
    moreover have "sound_recipes parent (insert (rp_digest parent) (set seen)) (edit # edits) cs"
      using cs(2) unfolding sound_recipes_def by auto
    moreover have "complete_recipes parent (insert (rp_digest parent) (set seen)) (edit # edits) cs"
      using cs(3) True unfolding complete_recipes_def edit q by auto
    ultimately show ?thesis by blast
  next
    case False
    obtain cs where cs: "add_recipes parent (seen @ [d]) edits = Inr cs"
        "sound_recipes parent (insert d (insert (rp_digest parent) (set seen))) edits cs"
        "complete_recipes parent (insert d (insert (rp_digest parent) (set seen))) edits cs"
      using Cons.IH [of "seen @ [d]"] rest by (simp add: insert_commute) blast
    have "add_recipes parent seen (edit # edits) = Inr ((k, q) # cs)"
      using False cs(1) by (simp add: edit c Let_def q)
    moreover have "d \<notin> set (map (\<lambda>c. rp_digest (snd c)) cs)"
      using cs(2) unfolding sound_recipes_def by (auto, blast)
    then have "sound_recipes parent (insert (rp_digest parent) (set seen)) (edit # edits) ((k, q) # cs)"
      using cs(2) False unfolding sound_recipes_def edit by (auto simp: q)
    moreover have "complete_recipes parent (insert (rp_digest parent) (set seen)) (edit # edits) ((k, q) # cs)"
      using cs(3) unfolding complete_recipes_def edit by (auto simp: q)
    ultimately show ?thesis by blast
  qed
qed

lemma exhaustive_candidates_spec:
  assumes "search_ok x" and "parent_ok x parent"
  shows "\<exists>cs. exhaustive_candidates x parent = Inr cs
    \<and> (\<forall>k p. (k, p) \<in> set cs \<longrightarrow> recipe_edit x parent k (rp_instructions p)
         \<and> p = edited parent (rp_instructions p) \<and> rp_digest p \<noteq> rp_digest parent)
    \<and> distinct (map (\<lambda>c. rp_digest (snd c)) cs)
    \<and> (\<forall>k is. recipe_edit x parent k is \<longrightarrow>
         rp_digest (edited parent is) \<in> insert (rp_digest parent) (rp_digest ` snd ` set cs))"
proof -
  let ?edits = "recipe_edits x (atomic_candidates (rx_basis x)) parent"
  have v: "rx_candidate parent is = Inr (edited parent is)" if "(k, is) \<in> set ?edits" for k "is"
    using recipe_edit_valid(2) [OF _ assms(2,1)] that unfolding recipe_edits_iff by blast
  obtain cs where cs: "add_recipes parent [] ?edits = Inr cs"
      "sound_recipes parent {rp_digest parent} ?edits cs"
      "complete_recipes parent {rp_digest parent} ?edits cs"
    using add_recipes_spec [of ?edits parent "[]"] v unfolding list.set(1) by blast
  have p: "rx_validate_parent x parent = Inr ()"
    using assms(2) by (simp add: rx_validate_parent_def parent_ok_def)
  show ?thesis
    unfolding exhaustive_candidates_def p bind_r_Inr cs(1)
    using cs(2,3) unfolding sound_recipes_def complete_recipes_def recipe_edits_iff by simp
qed

lemma edited_self: "parent_ok x parent \<Longrightarrow> edited parent (rp_instructions parent) = parent"
  by (cases parent) (simp add: edited_def parent_ok_def recipe_ok_def)

section \<open>Factors, characterised\<close>

text \<open>Factors explain a candidate when they determine it from the parent.\<close>

definition explains :: "recipe_program \<Rightarrow> recipe_program \<Rightarrow> proposal_factors \<Rightarrow> bool" where
  "explains parent program f \<longleftrightarrow>
     (let before = rp_instructions parent; after = rp_instructions program; j = nat (pf_primary f)
      in if pf_operator f = 0 then
           j < length before \<and> after = before[j := after ! j] \<and> pf_digests f = [instruction_digest (after ! j)]
         else if pf_operator f = 1 then
           j < length after \<and> after = take j before @ after ! j # drop j before
           \<and> pf_digests f = [instruction_digest (after ! j)]
         else if pf_operator f = 2 then
           j < length before \<and> after = take j before @ drop (j + 1) before
           \<and> pf_digests f = [instruction_digest (before ! j)]
         else (\<exists>i. pf_secondary f = Some (int i) \<and> j < i \<and> i < length before
           \<and> after = before[j := before ! i, i := before ! j]
           \<and> pf_digests f = [instruction_digest (before ! j), instruction_digest (before ! i)]))"

lemma mk_factors_ok:
  assumes "k < 3" and "second = None" and "length is = 1 \<or> k = 3"
  shows "factors_ok (mk_factors k j second is)"
  using assms by (auto simp: factors_ok_def mk_factors_def instruction_digest_def)

lemma mk_swap_ok: "i < j \<Longrightarrow> factors_ok (mk_factors 3 i (Some j) [a, b])"
  by (simp add: factors_ok_def mk_factors_def instruction_digest_def)

lemma pf_validate_ok: "factors_ok f \<Longrightarrow> pf_validate f = Inr f"
  by (simp add: pf_validate_Inr)

lemma mk_factors_sel [simp]:
  "pf_operator (mk_factors k j second is) = int k" "pf_primary (mk_factors k j second is) = int j"
  "pf_secondary (mk_factors k j second is) = map_option int second"
  "pf_digests (mk_factors k j second is) = map instruction_digest is"
  by (simp_all add: mk_factors_def)

lemma find_ex: "x \<in> set xs \<Longrightarrow> P x \<Longrightarrow> \<exists>y. List.find P xs = Some y"
  by (induction xs) auto

lemma find_Some_mem: "List.find P xs = Some y \<Longrightarrow> y \<in> set xs \<and> P y"
  by (metis find_Some_iff nth_mem)

lemma filter_index: "j < n \<Longrightarrow> filter (\<lambda>i. i = j) [0..<n] = [j]"
  by (induction n) (auto simp: filter_empty_conv less_Suc_eq)

lemma differences_update:
  assumes "j < length bs" and "bs[j := a] \<noteq> bs"
  shows "filter (\<lambda>i. bs ! i \<noteq> bs[j := a] ! i) [0..<length bs] = [j]"
proof -
  have ne: "bs ! j \<noteq> a" using assms(2) by (metis list_update_id)
  have "filter (\<lambda>i. bs ! i \<noteq> bs[j := a] ! i) [0..<length bs] = filter (\<lambda>i. i = j) [0..<length bs]"
    using ne assms(1) by (intro filter_cong) (auto simp: nth_list_update)
  also have "\<dots> = [j]"
    using assms(1) by (rule filter_index)
  finally show ?thesis .
qed

lemma insert_back:
  assumes "j < length after" and "take j after @ drop (j + 1) after = before"
  shows "after = take j before @ after ! j # drop j before"
  using assms(1) id_take_nth_drop [of j after] by (auto simp: assms(2) [symmetric] min_def)

lemma rx_factors_total:
  assumes "recipe_edit x parent k is" and "is \<noteq> rp_instructions parent"
  shows "\<exists>f. rx_factors parent k (edited parent is) = Inr f \<and> factors_ok f \<and> pf_operator f = int k
    \<and> explains parent (edited parent is) f"
proof -
  obtain bs where bs: "bs = rp_instructions parent" by blast
  note edit = assms(1) [unfolded recipe_edit_def Let_def, folded bs]
  have ne: "is \<noteq> bs" using assms(2) by (simp add: bs)
  show ?thesis using edit
  proof (elim disjE conjE exE)
    fix j a assume k: "k = 0" and j: "j < length bs" "is = bs[j := a]"
    obtain f where f: "f = mk_factors 0 j None [is ! j]" by blast
    have d: "filter (\<lambda>i. bs ! i \<noteq> is ! i) [0..<min (length bs) (length is)] = [j]"
      using differences_update [OF j(1)] ne j(2) by simp
    have ok: "factors_ok f" unfolding f by (rule mk_factors_ok) simp_all
    have "rx_factors parent k (edited parent is) = pf_validate f"
      unfolding rx_factors_def Let_def k edited_sel bs [symmetric] d by (simp add: f j(2))
    then show ?thesis
      using ok j by (auto simp: pf_validate_ok explains_def f k bs [symmetric] Let_def)
  next
    fix j a assume k: "k = 1" and j: "j \<le> length bs" "is = take j bs @ a # drop j bs"
    have len: "length is = length bs + 1" using j by simp
    have m: "j \<in> set [0..<length is]" "take j is @ drop (j + 1) is = bs" using j by (auto simp: len less_Suc_eq_le)
    obtain i where i: "List.find (\<lambda>j. take j is @ drop (j + 1) is = bs) [0..<length is] = Some i"
      using find_ex [where P = "\<lambda>j. take j is @ drop (j + 1) is = bs", OF m] by blast
    have i': "i < length is" "take i is @ drop (i + 1) is = bs" using find_Some_mem [OF i] by simp_all
    obtain f where f: "f = mk_factors 1 i None [is ! i]" by blast
    have ok: "factors_ok f" unfolding f by (rule mk_factors_ok) simp_all
    have "rx_factors parent k (edited parent is) = pf_validate f"
      unfolding rx_factors_def Let_def k edited_sel bs [symmetric] i by (simp add: f len)
    then show ?thesis
      using ok i'(1) insert_back [OF i'] by (auto simp: pf_validate_ok explains_def f k bs [symmetric] Let_def)
  next
    fix j assume k: "k = 2" and j: "j < length bs" "is = take j bs @ drop (j + 1) bs"
    have len: "int (length is) = int (length bs) - 1" using j by simp
    have m: "j \<in> set [0..<length bs]" "take j bs @ drop (j + 1) bs = is" using j by simp_all
    obtain i where i: "List.find (\<lambda>j. take j bs @ drop (j + 1) bs = is) [0..<length bs] = Some i"
      using find_ex [where P = "\<lambda>j. take j bs @ drop (j + 1) bs = is", OF m] by blast
    have i': "i < length bs" "take i bs @ drop (i + 1) bs = is" using find_Some_mem [OF i] by simp_all
    obtain f where f: "f = mk_factors 2 i None [bs ! i]" by blast
    have ok: "factors_ok f" unfolding f by (rule mk_factors_ok) simp_all
    have "rx_factors parent k (edited parent is) = pf_validate f"
      unfolding rx_factors_def Let_def k edited_sel bs [symmetric] i by (simp add: f len)
    then show ?thesis
      using ok i' by (auto simp: pf_validate_ok explains_def f k bs [symmetric] Let_def)
  next
    fix i j assume k: "k = 3" and ij: "i < j" "j < length bs" "is = bs[i := bs ! j, j := bs ! i]"
    obtain pairs where pairs: "pairs = concat (map (\<lambda>i. map (\<lambda>j. (i, j)) [i + 1..<length bs]) [0..<length bs])"
      by blast
    have mem: "e \<in> set pairs \<longleftrightarrow> (\<exists>i j. i < j \<and> j < length bs \<and> e = (i, j))" for e
      unfolding pairs mem_swap_edits ..
    have m: "(i, j) \<in> set pairs" "(\<lambda>(i, j). bs[i := bs ! j, j := bs ! i] = is) (i, j)"
      using ij by (simp_all add: mem)
    obtain e where e: "List.find (\<lambda>(i, j). bs[i := bs ! j, j := bs ! i] = is) pairs = Some e"
      using find_ex [where P = "\<lambda>(i, j). bs[i := bs ! j, j := bs ! i] = is", OF m] by blast
    obtain p q where pq: "e = (p, q)" by (cases e)
    have e': "p < q" "q < length bs" "bs[p := bs ! q, q := bs ! p] = is"
      using find_Some_mem [OF e] by (auto simp: pq mem)
    obtain f where f: "f = mk_factors 3 p (Some q) [bs ! p, bs ! q]" by blast
    have ok: "factors_ok f" unfolding f by (rule mk_swap_ok [OF e'(1)])
    have len: "length is = length bs" by (simp add: ij(3))
    have "rx_factors parent k (edited parent is) = pf_validate f"
      unfolding rx_factors_def Let_def k edited_sel bs [symmetric] pairs [symmetric] e pq by (simp add: f len)
    then show ?thesis
      using ok e' by (auto simp: pf_validate_ok explains_def f k bs [symmetric] Let_def)
  qed
qed

section \<open>States and proposals\<close>

definition rs_ok :: "rs_state \<Rightarrow> bool" where
  "rs_ok s \<longleftrightarrow> rs_schema s = RECIPE_PROGRAM_SEARCH_SCHEMA
     \<and> stat_ok 4 (rs_totals s) \<and> stat_ok 4 (rs_counts s) \<and> stat_ok 4 (rs_accepts s) \<and> stat_ok 4 (rs_fails s)
     \<and> 0 \<le> rs_accepted s \<and> rs_accepted s \<le> rs_proposals s
     \<and> stat_sum (rs_counts s) = rs_proposals s \<and> stat_sum (rs_accepts s) = rs_accepted s
     \<and> stat_sum (rs_fails s) = rs_proposals s - rs_accepted s
     \<and> int (length (rs_seen s)) = rs_proposals s \<and> distinct (rs_seen s)
     \<and> (\<forall>k\<in>set (rs_seen s). key_ok k) \<and> in_unit (rs_best_quality s)"

lemma length_recipe_operators: "length RECIPE_PROGRAM_MUTATION_OPERATORS = 4"
  by (simp add: RECIPE_PROGRAM_MUTATION_OPERATORS_def)

lemma validate_recipe_key_Inr: "validate_recipe_key k = Inr () \<longleftrightarrow> key_ok k"
  by (auto simp: validate_recipe_key_def key_ok_def validate_key_def recipe_key_def bind_r_eq_Inr
      split: prod.splits)

lemma rs_validate_Inr: "rs_validate s = Inr t \<longleftrightarrow> rs_ok s \<and> t = s"
  unfolding rs_validate_def rs_ok_def in_unit_alt
  by (auto simp: bind_r_eq_Inr all_r_Inr_iff stat_validate_Inr length_recipe_operators not_less
      validate_recipe_key_Inr distinct_card card_distinct simp del: all_r.simps)

lemma rs_initial_ok: "\<exists>s. rs_initial = Inr s \<and> rs_ok s \<and> rs_seen s = []"
  by (simp add: rs_initial_def Let_def rs_validate_Inr rs_ok_def length_recipe_operators del: replicate.simps)

definition rq_ok :: "recipe_proposal \<Rightarrow> bool" where
  "rq_ok r \<longleftrightarrow> rq_schema r = RECIPE_PROGRAM_PROPOSAL_SCHEMA \<and> scope_ok (rq_scope r) \<and> scope_ok (rq_context r)
     \<and> (\<forall>f. rq_factors r = Some f \<longrightarrow> factors_ok f \<and> pf_operator f = rq_operator_index r)
     \<and> digest_ok (rq_parent_digest r) \<and> in_range (rq_operator_index r) 4
     \<and> rq_operator r = RECIPE_PROGRAM_MUTATION_OPERATORS ! nat (rq_operator_index r)
     \<and> 0 \<le> rq_attempt r \<and> in_unit_pos (rq_probability r)
     \<and> rp_digest (rq_program r) \<noteq> rq_parent_digest r"

lemma in_unit_pos_alt: "in_unit_pos v \<longleftrightarrow> \<not> (\<not> isfinite v \<or> \<not> (Fin 0 < v \<and> v \<le> Fin 1))"
  by (cases v) (auto simp: in_unit_pos_def)

lemma rq_validate_Inr: "rq_validate r = Inr t \<longleftrightarrow> rq_ok r \<and> t = r"
proof -
  have mem: "in_range i 4 \<Longrightarrow> RECIPE_PROGRAM_MUTATION_OPERATORS ! nat i \<in> set RECIPE_PROGRAM_MUTATION_OPERATORS" for i
    using in_range_nat [of i 4] length_recipe_operators by simp
  show ?thesis
    unfolding rq_validate_def rq_ok_def scope_ok_def in_unit_pos_alt length_recipe_operators
    using mem [of "rq_operator_index r"]
    by (cases "rq_factors r") (auto simp: bind_r_eq_Inr pf_validate_Inr validate_digest_Inr)
qed

definition rq_key :: "recipe_proposal \<Rightarrow> string" where
  "rq_key r = rq_scope r @ [NUL] @ rp_digest (rq_program r)"

lemma rp_digest_ok [simp]: "digest_ok (rp_digest p)"
  by (simp add: rp_digest_def)

lemma recipe_key_total: "scope_ok scope \<Longrightarrow> recipe_key scope (rp_digest p) = Inr (scope @ [NUL] @ rp_digest p)"
  using validate_digest_Inr [of "rp_digest p"] by (simp add: recipe_key_def scope_ok_def)

text \<open>A proposal that the search may make: valid, recordable now, and not evaluated yet.\<close>

definition fresh_proposal :: "rs_state \<Rightarrow> string set \<Rightarrow> recipe_proposal \<Rightarrow> bool" where
  "fresh_proposal s space r \<longleftrightarrow> rq_ok r \<and> rq_factors r \<noteq> None \<and> rq_attempt r = rs_proposals s
     \<and> rq_key r \<in> space - set (rs_seen s)"

lemma mk_proposal_fresh:
  assumes "rs_ok s" and "scope_ok scope" and "scope_ok c" and "k < 4"
    and "rp_digest p \<noteq> rp_digest parent" and "factors_ok f" and "pf_operator f = int k"
    and "0 < probability" and "probability \<le> 1"
    and "scope @ [NUL] @ rp_digest p \<in> space - set (rs_seen s)"
  shows "rq_validate (mk_recipe_proposal s parent scope c k p probability f)
      = Inr (mk_recipe_proposal s parent scope c k p probability f)
    \<and> fresh_proposal s space (mk_recipe_proposal s parent scope c k p probability f)"
proof -
  have "rq_ok (mk_recipe_proposal s parent scope c k p probability f)"
    using assms by (auto simp: rq_ok_def mk_recipe_proposal_def rs_ok_def)
  then show ?thesis
    using assms(10) by (simp add: rq_validate_Inr fresh_proposal_def rq_key_def mk_recipe_proposal_def)
qed

text \<open>The keys of the neighbourhood.\<close>

definition recipe_space :: "recipe_search \<Rightarrow> recipe_program \<Rightarrow> string \<Rightarrow> string list" where
  "recipe_space x parent scope =
     (case exhaustive_candidates x parent of
        Inl e \<Rightarrow> []
      | Inr cs \<Rightarrow> map (\<lambda>(k, p). scope @ [NUL] @ rp_digest p) cs)"

lemma candidate_facts:
  assumes "search_ok x" and "parent_ok x parent" and "exhaustive_candidates x parent = Inr cs"
  shows "(k, p) \<in> set cs \<Longrightarrow> k < 4 \<and> rp_digest p \<noteq> rp_digest parent
      \<and> scope @ [NUL] @ rp_digest p \<in> set (recipe_space x parent scope)
      \<and> (\<exists>f. rx_factors parent k p = Inr f \<and> factors_ok f \<and> pf_operator f = int k \<and> explains parent p f)"
    and "distinct (map (\<lambda>c. rp_digest (snd c)) cs)"
    and "recipe_edit x parent k is \<Longrightarrow> rp_digest (edited parent is) = rp_digest parent
      \<or> scope @ [NUL] @ rp_digest (edited parent is) \<in> set (recipe_space x parent scope)"
proof -
  have spec: "\<And>k p. (k, p) \<in> set cs \<Longrightarrow> recipe_edit x parent k (rp_instructions p)
         \<and> p = edited parent (rp_instructions p) \<and> rp_digest p \<noteq> rp_digest parent"
      "distinct (map (\<lambda>c. rp_digest (snd c)) cs)"
      "\<And>k is. recipe_edit x parent k is \<Longrightarrow>
         rp_digest (edited parent is) \<in> insert (rp_digest parent) (rp_digest ` snd ` set cs)"
    using exhaustive_candidates_spec [OF assms(1,2)] unfolding assms(3) by (auto simp del: insert_iff)
  show "distinct (map (\<lambda>c. rp_digest (snd c)) cs)" by (rule spec(2))
  have space: "set (recipe_space x parent scope) = (\<lambda>d. scope @ [NUL] @ d) ` rp_digest ` snd ` set cs"
    by (force simp: recipe_space_def assms(3) image_iff)
  show "rp_digest (edited parent is) = rp_digest parent
      \<or> scope @ [NUL] @ rp_digest (edited parent is) \<in> set (recipe_space x parent scope)"
    if "recipe_edit x parent k is"
    using spec(3) [OF that] unfolding space by blast
  assume kp: "(k, p) \<in> set cs"
  note e = spec(1) [OF kp]
  have ne: "rp_instructions p \<noteq> rp_instructions parent"
  proof
    assume "rp_instructions p = rp_instructions parent"
    then have "p = parent" using e edited_self [OF assms(2)] by simp
    then show False using e by blast
  qed
  have k: "k < 4" using recipe_edit_parts(4) e assms(1,2) by (auto simp: search_ok_def)
  have "scope @ [NUL] @ rp_digest p \<in> set (recipe_space x parent scope)"
    unfolding space using kp by (metis image_eqI snd_conv)
  then show "k < 4 \<and> rp_digest p \<noteq> rp_digest parent
      \<and> scope @ [NUL] @ rp_digest p \<in> set (recipe_space x parent scope)
      \<and> (\<exists>f. rx_factors parent k p = Inr f \<and> factors_ok f \<and> pf_operator f = int k \<and> explains parent p f)"
    using k e rx_factors_total [of x parent k "rp_instructions p"] ne by metis
qed

lemma first_unseen_none:
  assumes "scope_ok scope" and "\<And>k p. (k, p) \<in> set cs \<Longrightarrow> scope @ [NUL] @ rp_digest p \<in> set seen"
  shows "first_unseen scope seen cs = Inl RuntimeError"
  using assms(2)
proof (induction cs)
  case (Cons e cs)
  obtain k p where e: "e = (k, p)" by (cases e)
  have "scope @ [NUL] @ rp_digest p \<in> set seen" using Cons.prems [of k p] by (simp add: e)
  moreover have "first_unseen scope seen cs = Inl RuntimeError"
    using Cons.prems by (intro Cons.IH) (meson list.set_intros(2))
  ultimately show ?case by (simp add: e recipe_key_total [OF assms(1)])
qed simp

lemma first_unseen_some:
  assumes "scope_ok scope" and "(k, p) \<in> set cs" and "scope @ [NUL] @ rp_digest p \<notin> set seen"
  shows "\<exists>j q. first_unseen scope seen cs = Inr (j, q) \<and> (j, q) \<in> set cs
    \<and> scope @ [NUL] @ rp_digest q \<notin> set seen"
  using assms(2)
proof (induction cs)
  case (Cons e cs)
  obtain j q where e: "e = (j, q)" by (cases e)
  show ?case
  proof (cases "scope @ [NUL] @ rp_digest q \<in> set seen")
    case True
    then have "(k, p) \<in> set cs" using Cons.prems assms(3) by (auto simp: e)
    then show ?thesis using Cons.IH True by (auto simp: e recipe_key_total [OF assms(1)])
  next
    case False
    then show ?thesis by (simp add: e recipe_key_total [OF assms(1)])
  qed
qed simp

lemma available_spec:
  assumes "scope_ok scope" and "\<And>k p. (k, p) \<in> set cs \<Longrightarrow> \<exists>f. rx_factors parent k p = Inr f"
  shows "\<exists>av. available_candidates parent scope seen cs = Inr av
    \<and> map (\<lambda>(k, p, f). (k, p)) av = filter (\<lambda>c. scope @ [NUL] @ rp_digest (snd c) \<notin> set seen) cs
    \<and> (\<forall>k p f. (k, p, f) \<in> set av \<longrightarrow> rx_factors parent k p = Inr f)"
  using assms(2)
proof (induction cs)
  case (Cons e cs)
  obtain k p where e: "e = (k, p)" by (cases e)
  obtain f where f: "rx_factors parent k p = Inr f" using Cons.prems [of k p] by (auto simp: e)
  obtain av where av: "available_candidates parent scope seen cs = Inr av"
      "map (\<lambda>(k, p, f). (k, p)) av = filter (\<lambda>c. scope @ [NUL] @ rp_digest (snd c) \<notin> set seen) cs"
      "\<forall>k p f. (k, p, f) \<in> set av \<longrightarrow> rx_factors parent k p = Inr f"
    using Cons.IH Cons.prems by auto
  show ?case
  proof (cases "scope @ [NUL] @ rp_digest p \<in> set seen")
    case True
    then show ?thesis using av by (simp add: e recipe_key_total [OF assms(1)])
  next
    case False
    then have "available_candidates parent scope seen (e # cs) = Inr ((k, p, f) # av)"
      using av(1) f by (simp add: e recipe_key_total [OF assms(1)])
    then show ?thesis using av(2,3) f False by (auto simp: e)
  qed
qed simp

section \<open>Properties\<close>

text \<open>
  The neighbourhood is exact.  For a parent that fits the search, \<open>exhaustive_candidates\<close>
  succeeds; each candidate is a valid recipe program within the length bounds, obtained by one
  replaced, inserted, deleted or swapped instruction, different from the parent, and no two have the
  same digest.  Every such edit with an instruction of the basis has the digest of the parent or of a
  listed candidate.
\<close>

lemma recipe_neighborhood_exact:
  assumes "search_ok x" and "parent_ok x parent"
  shows "\<exists>cs. exhaustive_candidates x parent = Inr cs
    \<and> (\<forall>k p. (k, p) \<in> set cs \<longrightarrow> recipe_edit x parent k (rp_instructions p) \<and> parent_ok x p
         \<and> rp_digest p \<noteq> rp_digest parent)
    \<and> distinct (map (\<lambda>c. rp_digest (snd c)) cs)
    \<and> (\<forall>k is. recipe_edit x parent k is \<longrightarrow>
         rp_digest (edited parent is) \<in> insert (rp_digest parent) (rp_digest ` snd ` set cs))"
proof -
  have "parent_ok x (edited parent is)" if "recipe_edit x parent k is" for k "is"
    using recipe_edit_valid [OF that assms(2,1)] assms(2) by (simp add: parent_ok_def)
  then show ?thesis using exhaustive_candidates_spec [OF assms] by metis
qed

text \<open>
  The factors explain the candidate.  For every one-instruction edit that changes the parent,
  \<open>_proposal_factors\<close> succeeds and returns valid factors of the edit's operator that determine the
  candidate: its position(s) in the parent, with the digests of the instructions involved.
\<close>

lemma recipe_factors_explain:
  assumes "recipe_edit x parent k is" and "is \<noteq> rp_instructions parent"
  shows "\<exists>f. rx_factors parent k (edited parent is) = Inr f \<and> factors_ok f \<and> pf_operator f = int k
    \<and> explains parent (edited parent is) f"
  by (rule rx_factors_total [OF assms])

section \<open>Instances\<close>

definition twin_search :: recipe_search where
  "twin_search = \<lparr>rx_basis = \<lparr>rb_slot_count = 2, rb_slot_values = [2, 3], rb_values = 3,
       rb_allow_parallel = True\<rparr>, rx_min = 1, rx_max = 3, rx_exploration = 1 / 2,
     rx_temperature = 1 / 2, rx_policy = Some (Factorized fresh_factors)\<rparr>"

lemma twin_search_ok: "search_ok twin_search" "parent_ok twin_search twin_inc"
  using fresh_factors_ok twin_inc_ok(1)
  by (simp_all add: search_ok_def twin_search_def basis_ok_def parent_ok_def twin_inc_def rp_length_def)

end
