(* ===== verification/ControlFlowFrontier.thy ===== *)
theory ControlFlowFrontier
  imports ControlFlowSearch ControlFlowLocalEdit RecipeSearch
begin

text \<open>
  \<open>control_flow_frontier.py\<close>, lines 1 to 1222: the structural frontier over control-flow programs.  A
  frontier keeps a beam of provisional programs (hypotheses), edits one of them by one replaced, inserted,
  deleted or swapped instruction, and learns from scalar outcomes: the statistics per edit operator, and the
  credit of edit factors in a proposal memory where one is attached.

  The proposal memory has the fields and the arithmetic of the factorized memory of \<open>RecipeProposal\<close>; its
  factors have other bounds, since positions are relative to the end of the parent.  The generator of torch
  is explicit state.  A score masked with minus infinity gets the softmax weight zero.  The digest is taken
  on a traversal of the payload, with Python's \<open>repr\<close> of the leaves; how a float is written and what the
  memory of a tensor holds are parameters of the digest of a state.
\<close>

section \<open>Digests\<close>

text \<open>What \<open>_digest_payload\<close> is called on: a JSON-like value, a float, a tensor, or a structure of these.\<close>

datatype digest_item = ValueItem pyval | FloatItem pyfloat | TensorItem "pyfloat list"
  | DictItem "(string \<times> digest_item) list" | ListItem "digest_item list"

definition digest_bytes :: "byte list \<Rightarrow> string" where
  "digest_bytes bs = concat (map hex_of_u32 (sha256_words bs))"

fun visit_value :: "pyval \<Rightarrow> string" where
  "visit_value (PDict kvs) = concat (map snd (sort_key fst (map (\<lambda>kv. (fst kv, fst kv @ visit_value (snd kv))) kvs)))"
| "visit_value (PList xs) = concat (map visit_value xs)"
| "visit_value v = py_repr v"

fun visit_item :: "(pyfloat \<Rightarrow> string) \<Rightarrow> (pyfloat list \<Rightarrow> byte list) \<Rightarrow> digest_item \<Rightarrow> byte list" where
  "visit_item float_repr tensor_bytes (ValueItem v) = utf8 (visit_value v)"
| "visit_item float_repr tensor_bytes (FloatItem x) = utf8 (float_repr x)"
| "visit_item float_repr tensor_bytes (TensorItem xs) =
     utf8 ''torch.float64'' @ utf8 (''('' @ int_text (int (length xs)) @ '',)'') @ tensor_bytes xs"
| "visit_item float_repr tensor_bytes (DictItem kvs) =
     concat (map snd (sort_key fst (map (\<lambda>kv. (fst kv, utf8 (fst kv) @ visit_item float_repr tensor_bytes (snd kv))) kvs)))"
| "visit_item float_repr tensor_bytes (ListItem xs) = concat (map (visit_item float_repr tensor_bytes) xs)"

definition cf_instruction_digest :: "cf_instruction \<Rightarrow> string" where
  "cf_instruction_digest i = digest_bytes (utf8 (visit_value (cfi_payload i)))"

text \<open>\<open>_digest_is_valid\<close>.\<close>

definition digest_is_valid :: "string \<Rightarrow> bool" where
  "digest_is_valid value \<longleftrightarrow> validate_digest value = Inr ()"

section \<open>Hypotheses and states\<close>

definition CONTROL_FLOW_FRONTIER_SCHEMA :: string where
  "CONTROL_FLOW_FRONTIER_SCHEMA = ''neural-computer.external-control-flow-frontier.v1''"

definition CONTROL_FLOW_FRONTIER_HYPOTHESIS_SCHEMA :: string where
  "CONTROL_FLOW_FRONTIER_HYPOTHESIS_SCHEMA = ''neural-computer.external-control-flow-hypothesis.v1''"

definition CONTROL_FLOW_FRONTIER_PROPOSAL_SCHEMA :: string where
  "CONTROL_FLOW_FRONTIER_PROPOSAL_SCHEMA = ''neural-computer.external-control-flow-frontier-proposal.v1''"

definition CONTROL_FLOW_FRONTIER_PROPOSAL_FACTORS_SCHEMA :: string where
  "CONTROL_FLOW_FRONTIER_PROPOSAL_FACTORS_SCHEMA =
     ''neural-computer.external-control-flow-frontier-proposal-factors.v1''"

definition CONTROL_FLOW_FRONTIER_MUTATION_OPERATORS :: "string list" where
  "CONTROL_FLOW_FRONTIER_MUTATION_OPERATORS =
     [''replace_instruction'', ''insert_instruction'', ''delete_instruction'', ''swap_instructions'']"

record frontier_hypothesis =
  fh_program :: cf_program
  fh_parent :: "string option"
  fh_depth :: int
  fh_quality :: pyfloat
  fh_schema :: string

definition fh_validate :: "frontier_hypothesis \<Rightarrow> frontier_hypothesis result" where
  "fh_validate h =
     (if fh_schema h \<noteq> CONTROL_FLOW_FRONTIER_HYPOTHESIS_SCHEMA then Inl ValueError
      else bind_r (cp_validate (fh_program h)) (\<lambda>_.
        if (case fh_parent h of None \<Rightarrow> False | Some d \<Rightarrow> \<not> digest_is_valid d) then Inl ValueError
        else bind_r (cp_digest (fh_program h)) (\<lambda>digest.
          if fh_parent h = Some digest then Inl ValueError
          else if fh_depth h < 0 then Inl ValueError
          else if \<not> isfinite (fh_quality h) \<or> \<not> (Fin 0 \<le> fh_quality h \<and> fh_quality h \<le> Fin 1) then Inl ValueError
          else Inr h)))"

definition mk_hypothesis :: "cf_program \<Rightarrow> string option \<Rightarrow> int \<Rightarrow> pyfloat \<Rightarrow> frontier_hypothesis result" where
  "mk_hypothesis p parent depth quality =
     fh_validate \<lparr>fh_program = p, fh_parent = parent, fh_depth = depth, fh_quality = quality,
       fh_schema = CONTROL_FLOW_FRONTIER_HYPOTHESIS_SCHEMA\<rparr>"

record frontier_state =
  ft_hypotheses :: "frontier_hypothesis list"
  ft_totals :: "pyfloat list"
  ft_counts :: "pyfloat list"
  ft_accepts :: "pyfloat list"
  ft_fails :: "pyfloat list"
  ft_seen :: "string list"
  ft_root :: string
  ft_evaluations :: int
  ft_accepted :: int
  ft_best_quality :: pyfloat
  ft_schema :: string

definition ft_validate :: "frontier_state \<Rightarrow> frontier_state result" where
  "ft_validate s =
     (if ft_schema s \<noteq> CONTROL_FLOW_FRONTIER_SCHEMA then Inl ValueError
      else bind_r (all_r (stat_validate (length CONTROL_FLOW_FRONTIER_MUTATION_OPERATORS))
          [ft_totals s, ft_counts s, ft_accepts s, ft_fails s]) (\<lambda>_.
        if ft_hypotheses s = [] then Inl ValueError
        else if card (set (map (\<lambda>h. cp_counter_count (fh_program h)) (ft_hypotheses s))) \<noteq> 1 then Inl ValueError
        else bind_r (map_r (\<lambda>h. cp_digest (fh_program h)) (ft_hypotheses s)) (\<lambda>digests.
          if card (set digests) \<noteq> length digests then Inl ValueError
          else if \<not> digest_is_valid (ft_root s) \<or> ft_root s \<notin> set digests then Inl ValueError
          else if ft_evaluations s < 0 \<or> ft_accepted s < 0 \<or> ft_accepted s > ft_evaluations s then Inl ValueError
          else if stat_sum (ft_counts s) \<noteq> ft_evaluations s then Inl ValueError
          else if stat_sum (ft_accepts s) \<noteq> ft_accepted s then Inl ValueError
          else if stat_sum (ft_fails s) \<noteq> ft_evaluations s - ft_accepted s then Inl ValueError
          else if int (length (ft_seen s)) \<noteq> ft_evaluations s then Inl ValueError
          else if card (set (ft_seen s)) \<noteq> length (ft_seen s) then Inl ValueError
          else if \<not> isfinite (ft_best_quality s) \<or> \<not> (Fin 0 \<le> ft_best_quality s \<and> ft_best_quality s \<le> Fin 1)
          then Inl ValueError
          else Inr s)))"

section \<open>Factors of an edit and the credit of factors\<close>

definition ff_validate :: "proposal_factors \<Rightarrow> proposal_factors result" where
  "ff_validate f =
     (if pf_schema f \<noteq> CONTROL_FLOW_FRONTIER_PROPOSAL_FACTORS_SCHEMA then Inl ValueError
      else if \<not> in_range (pf_operator f) (length CONTROL_FLOW_FRONTIER_MUTATION_OPERATORS) then Inl ValueError
      else bind_r
        (if pf_operator f = 3
         then (case pf_secondary f of
                 None \<Rightarrow> Inl ValueError
               | Some j \<Rightarrow> if pf_primary f < j then Inr 2 else Inl ValueError)
         else if pf_secondary f \<noteq> None then Inl ValueError else Inr 1) (\<lambda>expected_instructions.
      if length (pf_digests f) \<noteq> expected_instructions then Inl ValueError
      else if \<exists>d\<in>set (pf_digests f). \<not> digest_is_valid d then Inl ValueError
      else Inr f))"

definition ff_payload :: "proposal_factors \<Rightarrow> pyval result" where
  "ff_payload f =
     bind_r (ff_validate f) (\<lambda>_. Inr (PDict
       [(''schema'', PStr (pf_schema f)), (''operator_index'', PInt (pf_operator f)),
        (''primary_position'', PInt (pf_primary f)), (''secondary_position'', opt_int_value (pf_secondary f)),
        (''instruction_digests'', PList (map PStr (pf_digests f)))]))"

fun ff_from_payload :: "pyval \<Rightarrow> proposal_factors result" where
  "ff_from_payload (PDict kvs) =
     (case dict_get_default kvs ''instruction_digests'' (PList []) of
        PList instructions \<Rightarrow>
          bind_r (py_int (dict_get_default kvs ''operator_index'' (PInt (- 1)))) (\<lambda>operator_index.
          bind_r (py_int (dict_get_default kvs ''primary_position'' (PInt (- 1)))) (\<lambda>primary.
          bind_r (case dict_get kvs ''secondary_position'' of
                    PNone \<Rightarrow> Inr None
                  | v \<Rightarrow> bind_r (py_int v) (\<lambda>j. Inr (Some j))) (\<lambda>secondary.
            ff_validate \<lparr>pf_operator = operator_index, pf_primary = primary, pf_secondary = secondary,
              pf_digests = map py_str instructions,
              pf_schema = py_str (dict_get_default kvs ''schema'' (PStr []))\<rparr>)))
      | _ \<Rightarrow> Inl TypeError)"
| "ff_from_payload _ = Inl TypeError"

definition ff_entries :: "proposal_factors \<Rightarrow> (factor_type \<times> string) list result" where
  "ff_entries f = bind_r (ff_validate f) (\<lambda>_. Inr (entry_list f))"

text \<open>The constructor is that of the factorized memory (\<open>fm_init\<close>), parameter by parameter.\<close>

definition pm_init :: "pyfloat \<Rightarrow> pyfloat \<Rightarrow> pyfloat \<Rightarrow> pyfloat \<Rightarrow> pyfloat \<Rightarrow> pyfloat \<Rightarrow> pyfloat \<Rightarrow> factor_memory result" where
  "pm_init exploration_floor shared_prior_weight exploration_bonus instruction_weight position_weight operator_weight
     temperature =
     (if \<exists>x\<in>set [exploration_floor, shared_prior_weight, exploration_bonus, instruction_weight, position_weight,
            operator_weight, temperature]. bad_weight x then Inl ValueError
      else if Fin 1 \<le> exploration_floor then Inl ValueError
      else if fin_val instruction_weight + fin_val position_weight + fin_val operator_weight \<le> 0 then Inl ValueError
      else if temperature \<le> Fin 0 then Inl ValueError
      else Inr \<lparr>fm_floor = fin_val exploration_floor, fm_prior_weight = fin_val shared_prior_weight,
                fm_bonus = fin_val exploration_bonus, fm_instruction_weight = fin_val instruction_weight,
                fm_position_weight = fin_val position_weight, fm_operator_weight = fin_val operator_weight,
                fm_temperature = fin_val temperature, fm_context_stats = [], fm_shared_stats = empty_stats\<rparr>)"

text \<open>\<open>record\<close> creates the tables of the context before it looks at the factors.\<close>

definition pm_record :: "factor_memory \<Rightarrow> string \<Rightarrow> pyfloat \<Rightarrow> proposal_factors \<Rightarrow> factor_memory \<times> exn option" where
  "pm_record m c quality factors =
     (case validate_context c of
        Inl e \<Rightarrow> (m, Some e)
      | Inr _ \<Rightarrow>
        if invalid_quality quality then (m, Some ValueError)
        else let local = get_or (fm_context_stats m) c empty_stats
             in (case ff_entries factors of
                   Inl e \<Rightarrow> (m\<lparr>fm_context_stats := AList.update c local (fm_context_stats m)\<rparr>, Some e)
                 | Inr entries \<Rightarrow>
                     (m\<lparr>fm_context_stats := AList.update c (credit_entries local quality entries) (fm_context_stats m),
                        fm_shared_stats := credit_entries (fm_shared_stats m) quality entries\<rparr>, None)))"

definition pm_score :: "math_lib \<Rightarrow> factor_memory \<Rightarrow> factor_tables \<Rightarrow> proposal_factors \<Rightarrow> rat result" where
  "pm_score math m local item =
     bind_r (ff_entries item) (\<lambda>entries.
     bind_r (entry_scores math m local FInstruction entries) (\<lambda>instruction_scores.
     bind_r (entry_scores math m local FPosition entries) (\<lambda>position_scores.
     bind_r (fm_factor_score math m local FOperator (int_text (pf_operator item)) (shared_weight_of m local FOperator)) (\<lambda>operator_score.
       let instruction = sum_list instruction_scores / of_nat (max 1 (length instruction_scores));
           position = sum_list position_scores / of_nat (max 1 (length position_scores))
       in Inr (fm_instruction_weight m * instruction + fm_position_weight m * position
               + fm_operator_weight m * operator_score)))))"

definition pm_probabilities :: "math_lib \<Rightarrow> torch_lib \<Rightarrow> factor_memory \<Rightarrow> string \<Rightarrow> proposal_factors list \<Rightarrow> rat list result" where
  "pm_probabilities math torch m c factors =
     bind_r (validate_context c) (\<lambda>_.
       if factors = [] then Inl ValueError
       else bind_r (map_r ff_validate factors) (\<lambda>_.
         let local = get_or (fm_context_stats m) c empty_stats
         in bind_r (map_r (pm_score math m local) factors) (\<lambda>scores.
              Inr (floored_softmax torch (fm_floor m) (fm_temperature m) scores))))"

definition pm_select :: "math_lib \<Rightarrow> torch_lib \<Rightarrow> 'g rng \<Rightarrow> factor_memory \<Rightarrow> string \<Rightarrow> string list \<Rightarrow> proposal_factors list \<Rightarrow> 'g
    \<Rightarrow> (nat \<times> rat \<times> 'g) result" where
  "pm_select math torch rng m c digests factors g =
     (if length digests \<noteq> length factors then Inl ValueError
      else if \<exists>d\<in>set digests. \<not> digest_is_valid d then Inl ValueError
      else bind_r (pm_probabilities math torch m c factors) (\<lambda>probabilities.
             let (index, g') = rng_multinomial rng g probabilities in Inr (index, probabilities ! index, g')))"

section \<open>Proposals and the frontier\<close>

record frontier_proposal =
  gp_program :: cf_program
  gp_parent :: string
  gp_operator :: string
  gp_index :: int
  gp_attempt :: int
  gp_probability :: pyfloat
  gp_context :: string
  gp_factors :: "proposal_factors option"
  gp_schema :: string

definition gp_validate :: "frontier_proposal \<Rightarrow> frontier_proposal result" where
  "gp_validate r =
     bind_r (cp_validate (gp_program r)) (\<lambda>_.
       if gp_schema r \<noteq> CONTROL_FLOW_FRONTIER_PROPOSAL_SCHEMA then Inl ValueError
       else if \<not> digest_is_valid (gp_parent r) then Inl ValueError
       else bind_r (cp_digest (gp_program r)) (\<lambda>digest.
         if digest = gp_parent r then Inl ValueError
         else if gp_operator r \<notin> set CONTROL_FLOW_FRONTIER_MUTATION_OPERATORS then Inl ValueError
         else if \<not> in_range (gp_index r) (length CONTROL_FLOW_FRONTIER_MUTATION_OPERATORS) then Inl ValueError
         else if CONTROL_FLOW_FRONTIER_MUTATION_OPERATORS ! nat (gp_index r) \<noteq> gp_operator r then Inl ValueError
         else if gp_attempt r < 0 \<or> \<not> (Fin 0 < gp_probability r \<and> gp_probability r \<le> Fin 1) then Inl ValueError
         else if gp_context r = [] \<or> NUL \<in> set (gp_context r) then Inl ValueError
         else (case gp_factors r of
                 None \<Rightarrow> Inr r
               | Some f \<Rightarrow> bind_r (ff_validate f) (\<lambda>_. if pf_operator f \<noteq> gp_index r then Inl ValueError else Inr r))))"

record frontier_feedback =
  gb_proposal :: frontier_proposal
  gb_quality :: pyfloat
  gb_accepted :: bool
  gb_stable :: "int option"
  gb_state :: frontier_state

record frontier =
  fr_counter_count :: int
  fr_beam :: int
  fr_max_depth :: int
  fr_min :: int
  fr_max :: int
  fr_minimum_quality :: rat
  fr_temperature :: rat
  fr_exploration :: rat
  fr_retries :: int
  fr_policy :: "factor_memory option"

definition fr_init :: "int \<Rightarrow> int \<Rightarrow> int \<Rightarrow> int \<Rightarrow> int \<Rightarrow> pyfloat \<Rightarrow> pyfloat \<Rightarrow> pyfloat \<Rightarrow> int \<Rightarrow> factor_memory option \<Rightarrow> frontier result" where
  "fr_init counter_count beam_width max_depth min_length max_length minimum_quality parent_temperature exploration retries policy =
     (if counter_count < 2 then Inl ValueError
      else if beam_width < 2 \<or> max_depth < 1 then Inl ValueError
      else if min_length < 1 \<or> max_length < min_length then Inl ValueError
      else if \<not> (Fin 0 \<le> minimum_quality \<and> minimum_quality \<le> Fin 1) then Inl ValueError
      else if \<not> isfinite parent_temperature \<or> parent_temperature \<le> Fin 0 then Inl ValueError
      else if \<not> isfinite exploration \<or> exploration < Fin 0 then Inl ValueError
      else if retries < 1 then Inl ValueError
      else Inr \<lparr>fr_counter_count = counter_count, fr_beam = beam_width, fr_max_depth = max_depth, fr_min = min_length,
             fr_max = max_length, fr_minimum_quality = fin_val minimum_quality, fr_temperature = fin_val parent_temperature,
             fr_exploration = fin_val exploration, fr_retries = retries, fr_policy = policy\<rparr>)"

definition fr_initial_state :: "frontier \<Rightarrow> cf_program \<Rightarrow> pyfloat \<Rightarrow> frontier_state result" where
  "fr_initial_state x first root_quality =
     bind_r (cp_validate first) (\<lambda>_.
       if cp_counter_count first \<noteq> fr_counter_count x then Inl ValueError
       else if \<not> (fr_min x \<le> cp_length first \<and> cp_length first \<le> fr_max x) then Inl ValueError
       else if \<not> (Fin 0 \<le> root_quality \<and> root_quality \<le> Fin 1) then Inl ValueError
       else bind_r (mk_hypothesis first None 0 root_quality) (\<lambda>hypothesis.
            bind_r (cp_digest first) (\<lambda>digest.
            let zeros = replicate (length CONTROL_FLOW_FRONTIER_MUTATION_OPERATORS) (Fin 0)
            in ft_validate \<lparr>ft_hypotheses = [hypothesis], ft_totals = zeros, ft_counts = zeros, ft_accepts = zeros,
                 ft_fails = zeros, ft_seen = [], ft_root = digest, ft_evaluations = 0, ft_accepted = 0,
                 ft_best_quality = root_quality, ft_schema = CONTROL_FLOW_FRONTIER_SCHEMA\<rparr>)))"

text \<open>The hypotheses \<open>_eligible\<close> names by their index.\<close>

definition fr_eligible :: "frontier \<Rightarrow> frontier_state \<Rightarrow> frontier_hypothesis list" where
  "fr_eligible x s =
     filter (\<lambda>h. fh_depth h < fr_max_depth x \<and> cp_instructions (fh_program h) \<noteq> []
         \<and> (cp_length (fh_program h) < fr_max x \<or> cp_length (fh_program h) > fr_min x)) (ft_hypotheses s)"

definition fr_parent :: "torch_lib \<Rightarrow> 'g rng \<Rightarrow> frontier \<Rightarrow> frontier_state \<Rightarrow> 'g \<Rightarrow> (frontier_hypothesis \<times> 'g) result" where
  "fr_parent torch rng x s g =
     (let eligible = fr_eligible x s
      in if eligible = [] then Inl RuntimeError
         else let probabilities = tl_softmax torch (map (\<lambda>h. fin_val (fh_quality h) / fr_temperature x) eligible);
                  (index, g') = rng_multinomial rng g probabilities
              in Inr (eligible ! index, g'))"

section \<open>The one-edit neighbourhood\<close>

text \<open>
  The attempted edits with their operator, each a program or the exception of its construction; \<open>keep_edits\<close> is
  \<open>add\<close> inside the \<open>try\<close> blocks: a \<open>ValueError\<close> drops the edit.
\<close>

fun keep_edits :: "string \<Rightarrow> string list \<Rightarrow> (nat \<times> cf_program result) list \<Rightarrow> (nat \<times> cf_program) list result" where
  "keep_edits parent_digest seen [] = Inr []"
| "keep_edits parent_digest seen ((k, edit) # edits) =
     (case edit of
        Inl e \<Rightarrow> if e = ValueError then keep_edits parent_digest seen edits else Inl e
      | Inr p \<Rightarrow>
          bind_r (cp_digest p) (\<lambda>digest.
            if digest = parent_digest \<or> digest \<in> set seen then keep_edits parent_digest seen edits
            else bind_r (keep_edits parent_digest (seen @ [digest]) edits) (\<lambda>ps. Inr ((k, p) # ps))))"

definition frontier_edits :: "frontier \<Rightarrow> cf_program \<Rightarrow> cf_instruction list \<Rightarrow> cf_instruction list \<Rightarrow> (nat \<times> cf_program result) list" where
  "frontier_edits x parent atoms longer_atoms =
     (let is = cp_instructions parent; non_halt = length is - 1;
          program = (\<lambda>js. cp_validate (mk_program (fr_counter_count x) js))
      in map (\<lambda>js. (0, program js)) (replacements atoms is)
       @ (if cp_length parent < fr_max x
          then concat (map (\<lambda>position. map (\<lambda>atom. (1, insert_control_flow_instruction parent (int position) atom)) longer_atoms)
                 [0..<non_halt + 1])
          else [])
       @ (if cp_length parent > fr_min x
          then map (\<lambda>position. (2, delete_control_flow_instruction parent (int position))) [0..<non_halt] else [])
       @ (if non_halt > 1 then map (\<lambda>js. (3, program js)) (swaps is) else []))"

definition fr_candidates :: "frontier \<Rightarrow> cf_program \<Rightarrow> (nat \<times> cf_program) list result" where
  "fr_candidates x parent =
     bind_r (cp_validate parent) (\<lambda>_.
     bind_r (cp_digest parent) (\<lambda>parent_digest.
     bind_r (control_flow_instruction_bank (fr_counter_count x) (cp_length parent)) (\<lambda>atoms.
     bind_r (if cp_length parent < fr_max x
             then control_flow_instruction_bank (fr_counter_count x) (cp_length parent + 1) else Inr []) (\<lambda>longer_atoms.
       keep_edits parent_digest [] (frontier_edits x parent atoms longer_atoms)))))"

text \<open>The first position whose reduction has the expected digest; a \<open>ValueError\<close> goes to the next one.\<close>

fun first_reduction :: "(int \<Rightarrow> cf_program result) \<Rightarrow> string \<Rightarrow> int list \<Rightarrow> int result" where
  "first_reduction reduce expected [] = Inl ValueError"
| "first_reduction reduce expected (position # positions) =
     (case reduce position of
        Inl e \<Rightarrow> if e = ValueError then first_reduction reduce expected positions else Inl e
      | Inr q \<Rightarrow> bind_r (cp_digest q) (\<lambda>digest.
          if digest = expected then Inr position else first_reduction reduce expected positions))"

definition relative_position :: "int \<Rightarrow> int \<Rightarrow> int" where
  "relative_position position program_length = position - (program_length - 1)"

definition mk_frontier_factors :: "nat \<Rightarrow> int \<Rightarrow> int option \<Rightarrow> cf_instruction list \<Rightarrow> proposal_factors result" where
  "mk_frontier_factors k primary secondary instructions =
     ff_validate \<lparr>pf_operator = int k, pf_primary = primary, pf_secondary = secondary,
       pf_digests = map cf_instruction_digest instructions, pf_schema = CONTROL_FLOW_FRONTIER_PROPOSAL_FACTORS_SCHEMA\<rparr>"

definition ordered_pairs :: "nat \<Rightarrow> (nat \<times> nat) list" where
  "ordered_pairs n = concat (map (\<lambda>first. map (Pair first) [first + 1..<n]) [0..<n])"

definition fr_factors :: "cf_program \<Rightarrow> nat \<Rightarrow> cf_program \<Rightarrow> proposal_factors result" where
  "fr_factors parent k program =
     bind_r (cp_validate parent) (\<lambda>_.
     bind_r (cp_validate program) (\<lambda>_.
       if cp_counter_count parent \<noteq> cp_counter_count program then Inl ValueError
       else
         let is = cp_instructions parent; js = cp_instructions program; boundary = length is - 1;
             relative = (\<lambda>position. relative_position position (cp_length parent))
         in if k = 0 then
              (if length is \<noteq> length js then Inl ValueError
               else case filter (\<lambda>i. is ! i \<noteq> js ! i) [0..<length is] of
                      [position] \<Rightarrow>
                        if position \<ge> boundary then Inl ValueError
                        else mk_frontier_factors k (relative (int position)) None [js ! position]
                    | _ \<Rightarrow> Inl ValueError)
            else if k = 1 then
              (if length js \<noteq> length is + 1 then Inl ValueError
               else bind_r (cp_digest parent) (\<lambda>parent_digest.
                    bind_r (first_reduction (delete_control_flow_instruction program) parent_digest (map int [0..<boundary + 1]))
                      (\<lambda>position. mk_frontier_factors k (relative position) None [js ! nat position])))
            else if k = 2 then
              (if length js \<noteq> length is - 1 then Inl ValueError
               else bind_r (cp_digest program) (\<lambda>digest.
                    bind_r (first_reduction (delete_control_flow_instruction parent) digest (map int [0..<boundary]))
                      (\<lambda>position. mk_frontier_factors k (relative position) None [is ! nat position])))
            else if k = 3 then
              (if length is \<noteq> length js then Inl ValueError
               else case filter (\<lambda>(first, second). is[first := is ! second, second := is ! first] = js) (ordered_pairs boundary) of
                      [] \<Rightarrow> Inl ValueError
                    | (first, second) # _ \<Rightarrow>
                        mk_frontier_factors k (relative (int first)) (Some (relative (int second))) [is ! first, is ! second])
            else Inl ValueError))"

section \<open>Proposing\<close>

definition fr_available :: "frontier \<Rightarrow> cf_program \<Rightarrow> bool list" where
  "fr_available x p =
     [True, cp_length p < fr_max x, cp_length p - 1 > fr_min x, cp_length p - 1 > 1]"

definition fr_operator_probabilities :: "torch_lib \<Rightarrow> frontier \<Rightarrow> frontier_state \<Rightarrow> cf_program \<Rightarrow> rat list" where
  "fr_operator_probabilities torch x s parent =
     (let available = fr_available x parent;
          scores = map2 (\<lambda>t c.
            let mean = (if fin_val c > 0 then fin_val t / max (fin_val c) 1 else 0)
            in mean + fr_exploration x * tl_sqrt torch (tl_log torch (of_int (ft_evaluations s + 1)) / (fin_val c + 1)))
            (ft_totals s) (ft_counts s)
      in scatter available (tl_softmax torch (map snd (filter fst (zip available scores)))))"

definition fr_mutate :: "'g rng \<Rightarrow> frontier \<Rightarrow> cf_program \<Rightarrow> nat \<Rightarrow> 'g \<Rightarrow> cf_program result \<times> 'g" where
  "fr_mutate rng x parent k g =
     (let is = cp_instructions parent; non_halt = length is - 1;
          draw = (\<lambda>n g f. case draw_below rng g n of Inl e \<Rightarrow> (Inl e, g) | Inr (i, g') \<Rightarrow> f i g');
          bank = (\<lambda>l f g. case control_flow_instruction_bank (fr_counter_count x) l of Inl e \<Rightarrow> (Inl e, g) | Inr atoms \<Rightarrow> f atoms);
          program = (\<lambda>js. cp_validate (mk_program (fr_counter_count x) js))
      in if k = 0 then
           draw non_halt g (\<lambda>position g1. bank (cp_length parent) (\<lambda>atoms.
             draw (length atoms) g1 (\<lambda>i g2. (program (is[position := atoms ! i]), g2))) g1)
         else if k = 1 then
           draw (non_halt + 1) g (\<lambda>position g1. bank (cp_length parent + 1) (\<lambda>atoms.
             draw (length atoms) g1 (\<lambda>i g2. (insert_control_flow_instruction parent (int position) (atoms ! i), g2))) g1)
         else if k = 2 then
           draw non_halt g (\<lambda>position g1. (delete_control_flow_instruction parent (int position), g1))
         else if k = 3 then
           draw non_halt g (\<lambda>first g1. draw (non_halt - 1) g1 (\<lambda>drawn g2.
             let second = (if drawn \<ge> first then drawn + 1 else drawn)
             in (program (is[first := is ! second, second := is ! first]), g2)))
         else (Inl ValueError, g))"

definition mk_frontier_proposal :: "frontier_state \<Rightarrow> cf_program \<Rightarrow> string \<Rightarrow> nat \<Rightarrow> rat \<Rightarrow> string \<Rightarrow> proposal_factors
    \<Rightarrow> frontier_proposal result" where
  "mk_frontier_proposal s program parent_digest k probability c f =
     gp_validate \<lparr>gp_program = program, gp_parent = parent_digest,
       gp_operator = CONTROL_FLOW_FRONTIER_MUTATION_OPERATORS ! k, gp_index = int k, gp_attempt = ft_evaluations s,
       gp_probability = Fin probability, gp_context = c, gp_factors = Some f,
       gp_schema = CONTROL_FLOW_FRONTIER_PROPOSAL_SCHEMA\<rparr>"

text \<open>The candidates not evaluated yet, with their factors.\<close>

fun fr_unseen :: "cf_program \<Rightarrow> string list \<Rightarrow> (nat \<times> cf_program) list \<Rightarrow> (nat \<times> cf_program \<times> proposal_factors) list result" where
  "fr_unseen parent seen [] = Inr []"
| "fr_unseen parent seen ((k, p) # candidates) =
     bind_r (cp_digest p) (\<lambda>digest.
       if digest \<in> set seen then fr_unseen parent seen candidates
       else bind_r (fr_factors parent k p) (\<lambda>f.
            bind_r (fr_unseen parent seen candidates) (\<lambda>rest. Inr ((k, p, f) # rest))))"

definition policy_proposal :: "math_lib \<Rightarrow> torch_lib \<Rightarrow> 'g rng \<Rightarrow> frontier \<Rightarrow> factor_memory \<Rightarrow> frontier_state \<Rightarrow> string \<Rightarrow> 'g
    \<Rightarrow> (frontier_proposal \<times> 'g) result" where
  "policy_proposal math torch rng x P s c g =
     bind_r (fr_parent torch rng x s g) (\<lambda>(parent, g1).
     bind_r (fr_candidates x (fh_program parent)) (\<lambda>candidates.
     bind_r (fr_unseen (fh_program parent) (ft_seen s) candidates) (\<lambda>available.
       if available = [] then Inl RuntimeError
       else
         bind_r (map_r (\<lambda>(k, p, f). cp_digest p) available) (\<lambda>digests.
         bind_r (pm_select math torch rng P c digests (map (\<lambda>(k, p, f). f) available) g1) (\<lambda>(selected, probability, g2).
         bind_r (cp_digest (fh_program parent)) (\<lambda>parent_digest.
           case available ! selected of (k, p, f) \<Rightarrow>
             bind_r (mk_frontier_proposal s p parent_digest k probability c f) (\<lambda>r. Inr (r, g2))))))))"

text \<open>The inner loop over one parent: \<open>excluded\<close> marks operators that failed; \<open>None\<close> goes to the next parent.\<close>

fun mutation_attempts :: "nat \<Rightarrow> torch_lib \<Rightarrow> 'g rng \<Rightarrow> frontier \<Rightarrow> frontier_state \<Rightarrow> cf_program \<Rightarrow> string \<Rightarrow> nat set \<Rightarrow> 'g
    \<Rightarrow> (frontier_proposal option \<times> 'g) result" where
  "mutation_attempts 0 torch rng x s parent c excluded g = Inr (None, g)"
| "mutation_attempts (Suc fuel) torch rng x s parent c excluded g =
     (let weights = map (\<lambda>(i, p). if i \<in> excluded then 0 else p)
            (zip [0..<4] (fr_operator_probabilities torch x s parent))
      in if sum_list weights \<le> 0 then Inr (None, g)
         else
           let probabilities = map (\<lambda>p. p / sum_list weights) weights;
               (k, g1) = rng_multinomial rng g probabilities
           in (case fr_mutate rng x parent k g1 of
                 (Inl e, g2) \<Rightarrow>
                   if e = ValueError then mutation_attempts fuel torch rng x s parent c (insert k excluded) g2 else Inl e
               | (Inr candidate, g2) \<Rightarrow>
                   bind_r (cp_digest candidate) (\<lambda>digest.
                   bind_r (cp_digest parent) (\<lambda>parent_digest.
                     if digest = parent_digest then mutation_attempts fuel torch rng x s parent c excluded g2
                     else if digest \<in> set (ft_seen s)
                     then mutation_attempts fuel torch rng x s parent c (insert k excluded) g2
                     else bind_r (fr_factors parent k candidate) (\<lambda>f.
                          bind_r (mk_frontier_proposal s candidate parent_digest k (probabilities ! k) c f) (\<lambda>r.
                            Inr (Some r, g2)))))))"

fun parent_attempts :: "nat \<Rightarrow> torch_lib \<Rightarrow> 'g rng \<Rightarrow> frontier \<Rightarrow> frontier_state \<Rightarrow> string \<Rightarrow> 'g
    \<Rightarrow> (frontier_proposal \<times> 'g) result" where
  "parent_attempts 0 torch rng x s c g = Inl RuntimeError"
| "parent_attempts (Suc fuel) torch rng x s c g =
     bind_r (fr_parent torch rng x s g) (\<lambda>(parent, g1).
     bind_r (mutation_attempts (nat (fr_retries x)) torch rng x s (fh_program parent) c {} g1) (\<lambda>(found, g2).
       case found of
         Some r \<Rightarrow> Inr (r, g2)
       | None \<Rightarrow> parent_attempts fuel torch rng x s c g2))"

definition fr_propose :: "math_lib \<Rightarrow> torch_lib \<Rightarrow> 'g rng \<Rightarrow> frontier \<Rightarrow> frontier_state \<Rightarrow> string \<Rightarrow> 'g
    \<Rightarrow> (frontier_proposal \<times> 'g) result" where
  "fr_propose math torch rng x s c g =
     bind_r (ft_validate s) (\<lambda>_.
       if c = [] \<or> NUL \<in> set c then Inl ValueError
       else (case fr_policy x of
               Some P \<Rightarrow> policy_proposal math torch rng x P s c g
             | None \<Rightarrow> parent_attempts (nat (fr_retries x)) torch rng x s c g))"

section \<open>Recording\<close>

text \<open>The root, and the best of the others: by quality, then by depth, then by digest.\<close>

definition hypothesis_key :: "string \<times> frontier_hypothesis \<Rightarrow> rat \<times> int \<times> string" where
  "hypothesis_key dh = (- fin_val (fh_quality (snd dh)), fh_depth (snd dh), fst dh)"

definition fr_prune :: "frontier \<Rightarrow> frontier_hypothesis list \<Rightarrow> string \<Rightarrow> frontier_hypothesis list result" where
  "fr_prune x hypotheses root_digest =
     bind_r (map_r (\<lambda>h. bind_r (cp_digest (fh_program h)) (\<lambda>d. Inr (d, h))) hypotheses) (\<lambda>tagged.
       case filter (\<lambda>dh. fst dh = root_digest) tagged of
         [] \<Rightarrow> Inl StopIteration
       | kept # _ \<Rightarrow>
           Inr (snd kept # map snd (take (nat (fr_beam x - 1))
             (sort_key hypothesis_key (filter (\<lambda>dh. fst dh \<noteq> root_digest) tagged)))))"

fun find_parent :: "string \<Rightarrow> frontier_hypothesis list \<Rightarrow> frontier_hypothesis result" where
  "find_parent digest [] = Inl ValueError"
| "find_parent digest (h # hs) =
     bind_r (cp_digest (fh_program h)) (\<lambda>d. if d = digest then Inr h else find_parent digest hs)"

definition fr_record_outcomes :: "frontier \<Rightarrow> frontier_state \<Rightarrow> frontier_proposal \<Rightarrow> pyfloat list \<times> pyfloat \<times> int \<times> int
    \<Rightarrow> (frontier_feedback \<times> frontier) result" where
  "fr_record_outcomes x s r evidence =
     (case evidence of (values, threshold, min_observations, min_stable) \<Rightarrow>
     bind_r (ft_validate s) (\<lambda>_.
     bind_r (gp_validate r) (\<lambda>_.
       if gp_attempt r \<noteq> ft_evaluations s then Inl ValueError
       else bind_r (find_parent (gp_parent r) (ft_hypotheses s)) (\<lambda>parent.
         if cp_counter_count (gp_program r) \<noteq> cp_counter_count (fh_program parent) then Inl ValueError
         else if \<not> (Fin 0 < threshold \<and> threshold \<le> Fin 1) then Inl ValueError
         else if min_observations < 1 \<or> min_stable < 1 then Inl ValueError
         else if values = [] \<or> (\<exists>v\<in>set values. \<not> isfinite v \<or> \<not> (Fin 0 \<le> v \<and> v \<le> Fin 1)) then Inl ValueError
         else
           let stable = stable_from (fin_val threshold) min_stable 0 (map fin_val values);
               accepted = (int (length values) \<ge> min_observations \<and> stable \<noteq> None);
               quality = quality_of values;
               index = gp_index r
           in bind_r (if Fin (fr_minimum_quality x) \<le> quality
                      then bind_r (mk_hypothesis (gp_program r) (Some (gp_parent r)) (fh_depth parent + 1) quality)
                             (\<lambda>h. Inr (ft_hypotheses s @ [h]))
                      else Inr (ft_hypotheses s)) (\<lambda>hypotheses.
              bind_r (case fr_policy x of
                        None \<Rightarrow> Inr x
                      | Some P \<Rightarrow>
                          (case gp_factors r of
                             None \<Rightarrow> Inl ValueError
                           | Some f \<Rightarrow>
                               (case pm_record P (gp_context r) quality f of
                                  (P', None) \<Rightarrow> Inr (x\<lparr>fr_policy := Some P'\<rparr>)
                                | (P', Some e) \<Rightarrow> Inl e))) (\<lambda>x'.
              bind_r (fr_prune x hypotheses (ft_root s)) (\<lambda>kept.
              bind_r (cp_digest (gp_program r)) (\<lambda>digest.
              bind_r (ft_validate
                \<lparr>ft_hypotheses = kept, ft_totals = bump (ft_totals s) index quality,
                 ft_counts = bump (ft_counts s) index (Fin 1),
                 ft_accepts = (if accepted then bump (ft_accepts s) index (Fin 1) else ft_accepts s),
                 ft_fails = (if accepted then ft_fails s else bump (ft_fails s) index (Fin 1)),
                 ft_seen = ft_seen s @ [digest], ft_root = ft_root s, ft_evaluations = ft_evaluations s + 1,
                 ft_accepted = ft_accepted s + (if accepted then 1 else 0),
                 ft_best_quality = py_max (ft_best_quality s) quality, ft_schema = CONTROL_FLOW_FRONTIER_SCHEMA\<rparr>) (\<lambda>next_state.
                Inr (\<lparr>gb_proposal = r, gb_quality = quality, gb_accepted = accepted, gb_stable = stable, gb_state = next_state\<rparr>,
                     x'))))))))))"

end
