(* ===== verification/RecipeSearchRun.thy ===== *)
theory RecipeSearchRun
  imports RecipeSearch
begin

text \<open>
  What a recipe search does: its three ways to propose (exhaustively, from a policy, from random
  attempts) offer an unseen candidate of the neighbourhood or report that none is left, recording
  accepts every proposal the search makes, and the propose--evaluate--record loop is an instance of
  the shared \<open>exhaustive_search\<close> contract.
\<close>

section \<open>Proposing, characterised\<close>

lemma recipe_space_mem:
  assumes "exhaustive_candidates x parent = Inr cs"
  shows "(k, p) \<in> set cs \<Longrightarrow> scope @ [NUL] @ rp_digest p \<in> set (recipe_space x parent scope)"
    and "\<not> set (recipe_space x parent scope) \<subseteq> set seen \<Longrightarrow>
      \<exists>k p. (k, p) \<in> set cs \<and> scope @ [NUL] @ rp_digest p \<notin> set seen"
  by (force simp: recipe_space_def assms image_iff)+

lemma propose_exhaustive_cases:
  assumes "rs_ok s" and "search_ok x" and "parent_ok x parent" and "scope_ok scope" and "scope_ok c"
  shows "set (recipe_space x parent scope) \<subseteq> set (rs_seen s) \<Longrightarrow>
      rx_propose_exhaustive x s parent scope c = Inl RuntimeError"
    and "\<not> set (recipe_space x parent scope) \<subseteq> set (rs_seen s) \<Longrightarrow>
      \<exists>r. rx_propose_exhaustive x s parent scope c = Inr r
        \<and> fresh_proposal s (set (recipe_space x parent scope)) r"
proof -
  obtain cs where cs: "exhaustive_candidates x parent = Inr cs"
    using exhaustive_candidates_spec [OF assms(2,3)] by blast
  note facts = candidate_facts [OF assms(2,3) cs]
  note mem = recipe_space_mem [OF cs, where scope = scope]
  have st: "rs_validate s = Inr s" using assms(1) by (simp add: rs_validate_Inr)
  have guards: "\<not> (scope = [] \<or> NUL \<in> set scope)" "\<not> (c = [] \<or> NUL \<in> set c)"
    using assms(4,5) by (auto simp: scope_ok_def)
  have start: "rx_propose_exhaustive x s parent scope c =
     bind_r (first_unseen scope (rs_seen s) cs) (\<lambda>(k, p). bind_r (rx_factors parent k p) (\<lambda>f.
       rq_validate (mk_recipe_proposal s parent scope c k p (1 / of_nat (max 1 (length cs))) f)))"
    unfolding rx_propose_exhaustive_def st bind_r_Inr cs by (simp only: guards if_False bind_r_Inr)
  show "rx_propose_exhaustive x s parent scope c = Inl RuntimeError"
    if "set (recipe_space x parent scope) \<subseteq> set (rs_seen s)"
  proof -
    have "first_unseen scope (rs_seen s) cs = Inl RuntimeError"
      by (rule first_unseen_none [OF assms(4)]) (rule subsetD [OF that mem(1)])
    then show ?thesis unfolding start by simp
  qed
  show "\<exists>r. rx_propose_exhaustive x s parent scope c = Inr r
        \<and> fresh_proposal s (set (recipe_space x parent scope)) r"
    if sub: "\<not> set (recipe_space x parent scope) \<subseteq> set (rs_seen s)"
  proof -
    obtain k p where kp: "(k, p) \<in> set cs" "scope @ [NUL] @ rp_digest p \<notin> set (rs_seen s)"
      using mem(2) [OF sub] by blast
    obtain j q where jq: "first_unseen scope (rs_seen s) cs = Inr (j, q)" "(j, q) \<in> set cs"
        "scope @ [NUL] @ rp_digest q \<notin> set (rs_seen s)"
      using first_unseen_some [OF assms(4) kp] by blast
    obtain f where f: "j < 4" "rp_digest q \<noteq> rp_digest parent" "rx_factors parent j q = Inr f"
        "factors_ok f" "pf_operator f = int j"
        "scope @ [NUL] @ rp_digest q \<in> set (recipe_space x parent scope)"
      using facts(1) [OF jq(2)] by blast
    have prob: "0 < 1 / (of_nat (max 1 (length cs)) :: rat)" "1 / (of_nat (max 1 (length cs)) :: rat) \<le> 1"
      by (simp_all add: divide_le_eq)
    have "scope @ [NUL] @ rp_digest q \<in> set (recipe_space x parent scope) - set (rs_seen s)"
      using f(6) jq(3) by blast
    note fresh = mk_proposal_fresh [OF assms(1,4,5) f(1,2,4,5) prob this]
    show ?thesis
      unfolding start jq(1) bind_r_Inr prod.case f(3)
      by (rule exI, rule conjI, rule fresh [THEN conjunct1], rule fresh [THEN conjunct2])
  qed
qed

lemma policy_propose_cases:
  assumes "rs_ok s" and "search_ok x" and "parent_ok x parent" and "scope_ok scope" and "scope_ok c"
    and "policy_ok P" and "torch_ok torch" and "softmax_sums torch" and "rng_ok rng"
  shows "set (recipe_space x parent scope) \<subseteq> set (rs_seen s) \<Longrightarrow>
      policy_propose math torch rng x P s parent scope c g = Inl RuntimeError"
    and "\<not> set (recipe_space x parent scope) \<subseteq> set (rs_seen s) \<Longrightarrow>
      \<exists>r g'. policy_propose math torch rng x P s parent scope c g = Inr (r, g')
        \<and> fresh_proposal s (set (recipe_space x parent scope)) r"
proof -
  obtain cs where cs: "exhaustive_candidates x parent = Inr cs"
    using exhaustive_candidates_spec [OF assms(2,3)] by blast
  note facts = candidate_facts [OF assms(2,3) cs]
  note mem = recipe_space_mem [OF cs, where scope = scope]
  have "\<exists>f. rx_factors parent k p = Inr f" if "(k, p) \<in> set cs" for k p using facts(1) [OF that] by blast
  then obtain av where av: "available_candidates parent scope (rs_seen s) cs = Inr av"
      "map (\<lambda>(k, p, f). (k, p)) av = filter (\<lambda>c. scope @ [NUL] @ rp_digest (snd c) \<notin> set (rs_seen s)) cs"
      "\<forall>k p f. (k, p, f) \<in> set av \<longrightarrow> rx_factors parent k p = Inr f"
    using available_spec [OF assms(4), of cs parent "rs_seen s"] by blast
  have start: "policy_propose math torch rng x P s parent scope c g =
      (if av = [] then Inl RuntimeError
       else bind_r (policy_select math torch rng P c (map (\<lambda>(k, p, f). rp_digest p) av)
                     (map (\<lambda>(k, p, f). f) av) g) (\<lambda>(selected, probability, g').
            case av ! selected of (k, p, f) \<Rightarrow>
              bind_r (rq_validate (mk_recipe_proposal s parent scope c k p probability f)) (\<lambda>r.
                Inr (r, g'))))"
    unfolding policy_propose_def cs av(1) bind_r_Inr ..
  have in_av: "(k, p) \<in> set cs \<and> scope @ [NUL] @ rp_digest p \<notin> set (rs_seen s)" if "(k, p, f) \<in> set av" for k p f
  proof -
    have "(k, p) \<in> set (map (\<lambda>(k, p, f). (k, p)) av)" using that by force
    then show ?thesis unfolding av(2) by simp
  qed
  show "policy_propose math torch rng x P s parent scope c g = Inl RuntimeError"
    if sub: "set (recipe_space x parent scope) \<subseteq> set (rs_seen s)"
  proof -
    have "av = []"
    proof (rule ccontr)
      assume "av \<noteq> []"
      then obtain k p f where "(k, p, f) \<in> set av" by (cases av) auto
      then show False using in_av subsetD [OF sub mem(1)] by blast
    qed
    then show ?thesis unfolding start by simp
  qed
  show "\<exists>r g'. policy_propose math torch rng x P s parent scope c g = Inr (r, g')
        \<and> fresh_proposal s (set (recipe_space x parent scope)) r"
    if sub: "\<not> set (recipe_space x parent scope) \<subseteq> set (rs_seen s)"
  proof -
    obtain k p where kp: "(k, p) \<in> set cs" "scope @ [NUL] @ rp_digest p \<notin> set (rs_seen s)"
      using mem(2) [OF sub] by blast
    then have "(k, p) \<in> set (map (\<lambda>(k, p, f). (k, p)) av)" unfolding av(2) by simp
    then have ne: "av \<noteq> []" by auto
    obtain ds fs where dfs: "ds = map (\<lambda>(k, p, f). rp_digest p) av" "fs = map (\<lambda>(k, p, f). f) av" by blast
    have "ds = map (\<lambda>c. rp_digest (snd c)) (map (\<lambda>(k, p, f). (k, p)) av)"
      by (simp add: dfs comp_def case_prod_beta)
    then have "distinct ds" unfolding av(2) by (simp add: facts(2) distinct_map_filter)
    moreover have "factors_ok f" if mem_f: "f \<in> set fs" for f
    proof -
      obtain k p where kpf: "(k, p, f) \<in> set av" using mem_f by (auto simp: dfs)
      obtain f' where "rx_factors parent k p = Inr f'" "factors_ok f'"
        using facts(1) in_av [OF kpf] by blast
      then show ?thesis using av(3) kpf by auto
    qed
    ultimately have offers: "offers_ok ds fs" using ne by (auto simp: offers_ok_def dfs)
    obtain ps i g' where sel: "length ps = length ds" "\<forall>p\<in>set ps. 0 < p \<and> p \<le> 1" "i < length ds"
        "policy_select math torch rng P c ds fs g = Inr (i, ps ! i, g')"
      using policy_distribution [OF assms(7-9) assms(6) assms(5) offers, of math g] by blast
    obtain j q f where jqf: "av ! i = (j, q, f)" by (cases "av ! i")
    have mem_av: "(j, q, f) \<in> set av" using sel(3) jqf by (metis dfs(1) length_map nth_mem)
    have prob: "0 < ps ! i" "ps ! i \<le> 1" using sel(1-3) by simp_all
    have q: "(j, q) \<in> set cs" "scope @ [NUL] @ rp_digest q \<notin> set (rs_seen s)" "rx_factors parent j q = Inr f"
      using in_av [OF mem_av] av(3) mem_av by blast+
    have f: "j < 4" "rp_digest q \<noteq> rp_digest parent" "factors_ok f" "pf_operator f = int j"
        "scope @ [NUL] @ rp_digest q \<in> set (recipe_space x parent scope) - set (rs_seen s)"
      using facts(1) [OF q(1), of scope] q(2) unfolding q(3) by auto
    note fresh = mk_proposal_fresh [OF assms(1,4,5) f(1-4) prob f(5)]
    show ?thesis
      unfolding start dfs [symmetric] sel(4) bind_r_Inr prod.case jqf fresh [THEN conjunct1] if_not_P [OF ne]
      using fresh [THEN conjunct2] by blast
  qed
qed

section \<open>Random attempts\<close>

lemma scatter_spec:
  assumes "length ps = length (filter id ms)" and "k < length ms"
  shows "length (scatter ms ps) = length ms"
    and "scatter ms ps ! k = (if ms ! k then scatter ms ps ! k else 0)"
    and "ms ! k \<Longrightarrow> scatter ms ps ! k \<in> set ps"
proof -
  have "length (scatter ms ps) = length ms
    \<and> (\<forall>k<length ms. if ms ! k then scatter ms ps ! k \<in> set ps else scatter ms ps ! k = 0)"
    using assms(1)
  proof (induction ms ps rule: scatter.induct)
    case (3 ms ps)
    then obtain q qs where ps: "ps = q # qs" by (cases ps) auto
    with 3 show ?case by (auto simp: nth_Cons split: nat.splits if_splits)
  qed (auto simp: nth_Cons split: nat.splits if_splits)
  then show "length (scatter ms ps) = length ms"
    and "scatter ms ps ! k = (if ms ! k then scatter ms ps ! k else 0)"
    and "ms ! k \<Longrightarrow> scatter ms ps ! k \<in> set ps"
    using assms(2) by auto
qed

lemma length_masked: "length xs = length ms \<Longrightarrow> length (filter fst (zip ms xs)) = length (filter id ms)"
  by (induction ms arbitrary: xs) (auto simp: length_Suc_conv)

lemma operator_weights:
  assumes "torch_ok torch" and "rs_ok s"
  shows "\<exists>ws. rx_operator_probabilities torch x s parent = Inr ws \<and> length ws = 4
    \<and> (\<forall>k<4. if available_mask x parent ! k then 0 < ws ! k else ws ! k = 0)"
proof -
  have st: "rs_validate s = Inr s" using assms(2) by (simp add: rs_validate_Inr)
  have m: "length (available_mask x parent) = 4" by (simp add: available_mask_def Let_def)
  have n: "length (rs_totals s) = 4" "length (rs_counts s) = 4" using assms(2) by (simp_all add: rs_ok_def stat_ok_def)
  obtain scores where scores: "scores = map2 (\<lambda>t c.
             let reward_total = fin_val t; count = fin_val c;
                 mean = (if count > 0 then reward_total / max count 1 else 0);
                 bonus = rx_exploration x * tl_sqrt torch (tl_log torch (of_int (rs_proposals s + 1)) / (count + 1))
             in (mean + bonus) / rx_temperature x) (rs_totals s) (rs_counts s)" by blast
  have l: "length scores = 4" by (simp add: scores n)
  obtain ps where ps: "ps = tl_softmax torch (map snd (filter fst (zip (available_mask x parent) scores)))" by blast
  have "length ps = length (filter id (available_mask x parent))"
    using assms(1) length_masked [of scores "available_mask x parent"] by (simp add: ps torch_ok_def l m)
  note spec = scatter_spec [OF this]
  have pos: "p \<in> set ps \<Longrightarrow> 0 < p" for p using assms(1) by (simp add: ps torch_ok_def)
  have eq: "rx_operator_probabilities torch x s parent = Inr (scatter (available_mask x parent) ps)"
    unfolding rx_operator_probabilities_def st bind_r_Inr Let_def ps scores ..
  have "length (scatter (available_mask x parent) ps) = 4" using spec(1) [of 0] m by simp
  moreover have "if available_mask x parent ! k then 0 < scatter (available_mask x parent) ps ! k
      else scatter (available_mask x parent) ps ! k = 0" if "k < 4" for k
    using spec(2,3) [of k] pos that m by (auto split: if_splits)
  ultimately show ?thesis unfolding eq by blast
qed

lemma rng_ok_draw:
  assumes "rng_ok rng" and "\<forall>p\<in>set ps. 0 \<le> p" and "\<exists>p\<in>set ps. 0 < p"
  shows "fst (rng_multinomial rng g ps) < length ps \<and> 0 < ps ! fst (rng_multinomial rng g ps)"
  using assms unfolding rng_ok_def by blast

lemma draw_below_less:
  assumes "rng_ok rng" and "0 < n"
  shows "\<exists>k g'. draw_below rng g n = Inr (k, g') \<and> k < n"
proof -
  have "fst (rng_randint rng g n) < n" using assms by (simp add: rng_ok_def)
  then show ?thesis using assms(2) by (cases "rng_randint rng g n") (simp add: draw_below_def)
qed

lemma atoms_nonempty: "0 < length (atomic_candidates b)"
  by (simp add: atomic_candidates_def atomic_part_def Let_def)

lemma draw_edit_spec:
  assumes "rng_ok rng" and "search_ok x" and "parent_ok x parent" and "k < 4"
    and "available_mask x parent ! k"
  shows "\<exists>is g'. draw_edit rng x parent k g = Inr (is, g') \<and> recipe_edit x parent k is"
proof -
  obtain bs atoms where bs: "bs = rp_instructions parent" "atoms = atomic_candidates (rx_basis x)" by blast
  have n: "0 < length bs" using assms(2,3) by (auto simp: bs parent_ok_def rp_length_def search_ok_def)
  have a: "0 < length atoms" unfolding bs by (rule atoms_nonempty)
  note draw = draw_below_less [OF assms(1)]
  note defs = draw_edit_def recipe_edit_def Let_def bs [symmetric]
  consider "k = 0" | "k = 1" | "k = 2" | "k = 3" using assms(4) by linarith
  then show ?thesis
  proof cases
    case 1
    obtain j g1 where j: "draw_below rng g (length bs) = Inr (j, g1)" "j < length bs" using draw [OF n] by blast
    obtain i g2 where i: "draw_below rng g1 (length atoms) = Inr (i, g2)" "i < length atoms" using draw [OF a] by blast
    have "draw_edit rng x parent k g = Inr (bs[j := atoms ! i], g2)" by (simp add: defs 1 j i)
    moreover have "recipe_edit x parent k (bs[j := atoms ! i])"
      unfolding defs using 1 j(2) nth_mem [OF i(2)] by blast
    ultimately show ?thesis by blast
  next
    case 2
    then have room: "int (length bs) < rx_max x"
      using assms(5) by (simp add: available_mask_def Let_def rp_length_def bs)
    obtain m where m: "m = length bs + 1" "0 < m" by simp
    obtain j g1 where "draw_below rng g m = Inr (j, g1)" "j < m" using draw [OF m(2)] by blast
    then have j: "draw_below rng g (length bs + 1) = Inr (j, g1)" "j < length bs + 1"
      by (simp_all only: m(1))
    obtain i g2 where i: "draw_below rng g1 (length atoms) = Inr (i, g2)" "i < length atoms" using draw [OF a] by blast
    have "draw_edit rng x parent k g = Inr (take j bs @ atoms ! i # drop j bs, g2)"
      using j(1) by (simp add: defs 2 i)
    moreover have "recipe_edit x parent k (take j bs @ atoms ! i # drop j bs)"
    proof -
      have "j \<le> length bs" using j(2) by simp
      then show ?thesis unfolding defs using 2 room nth_mem [OF i(2)] by blast
    qed
    ultimately show ?thesis by blast
  next
    case 3
    then have room: "rx_min x < int (length bs)"
      using assms(5) by (simp add: available_mask_def Let_def rp_length_def bs numeral_2_eq_2)
    obtain j g1 where j: "draw_below rng g (length bs) = Inr (j, g1)" "j < length bs" using draw [OF n] by blast
    have "draw_edit rng x parent k g = Inr (take j bs @ drop (j + 1) bs, g1)" by (simp add: defs 3 j)
    moreover have "recipe_edit x parent k (take j bs @ drop (j + 1) bs)"
      unfolding defs using 3 room j(2) by blast
    ultimately show ?thesis by blast
  next
    case 4
    then have two: "1 < length bs"
      using assms(5) by (simp add: available_mask_def Let_def rp_length_def bs numeral_3_eq_3)
    obtain i g1 where i: "draw_below rng g (length bs) = Inr (i, g1)" "i < length bs" using draw [OF n] by blast
    obtain m where m: "m = length bs - 1" "0 < m" using two by simp
    obtain d g2 where "draw_below rng g1 m = Inr (d, g2)" "d < m" using draw [OF m(2)] by blast
    then have d: "draw_below rng g1 (length bs - 1) = Inr (d, g2)" "d < length bs - 1"
      by (simp_all only: m(1))
    obtain j where j: "j = (if d \<ge> i then d + 1 else d)" by blast
    have ij: "i \<noteq> j" "j < length bs" using d(2) by (auto simp: j)
    have "draw_edit rng x parent k g = Inr (bs[i := bs ! j, j := bs ! i], g2)"
      by (simp add: defs 4 i d(1) [unfolded One_nat_def] j)
    moreover have "recipe_edit x parent k (bs[i := bs ! j, j := bs ! i])"
    proof (cases "i < j")
      case True
      then show ?thesis unfolding defs using 4 ij(2) by blast
    next
      case False
      then have "j < i" "bs[i := bs ! j, j := bs ! i] = bs[j := bs ! i, i := bs ! j]"
        using ij(1) list_update_swap [of i j bs] by auto
      then show ?thesis unfolding defs using 4 i(2) by blast
    qed
    ultimately show ?thesis by blast
  qed
qed

lemma random_attempts_spec:
  assumes "torch_ok torch" and "rng_ok rng" and "rs_ok s" and "search_ok x" and "parent_ok x parent"
    and "scope_ok scope" and "scope_ok c"
  shows "\<exists>found g'. random_attempts fuel torch rng x s parent scope c g = Inr (found, g')
    \<and> (\<forall>r. found = Some r \<longrightarrow> fresh_proposal s (set (recipe_space x parent scope)) r)"
proof (induction fuel arbitrary: g)
  case 0
  then show ?case by simp
next
  case (Suc fuel)
  obtain cs where cs: "exhaustive_candidates x parent = Inr cs"
    using exhaustive_candidates_spec [OF assms(4,5)] by blast
  obtain ws where ws: "rx_operator_probabilities torch x s parent = Inr ws" "length ws = 4"
      "\<forall>k<4. if available_mask x parent ! k then 0 < ws ! k else ws ! k = 0"
    using operator_weights [OF assms(1,3)] by blast
  have nonneg: "\<forall>w\<in>set ws. 0 \<le> w" using ws(2,3) by (metis in_set_conv_nth less_imp_le order_refl)
  show ?case
  proof (cases "sum_list ws \<le> 0")
    case True
    then show ?thesis by (simp add: ws(1))
  next
    case False
    then have pos: "0 < sum_list ws" by simp
    obtain qs where qs: "qs = map (\<lambda>p. p / sum_list ws) ws" by blast
    have q_nth: "qs ! k = ws ! k / sum_list ws" if "k < 4" for k using that ws(2) by (simp add: qs)
    have len: "length qs = 4" by (simp add: qs ws(2))
    obtain w where "w \<in> set ws" "0 < w"
      using pos sum_list_nonpos [of ws] by force
    then have "w / sum_list ws \<in> set qs" "0 < w / sum_list ws" using pos by (simp_all add: qs)
    then have ex: "\<exists>q\<in>set qs. 0 < q" by blast
    have "\<forall>q\<in>set qs. 0 \<le> q" using nonneg pos by (auto simp: qs)
    then have drawn: "fst (rng_multinomial rng g qs) < 4" "0 < qs ! fst (rng_multinomial rng g qs)"
      using rng_ok_draw [OF assms(2) _ ex] len by simp_all
    obtain k g1 where k: "rng_multinomial rng g qs = (k, g1)" by (cases "rng_multinomial rng g qs")
    have k4: "k < 4" "0 < qs ! k" using drawn by (simp_all add: k)
    have mask: "available_mask x parent ! k" using ws(3) k4 q_nth [OF k4(1)] by (metis divide_eq_0_iff less_irrefl)
    have le1: "qs ! k \<le> 1"
      using member_le_sum_list [of "ws ! k" ws] nonneg k4(1) ws(2) pos by (simp add: q_nth divide_le_eq)
    obtain "is" g2 where ed: "draw_edit rng x parent k g1 = Inr (is, g2)" "recipe_edit x parent k is"
      using draw_edit_spec [OF assms(2,4,5) k4(1) mask] by blast
    note valid = recipe_edit_valid [OF ed(2) assms(5,4)]
    have lens: "\<not> \<not> (rx_min x \<le> int (length is) \<and> int (length is) \<le> rx_max x)"
      using valid(3,4) by (simp add: rp_length_def)
    obtain p where p: "p = edited parent is" by blast
    have step: "random_attempts (Suc fuel) torch rng x s parent scope c g =
       (if rp_digest p = rp_digest parent then random_attempts fuel torch rng x s parent scope c g2
        else if scope @ [NUL] @ rp_digest p \<in> set (rs_seen s)
        then random_attempts fuel torch rng x s parent scope c g2
        else bind_r (rx_factors parent k p) (\<lambda>f.
               bind_r (rq_validate (mk_recipe_proposal s parent scope c k p (qs ! k) f))
                      (\<lambda>r. Inr (Some r, g2))))"
      unfolding random_attempts.simps ws(1) bind_r_Inr Let_def qs [symmetric] k prod.case ed(1)
      using False lens valid(2) recipe_key_total [OF assms(6), of p] by (simp add: p)
    show ?thesis
    proof (cases "rp_digest p = rp_digest parent \<or> scope @ [NUL] @ rp_digest p \<in> set (rs_seen s)")
      case True
      then show ?thesis using Suc.IH [of g2] unfolding step by auto
    next
      case new: False
      then have ne: "is \<noteq> rp_instructions parent"
        using edited_self [OF assms(5)] by (auto simp: p)
      obtain f where f: "rx_factors parent k p = Inr f" "factors_ok f" "pf_operator f = int k"
        using rx_factors_total [OF ed(2) ne] p by blast
      have "scope @ [NUL] @ rp_digest p \<in> set (recipe_space x parent scope) - set (rs_seen s)"
        using candidate_facts(3) [OF assms(4,5) cs ed(2), of scope] new p by auto
      moreover have "rp_digest p \<noteq> rp_digest parent" using new by blast
      ultimately have fresh: "rq_validate (mk_recipe_proposal s parent scope c k p (qs ! k) f)
          = Inr (mk_recipe_proposal s parent scope c k p (qs ! k) f)"
          "fresh_proposal s (set (recipe_space x parent scope)) (mk_recipe_proposal s parent scope c k p (qs ! k) f)"
        using mk_proposal_fresh [OF assms(3,6,7) k4(1) _ f(2,3) k4(2) le1] by blast+
      show ?thesis unfolding step f(1) bind_r_Inr fresh(1) using new fresh(2) by simp
    qed
  qed
qed

lemma rx_propose_cases:
  assumes "torch_ok torch" and "softmax_sums torch" and "rng_ok rng" and "rs_ok s" and "search_ok x"
    and "parent_ok x parent" and "scope_ok scope" and "scope_ok c"
  shows "set (recipe_space x parent scope) \<subseteq> set (rs_seen s) \<Longrightarrow>
      rx_propose math torch rng x s parent scope c g = Inl RuntimeError"
    and "\<not> set (recipe_space x parent scope) \<subseteq> set (rs_seen s) \<Longrightarrow>
      \<exists>r g'. rx_propose math torch rng x s parent scope c g = Inr (r, g')
        \<and> fresh_proposal s (set (recipe_space x parent scope)) r"
proof -
  note policy = policy_propose_cases [OF assms(4-8) _ assms(1-3), where math = math and g = g]
  note exhaustive = propose_exhaustive_cases [OF assms(4-8)]
  obtain found g' where r: "random_attempts 64 torch rng x s parent scope c g = Inr (found, g')"
      "\<forall>r. found = Some r \<longrightarrow> fresh_proposal s (set (recipe_space x parent scope)) r"
    using random_attempts_spec [OF assms(1,3-8)] by blast
  have st: "rs_validate s = Inr s" "rx_validate_parent x parent = Inr ()"
    using assms(4,6) by (simp_all add: rs_validate_Inr rx_validate_parent_def parent_ok_def)
  have guards: "\<not> (scope = [] \<or> NUL \<in> set scope)" "\<not> (c = [] \<or> NUL \<in> set c)"
    using assms(7,8) by (auto simp: scope_ok_def)
  have start: "rx_propose math torch rng x s parent scope c g = (case rx_policy x of
           Some P \<Rightarrow> policy_propose math torch rng x P s parent scope c g
         | None \<Rightarrow> (case found of
                 Some r \<Rightarrow> Inr (r, g')
               | None \<Rightarrow> bind_r (rx_propose_exhaustive x s parent scope c) (\<lambda>r. Inr (r, g'))))"
    unfolding rx_propose_def st bind_r_Inr r(1) prod.case by (simp only: guards if_False)
  have P: "policy_ok P" if "rx_policy x = Some P" for P
    using assms(5) that by (simp add: search_ok_def)
  show "rx_propose math torch rng x s parent scope c g = Inl RuntimeError"
    if sub: "set (recipe_space x parent scope) \<subseteq> set (rs_seen s)"
  proof (cases "rx_policy x")
    case None
    have "found = None" using r(2) sub by (cases found) (auto simp: fresh_proposal_def)
    then show ?thesis unfolding start None by (simp add: exhaustive(1) [OF sub])
  next
    case (Some Q)
    then show ?thesis unfolding start by (simp add: policy(1) [OF P [OF Some] sub])
  qed
  show "\<exists>r g'. rx_propose math torch rng x s parent scope c g = Inr (r, g')
        \<and> fresh_proposal s (set (recipe_space x parent scope)) r"
    if sub: "\<not> set (recipe_space x parent scope) \<subseteq> set (rs_seen s)"
  proof (cases "rx_policy x")
    case None
    then show ?thesis
      using r(2) exhaustive(2) [OF sub] unfolding start by (cases found) auto
  next
    case (Some Q)
    then show ?thesis unfolding start using policy(2) [OF P [OF Some] sub] by simp
  qed
qed

section \<open>Recording, characterised\<close>

definition rs_recorded :: "rs_state \<Rightarrow> recipe_proposal \<Rightarrow> bool \<Rightarrow> pyfloat \<Rightarrow> rs_state" where
  "rs_recorded s r accepted quality =
     \<lparr>rs_totals = bump (rs_totals s) (rq_operator_index r) quality,
      rs_counts = bump (rs_counts s) (rq_operator_index r) (Fin 1),
      rs_accepts = (if accepted then bump (rs_accepts s) (rq_operator_index r) (Fin 1) else rs_accepts s),
      rs_fails = (if accepted then rs_fails s else bump (rs_fails s) (rq_operator_index r) (Fin 1)),
      rs_seen = rs_seen s @ [rq_key r],
      rs_proposals = rs_proposals s + 1,
      rs_accepted = rs_accepted s + (if accepted then 1 else 0),
      rs_best_quality = py_max (rs_best_quality s) quality,
      rs_schema = RECIPE_PROGRAM_SEARCH_SCHEMA\<rparr>"

lemma rs_recorded_ok:
  assumes "rs_ok s" and "rq_ok r" and "rq_key r \<notin> set (rs_seen s)" and "in_unit quality"
  shows "rs_ok (rs_recorded s r accepted quality)"
proof -
  obtain q where q: "quality = Fin q" "0 \<le> q" using assms(4) by (auto simp: in_unit_iff)
  have i: "in_range (rq_operator_index r) 4" using assms(2) by (simp add: rq_ok_def)
  have "key_ok (rq_key r)"
    using assms(2) scoped_key_ok [of "rq_scope r"] by (simp add: rq_key_def rq_ok_def rp_digest_def)
  then show ?thesis
    using assms(1) [unfolded rs_ok_def] assms(3,4) bump_ok [OF _ i] bump_sum [OF _ i] q
    by (simp add: rs_ok_def rs_recorded_def py_max_unit)
qed

definition outcome_quality :: "pyfloat list \<Rightarrow> pyfloat" where
  "outcome_quality outcomes = (if outcomes = [] then Fin 0 else quality_of outcomes)"

lemma outcome_quality_unit: "recipe_args_ok outcomes threshold mo ms \<Longrightarrow> in_unit (outcome_quality outcomes)"
  using quality_in_unit [of outcomes] by (simp add: outcome_quality_def recipe_args_ok_def)

fun evidence_args_ok :: "pyfloat list \<times> pyfloat \<times> int \<times> int \<Rightarrow> bool" where
  "evidence_args_ok (outcomes, threshold, mo, ms) = recipe_args_ok outcomes threshold mo ms"

lemma policy_record_total:
  assumes "policy_ok P" and "scope_ok c" and "digest_ok d" and "in_unit q" and "factors_ok f"
  shows "\<exists>P'. policy_record P c d q f = (P', None) \<and> policy_ok P'"
proof -
  have "snd (policy_record P c d q f) = None"
  proof (cases P)
    case (Opaque m)
    have v: "validate_context c = Inr ()" "validate_digest d = Inr ()" "\<not> invalid_quality q"
      using assms by (simp_all add: validate_context_Inr validate_digest_Inr invalid_quality_iff)
    show ?thesis by (simp add: Opaque om_record_def v)
  next
    case (Factorized m)
    then show ?thesis using assms by (simp add: fm_record_cases)
  qed
  then show ?thesis
    using policy_record_ok [OF assms(1), of c d q f] by (cases "policy_record P c d q f") auto
qed

text \<open>The state and the search after one recorded outcome.\<close>

definition rx_next :: "rs_state \<times> recipe_search \<Rightarrow> recipe_proposal \<Rightarrow> pyfloat list \<times> pyfloat \<times> int \<times> int
    \<Rightarrow> (rs_state \<times> recipe_search) result" where
  "rx_next sx r e = bind_r (rx_record_outcomes (snd sx) (fst sx) r e) (\<lambda>(b, x'). Inr (rf_state b, x'))"

definition same_search :: "recipe_search \<Rightarrow> recipe_search \<Rightarrow> bool" where
  "same_search x y \<longleftrightarrow> (\<exists>P. y = x\<lparr>rx_policy := P\<rparr>)"

lemma rx_next_start:
  assumes "rs_ok s" and "rq_ok r" and "rq_attempt r = rs_proposals s" and "rq_key r \<notin> set (rs_seen s)"
    and "evaluate_recipe_program_admission (rq_program r) outcomes threshold mo ms = Inr receipt"
  shows "rx_next (s, x) r (outcomes, threshold, mo, ms) =
    bind_r (case rx_policy x of
              None \<Rightarrow> Inr x
            | Some P \<Rightarrow>
                (case rq_factors r of
                   None \<Rightarrow> Inl ValueError
                 | Some f \<Rightarrow>
                     (case policy_record P (rq_context r) (rp_digest (rq_program r)) (outcome_quality outcomes) f of
                        (P', None) \<Rightarrow> Inr (x\<lparr>rx_policy := Some P'\<rparr>)
                      | (P', Some e) \<Rightarrow> Inl e)))
      (\<lambda>x'. Inr (rs_recorded s r (rr_accepted receipt) (outcome_quality outcomes), x'))"
proof -
  have v: "rs_validate s = Inr s" "rq_validate r = Inr r"
    using assms by (simp_all add: rs_validate_Inr rq_validate_Inr)
  have key: "recipe_key (rq_scope r) (rp_digest (rq_program r)) = Inr (rq_key r)"
    using assms(2) by (simp add: recipe_key_total rq_ok_def rq_key_def)
  have "in_unit (outcome_quality outcomes)"
    using recipe_admission_args [OF assms(5)] outcome_quality_unit by blast
  then have st: "rs_validate (rs_recorded s r (rr_accepted receipt) (outcome_quality outcomes))
      = Inr (rs_recorded s r (rr_accepted receipt) (outcome_quality outcomes))"
    using rs_recorded_ok assms by (simp add: rs_validate_Inr)
  note st' = st [unfolded rs_recorded_def outcome_quality_def]
  show ?thesis
    unfolding rx_next_def fst_conv snd_conv rx_record_outcomes.simps v bind_r_Inr key assms(5) Let_def
      outcome_quality_def
    using assms(3,4) st'
    by (cases "rx_policy x"; cases "rq_factors r")
       (auto simp: rs_recorded_def outcome_quality_def bind_r_def split: prod.splits option.splits sum.splits)
qed

section \<open>The search as a ledger\<close>

text \<open>
  The fixed data of a search run: the libraries, the state of the generator at each call (any function
  of the state of the run) and the parent.  What changes is the search state and the policy.
\<close>

record 'g recipe_run =
  run_math :: math_lib
  run_torch :: torch_lib
  run_rng :: "'g rng"
  run_generator :: "rs_state \<Rightarrow> 'g"
  run_parent :: recipe_program
  run_search :: recipe_search

definition run_ok :: "'g recipe_run \<Rightarrow> bool" where
  "run_ok y \<longleftrightarrow> torch_ok (run_torch y) \<and> softmax_sums (run_torch y) \<and> rng_ok (run_rng y)
     \<and> search_ok (run_search y) \<and> parent_ok (run_search y) (run_parent y)"

fun run_inv :: "'g recipe_run \<Rightarrow> rs_state \<times> recipe_search \<Rightarrow> bool" where
  "run_inv y (s, x) \<longleftrightarrow> run_ok y \<and> rs_ok s \<and> search_ok x \<and> (\<exists>P. x = (run_search y)\<lparr>rx_policy := P\<rparr>)"

fun run_propose :: "'g recipe_run \<Rightarrow> rs_state \<times> recipe_search \<Rightarrow> string \<times> string \<Rightarrow> recipe_proposal result" where
  "run_propose y (s, x) (scope, c) =
     bind_r (rx_propose (run_math y) (run_torch y) (run_rng y) x s (run_parent y) scope c (run_generator y s))
       (\<lambda>(r, g'). Inr r)"

lemma policy_irrelevant:
  "recipe_space (x\<lparr>rx_policy := P\<rparr>) parent scope = recipe_space x parent scope"
  "parent_ok (x\<lparr>rx_policy := P\<rparr>) parent = parent_ok x parent"
  by (simp_all add: recipe_space_def exhaustive_candidates_def rx_validate_parent_def recipe_edits_def
      Let_def parent_ok_def)

lemma run_propose_cases:
  assumes "run_inv y (s, x)" and "scope_ok scope" and "scope_ok c"
  shows "set (recipe_space (run_search y) (run_parent y) scope) \<subseteq> set (rs_seen s) \<Longrightarrow>
      run_propose y (s, x) (scope, c) = Inl RuntimeError"
    and "\<not> set (recipe_space (run_search y) (run_parent y) scope) \<subseteq> set (rs_seen s) \<Longrightarrow>
      \<exists>r. run_propose y (s, x) (scope, c) = Inr r
        \<and> fresh_proposal s (set (recipe_space (run_search y) (run_parent y) scope)) r"
proof -
  obtain P where x: "x = (run_search y)\<lparr>rx_policy := P\<rparr>" using assms(1) by auto
  have sp: "recipe_space x (run_parent y) scope = recipe_space (run_search y) (run_parent y) scope"
    and p: "parent_ok x (run_parent y)"
    using assms(1) by (simp_all add: x policy_irrelevant run_ok_def)
  have i: "torch_ok (run_torch y)" "softmax_sums (run_torch y)" "rng_ok (run_rng y)" "rs_ok s" "search_ok x"
    using assms(1) by (simp_all add: run_ok_def)
  note cases = rx_propose_cases [OF i p assms(2,3), unfolded sp, of "run_math y" "run_generator y s"]
  show "run_propose y (s, x) (scope, c) = Inl RuntimeError"
    if "set (recipe_space (run_search y) (run_parent y) scope) \<subseteq> set (rs_seen s)"
    using cases(1) [OF that] by simp
  show "\<exists>r. run_propose y (s, x) (scope, c) = Inr r
        \<and> fresh_proposal s (set (recipe_space (run_search y) (run_parent y) scope)) r"
    if "\<not> set (recipe_space (run_search y) (run_parent y) scope) \<subseteq> set (rs_seen s)"
    using cases(2) [OF that] by auto
qed

lemma rx_next_Inr:
  assumes "rx_next (s, x) r (outcomes, threshold, mo, ms) = Inr (s', x')" and "search_ok x"
  shows "rq_key r \<notin> set (rs_seen s) \<and> rs_seen s' = rs_seen s @ [rq_key r] \<and> rs_ok s' \<and> search_ok x'
    \<and> (\<exists>P. x' = x\<lparr>rx_policy := P\<rparr>)"
proof -
  obtain receipt where g: "rs_ok s" "rq_ok r" "rq_attempt r = rs_proposals s" "rq_key r \<notin> set (rs_seen s)"
      "evaluate_recipe_program_admission (rq_program r) outcomes threshold mo ms = Inr receipt"
    using assms(1)
    by (auto simp: rx_next_def bind_r_eq_Inr rs_validate_Inr rq_validate_Inr rq_ok_def recipe_key_total
        rq_key_def split: if_splits)
  have q: "in_unit (outcome_quality outcomes)"
    using recipe_admission_args [OF g(5)] outcome_quality_unit by blast
  note run = assms(1) [unfolded rx_next_start [OF g]]
  have s': "s' = rs_recorded s r (rr_accepted receipt) (outcome_quality outcomes)"
    using run by (auto simp: bind_r_eq_Inr)
  have "search_ok x' \<and> (\<exists>P. x' = x\<lparr>rx_policy := P\<rparr>)"
  proof (cases "rx_policy x")
    case None
    then have "x' = x" using run by simp
    then show ?thesis using assms(2) by (intro conjI exI [of _ "rx_policy x"]) simp_all
  next
    case (Some P)
    then obtain f P' where "policy_record P (rq_context r) (rp_digest (rq_program r)) (outcome_quality outcomes) f
          = (P', None)" "x' = x\<lparr>rx_policy := Some P'\<rparr>"
      using run by (auto split: option.splits prod.splits)
    moreover have "policy_ok P" using assms(2) Some by (simp add: search_ok_def)
    ultimately show ?thesis
      using policy_record_ok [of P "rq_context r" "rp_digest (rq_program r)" "outcome_quality outcomes" f] assms(2)
      by (auto simp: search_ok_def)
  qed
  then show ?thesis using g(4) rs_recorded_ok [OF g(1,2,4) q] by (auto simp: s' rs_recorded_def)
qed

lemma rx_next_total:
  assumes "rs_ok s" and "search_ok x" and "rq_ok r" and "rq_factors r \<noteq> None"
    and "rq_attempt r = rs_proposals s" and "rq_key r \<notin> set (rs_seen s)"
    and "recipe_args_ok outcomes threshold mo ms"
  shows "\<exists>sx. rx_next (s, x) r (outcomes, threshold, mo, ms) = Inr sx"
proof -
  obtain receipt where e: "evaluate_recipe_program_admission (rq_program r) outcomes threshold mo ms = Inr receipt"
    using recipe_admission_total [OF assms(7)] by blast
  obtain f where f: "rq_factors r = Some f" "factors_ok f" using assms(3,4) by (auto simp: rq_ok_def)
  show ?thesis
  proof (cases "rx_policy x")
    case None
    then show ?thesis unfolding rx_next_start [OF assms(1,3,5,6) e] by simp
  next
    case (Some P)
    have "policy_ok P" using assms(2) Some by (simp add: search_ok_def)
    moreover have "scope_ok (rq_context r)" using assms(3) by (simp add: rq_ok_def)
    ultimately obtain P' where "policy_record P (rq_context r) (rp_digest (rq_program r)) (outcome_quality outcomes) f
        = (P', None)"
      using policy_record_total [OF _ _ rp_digest_ok outcome_quality_unit [OF assms(7)] f(2)] by blast
    then show ?thesis unfolding rx_next_start [OF assms(1,3,5,6) e] by (simp add: Some f(1))
  qed
qed

interpretation recipe_search: exhaustive_search run_inv "\<lambda>sx. rs_seen (fst sx)" rq_key "\<lambda>y. rx_next"
  "\<lambda>(scope, c). scope_ok scope \<and> scope_ok c"
  "\<lambda>y g. recipe_space (run_search y) (run_parent y) (fst g)" run_propose "\<lambda>y. evidence_args_ok"
proof
  fix y :: "'g recipe_run" and sx sx' :: "rs_state \<times> recipe_search" and r :: recipe_proposal
    and e :: "pyfloat list \<times> pyfloat \<times> int \<times> int" and g :: "string \<times> string"
  obtain s x where sx: "sx = (s, x)" by (cases sx)
  obtain s' x' where sx': "sx' = (s', x')" by (cases sx')
  obtain os t mo ms where e: "e = (os, t, mo, ms)" by (cases e) auto
  obtain scope c where g: "g = (scope, c)" by (cases g)
  assume inv: "run_inv y sx"
  then have i: "run_inv y (s, x)" "rs_ok s" "search_ok x" by (simp_all add: sx)
  show "distinct (rs_seen (fst sx))" using i(2) by (simp add: sx rs_ok_def)
  show "rx_next sx r e = Inr sx' \<Longrightarrow> rq_key r \<notin> set (rs_seen (fst sx))
      \<and> rs_seen (fst sx') = rs_seen (fst sx) @ [rq_key r] \<and> run_inv y sx'"
    using rx_next_Inr [of s x r os t mo ms s' x'] i by (auto simp: sx sx' e)
  assume "case g of (scope, c) \<Rightarrow> scope_ok scope \<and> scope_ok c"
  then have sc: "scope_ok scope" "scope_ok c" by (simp_all add: g)
  note cases = run_propose_cases [OF i(1) sc]
  show "\<not> set (recipe_space (run_search y) (run_parent y) (fst g)) \<subseteq> set (rs_seen (fst sx)) \<Longrightarrow>
      \<exists>r. run_propose y sx g = Inr r
        \<and> rq_key r \<in> set (recipe_space (run_search y) (run_parent y) (fst g)) - set (rs_seen (fst sx))"
    using cases(2) by (auto simp: sx g fresh_proposal_def)
  show "set (recipe_space (run_search y) (run_parent y) (fst g)) \<subseteq> set (rs_seen (fst sx)) \<Longrightarrow>
      run_propose y sx g = Inl RuntimeError"
    using cases(1) by (auto simp: sx g)
  show "run_propose y sx g = Inr r \<Longrightarrow> evidence_args_ok e \<Longrightarrow> \<exists>sx'. rx_next sx r e = Inr sx'"
  proof -
    assume p: "run_propose y sx g = Inr r" and ev: "evidence_args_ok e"
    have "fresh_proposal s (set (recipe_space (run_search y) (run_parent y) scope)) r"
      using cases p by (cases "set (recipe_space (run_search y) (run_parent y) scope) \<subseteq> set (rs_seen s)")
        (auto simp: sx g)
    then show ?thesis
      using rx_next_total [OF i(2,3), of r os t mo ms] ev by (auto simp: fresh_proposal_def e sx)
  qed
qed

section \<open>Properties\<close>

text \<open>
  C28. The recipe search explores the whole neighbourhood.  With or without a proposal policy,
  whatever the generator draws and from any valid state, the propose--evaluate--record loop never
  fails, evaluates every candidate of the parent not seen in the scope exactly once, and ends with
  the \<open>RuntimeError\<close> of an exhausted neighbourhood; state and policy stay valid.
\<close>

theorem recipe_search_exhausts:
  assumes "run_ok y" and "rs_ok s" and "scope_ok scope" and "scope_ok c"
    and "\<And>r. evidence_args_ok (evaluate r)"
    and "length (recipe_space (run_search y) (run_parent y) scope) \<le> n"
  shows "\<exists>s' x' ks. search_loop (\<lambda>sx. run_propose y sx (scope, c)) (\<lambda>sx r. rx_next sx r (evaluate r)) n
        (s, run_search y) = Inr (s', x')
    \<and> rs_ok s' \<and> search_ok x' \<and> rs_seen s' = rs_seen s @ ks \<and> distinct ks
    \<and> set ks = set (recipe_space (run_search y) (run_parent y) scope) - set (rs_seen s)
    \<and> run_propose y (s', x') (scope, c) = Inl RuntimeError"
proof -
  let ?space = "recipe_space (run_search y) (run_parent y) scope"
  have "card (set ?space - set (rs_seen s)) \<le> card (set ?space)" by (rule card_mono) auto
  also have "\<dots> \<le> n" using card_length assms(6) le_trans by blast
  finally have n: "card (set ?space - set (rs_seen s)) \<le> n" .
  have inv: "run_inv y (s, run_search y)"
    using assms(1,2) by (auto simp: run_ok_def intro!: exI [of _ "rx_policy (run_search y)"])
  obtain s' x' ks where "search_loop (\<lambda>sx. run_propose y sx (scope, c)) (\<lambda>sx r. rx_next sx r (evaluate r)) n
        (s, run_search y) = Inr (s', x')"
      "run_inv y (s', x')" "rs_seen s' = rs_seen s @ ks" "distinct ks"
      "set ks = set ?space - set (rs_seen s)" "run_propose y (s', x') (scope, c) = Inl RuntimeError"
    using recipe_search.loop_exhausts [OF inv, of "(scope, c)" evaluate n] assms(3-5) n by auto
  then show ?thesis by auto
qed

definition twin_run :: "unit recipe_run" where
  "twin_run = \<lparr>run_math = linear_math, run_torch = uniform_torch, run_rng = first_rng,
     run_generator = (\<lambda>s. ()), run_parent = twin_inc, run_search = twin_search\<rparr>"

theorem recipe_search_exhausts_witness:
  "\<exists>s s' x'. rs_initial = Inr s
    \<and> search_loop (\<lambda>sx. run_propose twin_run sx (task_c, task_c))
        (\<lambda>sx r. rx_next sx r ([Fin 1], Fin 1, 1, 1))
        (length (recipe_space twin_search twin_inc task_c)) (s, twin_search) = Inr (s', x')
    \<and> set (rs_seen s') = set (recipe_space twin_search twin_inc task_c)"
proof -
  obtain s where s: "rs_initial = Inr s" "rs_ok s" "rs_seen s = []" using rs_initial_ok by blast
  have run: "run_ok twin_run"
    using uniform_torch_ok softmax_sums_uniform first_rng_ok twin_search_ok
    by (simp add: run_ok_def twin_run_def)
  have ev: "evidence_args_ok ([Fin 1], Fin 1, 1, 1)" by (simp add: recipe_args_ok_def)
  have sel: "run_search twin_run = twin_search" "run_parent twin_run = twin_inc"
    by (simp_all add: twin_run_def)
  show ?thesis
    using recipe_search_exhausts [OF run s(2) example_keys(5) example_keys(5), of "\<lambda>r. ([Fin 1], Fin 1, 1, 1)",
        OF ev order_refl] s(1,3) unfolding sel by auto
qed

end
