(* ===== verification/FrontierNeighborhood.thy ===== *)
theory FrontierNeighborhood
  imports ControlFlowFrontier RecipeSearchRun
begin

text \<open>
  The one-edit neighbourhood of a frontier, characterised: which programs \<open>fr_candidates\<close> lists, and
  that the factors of every edit can be read off parent and child.  The frontier and the growth around
  it rest on these facts.
\<close>

section \<open>Digests\<close>

lemma digest_is_valid_iff: "digest_is_valid d \<longleftrightarrow> digest_ok d"
  by (simp add: digest_is_valid_def validate_digest_Inr)

lemma digest_bytes_ok [simp]: "digest_ok (digest_bytes bs)"
proof (rule digest_ok_hex)
  show "length (digest_bytes bs) = 64" by (simp add: digest_bytes_def length_concat_hex)
  show "set (digest_bytes bs) \<subseteq> set hex_digits"
    using set_hex_of_u32 by (fastforce simp: digest_bytes_def)
qed

lemma instruction_digest_ok [simp]: "digest_ok (cf_instruction_digest i)"
  by (simp add: cf_instruction_digest_def)

text \<open>The digest of a program exists exactly for a valid one.\<close>

lemma cp_digest_Inr: "cp_digest p = Inr d \<longleftrightarrow> valid_program p \<and> d = digest_of p"
proof (cases "valid_program p")
  case False
  have "cp_payload p = Inl ValueError \<or> (\<exists>e. cp_payload p = Inl e)"
    using False by (simp add: cp_payload_def cp_validate_cases)
  then show ?thesis using False by (auto simp: cp_digest_def)
qed (use digest_of_valid in auto)

section \<open>Factors\<close>

definition ff_ok :: "proposal_factors \<Rightarrow> bool" where
  "ff_ok f \<longleftrightarrow> pf_schema f = CONTROL_FLOW_FRONTIER_PROPOSAL_FACTORS_SCHEMA \<and> in_range (pf_operator f) 4
     \<and> (if pf_operator f = 3 then (\<exists>j. pf_secondary f = Some j \<and> pf_primary f < j) \<and> length (pf_digests f) = 2
        else pf_secondary f = None \<and> length (pf_digests f) = 1)
     \<and> (\<forall>d\<in>set (pf_digests f). digest_ok d)"

lemma length_frontier_operators: "length CONTROL_FLOW_FRONTIER_MUTATION_OPERATORS = 4"
  by (simp add: CONTROL_FLOW_FRONTIER_MUTATION_OPERATORS_def)

lemma ff_validate_Inr: "ff_validate f = Inr t \<longleftrightarrow> ff_ok f \<and> t = f"
  unfolding ff_validate_def ff_ok_def length_frontier_operators digest_is_valid_iff
  by (cases "pf_secondary f") auto

section \<open>Edits of a program\<close>

text \<open>A search parent: a valid program of the frontier's width and within its length bounds.\<close>

definition frontier_program :: "frontier \<Rightarrow> cf_program \<Rightarrow> bool" where
  "frontier_program x p \<longleftrightarrow> valid_program p \<and> cp_counter_count p = fr_counter_count x
     \<and> fr_min x \<le> cp_length p \<and> cp_length p \<le> fr_max x"

text \<open>
  \<open>q\<close> is one edit of \<open>p\<close> by operator \<open>k\<close>: a non-terminal instruction replaced by one of the bank, an
  instruction inserted or deleted with the jumps relocated, or two non-terminal instructions exchanged.
\<close>

definition frontier_edit :: "frontier \<Rightarrow> cf_program \<Rightarrow> nat \<Rightarrow> cf_program \<Rightarrow> bool" where
  "frontier_edit x p k q \<longleftrightarrow>
     (let is = cp_instructions p; n = cp_counter_count p
      in (k = 0 \<and> (\<exists>j i. j < length is - 1 \<and> valid_instruction n (cp_length p) i \<and> ci_op i \<noteq> Halt
            \<and> q = mk_program n (is[j := i])))
       \<or> (k = 1 \<and> cp_length p < fr_max x \<and> (\<exists>j i. insert_control_flow_instruction p j i = Inr q))
       \<or> (k = 2 \<and> cp_length p > fr_min x \<and> (\<exists>j. delete_control_flow_instruction p j = Inr q))
       \<or> (k = 3 \<and> (\<exists>i j. i < j \<and> j < length is - 1 \<and> q = mk_program n (is[i := is ! j, j := is ! i]))))"

lemma valid_update:
  assumes "valid_program p" and "j < length (cp_instructions p) - 1"
    and "valid_instruction (cp_counter_count p) (cp_length p) i"
  shows "valid_program (mk_program (cp_counter_count p) ((cp_instructions p)[j := i]))"
proof -
  have "ci_op (last ((cp_instructions p)[j := i])) = ci_op (last (cp_instructions p))"
    using assms(2) by (cases "cp_instructions p = []") (auto simp: last_conv_nth nth_list_update)
  then show ?thesis
    using assms(1) [unfolded valid_program_iff cp_length_def] assms(2) assms(3) [unfolded cp_length_def]
      set_update_subset_insert [of "cp_instructions p" j i]
    unfolding valid_mk_program by auto
qed

lemma valid_exchange:
  assumes "valid_program p" and "i < j" and "j < length (cp_instructions p) - 1"
  shows "valid_program (mk_program (cp_counter_count p)
    ((cp_instructions p)[i := cp_instructions p ! j, j := cp_instructions p ! i]))"
proof -
  let ?is = "cp_instructions p"
  obtain q where q: "q = mk_program (cp_counter_count p) (?is[i := ?is ! j])" by blast
  have v: "valid_instruction (cp_counter_count p) (cp_length p) (?is ! m)" if "m < length ?is" for m
    using assms(1) that by (auto simp: valid_program_iff)
  have 1: "valid_program q" unfolding q using assms v by (intro valid_update) auto
  have "valid_program (mk_program (cp_counter_count q) ((cp_instructions q)[j := ?is ! i]))"
    using assms v [of i] by (intro valid_update [OF 1]) (auto simp: q mk_program_sel cp_length_def)
  then show ?thesis by (simp add: q mk_program_sel)
qed

lemma insert_shape:
  assumes "insert_control_flow_instruction p j i = Inr q"
  shows "valid_program q \<and> cp_counter_count q = cp_counter_count p \<and> cp_length q = cp_length p + 1"
  using local_edits_succeed_iff [of p j i] assms by (auto simp: is_ok_iff)

lemma delete_shape:
  assumes "delete_control_flow_instruction p j = Inr q"
  shows "valid_program q \<and> cp_counter_count q = cp_counter_count p \<and> cp_length q = cp_length p - 1"
  using local_edits_succeed_iff [of p j undefined] assms by (auto simp: is_ok_iff)

lemma edit_errors:
  "insert_control_flow_instruction p j i = Inl e \<Longrightarrow> e = ValueError"
  "delete_control_flow_instruction p j = Inl e \<Longrightarrow> e = ValueError"
proof -
  have m: "map_r (delete_relocate j) is = Inl e \<Longrightarrow> e = ValueError" for "is" e
    by (induction "is") (auto simp: delete_relocate_def dest!: bind_r_Inl_cases split: if_splits sum.splits)
  show "insert_control_flow_instruction p j i = Inl e \<Longrightarrow> e = ValueError"
    by (auto simp: insert_control_flow_instruction_def cp_validate_cases cfi_validate_def Let_def
        dest!: bind_r_Inl_cases split: if_splits)
  show "delete_control_flow_instruction p j = Inl e \<Longrightarrow> e = ValueError"
    by (auto simp: delete_control_flow_instruction_def cp_validate_cases
        dest!: bind_r_Inl_cases m split: if_splits)
qed

lemma frontier_edit_ok:
  assumes "frontier_edit x p k q" and "frontier_program x p"
  shows "k < 4" and "valid_program q" and "frontier_program x q"
proof -
  have v: "valid_program p" "cp_counter_count p = fr_counter_count x" "fr_min x \<le> cp_length p" "cp_length p \<le> fr_max x"
    using assms(2) by (simp_all add: frontier_program_def)
  show "k < 4" using assms(1) by (auto simp: frontier_edit_def Let_def)
  have "frontier_program x q"
    using assms(1) unfolding frontier_edit_def Let_def
  proof (elim disjE conjE exE)
    fix j i assume "cp_length p < fr_max x" "insert_control_flow_instruction p j i = Inr q"
    then show ?thesis using insert_shape v by (simp add: frontier_program_def)
  next
    fix j assume "fr_min x < cp_length p" "delete_control_flow_instruction p j = Inr q"
    then show ?thesis using delete_shape v by (simp add: frontier_program_def)
  next
    fix j i assume a: "j < length (cp_instructions p) - 1" "valid_instruction (cp_counter_count p) (cp_length p) i"
      and q: "q = mk_program (cp_counter_count p) ((cp_instructions p)[j := i])"
    have "cp_length q = cp_length p" by (simp add: q mk_program_sel cp_length_def)
    then show ?thesis using valid_update [OF v(1) a] v unfolding q frontier_program_def mk_program_sel by simp
  next
    fix i j assume a: "i < j" "j < length (cp_instructions p) - 1"
      and q: "q = mk_program (cp_counter_count p) ((cp_instructions p)[i := cp_instructions p ! j, j := cp_instructions p ! i])"
    have "cp_length q = cp_length p" by (simp add: q mk_program_sel cp_length_def)
    then show ?thesis using valid_exchange [OF v(1) a] v unfolding q frontier_program_def mk_program_sel by simp
  qed
  then show "valid_program q" and "frontier_program x q" by (simp_all add: frontier_program_def)
qed

section \<open>The attempted edits\<close>

definition edits_ok :: "(nat \<times> cf_program result) list \<Rightarrow> bool" where
  "edits_ok edits \<longleftrightarrow> (\<forall>k r. (k, r) \<in> set edits \<longrightarrow> (case r of Inl e \<Rightarrow> e = ValueError | Inr p \<Rightarrow> valid_program p))"

lemma keep_edits_spec:
  assumes "edits_ok edits"
  shows "\<exists>ps. keep_edits pd seen edits = Inr ps \<and> distinct (map (digest_of \<circ> snd) ps)
    \<and> (\<forall>k p. (k, p) \<in> set ps \<longrightarrow> (k, Inr p) \<in> set edits \<and> digest_of p \<notin> insert pd (set seen))
    \<and> (\<forall>k p. (k, Inr p) \<in> set edits \<longrightarrow> digest_of p \<in> insert pd (set seen) \<union> digest_of ` snd ` set ps)"
  using assms
proof (induction edits arbitrary: seen)
  case Nil
  then show ?case by simp
next
  case (Cons e edits)
  obtain k r where e: "e = (k, r)" by (cases e)
  have ok: "edits_ok edits" using Cons.prems by (simp add: edits_ok_def)
  show ?case
  proof (cases "\<exists>p. r = Inr p \<and> digest_of p \<notin> insert pd (set seen)")
    case True
    then obtain p where p: "r = Inr p" "digest_of p \<noteq> pd" "digest_of p \<notin> set seen" by auto
    have v: "cp_digest p = Inr (digest_of p)"
      using Cons.prems p(1) by (auto simp: edits_ok_def e cp_digest_Inr)
    obtain ps where ps: "keep_edits pd (seen @ [digest_of p]) edits = Inr ps" "distinct (map (digest_of \<circ> snd) ps)"
        "\<forall>k q. (k, q) \<in> set ps \<longrightarrow> (k, Inr q) \<in> set edits \<and> digest_of q \<notin> insert pd (set (seen @ [digest_of p]))"
        "\<forall>k q. (k, Inr q) \<in> set edits \<longrightarrow>
           digest_of q \<in> insert pd (set (seen @ [digest_of p])) \<union> digest_of ` snd ` set ps"
      using Cons.IH [OF ok, of "seen @ [digest_of p]"] by blast
    have run: "keep_edits pd seen (e # edits) = Inr ((k, p) # ps)" using p v ps(1) by (simp add: e)
    have "digest_of p \<notin> digest_of ` snd ` set ps" using ps(3) by fastforce
    then have "distinct (map (digest_of \<circ> snd) ((k, p) # ps))" using ps(2) by (simp add: image_comp)
    moreover have "\<forall>j q. (j, q) \<in> set ((k, p) # ps) \<longrightarrow> (j, Inr q) \<in> set (e # edits) \<and> digest_of q \<notin> insert pd (set seen)"
      using ps(3) p by (auto simp: e)
    moreover have "\<forall>j q. (j, Inr q) \<in> set (e # edits) \<longrightarrow>
        digest_of q \<in> insert pd (set seen) \<union> digest_of ` snd ` set ((k, p) # ps)"
      using ps(4) p(1) by (auto simp: e)
    ultimately show ?thesis using run by blast
  next
    case False
    then have run: "keep_edits pd seen (e # edits) = keep_edits pd seen edits"
      using Cons.prems by (cases r) (auto simp: e edits_ok_def digest_of_valid)
    obtain ps where ps: "keep_edits pd seen edits = Inr ps" "distinct (map (digest_of \<circ> snd) ps)"
        "\<forall>k q. (k, q) \<in> set ps \<longrightarrow> (k, Inr q) \<in> set edits \<and> digest_of q \<notin> insert pd (set seen)"
        "\<forall>k q. (k, Inr q) \<in> set edits \<longrightarrow> digest_of q \<in> insert pd (set seen) \<union> digest_of ` snd ` set ps"
      using Cons.IH [OF ok, of seen] by blast
    have "\<forall>j q. (j, Inr q) \<in> set (e # edits) \<longrightarrow> digest_of q \<in> insert pd (set seen) \<union> digest_of ` snd ` set ps"
      using ps(4) False by (auto simp: e)
    moreover have "\<forall>j q. (j, q) \<in> set ps \<longrightarrow> (j, Inr q) \<in> set (e # edits) \<and> digest_of q \<notin> insert pd (set seen)"
      using ps(3) by auto
    ultimately show ?thesis unfolding run using ps(1,2) by blast
  qed
qed

text \<open>The attempts at a parent are the edits of the neighbourhood.\<close>

lemma frontier_edits_mem:
  assumes "frontier_program x p"
    and "atoms = bank_list (fr_counter_count x) (cp_length p)"
    and "cp_length p < fr_max x \<longrightarrow> longer = bank_list (fr_counter_count x) (cp_length p + 1)"
  shows "edits_ok (frontier_edits x p atoms longer)"
    and "(k, Inr q) \<in> set (frontier_edits x p atoms longer) \<longleftrightarrow> frontier_edit x p k q"
proof -
  have v: "valid_program p" and n: "cp_counter_count p = fr_counter_count x" and l: "1 \<le> cp_length p"
    and n2: "2 \<le> fr_counter_count x"
    using assms(1) cp_length_pos [of p] by (auto simp: frontier_program_def valid_program_iff)
  obtain "is" where code: "is = cp_instructions p" by blast
  have len: "cp_length p = int (length is)" "0 < length is" using l by (auto simp: cp_length_def code)
  note bank = bank_iff [OF n2 l] bank_iff [OF n2, of "cp_length p + 1"]
  have upd: "valid_program (mk_program (fr_counter_count x) (is[j := i]))"
    if "j < length is - 1" "i \<in> set atoms" for j i
    using valid_update [OF v, of j i] that bank(1) by (simp add: code n assms(2))
  have exch: "valid_program (mk_program (fr_counter_count x) (is[i := is ! j, j := is ! i]))"
    if "i < j" "j < length is - 1" for i j
    using valid_exchange [OF v that [unfolded code]] by (simp add: code n)
  have rep: "cp_validate (mk_program (fr_counter_count x) js) = Inr (mk_program (fr_counter_count x) js)"
    if "js \<in> set (replacements atoms is)" for js
    using that upd by (auto simp: set_replacements cp_validate_cases)
  have swp: "cp_validate (mk_program (fr_counter_count x) js) = Inr (mk_program (fr_counter_count x) js)"
    if "js \<in> set (swaps is)" for js
    using that exch by (auto simp: set_swaps cp_validate_cases)
  have sets: "(k, r) \<in> set (frontier_edits x p atoms longer) \<longleftrightarrow>
      (k = 0 \<and> (\<exists>js\<in>set (replacements atoms is). r = Inr (mk_program (fr_counter_count x) js)))
      \<or> (k = 1 \<and> cp_length p < fr_max x
          \<and> (\<exists>j i. j < length is \<and> i \<in> set longer \<and> r = insert_control_flow_instruction p (int j) i))
      \<or> (k = 2 \<and> cp_length p > fr_min x \<and> (\<exists>j<length is - 1. r = delete_control_flow_instruction p (int j)))
      \<or> (k = 3 \<and> (\<exists>js\<in>set (swaps is). r = Inr (mk_program (fr_counter_count x) js)))" for k r
  proof -
    have "swaps is = []" if "length is - 1 \<le> 1"
    proof -
      have "js \<notin> set (swaps is)" for js using that unfolding set_swaps by auto
      then show ?thesis by (cases "swaps is") auto
    qed
    moreover have "length is - 1 + 1 = length is" using len(2) by simp
    ultimately show ?thesis
      unfolding frontier_edits_def Let_def code [symmetric]
      using rep swp by (auto simp: image_iff not_less)
  qed
  show "edits_ok (frontier_edits x p atoms longer)"
    unfolding edits_ok_def sets
    by (auto simp: set_replacements set_swaps upd exch split: sum.splits
        dest!: edit_errors dest: edit_errors [OF sym] insert_shape [OF sym] delete_shape [OF sym])
  have ins: "(\<exists>j i. j < length is \<and> i \<in> set longer \<and> Inr q = insert_control_flow_instruction p (int j) i)
      \<longleftrightarrow> (\<exists>j i. insert_control_flow_instruction p j i = Inr q)" if "cp_length p < fr_max x"
  proof
    assume "\<exists>j i. insert_control_flow_instruction p j i = Inr q"
    then obtain j i where ji: "insert_control_flow_instruction p j i = Inr q" by blast
    then have ok: "insert_ok p j i" by (simp add: insert_Inr)
    then have "i \<in> set longer" "0 \<le> j" "nat j < length is"
      using bank(2) l n assms(3) that by (auto simp: insert_ok_def in_range_def code)
    then show "\<exists>j i. j < length is \<and> i \<in> set longer \<and> Inr q = insert_control_flow_instruction p (int j) i"
      using ji by (metis nat_0_le)
  qed metis
  have del: "(\<exists>j<length is - 1. Inr q = delete_control_flow_instruction p (int j))
      \<longleftrightarrow> (\<exists>j. delete_control_flow_instruction p j = Inr q)"
  proof
    assume "\<exists>j. delete_control_flow_instruction p j = Inr q"
    then obtain j where j: "delete_control_flow_instruction p j = Inr q" by blast
    then have "0 \<le> j" "nat j < length is - 1" by (auto simp: delete_Inr delete_ok_def len)
    then show "\<exists>j<length is - 1. Inr q = delete_control_flow_instruction p (int j)"
      using j by (metis nat_0_le)
  qed metis
  have rp: "(\<exists>js\<in>set (replacements atoms is). Inr q = Inr (mk_program (fr_counter_count x) js))
      \<longleftrightarrow> (\<exists>j i. j < length is - 1 \<and> valid_instruction (fr_counter_count x) (cp_length p) i \<and> ci_op i \<noteq> Halt
            \<and> q = mk_program (fr_counter_count x) (is[j := i]))"
    unfolding Bex_def set_replacements assms(2) bank(1) by blast
  have sw: "(\<exists>js\<in>set (swaps is). Inr q = Inr (mk_program (fr_counter_count x) js))
      \<longleftrightarrow> (\<exists>i j. i < j \<and> j < length is - 1 \<and> q = mk_program (fr_counter_count x) (is[i := is ! j, j := is ! i]))"
    unfolding Bex_def set_swaps by blast
  show "(k, Inr q) \<in> set (frontier_edits x p atoms longer) \<longleftrightarrow> frontier_edit x p k q"
    unfolding sets frontier_edit_def Let_def code [symmetric] n rp sw del using ins by blast
qed

lemma fr_candidates_spec:
  assumes "frontier_program x p"
  shows "\<exists>cs. fr_candidates x p = Inr cs \<and> distinct (map (digest_of \<circ> snd) cs)
    \<and> (\<forall>k q. (k, q) \<in> set cs \<longrightarrow> frontier_edit x p k q \<and> digest_of q \<noteq> digest_of p)
    \<and> (\<forall>k q. frontier_edit x p k q \<longrightarrow> digest_of q \<in> insert (digest_of p) (digest_of ` snd ` set cs))"
proof -
  have v: "valid_program p" and l: "1 \<le> cp_length p" and n2: "2 \<le> fr_counter_count x"
    using assms cp_length_pos [of p] by (auto simp: frontier_program_def valid_program_iff)
  obtain atoms longer where b: "atoms = bank_list (fr_counter_count x) (cp_length p)"
      "longer = (if cp_length p < fr_max x then bank_list (fr_counter_count x) (cp_length p + 1) else [])" by blast
  have eq: "fr_candidates x p = keep_edits (digest_of p) [] (frontier_edits x p atoms longer)"
    using v l n2 by (simp add: fr_candidates_def cp_validate_cases digest_of_valid control_flow_instruction_bank_def b)
  have "cp_length p < fr_max x \<longrightarrow> longer = bank_list (fr_counter_count x) (cp_length p + 1)" by (simp add: b)
  note mem = frontier_edits_mem [OF assms b(1) this]

  show ?thesis
    unfolding eq using keep_edits_spec [OF mem(1), of "digest_of p" "[]"] unfolding mem(2) by simp
qed
section \<open>Reading the factors off an edit\<close>

text \<open>
  Factors describe an edit: the position, relative to the terminal of the parent, at which the edit of the
  operator gives the child (up to digests where instructions were relocated), and the digests of the
  instructions it writes, removes or exchanges.
\<close>

definition frontier_explains :: "cf_program \<Rightarrow> cf_program \<Rightarrow> proposal_factors \<Rightarrow> bool" where
  "frontier_explains p q f \<longleftrightarrow>
     (let is = cp_instructions p; js = cp_instructions q; rel = (\<lambda>j. int j - (cp_length p - 1))
      in (pf_operator f = 0 \<and> (\<exists>j. pf_primary f = rel j \<and> js = is[j := js ! j]
             \<and> pf_digests f = [cf_instruction_digest (js ! j)]))
       \<or> (pf_operator f = 1 \<and> (\<exists>j r. pf_primary f = rel j \<and> delete_control_flow_instruction q (int j) = Inr r
             \<and> digest_of r = digest_of p \<and> pf_digests f = [cf_instruction_digest (js ! j)]))
       \<or> (pf_operator f = 2 \<and> (\<exists>j r. pf_primary f = rel j \<and> delete_control_flow_instruction p (int j) = Inr r
             \<and> digest_of r = digest_of q \<and> pf_digests f = [cf_instruction_digest (is ! j)]))
       \<or> (pf_operator f = 3 \<and> (\<exists>i j. i < j \<and> pf_primary f = rel i \<and> pf_secondary f = Some (rel j)
             \<and> js = is[i := is ! j, j := is ! i]
             \<and> pf_digests f = [cf_instruction_digest (is ! i), cf_instruction_digest (is ! j)])))"

lemma first_reduction_ex:
  assumes "\<forall>j r. reduce j = Inr r \<longrightarrow> valid_program r" and "\<forall>j e. reduce j = Inl e \<longrightarrow> e = ValueError"
    and "j \<in> set js" and "reduce j = Inr r" and "digest_of r = d"
  shows "\<exists>i t. first_reduction reduce d js = Inr i \<and> i \<in> set js \<and> reduce i = Inr t \<and> digest_of t = d"
  using assms(3)
proof (induction js)
  case (Cons a js)
  show ?case
  proof (cases "\<exists>t. reduce a = Inr t \<and> digest_of t = d")
    case True
    then show ?thesis using assms(1) by (auto simp: digest_of_valid)
  next
    case False
    then have "j \<in> set js" using Cons.prems assms(4,5) by auto
    moreover have "first_reduction reduce d (a # js) = first_reduction reduce d js"
      using False assms(1,2) by (auto simp: digest_of_valid split: sum.splits)
    ultimately show ?thesis using Cons.IH by auto
  qed
qed simp

lemma mk_frontier_factors_Inr:
  "mk_frontier_factors k primary secondary instructions = Inr f \<longleftrightarrow>
     f = \<lparr>pf_operator = int k, pf_primary = primary, pf_secondary = secondary,
       pf_digests = map cf_instruction_digest instructions, pf_schema = CONTROL_FLOW_FRONTIER_PROPOSAL_FACTORS_SCHEMA\<rparr>
     \<and> ff_ok f"
  by (auto simp: mk_frontier_factors_def ff_validate_Inr)

lemma plain_factors:
  assumes "k < 3"
  shows "\<exists>f. mk_frontier_factors k primary None [i] = Inr f \<and> ff_ok f \<and> pf_operator f = int k \<and> pf_primary f = primary
    \<and> pf_digests f = [cf_instruction_digest i]"
  using assms by (simp add: mk_frontier_factors_Inr ff_ok_def in_range_def)

lemma mem_ordered_pairs: "(i, j) \<in> set (ordered_pairs n) \<longleftrightarrow> i < j \<and> j < n"
  unfolding ordered_pairs_def using mem_swap_edits [of "(i, j)" Pair n] by auto

lemma deletions_valid:
  "\<forall>j r. delete_control_flow_instruction p j = Inr r \<longrightarrow> valid_program r"
  "\<forall>j e. delete_control_flow_instruction p j = Inl e \<longrightarrow> e = ValueError"
  using delete_shape edit_errors(2) by blast+

lemma fr_factors_total:
  assumes edit: "frontier_edit x p k q" and p: "frontier_program x p" and ne: "digest_of q \<noteq> digest_of p"
  shows "\<exists>f. fr_factors p k q = Inr f \<and> ff_ok f \<and> pf_operator f = int k \<and> frontier_explains p q f"
proof -
  note q = frontier_edit_ok [OF edit p]
  obtain "is" js where code: "is = cp_instructions p" "js = cp_instructions q" by blast
  have v: "valid_program p" "valid_program q" "cp_counter_count p = cp_counter_count q"
    using p q(2,3) by (simp_all add: frontier_program_def)
  have vs: "cp_validate p = Inr p" "cp_validate q = Inr q" using v by (simp_all add: cp_validate_cases)
  have l: "cp_length p = int (length is)" by (simp add: cp_length_def code)
  note start = fr_factors_def [of p k q, unfolded vs bind_r_Inr Let_def code [symmetric]]
  note explain = frontier_explains_def [of p q, unfolded Let_def code [symmetric]]
  show ?thesis using edit unfolding frontier_edit_def Let_def code [symmetric]
  proof (elim disjE conjE exE)
    fix j i assume k: "k = 0" and j: "j < length is - 1" "q = mk_program (cp_counter_count p) (is[j := i])"
    have js: "js = is[j := i]" by (simp add: code(2) j(2) mk_program_sel)
    have "is[j := i] \<noteq> is"
      using ne valid_program_eq_mk [OF v(1)] j(2) by (auto simp: code(1))
    then have d: "filter (\<lambda>i. is ! i \<noteq> js ! i) [0..<length is] = [j]"
      using differences_update [of j "is" i] j(1) by (simp add: js)
    obtain f where f: "mk_frontier_factors 0 (relative_position (int j) (cp_length p)) None [js ! j] = Inr f" "ff_ok f"
        "pf_operator f = 0" "pf_primary f = relative_position (int j) (cp_length p)" "pf_digests f = [cf_instruction_digest (js ! j)]"
      using plain_factors [of 0 "relative_position (int j) (cp_length p)" "js ! j"] by auto
    have "fr_factors p k q = Inr f"
      unfolding start unfolding k d using j(1) v(3) f(1) by (simp add: js)
    moreover have "js = is[j := js ! j]" using j(1) by (simp add: js)
    ultimately show ?thesis
      using f(2-5) by (auto simp: k explain relative_position_def)
  next
    fix j i assume k: "k = 1" and ins: "insert_control_flow_instruction p j i = Inr q"
    have len: "length js = length is + 1" using insert_shape [OF ins] by (simp add: cp_length_def code)
    have "0 \<le> j \<and> j < int (length is)" using ins by (simp add: insert_Inr insert_ok_def in_range_def code(1))
    then have "j \<in> set (map int [0..<length is])" by (auto simp: image_iff intro: bexI [of _ "nat j"])
    then obtain m t where m: "first_reduction (delete_control_flow_instruction q) (digest_of p) (map int [0..<length is]) = Inr m"
        "m \<in> set (map int [0..<length is])" "delete_control_flow_instruction q m = Inr t" "digest_of t = digest_of p"
      using first_reduction_ex [OF deletions_valid _ delete_inserted [OF ins] refl] by blast
    obtain n where n: "m = int n" "n < length is" using m(2) by auto
    obtain f where f: "mk_frontier_factors 1 (relative_position m (cp_length p)) None [js ! nat m] = Inr f" "ff_ok f"
        "pf_operator f = 1" "pf_primary f = relative_position m (cp_length p)" "pf_digests f = [cf_instruction_digest (js ! nat m)]"
      using plain_factors [of 1 "relative_position m (cp_length p)" "js ! nat m"] by auto
    have "length is - 1 + 1 = length is" using n(2) by simp
    then have "fr_factors p k q = Inr f"
      unfolding start unfolding k using len v(3) f(1) m(1) digest_of_valid [OF v(1)] by simp
    then show ?thesis
      using f(2-5) m(3,4) by (auto simp: k explain relative_position_def n)
  next
    fix j assume k: "k = 2" and del: "delete_control_flow_instruction p j = Inr q"
    have "0 \<le> j \<and> j < int (length is) - 1" using del by (simp add: delete_Inr delete_ok_def l)
    then have j: "j \<in> set (map int [0..<length is - 1])" by (auto simp: image_iff intro: bexI [of _ "nat j"])
    have len: "length js = length is - 1"
      using delete_shape [OF del] j by (auto simp: cp_length_def code)
    obtain m t where m: "first_reduction (delete_control_flow_instruction p) (digest_of q) (map int [0..<length is - 1]) = Inr m"
        "m \<in> set (map int [0..<length is - 1])" "delete_control_flow_instruction p m = Inr t" "digest_of t = digest_of q"
      using first_reduction_ex [OF deletions_valid j del refl] by blast
    obtain n where n: "m = int n" using m(2) by auto
    obtain f where f: "mk_frontier_factors 2 (relative_position m (cp_length p)) None [is ! nat m] = Inr f" "ff_ok f"
        "pf_operator f = 2" "pf_primary f = relative_position m (cp_length p)" "pf_digests f = [cf_instruction_digest (is ! nat m)]"
      using plain_factors [of 2 "relative_position m (cp_length p)" "is ! nat m"] by auto
    have "fr_factors p k q = Inr f"
      unfolding start unfolding k using len v(3) f(1) m(1) digest_of_valid [OF v(2)] by simp
    then show ?thesis
      using f(2-5) m(3,4) by (auto simp: k explain relative_position_def n)
  next
    fix i j assume k: "k = 3" and ij: "i < j" "j < length is - 1"
      and qq: "q = mk_program (cp_counter_count p) (is[i := is ! j, j := is ! i])"
    have js: "js = is[i := is ! j, j := is ! i]" by (simp add: code(2) qq mk_program_sel)
    obtain pairs where pairs: "pairs = filter (\<lambda>(a, b). is[a := is ! b, b := is ! a] = js) (ordered_pairs (length is - 1))" by blast
    have "(i, j) \<in> set pairs" using ij by (simp add: pairs mem_ordered_pairs js)
    then obtain a b rest where ab: "pairs = (a, b) # rest" by (cases pairs) auto
    then have "(a, b) \<in> set pairs" by simp
    then have ab': "a < b" "is[a := is ! b, b := is ! a] = js" by (auto simp: pairs mem_ordered_pairs)
    obtain f where f: "f = \<lparr>pf_operator = 3, pf_primary = relative_position (int a) (cp_length p),
        pf_secondary = Some (relative_position (int b) (cp_length p)),
        pf_digests = map cf_instruction_digest [is ! a, is ! b], pf_schema = CONTROL_FLOW_FRONTIER_PROPOSAL_FACTORS_SCHEMA\<rparr>" by blast
    have ok: "ff_ok f" using ab'(1) by (simp add: f ff_ok_def in_range_def relative_position_def)
    then have "fr_factors p k q = Inr f"
      unfolding start unfolding k pairs [symmetric] ab using v(3) js by (simp add: mk_frontier_factors_Inr f)
    then show ?thesis
      using ok ab' by (auto simp: k explain relative_position_def f)
  qed
qed
section \<open>The neighbourhood is exact\<close>

text \<open>
  C21. The neighbourhood of a frontier parent is exact.  \<open>_exhaustive_candidates\<close> never raises on a
  program of the frontier's width and length bounds; it lists one-edit variants only, each a valid program
  within the bounds, never the parent and never two with one digest, and every one-edit variant has the
  digest of the parent or of a listed candidate.  For each candidate \<open>_proposal_factors_for_transition\<close>
  succeeds and describes an edit that leads from the parent to the candidate.
\<close>

theorem frontier_neighbourhood_exact:
  assumes "frontier_program x p"
  shows "\<exists>cs. fr_candidates x p = Inr cs \<and> distinct (map (digest_of \<circ> snd) cs)
    \<and> (\<forall>k q. (k, q) \<in> set cs \<longrightarrow> frontier_edit x p k q \<and> frontier_program x q \<and> digest_of q \<noteq> digest_of p
          \<and> (\<exists>f. fr_factors p k q = Inr f \<and> ff_ok f \<and> pf_operator f = int k \<and> frontier_explains p q f))
    \<and> (\<forall>k q. frontier_edit x p k q \<longrightarrow> digest_of q \<in> insert (digest_of p) (digest_of ` snd ` set cs))"
proof -
  obtain cs where cs: "fr_candidates x p = Inr cs" "distinct (map (digest_of \<circ> snd) cs)"
      "\<forall>k q. (k, q) \<in> set cs \<longrightarrow> frontier_edit x p k q \<and> digest_of q \<noteq> digest_of p"
      "\<forall>k q. frontier_edit x p k q \<longrightarrow> digest_of q \<in> insert (digest_of p) (digest_of ` snd ` set cs)"
    using fr_candidates_spec [OF assms] by blast
  have "\<forall>k q. (k, q) \<in> set cs \<longrightarrow> frontier_edit x p k q \<and> frontier_program x q \<and> digest_of q \<noteq> digest_of p
      \<and> (\<exists>f. fr_factors p k q = Inr f \<and> ff_ok f \<and> pf_operator f = int k \<and> frontier_explains p q f)"
    using cs(3) frontier_edit_ok(3) [OF _ assms] fr_factors_total [OF _ assms] by blast
  then show ?thesis using cs(1,2,4) by blast
qed

definition small_frontier :: frontier where
  "small_frontier = \<lparr>fr_counter_count = 2, fr_beam = 4, fr_max_depth = 3, fr_min = 2, fr_max = 8,
     fr_minimum_quality = 0, fr_temperature = 1, fr_exploration = 1 / 4, fr_retries = 8, fr_policy = None\<rparr>"

lemma drain_program: "frontier_program small_frontier drain"
proof -
  have "cp_counter_count drain = 2 \<and> 2 \<le> cp_length drain \<and> cp_length drain \<le> 8" by code_simp
  then show ?thesis using drain_valid by (simp add: frontier_program_def small_frontier_def)
qed

lemma drain_edit: "frontier_edit small_frontier drain 1 drain_inserted"
proof -
  have "cp_length drain < 8" by code_simp
  then show ?thesis using insert_drain by (auto simp: frontier_edit_def Let_def small_frontier_def)
qed

theorem frontier_neighbourhood_exact_witness:
  "\<exists>cs. fr_candidates small_frontier drain = Inr cs
    \<and> digest_of drain_inserted \<in> insert (digest_of drain) (digest_of ` snd ` set cs)"
  using frontier_neighbourhood_exact [OF drain_program] drain_edit by blast

end
