(* ===== verification/FrontierRun.thy ===== *)
theory FrontierRun
  imports FrontierNeighborhood
begin

text \<open>
  What a frontier does: the credit of factors gives every unseen candidate a positive probability,
  proposing offers a fresh edit of a beam member or reports that it found none, recording accepts every
  proposal the frontier makes, and the propose--evaluate--record loop keeps the beam well formed.
\<close>

section \<open>The credit of factors\<close>

lemma ff_entries_ok: "ff_ok f \<Longrightarrow> ff_entries f = Inr (entry_list f)"
  using ff_validate_Inr [of f f] by (simp add: ff_entries_def)

lemma pm_score_total:
  assumes "fm_ok m" and "\<forall>ft. table_ok (local ft)" and "ff_ok f"
  shows "\<exists>x. pm_score math m local f = Inr x"
proof -
  have "0 \<le> shared_weight_of m local ft" for ft
    using assms(1) by (simp add: shared_weight_of_def fm_ok_def)
  then have one: "\<exists>x. fm_factor_score math m local ft k (shared_weight_of m local ft) = Inr x" for ft k
    using fm_factor_score_eq [OF assms(1)] assms(2) by blast
  have "\<exists>xs. entry_scores math m local kind es = Inr xs" for kind es
    unfolding entry_scores_def by (rule map_r_ex) (use one in auto)
  then obtain i p x where "entry_scores math m local FInstruction (entry_list f) = Inr i"
      "entry_scores math m local FPosition (entry_list f) = Inr p"
      "fm_factor_score math m local FOperator (int_text (pf_operator f)) (shared_weight_of m local FOperator) = Inr x"
    using one by metis
  then show ?thesis by (simp add: pm_score_def ff_entries_ok [OF assms(3)])
qed

lemma pm_probabilities_eq:
  assumes "fm_ok m" and "scope_ok c" and "fs \<noteq> []" and "\<forall>f\<in>set fs. ff_ok f"
  shows "\<exists>scores. length scores = length fs
    \<and> pm_probabilities math torch m c fs = Inr (floored_softmax torch (fm_floor m) (fm_temperature m) scores)"
proof -
  obtain local where local: "local = get_or (fm_context_stats m) c empty_stats" by blast
  have "\<forall>ft. table_ok (local ft)" using assms(1) by (simp add: fm_ok_def local)
  then obtain ss where ss: "map_r (pm_score math m local) fs = Inr ss"
    using map_r_ex [of fs "pm_score math m local"] pm_score_total [OF assms(1)] assms(4) by blast
  have v: "validate_context c = Inr ()" "map_r ff_validate fs = Inr fs"
    using assms map_r_total [of fs ff_validate id] by (auto simp: validate_context_Inr ff_validate_Inr)
  show ?thesis
    unfolding pm_probabilities_def v bind_r_Inr local [symmetric] Let_def ss
    using assms(3) map_r_length [OF ss] by simp blast
qed

lemma pm_select_spec:
  assumes "torch_ok torch" and "softmax_sums torch" and "rng_ok rng" and "fm_ok m" and "scope_ok c"
    and "length ds = length fs" and "fs \<noteq> []" and "\<forall>d\<in>set ds. digest_ok d" and "\<forall>f\<in>set fs. ff_ok f"
  shows "\<exists>i p g'. pm_select math torch rng m c ds fs g = Inr (i, p, g') \<and> i < length fs \<and> 0 < p \<and> p \<le> 1"
proof -
  obtain scores where scores: "length scores = length fs"
      "pm_probabilities math torch m c fs = Inr (floored_softmax torch (fm_floor m) (fm_temperature m) scores)"
    using pm_probabilities_eq [OF assms(4,5,7,9)] by blast
  obtain ps where ps: "ps = floored_softmax torch (fm_floor m) (fm_temperature m) scores" by blast
  have "scores \<noteq> []" "0 \<le> fm_floor m" "fm_floor m < 1" using scores(1) assms(4,7) by (auto simp: fm_ok_def)
  note spec = floored_softmax_spec [OF assms(1,2) this(2,3,1) ps]
  obtain i g' where draw: "rng_multinomial rng g ps = (i, g')" by (cases "rng_multinomial rng g ps")
  have "ps \<noteq> []" using spec(1) scores(1) assms(7) by auto
  then have "\<exists>p\<in>set ps. 0 < p" using spec(3) by (cases ps) auto
  moreover have "\<forall>p\<in>set ps. 0 \<le> p" using spec(3) by fastforce
  ultimately have i: "i < length ps" using rng_ok_draw [OF assms(3), of ps g] draw by simp
  then have "0 < ps ! i \<and> ps ! i \<le> 1" using spec(3) by simp
  then show ?thesis
    unfolding pm_select_def scores(2) ps [symmetric] bind_r_Inr draw
    using assms(6,8) i spec(1) scores(1) by (simp add: digest_is_valid_iff)
qed

lemma pm_record_total:
  assumes "fm_ok m" and "scope_ok c" and "in_unit q" and "ff_ok f"
  shows "\<exists>m'. pm_record m c q f = (m', None) \<and> fm_ok m'"
proof -
  have "validate_context c = Inr ()" "\<not> invalid_quality q"
    using assms(2,3) by (simp_all add: validate_context_Inr invalid_quality_iff)
  then show ?thesis
    using assms(1,3) unfolding pm_record_def
    by (auto simp: ff_entries_ok [OF assms(4)] Let_def fm_ok_def get_or_update in_unit_iff credit_entries_ok)
qed

section \<open>States and proposals\<close>

abbreviation h_digest :: "frontier_hypothesis \<Rightarrow> string" where
  "h_digest h \<equiv> digest_of (fh_program h)"

definition fh_ok :: "frontier_hypothesis \<Rightarrow> bool" where
  "fh_ok h \<longleftrightarrow> fh_schema h = CONTROL_FLOW_FRONTIER_HYPOTHESIS_SCHEMA \<and> valid_program (fh_program h)
     \<and> (\<forall>d. fh_parent h = Some d \<longrightarrow> digest_ok d \<and> d \<noteq> h_digest h) \<and> 0 \<le> fh_depth h \<and> in_unit (fh_quality h)"

lemma fh_validate_Inr: "fh_validate h = Inr t \<longleftrightarrow> fh_ok h \<and> t = h"
  unfolding fh_validate_def fh_ok_def in_unit_alt digest_is_valid_iff
  by (cases "fh_parent h") (auto simp: bind_r_eq_Inr cp_validate_Inr cp_digest_Inr not_less)

definition ft_ok :: "frontier_state \<Rightarrow> bool" where
  "ft_ok s \<longleftrightarrow> ft_schema s = CONTROL_FLOW_FRONTIER_SCHEMA
     \<and> stat_ok 4 (ft_totals s) \<and> stat_ok 4 (ft_counts s) \<and> stat_ok 4 (ft_accepts s) \<and> stat_ok 4 (ft_fails s)
     \<and> ft_hypotheses s \<noteq> [] \<and> card ((\<lambda>h. cp_counter_count (fh_program h)) ` set (ft_hypotheses s)) = 1
     \<and> (\<forall>h\<in>set (ft_hypotheses s). valid_program (fh_program h)) \<and> distinct (map h_digest (ft_hypotheses s))
     \<and> digest_ok (ft_root s) \<and> ft_root s \<in> h_digest ` set (ft_hypotheses s)
     \<and> 0 \<le> ft_accepted s \<and> ft_accepted s \<le> ft_evaluations s
     \<and> stat_sum (ft_counts s) = ft_evaluations s \<and> stat_sum (ft_accepts s) = ft_accepted s
     \<and> stat_sum (ft_fails s) = ft_evaluations s - ft_accepted s
     \<and> int (length (ft_seen s)) = ft_evaluations s \<and> distinct (ft_seen s) \<and> in_unit (ft_best_quality s)"

lemma map_r_digests:
  "map_r (\<lambda>h. cp_digest (fh_program h)) hs = Inr ds \<longleftrightarrow> (\<forall>h\<in>set hs. valid_program (fh_program h)) \<and> ds = map h_digest hs"
  by (auto simp: map_r_Inr_iff cp_digest_Inr list_all2_conv_all_nth all_set_conv_all_nth intro: nth_equalityI)

lemma distinct_map_card: "distinct (map f xs) \<longleftrightarrow> card (f ` set xs) = length xs"
  by (metis card_distinct distinct_card length_map set_map)

lemma ft_validate_Inr: "ft_validate s = Inr t \<longleftrightarrow> ft_ok s \<and> t = s"
  unfolding ft_validate_def ft_ok_def in_unit_alt digest_is_valid_iff length_frontier_operators
  by (auto simp: bind_r_eq_Inr all_r_Inr_iff stat_validate_Inr map_r_digests not_less distinct_card card_distinct
      distinct_map_card image_image simp del: all_r.simps)

definition gp_ok :: "frontier_proposal \<Rightarrow> bool" where
  "gp_ok r \<longleftrightarrow> valid_program (gp_program r) \<and> gp_schema r = CONTROL_FLOW_FRONTIER_PROPOSAL_SCHEMA
     \<and> digest_ok (gp_parent r) \<and> digest_of (gp_program r) \<noteq> gp_parent r
     \<and> in_range (gp_index r) 4 \<and> gp_operator r = CONTROL_FLOW_FRONTIER_MUTATION_OPERATORS ! nat (gp_index r)
     \<and> 0 \<le> gp_attempt r \<and> Fin 0 < gp_probability r \<and> gp_probability r \<le> Fin 1 \<and> scope_ok (gp_context r)
     \<and> (\<forall>f. gp_factors r = Some f \<longrightarrow> ff_ok f \<and> pf_operator f = gp_index r)"

lemma gp_validate_Inr: "gp_validate r = Inr t \<longleftrightarrow> gp_ok r \<and> t = r"
proof -
  have mem: "in_range i 4 \<Longrightarrow> CONTROL_FLOW_FRONTIER_MUTATION_OPERATORS ! nat i \<in> set CONTROL_FLOW_FRONTIER_MUTATION_OPERATORS" for i
    using in_range_nat [of i 4] length_frontier_operators by simp
  show ?thesis
    unfolding gp_validate_def gp_ok_def scope_ok_def digest_is_valid_iff length_frontier_operators
    using mem [of "gp_index r"]
    by (cases "gp_factors r") (auto simp: bind_r_eq_Inr ff_validate_Inr cp_validate_Inr cp_digest_Inr)
qed
section \<open>The beam\<close>

text \<open>
  \<open>q\<close> is reached from \<open>p\<close> by \<open>d\<close> edits, one operator each, all within the bounds of the frontier.
\<close>

fun lineage :: "frontier \<Rightarrow> cf_program \<Rightarrow> nat \<Rightarrow> cf_program \<Rightarrow> bool" where
  "lineage x p 0 q \<longleftrightarrow> q = p"
| "lineage x p (Suc d) q \<longleftrightarrow> (\<exists>r k. lineage x p d r \<and> frontier_edit x r k q)"

lemma frontier_edit_policy [simp]: "frontier_edit (x\<lparr>fr_policy := P\<rparr>) = frontier_edit x"
  by (intro ext) (simp add: frontier_edit_def)

lemma lineage_policy [simp]: "lineage (x\<lparr>fr_policy := P\<rparr>) p d q = lineage x p d q"
  by (induction d arbitrary: q) auto

lemma frontier_program_policy [simp]: "frontier_program (x\<lparr>fr_policy := P\<rparr>) = frontier_program x"
  by (intro ext) (simp add: frontier_program_def)

definition frontier_ok :: "frontier \<Rightarrow> bool" where
  "frontier_ok x \<longleftrightarrow> 2 \<le> fr_counter_count x \<and> 2 \<le> fr_beam x \<and> 1 \<le> fr_max_depth x \<and> 1 \<le> fr_min x
     \<and> fr_min x \<le> fr_max x \<and> 1 \<le> fr_retries x \<and> (\<forall>P. fr_policy x = Some P \<longrightarrow> fm_ok P)"

text \<open>
  The state of a frontier whose root program is \<open>p\<close>: the root heads the beam, every other hypothesis was
  evaluated, lies within the bounds and is reached from the root by as many edits as its depth says.
\<close>

definition frontier_inv :: "frontier \<Rightarrow> cf_program \<Rightarrow> frontier_state \<Rightarrow> bool" where
  "frontier_inv x p s \<longleftrightarrow> frontier_ok x \<and> ft_ok s \<and> frontier_program x p \<and> ft_root s = digest_of p
     \<and> fh_program (hd (ft_hypotheses s)) = p \<and> int (length (ft_hypotheses s)) \<le> fr_beam x
     \<and> (\<forall>h\<in>set (ft_hypotheses s). fh_ok h \<and> frontier_program x (fh_program h) \<and> fh_depth h \<le> fr_max_depth x
          \<and> lineage x p (nat (fh_depth h)) (fh_program h)
          \<and> (h = hd (ft_hypotheses s) \<or> h_digest h \<in> set (ft_seen s)))"

lemma frontier_init_ok:
  assumes "fr_init cc b md lo hi q t e n policy = Inr x" and "\<forall>P. policy = Some P \<longrightarrow> fm_ok P"
  shows "frontier_ok x"
  using assms by (auto simp: fr_init_def frontier_ok_def split: if_splits)

lemma frontier_initial:
  assumes "frontier_ok x" and "frontier_program x p" and "in_unit q"
  shows "\<exists>s. fr_initial_state x p q = Inr s \<and> frontier_inv x p s \<and> ft_seen s = []"
proof -
  have v: "valid_program p" "cp_counter_count p = fr_counter_count x" "fr_min x \<le> cp_length p" "cp_length p \<le> fr_max x"
    using assms(2) by (simp_all add: frontier_program_def)
  obtain h where h: "h = \<lparr>fh_program = p, fh_parent = None, fh_depth = 0, fh_quality = q,
      fh_schema = CONTROL_FLOW_FRONTIER_HYPOTHESIS_SCHEMA\<rparr>" by blast
  have ok: "fh_ok h" using v(1) assms(3) by (simp add: fh_ok_def h)
  then have mk: "mk_hypothesis p None 0 q = Inr h" by (simp add: mk_hypothesis_def fh_validate_Inr h)
  obtain zeros where z: "zeros = replicate 4 (Fin 0)" by blast
  have zs: "stat_ok 4 zeros" "stat_sum zeros = 0" unfolding z by (rule stat_ok_zeros, rule stat_sum_zeros)
  obtain s where s: "s = \<lparr>ft_hypotheses = [h], ft_totals = zeros, ft_counts = zeros, ft_accepts = zeros,
                 ft_fails = zeros, ft_seen = [], ft_root = digest_of p, ft_evaluations = 0, ft_accepted = 0,
                 ft_best_quality = q, ft_schema = CONTROL_FLOW_FRONTIER_SCHEMA\<rparr>" by blast
  have st: "ft_ok s" using v zs assms(3) digest_of_ok [OF v(1)] by (simp add: ft_ok_def s h)
  have q: "\<not> \<not> (Fin 0 \<le> q \<and> q \<le> Fin 1)" using assms(3) by (simp add: in_unit_alt)
  have "fr_initial_state x p q = Inr s"
    unfolding fr_initial_state_def Let_def length_frontier_operators z [symmetric] mk
    using v q st by (simp add: cp_validate_cases digest_of_valid ft_validate_Inr s)
  moreover have "frontier_inv x p s"
    using assms st ok by (simp add: frontier_inv_def s h frontier_ok_def)
  ultimately show ?thesis by (auto simp: s)
qed

text \<open>What a beam holds after pruning: the root and the best of the rest.\<close>

lemma fr_prune_eq:
  assumes "\<forall>h\<in>set hs. valid_program (fh_program h)" and "h_digest h = d" and "valid_program (fh_program h)"
  shows "fr_prune x (h # hs) d = Inr (h # map snd (take (nat (fr_beam x - 1))
    (sort_key hypothesis_key (filter (\<lambda>dh. fst dh \<noteq> d) (map (\<lambda>h. (h_digest h, h)) hs)))))"
proof -
  have "map_r (\<lambda>h. bind_r (cp_digest (fh_program h)) (\<lambda>d. Inr (d, h))) (h # hs) = Inr (map (\<lambda>h. (h_digest h, h)) (h # hs))"
    by (rule map_r_total) (use assms(1,3) in \<open>auto simp: digest_of_valid\<close>)
  then show ?thesis unfolding fr_prune_def bind_r_Inr by (simp add: assms(2))
qed

lemma fr_prune_shape:
  assumes "\<forall>h\<in>set hs. valid_program (fh_program h)" and "h_digest h = d" and "valid_program (fh_program h)"
    and "distinct (map h_digest (filter (\<lambda>h. h_digest h \<noteq> d) hs))" and "1 \<le> fr_beam x"
  shows "\<exists>ks. fr_prune x (h # hs) d = Inr (h # ks) \<and> set ks \<subseteq> set hs \<and> d \<notin> h_digest ` set ks
    \<and> distinct (map h_digest ks) \<and> int (length (h # ks)) \<le> fr_beam x"
proof -
  obtain tags where tags: "tags = filter (\<lambda>dh. fst dh \<noteq> d) (map (\<lambda>h. (h_digest h, h)) hs)" by blast
  obtain ks where ks: "ks = map snd (take (nat (fr_beam x - 1)) (sort_key hypothesis_key tags))" by blast
  have pair: "fst dh = h_digest (snd dh)" if "dh \<in> set tags" for dh using that by (auto simp: tags)
  have sub: "set (take (nat (fr_beam x - 1)) (sort_key hypothesis_key tags)) \<subseteq> set tags"
    using set_take_subset [of _ "sort_key hypothesis_key tags"] by simp
  have "map (h_digest \<circ> snd) tags = map h_digest (filter (\<lambda>h. h_digest h \<noteq> d) hs)"
    by (simp add: tags filter_map comp_def)
  then have "distinct (map (h_digest \<circ> snd) tags)" using assms(4) by simp
  then have "inj_on (h_digest \<circ> snd) (set tags)" "distinct tags" by (auto simp: distinct_map)
  then have "distinct (map (h_digest \<circ> snd) (take (nat (fr_beam x - 1)) (sort_key hypothesis_key tags)))"
    using sub by (auto simp: distinct_map intro: inj_on_subset)
  then have "distinct (map h_digest ks)" by (simp add: ks)
  moreover have "set ks \<subseteq> set hs" "d \<notin> h_digest ` set ks" using sub by (force simp: ks tags)+
  moreover have "int (length (h # ks)) \<le> fr_beam x" using assms(5) by (simp add: ks)
  moreover have "fr_prune x (h # hs) d = Inr (h # ks)"
    unfolding ks tags by (rule fr_prune_eq [OF assms(1-3)])
  ultimately show ?thesis by blast
qed
section \<open>Proposing\<close>

text \<open>A proposal the frontier may make: valid, recordable now, a new edit of a beam member.\<close>

definition fresh_edit :: "frontier \<Rightarrow> frontier_state \<Rightarrow> frontier_proposal \<Rightarrow> bool" where
  "fresh_edit x s r \<longleftrightarrow> gp_ok r \<and> gp_factors r \<noteq> None \<and> gp_attempt r = ft_evaluations s
     \<and> digest_of (gp_program r) \<notin> set (ft_seen s)
     \<and> (\<exists>h\<in>set (ft_hypotheses s). fh_depth h < fr_max_depth x \<and> gp_parent r = h_digest h
          \<and> frontier_edit x (fh_program h) (nat (gp_index r)) (gp_program r))"

lemma mk_proposal_fresh_edit:
  assumes "frontier_inv x p0 s" and h: "h \<in> set (fr_eligible x s)" and e: "frontier_edit x (fh_program h) k q"
    and new: "digest_of q \<noteq> h_digest h" "digest_of q \<notin> set (ft_seen s)"
    and f: "ff_ok f" "pf_operator f = int k" and prob: "0 < probability" "probability \<le> 1" and c: "scope_ok c"
  shows "\<exists>r. mk_frontier_proposal s q (h_digest h) k probability c f = Inr r \<and> fresh_edit x s r"
proof -
  have h': "h \<in> set (ft_hypotheses s)" "fh_depth h < fr_max_depth x" using h by (auto simp: fr_eligible_def)
  then have fp: "frontier_program x (fh_program h)" and v: "valid_program (fh_program h)"
    using assms(1) by (auto simp: frontier_inv_def fh_ok_def)
  note q = frontier_edit_ok [OF e fp]
  obtain r where r: "r = \<lparr>gp_program = q, gp_parent = h_digest h,
       gp_operator = CONTROL_FLOW_FRONTIER_MUTATION_OPERATORS ! k, gp_index = int k, gp_attempt = ft_evaluations s,
       gp_probability = Fin probability, gp_context = c, gp_factors = Some f,
       gp_schema = CONTROL_FLOW_FRONTIER_PROPOSAL_SCHEMA\<rparr>" by blast
  have "0 \<le> ft_evaluations s" using assms(1) by (auto simp: frontier_inv_def ft_ok_def)
  then have "gp_ok r" using q(1,2) new(1) f prob c digest_of_ok [OF v] by (simp add: gp_ok_def r in_range_def)
  then show ?thesis
    using h' e new(2) by (auto simp: mk_frontier_proposal_def gp_validate_Inr r fresh_edit_def)
qed

lemma fr_parent_cases:
  assumes "torch_ok torch" and "rng_ok rng"
  shows "fr_parent torch rng x s g = Inl RuntimeError
    \<or> (\<exists>h g'. fr_parent torch rng x s g = Inr (h, g') \<and> h \<in> set (fr_eligible x s))"
proof (cases "fr_eligible x s = []")
  case False
  obtain ps where ps: "ps = tl_softmax torch (map (\<lambda>h. fin_val (fh_quality h) / fr_temperature x) (fr_eligible x s))" by blast
  obtain i g' where i: "rng_multinomial rng g ps = (i, g')" by (cases "rng_multinomial rng g ps")
  have p: "length ps = length (fr_eligible x s)" "\<forall>p\<in>set ps. 0 < p"
    using assms(1) by (simp_all add: torch_ok_def ps)
  then have "ps \<noteq> []" using False by auto
  then have "\<exists>p\<in>set ps. 0 < p" using p(2) by (cases ps) auto
  moreover have "\<forall>p\<in>set ps. 0 \<le> p" using p(2) less_imp_le by blast
  ultimately have "i < length (fr_eligible x s)" using rng_ok_draw [OF assms(2), of ps g] i p(1) by simp
  moreover have "fr_parent torch rng x s g = Inr (fr_eligible x s ! i, g')"
    unfolding fr_parent_def Let_def ps [symmetric] i using False by simp
  ultimately show ?thesis by simp
qed (simp add: fr_parent_def)

lemma eligible_program:
  assumes "frontier_inv x p0 s" and "h \<in> set (fr_eligible x s)"
  shows "frontier_program x (fh_program h)" and "valid_program (fh_program h)"
  using assms by (auto simp: frontier_inv_def fr_eligible_def frontier_program_def)

text \<open>The unseen candidates, with their factors.\<close>

lemma fr_unseen_spec:
  assumes "\<forall>k q. (k, q) \<in> set cs \<longrightarrow> valid_program q \<and> (\<exists>f. fr_factors p k q = Inr f)"
  shows "\<exists>av. fr_unseen p seen cs = Inr av
    \<and> (\<forall>k q f. (k, q, f) \<in> set av \<longrightarrow> (k, q) \<in> set cs \<and> digest_of q \<notin> set seen \<and> fr_factors p k q = Inr f)"
  using assms
proof (induction cs)
  case (Cons c cs)
  obtain k q where c: "c = (k, q)" by (cases c)
  obtain av where av: "fr_unseen p seen cs = Inr av"
      "\<forall>k q f. (k, q, f) \<in> set av \<longrightarrow> (k, q) \<in> set cs \<and> digest_of q \<notin> set seen \<and> fr_factors p k q = Inr f"
    using Cons by auto
  obtain f where f: "fr_factors p k q = Inr f" and v: "valid_program q" using Cons.prems by (auto simp: c)
  show ?case
  proof (cases "digest_of q \<in> set seen")
    case True
    then show ?thesis using av v by (auto simp: c digest_of_valid)
  next
    case False
    then show ?thesis using av v f by (auto simp: c digest_of_valid)
  qed
qed simp

lemma policy_proposal_cases:
  assumes "torch_ok torch" and "softmax_sums torch" and "rng_ok rng" and inv: "frontier_inv x p0 s" and "scope_ok c"
    and "fm_ok P"
  shows "policy_proposal math torch rng x P s c g = Inl RuntimeError
    \<or> (\<exists>r g'. policy_proposal math torch rng x P s c g = Inr (r, g') \<and> fresh_edit x s r)"
proof (cases "fr_parent torch rng x s g")
  case (Inl e)
  then show ?thesis using fr_parent_cases [OF assms(1,3), of x s g] by (auto simp: policy_proposal_def)
next
  case (Inr hg)
  then obtain h g1 where h: "fr_parent torch rng x s g = Inr (h, g1)" "h \<in> set (fr_eligible x s)"
    using fr_parent_cases [OF assms(1,3), of x s g] by auto
  note p = eligible_program [OF inv h(2)]
  obtain cs where cs: "fr_candidates x (fh_program h) = Inr cs"
      "\<forall>k q. (k, q) \<in> set cs \<longrightarrow> frontier_edit x (fh_program h) k q \<and> digest_of q \<noteq> h_digest h"
    using fr_candidates_spec [OF p(1)] by blast
  have facts: "valid_program q \<and> digest_of q \<noteq> h_digest h \<and> frontier_edit x (fh_program h) k q
      \<and> (\<exists>f. fr_factors (fh_program h) k q = Inr f \<and> ff_ok f \<and> pf_operator f = int k)" if "(k, q) \<in> set cs" for k q
    using cs(2) that frontier_edit_ok(2) [OF _ p(1)] fr_factors_total [OF _ p(1)] by blast
  then obtain av where av: "fr_unseen (fh_program h) (ft_seen s) cs = Inr av"
      "\<forall>k q f. (k, q, f) \<in> set av \<longrightarrow> (k, q) \<in> set cs \<and> digest_of q \<notin> set (ft_seen s) \<and> fr_factors (fh_program h) k q = Inr f"
    using fr_unseen_spec [of cs "fh_program h" "ft_seen s"] by blast
  obtain ds fs where dfs: "ds = map (\<lambda>(k, q, f). digest_of q) av" "fs = map (\<lambda>(k, q, f). f) av" by blast
  have start: "policy_proposal math torch rng x P s c g =
      (if av = [] then Inl RuntimeError
       else bind_r (map_r (\<lambda>(k, p, f). cp_digest p) av) (\<lambda>digests.
         bind_r (pm_select math torch rng P c digests fs g1) (\<lambda>(selected, probability, g2).
           case av ! selected of (k, q, f) \<Rightarrow>
             bind_r (mk_frontier_proposal s q (h_digest h) k probability c f) (\<lambda>r. Inr (r, g2)))))"
    unfolding policy_proposal_def h(1) bind_r_Inr prod.case cs(1) av(1) dfs digest_of_valid [OF p(2)] ..
  have in_av: "valid_program q \<and> digest_of q \<noteq> h_digest h \<and> frontier_edit x (fh_program h) k q
      \<and> digest_of q \<notin> set (ft_seen s) \<and> ff_ok f \<and> pf_operator f = int k" if "(k, q, f) \<in> set av" for k q f
    using facts av(2) that by (metis sum.inject(2))
  have digests: "map_r (\<lambda>(k, p, f). cp_digest p) av = Inr ds"
    unfolding dfs by (rule map_r_total) (use in_av in \<open>auto simp: digest_of_valid\<close>)
  show ?thesis
  proof (cases "av = []")
    case True
    then show ?thesis by (simp add: start)
  next
    case False
    have "\<forall>d\<in>set ds. digest_ok d" "\<forall>f\<in>set fs. ff_ok f"
      using in_av digest_of_ok by (auto simp: dfs)
    moreover have "length ds = length fs" "fs \<noteq> []" using False by (simp_all add: dfs)
    ultimately obtain i p g2 where sel: "pm_select math torch rng P c ds fs g1 = Inr (i, p, g2)" "i < length fs" "0 < p" "p \<le> 1"
      using pm_select_spec [OF assms(1-3,6,5)] by blast
    obtain k q f where kqf: "av ! i = (k, q, f)" by (cases "av ! i")
    then have "(k, q, f) \<in> set av" using sel(2) by (metis dfs(2) length_map nth_mem)
    note chosen = in_av [OF this]
    obtain r where "mk_frontier_proposal s q (h_digest h) k p c f = Inr r" "fresh_edit x s r"
      using mk_proposal_fresh_edit [OF inv h(2), of k q f p c] chosen sel(3,4) assms(5) by blast
    then show ?thesis unfolding start digests bind_r_Inr sel(1) prod.case kqf using False by simp
  qed
qed
section \<open>Random attempts\<close>

lemma frontier_operator_weights:
  assumes "torch_ok torch" and "ft_ok s"
  shows "length (fr_operator_probabilities torch x s p) = 4
    \<and> (\<forall>k<4. if fr_available x p ! k then 0 < fr_operator_probabilities torch x s p ! k
             else fr_operator_probabilities torch x s p ! k = 0)"
proof -
  have m: "length (fr_available x p) = 4" by (simp add: fr_available_def)
  have n: "length (ft_totals s) = 4" "length (ft_counts s) = 4" using assms(2) by (simp_all add: ft_ok_def stat_ok_def)
  obtain scores where scores: "scores = map2 (\<lambda>t c.
            let mean = (if fin_val c > 0 then fin_val t / max (fin_val c) 1 else 0)
            in mean + fr_exploration x * tl_sqrt torch (tl_log torch (of_int (ft_evaluations s + 1)) / (fin_val c + 1)))
            (ft_totals s) (ft_counts s)" by blast
  have l: "length scores = length (fr_available x p)" by (simp add: scores n m)
  obtain ps where ps: "ps = tl_softmax torch (map snd (filter fst (zip (fr_available x p) scores)))" by blast
  have "length ps = length (filter id (fr_available x p))"
    using assms(1) length_masked [OF l] by (simp add: ps torch_ok_def)
  note spec = scatter_spec [OF this]
  have pos: "q \<in> set ps \<Longrightarrow> 0 < q" for q using assms(1) by (simp add: ps torch_ok_def)
  have eq: "fr_operator_probabilities torch x s p = scatter (fr_available x p) ps"
    unfolding fr_operator_probabilities_def Let_def ps scores ..
  have "length (scatter (fr_available x p) ps) = 4" using spec(1) [of 0] m by simp
  moreover have "if fr_available x p ! k then 0 < scatter (fr_available x p) ps ! k
      else scatter (fr_available x p) ps ! k = 0" if "k < 4" for k
    using spec(2,3) [of k] pos that m by (auto split: if_splits)
  ultimately show ?thesis unfolding eq by blast
qed

text \<open>A drawn edit is an edit of the neighbourhood, or fails with one of two exceptions.\<close>

definition drawn_edit :: "frontier \<Rightarrow> cf_program \<Rightarrow> nat \<Rightarrow> cf_program result \<Rightarrow> bool" where
  "drawn_edit x p k r \<longleftrightarrow> (case r of Inl e \<Rightarrow> e \<in> {ValueError, RuntimeError} | Inr q \<Rightarrow> frontier_edit x p k q)"

lemma fr_mutate_spec:
  assumes "rng_ok rng" and "frontier_program x p" and "k < 4" and "fr_available x p ! k"
  shows "drawn_edit x p k (fst (fr_mutate rng x p k g))"
proof -
  have v: "valid_program p" "cp_counter_count p = fr_counter_count x" "2 \<le> fr_counter_count x" "1 \<le> cp_length p"
    using assms(2) cp_length_pos [of p] by (auto simp: frontier_program_def valid_program_iff)
  obtain "is" where code: "is = cp_instructions p" by blast
  have l: "cp_length p = int (length is)" by (simp add: cp_length_def code)
  have draw: "draw_below rng g n = Inl RuntimeError \<or> (\<exists>j g'. draw_below rng g n = Inr (j, g') \<and> j < n)" for g n
    using draw_below_less [OF assms(1)] by (cases n) (auto simp: draw_below_def)
  have bank: "control_flow_instruction_bank (fr_counter_count x) m = Inr (bank_list (fr_counter_count x) m)"
    if "1 \<le> m" for m using v(3) that by (simp add: control_flow_instruction_bank_def)
  have atom: "valid_instruction (fr_counter_count x) m (bank_list (fr_counter_count x) m ! j) \<and> ci_op (bank_list (fr_counter_count x) m ! j) \<noteq> Halt"
    if "j < length (bank_list (fr_counter_count x) m)" "1 \<le> m" for m j
    using bank_iff [OF v(3) that(2)] that(1) nth_mem by blast
  note defs = fr_mutate_def Let_def code [symmetric]
  note edit = frontier_edit_def Let_def code [symmetric] v(2)
  consider "k = 0" | "k = 1" | "k = 2" | "k = 3" using assms(3) by linarith
  then show ?thesis
  proof cases
    case 1
    from draw [of g "length is - 1"] show ?thesis
    proof (elim disjE exE conjE)
      fix j g1 assume j: "draw_below rng g (length is - 1) = Inr (j, g1)" "j < length is - 1"
      from draw [of g1 "length (bank_list (fr_counter_count x) (cp_length p))"] show ?thesis
      proof (elim disjE exE conjE)
        fix i g2 assume i: "draw_below rng g1 (length (bank_list (fr_counter_count x) (cp_length p))) = Inr (i, g2)"
          "i < length (bank_list (fr_counter_count x) (cp_length p))"
        obtain a where a: "a = bank_list (fr_counter_count x) (cp_length p) ! i" by blast
        have va: "valid_instruction (fr_counter_count x) (cp_length p) a" "ci_op a \<noteq> Halt"
          using atom [OF i(2) v(4)] by (simp_all add: a)
        have "valid_program (mk_program (fr_counter_count x) (is[j := a]))"
          using valid_update [OF v(1), of j a] j(2) va by (simp add: code v(2))
        then have "fst (fr_mutate rng x p k g) = Inr (mk_program (fr_counter_count x) (is[j := a]))"
          unfolding defs using 1 j(1) i(1) bank [OF v(4)] by (simp add: a [symmetric] cp_validate_cases)
        moreover have "frontier_edit x p k (mk_program (fr_counter_count x) (is[j := a]))"
          unfolding edit using 1 j(2) va by blast
        ultimately show ?thesis by (simp add: drawn_edit_def)
      qed (use 1 j(1) bank [OF v(4)] in \<open>simp add: defs drawn_edit_def\<close>)
    qed (use 1 in \<open>simp add: defs drawn_edit_def\<close>)
  next
    case 2
    then have room: "cp_length p < fr_max x" using assms(4) by (simp add: fr_available_def)
    have l1: "1 \<le> cp_length p + 1" using v(4) by simp
    from draw [of g "length is - 1 + 1"] show ?thesis
    proof (elim disjE exE conjE)
      fix j g1 assume j: "draw_below rng g (length is - 1 + 1) = Inr (j, g1)"
      from draw [of g1 "length (bank_list (fr_counter_count x) (cp_length p + 1))"] show ?thesis
      proof (elim disjE exE conjE)
        fix i g2 assume i: "draw_below rng g1 (length (bank_list (fr_counter_count x) (cp_length p + 1))) = Inr (i, g2)"
        obtain a where a: "a = bank_list (fr_counter_count x) (cp_length p + 1) ! i" by blast
        have "fst (fr_mutate rng x p k g) = insert_control_flow_instruction p (int j) a"
          unfolding defs using 2 j i bank [OF l1] by (simp add: a)
        then show ?thesis
          unfolding drawn_edit_def edit using 2 room edit_errors(1) by (auto split: sum.splits)
      qed (use 2 j bank [OF l1] in \<open>simp add: defs drawn_edit_def\<close>)
    qed (use 2 in \<open>simp add: defs drawn_edit_def\<close>)
  next
    case 3
    then have room: "fr_min x < cp_length p" using assms(4) by (simp add: fr_available_def numeral_2_eq_2)
    from draw [of g "length is - 1"] show ?thesis
    proof (elim disjE exE conjE)
      fix j g1 assume j: "draw_below rng g (length is - 1) = Inr (j, g1)"
      have "fst (fr_mutate rng x p k g) = delete_control_flow_instruction p (int j)"
        unfolding defs using 3 j by simp
      then show ?thesis
        unfolding drawn_edit_def edit using 3 room edit_errors(2) by (auto split: sum.splits)
    qed (use 3 in \<open>simp add: defs drawn_edit_def\<close>)
  next
    case 4
    from draw [of g "length is - 1"] show ?thesis
    proof (elim disjE exE conjE)
      fix i g1 assume i: "draw_below rng g (length is - 1) = Inr (i, g1)" "i < length is - 1"
      from draw [of g1 "length is - 1 - 1"] show ?thesis
      proof (elim disjE exE conjE)
        fix d g2 assume d: "draw_below rng g1 (length is - 1 - 1) = Inr (d, g2)" "d < length is - 1 - 1"
        obtain j where j: "j = (if d \<ge> i then d + 1 else d)" by blast
        have ij: "i \<noteq> j" "j < length is - 1" using d(2) by (auto simp: j)
        obtain js where js: "js = is[i := is ! j, j := is ! i]" by blast
        have sw: "is[i := is ! j, j := is ! i] = is[j := is ! i, i := is ! j]" using list_update_swap ij(1) by metis
        have e: "\<exists>a b. a < b \<and> b < length is - 1 \<and> js = is[a := is ! b, b := is ! a]"
        proof (cases "i < j")
          case True
          then show ?thesis using ij(2) js by blast
        next
          case False
          then have "j < i" using ij(1) by simp
          then show ?thesis using i(2) js sw by metis
        qed
        then have "valid_program (mk_program (fr_counter_count x) js)"
          using valid_exchange [OF v(1)] by (auto simp: code v(2))
        then have "fst (fr_mutate rng x p k g) = Inr (mk_program (fr_counter_count x) js)"
          unfolding defs using 4 i(1) d(1) by (simp add: js j cp_validate_cases)
        moreover have "frontier_edit x p k (mk_program (fr_counter_count x) js)"
          unfolding edit using 4 e by blast
        ultimately show ?thesis by (simp add: drawn_edit_def)
      qed (use 4 i(1) in \<open>simp add: defs drawn_edit_def\<close>)
    qed (use 4 in \<open>simp add: defs drawn_edit_def\<close>)
  qed
qed
lemma mutation_attempts_spec:
  assumes "torch_ok torch" and "rng_ok rng" and inv: "frontier_inv x p0 s" and h: "h \<in> set (fr_eligible x s)" and "scope_ok c"
  shows "mutation_attempts fuel torch rng x s (fh_program h) c excluded g = Inl RuntimeError
    \<or> (\<exists>found g'. mutation_attempts fuel torch rng x s (fh_program h) c excluded g = Inr (found, g')
        \<and> (\<forall>r. found = Some r \<longrightarrow> fresh_edit x s r))"
proof (induction fuel arbitrary: excluded g)
  case 0
  then show ?case by simp
next
  case (Suc fuel)
  let ?p = "fh_program h"
  note p = eligible_program [OF inv h]
  have st: "ft_ok s" using inv by (simp add: frontier_inv_def)
  obtain os where os: "os = fr_operator_probabilities torch x s ?p" "length os = 4"
      "\<forall>k<4. if fr_available x ?p ! k then 0 < os ! k else os ! k = 0"
    using frontier_operator_weights [OF assms(1) st] by blast
  obtain ws where ws: "ws = map (\<lambda>(i, q). if i \<in> excluded then 0 else q) (zip [0..<4] os)" by blast
  have len: "length ws = 4" and w: "ws ! k = (if k \<in> excluded then 0 else os ! k)" if "k < 4" for k
    using that os(2) by (simp_all add: ws)
  have len: "length ws = 4" using os(2) by (simp add: ws)
  have nn: "0 \<le> ws ! k" if "k < 4" for k using w [OF that] os(3) that by (auto split: if_splits)
  have nonneg: "\<forall>w\<in>set ws. 0 \<le> w" using nn len by (metis in_set_conv_nth)
  have step: "mutation_attempts (Suc fuel) torch rng x s ?p c excluded g =
      (if sum_list ws \<le> 0 then Inr (None, g)
       else case rng_multinomial rng g (map (\<lambda>p. p / sum_list ws) ws) of (k, g1) \<Rightarrow>
        (case fr_mutate rng x ?p k g1 of
           (Inl e, g2) \<Rightarrow> if e = ValueError then mutation_attempts fuel torch rng x s ?p c (insert k excluded) g2 else Inl e
         | (Inr q, g2) \<Rightarrow>
             bind_r (cp_digest q) (\<lambda>digest. bind_r (cp_digest ?p) (\<lambda>parent_digest.
               if digest = parent_digest then mutation_attempts fuel torch rng x s ?p c excluded g2
               else if digest \<in> set (ft_seen s) then mutation_attempts fuel torch rng x s ?p c (insert k excluded) g2
               else bind_r (fr_factors ?p k q) (\<lambda>f.
                    bind_r (mk_frontier_proposal s q parent_digest k (map (\<lambda>p. p / sum_list ws) ws ! k) c f) (\<lambda>r.
                      Inr (Some r, g2)))))))"
    unfolding mutation_attempts.simps os(1) [symmetric] ws [symmetric] Let_def ..
  show ?case
  proof (cases "sum_list ws \<le> 0")
    case True
    then show ?thesis unfolding step by simp
  next
    case False
    then have pos: "0 < sum_list ws" by simp
    obtain qs where qs: "qs = map (\<lambda>p. p / sum_list ws) ws" by blast
    have q_nth: "qs ! k = ws ! k / sum_list ws" if "k < 4" for k using that len by (simp add: qs)
    have lq: "length qs = 4" by (simp add: qs len)
    obtain u where "u \<in> set ws" "0 < u" using pos sum_list_nonpos [of ws] by force
    then have "u / sum_list ws \<in> set qs" "0 < u / sum_list ws" using pos by (simp_all add: qs)
    then have ex: "\<exists>q\<in>set qs. 0 < q" by blast
    have "\<forall>q\<in>set qs. 0 \<le> q" using nonneg pos by (auto simp: qs)
    then have drawn: "fst (rng_multinomial rng g qs) < 4" "0 < qs ! fst (rng_multinomial rng g qs)"
      using rng_ok_draw [OF assms(2) _ ex] lq by simp_all
    obtain k g1 where k: "rng_multinomial rng g qs = (k, g1)" by (cases "rng_multinomial rng g qs")
    have k4: "k < 4" "0 < qs ! k" using drawn by (simp_all add: k)
    then have "ws ! k \<noteq> 0" using q_nth by auto
    then have avail: "fr_available x ?p ! k" using w [OF k4(1)] os(3) k4(1) by (auto split: if_splits)
    have le1: "qs ! k \<le> 1"
      using member_le_sum_list [of "ws ! k" ws] nonneg k4(1) len pos by (simp add: q_nth divide_le_eq)
    obtain r g2 where mut: "fr_mutate rng x ?p k g1 = (r, g2)" by (cases "fr_mutate rng x ?p k g1")
    have de: "drawn_edit x ?p k r" using fr_mutate_spec [OF assms(2) p(1) k4(1) avail, of g1] by (simp add: mut)
    show ?thesis
    proof (cases r)
      case (Inl e)
      then have "e = ValueError \<or> e = RuntimeError" using de by (simp add: drawn_edit_def)
      then show ?thesis
        using Suc.IH [of "insert k excluded" g2] pos
        unfolding step qs [symmetric] k prod.case mut Inl sum.case by auto
    next
      case (Inr q)
      then have e: "frontier_edit x ?p k q" using de by (simp add: drawn_edit_def)
      have v: "valid_program q" by (rule frontier_edit_ok(2) [OF e p(1)])
      have run: "mutation_attempts (Suc fuel) torch rng x s ?p c excluded g =
         (if digest_of q = h_digest h then mutation_attempts fuel torch rng x s ?p c excluded g2
          else if digest_of q \<in> set (ft_seen s) then mutation_attempts fuel torch rng x s ?p c (insert k excluded) g2
          else bind_r (fr_factors ?p k q) (\<lambda>f.
                    bind_r (mk_frontier_proposal s q (h_digest h) k (qs ! k) c f) (\<lambda>r. Inr (Some r, g2))))"
        unfolding step qs [symmetric] k prod.case mut Inr sum.case using False
        by (simp add: digest_of_valid [OF v] digest_of_valid [OF p(2)])
      show ?thesis
      proof (cases "digest_of q = h_digest h \<or> digest_of q \<in> set (ft_seen s)")
        case True
        then show ?thesis using Suc.IH [of excluded g2] Suc.IH [of "insert k excluded" g2] unfolding run by auto
      next
        case new: False
        obtain f where f: "fr_factors ?p k q = Inr f" "ff_ok f" "pf_operator f = int k"
          using fr_factors_total [OF e p(1)] new by blast
        obtain r' where "mk_frontier_proposal s q (h_digest h) k (qs ! k) c f = Inr r'" "fresh_edit x s r'"
          using mk_proposal_fresh_edit [OF inv h e _ _ f(2,3) k4(2) le1 assms(5)] new by blast
        then show ?thesis unfolding run f(1) using new by simp
      qed
    qed
  qed
qed

lemma parent_attempts_spec:
  assumes "torch_ok torch" and "rng_ok rng" and "frontier_inv x p0 s" and "scope_ok c"
  shows "parent_attempts fuel torch rng x s c g = Inl RuntimeError
    \<or> (\<exists>r g'. parent_attempts fuel torch rng x s c g = Inr (r, g') \<and> fresh_edit x s r)"
proof (induction fuel arbitrary: g)
  case 0
  then show ?case by simp
next
  case (Suc fuel)
  from fr_parent_cases [OF assms(1,2), of x s g] show ?case
  proof (elim disjE exE conjE)
    fix h g1 assume h: "fr_parent torch rng x s g = Inr (h, g1)" "h \<in> set (fr_eligible x s)"
    from mutation_attempts_spec [OF assms(1-3) h(2) assms(4), of "nat (fr_retries x)" "{}" g1] show ?thesis
    proof (elim disjE exE conjE)
      fix found g2
      assume m: "mutation_attempts (nat (fr_retries x)) torch rng x s (fh_program h) c {} g1 = Inr (found, g2)"
        and f: "\<forall>r. found = Some r \<longrightarrow> fresh_edit x s r"
      show ?thesis using f Suc.IH [of g2] by (cases found) (simp_all add: h(1) m)
    qed (simp add: h(1))
  qed simp
qed

lemma fr_propose_cases:
  assumes "torch_ok torch" and "softmax_sums torch" and "rng_ok rng" and "frontier_inv x p0 s" and "scope_ok c"
  shows "fr_propose math torch rng x s c g = Inl RuntimeError
    \<or> (\<exists>r g'. fr_propose math torch rng x s c g = Inr (r, g') \<and> fresh_edit x s r)"
proof -
  have "ft_validate s = Inr s" using assms(4) by (simp add: frontier_inv_def ft_validate_Inr)
  moreover have "\<not> (c = [] \<or> NUL \<in> set c)" using assms(5) by (simp add: scope_ok_def)
  ultimately have start: "fr_propose math torch rng x s c g = (case fr_policy x of
               Some P \<Rightarrow> policy_proposal math torch rng x P s c g
             | None \<Rightarrow> parent_attempts (nat (fr_retries x)) torch rng x s c g)"
    unfolding fr_propose_def by simp
  have "fm_ok P" if "fr_policy x = Some P" for P
    using assms(4) that by (simp add: frontier_inv_def frontier_ok_def)
  then show ?thesis
    using policy_proposal_cases [OF assms] parent_attempts_spec [OF assms(1,3-5)]
    unfolding start by (cases "fr_policy x") simp_all
qed
section \<open>Recording\<close>

definition ft_recorded :: "frontier_state \<Rightarrow> frontier_proposal \<Rightarrow> bool \<Rightarrow> pyfloat \<Rightarrow> frontier_hypothesis list \<Rightarrow> frontier_state" where
  "ft_recorded s r accepted quality kept =
     \<lparr>ft_hypotheses = kept, ft_totals = bump (ft_totals s) (gp_index r) quality,
      ft_counts = bump (ft_counts s) (gp_index r) (Fin 1),
      ft_accepts = (if accepted then bump (ft_accepts s) (gp_index r) (Fin 1) else ft_accepts s),
      ft_fails = (if accepted then ft_fails s else bump (ft_fails s) (gp_index r) (Fin 1)),
      ft_seen = ft_seen s @ [digest_of (gp_program r)], ft_root = ft_root s, ft_evaluations = ft_evaluations s + 1,
      ft_accepted = ft_accepted s + (if accepted then 1 else 0),
      ft_best_quality = py_max (ft_best_quality s) quality, ft_schema = CONTROL_FLOW_FRONTIER_SCHEMA\<rparr>"

definition new_hypothesis :: "frontier_proposal \<Rightarrow> frontier_hypothesis \<Rightarrow> pyfloat \<Rightarrow> frontier_hypothesis" where
  "new_hypothesis r h quality = \<lparr>fh_program = gp_program r, fh_parent = Some (gp_parent r), fh_depth = fh_depth h + 1,
     fh_quality = quality, fh_schema = CONTROL_FLOW_FRONTIER_HYPOTHESIS_SCHEMA\<rparr>"

text \<open>The beam before pruning: a provisional child joins it when its quality reaches the minimum.\<close>

definition grown_beam :: "frontier \<Rightarrow> frontier_state \<Rightarrow> frontier_proposal \<Rightarrow> frontier_hypothesis \<Rightarrow> pyfloat \<Rightarrow> frontier_hypothesis list" where
  "grown_beam x s r h quality = ft_hypotheses s @
     (if Fin (fr_minimum_quality x) \<le> quality then [new_hypothesis r h quality] else [])"

lemma find_parent_eq:
  assumes "\<forall>h\<in>set hs. valid_program (fh_program h)" and "distinct (map h_digest hs)" and "h \<in> set hs"
  shows "find_parent (h_digest h) hs = Inr h"
  using assms by (induction hs) (auto simp: digest_of_valid rev_image_eqI)

lemma counter_card:
  assumes "hs \<noteq> []" and "\<forall>h\<in>set hs. cp_counter_count (fh_program h) = n"
  shows "card ((\<lambda>h. cp_counter_count (fh_program h)) ` set hs) = 1"
proof -
  have "(\<lambda>h. cp_counter_count (fh_program h)) ` set hs = {n}" using assms by (cases hs) auto
  then show ?thesis by simp
qed

lemma ft_recorded_ok:
  assumes "ft_ok s" and "gp_ok r" and "digest_of (gp_program r) \<notin> set (ft_seen s)" and "in_unit quality"
    and "kept \<noteq> []" and "\<forall>h\<in>set kept. valid_program (fh_program h) \<and> cp_counter_count (fh_program h) = n"
    and "distinct (map h_digest kept)" and "ft_root s \<in> h_digest ` set kept"
  shows "ft_ok (ft_recorded s r accepted quality kept)"
proof -
  obtain q where q: "quality = Fin q" "0 \<le> q" using assms(4) by (auto simp: in_unit_iff)
  have i: "in_range (gp_index r) 4" using assms(2) by (simp add: gp_ok_def)
  have "card ((\<lambda>h. cp_counter_count (fh_program h)) ` set kept) = 1" using counter_card assms(5,6) by blast
  then show ?thesis
    using assms(1) [unfolded ft_ok_def] assms(3-8) bump_ok [OF _ i] bump_sum [OF _ i] q
    by (simp add: ft_ok_def ft_recorded_def py_max_unit)
qed

lemma fr_record_eq:
  assumes inv: "frontier_inv x p0 s" and fresh: "fresh_edit x s r" and ev: "search_evidence_ok (vs, threshold, mo, ms)"
    and h: "h \<in> set (ft_hypotheses s)" "gp_parent r = h_digest h"
      "frontier_edit x (fh_program h) (nat (gp_index r)) (gp_program r)"
    and pol: "case fr_policy x of None \<Rightarrow> P' = None
        | Some P \<Rightarrow> (\<exists>f m. gp_factors r = Some f \<and> pm_record P (gp_context r) (quality_of vs) f = (m, None) \<and> P' = Some m)"
    and kept: "fr_prune x (grown_beam x s r h (quality_of vs)) (ft_root s) = Inr kept"
    and ok: "ft_ok (ft_recorded s r (admissible vs threshold mo ms) (quality_of vs) kept)"
  shows "fr_record_outcomes x s r (vs, threshold, mo, ms) =
    Inr (\<lparr>gb_proposal = r, gb_quality = quality_of vs, gb_accepted = admissible vs threshold mo ms,
          gb_stable = stable_from (fin_val threshold) ms 0 (map fin_val vs),
          gb_state = ft_recorded s r (admissible vs threshold mo ms) (quality_of vs) kept\<rparr>, x\<lparr>fr_policy := P'\<rparr>)"
proof -
  have e: "vs \<noteq> []" "\<forall>v\<in>set vs. in_unit v" "in_unit_pos threshold" "1 \<le> mo" "1 \<le> ms" using ev by simp_all
  have st: "ft_ok s" "gp_ok r" "gp_attempt r = ft_evaluations s"
    using inv fresh by (simp_all add: frontier_inv_def fresh_edit_def)
  have hh: "fh_ok h" "frontier_program x (fh_program h)" using inv h(1) by (auto simp: frontier_inv_def)
  note q = frontier_edit_ok [OF h(3) hh(2)]
  have v: "ft_validate s = Inr s" "gp_validate r = Inr r" using st by (simp_all add: ft_validate_Inr gp_validate_Inr)
  have par: "find_parent (gp_parent r) (ft_hypotheses s) = Inr h"
    unfolding h(2) using st(1) h(1) by (intro find_parent_eq) (simp_all add: ft_ok_def)
  have width: "\<not> cp_counter_count (gp_program r) \<noteq> cp_counter_count (fh_program h)"
    using q(3) hh(2) by (simp add: frontier_program_def)
  have checks: "\<not> \<not> (Fin 0 < threshold \<and> threshold \<le> Fin 1)" "\<not> (mo < 1 \<or> ms < 1)"
      "\<not> (vs = [] \<or> (\<exists>v\<in>set vs. \<not> isfinite v \<or> \<not> (Fin 0 \<le> v \<and> v \<le> Fin 1)))"
    using e by (auto simp: in_unit_alt in_unit_pos_def)
  have acc: "(int (length vs) \<ge> mo \<and> stable_from (fin_val threshold) ms 0 (map fin_val vs) \<noteq> None)
      = admissible vs threshold mo ms"
    using stable_None_iff [OF e(5)] stably_above_admissible [OF e(2,3), of ms] by (auto simp: admissible_def)
  have "fh_ok (new_hypothesis r h (quality_of vs))"
    using st(2) hh(1) quality_in_unit [OF e(1,2)] by (auto simp: new_hypothesis_def fh_ok_def gp_ok_def)
  then have mk: "mk_hypothesis (gp_program r) (Some (gp_parent r)) (fh_depth h + 1) (quality_of vs)
      = Inr (new_hypothesis r h (quality_of vs))"
    by (simp add: mk_hypothesis_def fh_validate_Inr new_hypothesis_def)
  have beam: "(if Fin (fr_minimum_quality x) \<le> quality_of vs
                      then bind_r (mk_hypothesis (gp_program r) (Some (gp_parent r)) (fh_depth h + 1) (quality_of vs))
                             (\<lambda>h. Inr (ft_hypotheses s @ [h]))
                      else Inr (ft_hypotheses s)) = Inr (grown_beam x s r h (quality_of vs))"
    by (simp add: mk grown_beam_def)
  have policy: "(case fr_policy x of None \<Rightarrow> Inr x
       | Some P \<Rightarrow> (case gp_factors r of None \<Rightarrow> Inl ValueError
            | Some f \<Rightarrow> (case pm_record P (gp_context r) (quality_of vs) f of
                 (P', None) \<Rightarrow> Inr (x\<lparr>fr_policy := Some P'\<rparr>) | (P', Some e) \<Rightarrow> Inl e))) = Inr (x\<lparr>fr_policy := P'\<rparr>)"
    using pol by (cases "fr_policy x") auto
  have fin: "ft_validate (ft_recorded s r (admissible vs threshold mo ms) (quality_of vs) kept)
      = Inr (ft_recorded s r (admissible vs threshold mo ms) (quality_of vs) kept)"
    using ok by (simp add: ft_validate_Inr)
  show ?thesis
    unfolding fr_record_outcomes_def prod.case v bind_r_Inr par Let_def beam policy kept digest_of_valid [OF q(2)] acc
    using st(3) width checks fin [unfolded ft_recorded_def] by (simp add: ft_recorded_def)
qed
text \<open>The beam that a recorded proposal leaves, and the invariant.\<close>

lemma grown_beam_facts:
  assumes inv: "frontier_inv x p0 s" and h: "h \<in> set (ft_hypotheses s)" "fh_depth h < fr_max_depth x" "gp_parent r = h_digest h"
      "frontier_edit x (fh_program h) (nat (gp_index r)) (gp_program r)"
    and r: "gp_ok r" "digest_of (gp_program r) \<notin> set (ft_seen s)" and q: "in_unit quality"
  shows "\<exists>h0 hs. ft_hypotheses s = h0 # hs \<and> fh_program h0 = p0
    \<and> grown_beam x s r h quality = h0 # (hs @ (if Fin (fr_minimum_quality x) \<le> quality then [new_hypothesis r h quality] else []))"
    and "\<forall>h'\<in>set (grown_beam x s r h quality). fh_ok h' \<and> frontier_program x (fh_program h') \<and> fh_depth h' \<le> fr_max_depth x
          \<and> lineage x p0 (nat (fh_depth h')) (fh_program h')
          \<and> (h' = hd (ft_hypotheses s) \<or> h_digest h' \<in> set (ft_seen s @ [digest_of (gp_program r)]))"
    and "distinct (map h_digest (filter (\<lambda>h'. h_digest h' \<noteq> ft_root s) (tl (grown_beam x s r h quality))))"
proof -
  have ne: "ft_hypotheses s \<noteq> []" using inv by (simp add: frontier_inv_def ft_ok_def)
  then obtain h0 hs where hs: "ft_hypotheses s = h0 # hs" by (cases "ft_hypotheses s") auto
  have all: "\<forall>h'\<in>set (ft_hypotheses s). fh_ok h' \<and> frontier_program x (fh_program h') \<and> fh_depth h' \<le> fr_max_depth x
          \<and> lineage x p0 (nat (fh_depth h')) (fh_program h')
          \<and> (h' = hd (ft_hypotheses s) \<or> h_digest h' \<in> set (ft_seen s))"
    using inv unfolding frontier_inv_def by blast
  have d: "distinct (map h_digest (ft_hypotheses s))" "fh_program h0 = p0" "ft_root s = h_digest h0"
  proof -
    have i: "ft_ok s" "ft_root s = digest_of p0" "fh_program (hd (ft_hypotheses s)) = p0"
      using inv unfolding frontier_inv_def by blast+
    show "distinct (map h_digest (ft_hypotheses s))" using i(1) unfolding ft_ok_def by blast
    show "fh_program h0 = p0" using i(3) by (simp add: hs)
    then show "ft_root s = h_digest h0" using i(2) by simp
  qed
  note hh = all [rule_format, OF h(1)]
  note e = frontier_edit_ok [OF h(4)]
  let ?n = "new_hypothesis r h quality"
  have new: "fh_ok ?n \<and> frontier_program x (fh_program ?n) \<and> fh_depth ?n \<le> fr_max_depth x
      \<and> lineage x p0 (nat (fh_depth ?n)) (fh_program ?n) \<and> h_digest ?n = digest_of (gp_program r)"
  proof -
    have "nat (fh_depth h + 1) = Suc (nat (fh_depth h))" using hh by (simp add: fh_ok_def nat_add_distrib)
    moreover have "fh_ok ?n" using hh r(1) q by (auto simp: fh_ok_def gp_ok_def new_hypothesis_def)
    ultimately show ?thesis using hh h(2,4) e(3) by (auto simp: new_hypothesis_def)
  qed
  show "\<exists>h0 hs. ft_hypotheses s = h0 # hs \<and> fh_program h0 = p0
    \<and> grown_beam x s r h quality = h0 # (hs @ (if Fin (fr_minimum_quality x) \<le> quality then [?n] else []))"
    using d(2) by (simp add: hs grown_beam_def)
  show "\<forall>h'\<in>set (grown_beam x s r h quality). fh_ok h' \<and> frontier_program x (fh_program h') \<and> fh_depth h' \<le> fr_max_depth x
          \<and> lineage x p0 (nat (fh_depth h')) (fh_program h')
          \<and> (h' = hd (ft_hypotheses s) \<or> h_digest h' \<in> set (ft_seen s @ [digest_of (gp_program r)]))"
    using all new by (auto simp: grown_beam_def)
  have "h_digest h' \<noteq> digest_of (gp_program r)" if "h' \<in> set hs" for h'
  proof -
    have "h' \<noteq> h0" using d(1) that by (auto simp: hs)
    then have "h_digest h' \<in> set (ft_seen s)" using all that by (auto simp: hs)
    then show ?thesis using r(2) by auto
  qed
  then show "distinct (map h_digest (filter (\<lambda>h'. h_digest h' \<noteq> ft_root s) (tl (grown_beam x s r h quality))))"
    using d(1) new by (auto simp: grown_beam_def hs distinct_map_filter)
qed

lemma frontier_record_total:
  assumes inv: "frontier_inv x p0 s" and fresh: "fresh_edit x s r" and ev: "search_evidence_ok (vs, threshold, mo, ms)"
  shows "\<exists>b P' h kept. fr_record_outcomes x s r (vs, threshold, mo, ms) = Inr (b, x\<lparr>fr_policy := P'\<rparr>)
    \<and> h \<in> set (ft_hypotheses s) \<and> gp_parent r = h_digest h
    \<and> fr_prune x (grown_beam x s r h (quality_of vs)) (ft_root s) = Inr kept
    \<and> gb_accepted b = admissible vs threshold mo ms \<and> gb_quality b = quality_of vs
    \<and> gb_state b = ft_recorded s r (admissible vs threshold mo ms) (quality_of vs) kept
    \<and> frontier_inv (x\<lparr>fr_policy := P'\<rparr>) p0 (gb_state b)"
proof -
  obtain h where h: "h \<in> set (ft_hypotheses s)" "fh_depth h < fr_max_depth x" "gp_parent r = h_digest h"
      "frontier_edit x (fh_program h) (nat (gp_index r)) (gp_program r)"
    and r: "gp_ok r" "digest_of (gp_program r) \<notin> set (ft_seen s)" and f: "gp_factors r \<noteq> None"
    using fresh by (auto simp: fresh_edit_def)
  have q: "in_unit (quality_of vs)" using ev quality_in_unit by simp
  note beam = grown_beam_facts [OF inv h r q]
  obtain h0 hs where hs: "ft_hypotheses s = h0 # hs" "fh_program h0 = p0"
      "grown_beam x s r h (quality_of vs) = h0 # tl (grown_beam x s r h (quality_of vs))"
    using beam(1) by auto
  obtain rest where rest: "grown_beam x s r h (quality_of vs) = h0 # rest" using hs(3) by metis
  have i: "frontier_ok x" "ft_ok s" "frontier_program x p0" "ft_root s = digest_of p0" "2 \<le> fr_beam x"
    using inv by (simp_all add: frontier_inv_def frontier_ok_def)
  have vals: "\<forall>h'\<in>set rest. valid_program (fh_program h')" "valid_program (fh_program h0)"
    using beam(2) by (auto simp: rest frontier_program_def)
  have root: "h_digest h0 = ft_root s" by (simp add: hs(2) i(4))
  have dist: "distinct (map h_digest (filter (\<lambda>h. h_digest h \<noteq> ft_root s) rest))" using beam(3) by (simp add: rest)
  have wide: "1 \<le> fr_beam x" using i(5) by simp
  obtain ks where ks: "fr_prune x (h0 # rest) (ft_root s) = Inr (h0 # ks)" "set ks \<subseteq> set rest" "ft_root s \<notin> h_digest ` set ks"
      "distinct (map h_digest ks)" "int (length (h0 # ks)) \<le> fr_beam x"
    using fr_prune_shape [OF vals(1) root vals(2) dist wide] by blast
  let ?s = "ft_recorded s r (admissible vs threshold mo ms) (quality_of vs) (h0 # ks)"
  have sub: "set (h0 # ks) \<subseteq> set (grown_beam x s r h (quality_of vs))" using ks(2) by (auto simp: rest)
  have kok: "\<forall>h'\<in>set (h0 # ks). fh_ok h' \<and> frontier_program x (fh_program h') \<and> fh_depth h' \<le> fr_max_depth x
          \<and> lineage x p0 (nat (fh_depth h')) (fh_program h')
          \<and> (h' = h0 \<or> h_digest h' \<in> set (ft_seen s @ [digest_of (gp_program r)]))"
    using beam(2) sub unfolding hs(1) list.sel(1) by blast
  have st: "ft_ok ?s"
  proof (rule ft_recorded_ok [OF i(2) r q])
    show "\<forall>h\<in>set (h0 # ks). valid_program (fh_program h) \<and> cp_counter_count (fh_program h) = fr_counter_count x"
      using kok by (simp add: frontier_program_def)
    show "distinct (map h_digest (h0 # ks))" using ks(3,4) by (simp add: hs(2) i(4) image_comp)
    show "ft_root s \<in> h_digest ` set (h0 # ks)" by (simp add: hs(2) i(4))
  qed simp
  have "\<exists>P'. (case fr_policy x of None \<Rightarrow> P' = None
      | Some P \<Rightarrow> (\<exists>f m. gp_factors r = Some f \<and> pm_record P (gp_context r) (quality_of vs) f = (m, None) \<and> P' = Some m))
      \<and> (\<forall>P. P' = Some P \<longrightarrow> fm_ok P)"
  proof (cases "fr_policy x")
    case (Some P)
    obtain f' where f': "gp_factors r = Some f'" "ff_ok f'" "scope_ok (gp_context r)" using f r(1) by (auto simp: gp_ok_def)
    have "fm_ok P" using i(1) Some by (simp add: frontier_ok_def)
    then show ?thesis using pm_record_total [OF _ f'(3) q f'(2)] f'(1) Some by force
  qed simp
  then obtain P' where P': "case fr_policy x of None \<Rightarrow> P' = None
      | Some P \<Rightarrow> (\<exists>f m. gp_factors r = Some f \<and> pm_record P (gp_context r) (quality_of vs) f = (m, None) \<and> P' = Some m)"
      "\<forall>P. P' = Some P \<longrightarrow> fm_ok P" by blast
  have kept: "fr_prune x (grown_beam x s r h (quality_of vs)) (ft_root s) = Inr (h0 # ks)" unfolding rest by (rule ks(1))
  have "frontier_inv (x\<lparr>fr_policy := P'\<rparr>) p0 ?s"
    using i kok ks(5) st P'(2) hs(2) by (simp add: frontier_inv_def frontier_ok_def ft_recorded_def)
  then show ?thesis
    using fr_record_eq [OF inv fresh ev h(1,3,4) P'(1) kept st] h(1,3) kept by fastforce
qed
section \<open>The frontier as a ledger\<close>

text \<open>
  Whatever proposals a caller records, made by the frontier or not: a recorded program is recorded once.
\<close>

definition frontier_next :: "frontier \<times> frontier_state \<Rightarrow> frontier_proposal \<Rightarrow> pyfloat list \<times> pyfloat \<times> int \<times> int
    \<Rightarrow> (frontier \<times> frontier_state) result" where
  "frontier_next t r e = bind_r (fr_record_outcomes (fst t) (snd t) r e) (\<lambda>(b, x'). Inr (x', gb_state b))"

lemma frontier_next_effect:
  assumes "frontier_next t r e = Inr t'"
  shows "ft_seen (snd t') = ft_seen (snd t) @ [digest_of (gp_program r)] \<and> ft_ok (snd t')"
  using assms unfolding frontier_next_def fr_record_outcomes_def
  by (auto simp: bind_r_eq_Inr Let_def ft_validate_Inr gp_validate_Inr cp_digest_Inr split: prod.splits if_splits)

interpretation frontier_ledger: search_ledger "\<lambda>_ :: unit. \<lambda>t. ft_ok (snd t)" "\<lambda>t. ft_seen (snd t)"
  "\<lambda>r. digest_of (gp_program r)" "\<lambda>_. frontier_next"
proof
  show "ft_ok (snd t) \<Longrightarrow> distinct (ft_seen (snd t))" for t :: "frontier \<times> frontier_state"
    by (simp add: ft_ok_def)
  fix t t' :: "frontier \<times> frontier_state" and r e
  assume "frontier_next t r e = Inr t'"
  note effect = frontier_next_effect [OF this]
  have "distinct (ft_seen (snd t'))" using effect unfolding ft_ok_def by blast
  then show "digest_of (gp_program r) \<notin> set (ft_seen (snd t))
      \<and> ft_seen (snd t') = ft_seen (snd t) @ [digest_of (gp_program r)] \<and> ft_ok (snd t')"
    using effect by simp
qed

lemma frontier_never_twice:
  assumes "ft_ok s" and "frontier_next (x, s) r e = Inr t" and "fold_r (\<lambda>t re. frontier_next t (fst re) (snd re)) t res = Inr t'"
    and "digest_of (gp_program q) = digest_of (gp_program r)"
  shows "\<exists>err. frontier_next t' q f = Inl err"
  using frontier_ledger.never_twice [of "(x, s)" r e t res t' q f] assms by simp

section \<open>Properties\<close>

text \<open>The loop of a caller: propose, evaluate, record.  Its state holds the frontier, the state and the generator.\<close>

definition frontier_offer :: "math_lib \<Rightarrow> torch_lib \<Rightarrow> 'g rng \<Rightarrow> string \<Rightarrow> frontier \<times> frontier_state \<times> 'g
    \<Rightarrow> (frontier_proposal \<times> 'g) result" where
  "frontier_offer math torch rng c t = (case t of (x, s, g) \<Rightarrow> fr_propose math torch rng x s c g)"

definition frontier_take :: "(frontier_proposal \<Rightarrow> pyfloat list \<times> pyfloat \<times> int \<times> int) \<Rightarrow> frontier \<times> frontier_state \<times> 'g
    \<Rightarrow> frontier_proposal \<times> 'g \<Rightarrow> (frontier \<times> frontier_state \<times> 'g) result" where
  "frontier_take evaluate t offer = (case t of (x, s, g) \<Rightarrow> case offer of (r, g') \<Rightarrow>
     bind_r (fr_record_outcomes x s r (evaluate r)) (\<lambda>(b, x'). Inr (x', gb_state b, g')))"


lemma small_frontier_ok: "frontier_ok small_frontier"
  by (simp add: frontier_ok_def small_frontier_def)


lemma take_sorted_le:
  assumes "a \<in> set (take n (sort_key f xs))" and "b \<in> set (drop n (sort_key f xs))"
  shows "f a \<le> f b"
proof -
  have "sorted (map f (take n (sort_key f xs) @ drop n (sort_key f xs)))" by simp
  then show ?thesis using assms by (simp only: map_append sorted_append) auto
qed

text \<open>
  Pruning keeps the root and the best.  For any valid hypotheses behind the root, \<open>_prune\<close> keeps the root in
  front and fills the rest of the beam, as far as there are other hypotheses, with those of the smallest key:
  no hypothesis it drops has a higher quality than one it keeps, or the same quality and a smaller depth.
\<close>

lemma frontier_beam_keeps_best:
  assumes "\<forall>h\<in>set hs. valid_program (fh_program h)" and "valid_program (fh_program h0)"
    and "\<forall>h\<in>set (h0 # hs). isfinite (fh_quality h)"
  shows "\<exists>ks. fr_prune x (h0 # hs) (h_digest h0) = Inr (h0 # ks)
    \<and> set ks \<subseteq> {h \<in> set hs. h_digest h \<noteq> h_digest h0}
    \<and> length ks = min (nat (fr_beam x - 1)) (length (filter (\<lambda>h. h_digest h \<noteq> h_digest h0) hs))
    \<and> (\<forall>k\<in>set ks. \<forall>h\<in>set hs. h_digest h \<noteq> h_digest h0 \<and> h \<notin> set ks \<longrightarrow>
         fh_quality h \<le> fh_quality k \<and> (fh_quality h = fh_quality k \<longrightarrow> fh_depth k \<le> fh_depth h))"
proof -
  obtain tags where tags: "tags = filter (\<lambda>dh. fst dh \<noteq> h_digest h0) (map (\<lambda>h. (h_digest h, h)) hs)" by blast
  obtain n where n: "n = nat (fr_beam x - 1)" by blast
  obtain ks where ks: "ks = map snd (take n (sort_key hypothesis_key tags))" by blast
  have mem: "dh \<in> set tags \<longleftrightarrow> (\<exists>h\<in>set hs. h_digest h \<noteq> h_digest h0 \<and> dh = (h_digest h, h))" for dh
    by (auto simp: tags)
  have sub: "set (take n (sort_key hypothesis_key tags)) \<subseteq> set tags"
    using set_take_subset [of n "sort_key hypothesis_key tags"] by simp
  have "length tags = length (filter (\<lambda>h. h_digest h \<noteq> h_digest h0) hs)" by (simp add: tags filter_map comp_def)
  then have len: "length ks = min n (length (filter (\<lambda>h. h_digest h \<noteq> h_digest h0) hs))" by (simp add: ks min.commute)
  have best: "fh_quality h \<le> fh_quality k \<and> (fh_quality h = fh_quality k \<longrightarrow> fh_depth k \<le> fh_depth h)"
    if k: "k \<in> set ks" and h: "h \<in> set hs" "h_digest h \<noteq> h_digest h0" "h \<notin> set ks" for k h
  proof -
    obtain dk where dk: "dk \<in> set (take n (sort_key hypothesis_key tags))" "k = snd dk" using k by (auto simp: ks)
    then obtain k' where k': "k' \<in> set hs" "dk = (h_digest k', k')" using sub mem by blast
    have "(h_digest h, h) \<in> set (sort_key hypothesis_key tags)" using h(1,2) mem by auto
    moreover have "(h_digest h, h) \<notin> set (take n (sort_key hypothesis_key tags))" using h(3) by (force simp: ks)
    ultimately have "(h_digest h, h) \<in> set (drop n (sort_key hypothesis_key tags))"
      by (metis Un_iff append_take_drop_id set_append)
    then have le: "hypothesis_key (h_digest k, k) \<le> hypothesis_key (h_digest h, h)"
      using take_sorted_le [OF dk(1)] k'(2) dk(2) by simp
    have "isfinite (fh_quality k)" "isfinite (fh_quality h)"
      using assms(3) k' dk(2) h(1) by auto
    then obtain a b where "fh_quality k = Fin a" "fh_quality h = Fin b" unfolding isfinite_iff by blast
    then show ?thesis using le by (auto simp: hypothesis_key_def)
  qed
  have "fr_prune x (h0 # hs) (h_digest h0) = Inr (h0 # ks)"
    unfolding ks n tags by (rule fr_prune_eq [OF assms(1) refl assms(2)])
  moreover have "set ks \<subseteq> {h \<in> set hs. h_digest h \<noteq> h_digest h0}" using sub mem by (force simp: ks)
  ultimately show ?thesis using len best unfolding n by blast
qed

definition drain_hypothesis :: "pyfloat \<Rightarrow> frontier_hypothesis" where
  "drain_hypothesis q = \<lparr>fh_program = drain, fh_parent = None, fh_depth = 0, fh_quality = q,
     fh_schema = CONTROL_FLOW_FRONTIER_HYPOTHESIS_SCHEMA\<rparr>"

end
