(* ===== verification/FrontierGrowth.thy ===== *)
theory FrontierGrowth
  imports FrontierRun
begin

text \<open>
  \<open>control_flow_frontier.py\<close>, lines 1223 to 1690: the adaptive horizon around a frontier.  A growth state is
  a frontier state with the program length it may search (the horizon), the programs whose outcomes were
  accepted, and the number of root promotions so far.  Expanding the horizon and promoting a longer qualified
  program to the new root are transactions, gated by a probe of the caller.

  The options of the frontier are kept as the constructor takes them, since every operation builds its
  frontier anew; the proposal memory among them is one object, so a growth changes when it records.  A policy
  update of a frontier call that raises afterwards is not tracked.  A probe may raise, its verdict is a
  \<open>bool result\<close>.  How a float is written and what the memory of a tensor holds are parameters of the digest.
\<close>

section \<open>Growth states\<close>

definition CONTROL_FLOW_FRONTIER_GROWTH_SCHEMA :: string where
  "CONTROL_FLOW_FRONTIER_GROWTH_SCHEMA = ''neural-computer.external-control-flow-frontier-growth.v1''"

definition CONTROL_FLOW_FRONTIER_GROWTH_PROPOSAL_SCHEMA :: string where
  "CONTROL_FLOW_FRONTIER_GROWTH_PROPOSAL_SCHEMA =
     ''neural-computer.external-control-flow-frontier-growth-proposal.v1''"

definition CONTROL_FLOW_FRONTIER_GROWTH_RECEIPT_SCHEMA :: string where
  "CONTROL_FLOW_FRONTIER_GROWTH_RECEIPT_SCHEMA =
     ''neural-computer.external-control-flow-frontier-growth-receipt.v1''"

record growth_state =
  gs_frontier :: frontier_state
  gs_horizon :: int
  gs_qualified :: "(string \<times> pyfloat) list"
  gs_rung :: int
  gs_schema :: string

definition gs_validate :: "growth_state \<Rightarrow> growth_state result" where
  "gs_validate s =
     (if gs_schema s \<noteq> CONTROL_FLOW_FRONTIER_GROWTH_SCHEMA then Inl ValueError
      else bind_r (ft_validate (gs_frontier s)) (\<lambda>_.
        if gs_horizon s < 1 then Inl ValueError
        else if gs_rung s < 0 then Inl ValueError
        else if length (gs_qualified s) < 1 then Inl ValueError
        else let digests = map fst (gs_qualified s)
             in if card (set digests) \<noteq> length digests then Inl ValueError
                else if \<exists>(digest, quality)\<in>set (gs_qualified s).
                    \<not> digest_is_valid digest \<or> \<not> isfinite quality \<or> \<not> (Fin 0 \<le> quality \<and> quality \<le> Fin 1)
                then Inl ValueError
                else if ft_root (gs_frontier s) \<notin> set digests then Inl ValueError
                else if \<exists>h\<in>set (ft_hypotheses (gs_frontier s)). cp_length (fh_program h) > gs_horizon s
                then Inl ValueError
                else Inr s))"

text \<open>The payloads, as the traversal of the digest sees them.\<close>

definition fh_payload :: "frontier_hypothesis \<Rightarrow> digest_item result" where
  "fh_payload h =
     bind_r (fh_validate h) (\<lambda>_. bind_r (cp_payload (fh_program h)) (\<lambda>program. Inr (DictItem
       [(''schema'', ValueItem (PStr (fh_schema h))), (''program'', ValueItem program),
        (''parent_digest'', ValueItem (case fh_parent h of None \<Rightarrow> PNone | Some d \<Rightarrow> PStr d)),
        (''depth'', ValueItem (PInt (fh_depth h))), (''quality'', FloatItem (fh_quality h))])))"

definition ft_payload :: "frontier_state \<Rightarrow> digest_item result" where
  "ft_payload s =
     bind_r (ft_validate s) (\<lambda>_. bind_r (map_r fh_payload (ft_hypotheses s)) (\<lambda>hypotheses. Inr (DictItem
       [(''schema'', ValueItem (PStr (ft_schema s))), (''hypotheses'', ListItem hypotheses),
        (''reward_totals'', TensorItem (ft_totals s)), (''reward_counts'', TensorItem (ft_counts s)),
        (''accepted_counts'', TensorItem (ft_accepts s)), (''failed_counts'', TensorItem (ft_fails s)),
        (''seen_candidate_digests'', ValueItem (PList (map PStr (ft_seen s)))),
        (''root_digest'', ValueItem (PStr (ft_root s))), (''evaluations'', ValueItem (PInt (ft_evaluations s))),
        (''accepted'', ValueItem (PInt (ft_accepted s))), (''best_quality'', FloatItem (ft_best_quality s))])))"

definition ft_digest :: "(pyfloat \<Rightarrow> string) \<Rightarrow> (pyfloat list \<Rightarrow> byte list) \<Rightarrow> frontier_state \<Rightarrow> string result" where
  "ft_digest float_repr tensor_bytes s =
     bind_r (ft_payload s) (\<lambda>v. Inr (digest_bytes (visit_item float_repr tensor_bytes v)))"

definition gs_body :: "growth_state \<Rightarrow> digest_item result" where
  "gs_body s =
     bind_r (gs_validate s) (\<lambda>_. bind_r (ft_payload (gs_frontier s)) (\<lambda>body. Inr (DictItem
       [(''schema'', ValueItem (PStr (gs_schema s))), (''frontier'', body),
        (''horizon'', ValueItem (PInt (gs_horizon s))),
        (''qualified_programs'', ListItem (map (\<lambda>(digest, quality). DictItem
            [(''digest'', ValueItem (PStr digest)), (''quality'', FloatItem quality)]) (gs_qualified s))),
        (''rung'', ValueItem (PInt (gs_rung s)))])))"

definition gs_digest :: "(pyfloat \<Rightarrow> string) \<Rightarrow> (pyfloat list \<Rightarrow> byte list) \<Rightarrow> growth_state \<Rightarrow> string result" where
  "gs_digest float_repr tensor_bytes s =
     bind_r (gs_body s) (\<lambda>v. Inr (digest_bytes (visit_item float_repr tensor_bytes v)))"

section \<open>Proposals and receipts\<close>

record growth_proposal =
  gr_proposal :: frontier_proposal
  gr_horizon :: int
  gr_rung :: int
  gr_schema :: string

definition gr_validate :: "growth_proposal \<Rightarrow> growth_proposal result" where
  "gr_validate r =
     (if gr_schema r \<noteq> CONTROL_FLOW_FRONTIER_GROWTH_PROPOSAL_SCHEMA then Inl ValueError
      else bind_r (gp_validate (gr_proposal r)) (\<lambda>_.
        if gr_horizon r < 1 then Inl ValueError
        else if gr_rung r < 0 then Inl ValueError else Inr r))"

record growth_receipt =
  gc_accepted :: bool
  gc_operation :: string
  gc_source_horizon :: int
  gc_destination_horizon :: int
  gc_source_digest :: string
  gc_destination_digest :: string
  gc_source_rung :: int
  gc_destination_rung :: int
  gc_qualified_count :: int
  gc_reason :: string
  gc_schema :: string

definition gc_validate :: "growth_receipt \<Rightarrow> growth_receipt result" where
  "gc_validate r =
     (if gc_schema r \<noteq> CONTROL_FLOW_FRONTIER_GROWTH_RECEIPT_SCHEMA then Inl ValueError
      else if gc_operation r \<notin> {''expand_horizon'', ''promote_root''} then Inl ValueError
      else if gc_source_horizon r < 1 \<or> gc_destination_horizon r < 1 then Inl ValueError
      else if gc_source_rung r < 0 \<or> gc_destination_rung r < 0 then Inl ValueError
      else if gc_qualified_count r < 1 then Inl ValueError
      else if \<exists>d\<in>{gc_source_digest r, gc_destination_digest r}. \<not> digest_is_valid d then Inl ValueError
      else if gc_reason r = [] then Inl ValueError
      else if gc_accepted r
      then (if gc_destination_horizon r < gc_source_horizon r then Inl ValueError
            else if gc_destination_rung r < gc_source_rung r then Inl ValueError else Inr r)
      else if gc_destination_horizon r \<noteq> gc_source_horizon r \<or> gc_destination_digest r \<noteq> gc_source_digest r
          \<or> gc_destination_rung r \<noteq> gc_source_rung r then Inl ValueError
      else Inr r)"

record growth_feedback =
  gf_proposal :: growth_proposal
  gf_quality :: pyfloat
  gf_accepted :: bool
  gf_stable :: "int option"
  gf_state :: growth_state

section \<open>The growth\<close>

text \<open>The frontier's keyword arguments, kept as given.\<close>

record frontier_options =
  fo_beam :: int
  fo_max_depth :: int
  fo_min :: int
  fo_minimum_quality :: pyfloat
  fo_temperature :: pyfloat
  fo_exploration :: pyfloat
  fo_retries :: int
  fo_policy :: "factor_memory option"

record growth =
  gw_counter_count :: int
  gw_initial :: int
  gw_maximum :: int
  gw_options :: frontier_options

definition frontier_at :: "growth \<Rightarrow> int \<Rightarrow> frontier result" where
  "frontier_at w horizon =
     (if \<not> (1 \<le> horizon \<and> horizon \<le> gw_maximum w) then Inl ValueError
      else let opts = gw_options w
           in fr_init (gw_counter_count w) (fo_beam opts) (fo_max_depth opts) (fo_min opts) horizon (fo_minimum_quality opts)
                (fo_temperature opts) (fo_exploration opts) (fo_retries opts) (fo_policy opts))"

definition gw_init :: "int \<Rightarrow> int \<Rightarrow> int \<Rightarrow> frontier_options \<Rightarrow> growth result" where
  "gw_init counter_count initial_horizon maximum_horizon opts =
     (if initial_horizon < 1 \<or> maximum_horizon < initial_horizon then Inl ValueError
      else let w = \<lparr>gw_counter_count = counter_count, gw_initial = initial_horizon, gw_maximum = maximum_horizon,
                    gw_options = opts\<rparr>
           in bind_r (frontier_at w initial_horizon) (\<lambda>_. Inr w))"

definition gw_initial_state :: "growth \<Rightarrow> cf_program \<Rightarrow> pyfloat \<Rightarrow> growth_state result" where
  "gw_initial_state w first root_quality =
     bind_r (cp_validate first) (\<lambda>_.
       if cp_counter_count first \<noteq> gw_counter_count w then Inl ValueError
       else if cp_length first > gw_initial w then Inl ValueError
       else bind_r (frontier_at w (gw_initial w)) (\<lambda>x.
            bind_r (fr_initial_state x first root_quality) (\<lambda>s.
            bind_r (cp_digest first) (\<lambda>digest.
              gs_validate \<lparr>gs_frontier = s, gs_horizon = gw_initial w, gs_qualified = [(digest, root_quality)],
                gs_rung = 0, gs_schema = CONTROL_FLOW_FRONTIER_GROWTH_SCHEMA\<rparr>))))"

definition gw_propose :: "math_lib \<Rightarrow> torch_lib \<Rightarrow> 'g rng \<Rightarrow> growth \<Rightarrow> growth_state \<Rightarrow> string \<Rightarrow> 'g
    \<Rightarrow> (growth_proposal \<times> 'g) result" where
  "gw_propose math torch rng w s c g =
     bind_r (gs_validate s) (\<lambda>_.
     bind_r (frontier_at w (gs_horizon s)) (\<lambda>x.
     bind_r (fr_propose math torch rng x (gs_frontier s) c g) (\<lambda>(r, g').
     bind_r (gr_validate \<lparr>gr_proposal = r, gr_horizon = gs_horizon s, gr_rung = gs_rung s,
         gr_schema = CONTROL_FLOW_FRONTIER_GROWTH_PROPOSAL_SCHEMA\<rparr>) (\<lambda>proposal. Inr (proposal, g')))))"

definition set_policy :: "growth \<Rightarrow> factor_memory option \<Rightarrow> growth" where
  "set_policy w P = w\<lparr>gw_options := (gw_options w)\<lparr>fo_policy := P\<rparr>\<rparr>"

definition gw_record_outcomes :: "growth \<Rightarrow> growth_state \<Rightarrow> growth_proposal \<Rightarrow> pyfloat list \<times> pyfloat \<times> int \<times> int
    \<Rightarrow> growth_feedback result \<times> growth" where
  "gw_record_outcomes w s r evidence =
     (case bind_r (gs_validate s) (\<lambda>_.
           bind_r (gr_validate r) (\<lambda>_.
             if gr_horizon r \<noteq> gs_horizon s then Inl ValueError
             else if gr_rung r \<noteq> gs_rung s then Inl ValueError
             else bind_r (frontier_at w (gs_horizon s)) (\<lambda>x.
                    fr_record_outcomes x (gs_frontier s) (gr_proposal r) evidence))) of
        Inl e \<Rightarrow> (Inl e, w)
      | Inr (feedback, x') \<Rightarrow>
          (bind_r (if gb_accepted feedback
                   then bind_r (cp_digest (gp_program (gb_proposal feedback))) (\<lambda>digest.
                          Inr (gs_qualified s @ [(digest, gb_quality feedback)]))
                   else Inr (gs_qualified s)) (\<lambda>qualified.
             bind_r (gs_validate \<lparr>gs_frontier = gb_state feedback, gs_horizon = gs_horizon s, gs_qualified = qualified,
                 gs_rung = gs_rung s, gs_schema = CONTROL_FLOW_FRONTIER_GROWTH_SCHEMA\<rparr>) (\<lambda>next_state.
               Inr \<lparr>gf_proposal = r, gf_quality = gb_quality feedback, gf_accepted = gb_accepted feedback,
                 gf_stable = gb_stable feedback, gf_state = next_state\<rparr>)),
           set_policy w (fr_policy x')))"

definition mk_growth_receipt :: "(pyfloat \<Rightarrow> string) \<Rightarrow> (pyfloat list \<Rightarrow> byte list) \<Rightarrow> bool \<Rightarrow> string \<Rightarrow> growth_state
    \<Rightarrow> growth_state \<Rightarrow> string \<Rightarrow> growth_receipt result" where
  "mk_growth_receipt float_repr tensor_bytes accepted operation source destination reason =
     bind_r (gs_digest float_repr tensor_bytes source) (\<lambda>source_digest.
     bind_r (gs_digest float_repr tensor_bytes destination) (\<lambda>destination_digest.
       gc_validate \<lparr>gc_accepted = accepted, gc_operation = operation, gc_source_horizon = gs_horizon source,
         gc_destination_horizon = gs_horizon destination, gc_source_digest = source_digest,
         gc_destination_digest = destination_digest, gc_source_rung = gs_rung source,
         gc_destination_rung = gs_rung destination, gc_qualified_count = int (length (gs_qualified destination)),
         gc_reason = reason, gc_schema = CONTROL_FLOW_FRONTIER_GROWTH_RECEIPT_SCHEMA\<rparr>))"

text \<open>A transaction that hands out a receipt and the state it ends in.\<close>

definition conclude :: "(pyfloat \<Rightarrow> string) \<Rightarrow> (pyfloat list \<Rightarrow> byte list) \<Rightarrow> bool \<Rightarrow> string \<Rightarrow> growth_state
    \<Rightarrow> growth_state \<Rightarrow> string \<Rightarrow> (growth_receipt \<times> growth_state) result" where
  "conclude float_repr tensor_bytes accepted operation source destination reason =
     bind_r (mk_growth_receipt float_repr tensor_bytes accepted operation source destination reason) (\<lambda>r.
       Inr (r, destination))"

definition expand_horizon_verified :: "(pyfloat \<Rightarrow> string) \<Rightarrow> (pyfloat list \<Rightarrow> byte list) \<Rightarrow> growth \<Rightarrow> growth_state
    \<Rightarrow> (growth_state \<Rightarrow> bool result) \<Rightarrow> (growth_receipt \<times> growth_state) result" where
  "expand_horizon_verified float_repr tensor_bytes w s probe =
     bind_r (gs_validate s) (\<lambda>_.
       let finish = conclude float_repr tensor_bytes; op = ''expand_horizon'';
           destination_horizon = gs_horizon s + 1
       in if destination_horizon > gw_maximum w then finish False op s s ''maximum frontier horizon reached''
          else bind_r (gs_validate \<lparr>gs_frontier = gs_frontier s, gs_horizon = destination_horizon,
                 gs_qualified = gs_qualified s, gs_rung = gs_rung s,
                 gs_schema = CONTROL_FLOW_FRONTIER_GROWTH_SCHEMA\<rparr>) (\<lambda>candidate.
               bind_r (probe candidate) (\<lambda>verdict.
                 if \<not> verdict then finish False op s s ''retention_probe_rejected''
                 else finish True op s candidate ''horizon expanded after retention probe'')))"

fun find_root :: "string \<Rightarrow> frontier_hypothesis list \<Rightarrow> cf_program result" where
  "find_root digest [] = Inl StopIteration"
| "find_root digest (h # hs) =
     bind_r (cp_digest (fh_program h)) (\<lambda>d. if d = digest then Inr (fh_program h) else find_root digest hs)"

definition promote_root_verified :: "(pyfloat \<Rightarrow> string) \<Rightarrow> (pyfloat list \<Rightarrow> byte list) \<Rightarrow> growth \<Rightarrow> growth_state \<Rightarrow> cf_program
    \<Rightarrow> (growth_state \<Rightarrow> bool result) \<Rightarrow> (growth_receipt \<times> growth_state) result" where
  "promote_root_verified float_repr tensor_bytes w s candidate probe =
     bind_r (gs_validate s) (\<lambda>_.
     bind_r (cp_validate candidate) (\<lambda>_.
       let finish = conclude float_repr tensor_bytes; op = ''promote_root''
       in if cp_counter_count candidate \<noteq> gw_counter_count w then Inl ValueError
          else bind_r (cp_digest candidate) (\<lambda>candidate_digest.
            case map_of (gs_qualified s) candidate_digest of
              None \<Rightarrow> finish False op s s ''candidate was not verifier-qualified''
            | Some quality \<Rightarrow>
                bind_r (find_root (ft_root (gs_frontier s)) (ft_hypotheses (gs_frontier s))) (\<lambda>current_root.
                if cp_length candidate \<le> cp_length current_root
                then finish False op s s ''root promotion must increase program length''
                else if cp_length candidate > gs_horizon s
                then finish False op s s ''candidate exceeds active frontier horizon''
                else
                  let old = gs_frontier s
                  in bind_r (mk_hypothesis candidate None 0 quality) (\<lambda>root_hypothesis.
                     bind_r (ft_validate (old\<lparr>ft_hypotheses := [root_hypothesis], ft_root := candidate_digest,
                         ft_schema := CONTROL_FLOW_FRONTIER_SCHEMA\<rparr>)) (\<lambda>rebased_frontier.
                     bind_r (gs_validate \<lparr>gs_frontier = rebased_frontier, gs_horizon = gs_horizon s,
                         gs_qualified = gs_qualified s, gs_rung = gs_rung s + 1,
                         gs_schema = CONTROL_FLOW_FRONTIER_GROWTH_SCHEMA\<rparr>) (\<lambda>candidate_state.
                     bind_r (probe candidate_state) (\<lambda>verdict.
                       if \<not> verdict then finish False op s s ''retention_probe_rejected''
                       else finish True op s candidate_state ''qualified longer program promoted as next search root''))))))))"
section \<open>Valid growth states\<close>

definition gs_ok :: "growth_state \<Rightarrow> bool" where
  "gs_ok s \<longleftrightarrow> gs_schema s = CONTROL_FLOW_FRONTIER_GROWTH_SCHEMA \<and> ft_ok (gs_frontier s) \<and> 1 \<le> gs_horizon s
     \<and> 0 \<le> gs_rung s \<and> gs_qualified s \<noteq> [] \<and> distinct (map fst (gs_qualified s))
     \<and> (\<forall>(d, q)\<in>set (gs_qualified s). digest_ok d \<and> in_unit q)
     \<and> ft_root (gs_frontier s) \<in> fst ` set (gs_qualified s)
     \<and> (\<forall>h\<in>set (ft_hypotheses (gs_frontier s)). cp_length (fh_program h) \<le> gs_horizon s)"

lemma gs_validate_Inr: "gs_validate s = Inr t \<longleftrightarrow> gs_ok s \<and> t = s"
proof -
  have n: "length (gs_qualified s) < 1 \<longleftrightarrow> gs_qualified s = []" by (simp add: less_Suc_eq)
  have q: "(\<exists>(digest, quality)\<in>set (gs_qualified s).
      \<not> digest_ok digest \<or> \<not> isfinite quality \<or> \<not> (Fin 0 \<le> quality \<and> quality \<le> Fin 1))
      \<longleftrightarrow> \<not> (\<forall>(d, q)\<in>set (gs_qualified s). digest_ok d \<and> in_unit q)"
    unfolding in_unit_alt by (auto simp del: de_Morgan_disj)
  show ?thesis
    unfolding gs_validate_def gs_ok_def digest_is_valid_iff Let_def n q
    by (simp add: bind_r_eq_Inr ft_validate_Inr not_less distinct_map_card) (simp only: not_le, blast)
qed

lemma gr_validate_Inr:
  "gr_validate r = Inr t \<longleftrightarrow> gr_schema r = CONTROL_FLOW_FRONTIER_GROWTH_PROPOSAL_SCHEMA \<and> gp_ok (gr_proposal r)
     \<and> 1 \<le> gr_horizon r \<and> 0 \<le> gr_rung r \<and> t = r"
  by (auto simp: gr_validate_def bind_r_eq_Inr gp_validate_Inr)

text \<open>
  A growth state whose frontier, built at the active horizon, searches from the program \<open>p\<close>.
\<close>

definition growth_inv :: "growth \<Rightarrow> cf_program \<Rightarrow> growth_state \<Rightarrow> bool" where
  "growth_inv w p s \<longleftrightarrow> gs_ok s \<and> (\<exists>x. frontier_at w (gs_horizon s) = Inr x \<and> frontier_inv x p (gs_frontier s))"

definition states_hashable :: "growth_state \<Rightarrow> bool" where
  "states_hashable s \<longleftrightarrow> gs_ok s \<and> (\<forall>h\<in>set (ft_hypotheses (gs_frontier s)). fh_ok h)"

lemma growth_hashable: "growth_inv w p s \<Longrightarrow> states_hashable s"
  by (auto simp: growth_inv_def states_hashable_def frontier_inv_def)

lemma gs_digest_total:
  assumes "states_hashable s"
  shows "\<exists>d. gs_digest float_repr tensor_bytes s = Inr d \<and> digest_ok d"
proof -
  have "\<exists>v. fh_payload h = Inr v" if "fh_ok h" for h
  proof -
    have "valid_program (fh_program h)" using that by (simp add: fh_ok_def)
    then obtain v where "cp_payload (fh_program h) = Inr v" using cp_payload_valid by blast
    then show ?thesis using that fh_validate_Inr [of h h] by (simp add: fh_payload_def)
  qed
  then obtain hs where "map_r fh_payload (ft_hypotheses (gs_frontier s)) = Inr hs"
    using map_r_ex assms unfolding states_hashable_def by metis
  moreover have "ft_validate (gs_frontier s) = Inr (gs_frontier s)" "gs_validate s = Inr s"
    using assms by (simp_all add: states_hashable_def gs_validate_Inr ft_validate_Inr gs_ok_def)
  ultimately show ?thesis by (simp add: gs_digest_def gs_body_def ft_payload_def)
qed

text \<open>Both outcomes of a transaction produce their receipt.\<close>

lemma conclude_total:
  assumes "states_hashable s" and "states_hashable t" and "accepted \<or> t = s"
    and "gs_horizon s \<le> gs_horizon t" and "gs_rung s \<le> gs_rung t"
    and "operation \<in> {''expand_horizon'', ''promote_root''}" and "reason \<noteq> []"
  shows "\<exists>r. conclude float_repr tensor_bytes accepted operation s t reason = Inr (r, t)
    \<and> gc_accepted r = accepted \<and> gc_reason r = reason"
proof -
  obtain d e where d: "gs_digest float_repr tensor_bytes s = Inr d" "digest_ok d"
      "gs_digest float_repr tensor_bytes t = Inr e" "digest_ok e"
    using gs_digest_total assms(1,2) by metis
  have "accepted \<or> e = d" using assms(3) d by auto
  moreover have "1 \<le> gs_horizon s" "1 \<le> gs_horizon t" "0 \<le> gs_rung s" "0 \<le> gs_rung t" "gs_qualified t \<noteq> []"
    using assms(1,2) by (simp_all add: states_hashable_def gs_ok_def)
  moreover have "1 \<le> int (length (gs_qualified t))" using calculation(6) by (cases "gs_qualified t") auto
  ultimately show ?thesis
    using assms(3-7) d(2,4)
    by (auto simp: conclude_def mk_growth_receipt_def d(1,3) gc_validate_def digest_is_valid_iff)
qed

section \<open>Growing a frontier\<close>

lemma frontier_at_options:
  assumes "frontier_at w horizon = Inr x"
  shows "1 \<le> horizon \<and> horizon \<le> gw_maximum w \<and> fr_max x = horizon \<and> fr_counter_count x = gw_counter_count w"
  using assms by (auto simp: frontier_at_def fr_init_def Let_def split: if_splits)

lemma frontier_at_next:
  assumes "frontier_at w horizon = Inr x" and "horizon < gw_maximum w"
  shows "frontier_at w (horizon + 1) = Inr (x\<lparr>fr_max := horizon + 1\<rparr>)"
  using assms by (auto simp: frontier_at_def fr_init_def Let_def split: if_splits)

lemma frontier_edit_longer:
  assumes "frontier_edit x p k q" and "fr_max x \<le> m"
  shows "frontier_edit (x\<lparr>fr_max := m\<rparr>) p k q"
  using assms unfolding frontier_edit_def Let_def by auto

lemma lineage_longer:
  assumes "fr_max x \<le> m"
  shows "lineage x p d q \<Longrightarrow> lineage (x\<lparr>fr_max := m\<rparr>) p d q"
  using frontier_edit_longer [OF _ assms] by (induction d arbitrary: q) (simp, fastforce)

lemma frontier_inv_longer:
  assumes "frontier_inv x p s" and "fr_max x \<le> m"
  shows "frontier_inv (x\<lparr>fr_max := m\<rparr>) p s"
  using assms lineage_longer [OF assms(2)]
  by (auto simp: frontier_inv_def frontier_ok_def frontier_program_def)

definition expanded :: "growth_state \<Rightarrow> growth_state" where
  "expanded s = s\<lparr>gs_horizon := gs_horizon s + 1\<rparr>"

lemma expanded_inv:
  assumes "growth_inv w p s" and "gs_horizon s < gw_maximum w"
  shows "growth_inv w p (expanded s)"
proof -
  obtain x where x: "frontier_at w (gs_horizon s) = Inr x" "frontier_inv x p (gs_frontier s)" and ok: "gs_ok s"
    using assms(1) by (auto simp: growth_inv_def)
  have "fr_max x \<le> gs_horizon s + 1" using frontier_at_options [OF x(1)] by simp
  then have "frontier_inv (x\<lparr>fr_max := gs_horizon s + 1\<rparr>) p (gs_frontier s)" using frontier_inv_longer x(2) by blast
  moreover have "gs_ok (expanded s)" using ok by (auto simp: gs_ok_def expanded_def)
  ultimately show ?thesis
    using frontier_at_next [OF x(1) assms(2)] by (simp add: growth_inv_def expanded_def)
qed

lemma expand_cases:
  assumes "growth_inv w p s"
  shows "\<exists>r s'. expand_horizon_verified float_repr tensor_bytes w s (\<lambda>t. Inr (verdict t)) = Inr (r, s')
    \<and> gc_accepted r = (gs_horizon s < gw_maximum w \<and> verdict (expanded s))
    \<and> s' = (if gc_accepted r then expanded s else s)"
proof -
  have h: "states_hashable s" "gs_ok s" using growth_hashable [OF assms] assms by (simp_all add: growth_inv_def)
  have reject: "\<exists>r. conclude float_repr tensor_bytes False ''expand_horizon'' s s reason = Inr (r, s) \<and> \<not> gc_accepted r"
    if "reason \<noteq> []" for reason
    using conclude_total [OF h(1) h(1), of False "''expand_horizon''" reason] that by auto
  show ?thesis
  proof (cases "gs_horizon s < gw_maximum w")
    case False
    then show ?thesis
      using reject [of "''maximum frontier horizon reached''"] h(2)
      by (auto simp: expand_horizon_verified_def gs_validate_Inr [of s s, THEN iffD2] Let_def)
  next
    case True
    have e: "growth_inv w p (expanded s)" by (rule expanded_inv [OF assms True])
    have eq: "\<lparr>gs_frontier = gs_frontier s, gs_horizon = gs_horizon s + 1, gs_qualified = gs_qualified s,
        gs_rung = gs_rung s, gs_schema = CONTROL_FLOW_FRONTIER_GROWTH_SCHEMA\<rparr> = expanded s"
      using h(2) by (simp add: expanded_def gs_ok_def)
    have "gs_validate (expanded s) = Inr (expanded s)" using e by (simp add: gs_validate_Inr growth_inv_def)
    then have start: "expand_horizon_verified float_repr tensor_bytes w s (\<lambda>t. Inr (verdict t)) =
        (if \<not> verdict (expanded s)
         then conclude float_repr tensor_bytes False ''expand_horizon'' s s ''retention_probe_rejected''
         else conclude float_repr tensor_bytes True ''expand_horizon'' s (expanded s) ''horizon expanded after retention probe'')"
      using True h(2) by (simp add: expand_horizon_verified_def gs_validate_Inr [of s s, THEN iffD2] Let_def eq)
    show ?thesis
    proof (cases "verdict (expanded s)")
      case False
      then show ?thesis using reject [of "''retention_probe_rejected''"] by (auto simp: start)
    next
      case v: True
      have "\<exists>r. conclude float_repr tensor_bytes True ''expand_horizon'' s (expanded s) ''horizon expanded after retention probe''
          = Inr (r, expanded s) \<and> gc_accepted r = True \<and> gc_reason r = ''horizon expanded after retention probe''"
        by (rule conclude_total [OF h(1) growth_hashable [OF e]]) (simp_all add: expanded_def)
      then show ?thesis using True v by (auto simp: start)
    qed
  qed
qed
section \<open>Promoting a root\<close>

definition root_hypothesis :: "cf_program \<Rightarrow> pyfloat \<Rightarrow> frontier_hypothesis" where
  "root_hypothesis q quality = \<lparr>fh_program = q, fh_parent = None, fh_depth = 0, fh_quality = quality,
     fh_schema = CONTROL_FLOW_FRONTIER_HYPOTHESIS_SCHEMA\<rparr>"

definition qualified_quality :: "growth_state \<Rightarrow> cf_program \<Rightarrow> pyfloat" where
  "qualified_quality s q = the (map_of (gs_qualified s) (digest_of q))"

text \<open>The state after a promotion: a beam of the new root alone, everything learnt kept.\<close>

definition promoted :: "growth_state \<Rightarrow> cf_program \<Rightarrow> growth_state" where
  "promoted s q = s\<lparr>gs_frontier := (gs_frontier s)\<lparr>ft_hypotheses := [root_hypothesis q (qualified_quality s q)],
       ft_root := digest_of q\<rparr>, gs_rung := gs_rung s + 1\<rparr>"

lemma promoted_inv:
  assumes "growth_inv w p s" and "valid_program q" and "cp_counter_count q = gw_counter_count w"
    and "digest_of q \<in> fst ` set (gs_qualified s)" and "cp_length p < cp_length q" and "cp_length q \<le> gs_horizon s"
  shows "growth_inv w q (promoted s q)" and "fh_ok (root_hypothesis q (qualified_quality s q))"
    and "map_of (gs_qualified s) (digest_of q) = Some (qualified_quality s q)"
proof -
  obtain x where x: "frontier_at w (gs_horizon s) = Inr x" "frontier_inv x p (gs_frontier s)" and ok: "gs_ok s"
    using assms(1) by (auto simp: growth_inv_def)
  show m: "map_of (gs_qualified s) (digest_of q) = Some (qualified_quality s q)"
    using assms(4) by (metis map_of_eq_None_iff option.collapse qualified_quality_def)
  then have "(digest_of q, qualified_quality s q) \<in> set (gs_qualified s)" by (rule map_of_SomeD)
  then have u: "in_unit (qualified_quality s q)" using ok by (auto simp: gs_ok_def)
  show h: "fh_ok (root_hypothesis q (qualified_quality s q))"
    using assms(2) u by (simp add: fh_ok_def root_hypothesis_def)
  have fp: "frontier_program x q"
    using x frontier_at_options [OF x(1)] assms(2,3,5,6) by (auto simp: frontier_program_def frontier_inv_def)
  have "ft_ok (gs_frontier (promoted s q))"
    using ok assms(2) digest_of_ok by (simp add: gs_ok_def ft_ok_def promoted_def root_hypothesis_def)
  then have "gs_ok (promoted s q)" "frontier_inv x q (gs_frontier (promoted s q))"
    using ok x(2) assms(4,6) fp h
    by (simp_all add: gs_ok_def promoted_def root_hypothesis_def frontier_inv_def frontier_ok_def)
  then show "growth_inv w q (promoted s q)" using x(1) by (auto simp: growth_inv_def promoted_def)
qed

lemma find_root_eq:
  assumes "frontier_inv x p s"
  shows "find_root (ft_root s) (ft_hypotheses s) = Inr p"
proof -
  obtain h hs where hs: "ft_hypotheses s = h # hs" using assms by (cases "ft_hypotheses s") (auto simp: frontier_inv_def ft_ok_def)
  then have h: "fh_program h = p" "ft_root s = digest_of p" "valid_program p"
    using assms by (auto simp: frontier_inv_def frontier_program_def)
  show ?thesis unfolding hs h(2) find_root.simps h(1) digest_of_valid [OF h(3)] by simp
qed

lemma promote_cases:
  assumes inv: "growth_inv w p s" and q: "valid_program q" "cp_counter_count q = gw_counter_count w"
  shows "\<exists>r s'. promote_root_verified float_repr tensor_bytes w s q (\<lambda>t. Inr (verdict t)) = Inr (r, s')
    \<and> gc_accepted r = (digest_of q \<in> fst ` set (gs_qualified s) \<and> cp_length p < cp_length q
        \<and> cp_length q \<le> gs_horizon s \<and> verdict (promoted s q))
    \<and> s' = (if gc_accepted r then promoted s q else s)"
proof -
  obtain x where x: "frontier_at w (gs_horizon s) = Inr x" "frontier_inv x p (gs_frontier s)" and ok: "gs_ok s"
    using inv by (auto simp: growth_inv_def)
  have v: "gs_validate s = Inr s" "cp_validate q = Inr q" using ok q by (simp_all add: gs_validate_Inr cp_validate_cases)
  note h = growth_hashable [OF inv]
  have reject: "\<exists>r. conclude float_repr tensor_bytes False ''promote_root'' s s reason = Inr (r, s) \<and> \<not> gc_accepted r"
    if "reason \<noteq> []" for reason
    using conclude_total [OF h h, of False "''promote_root''" reason] that by auto
  note start = promote_root_verified_def [of float_repr tensor_bytes w s q, unfolded v bind_r_Inr Let_def
      digest_of_valid [OF q(1)] find_root_eq [OF x(2)]]
  show ?thesis
  proof (cases "digest_of q \<in> fst ` set (gs_qualified s)")
    case False
    then have "map_of (gs_qualified s) (digest_of q) = None" by (simp add: map_of_eq_None_iff)
    then show ?thesis
      using False q(2) reject [of "''candidate was not verifier-qualified''"] by (auto simp: start)
  next
    case d: True
    then obtain quality where quality: "map_of (gs_qualified s) (digest_of q) = Some quality"
      by (metis map_of_eq_None_iff not_None_eq)
    consider "cp_length q \<le> cp_length p" | "cp_length p < cp_length q" "gs_horizon s < cp_length q"
      | "cp_length p < cp_length q" "cp_length q \<le> gs_horizon s" by linarith
    then show ?thesis
    proof cases
      case 1
      then show ?thesis
        using q(2) quality reject [of "''root promotion must increase program length''"] by (auto simp: start)
    next
      case 2
      then show ?thesis
        using q(2) quality reject [of "''candidate exceeds active frontier horizon''"] by (auto simp: start)
    next
      case 3
      note pr = promoted_inv [OF inv q d 3]
      have mk: "mk_hypothesis q None 0 (qualified_quality s q) = Inr (root_hypothesis q (qualified_quality s q))"
        using pr(2) by (simp add: mk_hypothesis_def fh_validate_Inr root_hypothesis_def)
      have sch: "gs_schema s = CONTROL_FLOW_FRONTIER_GROWTH_SCHEMA" "ft_schema (gs_frontier s) = CONTROL_FLOW_FRONTIER_SCHEMA"
        using ok by (simp_all add: gs_ok_def ft_ok_def)
      obtain f where f: "f = (gs_frontier s)\<lparr>ft_hypotheses := [root_hypothesis q (qualified_quality s q)],
          ft_root := digest_of q, ft_schema := CONTROL_FLOW_FRONTIER_SCHEMA\<rparr>" by blast
      have f': "f = gs_frontier (promoted s q)" using sch(2) by (simp add: f promoted_def)
      have g: "\<lparr>gs_frontier = f, gs_horizon = gs_horizon s, gs_qualified = gs_qualified s, gs_rung = gs_rung s + 1,
          gs_schema = CONTROL_FLOW_FRONTIER_GROWTH_SCHEMA\<rparr> = promoted s q"
        using sch(1) by (simp add: f' promoted_def)
      have "ft_validate f = Inr f" "gs_validate (promoted s q) = Inr (promoted s q)"
        using pr(1) by (simp_all add: gs_validate_Inr growth_inv_def gs_ok_def ft_validate_Inr f')
      then have run: "promote_root_verified float_repr tensor_bytes w s q (\<lambda>t. Inr (verdict t)) =
          (if \<not> verdict (promoted s q)
           then conclude float_repr tensor_bytes False ''promote_root'' s s ''retention_probe_rejected''
           else conclude float_repr tensor_bytes True ''promote_root'' s (promoted s q)
                  ''qualified longer program promoted as next search root'')"
        using 3 q(2) pr(3) mk by (simp add: start f [symmetric] g)
      show ?thesis
      proof (cases "verdict (promoted s q)")
        case False
        then show ?thesis using reject [of "''retention_probe_rejected''"] by (auto simp: run)
      next
        case True
        have "\<exists>r. conclude float_repr tensor_bytes True ''promote_root'' s (promoted s q)
              ''qualified longer program promoted as next search root'' = Inr (r, promoted s q)
            \<and> gc_accepted r = True \<and> gc_reason r = ''qualified longer program promoted as next search root''"
          by (rule conclude_total [OF h growth_hashable [OF pr(1)]]) (simp_all add: promoted_def)
        then show ?thesis using True d 3 by (auto simp: run)
      qed
    qed
  qed
qed
section \<open>Starting and recording\<close>

lemma growth_initial:
  assumes at: "frontier_at w (gw_initial w) = Inr x" and x: "frontier_ok x" and p: "frontier_program x p" and q: "in_unit q"
  shows "\<exists>s. gw_initial_state w p q = Inr s \<and> growth_inv w p s \<and> gs_horizon s = gw_initial w
    \<and> gs_qualified s = [(digest_of p, q)] \<and> gs_rung s = 0"
proof -
  obtain f where f: "fr_initial_state x p q = Inr f" "frontier_inv x p f"
    using frontier_initial [OF x p q] by blast
  have v: "valid_program p" "cp_counter_count p = gw_counter_count w" "cp_length p \<le> gw_initial w" "1 \<le> gw_initial w"
    using p frontier_at_options [OF at] by (auto simp: frontier_program_def)
  obtain s where s: "s = \<lparr>gs_frontier = f, gs_horizon = gw_initial w, gs_qualified = [(digest_of p, q)],
                gs_rung = 0, gs_schema = CONTROL_FLOW_FRONTIER_GROWTH_SCHEMA\<rparr>" by blast
  have "\<forall>h\<in>set (ft_hypotheses f). cp_length (fh_program h) \<le> gw_initial w"
    using f(2) frontier_at_options [OF at] by (auto simp: frontier_inv_def frontier_program_def)
  then have "gs_ok s"
    using f(2) v q digest_of_ok [OF v(1)] by (simp add: gs_ok_def s frontier_inv_def)
  moreover from this have "gw_initial_state w p q = Inr s"
    using v at f(1) by (simp add: gw_initial_state_def cp_validate_cases digest_of_valid gs_validate_Inr s)
  ultimately show ?thesis using at f(2) by (auto simp: growth_inv_def s)
qed

text \<open>
  Recording: the frontier records; an accepted program becomes qualified, unless it is qualified already, as
  the root is when an edit of a descendant leads back to it: then the call raises although the proposal
  memory has been updated.
\<close>

lemma growth_record_cases:
  assumes inv: "growth_inv w p s" and at: "frontier_at w (gs_horizon s) = Inr x"
    and fresh: "fresh_edit x (gs_frontier s) r" and ev: "search_evidence_ok (vs, threshold, mo, ms)"
    and r': "r' = \<lparr>gr_proposal = r, gr_horizon = gs_horizon s, gr_rung = gs_rung s,
         gr_schema = CONTROL_FLOW_FRONTIER_GROWTH_PROPOSAL_SCHEMA\<rparr>"
    and acc: "accepted = admissible vs threshold mo ms"
  shows "\<exists>P. if accepted \<and> digest_of (gp_program r) \<in> fst ` set (gs_qualified s)
     then gw_record_outcomes w s r' (vs, threshold, mo, ms) = (Inl ValueError, set_policy w P)
     else \<exists>b. gw_record_outcomes w s r' (vs, threshold, mo, ms) = (Inr b, set_policy w P)
       \<and> growth_inv (set_policy w P) p (gf_state b) \<and> gf_accepted b = accepted
       \<and> gs_horizon (gf_state b) = gs_horizon s \<and> gs_rung (gf_state b) = gs_rung s
       \<and> gs_qualified (gf_state b) = gs_qualified s @ (if accepted then [(digest_of (gp_program r), quality_of vs)] else [])"
proof -
  have fi: "frontier_inv x p (gs_frontier s)" and ok: "gs_ok s" using inv at by (auto simp: growth_inv_def)
  obtain b P h kept where b: "fr_record_outcomes x (gs_frontier s) r (vs, threshold, mo, ms) = Inr (b, x\<lparr>fr_policy := P\<rparr>)"
      "gb_accepted b = accepted" "gb_quality b = quality_of vs"
      "gb_state b = ft_recorded (gs_frontier s) r accepted (quality_of vs) kept"
      "frontier_inv (x\<lparr>fr_policy := P\<rparr>) p (gb_state b)"
    using frontier_record_total [OF fi fresh ev] acc by blast
  have pb: "gb_proposal b = r"
    using b(1) by (auto simp: fr_record_outcomes_def bind_r_eq_Inr Let_def split: if_splits prod.splits)
  have g: "gp_ok r" "valid_program (gp_program r)" using fresh by (simp_all add: fresh_edit_def gp_ok_def)
  have vs: "gs_validate s = Inr s" "gr_validate r' = Inr r'"
    using ok g(1) by (auto simp: gs_validate_Inr gr_validate_Inr r' gs_ok_def)
  let ?Q = "gs_qualified s @ (if accepted then [(digest_of (gp_program r), quality_of vs)] else [])"
  obtain t where t: "t = \<lparr>gs_frontier = gb_state b, gs_horizon = gs_horizon s, gs_qualified = ?Q,
      gs_rung = gs_rung s, gs_schema = CONTROL_FLOW_FRONTIER_GROWTH_SCHEMA\<rparr>" by blast
  have run: "gw_record_outcomes w s r' (vs, threshold, mo, ms) =
     (bind_r (gs_validate t) (\<lambda>next_state. Inr \<lparr>gf_proposal = r', gf_quality = quality_of vs, gf_accepted = accepted,
        gf_stable = gb_stable b, gf_state = next_state\<rparr>), set_policy w P)"
    unfolding gw_record_outcomes_def vs bind_r_Inr at using b(1-3) digest_of_valid [OF g(2)] pb
    by (simp add: r' t)
  have fits: "\<forall>h\<in>set (ft_hypotheses (gb_state b)). cp_length (fh_program h) \<le> gs_horizon s"
    using b(5) frontier_at_options [OF at] by (auto simp: frontier_inv_def frontier_program_def)
  have ft: "ft_ok (gb_state b)" using b(5) unfolding frontier_inv_def by blast
  have "in_unit (quality_of vs)" using ev quality_in_unit by simp
  then have iff: "gs_ok t \<longleftrightarrow> \<not> (accepted \<and> digest_of (gp_program r) \<in> fst ` set (gs_qualified s))"
    using ok fits ft digest_of_ok [OF g(2)] by (auto simp: gs_ok_def t b(4) ft_recorded_def)
  show ?thesis
  proof (cases "accepted \<and> digest_of (gp_program r) \<in> fst ` set (gs_qualified s)")
    case True
    have "gs_validate t = Inl ValueError"
    proof -
      have "ft_validate (gs_frontier t) = Inr (gb_state b)" using ft by (simp add: ft_validate_Inr t)
      then have "gs_validate t = Inl e \<Longrightarrow> e = ValueError" for e
        by (auto simp: gs_validate_def Let_def split: if_splits)
      moreover have "gs_validate t \<noteq> Inr u" for u using iff True by (simp add: gs_validate_Inr)
      ultimately show ?thesis by (metis sum.exhaust)
    qed
    then have "gw_record_outcomes w s r' (vs, threshold, mo, ms) = (Inl ValueError, set_policy w P)"
      unfolding run by simp
    then show ?thesis using True by auto
  next
    case False
    have at': "frontier_at (set_policy w P) (gs_horizon s) = Inr (x\<lparr>fr_policy := P\<rparr>)"
      using at by (auto simp: frontier_at_def set_policy_def fr_init_def Let_def split: if_splits)
    have "gs_validate t = Inr t" using iff False by (simp add: gs_validate_Inr)
    moreover have "growth_inv (set_policy w P) p t"
      using iff False at' b(5) by (auto simp: growth_inv_def t)
    ultimately show ?thesis unfolding run using False by (auto simp: t)
  qed
qed

section \<open>Properties\<close>

text \<open>
  C22. Growth is transactional.  From a well-formed growth state and for any probe that answers, expanding the
  horizon and promoting a valid program of the right width never raise.  An expansion is accepted exactly when
  the maximum is not reached and the probe accepts the state with the next horizon; a promotion exactly when
  the program is qualified, longer than the current root, within the horizon, and the probe accepts the state
  rebased on it.  A rejected transaction hands back the very state it was given; an accepted one ends in a
  well-formed state: the frontier searches on from the same root with room for one more instruction, or from
  the promoted program alone, with the statistics, the evaluated digests and the qualified programs kept.
\<close>

theorem growth_transactions:
  assumes "growth_inv w p s" and "valid_program q" and "cp_counter_count q = gw_counter_count w"
  shows "(\<exists>r s'. expand_horizon_verified float_repr tensor_bytes w s (\<lambda>t. Inr (verdict t)) = Inr (r, s')
      \<and> gc_accepted r = (gs_horizon s < gw_maximum w \<and> verdict (expanded s))
      \<and> s' = (if gc_accepted r then expanded s else s) \<and> growth_inv w p s')
    \<and> (\<exists>r s'. promote_root_verified float_repr tensor_bytes w s q (\<lambda>t. Inr (verdict t)) = Inr (r, s')
      \<and> gc_accepted r = (digest_of q \<in> fst ` set (gs_qualified s) \<and> cp_length p < cp_length q
          \<and> cp_length q \<le> gs_horizon s \<and> verdict (promoted s q))
      \<and> s' = (if gc_accepted r then promoted s q else s)
      \<and> growth_inv w (if gc_accepted r then q else p) s'
      \<and> gs_qualified s' = gs_qualified s \<and> ft_seen (gs_frontier s') = ft_seen (gs_frontier s)
      \<and> ft_totals (gs_frontier s') = ft_totals (gs_frontier s) \<and> ft_counts (gs_frontier s') = ft_counts (gs_frontier s))"
proof
  obtain r s' where e: "expand_horizon_verified float_repr tensor_bytes w s (\<lambda>t. Inr (verdict t)) = Inr (r, s')"
      "gc_accepted r = (gs_horizon s < gw_maximum w \<and> verdict (expanded s))" "s' = (if gc_accepted r then expanded s else s)"
    using expand_cases [OF assms(1)] by metis
  moreover have "growth_inv w p s'" using e(2,3) expanded_inv [OF assms(1)] assms(1) by simp
  ultimately show "\<exists>r s'. expand_horizon_verified float_repr tensor_bytes w s (\<lambda>t. Inr (verdict t)) = Inr (r, s')
      \<and> gc_accepted r = (gs_horizon s < gw_maximum w \<and> verdict (expanded s))
      \<and> s' = (if gc_accepted r then expanded s else s) \<and> growth_inv w p s'" by blast
next
  obtain r s' where e: "promote_root_verified float_repr tensor_bytes w s q (\<lambda>t. Inr (verdict t)) = Inr (r, s')"
      "gc_accepted r = (digest_of q \<in> fst ` set (gs_qualified s) \<and> cp_length p < cp_length q
          \<and> cp_length q \<le> gs_horizon s \<and> verdict (promoted s q))" "s' = (if gc_accepted r then promoted s q else s)"
    using promote_cases [OF assms] by metis
  moreover have "growth_inv w (if gc_accepted r then q else p) s'"
    using e(2,3) promoted_inv(1) [OF assms] assms(1) by simp
  moreover have "gs_qualified s' = gs_qualified s \<and> ft_seen (gs_frontier s') = ft_seen (gs_frontier s)
      \<and> ft_totals (gs_frontier s') = ft_totals (gs_frontier s) \<and> ft_counts (gs_frontier s') = ft_counts (gs_frontier s)"
    using e(3) by (simp add: promoted_def)
  ultimately show "\<exists>r s'. promote_root_verified float_repr tensor_bytes w s q (\<lambda>t. Inr (verdict t)) = Inr (r, s')
      \<and> gc_accepted r = (digest_of q \<in> fst ` set (gs_qualified s) \<and> cp_length p < cp_length q
          \<and> cp_length q \<le> gs_horizon s \<and> verdict (promoted s q))
      \<and> s' = (if gc_accepted r then promoted s q else s)
      \<and> growth_inv w (if gc_accepted r then q else p) s'
      \<and> gs_qualified s' = gs_qualified s \<and> ft_seen (gs_frontier s') = ft_seen (gs_frontier s)
      \<and> ft_totals (gs_frontier s') = ft_totals (gs_frontier s) \<and> ft_counts (gs_frontier s') = ft_counts (gs_frontier s)"
    by blast
qed

definition small_growth :: growth where
  "small_growth = \<lparr>gw_counter_count = 2, gw_initial = 8, gw_maximum = 9, gw_options =
     \<lparr>fo_beam = 4, fo_max_depth = 3, fo_min = 2, fo_minimum_quality = Fin 0, fo_temperature = Fin 1,
      fo_exploration = Fin (1 / 4), fo_retries = 8, fo_policy = None\<rparr>\<rparr>"

lemma small_growth_frontier: "frontier_at small_growth 8 = Inr small_frontier"
  by (simp add: frontier_at_def small_growth_def fr_init_def small_frontier_def)

theorem growth_transactions_witness:
  "\<exists>s r s'. gw_initial_state small_growth drain (Fin 0) = Inr s
    \<and> expand_horizon_verified (\<lambda>x. []) (\<lambda>xs. []) small_growth s (\<lambda>t. Inr True) = Inr (r, s')
    \<and> gc_accepted r \<and> gs_horizon s' = 9"
proof -
  have at: "frontier_at small_growth (gw_initial small_growth) = Inr small_frontier"
    using small_growth_frontier by (simp add: small_growth_def)
  have "in_unit (Fin 0)" "gw_initial small_growth = 8" by (simp_all add: small_growth_def)
  then obtain s where s: "gw_initial_state small_growth drain (Fin 0) = Inr s" "growth_inv small_growth drain s"
      "gs_horizon s = 8"
    using growth_initial [OF at small_frontier_ok drain_program, of "Fin 0"] by auto
  have "cp_counter_count drain = gw_counter_count small_growth" by code_simp
  from growth_transactions [OF s(2) drain_valid this, of "\<lambda>x. []" "\<lambda>xs. []" "\<lambda>t. True"] s(3)
  obtain r where "expand_horizon_verified (\<lambda>x. []) (\<lambda>xs. []) small_growth s (\<lambda>t. Inr True) = Inr (r, expanded s)"
      "gc_accepted r" by (auto simp: small_growth_def)
  then show ?thesis using s by (auto simp: expanded_def)
qed

end
