(* ===== verification/RecipeMemory.thy ===== *)
theory RecipeMemory
  imports RecipeProgram
begin

text \<open>
  The class \<open>ExternalRecipeProgramMemory\<close> of \<open>recipe_program.py\<close>: an append-only bank of recipe
  files over one basis, with protection marks, verified admission and a checksummed payload.  A
  method that mutates \<open>self\<close> returns the new record.
\<close>

section \<open>The memory\<close>

definition RECIPE_PROGRAM_MEMORY_SCHEMA :: string where
  "RECIPE_PROGRAM_MEMORY_SCHEMA = ''neural-computer.external-recipe-program-memory.v1''"

record recipe_memory =
  rm_basis :: recipe_basis
  rm_programs :: "recipe_program list"
  rm_protected :: "bool list"

definition rm_init :: "int list \<Rightarrow> bool \<Rightarrow> recipe_memory result" where
  "rm_init values parallel =
     bind_r (rb_init (int (length values)) 8 (Some values) parallel) (\<lambda>b.
       Inr \<lparr>rm_basis = b, rm_programs = [], rm_protected = []\<rparr>)"

definition rm_file_count :: "recipe_memory \<Rightarrow> int" where
  "rm_file_count m = int (length (rm_programs m))"

definition rm_validate_program :: "recipe_memory \<Rightarrow> recipe_program \<Rightarrow> unit result" where
  "rm_validate_program m p =
     (if rp_slot_values p \<noteq> rb_slot_values (rm_basis m) then Inl ValueError
      else if rp_allow_parallel p \<noteq> rb_allow_parallel (rm_basis m) then Inl ValueError
      else Inr ())"

definition rm_add_program :: "recipe_memory \<Rightarrow> recipe_program \<Rightarrow> (recipe_memory \<times> int) result" where
  "rm_add_program m p =
     bind_r (rm_validate_program m p) (\<lambda>_.
       let m' = m\<lparr>rm_programs := rm_programs m @ [p], rm_protected := rm_protected m @ [False]\<rparr>
       in Inr (m', rm_file_count m' - 1))"

definition rm_program :: "recipe_memory \<Rightarrow> int \<Rightarrow> recipe_program result" where
  "rm_program m slot =
     (if \<not> (0 \<le> slot \<and> slot < rm_file_count m) then Inl ValueError
      else Inr (rm_programs m ! nat slot))"

definition rm_protect_file :: "recipe_memory \<Rightarrow> int \<Rightarrow> recipe_memory result" where
  "rm_protect_file m slot =
     (if \<not> (0 \<le> slot \<and> slot < rm_file_count m) then Inl ValueError
      else Inr (m\<lparr>rm_protected := (rm_protected m)[nat slot := True]\<rparr>))"

definition rm_is_file_protected :: "recipe_memory \<Rightarrow> int \<Rightarrow> bool result" where
  "rm_is_file_protected m slot =
     (if \<not> (0 \<le> slot \<and> slot < rm_file_count m) then Inl ValueError
      else Inr (rm_protected m ! nat slot))"

definition rm_execute :: "recipe_memory \<Rightarrow> int \<Rightarrow> int list \<Rightarrow> int list result" where
  "rm_execute m slot s = bind_r (rm_program m slot) (\<lambda>p. rp_execute p s)"

definition COMMITTED :: string where
  "COMMITTED = ''candidate verified and committed as an external recipe file''"

definition rm_admit_verified :: "recipe_memory \<Rightarrow> recipe_program \<Rightarrow> pyfloat list \<Rightarrow> pyfloat \<Rightarrow> int \<Rightarrow> int
    \<Rightarrow> bool \<Rightarrow> (recipe_memory \<times> recipe_receipt) result" where
  "rm_admit_verified m p outcomes threshold min_observations min_stable protect =
     bind_r (rm_validate_program m p) (\<lambda>_.
     bind_r (evaluate_recipe_program_admission p outcomes threshold min_observations min_stable) (\<lambda>receipt.
       if \<not> rr_accepted receipt then Inr (m, receipt)
       else bind_r (rm_add_program m p) (\<lambda>(m', slot).
            bind_r (if protect then rm_protect_file m' slot else Inr m') (\<lambda>m''.
            bind_r (rr_validate (receipt\<lparr>rr_accepted := True, rr_slot := Some slot,
                      rr_reason := COMMITTED, rr_schema := RECIPE_PROGRAM_ADMISSION_SCHEMA\<rparr>)) (\<lambda>r.
              Inr (m'', r))))))"

section \<open>Persistence\<close>

definition rm_configuration :: "recipe_memory \<Rightarrow> (string \<times> pyval) list" where
  "rm_configuration m =
     [(''schema'', PStr RECIPE_PROGRAM_MEMORY_SCHEMA),
      (''slot_values'', PList (map PInt (rb_slot_values (rm_basis m)))),
      (''allow_parallel'', PBool (rb_allow_parallel (rm_basis m))),
      (''file_count'', PInt (rm_file_count m)),
      (''protected'', PList (map PBool (rm_protected m))),
      (''storage'', PStr ''append_only_verifier_gated_recipe_files_v1'')]"

definition rm_content :: "recipe_memory \<Rightarrow> (string \<times> pyval) list" where
  "rm_content m =
     [(''schema'', PStr RECIPE_PROGRAM_MEMORY_SCHEMA),
      (''configuration'', PDict (rm_configuration m)),
      (''programs'', PList (map rp_payload (rm_programs m)))]"

definition rm_digest :: "recipe_memory \<Rightarrow> string" where
  "rm_digest m = digest_payload (PDict (rm_content m))"

definition rm_payload :: "recipe_memory \<Rightarrow> pyval" where
  "rm_payload m = PDict (rm_content m @ [(''sha256'', PStr (rm_digest m))])"

fun rm_restore :: "recipe_memory \<Rightarrow> pyval list \<Rightarrow> recipe_memory result" where
  "rm_restore m [] = Inr m"
| "rm_restore m (raw # raws) =
     bind_r (rp_from_payload raw) (\<lambda>p.
     bind_r (rm_add_program m p) (\<lambda>(m', _). rm_restore m' raws))"

fun rm_from_payload :: "pyval \<Rightarrow> recipe_memory result" where
  "rm_from_payload (PDict kvs) =
     (if dict_get kvs ''schema'' \<noteq> PStr RECIPE_PROGRAM_MEMORY_SCHEMA then Inl ValueError
      else (case dict_get kvs ''configuration'' of
          PDict config \<Rightarrow>
            (case py_sequence (dict_get kvs ''programs'') of
               None \<Rightarrow> Inl TypeError
             | Some raws \<Rightarrow>
                 bind_r (py_tuple (dict_get_default config ''slot_values'' (PList []))) (\<lambda>raw_values.
                 bind_r (map_r py_int raw_values) (\<lambda>values.
                 bind_r (rm_init values
                   (py_bool (dict_get_default config ''allow_parallel'' (PBool False)))) (\<lambda>m0.
                 bind_r (rm_restore m0 raws) (\<lambda>m.
                   case py_sequence (dict_get config ''protected'') of
                     None \<Rightarrow> Inl ValueError
                   | Some marks \<Rightarrow>
                       if int (length marks) \<noteq> rm_file_count m then Inl ValueError
                       else
                         let m' = m\<lparr>rm_protected := map py_bool marks\<rparr>
                         in if \<not> py_eq_int (dict_get config ''file_count'') (rm_file_count m')
                            then Inl ValueError
                            else if dict_get kvs ''sha256'' \<noteq> PStr (rm_digest m') then Inl ValueError
                            else Inr m')))))
        | _ \<Rightarrow> Inl TypeError))"
| "rm_from_payload _ = Inl ValueError"

section \<open>Well-formed memories and what the operations do\<close>

definition fits :: "recipe_memory \<Rightarrow> recipe_program \<Rightarrow> bool" where
  "fits m p \<longleftrightarrow> recipe_ok p \<and> rp_slot_values p = rb_slot_values (rm_basis m)
     \<and> rp_allow_parallel p = rb_allow_parallel (rm_basis m)"

definition rm_ok :: "recipe_memory \<Rightarrow> bool" where
  "rm_ok m \<longleftrightarrow>
     rb_init (int (length (rb_slot_values (rm_basis m)))) 8 (Some (rb_slot_values (rm_basis m)))
       (rb_allow_parallel (rm_basis m)) = Inr (rm_basis m)
     \<and> length (rm_protected m) = length (rm_programs m) \<and> (\<forall>p\<in>set (rm_programs m). fits m p)"

definition with_recipe :: "recipe_memory \<Rightarrow> recipe_program \<Rightarrow> bool \<Rightarrow> recipe_memory" where
  "with_recipe m p b = m\<lparr>rm_programs := rm_programs m @ [p], rm_protected := rm_protected m @ [b]\<rparr>"

lemma with_recipe_simps [simp]:
  "rm_programs (with_recipe m p b) = rm_programs m @ [p]"
  "rm_protected (with_recipe m p b) = rm_protected m @ [b]"
  "rm_basis (with_recipe m p b) = rm_basis m"
  by (simp_all add: with_recipe_def)

lemma with_recipe_ok: "rm_ok m \<Longrightarrow> fits m p \<Longrightarrow> rm_ok (with_recipe m p b)"
  by (auto simp: rm_ok_def fits_def)

lemma rb_init_keeps:
  "rb_init n v (Some vs) a = Inr b \<Longrightarrow> rb_slot_values b = vs \<and> rb_allow_parallel b = a \<and> n = int (length vs)"
  by (auto simp: rb_init_def bind_r_eq_Inr split: if_splits)

lemma rm_init_ok: "rm_init vs a = Inr m \<Longrightarrow> rm_ok m \<and> rm_programs m = []"
proof -
  assume "rm_init vs a = Inr m"
  then obtain b where b: "rb_init (int (length vs)) 8 (Some vs) a = Inr b"
      "m = \<lparr>rm_basis = b, rm_programs = [], rm_protected = []\<rparr>"
    by (auto simp: rm_init_def bind_r_eq_Inr)
  then show ?thesis using rb_init_keeps [OF b(1)] by (simp add: rm_ok_def)
qed

lemma rm_validate_Inr:
  "rm_validate_program m p = Inr () \<longleftrightarrow> rp_slot_values p = rb_slot_values (rm_basis m)
     \<and> rp_allow_parallel p = rb_allow_parallel (rm_basis m)"
  by (simp add: rm_validate_program_def)

lemma rm_add_Inr:
  "rm_add_program m p = Inr (m', slot) \<longleftrightarrow>
     rm_validate_program m p = Inr () \<and> m' = with_recipe m p False \<and> slot = rm_file_count m"
  by (auto simp: rm_add_program_def bind_r_eq_Inr with_recipe_def rm_file_count_def Let_def)

lemma rm_program_Inr:
  "rm_program m slot = Inr p \<longleftrightarrow>
     in_range slot (length (rm_programs m)) \<and> p = rm_programs m ! nat slot"
  by (auto simp: rm_program_def rm_file_count_def in_range_def)

lemma rm_protect_Inr:
  "rm_protect_file m slot = Inr m' \<longleftrightarrow>
     in_range slot (length (rm_programs m)) \<and> m' = m\<lparr>rm_protected := (rm_protected m)[nat slot := True]\<rparr>"
  by (auto simp: rm_protect_file_def rm_file_count_def in_range_def)

text \<open>Verified admission: a rejected candidate leaves the memory alone, an accepted one is the only
  change and sits at the returned slot with the wanted protection.\<close>

lemma protect_last:
  assumes "length (rm_protected m) = length (rm_programs m)"
  shows "rm_protect_file (with_recipe m p False) (rm_file_count m) = Inr (with_recipe m p True)"
  using assms by (simp add: rm_protect_file_def rm_file_count_def with_recipe_def list_update_append)

lemma rm_admit_Inr:
  assumes "rm_admit_verified m p outcomes threshold mo ms protect = Inr (m', r)"
    and "length (rm_protected m) = length (rm_programs m)"
  shows "rm_validate_program m p = Inr ()
    \<and> (\<exists>e. evaluate_recipe_program_admission p outcomes threshold mo ms = Inr e
        \<and> rr_accepted r = rr_accepted e \<and> rr_digest r = rr_digest e \<and> rr_stable r = rr_stable e)
    \<and> (if rr_accepted r then m' = with_recipe m p protect \<and> rr_slot r = Some (rm_file_count m) else m' = m)"
proof -
  obtain e where e: "rm_validate_program m p = Inr ()"
      "evaluate_recipe_program_admission p outcomes threshold mo ms = Inr e"
    using assms(1) by (auto simp: rm_admit_verified_def bind_r_eq_Inr)
  show ?thesis
  proof (cases "rr_accepted e")
    case True
    have "rm_add_program m p = Inr (with_recipe m p False, rm_file_count m)" using e(1) by (simp add: rm_add_Inr)
    then have "m' = with_recipe m p protect"
        "r = e\<lparr>rr_accepted := True, rr_slot := Some (rm_file_count m), rr_reason := COMMITTED,
            rr_schema := RECIPE_PROGRAM_ADMISSION_SCHEMA\<rparr>"
      using assms(1) e True protect_last [OF assms(2), of p]
      by (auto simp: rm_admit_verified_def bind_r_eq_Inr dest: rr_validate_Inr split: if_splits)
    then show ?thesis using e True by simp
  next
    case False
    then have "m' = m" "r = e" using assms(1) e by (simp_all add: rm_admit_verified_def)
    then show ?thesis using e False by simp
  qed
qed

section \<open>The memory as an append-only store\<close>

inductive rm_step :: "recipe_memory \<Rightarrow> recipe_memory \<Rightarrow> bool" where
  rm_add: "recipe_ok p \<Longrightarrow> rm_add_program m p = Inr (m', slot) \<Longrightarrow> rm_step m m'"
| rm_protect: "rm_protect_file m slot = Inr m' \<Longrightarrow> rm_step m m'"
| rm_admit: "recipe_ok p \<Longrightarrow> rm_admit_verified m p vs t mo ms b = Inr (m', r) \<Longrightarrow> rr_accepted r \<Longrightarrow>
    rm_step m m'"

lemma rm_step_cases:
  assumes "rm_step m m'" and "rm_ok m"
  shows "(\<exists>p b. fits m p \<and> m' = with_recipe m p b)
    \<or> (\<exists>k. m' = m\<lparr>rm_protected := (rm_protected m)[k := True]\<rparr>)"
  using assms(1)
proof cases
  case (rm_admit p vs t mo ms b r)
  then show ?thesis
    using rm_admit_Inr [OF rm_admit(2)] assms(2) by (auto simp: rm_ok_def fits_def rm_validate_Inr)
qed (auto simp: rm_add_Inr rm_protect_Inr rm_validate_Inr fits_def)

interpretation recipe_store: program_store rm_ok rm_programs rm_protected rm_program rm_step
proof
  fix m m' :: recipe_memory and k and p :: recipe_program
  assume ok: "rm_ok m"
  show "length (rm_protected m) = length (rm_programs m)" using ok by (simp add: rm_ok_def)
  show "rm_program m k = Inr p \<longleftrightarrow> in_range k (length (rm_programs m)) \<and> p = rm_programs m ! nat k"
    by (rule rm_program_Inr)
  assume step: "rm_step m m'"
  show "rm_ok m'"
    using rm_step_cases [OF step ok] ok with_recipe_ok by (auto simp: rm_ok_def fits_def)
  show "(\<exists>p b. rm_programs m' = rm_programs m @ [p] \<and> rm_protected m' = rm_protected m @ [b])
      \<or> (\<exists>k. rm_programs m' = rm_programs m \<and> rm_protected m' = (rm_protected m)[k := True])"
    using rm_step_cases [OF step ok] by auto
qed

section \<open>Round trip\<close>

lemma rm_configuration_keys:
  "dict_get_default (rm_configuration m) ''slot_values'' d = PList (map PInt (rb_slot_values (rm_basis m)))"
  "dict_get_default (rm_configuration m) ''allow_parallel'' d = PBool (rb_allow_parallel (rm_basis m))"
  "dict_get (rm_configuration m) ''file_count'' = PInt (rm_file_count m)"
  "dict_get (rm_configuration m) ''protected'' = PList (map PBool (rm_protected m))"
  by (simp_all add: rm_configuration_def)

lemma rm_payload_keys:
  "rm_payload m = PDict kvs \<Longrightarrow>
     dict_get kvs ''schema'' = PStr RECIPE_PROGRAM_MEMORY_SCHEMA
     \<and> dict_get kvs ''configuration'' = PDict (rm_configuration m)
     \<and> dict_get kvs ''programs'' = PList (map rp_payload (rm_programs m))
     \<and> dict_get kvs ''sha256'' = PStr (rm_digest m)"
  by (auto simp: rm_payload_def rm_content_def)

lemma rm_restore_snapshot:
  assumes "\<forall>p\<in>set ps. fits m p \<and> (\<forall>i\<in>set (rp_instructions p). canonical i)"
  shows "rm_restore m (map rp_payload ps)
    = Inr (m\<lparr>rm_programs := rm_programs m @ ps,
             rm_protected := rm_protected m @ replicate (length ps) False\<rparr>)"
  using assms
proof (induction ps arbitrary: m)
  case Nil
  then show ?case by simp
next
  case (Cons p ps)
  have p: "rp_from_payload (rp_payload p) = Inr p" using Cons.prems rp_roundtrip by (simp add: fits_def)
  have "rm_add_program m p = Inr (with_recipe m p False, rm_file_count m)"
    using Cons.prems by (simp add: rm_add_Inr rm_validate_Inr fits_def)
  moreover have "rm_restore (with_recipe m p False) (map rp_payload ps)
      = Inr ((with_recipe m p False)\<lparr>rm_programs := rm_programs (with_recipe m p False) @ ps,
          rm_protected := rm_protected (with_recipe m p False) @ replicate (length ps) False\<rparr>)"
    by (rule Cons.IH) (use Cons.prems in \<open>auto simp: fits_def\<close>)
  ultimately show ?case using p by (simp add: with_recipe_def)
qed

lemma map_py_bool [simp]: "map (py_bool \<circ> PBool) bs = bs"
  by (induction bs) auto

lemma rm_eta [simp]:
  "\<lparr>rm_basis = rm_basis m, rm_programs = rm_programs m, rm_protected = rm_protected m\<rparr> = m"
  by (cases m) simp

definition canonical_memory :: "recipe_memory \<Rightarrow> bool" where
  "canonical_memory m \<longleftrightarrow> (\<forall>p\<in>set (rm_programs m). \<forall>i\<in>set (rp_instructions p). canonical i)"

lemma rm_roundtrip:
  assumes "rm_ok m" and "canonical_memory m"
  shows "rm_from_payload (rm_payload m) = Inr m"
proof -
  obtain kvs where kvs: "rm_payload m = PDict kvs" by (simp add: rm_payload_def)
  let ?m0 = "\<lparr>rm_basis = rm_basis m, rm_programs = [], rm_protected = []\<rparr>"
  have init: "rm_init (rb_slot_values (rm_basis m)) (rb_allow_parallel (rm_basis m)) = Inr ?m0"
    using assms(1) by (simp add: rm_init_def rm_ok_def)
  have "\<forall>p\<in>set (rm_programs m). fits ?m0 p \<and> (\<forall>i\<in>set (rp_instructions p). canonical i)"
    using assms by (auto simp: rm_ok_def canonical_memory_def fits_def)
  note restore = rm_restore_snapshot [OF this]
  have len: "length (rm_protected m) = length (rm_programs m)" using assms(1) by (simp add: rm_ok_def)
  show ?thesis
    unfolding kvs rm_from_payload.simps
    using rm_payload_keys [OF kvs] init restore len
    by (simp add: rm_configuration_keys rm_file_count_def Let_def del: dict_get.simps dict_get_default.simps)
qed

lemma rm_restore_ok: "rm_restore m raws = Inr m' \<Longrightarrow> rm_ok m \<Longrightarrow> rm_ok m'"
proof (induction raws arbitrary: m)
  case (Cons raw raws)
  then obtain p m1 k where p: "rp_from_payload raw = Inr p" "rm_add_program m p = Inr (m1, k)"
      "rm_restore m1 raws = Inr m'"
    by (auto simp: bind_r_eq_Inr)
  then have "fits m p" "m1 = with_recipe m p False"
    using rp_from_payload_Inr [OF p(1)] by (auto simp: rm_add_Inr rm_validate_Inr fits_def)
  then show ?case using Cons.IH [OF p(3)] with_recipe_ok Cons.prems(2) by blast
qed simp

lemma rm_from_payload_Inr:
  assumes "rm_from_payload v = Inr m"
  shows "rm_ok m \<and> (\<exists>kvs. v = PDict kvs \<and> dict_get kvs ''sha256'' = PStr (rm_digest m))"
proof -
  obtain kvs where v: "v = PDict kvs" using assms by (cases v) auto
  obtain vs a m0 raws m1 marks where *: "rm_init vs a = Inr m0" "rm_restore m0 raws = Inr m1"
      "int (length marks) = rm_file_count m1" "m = m1\<lparr>rm_protected := map py_bool marks\<rparr>"
      "dict_get kvs ''sha256'' = PStr (rm_digest m)"
    using assms unfolding v rm_from_payload.simps
    by (auto simp: bind_r_eq_Inr Let_def simp del: dict_get.simps dict_get_default.simps
        split: if_splits pyval.splits option.splits)
  have "rm_ok m1" using rm_restore_ok [OF *(2)] rm_init_ok [OF *(1)] by blast
  then have "rm_ok m" using *(3,4) by (auto simp: rm_ok_def rm_file_count_def fits_def)
  then show ?thesis using v *(5) by blast
qed

section \<open>Properties\<close>

text \<open>
  The recipe bank is append-only under every sequence of its operations: a slot keeps the file it
  was given, and what executing it does; a protected slot stays protected; every stored file stays
  well formed over the bank's basis.
\<close>

lemma recipe_memory_append_only:
  assumes "rm_step\<^sup>*\<^sup>* m m'" and "rm_ok m" and "rm_program m slot = Inr p"
  shows "rm_program m' slot = Inr p \<and> rm_execute m' slot s = rm_execute m slot s
    \<and> recipe_ok p \<and> rp_slot_values p = rb_slot_values (rm_basis m')
    \<and> (rm_is_file_protected m slot = Inr True \<longrightarrow> rm_is_file_protected m' slot = Inr True)
    \<and> rm_ok m'"
proof -
  have ok: "rm_ok m'" and look: "rm_program m' slot = Inr p"
    using recipe_store.steps_inv recipe_store.lookup_stable assms by blast+
  have r: "in_range slot (length (rm_programs m))" "in_range slot (length (rm_programs m'))"
      "p = rm_programs m' ! nat slot"
    using assms(3) look by (auto simp: rm_program_Inr)
  then have "rm_is_file_protected m' slot = Inr True" if "rm_is_file_protected m slot = Inr True"
    using that recipe_store.marks_stable [OF assms(1,2), of "nat slot"] in_range_nat [OF r(1)]
    by (auto simp: rm_is_file_protected_def rm_file_count_def in_range_def split: if_splits)
  moreover have "p \<in> set (rm_programs m')" using r in_range_nat [OF r(2)] by simp
  ultimately show ?thesis
    using ok look assms(3) by (auto simp: rm_ok_def fits_def rm_execute_def)
qed

definition empty_bank :: recipe_memory where
  "empty_bank = \<lparr>rm_basis = \<lparr>rb_slot_count = 2, rb_slot_values = [2, 3], rb_values = 3,
     rb_allow_parallel = True\<rparr>, rm_programs = [], rm_protected = []\<rparr>"

definition twin_bank :: recipe_memory where
  "twin_bank = with_recipe empty_bank twin_inc True"

lemma twin_bank_ok: "rm_ok twin_bank" "canonical_memory twin_bank"
proof -
  have "rb_init 2 8 (Some [2, 3]) True = Inr (rm_basis empty_bank)"
    by (simp add: rb_init_def empty_bank_def)
  then have "rm_ok empty_bank" by (simp add: rm_ok_def empty_bank_def)
  moreover have "fits empty_bank twin_inc"
    using twin_inc_ok(1) by (simp add: fits_def twin_inc_def empty_bank_def)
  ultimately show "rm_ok twin_bank" unfolding twin_bank_def by (rule with_recipe_ok)
  show "canonical_memory twin_bank"
    using twin_inc_ok(2) by (simp add: canonical_memory_def twin_bank_def empty_bank_def)
qed

text \<open>
  Persistence of the recipe bank.  The payload of a well-formed bank reads back as the same bank,
  protection marks included; and whatever payload is accepted yields a well-formed bank whose own
  digest is the checksum the payload carries.
\<close>

lemma recipe_memory_roundtrip:
  "(rm_ok m \<and> canonical_memory m \<longrightarrow> rm_from_payload (rm_payload m) = Inr m)
   \<and> (rm_from_payload v = Inr n \<longrightarrow> rm_ok n
        \<and> (\<exists>kvs. v = PDict kvs \<and> dict_get kvs ''sha256'' = PStr (rm_digest n)))"
  using rm_roundtrip rm_from_payload_Inr by blast

text \<open>
  Verified admission commits or leaves everything alone.  When it returns, the evidence was
  valid; an accepted receipt means enough outcomes whose last \<open>min_stable\<close> all reach the threshold,
  and the candidate is then the only new file, at the returned slot, protected as asked; a rejected
  one means the bank is unchanged.
\<close>

lemma recipe_admission_commits:
  assumes "rm_ok m" and "recipe_ok p"
    and "rm_admit_verified m p outcomes threshold mo ms protect = Inr (m', r)"
  shows "rr_digest r = rp_digest p \<and> recipe_args_ok outcomes threshold mo ms \<and> rm_ok m'
    \<and> (if mo \<le> int (length outcomes) \<and> stably_above (fin_val threshold) ms (map fin_val outcomes)
       then rr_accepted r \<and> rr_slot r = Some (rm_file_count m) \<and> m' = with_recipe m p protect
         \<and> rm_program m' (rm_file_count m) = Inr p
         \<and> rm_is_file_protected m' (rm_file_count m) = Inr protect
       else \<not> rr_accepted r \<and> m' = m)"
proof -
  have len: "length (rm_protected m) = length (rm_programs m)" using assms(1) by (simp add: rm_ok_def)
  obtain e where e: "evaluate_recipe_program_admission p outcomes threshold mo ms = Inr e"
      "rr_accepted r = rr_accepted e" "rr_digest r = rr_digest e" "rm_validate_program m p = Inr ()"
      "if rr_accepted r then m' = with_recipe m p protect \<and> rr_slot r = Some (rm_file_count m) else m' = m"
    using rm_admit_Inr [OF assms(3) len] by blast
  have fit: "fits m p" using e(4) assms(2) by (simp add: rm_validate_Inr fits_def)
  have args: "recipe_args_ok outcomes threshold mo ms" using recipe_admission_args [OF e(1)] .
  have acc: "rr_digest e = rp_digest p" "rr_accepted e \<longleftrightarrow> mo \<le> int (length outcomes)
      \<and> stably_above (fin_val threshold) ms (map fin_val outcomes)"
    using recipe_admission_decides [OF e(1)] by auto
  have look: "rm_program (with_recipe m p protect) (rm_file_count m) = Inr p"
      "rm_is_file_protected (with_recipe m p protect) (rm_file_count m) = Inr protect"
    using len by (simp_all add: rm_program_def rm_is_file_protected_def rm_file_count_def nth_append)
  show ?thesis
    using e acc args look with_recipe_ok [OF assms(1) fit] assms(1) by (auto split: if_splits)
qed

end
