(* ===== verification/RecipeComposition.thy ===== *)
theory RecipeComposition
  imports RecipeMemory RecipeSearch
begin

text \<open>
  \<open>recipe_composition.py\<close>, lines 25 to 760: recipe files composed of earlier recipe files.  The
  composition memory keeps beside every file of an \<open>ExternalRecipeProgramMemory\<close> the digests of the two
  files it is the concatenation of, or nothing for an atomic file.  Modelled are the opaque factors and
  the shape of a composition with their payloads, candidates, the recursive depth, the closure under
  sources, the validation of the provenance, compaction, the candidate enumeration, verified admission
  and the checksummed payload of the memory.

  The recursive methods carry the set of slots they are in; since a source is always looked up before the
  slot that names it, they end.  The order in which Python iterates over a set of slots is the parameter
  \<open>ord\<close> of the compaction.  \<open>math.log1p\<close> is a parameter, and the telemetry is the table of
  numbers before it becomes a tensor.
\<close>

lemma bind_r_cong [fundef_cong]:
  "m = n \<Longrightarrow> (\<And>x. n = Inr x \<Longrightarrow> f x = g x) \<Longrightarrow> bind_r m f = bind_r n g"
  by (cases n) simp_all

section \<open>Factors and shape of a composition\<close>

definition RECIPE_COMPOSITION_FACTORS_SCHEMA :: string where
  "RECIPE_COMPOSITION_FACTORS_SCHEMA = ''neural-computer.recipe-composition-factors.v1''"

definition RECIPE_COMPOSITION_STRUCTURE_SCHEMA :: string where
  "RECIPE_COMPOSITION_STRUCTURE_SCHEMA = ''neural-computer.recipe-composition-structure.v1''"

definition RECIPE_COMPOSITION_MEMORY_SCHEMA :: string where
  "RECIPE_COMPOSITION_MEMORY_SCHEMA = ''neural-computer.recipe-composition-memory.v1''"

definition RECIPE_COMPOSITION_CANDIDATE_SCHEMA :: string where
  "RECIPE_COMPOSITION_CANDIDATE_SCHEMA = ''neural-computer.recipe-composition-candidate.v1''"

definition RECIPE_COMPOSITION_COMPACTION_SCHEMA :: string where
  "RECIPE_COMPOSITION_COMPACTION_SCHEMA = ''neural-computer.recipe-composition-compaction.v1''"

definition RECIPE_COMPOSITION_MODES :: "string list" where
  "RECIPE_COMPOSITION_MODES = [''append'', ''prepend'']"

record composition_factors =
  kf_left :: string
  kf_right :: string
  kf_mode :: string
  kf_schema :: string

definition kf_validate :: "composition_factors \<Rightarrow> composition_factors result" where
  "kf_validate f =
     (if kf_schema f \<noteq> RECIPE_COMPOSITION_FACTORS_SCHEMA then Inl ValueError
      else bind_r (validate_digest (kf_left f)) (\<lambda>_.
           bind_r (validate_digest (kf_right f)) (\<lambda>_.
             if kf_left f = kf_right f then Inl ValueError
             else if kf_mode f \<notin> set RECIPE_COMPOSITION_MODES then Inl ValueError
             else Inr f)))"

definition kf_payload :: "composition_factors \<Rightarrow> pyval result" where
  "kf_payload f =
     bind_r (kf_validate f) (\<lambda>_. Inr (PDict
       [(''schema'', PStr (kf_schema f)), (''left_digest'', PStr (kf_left f)),
        (''right_digest'', PStr (kf_right f)), (''mode'', PStr (kf_mode f))]))"

fun kf_from_payload :: "pyval \<Rightarrow> composition_factors result" where
  "kf_from_payload (PDict kvs) =
     (let text = (\<lambda>k. py_str (dict_get_default kvs k (PStr [])))
      in kf_validate \<lparr>kf_left = text ''left_digest'', kf_right = text ''right_digest'',
           kf_mode = text ''mode'', kf_schema = text ''schema''\<rparr>)"
| "kf_from_payload _ = Inl TypeError"

record composition_structure =
  ks_left_depth :: int
  ks_right_depth :: int
  ks_left_composite :: bool
  ks_right_composite :: bool
  ks_schema :: string

definition ks_validate :: "composition_structure \<Rightarrow> composition_structure result" where
  "ks_validate s =
     (if ks_schema s \<noteq> RECIPE_COMPOSITION_STRUCTURE_SCHEMA then Inl ValueError
      else if ks_left_depth s < 1 \<or> ks_right_depth s < 1 then Inl ValueError
      else if ks_left_composite s \<noteq> (ks_left_depth s > 1) then Inl ValueError
      else if ks_right_composite s \<noteq> (ks_right_depth s > 1) then Inl ValueError
      else Inr s)"

definition ks_payload :: "composition_structure \<Rightarrow> pyval result" where
  "ks_payload s =
     bind_r (ks_validate s) (\<lambda>_. Inr (PDict
       [(''schema'', PStr (ks_schema s)), (''left_depth'', PInt (ks_left_depth s)),
        (''right_depth'', PInt (ks_right_depth s)), (''left_composite'', PBool (ks_left_composite s)),
        (''right_composite'', PBool (ks_right_composite s))]))"

definition shape_name :: "bool \<Rightarrow> string" where
  "shape_name composite = (if composite then ''composite'' else ''atomic'')"

definition canonical_shape_key :: "composition_structure \<Rightarrow> string result" where
  "canonical_shape_key s =
     bind_r (ks_validate s) (\<lambda>_.
       Inr (join ''+'' (sort [shape_name (ks_left_composite s), shape_name (ks_right_composite s)])))"

definition canonical_depth_key :: "composition_structure \<Rightarrow> string result" where
  "canonical_depth_key s =
     bind_r (ks_validate s) (\<lambda>_. Inr (join '':'' (map int_text (sort [ks_left_depth s, ks_right_depth s]))))"

definition depth_span_key :: "composition_structure \<Rightarrow> string result" where
  "depth_span_key s = bind_r (ks_validate s) (\<lambda>_. Inr (int_text \<bar>ks_left_depth s - ks_right_depth s\<bar>))"

fun ks_from_payload :: "pyval \<Rightarrow> composition_structure result" where
  "ks_from_payload (PDict kvs) =
     bind_r (py_int (dict_get_default kvs ''left_depth'' (PInt (- 1)))) (\<lambda>left_depth.
     bind_r (py_int (dict_get_default kvs ''right_depth'' (PInt (- 1)))) (\<lambda>right_depth.
       ks_validate \<lparr>ks_left_depth = left_depth, ks_right_depth = right_depth,
         ks_left_composite = py_bool (dict_get_default kvs ''left_composite'' (PBool False)),
         ks_right_composite = py_bool (dict_get_default kvs ''right_composite'' (PBool False)),
         ks_schema = py_str (dict_get_default kvs ''schema'' (PStr []))\<rparr>))"
| "ks_from_payload _ = Inl TypeError"

section \<open>Receipts and candidates\<close>

record compaction_receipt =
  kr_accepted :: bool
  kr_requested :: "int list"
  kr_retained :: "int list"
  kr_source_files :: int
  kr_candidate_files :: int
  kr_reason :: string
  kr_schema :: string

definition kr_validate :: "compaction_receipt \<Rightarrow> compaction_receipt result" where
  "kr_validate r =
     (if kr_schema r \<noteq> RECIPE_COMPOSITION_COMPACTION_SCHEMA then Inl ValueError
      else if kr_requested r = [] then Inl ValueError
      else if \<not> distinct (kr_requested r) then Inl ValueError
      else if \<not> distinct (kr_retained r) then Inl ValueError
      else if kr_source_files r < 1 \<or> kr_candidate_files r < 1 then Inl ValueError
      else if kr_candidate_files r > kr_source_files r then Inl ValueError
      else Inr r)"

definition kr_payload :: "compaction_receipt \<Rightarrow> pyval result" where
  "kr_payload r =
     bind_r (kr_validate r) (\<lambda>_. Inr (PDict
       [(''schema'', PStr (kr_schema r)), (''accepted'', PBool (kr_accepted r)),
        (''requested_slots'', PList (map PInt (kr_requested r))),
        (''retained_slots'', PList (map PInt (kr_retained r))),
        (''source_file_count'', PInt (kr_source_files r)),
        (''candidate_file_count'', PInt (kr_candidate_files r)), (''reason'', PStr (kr_reason r))]))"

record composition_candidate =
  kc_left_slot :: int
  kc_right_slot :: int
  kc_factors :: composition_factors
  kc_program :: recipe_program
  kc_structure :: "composition_structure option"
  kc_schema :: string

definition kc_validate :: "composition_candidate \<Rightarrow> composition_candidate result" where
  "kc_validate c =
     (if kc_schema c \<noteq> RECIPE_COMPOSITION_CANDIDATE_SCHEMA then Inl ValueError
      else if kc_left_slot c < 0 \<or> kc_right_slot c < 0 then Inl ValueError
      else if kc_left_slot c = kc_right_slot c then Inl ValueError
      else bind_r (kf_validate (kc_factors c)) (\<lambda>_.
           bind_r (case kc_structure c of None \<Rightarrow> Inr () | Some s \<Rightarrow> bind_r (ks_validate s) (\<lambda>_. Inr ())) (\<lambda>_.
             Inr c)))"

definition kc_payload :: "composition_candidate \<Rightarrow> pyval result" where
  "kc_payload c =
     bind_r (kc_validate c) (\<lambda>_.
     bind_r (kf_payload (kc_factors c)) (\<lambda>factors.
     bind_r (case kc_structure c of None \<Rightarrow> Inr PNone | Some s \<Rightarrow> ks_payload s) (\<lambda>structure. Inr (PDict
       [(''schema'', PStr (kc_schema c)), (''left_slot'', PInt (kc_left_slot c)),
        (''right_slot'', PInt (kc_right_slot c)), (''factors'', factors),
        (''program'', rp_payload (kc_program c)), (''structure'', structure)]))))"

fun kc_from_payload :: "pyval \<Rightarrow> composition_candidate result" where
  "kc_from_payload (PDict kvs) =
     bind_r (case dict_get kvs ''structure'' of
               PNone \<Rightarrow> Inr None
             | v \<Rightarrow> bind_r (ks_from_payload v) (\<lambda>s. Inr (Some s))) (\<lambda>structure.
     bind_r (py_int (dict_get_default kvs ''left_slot'' (PInt (- 1)))) (\<lambda>left_slot.
     bind_r (py_int (dict_get_default kvs ''right_slot'' (PInt (- 1)))) (\<lambda>right_slot.
     bind_r (kf_from_payload (dict_get_default kvs ''factors'' (PDict []))) (\<lambda>factors.
     bind_r (rp_from_payload (dict_get_default kvs ''program'' (PDict []))) (\<lambda>program.
       kc_validate \<lparr>kc_left_slot = left_slot, kc_right_slot = right_slot, kc_factors = factors,
         kc_program = program, kc_structure = structure,
         kc_schema = py_str (dict_get_default kvs ''schema'' (PStr []))\<rparr>)))))"
| "kc_from_payload _ = Inl TypeError"

section \<open>The memory\<close>

record composition_memory =
  km_files :: recipe_memory
  km_provenance :: "composition_factors option list"

definition km_init :: "int list \<Rightarrow> bool \<Rightarrow> composition_memory result" where
  "km_init values parallel = bind_r (rm_init values parallel) (\<lambda>files. Inr \<lparr>km_files = files, km_provenance = []\<rparr>)"

definition km_file_count :: "composition_memory \<Rightarrow> int" where
  "km_file_count m = rm_file_count (km_files m)"

definition km_program :: "composition_memory \<Rightarrow> int \<Rightarrow> recipe_program result" where
  "km_program m slot = rm_program (km_files m) slot"

definition km_execute :: "composition_memory \<Rightarrow> int \<Rightarrow> int list \<Rightarrow> int list result" where
  "km_execute m slot state = rm_execute (km_files m) slot state"

definition km_add_program :: "composition_memory \<Rightarrow> recipe_program \<Rightarrow> (composition_memory \<times> int) result" where
  "km_add_program m p =
     bind_r (rm_add_program (km_files m) p) (\<lambda>(files, slot).
       Inr (m\<lparr>km_files := files, km_provenance := km_provenance m @ [None]\<rparr>, slot))"

text \<open>The tail of both admissions: the new slot is the next one of the provenance list.\<close>

definition km_commit :: "composition_memory \<Rightarrow> recipe_memory \<Rightarrow> recipe_receipt \<Rightarrow> composition_factors option
    \<Rightarrow> (composition_memory \<times> recipe_receipt) result" where
  "km_commit m files receipt source =
     (if \<not> rr_accepted receipt then Inr (m\<lparr>km_files := files\<rparr>, receipt)
      else if rr_slot receipt \<noteq> Some (int (length (km_provenance m))) then Inl RuntimeError
      else Inr (m\<lparr>km_files := files, km_provenance := km_provenance m @ [source]\<rparr>, receipt))"

definition km_admit_program :: "composition_memory \<Rightarrow> recipe_program \<Rightarrow> pyfloat list \<Rightarrow> pyfloat \<Rightarrow> int \<Rightarrow> int
    \<Rightarrow> bool \<Rightarrow> (composition_memory \<times> recipe_receipt) result" where
  "km_admit_program m p outcomes threshold min_observations min_stable protect =
     bind_r (rm_admit_verified (km_files m) p outcomes threshold min_observations min_stable protect) (\<lambda>(files, receipt).
       km_commit m files receipt None)"

definition km_protect_file :: "composition_memory \<Rightarrow> int \<Rightarrow> composition_memory result" where
  "km_protect_file m slot = bind_r (rm_protect_file (km_files m) slot) (\<lambda>files. Inr (m\<lparr>km_files := files\<rparr>))"

definition km_is_file_protected :: "composition_memory \<Rightarrow> int \<Rightarrow> bool result" where
  "km_is_file_protected m slot = rm_is_file_protected (km_files m) slot"

definition km_source :: "composition_memory \<Rightarrow> int \<Rightarrow> composition_factors option result" where
  "km_source m slot =
     (if \<not> (0 \<le> slot \<and> slot < km_file_count m) then Inl ValueError else Inr (km_provenance m ! nat slot))"

definition slot_for_digest :: "composition_memory \<Rightarrow> string \<Rightarrow> int option \<Rightarrow> int result" where
  "slot_for_digest m digest before =
     bind_r (validate_digest digest) (\<lambda>_.
       let limit = (case before of None \<Rightarrow> km_file_count m | Some k \<Rightarrow> k)
       in case digest_slot digest (map rp_digest (take (nat limit) (rm_programs (km_files m)))) 0 of
            None \<Rightarrow> Inl ValueError
          | Some slot \<Rightarrow> Inr slot)"

lemma slot_for_digest_Inr:
  assumes "slot_for_digest m d before = Inr k"
  shows "digest_ok d \<and> 0 \<le> k \<and> k < km_file_count m \<and> (\<forall>b. before = Some b \<longrightarrow> k < b)
    \<and> rp_digest (rm_programs (km_files m) ! nat k) = d"
proof -
  let ?limit = "case before of None \<Rightarrow> km_file_count m | Some k \<Rightarrow> k"
  let ?ds = "map rp_digest (take (nat ?limit) (rm_programs (km_files m)))"
  have d: "digest_ok d" "digest_slot d ?ds 0 = Some k"
    using assms by (auto simp: slot_for_digest_def bind_r_eq_Inr validate_digest_Inr Let_def split: option.splits)
  then have k: "0 \<le> k" "k < int (length ?ds)" "?ds ! nat k = d"
    using digest_slot_cases [of d ?ds 0] by simp_all
  then have "nat k < length (rm_programs (km_files m))" "nat k < nat ?limit" by auto
  then show ?thesis using k d(1) by (auto simp: km_file_count_def rm_file_count_def split: option.splits)
qed

text \<open>\<open>composition_depth\<close>, with the set of slots being visited.\<close>

function composition_depth :: "composition_memory \<Rightarrow> int set \<Rightarrow> int \<Rightarrow> int result" where
  "composition_depth m visiting slot =
     (if \<not> (0 \<le> slot \<and> slot < km_file_count m) then Inl ValueError
      else if slot \<in> visiting then Inl ValueError
      else case km_provenance m ! nat slot of
             None \<Rightarrow> Inr 1
           | Some factors \<Rightarrow>
               bind_r (kf_validate factors) (\<lambda>_.
               bind_r (slot_for_digest m (kf_left factors) (Some slot)) (\<lambda>left_slot.
               bind_r (slot_for_digest m (kf_right factors) (Some slot)) (\<lambda>right_slot.
               bind_r (composition_depth m (insert slot visiting) left_slot) (\<lambda>l.
               bind_r (composition_depth m (insert slot visiting) right_slot) (\<lambda>r.
                 Inr (max l r + 1)))))))"
  by auto
termination
  by (relation "measure (\<lambda>(m, visiting, slot). nat slot)") (auto dest!: slot_for_digest_Inr)

definition composition_structure_of :: "composition_memory \<Rightarrow> int \<Rightarrow> int \<Rightarrow> composition_structure result" where
  "composition_structure_of m left_slot right_slot =
     (if \<not> (0 \<le> left_slot \<and> left_slot < km_file_count m) \<or> \<not> (0 \<le> right_slot \<and> right_slot < km_file_count m)
      then Inl ValueError
      else
        bind_r (composition_depth m {} left_slot) (\<lambda>left_depth.
        bind_r (composition_depth m {} right_slot) (\<lambda>right_depth.
        bind_r (km_source m left_slot) (\<lambda>left_source.
        bind_r (km_source m right_slot) (\<lambda>right_source.
          ks_validate \<lparr>ks_left_depth = left_depth, ks_right_depth = right_depth,
            ks_left_composite = (left_source \<noteq> None), ks_right_composite = (right_source \<noteq> None),
            ks_schema = RECIPE_COMPOSITION_STRUCTURE_SCHEMA\<rparr>)))))"

function provenance_closure :: "composition_memory \<Rightarrow> int set \<Rightarrow> int \<Rightarrow> int set result" where
  "provenance_closure m visiting slot =
     (if \<not> (0 \<le> slot \<and> slot < km_file_count m) then Inl ValueError
      else if slot \<in> visiting then Inl ValueError
      else case km_provenance m ! nat slot of
             None \<Rightarrow> Inr {slot}
           | Some factors \<Rightarrow>
               bind_r (slot_for_digest m (kf_left factors) (Some slot)) (\<lambda>left_slot.
               bind_r (slot_for_digest m (kf_right factors) (Some slot)) (\<lambda>right_slot.
               bind_r (provenance_closure m (insert slot visiting) left_slot) (\<lambda>l.
               bind_r (provenance_closure m (insert slot visiting) right_slot) (\<lambda>r.
                 Inr ({slot} \<union> l \<union> r))))))"
  by auto
termination
  by (relation "measure (\<lambda>(m, visiting, slot). nat slot)") (auto dest!: slot_for_digest_Inr)

declare composition_depth.simps [simp del] provenance_closure.simps [simp del]

text \<open>The rows of \<open>candidate_telemetry\<close>.\<close>

definition sources_of :: "composition_factors option \<Rightarrow> string list" where
  "sources_of source = (case source of None \<Rightarrow> [] | Some f \<Rightarrow> [kf_left f, kf_right f])"

definition reference_count :: "composition_memory \<Rightarrow> string \<Rightarrow> nat" where
  "reference_count m digest = count_list (concat (map sources_of (km_provenance m))) digest"

definition telemetry_row :: "math_lib \<Rightarrow> composition_memory \<Rightarrow> int \<Rightarrow> rat list result" where
  "telemetry_row math m slot =
     bind_r (km_program m slot) (\<lambda>program.
     bind_r (composition_depth m {} slot) (\<lambda>depth.
     bind_r (provenance_closure m {} slot) (\<lambda>closure.
     bind_r (km_source m slot) (\<lambda>source.
     bind_r (km_is_file_protected m slot) (\<lambda>protected.
       let references = reference_count m (rp_digest program);
           flag = (\<lambda>b. if b then 1 else 0)
       in Inr [math_log1p math (of_int depth), math_log1p math (of_int (rp_length program)), flag protected,
               math_log1p math (of_nat references), math_log1p math (of_nat (card closure)),
               flag (source \<noteq> None), flag (references = 0), math_log1p math (of_int (km_file_count m))])))))"

definition candidate_telemetry :: "math_lib \<Rightarrow> composition_memory \<Rightarrow> int list \<Rightarrow> rat list list result" where
  "candidate_telemetry math m slots =
     (if slots = [] \<or> \<not> distinct slots then Inl ValueError
      else if \<exists>slot\<in>set slots. \<not> (0 \<le> slot \<and> slot < km_file_count m) then Inl ValueError
      else map_r (telemetry_row math m) slots)"

section \<open>Validation of the provenance\<close>

definition joined :: "string \<Rightarrow> 'a list \<Rightarrow> 'a list \<Rightarrow> 'a list" where
  "joined mode left right = (if mode = ''append'' then left @ right else right @ left)"

definition expected_program :: "composition_memory \<Rightarrow> string \<Rightarrow> recipe_program \<Rightarrow> recipe_program \<Rightarrow> recipe_program result" where
  "expected_program m mode left right =
     rp_init (rb_slot_values (rm_basis (km_files m))) (joined mode (rp_instructions left) (rp_instructions right))
       (rb_allow_parallel (rm_basis (km_files m))) RECIPE_PROGRAM_SCHEMA"

function validate_provenance_slot :: "composition_memory \<Rightarrow> int set \<Rightarrow> int \<Rightarrow> unit result" where
  "validate_provenance_slot m visiting slot =
     (if slot \<in> visiting then Inl ValueError
      else bind_r (km_source m slot) (\<lambda>source.
        case source of
          None \<Rightarrow> Inr ()
        | Some factors \<Rightarrow>
            bind_r (kf_validate factors) (\<lambda>_.
            bind_r (slot_for_digest m (kf_left factors) (Some slot)) (\<lambda>left_slot.
            bind_r (slot_for_digest m (kf_right factors) (Some slot)) (\<lambda>right_slot.
            bind_r (km_program m left_slot) (\<lambda>left.
            bind_r (km_program m right_slot) (\<lambda>right.
            bind_r (expected_program m (kf_mode factors) left right) (\<lambda>expected.
            bind_r (km_program m slot) (\<lambda>program.
              if rp_digest expected \<noteq> rp_digest program then Inl ValueError
              else bind_r (validate_provenance_slot m (insert slot visiting) left_slot) (\<lambda>_.
                   validate_provenance_slot m (insert slot visiting) right_slot)))))))) ))"
  by auto
termination
  by (relation "measure (\<lambda>(m, visiting, slot). nat slot)") (auto dest!: slot_for_digest_Inr)

declare validate_provenance_slot.simps [simp del]

definition validate_all_provenance :: "composition_memory \<Rightarrow> unit result" where
  "validate_all_provenance m = all_r (validate_provenance_slot m {}) (upto_int (km_file_count m))"

section \<open>Compaction\<close>

text \<open>
  \<open>ord\<close> is the order in which Python iterates over a set of slots; \<open>iterate\<close> guards against a
  parameter that names anything else.
\<close>

definition iterate :: "(int set \<Rightarrow> int list) \<Rightarrow> int set \<Rightarrow> int list" where
  "iterate ord A = filter (\<lambda>k. k \<in> A) (ord A)"

fun retain_new :: "int list \<Rightarrow> int set \<Rightarrow> int list \<Rightarrow> int set \<times> int list" where
  "retain_new [] retained pending = (retained, pending)"
| "retain_new (k # ks) retained pending =
     (if k \<in> retained then retain_new ks retained pending
      else retain_new ks (insert k retained) (pending @ [k]))"

lemma provenance_closure_range:
  "provenance_closure m visiting slot = Inr A \<Longrightarrow> slot \<in> A \<and> A \<subseteq> {0..<km_file_count m}"
proof (induction m visiting slot arbitrary: A rule: provenance_closure.induct)
  case (1 m visiting slot)
  show ?case
  proof (cases "km_provenance m ! nat slot")
    case None
    then show ?thesis using "1.prems" by (subst (asm) provenance_closure.simps) (auto split: if_splits)
  next
    case (Some f)
    have ok: "0 \<le> slot \<and> slot < km_file_count m" "slot \<notin> visiting"
      using "1.prems" by (subst (asm) provenance_closure.simps; simp split: if_splits)+
    obtain l r L R where *: "slot_for_digest m (kf_left f) (Some slot) = Inr l"
        "slot_for_digest m (kf_right f) (Some slot) = Inr r"
        "provenance_closure m (insert slot visiting) l = Inr L"
        "provenance_closure m (insert slot visiting) r = Inr R" "A = {slot} \<union> L \<union> R"
      using "1.prems" ok Some by (subst (asm) provenance_closure.simps) (auto simp: bind_r_eq_Inr)
    show ?thesis
      using "1.IH"(1) [OF _ ok(2) Some *(1,2,3)] "1.IH"(2) [OF _ ok(2) Some *(1,2,3,4)] ok *(5) by auto
  qed
qed

lemma retain_new_spec:
  "retain_new ks R P = (R', P') \<Longrightarrow> R' = R \<union> set ks \<and> (\<exists>new. P' = P @ new \<and> set new = set ks - R \<and> distinct new)"
proof (induction ks arbitrary: R P)
  case (Cons k ks)
  show ?case
  proof (cases "k \<in> R")
    case True
    then show ?thesis using Cons by auto
  next
    case False
    obtain new where *: "R' = insert k R \<union> set ks" "P' = (P @ [k]) @ new" "set new = set ks - insert k R" "distinct new"
      using Cons.IH [of "insert k R" "P @ [k]"] Cons.prems False by auto
    then show ?thesis using False by (intro conjI exI [of _ "k # new"]) auto
  qed
qed simp

lemma set_iterate: "set (iterate ord A) \<subseteq> A"
  by (auto simp: iterate_def)

function retain_sources :: "composition_memory \<Rightarrow> (int set \<Rightarrow> int list) \<Rightarrow> int set \<Rightarrow> int list \<Rightarrow> int set result" where
  "retain_sources m ord retained pending =
     (if pending = [] then Inr retained
      else bind_r (provenance_closure m {} (last pending)) (\<lambda>sources.
        case retain_new (iterate ord sources) retained (butlast pending) of
          (retained', pending') \<Rightarrow> retain_sources m ord retained' pending'))"
  by auto
termination
proof (relation "measures [\<lambda>(m, ord, retained, pending). card ({0..<km_file_count m} - retained),
    \<lambda>(m, ord, retained, pending). length pending]", goal_cases)
  case (2 m ord retained pending sources retained' pending')
  have sources: "sources \<subseteq> {0..<km_file_count m}" using provenance_closure_range [OF 2(2)] by simp
  obtain new where new: "retained' = retained \<union> set (iterate ord sources)" "pending' = butlast pending @ new"
      "set new = set (iterate ord sources) - retained"
    using retain_new_spec [of "iterate ord sources" retained "butlast pending" retained' pending'] 2(3) by auto
  show ?case
  proof (cases "new = []")
    case True
    then have "retained' = retained" using new by auto
    then show ?thesis using True 2(1) new(2) by (cases pending rule: rev_cases) auto
  next
    case False
    then obtain k where "k \<in> set (iterate ord sources)" "k \<notin> retained" using new(3) by (cases new) auto
    then have "{0..<km_file_count m} - retained' \<subset> {0..<km_file_count m} - retained"
      using new(1) set_iterate [of ord sources] sources by auto
    then show ?thesis by (simp add: psubset_card_mono)
  qed
qed simp

declare retain_sources.simps [simp del]

text \<open>The copy of the retained files, in slot order, with their provenance and their marks.\<close>

fun copy_files :: "composition_memory \<Rightarrow> composition_memory \<Rightarrow> int list \<Rightarrow> composition_memory result" where
  "copy_files m c [] = Inr c"
| "copy_files m c (old # olds) =
     bind_r (km_program m old) (\<lambda>program.
     bind_r (rm_add_program (km_files c) program) (\<lambda>(files, new).
     bind_r (km_source m old) (\<lambda>source.
     let c' = c\<lparr>km_files := files, km_provenance := km_provenance c @ [source]\<rparr>
     in bind_r (km_is_file_protected m old) (\<lambda>protected.
        bind_r (if protected then km_protect_file c' new else Inr c') (\<lambda>c''. copy_files m c'' olds)))))"

definition AWAITING :: string where
  "AWAITING = ''candidate compaction is awaiting independent verification''"

definition PASSED :: string where
  "PASSED = ''provenance-closed recipe compaction passed verification''"

definition compact_verified :: "composition_memory \<Rightarrow> (int set \<Rightarrow> int list) \<Rightarrow> int list \<Rightarrow> (composition_memory \<Rightarrow> bool)
    \<Rightarrow> (composition_memory option \<times> compaction_receipt) result" where
  "compact_verified m ord requested verifier =
     (let n = km_file_count m
      in if requested = [] \<or> \<not> distinct requested then Inl ValueError
         else if \<exists>slot\<in>set requested. \<not> (0 \<le> slot \<and> slot < n) then Inl ValueError
         else
           let retained = set requested \<union> {slot \<in> {0..<n}. rm_protected (km_files m) ! nat slot}
           in bind_r (retain_sources m ord retained (iterate ord retained)) (\<lambda>retained.
              let retained_slots = filter (\<lambda>slot. slot \<in> retained) (upto_int n)
              in bind_r (km_init (rb_slot_values (rm_basis (km_files m))) (rb_allow_parallel (rm_basis (km_files m)))) (\<lambda>empty.
                 bind_r (copy_files m empty retained_slots) (\<lambda>compacted.
                 bind_r (validate_all_provenance compacted) (\<lambda>_.
                 let receipt = (\<lambda>accepted reason. kr_validate
                       \<lparr>kr_accepted = accepted, kr_requested = requested, kr_retained = retained_slots,
                        kr_source_files = n, kr_candidate_files = km_file_count compacted, kr_reason = reason,
                        kr_schema = RECIPE_COMPOSITION_COMPACTION_SCHEMA\<rparr>)
                 in bind_r (receipt False AWAITING) (\<lambda>waiting.
                    if \<not> verifier compacted then Inr (None, waiting)
                    else bind_r (receipt True PASSED) (\<lambda>passed. Inr (Some compacted, passed))))))))"

section \<open>Candidates and admission\<close>

definition validate_source_candidate :: "composition_memory \<Rightarrow> composition_candidate \<Rightarrow> unit result" where
  "validate_source_candidate m c =
     bind_r (kc_validate c) (\<lambda>_.
       if kc_left_slot c \<ge> km_file_count m \<or> kc_right_slot c \<ge> km_file_count m then Inl ValueError
       else
         bind_r (km_program m (kc_left_slot c)) (\<lambda>left.
         bind_r (km_program m (kc_right_slot c)) (\<lambda>right.
           if rp_digest left \<noteq> kf_left (kc_factors c) then Inl ValueError
           else if rp_digest right \<noteq> kf_right (kc_factors c) then Inl ValueError
           else
             bind_r (composition_structure_of m (kc_left_slot c) (kc_right_slot c)) (\<lambda>structure.
               if kc_structure c \<noteq> None \<and> kc_structure c \<noteq> Some structure then Inl ValueError
               else
                 bind_r (expected_program m (kf_mode (kc_factors c)) left right) (\<lambda>expected.
                   if rp_digest expected \<noteq> rp_digest (kc_program c) then Inl ValueError else Inr ())))))"

text \<open>One turn of the three loops over mode, left and right slot; \<open>None\<close> stands for \<open>continue\<close>.\<close>

definition pair_composition :: "composition_memory \<Rightarrow> int \<Rightarrow> string list \<Rightarrow> string \<times> int \<times> int
    \<Rightarrow> composition_candidate option result" where
  "pair_composition m max_length known coordinates =
     (case coordinates of (mode, left_slot, right_slot) \<Rightarrow>
        bind_r (km_program m left_slot) (\<lambda>left.
        bind_r (km_program m right_slot) (\<lambda>right.
          if int (length (joined mode (rp_instructions left) (rp_instructions right))) > max_length then Inr None
          else
            bind_r (expected_program m mode left right) (\<lambda>program.
              if rp_digest program \<in> set known then Inr None
              else
                bind_r (composition_structure_of m left_slot right_slot) (\<lambda>structure.
                bind_r (kc_validate
                  \<lparr>kc_left_slot = left_slot, kc_right_slot = right_slot,
                   kc_factors = \<lparr>kf_left = rp_digest left, kf_right = rp_digest right, kf_mode = mode,
                     kf_schema = RECIPE_COMPOSITION_FACTORS_SCHEMA\<rparr>,
                   kc_program = program, kc_structure = Some structure,
                   kc_schema = RECIPE_COMPOSITION_CANDIDATE_SCHEMA\<rparr>) (\<lambda>c. Inr (Some c)))))))"

fun collect_compositions :: "composition_memory \<Rightarrow> int \<Rightarrow> string list \<Rightarrow> (string \<times> int \<times> int) list
    \<Rightarrow> composition_candidate list result" where
  "collect_compositions m max_length known [] = Inr []"
| "collect_compositions m max_length known (x # xs) =
     bind_r (pair_composition m max_length known x) (\<lambda>found.
       case found of
         None \<Rightarrow> collect_compositions m max_length known xs
       | Some c \<Rightarrow> bind_r (collect_compositions m max_length (rp_digest (kc_program c) # known) xs) (\<lambda>cs. Inr (c # cs)))"

definition composition_coordinates :: "int \<Rightarrow> (string \<times> int \<times> int) list" where
  "composition_coordinates n =
     concat (map (\<lambda>mode. concat (map (\<lambda>l. map (\<lambda>r. (mode, l, r)) (filter (\<lambda>r. r \<noteq> l) (upto_int n))) (upto_int n)))
       RECIPE_COMPOSITION_MODES)"

definition composition_candidates :: "composition_memory \<Rightarrow> int \<Rightarrow> composition_candidate list result" where
  "composition_candidates m max_length =
     (if max_length < 1 then Inl ValueError
      else collect_compositions m max_length (map rp_digest (rm_programs (km_files m)))
             (composition_coordinates (km_file_count m)))"

definition admit_verified_composition :: "composition_memory \<Rightarrow> composition_candidate \<Rightarrow> pyfloat list \<Rightarrow> pyfloat
    \<Rightarrow> int \<Rightarrow> int \<Rightarrow> bool \<Rightarrow> (composition_memory \<times> recipe_receipt) result" where
  "admit_verified_composition m c outcomes threshold min_observations min_stable protect =
     bind_r (validate_source_candidate m c) (\<lambda>_.
     bind_r (rm_admit_verified (km_files m) (kc_program c) outcomes threshold min_observations min_stable protect)
       (\<lambda>(files, receipt).
     bind_r (km_commit m files receipt (Some (kc_factors c))) (\<lambda>(m', r).
       if \<not> rr_accepted r then Inr (m', r)
       else bind_r (validate_provenance_slot m' {} (int (length (km_provenance m)))) (\<lambda>_. Inr (m', r)))))"

section \<open>Persistence\<close>

definition provenance_value :: "composition_factors option \<Rightarrow> pyval result" where
  "provenance_value source = (case source of None \<Rightarrow> Inr PNone | Some f \<Rightarrow> kf_payload f)"

definition km_content :: "composition_memory \<Rightarrow> (string \<times> pyval) list result" where
  "km_content m =
     bind_r (map_r provenance_value (km_provenance m)) (\<lambda>rows. Inr
       [(''schema'', PStr RECIPE_COMPOSITION_MEMORY_SCHEMA), (''files'', rm_payload (km_files m)),
        (''provenance'', PList rows)])"

definition km_digest :: "composition_memory \<Rightarrow> string result" where
  "km_digest m = bind_r (km_content m) (\<lambda>content. Inr (digest_payload (PDict content)))"

definition km_payload :: "composition_memory \<Rightarrow> pyval result" where
  "km_payload m = bind_r (km_content m) (\<lambda>content. bind_r (km_digest m) (\<lambda>d. Inr (PDict (content @ [(''sha256'', PStr d)]))))"

fun load_provenance :: "string list \<Rightarrow> pyval \<Rightarrow> composition_factors option result" where
  "load_provenance digests PNone = Inr None"
| "load_provenance digests (PDict kvs) =
     bind_r (kf_from_payload (PDict kvs)) (\<lambda>f.
       if kf_left f \<notin> set digests \<or> kf_right f \<notin> set digests then Inl ValueError else Inr (Some f))"
| "load_provenance digests _ = Inl TypeError"

fun km_from_payload :: "pyval \<Rightarrow> composition_memory result" where
  "km_from_payload (PDict kvs) =
     (if dict_get kvs ''schema'' \<noteq> PStr RECIPE_COMPOSITION_MEMORY_SCHEMA then Inl ValueError
      else (case (dict_get kvs ''files'', py_sequence (dict_get kvs ''provenance'')) of
          (PDict files, Some raws) \<Rightarrow>
            bind_r (rm_from_payload (PDict files)) (\<lambda>base.
            bind_r (km_init (rb_slot_values (rm_basis base)) (rb_allow_parallel (rm_basis base))) (\<lambda>m0.
            let m1 = m0\<lparr>km_files := base\<rparr>
            in if int (length raws) \<noteq> km_file_count m1 then Inl ValueError
               else bind_r (map_r (load_provenance (map rp_digest (rm_programs base))) raws) (\<lambda>sources.
                    let m = m1\<lparr>km_provenance := sources\<rparr>
                    in bind_r (validate_all_provenance m) (\<lambda>_.
                       bind_r (km_digest m) (\<lambda>d.
                         if dict_get kvs ''sha256'' \<noteq> PStr d then Inl ValueError else Inr m)))))
        | _ \<Rightarrow> Inl TypeError))"
| "km_from_payload _ = Inl ValueError"

definition copy_on_write :: "composition_memory \<Rightarrow> composition_memory result" where
  "copy_on_write m = bind_r (km_payload m) km_from_payload"

end
