(* ===== verification/RecipeProvenance.thy ===== *)
theory RecipeProvenance
  imports RecipeComposition
begin

text \<open>
  Correctness of the composition memory of \<open>RecipeComposition\<close>.  In a valid memory (\<open>km_ok\<close>) every
  composed file names two earlier files whose concatenation has its digest; then the recursive methods
  all return: the depth, the closure (which is reachability along the sources) and the validation.
  Compaction keeps exactly the closure of what it must keep, and its result is a valid memory again; the
  enumeration of candidates is sound and complete; what verified admission stores executes as its
  sources one after the other, as far as SHA-256 tells the files apart (\<open>no_collisions\<close>).
\<close>

section \<open>Slots found by digest\<close>

definition first_at :: "'a list \<Rightarrow> 'a \<Rightarrow> nat \<Rightarrow> bool" where
  "first_at xs x i \<longleftrightarrow> i < length xs \<and> xs ! i = x \<and> (\<forall>j<i. xs ! j \<noteq> x)"

lemma first_at_unique: "first_at xs x i \<Longrightarrow> first_at xs x j \<Longrightarrow> i = j"
  by (metis first_at_def linorder_neqE_nat)

lemma first_at_ex:
  assumes "x \<in> set xs"
  shows "\<exists>i. first_at xs x i"
proof -
  have "\<exists>i. i < length xs \<and> xs ! i = x" using assms by (auto simp: in_set_conv_nth)
  then obtain i where "i < length xs \<and> xs ! i = x" "\<forall>j<i. \<not> (j < length xs \<and> xs ! j = x)"
    using exists_least_iff [of "\<lambda>i. i < length xs \<and> xs ! i = x"] by blast
  then show ?thesis by (intro exI [of _ i]) (auto simp: first_at_def)
qed

lemma first_at_le: "first_at xs x i \<Longrightarrow> xs ! j = x \<Longrightarrow> i \<le> j"
  by (meson first_at_def not_le_imp_less)

lemma first_at_take: "first_at (take n xs) x i \<longleftrightarrow> first_at xs x i \<and> i < n"
  by (auto simp: first_at_def)

lemma first_at_append: "first_at xs x i \<Longrightarrow> first_at (xs @ ys) x i"
  by (auto simp: first_at_def nth_append)

lemma first_at_Cons: "first_at (x # xs) d i \<longleftrightarrow> (if x = d then i = 0 else \<exists>j. i = Suc j \<and> first_at xs d j)"
  by (cases i) (force simp: first_at_def less_Suc_eq_0_disj nth_Cons')+

lemma digest_slot_from: "digest_slot d xs k = Some j \<longleftrightarrow> (\<exists>i. j = k + int i \<and> first_at xs d i)"
proof (induction xs arbitrary: k)
  case Nil
  then show ?case by (simp add: first_at_def)
next
  case (Cons x xs)
  then show ?case by (simp add: first_at_Cons Cons.IH [of "k + 1"] add.assoc) (metis of_nat_Suc)
qed

lemma digest_slot_Some: "digest_slot d xs 0 = Some j \<longleftrightarrow> (\<exists>i. j = int i \<and> first_at xs d i)"
  by (simp add: digest_slot_from)

definition km_programs :: "composition_memory \<Rightarrow> recipe_program list" where
  "km_programs m = rm_programs (km_files m)"

definition km_digests :: "composition_memory \<Rightarrow> string list" where
  "km_digests m = map rp_digest (km_programs m)"

lemma length_km_digests [simp]: "length (km_digests m) = length (km_programs m)"
  by (simp add: km_digests_def)

lemma km_count: "km_file_count m = int (length (km_programs m))"
  by (simp add: km_file_count_def rm_file_count_def km_programs_def)

lemma slot_for_digest_iff:
  assumes "k \<le> length (km_programs m)"
  shows "slot_for_digest m d (Some (int k)) = Inr l \<longleftrightarrow>
    digest_ok d \<and> (\<exists>i. l = int i \<and> i < k \<and> first_at (km_digests m) d i)"
proof -
  have "take (nat (int k)) (rm_programs (km_files m)) = take k (km_programs m)" by (simp add: km_programs_def)
  then have "slot_for_digest m d (Some (int k)) = Inr l \<longleftrightarrow>
      digest_ok d \<and> digest_slot d (take k (km_digests m)) 0 = Some l"
    by (auto simp: slot_for_digest_def bind_r_eq_Inr validate_digest_Inr Let_def km_digests_def take_map
        split: option.splits)
  then show ?thesis by (auto simp: digest_slot_Some first_at_take)
qed

section \<open>Valid memories\<close>

lemma kf_validate_Inr: "kf_validate f = Inr g \<longleftrightarrow> g = f \<and> kf_schema f = RECIPE_COMPOSITION_FACTORS_SCHEMA
    \<and> digest_ok (kf_left f) \<and> digest_ok (kf_right f) \<and> kf_left f \<noteq> kf_right f
    \<and> kf_mode f \<in> set RECIPE_COMPOSITION_MODES"
  by (auto simp: kf_validate_def bind_r_eq_Inr validate_digest_Inr)

lemma ks_validate_Inr: "ks_validate s = Inr t \<longleftrightarrow> t = s \<and> ks_schema s = RECIPE_COMPOSITION_STRUCTURE_SCHEMA
    \<and> 1 \<le> ks_left_depth s \<and> 1 \<le> ks_right_depth s \<and> (ks_left_composite s \<longleftrightarrow> 1 < ks_left_depth s)
    \<and> (ks_right_composite s \<longleftrightarrow> 1 < ks_right_depth s)"
  by (auto simp: ks_validate_def)

lemma kc_validate_Inr: "kc_validate c = Inr d \<longleftrightarrow> d = c \<and> kc_schema c = RECIPE_COMPOSITION_CANDIDATE_SCHEMA
    \<and> 0 \<le> kc_left_slot c \<and> 0 \<le> kc_right_slot c \<and> kc_left_slot c \<noteq> kc_right_slot c
    \<and> kf_validate (kc_factors c) = Inr (kc_factors c)
    \<and> (\<forall>s. kc_structure c = Some s \<longrightarrow> ks_validate s = Inr s)"
  by (auto simp: kc_validate_def bind_r_eq_Inr kf_validate_Inr ks_validate_Inr split: option.splits)

definition source_slots :: "composition_memory \<Rightarrow> nat \<Rightarrow> composition_factors \<Rightarrow> nat \<Rightarrow> nat \<Rightarrow> bool" where
  "source_slots m k f l r \<longleftrightarrow> l < k \<and> r < k \<and> first_at (km_digests m) (kf_left f) l
     \<and> first_at (km_digests m) (kf_right f) r"

definition prov_ok :: "composition_memory \<Rightarrow> nat \<Rightarrow> composition_factors \<Rightarrow> bool" where
  "prov_ok m k f \<longleftrightarrow> kf_validate f = Inr f \<and> (\<exists>l r e. source_slots m k f l r
     \<and> expected_program m (kf_mode f) (km_programs m ! l) (km_programs m ! r) = Inr e
     \<and> rp_digest e = km_digests m ! k)"

definition km_ok :: "composition_memory \<Rightarrow> bool" where
  "km_ok m \<longleftrightarrow> rm_ok (km_files m) \<and> length (km_provenance m) = length (km_programs m)
     \<and> (\<forall>k<length (km_programs m). \<forall>f. km_provenance m ! k = Some f \<longrightarrow> prov_ok m k f)"

lemma prov_ok_in: "km_ok m \<Longrightarrow> k < length (km_programs m) \<Longrightarrow> km_provenance m ! k = Some f \<Longrightarrow> prov_ok m k f"
  by (simp add: km_ok_def)

lemma km_ok_prov:
  assumes "km_ok m" and "k < length (km_programs m)" and "km_provenance m ! k = Some f"
  obtains l r e where "kf_validate f = Inr f" and "source_slots m k f l r"
    and "expected_program m (kf_mode f) (km_programs m ! l) (km_programs m ! r) = Inr e"
    and "rp_digest e = km_digests m ! k"
    and "slot_for_digest m (kf_left f) (Some (int k)) = Inr (int l)"
    and "slot_for_digest m (kf_right f) (Some (int k)) = Inr (int r)"
proof -
  obtain l r e where *: "kf_validate f = Inr f" "source_slots m k f l r"
      "expected_program m (kf_mode f) (km_programs m ! l) (km_programs m ! r) = Inr e"
      "rp_digest e = km_digests m ! k"
    using prov_ok_in [OF assms] unfolding prov_ok_def by blast
  moreover have "slot_for_digest m (kf_left f) (Some (int k)) = Inr (int l)"
      "slot_for_digest m (kf_right f) (Some (int k)) = Inr (int r)"
    using *(1,2) slot_for_digest_iff [of k m] assms(2) by (auto simp: source_slots_def kf_validate_Inr)
  ultimately show ?thesis using that by blast
qed

text \<open>No slot from here down is being visited.\<close>

definition unvisited :: "int set \<Rightarrow> nat \<Rightarrow> bool" where
  "unvisited visiting k \<longleftrightarrow> (\<forall>j\<le>k. int j \<notin> visiting)"

lemma unvisited_empty [simp]: "unvisited {} k"
  by (simp add: unvisited_def)

lemma unvisited_step: "unvisited visiting k \<Longrightarrow> j < k \<Longrightarrow> unvisited (insert (int k) visiting) j"
  by (auto simp: unvisited_def)

lemma unvisited_self: "unvisited visiting k \<Longrightarrow> int k \<notin> visiting"
  by (simp add: unvisited_def)

lemma km_program_nth: "k < length (km_programs m) \<Longrightarrow> km_program m (int k) = Inr (km_programs m ! k)"
  by (simp add: km_program_def rm_program_Inr km_programs_def)

lemma km_source_nth: "k < length (km_programs m) \<Longrightarrow> km_source m (int k) = Inr (km_provenance m ! k)"
  by (simp add: km_source_def km_count)

lemma validate_slot_ok:
  assumes "km_ok m"
  shows "k < length (km_programs m) \<Longrightarrow> unvisited visiting k \<Longrightarrow> validate_provenance_slot m visiting (int k) = Inr ()"
proof (induction k arbitrary: visiting rule: less_induct)
  case (less k)
  show ?case
  proof (cases "km_provenance m ! k")
    case None
    then show ?thesis
      using less.prems by (subst validate_provenance_slot.simps) (simp add: unvisited_self km_source_nth)
  next
    case (Some f)
    obtain l r e where *: "kf_validate f = Inr f" "source_slots m k f l r"
        "expected_program m (kf_mode f) (km_programs m ! l) (km_programs m ! r) = Inr e" "rp_digest e = km_digests m ! k"
        "slot_for_digest m (kf_left f) (Some (int k)) = Inr (int l)" "slot_for_digest m (kf_right f) (Some (int k)) = Inr (int r)"
      using km_ok_prov [OF assms less.prems(1) Some] .
    have lr: "l < k" "r < k" using *(2) by (simp_all add: source_slots_def)
    then have "validate_provenance_slot m (insert (int k) visiting) (int l) = Inr ()"
        "validate_provenance_slot m (insert (int k) visiting) (int r) = Inr ()"
      using less.IH less.prems unvisited_step [OF less.prems(2)] by simp_all
    then show ?thesis
      using * lr less.prems Some
      by (subst validate_provenance_slot.simps)
        (simp add: unvisited_self km_source_nth km_program_nth km_digests_def)
  qed
qed

lemma validate_slot_prov_ok:
  assumes "validate_provenance_slot m {} (int k) = Inr ()" and "k < length (km_programs m)"
    and "km_provenance m ! k = Some f"
  shows "prov_ok m k f"
proof -
  obtain a b where ab: "kf_validate f = Inr f" "slot_for_digest m (kf_left f) (Some (int k)) = Inr a"
      "slot_for_digest m (kf_right f) (Some (int k)) = Inr b"
      "\<exists>left right e. km_program m a = Inr left \<and> km_program m b = Inr right
        \<and> expected_program m (kf_mode f) left right = Inr e \<and> rp_digest e = rp_digest (km_programs m ! k)"
    using assms by (subst (asm) validate_provenance_slot.simps)
      (auto simp: bind_r_eq_Inr km_source_nth km_program_nth kf_validate_Inr split: if_splits)
  obtain l r where lr: "a = int l" "b = int r" "source_slots m k f l r"
    using ab(2,3) assms(2) slot_for_digest_iff [of k m] by (auto simp: source_slots_def)
  then have "l < length (km_programs m)" "r < length (km_programs m)" using assms(2) by (auto simp: source_slots_def)
  then show ?thesis using ab lr assms(2) by (auto simp: prov_ok_def km_program_nth km_digests_def)
qed

lemma validate_all_iff:
  assumes "rm_ok (km_files m)" and "length (km_provenance m) = length (km_programs m)"
  shows "validate_all_provenance m = Inr () \<longleftrightarrow> km_ok m"
proof
  assume "validate_all_provenance m = Inr ()"
  then have "validate_provenance_slot m {} (int k) = Inr ()" if "k < length (km_programs m)" for k
    using that by (simp add: validate_all_provenance_def all_r_Inr_iff km_count)
  then show "km_ok m" using assms validate_slot_prov_ok by (auto simp: km_ok_def)
next
  assume ok: "km_ok m"
  have "validate_provenance_slot m {} k = Inr ()" if k: "k \<in> {0..<km_file_count m}" for k
  proof -
    obtain n where "k = int n" "n < length (km_programs m)" using k by (cases k) (auto simp: km_count)
    then show ?thesis using validate_slot_ok [OF ok, of n "{}"] by simp
  qed
  then show "validate_all_provenance m = Inr ()" by (simp add: validate_all_provenance_def all_r_Inr_iff)
qed

section \<open>Depth and closure\<close>

lemma source_slots_unique: "source_slots m k f l r \<Longrightarrow> source_slots m k f l' r' \<Longrightarrow> l' = l \<and> r' = r"
  by (auto simp: source_slots_def dest: first_at_unique)

lemma depth_total:
  assumes "km_ok m" and "k < length (km_programs m)"
  shows "\<exists>d. (\<forall>visiting. unvisited visiting k \<longrightarrow> composition_depth m visiting (int k) = Inr d)
    \<and> 1 \<le> d \<and> d \<le> int k + 1 \<and> (1 < d \<longleftrightarrow> km_provenance m ! k \<noteq> None)"
  using assms(2)
proof (induction k rule: less_induct)
  case (less k)
  show ?case
  proof (cases "km_provenance m ! k")
    case None
    then have "composition_depth m visiting (int k) = Inr 1" if "unvisited visiting k" for visiting
      using less.prems that by (subst composition_depth.simps) (simp add: unvisited_self km_count)
    then show ?thesis using None by (intro exI [of _ 1]) simp
  next
    case (Some f)
    obtain l r e where *: "kf_validate f = Inr f" "source_slots m k f l r"
        "slot_for_digest m (kf_left f) (Some (int k)) = Inr (int l)" "slot_for_digest m (kf_right f) (Some (int k)) = Inr (int r)"
      using km_ok_prov [OF assms(1) less.prems Some] by blast
    have lr: "l < k" "r < k" using *(2) by (simp_all add: source_slots_def)
    obtain dl where dl: "\<forall>visiting. unvisited visiting l \<longrightarrow> composition_depth m visiting (int l) = Inr dl" "1 \<le> dl" "dl \<le> int l + 1"
      using less.IH [OF lr(1)] lr less.prems by auto
    obtain dr where dr: "\<forall>visiting. unvisited visiting r \<longrightarrow> composition_depth m visiting (int r) = Inr dr" "1 \<le> dr" "dr \<le> int r + 1"
      using less.IH [OF lr(2)] lr less.prems by auto
    have "composition_depth m visiting (int k) = Inr (max dl dr + 1)" if v: "unvisited visiting k" for visiting
    proof -
      have "composition_depth m (insert (int k) visiting) (int l) = Inr dl"
          "composition_depth m (insert (int k) visiting) (int r) = Inr dr"
        using dl(1) dr(1) unvisited_step [OF v] lr by blast+
      then show ?thesis
        using * less.prems Some v by (subst composition_depth.simps) (simp add: unvisited_self km_count)
    qed
    then show ?thesis using Some dl dr lr by (intro exI [of _ "max dl dr + 1"]) auto
  qed
qed

definition depth_of :: "composition_memory \<Rightarrow> nat \<Rightarrow> int" where
  "depth_of m k = (case composition_depth m {} (int k) of Inl _ \<Rightarrow> 0 | Inr d \<Rightarrow> d)"

lemma depth_of_total:
  assumes "km_ok m" and "k < length (km_programs m)"
  shows "composition_depth m {} (int k) = Inr (depth_of m k)" "1 \<le> depth_of m k" "depth_of m k \<le> int k + 1"
    "1 < depth_of m k \<longleftrightarrow> km_provenance m ! k \<noteq> None"
  using depth_total [OF assms] by (auto simp: depth_of_def)

text \<open>A slot is a direct source of another.\<close>

inductive source_of :: "composition_memory \<Rightarrow> nat \<Rightarrow> nat \<Rightarrow> bool" for m where
  left_source: "k < length (km_programs m) \<Longrightarrow> km_provenance m ! k = Some f \<Longrightarrow> source_slots m k f l r \<Longrightarrow> source_of m k l"
| right_source: "k < length (km_programs m) \<Longrightarrow> km_provenance m ! k = Some f \<Longrightarrow> source_slots m k f l r \<Longrightarrow> source_of m k r"

inductive_cases source_ofE: "source_of m k j"

definition sources_closure :: "composition_memory \<Rightarrow> nat \<Rightarrow> nat set" where
  "sources_closure m k = {j. (source_of m)\<^sup>*\<^sup>* k j}"

lemma source_of_less: "source_of m k j \<Longrightarrow> j < k"
  by (auto elim: source_ofE simp: source_slots_def)

lemma closure_atomic:
  assumes "km_provenance m ! k = None"
  shows "sources_closure m k = {k}"
proof -
  have "j = k" if "(source_of m)\<^sup>*\<^sup>* k j" for j
    using that by (cases rule: converse_rtranclpE) (use assms in \<open>auto elim: source_ofE\<close>)
  then show ?thesis by (auto simp: sources_closure_def)
qed

lemma closure_composite:
  assumes "k < length (km_programs m)" and "km_provenance m ! k = Some f" and "source_slots m k f l r"
  shows "sources_closure m k = {k} \<union> sources_closure m l \<union> sources_closure m r"
proof -
  have step: "source_of m k j \<longleftrightarrow> j = l \<or> j = r" for j
    using assms source_slots_unique by (auto elim!: source_ofE intro: source_of.intros)
  have "(source_of m)\<^sup>*\<^sup>* k j \<longleftrightarrow> j = k \<or> (source_of m)\<^sup>*\<^sup>* l j \<or> (source_of m)\<^sup>*\<^sup>* r j" for j
    using step by (metis converse_rtranclp_into_rtranclp converse_rtranclpE rtranclp.rtrancl_refl)
  then show ?thesis by (auto simp: sources_closure_def)
qed

lemma closure_le: "j \<in> sources_closure m k \<Longrightarrow> j \<le> k"
proof -
  have "(source_of m)\<^sup>*\<^sup>* k j \<Longrightarrow> j \<le> k"
    by (induction rule: rtranclp_induct) (auto dest: source_of_less)
  then show "j \<in> sources_closure m k \<Longrightarrow> j \<le> k" by (simp add: sources_closure_def)
qed

lemma closure_trans: "j \<in> sources_closure m k \<Longrightarrow> sources_closure m j \<subseteq> sources_closure m k"
  by (auto simp: sources_closure_def)

lemma closure_self [simp]: "k \<in> sources_closure m k"
  by (simp add: sources_closure_def)

lemma closure_total:
  assumes "km_ok m"
  shows "k < length (km_programs m) \<Longrightarrow> unvisited visiting k \<Longrightarrow>
    provenance_closure m visiting (int k) = Inr (int ` sources_closure m k)"
proof (induction k arbitrary: visiting rule: less_induct)
  case (less k)
  show ?case
  proof (cases "km_provenance m ! k")
    case None
    then show ?thesis
      using less.prems by (subst provenance_closure.simps) (simp add: unvisited_self km_count closure_atomic)
  next
    case (Some f)
    obtain l r e where *: "kf_validate f = Inr f" "source_slots m k f l r"
        "slot_for_digest m (kf_left f) (Some (int k)) = Inr (int l)" "slot_for_digest m (kf_right f) (Some (int k)) = Inr (int r)"
      using km_ok_prov [OF assms(1) less.prems(1) Some] by blast
    have lr: "l < k" "r < k" using *(2) by (simp_all add: source_slots_def)
    then have "provenance_closure m (insert (int k) visiting) (int l) = Inr (int ` sources_closure m l)"
        "provenance_closure m (insert (int k) visiting) (int r) = Inr (int ` sources_closure m r)"
      using less.IH less.prems unvisited_step [OF less.prems(2)] by simp_all
    then show ?thesis
      using * less.prems Some closure_composite [OF less.prems(1) Some *(2)]
      by (subst provenance_closure.simps) (simp add: unvisited_self km_count image_Un)
  qed
qed

lemma structure_total:
  assumes "km_ok m" and "l < length (km_programs m)" and "r < length (km_programs m)"
  shows "\<exists>s. composition_structure_of m (int l) (int r) = Inr s \<and> ks_validate s = Inr s
    \<and> ks_left_depth s = depth_of m l \<and> ks_right_depth s = depth_of m r"
  using depth_of_total [OF assms(1,2)] depth_of_total [OF assms(1,3)] assms(2,3)
  by (auto simp: composition_structure_of_def km_count km_source_nth ks_validate_Inr bind_r_eq_Inr)

lemma telemetry_total:
  assumes "km_ok m" and "slots \<noteq> []" and "distinct slots" and "\<forall>k\<in>set slots. k < length (km_programs m)"
  shows "\<exists>rows. candidate_telemetry math m (map int slots) = Inr rows \<and> length rows = length slots
    \<and> (\<forall>row\<in>set rows. length row = 8)"
proof -
  have row: "\<exists>row. telemetry_row math m (int k) = Inr row \<and> length row = 8" if k: "k < length (km_programs m)" for k
    using depth_of_total(1) [OF assms(1) k] closure_total [OF assms(1) k, of "{}"] km_program_nth [OF k] km_source_nth [OF k] k
    by (simp add: telemetry_row_def Let_def km_is_file_protected_def rm_is_file_protected_def km_programs_def rm_file_count_def)
  then obtain g where g: "\<And>k. k < length (km_programs m) \<Longrightarrow> telemetry_row math m (int k) = Inr (g k) \<and> length (g k) = 8"
    by metis
  have "map_r (telemetry_row math m) (map int slots) = Inr (map g slots)"
    using g assms(4) by (simp add: map_r_map map_r_total)
  moreover have "\<not> (\<exists>slot\<in>set (map int slots). \<not> (0 \<le> slot \<and> slot < km_file_count m))"
    using assms(4) by (auto simp: km_count)
  moreover have "distinct (map int slots)" using assms(3) by (simp add: distinct_map)
  ultimately have "candidate_telemetry math m (map int slots) = Inr (map g slots)"
    using assms(2) by (simp add: candidate_telemetry_def)
  then show ?thesis using g assms(4) by auto
qed

section \<open>Compaction\<close>

text \<open>Python visits every element of a set once, in some order.\<close>

definition enumerates :: "(int set \<Rightarrow> int list) \<Rightarrow> bool" where
  "enumerates ord \<longleftrightarrow> (\<forall>A. finite A \<longrightarrow> set (ord A) = A \<and> distinct (ord A))"

lemma set_iterate_all: "enumerates ord \<Longrightarrow> finite A \<Longrightarrow> set (iterate ord A) = A"
  by (auto simp: enumerates_def iterate_def)

definition slot_closure :: "composition_memory \<Rightarrow> int \<Rightarrow> int set" where
  "slot_closure m k = int ` sources_closure m (nat k)"

lemma slot_closure_range: "0 \<le> k \<Longrightarrow> k < km_file_count m \<Longrightarrow> slot_closure m k \<subseteq> {0..<km_file_count m}"
  by (force simp: slot_closure_def dest: closure_le)

lemma slot_closure_trans: "j \<in> slot_closure m k \<Longrightarrow> slot_closure m j \<subseteq> slot_closure m k"
  by (auto simp: slot_closure_def dest: closure_trans [THEN subsetD])

lemma slot_closure_self: "0 \<le> k \<Longrightarrow> k \<in> slot_closure m k"
  unfolding slot_closure_def by (rule image_eqI [of _ _ "nat k"]) simp_all

lemma retain_sources_total:
  "km_ok m \<Longrightarrow> enumerates ord \<Longrightarrow> R \<subseteq> {0..<km_file_count m} \<Longrightarrow> set P \<subseteq> R \<Longrightarrow> \<forall>s\<in>R. s \<in> set P \<or> slot_closure m s \<subseteq> R \<Longrightarrow>
    retain_sources m ord R P = Inr (\<Union> (slot_closure m ` R))"
proof (induction "m" ord R P rule: retain_sources.induct)
  case (1 m ord R P)
  show ?case
  proof (cases "P = []")
    case True
    have "(\<Union>s\<in>R. slot_closure m s) = R"
      using True "1.prems"(3-) slot_closure_self [of _ m] by fastforce
    then show ?thesis using True by (subst retain_sources.simps) simp
  next
    case False
    let ?s = "last P"
    have s: "?s \<in> R" "0 \<le> ?s" "?s < km_file_count m"
      using last_in_set [OF False] "1.prems"(3,4) by auto
    have closure: "provenance_closure m {} ?s = Inr (slot_closure m ?s)"
      using closure_total [OF "1.prems"(1), of "nat ?s" "{}"] s(2,3) by (simp add: slot_closure_def km_count)
    have range: "slot_closure m ?s \<subseteq> {0..<km_file_count m}" using slot_closure_range s by blast
    then have "finite (slot_closure m ?s)" using finite_subset by blast
    then have ks: "set (iterate ord (slot_closure m ?s)) = slot_closure m ?s" using set_iterate_all "1.prems"(2) by blast
    obtain R' P' where new: "retain_new (iterate ord (slot_closure m ?s)) R (butlast P) = (R', P')" by fastforce
    obtain fresh where R': "R' = R \<union> slot_closure m ?s" and P': "P' = butlast P @ fresh" "set fresh = slot_closure m ?s - R"
      using retain_new_spec [OF new] ks by blast
    have P: "set P = insert ?s (set (butlast P))" using False by (cases P rule: rev_cases) auto
    have "\<forall>t\<in>R'. t \<in> set P' \<or> slot_closure m t \<subseteq> R'"
    proof
      fix t assume "t \<in> R'"
      then consider "t \<in> R" "t \<noteq> ?s" | "t \<in> slot_closure m ?s"
        using R' slot_closure_self [OF s(2)] by blast
      then show "t \<in> set P' \<or> slot_closure m t \<subseteq> R'"
        using "1.prems"(5) P R' P' slot_closure_trans by cases fastforce+
    qed
    moreover have "R' \<subseteq> {0..<km_file_count m}" using R' range "1.prems"(3) by blast
    moreover have "set P' \<subseteq> R'" using P' R' "1.prems"(4) P by auto
    ultimately have "retain_sources m ord R' P' = Inr (\<Union> (slot_closure m ` R'))"
      using "1.IH" [OF False closure new [symmetric]] "1.prems"(1,2) by blast
    moreover have "\<Union> (slot_closure m ` R') = \<Union> (slot_closure m ` R)"
      using R' s(1) slot_closure_trans by blast
    ultimately show ?thesis using False closure new by (subst retain_sources.simps) simp
  qed
qed

lemma copy_files_spec:
  assumes "km_ok m"
  shows "\<forall>k\<in>set ks. k < length (km_programs m) \<Longrightarrow> rm_basis (km_files c) = rm_basis (km_files m) \<Longrightarrow>
    length (rm_protected (km_files c)) = length (rm_programs (km_files c)) \<Longrightarrow>
    copy_files m c (map int ks) = Inr
      \<lparr>km_files = \<lparr>rm_basis = rm_basis (km_files m),
         rm_programs = rm_programs (km_files c) @ map ((!) (km_programs m)) ks,
         rm_protected = rm_protected (km_files c) @ map ((!) (rm_protected (km_files m))) ks\<rparr>,
       km_provenance = km_provenance c @ map ((!) (km_provenance m)) ks\<rparr>"
proof (induction ks arbitrary: c)
  case Nil
  then show ?case by simp
next
  case (Cons k ks)
  have k: "k < length (km_programs m)" using Cons.prems by simp
  let ?p = "km_programs m ! k" and ?b = "rm_protected (km_files m) ! k"
  have "fits (km_files m) ?p" using assms k by (simp add: km_ok_def rm_ok_def km_programs_def)
  then have add: "rm_add_program (km_files c) ?p = Inr (with_recipe (km_files c) ?p False, rm_file_count (km_files c))"
    using Cons.prems(2) by (simp add: rm_add_Inr rm_validate_Inr fits_def)
  have mark: "km_is_file_protected m (int k) = Inr ?b"
    using k by (simp add: km_is_file_protected_def rm_is_file_protected_def rm_file_count_def km_programs_def)
  let ?c = "c\<lparr>km_files := with_recipe (km_files c) ?p ?b, km_provenance := km_provenance c @ [km_provenance m ! k]\<rparr>"
  have protect: "(if ?b then km_protect_file (c\<lparr>km_files := with_recipe (km_files c) ?p False,
        km_provenance := km_provenance c @ [km_provenance m ! k]\<rparr>) (rm_file_count (km_files c))
      else Inr (c\<lparr>km_files := with_recipe (km_files c) ?p False, km_provenance := km_provenance c @ [km_provenance m ! k]\<rparr>))
      = Inr ?c"
    using protect_last [OF Cons.prems(3), of ?p] by (simp add: km_protect_file_def)
  have "copy_files m c (map int (k # ks)) = copy_files m ?c (map int ks)"
    using km_program_nth [OF k] km_source_nth [OF k] add mark protect by (simp add: Let_def)
  also have "\<dots> = Inr
      \<lparr>km_files = \<lparr>rm_basis = rm_basis (km_files m),
         rm_programs = rm_programs (km_files ?c) @ map ((!) (km_programs m)) ks,
         rm_protected = rm_protected (km_files ?c) @ map ((!) (rm_protected (km_files m))) ks\<rparr>,
       km_provenance = km_provenance ?c @ map ((!) (km_provenance m)) ks\<rparr>"
    by (rule Cons.IH) (use Cons.prems in auto)
  finally show ?case by simp
qed

text \<open>The memory that keeps the slots \<open>ks\<close>.\<close>

definition restricted :: "composition_memory \<Rightarrow> nat list \<Rightarrow> composition_memory" where
  "restricted m ks =
     \<lparr>km_files = \<lparr>rm_basis = rm_basis (km_files m), rm_programs = map ((!) (km_programs m)) ks,
        rm_protected = map ((!) (rm_protected (km_files m))) ks\<rparr>,
      km_provenance = map ((!) (km_provenance m)) ks\<rparr>"

lemma restricted_simps [simp]:
  "km_programs (restricted m ks) = map ((!) (km_programs m)) ks"
  "km_provenance (restricted m ks) = map ((!) (km_provenance m)) ks"
  "rm_basis (km_files (restricted m ks)) = rm_basis (km_files m)"
  by (simp_all add: restricted_def km_programs_def)

lemma restricted_digests:
  assumes "\<forall>k\<in>set ks. k < length (km_programs m)"
  shows "km_digests (restricted m ks) = map ((!) (km_digests m)) ks"
  using assms by (simp add: km_digests_def)

lemma first_at_restricted:
  assumes "sorted_wrt (<) ks" and "\<forall>k\<in>set ks. k < length xs" and "first_at xs d i" and "i \<in> set ks"
  shows "\<exists>i'. i' < length ks \<and> ks ! i' = i \<and> first_at (map ((!) xs) ks) d i'"
proof -
  obtain i' where i': "i' < length ks" "ks ! i' = i" using assms(4) by (auto simp: in_set_conv_nth)
  have "ks ! j < i" if "j < i'" for j using sorted_wrt_nth_less [OF assms(1) that i'(1)] i'(2) by simp
  then show ?thesis using i' assms(3) by (intro exI [of _ i']) (auto simp: first_at_def)
qed

lemma restricted_ok:
  assumes ok: "km_ok m" and ks: "sorted_wrt (<) ks" "\<forall>k\<in>set ks. k < length (km_programs m)"
    and closed: "\<forall>k\<in>set ks. \<forall>j. source_of m k j \<longrightarrow> j \<in> set ks"
  shows "km_ok (restricted m ks)"
proof -
  have "fits (km_files (restricted m ks)) p" if "p \<in> set (map ((!) (km_programs m)) ks)" for p
    using that ok ks(2) by (auto simp: km_ok_def rm_ok_def fits_def km_programs_def)
  then have files: "rm_ok (km_files (restricted m ks))"
    using ok by (simp add: km_ok_def rm_ok_def restricted_def)
  have "prov_ok (restricted m ks) k' f" if k': "k' < length ks" "km_provenance m ! (ks ! k') = Some f" for k' f
  proof -
    have k: "ks ! k' < length (km_programs m)" using ks(2) k'(1) by simp
    obtain l r e where *: "kf_validate f = Inr f" "source_slots m (ks ! k') f l r"
        "expected_program m (kf_mode f) (km_programs m ! l) (km_programs m ! r) = Inr e" "rp_digest e = km_digests m ! (ks ! k')"
      using km_ok_prov [OF ok k k'(2)] by blast
    have "source_of m (ks ! k') l" "source_of m (ks ! k') r" using k k'(2) *(2) by (blast intro: source_of.intros)+
    then have in_ks: "l \<in> set ks" "r \<in> set ks" using closed k'(1) nth_mem by blast+
    have range: "\<forall>k\<in>set ks. k < length (km_digests m)" using ks(2) by simp
    obtain l' where l': "l' < length ks" "ks ! l' = l" "first_at (map ((!) (km_digests m)) ks) (kf_left f) l'"
      using first_at_restricted [OF ks(1) range _ in_ks(1)] *(2) unfolding source_slots_def by blast
    obtain r' where r': "r' < length ks" "ks ! r' = r" "first_at (map ((!) (km_digests m)) ks) (kf_right f) r'"
      using first_at_restricted [OF ks(1) range _ in_ks(2)] *(2) unfolding source_slots_def by blast
    have before: "j' < k'" if "j' < length ks" "ks ! j' < ks ! k'" for j'
      using sorted_wrt_nth_less [OF ks(1), of k' j'] that k'(1) by (metis less_asym linorder_neqE_nat)
    have "l' < k'" "r' < k'" using before l' r' *(2) by (auto simp: source_slots_def)
    then have "source_slots (restricted m ks) k' f l' r'"
      using l'(3) r'(3) by (simp add: source_slots_def restricted_digests [OF ks(2)])
    moreover have "expected_program (restricted m ks) (kf_mode f) (km_programs (restricted m ks) ! l')
        (km_programs (restricted m ks) ! r') = Inr e"
      using *(3) l' r' by (simp add: expected_program_def)
    moreover have "rp_digest e = km_digests (restricted m ks) ! k'"
      using *(4) k'(1) by (simp add: restricted_digests [OF ks(2)])
    ultimately show ?thesis using *(1) unfolding prov_ok_def by blast
  qed
  then show ?thesis using files by (simp add: km_ok_def)
qed

definition must_keep :: "composition_memory \<Rightarrow> int list \<Rightarrow> nat set" where
  "must_keep m requested = {k. k < length (km_programs m) \<and> (int k \<in> set requested \<or> rm_protected (km_files m) ! k)}"

definition kept_slots :: "composition_memory \<Rightarrow> int list \<Rightarrow> nat list" where
  "kept_slots m requested =
     filter (\<lambda>j. \<exists>k\<in>must_keep m requested. j \<in> sources_closure m k) [0..<length (km_programs m)]"

lemma kept_slots_range: "\<forall>k\<in>set (kept_slots m requested). k < length (km_programs m)"
  by (auto simp: kept_slots_def)

lemma kept_slots_sorted: "sorted_wrt (<) (kept_slots m requested)"
  unfolding kept_slots_def by (intro sorted_wrt_filter) simp

lemma set_kept_slots: "set (kept_slots m requested) = (\<Union>k\<in>must_keep m requested. sources_closure m k)"
  by (fastforce simp: kept_slots_def must_keep_def dest: closure_le)

lemma kept_slots_closed: "\<forall>k\<in>set (kept_slots m requested). \<forall>j. source_of m k j \<longrightarrow> j \<in> set (kept_slots m requested)"
  unfolding set_kept_slots by (auto simp: sources_closure_def dest: rtranclp.rtrancl_into_rtrancl)

lemma retained_slots:
  assumes "\<forall>k\<in>set requested. in_range k (length (km_programs m))"
  defines "R \<equiv> set requested \<union> {slot \<in> {0..<km_file_count m}. rm_protected (km_files m) ! nat slot}"
  shows "R = int ` must_keep m requested"
    and "filter (\<lambda>slot. slot \<in> \<Union> (slot_closure m ` R)) (upto_int (km_file_count m)) = map int (kept_slots m requested)"
proof -
  have mem: "k \<in> R \<longleftrightarrow> 0 \<le> k \<and> nat k \<in> must_keep m requested" for k
    using assms(1) by (auto simp: R_def must_keep_def km_count in_range_def nat_less_iff)
  have "k \<in> R \<longleftrightarrow> k \<in> int ` must_keep m requested" for k
    by (cases "0 \<le> k") (auto simp: mem intro: image_eqI [of _ _ "nat k"])
  then show R: "R = int ` must_keep m requested" by blast
  have "int j \<in> \<Union> (slot_closure m ` R) \<longleftrightarrow> (\<exists>k\<in>must_keep m requested. j \<in> sources_closure m k)" for j
    by (auto simp: R slot_closure_def)
  then show "filter (\<lambda>slot. slot \<in> \<Union> (slot_closure m ` R)) (upto_int (km_file_count m)) = map int (kept_slots m requested)"
    by (simp add: upto_int_def filter_map comp_def kept_slots_def km_count)
qed

lemma compact_total:
  assumes ok: "km_ok m" and ord: "enumerates ord"
    and requested: "requested \<noteq> []" "distinct requested" "\<forall>k\<in>set requested. in_range k (length (km_programs m))"
  defines "ks \<equiv> kept_slots m requested"
  shows "\<exists>receipt. compact_verified m ord requested verifier
      = Inr (if verifier (restricted m ks) then Some (restricted m ks) else None, receipt)
    \<and> kr_validate receipt = Inr receipt \<and> kr_accepted receipt = verifier (restricted m ks)
    \<and> kr_retained receipt = map int ks \<and> kr_requested receipt = requested"
proof -
  let ?R = "set requested \<union> {slot \<in> {0..<km_file_count m}. rm_protected (km_files m) ! nat slot}"
  note R = retained_slots [OF requested(3)]
  have range: "?R \<subseteq> {0..<km_file_count m}"
    using requested(3) by (auto simp: in_range_def km_count)
  then have "finite ?R" using finite_subset by blast
  then have "set (iterate ord ?R) = ?R" using set_iterate_all ord by blast
  then have retain: "retain_sources m ord ?R (iterate ord ?R) = Inr (\<Union> (slot_closure m ` ?R))"
    using range by (intro retain_sources_total [OF ok ord]) auto
  let ?b = "rm_basis (km_files m)"
  let ?empty = "\<lparr>km_files = \<lparr>rm_basis = ?b, rm_programs = [], rm_protected = []\<rparr>, km_provenance = []\<rparr>"
  have init: "km_init (rb_slot_values ?b) (rb_allow_parallel ?b) = Inr ?empty"
    using ok by (simp add: km_init_def rm_init_def km_ok_def rm_ok_def)
  have copy: "copy_files m ?empty (map int ks) = Inr (restricted m ks)"
    using copy_files_spec [OF ok kept_slots_range, of ?empty] by (simp add: restricted_def ks_def)
  have good: "km_ok (restricted m ks)"
    unfolding ks_def by (rule restricted_ok [OF ok kept_slots_sorted kept_slots_range kept_slots_closed])
  then have valid: "validate_all_provenance (restricted m ks) = Inr ()"
    using validate_all_iff by (simp add: km_ok_def)
  have len: "length ks \<le> length (km_programs m)" unfolding ks_def kept_slots_def using length_filter_le [of _ "[0..<length (km_programs m)]"] by simp
  obtain k where "k \<in> set requested" using requested(1) by (cases requested) auto
  then have "nat k \<in> must_keep m requested" using requested(3) by (auto simp: must_keep_def in_range_def)
  then have "nat k \<in> set ks" unfolding ks_def set_kept_slots by (blast intro: closure_self)
  then have pos: "0 < length ks" "0 < length (km_programs m)" using len by (cases ks; auto)+
  have distinct: "distinct (map int ks)" by (simp add: ks_def kept_slots_def distinct_map)
  have receipt: "kr_validate \<lparr>kr_accepted = a, kr_requested = requested, kr_retained = map int ks,
      kr_source_files = km_file_count m, kr_candidate_files = km_file_count (restricted m ks), kr_reason = t,
      kr_schema = RECIPE_COMPOSITION_COMPACTION_SCHEMA\<rparr> = Inr \<lparr>kr_accepted = a, kr_requested = requested,
      kr_retained = map int ks, kr_source_files = km_file_count m,
      kr_candidate_files = km_file_count (restricted m ks), kr_reason = t,
      kr_schema = RECIPE_COMPOSITION_COMPACTION_SCHEMA\<rparr>" for a t
    using requested(1,2) distinct len pos by (simp add: kr_validate_def km_count)
  have guards: "\<not> (requested = [] \<or> \<not> distinct requested)"
      "\<not> (\<exists>slot\<in>set requested. \<not> (0 \<le> slot \<and> slot < km_file_count m))"
    using requested by (auto simp: in_range_def km_count)
  have slots: "filter (\<lambda>slot. slot \<in> \<Union> (slot_closure m ` ?R)) (upto_int (km_file_count m)) = map int ks"
    using R(2) by (simp add: ks_def)
  show ?thesis
    unfolding compact_verified_def Let_def if_not_P [OF guards(1)] if_not_P [OF guards(2)] retain bind_r_Inr slots init copy
      valid receipt
    by (simp add: receipt)
qed

lemma compact_refuses:
  assumes "requested = [] \<or> \<not> distinct requested \<or> (\<exists>k\<in>set requested. \<not> in_range k (length (km_programs m)))"
  shows "compact_verified m ord requested verifier = Inl ValueError"
  using assms by (auto simp: compact_verified_def Let_def in_range_def km_count)

section \<open>Candidates\<close>

definition composite :: "composition_memory \<Rightarrow> string \<Rightarrow> nat \<Rightarrow> nat \<Rightarrow> recipe_program" where
  "composite m mode l r =
     \<lparr>rp_slot_values = rb_slot_values (rm_basis (km_files m)),
      rp_instructions = joined mode (rp_instructions (km_programs m ! l)) (rp_instructions (km_programs m ! r)),
      rp_allow_parallel = rb_allow_parallel (rm_basis (km_files m)), rp_schema = RECIPE_PROGRAM_SCHEMA\<rparr>"

lemma km_fits: "km_ok m \<Longrightarrow> k < length (km_programs m) \<Longrightarrow> fits (km_files m) (km_programs m ! k)"
  by (simp add: km_ok_def rm_ok_def km_programs_def)

lemma joined_set [simp]: "set (joined mode xs ys) = set xs \<union> set ys"
  by (auto simp: joined_def)

lemma joined_Nil [simp]: "joined mode xs ys = [] \<longleftrightarrow> xs = [] \<and> ys = []"
  by (auto simp: joined_def)

lemma composite_fits:
  assumes "km_ok m" and "l < length (km_programs m)" and "r < length (km_programs m)"
  shows "fits (km_files m) (composite m mode l r)"
  using km_fits [OF assms(1,2)] km_fits [OF assms(1,3)] by (auto simp: fits_def recipe_ok_def composite_def)

lemma expected_composite:
  assumes "km_ok m" and "l < length (km_programs m)" and "r < length (km_programs m)"
  shows "expected_program m mode (km_programs m ! l) (km_programs m ! r) = Inr (composite m mode l r)"
  using composite_fits [OF assms, of mode]
  by (simp add: expected_program_def rp_init_Inr fits_def composite_def)

lemma prepend_is_append: "mode \<noteq> ''append'' \<Longrightarrow> composite m mode l r = composite m ''append'' r l"
  by (simp add: composite_def joined_def)

definition shape_of :: "composition_memory \<Rightarrow> nat \<Rightarrow> nat \<Rightarrow> composition_structure" where
  "shape_of m l r =
     \<lparr>ks_left_depth = depth_of m l, ks_right_depth = depth_of m r,
      ks_left_composite = (km_provenance m ! l \<noteq> None), ks_right_composite = (km_provenance m ! r \<noteq> None),
      ks_schema = RECIPE_COMPOSITION_STRUCTURE_SCHEMA\<rparr>"

lemma structure_shape:
  assumes "km_ok m" and "l < length (km_programs m)" and "r < length (km_programs m)"
  shows "composition_structure_of m (int l) (int r) = Inr (shape_of m l r)" "ks_validate (shape_of m l r) = Inr (shape_of m l r)"
  using depth_of_total [OF assms(1,2)] depth_of_total [OF assms(1,3)] assms(2,3)
  by (simp_all add: composition_structure_of_def km_count km_source_nth ks_validate_Inr shape_of_def)

definition pair_candidate :: "composition_memory \<Rightarrow> string \<Rightarrow> nat \<Rightarrow> nat \<Rightarrow> composition_candidate" where
  "pair_candidate m mode l r =
     \<lparr>kc_left_slot = int l, kc_right_slot = int r,
      kc_factors = \<lparr>kf_left = km_digests m ! l, kf_right = km_digests m ! r, kf_mode = mode,
        kf_schema = RECIPE_COMPOSITION_FACTORS_SCHEMA\<rparr>,
      kc_program = composite m mode l r, kc_structure = Some (shape_of m l r),
      kc_schema = RECIPE_COMPOSITION_CANDIDATE_SCHEMA\<rparr>"

text \<open>A pair of slots that a mode can join within the length bound.\<close>

definition joinable :: "composition_memory \<Rightarrow> int \<Rightarrow> nat \<Rightarrow> nat \<Rightarrow> bool" where
  "joinable m max_length l r \<longleftrightarrow> l < length (km_programs m) \<and> r < length (km_programs m) \<and> l \<noteq> r
     \<and> rp_length (km_programs m ! l) + rp_length (km_programs m ! r) \<le> max_length"

lemma joined_length:
  "int (length (joined mode (rp_instructions p) (rp_instructions q))) = rp_length p + rp_length q"
  by (simp add: joined_def rp_length_def)

lemma kf_digest_ok: "km_ok m \<Longrightarrow> k < length (km_programs m) \<Longrightarrow> digest_ok (km_digests m ! k)"
  by (simp add: km_digests_def rp_digest_def)

lemma pair_composition_eq:
  assumes "km_ok m" and "l < length (km_programs m)" and "r < length (km_programs m)" and "l \<noteq> r"
    and "mode \<in> set RECIPE_COMPOSITION_MODES"
  shows "pair_composition m max_length known (mode, int l, int r) =
    (if \<not> joinable m max_length l r \<or> rp_digest (composite m mode l r) \<in> set known then Inr None
     else if km_digests m ! l = km_digests m ! r then Inl ValueError
     else Inr (Some (pair_candidate m mode l r)))"
proof -
  have dg: "km_digests m ! l = rp_digest (km_programs m ! l)" "km_digests m ! r = rp_digest (km_programs m ! r)"
    using assms(2,3) by (simp_all add: km_digests_def)
  let ?c = "pair_candidate m mode l r"
  have valid: "kc_validate ?c = (if km_digests m ! l = km_digests m ! r then Inl ValueError else Inr ?c)"
    using assms(4,5) structure_shape(2) [OF assms(1,2,3)] kf_digest_ok [OF assms(1,2)] kf_digest_ok [OF assms(1,3)]
    by (simp add: pair_candidate_def kc_validate_def kf_validate_def validate_digest_Inr [THEN iffD2])
  show ?thesis
    using assms(2-4) valid unfolding pair_candidate_def dg
    by (simp add: pair_composition_def km_program_nth [OF assms(2)] km_program_nth [OF assms(3)] joined_length joinable_def
        expected_composite [OF assms(1-3)] structure_shape(1) [OF assms(1-3)])
qed

lemma pair_candidate_valid:
  assumes "km_ok m" and "l < length (km_programs m)" and "r < length (km_programs m)" and "l \<noteq> r"
    and "mode \<in> set RECIPE_COMPOSITION_MODES" and "km_digests m ! l \<noteq> km_digests m ! r"
  shows "validate_source_candidate m (pair_candidate m mode l r) = Inr ()"
proof -
  have dg: "rp_digest (km_programs m ! l) = km_digests m ! l" "rp_digest (km_programs m ! r) = km_digests m ! r"
    using assms(2,3) by (simp_all add: km_digests_def)
  have "kc_validate (pair_candidate m mode l r) = Inr (pair_candidate m mode l r)"
    using assms structure_shape(2) [OF assms(1,2,3)] kf_digest_ok [OF assms(1)]
    by (auto simp: pair_candidate_def kc_validate_Inr kf_validate_Inr)
  then show ?thesis
    using assms(2,3) by (simp add: validate_source_candidate_def pair_candidate_def km_count km_program_nth dg
        structure_shape(1) [OF assms(1-3)] expected_composite [OF assms(1-3)])
qed

definition coordinate_ok :: "composition_memory \<Rightarrow> string \<times> int \<times> int \<Rightarrow> bool" where
  "coordinate_ok m x \<longleftrightarrow> (\<exists>mode l r. x = (mode, int l, int r) \<and> mode \<in> set RECIPE_COMPOSITION_MODES
     \<and> l < length (km_programs m) \<and> r < length (km_programs m) \<and> l \<noteq> r)"

definition is_pair :: "composition_memory \<Rightarrow> int \<Rightarrow> (string \<times> int \<times> int) list \<Rightarrow> composition_candidate \<Rightarrow> bool" where
  "is_pair m max_length xs c \<longleftrightarrow> (\<exists>mode l r. (mode, int l, int r) \<in> set xs \<and> joinable m max_length l r
     \<and> c = pair_candidate m mode l r)"

lemma collect_spec:
  assumes "km_ok m" and "distinct (km_digests m)"
  shows "\<forall>x\<in>set xs. coordinate_ok m x \<Longrightarrow> \<exists>cs. collect_compositions m max_length known xs = Inr cs
    \<and> (\<forall>c\<in>set cs. is_pair m max_length xs c \<and> rp_digest (kc_program c) \<notin> set known)
    \<and> distinct (map (\<lambda>c. rp_digest (kc_program c)) cs)
    \<and> (\<forall>mode l r. (mode, int l, int r) \<in> set xs \<longrightarrow> joinable m max_length l r \<longrightarrow>
         rp_digest (composite m mode l r) \<in> set known \<union> set (map (\<lambda>c. rp_digest (kc_program c)) cs))"
proof (induction xs arbitrary: known)
  case Nil
  then show ?case by simp
next
  case (Cons x xs)
  obtain mode l r where x: "x = (mode, int l, int r)" "mode \<in> set RECIPE_COMPOSITION_MODES"
      "l < length (km_programs m)" "r < length (km_programs m)" "l \<noteq> r"
    using Cons.prems by (auto simp: coordinate_ok_def)
  have differ: "km_digests m ! l \<noteq> km_digests m ! r" using assms(2) x by (simp add: nth_eq_iff_index_eq)
  note step = pair_composition_eq [OF assms(1) x(3,4,5,2), of max_length known]
  have weaken: "is_pair m max_length xs c \<Longrightarrow> is_pair m max_length (x # xs) c" for c by (auto simp: is_pair_def)
  show ?case
  proof (cases "\<not> joinable m max_length l r \<or> rp_digest (composite m mode l r) \<in> set known")
    case True
    then have run: "collect_compositions m max_length known (x # xs) = collect_compositions m max_length known xs"
      using step by (simp add: x(1))
    show ?thesis
      unfolding run using Cons.IH [of known] Cons.prems weaken True
      by (fastforce simp: x(1))
  next
    case False
    let ?c = "pair_candidate m mode l r"
    let ?d = "rp_digest (composite m mode l r)"
    have c: "kc_program ?c = composite m mode l r" by (simp add: pair_candidate_def)
    obtain cs where cs: "collect_compositions m max_length (?d # known) xs = Inr cs"
        "\<forall>c\<in>set cs. is_pair m max_length xs c \<and> rp_digest (kc_program c) \<notin> set (?d # known)"
        "distinct (map (\<lambda>c. rp_digest (kc_program c)) cs)"
        "\<forall>mode l r. (mode, int l, int r) \<in> set xs \<longrightarrow> joinable m max_length l r \<longrightarrow>
           rp_digest (composite m mode l r) \<in> set (?d # known) \<union> set (map (\<lambda>c. rp_digest (kc_program c)) cs)"
      using Cons.IH [of "?d # known"] Cons.prems by auto
    have run: "collect_compositions m max_length known (x # xs) = Inr (?c # cs)"
      using step False differ cs(1) c by (simp add: x(1))
    have "is_pair m max_length (x # xs) ?c" using False x by (auto simp: is_pair_def)
    moreover have "?d \<notin> set (map (\<lambda>c. rp_digest (kc_program c)) cs)" using cs(2) by auto
    ultimately show ?thesis
      using cs False weaken unfolding run by (intro exI [of _ "?c # cs"]) (auto simp: c x(1))
  qed
qed

lemma bind_r_assoc: "bind_r (bind_r x f) g = bind_r x (\<lambda>y. bind_r (f y) g)"
  by (cases x) simp_all

lemma collect_append:
  "collect_compositions m max_length known (xs @ ys) =
     bind_r (collect_compositions m max_length known xs) (\<lambda>cs.
     bind_r (collect_compositions m max_length (rev (map (\<lambda>c. rp_digest (kc_program c)) cs) @ known) ys) (\<lambda>ds. Inr (cs @ ds)))"
proof (induction xs arbitrary: known)
  case Nil
  show ?case by (cases "collect_compositions m max_length known ys") simp_all
next
  case (Cons x xs)
  show ?case
  proof (cases "pair_composition m max_length known x")
    case (Inr found)
    then show ?thesis by (cases found) (simp_all add: Cons.IH bind_r_assoc)
  qed simp
qed

definition slot_pairs :: "int \<Rightarrow> (int \<times> int) list" where
  "slot_pairs n = concat (map (\<lambda>l. map (\<lambda>r. (l, r)) (filter (\<lambda>r. r \<noteq> l) (upto_int n))) (upto_int n))"

lemma coordinates_split: "composition_coordinates n = map (Pair ''append'') (slot_pairs n) @ map (Pair ''prepend'') (slot_pairs n)"
  by (simp add: composition_coordinates_def slot_pairs_def RECIPE_COMPOSITION_MODES_def map_concat comp_def)

lemma slot_pairs_iff: "(l, r) \<in> set (slot_pairs n) \<longleftrightarrow> 0 \<le> l \<and> l < n \<and> 0 \<le> r \<and> r < n \<and> l \<noteq> r"
  by (auto simp: slot_pairs_def)

lemma coordinates_ok:
  "mode \<in> set RECIPE_COMPOSITION_MODES \<Longrightarrow> \<forall>x\<in>set (map (Pair mode) (slot_pairs (km_file_count m))). coordinate_ok m x"
  by (auto simp: slot_pairs_iff coordinate_ok_def km_count intro!: exI [of _ "nat _"])

lemma collect_nothing:
  assumes "\<forall>x\<in>set xs. pair_composition m max_length known x = Inr None"
  shows "collect_compositions m max_length known xs = Inr []"
  using assms by (induction xs) simp_all

text \<open>Every composition is found in append order, so the prepend mode never adds one.\<close>

lemma candidates_spec:
  assumes ok: "km_ok m" and dist: "distinct (km_digests m)" and len: "1 \<le> max_length"
  shows "\<exists>cs. composition_candidates m max_length = Inr cs \<and> distinct (map (\<lambda>c. rp_digest (kc_program c)) cs)
    \<and> (\<forall>c\<in>set cs. validate_source_candidate m c = Inr () \<and> rp_digest (kc_program c) \<notin> set (km_digests m)
        \<and> (\<exists>l r. joinable m max_length l r \<and> c = pair_candidate m ''append'' l r))
    \<and> (\<forall>l r mode. joinable m max_length l r \<longrightarrow> rp_digest (composite m mode l r)
        \<in> set (km_digests m) \<union> set (map (\<lambda>c. rp_digest (kc_program c)) cs))"
proof -
  let ?ps = "slot_pairs (km_file_count m)" and ?known = "map rp_digest (rm_programs (km_files m))"
  let ?n = "length (km_programs m)"
  have modes: "''append'' \<in> set RECIPE_COMPOSITION_MODES" "''prepend'' \<in> set RECIPE_COMPOSITION_MODES"
    by (simp_all add: RECIPE_COMPOSITION_MODES_def)
  have known: "set ?known = set (km_digests m)" by (simp add: km_digests_def km_programs_def)
  have pair: "(mode, int l, int r) \<in> set (map (Pair mode) ?ps) \<longleftrightarrow> l < ?n \<and> r < ?n \<and> l \<noteq> r" for mode l r
    by (auto simp: slot_pairs_iff km_count)
  obtain cs where cs: "collect_compositions m max_length ?known (map (Pair ''append'') ?ps) = Inr cs"
      "\<forall>c\<in>set cs. is_pair m max_length (map (Pair ''append'') ?ps) c \<and> rp_digest (kc_program c) \<notin> set ?known"
      "distinct (map (\<lambda>c. rp_digest (kc_program c)) cs)"
      "\<forall>mode l r. (mode, int l, int r) \<in> set (map (Pair ''append'') ?ps) \<longrightarrow> joinable m max_length l r \<longrightarrow>
         rp_digest (composite m mode l r) \<in> set ?known \<union> set (map (\<lambda>c. rp_digest (kc_program c)) cs)"
    using collect_spec [OF ok dist coordinates_ok [OF modes(1)]] by blast
  let ?found = "set ?known \<union> set (map (\<lambda>c. rp_digest (kc_program c)) cs)"
  have complete: "rp_digest (composite m ''append'' l r) \<in> ?found" if "joinable m max_length l r" for l r
    using cs(4) that pair [of "''append''" l r] by (simp add: joinable_def)
  have all_modes: "rp_digest (composite m mode l r) \<in> ?found" if "joinable m max_length l r" for mode l r
  proof (cases "mode = ''append''")
    case False
    have "joinable m max_length r l" using that by (auto simp: joinable_def)
    then show ?thesis using complete prepend_is_append [OF False] by simp
  qed (use complete that in simp)
  have "collect_compositions m max_length (rev (map (\<lambda>c. rp_digest (kc_program c)) cs) @ ?known)
      (map (Pair ''prepend'') ?ps) = Inr []"
  proof (rule collect_nothing, rule ballI)
    fix x assume x: "x \<in> set (map (Pair ''prepend'') ?ps)"
    then obtain l r where lr: "x = (''prepend'', int l, int r)" "l < ?n" "r < ?n" "l \<noteq> r"
      using coordinates_ok [OF modes(2), of m] by (auto simp: coordinate_ok_def)
    have "rp_digest (composite m ''prepend'' l r) \<in> set (rev (map (\<lambda>c. rp_digest (kc_program c)) cs) @ ?known)"
      if "joinable m max_length l r" using all_modes [OF that, of "''prepend''"] by auto
    then show "pair_composition m max_length (rev (map (\<lambda>c. rp_digest (kc_program c)) cs) @ ?known) x = Inr None"
      using pair_composition_eq [OF ok lr(2,3,4) modes(2)] by (simp add: lr(1))
  qed
  then have run: "composition_candidates m max_length = Inr cs"
    using len cs(1) by (simp add: composition_candidates_def coordinates_split collect_append)
  have "validate_source_candidate m c = Inr () \<and> rp_digest (kc_program c) \<notin> set (km_digests m)
      \<and> (\<exists>l r. joinable m max_length l r \<and> c = pair_candidate m ''append'' l r)" if c: "c \<in> set cs" for c
  proof -
    obtain l r where lr: "joinable m max_length l r" "c = pair_candidate m ''append'' l r"
      using cs(2) c by (auto simp: is_pair_def)
    then have "km_digests m ! l \<noteq> km_digests m ! r"
      using dist by (simp add: joinable_def nth_eq_iff_index_eq)
    then have "validate_source_candidate m c = Inr ()"
      using lr pair_candidate_valid [OF ok _ _ _ modes(1)] by (simp add: joinable_def)
    then show ?thesis using lr cs(2) c known by blast
  qed
  then show ?thesis using run cs(3) all_modes known by (intro exI [of _ cs]) auto
qed

text \<open>Two equal files in the bank make the enumeration raise.\<close>

lemma twin_files_refused:
  assumes "km_ok m" and "km_programs m = [p, p]" and "2 * rp_length p \<le> max_length"
    and "rp_digest (composite m ''append'' 0 1) \<noteq> rp_digest p"
  shows "composition_candidates m max_length = Inl ValueError"
proof -
  have n: "length (km_programs m) = 2" "km_file_count m = 2" using assms(2) by (simp_all add: km_count)
  have "0 < rp_length p"
    using km_fits [OF assms(1), of 0] assms(2) by (simp add: fits_def recipe_ok_def rp_length_def)
  then have "1 \<le> max_length" using assms(3) by simp
  have j: "joinable m max_length 0 1" using assms(2,3) by (simp add: joinable_def)
  have known: "rp_digest (composite m ''append'' 0 1) \<notin> set (map rp_digest (rm_programs (km_files m)))"
    using assms(2,4) by (simp add: km_programs_def)
  have same: "km_digests m ! 0 = km_digests m ! 1" using assms(2) by (simp add: km_digests_def)
  have "pair_composition m max_length (map rp_digest (rm_programs (km_files m))) (''append'', int 0, int 1) = Inl ValueError"
    using pair_composition_eq [OF assms(1), of 0 1 "''append''"] j known same n
    by (simp add: RECIPE_COMPOSITION_MODES_def)
  moreover obtain rest where "composition_coordinates 2 = (''append'', 0, 1) # rest"
    by (simp add: composition_coordinates_def RECIPE_COMPOSITION_MODES_def upto_int_def numeral_2_eq_2)
  ultimately have "collect_compositions m max_length (map rp_digest (rm_programs (km_files m)))
      (composition_coordinates 2) = Inl ValueError"
    by simp
  then show ?thesis using \<open>1 \<le> max_length\<close> n(2) unfolding composition_candidates_def n(2) by simp
qed

end
