(* ===== verification/RecipeCompositionMemory.thy ===== *)
theory RecipeCompositionMemory
  imports RecipeProvenance
begin

text \<open>
  What the operations of the composition memory keep and what its files do: verified admission of a
  composition never fails once something is stored, the memory is an append-only store in the sense of
  \<open>program_store\<close>, a composed file executes as its sources one after the other, and the payload reads
  back.  The code identifies a file by its digest: \<open>files_distinct\<close> says that SHA-256 tells apart the
  stored files, \<open>no_collisions\<close> that it also tells apart their pairwise concatenations.
\<close>

section \<open>Execution of a composition\<close>

lemma apply_sequence_append:
  "apply_sequence (xs @ ys) s spec = bind_r (apply_sequence xs s spec) (\<lambda>t. apply_sequence ys t spec)"
  by (induction xs arbitrary: s) (simp_all add: bind_r_assoc)

definition in_order :: "string \<Rightarrow> ('a \<Rightarrow> 'a result) \<Rightarrow> ('a \<Rightarrow> 'a result) \<Rightarrow> 'a \<Rightarrow> 'a result" where
  "in_order mode f g s = (if mode = ''append'' then bind_r (f s) g else bind_r (g s) f)"

lemma composite_executes:
  assumes "km_ok m" and "l < length (km_programs m)" and "r < length (km_programs m)"
  shows "rp_execute (composite m mode l r) s
    = in_order mode (km_execute m (int l)) (km_execute m (int r)) s"
proof -
  have "rp_slot_values (km_programs m ! l) = rb_slot_values (rm_basis (km_files m))"
      "rp_slot_values (km_programs m ! r) = rb_slot_values (rm_basis (km_files m))"
    using km_fits [OF assms(1)] assms(2,3) by (simp_all add: fits_def)
  moreover have "km_execute m (int l) = rp_execute (km_programs m ! l)" "km_execute m (int r) = rp_execute (km_programs m ! r)"
    using km_program_nth assms(2,3) by (simp_all add: fun_eq_iff km_execute_def rm_execute_def flip: km_program_def)
  moreover have "rp_execute q = (\<lambda>s. apply_sequence (rp_instructions q) s (PerSlot (rp_slot_values q)))" for q
    by (simp add: fun_eq_iff rp_execute_def)
  ultimately show ?thesis
    by (simp add: in_order_def composite_def joined_def apply_sequence_append)
qed

definition files_distinct :: "composition_memory \<Rightarrow> bool" where
  "files_distinct m \<longleftrightarrow> inj_on rp_digest (set (km_programs m))"

definition no_collisions :: "composition_memory \<Rightarrow> bool" where
  "no_collisions m \<longleftrightarrow> inj_on rp_digest (set (km_programs m)
     \<union> {composite m mode l r | mode l r. l < length (km_programs m) \<and> r < length (km_programs m) \<and> l \<noteq> r})"

lemma same_stored:
  assumes "files_distinct m" and "i < length (km_programs m)" and "j < length (km_programs m)"
    and "km_digests m ! i = km_digests m ! j"
  shows "km_programs m ! i = km_programs m ! j"
  using assms(1,4) assms(2,3) unfolding files_distinct_def km_digests_def
  by (auto dest!: inj_onD [of _ _ "km_programs m ! i" "km_programs m ! j"])

lemma same_composite:
  assumes "no_collisions m" and "k < length (km_programs m)" and "l < length (km_programs m)" and "r < length (km_programs m)"
    and "l \<noteq> r" and "rp_digest (composite m mode l r) = km_digests m ! k"
  shows "km_programs m ! k = composite m mode l r"
proof -
  have "km_programs m ! k \<in> set (km_programs m)" using assms(2) by simp
  moreover have "rp_digest (km_programs m ! k) = rp_digest (composite m mode l r)"
    using assms(2,6) by (simp add: km_digests_def)
  ultimately show ?thesis
    using assms(1,3-5) unfolding no_collisions_def by (blast dest: inj_onD)
qed

lemma stored_executes:
  assumes "km_ok m" and "no_collisions m" and "k < length (km_programs m)" and "km_provenance m ! k = Some f"
    and "source_slots m k f l r"
  shows "km_execute m (int k) s = in_order (kf_mode f) (km_execute m (int l)) (km_execute m (int r)) s"
proof -
  obtain l' r' e where *: "source_slots m k f l' r'"
      "expected_program m (kf_mode f) (km_programs m ! l') (km_programs m ! r') = Inr e" "rp_digest e = km_digests m ! k"
    using km_ok_prov [OF assms(1,3,4)] by blast
  have lr: "l' = l" "r' = r" using source_slots_unique [OF assms(5) *(1)] by auto
  have n: "l < length (km_programs m)" "r < length (km_programs m)" using assms(3,5) by (auto simp: source_slots_def)
  have "e = composite m (kf_mode f) l r" using *(2) expected_composite [OF assms(1) n] by (simp add: lr)
  moreover have "l \<noteq> r" using assms(5) prov_ok_in [OF assms(1,3,4)]
    by (auto simp: prov_ok_def source_slots_def first_at_def kf_validate_Inr)
  ultimately have "km_programs m ! k = composite m (kf_mode f) l r" using same_composite [OF assms(2,3) n] *(3) by simp
  moreover have "km_execute m (int k) s = rp_execute (km_programs m ! k) s"
    using km_program_nth [OF assms(3)] by (simp add: km_execute_def rm_execute_def flip: km_program_def)
  ultimately show ?thesis using composite_executes [OF assms(1) n] by simp
qed

section \<open>Growing the memory\<close>

definition grown :: "composition_memory \<Rightarrow> recipe_program \<Rightarrow> bool \<Rightarrow> composition_factors option \<Rightarrow> composition_memory" where
  "grown m p b source = \<lparr>km_files = with_recipe (km_files m) p b, km_provenance = km_provenance m @ [source]\<rparr>"

lemma grown_simps [simp]:
  "km_programs (grown m p b s) = km_programs m @ [p]"
  "km_provenance (grown m p b s) = km_provenance m @ [s]"
  "km_files (grown m p b s) = with_recipe (km_files m) p b"
  "km_digests (grown m p b s) = km_digests m @ [rp_digest p]"
  by (simp_all add: grown_def km_programs_def km_digests_def)

lemma source_slots_grown: "source_slots m k f l r \<Longrightarrow> source_slots (grown m p b s) k f l r"
  by (auto simp: source_slots_def intro: first_at_append)

lemma prov_ok_grown:
  assumes "prov_ok m k f" and "k < length (km_programs m)"
  shows "prov_ok (grown m p b s) k f"
proof -
  obtain l r e where *: "source_slots m k f l r" "expected_program m (kf_mode f) (km_programs m ! l) (km_programs m ! r) = Inr e"
      "rp_digest e = km_digests m ! k" "kf_validate f = Inr f"
    using assms(1) by (auto simp: prov_ok_def)
  then have "expected_program (grown m p b s) (kf_mode f) (km_programs (grown m p b s) ! l) (km_programs (grown m p b s) ! r) = Inr e"
      "rp_digest e = km_digests (grown m p b s) ! k"
    using assms(2) by (auto simp: source_slots_def expected_program_def nth_append)
  then show ?thesis using *(1,4) source_slots_grown unfolding prov_ok_def by blast
qed

lemma grown_ok:
  assumes "km_ok m" and "fits (km_files m) p" and "\<And>f. s = Some f \<Longrightarrow> prov_ok (grown m p b s) (length (km_programs m)) f"
  shows "km_ok (grown m p b s)"
proof -
  have len: "length (km_provenance m) = length (km_programs m)" using assms(1) by (simp add: km_ok_def)
  have "prov_ok (grown m p b s) k f" if "k < Suc (length (km_programs m))" "(km_provenance m @ [s]) ! k = Some f" for k f
    using that assms(3) prov_ok_grown prov_ok_in [OF assms(1)] len by (cases "k = length (km_programs m)") (auto simp: nth_append)
  then show ?thesis using with_recipe_ok assms(1,2) len by (simp add: km_ok_def)
qed

lemma candidate_checked:
  assumes ok: "km_ok m" and coll: "files_distinct m" and c: "validate_source_candidate m c = Inr ()"
  shows "kc_validate c = Inr c" and "\<And>b. prov_ok (grown m (kc_program c) b (Some (kc_factors c))) (length (km_programs m)) (kc_factors c)"
proof -
  let ?n = "length (km_programs m)" and ?f = "kc_factors c"
  have valid: "kc_validate c = Inr c" and bounds: "kc_left_slot c < int ?n" "kc_right_slot c < int ?n"
    using c by (auto simp: validate_source_candidate_def bind_r_eq_Inr kc_validate_Inr km_count split: if_splits)
  show "kc_validate c = Inr c" by (rule valid)
  obtain i j where ij: "kc_left_slot c = int i" "kc_right_slot c = int j" "i < ?n" "j < ?n"
    using valid bounds by (metis kc_validate_Inr nonneg_int_cases of_nat_less_iff)
  have checks: "rp_digest (km_programs m ! i) = kf_left ?f" "rp_digest (km_programs m ! j) = kf_right ?f"
      "rp_digest (composite m (kf_mode ?f) i j) = rp_digest (kc_program c)"
    using c ij by (auto simp: validate_source_candidate_def bind_r_eq_Inr valid km_program_nth
        expected_composite [OF ok ij(3,4)] split: if_splits)
  obtain l where l: "first_at (km_digests m) (kf_left ?f) l"
    using first_at_ex [of "kf_left ?f" "km_digests m"] nth_mem [of i "km_digests m"] ij(3) checks(1) by (auto simp: km_digests_def)
  obtain r where r: "first_at (km_digests m) (kf_right ?f) r"
    using first_at_ex [of "kf_right ?f" "km_digests m"] nth_mem [of j "km_digests m"] ij(4) checks(2) by (auto simp: km_digests_def)
  have n: "l < ?n" "r < ?n" "km_digests m ! l = km_digests m ! i" "km_digests m ! r = km_digests m ! j"
    using l r checks(1,2) ij by (auto simp: first_at_def km_digests_def)
  have "km_programs m ! l = km_programs m ! i" "km_programs m ! r = km_programs m ! j"
    using same_stored [OF coll] n ij by blast+
  then have same: "composite m (kf_mode ?f) l r = composite m (kf_mode ?f) i j" by (simp add: composite_def)
  fix b
  let ?m = "grown m (kc_program c) b (Some ?f)"
  have "source_slots ?m ?n ?f l r" using l r n by (auto simp: source_slots_def intro: first_at_append)
  moreover have "expected_program ?m (kf_mode ?f) (km_programs ?m ! l) (km_programs ?m ! r) = Inr (composite m (kf_mode ?f) l r)"
    using expected_composite [OF ok n(1,2), of "kf_mode ?f"] n by (simp add: expected_program_def nth_append)
  moreover have "rp_digest (composite m (kf_mode ?f) l r) = km_digests ?m ! ?n"
    using checks(3) by (simp add: same nth_append)
  moreover have "kf_validate ?f = Inr ?f" using valid by (simp add: kc_validate_Inr)
  ultimately show "prov_ok ?m ?n ?f" unfolding prov_ok_def by blast
qed

text \<open>Both admissions, once the candidate is checked: what the files of the memory answer decides.\<close>

lemma admit_composition_eq:
  assumes ok: "km_ok m" and coll: "files_distinct m" and c: "validate_source_candidate m c = Inr ()"
    and p: "recipe_ok (kc_program c)"
  shows "admit_verified_composition m c outcomes threshold mo ms protect =
    (case rm_admit_verified (km_files m) (kc_program c) outcomes threshold mo ms protect of
       Inl e \<Rightarrow> Inl e
     | Inr (files, r) \<Rightarrow>
         Inr (if rr_accepted r then grown m (kc_program c) protect (Some (kc_factors c)) else m, r))"
proof (cases "rm_admit_verified (km_files m) (kc_program c) outcomes threshold mo ms protect")
  case (Inl e)
  then show ?thesis by (simp add: admit_verified_composition_def c)
next
  case (Inr fr)
  obtain files r where fr: "fr = (files, r)" by fastforce
  have len: "length (rm_protected (km_files m)) = length (rm_programs (km_files m))"
      "length (km_provenance m) = length (km_programs m)"
    using ok by (simp_all add: km_ok_def rm_ok_def)
  have effect: "rm_validate_program (km_files m) (kc_program c) = Inr ()"
      "if rr_accepted r then files = with_recipe (km_files m) (kc_program c) protect \<and> rr_slot r = Some (rm_file_count (km_files m))
       else files = km_files m"
    using rm_admit_Inr [OF Inr [unfolded fr] len(1)] by blast+
  show ?thesis
  proof (cases "rr_accepted r")
    case False
    then show ?thesis using effect Inr by (simp add: admit_verified_composition_def c fr km_commit_def)
  next
    case True
    let ?m = "grown m (kc_program c) protect (Some (kc_factors c))"
    have "fits (km_files m) (kc_program c)" using effect(1) p by (simp add: rm_validate_Inr fits_def)
    then have "km_ok ?m" by (rule grown_ok [OF ok]) (use candidate_checked(2) [OF ok coll c] in auto)
    then have "validate_provenance_slot ?m {} (int (length (km_programs m))) = Inr ()"
      by (rule validate_slot_ok) simp_all
    moreover have "km_commit m files r (Some (kc_factors c)) = Inr (?m, r)"
      using True effect len(2) by (simp add: km_commit_def grown_def rm_file_count_def km_programs_def)
    ultimately show ?thesis using True Inr len(2) by (simp add: admit_verified_composition_def c fr)
  qed
qed

lemma admit_program_eq:
  assumes ok: "km_ok m"
  shows "km_admit_program m p outcomes threshold mo ms protect =
    (case rm_admit_verified (km_files m) p outcomes threshold mo ms protect of
       Inl e \<Rightarrow> Inl e
     | Inr (files, r) \<Rightarrow> Inr (if rr_accepted r then grown m p protect None else m, r))"
proof (cases "rm_admit_verified (km_files m) p outcomes threshold mo ms protect")
  case (Inr fr)
  obtain files r where fr: "fr = (files, r)" by fastforce
  have len: "length (rm_protected (km_files m)) = length (rm_programs (km_files m))"
      "length (km_provenance m) = length (km_programs m)"
    using ok by (simp_all add: km_ok_def rm_ok_def)
  have "if rr_accepted r then files = with_recipe (km_files m) p protect \<and> rr_slot r = Some (rm_file_count (km_files m))
       else files = km_files m"
    using rm_admit_Inr [OF Inr [unfolded fr] len(1)] by blast
  then show ?thesis
    using Inr len(2) by (auto simp: km_admit_program_def fr km_commit_def grown_def rm_file_count_def km_programs_def split: if_splits)
qed (simp add: km_admit_program_def)

lemma add_program_eq:
  "km_add_program m p = Inr (m', k) \<longleftrightarrow> rm_validate_program (km_files m) p = Inr ()
     \<and> m' = grown m p False None \<and> k = km_file_count m"
  by (cases m) (auto simp: km_add_program_def bind_r_eq_Inr rm_add_Inr grown_def km_file_count_def)

section \<open>The memory is append-only\<close>

inductive km_step :: "composition_memory \<Rightarrow> composition_memory \<Rightarrow> bool" where
  step_add: "recipe_ok p \<Longrightarrow> km_add_program m p = Inr (m', k) \<Longrightarrow> km_step m m'"
| step_protect: "km_protect_file m k = Inr m' \<Longrightarrow> km_step m m'"
| step_admit: "recipe_ok p \<Longrightarrow> km_admit_program m p vs t mo ms b = Inr (m', r) \<Longrightarrow> rr_accepted r \<Longrightarrow> km_step m m'"
| step_compose: "files_distinct m \<Longrightarrow> recipe_ok (kc_program c) \<Longrightarrow>
    admit_verified_composition m c vs t mo ms b = Inr (m', r) \<Longrightarrow> rr_accepted r \<Longrightarrow> km_step m m'"

lemma km_step_cases:
  assumes "km_step m m'" and ok: "km_ok m"
  shows "(\<exists>p b s. m' = grown m p b s \<and> km_ok m')
    \<or> (\<exists>k. m' = m\<lparr>km_files := (km_files m)\<lparr>rm_protected := (rm_protected (km_files m))[k := True]\<rparr>\<rparr> \<and> km_ok m')"
  using assms(1)
proof cases
  case (step_add p k)
  then have "fits (km_files m) p" by (simp add: add_program_eq rm_validate_Inr fits_def)
  then show ?thesis using step_add grown_ok [OF ok] by (auto simp: add_program_eq)
next
  case (step_protect k)
  then show ?thesis
    using ok by (auto simp: km_protect_file_def bind_r_eq_Inr rm_protect_Inr km_ok_def rm_ok_def fits_def km_programs_def
        prov_ok_def source_slots_def km_digests_def expected_program_def)
next
  case (step_admit p vs t mo ms b r)
  obtain files where files: "rm_admit_verified (km_files m) p vs t mo ms b = Inr (files, r)"
      "m' = grown m p b None"
    using step_admit(2,3) admit_program_eq [OF ok] by (auto split: sum.splits prod.splits if_splits)
  have "fits (km_files m) p"
    using rm_admit_Inr [OF files(1)] ok step_admit(1) by (simp add: km_ok_def rm_ok_def rm_validate_Inr fits_def)
  then show ?thesis using files(2) grown_ok [OF ok] by blast
next
  case (step_compose c vs t mo ms b r)
  have c: "validate_source_candidate m c = Inr ()"
    using step_compose(3) by (auto simp: admit_verified_composition_def bind_r_eq_Inr)
  obtain files where files: "rm_admit_verified (km_files m) (kc_program c) vs t mo ms b = Inr (files, r)"
      "m' = grown m (kc_program c) b (Some (kc_factors c))"
    using step_compose(3,4) admit_composition_eq [OF ok step_compose(1) c step_compose(2)]
    by (auto split: sum.splits prod.splits if_splits)
  have "fits (km_files m) (kc_program c)"
    using rm_admit_Inr [OF files(1)] ok step_compose(2) by (simp add: km_ok_def rm_ok_def rm_validate_Inr fits_def)
  then show ?thesis using files(2) grown_ok [OF ok] candidate_checked(2) [OF ok step_compose(1) c] by blast
qed

interpretation composition_store: program_store km_ok km_programs "\<lambda>m. rm_protected (km_files m)" km_program km_step
proof
  fix m m' :: composition_memory and k and p :: recipe_program
  assume ok: "km_ok m"
  show "length (rm_protected (km_files m)) = length (km_programs m)"
    using ok by (simp add: km_ok_def rm_ok_def km_programs_def)
  show "km_program m k = Inr p \<longleftrightarrow> in_range k (length (km_programs m)) \<and> p = km_programs m ! nat k"
    by (simp add: km_program_def rm_program_Inr km_programs_def)
  assume step: "km_step m m'"
  show "km_ok m'" using km_step_cases [OF step ok] by blast
  show "(\<exists>p b. km_programs m' = km_programs m @ [p] \<and> rm_protected (km_files m') = rm_protected (km_files m) @ [b])
      \<or> (\<exists>k. km_programs m' = km_programs m \<and> rm_protected (km_files m') = (rm_protected (km_files m))[k := True])"
    using km_step_cases [OF step ok] by (auto simp: km_programs_def)
qed

lemma provenance_stable:
  assumes "km_step\<^sup>*\<^sup>* m m'" and "km_ok m" and "k < length (km_programs m)"
  shows "km_provenance m' ! k = km_provenance m ! k"
  using assms(1)
proof (induction rule: rtranclp_induct)
  case (step y z)
  have y: "km_ok y" using composition_store.steps_inv [OF step.hyps(1) assms(2)] .
  have "k < length (km_programs y)" using composition_store.count_mono [OF step.hyps(1) assms(2)] assms(3) by simp
  then have "k < length (km_provenance y)" using y by (simp add: km_ok_def)
  then show ?case using km_step_cases [OF step.hyps(2) y] step.IH by (auto simp: nth_append)
qed simp

section \<open>Persistence\<close>

lemma kf_roundtrip:
  assumes "kf_validate f = Inr f"
  shows "\<exists>kvs. kf_payload f = Inr (PDict kvs) \<and> kf_from_payload (PDict kvs) = Inr f"
  using assms by (cases f) (simp add: kf_payload_def Let_def)

lemma provenance_value_simps:
  "provenance_value None = Inr PNone" "provenance_value (Some f) = kf_payload f"
  by (simp_all add: provenance_value_def)

lemma provenance_rows:
  assumes "\<forall>s\<in>set ss. \<forall>f. s = Some f \<longrightarrow> kf_validate f = Inr f \<and> kf_left f \<in> set ds \<and> kf_right f \<in> set ds"
  shows "\<exists>rows. map_r provenance_value ss = Inr rows \<and> length rows = length ss \<and> map_r (load_provenance ds) rows = Inr ss"
  using assms
proof (induction ss)
  case Nil
  then show ?case by simp
next
  case (Cons s ss)
  then obtain rows where rows: "map_r provenance_value ss = Inr rows" "length rows = length ss"
      "map_r (load_provenance ds) rows = Inr ss"
    by auto
  show ?case
  proof (cases s)
    case None
    then show ?thesis using rows by (simp add: provenance_value_simps)
  next
    case (Some f)
    then have f: "kf_validate f = Inr f" "kf_left f \<in> set ds" "kf_right f \<in> set ds" using Cons.prems by auto
    obtain kvs where "kf_payload f = Inr (PDict kvs)" "kf_from_payload (PDict kvs) = Inr f" using kf_roundtrip [OF f(1)] by blast
    then show ?thesis using rows f Some by (simp add: provenance_value_simps del: kf_from_payload.simps)
  qed
qed

lemma km_roundtrip:
  assumes ok: "km_ok m" and canonical: "canonical_memory (km_files m)"
  shows "\<exists>v. km_payload m = Inr v \<and> km_from_payload v = Inr m"
proof -
  have "kf_validate f = Inr f \<and> kf_left f \<in> set (km_digests m) \<and> kf_right f \<in> set (km_digests m)"
    if s: "Some f \<in> set (km_provenance m)" for f
  proof -
    obtain k where k: "k < length (km_programs m)" "km_provenance m ! k = Some f"
      using s ok by (auto simp: in_set_conv_nth km_ok_def)
    obtain l r where "source_slots m k f l r" "kf_validate f = Inr f" using km_ok_prov [OF ok k] by blast
    then show ?thesis by (metis first_at_def nth_mem source_slots_def)
  qed
  then obtain rows where rows: "map_r provenance_value (km_provenance m) = Inr rows" "length rows = length (km_provenance m)"
      "map_r (load_provenance (km_digests m)) rows = Inr (km_provenance m)"
    using provenance_rows [of "km_provenance m" "km_digests m"] by auto
  let ?content = "[(''schema'', PStr RECIPE_COMPOSITION_MEMORY_SCHEMA), (''files'', rm_payload (km_files m)), (''provenance'', PList rows)]"
  have content: "km_content m = Inr ?content" by (simp add: km_content_def rows)
  obtain d where d: "km_digest m = Inr d" by (simp add: km_digest_def content)
  obtain kvs where kvs: "rm_payload (km_files m) = PDict kvs" by (simp add: rm_payload_def)
  have files: "rm_from_payload (PDict kvs) = Inr (km_files m)"
    using rm_roundtrip [OF _ canonical] ok by (simp add: km_ok_def flip: kvs)
  obtain m0 where m0: "km_init (rb_slot_values (rm_basis (km_files m))) (rb_allow_parallel (rm_basis (km_files m))) = Inr m0"
    using ok by (simp add: km_init_def rm_init_def km_ok_def rm_ok_def)
  have m: "m0\<lparr>km_files := km_files m, km_provenance := km_provenance m\<rparr> = m" by (cases m, cases m0) simp
  have valid: "validate_all_provenance m = Inr ()" using validate_all_iff ok by (simp add: km_ok_def)
  have "km_from_payload (PDict (?content @ [(''sha256'', PStr d)])) = Inr m"
    using files m0 rows valid d ok kvs
    by (simp add: m km_count km_programs_def km_digests_def km_ok_def Let_def km_file_count_def rm_file_count_def
        del: rm_from_payload.simps)
  then show ?thesis by (simp add: km_payload_def content d del: km_from_payload.simps)
qed

lemma km_loaded:
  assumes "km_from_payload v = Inr m"
  shows "km_ok m \<and> (\<exists>kvs d. v = PDict kvs \<and> km_digest m = Inr d \<and> dict_get kvs ''sha256'' = PStr d)"
proof -
  obtain kvs where v: "v = PDict kvs" using assms by (cases v) auto
  obtain files raws base m0 sources d where *: "rm_from_payload (PDict files) = Inr base"
      "int (length raws) = km_file_count (m0\<lparr>km_files := base\<rparr>)"
      "map_r (load_provenance (map rp_digest (rm_programs base))) raws = Inr sources"
      "m = m0\<lparr>km_files := base, km_provenance := sources\<rparr>" "validate_all_provenance m = Inr ()" "km_digest m = Inr d"
      "dict_get kvs ''sha256'' = PStr d"
    using assms unfolding v km_from_payload.simps
    by (auto simp: bind_r_eq_Inr Let_def simp del: dict_get.simps rm_from_payload.simps split: if_splits pyval.splits option.splits)
  have "rm_ok base" using rm_from_payload_Inr [OF *(1)] by blast
  moreover have "length sources = length (rm_programs base)"
    using map_r_length [OF *(3)] *(2) by (simp add: km_file_count_def rm_file_count_def)
  ultimately have "km_ok m" using validate_all_iff [of m] *(4,5) by (simp add: km_programs_def)
  then show ?thesis using v *(6,7) by blast
qed

section \<open>Instances\<close>

definition one_recipe :: composition_memory where
  "one_recipe = \<lparr>km_files = twin_bank, km_provenance = [None]\<rparr>"

definition two_recipes :: composition_memory where
  "two_recipes = grown one_recipe twin_inc False None"

lemma one_recipe_ok: "km_ok one_recipe" "km_programs one_recipe = [twin_inc]" "km_provenance one_recipe = [None]"
    "rm_protected (km_files one_recipe) = [True]"
  using twin_bank_ok(1) by (simp_all add: km_ok_def one_recipe_def km_programs_def twin_bank_def empty_bank_def)

lemma two_recipes_ok: "km_ok two_recipes" "km_programs two_recipes = [twin_inc, twin_inc]"
    "km_provenance two_recipes = [None, None]" "rm_protected (km_files two_recipes) = [True, False]"
proof -
  have "fits (km_files one_recipe) twin_inc" using km_fits [OF one_recipe_ok(1), of 0] by (simp add: one_recipe_ok)
  then show "km_ok two_recipes" unfolding two_recipes_def by (rule grown_ok [OF one_recipe_ok(1)]) simp
qed (simp_all add: two_recipes_def one_recipe_ok)

definition unprotected_recipe :: composition_memory where
  "unprotected_recipe = \<lparr>km_files = with_recipe empty_bank twin_inc False, km_provenance = [None]\<rparr>"

lemma unprotected_recipe_ok:
  "km_ok unprotected_recipe" "km_programs unprotected_recipe = [twin_inc]" "km_step unprotected_recipe one_recipe"
proof -
  have "fits empty_bank twin_inc" using twin_inc_ok(1) by (simp add: fits_def twin_inc_def empty_bank_def)
  moreover have "rm_ok empty_bank" using twin_bank_ok(1) by (simp add: rm_ok_def twin_bank_def empty_bank_def)
  ultimately have "rm_ok (with_recipe empty_bank twin_inc False)" using with_recipe_ok by blast
  then show "km_ok unprotected_recipe" by (simp add: km_ok_def unprotected_recipe_def km_programs_def empty_bank_def)
  show "km_programs unprotected_recipe = [twin_inc]" by (simp add: unprotected_recipe_def km_programs_def empty_bank_def)
  show "km_step unprotected_recipe one_recipe"
    by (rule step_protect [of _ 0])
      (simp add: km_protect_file_def rm_protect_file_def rm_file_count_def one_recipe_def unprotected_recipe_def
        twin_bank_def empty_bank_def with_recipe_def)
qed

lemma enumerates_sorted: "enumerates sorted_list_of_set"
  by (simp add: enumerates_def)

lemma two_recipes_kept: "(\<Union>k\<in>must_keep two_recipes [0]. sources_closure two_recipes k) = {0}"
proof -
  have "must_keep two_recipes [0] = {0}"
    by (auto simp: must_keep_def two_recipes_ok less_Suc_eq numeral_2_eq_2)
  then show ?thesis by (simp add: closure_atomic two_recipes_ok)
qed

lemma sorted_singleton: "sorted_wrt (<) ks \<Longrightarrow> set ks = {k} \<Longrightarrow> ks = [k]" for k :: nat
  by (cases ks; cases "tl ks") auto

section \<open>Properties\<close>

text \<open>
  C29. Compaction.  On distinct, existing roots, and in whatever order Python iterates over sets, compaction
  answers: the memory it offers holds, in their old order, exactly the files reachable from the roots and
  the protected files along the recorded sources, with their provenance and their marks; that memory is
  valid again, and it is handed out exactly when the verifier accepts it.  On other roots it raises
  ValueError.
\<close>

theorem compaction_exact:
  assumes "km_ok m" and "enumerates ord"
  shows "if requested \<noteq> [] \<and> distinct requested \<and> (\<forall>k\<in>set requested. in_range k (length (km_programs m)))
    then \<exists>ks receipt. compact_verified m ord requested verifier
          = Inr (if verifier (restricted m ks) then Some (restricted m ks) else None, receipt)
        \<and> sorted_wrt (<) ks \<and> set ks = (\<Union>k\<in>must_keep m requested. sources_closure m k)
        \<and> km_ok (restricted m ks) \<and> kr_validate receipt = Inr receipt
        \<and> kr_accepted receipt = verifier (restricted m ks) \<and> kr_retained receipt = map int ks
    else compact_verified m ord requested verifier = Inl ValueError"
proof (cases "requested \<noteq> [] \<and> distinct requested \<and> (\<forall>k\<in>set requested. in_range k (length (km_programs m)))")
  case True
  have "km_ok (restricted m (kept_slots m requested))"
    by (rule restricted_ok [OF assms(1) kept_slots_sorted kept_slots_range kept_slots_closed])
  then show ?thesis
    unfolding if_P [OF True]
    using compact_total [OF assms, of requested verifier] True kept_slots_sorted [of m requested] set_kept_slots [of m requested]
    by blast
next
  case False
  then show ?thesis using compact_refuses by auto
qed

theorem compaction_exact_witness:
  "\<exists>c r. compact_verified two_recipes sorted_list_of_set [0] (\<lambda>c. True) = Inr (Some c, r)
     \<and> km_programs c = [twin_inc] \<and> kr_retained r = [0]"
proof -
  have "[0::int] \<noteq> [] \<and> distinct [0::int] \<and> (\<forall>k\<in>set [0::int]. in_range k (length (km_programs two_recipes)))"
    by (simp add: two_recipes_ok in_range_def)
  then obtain ks r where r: "compact_verified two_recipes sorted_list_of_set [0] (\<lambda>c. True) = Inr (Some (restricted two_recipes ks), r)"
      "sorted_wrt (<) ks" "set ks = {0}" "kr_retained r = map int ks"
    using compaction_exact [OF two_recipes_ok(1) enumerates_sorted, of "[0]" "\<lambda>c. True"] two_recipes_kept
    by (simp only: if_True if_P) auto
  then have "ks = [0]" using sorted_singleton by blast
  then show ?thesis using r by (simp add: two_recipes_ok)
qed



text \<open>
  C30. Provenance over a run.  Start from a valid memory and apply any sequence of its operations, admissions of
  compositions included, while SHA-256 tells files apart: the memory stays valid, every slot keeps its file
  and its recorded sources, and a slot with sources executes as the two earlier files it names, one after
  the other in the recorded order.
\<close>

theorem composition_runs_sources:
  assumes "km_step\<^sup>*\<^sup>* m m'" and "km_ok m" and "no_collisions m'"
  shows "km_ok m' \<and> (\<forall>k<length (km_programs m). km_program m' (int k) = km_program m (int k)
      \<and> km_provenance m' ! k = km_provenance m ! k)
    \<and> (\<forall>k<length (km_programs m'). \<forall>f. km_provenance m' ! k = Some f \<longrightarrow>
        (\<exists>l r. l < k \<and> r < k \<and> km_digests m' ! l = kf_left f \<and> km_digests m' ! r = kf_right f
        \<and> (\<forall>s. km_execute m' (int k) s = in_order (kf_mode f) (km_execute m' (int l)) (km_execute m' (int r)) s)))"
proof (intro conjI allI impI)
  show ok': "km_ok m'" using composition_store.steps_inv [OF assms(1,2)] .
  show "km_program m' (int k) = km_program m (int k)" "km_provenance m' ! k = km_provenance m ! k"
    if "k < length (km_programs m)" for k
    using composition_store.lookup_stable [OF assms(1,2)] km_program_nth [OF that] provenance_stable [OF assms(1,2) that]
    by simp_all
  fix k f assume k: "k < length (km_programs m')" and prov: "km_provenance m' ! k = Some f"
  obtain l r where lr: "source_slots m' k f l r" using km_ok_prov [OF ok' k prov] by blast
  then show "\<exists>l r. l < k \<and> r < k \<and> km_digests m' ! l = kf_left f \<and> km_digests m' ! r = kf_right f
      \<and> (\<forall>s. km_execute m' (int k) s = in_order (kf_mode f) (km_execute m' (int l)) (km_execute m' (int r)) s)"
    using stored_executes [OF ok' assms(3) k prov lr] unfolding source_slots_def first_at_def by blast
qed

theorem composition_runs_sources_witness:
  "km_step unprotected_recipe one_recipe \<and> km_program one_recipe (int 0) = km_program unprotected_recipe (int 0)"
proof -
  have free: "no_collisions one_recipe" by (simp add: no_collisions_def one_recipe_ok)
  have "\<forall>k<length (km_programs unprotected_recipe). km_program one_recipe (int k) = km_program unprotected_recipe (int k)
      \<and> km_provenance one_recipe ! k = km_provenance unprotected_recipe ! k"
    using composition_runs_sources [OF r_into_rtranclp [of km_step, OF unprotected_recipe_ok(3)] unprotected_recipe_ok(1) free]
    by blast
  then have "km_program one_recipe (int 0) = km_program unprotected_recipe (int 0)"
    using unprotected_recipe_ok(2) by auto
  then show ?thesis using unprotected_recipe_ok(3) by blast
qed



text \<open>
  C33. Persistence of the composition memory.  The payload of a valid memory reads back as the same memory, with
  files, marks and provenance; whatever payload is accepted gives a valid memory that carries its own
  checksum.
\<close>

theorem composition_memory_roundtrip:
  "(km_ok m \<and> canonical_memory (km_files m) \<longrightarrow> copy_on_write m = Inr m)
   \<and> (km_from_payload v = Inr n \<longrightarrow> km_ok n
        \<and> (\<exists>kvs d. v = PDict kvs \<and> km_digest n = Inr d \<and> dict_get kvs ''sha256'' = PStr d))"
  using km_roundtrip [of m] km_loaded [of v n] by (auto simp: copy_on_write_def bind_r_eq_Inr)

theorem composition_memory_roundtrip_witness: "copy_on_write two_recipes = Inr two_recipes"
proof -
  have "canonical_memory (km_files two_recipes)"
    using two_recipes_ok(2) twin_inc_ok(2) by (simp add: canonical_memory_def km_programs_def)
  then show ?thesis using composition_memory_roundtrip two_recipes_ok(1) by blast
qed

end
