(* ===== verification/RecipeCompositionSearch.thy ===== *)
theory RecipeCompositionSearch
  imports RecipeCompositionMemory RecipeSearchRun
begin

text \<open>
  \<open>recipe_composition.py\<close>, lines 759 to 1362: the scalar credit over composition factors
  (\<open>OpaqueContextRecipeCompositionMemory\<close>) and the search that proposes and evaluates compositions of
  stored recipe files (\<open>OutcomeOnlyRecipeCompositionSearch\<close>).

  The tables of credit are those of \<open>RecipeProposal\<close>, over ten factor types.  The libraries are the
  parameters of the recipe search: \<open>math_lib\<close>, \<open>torch_lib\<close> for softmax, and a random generator whose state
  is explicit.  The payload of the policy is in \<open>CompositionCredit\<close>, that of the state is not modelled.

  The search is an interpretation of \<open>exhaustive_search\<close>: with or without policy it evaluates every
  candidate of the memory once and then reports exhaustion.
\<close>

section \<open>Credit of composition factors\<close>

datatype composition_factor = CLeft | CRight | CMode | CLeftDepth | CRightDepth | CLeftShape | CRightShape
  | CCanonicalShape | CCanonicalDepth | CDepthSpan

type_synonym composition_tables = "composition_factor \<Rightarrow> aggregate_table"

text \<open>The thirteen parameters of the constructor, in their order.\<close>

record 'a composition_weights =
  kw_floor :: 'a
  kw_prior :: 'a
  kw_bonus :: 'a
  kw_left :: 'a
  kw_right :: 'a
  kw_mode :: 'a
  kw_left_depth :: 'a
  kw_right_depth :: 'a
  kw_shape :: 'a
  kw_canonical_shape :: 'a
  kw_canonical_depth :: 'a
  kw_depth_span :: 'a
  kw_temperature :: 'a

definition weight_list :: "'a composition_weights \<Rightarrow> 'a list" where
  "weight_list w = [kw_floor w, kw_prior w, kw_bonus w, kw_left w, kw_right w, kw_mode w, kw_left_depth w,
     kw_right_depth w, kw_shape w, kw_canonical_shape w, kw_canonical_depth w, kw_depth_span w, kw_temperature w]"

definition weight_values :: "pyfloat composition_weights \<Rightarrow> rat composition_weights" where
  "weight_values w = \<lparr>kw_floor = fin_val (kw_floor w), kw_prior = fin_val (kw_prior w), kw_bonus = fin_val (kw_bonus w),
     kw_left = fin_val (kw_left w), kw_right = fin_val (kw_right w), kw_mode = fin_val (kw_mode w),
     kw_left_depth = fin_val (kw_left_depth w), kw_right_depth = fin_val (kw_right_depth w),
     kw_shape = fin_val (kw_shape w), kw_canonical_shape = fin_val (kw_canonical_shape w),
     kw_canonical_depth = fin_val (kw_canonical_depth w), kw_depth_span = fin_val (kw_depth_span w),
     kw_temperature = fin_val (kw_temperature w)\<rparr>"

record composition_policy =
  kp_weights :: "rat composition_weights"
  kp_shared :: composition_tables
  kp_contexts :: "(string \<times> composition_tables) list"

definition no_credit :: composition_tables where
  "no_credit = (\<lambda>factor_type. [])"

definition kp_init :: "pyfloat composition_weights \<Rightarrow> composition_policy result" where
  "kp_init w =
     (if \<exists>x\<in>set (weight_list w). bad_weight x then Inl ValueError
      else if Fin 1 \<le> kw_floor w then Inl ValueError
      else if fin_val (kw_left w) + fin_val (kw_right w) + fin_val (kw_mode w) \<le> 0 then Inl ValueError
      else if kw_temperature w \<le> Fin 0 then Inl ValueError
      else Inr \<lparr>kp_weights = weight_values w, kp_shared = no_credit, kp_contexts = []\<rparr>)"

definition structure_entries :: "composition_structure \<Rightarrow> (composition_factor \<times> string) list result" where
  "structure_entries s =
     bind_r (ks_validate s) (\<lambda>_.
     bind_r (canonical_shape_key s) (\<lambda>canonical_shape.
     bind_r (canonical_depth_key s) (\<lambda>canonical_depth.
     bind_r (depth_span_key s) (\<lambda>span. Inr
       [(CLeftDepth, int_text (ks_left_depth s)), (CRightDepth, int_text (ks_right_depth s)),
        (CLeftShape, shape_name (ks_left_composite s)), (CRightShape, shape_name (ks_right_composite s)),
        (CCanonicalShape, canonical_shape), (CCanonicalDepth, canonical_depth), (CDepthSpan, span)]))))"

definition composition_entries :: "composition_factors \<Rightarrow> composition_structure option \<Rightarrow> (composition_factor \<times> string) list result" where
  "composition_entries f structure =
     bind_r (kf_validate f) (\<lambda>_.
     bind_r (case structure of None \<Rightarrow> Inr [] | Some s \<Rightarrow> structure_entries s) (\<lambda>shape.
       Inr ([(CLeft, kf_left f), (CRight, kf_right f), (CMode, kf_mode f)] @ shape)))"

text \<open>
  \<open>record\<close> creates the tables of the context before it looks at the structure: the new policy comes with the
  exception, if one is raised.
\<close>

definition kp_record :: "composition_policy \<Rightarrow> string \<Rightarrow> composition_factors \<Rightarrow> pyfloat \<Rightarrow> composition_structure option
    \<Rightarrow> composition_policy \<times> exn option" where
  "kp_record P c f quality structure =
     (case validate_context c of
        Inl e \<Rightarrow> (P, Some e)
      | Inr _ \<Rightarrow>
     (case kf_validate f of
        Inl e \<Rightarrow> (P, Some e)
      | Inr _ \<Rightarrow>
        if invalid_quality quality then (P, Some ValueError)
        else let local = get_or (kp_contexts P) c no_credit
             in (case composition_entries f structure of
                   Inl e \<Rightarrow> (P\<lparr>kp_contexts := AList.update c local (kp_contexts P)\<rparr>, Some e)
                 | Inr entries \<Rightarrow>
                     (P\<lparr>kp_contexts := AList.update c (credit_entries local quality entries) (kp_contexts P),
                        kp_shared := credit_entries (kp_shared P) quality entries\<rparr>, None))))"

definition kp_score :: "math_lib \<Rightarrow> composition_policy \<Rightarrow> composition_tables \<Rightarrow> composition_factor \<Rightarrow> string \<Rightarrow> rat result" where
  "kp_score math P local factor_type key =
     bind_r (aggregate (map_of (local factor_type) key)) (\<lambda>(local_total, local_count).
     bind_r (aggregate (map_of (kp_shared P factor_type) key)) (\<lambda>(shared_total, shared_count).
       let shared_weight = (if local factor_type \<noteq> [] then 0 else kw_prior (kp_weights P));
           effective_count = local_count + shared_weight * shared_count;
           effective_total = local_total + shared_weight * shared_total;
           mean = (if effective_count \<noteq> 0 then effective_total / effective_count else 0);
           bonus = kw_bonus (kp_weights P) * math_sqrt math
             (math_log1p math (effective_count + 1) / (effective_count + 1))
       in Inr (mean + bonus)))"

text \<open>The weight of a factor type in the score of a candidate.\<close>

fun factor_weight :: "rat composition_weights \<Rightarrow> composition_factor \<Rightarrow> rat" where
  "factor_weight w CLeft = kw_left w"
| "factor_weight w CRight = kw_right w"
| "factor_weight w CMode = kw_mode w"
| "factor_weight w CLeftDepth = kw_left_depth w"
| "factor_weight w CRightDepth = kw_right_depth w"
| "factor_weight w CLeftShape = kw_shape w"
| "factor_weight w CRightShape = kw_shape w"
| "factor_weight w CCanonicalShape = kw_canonical_shape w"
| "factor_weight w CCanonicalDepth = kw_canonical_depth w"
| "factor_weight w CDepthSpan = kw_depth_span w"

definition candidate_score :: "math_lib \<Rightarrow> composition_policy \<Rightarrow> composition_tables
    \<Rightarrow> composition_factors \<times> composition_structure option \<Rightarrow> rat result" where
  "candidate_score math P local offer =
     bind_r (composition_entries (fst offer) (snd offer)) (\<lambda>entries.
     bind_r (map_r (\<lambda>(factor_type, key). bind_r (kp_score math P local factor_type key) (\<lambda>x.
         Inr (factor_weight (kp_weights P) factor_type * x))) entries) (\<lambda>scores.
       Inr (sum_list scores)))"

definition composition_probabilities :: "math_lib \<Rightarrow> torch_lib \<Rightarrow> composition_policy \<Rightarrow> string \<Rightarrow> composition_factors list
    \<Rightarrow> composition_structure option list option \<Rightarrow> rat list result" where
  "composition_probabilities math torch P c factors structures =
     bind_r (validate_context c) (\<lambda>_.
       if factors = [] then Inl ValueError
       else bind_r (map_r kf_validate factors) (\<lambda>_.
            bind_r (case structures of
                      None \<Rightarrow> Inr (replicate (length factors) None)
                    | Some ss \<Rightarrow>
                        if length ss \<noteq> length factors then Inl ValueError
                        else bind_r (all_r (\<lambda>s. case s of None \<Rightarrow> Inr () | Some x \<Rightarrow> bind_r (ks_validate x) (\<lambda>_. Inr ())) ss)
                               (\<lambda>_. Inr ss)) (\<lambda>resolved.
            let local = get_or (kp_contexts P) c no_credit
            in bind_r (map_r (candidate_score math P local) (zip factors resolved)) (\<lambda>scores.
                 Inr (floored_softmax torch (kw_floor (kp_weights P)) (kw_temperature (kp_weights P)) scores)))))"

definition kp_select :: "math_lib \<Rightarrow> torch_lib \<Rightarrow> 'g rng \<Rightarrow> composition_policy \<Rightarrow> string \<Rightarrow> composition_candidate list \<Rightarrow> 'g
    \<Rightarrow> (nat \<times> rat \<times> 'g) result" where
  "kp_select math torch rng P c candidates g =
     bind_r (composition_probabilities math torch P c (map kc_factors candidates) (Some (map kc_structure candidates)))
       (\<lambda>probabilities. let (index, g') = rng_multinomial rng g probabilities in Inr (index, probabilities ! index, g'))"

section \<open>State, proposals and the search\<close>

definition RECIPE_COMPOSITION_SEARCH_SCHEMA :: string where
  "RECIPE_COMPOSITION_SEARCH_SCHEMA = ''neural-computer.recipe-composition-search.v1''"

definition RECIPE_COMPOSITION_PROPOSAL_SCHEMA :: string where
  "RECIPE_COMPOSITION_PROPOSAL_SCHEMA = ''neural-computer.recipe-composition-proposal.v1''"

record composition_state =
  kt_seen :: "string list"
  kt_proposals :: int
  kt_accepted :: int
  kt_best_quality :: pyfloat
  kt_schema :: string

definition kt_validate :: "composition_state \<Rightarrow> composition_state result" where
  "kt_validate s =
     (if kt_schema s \<noteq> RECIPE_COMPOSITION_SEARCH_SCHEMA then Inl ValueError
      else if kt_proposals s < 0 \<or> kt_accepted s < 0 \<or> kt_accepted s > kt_proposals s then Inl ValueError
      else if int (length (kt_seen s)) \<noteq> kt_proposals s \<or> card (set (kt_seen s)) \<noteq> length (kt_seen s) then Inl ValueError
      else bind_r (all_r validate_recipe_key (kt_seen s)) (\<lambda>_.
        if \<not> isfinite (kt_best_quality s) \<or> \<not> (Fin 0 \<le> kt_best_quality s \<and> kt_best_quality s \<le> Fin 1)
        then Inl ValueError else Inr s))"

definition kt_initial :: "composition_state result" where
  "kt_initial = kt_validate \<lparr>kt_seen = [], kt_proposals = 0, kt_accepted = 0, kt_best_quality = Fin 0,
     kt_schema = RECIPE_COMPOSITION_SEARCH_SCHEMA\<rparr>"

record composition_proposal =
  kq_candidate :: composition_candidate
  kq_attempt :: int
  kq_probability :: pyfloat
  kq_scope :: string
  kq_context :: string
  kq_schema :: string

definition kq_validate :: "composition_proposal \<Rightarrow> composition_proposal result" where
  "kq_validate r =
     (if kq_schema r \<noteq> RECIPE_COMPOSITION_PROPOSAL_SCHEMA then Inl ValueError
      else bind_r (kc_validate (kq_candidate r)) (\<lambda>_.
        if kq_attempt r < 0 then Inl ValueError
        else if \<not> isfinite (kq_probability r) \<or> \<not> (Fin 0 < kq_probability r \<and> kq_probability r \<le> Fin 1)
        then Inl ValueError
        else if kq_scope r = [] \<or> NUL \<in> set (kq_scope r) then Inl ValueError
        else if kq_context r = [] \<or> NUL \<in> set (kq_context r) then Inl ValueError
        else Inr r))"

record composition_feedback =
  kb_proposal :: composition_proposal
  kb_receipt :: recipe_receipt
  kb_quality :: pyfloat
  kb_state :: composition_state

record composition_searcher =
  kx_memory :: composition_memory
  kx_max_length :: int
  kx_policy :: "composition_policy option"

definition kx_init :: "composition_memory \<Rightarrow> int \<Rightarrow> composition_policy option \<Rightarrow> composition_searcher result" where
  "kx_init m max_length P =
     (if max_length < 2 then Inl ValueError else Inr \<lparr>kx_memory = m, kx_max_length = max_length, kx_policy = P\<rparr>)"

text \<open>The candidates whose scoped key was not evaluated, in the order of the memory.\<close>

fun unseen_compositions :: "string \<Rightarrow> string list \<Rightarrow> composition_candidate list \<Rightarrow> composition_candidate list result" where
  "unseen_compositions scope seen [] = Inr []"
| "unseen_compositions scope seen (c # cs) =
     bind_r (recipe_key scope (rp_digest (kc_program c))) (\<lambda>key.
     bind_r (unseen_compositions scope seen cs) (\<lambda>rest. Inr (if key \<in> set seen then rest else c # rest)))"

definition mk_composition_proposal :: "composition_state \<Rightarrow> composition_candidate \<Rightarrow> rat \<Rightarrow> string \<Rightarrow> string
    \<Rightarrow> composition_proposal result" where
  "mk_composition_proposal s candidate probability scope c =
     kq_validate \<lparr>kq_candidate = candidate, kq_attempt = kt_proposals s, kq_probability = Fin probability,
       kq_scope = scope, kq_context = c, kq_schema = RECIPE_COMPOSITION_PROPOSAL_SCHEMA\<rparr>"

definition kx_propose :: "math_lib \<Rightarrow> torch_lib \<Rightarrow> 'g rng \<Rightarrow> composition_searcher \<Rightarrow> composition_state \<Rightarrow> string \<Rightarrow> string
    \<Rightarrow> 'g \<Rightarrow> (composition_proposal \<times> 'g) result" where
  "kx_propose math torch rng x s scope c g =
     bind_r (kt_validate s) (\<lambda>_.
       if scope = [] \<or> NUL \<in> set scope then Inl ValueError
       else if c = [] \<or> NUL \<in> set c then Inl ValueError
       else
         bind_r (composition_candidates (kx_memory x) (kx_max_length x)) (\<lambda>every.
         bind_r (unseen_compositions scope (kt_seen s) every) (\<lambda>candidates.
           if candidates = [] then Inl RuntimeError
           else
             bind_r (case kx_policy x of
                       None \<Rightarrow> Inr (0, 1 / of_nat (length candidates), g)
                     | Some P \<Rightarrow> kp_select math torch rng P c candidates g) (\<lambda>(selected, probability, g').
             bind_r (mk_composition_proposal s (candidates ! selected) probability scope c) (\<lambda>r. Inr (r, g'))))))"

definition kx_propose_exhaustive :: "composition_searcher \<Rightarrow> composition_state \<Rightarrow> string \<Rightarrow> string \<Rightarrow> composition_proposal result" where
  "kx_propose_exhaustive x s scope c =
     bind_r (kt_validate s) (\<lambda>_.
     bind_r (composition_candidates (kx_memory x) (kx_max_length x)) (\<lambda>every.
     bind_r (unseen_compositions scope (kt_seen s) every) (\<lambda>candidates.
       if candidates = [] then Inl RuntimeError
       else mk_composition_proposal s (candidates ! 0) (1 / of_nat (length candidates)) scope c)))"

definition kx_record_outcomes :: "composition_searcher \<Rightarrow> composition_state \<Rightarrow> composition_proposal
    \<Rightarrow> pyfloat list \<times> pyfloat \<times> int \<times> int \<Rightarrow> (composition_feedback \<times> composition_searcher) result" where
  "kx_record_outcomes x s r evidence =
     (case evidence of (outcomes, threshold, min_observations, min_stable) \<Rightarrow>
        bind_r (kt_validate s) (\<lambda>_.
        bind_r (kq_validate r) (\<lambda>_.
          if kq_attempt r \<noteq> kt_proposals s then Inl ValueError
          else
            bind_r (recipe_key (kq_scope r) (rp_digest (kc_program (kq_candidate r)))) (\<lambda>scoped.
              if scoped \<in> set (kt_seen s) then Inl ValueError
              else
                bind_r (evaluate_recipe_program_admission (kc_program (kq_candidate r)) outcomes threshold
                          min_observations min_stable) (\<lambda>receipt.
                let quality = (if outcomes = [] then Fin 0 else quality_of outcomes)
                in bind_r (case kx_policy x of
                             None \<Rightarrow> Inr x
                           | Some P \<Rightarrow>
                               (case kp_record P (kq_context r) (kc_factors (kq_candidate r)) quality
                                       (kc_structure (kq_candidate r)) of
                                  (P', None) \<Rightarrow> Inr (x\<lparr>kx_policy := Some P'\<rparr>)
                                | (P', Some e) \<Rightarrow> Inl e)) (\<lambda>x'.
                   bind_r (kt_validate
                     \<lparr>kt_seen = kt_seen s @ [scoped], kt_proposals = kt_proposals s + 1,
                      kt_accepted = kt_accepted s + (if rr_accepted receipt then 1 else 0),
                      kt_best_quality = py_max (kt_best_quality s) quality,
                      kt_schema = RECIPE_COMPOSITION_SEARCH_SCHEMA\<rparr>) (\<lambda>s'.
                     Inr (\<lparr>kb_proposal = r, kb_receipt = receipt, kb_quality = quality, kb_state = s'\<rparr>, x'))))))))"

section \<open>The policy\<close>

definition kp_ok :: "composition_policy \<Rightarrow> bool" where
  "kp_ok P \<longleftrightarrow> 0 \<le> kw_floor (kp_weights P) \<and> kw_floor (kp_weights P) < 1 \<and> 0 \<le> kw_prior (kp_weights P)
     \<and> 0 < kw_temperature (kp_weights P) \<and> (\<forall>ft. table_ok (kp_shared P ft))
     \<and> (\<forall>c ft. table_ok (get_or (kp_contexts P) c no_credit ft))"

lemma kp_init_ok: "kp_init w = Inr P \<Longrightarrow> kp_ok P"
  by (auto simp: kp_init_def kp_ok_def weight_list_def weight_values_def bad_weight_def isfinite_iff no_credit_def
      split: if_splits)

definition offer_ok :: "composition_factors \<times> composition_structure option \<Rightarrow> bool" where
  "offer_ok offer \<longleftrightarrow> kf_validate (fst offer) = Inr (fst offer) \<and> (\<forall>s. snd offer = Some s \<longrightarrow> ks_validate s = Inr s)"

lemma composition_entries_total: "offer_ok offer \<Longrightarrow> \<exists>es. composition_entries (fst offer) (snd offer) = Inr es"
  by (cases "snd offer") (auto simp: offer_ok_def composition_entries_def structure_entries_def canonical_shape_key_def
      canonical_depth_key_def depth_span_key_def)

lemma kp_score_total:
  assumes "kp_ok P" and "table_ok (local ft)"
  shows "\<exists>x. kp_score math P local ft k = Inr x"
  using assms by (simp add: kp_score_def kp_ok_def aggregate_ok Let_def)

lemma candidate_score_total:
  assumes "kp_ok P" and "\<forall>ft. table_ok (local ft)" and "offer_ok offer"
  shows "\<exists>x. candidate_score math P local offer = Inr x"
proof -
  obtain es where es: "composition_entries (fst offer) (snd offer) = Inr es"
    using composition_entries_total [OF assms(3)] by blast
  let ?g = "\<lambda>(ft, k). bind_r (kp_score math P local ft k) (\<lambda>x. Inr (factor_weight (kp_weights P) ft * x))"
  have "\<exists>x. ?g e = Inr x" for e
  proof -
    obtain ft k where e: "e = (ft, k)" by (cases e)
    obtain x where "kp_score math P local ft k = Inr x" using kp_score_total [OF assms(1)] assms(2) by blast
    then show ?thesis by (simp add: e)
  qed
  then obtain xs where "map_r ?g es = Inr xs" using map_r_ex [of es ?g] by blast
  then show ?thesis by (simp add: candidate_score_def es)
qed

lemma composition_probabilities_total:
  assumes "kp_ok P" and "scope_ok c" and "cs \<noteq> []" and "\<forall>x\<in>set cs. kc_validate x = Inr x"
  shows "\<exists>scores. length scores = length cs
    \<and> composition_probabilities math torch P c (map kc_factors cs) (Some (map kc_structure cs))
      = Inr (floored_softmax torch (kw_floor (kp_weights P)) (kw_temperature (kp_weights P)) scores)"
proof -
  let ?local = "get_or (kp_contexts P) c no_credit"
  have offers: "\<forall>offer\<in>set (zip (map kc_factors cs) (map kc_structure cs)). offer_ok offer"
  proof
    fix offer assume "offer \<in> set (zip (map kc_factors cs) (map kc_structure cs))"
    then have "offer \<in> set (map (\<lambda>c. (kc_factors c, kc_structure c)) cs)" by (simp add: zip_map_map zip_same_conv_map)
    then obtain c where "c \<in> set cs" "offer = (kc_factors c, kc_structure c)" by auto
    then show "offer_ok offer" using assms(4) by (auto simp: offer_ok_def kc_validate_Inr)
  qed
  have tables: "\<forall>ft. table_ok (?local ft)" using assms(1) by (simp add: kp_ok_def)
  have "\<forall>offer\<in>set (zip (map kc_factors cs) (map kc_structure cs)). \<exists>x. candidate_score math P ?local offer = Inr x"
    by (intro ballI candidate_score_total [OF assms(1) tables] bspec [OF offers])
  from map_r_ex [OF this]
  obtain ss where ss: "map_r (candidate_score math P ?local) (zip (map kc_factors cs) (map kc_structure cs)) = Inr ss" ..
  have f: "\<forall>f\<in>set (map kc_factors cs). kf_validate f = Inr f" using assms(4) by (auto simp: kc_validate_Inr)
  have t: "\<forall>x\<in>set cs. \<forall>s. kc_structure x = Some s \<longrightarrow> ks_validate s = Inr s" using assms(4) by (auto simp: kc_validate_Inr)
  have "map_r kf_validate (map kc_factors cs) = Inr (map kc_factors cs)"
    using map_r_total [of "map kc_factors cs" kf_validate id] f by simp
  moreover have "all_r (\<lambda>s. case s of None \<Rightarrow> Inr () | Some x \<Rightarrow> bind_r (ks_validate x) (\<lambda>_. Inr ())) (map kc_structure cs) = Inr ()"
    unfolding all_r_Inr_iff set_map ball_simps(9) [symmetric]
    using t by (auto split: option.splits)
  moreover have "validate_context c = Inr ()" using assms(2) by (simp add: validate_context_Inr)
  ultimately have "composition_probabilities math torch P c (map kc_factors cs) (Some (map kc_structure cs))
      = Inr (floored_softmax torch (kw_floor (kp_weights P)) (kw_temperature (kp_weights P)) ss)"
    using assms(3) ss by (simp add: composition_probabilities_def)
  moreover have "length ss = length cs" using map_r_length [OF ss] by simp
  ultimately show ?thesis by blast
qed
lemma kp_select_spec:
  assumes "torch_ok torch" and "softmax_sums torch" and "rng_ok rng" and "kp_ok P" and "scope_ok c"
    and "cs \<noteq> []" and "\<forall>x\<in>set cs. kc_validate x = Inr x"
  shows "\<exists>ps k g'. composition_probabilities math torch P c (map kc_factors cs) (Some (map kc_structure cs)) = Inr ps
    \<and> length ps = length cs \<and> sum_list ps = 1
    \<and> (\<forall>p\<in>set ps. kw_floor (kp_weights P) / of_nat (length cs) \<le> p \<and> 0 < p \<and> p \<le> 1)
    \<and> k < length cs \<and> kp_select math torch rng P c cs g = Inr (k, ps ! k, g')"
proof -
  obtain scores where s: "length scores = length cs"
      "composition_probabilities math torch P c (map kc_factors cs) (Some (map kc_structure cs))
        = Inr (floored_softmax torch (kw_floor (kp_weights P)) (kw_temperature (kp_weights P)) scores)"
    using composition_probabilities_total [OF assms(4-7)] by blast
  obtain ps where ps: "ps = floored_softmax torch (kw_floor (kp_weights P)) (kw_temperature (kp_weights P)) scores" by blast
  have eps: "0 \<le> kw_floor (kp_weights P)" "kw_floor (kp_weights P) < 1" using assms(4) by (simp_all add: kp_ok_def)
  have ne: "scores \<noteq> []" using s(1) assms(6) by auto
  note spec = floored_softmax_spec [OF assms(1,2) eps ne ps]
  have n: "length ps = length cs" "ps \<noteq> []" using spec(1) s(1) ne by auto
  then have "\<forall>p\<in>set ps. 0 \<le> p" "\<exists>p\<in>set ps. 0 < p" using spec(3) by (cases ps; force)+
  then have "fst (rng_multinomial rng g ps) < length cs"
    using rng_ok_draw [OF assms(3), of ps g] n(1) by simp
  then show ?thesis
    using spec(2,3) n(1) s
    by (cases "rng_multinomial rng g ps") (auto simp: ps [symmetric] kp_select_def)
qed

lemma kp_record_total:
  assumes "kp_ok P" and "scope_ok c" and "in_unit q" and "offer_ok (f, structure)"
  shows "\<exists>P'. kp_record P c f q structure = (P', None) \<and> kp_ok P' \<and> kp_weights P' = kp_weights P"
proof -
  obtain a where a: "q = Fin a" "0 \<le> a" "a \<le> 1" using assms(3) by (auto simp: in_unit_iff)
  obtain es where es: "composition_entries f structure = Inr es" using composition_entries_total [OF assms(4)] by auto
  have v: "validate_context c = Inr ()" "kf_validate f = Inr f" "\<not> invalid_quality q"
    using assms(2-4) by (simp_all add: validate_context_Inr offer_ok_def invalid_quality_iff)
  have t: "\<forall>ft. table_ok (credit_entries (kp_shared P) q es ft)"
      "\<forall>ft. table_ok (credit_entries (get_or (kp_contexts P) c no_credit) q es ft)"
    using credit_entries_ok [OF _ a(2,3), THEN conjunct1] assms(1) unfolding a(1) kp_ok_def by blast+
  show ?thesis
    using assms(1) t unfolding kp_record_def v sum.case es
    by (simp add: kp_ok_def v(3) Let_def get_or_update)
qed

section \<open>States and proposals of the search\<close>

definition kt_ok :: "composition_state \<Rightarrow> bool" where
  "kt_ok s \<longleftrightarrow> kt_schema s = RECIPE_COMPOSITION_SEARCH_SCHEMA \<and> 0 \<le> kt_accepted s \<and> kt_accepted s \<le> kt_proposals s
     \<and> int (length (kt_seen s)) = kt_proposals s \<and> distinct (kt_seen s)
     \<and> (\<forall>k\<in>set (kt_seen s). key_ok k) \<and> in_unit (kt_best_quality s)"

lemma kt_validate_Inr: "kt_validate s = Inr t \<longleftrightarrow> kt_ok s \<and> t = s"
  unfolding kt_validate_def kt_ok_def in_unit_alt
  by (auto simp: bind_r_eq_Inr all_r_Inr_iff not_less validate_recipe_key_Inr distinct_card card_distinct
      simp del: all_r.simps)

lemma kt_initial_ok: "\<exists>s. kt_initial = Inr s \<and> kt_ok s \<and> kt_seen s = []"
  by (simp add: kt_initial_def kt_validate_Inr kt_ok_def)

definition kq_ok :: "composition_proposal \<Rightarrow> bool" where
  "kq_ok r \<longleftrightarrow> kq_schema r = RECIPE_COMPOSITION_PROPOSAL_SCHEMA \<and> kc_validate (kq_candidate r) = Inr (kq_candidate r)
     \<and> 0 \<le> kq_attempt r \<and> in_unit_pos (kq_probability r) \<and> scope_ok (kq_scope r) \<and> scope_ok (kq_context r)"

lemma kq_validate_Inr: "kq_validate r = Inr t \<longleftrightarrow> kq_ok r \<and> t = r"
  unfolding kq_validate_def kq_ok_def in_unit_pos_alt scope_ok_def
  by (auto simp: bind_r_eq_Inr not_less kc_validate_Inr)

definition candidate_key :: "string \<Rightarrow> composition_candidate \<Rightarrow> string" where
  "candidate_key scope c = scope @ [NUL] @ rp_digest (kc_program c)"

definition kq_key :: "composition_proposal \<Rightarrow> string" where
  "kq_key r = candidate_key (kq_scope r) (kq_candidate r)"

lemma unseen_spec:
  "scope_ok scope \<Longrightarrow> unseen_compositions scope seen cs = Inr (filter (\<lambda>c. candidate_key scope c \<notin> set seen) cs)"
  by (induction cs) (simp_all add: recipe_key_total candidate_key_def)

lemma mk_composition_proposal_ok:
  assumes "kt_ok s" and "scope_ok scope" and "scope_ok c" and "kc_validate k = Inr k" and "0 < p" and "p \<le> 1"
  shows "\<exists>r. mk_composition_proposal s k p scope c = Inr r \<and> kq_ok r \<and> kq_attempt r = kt_proposals s
    \<and> kq_key r = candidate_key scope k \<and> kq_candidate r = k"
proof -
  have "0 \<le> kt_proposals s" using assms(1) by (auto simp: kt_ok_def)
  then show ?thesis
    using assms by (simp add: mk_composition_proposal_def kq_validate_Inr kq_ok_def kq_key_def)
qed

section \<open>Proposing\<close>

definition kx_ok :: "composition_searcher \<Rightarrow> bool" where
  "kx_ok x \<longleftrightarrow> km_ok (kx_memory x) \<and> distinct (km_digests (kx_memory x)) \<and> 2 \<le> kx_max_length x
     \<and> (\<forall>P. kx_policy x = Some P \<longrightarrow> kp_ok P)"

definition composition_space :: "composition_searcher \<Rightarrow> string \<Rightarrow> string list" where
  "composition_space x scope =
     (case composition_candidates (kx_memory x) (kx_max_length x) of
        Inl e \<Rightarrow> []
      | Inr cs \<Rightarrow> map (candidate_key scope) cs)"

definition fresh_composition :: "composition_state \<Rightarrow> string set \<Rightarrow> composition_proposal \<Rightarrow> bool" where
  "fresh_composition s space r \<longleftrightarrow> kq_ok r \<and> kq_attempt r = kt_proposals s \<and> kq_key r \<in> space - set (kt_seen s)"

lemma candidates_of_search:
  assumes "kx_ok x"
  shows "\<exists>cs. composition_candidates (kx_memory x) (kx_max_length x) = Inr cs \<and> (\<forall>c\<in>set cs. kc_validate c = Inr c)
    \<and> composition_space x scope = map (candidate_key scope) cs"
proof -
  have args: "km_ok (kx_memory x)" "distinct (km_digests (kx_memory x))" "1 \<le> kx_max_length x"
    using assms by (simp_all add: kx_ok_def)
  obtain cs where cs: "composition_candidates (kx_memory x) (kx_max_length x) = Inr cs"
      "\<forall>c\<in>set cs. validate_source_candidate (kx_memory x) c = Inr ()"
    using candidates_spec [OF args] by blast
  then have "\<forall>c\<in>set cs. kc_validate c = Inr c"
    by (auto simp: validate_source_candidate_def bind_r_eq_Inr kc_validate_Inr)
  then show ?thesis using cs(1) by (simp add: composition_space_def)
qed

lemma propose_composition_cases:
  assumes lib: "torch_ok torch" "softmax_sums torch" "rng_ok rng"
    and s: "kt_ok s" and x: "kx_ok x" and sc: "scope_ok scope" "scope_ok c"
  shows "set (composition_space x scope) \<subseteq> set (kt_seen s) \<Longrightarrow>
      kx_propose math torch rng x s scope c g = Inl RuntimeError
      \<and> kx_propose_exhaustive x s scope c = Inl RuntimeError"
    and "\<not> set (composition_space x scope) \<subseteq> set (kt_seen s) \<Longrightarrow>
      (\<exists>r g'. kx_propose math torch rng x s scope c g = Inr (r, g') \<and> fresh_composition s (set (composition_space x scope)) r)
      \<and> (\<exists>r. kx_propose_exhaustive x s scope c = Inr r \<and> fresh_composition s (set (composition_space x scope)) r)"
proof -
  obtain cs where cs: "composition_candidates (kx_memory x) (kx_max_length x) = Inr cs"
      "\<forall>c\<in>set cs. kc_validate c = Inr c" "composition_space x scope = map (candidate_key scope) cs"
    using candidates_of_search [OF x] by blast
  let ?open = "filter (\<lambda>c. candidate_key scope c \<notin> set (kt_seen s)) cs"
  have v: "kt_validate s = Inr s" using s by (simp add: kt_validate_Inr)
  have guards: "\<not> (scope = [] \<or> NUL \<in> set scope)" "\<not> (c = [] \<or> NUL \<in> set c)"
    using sc by (auto simp: scope_ok_def)
  note run = kx_propose_def kx_propose_exhaustive_def v bind_r_Inr if_not_P [OF guards(1)] if_not_P [OF guards(2)]
    cs(1) unseen_spec [OF sc(1)]
  show "kx_propose math torch rng x s scope c g = Inl RuntimeError \<and> kx_propose_exhaustive x s scope c = Inl RuntimeError"
    if "set (composition_space x scope) \<subseteq> set (kt_seen s)"
  proof -
    have "?open = []" using that by (auto simp: cs(3) filter_empty_conv)
    then show ?thesis unfolding run by simp
  qed
  show "(\<exists>r g'. kx_propose math torch rng x s scope c g = Inr (r, g') \<and> fresh_composition s (set (composition_space x scope)) r)
      \<and> (\<exists>r. kx_propose_exhaustive x s scope c = Inr r \<and> fresh_composition s (set (composition_space x scope)) r)"
    if "\<not> set (composition_space x scope) \<subseteq> set (kt_seen s)"
  proof -
    have ne: "?open \<noteq> []" using that by (auto simp: cs(3) filter_empty_conv)
    have offer: "\<exists>r. mk_composition_proposal s (?open ! k) p scope c = Inr r
        \<and> fresh_composition s (set (composition_space x scope)) r"
      if k: "k < length ?open" and p: "0 < p" "p \<le> 1" for k p
    proof -
      have "?open ! k \<in> set ?open" using k by (rule nth_mem)
      then have "kc_validate (?open ! k) = Inr (?open ! k)"
          "candidate_key scope (?open ! k) \<in> set (composition_space x scope) - set (kt_seen s)"
        using cs(2) by (auto simp: cs(3))
      then show ?thesis
        using mk_composition_proposal_ok [OF s sc(1,2) _ p, of "?open ! k"] by (auto simp: fresh_composition_def)
    qed
    have uniform: "0 < 1 / (of_nat (length ?open) :: rat)" "1 / (of_nat (length ?open) :: rat) \<le> 1"
      using ne by (simp_all add: divide_le_eq Suc_leI flip: length_greater_0_conv)
    obtain q g' k where q: "(case kx_policy x of None \<Rightarrow> Inr (0, 1 / of_nat (length ?open), g)
         | Some P \<Rightarrow> kp_select math torch rng P c ?open g) = Inr (k, q, g')" "k < length ?open" "0 < q" "q \<le> 1"
    proof (cases "kx_policy x")
      case None
      with that [of 0 "1 / of_nat (length ?open)" g] uniform ne show ?thesis by simp
    next
      case (Some P)
      have "kp_ok P" "\<forall>x\<in>set ?open. kc_validate x = Inr x" using x Some cs(2) by (simp_all add: kx_ok_def)
      then obtain ps k g' where "kp_select math torch rng P c ?open g = Inr (k, ps ! k, g')" "k < length ?open"
          "length ps = length ?open" "\<forall>p\<in>set ps. 0 < p \<and> p \<le> 1"
        using kp_select_spec [OF lib _ sc(2) ne] by metis
      with that [of k "ps ! k" g'] Some show ?thesis by simp
    qed
    show ?thesis
      unfolding run using ne q offer [OF q(2-4)] offer [of 0, OF _ uniform] by auto
  qed
qed

section \<open>Recording\<close>

definition kx_next :: "composition_state \<times> composition_searcher \<Rightarrow> composition_proposal \<Rightarrow> pyfloat list \<times> pyfloat \<times> int \<times> int
    \<Rightarrow> (composition_state \<times> composition_searcher) result" where
  "kx_next sx r e = bind_r (kx_record_outcomes (snd sx) (fst sx) r e) (\<lambda>(b, x'). Inr (kb_state b, x'))"

definition kt_recorded :: "composition_state \<Rightarrow> composition_proposal \<Rightarrow> bool \<Rightarrow> pyfloat \<Rightarrow> composition_state" where
  "kt_recorded s r accepted quality =
     \<lparr>kt_seen = kt_seen s @ [kq_key r], kt_proposals = kt_proposals s + 1,
      kt_accepted = kt_accepted s + (if accepted then 1 else 0),
      kt_best_quality = py_max (kt_best_quality s) quality, kt_schema = RECIPE_COMPOSITION_SEARCH_SCHEMA\<rparr>"

lemma kt_recorded_ok:
  assumes "kt_ok s" and "kq_ok r" and "kq_key r \<notin> set (kt_seen s)" and "in_unit quality"
  shows "kt_ok (kt_recorded s r accepted quality)"
proof -
  have "key_ok (kq_key r)"
    using assms(2) scoped_key_ok [of "kq_scope r"] by (simp add: kq_key_def candidate_key_def kq_ok_def rp_digest_def)
  then show ?thesis using assms by (simp add: kt_ok_def kt_recorded_def py_max_unit)
qed

text \<open>Recording, once its guards hold: the policy learns the quality and the state grows by one key.\<close>

lemma kx_next_start:
  assumes "kt_ok s" and "kq_ok r" and "kq_attempt r = kt_proposals s" and "kq_key r \<notin> set (kt_seen s)"
    and "evaluate_recipe_program_admission (kc_program (kq_candidate r)) outcomes threshold mo ms = Inr receipt"
    and "\<forall>P. kx_policy x = Some P \<longrightarrow> kp_ok P"
  shows "\<exists>P'. kx_next (s, x) r (outcomes, threshold, mo, ms)
      = Inr (kt_recorded s r (rr_accepted receipt) (outcome_quality outcomes), x\<lparr>kx_policy := P'\<rparr>)
    \<and> (\<forall>P. P' = Some P \<longrightarrow> kp_ok P)"
proof -
  have v: "kt_validate s = Inr s" "kq_validate r = Inr r"
    using assms by (simp_all add: kt_validate_Inr kq_validate_Inr)
  have key: "recipe_key (kq_scope r) (rp_digest (kc_program (kq_candidate r))) = Inr (kq_key r)"
    using assms(2) by (simp add: recipe_key_total kq_ok_def kq_key_def candidate_key_def)
  have unit: "in_unit (outcome_quality outcomes)"
    using recipe_admission_args [OF assms(5)] outcome_quality_unit by blast
  have st: "kt_validate (kt_recorded s r (rr_accepted receipt) (outcome_quality outcomes))
      = Inr (kt_recorded s r (rr_accepted receipt) (outcome_quality outcomes))"
    using kt_recorded_ok [OF assms(1,2,4) unit] by (simp add: kt_validate_Inr)
  obtain P' where P': "(case kx_policy x of None \<Rightarrow> Inr x
      | Some P \<Rightarrow> (case kp_record P (kq_context r) (kc_factors (kq_candidate r)) (outcome_quality outcomes)
            (kc_structure (kq_candidate r)) of (P', None) \<Rightarrow> Inr (x\<lparr>kx_policy := Some P'\<rparr>) | (P', Some e) \<Rightarrow> Inl e))
      = Inr (x\<lparr>kx_policy := P'\<rparr>)" "\<forall>P. P' = Some P \<longrightarrow> kp_ok P"
  proof (cases "kx_policy x")
    case None
    with that [of None] show ?thesis by simp
  next
    case (Some P)
    have "offer_ok (kc_factors (kq_candidate r), kc_structure (kq_candidate r))" "scope_ok (kq_context r)"
      using assms(2) by (auto simp: kq_ok_def kc_validate_Inr offer_ok_def)
    then obtain P' where "kp_record P (kq_context r) (kc_factors (kq_candidate r)) (outcome_quality outcomes)
        (kc_structure (kq_candidate r)) = (P', None)" "kp_ok P'"
      using kp_record_total [of P "kq_context r" "outcome_quality outcomes"] assms(6) Some unit by blast
    with that [of "Some P'"] Some show ?thesis by simp
  qed
  have "\<not> kq_attempt r \<noteq> kt_proposals s" using assms(3) by simp
  then show ?thesis
    using P' st unfolding kx_next_def fst_conv snd_conv kx_record_outcomes_def prod.case v bind_r_Inr key assms(5) Let_def
      outcome_quality_def
    by (intro exI [of _ P']) (simp add: assms(4) kt_recorded_def)
qed

lemma kx_next_Inr:
  assumes "kx_next (s, x) r (outcomes, threshold, mo, ms) = Inr (s', x')" and "\<forall>P. kx_policy x = Some P \<longrightarrow> kp_ok P"
  shows "kq_key r \<notin> set (kt_seen s) \<and> kt_seen s' = kt_seen s @ [kq_key r] \<and> kt_ok s'
    \<and> (\<exists>P'. x' = x\<lparr>kx_policy := P'\<rparr> \<and> (\<forall>P. P' = Some P \<longrightarrow> kp_ok P))"
proof -
  obtain receipt where g: "kt_ok s" "kq_ok r" "kq_attempt r = kt_proposals s" "kq_key r \<notin> set (kt_seen s)"
      "evaluate_recipe_program_admission (kc_program (kq_candidate r)) outcomes threshold mo ms = Inr receipt"
    using assms(1)
    by (auto simp: kx_next_def kx_record_outcomes_def bind_r_eq_Inr kt_validate_Inr kq_validate_Inr kq_ok_def recipe_key_total
        kq_key_def candidate_key_def split: if_splits)
  have q: "in_unit (outcome_quality outcomes)"
    using recipe_admission_args [OF g(5)] outcome_quality_unit by blast
  obtain P' where "s' = kt_recorded s r (rr_accepted receipt) (outcome_quality outcomes)" "x' = x\<lparr>kx_policy := P'\<rparr>"
      "\<forall>P. P' = Some P \<longrightarrow> kp_ok P"
    using kx_next_start [OF g assms(2)] assms(1) by auto
  then show ?thesis using g(4) kt_recorded_ok [OF g(1,2,4) q] by (auto simp: kt_recorded_def)
qed

section \<open>The search as a ledger\<close>

text \<open>The fixed data of a run: the libraries, the state of the generator at each call, the memory and the length bound.\<close>

record 'g composition_run =
  krun_math :: math_lib
  krun_torch :: torch_lib
  krun_rng :: "'g rng"
  krun_generator :: "composition_state \<Rightarrow> 'g"
  krun_search :: composition_searcher

definition krun_ok :: "'g composition_run \<Rightarrow> bool" where
  "krun_ok y \<longleftrightarrow> torch_ok (krun_torch y) \<and> softmax_sums (krun_torch y) \<and> rng_ok (krun_rng y) \<and> kx_ok (krun_search y)"

fun krun_inv :: "'g composition_run \<Rightarrow> composition_state \<times> composition_searcher \<Rightarrow> bool" where
  "krun_inv y (s, x) \<longleftrightarrow> krun_ok y \<and> kt_ok s \<and> kx_ok x \<and> (\<exists>P. x = (krun_search y)\<lparr>kx_policy := P\<rparr>)"

fun krun_propose :: "'g composition_run \<Rightarrow> composition_state \<times> composition_searcher \<Rightarrow> string \<times> string
    \<Rightarrow> composition_proposal result" where
  "krun_propose y (s, x) (scope, c) =
     bind_r (kx_propose (krun_math y) (krun_torch y) (krun_rng y) x s scope c (krun_generator y s)) (\<lambda>(r, g'). Inr r)"

lemma krun_propose_cases:
  assumes "krun_inv y (s, x)" and "scope_ok scope" and "scope_ok c"
  shows "set (composition_space (krun_search y) scope) \<subseteq> set (kt_seen s) \<Longrightarrow>
      krun_propose y (s, x) (scope, c) = Inl RuntimeError"
    and "\<not> set (composition_space (krun_search y) scope) \<subseteq> set (kt_seen s) \<Longrightarrow>
      \<exists>r. krun_propose y (s, x) (scope, c) = Inr r \<and> fresh_composition s (set (composition_space (krun_search y) scope)) r"
proof -
  have sp: "composition_space x scope = composition_space (krun_search y) scope"
    using assms(1) by (auto simp: composition_space_def)
  have i: "torch_ok (krun_torch y)" "softmax_sums (krun_torch y)" "rng_ok (krun_rng y)" "kt_ok s" "kx_ok x"
    using assms(1) by (simp_all add: krun_ok_def)
  note cases = propose_composition_cases [OF i assms(2,3), unfolded sp, of "krun_math y" "krun_generator y s"]
  show "krun_propose y (s, x) (scope, c) = Inl RuntimeError"
    if "set (composition_space (krun_search y) scope) \<subseteq> set (kt_seen s)"
    using cases(1) [OF that] by simp
  show "\<exists>r. krun_propose y (s, x) (scope, c) = Inr r \<and> fresh_composition s (set (composition_space (krun_search y) scope)) r"
    if "\<not> set (composition_space (krun_search y) scope) \<subseteq> set (kt_seen s)"
    using cases(2) [OF that] by auto
qed

interpretation composition_exploration: exhaustive_search krun_inv "\<lambda>sx. kt_seen (fst sx)" kq_key "\<lambda>y. kx_next"
  "\<lambda>(scope, c). scope_ok scope \<and> scope_ok c"
  "\<lambda>y g. composition_space (krun_search y) (fst g)" krun_propose "\<lambda>y. evidence_args_ok"
proof
  fix y :: "'g composition_run" and sx sx' :: "composition_state \<times> composition_searcher" and r :: composition_proposal
    and e :: "pyfloat list \<times> pyfloat \<times> int \<times> int" and g :: "string \<times> string"
  obtain s x where sx: "sx = (s, x)" by (cases sx)
  obtain s' x' where sx': "sx' = (s', x')" by (cases sx')
  obtain os t mo ms where e: "e = (os, t, mo, ms)" by (cases e) auto
  obtain scope c where g: "g = (scope, c)" by (cases g)
  assume inv: "krun_inv y sx"
  then have i: "krun_inv y (s, x)" "kt_ok s" "kx_ok x" by (simp_all add: sx)
  then have pol: "\<forall>P. kx_policy x = Some P \<longrightarrow> kp_ok P" by (simp add: kx_ok_def)
  show "distinct (kt_seen (fst sx))" using i(2) by (simp add: sx kt_ok_def)
  show "kx_next sx r e = Inr sx' \<Longrightarrow> kq_key r \<notin> set (kt_seen (fst sx))
      \<and> kt_seen (fst sx') = kt_seen (fst sx) @ [kq_key r] \<and> krun_inv y sx'"
    using kx_next_Inr [of s x r os t mo ms s' x', OF _ pol] i by (auto simp: sx sx' e kx_ok_def)
  assume "case g of (scope, c) \<Rightarrow> scope_ok scope \<and> scope_ok c"
  then have sc: "scope_ok scope" "scope_ok c" by (simp_all add: g)
  note cases = krun_propose_cases [OF i(1) sc]
  show "\<not> set (composition_space (krun_search y) (fst g)) \<subseteq> set (kt_seen (fst sx)) \<Longrightarrow>
      \<exists>r. krun_propose y sx g = Inr r
        \<and> kq_key r \<in> set (composition_space (krun_search y) (fst g)) - set (kt_seen (fst sx))"
    using cases(2) by (auto simp: sx g fresh_composition_def)
  show "set (composition_space (krun_search y) (fst g)) \<subseteq> set (kt_seen (fst sx)) \<Longrightarrow>
      krun_propose y sx g = Inl RuntimeError"
    using cases(1) by (auto simp: sx g)
  show "krun_propose y sx g = Inr r \<Longrightarrow> evidence_args_ok e \<Longrightarrow> \<exists>sx'. kx_next sx r e = Inr sx'"
  proof -
    assume p: "krun_propose y sx g = Inr r" and ev: "evidence_args_ok e"
    have f: "fresh_composition s (set (composition_space (krun_search y) scope)) r"
      using cases p by (cases "set (composition_space (krun_search y) scope) \<subseteq> set (kt_seen s)")
        (auto simp: sx g)
    have "recipe_args_ok os t mo ms" using ev by (simp add: e)
    then obtain receipt where "evaluate_recipe_program_admission (kc_program (kq_candidate r)) os t mo ms = Inr receipt"
      using recipe_admission_total by blast
    then show ?thesis
      using kx_next_start [of s r os t mo ms receipt x] i(2) pol f by (auto simp: fresh_composition_def e sx)
  qed
qed

section \<open>Properties\<close>


text \<open>Two files: \<open>twin_inc\<close> and its instructions twice.\<close>

definition pair_memory :: composition_memory where
  "pair_memory = grown one_recipe (composite two_recipes ''append'' 0 1) False None"

lemma pair_memory_ok: "km_ok pair_memory" "km_programs pair_memory = [twin_inc, composite two_recipes ''append'' 0 1]"
proof -
  have "km_files two_recipes = with_recipe (km_files one_recipe) twin_inc False" by (simp add: two_recipes_def)
  then have "fits (km_files one_recipe) (composite two_recipes ''append'' 0 1)"
    using composite_fits [OF two_recipes_ok(1), of 0 1 "''append''"] by (simp add: two_recipes_ok fits_def)
  then show "km_ok pair_memory" unfolding pair_memory_def by (rule grown_ok [OF one_recipe_ok(1)]) simp
qed (simp add: pair_memory_def one_recipe_ok)

definition pair_run :: "unit composition_run" where
  "pair_run = \<lparr>krun_math = linear_math, krun_torch = uniform_torch, krun_rng = first_rng,
     krun_generator = (\<lambda>s. ()), krun_search = \<lparr>kx_memory = pair_memory, kx_max_length = 6, kx_policy = None\<rparr>\<rparr>"


lemma kp_record_ok: "kp_ok P \<Longrightarrow> kp_ok (fst (kp_record P c f q structure)) \<and> kp_weights (fst (kp_record P c f q structure)) = kp_weights P"
proof -
  assume ok: "kp_ok P"
  then have start: "kp_ok (P\<lparr>kp_contexts := AList.update c (get_or (kp_contexts P) c no_credit) (kp_contexts P)\<rparr>)"
    by (auto simp: kp_ok_def get_or_update)
  have learn: "kp_ok (P\<lparr>kp_contexts := AList.update c (credit_entries (get_or (kp_contexts P) c no_credit) q es) (kp_contexts P),
      kp_shared := credit_entries (kp_shared P) q es\<rparr>)" if q: "\<not> invalid_quality q" for es
  proof -
    obtain a where a: "q = Fin a" "0 \<le> a" "a \<le> 1" using q by (auto simp: invalid_quality_iff in_unit_iff)
    have "\<forall>ft. table_ok (credit_entries (kp_shared P) q es ft)"
        "\<forall>ft. table_ok (credit_entries (get_or (kp_contexts P) c no_credit) q es ft)"
      using credit_entries_ok [OF _ a(2,3), THEN conjunct1] ok unfolding a(1) kp_ok_def by blast+
    then show ?thesis using ok by (simp add: kp_ok_def get_or_update)
  qed
  show ?thesis using ok start learn by (auto simp: kp_record_def Let_def split: sum.splits)
qed

text \<open>A policy after any sequence of calls of \<open>record\<close>, refused ones included.\<close>

fun kp_history :: "composition_policy \<Rightarrow> (string \<times> composition_factors \<times> pyfloat \<times> composition_structure option) list
    \<Rightarrow> composition_policy" where
  "kp_history P [] = P"
| "kp_history P ((c, f, q, structure) # calls) = kp_history (fst (kp_record P c f q structure)) calls"

lemma kp_history_ok: "kp_ok P \<Longrightarrow> kp_ok (kp_history P calls) \<and> kp_weights (kp_history P calls) = kp_weights P"
  by (induction P calls rule: kp_history.induct) (use kp_record_ok in auto)

text \<open>
  C34. No composition becomes unreachable.  After any sequence of calls of \<open>record\<close> on a constructed policy,
  refused ones included, the candidates offered get probabilities that sum to one, each positive and at least its share
  of the exploration floor, and \<open>select\<close> returns the index the generator drew with exactly its probability.
\<close>

theorem composition_policy_bounds:
  assumes "kp_init w = Inr P" and "torch_ok torch" and "softmax_sums torch" and "rng_ok rng" and "scope_ok c"
    and "cs \<noteq> []" and "\<forall>x\<in>set cs. kc_validate x = Inr x"
  shows "\<exists>ps k g'. composition_probabilities math torch (kp_history P calls) c (map kc_factors cs) (Some (map kc_structure cs)) = Inr ps
    \<and> length ps = length cs \<and> sum_list ps = 1
    \<and> (\<forall>p\<in>set ps. fin_val (kw_floor w) / of_nat (length cs) \<le> p \<and> 0 < p \<and> p \<le> 1)
    \<and> k < length cs \<and> kp_select math torch rng (kp_history P calls) c cs g = Inr (k, ps ! k, g')"
proof -
  have "kp_weights P = weight_values w" using assms(1) by (auto simp: kp_init_def split: if_splits)
  then show ?thesis
    using kp_select_spec [OF assms(2-4) _ assms(5-7), of "kp_history P calls"] kp_history_ok [OF kp_init_ok [OF assms(1)], of calls]
    by (simp add: weight_values_def)
qed

definition plain_weights :: "pyfloat composition_weights" where
  "plain_weights = \<lparr>kw_floor = Fin (1/10), kw_prior = Fin 1, kw_bonus = Fin 1, kw_left = Fin 1, kw_right = Fin 1, kw_mode = Fin 1,
     kw_left_depth = Fin 1, kw_right_depth = Fin 1, kw_shape = Fin 1, kw_canonical_shape = Fin 1,
     kw_canonical_depth = Fin 1, kw_depth_span = Fin 1, kw_temperature = Fin 1\<rparr>"

definition plain_candidate :: "string \<Rightarrow> composition_candidate" where
  "plain_candidate mode = \<lparr>kc_left_slot = 0, kc_right_slot = 1,
     kc_factors = \<lparr>kf_left = digest_a, kf_right = digest_b, kf_mode = mode, kf_schema = RECIPE_COMPOSITION_FACTORS_SCHEMA\<rparr>,
     kc_program = twin_inc, kc_structure = None, kc_schema = RECIPE_COMPOSITION_CANDIDATE_SCHEMA\<rparr>"

theorem composition_policy_bounds_witness:
  "\<exists>P ps. kp_init plain_weights = Inr P
    \<and> composition_probabilities linear_math uniform_torch
        (kp_history P [(task_c, kc_factors (plain_candidate ''append''), Fin 1, None), ([], kc_factors (plain_candidate ''zip''), NaN, None)])
        task_c (map (\<lambda>m. kc_factors (plain_candidate m)) [''append'', ''prepend'']) (Some [None, None]) = Inr ps
    \<and> sum_list ps = 1 \<and> (\<forall>p\<in>set ps. 1 / 20 \<le> p)"
proof -
  have "isfinite (Fin q)" for q by (simp add: isfinite_iff)
  then obtain P where P: "kp_init plain_weights = Inr P"
    by (simp add: kp_init_def plain_weights_def weight_list_def bad_weight_def)
  have "kc_validate (plain_candidate m) = Inr (plain_candidate m)" if "m \<in> {''append'', ''prepend''}" for m
    using example_keys that by (auto simp: kc_validate_Inr kf_validate_Inr plain_candidate_def RECIPE_COMPOSITION_MODES_def)
  then have "\<forall>x\<in>set (map plain_candidate [''append'', ''prepend'']). kc_validate x = Inr x" by simp
  from composition_policy_bounds [OF P uniform_torch_ok softmax_sums_uniform first_rng_ok example_keys(5) _ this, of linear_math
      "[(task_c, kc_factors (plain_candidate ''append''), Fin 1, None), ([], kc_factors (plain_candidate ''zip''), NaN, None)]"]
  show ?thesis using P by (auto simp: plain_weights_def plain_candidate_def)
qed

end
