(* ===== verification/PayloadItem.thy ===== *)
theory PayloadItem
  imports ControlFlowFrontier
begin

text \<open>
  What the payloads that hold floats and tensors share: reading a \<open>digest_item\<close> the way the readers do
  (\<open>isinstance(value, Mapping)\<close>, \<open>value.get(...)\<close>, \<open>float(...)\<close>, \<open>int(...)\<close>, \<open>tuple(...)\<close>), and the
  canonical JSON text of one, which the digests of the credit memories are taken on.

  The text of a float, \<open>float\<close> of a text and \<open>float\<close> of an integer are the parameter \<open>float_lib\<close>.  A
  dictionary without floats and tensors is written \<open>ValueItem (PDict ...)\<close> or \<open>DictItem\<close>; both are read alike.
\<close>

section \<open>Saving and loading\<close>

text \<open>
  The contract of a pair of \<open>payload\<close> and \<open>from_payload\<close>: what a valid object saves loads as its normal
  form (the same object where nothing is reordered), the normal form saves to the same payload, and whatever
  loads is valid.
\<close>

locale checkpoint =
  fixes save :: "'m \<Rightarrow> digest_item result"
    and load :: "digest_item \<Rightarrow> 'm result"
    and valid :: "'m \<Rightarrow> bool"
    and canon :: "'m \<Rightarrow> 'm"
  assumes save_load: "valid m \<Longrightarrow> \<exists>v. save m = Inr v \<and> load v = Inr (canon m)"
    and load_valid: "load v = Inr m \<Longrightarrow> valid m"
    and save_canon: "valid m \<Longrightarrow> save (canon m) = save m"
begin

lemma canon_valid: "valid m \<Longrightarrow> valid (canon m)"
  using save_load load_valid by blast

lemma canon_idempotent: "valid m \<Longrightarrow> canon (canon m) = canon m"
  using save_load [of m] save_load [OF canon_valid, of m] save_canon [of m] by auto

text \<open>A restored object saves again to the payload it came from.\<close>

lemma restores: "valid m \<Longrightarrow> \<exists>v. save m = Inr v \<and> load v = Inr (canon m) \<and> save (canon m) = Inr v"
  using save_load save_canon by metis

text \<open>Objects with the same payload have the same normal form.\<close>

lemma payload_determines:
  assumes "valid m" and "valid n" and "save m = save n"
  shows "canon m = canon n"
  using save_load [OF assms(1)] save_load [OF assms(2)] assms(3) by auto

text \<open>What was accepted once is accepted again after saving it.\<close>

lemma accepted_again: "load v = Inr m \<Longrightarrow> \<exists>w. save m = Inr w \<and> load w = Inr (canon m)"
  using save_load load_valid by blast

end

section \<open>Reading a value\<close>

record float_lib =
  fl_text :: "pyfloat \<Rightarrow> string"
  fl_parse :: "string \<Rightarrow> pyfloat option"
  fl_of_int :: "int \<Rightarrow> pyfloat result"

fun as_dict :: "digest_item \<Rightarrow> (string \<times> digest_item) list option" where
  "as_dict (DictItem kvs) = Some kvs"
| "as_dict (ValueItem (PDict kvs)) = Some (map (\<lambda>(k, v). (k, ValueItem v)) kvs)"
| "as_dict _ = None"

text \<open>A sequence that is no text.\<close>

fun as_list :: "digest_item \<Rightarrow> digest_item list option" where
  "as_list (ListItem xs) = Some xs"
| "as_list (ValueItem (PList xs)) = Some (map ValueItem xs)"
| "as_list _ = None"

definition item_get :: "(string \<times> digest_item) list \<Rightarrow> string \<Rightarrow> digest_item" where
  "item_get kvs k = (case map_of kvs k of None \<Rightarrow> ValueItem PNone | Some v \<Rightarrow> v)"

definition item_get_default :: "(string \<times> digest_item) list \<Rightarrow> string \<Rightarrow> digest_item \<Rightarrow> digest_item" where
  "item_get_default kvs k d = (case map_of kvs k of None \<Rightarrow> d | Some v \<Rightarrow> v)"

fun py_float :: "float_lib \<Rightarrow> digest_item \<Rightarrow> pyfloat result" where
  "py_float fl (FloatItem x) = Inr x"
| "py_float fl (ValueItem (PInt i)) = fl_of_int fl i"
| "py_float fl (ValueItem (PBool b)) = Inr (Fin (if b then 1 else 0))"
| "py_float fl (ValueItem (PStr s)) = (case fl_parse fl s of None \<Rightarrow> Inl ValueError | Some x \<Rightarrow> Inr x)"
| "py_float fl (TensorItem [x]) = Inr x"
| "py_float fl (TensorItem _) = Inl RuntimeError"
| "py_float fl _ = Inl TypeError"

text \<open>\<open>int\<close> of a float cuts off its fraction, and refuses infinities and NaN.\<close>

fun int_of_float :: "pyfloat \<Rightarrow> int result" where
  "int_of_float (Fin x) = Inr (if 0 \<le> x then \<lfloor>x\<rfloor> else \<lceil>x\<rceil>)"
| "int_of_float NaN = Inl ValueError"
| "int_of_float _ = Inl OverflowError"

fun item_int :: "digest_item \<Rightarrow> int result" where
  "item_int (FloatItem x) = int_of_float x"
| "item_int (ValueItem v) = py_int v"
| "item_int (TensorItem [x]) = int_of_float x"
| "item_int (TensorItem _) = Inl RuntimeError"
| "item_int _ = Inl TypeError"

lemma item_get_simps [simp]:
  "item_get [] k = ValueItem PNone"
  "item_get ((k', v) # kvs) k = (if k' = k then v else item_get kvs k)"
  "item_get_default [] k d = d"
  "item_get_default ((k', v) # kvs) k d = (if k' = k then v else item_get_default kvs k d)"
  by (simp_all add: item_get_def item_get_default_def)

section \<open>Canonical text\<close>

fun json_item :: "(pyfloat \<Rightarrow> string) \<Rightarrow> digest_item \<Rightarrow> string result" where
  "json_item float_text (ValueItem v) = Inr (json_dumps v)"
| "json_item float_text (FloatItem x) = Inr (float_text x)"
| "json_item float_text (TensorItem xs) = Inl TypeError"
| "json_item float_text (DictItem kvs) =
     bind_r (map_r (\<lambda>kv. bind_r (json_item float_text (snd kv)) (\<lambda>text. Inr (fst kv, text))) kvs) (\<lambda>texts.
       Inr (json_object texts))"
| "json_item float_text (ListItem xs) =
     bind_r (map_r (json_item float_text) xs) (\<lambda>texts. Inr (json_array texts))"

definition item_digest :: "float_lib \<Rightarrow> (string \<times> digest_item) list \<Rightarrow> string result" where
  "item_digest fl kvs = bind_r (json_item (fl_text fl) (DictItem kvs)) (\<lambda>text. Inr (sha256_hex text))"

text \<open>Without tensors a value has a text.\<close>

fun no_tensor :: "digest_item \<Rightarrow> bool" where
  "no_tensor (TensorItem xs) = False"
| "no_tensor (DictItem kvs) = list_all (\<lambda>kv. no_tensor (snd kv)) kvs"
| "no_tensor (ListItem xs) = list_all no_tensor xs"
| "no_tensor _ = True"

lemma json_item_total: "no_tensor v \<Longrightarrow> \<exists>text. json_item float_text v = Inr text"
proof (induction v)
  case (DictItem kvs)
  have "\<exists>y. bind_r (json_item float_text (snd kv)) (\<lambda>text. Inr (fst kv, text)) = Inr y" if "kv \<in> set kvs" for kv
  proof -
    obtain k b where kv: "kv = (k, b)" by (cases kv)
    have "no_tensor b" using DictItem.prems that unfolding no_tensor.simps list_all_iff kv by fastforce
    then obtain s where "json_item float_text b = Inr s"
      using DictItem.IH [of kv b] \<open>kv \<in> set kvs\<close> kv by auto
    then show ?thesis by (simp add: kv)
  qed
  then show ?case using map_r_ex [of kvs "\<lambda>kv. bind_r (json_item float_text (snd kv)) (\<lambda>text. Inr (fst kv, text))"] by auto
next
  case (ListItem xs)
  then show ?case using map_r_ex [of xs "json_item float_text"] by (auto simp: list_all_iff)
qed simp_all

lemma item_digest_total:
  assumes "list_all (\<lambda>kv. no_tensor (snd kv)) kvs"
  shows "\<exists>d. item_digest fl kvs = Inr d \<and> digest_ok d"
  using json_item_total [of "DictItem kvs" "fl_text fl"] assms by (auto simp: item_digest_def simp del: json_item.simps)

text \<open>A concrete instance: floats of integers are exact, no text is read.\<close>

definition plain_floats :: float_lib where
  "plain_floats = \<lparr>fl_text = (\<lambda>x. case x of Fin q \<Rightarrow> int_text \<lfloor>q\<rfloor> | _ \<Rightarrow> ''NaN''), fl_parse = (\<lambda>s. None),
     fl_of_int = (\<lambda>i. Inr (Fin (of_int i)))\<rparr>"

end
