(* ===== verification/CreditPayload.thy ===== *)
theory CreditPayload
  imports PayloadItem
begin

text \<open>
  The persistence of scalar credit: \<open>_serialize_stats\<close>, \<open>configuration\<close>, \<open>digest\<close>, \<open>payload\<close> and
  \<open>from_payload\<close> of the credit memories of \<open>recipe_program.py\<close> (\<open>OpaqueContextRecipeProposalMemory\<close>,
  \<open>FactorizedOpaqueContextRecipeProposalMemory\<close>) and of \<open>control_flow_frontier.py\<close>
  (\<open>ControlFlowFrontierProposalMemory\<close>).

  The code writes every dictionary sorted by key, so a restored memory has its tables in another order; the
  normal form \<open>om_sorted\<close>, \<open>fm_sorted\<close> is that reordering.  It scores and learns as the memory that was saved.
\<close>

section \<open>Rows of a table\<close>

definition entry_item :: "rat \<times> rat \<Rightarrow> digest_item" where
  "entry_item tc = ListItem [FloatItem (Fin (fst tc)), FloatItem (Fin (snd tc))]"

definition serialize_rows :: "(string \<Rightarrow> unit result) \<Rightarrow> aggregate_table \<Rightarrow> digest_item result" where
  "serialize_rows check t =
     bind_r (map_r (\<lambda>(key, entry). bind_r (check key) (\<lambda>_. bind_r (aggregate (Some entry)) (\<lambda>tc.
         Inr (key, entry_item tc)))) (sort_key fst t)) (\<lambda>rows. Inr (DictItem rows))"

text \<open>\<open>_aggregate(entry)\<close> of a value that was read.\<close>

definition load_aggregate :: "float_lib \<Rightarrow> digest_item \<Rightarrow> (rat \<times> rat) result" where
  "load_aggregate fl v =
     (case as_list v of
        None \<Rightarrow> Inl TypeError
      | Some xs \<Rightarrow>
          if length xs \<noteq> 2 then Inl ValueError
          else bind_r (map_r (py_float fl) xs) (\<lambda>entry. aggregate (Some entry)))"

fun load_rows :: "(string \<Rightarrow> unit result) \<Rightarrow> float_lib \<Rightarrow> aggregate_table \<Rightarrow> (string \<times> digest_item) list
    \<Rightarrow> aggregate_table result" where
  "load_rows check fl t [] = Inr t"
| "load_rows check fl t ((key, entry) # kvs) =
     bind_r (check key) (\<lambda>_. bind_r (load_aggregate fl entry) (\<lambda>(total, count).
       load_rows check fl (AList.update key [Fin total, Fin count] t) kvs))"

definition rows_ok :: "(string \<Rightarrow> unit result) \<Rightarrow> aggregate_table \<Rightarrow> bool" where
  "rows_ok check t \<longleftrightarrow> table_ok t \<and> distinct (map fst t) \<and> (\<forall>k\<in>fst ` set t. check k = Inr ())"

lemma set_update_subset: "set (AList.update k v t) \<subseteq> insert (k, v) (set t)"
  by (induction t) auto

lemma rows_ok_Nil [simp]: "rows_ok check []"
  by (simp add: rows_ok_def)

lemma aggregate_Inr: "aggregate (Some e) = Inr (a, n) \<Longrightarrow> e = [Fin a, Fin n] \<and> 0 \<le> a \<and> a \<le> n"
proof -
  assume agg: "aggregate (Some e) = Inr (a, n)"
  then have "length e = 2" by (simp add: aggregate_def split: if_splits)
  then obtain x y where "e = [x, y]" by (cases e; cases "tl e") auto
  with agg show ?thesis
    by (cases x; cases y) (auto simp: aggregate_def Let_def not_less split: if_splits)
qed

lemma load_aggregate_entry:
  assumes "0 \<le> a" and "a \<le> n"
  shows "load_aggregate fl (entry_item (a, n)) = Inr (a, n)"
  using assms by (simp add: load_aggregate_def entry_item_def aggregate_def)

lemma rows_ok_entry:
  assumes "rows_ok check t" and "(k, e) \<in> set t"
  shows "\<exists>a n. e = [Fin a, Fin n] \<and> 0 \<le> a \<and> a \<le> n" and "check k = Inr ()"
proof -
  have "map_of t k = Some e" using assms by (simp add: rows_ok_def)
  then show "\<exists>a n. e = [Fin a, Fin n] \<and> 0 \<le> a \<and> a \<le> n"
    using assms(1) unfolding rows_ok_def table_ok_def by blast
  show "check k = Inr ()" using assms by (force simp: rows_ok_def)
qed

lemma rows_ok_alt:
  "rows_ok check t \<longleftrightarrow> distinct (map fst t) \<and> (\<forall>(k, e)\<in>set t. check k = Inr () \<and> (\<exists>a n. e = [Fin a, Fin n] \<and> 0 \<le> a \<and> a \<le> n))"
  (is "_ \<longleftrightarrow> _ \<and> ?entries")
proof
  assume ok: "rows_ok check t"
  then have ?entries using rows_ok_entry [OF ok] by blast
  with ok show "distinct (map fst t) \<and> ?entries" unfolding rows_ok_def by blast
next
  assume r: "distinct (map fst t) \<and> ?entries"
  have "\<exists>a n. e = [Fin a, Fin n] \<and> 0 \<le> a \<and> a \<le> n" if "map_of t k = Some e" for k e
    using r map_of_SomeD [OF that] by blast
  moreover have "\<forall>k\<in>fst ` set t. check k = Inr ()" using r by fastforce
  ultimately show "rows_ok check t" using r unfolding rows_ok_def table_ok_def by blast
qed

lemma load_rows_ok:
  assumes "load_rows check fl t kvs = Inr u" and "rows_ok check t"
  shows "rows_ok check u"
  using assms
proof (induction check fl t kvs rule: load_rows.induct)
  case (2 check fl t key entry kvs)
  then obtain total count where e: "check key = Inr ()" "load_aggregate fl entry = Inr (total, count)"
      "load_rows check fl (AList.update key [Fin total, Fin count] t) kvs = Inr u"
    by (auto simp: bind_r_eq_Inr)
  then have "0 \<le> total \<and> total \<le> count"
    by (auto simp: load_aggregate_def bind_r_eq_Inr dest: aggregate_Inr split: option.splits if_splits)
  moreover have "table_ok t" "distinct (map fst t)" "\<forall>k\<in>fst ` set t. check k = Inr ()"
    using 2(3) unfolding rows_ok_def by blast+
  ultimately have "rows_ok check (AList.update key [Fin total, Fin count] t)"
    using e(1) unfolding rows_ok_def dom_update table_ok_def by (simp add: update_conv' distinct_update)
  then show ?case using 2(1) e by auto
qed simp

text \<open>Sorting by key keeps the entries.\<close>

lemma map_of_sort_key: "distinct (map fst t) \<Longrightarrow> map_of (sort_key fst t) = map_of t"
  by (subst map_of_inject_set) (simp_all add: distinct_map)

lemma sort_key_idem: "sort_key fst (sort_key fst t) = sort_key fst t"
  by (rule sort_key_id_if_sorted) simp

lemma rows_ok_sorted: "rows_ok check t \<Longrightarrow> rows_ok check (sort_key fst t)"
  by (simp add: rows_ok_alt distinct_map)

lemma serialize_sorted: "serialize_rows check (sort_key fst t) = serialize_rows check t"
  by (simp add: serialize_rows_def sort_key_idem)

lemma update_fresh: "k \<notin> fst ` set t \<Longrightarrow> AList.update k v t = t @ [(k, v)]"
  by (induction t) auto

definition row_items :: "aggregate_table \<Rightarrow> (string \<times> digest_item) list" where
  "row_items t = map (\<lambda>(k, e). (k, entry_item (fin_val (e ! 0), fin_val (e ! 1)))) t"

lemma load_row_items:
  assumes "rows_ok check u" and "distinct (map fst (t @ u))"
  shows "load_rows check fl t (row_items u) = Inr (t @ u)"
  using assms
proof (induction u arbitrary: t)
  case (Cons ke u)
  obtain k e where ke: "ke = (k, e)" by (cases ke)
  then obtain a n where e: "e = [Fin a, Fin n]" "0 \<le> a" "a \<le> n" "check k = Inr ()"
    using rows_ok_entry [OF Cons.prems(1), of k e] by auto
  have u: "rows_ok check u"
    using Cons.prems(1) by (simp add: rows_ok_alt)
  have "k \<notin> fst ` set t" using Cons.prems(2) by (auto simp: ke)
  then show ?case
    using Cons.IH [OF u, of "t @ [(k, e)]"] Cons.prems(2) e
    by (simp add: row_items_def ke load_aggregate_entry update_fresh)
qed (simp add: row_items_def)

lemma serialize_rows_eq:
  assumes "rows_ok check t"
  shows "serialize_rows check t = Inr (DictItem (row_items (sort_key fst t)))"
proof -
  have "map_r (\<lambda>(key, entry). bind_r (check key) (\<lambda>_. bind_r (aggregate (Some entry)) (\<lambda>tc.
      Inr (key, entry_item tc)))) (sort_key fst t) = Inr (row_items (sort_key fst t))"
    unfolding row_items_def
  proof (rule map_r_total)
    fix ke assume "ke \<in> set (sort_key fst t)"
    then obtain k e where ke: "ke = (k, e)" "(k, e) \<in> set t" by (metis set_sort surj_pair)
    then obtain a n where "e = [Fin a, Fin n]" "0 \<le> a" "a \<le> n" "check k = Inr ()"
      using rows_ok_entry [OF assms] by blast
    then show "(case ke of (key, entry) \<Rightarrow> bind_r (check key) (\<lambda>_. bind_r (aggregate (Some entry)) (\<lambda>tc.
        Inr (key, entry_item tc)))) = Inr (case ke of (k, e) \<Rightarrow> (k, entry_item (fin_val (e ! 0), fin_val (e ! 1))))"
      by (simp add: ke aggregate_def)
  qed
  then show ?thesis by (simp add: serialize_rows_def)
qed

lemma row_items_plain: "list_all (\<lambda>kv. no_tensor (snd kv)) (row_items t)"
  by (auto simp: row_items_def entry_item_def list_all_iff)

text \<open>What a table writes is read back sorted.\<close>

lemma rows_roundtrip:
  assumes "rows_ok check t"
  shows "load_rows check fl [] (row_items (sort_key fst t)) = Inr (sort_key fst t)"
  using load_row_items [OF rows_ok_sorted [OF assms], of "[]"] rows_ok_sorted [OF assms] by (simp add: rows_ok_alt)

section \<open>One table per factor type\<close>

definition no_check :: "string \<Rightarrow> unit result" where
  "no_check key = Inr ()"

definition serialize_tables :: "(string \<times> 'f) list \<Rightarrow> ('f \<Rightarrow> aggregate_table) \<Rightarrow> digest_item result" where
  "serialize_tables names T =
     bind_r (map_r (\<lambda>(name, factor_type). bind_r (serialize_rows no_check (T factor_type)) (\<lambda>v. Inr (name, v))) names)
       (\<lambda>rows. Inr (DictItem rows))"

text \<open>A lenient reader takes a missing table for an empty one.\<close>

fun load_tables :: "bool \<Rightarrow> float_lib \<Rightarrow> ('f \<Rightarrow> aggregate_table) \<Rightarrow> (string \<times> 'f) list \<Rightarrow> (string \<times> digest_item) list
    \<Rightarrow> ('f \<Rightarrow> aggregate_table) result" where
  "load_tables lenient fl T [] raw = Inr T"
| "load_tables lenient fl T ((name, factor_type) # names) raw =
     (let values = item_get raw name
      in case as_dict (if lenient \<and> values = ValueItem PNone then DictItem [] else values) of
           None \<Rightarrow> Inl TypeError
         | Some rows \<Rightarrow> bind_r (load_rows no_check fl [] rows) (\<lambda>t.
             load_tables lenient fl (T(factor_type := t)) names raw))"

definition tables_ok :: "('f \<Rightarrow> aggregate_table) \<Rightarrow> bool" where
  "tables_ok T \<longleftrightarrow> (\<forall>factor_type. rows_ok no_check (T factor_type))"

definition sorted_tables :: "('f \<Rightarrow> aggregate_table) \<Rightarrow> 'f \<Rightarrow> aggregate_table" where
  "sorted_tables T = (\<lambda>factor_type. sort_key fst (T factor_type))"

definition table_items :: "(string \<times> 'f) list \<Rightarrow> ('f \<Rightarrow> aggregate_table) \<Rightarrow> (string \<times> digest_item) list" where
  "table_items names T = map (\<lambda>(name, factor_type). (name, DictItem (row_items (sort_key fst (T factor_type))))) names"

lemma tables_ok_sorted: "tables_ok T \<Longrightarrow> tables_ok (sorted_tables T)"
  by (simp add: tables_ok_def sorted_tables_def rows_ok_sorted)

lemma serialize_tables_sorted: "serialize_tables names (sorted_tables T) = serialize_tables names T"
  by (simp add: serialize_tables_def sorted_tables_def serialize_sorted)

lemma serialize_tables_eq:
  assumes "tables_ok T"
  shows "serialize_tables names T = Inr (DictItem (table_items names T))"
proof -
  have "map_r (\<lambda>(name, factor_type). bind_r (serialize_rows no_check (T factor_type)) (\<lambda>v. Inr (name, v))) names
      = Inr (table_items names T)"
    unfolding table_items_def
    by (rule map_r_total) (use assms in \<open>auto simp: tables_ok_def serialize_rows_eq\<close>)
  then show ?thesis by (simp add: serialize_tables_def)
qed

lemma table_items_plain: "list_all (\<lambda>kv. no_tensor (snd kv)) (table_items names T)"
  using row_items_plain by (force simp: table_items_def list_all_iff)

lemma item_get_table:
  "distinct (map fst names) \<Longrightarrow> (name, factor_type) \<in> set names
   \<Longrightarrow> item_get (table_items names T) name = DictItem (row_items (sort_key fst (T factor_type)))"
  by (induction names) (force simp: table_items_def)+

lemma load_table_items:
  assumes "tables_ok T" and "\<forall>(name, factor_type)\<in>set names.
      item_get raw name = DictItem (row_items (sort_key fst (T factor_type)))"
  shows "load_tables lenient fl U names raw =
    Inr (\<lambda>factor_type. if factor_type \<in> snd ` set names then sorted_tables T factor_type else U factor_type)"
  using assms(2)
proof (induction names arbitrary: U)
  case (Cons nf names)
  obtain name ft where nf: "nf = (name, ft)" by (cases nf)
  have "load_rows no_check fl [] (row_items (sort_key fst (T ft))) = Inr (sort_key fst (T ft))"
    using assms(1) by (simp add: rows_roundtrip tables_ok_def)
  then show ?case using Cons by (auto simp: nf sorted_tables_def fun_eq_iff)
qed simp

lemma tables_roundtrip:
  assumes "tables_ok T" and "distinct (map fst names)" and "snd ` set names = UNIV"
  shows "load_tables lenient fl U names (table_items names T) = Inr (sorted_tables T)"
proof -
  have "\<forall>(name, factor_type)\<in>set names.
      item_get (table_items names T) name = DictItem (row_items (sort_key fst (T factor_type)))"
    using item_get_table [OF assms(2)] by blast
  from load_table_items [OF assms(1) this, of lenient fl U] show ?thesis by (simp add: assms(3) sorted_tables_def)
qed

lemma load_tables_ok: "load_tables lenient fl U names raw = Inr T \<Longrightarrow> tables_ok U \<Longrightarrow> tables_ok T"
proof (induction names arbitrary: U)
  case (Cons nf names)
  obtain name ft where nf: "nf = (name, ft)" by (cases nf)
  from Cons.prems(1) obtain rows t where r: "load_rows no_check fl [] rows = Inr t"
      "load_tables lenient fl (U(ft := t)) names raw = Inr T"
    by (auto simp: nf Let_def bind_r_eq_Inr split: option.splits)
  have "rows_ok no_check t" using load_rows_ok [OF r(1)] by simp
  then have "tables_ok (U(ft := t))" using Cons.prems(2) by (simp add: tables_ok_def)
  then show ?case using Cons.IH [OF r(2)] by blast
qed simp

section \<open>Tables per context\<close>

definition serialize_contexts :: "(string \<Rightarrow> unit result) \<Rightarrow> ('a \<Rightarrow> digest_item result) \<Rightarrow> (string \<times> 'a) list \<Rightarrow> digest_item result" where
  "serialize_contexts check save stats =
     bind_r (map_r (\<lambda>(context, t). bind_r (check context) (\<lambda>_. bind_r (save t) (\<lambda>v. Inr (context, v)))) (sort_key fst stats))
       (\<lambda>rows. Inr (DictItem rows))"

fun load_contexts :: "((string \<times> digest_item) list \<Rightarrow> 'a result) \<Rightarrow> (string \<times> 'a) list \<Rightarrow> (string \<times> digest_item) list
    \<Rightarrow> (string \<times> 'a) list result" where
  "load_contexts load stats [] = Inr stats"
| "load_contexts load stats ((context, v) # raw) =
     bind_r (validate_context context) (\<lambda>_.
       case as_dict v of
         None \<Rightarrow> Inl TypeError
       | Some kvs \<Rightarrow> bind_r (load kvs) (\<lambda>t. load_contexts load (AList.update context t stats) raw))"

definition contexts_ok :: "('a \<Rightarrow> bool) \<Rightarrow> (string \<times> 'a) list \<Rightarrow> bool" where
  "contexts_ok valid stats \<longleftrightarrow> distinct (map fst stats) \<and> (\<forall>(context, t)\<in>set stats. scope_ok context \<and> valid t)"

definition sorted_contexts :: "('a \<Rightarrow> 'a) \<Rightarrow> (string \<times> 'a) list \<Rightarrow> (string \<times> 'a) list" where
  "sorted_contexts canon stats = map (\<lambda>(context, t). (context, canon t)) (sort_key fst stats)"

text \<open>
  What the tables of one context promise to the memory that holds one per context: they are written as a
  dictionary without tensors, which reads back as their normal form; what is read is valid.
\<close>

locale stats_codec =
  fixes check :: "string \<Rightarrow> unit result"
    and save :: "'a \<Rightarrow> digest_item result"
    and load :: "(string \<times> digest_item) list \<Rightarrow> 'a result"
    and valid :: "'a \<Rightarrow> bool"
    and canon :: "'a \<Rightarrow> 'a"
    and items :: "'a \<Rightarrow> (string \<times> digest_item) list"
  assumes written: "valid t \<Longrightarrow> save t = Inr (DictItem (items t))"
    and items_plain: "list_all (\<lambda>kv. no_tensor (snd kv)) (items t)"
    and load_items: "valid t \<Longrightarrow> load (items t) = Inr (canon t)"
    and load_valid: "load kvs = Inr t \<Longrightarrow> valid t"
    and canon_written: "save (canon t) = save t"
    and context_passes: "scope_ok c \<Longrightarrow> check c = Inr ()"
begin

definition context_items :: "(string \<times> 'a) list \<Rightarrow> (string \<times> digest_item) list" where
  "context_items stats = map (\<lambda>(context, t). (context, DictItem (items t))) (sort_key fst stats)"

lemma contexts_ok_sorted: "contexts_ok valid stats \<Longrightarrow> contexts_ok valid (sort_key fst stats)"
  by (simp add: contexts_ok_def distinct_map)

lemma serialize_contexts_eq:
  assumes "contexts_ok valid stats"
  shows "serialize_contexts check save stats = Inr (DictItem (context_items stats))"
proof -
  have "map_r (\<lambda>(context, t). bind_r (check context) (\<lambda>_. bind_r (save t) (\<lambda>v. Inr (context, v)))) (sort_key fst stats)
      = Inr (context_items stats)"
    unfolding context_items_def
    by (rule map_r_total) (use assms in \<open>auto simp: contexts_ok_def written context_passes\<close>)
  then show ?thesis by (simp add: serialize_contexts_def)
qed

lemma context_items_plain: "list_all (\<lambda>kv. no_tensor (snd kv)) (context_items stats)"
  using items_plain by (force simp: context_items_def list_all_iff)

lemma load_context_items:
  assumes "contexts_ok valid new" and "distinct (map fst (old @ new))"
  shows "load_contexts load old (map (\<lambda>(context, t). (context, DictItem (items t))) new)
    = Inr (old @ map (\<lambda>(context, t). (context, canon t)) new)"
  using assms
proof (induction new arbitrary: old)
  case (Cons ct new)
  obtain c t where ct: "ct = (c, t)" by (cases ct)
  have "contexts_ok valid new" "scope_ok c" "valid t" using Cons.prems(1) by (auto simp: contexts_ok_def ct)
  moreover have "c \<notin> fst ` set old" using Cons.prems(2) by (auto simp: ct)
  ultimately show ?case
    using Cons.IH [of "old @ [(c, canon t)]"] Cons.prems(2) validate_context_Inr [of c]
    by (auto simp: ct load_items update_fresh)
qed simp

lemma contexts_roundtrip:
  assumes "contexts_ok valid stats"
  shows "load_contexts load [] (context_items stats) = Inr (sorted_contexts canon stats)"
  using load_context_items [OF contexts_ok_sorted [OF assms], of "[]"] contexts_ok_sorted [OF assms]
  by (simp add: context_items_def sorted_contexts_def contexts_ok_def)

lemma load_contexts_ok: "load_contexts load old raw = Inr new \<Longrightarrow> contexts_ok valid old \<Longrightarrow> contexts_ok valid new"
proof (induction raw arbitrary: old)
  case (Cons cv raw)
  obtain c v where cv: "cv = (c, v)" by (cases cv)
  from Cons.prems(1) obtain kvs t where r: "validate_context c = Inr ()" "load kvs = Inr t"
      "load_contexts load (AList.update c t old) raw = Inr new"
    by (auto simp: cv bind_r_eq_Inr split: option.splits)
  have "contexts_ok valid (AList.update c t old)"
    using Cons.prems(2) r(1) load_valid [OF r(2)] set_update_subset [of c t old]
    by (auto simp: contexts_ok_def validate_context_Inr distinct_update)
  then show ?case using Cons.IH r(3) by blast
qed simp

lemma load_all_ok: "load_contexts load [] raw = Inr new \<Longrightarrow> contexts_ok valid new"
  using load_contexts_ok [of "[]" raw new] by (simp add: contexts_ok_def)

lemma serialize_sorted_contexts: "serialize_contexts check save (sorted_contexts canon stats) = serialize_contexts check save stats"
proof -
  have "sort_key fst (sorted_contexts canon stats) = sorted_contexts canon stats"
    unfolding sorted_contexts_def by (rule sort_key_id_if_sorted) (simp add: comp_def case_prod_beta)
  then show ?thesis
    by (simp add: serialize_contexts_def) (simp add: sorted_contexts_def map_r_map canon_written case_prod_unfold)
qed

end

section \<open>Credit of whole candidates\<close>

definition text_item :: "string \<Rightarrow> digest_item" where
  "text_item s = ValueItem (PStr s)"

text \<open>\<open>isinstance(expected, str)\<close> and equal to the digest of what was loaded.\<close>

fun checked :: "digest_item \<Rightarrow> string result \<Rightarrow> 'm \<Rightarrow> 'm result" where
  "checked (ValueItem (PStr expected)) digest m =
     bind_r digest (\<lambda>d. if expected \<noteq> d then Inl ValueError else Inr m)"
| "checked _ digest m = Inl ValueError"

text \<open>\<open>float(configuration.get(name, -1.0))\<close> for one name after the other.\<close>

definition load_weights :: "float_lib \<Rightarrow> (string \<times> digest_item) list \<Rightarrow> (string \<times> rat) list \<Rightarrow> pyfloat list result" where
  "load_weights fl configuration names =
     map_r (\<lambda>(name, missing). py_float fl (item_get_default configuration name (FloatItem (Fin missing)))) names"

definition RECIPE_CONTEXT_PROPOSAL_MEMORY_SCHEMA :: string where
  "RECIPE_CONTEXT_PROPOSAL_MEMORY_SCHEMA =
     ''neural-computer.external-context-conditioned-recipe-proposal-memory.v1''"

definition om_configuration :: "opaque_memory \<Rightarrow> digest_item" where
  "om_configuration m = DictItem
     [(''schema'', text_item RECIPE_CONTEXT_PROPOSAL_MEMORY_SCHEMA),
      (''exploration_floor'', FloatItem (Fin (om_floor m))),
      (''global_prior_weight'', FloatItem (Fin (om_prior_weight m))),
      (''exploration_bonus'', FloatItem (Fin (om_bonus m))),
      (''temperature'', FloatItem (Fin (om_temperature m))),
      (''credit'', text_item ''scalar_candidate_quality_aggregate_v1''),
      (''context'', text_item ''opaque_external_key_v1''),
      (''candidate'', text_item ''content_addressed_recipe_digest_v1'')]"

definition om_serialize_stats :: "(string \<times> aggregate_table) list \<Rightarrow> digest_item result" where
  "om_serialize_stats = serialize_contexts validate_context (serialize_rows validate_digest)"

definition om_content :: "opaque_memory \<Rightarrow> (string \<times> digest_item) list result" where
  "om_content m =
     bind_r (om_serialize_stats (om_context_stats m)) (\<lambda>context_stats.
     bind_r (om_serialize_stats [(''global'', om_global_stats m)]) (\<lambda>stats.
       Inr [(''schema'', text_item RECIPE_CONTEXT_PROPOSAL_MEMORY_SCHEMA),
            (''configuration'', om_configuration m),
            (''context_stats'', context_stats),
            (''global_stats'', case as_dict stats of None \<Rightarrow> ValueItem PNone | Some kvs \<Rightarrow> item_get kvs ''global'')]))"

definition om_digest :: "float_lib \<Rightarrow> opaque_memory \<Rightarrow> string result" where
  "om_digest fl m = bind_r (om_content m) (item_digest fl)"

definition om_payload :: "float_lib \<Rightarrow> opaque_memory \<Rightarrow> digest_item result" where
  "om_payload fl m =
     bind_r (om_content m) (\<lambda>content. bind_r (om_digest fl m) (\<lambda>digest.
       Inr (DictItem (content @ [(''sha256'', text_item digest)]))))"

definition om_load_stats :: "float_lib \<Rightarrow> (string \<times> digest_item) list \<Rightarrow> (string \<times> aggregate_table) list result" where
  "om_load_stats fl = load_contexts (load_rows validate_digest fl []) []"

definition om_from_payload :: "float_lib \<Rightarrow> digest_item \<Rightarrow> opaque_memory result" where
  "om_from_payload fl payload =
     (case as_dict payload of
        None \<Rightarrow> Inl ValueError
      | Some kvs \<Rightarrow>
          if item_get kvs ''schema'' \<noteq> text_item RECIPE_CONTEXT_PROPOSAL_MEMORY_SCHEMA then Inl ValueError
          else (case (as_dict (item_get kvs ''configuration''), as_dict (item_get kvs ''context_stats''),
                      as_dict (item_get kvs ''global_stats'')) of
                  (Some configuration, Some context_stats, Some _) \<Rightarrow>
                    bind_r (load_weights fl configuration [(''exploration_floor'', -1), (''global_prior_weight'', -1),
                        (''exploration_bonus'', -1), (''temperature'', -1)]) (\<lambda>w.
                    bind_r (om_init (w ! 0) (w ! 1) (w ! 2) (w ! 3)) (\<lambda>m.
                    bind_r (om_load_stats fl context_stats) (\<lambda>loaded.
                    bind_r (om_load_stats fl [(''global'', item_get kvs ''global_stats'')]) (\<lambda>loaded_global.
                      let memory = m\<lparr>om_context_stats := loaded,
                                     om_global_stats := get_or loaded_global ''global'' []\<rparr>
                      in checked (item_get kvs ''sha256'') (om_digest fl memory) memory))))
                | _ \<Rightarrow> Inl TypeError))"

definition om_valid :: "opaque_memory \<Rightarrow> bool" where
  "om_valid m \<longleftrightarrow> 0 \<le> om_floor m \<and> om_floor m < 1 \<and> 0 \<le> om_prior_weight m \<and> 0 \<le> om_bonus m \<and> 0 < om_temperature m
     \<and> contexts_ok (rows_ok validate_digest) (om_context_stats m) \<and> rows_ok validate_digest (om_global_stats m)"

definition om_sorted :: "opaque_memory \<Rightarrow> opaque_memory" where
  "om_sorted m = m\<lparr>om_context_stats := sorted_contexts (sort_key fst) (om_context_stats m),
                  om_global_stats := sort_key fst (om_global_stats m)\<rparr>"

interpretation opaque_stats: stats_codec validate_context "serialize_rows validate_digest"
  "load_rows validate_digest fl []" "rows_ok validate_digest" "sort_key fst" "\<lambda>t. row_items (sort_key fst t)" for fl
proof
  show "serialize_rows validate_digest (sort_key fst t) = serialize_rows validate_digest t" for t
    by (rule serialize_sorted)
qed (auto simp: serialize_rows_eq row_items_plain rows_roundtrip validate_context_Inr intro: load_rows_ok)

lemma checked_Inr: "checked v digest m = Inr m' \<longleftrightarrow> m' = m \<and> (\<exists>d. v = text_item d \<and> digest = Inr d)"
  by (cases "(v, digest, m)" rule: checked.cases) (auto simp: bind_r_eq_Inr text_item_def)

lemma om_init_load:
  "0 \<le> a \<Longrightarrow> a < 1 \<Longrightarrow> 0 \<le> b \<Longrightarrow> 0 \<le> c \<Longrightarrow> 0 < d \<Longrightarrow> om_init (Fin a) (Fin b) (Fin c) (Fin d) =
    Inr \<lparr>om_floor = a, om_prior_weight = b, om_bonus = c, om_temperature = d, om_context_stats = [], om_global_stats = []\<rparr>"
  by (simp add: om_init_def bad_weight_def)

lemma global_ok: "rows_ok validate_digest t \<Longrightarrow> contexts_ok (rows_ok validate_digest) [(''global'', t)]"
  by (simp add: contexts_ok_def scope_ok_def NUL_def)

definition om_items :: "opaque_memory \<Rightarrow> (string \<times> digest_item) list" where
  "om_items m = [(''schema'', text_item RECIPE_CONTEXT_PROPOSAL_MEMORY_SCHEMA), (''configuration'', om_configuration m),
     (''context_stats'', DictItem (opaque_stats.context_items (om_context_stats m))),
     (''global_stats'', DictItem (row_items (sort_key fst (om_global_stats m))))]"

lemma om_content_eq:
  assumes "om_valid m"
  shows "om_content m = Inr (om_items m)"
  using assms opaque_stats.serialize_contexts_eq [of "om_context_stats m"]
    opaque_stats.serialize_contexts_eq [OF global_ok, of "om_global_stats m"]
  by (simp add: om_content_def om_items_def om_serialize_stats_def om_valid_def opaque_stats.context_items_def)

lemma om_digest_total: "om_valid m \<Longrightarrow> \<exists>d. om_digest fl m = Inr d \<and> digest_ok d"
  using item_digest_total [of "om_items m" fl] opaque_stats.context_items_plain [of "om_context_stats m"]
    row_items_plain [of "sort_key fst (om_global_stats m)"]
  by (simp add: om_digest_def om_content_eq om_items_def om_configuration_def text_item_def)

lemma om_sorted_content: "om_content (om_sorted m) = om_content m"
  using opaque_stats.serialize_sorted_contexts [of "om_context_stats m"]
    opaque_stats.serialize_sorted_contexts [of "[(''global'', om_global_stats m)]"]
  by (simp add: om_content_def om_serialize_stats_def om_sorted_def om_configuration_def sorted_contexts_def)

lemma om_roundtrip:
  assumes "om_valid m"
  shows "\<exists>v. om_payload fl m = Inr v \<and> om_from_payload fl v = Inr (om_sorted m)"
proof -
  obtain d where d: "om_digest fl m = Inr d" using om_digest_total [OF assms] by blast
  have sorted: "om_digest fl (om_sorted m) = Inr d" using d by (simp add: om_digest_def om_sorted_content)
  let ?v = "DictItem (om_items m @ [(''sha256'', text_item d)])"
  have "om_payload fl m = Inr ?v" by (simp add: om_payload_def om_content_eq [OF assms] d)
  moreover have stats: "om_load_stats fl (opaque_stats.context_items (om_context_stats m))
      = Inr (sorted_contexts (sort_key fst) (om_context_stats m))"
    using assms opaque_stats.contexts_roundtrip by (simp add: om_valid_def om_load_stats_def)
  moreover have global: "om_load_stats fl [(''global'', DictItem (row_items (sort_key fst (om_global_stats m))))]
      = Inr [(''global'', sort_key fst (om_global_stats m))]"
    using assms rows_roundtrip [of validate_digest "om_global_stats m" fl]
    by (simp add: om_valid_def om_load_stats_def validate_context_def NUL_def)
  ultimately show ?thesis
    using assms sorted
    by (cases m) (simp add: om_from_payload_def om_items_def om_configuration_def load_weights_def om_valid_def
        om_init_load stats global get_or_def checked_Inr om_sorted_def Let_def)
qed

lemma om_init_valid: "om_init a b c d = Inr m \<Longrightarrow> om_valid m"
  by (auto simp: om_init_def om_valid_def bad_weight_def isfinite_iff contexts_ok_def split: if_splits)

lemma om_load_valid:
  assumes "om_from_payload fl v = Inr m"
  shows "om_valid m" and "\<exists>kvs d. as_dict v = Some kvs \<and> item_get kvs ''sha256'' = text_item d \<and> om_digest fl m = Inr d"
proof -
  obtain kvs where kvs: "as_dict v = Some kvs" using assms by (auto simp: om_from_payload_def split: option.splits)
  obtain w fresh context_stats loaded loaded_global where r: "om_init (w ! 0) (w ! 1) (w ! 2) (w ! 3) = Inr fresh"
      "om_load_stats fl context_stats = Inr loaded"
      "om_load_stats fl [(''global'', item_get kvs ''global_stats'')] = Inr loaded_global"
      "m = fresh\<lparr>om_context_stats := loaded, om_global_stats := get_or loaded_global ''global'' []\<rparr>"
      "\<exists>d. item_get kvs ''sha256'' = text_item d \<and> om_digest fl m = Inr d"
    using assms unfolding om_from_payload_def kvs
    by (auto simp: bind_r_eq_Inr checked_Inr Let_def split: option.splits if_splits)
  have "contexts_ok (rows_ok validate_digest) loaded" "contexts_ok (rows_ok validate_digest) loaded_global"
    using opaque_stats.load_all_ok [OF r(2) [unfolded om_load_stats_def]]
      opaque_stats.load_all_ok [OF r(3) [unfolded om_load_stats_def]] by blast+
  moreover from this(2) have "rows_ok validate_digest (get_or loaded_global ''global'' [])"
    by (auto simp: contexts_ok_def get_or_def dest!: map_of_SomeD split: option.splits)
  ultimately show "om_valid m" using om_init_valid [OF r(1)] unfolding r(4) om_valid_def by simp
  show "\<exists>kvs d. as_dict v = Some kvs \<and> item_get kvs ''sha256'' = text_item d \<and> om_digest fl m = Inr d"
    using kvs r(5) by blast
qed

interpretation opaque_checkpoint: checkpoint "om_payload fl" "om_from_payload fl" om_valid om_sorted for fl
proof
  show "om_payload fl (om_sorted m) = om_payload fl m" for m
    by (simp add: om_payload_def om_sorted_content om_digest_def)
qed (simp_all add: om_roundtrip om_load_valid(1))

section \<open>Credit of factors\<close>

definition RECIPE_FACTORIZED_CONTEXT_PROPOSAL_MEMORY_SCHEMA :: string where
  "RECIPE_FACTORIZED_CONTEXT_PROPOSAL_MEMORY_SCHEMA =
     ''neural-computer.external-factorized-context-proposal-memory.v1''"

definition CONTROL_FLOW_FRONTIER_PROPOSAL_MEMORY_SCHEMA :: string where
  "CONTROL_FLOW_FRONTIER_PROPOSAL_MEMORY_SCHEMA =
     ''neural-computer.external-control-flow-frontier-proposal-memory.v1''"

definition FACTOR_TYPES :: "(string \<times> factor_type) list" where
  "FACTOR_TYPES = [(''instruction'', FInstruction), (''position'', FPosition), (''operator'', FOperator)]"

text \<open>The two classes with factors of edits differ in their schema and in the notes of the configuration.\<close>

definition factor_configuration :: "string \<Rightarrow> (string \<times> digest_item) list \<Rightarrow> factor_memory \<Rightarrow> digest_item" where
  "factor_configuration schema notes m = DictItem
     ([(''schema'', text_item schema),
       (''exploration_floor'', FloatItem (Fin (fm_floor m))),
       (''shared_prior_weight'', FloatItem (Fin (fm_prior_weight m))),
       (''exploration_bonus'', FloatItem (Fin (fm_bonus m))),
       (''instruction_weight'', FloatItem (Fin (fm_instruction_weight m))),
       (''position_weight'', FloatItem (Fin (fm_position_weight m))),
       (''operator_weight'', FloatItem (Fin (fm_operator_weight m))),
       (''temperature'', FloatItem (Fin (fm_temperature m)))] @ notes)"

definition fm_serialize_stats :: "factor_tables \<Rightarrow> digest_item result" where
  "fm_serialize_stats = serialize_tables FACTOR_TYPES"

definition factor_content :: "string \<Rightarrow> (string \<times> digest_item) list \<Rightarrow> factor_memory \<Rightarrow> (string \<times> digest_item) list result" where
  "factor_content schema notes m =
     bind_r (fm_serialize_stats (fm_shared_stats m)) (\<lambda>shared_stats.
     bind_r (serialize_contexts no_check fm_serialize_stats (fm_context_stats m)) (\<lambda>context_stats.
       Inr [(''schema'', text_item schema), (''configuration'', factor_configuration schema notes m),
            (''shared_stats'', shared_stats), (''context_stats'', context_stats)]))"

definition factor_digest :: "(string \<times> digest_item) list result \<Rightarrow> float_lib \<Rightarrow> string result" where
  "factor_digest content fl = bind_r content (item_digest fl)"

definition factor_payload :: "(string \<times> digest_item) list result \<Rightarrow> float_lib \<Rightarrow> digest_item result" where
  "factor_payload content fl =
     bind_r content (\<lambda>kvs. bind_r (factor_digest content fl) (\<lambda>digest.
       Inr (DictItem (kvs @ [(''sha256'', text_item digest)]))))"

definition fm_load_stats :: "float_lib \<Rightarrow> (string \<times> digest_item) list \<Rightarrow> factor_tables result" where
  "fm_load_stats fl = load_tables False fl empty_stats FACTOR_TYPES"

definition load_factor_memory :: "string \<Rightarrow> (factor_memory \<Rightarrow> string result) \<Rightarrow> float_lib \<Rightarrow> digest_item \<Rightarrow> factor_memory result" where
  "load_factor_memory schema digest fl payload =
     (case as_dict payload of
        None \<Rightarrow> Inl ValueError
      | Some kvs \<Rightarrow>
          if item_get kvs ''schema'' \<noteq> text_item schema then Inl ValueError
          else (case (as_dict (item_get kvs ''configuration''), as_dict (item_get kvs ''shared_stats''),
                      as_dict (item_get kvs ''context_stats'')) of
                  (Some configuration, Some shared_stats, Some context_stats) \<Rightarrow>
                    bind_r (load_weights fl configuration [(''exploration_floor'', -1), (''shared_prior_weight'', -1),
                        (''exploration_bonus'', -1), (''instruction_weight'', -1), (''position_weight'', -1),
                        (''operator_weight'', -1), (''temperature'', -1)]) (\<lambda>w.
                    bind_r (fm_init (w ! 0) (w ! 1) (w ! 2) (w ! 3) (w ! 4) (w ! 5) (w ! 6)) (\<lambda>m.
                    bind_r (fm_load_stats fl shared_stats) (\<lambda>shared.
                    bind_r (load_contexts (fm_load_stats fl) [] context_stats) (\<lambda>contexts.
                      let memory = m\<lparr>fm_shared_stats := shared, fm_context_stats := contexts\<rparr>
                      in checked (item_get kvs ''sha256'') (digest memory) memory))))
                | _ \<Rightarrow> Inl TypeError))"

definition fm_notes :: "(string \<times> digest_item) list" where
  "fm_notes =
     [(''credit'', text_item ''scalar_factor_aggregate_without_candidate_rows_v1''),
      (''context'', text_item ''opaque_external_key_v1''),
      (''instruction'', text_item ''content_addressed_generic_instruction_digest_v1''),
      (''position'', text_item ''operator_relative_integer_position_v1'')]"

definition fm_configuration :: "factor_memory \<Rightarrow> digest_item" where
  "fm_configuration = factor_configuration RECIPE_FACTORIZED_CONTEXT_PROPOSAL_MEMORY_SCHEMA fm_notes"

definition fm_content :: "factor_memory \<Rightarrow> (string \<times> digest_item) list result" where
  "fm_content = factor_content RECIPE_FACTORIZED_CONTEXT_PROPOSAL_MEMORY_SCHEMA fm_notes"

definition fm_digest :: "float_lib \<Rightarrow> factor_memory \<Rightarrow> string result" where
  "fm_digest fl m = factor_digest (fm_content m) fl"

definition fm_payload :: "float_lib \<Rightarrow> factor_memory \<Rightarrow> digest_item result" where
  "fm_payload fl m = factor_payload (fm_content m) fl"

definition fm_from_payload :: "float_lib \<Rightarrow> digest_item \<Rightarrow> factor_memory result" where
  "fm_from_payload fl = load_factor_memory RECIPE_FACTORIZED_CONTEXT_PROPOSAL_MEMORY_SCHEMA (fm_digest fl) fl"

definition pm_notes :: "(string \<times> digest_item) list" where
  "pm_notes =
     [(''credit'', text_item ''scalar_factor_aggregate_without_candidate_rows_v1''),
      (''context'', text_item ''opaque_external_key_v1''),
      (''position'', text_item ''relative_to_nonterminal_boundary_v1''),
      (''instruction'', text_item ''content_addressed_generic_instruction_digest_v1'')]"

definition pm_configuration :: "factor_memory \<Rightarrow> digest_item" where
  "pm_configuration = factor_configuration CONTROL_FLOW_FRONTIER_PROPOSAL_MEMORY_SCHEMA pm_notes"

definition pm_content :: "factor_memory \<Rightarrow> (string \<times> digest_item) list result" where
  "pm_content = factor_content CONTROL_FLOW_FRONTIER_PROPOSAL_MEMORY_SCHEMA pm_notes"

definition pm_digest :: "float_lib \<Rightarrow> factor_memory \<Rightarrow> string result" where
  "pm_digest fl m = factor_digest (pm_content m) fl"

definition pm_payload :: "float_lib \<Rightarrow> factor_memory \<Rightarrow> digest_item result" where
  "pm_payload fl m = factor_payload (pm_content m) fl"

definition pm_from_payload :: "float_lib \<Rightarrow> digest_item \<Rightarrow> factor_memory result" where
  "pm_from_payload fl = load_factor_memory CONTROL_FLOW_FRONTIER_PROPOSAL_MEMORY_SCHEMA (pm_digest fl) fl"

lemmas factor_saving = fm_configuration_def fm_content_def fm_digest_def fm_payload_def fm_from_payload_def
  pm_configuration_def pm_content_def pm_digest_def pm_payload_def pm_from_payload_def

definition fm_valid :: "factor_memory \<Rightarrow> bool" where
  "fm_valid m \<longleftrightarrow> 0 \<le> fm_floor m \<and> fm_floor m < 1 \<and> 0 \<le> fm_prior_weight m \<and> 0 \<le> fm_bonus m
     \<and> 0 \<le> fm_instruction_weight m \<and> 0 \<le> fm_position_weight m \<and> 0 \<le> fm_operator_weight m
     \<and> 0 < fm_instruction_weight m + fm_position_weight m + fm_operator_weight m \<and> 0 < fm_temperature m
     \<and> tables_ok (fm_shared_stats m) \<and> contexts_ok tables_ok (fm_context_stats m)"

definition fm_sorted :: "factor_memory \<Rightarrow> factor_memory" where
  "fm_sorted m = m\<lparr>fm_context_stats := sorted_contexts sorted_tables (fm_context_stats m),
                  fm_shared_stats := sorted_tables (fm_shared_stats m)\<rparr>"

lemma factor_types_all: "distinct (map fst FACTOR_TYPES)" "snd ` set FACTOR_TYPES = UNIV"
  using factor_type.exhaust by (auto simp: FACTOR_TYPES_def)

lemma empty_stats_ok: "tables_ok empty_stats"
  by (simp add: tables_ok_def empty_stats_def)

interpretation factor_stats: stats_codec no_check fm_serialize_stats "fm_load_stats fl" tables_ok sorted_tables
  "table_items FACTOR_TYPES" for fl
proof
  show "fm_serialize_stats t = Inr (DictItem (table_items FACTOR_TYPES t))" if "tables_ok t" for t
    using that by (simp add: fm_serialize_stats_def serialize_tables_eq)
  show "list_all (\<lambda>kv. no_tensor (snd kv)) (table_items FACTOR_TYPES t)" for t
    by (rule table_items_plain)
  show "fm_load_stats fl (table_items FACTOR_TYPES t) = Inr (sorted_tables t)" if "tables_ok t" for t
    using that factor_types_all by (simp add: fm_load_stats_def tables_roundtrip)
  show "tables_ok t" if "fm_load_stats fl kvs = Inr t" for kvs t
    using that load_tables_ok empty_stats_ok by (auto simp: fm_load_stats_def)
  show "fm_serialize_stats (sorted_tables t) = fm_serialize_stats t" for t
    by (simp add: fm_serialize_stats_def serialize_tables_sorted)
qed (simp add: no_check_def)

definition fm_items :: "string \<Rightarrow> (string \<times> digest_item) list \<Rightarrow> factor_memory \<Rightarrow> (string \<times> digest_item) list" where
  "fm_items schema notes m = [(''schema'', text_item schema), (''configuration'', factor_configuration schema notes m),
     (''shared_stats'', DictItem (table_items FACTOR_TYPES (fm_shared_stats m))),
     (''context_stats'', DictItem (factor_stats.context_items (fm_context_stats m)))]"

lemma factor_content_eq: "fm_valid m \<Longrightarrow> factor_content schema notes m = Inr (fm_items schema notes m)"
  using factor_stats.serialize_contexts_eq [of "fm_context_stats m"] factor_stats.written [of "fm_shared_stats m"]
  by (simp add: factor_content_def fm_items_def fm_valid_def)

lemma factor_digest_total:
  assumes "fm_valid m" and "list_all (\<lambda>kv. no_tensor (snd kv)) notes"
  shows "\<exists>d. factor_digest (factor_content schema notes m) fl = Inr d \<and> digest_ok d"
  using item_digest_total [of "fm_items schema notes m" fl] factor_stats.context_items_plain [of "fm_context_stats m"]
    table_items_plain [of FACTOR_TYPES "fm_shared_stats m"] assms(2)
  by (simp add: factor_digest_def factor_content_eq [OF assms(1)] fm_items_def factor_configuration_def text_item_def)

lemma fm_sorted_content: "factor_content schema notes (fm_sorted m) = factor_content schema notes m"
  using factor_stats.serialize_sorted_contexts [of "fm_context_stats m"] factor_stats.canon_written [of "fm_shared_stats m"]
  by (simp add: factor_content_def fm_sorted_def factor_configuration_def)

lemma fm_init_load:
  "0 \<le> a \<Longrightarrow> a < 1 \<Longrightarrow> 0 \<le> b \<Longrightarrow> 0 \<le> c \<Longrightarrow> 0 \<le> d \<Longrightarrow> 0 \<le> e \<Longrightarrow> 0 \<le> f \<Longrightarrow> 0 < d + e + f \<Longrightarrow> 0 < g
   \<Longrightarrow> fm_init (Fin a) (Fin b) (Fin c) (Fin d) (Fin e) (Fin f) (Fin g) =
    Inr \<lparr>fm_floor = a, fm_prior_weight = b, fm_bonus = c, fm_instruction_weight = d, fm_position_weight = e,
      fm_operator_weight = f, fm_temperature = g, fm_context_stats = [], fm_shared_stats = empty_stats\<rparr>"
  by (simp add: fm_init_def bad_weight_def)

lemma factor_roundtrip:
  assumes valid: "fm_valid m" and plain: "list_all (\<lambda>kv. no_tensor (snd kv)) notes"
    and digest: "\<forall>n. digest n = factor_digest (factor_content schema notes n) fl"
  shows "\<exists>v. factor_payload (factor_content schema notes m) fl = Inr v
    \<and> load_factor_memory schema digest fl v = Inr (fm_sorted m)"
proof -
  obtain d where d: "factor_digest (factor_content schema notes m) fl = Inr d"
    using factor_digest_total [OF valid plain] by blast
  have sorted: "digest (fm_sorted m) = Inr d" using d digest by (simp add: factor_digest_def fm_sorted_content)
  let ?v = "DictItem (fm_items schema notes m @ [(''sha256'', text_item d)])"
  have "factor_payload (factor_content schema notes m) fl = Inr ?v"
    using d by (simp add: factor_payload_def factor_content_eq [OF valid])
  moreover have "fm_load_stats fl (table_items FACTOR_TYPES (fm_shared_stats m)) = Inr (sorted_tables (fm_shared_stats m))"
      "load_contexts (fm_load_stats fl) [] (factor_stats.context_items (fm_context_stats m))
       = Inr (sorted_contexts sorted_tables (fm_context_stats m))"
    using valid factor_stats.load_items factor_stats.contexts_roundtrip by (simp_all add: fm_valid_def)
  ultimately show ?thesis
    using valid sorted
    by (cases m) (simp add: load_factor_memory_def fm_items_def factor_configuration_def load_weights_def fm_valid_def
        fm_init_load checked_Inr fm_sorted_def Let_def)
qed

lemma fm_init_valid: "fm_init a b c d e f g = Inr m \<Longrightarrow> fm_valid m"
  by (auto simp: fm_init_def fm_valid_def bad_weight_def isfinite_iff contexts_ok_def empty_stats_ok not_le split: if_splits)

lemma factor_load_valid:
  assumes "load_factor_memory schema digest fl v = Inr m"
  shows "fm_valid m" and "\<exists>kvs d. as_dict v = Some kvs \<and> item_get kvs ''sha256'' = text_item d \<and> digest m = Inr d"
proof -
  obtain kvs where kvs: "as_dict v = Some kvs" using assms by (auto simp: load_factor_memory_def split: option.splits)
  obtain w fresh shared_raw context_raw shared contexts where
      r: "fm_init (w ! 0) (w ! 1) (w ! 2) (w ! 3) (w ! 4) (w ! 5) (w ! 6) = Inr fresh"
      "fm_load_stats fl shared_raw = Inr shared" "load_contexts (fm_load_stats fl) [] context_raw = Inr contexts"
      "m = fresh\<lparr>fm_shared_stats := shared, fm_context_stats := contexts\<rparr>"
      "\<exists>d. item_get kvs ''sha256'' = text_item d \<and> digest m = Inr d"
    using assms unfolding load_factor_memory_def kvs
    by (auto simp: bind_r_eq_Inr checked_Inr Let_def split: option.splits if_splits)
  have "tables_ok shared" "contexts_ok tables_ok contexts"
    using factor_stats.load_valid [OF r(2)] factor_stats.load_all_ok [OF r(3)] by blast+
  then show "fm_valid m" using fm_init_valid [OF r(1)] unfolding r(4) fm_valid_def by simp
  show "\<exists>kvs d. as_dict v = Some kvs \<and> item_get kvs ''sha256'' = text_item d \<and> digest m = Inr d"
    using kvs r(5) by blast
qed

lemma notes_plain: "list_all (\<lambda>kv. no_tensor (snd kv)) fm_notes" "list_all (\<lambda>kv. no_tensor (snd kv)) pm_notes"
  by (simp_all add: fm_notes_def pm_notes_def text_item_def)

interpretation factor_checkpoint: checkpoint "fm_payload fl" "fm_from_payload fl" fm_valid fm_sorted for fl
proof
  show "\<exists>v. fm_payload fl m = Inr v \<and> fm_from_payload fl v = Inr (fm_sorted m)" if "fm_valid m" for m
    unfolding factor_saving by (rule factor_roundtrip [OF that notes_plain(1)]) simp
  show "fm_payload fl (fm_sorted m) = fm_payload fl m" for m
    by (simp add: factor_saving factor_payload_def factor_digest_def fm_sorted_content)
qed (auto simp: fm_from_payload_def intro: factor_load_valid(1))

interpretation frontier_checkpoint: checkpoint "pm_payload fl" "pm_from_payload fl" fm_valid fm_sorted for fl
proof
  show "\<exists>v. pm_payload fl m = Inr v \<and> pm_from_payload fl v = Inr (fm_sorted m)" if "fm_valid m" for m
    unfolding factor_saving by (rule factor_roundtrip [OF that notes_plain(2)]) simp
  show "pm_payload fl (fm_sorted m) = pm_payload fl m" for m
    by (simp add: factor_saving factor_payload_def factor_digest_def fm_sorted_content)
qed (auto simp: pm_from_payload_def intro: factor_load_valid(1))

end
