(* ===== verification/CreditRestored.thy ===== *)
theory CreditRestored
  imports CreditPayload
begin

text \<open>
  Restoring the credit memories of recipe and frontier search.  A memory that was saved and restored has its
  tables in another order (\<open>CreditPayload\<close>).  Here: the calls of \<open>record\<close> keep a memory savable, and two
  memories that differ in the order of their tables only answer and learn alike, so that a search resumed from
  a payload goes on as the search that was saved.
\<close>

section \<open>Savable memories stay savable\<close>

lemma get_or_contexts: "contexts_ok valid stats \<Longrightarrow> valid d \<Longrightarrow> valid (get_or stats c d)"
  by (auto simp: contexts_ok_def get_or_def dest!: map_of_SomeD split: option.splits)

lemma contexts_ok_update:
  "contexts_ok valid stats \<Longrightarrow> scope_ok c \<Longrightarrow> valid t \<Longrightarrow> contexts_ok valid (AList.update c t stats)"
  using set_update_subset [of c t stats] by (auto simp: contexts_ok_def distinct_update)

lemma rows_ok_credit:
  assumes "rows_ok check t" and "check k = Inr ()" and "0 \<le> q" and "q \<le> 1"
  shows "rows_ok check (add_credit t k (Fin q))"
proof -
  have "table_ok (add_credit t k (Fin q))" using assms by (simp add: add_credit_ok rows_ok_def)
  moreover have "distinct (map fst (add_credit t k (Fin q)))"
      "\<forall>j\<in>fst ` set (add_credit t k (Fin q)). check j = Inr ()"
    using assms(1,2) unfolding add_credit_def Let_def rows_ok_def dom_update
    by (simp_all add: distinct_update)
  ultimately show ?thesis unfolding rows_ok_def by blast
qed

lemma tables_ok_credit:
  assumes "tables_ok T" and "in_unit q"
  shows "tables_ok (credit_entries T q entries)"
  using assms
proof (induction T q entries rule: credit_entries.induct)
  case (2 T quality factor_type key entries)
  then obtain a where a: "quality = Fin a" "0 \<le> a" "a \<le> 1" by (auto simp: in_unit_iff)
  have "tables_ok (T(factor_type := add_credit (T factor_type) key quality))"
    using 2(2) a by (auto simp: tables_ok_def rows_ok_credit no_check_def)
  then show ?case using 2(1,3) by (simp add: fun_upd_def)
qed simp

lemma om_record_valid: "om_valid m \<Longrightarrow> om_record m c d q = Inr m' \<Longrightarrow> om_valid m'"
  by (auto simp: om_record_def bind_r_eq_Inr invalid_quality_iff in_unit_iff om_valid_def validate_context_Inr
      contexts_ok_update rows_ok_credit get_or_contexts split: if_splits)

lemma fm_learn_valid:
  assumes "fm_valid m" and "scope_ok c" and "in_unit q"
  shows "fm_valid (m\<lparr>fm_context_stats := AList.update c (get_or (fm_context_stats m) c empty_stats) (fm_context_stats m)\<rparr>)"
    and "fm_valid (m\<lparr>fm_context_stats := AList.update c (credit_entries (get_or (fm_context_stats m) c empty_stats) q entries)
        (fm_context_stats m), fm_shared_stats := credit_entries (fm_shared_stats m) q entries\<rparr>)"
proof -
  have "tables_ok (get_or (fm_context_stats m) c empty_stats)" "contexts_ok tables_ok (fm_context_stats m)"
      "tables_ok (fm_shared_stats m)"
    using assms(1) get_or_contexts [of tables_ok] empty_stats_ok by (auto simp: fm_valid_def)
  then show "fm_valid (m\<lparr>fm_context_stats := AList.update c (get_or (fm_context_stats m) c empty_stats) (fm_context_stats m)\<rparr>)"
    and "fm_valid (m\<lparr>fm_context_stats := AList.update c (credit_entries (get_or (fm_context_stats m) c empty_stats) q entries)
        (fm_context_stats m), fm_shared_stats := credit_entries (fm_shared_stats m) q entries\<rparr>)"
    using assms by (simp_all add: fm_valid_def contexts_ok_update tables_ok_credit)
qed

lemma fm_record_valid: "fm_valid m \<Longrightarrow> fm_valid (fst (fm_record m c d q f))"
  unfolding fm_record_cases by (auto intro: fm_learn_valid)

lemma pm_record_cases:
  "fst (pm_record m c q f) =
     (if scope_ok c \<and> in_unit q
      then (case ff_entries f of
              Inl e \<Rightarrow> m\<lparr>fm_context_stats := AList.update c (get_or (fm_context_stats m) c empty_stats) (fm_context_stats m)\<rparr>
            | Inr entries \<Rightarrow> m\<lparr>fm_context_stats := AList.update c
                  (credit_entries (get_or (fm_context_stats m) c empty_stats) q entries) (fm_context_stats m),
                fm_shared_stats := credit_entries (fm_shared_stats m) q entries\<rparr>)
      else m)"
proof -
  have "validate_context c = (if scope_ok c then Inr () else Inl ValueError)"
    by (auto simp: validate_context_def scope_ok_def)
  moreover have "invalid_quality q = (\<not> in_unit q)" using invalid_quality_iff by blast
  ultimately show ?thesis by (simp add: pm_record_def Let_def split: sum.split)
qed

lemma pm_record_valid: "fm_valid m \<Longrightarrow> fm_valid (fst (pm_record m c q f))"
  unfolding pm_record_cases by (auto intro: fm_learn_valid split: sum.split)

section \<open>Memories that differ in order only\<close>

definition om_same :: "opaque_memory \<Rightarrow> opaque_memory \<Rightarrow> bool" where
  "om_same m n \<longleftrightarrow> om_floor m = om_floor n \<and> om_prior_weight m = om_prior_weight n \<and> om_bonus m = om_bonus n
     \<and> om_temperature m = om_temperature n \<and> map_of (om_global_stats m) = map_of (om_global_stats n)
     \<and> (\<forall>c. map_of (get_or (om_context_stats m) c []) = map_of (get_or (om_context_stats n) c []))"

definition tables_same :: "('f \<Rightarrow> aggregate_table) \<Rightarrow> ('f \<Rightarrow> aggregate_table) \<Rightarrow> bool" where
  "tables_same T U \<longleftrightarrow> (\<forall>factor_type. map_of (T factor_type) = map_of (U factor_type))"

definition fm_same :: "factor_memory \<Rightarrow> factor_memory \<Rightarrow> bool" where
  "fm_same m n \<longleftrightarrow> fm_floor m = fm_floor n \<and> fm_prior_weight m = fm_prior_weight n \<and> fm_bonus m = fm_bonus n
     \<and> fm_instruction_weight m = fm_instruction_weight n \<and> fm_position_weight m = fm_position_weight n
     \<and> fm_operator_weight m = fm_operator_weight n \<and> fm_temperature m = fm_temperature n
     \<and> tables_same (fm_shared_stats m) (fm_shared_stats n)
     \<and> (\<forall>c. tables_same (get_or (fm_context_stats m) c empty_stats) (get_or (fm_context_stats n) c empty_stats))"

lemma add_credit_same: "map_of t = map_of u \<Longrightarrow> map_of (add_credit t k q) = map_of (add_credit u k q)"
  by (simp add: add_credit_def update_conv' Let_def)

lemma credit_entries_same: "tables_same T U \<Longrightarrow> tables_same (credit_entries T q entries) (credit_entries U q entries)"
proof (induction T q entries arbitrary: U rule: credit_entries.induct)
  case (2 T quality factor_type key entries)
  have "tables_same (T(factor_type := add_credit (T factor_type) key quality)) (U(factor_type := add_credit (U factor_type) key quality))"
    using 2(2) add_credit_same [of "T factor_type" "U factor_type" key quality] by (simp add: tables_same_def)
  from 2(1) [OF this] show ?case by (simp add: fun_upd_def)
qed simp

lemma get_or_sorted:
  assumes "distinct (map fst stats)"
  shows "get_or (sorted_contexts canon stats) c (canon d) = canon (get_or stats c d)"
proof -
  have "map_of (sorted_contexts canon stats) c = map_option canon (map_of (sort_key fst stats) c)"
    by (simp add: sorted_contexts_def map_of_map [unfolded case_prod_unfold] case_prod_unfold)
  then show ?thesis using map_of_sort_key [OF assms] by (auto simp: get_or_def split: option.splits)
qed

lemma om_sorted_same:
  assumes "om_valid m"
  shows "om_same m (om_sorted m)"
proof -
  have ok: "distinct (map fst (om_context_stats m))" "distinct (map fst (om_global_stats m))"
    using assms by (simp_all add: om_valid_def contexts_ok_def rows_ok_def)
  have "rows_ok validate_digest (get_or (om_context_stats m) c [])" for c
    using assms get_or_contexts [of "rows_ok validate_digest"] by (simp add: om_valid_def)
  then have "map_of (sort_key fst (get_or (om_context_stats m) c [])) = map_of (get_or (om_context_stats m) c [])" for c
    by (simp add: map_of_sort_key rows_ok_def)
  then show ?thesis
    using get_or_sorted [OF ok(1), of "sort_key fst" _ "[]"] map_of_sort_key [OF ok(2)]
    by (simp add: om_same_def om_sorted_def)
qed

lemma tables_sorted_same: "tables_ok T \<Longrightarrow> tables_same T (sorted_tables T)"
  by (simp add: tables_same_def tables_ok_def sorted_tables_def map_of_sort_key rows_ok_def)

lemma sorted_empty [simp]: "sorted_tables empty_stats = empty_stats"
  by (simp add: sorted_tables_def empty_stats_def fun_eq_iff)

lemma fm_sorted_same:
  assumes "fm_valid m"
  shows "fm_same m (fm_sorted m)"
proof -
  have "distinct (map fst (fm_context_stats m))" using assms by (simp add: fm_valid_def contexts_ok_def)
  from get_or_sorted [OF this, of sorted_tables _ empty_stats]
  have "get_or (sorted_contexts sorted_tables (fm_context_stats m)) c empty_stats
      = sorted_tables (get_or (fm_context_stats m) c empty_stats)" for c
    by simp
  moreover have "tables_ok (get_or (fm_context_stats m) c empty_stats)" for c
    using assms get_or_contexts [of tables_ok] empty_stats_ok by (auto simp: fm_valid_def)
  ultimately show ?thesis
    using assms by (simp add: fm_same_def fm_sorted_def tables_sorted_same fm_valid_def)
qed

text \<open>They learn alike.\<close>

lemma om_record_same:
  assumes "om_same m n"
  shows "(\<exists>e. om_record m c d q = Inl e \<and> om_record n c d q = Inl e)
    \<or> (\<exists>m' n'. om_record m c d q = Inr m' \<and> om_record n c d q = Inr n' \<and> om_same m' n')"
proof (cases "validate_context c = Inr () \<and> validate_digest d = Inr () \<and> \<not> invalid_quality q")
  case True
  have "map_of (get_or (om_context_stats m) b []) = map_of (get_or (om_context_stats n) b [])" for b
    using assms by (simp add: om_same_def)
  note local_same = add_credit_same [OF this, of c d q]
  have "map_of (om_global_stats m) = map_of (om_global_stats n)" using assms by (simp add: om_same_def)
  note this [THEN add_credit_same, of d q] local_same
  then show ?thesis using assms True by (simp add: om_record_def om_same_def get_or_update)
next
  case False
  then show ?thesis
    by (cases "validate_context c"; cases "validate_digest d") (auto simp: om_record_def)
qed

lemma fm_learn_same:
  assumes "fm_same m n"
  shows "fm_same (m\<lparr>fm_context_stats := AList.update c (credit_entries (get_or (fm_context_stats m) c empty_stats) q es)
        (fm_context_stats m), fm_shared_stats := credit_entries (fm_shared_stats m) q es\<rparr>)
      (n\<lparr>fm_context_stats := AList.update c (credit_entries (get_or (fm_context_stats n) c empty_stats) q es)
        (fm_context_stats n), fm_shared_stats := credit_entries (fm_shared_stats n) q es\<rparr>)"
    and "fm_same (m\<lparr>fm_context_stats := AList.update c (get_or (fm_context_stats m) c empty_stats) (fm_context_stats m)\<rparr>)
      (n\<lparr>fm_context_stats := AList.update c (get_or (fm_context_stats n) c empty_stats) (fm_context_stats n)\<rparr>)"
  using assms by (simp_all add: fm_same_def get_or_update credit_entries_same)

lemma fm_record_same: "fm_same m n \<Longrightarrow> fm_same (fst (fm_record m c d q f)) (fst (fm_record n c d q f))"
  unfolding fm_record_cases using fm_learn_same by simp

lemma pm_record_same: "fm_same m n \<Longrightarrow> fm_same (fst (pm_record m c q f)) (fst (pm_record n c q f))"
  unfolding pm_record_cases using fm_learn_same by (simp split: sum.split)

text \<open>They answer alike.\<close>

lemma om_probabilities_same:
  assumes "om_same m n"
  shows "om_probabilities math torch m c ds = om_probabilities math torch n c ds"
proof -
  have "om_score math m (get_or (om_context_stats m) c []) = om_score math n (get_or (om_context_stats n) c [])"
    using assms by (intro ext) (simp add: om_score_def om_same_def)
  then show ?thesis using assms by (simp add: om_probabilities_def om_same_def Let_def)
qed

lemma evidence_iff:
  assumes "rows_ok check t"
  shows "list_ex (\<lambda>kv. snd kv \<noteq> []) t \<longleftrightarrow> map_of t \<noteq> Map.empty"
  using assms by (cases t) (auto simp: rows_ok_alt list_ex_iff)

lemma fm_probabilities_same:
  assumes "fm_same m n" and "fm_valid m" and "fm_valid n"
  shows "fm_probabilities math torch m c fs = fm_probabilities math torch n c fs"
    and "pm_probabilities math torch m c fs = pm_probabilities math torch n c fs"
proof -
  define T U where "T = get_or (fm_context_stats m) c empty_stats" and "U = get_or (fm_context_stats n) c empty_stats"
  have ok: "tables_ok T" "tables_ok U" "tables_same T U"
    using assms get_or_contexts [of tables_ok] empty_stats_ok unfolding T_def U_def by (auto simp: fm_valid_def fm_same_def)
  have weight: "shared_weight_of m T ft = shared_weight_of n U ft" for ft
    using ok evidence_iff [of no_check "T ft"] evidence_iff [of no_check "U ft"] assms(1)
    by (simp add: shared_weight_of_def tables_ok_def tables_same_def fm_same_def)
  have score: "fm_factor_score math m T ft k w = fm_factor_score math n U ft k w" for ft k w
    using assms(1) ok(3) by (simp add: fm_factor_score_def fm_same_def tables_same_def)
  have "entry_scores math m T kind = entry_scores math n U kind" for kind
    by (intro ext) (simp add: entry_scores_def score weight)
  then have "fm_score math m T = fm_score math n U" "pm_score math m T = pm_score math n U"
    using assms(1) by (intro ext; simp add: fm_score_def pm_score_def score weight fm_same_def)+
  then show "fm_probabilities math torch m c fs = fm_probabilities math torch n c fs"
    and "pm_probabilities math torch m c fs = pm_probabilities math torch n c fs"
    using assms(1) by (simp_all add: fm_probabilities_def pm_probabilities_def Let_def T_def [symmetric] U_def [symmetric] fm_same_def)
qed

section \<open>A restored policy goes on as the saved one\<close>

fun policy_save :: "float_lib \<Rightarrow> policy \<Rightarrow> digest_item result" where
  "policy_save fl (Opaque m) = om_payload fl m"
| "policy_save fl (Factorized m) = fm_payload fl m"

text \<open>\<open>from_payload\<close> of the class of the given policy.\<close>

fun policy_load :: "float_lib \<Rightarrow> policy \<Rightarrow> digest_item \<Rightarrow> policy result" where
  "policy_load fl (Opaque _) v = bind_r (om_from_payload fl v) (\<lambda>m. Inr (Opaque m))"
| "policy_load fl (Factorized _) v = bind_r (fm_from_payload fl v) (\<lambda>m. Inr (Factorized m))"

fun policy_digest :: "float_lib \<Rightarrow> policy \<Rightarrow> string result" where
  "policy_digest fl (Opaque m) = om_digest fl m"
| "policy_digest fl (Factorized m) = fm_digest fl m"

text \<open>A policy as constructed, and after any calls of \<open>record\<close>, refused ones included.\<close>

definition policy_new :: "policy \<Rightarrow> bool" where
  "policy_new P \<longleftrightarrow> (\<exists>a b c d m. om_init a b c d = Inr m \<and> P = Opaque m)
     \<or> (\<exists>a b c d e f g m. fm_init a b c d e f g = Inr m \<and> P = Factorized m)"

fun policy_history :: "policy \<Rightarrow> credit_event list \<Rightarrow> policy" where
  "policy_history P [] = P"
| "policy_history P ((c, d, q, f) # calls) = policy_history (fst (policy_record P c d q f)) calls"

fun policy_valid :: "policy \<Rightarrow> bool" where
  "policy_valid (Opaque m) = om_valid m"
| "policy_valid (Factorized m) = fm_valid m"

fun policy_same :: "policy \<Rightarrow> policy \<Rightarrow> bool" where
  "policy_same (Opaque m) (Opaque n) = om_same m n"
| "policy_same (Factorized m) (Factorized n) = fm_same m n"
| "policy_same _ _ = False"

lemma policy_record_valid: "policy_valid P \<Longrightarrow> policy_valid (fst (policy_record P c d q f))"
  by (cases P) (auto simp: fm_record_valid case_prod_unfold split: sum.split dest: om_record_valid)

lemma policy_record_same: "policy_same P Q \<Longrightarrow> policy_same (fst (policy_record P c d q f)) (fst (policy_record Q c d q f))"
proof (induction P Q rule: policy_same.induct)
  case (1 m n)
  then show ?case using om_record_same [of m n c d q] by auto
qed (simp_all add: fm_record_same case_prod_unfold)

lemma policy_history_valid: "policy_valid P \<Longrightarrow> policy_valid (policy_history P calls)"
  by (induction P calls rule: policy_history.induct) (simp_all add: policy_record_valid)

lemma policy_history_same: "policy_same P Q \<Longrightarrow> policy_same (policy_history P calls) (policy_history Q calls)"
proof (induction calls arbitrary: P Q)
  case (Cons call calls)
  obtain c d q f where call: "call = (c, d, q, f)" by (cases call)
  show ?case using Cons.IH [OF policy_record_same [OF Cons.prems]] by (simp add: call)
qed simp

lemma policy_select_same:
  assumes "policy_same P Q" and "policy_valid P" and "policy_valid Q"
  shows "policy_select math torch rng P c ds fs g = policy_select math torch rng Q c ds fs g"
  using assms
proof (induction P Q rule: policy_same.induct)
  case (1 m n)
  then show ?case by (simp add: om_select_def om_probabilities_same [of m n])
next
  case (2 m n)
  then show ?case by (simp add: fm_select_def fm_probabilities_same(1) [of m n])
qed simp_all

lemma policy_roundtrip:
  assumes "policy_valid P"
  shows "\<exists>v Q. policy_save fl P = Inr v \<and> policy_load fl P v = Inr Q \<and> policy_save fl Q = Inr v
    \<and> policy_valid Q \<and> policy_same P Q"
proof (cases P)
  case (Opaque m)
  then show ?thesis
    using assms opaque_checkpoint.restores [of m fl] opaque_checkpoint.canon_valid [of m] om_sorted_same [of m] by auto
next
  case (Factorized m)
  then show ?thesis
    using assms factor_checkpoint.restores [of m fl] factor_checkpoint.canon_valid [of m] fm_sorted_same [of m] by auto
qed

lemma policy_load_class: "policy_load fl (policy_history P calls) v = policy_load fl P v"
proof (induction P calls rule: policy_history.induct)
  case (2 P c d q f calls)
  have "policy_load fl (fst (policy_record P c d q f)) v = policy_load fl P v"
    by (cases P) (auto simp: case_prod_unfold split: sum.split)
  with 2 show ?case by simp
qed simp

lemma policy_load_checked:
  assumes "policy_load fl Q v = Inr P"
  shows "policy_valid P \<and> (\<exists>kvs d. as_dict v = Some kvs \<and> item_get kvs ''sha256'' = text_item d
    \<and> policy_digest fl P = Inr d)"
proof (cases Q)
  case (Opaque m)
  with assms obtain n where n: "om_from_payload fl v = Inr n" "P = Opaque n" by (auto simp: bind_r_eq_Inr)
  show ?thesis using om_load_valid [OF n(1)] n(2) by simp
next
  case (Factorized m)
  with assms obtain n where n: "fm_from_payload fl v = Inr n" "P = Factorized n" by (auto simp: bind_r_eq_Inr)
  show ?thesis using factor_load_valid [OF n(1) [unfolded fm_from_payload_def]] n(2) by simp
qed

lemma policy_new_valid: "policy_new P \<Longrightarrow> policy_valid P"
  by (auto simp: policy_new_def om_init_valid fm_init_valid)

text \<open>The memory of the frontier is restored in the same way.\<close>

lemma frontier_credit_restored:
  assumes "fm_valid m"
  shows "\<exists>v n. pm_payload fl m = Inr v \<and> pm_from_payload fl v = Inr n \<and> pm_payload fl n = Inr v
    \<and> pm_probabilities math torch n c fs = pm_probabilities math torch m c fs
    \<and> fm_same (fst (pm_record m c q f)) (fst (pm_record n c q f))"
  using frontier_checkpoint.restores [OF assms, of fl] fm_sorted_same [OF assms]
    fm_probabilities_same(2) [OF fm_sorted_same [OF assms] assms frontier_checkpoint.canon_valid [OF assms]]
    pm_record_same [OF fm_sorted_same [OF assms]]
  by auto

text \<open>
  C27. A credit memory survives being saved.  After any calls of \<open>record\<close> on a constructed memory of either class the
  payload is accepted, and the restored memory saves to the same payload and selects and learns, over any further
  calls, as the saved memory would have; and whatever payload is accepted carries the digest of the memory it gives.
\<close>

theorem recipe_credit_restored:
  assumes "policy_new P"
  shows "(\<exists>v Q. policy_save fl (policy_history P calls) = Inr v \<and> policy_load fl P v = Inr Q \<and> policy_save fl Q = Inr v
      \<and> (\<forall>later math torch (rng :: 'g rng) c ds fs g. policy_select math torch rng (policy_history Q later) c ds fs g
          = policy_select math torch rng (policy_history (policy_history P calls) later) c ds fs g))
    \<and> (\<forall>w Q. policy_load fl P w = Inr Q \<longrightarrow> policy_valid Q \<and> (\<exists>kvs d. as_dict w = Some kvs
          \<and> item_get kvs ''sha256'' = text_item d \<and> policy_digest fl Q = Inr d))"
proof -
  have valid: "policy_valid (policy_history P calls)"
    using assms policy_new_valid policy_history_valid by blast
  obtain v Q where Q: "policy_save fl (policy_history P calls) = Inr v" "policy_load fl P v = Inr Q"
      "policy_save fl Q = Inr v" "policy_valid Q" "policy_same (policy_history P calls) Q"
    using policy_roundtrip [OF valid, of fl] by (auto simp: policy_load_class)
  have "policy_select math torch rng (policy_history Q later) c ds fs g
      = policy_select math torch rng (policy_history (policy_history P calls) later) c ds fs g"
    for later math torch and rng :: "'g rng" and c ds fs g
    by (rule policy_select_same [OF policy_history_same [OF Q(5)] policy_history_valid [OF valid]
        policy_history_valid [OF Q(4)], symmetric])
  then show ?thesis using Q(1-3) policy_load_checked by blast
qed

theorem recipe_credit_restored_witness:
  "\<exists>m v Q. fm_init (Fin (1/5)) (Fin 1) (Fin 1) (Fin 1) (Fin 1) (Fin 1) (Fin 1) = Inr m
    \<and> policy_save plain_floats (policy_history (Factorized m) [(task_c, digest_b, Fin 1, replace_at 3 digest_a)]) = Inr v
    \<and> policy_load plain_floats (Factorized m) v = Inr Q \<and> policy_save plain_floats Q = Inr v"
proof -
  obtain m where m: "fm_init (Fin (1/5)) (Fin 1) (Fin 1) (Fin 1) (Fin 1) (Fin 1) (Fin 1) = Inr m"
    by (simp add: fm_init_def bad_weight_def)
  then have "policy_new (Factorized m)" unfolding policy_new_def by blast
  from recipe_credit_restored [OF this, where ?'g = unit, of plain_floats "[(task_c, digest_b, Fin 1, replace_at 3 digest_a)]"]
  show ?thesis using m by blast
qed

end
