(* ===== verification/CompositionCredit.thy ===== *)
theory CompositionCredit
  imports RecipeCompositionSearch CreditRestored
begin

text \<open>
  Saving and restoring the composition policy (\<open>OpaqueContextRecipeCompositionMemory\<close> of
  \<open>recipe_composition.py\<close>): \<open>configuration\<close>, \<open>digest\<close>, \<open>payload\<close> and \<open>from_payload\<close>, which also takes
  payloads of the two earlier formats.  Those are checked against the digest of what was read, since the policy
  they give is saved in the current format.  The tables are those of \<open>CreditPayload\<close>, over ten factor types.
\<close>

section \<open>The payload\<close>

definition RECIPE_COMPOSITION_POLICY_SCHEMA :: string where
  "RECIPE_COMPOSITION_POLICY_SCHEMA = ''neural-computer.recipe-composition-policy.v1''"

definition COMPOSITION_FACTOR_TYPES :: "(string \<times> composition_factor) list" where
  "COMPOSITION_FACTOR_TYPES =
     [(''left'', CLeft), (''right'', CRight), (''mode'', CMode), (''left_depth'', CLeftDepth),
      (''right_depth'', CRightDepth), (''left_shape'', CLeftShape), (''right_shape'', CRightShape),
      (''canonical_shape'', CCanonicalShape), (''canonical_depth'', CCanonicalDepth), (''depth_span'', CDepthSpan)]"

text \<open>The weights in the order of the constructor, each with what is read where it is missing.\<close>

definition COMPOSITION_WEIGHTS :: "(string \<times> rat) list" where
  "COMPOSITION_WEIGHTS =
     [(''exploration_floor'', -1), (''shared_prior_weight'', -1), (''exploration_bonus'', -1), (''left_weight'', -1),
      (''right_weight'', -1), (''mode_weight'', -1), (''left_depth_weight'', 3/4), (''right_depth_weight'', 3/4),
      (''shape_weight'', 1/2), (''canonical_shape_weight'', 1/2), (''canonical_depth_weight'', 1/4),
      (''depth_span_weight'', 1/4), (''temperature'', -1)]"

definition kp_configuration :: "composition_policy \<Rightarrow> digest_item" where
  "kp_configuration P = DictItem
     ([(''schema'', text_item RECIPE_COMPOSITION_POLICY_SCHEMA)]
      @ map2 (\<lambda>name x. (fst name, FloatItem (Fin x))) COMPOSITION_WEIGHTS (weight_list (kp_weights P))
      @ [(''credit'', text_item ''scalar_composition_factor_and_shape_profile_aggregate_v3''),
         (''context'', text_item ''opaque_external_key_v1'')])"

definition kp_serialize_stats :: "composition_tables \<Rightarrow> digest_item result" where
  "kp_serialize_stats = serialize_tables COMPOSITION_FACTOR_TYPES"

definition kp_content :: "composition_policy \<Rightarrow> (string \<times> digest_item) list result" where
  "kp_content P =
     bind_r (kp_serialize_stats (kp_shared P)) (\<lambda>shared.
     bind_r (serialize_contexts no_check kp_serialize_stats (kp_contexts P)) (\<lambda>contexts.
       Inr [(''schema'', text_item RECIPE_COMPOSITION_POLICY_SCHEMA), (''configuration'', kp_configuration P),
            (''shared'', shared), (''contexts'', contexts)]))"

definition kp_digest :: "float_lib \<Rightarrow> composition_policy \<Rightarrow> string result" where
  "kp_digest fl P = bind_r (kp_content P) (item_digest fl)"

definition kp_payload :: "float_lib \<Rightarrow> composition_policy \<Rightarrow> digest_item result" where
  "kp_payload fl P =
     bind_r (kp_content P) (\<lambda>content. bind_r (kp_digest fl P) (\<lambda>digest.
       Inr (DictItem (content @ [(''sha256'', text_item digest)]))))"

definition legacy_credit :: "digest_item \<Rightarrow> bool" where
  "legacy_credit v \<longleftrightarrow> v \<in> {text_item ''scalar_composition_factor_aggregate_v1'',
     text_item ''scalar_composition_factor_and_shape_aggregate_v2''}"

definition kp_load_stats :: "float_lib \<Rightarrow> (string \<times> digest_item) list \<Rightarrow> composition_tables result" where
  "kp_load_stats fl = load_tables True fl no_credit COMPOSITION_FACTOR_TYPES"

definition read_weights :: "pyfloat list \<Rightarrow> pyfloat composition_weights" where
  "read_weights w = \<lparr>kw_floor = w ! 0, kw_prior = w ! 1, kw_bonus = w ! 2, kw_left = w ! 3, kw_right = w ! 4,
     kw_mode = w ! 5, kw_left_depth = w ! 6, kw_right_depth = w ! 7, kw_shape = w ! 8, kw_canonical_shape = w ! 9,
     kw_canonical_depth = w ! 10, kw_depth_span = w ! 11, kw_temperature = w ! 12\<rparr>"

text \<open>Testing a dictionary or a list for membership in a set raises \<open>TypeError\<close>.\<close>

definition kp_from_payload :: "float_lib \<Rightarrow> digest_item \<Rightarrow> composition_policy result" where
  "kp_from_payload fl payload =
     (case as_dict payload of
        None \<Rightarrow> Inl ValueError
      | Some kvs \<Rightarrow>
          if item_get kvs ''schema'' \<noteq> text_item RECIPE_COMPOSITION_POLICY_SCHEMA then Inl ValueError
          else (case (as_dict (item_get kvs ''configuration''), as_dict (item_get kvs ''shared''),
                      as_dict (item_get kvs ''contexts'')) of
                  (Some configuration, Some shared_raw, Some context_raw) \<Rightarrow>
                    let expected = item_get kvs ''sha256''; credit_kind = item_get configuration ''credit'';
                        legacy = legacy_credit credit_kind
                    in if as_dict credit_kind \<noteq> None \<or> as_list credit_kind \<noteq> None then Inl TypeError
                       else bind_r (if legacy
                             then checked expected (item_digest fl
                               [(''schema'', item_get kvs ''schema''), (''configuration'', item_get kvs ''configuration''),
                                (''shared'', item_get kvs ''shared''), (''contexts'', item_get kvs ''contexts'')]) ()
                             else Inr ()) (\<lambda>_.
                            bind_r (load_weights fl configuration COMPOSITION_WEIGHTS) (\<lambda>w.
                            bind_r (kp_init (read_weights w)) (\<lambda>P.
                            bind_r (kp_load_stats fl shared_raw) (\<lambda>shared.
                            bind_r (load_contexts (kp_load_stats fl) [] context_raw) (\<lambda>contexts.
                              let policy = P\<lparr>kp_shared := shared, kp_contexts := contexts\<rparr>
                              in if legacy then Inr policy else checked expected (kp_digest fl policy) policy)))))
                | _ \<Rightarrow> Inl TypeError))"

section \<open>What is saved is restored\<close>

definition kp_valid :: "composition_policy \<Rightarrow> bool" where
  "kp_valid P \<longleftrightarrow> (\<forall>x\<in>set (weight_list (kp_weights P)). 0 \<le> x) \<and> kw_floor (kp_weights P) < 1
     \<and> 0 < kw_left (kp_weights P) + kw_right (kp_weights P) + kw_mode (kp_weights P) \<and> 0 < kw_temperature (kp_weights P)
     \<and> tables_ok (kp_shared P) \<and> contexts_ok tables_ok (kp_contexts P)"

definition kp_sorted :: "composition_policy \<Rightarrow> composition_policy" where
  "kp_sorted P = P\<lparr>kp_shared := sorted_tables (kp_shared P),
                  kp_contexts := sorted_contexts sorted_tables (kp_contexts P)\<rparr>"

lemma composition_types_all: "distinct (map fst COMPOSITION_FACTOR_TYPES)" "snd ` set COMPOSITION_FACTOR_TYPES = UNIV"
  using composition_factor.exhaust by (auto simp: COMPOSITION_FACTOR_TYPES_def)

lemma no_credit_ok: "tables_ok no_credit"
  by (simp add: tables_ok_def no_credit_def)

interpretation composition_stats: stats_codec no_check kp_serialize_stats "kp_load_stats fl" tables_ok sorted_tables
  "table_items COMPOSITION_FACTOR_TYPES" for fl
proof
  show "kp_serialize_stats t = Inr (DictItem (table_items COMPOSITION_FACTOR_TYPES t))" if "tables_ok t" for t
    using that by (simp add: kp_serialize_stats_def serialize_tables_eq)
  show "list_all (\<lambda>kv. no_tensor (snd kv)) (table_items COMPOSITION_FACTOR_TYPES t)" for t
    by (rule table_items_plain)
  show "kp_load_stats fl (table_items COMPOSITION_FACTOR_TYPES t) = Inr (sorted_tables t)" if "tables_ok t" for t
    using that composition_types_all by (simp add: kp_load_stats_def tables_roundtrip)
  show "tables_ok t" if "kp_load_stats fl kvs = Inr t" for kvs t
    using that load_tables_ok no_credit_ok by (auto simp: kp_load_stats_def)
  show "kp_serialize_stats (sorted_tables t) = kp_serialize_stats t" for t
    by (simp add: kp_serialize_stats_def serialize_tables_sorted)
qed (simp add: no_check_def)

definition kp_items :: "composition_policy \<Rightarrow> (string \<times> digest_item) list" where
  "kp_items P = [(''schema'', text_item RECIPE_COMPOSITION_POLICY_SCHEMA), (''configuration'', kp_configuration P),
     (''shared'', DictItem (table_items COMPOSITION_FACTOR_TYPES (kp_shared P))),
     (''contexts'', DictItem (composition_stats.context_items (kp_contexts P)))]"

lemma kp_content_eq: "kp_valid P \<Longrightarrow> kp_content P = Inr (kp_items P)"
  using composition_stats.serialize_contexts_eq [of "kp_contexts P"] composition_stats.written [of "kp_shared P"]
  by (simp add: kp_content_def kp_items_def kp_valid_def)

lemma kp_digest_total:
  assumes "kp_valid P"
  shows "\<exists>d. kp_digest fl P = Inr d \<and> digest_ok d"
  using item_digest_total [of "kp_items P" fl] composition_stats.context_items_plain [of "kp_contexts P"]
    table_items_plain [of COMPOSITION_FACTOR_TYPES "kp_shared P"]
  by (simp add: kp_digest_def kp_content_eq [OF assms] kp_items_def kp_configuration_def text_item_def
      COMPOSITION_WEIGHTS_def weight_list_def)

lemma kp_sorted_content: "kp_content (kp_sorted P) = kp_content P"
  using composition_stats.serialize_sorted_contexts [of "kp_contexts P"] composition_stats.canon_written [of "kp_shared P"]
  by (simp add: kp_content_def kp_sorted_def kp_configuration_def)

lemma kp_init_valid: "kp_init w = Inr P \<Longrightarrow> kp_valid P"
  by (auto simp: kp_init_def kp_valid_def weight_list_def weight_values_def bad_weight_def isfinite_iff no_credit_ok
      contexts_ok_def not_le split: if_splits)

lemma kp_init_load:
  assumes "kp_valid P"
  shows "kp_init (read_weights (map Fin (weight_list (kp_weights P))))
    = Inr \<lparr>kp_weights = kp_weights P, kp_shared = no_credit, kp_contexts = []\<rparr>"
  using assms by (cases "kp_weights P") (simp add: kp_init_def kp_valid_def weight_list_def weight_values_def
      read_weights_def bad_weight_def not_le)

lemma load_weights_saved:
  "\<exists>configuration. kp_configuration P = DictItem configuration
    \<and> item_get configuration ''credit'' = text_item ''scalar_composition_factor_and_shape_profile_aggregate_v3''
    \<and> load_weights fl configuration COMPOSITION_WEIGHTS = Inr (map Fin (weight_list (kp_weights P)))"
  by (simp add: kp_configuration_def COMPOSITION_WEIGHTS_def weight_list_def load_weights_def)

lemma kp_roundtrip:
  assumes "kp_valid P"
  shows "\<exists>v. kp_payload fl P = Inr v \<and> kp_from_payload fl v = Inr (kp_sorted P)"
proof -
  obtain d where d: "kp_digest fl P = Inr d" using kp_digest_total [OF assms] by blast
  have sorted: "kp_digest fl (kp_sorted P) = Inr d" using d by (simp add: kp_digest_def kp_sorted_content)
  obtain conf where conf: "kp_configuration P = DictItem conf"
      "item_get conf ''credit'' = text_item ''scalar_composition_factor_and_shape_profile_aggregate_v3''"
      "load_weights fl conf COMPOSITION_WEIGHTS = Inr (map Fin (weight_list (kp_weights P)))"
    using load_weights_saved [of P fl] by blast
  let ?v = "DictItem (kp_items P @ [(''sha256'', text_item d)])"
  have "kp_payload fl P = Inr ?v" using d by (simp add: kp_payload_def kp_content_eq [OF assms])
  moreover have "kp_load_stats fl (table_items COMPOSITION_FACTOR_TYPES (kp_shared P)) = Inr (sorted_tables (kp_shared P))"
      "load_contexts (kp_load_stats fl) [] (composition_stats.context_items (kp_contexts P))
       = Inr (sorted_contexts sorted_tables (kp_contexts P))"
    using assms composition_stats.load_items composition_stats.contexts_roundtrip by (simp_all add: kp_valid_def)
  moreover have "\<lparr>kp_weights = kp_weights P, kp_shared = sorted_tables (kp_shared P),
      kp_contexts = sorted_contexts sorted_tables (kp_contexts P)\<rparr> = kp_sorted P"
    by (simp add: kp_sorted_def)
  ultimately show ?thesis
    using sorted kp_init_load [OF assms]
    by (simp add: kp_from_payload_def kp_items_def conf Let_def legacy_credit_def text_item_def checked_Inr)
qed

text \<open>The content an earlier format is checked against.\<close>

definition raw_content :: "(string \<times> digest_item) list \<Rightarrow> (string \<times> digest_item) list" where
  "raw_content kvs = map (\<lambda>name. (name, item_get kvs name)) [''schema'', ''configuration'', ''shared'', ''contexts'']"

lemma kp_load_valid:
  assumes "kp_from_payload fl v = Inr P"
  shows "kp_valid P"
    and "\<exists>kvs configuration d. as_dict v = Some kvs \<and> as_dict (item_get kvs ''configuration'') = Some configuration
      \<and> item_get kvs ''sha256'' = text_item d
      \<and> (if legacy_credit (item_get configuration ''credit'') then item_digest fl (raw_content kvs) = Inr d
         else kp_digest fl P = Inr d)"
proof -
  obtain kvs where kvs: "as_dict v = Some kvs" using assms by (auto simp: kp_from_payload_def split: option.splits)
  obtain configuration shared_raw context_raw where
      raw: "item_get kvs ''schema'' = text_item RECIPE_COMPOSITION_POLICY_SCHEMA"
      "as_dict (item_get kvs ''configuration'') = Some configuration"
      "as_dict (item_get kvs ''shared'') = Some shared_raw" "as_dict (item_get kvs ''contexts'') = Some context_raw"
    using assms unfolding kp_from_payload_def kvs by (auto split: option.splits if_splits)
  note conf = raw(2)
  have content: "raw_content kvs = [(''schema'', text_item RECIPE_COMPOSITION_POLICY_SCHEMA),
      (''configuration'', item_get kvs ''configuration''), (''shared'', item_get kvs ''shared''),
      (''contexts'', item_get kvs ''contexts'')]"
    by (simp add: raw_content_def raw(1))
  let ?legacy = "legacy_credit (item_get configuration ''credit'')"
  obtain w fresh shared contexts u where
      r: "kp_init (read_weights w) = Inr fresh"
      "kp_load_stats fl shared_raw = Inr shared" "load_contexts (kp_load_stats fl) [] context_raw = Inr contexts"
      "P = fresh\<lparr>kp_shared := shared, kp_contexts := contexts\<rparr>"
      "(if ?legacy then checked (item_get kvs ''sha256'') (item_digest fl (raw_content kvs)) () else Inr ()) = Inr u"
      "\<not> ?legacy \<longrightarrow> (\<exists>d. item_get kvs ''sha256'' = text_item d \<and> kp_digest fl P = Inr d)"
    using assms unfolding kp_from_payload_def kvs content
    by (auto simp: raw bind_r_eq_Inr checked_Inr Let_def split: if_splits)
  have "tables_ok shared" "contexts_ok tables_ok contexts"
    using composition_stats.load_valid [OF r(2)] composition_stats.load_all_ok [OF r(3)] by blast+
  then show "kp_valid P" using kp_init_valid [OF r(1)] unfolding r(4) kp_valid_def by simp
  have "\<exists>d. item_get kvs ''sha256'' = text_item d
      \<and> (if ?legacy then item_digest fl (raw_content kvs) = Inr d else kp_digest fl P = Inr d)"
    using r(5,6) by (auto simp: checked_Inr split: if_splits)
  then show "\<exists>kvs configuration d. as_dict v = Some kvs \<and> as_dict (item_get kvs ''configuration'') = Some configuration
      \<and> item_get kvs ''sha256'' = text_item d
      \<and> (if legacy_credit (item_get configuration ''credit'') then item_digest fl (raw_content kvs) = Inr d
         else kp_digest fl P = Inr d)"
    using kvs conf by blast
qed

interpretation composition_checkpoint: checkpoint "kp_payload fl" "kp_from_payload fl" kp_valid kp_sorted for fl
proof
  show "kp_payload fl (kp_sorted P) = kp_payload fl P" for P
    by (simp add: kp_payload_def kp_sorted_content kp_digest_def)
qed (simp_all add: kp_roundtrip kp_load_valid(1))

section \<open>A restored policy goes on as the saved one\<close>

definition kp_same :: "composition_policy \<Rightarrow> composition_policy \<Rightarrow> bool" where
  "kp_same P Q \<longleftrightarrow> kp_weights P = kp_weights Q \<and> tables_same (kp_shared P) (kp_shared Q)
     \<and> (\<forall>c. tables_same (get_or (kp_contexts P) c no_credit) (get_or (kp_contexts Q) c no_credit))"

lemma kp_record_cases:
  "fst (kp_record P c f q structure) =
     (if scope_ok c \<and> is_ok (kf_validate f) \<and> in_unit q
      then (case composition_entries f structure of
              Inl e \<Rightarrow> P\<lparr>kp_contexts := AList.update c (get_or (kp_contexts P) c no_credit) (kp_contexts P)\<rparr>
            | Inr entries \<Rightarrow> P\<lparr>kp_contexts := AList.update c
                  (credit_entries (get_or (kp_contexts P) c no_credit) q entries) (kp_contexts P),
                kp_shared := credit_entries (kp_shared P) q entries\<rparr>)
      else P)"
proof -
  have "validate_context c = (if scope_ok c then Inr () else Inl ValueError)"
    by (auto simp: validate_context_def scope_ok_def)
  moreover have "invalid_quality q = (\<not> in_unit q)" using invalid_quality_iff by blast
  ultimately show ?thesis by (simp add: kp_record_def Let_def is_ok_def split: sum.split)
qed

lemma kp_record_valid:
  assumes "kp_valid P"
  shows "kp_valid (fst (kp_record P c f q structure))"
proof -
  have "tables_ok (get_or (kp_contexts P) c no_credit)" "contexts_ok tables_ok (kp_contexts P)" "tables_ok (kp_shared P)"
    using assms get_or_contexts [of tables_ok] no_credit_ok by (auto simp: kp_valid_def)
  then show ?thesis
    using assms unfolding kp_record_cases
    by (auto simp: kp_valid_def contexts_ok_update tables_ok_credit split: sum.split)
qed

lemma kp_record_same:
  assumes "kp_same P Q"
  shows "kp_same (fst (kp_record P c f q structure)) (fst (kp_record Q c f q structure))"
  using assms unfolding kp_record_cases by (auto simp: kp_same_def get_or_update credit_entries_same split: sum.split)

lemma kp_history_valid: "kp_valid P \<Longrightarrow> kp_valid (kp_history P calls)"
  by (induction P calls rule: kp_history.induct) (simp_all add: kp_record_valid)

lemma kp_history_same: "kp_same P Q \<Longrightarrow> kp_same (kp_history P calls) (kp_history Q calls)"
proof (induction calls arbitrary: P Q)
  case (Cons call calls)
  obtain c f q s where call: "call = (c, f, q, s)" by (cases call)
  show ?case using Cons.IH [OF kp_record_same [OF Cons.prems]] by (simp add: call)
qed simp

lemma sorted_no_credit [simp]: "sorted_tables no_credit = no_credit"
  by (simp add: sorted_tables_def no_credit_def fun_eq_iff)

lemma kp_sorted_same:
  assumes "kp_valid P"
  shows "kp_same P (kp_sorted P)"
proof -
  have "distinct (map fst (kp_contexts P))" using assms by (simp add: kp_valid_def contexts_ok_def)
  from get_or_sorted [OF this, of sorted_tables _ no_credit]
  have "get_or (sorted_contexts sorted_tables (kp_contexts P)) c no_credit
      = sorted_tables (get_or (kp_contexts P) c no_credit)" for c
    by simp
  moreover have "tables_ok (get_or (kp_contexts P) c no_credit)" for c
    using assms get_or_contexts [of tables_ok] no_credit_ok by (auto simp: kp_valid_def)
  ultimately show ?thesis
    using assms by (simp add: kp_same_def kp_sorted_def tables_sorted_same kp_valid_def)
qed

lemma map_of_Nil_iff: "map_of t = map_of u \<Longrightarrow> t = [] \<longleftrightarrow> u = []"
  by (cases t; cases u) (auto dest: fun_cong simp: fun_eq_iff split: if_splits)

lemma kp_select_same:
  assumes "kp_same P Q"
  shows "kp_select math torch rng P c cs g = kp_select math torch rng Q c cs g"
proof -
  define T U where "T = get_or (kp_contexts P) c no_credit" and "U = get_or (kp_contexts Q) c no_credit"
  have same: "map_of (T ft) = map_of (U ft)" "map_of (kp_shared P ft) = map_of (kp_shared Q ft)"
      "kp_weights P = kp_weights Q" for ft
    using assms unfolding T_def U_def by (simp_all add: kp_same_def tables_same_def)
  have "kp_score math P T = kp_score math Q U"
    using same map_of_Nil_iff [OF same(1)] by (intro ext) (simp add: kp_score_def)
  then have "candidate_score math P T = candidate_score math Q U"
    by (intro ext) (simp add: candidate_score_def same(3))
  then show ?thesis
    by (simp add: kp_select_def composition_probabilities_def Let_def T_def [symmetric] U_def [symmetric] same(3))
qed

text \<open>
  C35. A composition policy survives being saved.  After any calls of \<open>record\<close> on a constructed policy the payload is
  accepted, and the restored policy saves to the same payload and selects, over any further calls, as the saved policy
  would have.  A payload that is accepted gives a well-formed policy; it carries that policy's digest, or, in an earlier
  format, the digest of its own content, and the policy it gives is saved in the current format.
\<close>

theorem composition_credit_restored:
  assumes "kp_init w = Inr P"
  shows "(\<exists>v Q. kp_payload fl (kp_history P calls) = Inr v \<and> kp_from_payload fl v = Inr Q \<and> kp_payload fl Q = Inr v
      \<and> (\<forall>later math torch (rng :: 'g rng) c cs g. kp_select math torch rng (kp_history Q later) c cs g
          = kp_select math torch rng (kp_history (kp_history P calls) later) c cs g))
    \<and> (\<forall>u Q. kp_from_payload fl u = Inr Q \<longrightarrow> kp_valid Q
      \<and> (\<exists>kvs configuration d. as_dict u = Some kvs \<and> as_dict (item_get kvs ''configuration'') = Some configuration
          \<and> item_get kvs ''sha256'' = text_item d
          \<and> (if legacy_credit (item_get configuration ''credit'') then item_digest fl (raw_content kvs) = Inr d
             else kp_digest fl Q = Inr d))
      \<and> (\<exists>v. kp_payload fl Q = Inr v \<and> kp_from_payload fl v = Inr (kp_sorted Q)))"
proof -
  have valid: "kp_valid (kp_history P calls)" using assms kp_init_valid kp_history_valid by blast
  let ?Q = "kp_sorted (kp_history P calls)"
  have "kp_select math torch rng (kp_history ?Q later) c cs g
      = kp_select math torch rng (kp_history (kp_history P calls) later) c cs g"
    for later math torch and rng :: "'g rng" and c cs g
    by (rule kp_select_same [OF kp_history_same [OF kp_sorted_same [OF valid]], symmetric])
  then show ?thesis
    using composition_checkpoint.restores [OF valid, of fl] composition_checkpoint.accepted_again [of fl] kp_load_valid
    by blast
qed

theorem composition_credit_restored_witness:
  "\<exists>P v Q. kp_init plain_weights = Inr P
    \<and> kp_payload plain_floats (kp_history P [(task_c, kc_factors (plain_candidate ''append''), Fin 1, None)]) = Inr v
    \<and> kp_from_payload plain_floats v = Inr Q \<and> kp_payload plain_floats Q = Inr v"
proof -
  obtain P where P: "kp_init plain_weights = Inr P"
    by (simp add: kp_init_def plain_weights_def weight_list_def bad_weight_def)
  from composition_credit_restored [OF P, where ?'g = unit, of plain_floats
      "[(task_c, kc_factors (plain_candidate ''append''), Fin 1, None)]"]
  show ?thesis using P by blast
qed

end
