(* ===== verification/CompositionProposer.thy ===== *)
theory CompositionProposer
  imports Prelude Complex_Main "HOL-Library.AList" "HOL-Library.Option_ord" "HOL-Library.Multiset"
begin

text \<open>
  \<open>composition_proposer.py\<close>: the proposer that ranks opaque library slots by how well their predictions
  agree with the observed outcomes, orders the combiners by a smoothed success rate, and cuts the resulting
  proposals to a budget.

  A dictionary is an association list in insertion order.  A score is a rational, or \<open>None\<close> for
  \<open>float("-inf")\<close>, which the order of \<open>Option_ord\<close> puts below every rational.  The factor \<open>0.1\<close> of the code is
  the double nearest to it.
\<close>

section \<open>Sorting as Python sorts with \<open>reverse=True\<close>\<close>

text \<open>The list is reversed, sorted stably and reversed again, so equal elements keep their order.\<close>

definition sorted_reverse :: "('a \<Rightarrow> 'k::linorder) \<Rightarrow> 'a list \<Rightarrow> 'a list" where
  "sorted_reverse key xs = rev (sort_key key (rev xs))"

lemma mset_sorted_reverse [simp]: "mset (sorted_reverse key xs) = mset xs"
  by (simp add: sorted_reverse_def)

lemma set_sorted_reverse [simp]: "set (sorted_reverse key xs) = set xs"
  by (simp add: sorted_reverse_def)

lemma length_sorted_reverse [simp]: "length (sorted_reverse key xs) = length xs"
  by (simp add: sorted_reverse_def)

lemma sorted_reverse_descending: "sorted_wrt (\<lambda>x y. key y \<le> key x) (sorted_reverse key xs)"
proof -
  have "sorted_wrt (\<lambda>x y. key x \<le> key y) (sort_key key (rev xs))"
    using sorted_sort_key [of key "rev xs"] by (simp add: sorted_map)
  then show ?thesis by (simp add: sorted_reverse_def sorted_wrt_rev)
qed

lemma sorted_reverse_stable: "filter (\<lambda>x. key x = k) (sorted_reverse key xs) = filter (\<lambda>x. key x = k) xs"
  using sort_key_stable [of key k "rev xs"] by (simp add: sorted_reverse_def rev_filter flip: rev_filter)

section \<open>The proposer\<close>

record proposal_budget =
  pb_slots :: int
  pb_hypotheses :: int
  pb_fallback :: bool

record proposer =
  lp_slot_budget :: int
  lp_candidate_budget :: int
  lp_fallback_on_miss :: bool
  lp_attempts :: "(string \<times> int) list"
  lp_successes :: "(string \<times> int) list"
  lp_last_budget :: proposal_budget

definition lp_init :: "int \<Rightarrow> int \<Rightarrow> bool \<Rightarrow> proposer result" where
  "lp_init slot_budget candidate_budget fallback_on_miss =
     (if slot_budget < 2 then Inl ValueError
      else if candidate_budget < 1 then Inl ValueError
      else Inr \<lparr>lp_slot_budget = slot_budget, lp_candidate_budget = candidate_budget,
             lp_fallback_on_miss = fallback_on_miss, lp_attempts = [], lp_successes = [],
             lp_last_budget = \<lparr>pb_slots = 0, pb_hypotheses = 0, pb_fallback = False\<rparr>\<rparr>)"

text \<open>\<open>counts.get(label, 0)\<close>.\<close>

definition tally :: "(string \<times> int) list \<Rightarrow> string \<Rightarrow> int" where
  "tally counts label = (case map_of counts label of None \<Rightarrow> 0 | Some n \<Rightarrow> n)"

definition lp_observe :: "proposer \<Rightarrow> string \<Rightarrow> bool \<Rightarrow> proposer result" where
  "lp_observe P combiner accepted =
     (if combiner = [] then Inl ValueError
      else Inr (P\<lparr>lp_attempts := AList.update combiner (tally (lp_attempts P) combiner + 1) (lp_attempts P),
             lp_successes := (if accepted
               then AList.update combiner (tally (lp_successes P) combiner + 1) (lp_successes P)
               else lp_successes P)\<rparr>))"

definition combiner_prior :: "proposer \<Rightarrow> string \<Rightarrow> rat" where
  "combiner_prior P combiner =
     (of_int (tally (lp_successes P) combiner) + 1) / (of_int (tally (lp_attempts P) combiner) + 2)"

definition tenth :: rat where
  "tenth = 3602879701896397 / 36028797018963968"

definition slot_score :: "int list \<Rightarrow> int list \<Rightarrow> rat option" where
  "slot_score prediction targets =
     (if prediction = [] \<or> length prediction \<noteq> length targets then None
      else
        let agreement = length (filter (\<lambda>(a, b). a = b) (zip prediction targets));
            prevalence = 1 - of_int \<bar>sum_list prediction - sum_list targets\<bar> / of_nat (max 1 (length targets))
        in Some (of_nat agreement / of_nat (length targets) + tenth * prevalence))"

datatype slot_proposal = SingleSlot int | SlotPair int int string

text \<open>The three nested loops over the shortlist.\<close>

fun slot_pairs_of :: "int list \<Rightarrow> string list \<Rightarrow> slot_proposal list" where
  "slot_pairs_of [] combiners = []"
| "slot_pairs_of (left # rest) combiners =
     concat (map (\<lambda>right. map (SlotPair left right) combiners) rest) @ slot_pairs_of rest combiners"

definition ranked_slots :: "(int \<times> int list) list \<Rightarrow> int list \<Rightarrow> int list \<Rightarrow> int list" where
  "ranked_slots predictions targets usable =
     sorted_reverse (\<lambda>slot. case map_of predictions slot of None \<Rightarrow> None | Some p \<Rightarrow> slot_score p targets)
       (filter (\<lambda>slot. map_of predictions slot \<noteq> None) usable)"

definition lp_propose :: "proposer \<Rightarrow> (int \<times> int list) list \<Rightarrow> int list \<Rightarrow> int list \<Rightarrow> string list
    \<Rightarrow> (slot_proposal list \<times> string list \<times> proposal_budget) \<times> proposer" where
  "lp_propose P predictions targets usable combiners =
     (let ranked = ranked_slots predictions targets usable;
          selected = take (nat (lp_slot_budget P)) ranked;
          ordered_combiners = sorted_reverse (combiner_prior P) combiners;
          proposals = map SingleSlot ranked @ slot_pairs_of selected ordered_combiners;
          bounded = take (nat (lp_candidate_budget P)) proposals;
          budget = \<lparr>pb_slots = int (length selected), pb_hypotheses = int (length bounded), pb_fallback = False\<rparr>
      in ((bounded, ordered_combiners, budget), P\<lparr>lp_last_budget := budget\<rparr>))"

definition lp_mark_fallback :: "proposer \<Rightarrow> proposal_budget \<times> proposer" where
  "lp_mark_fallback P =
     (let budget = (lp_last_budget P)\<lparr>pb_fallback := True\<rparr> in (budget, P\<lparr>lp_last_budget := budget\<rparr>))"

section \<open>The pairs\<close>

lemma length_slot_pairs: "length (slot_pairs_of slots combiners) = length slots * (length slots - 1) div 2 * length combiners"
proof -
  have "2 * length (slot_pairs_of slots combiners) = length slots * (length slots - 1) * length combiners"
  proof (induction slots)
    case (Cons s slots)
    have "length (concat (map (\<lambda>right. map (SlotPair s right) combiners) slots)) = length slots * length combiners"
      by (simp add: length_concat comp_def sum_list_triv)
    then show ?case using Cons by (cases slots) (simp_all add: algebra_simps)
  qed simp
  moreover have "2 * (length slots * (length slots - 1) div 2) = length slots * (length slots - 1)"
    by (cases "even (length slots)") auto
  ultimately have "2 * length (slot_pairs_of slots combiners) = 2 * (length slots * (length slots - 1) div 2 * length combiners)"
    by (metis mult.assoc)
  then show ?thesis by simp
qed

lemma slot_pairs_iff_index:
  "SlotPair l r c \<in> set (slot_pairs_of slots combiners) \<longleftrightarrow>
     c \<in> set combiners \<and> (\<exists>i j. i < j \<and> j < length slots \<and> slots ! i = l \<and> slots ! j = r)"
proof (induction slots)
  case (Cons s slots)
  have "(\<exists>i j. i < j \<and> j < length (s # slots) \<and> (s # slots) ! i = l \<and> (s # slots) ! j = r) \<longleftrightarrow>
      (s = l \<and> r \<in> set slots) \<or> (\<exists>i j. i < j \<and> j < length slots \<and> slots ! i = l \<and> slots ! j = r)" (is "?A \<longleftrightarrow> ?B")
  proof
    assume ?A
    then obtain i j where ij: "i < j" "j < length (s # slots)" "(s # slots) ! i = l" "(s # slots) ! j = r" by blast
    then show ?B
      by (cases i; cases j) (auto simp: in_set_conv_nth)
  next
    assume ?B
    then show ?A
    proof
      assume "s = l \<and> r \<in> set slots"
      then obtain j where "j < length slots" "slots ! j = r" "s = l" by (auto simp: in_set_conv_nth)
      then show ?A by (intro exI [of _ 0] exI [of _ "Suc j"]) simp
    next
      assume "\<exists>i j. i < j \<and> j < length slots \<and> slots ! i = l \<and> slots ! j = r"
      then obtain i j where "i < j" "j < length slots" "slots ! i = l" "slots ! j = r" by blast
      then show ?A by (intro exI [of _ "Suc i"] exI [of _ "Suc j"]) simp
    qed
  qed
  moreover have "SlotPair l r c \<in> set (slot_pairs_of (s # slots) combiners) \<longleftrightarrow>
      c \<in> set combiners \<and> s = l \<and> r \<in> set slots \<or> SlotPair l r c \<in> set (slot_pairs_of slots combiners)" by auto
  ultimately show ?case using Cons by blast
qed simp

lemma single_not_pair: "SingleSlot s \<notin> set (slot_pairs_of slots combiners)"
  by (induction slots) auto

section \<open>The prior\<close>

text \<open>The calls of \<open>observe\<close> that were not refused, on a fresh proposer.\<close>

fun lp_history :: "proposer \<Rightarrow> (string \<times> bool) list \<Rightarrow> proposer" where
  "lp_history P [] = P"
| "lp_history P ((combiner, accepted) # calls) =
     lp_history (case lp_observe P combiner accepted of Inl e \<Rightarrow> P | Inr P' \<Rightarrow> P') calls"

lemma tally_update: "tally (AList.update l n counts) k = (if k = l then n else tally counts k)"
  by (simp add: tally_def update_conv')

lemma history_counts:
  assumes "k \<noteq> []"
  shows "tally (lp_attempts (lp_history P calls)) k = tally (lp_attempts P) k + int (length (filter (\<lambda>c. fst c = k) calls))
    \<and> tally (lp_successes (lp_history P calls)) k = tally (lp_successes P) k + int (count_list calls (k, True))"
  using assms by (induction P calls rule: lp_history.induct) (auto simp: lp_observe_def tally_update)

lemma count_le_filter: "count_list calls (k, True) \<le> length (filter (\<lambda>c. fst c = k) calls)"
  by (induction calls) auto

section \<open>Properties\<close>



text \<open>
  The success rate of a combiner.  After any sequence of calls of \<open>observe\<close> on a fresh proposer, the
  refused ones included, the rate of a combiner is (accepted + 1) / (observed + 2), counted over the calls for
  that combiner; it lies strictly between zero and one.
\<close>

lemma proposer_prior_bounds:
  assumes "lp_init slot_budget candidate_budget fallback_on_miss = Inr P" and "combiner \<noteq> []"
  shows "combiner_prior (lp_history P calls) combiner
      = (of_nat (count_list calls (combiner, True)) + 1) / (of_nat (length (filter (\<lambda>c. fst c = combiner) calls)) + 2)
    \<and> 0 < combiner_prior (lp_history P calls) combiner \<and> combiner_prior (lp_history P calls) combiner < 1"
proof -
  have "lp_attempts P = []" "lp_successes P = []" using assms(1) by (auto simp: lp_init_def split: if_splits)
  then have eq: "combiner_prior (lp_history P calls) combiner
      = (of_nat (count_list calls (combiner, True)) + 1) / (of_nat (length (filter (\<lambda>c. fst c = combiner) calls)) + 2)"
    using history_counts [OF assms(2), of P calls] by (simp add: combiner_prior_def tally_def)
  have "(of_nat (count_list calls (combiner, True)) :: rat) \<le> of_nat (length (filter (\<lambda>c. fst c = combiner) calls))"
    using count_le_filter by (simp only: of_nat_le_iff)
  then show ?thesis unfolding eq by (auto simp: divide_less_eq intro!: divide_pos_pos add_nonneg_pos)
qed

end
