(* ===== verification/Promotion.thy ===== *)
theory Promotion
  imports SearchLedger
begin

text \<open>
  \<open>promotion.py\<close>: the gate of a capability promotion, the evidence offered for it, the decision, and
  the ledger of consumed holdouts.  The text of a rejection reason is replaced by a constructor that
  carries what the text is formatted from.

  A gate's digest is taken on the JSON text of its fields, in which Python writes the float bounds with
  \<open>repr\<close>: that text is a parameter \<open>float_text\<close>.  The ledger file is the list of the JSON values of its
  non-blank lines, \<open>None\<close> when it does not exist.  An integer metric is compared exactly; the code
  converts it to the nearest float, or raises \<open>OverflowError\<close>.
  Writing and reading a promotion record (JSON text with floats, on disk) is not modelled.
\<close>

section \<open>Gates\<close>

definition PROMOTION_SCHEMA :: string where
  "PROMOTION_SCHEMA = ''neural-computer.promotion-evidence.v1''"

definition HOLDOUT_LEDGER_SCHEMA :: string where
  "HOLDOUT_LEDGER_SCHEMA = ''neural-computer.holdout-ledger.v1''"

text \<open>\<open>_HEX_DIGEST\<close> and \<open>_GIT_COMMIT\<close>.\<close>

definition hex_digest :: "string \<Rightarrow> bool" where
  "hex_digest s \<longleftrightarrow> length s = 64 \<and> set s \<subseteq> set hex_digits"

definition git_commit :: "string \<Rightarrow> bool" where
  "git_commit s \<longleftrightarrow> 7 \<le> length s \<and> length s \<le> 64 \<and> set s \<subseteq> set hex_digits"

definition require_digest :: "string \<Rightarrow> unit result" where
  "require_digest s = (if \<not> hex_digest s then Inl ValueError else Inr ())"

record metric_requirement =
  mr_name :: string
  mr_minimum :: "pyfloat option"
  mr_maximum :: "pyfloat option"

definition mr_validate :: "metric_requirement \<Rightarrow> metric_requirement result" where
  "mr_validate q =
     (if mr_name q = [] then Inl ValueError
      else if mr_minimum q = None \<and> mr_maximum q = None then Inl ValueError
      else if (case (mr_minimum q, mr_maximum q) of (Some lo, Some hi) \<Rightarrow> hi < lo | _ \<Rightarrow> False)
      then Inl ValueError
      else Inr q)"

definition mr_matches :: "metric_requirement \<Rightarrow> pyfloat \<Rightarrow> bool" where
  "mr_matches q v =
     (if (case mr_minimum q of None \<Rightarrow> False | Some lo \<Rightarrow> v < lo) then False
      else (case mr_maximum q of None \<Rightarrow> True | Some hi \<Rightarrow> v \<le> hi))"

record promotion_gate =
  pg_experiment_id :: string
  pg_capability :: string
  pg_development :: string
  pg_promotion :: string
  pg_requirements :: "metric_requirement list"
  pg_controls :: "string list"
  pg_min_replicates :: int
  pg_max_workarounds :: int
  pg_schema :: string

definition pg_validate :: "promotion_gate \<Rightarrow> promotion_gate result" where
  "pg_validate g =
     (if pg_schema g \<noteq> PROMOTION_SCHEMA then Inl ValueError
      else if [] \<in> set [pg_experiment_id g, pg_capability g, pg_development g, pg_promotion g]
      then Inl ValueError
      else if pg_development g = pg_promotion g then Inl ValueError
      else if pg_requirements g = [] then Inl ValueError
      else if card (set (map mr_name (pg_requirements g))) \<noteq> length (pg_requirements g)
      then Inl ValueError
      else bind_r (map_r mr_validate (pg_requirements g)) (\<lambda>_.
        if card (set (pg_controls g)) \<noteq> length (pg_controls g) then Inl ValueError
        else if [] \<in> set (pg_controls g) then Inl ValueError
        else if pg_min_replicates g < 1 then Inl ValueError
        else if pg_max_workarounds g < 0 then Inl ValueError
        else Inr g))"

text \<open>\<open>_canonical_json(asdict(gate))\<close>.\<close>

definition mr_json :: "(pyfloat \<Rightarrow> string) \<Rightarrow> metric_requirement \<Rightarrow> string" where
  "mr_json float_text q =
     (let bound = (\<lambda>b. case b of None \<Rightarrow> ''null'' | Some x \<Rightarrow> float_text x)
      in json_object [(''name'', json_string (mr_name q)), (''minimum'', bound (mr_minimum q)),
           (''maximum'', bound (mr_maximum q))])"

definition pg_digest :: "(pyfloat \<Rightarrow> string) \<Rightarrow> promotion_gate \<Rightarrow> string result" where
  "pg_digest float_text g =
     bind_r (pg_validate g) (\<lambda>_. Inr (sha256_hex (json_object
       [(''experiment_id'', json_string (pg_experiment_id g)),
        (''capability'', json_string (pg_capability g)),
        (''development_population'', json_string (pg_development g)),
        (''promotion_population'', json_string (pg_promotion g)),
        (''metric_requirements'', json_array (map (mr_json float_text) (pg_requirements g))),
        (''required_controls'', json_array (map json_string (pg_controls g))),
        (''min_replicates'', int_text (pg_min_replicates g)),
        (''max_workarounds'', int_text (pg_max_workarounds g)),
        (''schema'', json_string (pg_schema g))])))"

section \<open>Evidence\<close>

text \<open>The dynamic values a metric may have.\<close>

datatype metric_value = MFloat pyfloat | MInt int | MBool bool | MOther

text \<open>\<open>float(value)\<close>; an integer that rounds to \<open>2 ^ 1024\<close> overflows.\<close>

fun metric_float :: "metric_value \<Rightarrow> pyfloat result" where
  "metric_float (MFloat x) = Inr x"
| "metric_float (MInt i) = (if \<bar>i\<bar> \<ge> 2 ^ 1024 - 2 ^ 970 then Inl OverflowError else Inr (Fin (of_int i)))"
| "metric_float (MBool b) = Inr (Fin (if b then 1 else 0))"
| "metric_float MOther = Inl TypeError"

record promotion_evidence =
  pe_gate_digest :: string
  pe_holdout_id :: string
  pe_attempt_id :: string
  pe_development_digest :: string
  pe_promotion_digest :: string
  pe_git_commit :: string
  pe_configuration_digest :: string
  pe_artifacts :: "(string \<times> string) list"
  pe_metrics :: "(string \<times> metric_value) list list"
  pe_controls :: "(string \<times> pyval) list"
  pe_search_attempts :: int
  pe_workarounds :: int
  pe_holdout_uses :: int
  pe_schema :: string

definition artifact_validate :: "string \<times> string \<Rightarrow> unit result" where
  "artifact_validate a = (if fst a = [] then Inl ValueError else require_digest (snd a))"

definition metric_validate :: "string \<times> metric_value \<Rightarrow> unit result" where
  "metric_validate nv =
     (if fst nv = [] \<or> (case snd nv of MBool b \<Rightarrow> True | MOther \<Rightarrow> True | _ \<Rightarrow> False) then Inl ValueError
      else bind_r (metric_float (snd nv)) (\<lambda>x. if \<not> isfinite x then Inl ValueError else Inr ()))"

definition replicate_validate :: "(string \<times> metric_value) list \<Rightarrow> unit result" where
  "replicate_validate ms = (if ms = [] then Inl ValueError else all_r metric_validate ms)"

fun is_bool :: "pyval \<Rightarrow> bool" where
  "is_bool (PBool b) = True"
| "is_bool _ = False"

definition pe_validate :: "promotion_evidence \<Rightarrow> promotion_evidence result" where
  "pe_validate e =
     (if pe_schema e \<noteq> PROMOTION_SCHEMA then Inl ValueError
      else if pe_holdout_id e = [] \<or> pe_attempt_id e = [] then Inl ValueError
      else bind_r (all_r require_digest [pe_gate_digest e, pe_development_digest e,
                    pe_promotion_digest e, pe_configuration_digest e]) (\<lambda>_.
        if pe_development_digest e = pe_promotion_digest e then Inl ValueError
        else if \<not> git_commit (pe_git_commit e) then Inl ValueError
        else if pe_artifacts e = [] then Inl ValueError
        else bind_r (all_r artifact_validate (pe_artifacts e)) (\<lambda>_.
          if pe_metrics e = [] then Inl ValueError
          else bind_r (all_r replicate_validate (pe_metrics e)) (\<lambda>_.
            if \<exists>kv\<in>set (pe_controls e). \<not> is_bool (snd kv) then Inl ValueError
            else if pe_search_attempts e < 1 then Inl ValueError
            else if pe_workarounds e < 0 then Inl ValueError
            else if pe_holdout_uses e \<noteq> 1 then Inl ValueError
            else Inr e))))"

section \<open>The holdout ledger\<close>

type_synonym holdout_ledger = "pyval list option"

fun ledger_record :: "pyval \<Rightarrow> (string \<times> pyval) list result" where
  "ledger_record (PDict kvs) =
     (if dict_get kvs ''schema'' \<noteq> PStr HOLDOUT_LEDGER_SCHEMA then Inl ValueError else Inr kvs)"
| "ledger_record _ = Inl AttributeError"

definition ledger_claims :: "holdout_ledger \<Rightarrow> (string \<times> pyval) list list result" where
  "ledger_claims l = (case l of None \<Rightarrow> Inr [] | Some lines \<Rightarrow> map_r ledger_record lines)"

definition claim_record :: "string \<Rightarrow> string \<Rightarrow> string \<Rightarrow> (string \<times> pyval) list" where
  "claim_record holdout manifest attempt =
     [(''schema'', PStr HOLDOUT_LEDGER_SCHEMA), (''holdout_id'', PStr holdout),
      (''manifest_digest'', PStr manifest), (''attempt_id'', PStr attempt)]"

text \<open>\<open>any(claim["holdout_id"] == holdout_id for claim in claims)\<close>.\<close>

fun already_claimed :: "string \<Rightarrow> (string \<times> pyval) list list \<Rightarrow> bool result" where
  "already_claimed holdout [] = Inr False"
| "already_claimed holdout (kvs # claims) =
     (case map_of kvs ''holdout_id'' of
        None \<Rightarrow> Inl KeyError
      | Some v \<Rightarrow> if v = PStr holdout then Inr True else already_claimed holdout claims)"

definition ledger_claim :: "holdout_ledger \<Rightarrow> string \<Rightarrow> string \<Rightarrow> string \<Rightarrow> holdout_ledger result" where
  "ledger_claim l holdout manifest attempt =
     (if holdout = [] \<or> attempt = [] then Inl ValueError
      else bind_r (require_digest manifest) (\<lambda>_.
      bind_r (ledger_claims l) (\<lambda>claims.
      bind_r (already_claimed holdout claims) (\<lambda>used.
        if used then Inl ValueError
        else Inr (Some ((case l of None \<Rightarrow> [] | Some lines \<Rightarrow> lines)
                        @ [PDict (claim_record holdout manifest attempt)]))))))"

definition ledger_verify :: "holdout_ledger \<Rightarrow> string \<Rightarrow> string \<Rightarrow> string \<Rightarrow> bool result" where
  "ledger_verify l holdout manifest attempt =
     bind_r (require_digest manifest) (\<lambda>_.
     bind_r (ledger_claims l) (\<lambda>claims.
       Inr (list_ex (\<lambda>kvs. dict_same kvs (claim_record holdout manifest attempt)) claims)))"

section \<open>The decision\<close>

datatype reason =
    InvalidGate | InvalidEvidence | DifferentGate | LedgerMissing | ClaimAbsent
  | TooFewReplicates nat int
  | ControlMissing string | ControlFailed string
  | MetricMissing nat string | MetricFailed nat string metric_value
  | TooManyWorkarounds int int

record promotion_decision =
  pd_eligible :: bool
  pd_reasons :: "reason list"

text \<open>\<open>try: ... except ValueError\<close>: other exceptions pass.\<close>

definition caught_value_error :: "'a result \<Rightarrow> reason \<Rightarrow> reason list result" where
  "caught_value_error r x =
     (case r of Inr _ \<Rightarrow> Inr [] | Inl e \<Rightarrow> if e = ValueError then Inr [x] else Inl e)"

definition control_reasons :: "promotion_evidence \<Rightarrow> string \<Rightarrow> reason list" where
  "control_reasons e control =
     (case map_of (pe_controls e) control of
        None \<Rightarrow> [ControlMissing control]
      | Some v \<Rightarrow> if \<not> py_bool v then [ControlFailed control] else [])"

definition metric_reasons :: "nat \<Rightarrow> (string \<times> metric_value) list \<Rightarrow> metric_requirement \<Rightarrow> reason list result" where
  "metric_reasons index metrics q =
     (case map_of metrics (mr_name q) of
        None \<Rightarrow> Inr [MetricMissing index (mr_name q)]
      | Some v \<Rightarrow> bind_r (metric_float v) (\<lambda>x.
          Inr (if \<not> mr_matches q x then [MetricFailed index (mr_name q) v] else [])))"

definition evaluate_promotion :: "(pyfloat \<Rightarrow> string) \<Rightarrow> promotion_gate \<Rightarrow> promotion_evidence
    \<Rightarrow> holdout_ledger option \<Rightarrow> promotion_decision result" where
  "evaluate_promotion float_text g e ledger =
     bind_r (caught_value_error (pg_validate g) InvalidGate) (\<lambda>r1.
     bind_r (caught_value_error (pe_validate e) InvalidEvidence) (\<lambda>r2.
       if r1 @ r2 \<noteq> [] then Inr \<lparr>pd_eligible = False, pd_reasons = r1 @ r2\<rparr>
       else bind_r (pg_digest float_text g) (\<lambda>digest.
       bind_r (case ledger of
                 None \<Rightarrow> Inr [LedgerMissing]
               | Some l \<Rightarrow>
                   bind_r (ledger_verify l (pe_holdout_id e) (pe_promotion_digest e) (pe_attempt_id e))
                     (\<lambda>ok. Inr (if \<not> ok then [ClaimAbsent] else []))) (\<lambda>claim_reasons.
       bind_r (map_r (\<lambda>(index, metrics). map_r (metric_reasons index metrics) (pg_requirements g))
                (enumerate 0 (pe_metrics e))) (\<lambda>metric_lists.
         let reasons = (if pe_gate_digest e \<noteq> digest then [DifferentGate] else [])
               @ claim_reasons
               @ (if int (length (pe_metrics e)) < pg_min_replicates g
                  then [TooFewReplicates (length (pe_metrics e)) (pg_min_replicates g)] else [])
               @ concat (map (control_reasons e) (pg_controls g))
               @ concat (concat metric_lists)
               @ (if pe_workarounds e > pg_max_workarounds g
                  then [TooManyWorkarounds (pe_workarounds e) (pg_max_workarounds g)] else [])
         in Inr \<lparr>pd_eligible = (reasons = []), pd_reasons = reasons\<rparr>)))))"

text \<open>\<open>require_promotion\<close> raises \<open>PromotionRejected\<close>, a \<open>RuntimeError\<close>.\<close>

definition require_promotion :: "(pyfloat \<Rightarrow> string) \<Rightarrow> promotion_gate \<Rightarrow> promotion_evidence
    \<Rightarrow> holdout_ledger \<Rightarrow> promotion_decision result" where
  "require_promotion float_text g e ledger =
     bind_r (evaluate_promotion float_text g e (Some ledger)) (\<lambda>d.
       if \<not> pd_eligible d then Inl RuntimeError else Inr d)"

section \<open>Validation, characterised\<close>

lemma require_digest_Inr: "require_digest s = Inr u \<longleftrightarrow> hex_digest s"
  by (simp add: require_digest_def)

text \<open>What a promotion needs, as one predicate.\<close>

definition metric_met :: "(string \<times> metric_value) list \<Rightarrow> metric_requirement \<Rightarrow> bool" where
  "metric_met metrics q \<longleftrightarrow>
     (\<exists>v x. map_of metrics (mr_name q) = Some v \<and> metric_float v = Inr x \<and> mr_matches q x)"

definition promotable :: "(pyfloat \<Rightarrow> string) \<Rightarrow> promotion_gate \<Rightarrow> promotion_evidence \<Rightarrow> holdout_ledger \<Rightarrow> bool" where
  "promotable float_text g e l \<longleftrightarrow> is_ok (pg_validate g) \<and> is_ok (pe_validate e)
     \<and> pg_digest float_text g = Inr (pe_gate_digest e)
     \<and> ledger_verify l (pe_holdout_id e) (pe_promotion_digest e) (pe_attempt_id e) = Inr True
     \<and> pg_min_replicates g \<le> int (length (pe_metrics e))
     \<and> (\<forall>control\<in>set (pg_controls g). map_of (pe_controls e) control = Some (PBool True))
     \<and> (\<forall>metrics\<in>set (pe_metrics e). \<forall>q\<in>set (pg_requirements g). metric_met metrics q)
     \<and> pe_workarounds e \<le> pg_max_workarounds g"

lemma pe_validate_controls:
  assumes "pe_validate e = Inr e'"
  shows "\<forall>kv\<in>set (pe_controls e). is_bool (snd kv)"
  using assms unfolding pe_validate_def by (auto simp: bind_r_eq_Inr split: if_splits)

lemma control_reasons_Nil:
  assumes "pe_validate e = Inr e'"
  shows "control_reasons e control = [] \<longleftrightarrow> map_of (pe_controls e) control = Some (PBool True)"
proof (cases "map_of (pe_controls e) control")
  case None
  then show ?thesis by (simp add: control_reasons_def)
next
  case (Some v)
  then have "is_bool v" using pe_validate_controls [OF assms] map_of_SomeD by fastforce
  then show ?thesis using Some by (cases v) (auto simp: control_reasons_def)
qed

lemma metric_reasons_Nil: "metric_reasons k metrics q = Inr [] \<longleftrightarrow> metric_met metrics q"
  by (auto simp: metric_reasons_def metric_met_def bind_r_eq_Inr split: option.splits if_splits)

lemma map_r_all_Nil:
  assumes "map_r f xs = Inr yss"
  shows "concat yss = [] \<longleftrightarrow> (\<forall>x\<in>set xs. f x = Inr [])"
  using assms
proof (induction xs arbitrary: yss)
  case (Cons x xs)
  then show ?case by (auto split: sum.splits)
qed simp

lemma map_r_const_Nil: "\<forall>x\<in>set xs. f x = Inr [] \<Longrightarrow> map_r f xs = Inr (map (\<lambda>x. []) xs)"
  by (induction xs) auto

lemma metric_lists_Nil:
  assumes "map_r (\<lambda>(index, metrics). map_r (metric_reasons index metrics) qs) ims = Inr yss"
  shows "concat (concat yss) = [] \<longleftrightarrow> (\<forall>im\<in>set ims. \<forall>q\<in>set qs. metric_met (snd im) q)"
  using assms
proof (induction ims arbitrary: yss)
  case (Cons im ims)
  obtain k ms where im: "im = (k, ms)" by (cases im)
  obtain ys zss where run: "map_r (metric_reasons k ms) qs = Inr ys" "yss = ys # zss"
      "map_r (\<lambda>(index, metrics). map_r (metric_reasons index metrics) qs) ims = Inr zss"
    using Cons.prems by (auto simp: im split: sum.splits)
  then show ?case
    using map_r_all_Nil [OF run(1)] Cons.IH [OF run(3)] by (simp add: im metric_reasons_Nil)
qed simp

lemma metric_lists_met:
  assumes "\<forall>im\<in>set ims. \<forall>q\<in>set qs. metric_met (snd im) q"
  shows "\<exists>yss. map_r (\<lambda>(index, metrics). map_r (metric_reasons index metrics) qs) ims = Inr yss"
  using assms
proof (induction ims)
  case (Cons im ims)
  obtain k ms where im: "im = (k, ms)" by (cases im)
  have "map_r (metric_reasons k ms) qs = Inr (map (\<lambda>q. []) qs)"
    using Cons.prems by (intro map_r_const_Nil) (simp add: im metric_reasons_Nil)
  then show ?case using Cons.IH Cons.prems by (auto simp: im)
qed simp

lemma snd_enumerate: "snd ` set (enumerate n xs) = set xs"
  by (metis list.set_map map_snd_enumerate)

lemma eligible_iff:
  "(\<exists>d. evaluate_promotion float_text g e ledger = Inr d \<and> pd_eligible d)
     \<longleftrightarrow> (\<exists>l. ledger = Some l \<and> promotable float_text g e l)"
proof (cases "is_ok (pg_validate g) \<and> is_ok (pe_validate e)")
  case True
  then obtain g' e' where v: "pg_validate g = Inr g'" "pe_validate e = Inr e'" by (auto simp: is_ok_iff)
  obtain digest where d: "pg_digest float_text g = Inr digest" by (simp add: pg_digest_def v)
  let ?ims = "enumerate 0 (pe_metrics e)"
  let ?run = "map_r (\<lambda>(index, metrics). map_r (metric_reasons index metrics) (pg_requirements g)) ?ims"
  have met: "(\<forall>im\<in>set ?ims. \<forall>q\<in>set (pg_requirements g). metric_met (snd im) q)
      \<longleftrightarrow> (\<forall>metrics\<in>set (pe_metrics e). \<forall>q\<in>set (pg_requirements g). metric_met metrics q)"
    using snd_enumerate [of 0 "pe_metrics e"] by (metis (no_types, lifting) image_iff)
  have controls: "concat (map (control_reasons e) (pg_controls g)) = []
      \<longleftrightarrow> (\<forall>control\<in>set (pg_controls g). map_of (pe_controls e) control = Some (PBool True))"
    using control_reasons_Nil [OF v(2)] by simp
  have eval: "evaluate_promotion float_text g e ledger =
      bind_r (case ledger of
                 None \<Rightarrow> Inr [LedgerMissing]
               | Some l \<Rightarrow>
                   bind_r (ledger_verify l (pe_holdout_id e) (pe_promotion_digest e) (pe_attempt_id e))
                     (\<lambda>ok. Inr (if \<not> ok then [ClaimAbsent] else []))) (\<lambda>claim_reasons.
      bind_r ?run (\<lambda>metric_lists.
        let reasons = (if pe_gate_digest e \<noteq> digest then [DifferentGate] else [])
               @ claim_reasons
               @ (if int (length (pe_metrics e)) < pg_min_replicates g
                  then [TooFewReplicates (length (pe_metrics e)) (pg_min_replicates g)] else [])
               @ concat (map (control_reasons e) (pg_controls g))
               @ concat (concat metric_lists)
               @ (if pe_workarounds e > pg_max_workarounds g
                  then [TooManyWorkarounds (pe_workarounds e) (pg_max_workarounds g)] else [])
         in Inr \<lparr>pd_eligible = (reasons = []), pd_reasons = reasons\<rparr>))"
    unfolding evaluate_promotion_def caught_value_error_def v d by simp
  show ?thesis
  proof
    assume "\<exists>d. evaluate_promotion float_text g e ledger = Inr d \<and> pd_eligible d"
    then obtain yss l where "ledger = Some l" "?run = Inr yss" "digest = pe_gate_digest e"
        "ledger_verify l (pe_holdout_id e) (pe_promotion_digest e) (pe_attempt_id e) = Inr True"
        "pg_min_replicates g \<le> int (length (pe_metrics e))"
        "concat (map (control_reasons e) (pg_controls g)) = []" "concat (concat yss) = []"
        "pe_workarounds e \<le> pg_max_workarounds g"
      unfolding eval Let_def
      by (auto simp: bind_r_eq_Inr not_less simp del: concat_eq_Nil_conv split: option.splits if_splits)
    then show "\<exists>l. ledger = Some l \<and> promotable float_text g e l"
      using True d met controls metric_lists_Nil by (auto simp: promotable_def)
  next
    assume "\<exists>l. ledger = Some l \<and> promotable float_text g e l"
    then obtain l where l: "ledger = Some l" "promotable float_text g e l" by blast
    then have "\<forall>im\<in>set ?ims. \<forall>q\<in>set (pg_requirements g). metric_met (snd im) q"
      using met by (simp add: promotable_def)
    then obtain yss where yss: "?run = Inr yss" "concat (concat yss) = []"
      using metric_lists_met metric_lists_Nil by blast
    have "concat (map (control_reasons e) (pg_controls g)) = []"
      using controls l(2) by (simp add: promotable_def)
    then show "\<exists>d. evaluate_promotion float_text g e ledger = Inr d \<and> pd_eligible d"
      unfolding eval
      using l d yss by (simp add: promotable_def Let_def del: concat_eq_Nil_conv)
  qed
next
  case False
  then have no: "\<not> promotable float_text g e l" for l by (auto simp: promotable_def)
  have "\<not> pd_eligible d" if "evaluate_promotion float_text g e ledger = Inr d" for d
    using that False
    by (auto simp: evaluate_promotion_def bind_r_eq_Inr caught_value_error_def is_ok_iff
        split: sum.splits if_splits)
  then show ?thesis using no by blast
qed

section \<open>The ledger, characterised\<close>

type_synonym holdout_claim = "string \<times> string \<times> string"

definition holdout_of :: "holdout_claim \<Rightarrow> string" where
  "holdout_of c = fst c"

text \<open>The file that successful claims leave, from the first one on.\<close>

definition file_of :: "holdout_claim list \<Rightarrow> pyval list" where
  "file_of cs = map (\<lambda>(h, m, a). PDict (claim_record h m a)) cs"

definition ledger_of :: "holdout_claim list \<Rightarrow> holdout_ledger \<Rightarrow> bool" where
  "ledger_of cs l \<longleftrightarrow> (l = Some (file_of cs) \<or> l = None \<and> cs = [])
     \<and> distinct (map holdout_of cs) \<and> (\<forall>(h, m, a)\<in>set cs. h \<noteq> [] \<and> a \<noteq> [] \<and> hex_digest m)"

lemma ledger_record_claim: "ledger_record (PDict (claim_record h m a)) = Inr (claim_record h m a)"
  by (simp add: claim_record_def)

lemma ledger_claims_of:
  assumes "ledger_of cs l"
  shows "ledger_claims l = Inr (map (\<lambda>(h, m, a). claim_record h m a) cs)"
proof -
  have "map_r ledger_record (file_of cs) = Inr (map (\<lambda>(h, m, a). claim_record h m a) cs)"
    by (induction cs) (auto simp: file_of_def ledger_record_claim simp del: ledger_record.simps)
  then show ?thesis using assms by (auto simp: ledger_of_def ledger_claims_def)
qed

lemma already_claimed_of:
  "already_claimed h (map (\<lambda>(h, m, a). claim_record h m a) cs) = Inr (h \<in> holdout_of ` set cs)"
  by (induction cs) (auto simp: claim_record_def holdout_of_def)

lemma ledger_claim_of:
  assumes "ledger_of cs l"
  shows "ledger_claim l h m a =
    (if h \<noteq> [] \<and> a \<noteq> [] \<and> hex_digest m \<and> h \<notin> holdout_of ` set cs
     then Inr (Some (file_of (cs @ [(h, m, a)]))) else Inl ValueError)"
  using assms unfolding ledger_claim_def require_digest_def ledger_claims_of [OF assms]
  by (auto simp: already_claimed_of ledger_of_def file_of_def)

lemma ledger_claim_ok:
  assumes "ledger_of cs l" and "ledger_claim l h m a = Inr l'"
  shows "ledger_of (cs @ [(h, m, a)]) l' \<and> h \<notin> holdout_of ` set cs"
  using assms unfolding ledger_claim_of [OF assms(1)]
  by (auto simp: ledger_of_def holdout_of_def split: if_splits)

lemma dict_same_claim:
  "dict_same (claim_record h m a) (claim_record h' m' a') \<longleftrightarrow> h = h' \<and> m = m' \<and> a = a'"
  by (auto simp: dict_same_def claim_record_def)

lemma ledger_verify_of:
  assumes "ledger_of cs l"
  shows "ledger_verify l h m a = (if hex_digest m then Inr ((h, m, a) \<in> set cs) else Inl ValueError)"
proof -
  have "list_ex (\<lambda>kvs. dict_same kvs (claim_record h m a)) (map (\<lambda>(h, m, a). claim_record h m a) cs)
      \<longleftrightarrow> (h, m, a) \<in> set cs"
    by (induction cs) (auto simp: dict_same_claim)
  then show ?thesis
    unfolding ledger_verify_def require_digest_def ledger_claims_of [OF assms] by simp
qed

text \<open>A ledger in use: what it records, and the claims made on it in order.\<close>

fun ledger_inv :: "unit \<Rightarrow> holdout_claim list \<times> holdout_ledger \<Rightarrow> bool" where
  "ledger_inv u (cs, l) = ledger_of cs l"

definition make_claim :: "holdout_claim list \<times> holdout_ledger \<Rightarrow> holdout_claim \<Rightarrow> unit
    \<Rightarrow> (holdout_claim list \<times> holdout_ledger) result" where
  "make_claim s c u = (case c of (h, m, a) \<Rightarrow>
     bind_r (ledger_claim (snd s) h m a) (\<lambda>l'. Inr (fst s @ [c], l')))"

interpretation holdouts: search_ledger ledger_inv "\<lambda>s. map holdout_of (fst s)" holdout_of "\<lambda>u. make_claim"
proof
  fix x :: unit and s s' :: "holdout_claim list \<times> holdout_ledger" and c :: holdout_claim and e :: unit
  obtain cs l where s: "s = (cs, l)" by (cases s)
  assume inv: "ledger_inv x s"
  show "distinct (map holdout_of (fst s))" using inv by (simp add: s ledger_of_def)
  assume run: "make_claim s c e = Inr s'"
  obtain h m a where c: "c = (h, m, a)" by (cases c) auto
  obtain l' where l': "ledger_claim l h m a = Inr l'" "s' = (cs @ [c], l')"
    using run by (auto simp: make_claim_def s c bind_r_eq_Inr)
  show "holdout_of c \<notin> set (map holdout_of (fst s))
      \<and> map holdout_of (fst s') = map holdout_of (fst s) @ [holdout_of c] \<and> ledger_inv x s'"
    using ledger_claim_ok [OF _ l'(1)] inv by (simp add: s l'(2) c holdout_of_def)
qed

section \<open>Properties\<close>


text \<open>
  C38. A holdout is consumed once.  Starting from a ledger written by claims only, after a claim that
  succeeded and any further claims, every other claim of the same holdout is refused, exactly the
  successful claims verify, and no holdout verifies for two different manifests or attempts.
\<close>

theorem holdout_single_use:
  assumes "ledger_of cs l" and "make_claim (cs, l) c () = Inr s1"
    and "fold_r (\<lambda>s c. make_claim s c ()) s1 more_claims = Inr (cs', l')"
  shows "cs' = cs @ c # more_claims \<and> ledger_of cs' l'
    \<and> (\<forall>m a. \<exists>err. ledger_claim l' (holdout_of c) m a = Inl err)
    \<and> (\<forall>h m a. ledger_verify l' h m a = Inr True \<longleftrightarrow> (h, m, a) \<in> set cs')
    \<and> (\<forall>h m a m' a'. ledger_verify l' h m a = Inr True \<and> ledger_verify l' h m' a' = Inr True
         \<longrightarrow> m = m' \<and> a = a')"
proof -
  have start: "ledger_inv () (cs, l)" using assms(1) by simp
  have all: "fold_r (\<lambda>s pe. make_claim s (fst pe) (snd pe)) s1 (map (\<lambda>c. (c, ())) more_claims) = Inr (cs', l')"
  proof -
    have "fold_r (\<lambda>s pe. make_claim s (fst pe) (snd pe)) s (map (\<lambda>c. (c, ())) xs)
        = fold_r (\<lambda>s c. make_claim s c ()) s xs" for s xs
      by (induction xs arbitrary: s) (auto simp: bind_r_def split: sum.splits)
    then show ?thesis using assms(3) by simp
  qed
  have inv1: "ledger_inv () s1" using holdouts.record_effect [OF start assms(2)] by blast
  have ok: "ledger_of cs' l'" using holdouts.record_all [OF all inv1] by simp
  have "fst s' = fst s @ xs" if "fold_r (\<lambda>s c. make_claim s c ()) s xs = Inr s'" for s s' xs
    using that by (induction xs arbitrary: s) (auto simp: make_claim_def bind_r_eq_Inr split: prod.splits)
  from this [OF assms(3)] have cs': "cs' = cs @ c # more_claims"
    using assms(2) by (auto simp: make_claim_def bind_r_eq_Inr split: prod.splits)
  have "holdout_of c \<in> holdout_of ` set cs'" by (simp add: cs')
  then have refused: "\<exists>err. ledger_claim l' (holdout_of c) m a = Inl err" for m a
    unfolding ledger_claim_of [OF ok] by simp
  have verify: "ledger_verify l' h m a = Inr True \<longleftrightarrow> (h, m, a) \<in> set cs'" for h m a
    using ok unfolding ledger_verify_of [OF ok] by (auto simp: ledger_of_def)
  have "m = m' \<and> a = a'" if "(h, m, a) \<in> set cs'" "(h, m', a') \<in> set cs'" for h m a m' a'
  proof -
    have "inj_on holdout_of (set cs')" using ok by (simp add: ledger_of_def distinct_map)
    then have "(h, m, a) = (h, m', a')" by (rule inj_onD) (use that in \<open>simp_all add: holdout_of_def\<close>)
    then show ?thesis by simp
  qed
  then show ?thesis using cs' ok refused verify by blast
qed

text \<open>
  A bound that is not a number: the validation accepts it, and as a minimum it admits every value,
  since no comparison with it holds.
\<close>

lemma nan_minimum_admits_all:
  assumes "mr_name q \<noteq> []" and "mr_minimum q = Some NaN" and "mr_maximum q = None"
  shows "mr_validate q = Inr q \<and> mr_matches q v"
  using assms by (simp add: mr_validate_def mr_matches_def)

section \<open>Instances\<close>

definition digest_of_char :: "char \<Rightarrow> string" where
  "digest_of_char c = replicate 64 c"

lemma hex_digest_char: "c \<in> set hex_digits \<Longrightarrow> hex_digest (digest_of_char c)"
  by (auto simp: hex_digest_def digest_of_char_def)

definition sample_gate :: promotion_gate where
  "sample_gate = \<lparr>pg_experiment_id = ''e1'', pg_capability = ''add'', pg_development = ''dev'',
     pg_promotion = ''held-out'', pg_requirements =
       [\<lparr>mr_name = ''accuracy'', mr_minimum = Some (Fin (9 / 10)), mr_maximum = None\<rparr>],
     pg_controls = [''shuffled''], pg_min_replicates = 2, pg_max_workarounds = 0,
     pg_schema = PROMOTION_SCHEMA\<rparr>"

definition sample_evidence :: "string \<Rightarrow> promotion_evidence" where
  "sample_evidence gate_digest = \<lparr>pe_gate_digest = gate_digest, pe_holdout_id = ''h'', pe_attempt_id = ''a'',
     pe_development_digest = digest_of_char (CHR ''0''), pe_promotion_digest = digest_of_char (CHR ''1''),
     pe_git_commit = ''abcdef0'', pe_configuration_digest = digest_of_char (CHR ''2''),
     pe_artifacts = [(''model'', digest_of_char (CHR ''3''))],
     pe_metrics = [[(''accuracy'', MFloat (Fin (19 / 20)))], [(''accuracy'', MInt 1)]],
     pe_controls = [(''shuffled'', PBool True)], pe_search_attempts = 1, pe_workarounds = 0,
     pe_holdout_uses = 1, pe_schema = PROMOTION_SCHEMA\<rparr>"

lemma sample_digests:
  "hex_digest (digest_of_char (CHR ''0''))" "hex_digest (digest_of_char (CHR ''1''))"
  "hex_digest (digest_of_char (CHR ''2''))" "hex_digest (digest_of_char (CHR ''3''))"
  "digest_of_char (CHR ''0'') \<noteq> digest_of_char (CHR ''1'')"
  by (rule hex_digest_char, simp add: hex_digits_def)+ (simp add: digest_of_char_def replicate_eq_replicate)

lemma sample_claim: "ledger_of [] None" "make_claim ([], None) (''h'', digest_of_char (CHR ''1''), ''a'') ()
    = Inr ([(''h'', digest_of_char (CHR ''1''), ''a'')], Some (file_of [(''h'', digest_of_char (CHR ''1''), ''a'')]))"
proof -
  show ok: "ledger_of [] None" by (simp add: ledger_of_def)
  show "make_claim ([], None) (''h'', digest_of_char (CHR ''1''), ''a'') ()
    = Inr ([(''h'', digest_of_char (CHR ''1''), ''a'')], Some (file_of [(''h'', digest_of_char (CHR ''1''), ''a'')]))"
    using sample_digests(2) by (simp add: make_claim_def ledger_claim_of [OF ok])
qed

theorem holdout_single_use_witness:
  "\<exists>s1 cs' l'. make_claim ([], None) (''h'', digest_of_char (CHR ''1''), ''a'') () = Inr s1
    \<and> fold_r (\<lambda>s c. make_claim s c ()) s1 [] = Inr (cs', l')
    \<and> ledger_verify l' ''h'' (digest_of_char (CHR ''1'')) ''a'' = Inr True"
  using holdout_single_use [OF sample_claim, of "[]"] sample_claim(2) by simp


end
