(* ===== verification/InducedLibrary.thy ===== *)
theory InducedLibrary
  imports ControlFlow ProgramStore "HOL-Library.AList"
begin

text \<open>
  \<open>induced_library.py\<close>: the append-only store of induced programs, found again by the Hamming distance
  of their signatures.  A signature is the list of a program's answers on a canonical stream, a linear
  congruential walk in 64-bit arithmetic.

  The provenance of a record is an opaque JSON value (without floats, see \<open>pyval\<close>).  Saving to and
  loading from disk (atomic file replacement, whole-file checksum) is not modelled.
\<close>

section \<open>Signatures\<close>

definition SIGNATURE_LENGTH :: int where
  "SIGNATURE_LENGTH = 256"

definition SIGNATURE_SEED :: "64 word" where
  "SIGNATURE_SEED = 0x5EED"

definition lcg :: "64 word \<Rightarrow> 64 word" where
  "lcg v = v * 6364136223846793005 + 1442695040888963407"

fun signature_walk :: "nat \<Rightarrow> int \<Rightarrow> 64 word \<Rightarrow> int list" where
  "signature_walk 0 alphabet v = []"
| "signature_walk (Suc n) alphabet v =
     (let w = lcg v in uint (drop_bit 33 w) mod alphabet # signature_walk n alphabet w)"

definition canonical_signature_stream :: "int \<Rightarrow> int \<Rightarrow> int list result" where
  "canonical_signature_stream alphabet n =
     (if alphabet < 2 then Inl ValueError
      else if n < 1 then Inl ValueError
      else Inr (signature_walk (nat n) alphabet SIGNATURE_SEED))"

definition signature_distance :: "int list \<Rightarrow> int list \<Rightarrow> int result" where
  "signature_distance left right =
     (if length left \<noteq> length right then Inl ValueError
      else Inr (int (length (filter (\<lambda>(a, b). a \<noteq> b) (zip left right)))))"

section \<open>Records\<close>

definition INDUCED_PROGRAM_LIBRARY_SCHEMA :: string where
  "INDUCED_PROGRAM_LIBRARY_SCHEMA = ''neural-computer.induced-program-library.v1''"

definition INDUCED_PROGRAM_RECORD_SCHEMA :: string where
  "INDUCED_PROGRAM_RECORD_SCHEMA = ''neural-computer.induced-program-record.v1''"

record induced_record =
  ir_program :: cf_program
  ir_counters :: "int list"
  ir_alphabet :: int
  ir_signature :: "int list"
  ir_provenance :: pyval
  ir_actions :: int
  ir_schema :: string

fun is_dict :: "pyval \<Rightarrow> bool" where
  "is_dict (PDict kvs) = True"
| "is_dict _ = False"

definition ir_validate :: "induced_record \<Rightarrow> induced_record result" where
  "ir_validate r =
     (if ir_schema r \<noteq> INDUCED_PROGRAM_RECORD_SCHEMA then Inl ValueError
      else bind_r (cp_validate (ir_program r)) (\<lambda>_.
        if int (length (ir_counters r)) \<noteq> cp_counter_count (ir_program r) then Inl ValueError
        else if \<exists>v\<in>set (ir_counters r). v < 0 then Inl ValueError
        else if ir_alphabet r < 2 then Inl ValueError
        else if ir_signature r = [] then Inl ValueError
        else if ir_actions r < 2 then Inl ValueError
        else if \<exists>b\<in>set (ir_signature r). \<not> (0 \<le> b \<and> b < ir_actions r) then Inl ValueError
        else if \<not> is_dict (ir_provenance r) then Inl TypeError
        else Inr r))"

text \<open>\<open>json.loads(json.dumps(value, sort_keys=True))\<close>: the keys come back sorted.\<close>

fun json_normal :: "pyval \<Rightarrow> pyval" where
  "json_normal (PList xs) = PList (map json_normal xs)"
| "json_normal (PDict kvs) = PDict (sort_key fst (map (\<lambda>kv. (fst kv, json_normal (snd kv))) kvs))"
| "json_normal v = v"

definition ir_payload :: "induced_record \<Rightarrow> pyval result" where
  "ir_payload r =
     bind_r (ir_validate r) (\<lambda>_.
     bind_r (cp_payload (ir_program r)) (\<lambda>program.
       Inr (PDict
         ([(''schema'', PStr (ir_schema r)),
           (''program'', program),
           (''initial_counters'', PList (map PInt (ir_counters r))),
           (''alphabet'', PInt (ir_alphabet r)),
           (''signature'', PList (map PInt (ir_signature r))),
           (''provenance'', json_normal (ir_provenance r))]
          @ (if ir_actions r \<noteq> 2 then [(''action_count'', PInt (ir_actions r))] else [])))))"

text \<open>\<open>payload[key]\<close>.\<close>

definition dict_at :: "(string \<times> pyval) list \<Rightarrow> string \<Rightarrow> pyval result" where
  "dict_at kvs k = (case map_of kvs k of None \<Rightarrow> Inl KeyError | Some v \<Rightarrow> Inr v)"

definition int_tuple :: "pyval \<Rightarrow> int list result" where
  "int_tuple v = bind_r (py_tuple v) (map_r py_int)"

text \<open>
  \<open>dict(value or {})\<close>.  A list of pairs makes a dictionary too; one with a key that is not a string
  has no counterpart in \<open>pyval\<close> and is refused here.
\<close>

fun py_pair :: "pyval \<Rightarrow> (string \<times> pyval) result" where
  "py_pair v =
     bind_r (py_tuple v) (\<lambda>xs.
       case xs of
         [PStr k, x] \<Rightarrow> Inr (k, x)
       | [_, x] \<Rightarrow> Inl TypeError
       | _ \<Rightarrow> Inl ValueError)"

fun py_dict :: "pyval \<Rightarrow> pyval result" where
  "py_dict (PDict kvs) = Inr (PDict kvs)"
| "py_dict v =
     (if \<not> py_bool v then Inr (PDict [])
      else bind_r (py_tuple v) (\<lambda>xs. bind_r (map_r py_pair xs) (\<lambda>kvs.
        Inr (PDict (fold (\<lambda>(k, x) acc. AList.update k x acc) kvs [])))))"

definition ir_from_payload :: "pyval \<Rightarrow> induced_record result" where
  "ir_from_payload v =
     (case v of
        PDict kvs \<Rightarrow>
          if dict_get kvs ''schema'' \<noteq> PStr INDUCED_PROGRAM_RECORD_SCHEMA then Inl ValueError
          else bind_r (cp_from_payload (dict_get kvs ''program'')) (\<lambda>program.
               bind_r (bind_r (dict_at kvs ''initial_counters'') int_tuple) (\<lambda>counters.
               bind_r (bind_r (dict_at kvs ''alphabet'') py_int) (\<lambda>alphabet.
               bind_r (bind_r (dict_at kvs ''signature'') int_tuple) (\<lambda>signature.
               bind_r (py_dict (dict_get kvs ''provenance'')) (\<lambda>provenance.
               bind_r (py_int (dict_get_default kvs ''action_count'' (PInt 2))) (\<lambda>actions.
                 ir_validate \<lparr>ir_program = program, ir_counters = counters, ir_alphabet = alphabet,
                   ir_signature = signature, ir_provenance = provenance, ir_actions = actions,
                   ir_schema = INDUCED_PROGRAM_RECORD_SCHEMA\<rparr>))))))
      | _ \<Rightarrow> Inl TypeError)"

definition ir_digest :: "induced_record \<Rightarrow> string result" where
  "ir_digest r = bind_r (ir_payload r) (\<lambda>v. Inr (digest_payload v))"

section \<open>The library\<close>

record induced_library =
  il_alphabet :: int
  il_frontend :: pyval
  il_records :: "induced_record list"

definition il_init :: "int \<Rightarrow> pyval \<Rightarrow> induced_library result" where
  "il_init alphabet frontend =
     (if alphabet < 2 then Inl ValueError
      else bind_r (if frontend = PNone then Inr () else bind_r (py_len frontend) (\<lambda>n.
             if n \<noteq> 64 then Inl ValueError else Inr ())) (\<lambda>_.
        Inr \<lparr>il_alphabet = alphabet, il_frontend = frontend, il_records = []\<rparr>))"

definition il_count :: "induced_library \<Rightarrow> int" where
  "il_count l = int (length (il_records l))"

definition il_record :: "induced_library \<Rightarrow> int \<Rightarrow> induced_record result" where
  "il_record l slot =
     (if \<not> (0 \<le> slot \<and> slot < il_count l) then Inl IndexError else Inr (il_records l ! nat slot))"

definition il_append :: "induced_library \<Rightarrow> induced_record \<Rightarrow> (induced_library \<times> int) result" where
  "il_append l r =
     bind_r (ir_validate r) (\<lambda>_.
       if ir_alphabet r \<noteq> il_alphabet l then Inl ValueError
       else bind_r (canonical_signature_stream (il_alphabet l) SIGNATURE_LENGTH) (\<lambda>stream.
         if length (ir_signature r) \<noteq> length stream then Inl ValueError
         else let l' = l\<lparr>il_records := il_records l @ [r]\<rparr> in Inr (l', il_count l' - 1)))"

fun duplicate_from :: "int list \<Rightarrow> int \<Rightarrow> induced_record list \<Rightarrow> int option result" where
  "duplicate_from signature slot [] = Inr None"
| "duplicate_from signature slot (r # rs) =
     bind_r (signature_distance (ir_signature r) signature) (\<lambda>d.
       if d = 0 then Inr (Some slot) else duplicate_from signature (slot + 1) rs)"

definition il_duplicate_of :: "induced_library \<Rightarrow> int list \<Rightarrow> int option result" where
  "il_duplicate_of l signature = duplicate_from signature 0 (il_records l)"

definition il_nearest :: "induced_library \<Rightarrow> int list \<Rightarrow> int \<Rightarrow> (int \<times> int) list result" where
  "il_nearest l signature limit =
     (if limit < 1 then Inl ValueError
      else bind_r (map_r (\<lambda>(slot, r). bind_r (signature_distance (ir_signature r) signature) (\<lambda>d.
             Inr (int slot, d))) (enumerate 0 (il_records l))) (\<lambda>scored.
        Inr (take (nat limit) (sort_key (\<lambda>(slot, d). (d, slot)) scored))))"

definition il_configuration :: "induced_library \<Rightarrow> (string \<times> pyval) list" where
  "il_configuration l =
     [(''schema'', PStr INDUCED_PROGRAM_LIBRARY_SCHEMA),
      (''alphabet'', PInt (il_alphabet l)),
      (''frontend_digest'', il_frontend l),
      (''signature_length'', PInt SIGNATURE_LENGTH)]"

definition il_digest :: "induced_library \<Rightarrow> string result" where
  "il_digest l =
     bind_r (map_r ir_digest (il_records l)) (\<lambda>ds.
       Inr (sha256_hex (json_dumps (PDict (il_configuration l)) @ concat ds)))"

definition il_payload :: "induced_library \<Rightarrow> pyval result" where
  "il_payload l =
     bind_r (map_r ir_payload (il_records l)) (\<lambda>records.
     bind_r (il_digest l) (\<lambda>digest.
       Inr (PDict
         [(''schema'', PStr INDUCED_PROGRAM_LIBRARY_SCHEMA),
          (''configuration'', PDict (il_configuration l)),
          (''records'', PList records),
          (''sha256'', PStr digest)])))"

fun il_restore :: "induced_library \<Rightarrow> pyval list \<Rightarrow> induced_library result" where
  "il_restore l [] = Inr l"
| "il_restore l (v # vs) =
     bind_r (ir_from_payload v) (\<lambda>r. bind_r (il_append l r) (\<lambda>(l', slot). il_restore l' vs))"

definition il_from_payload :: "pyval \<Rightarrow> induced_library result" where
  "il_from_payload v =
     (case v of
        PDict kvs \<Rightarrow>
          if dict_get kvs ''schema'' \<noteq> PStr INDUCED_PROGRAM_LIBRARY_SCHEMA then Inl ValueError
          else (case (dict_get kvs ''configuration'', dict_get kvs ''records'') of
              (PDict config, PList records) \<Rightarrow>
                bind_r (bind_r (dict_at config ''alphabet'') py_int) (\<lambda>alphabet.
                bind_r (il_init alphabet (dict_get config ''frontend_digest'')) (\<lambda>l.
                  if \<not> dict_same config (il_configuration l) then Inl ValueError
                  else bind_r (il_restore l records) (\<lambda>l'.
                       bind_r (il_digest l') (\<lambda>digest.
                         if dict_get kvs ''sha256'' \<noteq> PStr digest then Inl ValueError else Inr l'))))
            | _ \<Rightarrow> Inl TypeError)
      | _ \<Rightarrow> Inl ValueError)"

section \<open>Signatures, characterised\<close>

text \<open>The walk is the code's arithmetic modulo \<open>2 ^ 64\<close>.\<close>

lemma uint_lcg:
  "uint (lcg v) = (uint v * 6364136223846793005 + 1442695040888963407) mod 2 ^ 64"
  by (simp add: lcg_def uint_word_ariths mod_simps)

lemma length_walk [simp]: "length (signature_walk n alphabet v) = n"
  by (induction n arbitrary: v) (simp_all add: Let_def)

lemma walk_range: "2 \<le> alphabet \<Longrightarrow> set (signature_walk n alphabet v) \<subseteq> {0..<alphabet}"
  by (induction n arbitrary: v) (simp_all add: Let_def)

lemma walk_prefix: "m \<le> n \<Longrightarrow> take m (signature_walk n alphabet v) = signature_walk m alphabet v"
proof (induction n arbitrary: m v)
  case (Suc n)
  then show ?case by (cases m) (simp_all add: Let_def)
qed simp

definition hamming :: "int list \<Rightarrow> int list \<Rightarrow> int" where
  "hamming xs ys = int (length (filter (\<lambda>(a, b). a \<noteq> b) (zip xs ys)))"

lemma signature_distance_eq: "length xs = length ys \<Longrightarrow> signature_distance xs ys = Inr (hamming xs ys)"
  by (simp add: signature_distance_def hamming_def)

lemma hamming_zero: "length xs = length ys \<Longrightarrow> hamming xs ys = 0 \<longleftrightarrow> xs = ys"
  by (induction xs ys rule: list_induct2) (simp_all add: hamming_def)

section \<open>Records, characterised\<close>

definition ir_ok :: "induced_record \<Rightarrow> bool" where
  "ir_ok r \<longleftrightarrow> ir_schema r = INDUCED_PROGRAM_RECORD_SCHEMA \<and> valid_program (ir_program r)
     \<and> int (length (ir_counters r)) = cp_counter_count (ir_program r) \<and> (\<forall>v\<in>set (ir_counters r). 0 \<le> v)
     \<and> 2 \<le> ir_alphabet r \<and> ir_signature r \<noteq> [] \<and> 2 \<le> ir_actions r
     \<and> (\<forall>b\<in>set (ir_signature r). 0 \<le> b \<and> b < ir_actions r) \<and> is_dict (ir_provenance r)"

definition stored_form :: "induced_record \<Rightarrow> bool" where
  "stored_form r \<longleftrightarrow> json_normal (ir_provenance r) = ir_provenance r"

lemma ir_validate_Inr: "ir_validate r = Inr t \<longleftrightarrow> ir_ok r \<and> t = r"
proof -
  have "(\<exists>v\<in>set (ir_counters r). v < 0) \<longleftrightarrow> \<not> (\<forall>v\<in>set (ir_counters r). 0 \<le> v)" by force
  then show ?thesis
    unfolding ir_validate_def ir_ok_def by (auto simp: bind_r_eq_Inr cp_validate_Inr)
qed

lemma int_tuple_PInt: "int_tuple (PList (map PInt xs)) = Inr xs"
proof -
  have "map_r py_int (map PInt xs) = Inr xs" by (induction xs) auto
  then show ?thesis by (simp add: int_tuple_def)
qed

lemma ir_payload_ok:
  assumes "ir_ok r"
  obtains program kvs where "cp_payload (ir_program r) = Inr program" and "ir_payload r = Inr (PDict kvs)"
    and "dict_get kvs ''schema'' = PStr INDUCED_PROGRAM_RECORD_SCHEMA"
    and "dict_get kvs ''program'' = program"
    and "dict_at kvs ''initial_counters'' = Inr (PList (map PInt (ir_counters r)))"
    and "dict_at kvs ''alphabet'' = Inr (PInt (ir_alphabet r))"
    and "dict_at kvs ''signature'' = Inr (PList (map PInt (ir_signature r)))"
    and "dict_get kvs ''provenance'' = json_normal (ir_provenance r)"
    and "dict_get_default kvs ''action_count'' (PInt 2) = PInt (ir_actions r)"
proof -
  obtain program where p: "cp_payload (ir_program r) = Inr program"
    using cp_payload_valid [of "ir_program r"] assms unfolding ir_ok_def by blast
  have v: "ir_validate r = Inr r" using assms by (simp add: ir_validate_Inr)
  obtain kvs where kvs: "kvs = [(''schema'', PStr (ir_schema r)), (''program'', program),
        (''initial_counters'', PList (map PInt (ir_counters r))), (''alphabet'', PInt (ir_alphabet r)),
        (''signature'', PList (map PInt (ir_signature r))), (''provenance'', json_normal (ir_provenance r))]
      @ (if ir_actions r \<noteq> 2 then [(''action_count'', PInt (ir_actions r))] else [])" by blast
  have "ir_payload r = Inr (PDict kvs)" by (simp add: ir_payload_def v p kvs)
  then show thesis
    by (rule that [OF p]) (use assms in \<open>simp_all add: kvs dict_at_def ir_ok_def\<close>)
qed

lemma ir_roundtrip:
  assumes "ir_ok r" and "stored_form r"
  shows "\<exists>v. ir_payload r = Inr v \<and> ir_from_payload v = Inr r"
proof -
  obtain program kvs where r: "cp_payload (ir_program r) = Inr program" "ir_payload r = Inr (PDict kvs)"
      "dict_get kvs ''schema'' = PStr INDUCED_PROGRAM_RECORD_SCHEMA" "dict_get kvs ''program'' = program"
      "dict_at kvs ''initial_counters'' = Inr (PList (map PInt (ir_counters r)))"
      "dict_at kvs ''alphabet'' = Inr (PInt (ir_alphabet r))"
      "dict_at kvs ''signature'' = Inr (PList (map PInt (ir_signature r)))"
      "dict_get kvs ''provenance'' = json_normal (ir_provenance r)"
      "dict_get_default kvs ''action_count'' (PInt 2) = PInt (ir_actions r)"
    using ir_payload_ok [OF assms(1)] .
  have p: "cp_from_payload program = Inr (ir_program r)"
    using cp_roundtrip r(1) assms(1) by (auto simp: ir_ok_def)
  obtain ps where prov: "ir_provenance r = PDict ps" using assms(1) by (cases "ir_provenance r") (auto simp: ir_ok_def)
  have "ir_validate \<lparr>ir_program = ir_program r, ir_counters = ir_counters r, ir_alphabet = ir_alphabet r,
      ir_signature = ir_signature r, ir_provenance = ir_provenance r, ir_actions = ir_actions r,
      ir_schema = INDUCED_PROGRAM_RECORD_SCHEMA\<rparr> = Inr r"
    using assms(1) by (cases r) (simp add: ir_validate_Inr ir_ok_def)
  then have "ir_from_payload (PDict kvs) = Inr r"
    unfolding ir_from_payload_def pyval.case r(3-9) p bind_r_Inr int_tuple_PInt
    using assms(2) prov by (simp add: stored_form_def del: json_normal.simps)
  then show ?thesis using r(2) by blast
qed

lemma ir_from_payload_Inr: "ir_from_payload v = Inr r \<Longrightarrow> ir_ok r"
  by (auto simp: ir_from_payload_def bind_r_eq_Inr ir_validate_Inr split: pyval.splits if_splits)

lemma ir_digest_ok: "ir_ok r \<Longrightarrow> \<exists>d. ir_digest r = Inr d"
  by (rule ir_payload_ok [of r]) (simp_all add: ir_digest_def)

section \<open>The library, characterised\<close>

definition fits_library :: "induced_library \<Rightarrow> induced_record \<Rightarrow> bool" where
  "fits_library l r \<longleftrightarrow> ir_ok r \<and> ir_alphabet r = il_alphabet l \<and> length (ir_signature r) = 256"

definition il_ok :: "induced_library \<Rightarrow> bool" where
  "il_ok l \<longleftrightarrow> 2 \<le> il_alphabet l \<and> (il_frontend l = PNone \<or> py_len (il_frontend l) = Inr 64)
     \<and> (\<forall>r\<in>set (il_records l). fits_library l r)"

definition with_record :: "induced_library \<Rightarrow> induced_record \<Rightarrow> induced_library" where
  "with_record l r = l\<lparr>il_records := il_records l @ [r]\<rparr>"

lemma il_init_Inr:
  "il_init alphabet frontend = Inr l \<longleftrightarrow>
     2 \<le> alphabet \<and> (frontend = PNone \<or> py_len frontend = Inr 64)
     \<and> l = \<lparr>il_alphabet = alphabet, il_frontend = frontend, il_records = []\<rparr>"
  by (auto simp: il_init_def bind_r_eq_Inr not_less split: if_splits)

lemma il_append_Inr:
  assumes "il_ok l"
  shows "il_append l r = Inr (l', slot) \<longleftrightarrow> fits_library l r \<and> l' = with_record l r \<and> slot = il_count l"
proof -
  have "canonical_signature_stream (il_alphabet l) SIGNATURE_LENGTH
      = Inr (signature_walk 256 (il_alphabet l) SIGNATURE_SEED)"
    using assms by (simp add: canonical_signature_stream_def SIGNATURE_LENGTH_def il_ok_def)
  then show ?thesis
    by (auto simp: il_append_def bind_r_eq_Inr ir_validate_Inr fits_library_def with_record_def il_count_def
        Let_def)
qed

lemma with_record_ok: "il_ok l \<Longrightarrow> fits_library l r \<Longrightarrow> il_ok (with_record l r)"
  by (auto simp: il_ok_def with_record_def fits_library_def)

definition il_step :: "induced_library \<Rightarrow> induced_library \<Rightarrow> bool" where
  "il_step l l' \<longleftrightarrow> (\<exists>r slot. il_append l r = Inr (l', slot))"

text \<open>The library is an append-only store in which every slot is protected.\<close>

interpretation induced_store: program_store il_ok il_records "\<lambda>l. replicate (length (il_records l)) True"
  il_record il_step
proof
  fix l l' :: induced_library and k and r :: induced_record
  assume ok: "il_ok l"
  show "length (replicate (length (il_records l)) True) = length (il_records l)" by simp
  show "il_record l k = Inr r \<longleftrightarrow> in_range k (length (il_records l)) \<and> r = il_records l ! nat k"
    by (auto simp: il_record_def il_count_def in_range_def)
  assume step: "il_step l l'"
  then obtain q where q: "fits_library l q" "l' = with_record l q"
    using il_append_Inr [OF ok] by (auto simp: il_step_def)
  then show "il_ok l'" using with_record_ok [OF ok] by simp
  show "(\<exists>p b. il_records l' = il_records l @ [p]
        \<and> replicate (length (il_records l')) True = replicate (length (il_records l)) True @ [b])
      \<or> (\<exists>k. il_records l' = il_records l
        \<and> replicate (length (il_records l')) True = (replicate (length (il_records l)) True)[k := True])"
    using q(2) by (intro disjI1 exI [of _ q] exI [of _ True]) (simp add: with_record_def replicate_append_same)
qed

lemma duplicate_from_eq:
  assumes "\<forall>r\<in>set rs. length (ir_signature r) = length signature"
  shows "duplicate_from signature slot rs = Inr
    (case List.find (\<lambda>k. ir_signature (rs ! k) = signature) [0..<length rs] of
       None \<Rightarrow> None | Some k \<Rightarrow> Some (slot + int k))"
  using assms
proof (induction rs arbitrary: slot)
  case (Cons r rs)
  have shift: "List.find (\<lambda>k. ir_signature ((r # rs) ! k) = signature) [1..<length (r # rs)]
      = map_option Suc (List.find (\<lambda>k. ir_signature (rs ! k) = signature) [0..<length rs])"
  proof -
    have "List.find P (map Suc ks) = map_option Suc (List.find (\<lambda>k. P (Suc k)) ks)" for P ks
      by (induction ks) auto
    from this [of _ "[0..<length rs]"] show ?thesis by (simp add: map_Suc_upt)
  qed
  have split: "[0..<length (r # rs)] = 0 # [1..<length (r # rs)]" by (simp add: upt_rec)
  have d: "signature_distance (ir_signature r) signature = Inr (hamming (ir_signature r) signature)"
    using Cons.prems by (simp add: signature_distance_eq)
  have z: "hamming (ir_signature r) signature = 0 \<longleftrightarrow> ir_signature r = signature"
    using Cons.prems by (simp add: hamming_zero)
  show ?case
    unfolding split using Cons shift by (auto simp: d z split: option.splits simp del: upt_Suc)
qed simp

lemma duplicate_of_eq:
  assumes "il_ok l" and "length signature = 256"
  shows "il_duplicate_of l signature = Inr
    (case List.find (\<lambda>k. ir_signature (il_records l ! k) = signature) [0..<length (il_records l)] of
       None \<Rightarrow> None | Some k \<Rightarrow> Some (int k))"
proof -
  have "\<forall>r\<in>set (il_records l). length (ir_signature r) = length signature"
    using assms by (auto simp: il_ok_def fits_library_def)
  from duplicate_from_eq [OF this, of 0] show ?thesis by (simp add: il_duplicate_of_def split: option.split)
qed

text \<open>All slots with their distances, in slot order.\<close>

definition scored_slots :: "induced_library \<Rightarrow> int list \<Rightarrow> (int \<times> int) list" where
  "scored_slots l signature =
     map (\<lambda>k. (int k, hamming (ir_signature (il_records l ! k)) signature)) [0..<length (il_records l)]"

lemma nearest_eq:
  assumes "il_ok l" and "length signature = 256" and "1 \<le> limit"
  shows "il_nearest l signature limit
    = Inr (take (nat limit) (sort_key (\<lambda>(slot, d). (d, slot)) (scored_slots l signature)))"
proof -
  have len: "length (ir_signature r) = length signature" if "r \<in> set (il_records l)" for r
    using assms that by (auto simp: il_ok_def fits_library_def)
  have "map_r (\<lambda>(slot, r). bind_r (signature_distance (ir_signature r) signature) (\<lambda>d. Inr (int slot, d)))
      (enumerate 0 (il_records l)) = Inr (map (\<lambda>(slot, r). (int slot, hamming (ir_signature r) signature))
      (enumerate 0 (il_records l)))"
    by (rule map_r_total)
       (use len in \<open>auto simp: in_set_enumerate_eq signature_distance_eq split: prod.split\<close>)
  moreover have "map (\<lambda>(slot, r). (int slot, hamming (ir_signature r) signature)) (enumerate 0 (il_records l))
      = scored_slots l signature"
    by (rule nth_equalityI) (simp_all add: scored_slots_def nth_enumerate_eq)
  ultimately show ?thesis using assms(3) by (simp add: il_nearest_def)
qed

lemma sort_key_take:
  fixes key :: "'a \<Rightarrow> 'b::linorder"
  assumes "distinct xs" and "ys = take n (sort_key key xs)"
  shows "length ys = min n (length xs)" and "distinct ys" and "set ys \<subseteq> set xs"
    and "sorted (map key ys)" and "x \<in> set xs \<Longrightarrow> x \<notin> set ys \<Longrightarrow> y \<in> set ys \<Longrightarrow> key y \<le> key x"
proof -
  let ?zs = "sort_key key xs"
  show "length ys = min n (length xs)" by (simp add: assms(2) min.commute)
  show "distinct ys" using assms by simp
  show "set ys \<subseteq> set xs" using set_take_subset [of n ?zs] by (simp add: assms(2))
  have s: "sorted (map key (take n ?zs) @ map key (drop n ?zs))"
    by (metis append_take_drop_id map_append sorted_sort_key)
  then show "sorted (map key ys)" unfolding sorted_append by (simp add: assms(2))
  assume "x \<in> set xs" "x \<notin> set ys" "y \<in> set ys"
  moreover from this have "x \<in> set (drop n ?zs)"
    by (metis Un_iff append_take_drop_id assms(2) set_append set_sort)
  ultimately show "key y \<le> key x" using s unfolding sorted_append by (auto simp: assms(2))
qed

section \<open>Round trip of the library\<close>

lemma il_restore_all:
  assumes "il_ok l" and "\<forall>r\<in>set rs. fits_library l r \<and> stored_form r"
    and "map_r ir_payload rs = Inr vs"
  shows "il_restore l vs = Inr (l\<lparr>il_records := il_records l @ rs\<rparr>)"
  using assms
proof (induction rs arbitrary: l vs)
  case Nil
  then show ?case by simp
next
  case (Cons r rs)
  obtain v ws where vs: "vs = v # ws" "ir_payload r = Inr v" "map_r ir_payload rs = Inr ws"
    using Cons.prems(3) by (auto split: sum.splits)
  have fit: "fits_library l r" "ir_ok r" "stored_form r" using Cons.prems(2) by (auto simp: fits_library_def)
  have r: "ir_from_payload v = Inr r" using ir_roundtrip [OF fit(2,3)] vs(2) by simp
  have app: "il_append l r = Inr (with_record l r, il_count l)"
    using il_append_Inr [OF Cons.prems(1)] fit(1) by simp
  have ok: "il_ok (with_record l r)" by (rule with_record_ok [OF Cons.prems(1) fit(1)])
  have rest: "\<forall>q\<in>set rs. fits_library (with_record l r) q \<and> stored_form q"
    using Cons.prems(2) by (simp add: fits_library_def with_record_def)
  have "il_restore (with_record l r) ws = Inr ((with_record l r)\<lparr>il_records := il_records (with_record l r) @ rs\<rparr>)"
    by (rule Cons.IH [OF ok rest vs(3)])
  then show ?case by (simp add: vs(1) r app with_record_def)
qed

lemma il_restore_ok: "il_restore l vs = Inr l' \<Longrightarrow> il_ok l \<Longrightarrow> il_ok l'"
proof (induction vs arbitrary: l)
  case (Cons v vs)
  obtain r x where x: "il_append l r = Inr x" "(case x of (l1, slot) \<Rightarrow> il_restore l1 vs) = Inr l'"
    using Cons.prems(1) unfolding il_restore.simps bind_r_eq_Inr by blast
  obtain l1 slot where "x = (l1, slot)" by (cases x)
  then have "il_append l r = Inr (l1, slot)" "il_restore l1 vs = Inr l'" using x by simp_all
  then have "il_ok l1" "il_restore l1 vs = Inr l'"
    using il_append_Inr [OF Cons.prems(2)] with_record_ok [OF Cons.prems(2)] by simp_all
  then show ?case using Cons.IH by simp
qed simp

lemma il_payload_total:
  assumes "il_ok l"
  shows "\<exists>vs d. map_r ir_payload (il_records l) = Inr vs \<and> il_digest l = Inr d"
proof -
  have ok: "\<forall>r\<in>set (il_records l). ir_ok r" using assms by (simp add: il_ok_def fits_library_def)
  have "\<exists>ys. map_r f xs = Inr ys" if "\<forall>x\<in>set xs. \<exists>y. f x = Inr y" for f :: "induced_record \<Rightarrow> 'b result" and xs
    using that by (induction xs) auto
  note total = this
  have "\<exists>v. ir_payload r = Inr v" if "ir_ok r" for r by (rule ir_payload_ok [OF that]) blast
  then have "\<exists>vs. map_r ir_payload (il_records l) = Inr vs" using ok by (intro total) blast
  moreover have "\<exists>ds. map_r ir_digest (il_records l) = Inr ds"
    using ok ir_digest_ok by (intro total) blast
  ultimately show ?thesis by (auto simp: il_digest_def)
qed

lemma il_roundtrip:
  assumes "il_ok l" and "\<forall>r\<in>set (il_records l). stored_form r"
  shows "\<exists>v. il_payload l = Inr v \<and> il_from_payload v = Inr l"
proof -
  obtain vs d where vs: "map_r ir_payload (il_records l) = Inr vs" "il_digest l = Inr d"
    using il_payload_total [OF assms(1)] by blast
  let ?empty = "l\<lparr>il_records := []\<rparr>"
  have init: "il_init (il_alphabet l) (il_frontend l) = Inr ?empty"
    using assms(1) by (cases l) (simp add: il_init_Inr il_ok_def)
  have empty: "il_ok ?empty" using assms(1) by (simp add: il_ok_def)
  have fit: "\<forall>r\<in>set (il_records l). fits_library ?empty r \<and> stored_form r"
    using assms by (simp add: il_ok_def fits_library_def)
  have restore: "il_restore ?empty vs = Inr l" using il_restore_all [OF empty fit vs(1)] by simp
  obtain kvs where kvs: "kvs = [(''schema'', PStr INDUCED_PROGRAM_LIBRARY_SCHEMA),
      (''configuration'', PDict (il_configuration l)), (''records'', PList vs), (''sha256'', PStr d)]" by blast
  have get: "dict_get kvs ''schema'' = PStr INDUCED_PROGRAM_LIBRARY_SCHEMA"
      "dict_get kvs ''configuration'' = PDict (il_configuration l)" "dict_get kvs ''records'' = PList vs"
      "dict_get kvs ''sha256'' = PStr d" "dict_at (il_configuration l) ''alphabet'' = Inr (PInt (il_alphabet l))"
      "dict_get (il_configuration l) ''frontend_digest'' = il_frontend l"
      "dict_same (il_configuration l) (il_configuration ?empty)"
    by (simp_all add: kvs dict_at_def il_configuration_def dict_same_def)
  have "il_payload l = Inr (PDict kvs)" by (simp add: il_payload_def vs kvs)
  moreover have "il_from_payload (PDict kvs) = Inr l"
    unfolding il_from_payload_def pyval.case get prod.case bind_r_Inr py_int.simps init restore vs(2)
    using get(7) by simp
  ultimately show ?thesis by blast
qed

lemma il_from_payload_Inr:
  assumes "il_from_payload v = Inr l"
  shows "il_ok l \<and> (\<exists>kvs d. v = PDict kvs \<and> il_digest l = Inr d \<and> dict_get kvs ''sha256'' = PStr d)"
proof -
  obtain kvs where v: "v = PDict kvs" using assms by (cases v) (auto simp: il_from_payload_def)
  obtain a f l0 rs d where run: "il_init a f = Inr l0" "il_restore l0 rs = Inr l" "il_digest l = Inr d"
      "dict_get kvs ''sha256'' = PStr d"
    using assms unfolding v il_from_payload_def
    by (auto simp: bind_r_eq_Inr simp del: dict_get.simps split: pyval.splits if_splits)
  have "il_ok l0" using run(1) by (auto simp: il_init_Inr il_ok_def)
  then show ?thesis using il_restore_ok [OF run(2)] run(3,4) v by blast
qed

section \<open>Recognition\<close>

lemma il_record_Inr: "il_record l k = Inr r \<longleftrightarrow> in_range k (length (il_records l)) \<and> r = il_records l ! nat k"
  by (auto simp: il_record_def il_count_def in_range_def)

lemma scored_slots_mem:
  "(k, d) \<in> set (scored_slots l signature) \<longleftrightarrow>
     (\<exists>r. il_record l k = Inr r \<and> d = hamming (ir_signature r) signature)"
  by (auto simp: scored_slots_def il_record_Inr in_range_def image_iff intro!: bexI [of _ "nat k"])

lemma nearest_spec:
  assumes "il_ok l" and "length signature = 256" and "1 \<le> limit"
  shows "\<exists>ns. il_nearest l signature limit = Inr ns
    \<and> int (length ns) = min limit (il_count l) \<and> distinct (map fst ns)
    \<and> (\<forall>(k, d)\<in>set ns. \<exists>r. il_record l k = Inr r \<and> d = hamming (ir_signature r) signature)
    \<and> sorted (map (\<lambda>(k, d). (d, k)) ns)
    \<and> (\<forall>j r. il_record l j = Inr r \<and> j \<notin> fst ` set ns \<longrightarrow>
         (\<forall>(k, d)\<in>set ns. (d, k) \<le> (hamming (ir_signature r) signature, j)))"
proof -
  let ?key = "\<lambda>(slot, d). (d, slot) :: int \<times> int" and ?xs = "scored_slots l signature"
  obtain ns where ns: "ns = take (nat limit) (sort_key ?key ?xs)" by blast
  have "distinct (map fst ?xs)" by (simp add: scored_slots_def comp_def distinct_map inj_on_def)
  then have inj: "inj_on fst (set ?xs)" and d: "distinct ?xs" by (simp_all add: distinct_map)
  note take = sort_key_take [OF d ns]
  have "distinct (map fst ns)" using take(2,3) inj by (simp add: distinct_map inj_on_subset)
  moreover have "int (length ns) = min limit (il_count l)"
    using take(1) assms(3) by (simp add: scored_slots_def il_count_def)
  moreover have "\<exists>r. il_record l k = Inr r \<and> d = hamming (ir_signature r) signature" if "(k, d) \<in> set ns" for k d
    using that take(3) scored_slots_mem by blast
  moreover have "(d, k) \<le> (hamming (ir_signature r) signature, j)"
    if "il_record l j = Inr r" "j \<notin> fst ` set ns" "(k, d) \<in> set ns" for j r k d
  proof -
    have "(j, hamming (ir_signature r) signature) \<in> set ?xs" using that(1) scored_slots_mem by blast
    moreover have "(j, hamming (ir_signature r) signature) \<notin> set ns" using that(2) by force
    ultimately show ?thesis using take(5) [OF _ _ that(3)] by fastforce
  qed
  ultimately show ?thesis
    using nearest_eq [OF assms] take(4) unfolding ns [symmetric] by blast
qed

lemma duplicate_spec:
  assumes "il_ok l" and "length signature = 256"
  shows "\<exists>dup. il_duplicate_of l signature = Inr dup
    \<and> (case dup of
         None \<Rightarrow> \<forall>r\<in>set (il_records l). ir_signature r \<noteq> signature
       | Some k \<Rightarrow> \<exists>r. il_record l k = Inr r \<and> ir_signature r = signature
           \<and> (\<forall>j<k. \<forall>q. il_record l j = Inr q \<longrightarrow> ir_signature q \<noteq> signature))"
proof (cases "List.find (\<lambda>k. ir_signature (il_records l ! k) = signature) [0..<length (il_records l)]")
  case None
  then have "\<forall>r\<in>set (il_records l). ir_signature r \<noteq> signature"
    by (force simp: find_None_iff in_set_conv_nth)
  then show ?thesis using duplicate_of_eq [OF assms] None by simp
next
  case (Some k)
  then have k: "k < length (il_records l)" "ir_signature (il_records l ! k) = signature"
      "\<forall>j<k. ir_signature (il_records l ! j) \<noteq> signature"
    by (auto simp: find_Some_iff)
  have "\<exists>r. il_record l (int k) = Inr r \<and> ir_signature r = signature
      \<and> (\<forall>j<int k. \<forall>q. il_record l j = Inr q \<longrightarrow> ir_signature q \<noteq> signature)"
    using k by (auto simp: il_record_Inr in_range_def)
  then show ?thesis using duplicate_of_eq [OF assms] Some by simp
qed

section \<open>Properties\<close>

text \<open>
  C39. Recognition is exact and appending is harmless.  In a valid library, \<open>nearest\<close> returns as many
  different slots as asked for (or all), each with its true Hamming distance, ordered by distance and
  then slot, and no slot it leaves out comes before one it returns; \<open>duplicate_of\<close> returns the first
  slot with the same signature, or none.  Whatever is appended later, a slot keeps its record.
\<close>

theorem library_recognition:
  assumes "il_ok l" and "length signature = 256" and "1 \<le> limit" and "il_step\<^sup>*\<^sup>* l l'"
  shows "(\<exists>ns. il_nearest l signature limit = Inr ns
      \<and> int (length ns) = min limit (il_count l) \<and> distinct (map fst ns)
      \<and> (\<forall>(k, d)\<in>set ns. \<exists>r. il_record l k = Inr r \<and> d = hamming (ir_signature r) signature)
      \<and> sorted (map (\<lambda>(k, d). (d, k)) ns)
      \<and> (\<forall>j r. il_record l j = Inr r \<and> j \<notin> fst ` set ns \<longrightarrow>
           (\<forall>(k, d)\<in>set ns. (d, k) \<le> (hamming (ir_signature r) signature, j))))
    \<and> (\<exists>dup. il_duplicate_of l signature = Inr dup
      \<and> (case dup of
           None \<Rightarrow> \<forall>r\<in>set (il_records l). ir_signature r \<noteq> signature
         | Some k \<Rightarrow> \<exists>r. il_record l k = Inr r \<and> ir_signature r = signature
             \<and> (\<forall>j<k. \<forall>q. il_record l j = Inr q \<longrightarrow> ir_signature q \<noteq> signature)))
    \<and> (\<forall>k r. il_record l k = Inr r \<longrightarrow> il_record l' k = Inr r)"
  using nearest_spec [OF assms(1-3)] duplicate_spec [OF assms(1,2)]
    induced_store.lookup_stable [OF assms(4,1)] by blast

text \<open>
  A library survives its payload.  A valid library whose records hold their provenance in stored
  form (keys sorted) is read back unchanged from its payload; whatever payload is accepted yields a
  valid library and carries that library's own checksum.
\<close>

lemma library_payload_roundtrip:
  "(il_ok l \<and> (\<forall>r\<in>set (il_records l). stored_form r) \<longrightarrow>
      (\<exists>v. il_payload l = Inr v \<and> il_from_payload v = Inr l))
   \<and> (il_from_payload v = Inr m \<longrightarrow> il_ok m
      \<and> (\<exists>kvs d. v = PDict kvs \<and> il_digest m = Inr d \<and> dict_get kvs ''sha256'' = PStr d))"
  using il_roundtrip il_from_payload_Inr by blast

section \<open>Instances\<close>

definition drain_record :: induced_record where
  "drain_record = \<lparr>ir_program = drain, ir_counters = [0, 0], ir_alphabet = 3,
     ir_signature = replicate 256 1, ir_provenance = PDict [(''task'', PStr ''t'')], ir_actions = 2,
     ir_schema = INDUCED_PROGRAM_RECORD_SCHEMA\<rparr>"

definition small_library :: induced_library where
  "small_library = \<lparr>il_alphabet = 3, il_frontend = PNone, il_records = [drain_record]\<rparr>"

lemma small_library_ok: "il_ok small_library" "\<forall>r\<in>set (il_records small_library). stored_form r"
  "fits_library small_library drain_record"
proof -
  have "cp_counter_count drain = 2" by code_simp
  then have "ir_ok drain_record" using drain_valid by (simp add: ir_ok_def drain_record_def)
  then show "fits_library small_library drain_record"
    by (simp add: fits_library_def drain_record_def small_library_def)
  then show "il_ok small_library" by (simp add: il_ok_def small_library_def fits_library_def)
  show "\<forall>r\<in>set (il_records small_library). stored_form r"
    by (simp add: small_library_def stored_form_def drain_record_def)
qed

theorem library_recognition_witness:
  "il_duplicate_of small_library (replicate 256 1) = Inr (Some 0)
    \<and> il_record (with_record small_library drain_record) 0 = Inr drain_record"
proof -
  have step: "il_step small_library (with_record small_library drain_record)"
    using il_append_Inr [OF small_library_ok(1)] small_library_ok(3) by (auto simp: il_step_def)
  have r: "il_record small_library 0 = Inr drain_record" by (simp add: il_record_def il_count_def small_library_def)
  have sig: "ir_signature drain_record = replicate 256 1" by (simp add: drain_record_def)
  obtain dup where dup: "il_duplicate_of small_library (replicate 256 1) = Inr dup"
      "case dup of
           None \<Rightarrow> \<forall>r\<in>set (il_records small_library). ir_signature r \<noteq> replicate 256 1
         | Some k \<Rightarrow> \<exists>r. il_record small_library k = Inr r \<and> ir_signature r = replicate 256 1
             \<and> (\<forall>j<k. \<forall>q. il_record small_library j = Inr q \<longrightarrow> ir_signature q \<noteq> replicate 256 1)"
      "\<forall>k r. il_record small_library k = Inr r \<longrightarrow> il_record (with_record small_library drain_record) k = Inr r"
    using library_recognition [OF small_library_ok(1), of "replicate 256 1" 1, OF _ _ r_into_rtranclp [of il_step, OF step]]
    by auto
  have "dup = Some 0"
    using dup(2) r sig by (cases dup) (auto simp: il_record_def il_count_def small_library_def split: if_splits)
  then show ?thesis using dup(1,3) r by blast
qed

end
