(* ===== verification/EventInterface.thy ===== *)
theory EventInterface
  imports PyFloat PyValue
begin

text \<open>
  \<open>interface.py\<close>: the transport types the executive consumes and emits, and their validators.

  Torch is not part of the sources.  \<open>tensor_lib\<close> names the torch operations the modelled code calls,
  as a parameter: \<open>'t\<close> is the type of tensors, a tensor is seen through its shape, data type, device
  and the reductions the code takes of it.  An error that torch itself would raise (operands on two
  devices, say) is outside the model.
\<close>

section \<open>The tensor operations\<close>

record 't tensor_lib =
  tl_shape :: "'t \<Rightarrow> int list"
  tl_dtype :: "'t \<Rightarrow> string"
  tl_device :: "'t \<Rightarrow> string"
  tl_floating :: "'t \<Rightarrow> bool"
  tl_finite :: "'t \<Rightarrow> bool"
  tl_negative :: "'t \<Rightarrow> bool"
  tl_any :: "'t \<Rightarrow> bool"
  tl_all :: "'t \<Rightarrow> bool"
  tl_equal :: "'t \<Rightarrow> 't \<Rightarrow> bool"
  tl_any_rows :: "'t \<Rightarrow> 't"
  tl_amax_rows :: "'t \<Rightarrow> 't"
  tl_where_zero :: "'t \<Rightarrow> 't \<Rightarrow> 't"
  tl_clone :: "'t \<Rightarrow> 't"
  tl_zeros :: "int list \<Rightarrow> string \<Rightarrow> string \<Rightarrow> 't"
  tl_ones :: "int list \<Rightarrow> string \<Rightarrow> string \<Rightarrow> 't"
  tl_bool_at :: "'t \<Rightarrow> nat \<Rightarrow> bool"
  tl_float_at :: "'t \<Rightarrow> nat \<Rightarrow> nat \<Rightarrow> pyfloat"

text \<open>
  In the order of the record: \<open>x.shape\<close>, \<open>x.dtype\<close>, \<open>x.device\<close>, \<open>x.is_floating_point()\<close>,
  \<open>isfinite(x).all()\<close>, \<open>any(x < 0)\<close>, \<open>x.any()\<close>, \<open>x.all()\<close>, \<open>torch.equal\<close>, \<open>x.any(dim=1)\<close>,
  \<open>x.amax(dim=1)\<close>, \<open>where(mask, x, zeros_like(x))\<close>, \<open>x.detach().clone()\<close>, \<open>zeros\<close>, \<open>ones\<close>, and the
  elements \<open>x[i]\<close> and \<open>x[i, j]\<close>.
\<close>

definition torch_bool :: string where
  "torch_bool = ''torch.bool''"

definition tl_ndim :: "'t tensor_lib \<Rightarrow> 't \<Rightarrow> nat" where
  "tl_ndim T x = length (tl_shape T x)"

definition opt_holds :: "('t \<Rightarrow> bool) \<Rightarrow> 't option \<Rightarrow> bool" where
  "opt_holds P x = (case x of None \<Rightarrow> True | Some t \<Rightarrow> P t)"

text \<open>\<open>_validate_batch\<close> and \<open>_validate_finite\<close>.\<close>

definition validate_batch :: "'t tensor_lib \<Rightarrow> 't option \<Rightarrow> int \<Rightarrow> unit result" where
  "validate_batch T x batch =
     (case x of None \<Rightarrow> Inr ()
      | Some t \<Rightarrow> if tl_ndim T t = 0 \<or> hd (tl_shape T t) \<noteq> batch then Inl ValueError else Inr ())"

definition validate_finite :: "'t tensor_lib \<Rightarrow> 't option \<Rightarrow> unit result" where
  "validate_finite T x =
     (case x of None \<Rightarrow> Inr () | Some t \<Rightarrow> if \<not> tl_finite T t then Inl ValueError else Inr ())"

section \<open>Event collections\<close>

definition EVENT_SCHEMA :: string where
  "EVENT_SCHEMA = ''neural-computer.amodal-event.v2''"

definition INTENTION_SCHEMA :: string where
  "INTENTION_SCHEMA = ''neural-computer.intent-event.v2''"

record 't event_collection =
  ec_payload :: 't
  ec_present :: 't
  ec_confidence :: 't
  ec_source_key :: "'t option"
  ec_timestamp :: "'t option"
  ec_timestamp_present :: "'t option"
  ec_duration :: "'t option"
  ec_duration_present :: "'t option"
  ec_schema :: string

definition metadata_ok :: "'t tensor_lib \<Rightarrow> int \<Rightarrow> int \<Rightarrow> 't option \<Rightarrow> 't option \<Rightarrow> bool" where
  "metadata_ok T batch events mark field =
     (case mark of
        Some m \<Rightarrow> field \<noteq> None \<and> tl_shape T m = [batch, events] \<and> tl_dtype T m = torch_bool
      | None \<Rightarrow> field = None)"

definition ec_validate ::
    "'t tensor_lib \<Rightarrow> 't event_collection \<Rightarrow> int option \<Rightarrow> 't event_collection result" where
  "ec_validate T c width =
     (if ec_schema c \<noteq> EVENT_SCHEMA then Inl ValueError
      else case tl_shape T (ec_payload c) of
        [batch, events, payload_width] \<Rightarrow>
          (if width \<noteq> None \<and> width \<noteq> Some payload_width then Inl ValueError
           else if tl_shape T (ec_present c) \<noteq> [batch, events] \<or> tl_dtype T (ec_present c) \<noteq> torch_bool
           then Inl ValueError
           else if tl_shape T (ec_confidence c) \<noteq> [batch, events] then Inl ValueError
           else bind_r (validate_finite T (Some (ec_payload c))) (\<lambda>_.
                bind_r (validate_finite T (ec_source_key c)) (\<lambda>_.
                bind_r (validate_finite T (ec_timestamp c)) (\<lambda>_.
                bind_r (validate_finite T (ec_duration c)) (\<lambda>_.
                bind_r (validate_finite T (Some (ec_confidence c))) (\<lambda>_.
                if tl_negative T (ec_confidence c) then Inl ValueError
                else if \<not> opt_holds (\<lambda>t. tl_shape T t = [batch, events]) (ec_timestamp c)
                then Inl ValueError
                else if \<not> opt_holds (\<lambda>t. tl_shape T t = [batch, events]) (ec_duration c)
                then Inl ValueError
                else if \<not> metadata_ok T batch events (ec_timestamp_present c) (ec_timestamp c)
                then Inl ValueError
                else if \<not> metadata_ok T batch events (ec_duration_present c) (ec_duration c)
                then Inl ValueError
                else if \<not> opt_holds (\<lambda>t. tl_ndim T t = 3 \<and> take 2 (tl_shape T t) = [batch, events])
                       (ec_source_key c)
                then Inl ValueError
                else if \<not> opt_holds (\<lambda>t. \<not> tl_negative T t) (ec_duration c) then Inl ValueError
                else Inr c))))))
      | _ \<Rightarrow> Inl ValueError)"

lemma ec_validate_result: "ec_validate T c width = Inr d \<Longrightarrow> d = c"
  by (auto simp: ec_validate_def bind_r_eq_Inr split: list.splits if_splits)

section \<open>Intentions\<close>

record 't intent_event =
  ie_payload :: 't
  ie_timestamp :: "'t option"
  ie_confidence :: "'t option"
  ie_target_key :: "'t option"
  ie_schema :: string

definition ie_validate ::
    "'t tensor_lib \<Rightarrow> 't intent_event \<Rightarrow> int option \<Rightarrow> 't intent_event result" where
  "ie_validate T i width =
     (if ie_schema i \<noteq> INTENTION_SCHEMA then Inl ValueError
      else case tl_shape T (ie_payload i) of
        [batch, payload_width] \<Rightarrow>
          (if width \<noteq> None \<and> width \<noteq> Some payload_width then Inl ValueError
           else bind_r (validate_finite T (Some (ie_payload i))) (\<lambda>_.
                bind_r (validate_batch T (ie_timestamp i) batch) (\<lambda>_.
                bind_r (validate_batch T (ie_confidence i) batch) (\<lambda>_.
                bind_r (validate_batch T (ie_target_key i) batch) (\<lambda>_.
                bind_r (validate_finite T (ie_timestamp i)) (\<lambda>_.
                bind_r (validate_finite T (ie_confidence i)) (\<lambda>_.
                bind_r (validate_finite T (ie_target_key i)) (\<lambda>_. Inr i))))))))
      | _ \<Rightarrow> Inl ValueError)"

lemma ie_validate_result: "ie_validate T i width = Inr j \<Longrightarrow> j = i"
  by (auto simp: ie_validate_def bind_r_eq_Inr split: list.splits if_splits)

end
