(* ===== verification/Executive.thy ===== *)
theory Executive
  imports EventInterface "HOL-Library.AList"
begin

text \<open>
  \<open>executive.py\<close>: the interpreter of external executive programs.  Typed workspace values, operators
  behind opaque handles with explicit versioned state, the registry that calls them, programs and their
  validator, the persistent state, and \<open>ExternalAmodalExecutive.tick\<close> with its checked and its trusted
  (\<open>tick_fast\<close>) variant.

  An operator object is the record of what the code calls on it: a subclass overrides
  \<open>configuration\<close>, \<open>initial_state\<close>, \<open>validate_state\<close> and \<open>execute_with_state\<close>, so these are fields.
  A dictionary keyed by handles is an association list in insertion order.
\<close>

section \<open>Typed workspace values\<close>

datatype workspace_kind = KEmpty | KEvents | KValue | KEvidence | KIntention | KOther string

datatype 't workspace_payload = NoPayload | TensorPayload 't | EventsPayload "'t event_collection"

record 't workspace_value =
  wv_kind :: workspace_kind
  wv_payload :: "'t workspace_payload"
  wv_present :: 't
  wv_confidence :: 't

definition clone_collection :: "'t tensor_lib \<Rightarrow> 't event_collection \<Rightarrow> 't event_collection" where
  "clone_collection T c =
     \<lparr>ec_payload = tl_clone T (ec_payload c), ec_present = tl_clone T (ec_present c),
      ec_confidence = tl_clone T (ec_confidence c),
      ec_source_key = map_option (tl_clone T) (ec_source_key c),
      ec_timestamp = map_option (tl_clone T) (ec_timestamp c),
      ec_timestamp_present = map_option (tl_clone T) (ec_timestamp_present c),
      ec_duration = map_option (tl_clone T) (ec_duration c),
      ec_duration_present = map_option (tl_clone T) (ec_duration_present c),
      ec_schema = EVENT_SCHEMA\<rparr>"

definition wv_validate :: "'t tensor_lib \<Rightarrow> 't workspace_value \<Rightarrow> int \<Rightarrow> 't workspace_value result" where
  "wv_validate T v batch =
     (if (case wv_kind v of KOther _ \<Rightarrow> True | _ \<Rightarrow> False) then Inl ValueError
      else if tl_shape T (wv_present v) \<noteq> [batch] \<or> tl_dtype T (wv_present v) \<noteq> torch_bool
      then Inl ValueError
      else if tl_shape T (wv_confidence v) \<noteq> [batch] then Inl ValueError
      else if \<not> tl_floating T (wv_confidence v) \<or> \<not> tl_finite T (wv_confidence v) then Inl ValueError
      else if tl_negative T (wv_confidence v) then Inl ValueError
      else if wv_kind v = KEmpty then
        (if wv_payload v \<noteq> NoPayload \<or> tl_any T (wv_present v) then Inl ValueError else Inr v)
      else if wv_kind v = KEvents then
        (case wv_payload v of
           EventsPayload c \<Rightarrow>
             bind_r (ec_validate T c None) (\<lambda>_.
               if hd (tl_shape T (ec_payload c)) \<noteq> batch then Inl ValueError
               else if \<not> tl_equal T (wv_present v) (tl_any_rows T (ec_present c)) then Inl ValueError
               else Inr v)
         | _ \<Rightarrow> Inl TypeError)
      else
        (case wv_payload v of
           TensorPayload p \<Rightarrow>
             (if tl_ndim T p \<noteq> 2 then Inl TypeError
              else if tl_shape T p ! 0 \<noteq> batch then Inl ValueError
              else if \<not> tl_floating T p \<or> \<not> tl_finite T p then Inl ValueError
              else if tl_device T p \<noteq> tl_device T (wv_present v)
                \<or> tl_device T p \<noteq> tl_device T (wv_confidence v) then Inl ValueError
              else if wv_kind v = KEvidence \<and> tl_shape T p ! 1 \<noteq> 1 then Inl ValueError
              else Inr v)
         | _ \<Rightarrow> Inl TypeError))"

definition wv_clone :: "'t tensor_lib \<Rightarrow> 't workspace_value \<Rightarrow> 't workspace_value" where
  "wv_clone T v =
     \<lparr>wv_kind = wv_kind v,
      wv_payload = (case wv_payload v of EventsPayload c \<Rightarrow> EventsPayload (clone_collection T c)
        | TensorPayload p \<Rightarrow> TensorPayload (tl_clone T p) | NoPayload \<Rightarrow> NoPayload),
      wv_present = tl_clone T (wv_present v),
      wv_confidence = tl_clone T (wv_confidence v)\<rparr>"

definition wv_empty :: "'t tensor_lib \<Rightarrow> int \<Rightarrow> string \<Rightarrow> string \<Rightarrow> 't workspace_value result" where
  "wv_empty T batch_size device dtype =
     (if batch_size < 1 then Inl ValueError
      else Inr \<lparr>wv_kind = KEmpty, wv_payload = NoPayload,
                wv_present = tl_zeros T [batch_size] torch_bool device,
                wv_confidence = tl_zeros T [batch_size] dtype device\<rparr>)"

definition wv_from_events :: "'t tensor_lib \<Rightarrow> 't event_collection \<Rightarrow> 't workspace_value result" where
  "wv_from_events T c =
     bind_r (ec_validate T c None) (\<lambda>_.
       let shape = tl_shape T (ec_payload c);
           present = tl_any_rows T (ec_present c);
           confidence =
             (if shape ! 1 = 0
              then tl_zeros T [hd shape] (tl_dtype T (ec_payload c)) (tl_device T (ec_payload c))
              else tl_amax_rows T (tl_where_zero T (ec_present c) (ec_confidence c)))
       in wv_validate T
            \<lparr>wv_kind = KEvents, wv_payload = EventsPayload (clone_collection T c),
             wv_present = tl_clone T present, wv_confidence = tl_clone T confidence\<rparr> (hd shape))"

definition wv_from_tensor ::
    "'t tensor_lib \<Rightarrow> workspace_kind \<Rightarrow> 't \<Rightarrow> 't option \<Rightarrow> 't option \<Rightarrow> 't workspace_value result" where
  "wv_from_tensor T kind payload present confidence =
     (if tl_ndim T payload \<noteq> 2 then Inl ValueError
      else
        let batch = hd (tl_shape T payload);
            present = (case present of None \<Rightarrow> tl_ones T [batch] torch_bool (tl_device T payload)
              | Some p \<Rightarrow> p);
            confidence = (case confidence of
                None \<Rightarrow> tl_ones T [batch] (tl_dtype T payload) (tl_device T payload)
              | Some c \<Rightarrow> c)
        in wv_validate T
             \<lparr>wv_kind = kind, wv_payload = TensorPayload (tl_clone T payload),
              wv_present = tl_clone T present, wv_confidence = tl_clone T confidence\<rparr> batch)"

section \<open>Operator state\<close>

definition EXECUTIVE_OPERATOR_STATE_SCHEMA :: string where
  "EXECUTIVE_OPERATOR_STATE_SCHEMA = ''neural-computer.external-executive-operator-state.v1''"

record 't operator_state =
  os_version :: string
  os_tensors :: "(string \<times> 't) list"
  os_schema :: string

definition os_validate :: "'t tensor_lib \<Rightarrow> 't operator_state \<Rightarrow> 't operator_state result" where
  "os_validate T s =
     (if os_schema s \<noteq> EXECUTIVE_OPERATOR_STATE_SCHEMA then Inl ValueError
      else if os_version s = [] then Inl ValueError
      else if [] \<in> set (map fst (os_tensors s)) \<or> \<not> distinct (map fst (os_tensors s)) then Inl ValueError
      else if \<exists>nt\<in>set (os_tensors s). tl_floating T (snd nt) \<and> \<not> tl_finite T (snd nt) then Inl ValueError
      else Inr s)"

definition os_from_mapping ::
    "'t tensor_lib \<Rightarrow> string \<Rightarrow> (string \<times> 't) list \<Rightarrow> 't operator_state result" where
  "os_from_mapping T version tensors =
     os_validate T
       \<lparr>os_version = version,
        os_tensors = map (\<lambda>(n, v). (n, tl_clone T v)) (sort_key fst tensors),
        os_schema = EXECUTIVE_OPERATOR_STATE_SCHEMA\<rparr>"

definition os_tensor :: "'t operator_state \<Rightarrow> string \<Rightarrow> 't result" where
  "os_tensor s name = (case map_of (os_tensors s) name of None \<Rightarrow> Inl KeyError | Some t \<Rightarrow> Inr t)"

definition os_clone :: "'t tensor_lib \<Rightarrow> 't operator_state \<Rightarrow> 't operator_state result" where
  "os_clone T s =
     os_validate T (s\<lparr>os_tensors := map (\<lambda>(n, v). (n, tl_clone T v)) (os_tensors s)\<rparr>)"

section \<open>Operators and their registry\<close>

definition EXECUTIVE_OPERATOR_SCHEMA :: string where
  "EXECUTIVE_OPERATOR_SCHEMA = ''neural-computer.external-executive-operator.v1''"

record 't xoperator =
  op_handle :: int
  op_input_kinds :: "workspace_kind list"
  op_output_kind :: workspace_kind
  op_version :: string
  op_configuration :: pyval
  op_initial :: "int \<Rightarrow> string \<Rightarrow> string \<Rightarrow> 't operator_state result"
  op_validate :: "'t operator_state \<Rightarrow> int \<Rightarrow> unit result"
  op_run :: "'t workspace_value list \<Rightarrow> 't operator_state \<Rightarrow>
    ('t workspace_value \<times> 't operator_state) result"

definition kind_name :: "workspace_kind \<Rightarrow> string" where
  "kind_name k = (case k of KEmpty \<Rightarrow> ''empty'' | KEvents \<Rightarrow> ''events'' | KValue \<Rightarrow> ''value''
     | KEvidence \<Rightarrow> ''evidence'' | KIntention \<Rightarrow> ''intention'' | KOther s \<Rightarrow> s)"

text \<open>The methods an operator inherits when its class does not override them.\<close>

definition base_configuration :: "int \<Rightarrow> workspace_kind list \<Rightarrow> workspace_kind \<Rightarrow> string \<Rightarrow>
    (string \<times> pyval) list" where
  "base_configuration handle inputs out version =
     [(''schema'', PStr EXECUTIVE_OPERATOR_SCHEMA), (''handle'', PInt handle),
      (''input_kinds'', PList (map (\<lambda>k. PStr (kind_name k)) inputs)),
      (''output_kind'', PStr (kind_name out)), (''interface_version'', PStr version)]"

definition base_initial :: "'t tensor_lib \<Rightarrow> string \<Rightarrow> 't operator_state result" where
  "base_initial T version =
     os_validate T \<lparr>os_version = version, os_tensors = [], os_schema = EXECUTIVE_OPERATOR_STATE_SCHEMA\<rparr>"

definition base_validate :: "'t tensor_lib \<Rightarrow> string \<Rightarrow> 't operator_state \<Rightarrow> unit result" where
  "base_validate T version s =
     bind_r (os_validate T s) (\<lambda>_.
       if os_version s \<noteq> version then Inl ValueError
       else if os_tensors s \<noteq> [] then Inl ValueError
       else Inr ())"

definition base_run :: "'t tensor_lib \<Rightarrow> ('t workspace_value list \<Rightarrow> 't workspace_value result) \<Rightarrow>
    't workspace_value list \<Rightarrow> 't operator_state \<Rightarrow> ('t workspace_value \<times> 't operator_state) result" where
  "base_run T execute arguments s =
     bind_r (execute arguments) (\<lambda>v. bind_r (os_clone T s) (\<lambda>s'. Inr (v, s')))"

definition op_init :: "int \<Rightarrow> workspace_kind list \<Rightarrow> workspace_kind \<Rightarrow> string \<Rightarrow> unit result" where
  "op_init handle inputs out version =
     (if handle < 0 then Inl ValueError
      else if inputs = [] \<or> KEmpty \<in> set inputs then Inl ValueError
      else if out = KEmpty then Inl ValueError
      else if version = [] then Inl ValueError
      else Inr ())"

record 't registry =
  xr_operators :: "(int \<times> 't xoperator) list"
  xr_handles :: "int list"
  xr_digest :: string

fun register_all :: "(int \<times> 't xoperator) list \<Rightarrow> 't xoperator list \<Rightarrow> (int \<times> 't xoperator) list result" where
  "register_all d [] = Inr d"
| "register_all d (p # ps) =
     (if op_handle p \<in> set (map fst d) then Inl ValueError
      else register_all (d @ [(op_handle p, p)]) ps)"

definition xr_init :: "'t xoperator list \<Rightarrow> 't registry result" where
  "xr_init ops =
     bind_r (register_all [] ops) (\<lambda>d.
       let handles = sort (map fst d)
       in Inr \<lparr>xr_operators = d, xr_handles = handles,
               xr_digest = digest_payload
                 (PList (map (\<lambda>h. op_configuration (the (map_of d h))) handles))\<rparr>)"

definition xr_operator :: "'t registry \<Rightarrow> int \<Rightarrow> 't xoperator result" where
  "xr_operator r h = (case map_of (xr_operators r) h of None \<Rightarrow> Inl LookupError | Some p \<Rightarrow> Inr p)"

definition xr_initial_states :: "'t tensor_lib \<Rightarrow> 't registry \<Rightarrow> int \<Rightarrow> string \<Rightarrow> string \<Rightarrow>
    (int \<times> 't operator_state) list result" where
  "xr_initial_states T r batch_size device dtype =
     map_r (\<lambda>h.
       bind_r (xr_operator r h) (\<lambda>p.
       bind_r (op_initial p batch_size device dtype) (\<lambda>s.
       bind_r (os_clone T s) (\<lambda>s'.
       bind_r (op_validate p s' batch_size) (\<lambda>_. Inr (h, s')))))) (xr_handles r)"

definition xr_validate_states :: "'t registry \<Rightarrow> (int \<times> 't operator_state) list \<Rightarrow> int \<Rightarrow> unit result" where
  "xr_validate_states r states batch_size =
     (if map fst states \<noteq> xr_handles r then Inl ValueError
      else all_r (\<lambda>(h, s). bind_r (xr_operator r h) (\<lambda>p. op_validate p s batch_size)) states)"

text \<open>The arguments are checked one after the other, the value first when the caller is not trusted.\<close>

definition check_argument ::
    "'t tensor_lib \<Rightarrow> bool \<Rightarrow> int \<Rightarrow> 't workspace_value \<times> workspace_kind \<Rightarrow> unit result" where
  "check_argument T trusted batch_size vk =
     bind_r (if trusted then Inr (fst vk) else wv_validate T (fst vk) batch_size) (\<lambda>_.
       if wv_kind (fst vk) \<noteq> snd vk then Inl TypeError else Inr ())"

definition xr_call :: "'t tensor_lib \<Rightarrow> 't registry \<Rightarrow> bool \<Rightarrow> int \<Rightarrow> int \<Rightarrow> 't workspace_value list \<Rightarrow>
    't operator_state \<Rightarrow> ('t workspace_value \<times> 't operator_state) result" where
  "xr_call T r trusted batch_size h arguments s =
     bind_r (xr_operator r h) (\<lambda>p.
       if length arguments \<noteq> length (op_input_kinds p) then Inl ValueError
       else
         bind_r (all_r (check_argument T trusted batch_size) (zip arguments (op_input_kinds p))) (\<lambda>_.
         bind_r (if trusted then Inr () else op_validate p s batch_size) (\<lambda>_.
         bind_r (os_clone T s) (\<lambda>s0.
         bind_r (op_run p (map (wv_clone T) arguments) s0) (\<lambda>(v, s1).
         bind_r (wv_validate T v batch_size) (\<lambda>_.
           if wv_kind v \<noteq> op_output_kind p then Inl TypeError
           else
             bind_r (op_validate p s1 batch_size) (\<lambda>_.
             bind_r (os_clone T s1) (\<lambda>s2. Inr (wv_clone T v, s2)))))))))"

section \<open>Instructions and programs\<close>

definition LEGACY_EXECUTIVE_PROGRAM_SCHEMA :: string where
  "LEGACY_EXECUTIVE_PROGRAM_SCHEMA = ''neural-computer.external-executive-program.v1''"

definition EXECUTIVE_PROGRAM_SCHEMA :: string where
  "EXECUTIVE_PROGRAM_SCHEMA = ''neural-computer.external-executive-program.v2''"

datatype xop = Receive | Read | Write | CopySlot | Call | Branch | Wait | Emit | Handoff | Halt
  | OtherOp string

record xinstruction =
  xi_op :: xop
  xi_source :: "int option"
  xi_destination :: "int option"
  xi_handle :: "int option"
  xi_arguments :: "int list"
  xi_true :: "int option"
  xi_false :: "int option"
  xi_unknown :: "int option"
  xi_next :: "int option"

definition opt_in_range :: "int option \<Rightarrow> nat \<Rightarrow> bool" where
  "opt_in_range t n = (case t of None \<Rightarrow> False | Some i \<Rightarrow> in_range i n)"

definition xi_operands_ok :: "xinstruction \<Rightarrow> nat \<Rightarrow> bool" where
  "xi_operands_ok i program_length =
     (case xi_op i of
        Receive \<Rightarrow> xi_destination i \<noteq> None
      | Read \<Rightarrow> xi_source i \<noteq> None
      | Write \<Rightarrow> xi_destination i \<noteq> None
      | CopySlot \<Rightarrow> xi_source i \<noteq> None \<and> xi_destination i \<noteq> None
      | Call \<Rightarrow> (case xi_handle i of None \<Rightarrow> False | Some h \<Rightarrow> 0 \<le> h) \<and> xi_destination i \<noteq> None
      | Branch \<Rightarrow> xi_source i \<noteq> None \<and> opt_in_range (xi_true i) program_length
          \<and> opt_in_range (xi_false i) program_length \<and> opt_in_range (xi_unknown i) program_length
      | Emit \<Rightarrow> xi_source i \<noteq> None
      | _ \<Rightarrow> True)"

definition xi_validate :: "int \<Rightarrow> nat \<Rightarrow> xinstruction \<Rightarrow> unit result" where
  "xi_validate slot_count program_length i =
     (if (case xi_op i of OtherOp _ \<Rightarrow> True | _ \<Rightarrow> False) then Inl ValueError
      else if \<exists>slot\<in>set (xi_arguments i) \<union> set_option (xi_source i) \<union> set_option (xi_destination i).
          \<not> (0 \<le> slot \<and> slot < slot_count) then Inl ValueError
      else if \<not> xi_operands_ok i program_length then Inl ValueError
      else if xi_next i \<noteq> None
        \<and> (xi_op i \<notin> {Wait, Emit, Handoff} \<or> \<not> opt_in_range (xi_next i) program_length)
      then Inl ValueError
      else Inr ())"

record xprogram =
  xp_slots :: int
  xp_instructions :: "xinstruction list"
  xp_schema :: string

definition xp_validate :: "xprogram \<Rightarrow> xprogram result" where
  "xp_validate p =
     (if xp_schema p \<noteq> LEGACY_EXECUTIVE_PROGRAM_SCHEMA \<and> xp_schema p \<noteq> EXECUTIVE_PROGRAM_SCHEMA
      then Inl ValueError
      else if xp_slots p < 1 \<or> xp_instructions p = [] then Inl ValueError
      else
        bind_r (all_r (xi_validate (xp_slots p) (length (xp_instructions p))) (xp_instructions p)) (\<lambda>_.
          if xi_op (last (xp_instructions p)) \<noteq> Halt then Inl ValueError else Inr p))"

definition xop_name :: "xop \<Rightarrow> string" where
  "xop_name op = (case op of Receive \<Rightarrow> ''receive'' | Read \<Rightarrow> ''read'' | Write \<Rightarrow> ''write''
     | CopySlot \<Rightarrow> ''copy'' | Call \<Rightarrow> ''call'' | Branch \<Rightarrow> ''branch'' | Wait \<Rightarrow> ''wait'' | Emit \<Rightarrow> ''emit''
     | Handoff \<Rightarrow> ''handoff'' | Halt \<Rightarrow> ''halt'' | OtherOp s \<Rightarrow> s)"

definition xi_dict :: "xinstruction \<Rightarrow> pyval" where
  "xi_dict i = PDict
     [(''op'', PStr (xop_name (xi_op i))), (''source'', opt_int_value (xi_source i)),
      (''destination'', opt_int_value (xi_destination i)),
      (''operator_handle'', opt_int_value (xi_handle i)),
      (''arguments'', PList (map PInt (xi_arguments i))),
      (''true_target'', opt_int_value (xi_true i)), (''false_target'', opt_int_value (xi_false i)),
      (''unknown_target'', opt_int_value (xi_unknown i)), (''next_target'', opt_int_value (xi_next i))]"

definition xp_digest :: "xprogram \<Rightarrow> string" where
  "xp_digest p = digest_payload (PDict
     [(''schema'', PStr (xp_schema p)), (''slot_count'', PInt (xp_slots p)),
      (''instructions'', PList (map xi_dict (xp_instructions p)))])"

section \<open>The persistent state\<close>

definition EXECUTIVE_STATE_SCHEMA :: string where
  "EXECUTIVE_STATE_SCHEMA = ''neural-computer.external-executive-state.v1''"

datatype xstatus = Ready | Waiting | Emitted | Halted | Exhausted | OtherStatus string

record 't xstate =
  xs_workspace :: "'t workspace_value list"
  xs_accumulator :: "'t workspace_value"
  xs_pointer :: int
  xs_status :: xstatus
  xs_batch :: int
  xs_operators :: "(int \<times> 't operator_state) list"
  xs_registry :: string
  xs_ticks :: int
  xs_executed :: int
  xs_schema :: string

definition xs_validate :: "'t tensor_lib \<Rightarrow> int \<Rightarrow> 't xstate \<Rightarrow> 't xstate result" where
  "xs_validate T slot_count s =
     (if xs_schema s \<noteq> EXECUTIVE_STATE_SCHEMA then Inl ValueError
      else if xs_batch s < 1 \<or> int (length (xs_workspace s)) \<noteq> slot_count then Inl ValueError
      else if xs_pointer s < 0 \<or> xs_ticks s < 0 \<or> xs_executed s < 0 then Inl ValueError
      else if (case xs_status s of OtherStatus _ \<Rightarrow> True | _ \<Rightarrow> False) then Inl ValueError
      else
        bind_r (wv_validate T (xs_accumulator s) (xs_batch s)) (\<lambda>_.
        bind_r (all_r (\<lambda>v. bind_r (wv_validate T v (xs_batch s)) (\<lambda>_. Inr ())) (xs_workspace s)) (\<lambda>_.
        let handles = map fst (xs_operators s)
        in if handles \<noteq> sort handles \<or> \<not> distinct handles then Inl ValueError
           else
             bind_r (all_r (\<lambda>(h, st). if h < 0 then Inl ValueError
                                       else bind_r (os_validate T st) (\<lambda>_. Inr ())) (xs_operators s)) (\<lambda>_.
             Inr s))))"

section \<open>The executive\<close>

record 't executive =
  xe_program :: xprogram
  xe_operators :: "'t registry"
  xe_intention_width :: int
  xe_max :: int
  xe_token :: nat

text \<open>The token is the identity of the object created for this executive.\<close>

definition xe_init :: "xprogram \<Rightarrow> 't registry \<Rightarrow> int \<Rightarrow> int \<Rightarrow> nat \<Rightarrow> 't executive result" where
  "xe_init p r intention_width max_instructions token =
     bind_r (xp_validate p) (\<lambda>_.
       if intention_width < 1 \<or> max_instructions < 1 then Inl ValueError
       else Inr \<lparr>xe_program = p, xe_operators = r, xe_intention_width = intention_width,
                 xe_max = max_instructions, xe_token = token\<rparr>)"

definition xe_initial_state :: "'t tensor_lib \<Rightarrow> 't executive \<Rightarrow> int \<Rightarrow> string \<Rightarrow> string \<Rightarrow> 't xstate result" where
  "xe_initial_state T E batch_size device dtype =
     bind_r (wv_empty T batch_size device dtype) (\<lambda>empty.
     bind_r (xr_initial_states T (xe_operators E) batch_size device dtype) (\<lambda>ops.
       xs_validate T (xp_slots (xe_program E))
         \<lparr>xs_workspace = replicate (nat (xp_slots (xe_program E))) empty, xs_accumulator = empty,
          xs_pointer = 0, xs_status = Ready, xs_batch = batch_size, xs_operators = ops,
          xs_registry = xr_digest (xe_operators E), xs_ticks = 0, xs_executed = 0,
          xs_schema = EXECUTIVE_STATE_SCHEMA\<rparr>))"

definition xe_check_state :: "'t tensor_lib \<Rightarrow> 't executive \<Rightarrow> 't xstate \<Rightarrow> unit result" where
  "xe_check_state T E s =
     bind_r (xs_validate T (xp_slots (xe_program E)) s) (\<lambda>_.
       if xs_registry s \<noteq> xr_digest (xe_operators E) then Inl ValueError
       else xr_validate_states (xe_operators E) (xs_operators s) (xs_batch s))"

record 't lease =
  tl_state :: "'t xstate"
  tl_token :: nat

definition xe_seal :: "'t tensor_lib \<Rightarrow> 't executive \<Rightarrow> 't xstate \<Rightarrow> 't lease result" where
  "xe_seal T E s = bind_r (xe_check_state T E s) (\<lambda>_. Inr \<lparr>tl_state = s, tl_token = xe_token E\<rparr>)"

definition xe_check_shape :: "'t executive \<Rightarrow> 't xstate \<Rightarrow> 't xstate result" where
  "xe_check_shape E s =
     (if xs_schema s \<noteq> EXECUTIVE_STATE_SCHEMA then Inl ValueError
      else if xs_batch s < 1 \<or> int (length (xs_workspace s)) \<noteq> xp_slots (xe_program E) then Inl ValueError
      else if \<not> in_range (xs_pointer s) (length (xp_instructions (xe_program E))) then Inl ValueError
      else if xs_ticks s < 0 \<or> xs_executed s < 0 then Inl ValueError
      else if (case xs_status s of OtherStatus _ \<Rightarrow> True | _ \<Rightarrow> False) then Inl ValueError
      else if xs_registry s \<noteq> xr_digest (xe_operators E) then Inl ValueError
      else if map fst (xs_operators s) \<noteq> xr_handles (xe_operators E) then Inl ValueError
      else Inr s)"

section \<open>One instruction\<close>

text \<open>
  What changes while a tick runs: the workspace, the accumulator, the operator states and the pointer.
  A step goes on or ends the tick with a status and, after EMIT, an intention.
\<close>

record 't xregs =
  rg_workspace :: "'t workspace_value list"
  rg_accumulator :: "'t workspace_value"
  rg_operators :: "(int \<times> 't operator_state) list"
  rg_pointer :: int

datatype 't xoutcome = Next "'t xregs" | Yield xstatus "'t intent_event option" "'t xregs"

text \<open>\<open>sequence[i]\<close>, with Python's negative indices.\<close>

definition py_index :: "'a list \<Rightarrow> int \<Rightarrow> nat result" where
  "py_index xs i =
     (if in_range i (length xs) then Inr (nat i)
      else if i < 0 \<and> - i \<le> int (length xs) then Inr (nat (int (length xs) + i))
      else Inl IndexError)"

definition slot_at :: "'a list \<Rightarrow> int \<Rightarrow> 'a result" where
  "slot_at xs i = bind_r (py_index xs i) (\<lambda>k. Inr (xs ! k))"

definition write_slot :: "'t tensor_lib \<Rightarrow> bool \<Rightarrow> 't workspace_value list \<Rightarrow> int \<Rightarrow> 't workspace_value \<Rightarrow>
    't workspace_value list result" where
  "write_slot T clone ws i v =
     bind_r (py_index ws i) (\<lambda>k. Inr (ws[k := (if clone then wv_clone T v else v)]))"

definition the_int :: "int option \<Rightarrow> int result" where
  "the_int t = (case t of None \<Rightarrow> Inl AssertionError | Some i \<Rightarrow> Inr i)"

text \<open>\<open>int(target)\<close>: converting \<open>None\<close> is a TypeError.\<close>

definition int_target :: "int option \<Rightarrow> int result" where
  "int_target t = (case t of None \<Rightarrow> Inl TypeError | Some i \<Rightarrow> Inr i)"

definition next_pointer :: "xinstruction \<Rightarrow> int \<Rightarrow> int" where
  "next_pointer i p = (case xi_next i of None \<Rightarrow> p + 1 | Some t \<Rightarrow> t)"

definition row_target :: "'t tensor_lib \<Rightarrow> 't \<Rightarrow> 't \<Rightarrow> int \<Rightarrow> int \<Rightarrow> int \<Rightarrow> nat \<Rightarrow> int" where
  "row_target T present payload t f u row =
     (let x = tl_float_at T payload row 0; here = tl_bool_at T present row
      in if here \<and> x \<le> Fin 0 then f else if here \<and> Fin 0 < x then t else u)"

definition branch_pointer :: "'t tensor_lib \<Rightarrow> int \<Rightarrow> xinstruction \<Rightarrow> 't workspace_value \<Rightarrow> int result" where
  "branch_pointer T batch i v =
     (case wv_payload v of
        TensorPayload payload \<Rightarrow>
          (if wv_kind v \<noteq> KEvidence then Inl TypeError
           else
             bind_r (int_target (xi_unknown i)) (\<lambda>u.
             bind_r (int_target (xi_true i)) (\<lambda>t.
             bind_r (int_target (xi_false i)) (\<lambda>f.
               let targets = map (row_target T (wv_present v) payload t f u) [0..<nat batch]
               in if \<forall>x\<in>set targets. x = hd targets then Inr (hd targets) else Inl RuntimeError))))
      | _ \<Rightarrow> Inl TypeError)"

definition emit_intention :: "'t tensor_lib \<Rightarrow> 't executive \<Rightarrow> 't workspace_value \<Rightarrow> 't intent_event result" where
  "emit_intention T E v =
     (case wv_payload v of
        TensorPayload payload \<Rightarrow>
          (if wv_kind v \<noteq> KIntention then Inl TypeError
           else if tl_shape T payload ! 1 \<noteq> xe_intention_width E then Inl ValueError
           else if \<not> tl_all T (wv_present v) then Inl RuntimeError
           else ie_validate T
             \<lparr>ie_payload = tl_clone T payload, ie_timestamp = None,
              ie_confidence = Some (tl_clone T (wv_confidence v)), ie_target_key = None,
              ie_schema = INTENTION_SCHEMA\<rparr> (Some (xe_intention_width E)))
      | _ \<Rightarrow> Inl TypeError)"

definition xe_call :: "'t tensor_lib \<Rightarrow> 't executive \<Rightarrow> bool \<Rightarrow> int \<Rightarrow> xinstruction \<Rightarrow> 't xregs \<Rightarrow> 't xregs result" where
  "xe_call T E trusted batch i rg =
     bind_r (the_int (xi_handle i)) (\<lambda>h.
     bind_r (the_int (xi_destination i)) (\<lambda>dest.
     bind_r (xr_operator (xe_operators E) h) (\<lambda>_.
     bind_r (map_r (slot_at (rg_workspace rg)) (xi_arguments i)) (\<lambda>arguments.
     case map_of (rg_operators rg) h of
       None \<Rightarrow> Inl KeyError
     | Some s \<Rightarrow>
         bind_r (xr_call T (xe_operators E) trusted batch h arguments s) (\<lambda>(v, s').
         bind_r (write_slot T (\<not> trusted) (rg_workspace rg) dest v) (\<lambda>ws.
           Inr \<lparr>rg_workspace = ws, rg_accumulator = (if trusted then v else wv_clone T v),
                rg_operators = AList.update h s' (rg_operators rg),
                rg_pointer = rg_pointer rg + 1\<rparr>))))))"

definition xe_step :: "'t tensor_lib \<Rightarrow> 't executive \<Rightarrow> 't event_collection \<Rightarrow> bool \<Rightarrow> int \<Rightarrow> 't xregs \<Rightarrow>
    't xoutcome result" where
  "xe_step T E events trusted batch rg =
     (let is = xp_instructions (xe_program E); p = rg_pointer rg; ws = rg_workspace rg
      in if \<not> in_range p (length is) then Inl RuntimeError
         else
           let i = is ! nat p
           in case xi_op i of
                Receive \<Rightarrow>
                  bind_r (the_int (xi_destination i)) (\<lambda>dest.
                  bind_r (wv_from_events T events) (\<lambda>v.
                  bind_r (write_slot T (\<not> trusted) ws dest v) (\<lambda>ws'.
                    Inr (Next (rg\<lparr>rg_workspace := ws', rg_pointer := p + 1\<rparr>)))))
              | Read \<Rightarrow>
                  bind_r (the_int (xi_source i)) (\<lambda>src.
                  bind_r (slot_at ws src) (\<lambda>v.
                    if wv_kind v = KEmpty then Inl RuntimeError
                    else Inr (Next (rg\<lparr>rg_accumulator := (if trusted then v else wv_clone T v),
                                       rg_pointer := p + 1\<rparr>))))
              | Write \<Rightarrow>
                  bind_r (the_int (xi_destination i)) (\<lambda>dest.
                    if wv_kind (rg_accumulator rg) = KEmpty then Inl RuntimeError
                    else bind_r (write_slot T (\<not> trusted) ws dest (rg_accumulator rg)) (\<lambda>ws'.
                      Inr (Next (rg\<lparr>rg_workspace := ws', rg_pointer := p + 1\<rparr>))))
              | CopySlot \<Rightarrow>
                  bind_r (the_int (xi_source i)) (\<lambda>src.
                  bind_r (the_int (xi_destination i)) (\<lambda>dest.
                  bind_r (slot_at ws src) (\<lambda>v.
                    if wv_kind v = KEmpty then Inl RuntimeError
                    else bind_r (write_slot T (\<not> trusted) ws dest v) (\<lambda>ws'.
                      Inr (Next (rg\<lparr>rg_workspace := ws', rg_pointer := p + 1\<rparr>))))))
              | Call \<Rightarrow> bind_r (xe_call T E trusted batch i rg) (\<lambda>rg'. Inr (Next rg'))
              | Branch \<Rightarrow>
                  bind_r (the_int (xi_source i)) (\<lambda>src.
                  bind_r (slot_at ws src) (\<lambda>v.
                  bind_r (branch_pointer T batch i v) (\<lambda>t. Inr (Next (rg\<lparr>rg_pointer := t\<rparr>)))))
              | Wait \<Rightarrow> Inr (Yield Waiting None (rg\<lparr>rg_pointer := next_pointer i p\<rparr>))
              | Emit \<Rightarrow>
                  bind_r (the_int (xi_source i)) (\<lambda>src.
                  bind_r (slot_at ws src) (\<lambda>v.
                  bind_r (emit_intention T E v) (\<lambda>intent.
                    Inr (Yield Emitted (Some intent) (rg\<lparr>rg_pointer := next_pointer i p\<rparr>)))))
              | Handoff \<Rightarrow> Inr (Next (rg\<lparr>rg_pointer := next_pointer i p\<rparr>))
              | _ \<Rightarrow> Inr (Yield Halted None rg))"

section \<open>One tick\<close>

fun xe_loop :: "'t tensor_lib \<Rightarrow> 't executive \<Rightarrow> 't event_collection \<Rightarrow> bool \<Rightarrow> int \<Rightarrow> nat \<Rightarrow> int \<Rightarrow> 't xregs \<Rightarrow>
    (xstatus \<times> 't intent_event option \<times> 't xregs \<times> int) result" where
  "xe_loop T E events trusted batch 0 executed rg = Inr (Ready, None, rg, executed)"
| "xe_loop T E events trusted batch (Suc n) executed rg =
     (case xe_step T E events trusted batch rg of
        Inl e \<Rightarrow> Inl e
      | Inr (Next rg') \<Rightarrow> xe_loop T E events trusted batch n (executed + 1) rg'
      | Inr (Yield status intent rg') \<Rightarrow> Inr (status, intent, rg', executed + 1))"

record 't xtick =
  xt_intention :: "'t intent_event option"
  xt_status :: xstatus
  xt_executed :: int
  xt_program :: string
  xt_registry :: string

definition mk_tick :: "'t executive \<Rightarrow> 't intent_event option \<Rightarrow> xstatus \<Rightarrow> int \<Rightarrow> 't xtick" where
  "mk_tick E intent status executed =
     \<lparr>xt_intention = intent, xt_status = status, xt_executed = executed,
      xt_program = xp_digest (xe_program E), xt_registry = xr_digest (xe_operators E)\<rparr>"

definition dict_of :: "('k \<times> 'v) list \<Rightarrow> ('k \<times> 'v) list" where
  "dict_of kvs = fold (\<lambda>(k, v) d. AList.update k v d) kvs []"

definition regs_of :: "'t xstate \<Rightarrow> 't xregs" where
  "regs_of s = \<lparr>rg_workspace = xs_workspace s, rg_accumulator = xs_accumulator s,
     rg_operators = dict_of (xs_operators s), rg_pointer = xs_pointer s\<rparr>"

definition next_state :: "'t executive \<Rightarrow> 't xstate \<Rightarrow> xstatus \<Rightarrow> 't xregs \<Rightarrow> int \<Rightarrow> 't xstate" where
  "next_state E s status rg executed =
     \<lparr>xs_workspace = rg_workspace rg, xs_accumulator = rg_accumulator rg, xs_pointer = rg_pointer rg,
      xs_status = status, xs_batch = xs_batch s, xs_operators = sort_key fst (rg_operators rg),
      xs_registry = xs_registry s, xs_ticks = xs_ticks s + 1, xs_executed = xs_executed s + executed,
      xs_schema = EXECUTIVE_STATE_SCHEMA\<rparr>"

definition xe_tick_with :: "'t tensor_lib \<Rightarrow> 't executive \<Rightarrow> bool \<Rightarrow> 't event_collection \<Rightarrow> 't xstate \<Rightarrow>
    ('t xtick \<times> 't xstate) result" where
  "xe_tick_with T E trusted events s =
     bind_r (ec_validate T events None) (\<lambda>_.
     bind_r (if trusted then Inr () else xe_check_state T E s) (\<lambda>_.
     if hd (tl_shape T (ec_payload events)) \<noteq> xs_batch s then Inl ValueError
     else if xs_status s = Halted then Inr (mk_tick E None Halted 0, s)
     else if xs_status s = Exhausted then Inl RuntimeError
     else
       bind_r (xe_loop T E events trusted (xs_batch s) (nat (xe_max E)) 0 (regs_of s))
         (\<lambda>(status, intent, rg, executed).
            let status' = (if executed \<ge> xe_max E \<and> status = Ready then Exhausted else status);
                s' = next_state E s status' rg executed
            in bind_r (if trusted then Inr s' else xs_validate T (xp_slots (xe_program E)) s') (\<lambda>_.
                 Inr (mk_tick E intent status' executed, s')))))"

definition xe_tick :: "'t tensor_lib \<Rightarrow> 't executive \<Rightarrow> 't event_collection \<Rightarrow> 't xstate \<Rightarrow>
    ('t xtick \<times> 't xstate) result" where
  "xe_tick T E events s = xe_tick_with T E False events s"

definition xe_tick_fast :: "'t tensor_lib \<Rightarrow> 't executive \<Rightarrow> 't event_collection \<Rightarrow> 't lease \<Rightarrow>
    ('t xtick \<times> 't lease) result" where
  "xe_tick_fast T E events l =
     (if tl_token l \<noteq> xe_token E then Inl ValueError
      else
        bind_r (xe_check_shape E (tl_state l)) (\<lambda>s.
        bind_r (xe_tick_with T E True events s) (\<lambda>(out, s').
        bind_r (xe_check_shape E s') (\<lambda>_. Inr (out, \<lparr>tl_state = s', tl_token = xe_token E\<rparr>)))))"

end
