(* ===== verification/ExecutiveRun.thy ===== *)
theory ExecutiveRun
  imports Executive SearchLedger
begin

text \<open>
  What a tick of the executive does.  \<open>regs_ok\<close> is the typing invariant of a running tick; every
  instruction keeps it, and under it each check the trusted path skips would have passed, so the two
  paths agree, errors included.  The tick is then the run of single instructions up to the first that
  yields, cut off at the instruction budget.
\<close>

section \<open>Validated values\<close>

text \<open>\<open>x.detach().clone()\<close> has the contents of \<open>x\<close>.\<close>

definition clone_law :: "'t tensor_lib \<Rightarrow> bool" where
  "clone_law T \<longleftrightarrow> (\<forall>x. tl_clone T x = x)"

definition wv_ok :: "'t tensor_lib \<Rightarrow> int \<Rightarrow> 't workspace_value \<Rightarrow> bool" where
  "wv_ok T batch v \<longleftrightarrow> wv_validate T v batch = Inr v"

lemma wv_validate_result: "wv_validate T v batch = Inr u \<Longrightarrow> u = v"
  by (auto simp: wv_validate_def bind_r_eq_Inr split: if_splits workspace_payload.splits)

lemma wv_validate_ok: "wv_validate T v batch = Inr u \<longleftrightarrow> u = v \<and> wv_ok T batch v"
  using wv_validate_result by (fastforce simp: wv_ok_def)

lemma os_validate_result: "os_validate T s = Inr u \<Longrightarrow> u = s"
  by (auto simp: os_validate_def split: if_splits)

lemma clone_collection_id:
  assumes "clone_law T" and "ec_validate T c w = Inr d"
  shows "clone_collection T c = c"
proof -
  have "ec_schema c = EVENT_SCHEMA"
    using assms(2) by (cases "ec_schema c = EVENT_SCHEMA") (simp_all add: ec_validate_def)
  moreover have "tl_clone T = (\<lambda>x. x)" using assms(1) by (auto simp: clone_law_def)
  ultimately show ?thesis by (simp add: clone_collection_def option.map_ident)
qed

lemma wv_clone_id:
  assumes "clone_law T" and "wv_ok T batch v"
  shows "wv_clone T v = v"
proof -
  have "clone_collection T c = c" if "wv_payload v = EventsPayload c" for c
    using assms that clone_collection_id [of T c None]
    by (auto simp: wv_ok_def wv_validate_def bind_r_eq_Inr split: if_splits)
  then show ?thesis
    using assms(1) by (cases v) (auto simp: wv_clone_def clone_law_def split: workspace_payload.splits)
qed

lemma os_clone_id:
  assumes "clone_law T"
  shows "os_clone T s = os_validate T s"
proof -
  have "map (\<lambda>(n, v). (n, tl_clone T v)) (os_tensors s) = os_tensors s"
    using assms by (simp add: clone_law_def)
  then show ?thesis by (simp add: os_clone_def)
qed

lemma wv_from_events_ok:
  assumes "wv_from_events T c = Inr v"
  shows "wv_ok T (hd (tl_shape T (ec_payload c))) v"
  using assms by (auto simp: wv_from_events_def bind_r_eq_Inr Let_def wv_validate_ok)

section \<open>The typing invariant of a tick\<close>

definition ops_ok :: "'t tensor_lib \<Rightarrow> 't executive \<Rightarrow> int \<Rightarrow> (int \<times> 't operator_state) list \<Rightarrow> bool" where
  "ops_ok T E batch ops \<longleftrightarrow>
     map fst ops = xr_handles (xe_operators E) \<and> sorted (map fst ops) \<and> distinct (map fst ops)
     \<and> (\<forall>(h, s)\<in>set ops. 0 \<le> h \<and> os_validate T s = Inr s
          \<and> (\<exists>p. xr_operator (xe_operators E) h = Inr p \<and> op_validate p s batch = Inr ()))"

definition regs_ok :: "'t tensor_lib \<Rightarrow> 't executive \<Rightarrow> int \<Rightarrow> 't xregs \<Rightarrow> bool" where
  "regs_ok T E batch rg \<longleftrightarrow>
     int (length (rg_workspace rg)) = xp_slots (xe_program E)
     \<and> (\<forall>v\<in>set (rg_workspace rg). wv_ok T batch v) \<and> wv_ok T batch (rg_accumulator rg)
     \<and> ops_ok T E batch (rg_operators rg)
     \<and> in_range (rg_pointer rg) (length (xp_instructions (xe_program E)))"

definition registry_ok :: "'t registry \<Rightarrow> bool" where
  "registry_ok r \<longleftrightarrow> xr_handles r = sort (map fst (xr_operators r))"

definition exec_ok :: "'t executive \<Rightarrow> bool" where
  "exec_ok E \<longleftrightarrow> xp_validate (xe_program E) = Inr (xe_program E) \<and> registry_ok (xe_operators E)
     \<and> 1 \<le> xe_intention_width E \<and> 1 \<le> xe_max E"

lemma xp_validate_result: "xp_validate p = Inr q \<Longrightarrow> q = p"
  by (auto simp: xp_validate_def bind_r_eq_Inr split: if_splits)

text \<open>The constructors give nothing else.\<close>

lemma xe_init_ok: "xr_init ops = Inr r \<Longrightarrow> xe_init p r w m k = Inr E \<Longrightarrow> exec_ok E"
  using xp_validate_result
  by (fastforce simp: xe_init_def xr_init_def exec_ok_def registry_ok_def Let_def bind_r_eq_Inr split: if_splits)

text \<open>What the program validator gives for the instruction at an address.\<close>

lemma instruction_valid:
  assumes "exec_ok E" and "in_range p (length (xp_instructions (xe_program E)))"
  shows "xi_validate (xp_slots (xe_program E)) (length (xp_instructions (xe_program E)))
           (xp_instructions (xe_program E) ! nat p) = Inr ()"
  using assms in_range_nat [OF assms(2)]
  by (auto simp: exec_ok_def xp_validate_def bind_r_eq_Inr all_r_Inr_iff split: if_splits)

lemma xe_fall_through:
  assumes "exec_ok E" and "in_range p (length (xp_instructions (xe_program E)))"
    and "xi_op (xp_instructions (xe_program E) ! nat p) \<noteq> Halt"
  shows "in_range (p + 1) (length (xp_instructions (xe_program E)))"
proof -
  let ?is = "xp_instructions (xe_program E)"
  have "?is \<noteq> []" "xi_op (last ?is) = Halt"
    using assms(1) by (auto simp: exec_ok_def xp_validate_def bind_r_eq_Inr split: if_splits)
  then have "nat p \<noteq> length ?is - 1" using assms(3) by (auto simp: last_conv_nth)
  with assms(2) show ?thesis by (auto simp: in_range_def)
qed

lemma next_pointer_in_range:
  assumes "exec_ok E" and "in_range p (length (xp_instructions (xe_program E)))"
    and "xi_op (xp_instructions (xe_program E) ! nat p) \<in> {Wait, Emit, Handoff}"
  shows "in_range (next_pointer (xp_instructions (xe_program E) ! nat p) p)
           (length (xp_instructions (xe_program E)))"
proof (cases "xi_next (xp_instructions (xe_program E) ! nat p)")
  case None
  then show ?thesis using xe_fall_through [OF assms(1,2)] assms(3) by (auto simp: next_pointer_def)
next
  case (Some t)
  then show ?thesis
    using instruction_valid [OF assms(1,2)]
    by (auto simp: next_pointer_def xi_validate_def opt_in_range_def split: if_splits)
qed

lemma py_index_in_range: "in_range k (length ws) \<Longrightarrow> py_index ws k = Inr (nat k) \<and> nat k < length ws"
  by (simp add: py_index_def in_range_nat)

lemma slot_at_in_range: "in_range k (length ws) \<Longrightarrow> slot_at ws k = Inr (ws ! nat k) \<and> ws ! nat k \<in> set ws"
  using py_index_in_range [of k ws] by (simp add: slot_at_def)

lemma slot_operand:
  assumes "xi_validate slots n i = Inr ()" and "int (length ws) = slots"
  shows "xi_source i = Some k \<Longrightarrow> in_range k (length ws)"
    and "xi_destination i = Some k \<Longrightarrow> in_range k (length ws)"
    and "k \<in> set (xi_arguments i) \<Longrightarrow> in_range k (length ws)"
proof -
  have "\<forall>slot\<in>set (xi_arguments i) \<union> set_option (xi_source i) \<union> set_option (xi_destination i).
      in_range slot (length ws)"
    using assms by (simp add: xi_validate_def in_range_def split: if_splits)
  then show "xi_source i = Some k \<Longrightarrow> in_range k (length ws)"
    and "xi_destination i = Some k \<Longrightarrow> in_range k (length ws)"
    and "k \<in> set (xi_arguments i) \<Longrightarrow> in_range k (length ws)" by auto
qed

lemma operands_ok: "xi_validate slots n i = Inr () \<Longrightarrow> xi_operands_ok i n \<and> xi_op i \<noteq> OtherOp x"
  by (auto simp: xi_validate_def split: if_splits xop.splits)

section \<open>The trusted path\<close>

lemma write_slot_trusted:
  assumes "clone_law T" and "wv_ok T batch v"
  shows "write_slot T c ws k v = write_slot T False ws k v"
  by (simp add: write_slot_def wv_clone_id [OF assms])

lemma check_arguments_trusted:
  assumes "\<forall>v\<in>set vs. wv_ok T batch v"
  shows "all_r (check_argument T trusted batch) (zip vs ks) = all_r (check_argument T True batch) (zip vs ks)"
proof (rule all_r_cong [OF refl])
  fix x assume "x \<in> set (zip vs ks)"
  then have "wv_ok T batch (fst x)" using assms set_zip_leftD [of "fst x" "snd x" vs ks] by simp
  then show "check_argument T trusted batch x = check_argument T True batch x"
    by (simp add: check_argument_def wv_ok_def)
qed

lemma xr_call_trusted:
  assumes "\<forall>v\<in>set vs. wv_ok T batch v"
    and "xr_operator r h = Inr p" and "op_validate p s batch = Inr ()"
  shows "xr_call T r trusted batch h vs s = xr_call T r True batch h vs s"
  by (simp add: xr_call_def assms(2,3) check_arguments_trusted [OF assms(1), of trusted])

lemma xr_call_ok:
  assumes "clone_law T" and "xr_call T r trusted batch h vs s = Inr (v, s')"
  shows "wv_ok T batch v" and "os_validate T s' = Inr s'"
    and "\<exists>p. xr_operator r h = Inr p \<and> op_validate p s' batch = Inr ()"
proof -
  obtain p v0 s1 where "xr_operator r h = Inr p" "wv_ok T batch v0" "op_validate p s1 batch = Inr ()"
      "os_validate T s1 = Inr s'" "v = wv_clone T v0"
    using assms(2)
    by (auto simp: xr_call_def bind_r_eq_Inr os_clone_id [OF assms(1)] wv_validate_ok split: if_splits)
  moreover from this have "s' = s1" using os_validate_result by blast
  ultimately show "wv_ok T batch v" "os_validate T s' = Inr s'"
    "\<exists>p. xr_operator r h = Inr p \<and> op_validate p s' batch = Inr ()"
    using wv_clone_id [OF assms(1)] by auto
qed

lemma ops_ok_lookup:
  assumes "ops_ok T E batch ops" and "map_of ops h = Some s"
  shows "os_validate T s = Inr s" and "0 \<le> h"
    and "\<exists>p. xr_operator (xe_operators E) h = Inr p \<and> op_validate p s batch = Inr ()"
  using assms map_of_SomeD [OF assms(2)] by (auto simp: ops_ok_def)

lemma arguments_ok:
  assumes "map_r (slot_at ws) ks = Inr vs" and "\<forall>v\<in>set ws. wv_ok T batch v"
    and "\<forall>k\<in>set ks. in_range k (length ws)"
  shows "\<forall>v\<in>set vs. wv_ok T batch v"
proof
  fix v assume "v \<in> set vs"
  then obtain k where "k \<in> set ks" "slot_at ws k = Inr v"
    using assms(1) by (fastforce simp: map_r_Inr_iff list_all2_conv_all_nth in_set_conv_nth)
  then show "wv_ok T batch v" using slot_at_in_range [of k ws] assms(2,3) by auto
qed

lemma xe_call_trusted:
  assumes "clone_law T" and "regs_ok T E batch rg"
    and "xi_validate (xp_slots (xe_program E)) n i = Inr ()"
  shows "xe_call T E trusted batch i rg = xe_call T E True batch i rg"
proof (cases "xi_handle i = None \<or> xi_destination i = None
    \<or> is_ok (map_r (slot_at (rg_workspace rg)) (xi_arguments i)) = False
    \<or> map_of (rg_operators rg) (the (xi_handle i)) = None")
  case True
  then show ?thesis
    by (cases "map_r (slot_at (rg_workspace rg)) (xi_arguments i)")
       (auto simp: xe_call_def the_int_def split: option.splits)
next
  case False
  then obtain h d vs s where h: "xi_handle i = Some h" and d: "xi_destination i = Some d"
    and vs: "map_r (slot_at (rg_workspace rg)) (xi_arguments i) = Inr vs"
    and s: "map_of (rg_operators rg) h = Some s"
    by (auto simp: is_ok_iff)
  have ws: "int (length (rg_workspace rg)) = xp_slots (xe_program E)"
      "\<forall>v\<in>set (rg_workspace rg). wv_ok T batch v" "ops_ok T E batch (rg_operators rg)"
    using assms(2) by (auto simp: regs_ok_def)
  obtain p where p: "xr_operator (xe_operators E) h = Inr p" "op_validate p s batch = Inr ()"
    using ops_ok_lookup(3) [OF ws(3) s] by auto
  have vs_ok: "\<forall>v\<in>set vs. wv_ok T batch v"
    using arguments_ok [OF vs ws(2)] slot_operand(3) [OF assms(3) ws(1)] by blast
  let ?call = "xr_call T (xe_operators E) True batch h vs s"
  have eq: "xr_call T (xe_operators E) trusted batch h vs s = ?call"
    by (rule xr_call_trusted [OF vs_ok p])
  show ?thesis
  proof (cases ?call)
    case (Inl e)
    then show ?thesis by (simp add: xe_call_def the_int_def h d vs s p(1) eq)
  next
    case (Inr vs')
    obtain v s' where v: "vs' = (v, s')" by (cases vs')
    have "wv_ok T batch v" using xr_call_ok(1) [OF assms(1) Inr [unfolded v]] .
    then show ?thesis
      by (simp add: xe_call_def the_int_def h d vs s p(1) eq Inr v wv_clone_id [OF assms(1)]
          write_slot_trusted [OF assms(1), of batch v "\<not> trusted"])
  qed
qed

lemma xe_step_trusted:
  assumes "clone_law T" and "exec_ok E" and "regs_ok T E batch rg"
    and "hd (tl_shape T (ec_payload events)) = batch"
  shows "xe_step T E events trusted batch rg = xe_step T E events True batch rg"
proof -
  define i where "i = xp_instructions (xe_program E) ! nat (rg_pointer rg)"
  have ws: "int (length (rg_workspace rg)) = xp_slots (xe_program E)"
      "\<forall>v\<in>set (rg_workspace rg). wv_ok T batch v" "wv_ok T batch (rg_accumulator rg)"
    and p: "in_range (rg_pointer rg) (length (xp_instructions (xe_program E)))"
    using assms(3) by (auto simp: regs_ok_def)
  note valid = instruction_valid [OF assms(2) p, folded i_def]
  have slot: "slot_at (rg_workspace rg) k = Inr (rg_workspace rg ! nat k)
      \<and> wv_ok T batch (rg_workspace rg ! nat k)"
    if "xi_source i = Some k" for k
    using slot_at_in_range [OF slot_operand(1) [OF valid ws(1) that]] ws(2) by blast
  note same_write = write_slot_trusted [OF assms(1), of batch _ "\<not> trusted"]
    and same_value = wv_clone_id [OF assms(1)]
    and same_call = xe_call_trusted [OF assms(1,3) valid, of trusted]
  show ?thesis
  proof (cases "xi_op i")
    case Receive
    have "write_slot T (\<not> trusted) ws' d v = write_slot T False ws' d v"
      if "wv_from_events T events = Inr v" for ws' d v
      using same_write wv_from_events_ok [OF that] assms(4) by blast
    then show ?thesis using p Receive
      by (cases "wv_from_events T events")
         (simp_all add: xe_step_def Let_def i_def [symmetric])
  next
    case Read
    then show ?thesis using p slot same_value
      by (cases "xi_source i") (auto simp: xe_step_def Let_def i_def [symmetric] the_int_def)
  next
    case Write
    then show ?thesis using p same_write [OF ws(3)]
      by (cases "xi_destination i") (auto simp: xe_step_def Let_def i_def [symmetric] the_int_def)
  next
    case CopySlot
    then show ?thesis using p slot same_write
      by (cases "xi_source i"; cases "xi_destination i") (auto simp: xe_step_def Let_def i_def [symmetric] the_int_def)
  next
    case Call
    then show ?thesis using p same_call by (simp add: xe_step_def Let_def i_def [symmetric])
  qed (use p in \<open>simp_all add: xe_step_def Let_def i_def [symmetric]\<close>)
qed

section \<open>Every instruction keeps the invariant\<close>

lemma regs_ok_write:
  assumes "regs_ok T E batch rg" and "wv_ok T batch v"
    and "write_slot T False (rg_workspace rg) k v = Inr ws"
    and "in_range p (length (xp_instructions (xe_program E)))"
  shows "regs_ok T E batch (rg\<lparr>rg_workspace := ws, rg_pointer := p\<rparr>)"
proof -
  obtain m where "ws = (rg_workspace rg)[m := v]"
    using assms(3) by (auto simp: write_slot_def bind_r_eq_Inr)
  then show ?thesis using assms(1,2,4) set_update_subset_insert [of "rg_workspace rg" m v]
    by (auto simp: regs_ok_def)
qed

lemma ops_ok_update:
  assumes "ops_ok T E batch ops" and "map_of ops h = Some s" and "os_validate T s' = Inr s'"
    and "\<exists>p. xr_operator (xe_operators E) h = Inr p \<and> op_validate p s' batch = Inr ()"
  shows "ops_ok T E batch (AList.update h s' ops)"
proof -
  have h: "h \<in> set (map fst ops)" "0 \<le> h"
    using map_of_SomeD [OF assms(2)] ops_ok_lookup(2) [OF assms(1,2)] by force+
  have keys: "map fst (AList.update h s' ops) = map fst ops"
    using h(1) by (simp add: update_keys)
  have "(k, u) \<in> set ops \<or> (k = h \<and> u = s')" if "(k, u) \<in> set (AList.update h s' ops)" for k u
    using that by (induction ops) (auto split: if_splits)
  then show ?thesis
    using assms(1,3,4) h(2) by (fastforce simp: ops_ok_def keys)
qed

lemma xe_call_ok:
  assumes "clone_law T" and "regs_ok T E batch rg"
    and "xe_call T E True batch i rg = Inr rg'"
    and "in_range (rg_pointer rg + 1) (length (xp_instructions (xe_program E)))"
  shows "regs_ok T E batch rg'"
proof -
  obtain h d vs s v s' ws where
      s: "map_of (rg_operators rg) h = Some s"
    and call: "xr_call T (xe_operators E) True batch h vs s = Inr (v, s')"
    and ws: "write_slot T False (rg_workspace rg) d v = Inr ws"
    and rg': "rg' = \<lparr>rg_workspace = ws, rg_accumulator = v,
       rg_operators = AList.update h s' (rg_operators rg), rg_pointer = rg_pointer rg + 1\<rparr>"
    using assms(3) by (auto simp: xe_call_def bind_r_eq_Inr the_int_def split: option.splits)
  note ok = xr_call_ok [OF assms(1) call]
  have "ops_ok T E batch (AList.update h s' (rg_operators rg))"
    using ops_ok_update [OF _ s ok(2,3)] assms(2) by (simp add: regs_ok_def)
  then show ?thesis
    using regs_ok_write [OF assms(2) ok(1) ws assms(4)] ok(1) by (simp add: regs_ok_def rg')
qed

lemma branch_pointer_target:
  assumes "branch_pointer T batch i v = Inr x" and "0 < batch"
  shows "Some x \<in> {xi_true i, xi_false i, xi_unknown i}"
proof -
  obtain payload t f u where "xi_true i = Some t" "xi_false i = Some f" "xi_unknown i = Some u"
    and x: "x = hd (map (row_target T (wv_present v) payload t f u) [0..<nat batch])"
    using assms(1) unfolding branch_pointer_def bind_r_eq_Inr int_target_def
    by (cases "wv_payload v"; cases "xi_true i"; cases "xi_false i"; cases "xi_unknown i")
       (fastforce simp: Let_def split: if_splits)+
  moreover have "x = row_target T (wv_present v) payload t f u 0"
    using assms(2) by (simp add: x hd_map upt_conv_Cons)
  ultimately show ?thesis by (simp add: row_target_def Let_def split: if_splits)
qed

text \<open>The validity of the emitted event: its batch, its width, and no absent row.\<close>

lemma emit_intention_ok:
  assumes "emit_intention T E v = Inr intent"
  shows "ie_validate T intent (Some (xe_intention_width E)) = Inr intent" and "tl_all T (wv_present v)"
  using assms
  by (auto simp: emit_intention_def dest: ie_validate_result split: workspace_payload.splits if_splits)

definition intent_ok :: "'t tensor_lib \<Rightarrow> 't executive \<Rightarrow> xstatus \<Rightarrow> 't intent_event option \<Rightarrow> bool" where
  "intent_ok T E st intent \<longleftrightarrow>
     (case intent of None \<Rightarrow> st \<noteq> Emitted
      | Some e \<Rightarrow> st = Emitted \<and> ie_validate T e (Some (xe_intention_width E)) = Inr e)"

fun outcome_ok :: "'t tensor_lib \<Rightarrow> 't executive \<Rightarrow> int \<Rightarrow> 't xoutcome \<Rightarrow> bool" where
  "outcome_ok T E batch (Next rg) = regs_ok T E batch rg"
| "outcome_ok T E batch (Yield st intent rg) =
     (regs_ok T E batch rg \<and> intent_ok T E st intent \<and> st \<in> {Waiting, Emitted, Halted})"

lemma regs_ok_pointer:
  "regs_ok T E batch rg \<Longrightarrow> in_range p (length (xp_instructions (xe_program E))) \<Longrightarrow>
     regs_ok T E batch (rg\<lparr>rg_pointer := p\<rparr>)"
  by (simp add: regs_ok_def)

lemma xe_step_ok:
  assumes "clone_law T" and "exec_ok E" and "regs_ok T E batch rg"
    and "hd (tl_shape T (ec_payload events)) = batch" and "0 < batch"
    and step: "xe_step T E events True batch rg = Inr out"
  shows "outcome_ok T E batch out"
proof -
  let ?n = "length (xp_instructions (xe_program E))"
  define i where "i = xp_instructions (xe_program E) ! nat (rg_pointer rg)"
  have ws: "int (length (rg_workspace rg)) = xp_slots (xe_program E)"
      "\<forall>v\<in>set (rg_workspace rg). wv_ok T batch v" "wv_ok T batch (rg_accumulator rg)"
    and p: "in_range (rg_pointer rg) ?n"
    using assms(3) by (auto simp: regs_ok_def)
  note valid = instruction_valid [OF assms(2) p, folded i_def]
    and succ = next_pointer_in_range [OF assms(2) p, folded i_def]
    and pass = xe_fall_through [OF assms(2) p, folded i_def]
    and kept = regs_ok_write [OF assms(3)]
    and point = regs_ok_pointer [OF assms(3)]
    and run = step [unfolded xe_step_def Let_def, folded i_def]
  have slot: "wv_ok T batch v" if "xi_source i = Some k" "slot_at (rg_workspace rg) k = Inr v" for k v
    using slot_at_in_range [OF slot_operand(1) [OF valid ws(1) that(1)]] ws(2) that(2) by auto
  show ?thesis
  proof (cases "xi_op i")
    case Receive
    then obtain d v ws' where "wv_from_events T events = Inr v"
        "write_slot T False (rg_workspace rg) d v = Inr ws'"
        "out = Next (rg\<lparr>rg_workspace := ws', rg_pointer := rg_pointer rg + 1\<rparr>)"
      using run p by (auto simp: bind_r_eq_Inr)
    then show ?thesis using kept [of v d ws'] wv_from_events_ok [of T events v] assms(4) pass Receive by simp
  next
    case Read
    then obtain k v where "xi_source i = Some k" "slot_at (rg_workspace rg) k = Inr v"
        "out = Next (rg\<lparr>rg_accumulator := v, rg_pointer := rg_pointer rg + 1\<rparr>)"
      using run p by (auto simp: bind_r_eq_Inr the_int_def split: option.splits if_splits)
    then show ?thesis using slot pass Read assms(3) by (simp add: regs_ok_def)
  next
    case Write
    then obtain d ws' where "write_slot T False (rg_workspace rg) d (rg_accumulator rg) = Inr ws'"
        "out = Next (rg\<lparr>rg_workspace := ws', rg_pointer := rg_pointer rg + 1\<rparr>)"
      using run p by (auto simp: bind_r_eq_Inr split: if_splits)
    then show ?thesis using kept [OF ws(3)] pass Write by simp
  next
    case CopySlot
    then obtain k v d ws' where "xi_source i = Some k" "slot_at (rg_workspace rg) k = Inr v"
        "write_slot T False (rg_workspace rg) d v = Inr ws'"
        "out = Next (rg\<lparr>rg_workspace := ws', rg_pointer := rg_pointer rg + 1\<rparr>)"
      using run p by (auto simp: bind_r_eq_Inr the_int_def split: option.splits if_splits)
    then show ?thesis using slot kept [of v d ws'] pass CopySlot by simp
  next
    case Call
    then obtain rg' where "xe_call T E True batch i rg = Inr rg'" "out = Next rg'"
      using run p by (auto simp: bind_r_eq_Inr)
    then show ?thesis using xe_call_ok [OF assms(1,3)] pass Call by simp
  next
    case Branch
    then obtain v t where t: "branch_pointer T batch i v = Inr t" "out = Next (rg\<lparr>rg_pointer := t\<rparr>)"
      using run p by (auto simp: bind_r_eq_Inr)
    have "xi_operands_ok i ?n" using operands_ok [OF valid] by blast
    then show ?thesis using branch_pointer_target [OF t(1) assms(5)] point t(2) Branch
      by (auto simp: xi_operands_ok_def opt_in_range_def split: option.splits)
  next
    case Wait
    then show ?thesis using run p succ point by (auto simp: intent_ok_def)
  next
    case Emit
    then obtain v e where "emit_intention T E v = Inr e"
        "out = Yield Emitted (Some e) (rg\<lparr>rg_pointer := next_pointer i (rg_pointer rg)\<rparr>)"
      using run p by (auto simp: bind_r_eq_Inr)
    then show ?thesis using emit_intention_ok(1) [of T E v e] succ point Emit by (simp add: intent_ok_def)
  next
    case Handoff
    then show ?thesis using run p succ point by auto
  next
    case Halt
    then show ?thesis using run p assms(3) by (auto simp: intent_ok_def)
  next
    case OtherOp
    then show ?thesis using operands_ok [OF valid] by simp
  qed
qed

lemma xe_loop_trusted:
  assumes "clone_law T" and "exec_ok E" and "regs_ok T E batch rg"
    and "hd (tl_shape T (ec_payload events)) = batch" and "0 < batch"
  shows "xe_loop T E events trusted batch n k rg = xe_loop T E events True batch n k rg"
  using assms(3)
proof (induction n arbitrary: k rg)
  case (Suc n)
  note same = xe_step_trusted [OF assms(1,2) Suc.prems assms(4), of trusted]
  show ?case
  proof (cases "xe_step T E events True batch rg")
    case (Inr out)
    have "xe_loop T E events trusted batch n (k + 1) rg' = xe_loop T E events True batch n (k + 1) rg'"
      if "out = Next rg'" for rg'
      using Suc.IH xe_step_ok [OF assms(1,2) Suc.prems assms(4,5) Inr] that by simp
    then show ?thesis by (simp add: same Inr split: xoutcome.splits)
  qed (simp add: same)
qed simp

lemma xe_loop_ok:
  assumes "clone_law T" and "exec_ok E" and "regs_ok T E batch rg"
    and "hd (tl_shape T (ec_payload events)) = batch" and "0 < batch"
    and "xe_loop T E events True batch n k rg = Inr (st, intent, rg', k')"
  shows "regs_ok T E batch rg' \<and> intent_ok T E st intent \<and> st \<in> {Ready, Waiting, Emitted, Halted}
    \<and> k \<le> k' \<and> k' \<le> k + int n \<and> (st = Ready \<longrightarrow> k' = k + int n) \<and> (st \<noteq> Ready \<longrightarrow> k < k')"
  using assms(3,6)
proof (induction n arbitrary: k rg)
  case 0
  then show ?case by (simp add: intent_ok_def)
next
  case (Suc n)
  obtain out where out: "xe_step T E events True batch rg = Inr out"
    using Suc.prems(2) by (auto split: sum.splits)
  note ok = xe_step_ok [OF assms(1,2) Suc.prems(1) assms(4,5) out]
  show ?case
  proof (cases out)
    case (Next rg1)
    then show ?thesis using Suc.IH [of rg1 "k + 1"] Suc.prems(2) ok by (auto simp: out)
  next
    case (Yield st1 intent1 rg1)
    then show ?thesis using Suc.prems(2) ok by (auto simp: out)
  qed
qed

section \<open>States between ticks\<close>

definition known_status :: "xstatus \<Rightarrow> bool" where
  "known_status st \<longleftrightarrow> st \<in> {Ready, Waiting, Emitted, Halted, Exhausted}"

lemma known_status_iff: "(case st of OtherStatus _ \<Rightarrow> True | _ \<Rightarrow> False) \<longleftrightarrow> \<not> known_status st"
  by (cases st) (simp_all add: known_status_def)

lemma xs_validate_iff:
  "xs_validate T slots s = Inr u \<longleftrightarrow> u = s \<and> xs_schema s = EXECUTIVE_STATE_SCHEMA \<and> 1 \<le> xs_batch s
     \<and> int (length (xs_workspace s)) = slots \<and> 0 \<le> xs_pointer s \<and> 0 \<le> xs_ticks s \<and> 0 \<le> xs_executed s
     \<and> known_status (xs_status s) \<and> wv_ok T (xs_batch s) (xs_accumulator s)
     \<and> (\<forall>v\<in>set (xs_workspace s). wv_ok T (xs_batch s) v)
     \<and> sorted (map fst (xs_operators s)) \<and> distinct (map fst (xs_operators s))
     \<and> (\<forall>(h, st)\<in>set (xs_operators s). 0 \<le> h \<and> os_validate T st = Inr st)"
proof -
  have ops: "all_r (\<lambda>(h, st). if h < 0 then Inl ValueError else bind_r (os_validate T st) (\<lambda>_. Inr ()))
      (xs_operators s) = Inr () \<longleftrightarrow> (\<forall>(h, st)\<in>set (xs_operators s). 0 \<le> h \<and> os_validate T st = Inr st)"
    using os_validate_result by (fastforce simp: all_r_Inr_iff bind_r_eq_Inr split: prod.splits if_splits)
  have ws: "all_r (\<lambda>v. bind_r (wv_validate T v (xs_batch s)) (\<lambda>_. Inr ())) (xs_workspace s) = Inr ()
      \<longleftrightarrow> (\<forall>v\<in>set (xs_workspace s). wv_ok T (xs_batch s) v)"
    by (simp add: all_r_Inr_iff bind_r_eq_Inr wv_validate_ok)
  have sorted: "xs = sort xs \<longleftrightarrow> sorted xs" for xs :: "int list"
    using sorted_sort [of xs] sorted_sort_id [of xs] by metis
  show ?thesis
    unfolding xs_validate_def Let_def known_status_iff
    by (auto simp: bind_r_eq_Inr wv_validate_ok ops ws sorted)
qed

lemma xr_validate_states_iff:
  "xr_validate_states r states batch = Inr () \<longleftrightarrow> map fst states = xr_handles r
     \<and> (\<forall>(h, s)\<in>set states. \<exists>p. xr_operator r h = Inr p \<and> op_validate p s batch = Inr ())"
  by (auto simp: xr_validate_states_def all_r_Inr_iff bind_r_eq_Inr)

lemma xe_check_state_iff:
  "xe_check_state T E s = Inr () \<longleftrightarrow>
     xs_schema s = EXECUTIVE_STATE_SCHEMA \<and> 1 \<le> xs_batch s
     \<and> int (length (xs_workspace s)) = xp_slots (xe_program E)
     \<and> 0 \<le> xs_pointer s \<and> 0 \<le> xs_ticks s \<and> 0 \<le> xs_executed s
     \<and> known_status (xs_status s) \<and> wv_ok T (xs_batch s) (xs_accumulator s)
     \<and> (\<forall>v\<in>set (xs_workspace s). wv_ok T (xs_batch s) v)
     \<and> ops_ok T E (xs_batch s) (xs_operators s) \<and> xs_registry s = xr_digest (xe_operators E)"
  unfolding xe_check_state_def bind_r_eq_Inr xs_validate_iff ops_ok_def
  by (simp add: xr_validate_states_iff) blast

definition state_ok :: "'t tensor_lib \<Rightarrow> 't executive \<Rightarrow> 't xstate \<Rightarrow> bool" where
  "state_ok T E s \<longleftrightarrow> xe_check_state T E s = Inr ()
     \<and> in_range (xs_pointer s) (length (xp_instructions (xe_program E)))"

lemma fold_update_append:
  "distinct (map fst (d @ kvs)) \<Longrightarrow> fold (\<lambda>(k, v) d. AList.update k v d) kvs d = d @ kvs"
proof (induction kvs arbitrary: d)
  case (Cons kv kvs)
  have "AList.update (fst kv) (snd kv) d = d @ [kv]"
    using Cons.prems by (cases kv) (induction d, auto)
  then show ?case using Cons.IH [of "d @ [kv]"] Cons.prems by (simp add: case_prod_beta)
qed simp

lemma dict_of_distinct: "distinct (map fst kvs) \<Longrightarrow> dict_of kvs = kvs"
  using fold_update_append [of "[]" kvs] by (simp add: dict_of_def)

lemma state_ok_regs: "state_ok T E s \<Longrightarrow> regs_ok T E (xs_batch s) (regs_of s)"
  by (auto simp: state_ok_def xe_check_state_iff regs_ok_def regs_of_def dict_of_distinct ops_ok_def)

lemma next_state_ok:
  assumes "state_ok T E s" and "regs_ok T E (xs_batch s) rg" and "known_status st" and "0 \<le> k"
  shows "state_ok T E (next_state E s st rg k)"
proof -
  have "sorted (map fst (rg_operators rg))"
    using assms(2) unfolding regs_ok_def ops_ok_def by blast
  then have "sort_key fst (rg_operators rg) = rg_operators rg" by (rule sort_key_id_if_sorted)
  then show ?thesis
    using assms by (auto simp: state_ok_def xe_check_state_iff regs_ok_def next_state_def in_range_def)
qed

lemma state_ok_valid: "state_ok T E s \<Longrightarrow> xs_validate T (xp_slots (xe_program E)) s = Inr s"
  by (auto simp: state_ok_def xe_check_state_def bind_r_eq_Inr xs_validate_iff)

text \<open>The states an executive starts from are such states.\<close>

lemma initial_state_ok:
  assumes "exec_ok E" and "xe_initial_state T E batch device dtype = Inr s"
  shows "state_ok T E s \<and> xs_status s = Ready \<and> xs_executed s = 0"
proof -
  obtain empty ops where empty: "wv_empty T batch device dtype = Inr empty"
      and ops: "xr_initial_states T (xe_operators E) batch device dtype = Inr ops"
      and valid: "xs_validate T (xp_slots (xe_program E)) s = Inr s"
      and s: "s = \<lparr>xs_workspace = replicate (nat (xp_slots (xe_program E))) empty, xs_accumulator = empty,
          xs_pointer = 0, xs_status = Ready, xs_batch = batch, xs_operators = ops,
          xs_registry = xr_digest (xe_operators E), xs_ticks = 0, xs_executed = 0,
          xs_schema = EXECUTIVE_STATE_SCHEMA\<rparr>"
    using assms(2) by (auto simp: xe_initial_state_def bind_r_eq_Inr xs_validate_iff)
  have each: "list_all2 (\<lambda>h hs. fst hs = h \<and> (\<exists>p. xr_operator (xe_operators E) h = Inr p
        \<and> op_validate p (snd hs) batch = Inr ())) (xr_handles (xe_operators E)) ops"
    using ops unfolding xr_initial_states_def map_r_Inr_iff
    by (rule list_all2_mono) (auto simp: bind_r_eq_Inr)
  then have "map fst ops = xr_handles (xe_operators E)"
    by (auto simp: list_all2_conv_all_nth intro: nth_equalityI)
  moreover have "\<exists>p. xr_operator (xe_operators E) h = Inr p \<and> op_validate p st batch = Inr ()"
    if "(h, st) \<in> set ops" for h st
    using each that by (fastforce simp: list_all2_conv_all_nth in_set_conv_nth)
  ultimately have "xr_validate_states (xe_operators E) ops batch = Inr ()"
    by (auto simp: xr_validate_states_iff)
  moreover have "xp_instructions (xe_program E) \<noteq> []"
    using assms(1) by (auto simp: exec_ok_def xp_validate_def split: if_splits)
  ultimately show ?thesis
    using valid by (simp add: state_ok_def xe_check_state_def s in_range_def)
qed

lemma state_ok_shape: "state_ok T E s \<Longrightarrow> xe_check_shape E s = Inr s"
  unfolding xe_check_shape_def known_status_iff
  by (auto simp: state_ok_def xe_check_state_iff ops_ok_def)

text \<open>The tick behind its guards: what both paths compute on a valid state.\<close>

definition tick_end :: "'t executive \<Rightarrow> 't xstate \<Rightarrow> xstatus \<times> 't intent_event option \<times> 't xregs \<times> int \<Rightarrow>
    't xtick \<times> 't xstate" where
  "tick_end E s = (\<lambda>(st, intent, rg, k).
     let st' = (if k \<ge> xe_max E \<and> st = Ready then Exhausted else st)
     in (mk_tick E intent st' k, next_state E s st' rg k))"

definition tick_guarded :: "'t tensor_lib \<Rightarrow> 't executive \<Rightarrow> 't event_collection \<Rightarrow> 't xstate \<Rightarrow>
    ('t xtick \<times> 't xstate) result" where
  "tick_guarded T E events s =
     bind_r (ec_validate T events None) (\<lambda>_.
       if hd (tl_shape T (ec_payload events)) \<noteq> xs_batch s then Inl ValueError
       else if xs_status s = Halted then Inr (mk_tick E None Halted 0, s)
       else if xs_status s = Exhausted then Inl RuntimeError
       else bind_r (xe_loop T E events True (xs_batch s) (nat (xe_max E)) 0 (regs_of s))
              (\<lambda>r. Inr (tick_end E s r)))"

lemma tick_loop_end_ok:
  assumes "clone_law T" and "exec_ok E" and "state_ok T E s"
    and "hd (tl_shape T (ec_payload events)) = xs_batch s"
    and "xe_loop T E events True (xs_batch s) (nat (xe_max E)) 0 (regs_of s) = Inr (st, intent, rg, k)"
  shows "state_ok T E (snd (tick_end E s (st, intent, rg, k)))"
    and "1 \<le> k" and "k \<le> xe_max E"
    and "intent_ok T E (xt_status (fst (tick_end E s (st, intent, rg, k)))) intent"
    and "xt_status (fst (tick_end E s (st, intent, rg, k))) \<in> {Waiting, Emitted, Halted, Exhausted}"
    and "xt_status (fst (tick_end E s (st, intent, rg, k))) = Exhausted \<longrightarrow> k = xe_max E"
proof -
  have "0 < xs_batch s" using assms(3) by (simp add: state_ok_def xe_check_state_iff)
  note ok = xe_loop_ok [OF assms(1,2) state_ok_regs [OF assms(3)] assms(4) this assms(5)]
  have m: "1 \<le> xe_max E" using assms(2) by (simp add: exec_ok_def)
  show "1 \<le> k" "k \<le> xe_max E" using ok m by (cases "st = Ready"; simp)+
  have "known_status (if k \<ge> xe_max E \<and> st = Ready then Exhausted else st)"
    using ok by (auto simp: known_status_def)
  from next_state_ok [OF assms(3) _ this] ok
  show "state_ok T E (snd (tick_end E s (st, intent, rg, k)))"
    by (simp add: tick_end_def Let_def)
  show "intent_ok T E (xt_status (fst (tick_end E s (st, intent, rg, k)))) intent"
    using ok by (auto simp: tick_end_def Let_def mk_tick_def intent_ok_def split: option.splits)
  show "xt_status (fst (tick_end E s (st, intent, rg, k))) \<in> {Waiting, Emitted, Halted, Exhausted}"
    and "xt_status (fst (tick_end E s (st, intent, rg, k))) = Exhausted \<longrightarrow> k = xe_max E"
    using ok m by (auto simp: tick_end_def Let_def mk_tick_def)
qed

lemma xe_tick_with_eq:
  assumes "clone_law T" and "exec_ok E" and "state_ok T E s"
  shows "xe_tick_with T E trusted events s = tick_guarded T E events s"
proof (cases "hd (tl_shape T (ec_payload events)) = xs_batch s")
  case True
  have check: "xe_check_state T E s = Inr ()" and batch: "0 < xs_batch s"
    using assms(3) by (simp_all add: state_ok_def xe_check_state_iff)
  note loop = xe_loop_trusted [OF assms(1,2) state_ok_regs [OF assms(3)] True batch, of trusted]
  show ?thesis
  proof (cases "xe_loop T E events True (xs_batch s) (nat (xe_max E)) 0 (regs_of s)")
    case (Inl e)
    then show ?thesis by (simp add: xe_tick_with_def tick_guarded_def check loop)
  next
    case (Inr r)
    obtain st intent rg k where r: "r = (st, intent, rg, k)" by (cases r)
    have "xs_validate T (xp_slots (xe_program E)) (snd (tick_end E s r)) = Inr (snd (tick_end E s r))"
      using state_ok_valid [OF tick_loop_end_ok(1) [OF assms True Inr [unfolded r]]] by (simp add: r)
    then show ?thesis
      by (simp add: xe_tick_with_def tick_guarded_def check loop Inr r tick_end_def Let_def)
  qed
next
  case False
  have "xe_check_state T E s = Inr ()" using assms(3) by (simp add: state_ok_def)
  then show ?thesis using False by (simp add: xe_tick_with_def tick_guarded_def)
qed

lemma tick_guarded_ok:
  assumes "clone_law T" and "exec_ok E" and "state_ok T E s" and "tick_guarded T E events s = Inr (out, s')"
  shows "state_ok T E s'" and "0 \<le> xt_executed out" and "xt_executed out \<le> xe_max E"
    and "xt_status out = xs_status s'" and "xs_executed s' = xs_executed s + xt_executed out"
    and "xt_status out \<in> {Waiting, Emitted, Halted, Exhausted}"
    and "intent_ok T E (xt_status out) (xt_intention out)"
    and "if xs_status s = Halted then s' = s \<and> xt_executed out = 0
         else xs_ticks s' = xs_ticks s + 1 \<and> 1 \<le> xt_executed out \<and> xs_status s \<noteq> Exhausted"
    and "xt_status out = Exhausted \<longrightarrow> xt_executed out = xe_max E"
proof -
  have m: "1 \<le> xe_max E" using assms(2) by (simp add: exec_ok_def)
  have batch: "hd (tl_shape T (ec_payload events)) = xs_batch s"
    using assms(4) by (auto simp: tick_guarded_def bind_r_eq_Inr split: if_splits)
  have "state_ok T E s' \<and> 0 \<le> xt_executed out \<and> xt_executed out \<le> xe_max E
      \<and> xt_status out = xs_status s' \<and> xs_executed s' = xs_executed s + xt_executed out
      \<and> xt_status out \<in> {Waiting, Emitted, Halted, Exhausted} \<and> intent_ok T E (xt_status out) (xt_intention out)
      \<and> (if xs_status s = Halted then s' = s \<and> xt_executed out = 0
         else xs_ticks s' = xs_ticks s + 1 \<and> 1 \<le> xt_executed out \<and> xs_status s \<noteq> Exhausted)
      \<and> (xt_status out = Exhausted \<longrightarrow> xt_executed out = xe_max E)"
  proof (cases "xs_status s = Halted")
    case True
    then have "out = mk_tick E None Halted 0" "s' = s"
      using assms(4) batch by (auto simp: tick_guarded_def bind_r_eq_Inr)
    then show ?thesis using True m assms(3) by (simp add: mk_tick_def intent_ok_def)
  next
    case False
    then obtain st intent rg k where
        loop: "xe_loop T E events True (xs_batch s) (nat (xe_max E)) 0 (regs_of s) = Inr (st, intent, rg, k)"
      and out: "(out, s') = tick_end E s (st, intent, rg, k)" and live: "xs_status s \<noteq> Exhausted"
      using assms(4) batch by (auto simp: tick_guarded_def bind_r_eq_Inr split: if_splits)
    note ok = tick_loop_end_ok [OF assms(1-3) batch loop, folded out, unfolded fst_conv snd_conv]
    have "xt_intention out = intent" "xt_executed out = k" "xs_executed s' = xs_executed s + k"
        "xs_ticks s' = xs_ticks s + 1" "xt_status out = xs_status s'"
      using out by (simp_all add: tick_end_def Let_def mk_tick_def next_state_def)
    then show ?thesis using ok False live by simp
  qed
  then show "state_ok T E s'" "0 \<le> xt_executed out" "xt_executed out \<le> xe_max E"
    "xt_status out = xs_status s'" "xs_executed s' = xs_executed s + xt_executed out"
    "xt_status out \<in> {Waiting, Emitted, Halted, Exhausted}" "intent_ok T E (xt_status out) (xt_intention out)"
    "if xs_status s = Halted then s' = s \<and> xt_executed out = 0
     else xs_ticks s' = xs_ticks s + 1 \<and> 1 \<le> xt_executed out \<and> xs_status s \<noteq> Exhausted"
    "xt_status out = Exhausted \<longrightarrow> xt_executed out = xe_max E"
    by blast+
qed

section \<open>Sessions\<close>

text \<open>A caller feeds one event collection after the other and keeps the outputs.\<close>

fun xe_session :: "('s \<Rightarrow> 'e \<Rightarrow> ('o \<times> 's) result) \<Rightarrow> 's \<Rightarrow> 'e list \<Rightarrow> ('o list \<times> 's) result" where
  "xe_session tick s [] = Inr ([], s)"
| "xe_session tick s (e # es) =
     bind_r (tick s e) (\<lambda>(out, s'). bind_r (xe_session tick s' es) (\<lambda>(outs, s''). Inr (out # outs, s'')))"

definition lease_of :: "'t executive \<Rightarrow> 't xstate \<Rightarrow> 't lease" where
  "lease_of E s = \<lparr>tl_state = s, tl_token = xe_token E\<rparr>"

lemma xe_seal_iff: "xe_seal T E s = Inr l \<longleftrightarrow> l = lease_of E s \<and> xe_check_state T E s = Inr ()"
  by (auto simp: xe_seal_def bind_r_eq_Inr lease_of_def)

lemma tick_fast_eq:
  assumes "clone_law T" and "exec_ok E" and "state_ok T E s"
  shows "xe_tick_fast T E events (lease_of E s) =
    bind_r (xe_tick T E events s) (\<lambda>(out, s'). Inr (out, lease_of E s'))"
proof (cases "tick_guarded T E events s")
  case (Inr r)
  obtain out s' where r: "r = (out, s')" by (cases r)
  have "xe_check_shape E s' = Inr s'"
    by (rule state_ok_shape [OF tick_guarded_ok(1) [OF assms Inr [unfolded r]]])
  then show ?thesis
    by (simp add: xe_tick_fast_def xe_tick_def xe_tick_with_eq [OF assms] Inr r lease_of_def
        state_ok_shape [OF assms(3), unfolded lease_of_def])
qed (simp add: xe_tick_fast_def xe_tick_def xe_tick_with_eq [OF assms] lease_of_def state_ok_shape [OF assms(3)])

text \<open>
  Two ways to drive the same machine: if a tick of the second, on the image of a state that satisfies
  the invariant, is the image of the first one's tick, then whole sessions agree, outputs and errors
  included.
\<close>

locale tick_simulation =
  fixes inv :: "'x \<Rightarrow> 's \<Rightarrow> bool"
    and tick :: "'x \<Rightarrow> 's \<Rightarrow> 'e \<Rightarrow> ('o \<times> 's) result"
    and fast :: "'x \<Rightarrow> 'l \<Rightarrow> 'e \<Rightarrow> ('o \<times> 'l) result"
    and lift :: "'x \<Rightarrow> 's \<Rightarrow> 'l"
  assumes simulates: "inv x s \<Longrightarrow> fast x (lift x s) e = bind_r (tick x s e) (\<lambda>(out, s'). Inr (out, lift x s'))"
    and inv_tick: "inv x s \<Longrightarrow> tick x s e = Inr (out, s') \<Longrightarrow> inv x s'"
begin

lemma session_inv: "inv x s \<Longrightarrow> xe_session (tick x) s es = Inr (outs, s') \<Longrightarrow> inv x s'"
proof (induction es arbitrary: s outs)
  case (Cons e es)
  then show ?case using inv_tick [OF Cons.prems(1)] by (fastforce simp: bind_r_eq_Inr)
qed simp

lemma sessions_agree:
  "inv x s \<Longrightarrow> xe_session (fast x) (lift x s) es =
     bind_r (xe_session (tick x) s es) (\<lambda>(outs, s'). Inr (outs, lift x s'))"
proof (induction es arbitrary: s)
  case (Cons e es)
  show ?case
  proof (cases "tick x s e")
    case (Inr r)
    obtain out s' where r: "r = (out, s')" by (cases r)
    have "inv x s'" using inv_tick [OF Cons.prems] Inr r by simp
    then show ?thesis
      by (cases "xe_session (tick x) s' es") (auto simp: simulates [OF Cons.prems] Inr r Cons.IH)
  qed (simp add: simulates [OF Cons.prems])
qed simp

end

definition live_inv :: "'t tensor_lib \<times> 't executive \<Rightarrow> 't xstate \<Rightarrow> bool" where
  "live_inv x s \<longleftrightarrow> clone_law (fst x) \<and> exec_ok (snd x) \<and> state_ok (fst x) (snd x) s"

interpretation fast_path: tick_simulation live_inv "\<lambda>x s e. xe_tick (fst x) (snd x) e s"
  "\<lambda>x l e. xe_tick_fast (fst x) (snd x) e l" "\<lambda>x. lease_of (snd x)"
proof
  fix x :: "'t tensor_lib \<times> 't executive" and s :: "'t xstate" and e
  assume inv: "live_inv x s"
  then show "xe_tick_fast (fst x) (snd x) e (lease_of (snd x) s) =
      bind_r (xe_tick (fst x) (snd x) e s) (\<lambda>(out, s'). Inr (out, lease_of (snd x) s'))"
    by (simp add: live_inv_def tick_fast_eq)
  fix out s'
  assume "xe_tick (fst x) (snd x) e s = Inr (out, s')"
  then show "live_inv x s'"
    using inv tick_guarded_ok(1) [of "fst x" "snd x" s e out s']
    by (simp add: live_inv_def xe_tick_def xe_tick_with_eq)
qed

lemma session_invariant:
  assumes "clone_law T" and "exec_ok E" and "state_ok T E s"
    and "xe_session (\<lambda>s e. xe_tick T E e s) s es = Inr (outs, s')"
  shows "state_ok T E s' \<and> length outs = length es
    \<and> xs_executed s' = xs_executed s + sum_list (map xt_executed outs)
    \<and> (\<forall>out\<in>set outs. 0 \<le> xt_executed out \<and> xt_executed out \<le> xe_max E
         \<and> intent_ok T E (xt_status out) (xt_intention out))
    \<and> (xs_status s = Halted \<longrightarrow> s' = s) \<and> (xs_status s' \<noteq> Halted \<longrightarrow> xs_ticks s' = xs_ticks s + int (length es))
    \<and> (xs_status s = Exhausted \<longrightarrow> es = [])"
  using assms(3,4)
proof (induction es arbitrary: s outs)
  case (Cons e es)
  obtain out s1 outs1 where tick: "tick_guarded T E e s = Inr (out, s1)"
      and rest: "xe_session (\<lambda>s e. xe_tick T E e s) s1 es = Inr (outs1, s')" and outs: "outs = out # outs1"
    using Cons.prems(2) by (auto simp: bind_r_eq_Inr xe_tick_def xe_tick_with_eq [OF assms(1,2) Cons.prems(1)])
  note ok = tick_guarded_ok [OF assms(1,2) Cons.prems(1) tick]
  note IH = Cons.IH [OF ok(1) rest]
  show ?case using IH ok(2,3,5,7,8) by (cases "xs_status s = Halted") (auto simp: outs)
qed simp

section \<open>A tick as a run of instructions\<close>

text \<open>\<open>xrun T E events batch n rg rg'\<close>: \<open>n\<close> instructions lead from \<open>rg\<close> to \<open>rg'\<close>, none of them yielding.\<close>

inductive xrun :: "'t tensor_lib \<Rightarrow> 't executive \<Rightarrow> 't event_collection \<Rightarrow> int \<Rightarrow> nat \<Rightarrow> 't xregs \<Rightarrow> 't xregs \<Rightarrow> bool"
  for T :: "'t tensor_lib" and E :: "'t executive" and events :: "'t event_collection" and batch :: int
where
  xrun_0: "xrun T E events batch 0 rg rg"
| xrun_Suc: "xe_step T E events False batch rg = Inr (Next rg1) \<Longrightarrow> xrun T E events batch n rg1 rg2 \<Longrightarrow>
    xrun T E events batch (Suc n) rg rg2"

inductive_simps xrun_0_simp [simp]: "xrun T E events batch 0 rg rg'"
inductive_simps xrun_Suc_simp: "xrun T E events batch (Suc n) rg rg'"

lemma xrun_unique: "xrun T E events batch n rg a \<Longrightarrow> xrun T E events batch n rg b \<Longrightarrow> a = b"
  by (induction arbitrary: b rule: xrun.induct) (auto simp: xrun_Suc_simp)

lemma xe_loop_cases:
  obtains (budget) rg' where "xrun T E events batch n rg rg'"
      and "xe_loop T E events False batch n k rg = Inr (Ready, None, rg', k + int n)"
  | (yield) m rg' st intent rg'' where "m < n" and "xrun T E events batch m rg rg'"
      and "xe_step T E events False batch rg' = Inr (Yield st intent rg'')"
      and "xe_loop T E events False batch n k rg = Inr (st, intent, rg'', k + int m + 1)"
  | (raised) m rg' e where "m < n" and "xrun T E events batch m rg rg'"
      and "xe_step T E events False batch rg' = Inl e"
      and "xe_loop T E events False batch n k rg = Inl e"
proof (induction n arbitrary: k rg thesis)
  case 0
  show ?case by (rule 0(1) [of rg]) simp_all
next
  case (Suc n)
  show ?case
  proof (cases "xe_step T E events False batch rg")
    case (Inl e)
    show ?thesis by (rule Suc.prems(3) [of 0 rg e]) (simp_all add: Inl)
  next
    case (Inr out)
    show ?thesis
    proof (cases out)
      case (Yield st intent rg1)
      show ?thesis by (rule Suc.prems(2) [of 0 rg st intent rg1]) (simp_all add: Inr Yield)
    next
      case (Next rg1)
      have loop: "xe_loop T E events False batch (Suc n) k rg = xe_loop T E events False batch n (k + 1) rg1"
        by (simp add: Inr Next)
      note go = xrun_Suc [of T E events batch rg rg1, OF Inr [unfolded Next]]
      show ?thesis
      proof (rule Suc.IH [of rg1 "k + 1"])
        fix rg' assume "xrun T E events batch n rg1 rg'"
          "xe_loop T E events False batch n (k + 1) rg1 = Inr (Ready, None, rg', k + 1 + int n)"
        then show thesis using Suc.prems(1) [of rg'] go [of n rg'] loop by (simp add: algebra_simps)
      next
        fix m rg' st intent rg'' assume "m < n" "xrun T E events batch m rg1 rg'"
          "xe_step T E events False batch rg' = Inr (Yield st intent rg'')"
          "xe_loop T E events False batch n (k + 1) rg1 = Inr (st, intent, rg'', k + 1 + int m + 1)"
        then show thesis using Suc.prems(2) [of "Suc m" rg' st intent rg''] go [of m rg'] loop
          by (simp add: algebra_simps)
      next
        fix m rg' e assume "m < n" "xrun T E events batch m rg1 rg'"
          "xe_step T E events False batch rg' = Inl e" "xe_loop T E events False batch n (k + 1) rg1 = Inl e"
        then show thesis using Suc.prems(3) [of "Suc m" rg' e] go [of m rg'] loop by simp
      qed
    qed
  qed
qed

section \<open>What a tick may raise\<close>

definition operator_raises :: "'t registry \<Rightarrow> exn \<Rightarrow> bool" where
  "operator_raises r e \<longleftrightarrow> (\<exists>h p. xr_operator r h = Inr p
     \<and> ((\<exists>vs s. op_run p vs s = Inl e) \<or> (\<exists>s batch. op_validate p s batch = Inl e)))"

definition own_errors :: "exn set" where
  "own_errors = {ValueError, TypeError, RuntimeError, LookupError}"

lemma validator_errors:
  "ec_validate T c w = Inl e \<Longrightarrow> e = ValueError"
  "ie_validate T i w = Inl e \<Longrightarrow> e = ValueError"
  "os_validate T s = Inl e \<Longrightarrow> e = ValueError"
  by (auto simp: ec_validate_def ie_validate_def os_validate_def validate_finite_def validate_batch_def
      dest!: bind_r_Inl_cases split: list.splits if_splits option.splits)

lemma wv_validate_errors: "wv_validate T v b = Inl e \<Longrightarrow> e \<in> own_errors"
  by (auto simp: wv_validate_def own_errors_def dest!: bind_r_Inl_cases validator_errors
      split: if_splits workspace_payload.splits)

lemma wv_from_events_errors: "wv_from_events T c = Inl e \<Longrightarrow> e \<in> own_errors"
  using wv_validate_errors
  by (auto simp: wv_from_events_def own_errors_def Let_def dest!: bind_r_Inl_cases validator_errors)

lemma emit_errors: "emit_intention T E v = Inl e \<Longrightarrow> e \<in> own_errors"
  by (auto simp: emit_intention_def own_errors_def dest!: validator_errors
      split: workspace_payload.splits if_splits)

lemma check_arguments_errors: "all_r (check_argument T True batch) xs = Inl e \<Longrightarrow> e = TypeError"
  by (induction xs) (auto simp: check_argument_def split: sum.splits if_splits)

lemma xr_call_errors:
  assumes "xr_call T r True batch h vs s = Inl e"
  shows "e \<in> own_errors \<or> operator_raises r e"
proof (cases "xr_operator r h")
  case (Inl e')
  then show ?thesis using assms
    by (auto simp: xr_call_def own_errors_def xr_operator_def split: option.splits)
next
  case (Inr p)
  have run: "operator_raises r e'" if "op_run p us u = Inl e'" for us u e'
    using Inr that unfolding operator_raises_def by blast
  have val: "operator_raises r e'" if "op_validate p u batch = Inl e'" for u e'
    using Inr that unfolding operator_raises_def by blast
  have clone: "e' = ValueError" if "os_clone T u = Inl e'" for u e'
    using that validator_errors(3) by (auto simp: os_clone_def)
  have "e \<in> {ValueError, TypeError} \<or> e \<in> own_errors \<or> operator_raises r e"
    using assms unfolding xr_call_def Inr bind_r_Inr if_True
    by (auto dest!: bind_r_Inl_cases check_arguments_errors clone run val wv_validate_errors
        split: if_splits prod.splits)
  then show ?thesis by (auto simp: own_errors_def)
qed

lemma map_r_slots:
  assumes "\<forall>k\<in>set ks. in_range k (length ws)"
  shows "\<exists>vs. map_r (slot_at ws) ks = Inr vs"
  using map_r_total [of ks "slot_at ws" "\<lambda>k. ws ! nat k"] slot_at_in_range [of _ ws] assms by blast

lemma write_slot_in_range: "in_range k (length ws) \<Longrightarrow> write_slot T c ws k v \<noteq> Inl e"
  using py_index_in_range [of k ws] by (simp add: write_slot_def)

lemma xe_call_errors:
  assumes "exec_ok E" and "regs_ok T E batch rg"
    and "xi_validate (xp_slots (xe_program E)) n i = Inr ()" and "xi_op i = Call"
    and "xe_call T E True batch i rg = Inl e"
  shows "e \<in> own_errors \<or> operator_raises (xe_operators E) e"
proof -
  have ws: "int (length (rg_workspace rg)) = xp_slots (xe_program E)" "ops_ok T E batch (rg_operators rg)"
    using assms(2) by (auto simp: regs_ok_def)
  obtain h d where h: "xi_handle i = Some h" and d: "xi_destination i = Some d"
    using operands_ok [OF assms(3)] assms(4) by (auto simp: xi_operands_ok_def split: option.splits)
  obtain vs where vs: "map_r (slot_at (rg_workspace rg)) (xi_arguments i) = Inr vs"
    using map_r_slots slot_operand(3) [OF assms(3) ws(1)] by blast
  note d_in = slot_operand(2) [OF assms(3) ws(1) d]
  show ?thesis
  proof (cases "xr_operator (xe_operators E) h")
    case (Inl e')
    then show ?thesis using assms(5)
      by (auto simp: xe_call_def the_int_def h d own_errors_def xr_operator_def split: option.splits)
  next
    case (Inr p)
    have "map fst (rg_operators rg) = sort (map fst (xr_operators (xe_operators E)))"
      using ws(2) assms(1) by (simp add: ops_ok_def exec_ok_def registry_ok_def)
    then have "set (map fst (rg_operators rg)) = set (map fst (xr_operators (xe_operators E)))"
      by (metis set_sort)
    moreover have "h \<in> set (map fst (xr_operators (xe_operators E)))"
      using Inr by (auto simp: xr_operator_def map_of_eq_None_iff split: option.splits dest: map_of_SomeD)
        (metis fst_conv image_eqI map_of_SomeD)
    ultimately obtain s where s: "map_of (rg_operators rg) h = Some s"
      by (metis map_of_eq_None_iff option.exhaust set_map)
    have "\<exists>vs s. xr_call T (xe_operators E) True batch h vs s = Inl e"
      using assms(5) write_slot_in_range [OF d_in]
      by (fastforce simp: xe_call_def the_int_def h d vs s Inr dest!: bind_r_Inl_cases split: prod.splits)
    then show ?thesis using xr_call_errors by blast
  qed
qed

lemma branch_errors: "branch_pointer T batch i v = Inl e \<Longrightarrow> e \<in> own_errors"
  by (auto simp: branch_pointer_def own_errors_def int_target_def Let_def dest!: bind_r_Inl_cases
      split: workspace_payload.splits if_splits option.splits)

lemma xe_step_errors:
  assumes "exec_ok E" and "regs_ok T E batch rg" and step: "xe_step T E events True batch rg = Inl e"
  shows "e \<in> own_errors \<or> operator_raises (xe_operators E) e"
proof -
  define i where "i = xp_instructions (xe_program E) ! nat (rg_pointer rg)"
  have ws: "int (length (rg_workspace rg)) = xp_slots (xe_program E)"
    and p: "in_range (rg_pointer rg) (length (xp_instructions (xe_program E)))"
    using assms(2) by (auto simp: regs_ok_def)
  note valid = instruction_valid [OF assms(1) p, folded i_def]
    and run = step [unfolded xe_step_def Let_def, folded i_def]
  have src: "\<exists>v. slot_at (rg_workspace rg) k = Inr v" if "xi_source i = Some k" for k
    using slot_at_in_range [OF slot_operand(1) [OF valid ws that]] by blast
  have dst: "write_slot T c (rg_workspace rg) k v \<noteq> Inl e'" if "xi_destination i = Some k" for k c v e'
    by (rule write_slot_in_range [OF slot_operand(2) [OF valid ws that]])
  have ops: "xi_operands_ok i (length (xp_instructions (xe_program E)))" using operands_ok [OF valid] by blast
  show ?thesis
  proof (cases "xi_op i")
    case Receive
    then obtain d where d: "xi_destination i = Some d" using ops by (auto simp: xi_operands_ok_def)
    then have "wv_from_events T events = Inl e"
      using run p Receive dst [OF d] by (cases "wv_from_events T events") (auto simp: the_int_def dest!: bind_r_Inl_cases)
    then show ?thesis using wv_from_events_errors by blast
  next
    case Read
    then obtain k v where "xi_source i = Some k" "slot_at (rg_workspace rg) k = Inr v"
      using ops src by (auto simp: xi_operands_ok_def)
    then show ?thesis using run p Read by (auto simp: the_int_def own_errors_def split: if_splits)
  next
    case Write
    then obtain d where d: "xi_destination i = Some d" using ops by (auto simp: xi_operands_ok_def)
    then show ?thesis using run p Write dst [OF d]
      by (auto simp: the_int_def own_errors_def dest!: bind_r_Inl_cases split: if_splits)
  next
    case CopySlot
    then obtain k v d where "xi_source i = Some k" "slot_at (rg_workspace rg) k = Inr v"
        and d: "xi_destination i = Some d"
      using ops src by (auto simp: xi_operands_ok_def)
    then show ?thesis using run p CopySlot dst [OF d]
      by (auto simp: the_int_def own_errors_def dest!: bind_r_Inl_cases split: if_splits)
  next
    case Call
    then have "xe_call T E True batch i rg = Inl e"
      using run p by (auto dest!: bind_r_Inl_cases)
    then show ?thesis using xe_call_errors [OF assms(1,2) valid Call] by blast
  next
    case Branch
    then obtain k v where "xi_source i = Some k" "slot_at (rg_workspace rg) k = Inr v"
      using ops src by (auto simp: xi_operands_ok_def)
    then have "branch_pointer T batch i v = Inl e"
      using run p Branch by (auto simp: the_int_def dest!: bind_r_Inl_cases)
    then show ?thesis using branch_errors by blast
  next
    case Emit
    then obtain k v where "xi_source i = Some k" "slot_at (rg_workspace rg) k = Inr v"
      using ops src by (auto simp: xi_operands_ok_def)
    then have "emit_intention T E v = Inl e"
      using run p Emit by (auto simp: the_int_def dest!: bind_r_Inl_cases)
    then show ?thesis using emit_errors by blast
  qed (use run p in simp_all)
qed

lemma tick_guarded_errors:
  assumes "clone_law T" and "exec_ok E" and "state_ok T E s" and "tick_guarded T E events s = Inl e"
  shows "e \<in> own_errors \<or> operator_raises (xe_operators E) e"
proof (cases "ec_validate T events None")
  case (Inl e')
  then show ?thesis using assms(4) validator_errors(1) by (auto simp: tick_guarded_def own_errors_def)
next
  case (Inr d)
  have batch: "0 < xs_batch s" using assms(3) by (simp add: state_ok_def xe_check_state_iff)
  have loop: "e \<in> own_errors \<or> operator_raises (xe_operators E) e"
    if "hd (tl_shape T (ec_payload events)) = xs_batch s" "regs_ok T E (xs_batch s) rg"
      "xe_loop T E events True (xs_batch s) n k rg = Inl e" for n k rg
    using that(2,3)
  proof (induction n arbitrary: k rg)
    case (Suc n)
    show ?case
    proof (cases "xe_step T E events True (xs_batch s) rg")
      case (Inl e')
      then show ?thesis using Suc.prems xe_step_errors [OF assms(2) Suc.prems(1)] by auto
    next
      case (Inr out)
      note ok = xe_step_ok [OF assms(1,2) Suc.prems(1) that(1) batch Inr]
      show ?thesis using Suc.prems(2) Inr ok Suc.IH by (cases out) auto
    qed
  qed simp
  show ?thesis
    using assms(4) loop [OF _ state_ok_regs [OF assms(3)]]
    by (auto simp: tick_guarded_def Inr own_errors_def dest!: bind_r_Inl_cases split: if_splits)
qed

end
