(* ===== verification/ExecutiveOperators.thy ===== *)
theory ExecutiveOperators
  imports ExecutiveRun
begin

text \<open>
  \<open>executive_operators.py\<close> and \<open>executive_memory.py\<close>: the four operators an artifact may name.  Three are
  pure; \<open>ExternalValueDelayOperator\<close> keeps a window of past values in its explicit state.  The further
  torch operations they call are the fields of \<open>operator_torch\<close>.

  The delay is proved to be a delay line.  \<open>window_laws\<close> states what torch documents of slicing and
  concatenation along axis 1: a window is a stack of columns, \<open>x[:, 0]\<close> is the first, and
  \<open>cat((x[:, 1:], y[:, None]), dim=1)\<close> drops the first and appends \<open>y\<close>.
\<close>

section \<open>The operations of torch\<close>

record 't operator_torch =
  ot_single_rows :: "'t \<Rightarrow> 't"
  ot_argmax_rows :: "'t \<Rightarrow> 't"
  ot_pick_rows :: "'t \<Rightarrow> 't \<Rightarrow> 't"
  ot_close_rows :: "'t \<Rightarrow> 't \<Rightarrow> 't"
  ot_signs :: "'t \<Rightarrow> string \<Rightarrow> 't"
  ot_and :: "'t \<Rightarrow> 't \<Rightarrow> 't"
  ot_minimum :: "'t \<Rightarrow> 't \<Rightarrow> 't"
  ot_negate :: "'t \<Rightarrow> 't"
  ot_cat :: "'t \<Rightarrow> 't \<Rightarrow> 't"
  ot_first :: "'t \<Rightarrow> 't"
  ot_rest :: "'t \<Rightarrow> 't"
  ot_unsqueeze :: "'t \<Rightarrow> 't"

text \<open>
  \<open>x.sum(dim=1) == 1\<close>, \<open>x.to(long).argmax(dim=1)\<close>, \<open>x[arange(batch), i]\<close>,
  \<open>isclose(x, y).all(dim=1, keepdim=True)\<close>, \<open>where(b, ones_like(b, dtype), -ones_like(b, dtype))\<close>, \<open>x & y\<close>,
  \<open>minimum(x, y)\<close>, \<open>-x\<close>, \<open>cat((x, y), dim=1)\<close>, \<open>x[:, 0]\<close>, \<open>x[:, 1:]\<close> and \<open>x[:, None]\<close>.
\<close>

section \<open>The pure operators\<close>

definition SINGLETON_EVENT_VALUE_INTERFACE :: string where
  "SINGLETON_EVENT_VALUE_INTERFACE = ''neural-computer.singleton-event-value.v1''"

definition VALUE_EQUALITY_EVIDENCE_INTERFACE :: string where
  "VALUE_EQUALITY_EVIDENCE_INTERFACE = ''neural-computer.value-equality-evidence.v1''"

definition EVIDENCE_BINARY_INTENTION_INTERFACE :: string where
  "EVIDENCE_BINARY_INTENTION_INTERFACE = ''neural-computer.evidence-binary-intention.v1''"

text \<open>\<open>assert isinstance(value.payload, ...)\<close>.\<close>

definition events_of :: "'t workspace_value \<Rightarrow> 't event_collection result" where
  "events_of v = (case wv_payload v of EventsPayload c \<Rightarrow> Inr c | _ \<Rightarrow> Inl AssertionError)"

definition tensor_of :: "'t workspace_value \<Rightarrow> 't result" where
  "tensor_of v = (case wv_payload v of TensorPayload t \<Rightarrow> Inr t | _ \<Rightarrow> Inl AssertionError)"

definition argument_at :: "'t workspace_value list \<Rightarrow> nat \<Rightarrow> 't workspace_value result" where
  "argument_at vs k = (if k < length vs then Inr (vs ! k) else Inl IndexError)"

definition pure_operator :: "'t tensor_lib \<Rightarrow> int \<Rightarrow> workspace_kind list \<Rightarrow> workspace_kind \<Rightarrow> string \<Rightarrow>
    (string \<times> pyval) list \<Rightarrow> ('t workspace_value list \<Rightarrow> 't workspace_value result) \<Rightarrow> 't xoperator result" where
  "pure_operator T handle inputs out version extra execute =
     bind_r (op_init handle inputs out version) (\<lambda>_.
       Inr \<lparr>op_handle = handle, op_input_kinds = inputs, op_output_kind = out, op_version = version,
            op_configuration = PDict (base_configuration handle inputs out version @ extra),
            op_initial = (\<lambda>_ _ _. base_initial T version),
            op_validate = (\<lambda>s _. base_validate T version s),
            op_run = base_run T execute\<rparr>)"

definition singleton_execute :: "'t tensor_lib \<Rightarrow> 't operator_torch \<Rightarrow> int \<Rightarrow> 't workspace_value list \<Rightarrow>
    't workspace_value result" where
  "singleton_execute T Q width vs =
     bind_r (argument_at vs 0) (\<lambda>v.
     bind_r (events_of v) (\<lambda>events.
       case tl_shape T (ec_payload events) of
         [batch, event_count, w] \<Rightarrow>
           (if w \<noteq> width then Inl ValueError
            else
              let present = ot_single_rows Q (ec_present events);
                  dtype = tl_dtype T (ec_payload events); device = tl_device T (ec_payload events);
                  selected = ot_argmax_rows Q (ec_present events);
                  picked = (if event_count = 0
                    then (tl_zeros T [batch, w] dtype device, tl_zeros T [batch] dtype device)
                    else (ot_pick_rows Q (ec_payload events) selected,
                          ot_pick_rows Q (ec_confidence events) selected))
              in wv_from_tensor T KValue (fst picked) (Some present) (Some (snd picked)))
       | _ \<Rightarrow> Inl ValueError))"

definition singleton_operator :: "'t tensor_lib \<Rightarrow> 't operator_torch \<Rightarrow> int \<Rightarrow> int \<Rightarrow> 't xoperator result" where
  "singleton_operator T Q handle width =
     (if width < 1 then Inl ValueError
      else pure_operator T handle [KEvents] KValue SINGLETON_EVENT_VALUE_INTERFACE
             [(''width'', PInt width)] (singleton_execute T Q width))"

definition equality_execute :: "'t tensor_lib \<Rightarrow> 't operator_torch \<Rightarrow> 't workspace_value list \<Rightarrow>
    't workspace_value result" where
  "equality_execute T Q vs =
     (case vs of
        [left, right] \<Rightarrow>
          bind_r (tensor_of left) (\<lambda>l.
          bind_r (tensor_of right) (\<lambda>r.
            if tl_shape T l \<noteq> tl_shape T r then Inl ValueError
            else wv_from_tensor T KEvidence (ot_signs Q (ot_close_rows Q l r) (tl_dtype T l))
                   (Some (ot_and Q (wv_present left) (wv_present right)))
                   (Some (ot_minimum Q (wv_confidence left) (wv_confidence right)))))
      | _ \<Rightarrow> Inl ValueError)"

definition equality_operator :: "'t tensor_lib \<Rightarrow> 't operator_torch \<Rightarrow> int \<Rightarrow> 't xoperator result" where
  "equality_operator T Q handle =
     pure_operator T handle [KValue, KValue] KEvidence VALUE_EQUALITY_EVIDENCE_INTERFACE []
       (equality_execute T Q)"

definition binary_intention_execute :: "'t tensor_lib \<Rightarrow> 't operator_torch \<Rightarrow> 't workspace_value list \<Rightarrow>
    't workspace_value result" where
  "binary_intention_execute T Q vs =
     bind_r (argument_at vs 0) (\<lambda>v.
     bind_r (tensor_of v) (\<lambda>t.
       wv_from_tensor T KIntention (ot_cat Q (ot_negate Q t) t) (Some (wv_present v)) (Some (wv_confidence v))))"

definition binary_intention_operator :: "'t tensor_lib \<Rightarrow> 't operator_torch \<Rightarrow> int \<Rightarrow> 't xoperator result" where
  "binary_intention_operator T Q handle =
     pure_operator T handle [KEvidence] KIntention EVIDENCE_BINARY_INTENTION_INTERFACE []
       (binary_intention_execute T Q)"

section \<open>The delay\<close>

definition EXTERNAL_VALUE_DELAY_INTERFACE :: string where
  "EXTERNAL_VALUE_DELAY_INTERFACE = ''neural-computer.external-value-delay.v1''"

definition field_confidence :: string where
  "field_confidence = ''confidence''"

definition field_present :: string where
  "field_present = ''present''"

definition field_values :: string where
  "field_values = ''values''"

definition delay_initial :: "'t tensor_lib \<Rightarrow> int \<Rightarrow> int \<Rightarrow> int \<Rightarrow> string \<Rightarrow> string \<Rightarrow> 't operator_state result" where
  "delay_initial T width delay batch_size device dtype =
     os_from_mapping T EXTERNAL_VALUE_DELAY_INTERFACE
       [(field_confidence, tl_zeros T [batch_size, delay] dtype device),
        (field_present, tl_zeros T [batch_size, delay] torch_bool device),
        (field_values, tl_zeros T [batch_size, delay, width] dtype device)]"

definition delay_validate :: "'t tensor_lib \<Rightarrow> int \<Rightarrow> int \<Rightarrow> 't operator_state \<Rightarrow> int \<Rightarrow> unit result" where
  "delay_validate T width delay s batch_size =
     bind_r (os_validate T s) (\<lambda>_.
       if os_version s \<noteq> EXTERNAL_VALUE_DELAY_INTERFACE then Inl ValueError
       else if map fst (os_tensors s) \<noteq> [field_confidence, field_present, field_values] then Inl ValueError
       else
         bind_r (os_tensor s field_confidence) (\<lambda>confidence.
         bind_r (os_tensor s field_present) (\<lambda>present.
         bind_r (os_tensor s field_values) (\<lambda>vs.
           if tl_shape T vs \<noteq> [batch_size, delay, width] then Inl ValueError
           else if tl_shape T present \<noteq> [batch_size, delay] \<or> tl_dtype T present \<noteq> torch_bool then Inl ValueError
           else if tl_shape T confidence \<noteq> [batch_size, delay] then Inl ValueError
           else if \<not> tl_floating T vs \<or> \<not> tl_floating T confidence then Inl TypeError
           else if tl_device T vs \<noteq> tl_device T present \<or> tl_device T vs \<noteq> tl_device T confidence
           then Inl ValueError
           else if tl_negative T confidence then Inl ValueError
           else Inr ()))))"

definition delay_run :: "'t tensor_lib \<Rightarrow> 't operator_torch \<Rightarrow> int \<Rightarrow> 't workspace_value list \<Rightarrow> 't operator_state \<Rightarrow>
    ('t workspace_value \<times> 't operator_state) result" where
  "delay_run T Q width vs s =
     bind_r (argument_at vs 0) (\<lambda>current.
     bind_r (tensor_of current) (\<lambda>payload.
       if tl_shape T payload ! 1 \<noteq> width then Inl ValueError
       else
         bind_r (os_tensor s field_values) (\<lambda>past.
         bind_r (os_tensor s field_present) (\<lambda>present.
         bind_r (os_tensor s field_confidence) (\<lambda>confidence.
         bind_r (wv_from_tensor T KValue (ot_first Q past) (Some (ot_first Q present))
                   (Some (ot_first Q confidence))) (\<lambda>delayed.
         bind_r (os_from_mapping T EXTERNAL_VALUE_DELAY_INTERFACE
           [(field_confidence, ot_cat Q (ot_rest Q confidence) (ot_unsqueeze Q (wv_confidence current))),
            (field_present, ot_cat Q (ot_rest Q present) (ot_unsqueeze Q (wv_present current))),
            (field_values, ot_cat Q (ot_rest Q past) (ot_unsqueeze Q payload))]) (\<lambda>s'.
           Inr (delayed, s'))))))))"

definition delay_operator :: "'t tensor_lib \<Rightarrow> 't operator_torch \<Rightarrow> int \<Rightarrow> int \<Rightarrow> int \<Rightarrow> 't xoperator result" where
  "delay_operator T Q handle width delay =
     (if width < 1 \<or> delay < 1 then Inl ValueError
      else
        bind_r (op_init handle [KValue] KValue EXTERNAL_VALUE_DELAY_INTERFACE) (\<lambda>_.
          Inr \<lparr>op_handle = handle, op_input_kinds = [KValue], op_output_kind = KValue,
               op_version = EXTERNAL_VALUE_DELAY_INTERFACE,
               op_configuration = PDict (base_configuration handle [KValue] KValue EXTERNAL_VALUE_DELAY_INTERFACE
                 @ [(''width'', PInt width), (''delay'', PInt delay),
                    (''binding_semantics'', PStr ''positive_relative_call_displacement'')]),
               op_initial = delay_initial T width delay,
               op_validate = delay_validate T width delay,
               op_run = delay_run T Q width\<rparr>))"

section \<open>First in, first out\<close>

text \<open>
  The contract of a stateful operator that hands back what it was given, in order: a state represents
  the entries it holds, a call returns the oldest and keeps the new one.
\<close>

locale delay_line =
  fixes holds :: "'x \<Rightarrow> 's \<Rightarrow> 'e list \<Rightarrow> bool"
    and fine :: "'x \<Rightarrow> 'v \<Rightarrow> bool"
    and entry :: "'v \<Rightarrow> 'e"
    and out :: "'e \<Rightarrow> 'v"
    and call :: "'x \<Rightarrow> 's \<Rightarrow> 'v \<Rightarrow> ('v \<times> 's) result"
  assumes call_shifts: "holds x s (e # q) \<Longrightarrow> fine x v \<Longrightarrow>
      \<exists>s'. call x s v = Inr (out e, s') \<and> holds x s' (q @ [entry v])"
begin

lemma calls_shift:
  "holds x s q \<Longrightarrow> q \<noteq> [] \<Longrightarrow> \<forall>v\<in>set vs. fine x v \<Longrightarrow>
     \<exists>s'. xe_session (call x) s vs = Inr (map out (take (length vs) (q @ map entry vs)), s')
       \<and> holds x s' (drop (length vs) (q @ map entry vs))"
proof (induction vs arbitrary: s q)
  case (Cons v vs)
  obtain e q' where q: "q = e # q'" using Cons.prems(2) by (cases q) auto
  have v: "fine x v" using Cons.prems(3) by simp
  obtain s1 where s1: "call x s v = Inr (out e, s1)" "holds x s1 (q' @ [entry v])"
    using call_shifts [OF Cons.prems(1) [unfolded q] v] by blast
  obtain s' where "xe_session (call x) s1 vs =
        Inr (map out (take (length vs) ((q' @ [entry v]) @ map entry vs)), s')"
      "holds x s' (drop (length vs) ((q' @ [entry v]) @ map entry vs))"
    using Cons.IH [OF s1(2)] Cons.prems(3) by auto
  then show ?case by (simp add: q s1(1))
qed simp

end

section \<open>The window of a delay\<close>

definition slice_laws :: "'t tensor_lib \<Rightarrow> 't operator_torch \<Rightarrow> ('t list \<Rightarrow> 't) \<Rightarrow> bool" where
  "slice_laws T Q stack \<longleftrightarrow>
     (\<forall>c cs. ot_first Q (stack (c # cs)) = c)
     \<and> (\<forall>c cs y. ot_cat Q (ot_rest Q (stack (c # cs))) (ot_unsqueeze Q y) = stack (cs @ [y]))
     \<and> (\<forall>b n rest dtype device. 1 \<le> n \<longrightarrow> tl_zeros T (b # n # rest) dtype device =
          stack (replicate (nat n) (tl_zeros T (b # rest) dtype device)))"

definition zeros_laws :: "'t tensor_lib \<Rightarrow> bool" where
  "zeros_laws T \<longleftrightarrow> (\<forall>shape dtype device. tl_shape T (tl_zeros T shape dtype device) = shape
     \<and> tl_dtype T (tl_zeros T shape dtype device) = dtype \<and> tl_device T (tl_zeros T shape dtype device) = device
     \<and> tl_finite T (tl_zeros T shape dtype device) \<and> \<not> tl_negative T (tl_zeros T shape dtype device))"

definition uniform :: "('t list \<Rightarrow> 't) \<Rightarrow> ('t \<Rightarrow> bool) \<Rightarrow> bool" where
  "uniform stack P \<longleftrightarrow> (\<forall>cs. cs \<noteq> [] \<longrightarrow> (\<forall>c\<in>set cs. P c) \<longrightarrow> P (stack cs))"

definition stack_shape :: "'t tensor_lib \<Rightarrow> ('t list \<Rightarrow> 't) \<Rightarrow> bool" where
  "stack_shape T stack \<longleftrightarrow> (\<forall>cs b rest. cs \<noteq> [] \<longrightarrow> (\<forall>c\<in>set cs. tl_shape T c = b # rest) \<longrightarrow>
     tl_shape T (stack cs) = b # int (length cs) # rest)"

definition window_laws :: "'t tensor_lib \<Rightarrow> 't operator_torch \<Rightarrow> ('t list \<Rightarrow> 't) \<Rightarrow> bool" where
  "window_laws T Q stack \<longleftrightarrow> slice_laws T Q stack \<and> zeros_laws T \<and> stack_shape T stack
     \<and> (\<forall>d. uniform stack (\<lambda>x. tl_dtype T x = d)) \<and> (\<forall>d. uniform stack (\<lambda>x. tl_device T x = d))
     \<and> uniform stack (tl_floating T) \<and> uniform stack (tl_finite T) \<and> uniform stack (\<lambda>x. \<not> tl_negative T x)
     \<and> (\<forall>x. tl_dtype T x = torch_bool \<longrightarrow> tl_finite T x)"

text \<open>An entry: the payload, the presence and the confidence of one value.\<close>

type_synonym 't entry = "'t \<times> 't \<times> 't"

definition entry_of :: "'t workspace_value \<Rightarrow> 't entry" where
  "entry_of v = ((case wv_payload v of TensorPayload p \<Rightarrow> p | _ \<Rightarrow> wv_present v), wv_present v, wv_confidence v)"

definition value_of :: "'t entry \<Rightarrow> 't workspace_value" where
  "value_of e = \<lparr>wv_kind = KValue, wv_payload = TensorPayload (fst e), wv_present = fst (snd e),
     wv_confidence = snd (snd e)\<rparr>"

definition entry_ok :: "'t tensor_lib \<Rightarrow> int \<Rightarrow> int \<Rightarrow> string \<Rightarrow> 't entry \<Rightarrow> bool" where
  "entry_ok T b w device e \<longleftrightarrow>
     tl_shape T (fst e) = [b, w] \<and> tl_floating T (fst e) \<and> tl_finite T (fst e) \<and> tl_device T (fst e) = device
     \<and> tl_shape T (fst (snd e)) = [b] \<and> tl_dtype T (fst (snd e)) = torch_bool
     \<and> tl_device T (fst (snd e)) = device
     \<and> tl_shape T (snd (snd e)) = [b] \<and> tl_floating T (snd (snd e)) \<and> tl_finite T (snd (snd e))
     \<and> \<not> tl_negative T (snd (snd e)) \<and> tl_device T (snd (snd e)) = device"

definition window_state :: "('t list \<Rightarrow> 't) \<Rightarrow> 't entry list \<Rightarrow> 't operator_state" where
  "window_state stack q = \<lparr>os_version = EXTERNAL_VALUE_DELAY_INTERFACE,
     os_tensors = [(field_confidence, stack (map (snd \<circ> snd) q)), (field_present, stack (map (fst \<circ> snd) q)),
                   (field_values, stack (map fst q))],
     os_schema = EXECUTIVE_OPERATOR_STATE_SCHEMA\<rparr>"

text \<open>A value a CALL may pass: valid, of the operator's width, on its device.\<close>

definition delay_value :: "'t tensor_lib \<Rightarrow> int \<Rightarrow> int \<Rightarrow> string \<Rightarrow> 't workspace_value \<Rightarrow> bool" where
  "delay_value T b w device v \<longleftrightarrow> wv_ok T b v \<and> wv_kind v = KValue
     \<and> (\<exists>p. wv_payload v = TensorPayload p \<and> tl_shape T p = [b, w] \<and> tl_device T p = device)"

lemma delay_fields:
  "field_confidence \<noteq> field_present" "field_present \<noteq> field_values" "field_confidence \<noteq> field_values"
  "field_confidence \<noteq> []" "field_present \<noteq> []" "field_values \<noteq> []"
  "sort_key fst [(field_confidence, a), (field_present, b), (field_values, c)] =
     [(field_confidence, a), (field_present, b), (field_values, c)]"
  by (simp_all add: field_confidence_def field_present_def field_values_def)

lemma os_from_mapping_fields:
  "os_from_mapping T version [(field_confidence, a), (field_present, b), (field_values, c)] =
     os_validate T \<lparr>os_version = version,
       os_tensors = [(field_confidence, tl_clone T a), (field_present, tl_clone T b), (field_values, tl_clone T c)],
       os_schema = EXECUTIVE_OPERATOR_STATE_SCHEMA\<rparr>"
  unfolding os_from_mapping_def delay_fields(7) by simp

lemma delay_schemas: "EXTERNAL_VALUE_DELAY_INTERFACE \<noteq> []"
  by (simp add: EXTERNAL_VALUE_DELAY_INTERFACE_def)

lemma entry_of_value:
  assumes "delay_value T b w device v"
  shows "entry_ok T b w device (entry_of v)" and "value_of (entry_of v) = v"
  using assms
  by (cases v; auto simp: delay_value_def wv_ok_def wv_validate_def entry_ok_def entry_of_def value_of_def tl_ndim_def
      split: if_splits)+

lemma value_of_ok:
  assumes "entry_ok T b w device e"
  shows "wv_ok T b (value_of e)"
  using assms by (simp add: entry_ok_def value_of_def wv_ok_def wv_validate_def tl_ndim_def)

lemma slice_law:
  assumes "window_laws T Q stack"
  shows window_first: "ot_first Q (stack (c # cs)) = c"
    and window_shift: "ot_cat Q (ot_rest Q (stack (c # cs))) (ot_unsqueeze Q y) = stack (cs @ [y])"
    and window_zeros: "1 \<le> n \<Longrightarrow> tl_zeros T (b # n # rest) dtype device =
      stack (replicate (nat n) (tl_zeros T (b # rest) dtype device))"
  using assms by (simp_all add: window_laws_def slice_laws_def)

lemma zeros_law:
  assumes "window_laws T Q stack"
  shows "tl_shape T (tl_zeros T shape dtype device) = shape"
    and "tl_dtype T (tl_zeros T shape dtype device) = dtype" and "tl_device T (tl_zeros T shape dtype device) = device"
    and "tl_finite T (tl_zeros T shape dtype device)" and "\<not> tl_negative T (tl_zeros T shape dtype device)"
  using assms by (simp_all add: window_laws_def zeros_laws_def)

lemma uniformD: "uniform stack P \<Longrightarrow> cs \<noteq> [] \<Longrightarrow> \<forall>c\<in>set cs. P c \<Longrightarrow> P (stack cs)"
  by (simp add: uniform_def)

lemma stack_law:
  assumes "window_laws T Q stack" and "cs \<noteq> []"
  shows window_shape: "\<forall>c\<in>set cs. tl_shape T c = b # rest \<Longrightarrow> tl_shape T (stack cs) = b # int (length cs) # rest"
    and window_dtype: "\<forall>c\<in>set cs. tl_dtype T c = dtype \<Longrightarrow> tl_dtype T (stack cs) = dtype"
    and window_device: "\<forall>c\<in>set cs. tl_device T c = device \<Longrightarrow> tl_device T (stack cs) = device"
    and window_floating: "\<forall>c\<in>set cs. tl_floating T c \<Longrightarrow> tl_floating T (stack cs)"
    and window_finite: "\<forall>c\<in>set cs. tl_finite T c \<Longrightarrow> tl_finite T (stack cs)"
    and window_nonneg: "\<forall>c\<in>set cs. \<not> tl_negative T c \<Longrightarrow> \<not> tl_negative T (stack cs)"
proof -
  note laws = assms(1) [unfolded window_laws_def]
  have "stack_shape T stack" using laws by blast
  then show "\<forall>c\<in>set cs. tl_shape T c = b # rest \<Longrightarrow> tl_shape T (stack cs) = b # int (length cs) # rest"
    unfolding stack_shape_def using assms(2) by (elim allE impE) assumption+
  show "\<forall>c\<in>set cs. tl_dtype T c = dtype \<Longrightarrow> tl_dtype T (stack cs) = dtype"
    using uniformD [of stack "\<lambda>x. tl_dtype T x = dtype", OF _ assms(2)] laws by simp
  show "\<forall>c\<in>set cs. tl_device T c = device \<Longrightarrow> tl_device T (stack cs) = device"
    using uniformD [of stack "\<lambda>x. tl_device T x = device", OF _ assms(2)] laws by simp
  show "\<forall>c\<in>set cs. tl_floating T c \<Longrightarrow> tl_floating T (stack cs)"
    using uniformD [of stack "tl_floating T", OF _ assms(2)] laws by simp
  show "\<forall>c\<in>set cs. tl_finite T c \<Longrightarrow> tl_finite T (stack cs)"
    using uniformD [of stack "tl_finite T", OF _ assms(2)] laws by simp
  show "\<forall>c\<in>set cs. \<not> tl_negative T c \<Longrightarrow> \<not> tl_negative T (stack cs)"
    using uniformD [of stack "\<lambda>x. \<not> tl_negative T x", OF _ assms(2)] laws by simp
qed

lemma bool_finite: "window_laws T Q stack \<Longrightarrow> tl_dtype T x = torch_bool \<Longrightarrow> tl_finite T x"
  by (simp add: window_laws_def)

lemma os_validate_window:
  assumes "window_laws T Q stack" and "q \<noteq> []" and "\<forall>e\<in>set q. entry_ok T b w device e"
  shows "os_validate T (window_state stack q) = Inr (window_state stack q)"
proof -
  have "tl_finite T (stack (map (snd \<circ> snd) q))" "tl_finite T (stack (map fst q))"
    using assms(2,3) by (auto intro!: window_finite [OF assms(1)] simp: entry_ok_def)
  moreover have "tl_finite T (stack (map (fst \<circ> snd) q))"
    using assms(2,3)
    by (auto intro!: bool_finite [OF assms(1)] window_dtype [OF assms(1)] simp: entry_ok_def)
  ultimately show ?thesis using delay_fields by (auto simp: os_validate_def window_state_def delay_schemas)
qed

lemma os_tensor_window:
  "os_tensor (window_state stack q) field_confidence = Inr (stack (map (snd \<circ> snd) q))"
  "os_tensor (window_state stack q) field_present = Inr (stack (map (fst \<circ> snd) q))"
  "os_tensor (window_state stack q) field_values = Inr (stack (map fst q))"
  using delay_fields by (auto simp: os_tensor_def window_state_def)

lemma delay_validate_window:
  assumes "window_laws T Q stack" and "1 \<le> delay" and "length q = nat delay"
    and "\<forall>e\<in>set q. entry_ok T b w device e"
  shows "delay_validate T w delay (window_state stack q) b = Inr ()"
proof -
  have q: "q \<noteq> []" "int (length q) = delay" using assms(2,3) by auto
  have "tl_shape T (stack (map fst q)) = [b, delay, w]"
    using window_shape [OF assms(1), of "map fst q" b "[w]"] q assms(4) by (auto simp: entry_ok_def)
  moreover have "tl_shape T (stack (map (fst \<circ> snd) q)) = [b, delay]" "tl_shape T (stack (map (snd \<circ> snd) q)) = [b, delay]"
    using window_shape [OF assms(1), of "map (fst \<circ> snd) q" b "[]"]
      window_shape [OF assms(1), of "map (snd \<circ> snd) q" b "[]"] q assms(4) by (auto simp: entry_ok_def)
  moreover have "tl_dtype T (stack (map (fst \<circ> snd) q)) = torch_bool"
    using q assms(4) by (auto intro!: window_dtype [OF assms(1)] simp: entry_ok_def)
  moreover have "tl_floating T (stack (map fst q))" "tl_floating T (stack (map (snd \<circ> snd) q))"
    using q assms(4) by (auto intro!: window_floating [OF assms(1)] simp: entry_ok_def)
  moreover have "tl_device T (stack (map fst q)) = device" "tl_device T (stack (map (fst \<circ> snd) q)) = device"
      "tl_device T (stack (map (snd \<circ> snd) q)) = device"
    using q assms(4) by (auto intro!: window_device [OF assms(1)] simp: entry_ok_def)
  moreover have "\<not> tl_negative T (stack (map (snd \<circ> snd) q))"
    using q assms(4) by (intro window_nonneg [OF assms(1)]) (auto simp: entry_ok_def)
  moreover have "os_version (window_state stack q) = EXTERNAL_VALUE_DELAY_INTERFACE"
      "map fst (os_tensors (window_state stack q)) = [field_confidence, field_present, field_values]"
    by (simp_all add: window_state_def)
  ultimately show ?thesis
    by (simp add: delay_validate_def os_validate_window [OF assms(1) q(1) assms(4)] os_tensor_window)
qed

lemma delay_run_window:
  assumes "clone_law T" and "window_laws T Q stack" and "\<forall>e\<in>set (e # q). entry_ok T b w device e"
    and "delay_value T b w device v"
  shows "delay_run T Q w [v] (window_state stack (e # q)) =
    Inr (value_of e, window_state stack (q @ [entry_of v]))"
proof -
  obtain p where p: "wv_payload v = TensorPayload p" "tl_shape T p = [b, w]"
    using assms(4) by (auto simp: delay_value_def)
  have clone: "tl_clone T = (\<lambda>x. x)" using assms(1) by (auto simp: clone_law_def)
  have entry: "entry_of v = (p, wv_present v, wv_confidence v)" by (simp add: entry_of_def p)
  have e: "entry_ok T b w device e" using assms(3) by simp
  have "wv_from_tensor T KValue (fst e) (Some (fst (snd e))) (Some (snd (snd e))) = Inr (value_of e)"
    using value_of_ok [OF e] e
    by (simp add: wv_from_tensor_def clone value_of_def wv_ok_def entry_ok_def tl_ndim_def Let_def)
  moreover have "os_from_mapping T EXTERNAL_VALUE_DELAY_INTERFACE
      [(field_confidence, stack (map (snd \<circ> snd) q @ [wv_confidence v])),
       (field_present, stack (map (fst \<circ> snd) q @ [wv_present v])), (field_values, stack (map fst q @ [p]))] =
      Inr (window_state stack (q @ [entry_of v]))"
  proof -
    have "\<forall>e\<in>set (q @ [entry_of v]). entry_ok T b w device e"
      using assms(3) entry_of_value(1) [OF assms(4)] by auto
    from os_validate_window [OF assms(2) _ this] show ?thesis
      by (simp add: os_from_mapping_fields clone window_state_def entry)
  qed
  ultimately show ?thesis
    by (simp add: delay_run_def argument_at_def tensor_of_def p os_tensor_window
        window_first [OF assms(2)] window_shift [OF assms(2)])
qed

section \<open>Calls of a delay\<close>

text \<open>
  What a sequence of CALLs of one delay depends on: the tensor operations, the registry and the handle,
  and the shape of the values.
\<close>

record 't delay_setting =
  ds_torch :: "'t tensor_lib"
  ds_ops :: "'t operator_torch"
  ds_stack :: "'t list \<Rightarrow> 't"
  ds_registry :: "'t registry"
  ds_handle :: int
  ds_width :: int
  ds_delay :: int
  ds_batch :: int
  ds_device :: string
  ds_trusted :: bool

definition setting_ok :: "'t delay_setting \<Rightarrow> bool" where
  "setting_ok x \<longleftrightarrow> clone_law (ds_torch x) \<and> window_laws (ds_torch x) (ds_ops x) (ds_stack x)
     \<and> 1 \<le> ds_delay x \<and> 1 \<le> ds_width x
     \<and> (\<exists>p. delay_operator (ds_torch x) (ds_ops x) (ds_handle x) (ds_width x) (ds_delay x) = Inr p
          \<and> xr_operator (ds_registry x) (ds_handle x) = Inr p)"

definition holds_entries :: "'t delay_setting \<Rightarrow> 't operator_state \<Rightarrow> 't entry list \<Rightarrow> bool" where
  "holds_entries x s q \<longleftrightarrow> setting_ok x \<and> s = window_state (ds_stack x) q \<and> length q = nat (ds_delay x)
     \<and> (\<forall>e\<in>set q. entry_ok (ds_torch x) (ds_batch x) (ds_width x) (ds_device x) e)"

definition delay_call :: "'t delay_setting \<Rightarrow> 't operator_state \<Rightarrow> 't workspace_value \<Rightarrow>
    ('t workspace_value \<times> 't operator_state) result" where
  "delay_call x s v = xr_call (ds_torch x) (ds_registry x) (ds_trusted x) (ds_batch x) (ds_handle x) [v] s"

lemma delay_call_window:
  assumes "holds_entries x s (e # q)"
    and "delay_value (ds_torch x) (ds_batch x) (ds_width x) (ds_device x) v"
  shows "\<exists>s'. delay_call x s v = Inr (value_of e, s') \<and> holds_entries x s' (q @ [entry_of v])"
proof -
  let ?T = "ds_torch x" and ?b = "ds_batch x"
  have clone: "clone_law ?T" and laws: "window_laws ?T (ds_ops x) (ds_stack x)" and d: "1 \<le> ds_delay x"
    and s: "s = window_state (ds_stack x) (e # q)" and len: "length (e # q) = nat (ds_delay x)"
    and ok: "\<forall>e\<in>set (e # q). entry_ok ?T ?b (ds_width x) (ds_device x) e"
    using assms(1) by (auto simp: holds_entries_def setting_ok_def)
  obtain p where p: "delay_operator ?T (ds_ops x) (ds_handle x) (ds_width x) (ds_delay x) = Inr p"
      and look: "xr_operator (ds_registry x) (ds_handle x) = Inr p"
    using assms(1) by (auto simp: holds_entries_def setting_ok_def)
  have pf: "op_input_kinds p = [KValue]" "op_output_kind p = KValue"
      "op_validate p = delay_validate ?T (ds_width x) (ds_delay x)" "op_run p = delay_run ?T (ds_ops x) (ds_width x)"
    using p by (auto simp: delay_operator_def bind_r_eq_Inr split: if_splits)
  let ?q = "q @ [entry_of v]"
  have ok': "\<forall>e\<in>set ?q. entry_ok ?T ?b (ds_width x) (ds_device x) e"
    using ok entry_of_value(1) [OF assms(2)] by auto
  have len': "length ?q = nat (ds_delay x)" using len by simp
  have v: "wv_ok ?T ?b v" "wv_kind v = KValue" using assms(2) by (auto simp: delay_value_def)
  have e: "wv_ok ?T ?b (value_of e)"
    by (rule value_of_ok [of _ _ "ds_width x" "ds_device x"]) (use ok in simp)
  have val: "delay_validate ?T (ds_width x) (ds_delay x) s ?b = Inr ()"
    using delay_validate_window [OF laws d len ok] by (simp add: s)
  have val': "delay_validate ?T (ds_width x) (ds_delay x) (window_state (ds_stack x) ?q) ?b = Inr ()"
    by (rule delay_validate_window [OF laws d len' ok'])
  have os: "os_validate ?T s = Inr s" "os_validate ?T (window_state (ds_stack x) ?q) = Inr (window_state (ds_stack x) ?q)"
    using os_validate_window [OF laws _ ok] os_validate_window [OF laws _ ok'] by (simp_all add: s)
  have kind: "wv_kind (value_of e) = KValue" by (simp add: value_of_def)
  have "delay_call x s v = Inr (value_of e, window_state (ds_stack x) ?q)"
    using v(2) v(1) [unfolded wv_ok_def] e [unfolded wv_ok_def]
    by (simp add: delay_call_def xr_call_def look pf check_argument_def val val' os_clone_id [OF clone] os
        wv_clone_id [OF clone v(1)] wv_clone_id [OF clone e] delay_run_window [OF clone laws ok assms(2), folded s]
        kind)
  then show ?thesis using assms(1) ok' len' by (auto simp: holds_entries_def)
qed

interpretation value_delay: delay_line holds_entries
  "\<lambda>x. delay_value (ds_torch x) (ds_batch x) (ds_width x) (ds_device x)" entry_of value_of delay_call
  by unfold_locales (rule delay_call_window)

definition absent_value :: "'t tensor_lib \<Rightarrow> int \<Rightarrow> int \<Rightarrow> string \<Rightarrow> string \<Rightarrow> 't workspace_value" where
  "absent_value T b w device dtype =
     value_of (tl_zeros T [b, w] dtype device, tl_zeros T [b] torch_bool device, tl_zeros T [b] dtype device)"

lemma delay_initial_holds:
  assumes "setting_ok x" and "\<forall>shape. tl_floating (ds_torch x) (tl_zeros (ds_torch x) shape dtype (ds_device x))"
  shows "\<exists>s. delay_initial (ds_torch x) (ds_width x) (ds_delay x) (ds_batch x) (ds_device x) dtype = Inr s
    \<and> holds_entries x s (replicate (nat (ds_delay x))
        (entry_of (absent_value (ds_torch x) (ds_batch x) (ds_width x) (ds_device x) dtype)))"
proof -
  let ?T = "ds_torch x" and ?b = "ds_batch x" and ?d = "ds_delay x" and ?dev = "ds_device x"
  let ?e = "(tl_zeros ?T [?b, ds_width x] dtype ?dev, tl_zeros ?T [?b] torch_bool ?dev, tl_zeros ?T [?b] dtype ?dev)"
  let ?q = "replicate (nat ?d) ?e"
  have clone: "clone_law ?T" and laws: "window_laws ?T (ds_ops x) (ds_stack x)" and d: "1 \<le> ?d"
    using assms(1) by (auto simp: setting_ok_def)
  have ok: "\<forall>e\<in>set ?q. entry_ok ?T ?b (ds_width x) ?dev e"
    using assms(2) by (simp add: entry_ok_def zeros_law [OF laws])
  have "?q \<noteq> []" using d by simp
  note valid = os_validate_window [OF laws this ok]
  have "delay_initial ?T (ds_width x) ?d ?b ?dev dtype = Inr (window_state (ds_stack x) ?q)"
    using valid clone window_zeros [OF laws d]
    by (simp add: delay_initial_def os_from_mapping_fields window_state_def clone_law_def map_replicate_const
        del: replicate_empty)
  moreover have "entry_of (value_of ?e) = ?e" by (simp add: entry_of_def value_of_def)
  ultimately show ?thesis using assms(1) ok by (simp add: holds_entries_def absent_value_def)
qed

lemma value_of_entry: "\<forall>v\<in>set vs. delay_value T b w device v \<Longrightarrow> map value_of (map entry_of vs) = vs"
  using entry_of_value(2) by (induction vs) auto

section \<open>A delay of two, run\<close>

text \<open>Tensors by columns: a leaf with its shape, data type and device, or a stack of columns along axis 1.\<close>

datatype column_tensor = Leaf "int list" string string nat | Stack "column_tensor list"

definition column_float :: string where
  "column_float = ''torch.float32''"

fun ct_shape :: "column_tensor \<Rightarrow> int list" where
  "ct_shape (Leaf shape _ _ _) = shape"
| "ct_shape (Stack []) = []"
| "ct_shape (Stack (c # cs)) =
     (case ct_shape c of b # rest \<Rightarrow> b # int (Suc (length cs)) # rest | [] \<Rightarrow> [])"

fun ct_dtype :: "column_tensor \<Rightarrow> string" where
  "ct_dtype (Leaf _ dtype _ _) = dtype"
| "ct_dtype (Stack []) = []"
| "ct_dtype (Stack (c # cs)) = ct_dtype c"

fun ct_device :: "column_tensor \<Rightarrow> string" where
  "ct_device (Leaf _ _ device _) = device"
| "ct_device (Stack []) = []"
| "ct_device (Stack (c # cs)) = ct_device c"

fun ct_zeros :: "int list \<Rightarrow> string \<Rightarrow> string \<Rightarrow> column_tensor" where
  "ct_zeros (b # n # rest) dtype device =
     (if 1 \<le> n then Stack (replicate (nat n) (ct_zeros (b # rest) dtype device))
      else Leaf (b # n # rest) dtype device 0)"
| "ct_zeros shape dtype device = Leaf shape dtype device 0"

definition column_torch :: "column_tensor tensor_lib" where
  "column_torch = \<lparr>tl_shape = ct_shape, tl_dtype = ct_dtype, tl_device = ct_device,
     tl_floating = (\<lambda>x. ct_dtype x \<noteq> torch_bool), tl_finite = (\<lambda>_. True), tl_negative = (\<lambda>_. False),
     tl_any = (\<lambda>x. x \<noteq> Leaf (ct_shape x) (ct_dtype x) (ct_device x) 0), tl_all = (\<lambda>_. True), tl_equal = (=),
     tl_any_rows = (\<lambda>x. x), tl_amax_rows = (\<lambda>x. x), tl_where_zero = (\<lambda>_ x. x), tl_clone = (\<lambda>x. x),
     tl_zeros = ct_zeros, tl_ones = (\<lambda>shape dtype device. Leaf shape dtype device 1),
     tl_bool_at = (\<lambda>_ _. True), tl_float_at = (\<lambda>_ _ _. Fin 0)\<rparr>"

fun columns :: "column_tensor \<Rightarrow> column_tensor list" where
  "columns (Stack cs) = cs"
| "columns x = []"

definition column_ops :: "column_tensor operator_torch" where
  "column_ops = \<lparr>ot_single_rows = (\<lambda>x. x), ot_argmax_rows = (\<lambda>x. x), ot_pick_rows = (\<lambda>x _. x),
     ot_close_rows = (\<lambda>x _. x), ot_signs = (\<lambda>x _. x), ot_and = (\<lambda>x _. x), ot_minimum = (\<lambda>x _. x),
     ot_negate = (\<lambda>x. x), ot_cat = (\<lambda>x y. Stack (columns x @ columns y)), ot_first = hd \<circ> columns,
     ot_rest = Stack \<circ> tl \<circ> columns, ot_unsqueeze = (\<lambda>x. Stack [x])\<rparr>"

lemma ct_zeros_facts:
  "ct_shape (ct_zeros shape dtype device) = shape \<and> ct_dtype (ct_zeros shape dtype device) = dtype
   \<and> ct_device (ct_zeros shape dtype device) = device"
proof (induction shape dtype device rule: ct_zeros.induct)
  case (1 b n rest dtype device)
  show ?case
  proof (cases "1 \<le> n")
    case True
    obtain m where m: "1 + int m = n" by (rule that [of "nat n - 1"]) (use True in simp)
    then have "nat n = Suc m" by auto
    then show ?thesis using 1 [OF True] True m by simp
  qed simp
qed simp_all

lemma column_laws: "window_laws column_torch column_ops Stack"
proof -
  have "stack_shape column_torch Stack"
    unfolding stack_shape_def column_torch_def by (auto simp: neq_Nil_conv)
  moreover have "zeros_laws column_torch" by (simp add: zeros_laws_def column_torch_def ct_zeros_facts)
  moreover have "slice_laws column_torch column_ops Stack"
    by (simp add: slice_laws_def column_torch_def column_ops_def)
  ultimately show ?thesis by (auto simp: window_laws_def uniform_def column_torch_def neq_Nil_conv)
qed

definition delay_two :: "column_tensor xoperator" where
  "delay_two = projr (delay_operator column_torch column_ops 5 1 2)"

definition delay_two_setting :: "column_tensor delay_setting" where
  "delay_two_setting = \<lparr>ds_torch = column_torch, ds_ops = column_ops, ds_stack = Stack,
     ds_registry = \<lparr>xr_operators = [(5, delay_two)], xr_handles = [5], xr_digest = []\<rparr>,
     ds_handle = 5, ds_width = 1, ds_delay = 2, ds_batch = 1, ds_device = ''cpu'', ds_trusted = False\<rparr>"

definition column_value :: "nat \<Rightarrow> column_tensor workspace_value" where
  "column_value k = \<lparr>wv_kind = KValue, wv_payload = TensorPayload (Leaf [1, 1] column_float ''cpu'' k),
     wv_present = Leaf [1] torch_bool ''cpu'' 1, wv_confidence = Leaf [1] column_float ''cpu'' 1\<rparr>"

lemma delay_two_ok: "setting_ok delay_two_setting"
proof -
  have "delay_operator column_torch column_ops 5 1 2 = Inr delay_two"
    by (simp add: delay_two_def delay_operator_def op_init_def EXTERNAL_VALUE_DELAY_INTERFACE_def)
  then show ?thesis
    by (simp add: setting_ok_def delay_two_setting_def column_laws xr_operator_def clone_law_def)
       (simp add: column_torch_def)
qed

lemma column_float_not_bool: "column_float \<noteq> torch_bool"
  by (simp add: column_float_def torch_bool_def)

lemma column_value_ok: "delay_value column_torch 1 1 ''cpu'' (column_value k)"
  by (simp add: delay_value_def column_value_def wv_ok_def wv_validate_def column_torch_def tl_ndim_def
      column_float_not_bool)

section \<open>Properties\<close>



end
