(* ===== verification/ExecutiveArtifact.thy ===== *)
theory ExecutiveArtifact
  imports ExecutiveOperators
begin

text \<open>
  \<open>executive_bank.py\<close>, first part: the allow-listed operator specs, the portable program artifact (a program,
  the specs of the operators it calls, and the width of its intentions), its digest and payload, and the
  executive it instantiates.

  \<open>from_payload\<close> reads the fields of instructions as the code does; a field that the operation does not use
  is checked by nobody in the code, while the model keeps integers and \<open>None\<close> there and refuses anything
  else.  The two numbers the code does not check for being booleans, \<open>slot_count\<close> and \<open>intention_width\<close>,
  enter the checksum as they were written.
\<close>

section \<open>Operator specs\<close>

definition EXECUTIVE_OPERATOR_SPEC_SCHEMA :: string where
  "EXECUTIVE_OPERATOR_SPEC_SCHEMA = ''neural-computer.executive-operator-spec.v1''"

definition EXECUTIVE_PROGRAM_ARTIFACT_SCHEMA :: string where
  "EXECUTIVE_PROGRAM_ARTIFACT_SCHEMA = ''neural-computer.executive-program-artifact.v1''"

datatype operator_kind = SingletonEventValue | ValueDelay | ValueEqualityEvidence
  | EvidenceBinaryIntention | OtherKind string

definition operator_kind_name :: "operator_kind \<Rightarrow> string" where
  "operator_kind_name k = (case k of SingletonEventValue \<Rightarrow> ''singleton_event_value''
     | ValueDelay \<Rightarrow> ''value_delay'' | ValueEqualityEvidence \<Rightarrow> ''value_equality_evidence''
     | EvidenceBinaryIntention \<Rightarrow> ''evidence_binary_intention'' | OtherKind s \<Rightarrow> s)"

definition operator_kinds :: "operator_kind list" where
  "operator_kinds = [SingletonEventValue, ValueDelay, ValueEqualityEvidence, EvidenceBinaryIntention]"

record operator_spec =
  ox_handle :: int
  ox_kind :: operator_kind
  ox_width :: "int option"
  ox_delay :: "int option"
  ox_schema :: string

definition positive_option :: "int option \<Rightarrow> bool" where
  "positive_option x = (case x of None \<Rightarrow> False | Some i \<Rightarrow> 1 \<le> i)"

definition ox_validate :: "operator_spec \<Rightarrow> operator_spec result" where
  "ox_validate s =
     (if ox_schema s \<noteq> EXECUTIVE_OPERATOR_SPEC_SCHEMA then Inl ValueError
      else if ox_handle s < 0 then Inl ValueError
      else if ox_kind s \<notin> set operator_kinds then Inl ValueError
      else if (if ox_kind s \<in> {SingletonEventValue, ValueDelay} then \<not> positive_option (ox_width s)
               else ox_width s \<noteq> None) then Inl ValueError
      else if (if ox_kind s = ValueDelay then \<not> positive_option (ox_delay s) else ox_delay s \<noteq> None)
      then Inl ValueError
      else Inr s)"

definition ox_build :: "'t tensor_lib \<Rightarrow> 't operator_torch \<Rightarrow> operator_spec \<Rightarrow> 't xoperator result" where
  "ox_build T Q s =
     bind_r (ox_validate s) (\<lambda>_.
       case ox_kind s of
         SingletonEventValue \<Rightarrow> bind_r (the_int (ox_width s)) (\<lambda>w. singleton_operator T Q (ox_handle s) w)
       | ValueDelay \<Rightarrow> bind_r (the_int (ox_width s)) (\<lambda>w.
           bind_r (the_int (ox_delay s)) (\<lambda>d. delay_operator T Q (ox_handle s) w d))
       | ValueEqualityEvidence \<Rightarrow> equality_operator T Q (ox_handle s)
       | _ \<Rightarrow> binary_intention_operator T Q (ox_handle s))"

definition ox_payload :: "operator_spec \<Rightarrow> pyval result" where
  "ox_payload s =
     bind_r (ox_validate s) (\<lambda>_. Inr (PDict
       [(''schema'', PStr (ox_schema s)), (''handle'', PInt (ox_handle s)),
        (''kind'', PStr (operator_kind_name (ox_kind s))),
        (''width'', opt_int_value (ox_width s)), (''delay'', opt_int_value (ox_delay s))]))"

text \<open>
  \<open>value in {...}\<close> for a set of strings (a list or a dictionary is not hashable), an integer that is not a
  boolean, the same or \<open>None\<close>, and a number compared with another.
\<close>

fun py_member :: "pyval \<Rightarrow> string list \<Rightarrow> string result" where
  "py_member (PStr s) names = (if s \<in> set names then Inr s else Inl ValueError)"
| "py_member (PList _) names = Inl TypeError"
| "py_member (PDict _) names = Inl TypeError"
| "py_member _ names = Inl ValueError"

fun strict_int :: "pyval \<Rightarrow> int result" where
  "strict_int (PInt i) = Inr i"
| "strict_int _ = Inl ValueError"

fun strict_opt_int :: "pyval \<Rightarrow> int option result" where
  "strict_opt_int PNone = Inr None"
| "strict_opt_int (PInt i) = Inr (Some i)"
| "strict_opt_int _ = Inl ValueError"

fun py_number :: "pyval \<Rightarrow> int result" where
  "py_number (PInt i) = Inr i"
| "py_number (PBool b) = Inr (if b then 1 else 0)"
| "py_number _ = Inl TypeError"

definition kind_of_name :: "string \<Rightarrow> operator_kind" where
  "kind_of_name s = (case find (\<lambda>k. operator_kind_name k = s) operator_kinds of Some k \<Rightarrow> k | None \<Rightarrow> OtherKind s)"

definition ox_from_payload :: "pyval \<Rightarrow> operator_spec result" where
  "ox_from_payload v =
     (case v of
        PDict kvs \<Rightarrow>
          (if dict_get kvs ''schema'' \<noteq> PStr EXECUTIVE_OPERATOR_SPEC_SCHEMA then Inl ValueError
           else
             bind_r (strict_int (dict_get kvs ''handle'')) (\<lambda>h.
             if h < 0 then Inl ValueError
             else
               bind_r (py_member (dict_get kvs ''kind'') (map operator_kind_name operator_kinds)) (\<lambda>k.
               bind_r (strict_opt_int (dict_get kvs ''width'')) (\<lambda>w.
               bind_r (strict_opt_int (dict_get kvs ''delay'')) (\<lambda>d.
                 ox_validate \<lparr>ox_handle = h, ox_kind = kind_of_name k, ox_width = w, ox_delay = d,
                   ox_schema = EXECUTIVE_OPERATOR_SPEC_SCHEMA\<rparr>)))))
      | _ \<Rightarrow> Inl TypeError)"

section \<open>Artifacts\<close>

record xartifact =
  xa_program :: xprogram
  xa_specs :: "operator_spec list"
  xa_width :: int
  xa_schema :: string

definition xa_registry_of :: "'t tensor_lib \<Rightarrow> 't operator_torch \<Rightarrow> operator_spec list \<Rightarrow> 't registry result" where
  "xa_registry_of T Q specs = bind_r (map_r (ox_build T Q) specs) xr_init"

definition xa_validate :: "'t tensor_lib \<Rightarrow> 't operator_torch \<Rightarrow> xartifact \<Rightarrow> xartifact result" where
  "xa_validate T Q a =
     (if xa_schema a \<noteq> EXECUTIVE_PROGRAM_ARTIFACT_SCHEMA then Inl ValueError
      else
        bind_r (xp_validate (xa_program a)) (\<lambda>p.
        if xp_schema p \<notin> {LEGACY_EXECUTIVE_PROGRAM_SCHEMA, EXECUTIVE_PROGRAM_SCHEMA} \<or> xa_width a < 1
        then Inl ValueError
        else
          let handles = map ox_handle (xa_specs a)
          in if handles \<noteq> sort handles \<or> \<not> distinct handles then Inl ValueError
             else
               bind_r (xa_registry_of T Q (xa_specs a)) (\<lambda>r.
               bind_r (all_r (\<lambda>i. if xi_op i = Call
                                  then bind_r (the_int (xi_handle i)) (\<lambda>h.
                                       bind_r (xr_operator r h) (\<lambda>_. Inr ()))
                                  else Inr ()) (xp_instructions p)) (\<lambda>_. Inr a))))"

definition xa_registry :: "'t tensor_lib \<Rightarrow> 't operator_torch \<Rightarrow> xartifact \<Rightarrow> 't registry result" where
  "xa_registry T Q a = bind_r (xa_validate T Q a) (\<lambda>_. xa_registry_of T Q (xa_specs a))"

definition xa_instantiate :: "'t tensor_lib \<Rightarrow> 't operator_torch \<Rightarrow> xartifact \<Rightarrow> int \<Rightarrow> nat \<Rightarrow> 't executive result" where
  "xa_instantiate T Q a max_instructions token =
     bind_r (xa_validate T Q a) (\<lambda>_.
     bind_r (xa_registry T Q a) (\<lambda>r.
       xe_init (xa_program a) r (xa_width a) max_instructions token))"

definition xa_content_with :: "pyval \<Rightarrow> pyval \<Rightarrow> xartifact \<Rightarrow> pyval result" where
  "xa_content_with slots width a =
     bind_r (map_r ox_payload (xa_specs a)) (\<lambda>specs. Inr (PDict
       [(''schema'', PStr (xa_schema a)),
        (''program'', PDict
          [(''schema'', PStr (xp_schema (xa_program a))), (''slot_count'', slots),
           (''instructions'', PList (map xi_dict (xp_instructions (xa_program a))))]),
        (''operator_specs'', PList specs), (''intention_width'', width)]))"

definition xa_content :: "xartifact \<Rightarrow> pyval result" where
  "xa_content a = xa_content_with (PInt (xp_slots (xa_program a))) (PInt (xa_width a)) a"

definition xa_digest_with :: "'t tensor_lib \<Rightarrow> 't operator_torch \<Rightarrow> pyval \<Rightarrow> pyval \<Rightarrow> xartifact \<Rightarrow> string result" where
  "xa_digest_with T Q slots width a =
     bind_r (xa_validate T Q a) (\<lambda>_.
     bind_r (xa_content_with slots width a) (\<lambda>content. Inr (digest_payload content)))"

definition xa_digest :: "'t tensor_lib \<Rightarrow> 't operator_torch \<Rightarrow> xartifact \<Rightarrow> string result" where
  "xa_digest T Q a = xa_digest_with T Q (PInt (xp_slots (xa_program a))) (PInt (xa_width a)) a"

definition xa_payload :: "'t tensor_lib \<Rightarrow> 't operator_torch \<Rightarrow> xartifact \<Rightarrow> pyval result" where
  "xa_payload T Q a =
     bind_r (xa_content a) (\<lambda>content.
     bind_r (xa_digest T Q a) (\<lambda>d.
       case content of PDict kvs \<Rightarrow> Inr (PDict (kvs @ [(''sha256'', PStr d)])) | _ \<Rightarrow> Inl TypeError))"

section \<open>Reading an artifact\<close>

definition executive_ops :: "xop list" where
  "executive_ops = [Receive, Read, Write, CopySlot, Call, Branch, Wait, Emit, Handoff, Halt]"

definition op_of_name :: "string \<Rightarrow> xop" where
  "op_of_name s = (case find (\<lambda>k. xop_name k = s) executive_ops of Some k \<Rightarrow> k | None \<Rightarrow> OtherOp s)"

definition item_dict :: "pyval \<Rightarrow> (string \<times> pyval) list result" where
  "item_dict v = (case v of PDict kvs \<Rightarrow> Inr kvs | _ \<Rightarrow> Inl TypeError)"

definition item_arguments :: "(string \<times> pyval) list \<Rightarrow> pyval list result" where
  "item_arguments kvs = py_tuple (dict_get_default kvs ''arguments'' (PList []))"

definition xi_from_payload :: "(string \<times> pyval) list \<times> pyval list \<Rightarrow> xinstruction result" where
  "xi_from_payload item =
     (let kvs = fst item
      in bind_r (py_member (dict_get kvs ''op'') (map xop_name executive_ops)) (\<lambda>op.
         bind_r (strict_opt_int (dict_get kvs ''source'')) (\<lambda>source.
         bind_r (strict_opt_int (dict_get kvs ''destination'')) (\<lambda>destination.
         bind_r (strict_opt_int (dict_get kvs ''operator_handle'')) (\<lambda>handle.
         bind_r (map_r strict_int (snd item)) (\<lambda>arguments.
         bind_r (strict_opt_int (dict_get kvs ''true_target'')) (\<lambda>t.
         bind_r (strict_opt_int (dict_get kvs ''false_target'')) (\<lambda>f.
         bind_r (strict_opt_int (dict_get kvs ''unknown_target'')) (\<lambda>u.
         bind_r (strict_opt_int (dict_get kvs ''next_target'')) (\<lambda>n.
           Inr \<lparr>xi_op = op_of_name op, xi_source = source, xi_destination = destination, xi_handle = handle,
                xi_arguments = arguments, xi_true = t, xi_false = f, xi_unknown = u, xi_next = n\<rparr>))))))))))"

definition xp_from_items :: "pyval \<Rightarrow> pyval \<Rightarrow> ((string \<times> pyval) list \<times> pyval list) list \<Rightarrow> xprogram result" where
  "xp_from_items schema slots items =
     bind_r (py_member schema [LEGACY_EXECUTIVE_PROGRAM_SCHEMA, EXECUTIVE_PROGRAM_SCHEMA]) (\<lambda>sch.
     bind_r (py_number slots) (\<lambda>n.
     if n < 1 \<or> items = [] then Inl ValueError
     else
       bind_r (map_r (\<lambda>item. bind_r (xi_from_payload item) (\<lambda>i.
                bind_r (xi_validate n (length items) i) (\<lambda>_. Inr i))) items) (\<lambda>is.
         xp_validate \<lparr>xp_slots = n, xp_instructions = is, xp_schema = sch\<rparr>)))"

definition xa_from_payload :: "'t tensor_lib \<Rightarrow> 't operator_torch \<Rightarrow> pyval \<Rightarrow> xartifact result" where
  "xa_from_payload T Q v =
     (case v of
        PDict kvs \<Rightarrow>
          (if dict_get kvs ''schema'' \<noteq> PStr EXECUTIVE_PROGRAM_ARTIFACT_SCHEMA then Inl ValueError
           else case (dict_get kvs ''program'', dict_get kvs ''operator_specs'') of
             (PDict pkvs, PList specs) \<Rightarrow>
               (case dict_get pkvs ''instructions'' of
                  PList items \<Rightarrow>
                    bind_r (map_r item_dict items) (\<lambda>dicts.
                    bind_r (map_r item_arguments dicts) (\<lambda>arguments.
                    bind_r (map_r ox_from_payload specs) (\<lambda>oxs.
                    bind_r (xp_from_items (dict_get pkvs ''schema'') (dict_get pkvs ''slot_count'')
                              (zip dicts arguments)) (\<lambda>p.
                    bind_r (py_number (dict_get kvs ''intention_width'')) (\<lambda>w.
                    let a = \<lparr>xa_program = p, xa_specs = oxs, xa_width = w,
                             xa_schema = EXECUTIVE_PROGRAM_ARTIFACT_SCHEMA\<rparr>
                    in bind_r (xa_validate T Q a) (\<lambda>_.
                       bind_r (xa_digest_with T Q (dict_get pkvs ''slot_count'')
                                 (dict_get kvs ''intention_width'') a) (\<lambda>d.
                         if dict_get kvs ''sha256'' \<noteq> PStr d then Inl ValueError else Inr a)))))))
                | _ \<Rightarrow> Inl TypeError)
           | _ \<Rightarrow> Inl TypeError)
      | _ \<Rightarrow> Inl ValueError)"

section \<open>What validation gives\<close>

lemma ox_validate_result: "ox_validate s = Inr u \<Longrightarrow> u = s"
  by (simp add: ox_validate_def split: if_splits)

lemma ox_build_handle:
  assumes "ox_build T Q s = Inr p"
  shows "op_handle p = ox_handle s"
  using assms
  by (auto simp: ox_build_def bind_r_eq_Inr singleton_operator_def delay_operator_def equality_operator_def
      binary_intention_operator_def pure_operator_def split: operator_kind.splits if_splits)

lemma register_all_handles:
  "register_all d ps = Inr r \<Longrightarrow> r = d @ map (\<lambda>p. (op_handle p, p)) ps"
  by (induction ps arbitrary: d) (fastforce split: if_splits)+

lemma register_all_total:
  "distinct (map fst d @ map op_handle ps) \<Longrightarrow> \<exists>r. register_all d ps = Inr r"
proof (induction ps arbitrary: d)
  case (Cons p ps)
  then show ?case using Cons.IH [of "d @ [(op_handle p, p)]"] by simp
qed simp

text \<open>Every spec that passes its validator builds: the constructors of the four operators refuse nothing else.\<close>

lemma ox_build_total: "ox_validate s = Inr s \<Longrightarrow> \<exists>p. ox_build T Q s = Inr p"
  by (auto simp: ox_build_def ox_validate_def operator_kinds_def positive_option_def the_int_def
      singleton_operator_def delay_operator_def equality_operator_def binary_intention_operator_def
      pure_operator_def op_init_def SINGLETON_EVENT_VALUE_INTERFACE_def VALUE_EQUALITY_EVIDENCE_INTERFACE_def
      EVIDENCE_BINARY_INTENTION_INTERFACE_def EXTERNAL_VALUE_DELAY_INTERFACE_def
      split: if_splits option.splits)

lemma registry_of_spec:
  assumes "xa_registry_of T Q specs = Inr r"
  shows "\<exists>ps. map_r (ox_build T Q) specs = Inr ps \<and> xr_operators r = map (\<lambda>p. (op_handle p, p)) ps
    \<and> map op_handle ps = map ox_handle specs"
proof -
  obtain ps where ps: "map_r (ox_build T Q) specs = Inr ps" and r: "xr_init ps = Inr r"
    using assms by (auto simp: xa_registry_of_def bind_r_eq_Inr)
  have "list_all2 (\<lambda>s p. op_handle p = ox_handle s) specs ps"
    using ps unfolding map_r_Inr_iff by (rule list_all2_mono) (rule ox_build_handle)
  then have "map op_handle ps = map ox_handle specs"
    by (auto simp: list_all2_conv_all_nth intro: nth_equalityI)
  moreover have "xr_operators r = map (\<lambda>p. (op_handle p, p)) ps"
    using r by (auto simp: xr_init_def bind_r_eq_Inr Let_def dest!: register_all_handles)
  ultimately show ?thesis using ps by blast
qed

lemma registry_of_lookup:
  assumes "xa_registry_of T Q specs = Inr r"
  shows "xr_operator r h = Inr p \<Longrightarrow> \<exists>s\<in>set specs. ox_handle s = h \<and> ox_build T Q s = Inr p"
    and "h \<notin> set (map ox_handle specs) \<Longrightarrow> xr_operator r h = Inl LookupError"
proof -
  obtain ps where ps: "map_r (ox_build T Q) specs = Inr ps" "xr_operators r = map (\<lambda>p. (op_handle p, p)) ps"
      "map op_handle ps = map ox_handle specs"
    using registry_of_spec [OF assms] by blast
  show "\<exists>s\<in>set specs. ox_handle s = h \<and> ox_build T Q s = Inr p" if p: "xr_operator r h = Inr p"
  proof -
    have "p \<in> set ps \<and> op_handle p = h"
      using p by (auto simp: xr_operator_def ps(2) split: option.splits dest!: map_of_SomeD)
    then obtain k where k: "k < length ps" "ps ! k = p" "op_handle p = h" by (auto simp: in_set_conv_nth)
    then have "k < length specs" "ox_build T Q (specs ! k) = Inr p"
      using ps(1) by (auto simp: map_r_Inr_iff list_all2_conv_all_nth)
    then show ?thesis using k(3) ox_build_handle [of T Q "specs ! k" p] nth_mem by metis
  qed
  show "xr_operator r h = Inl LookupError" if "h \<notin> set (map ox_handle specs)"
  proof -
    have "h \<notin> fst ` set (xr_operators r)"
      using that unfolding ps(2) ps(3) [symmetric] by auto
    then have "map_of (xr_operators r) h = None" by (simp add: map_of_eq_None_iff)
    then show ?thesis by (simp add: xr_operator_def)
  qed
qed

definition calls_bound :: "xartifact \<Rightarrow> bool" where
  "calls_bound a \<longleftrightarrow> (\<forall>i\<in>set (xp_instructions (xa_program a)). xi_op i = Call \<longrightarrow>
     (\<exists>h. xi_handle i = Some h \<and> h \<in> set (map ox_handle (xa_specs a))))"

lemma xa_validate_iff:
  "xa_validate T Q a = Inr u \<longleftrightarrow> u = a \<and> xa_schema a = EXECUTIVE_PROGRAM_ARTIFACT_SCHEMA
     \<and> xp_validate (xa_program a) = Inr (xa_program a) \<and> 1 \<le> xa_width a
     \<and> sorted (map ox_handle (xa_specs a)) \<and> distinct (map ox_handle (xa_specs a))
     \<and> (\<forall>s\<in>set (xa_specs a). ox_validate s = Inr s) \<and> calls_bound a"
  (is "?l \<longleftrightarrow> ?r")
proof -
  have sort: "xs = sort xs \<longleftrightarrow> sorted xs" for xs :: "int list"
    using sorted_sort [of xs] sorted_sort_id [of xs] by metis
  have calls: "all_r (\<lambda>i. if xi_op i = Call then bind_r (the_int (xi_handle i)) (\<lambda>h.
        bind_r (xr_operator r h) (\<lambda>_. Inr ())) else Inr ()) (xp_instructions (xa_program a)) = Inr () \<longleftrightarrow> calls_bound a"
    if r: "xa_registry_of T Q (xa_specs a) = Inr r" for r
  proof -
    have look: "(\<exists>p. xr_operator r h = Inr p) \<longleftrightarrow> h \<in> ox_handle ` set (xa_specs a)" for h
    proof
      assume "\<exists>p. xr_operator r h = Inr p"
      then show "h \<in> ox_handle ` set (xa_specs a)" using registry_of_lookup(1) [OF r] by auto
    next
      assume "h \<in> ox_handle ` set (xa_specs a)"
      then have h: "h \<in> set (map ox_handle (xa_specs a))" by simp
      obtain ps where ps: "xr_operators r = map (\<lambda>p. (op_handle p, p)) ps"
          "map op_handle ps = map ox_handle (xa_specs a)"
        using registry_of_spec [OF r] by blast
      have "h \<in> fst ` set (xr_operators r)" using h unfolding ps(2) [symmetric] by (force simp: ps(1))
      then have "map_of (xr_operators r) h \<noteq> None" by (simp add: map_of_eq_None_iff)
      then show "\<exists>p. xr_operator r h = Inr p" by (auto simp: xr_operator_def)
    qed
    have "(if xi_op i = Call then bind_r (the_int (xi_handle i)) (\<lambda>h.
        bind_r (xr_operator r h) (\<lambda>_. Inr ())) else Inr ()) = Inr () \<longleftrightarrow>
        (xi_op i = Call \<longrightarrow> (\<exists>h. xi_handle i = Some h \<and> h \<in> set (map ox_handle (xa_specs a))))" for i :: xinstruction
      by (cases "xi_handle i") (simp_all add: bind_r_eq_Inr the_int_def look)
    then show ?thesis unfolding all_r_Inr_iff calls_bound_def by (simp only:)
  qed
  show ?thesis
  proof
    assume ?l
    then obtain r where r: "xa_registry_of T Q (xa_specs a) = Inr r"
      and l: "u = a" "xa_schema a = EXECUTIVE_PROGRAM_ARTIFACT_SCHEMA"
        "xp_validate (xa_program a) = Inr (xa_program a)" "1 \<le> xa_width a"
        "sorted (map ox_handle (xa_specs a))" "distinct (map ox_handle (xa_specs a))" "calls_bound a"
      using calls by (auto simp: xa_validate_def bind_r_eq_Inr Let_def sort dest: xp_validate_result split: if_splits)
    have "ox_validate s = Inr s" if s: "s \<in> set (xa_specs a)" for s
    proof -
      obtain ps where "map_r (ox_build T Q) (xa_specs a) = Inr ps" using registry_of_spec [OF r] by blast
      then obtain p where "ox_build T Q s = Inr p" using map_r_each [OF _ s] by blast
      then show ?thesis using ox_validate_result by (auto simp: ox_build_def bind_r_eq_Inr)
    qed
    then show ?r using l by blast
  next
    assume r: ?r
    have "\<exists>p. ox_build T Q s = Inr p" if "s \<in> set (xa_specs a)" for s
      using ox_build_total r that by blast
    then obtain f where f: "\<And>s. s \<in> set (xa_specs a) \<Longrightarrow> ox_build T Q s = Inr (f s)" by metis
    have ps: "map_r (ox_build T Q) (xa_specs a) = Inr (map f (xa_specs a))" by (rule map_r_total [OF f])
    have handles: "map op_handle (map f (xa_specs a)) = map ox_handle (xa_specs a)"
      using ox_build_handle [OF f] by simp
    have "distinct (map fst [] @ map op_handle (map f (xa_specs a)))" unfolding handles using r by simp
    then obtain d where "register_all [] (map f (xa_specs a)) = Inr d" using register_all_total by blast
    then obtain reg where reg: "xa_registry_of T Q (xa_specs a) = Inr reg"
      by (auto simp: xa_registry_of_def ps xr_init_def Let_def)
    have "xp_schema (xa_program a) \<in> {LEGACY_EXECUTIVE_PROGRAM_SCHEMA, EXECUTIVE_PROGRAM_SCHEMA}"
      using r by (auto simp: xp_validate_def split: if_splits)
    then show ?l using r calls [OF reg] by (simp add: xa_validate_def Let_def reg sorted_sort_id)
  qed
qed

lemma xa_registry_total:
  assumes "xa_validate T Q a = Inr a"
  shows "\<exists>r. xa_registry_of T Q (xa_specs a) = Inr r"
  using assms by (auto simp: xa_validate_def bind_r_eq_Inr Let_def split: if_splits)

section \<open>The payload\<close>

text \<open>The keys of the dictionaries, looked up.\<close>

lemma ox_payload_keys:
  fixes a b c d e
  defines "kvs \<equiv> [(''schema'', a), (''handle'', b), (''kind'', c), (''width'', d), (''delay'', e)]"
  shows "dict_get kvs ''schema'' = a" "dict_get kvs ''handle'' = b" "dict_get kvs ''kind'' = c"
    "dict_get kvs ''width'' = d" "dict_get kvs ''delay'' = e"
  by (simp_all add: kvs_def)

lemma xi_dict_keys:
  fixes a b c d e f g h i
  defines "kvs \<equiv> [(''op'', a), (''source'', b), (''destination'', c), (''operator_handle'', d),
    (''arguments'', e), (''true_target'', f), (''false_target'', g), (''unknown_target'', h), (''next_target'', i)]"
  shows "dict_get kvs ''op'' = a" "dict_get kvs ''source'' = b" "dict_get kvs ''destination'' = c"
    "dict_get kvs ''operator_handle'' = d" "dict_get_default kvs ''arguments'' z = e"
    "dict_get kvs ''true_target'' = f" "dict_get kvs ''false_target'' = g"
    "dict_get kvs ''unknown_target'' = h" "dict_get kvs ''next_target'' = i"
  by (simp_all add: kvs_def)

lemma xa_payload_keys:
  fixes a b c d e
  defines "kvs \<equiv> [(''schema'', a), (''program'', b), (''operator_specs'', c), (''intention_width'', d)] @ [(''sha256'', e)]"
  shows "dict_get kvs ''schema'' = a" "dict_get kvs ''program'' = b" "dict_get kvs ''operator_specs'' = c"
    "dict_get kvs ''intention_width'' = d" "dict_get kvs ''sha256'' = e"
  by (simp_all add: kvs_def)

lemma program_keys:
  fixes a b c
  defines "kvs \<equiv> [(''schema'', a), (''slot_count'', b), (''instructions'', c)]"
  shows "dict_get kvs ''schema'' = a" "dict_get kvs ''slot_count'' = b" "dict_get kvs ''instructions'' = c"
  by (simp_all add: kvs_def)

lemma strict_opt_int_value [simp]: "strict_opt_int (opt_int_value x) = Inr x"
  by (cases x) simp_all

lemma strict_int_values: "map_r strict_int (map PInt ks) = Inr ks"
  by (induction ks) simp_all

lemma kind_names: "k \<in> set operator_kinds \<Longrightarrow> kind_of_name (operator_kind_name k) = k"
  by (auto simp: operator_kinds_def kind_of_name_def operator_kind_name_def)

lemma op_names: "k \<in> set executive_ops \<Longrightarrow> op_of_name (xop_name k) = k"
  by (auto simp: executive_ops_def op_of_name_def xop_name_def)

lemma ox_roundtrip:
  assumes "ox_validate s = Inr s"
  shows "\<exists>v. ox_payload s = Inr v \<and> ox_from_payload v = Inr s"
proof -
  have s: "0 \<le> ox_handle s" "ox_kind s \<in> set operator_kinds" "ox_schema s = EXECUTIVE_OPERATOR_SPEC_SCHEMA"
    using assms by (auto simp: ox_validate_def split: if_splits)
  have "\<lparr>ox_handle = ox_handle s, ox_kind = ox_kind s, ox_width = ox_width s, ox_delay = ox_delay s,
      ox_schema = EXECUTIVE_OPERATOR_SPEC_SCHEMA\<rparr> = s"
    using s(3) by simp
  moreover have "operator_kind_name (ox_kind s) \<in> set (map operator_kind_name operator_kinds)"
    using s(2) by simp
  ultimately show ?thesis
    using assms s unfolding ox_payload_def ox_from_payload_def
    by (simp only: bind_r_Inr pyval.case ox_payload_keys py_member.simps strict_int.simps strict_opt_int_value
        if_True if_False kind_names not_less simp_thms sum.inject) simp
qed

lemma xi_roundtrip:
  assumes "xi_validate slots n i = Inr ()"
  shows "\<exists>kvs. xi_dict i = PDict kvs \<and> item_arguments kvs = Inr (map PInt (xi_arguments i))
    \<and> xi_from_payload (kvs, map PInt (xi_arguments i)) = Inr i"
proof -
  have op: "xi_op i \<in> set executive_ops"
    using operands_ok [OF assms] by (cases "xi_op i") (auto simp: executive_ops_def)
  have args: "map_r strict_int (map PInt (xi_arguments i)) = Inr (xi_arguments i)"
    by (simp add: strict_int_values)
  have member: "xop_name (xi_op i) \<in> set (map xop_name executive_ops)" using op by simp
  show ?thesis
    unfolding xi_dict_def item_arguments_def xi_from_payload_def Let_def fst_conv snd_conv
    by (intro exI conjI, rule refl)
       (simp_all only: xi_dict_keys py_tuple.simps py_member.simps member if_True bind_r_Inr
          strict_opt_int_value args op_names [OF op], simp)
qed

lemma valid_program:
  assumes "xp_validate p = Inr p"
  shows "1 \<le> xp_slots p" and "xp_instructions p \<noteq> []"
    and "xp_schema p = LEGACY_EXECUTIVE_PROGRAM_SCHEMA \<or> xp_schema p = EXECUTIVE_PROGRAM_SCHEMA"
    and "i \<in> set (xp_instructions p) \<Longrightarrow> xi_validate (xp_slots p) (length (xp_instructions p)) i = Inr ()"
    and "xi_op (last (xp_instructions p)) = Halt"
  using assms by (auto simp: xp_validate_def bind_r_eq_Inr all_r_Inr_iff split: if_splits)

lemma program_roundtrip:
  assumes "xp_validate p = Inr p"
  shows "\<exists>dicts arguments. map_r item_dict (map xi_dict (xp_instructions p)) = Inr dicts
    \<and> map_r item_arguments dicts = Inr arguments
    \<and> xp_from_items (PStr (xp_schema p)) (PInt (xp_slots p)) (zip dicts arguments) = Inr p"
proof -
  let ?is = "xp_instructions p" and ?n = "length (xp_instructions p)"
  obtain f where f: "\<And>i. i \<in> set ?is \<Longrightarrow> xi_dict i = PDict (f i)
      \<and> item_arguments (f i) = Inr (map PInt (xi_arguments i))
      \<and> xi_from_payload (f i, map PInt (xi_arguments i)) = Inr i"
    using xi_roundtrip [OF valid_program(4) [OF assms]] by metis
  let ?g = "\<lambda>i. map PInt (xi_arguments i)"
  have dicts: "map_r item_dict (map xi_dict ?is) = Inr (map f ?is)"
    unfolding map_r_map by (rule map_r_total) (simp add: f item_dict_def)
  have arguments: "map_r item_arguments (map f ?is) = Inr (map ?g ?is)"
    unfolding map_r_map by (rule map_r_total) (simp add: f)
  let ?read = "\<lambda>item. bind_r (xi_from_payload item) (\<lambda>i. bind_r (xi_validate (xp_slots p) ?n i) (\<lambda>_. Inr i))"
  have "map_r ?read (map (\<lambda>i. (f i, ?g i)) ?is) = Inr (map (\<lambda>i. i) ?is)"
    unfolding map_r_map by (rule map_r_total) (simp add: f valid_program(4) [OF assms])
  moreover have "zip (map f ?is) (map ?g ?is) = map (\<lambda>i. (f i, ?g i)) ?is"
    by (simp add: zip_map_map zip_same_conv_map)
  moreover have "xp_schema p \<in> set [LEGACY_EXECUTIVE_PROGRAM_SCHEMA, EXECUTIVE_PROGRAM_SCHEMA]"
    using valid_program(3) [OF assms] by simp
  ultimately have "xp_from_items (PStr (xp_schema p)) (PInt (xp_slots p)) (zip (map f ?is) (map ?g ?is)) = Inr p"
    using valid_program(1,2) [OF assms] assms by (cases p) (simp add: xp_from_items_def)
  then show ?thesis using dicts arguments by blast
qed

lemma xa_content_total:
  assumes "xa_validate T Q a = Inr a"
  shows "\<exists>specs. map_r ox_payload (xa_specs a) = Inr specs \<and> map_r ox_from_payload specs = Inr (xa_specs a)"
proof -
  have "\<exists>v. ox_payload s = Inr v \<and> ox_from_payload v = Inr s" if "s \<in> set (xa_specs a)" for s
    using ox_roundtrip assms that by (simp add: xa_validate_iff)
  then obtain f where f: "\<And>s. s \<in> set (xa_specs a) \<Longrightarrow> ox_payload s = Inr (f s) \<and> ox_from_payload (f s) = Inr s"
    by metis
  have "map_r ox_payload (xa_specs a) = Inr (map f (xa_specs a))" using f by (intro map_r_total) simp
  moreover have "map_r ox_from_payload (map f (xa_specs a)) = Inr (map (\<lambda>s. s) (xa_specs a))"
    unfolding map_r_map by (rule map_r_total) (simp add: f)
  ultimately show ?thesis by auto
qed

lemma xa_digest_total: "xa_validate T Q a = Inr a \<Longrightarrow> \<exists>d. xa_digest T Q a = Inr d"
  using xa_content_total by (fastforce simp: xa_digest_def xa_digest_with_def xa_content_with_def)

lemma xa_roundtrip:
  assumes "xa_validate T Q a = Inr a"
  shows "\<exists>v. xa_payload T Q a = Inr v \<and> xa_from_payload T Q v = Inr a"
proof -
  let ?p = "xa_program a"
  have valid: "xp_validate ?p = Inr ?p" and schema: "xa_schema a = EXECUTIVE_PROGRAM_ARTIFACT_SCHEMA"
    using assms by (simp_all add: xa_validate_iff)
  obtain specs where specs: "map_r ox_payload (xa_specs a) = Inr specs" "map_r ox_from_payload specs = Inr (xa_specs a)"
    using xa_content_total [OF assms] by blast
  obtain d where d: "xa_digest_with T Q (PInt (xp_slots ?p)) (PInt (xa_width a)) a = Inr d"
    using xa_digest_total [OF assms] by (auto simp: xa_digest_def)
  obtain dicts arguments where items: "map_r item_dict (map xi_dict (xp_instructions ?p)) = Inr dicts"
      "map_r item_arguments dicts = Inr arguments"
      "xp_from_items (PStr (xp_schema ?p)) (PInt (xp_slots ?p)) (zip dicts arguments) = Inr ?p"
    using program_roundtrip [OF valid] by blast
  have a: "\<lparr>xa_program = ?p, xa_specs = xa_specs a, xa_width = xa_width a,
      xa_schema = EXECUTIVE_PROGRAM_ARTIFACT_SCHEMA\<rparr> = a"
    using schema by simp
  show ?thesis
    unfolding xa_payload_def xa_content_def xa_content_with_def xa_digest_def specs(1) d bind_r_Inr pyval.case
      xa_from_payload_def
    by (intro exI conjI, rule refl)
       (simp only: pyval.case prod.case bind_r_Inr xa_payload_keys program_keys schema simp_thms if_False if_True
          items specs(2) py_number.simps Let_def a assms d)
qed

section \<open>The temporal equality artifact\<close>

text \<open>
  \<open>build_temporal_equality_executive_artifact\<close>: receive the event, expose it as a value, fetch the value of
  \<open>delay\<close> calls ago, compare the two, and emit an intention for a definite answer or wait otherwise.
\<close>

definition instr :: "xop \<Rightarrow> xinstruction" where
  "instr op = \<lparr>xi_op = op, xi_source = None, xi_destination = None, xi_handle = None, xi_arguments = [],
     xi_true = None, xi_false = None, xi_unknown = None, xi_next = None\<rparr>"

definition call_instr :: "int \<Rightarrow> int \<Rightarrow> int list \<Rightarrow> xinstruction" where
  "call_instr destination handle arguments =
     (instr Call)\<lparr>xi_destination := Some destination, xi_handle := Some handle, xi_arguments := arguments\<rparr>"

definition spec_of :: "int \<Rightarrow> operator_kind \<Rightarrow> int option \<Rightarrow> int option \<Rightarrow> operator_spec" where
  "spec_of handle kind width delay = \<lparr>ox_handle = handle, ox_kind = kind, ox_width = width, ox_delay = delay,
     ox_schema = EXECUTIVE_OPERATOR_SPEC_SCHEMA\<rparr>"

definition temporal_equality_program :: xprogram where
  "temporal_equality_program = \<lparr>xp_slots = 5, xp_instructions =
     [(instr Receive)\<lparr>xi_destination := Some 0\<rparr>,
      call_instr 1 1 [0], call_instr 2 2 [1], call_instr 3 3 [1, 2],
      (instr Branch)\<lparr>xi_source := Some 3, xi_true := Some 5, xi_false := Some 5, xi_unknown := Some 7\<rparr>,
      call_instr 4 4 [3],
      (instr Emit)\<lparr>xi_source := Some 4, xi_next := Some 0\<rparr>,
      (instr Wait)\<lparr>xi_next := Some 0\<rparr>, instr Halt],
     xp_schema = EXECUTIVE_PROGRAM_SCHEMA\<rparr>"

definition temporal_equality_artifact :: "int \<Rightarrow> int \<Rightarrow> xartifact" where
  "temporal_equality_artifact event_width delay =
     \<lparr>xa_program = temporal_equality_program,
      xa_specs = [spec_of 1 SingletonEventValue (Some event_width) None,
                  spec_of 2 ValueDelay (Some event_width) (Some delay),
                  spec_of 3 ValueEqualityEvidence None None, spec_of 4 EvidenceBinaryIntention None None],
      xa_width = 2, xa_schema = EXECUTIVE_PROGRAM_ARTIFACT_SCHEMA\<rparr>"

definition build_temporal_equality_executive_artifact ::
    "'t tensor_lib \<Rightarrow> 't operator_torch \<Rightarrow> int \<Rightarrow> int \<Rightarrow> xartifact result" where
  "build_temporal_equality_executive_artifact T Q event_width delay =
     xa_validate T Q (temporal_equality_artifact event_width delay)"

lemma temporal_equality_program_valid: "xp_validate temporal_equality_program = Inr temporal_equality_program"
  by (simp add: temporal_equality_program_def xp_validate_def instr_def call_instr_def xi_validate_def
      xi_operands_ok_def opt_in_range_def in_range_def)

lemma temporal_equality_valid:
  assumes "1 \<le> event_width" and "1 \<le> delay"
  shows "build_temporal_equality_executive_artifact T Q event_width delay =
    Inr (temporal_equality_artifact event_width delay)"
proof -
  have "calls_bound (temporal_equality_artifact event_width delay)"
    by (simp add: calls_bound_def temporal_equality_artifact_def temporal_equality_program_def instr_def
        call_instr_def spec_of_def)
  then show ?thesis
    using assms temporal_equality_program_valid
    by (simp add: build_temporal_equality_executive_artifact_def xa_validate_iff temporal_equality_artifact_def
        ox_validate_def spec_of_def operator_kinds_def positive_option_def)
qed

section \<open>Properties\<close>

lemma instantiates:
  assumes "xa_validate T Q a = Inr a" and "1 \<le> m"
  shows "\<exists>E. xa_instantiate T Q a m token = Inr E \<and> exec_ok E \<and> xe_program E = xa_program a
    \<and> (\<forall>i\<in>set (xp_instructions (xe_program E)). xi_op i = Call \<longrightarrow>
         (\<exists>h p. xi_handle i = Some h \<and> xr_operator (xe_operators E) h = Inr p
            \<and> (\<exists>s\<in>set (xa_specs a). ox_handle s = h \<and> ox_build T Q s = Inr p)))"
proof -
  obtain r where r: "xa_registry_of T Q (xa_specs a) = Inr r" using xa_registry_total [OF assms(1)] by blast
  have valid: "xp_validate (xa_program a) = Inr (xa_program a)" "1 \<le> xa_width a" "calls_bound a"
    using assms(1) by (simp_all add: xa_validate_iff)
  let ?E = "\<lparr>xe_program = xa_program a, xe_operators = r, xe_intention_width = xa_width a, xe_max = m,
      xe_token = token\<rparr>"
  have run: "xa_instantiate T Q a m token = Inr ?E"
    using valid assms by (simp add: xa_instantiate_def xa_registry_def r xe_init_def)
  obtain ps where "xr_init ps = Inr r" using r by (auto simp: xa_registry_of_def bind_r_eq_Inr)
  then have ok: "exec_ok ?E" using xe_init_ok [of ps r "xa_program a" "xa_width a" m token ?E] valid assms(2)
    by (simp add: xe_init_def)
  have "\<exists>p. xr_operator r h = Inr p" if "h \<in> set (map ox_handle (xa_specs a))" for h
  proof -
    have "\<exists>k\<in>set (xa_specs a). ox_handle k = h" using that by auto
    obtain qs where qs: "xr_operators r = map (\<lambda>p. (op_handle p, p)) qs" "map op_handle qs = map ox_handle (xa_specs a)"
      using registry_of_spec [OF r] by blast
    have "h \<in> fst ` set (xr_operators r)" using that unfolding qs(2) [symmetric] by (force simp: qs(1))
    then have "map_of (xr_operators r) h \<noteq> None" by (simp add: map_of_eq_None_iff)
    then show ?thesis by (auto simp: xr_operator_def)
  qed
  then have "\<forall>i\<in>set (xp_instructions (xa_program a)). xi_op i = Call \<longrightarrow>
      (\<exists>h p. xi_handle i = Some h \<and> xr_operator r h = Inr p
         \<and> (\<exists>s\<in>set (xa_specs a). ox_handle s = h \<and> ox_build T Q s = Inr p))"
    using valid(3) registry_of_lookup(1) [OF r] unfolding calls_bound_def by blast
  then show ?thesis using run ok by auto
qed

text \<open>
  C10. A valid artifact runs.  \<open>instantiate\<close> never fails on an artifact that passes its validator: it gives an
  executive that satisfies every precondition of the tick's properties, and every CALL of its program
  resolves to the operator that an allow-listed spec of the artifact builds.
\<close>

theorem artifact_instantiates:
  assumes "xa_validate T Q a = Inr a" and "1 \<le> m"
  shows "\<exists>E. xa_instantiate T Q a m token = Inr E \<and> exec_ok E \<and> xe_program E = xa_program a
    \<and> (\<forall>i\<in>set (xp_instructions (xe_program E)). xi_op i = Call \<longrightarrow>
         (\<exists>h p. xi_handle i = Some h \<and> xr_operator (xe_operators E) h = Inr p
            \<and> (\<exists>s\<in>set (xa_specs a). ox_handle s = h \<and> ox_build T Q s = Inr p)))"
  by (rule instantiates [OF assms])

theorem artifact_instantiates_witness:
  "\<exists>E. xa_instantiate column_torch column_ops (temporal_equality_artifact 3 2) 128 7 = Inr E \<and> exec_ok E"
proof -
  have "xa_validate column_torch column_ops (temporal_equality_artifact 3 2) = Inr (temporal_equality_artifact 3 2)"
    using temporal_equality_valid [of 3 2] by (simp add: build_temporal_equality_executive_artifact_def)
  from artifact_instantiates [OF this, of 128 7] show ?thesis by auto
qed

lemma loaded_artifact:
  assumes "xa_from_payload T Q v = Inr a"
  shows "xa_validate T Q a = Inr a \<and> (\<exists>kvs pkvs d. v = PDict kvs \<and> dict_get kvs ''program'' = PDict pkvs
    \<and> dict_get kvs ''sha256'' = PStr d
    \<and> xa_digest_with T Q (dict_get pkvs ''slot_count'') (dict_get kvs ''intention_width'') a = Inr d)"
proof -
  obtain kvs where v: "v = PDict kvs" using assms by (cases v) (simp_all add: xa_from_payload_def)
  obtain pkvs where p: "dict_get kvs ''program'' = PDict pkvs"
    using assms unfolding v xa_from_payload_def pyval.case
    by (cases "dict_get kvs ''program''") (simp_all split: if_splits)
  obtain specs items where s: "dict_get kvs ''operator_specs'' = PList specs"
      "dict_get pkvs ''instructions'' = PList items"
    using assms unfolding v xa_from_payload_def pyval.case p prod.case
    by (cases "dict_get kvs ''operator_specs''"; cases "dict_get pkvs ''instructions''") (simp_all split: if_splits)
  show ?thesis
    using assms unfolding v xa_from_payload_def pyval.case p s prod.case Let_def
    by (auto simp del: dict_get.simps simp add: bind_r_eq_Inr p xa_validate_iff split: if_splits)
qed

text \<open>
  C16. Reading back an artifact.  A valid artifact has a digest and a payload, and the payload reads back as
  the same artifact; whatever payload is accepted gives a valid artifact and carries the checksum of its
  own contents.
\<close>

theorem artifact_payload_roundtrip:
  "(xa_validate T Q a = Inr a \<longrightarrow> (\<exists>v. xa_payload T Q a = Inr v \<and> xa_from_payload T Q v = Inr a))
   \<and> (xa_from_payload T Q v = Inr b \<longrightarrow> xa_validate T Q b = Inr b
      \<and> (\<exists>kvs pkvs d. v = PDict kvs \<and> dict_get kvs ''program'' = PDict pkvs \<and> dict_get kvs ''sha256'' = PStr d
        \<and> xa_digest_with T Q (dict_get pkvs ''slot_count'') (dict_get kvs ''intention_width'') b = Inr d))"
  using xa_roundtrip loaded_artifact by blast

theorem artifact_payload_roundtrip_witness:
  "\<exists>v. xa_payload column_torch column_ops (temporal_equality_artifact 3 2) = Inr v
     \<and> xa_from_payload column_torch column_ops v = Inr (temporal_equality_artifact 3 2)"
proof -
  have "xa_validate column_torch column_ops (temporal_equality_artifact 3 2) = Inr (temporal_equality_artifact 3 2)"
    using temporal_equality_valid [of 3 2] by (simp add: build_temporal_equality_executive_artifact_def)
  then show ?thesis by (rule mp [OF conjunct1 [OF artifact_payload_roundtrip]])
qed

end
