(* ===== verification/ExecutiveTick.thy ===== *)
theory ExecutiveTick
  imports ExecutiveRun
begin

text \<open>
  The properties of \<open>ExternalAmodalExecutive\<close>, and a small machine on plain tensors (shape, data type,
  elements) at which their hypotheses are discharged.
\<close>

section \<open>A machine that emits\<close>

type_synonym plain_tensor = "int list \<times> string \<times> pyfloat list"

definition float32 :: string where
  "float32 = ''torch.float32''"

definition plain_rows :: "plain_tensor \<Rightarrow> pyfloat list list" where
  "plain_rows x =
     (case x of (n # w # _, _, xs) \<Rightarrow> map (\<lambda>i. take (nat w) (drop (i * nat w) xs)) [0..<nat n] | _ \<Rightarrow> [])"

definition plain_tensors :: "plain_tensor tensor_lib" where
  "plain_tensors =
     \<lparr>tl_shape = fst, tl_dtype = fst \<circ> snd, tl_device = (\<lambda>_. ''cpu''),
      tl_floating = (\<lambda>x. fst (snd x) = float32), tl_finite = (\<lambda>x. list_all isfinite (snd (snd x))),
      tl_negative = (\<lambda>x. list_ex (\<lambda>v. v < Fin 0) (snd (snd x))),
      tl_any = (\<lambda>x. list_ex (\<lambda>v. v \<noteq> Fin 0) (snd (snd x))),
      tl_all = (\<lambda>x. list_all (\<lambda>v. v \<noteq> Fin 0) (snd (snd x))), tl_equal = (=),
      tl_any_rows = (\<lambda>x. (take 1 (fst x), fst (snd x),
        map (\<lambda>row. if list_ex (\<lambda>v. v \<noteq> Fin 0) row then Fin 1 else Fin 0) (plain_rows x))),
      tl_amax_rows = (\<lambda>x. (take 1 (fst x), fst (snd x),
        map (\<lambda>row. Fin (Max (set (map fin_val row)))) (plain_rows x))),
      tl_where_zero = (\<lambda>m x. (fst x, fst (snd x),
        map2 (\<lambda>b v. if b \<noteq> Fin 0 then v else Fin 0) (snd (snd m)) (snd (snd x)))),
      tl_clone = (\<lambda>x. x),
      tl_zeros = (\<lambda>shape dtype device. (shape, dtype, replicate (nat (prod_list shape)) (Fin 0))),
      tl_ones = (\<lambda>shape dtype device. (shape, dtype, replicate (nat (prod_list shape)) (Fin 1))),
      tl_bool_at = (\<lambda>x i. snd (snd x) ! i \<noteq> Fin 0),
      tl_float_at = (\<lambda>x i j. plain_rows x ! i ! j)\<rparr>"

definition blank_instruction :: "xop \<Rightarrow> xinstruction" where
  "blank_instruction op = \<lparr>xi_op = op, xi_source = None, xi_destination = None, xi_handle = None,
     xi_arguments = [], xi_true = None, xi_false = None, xi_unknown = None, xi_next = None\<rparr>"

definition small_program :: xprogram where
  "small_program = \<lparr>xp_slots = 1,
     xp_instructions = [(blank_instruction Emit)\<lparr>xi_source := Some 0, xi_next := Some 0\<rparr>,
                        blank_instruction Halt],
     xp_schema = EXECUTIVE_PROGRAM_SCHEMA\<rparr>"

definition small_executive :: "plain_tensor executive" where
  "small_executive = \<lparr>xe_program = small_program,
     xe_operators = \<lparr>xr_operators = [], xr_handles = [], xr_digest = digest_payload (PList [])\<rparr>,
     xe_intention_width = 2, xe_max = 4, xe_token = 7\<rparr>"

definition small_value :: "plain_tensor workspace_value" where
  "small_value = \<lparr>wv_kind = KIntention, wv_payload = TensorPayload ([1, 2], float32, [Fin 3, Fin 5]),
     wv_present = ([1], torch_bool, [Fin 1]), wv_confidence = ([1], float32, [Fin 1])\<rparr>"

definition small_state :: "plain_tensor xstate" where
  "small_state = \<lparr>xs_workspace = [small_value], xs_accumulator = small_value, xs_pointer = 0,
     xs_status = Ready, xs_batch = 1, xs_operators = [], xs_registry = digest_payload (PList []),
     xs_ticks = 0, xs_executed = 0, xs_schema = EXECUTIVE_STATE_SCHEMA\<rparr>"

definition quiet_events :: "plain_tensor event_collection" where
  "quiet_events = \<lparr>ec_payload = ([1, 0, 2], float32, []), ec_present = ([1, 0], torch_bool, []),
     ec_confidence = ([1, 0], float32, []), ec_source_key = None, ec_timestamp = None,
     ec_timestamp_present = None, ec_duration = None, ec_duration_present = None,
     ec_schema = EVENT_SCHEMA\<rparr>"

lemma float32_not_bool: "float32 \<noteq> torch_bool"
  by (simp add: float32_def torch_bool_def)

lemma plain_clone: "clone_law plain_tensors"
  by (simp add: clone_law_def plain_tensors_def)

lemma small_exec_ok: "exec_ok small_executive"
  by (simp add: exec_ok_def registry_ok_def small_executive_def small_program_def xp_validate_def
      xi_validate_def xi_operands_ok_def blank_instruction_def opt_in_range_def in_range_def)

lemma small_value_ok: "wv_ok plain_tensors 1 small_value"
  by (simp add: wv_ok_def wv_validate_def small_value_def plain_tensors_def tl_ndim_def float32_not_bool)

lemma small_state_ok: "state_ok plain_tensors small_executive small_state"
  using small_value_ok
  by (simp add: state_ok_def xe_check_state_iff small_state_def small_executive_def small_program_def
      known_status_def ops_ok_def in_range_def)

lemma quiet_events_ok: "ec_validate plain_tensors quiet_events None = Inr quiet_events"
  by (simp add: ec_validate_def quiet_events_def plain_tensors_def validate_finite_def opt_holds_def
      metadata_ok_def)

definition small_intent :: "plain_tensor intent_event" where
  "small_intent = \<lparr>ie_payload = ([1, 2], float32, [Fin 3, Fin 5]), ie_timestamp = None,
     ie_confidence = Some ([1], float32, [Fin 1]), ie_target_key = None, ie_schema = INTENTION_SCHEMA\<rparr>"

lemma small_step:
  "xe_step plain_tensors small_executive quiet_events trusted 1 (regs_of small_state) =
     Inr (Yield Emitted (Some small_intent) (regs_of small_state))"
proof -
  have "emit_intention plain_tensors small_executive small_value = Inr small_intent"
    by (simp add: emit_intention_def small_value_def small_executive_def plain_tensors_def
        ie_validate_def small_intent_def validate_finite_def validate_batch_def tl_ndim_def)
  then show ?thesis
    by (simp add: xe_step_def Let_def small_executive_def small_program_def regs_of_def small_state_def
        in_range_def blank_instruction_def the_int_def slot_at_def py_index_def next_pointer_def)
qed

lemma small_tick:
  "xe_tick plain_tensors small_executive quiet_events small_state =
     Inr (mk_tick small_executive (Some small_intent) Emitted 1,
          next_state small_executive small_state Emitted (regs_of small_state) 1)"
proof -
  have four: "(4::nat) = Suc 3" by simp
  have "xe_loop plain_tensors small_executive quiet_events True 1 4 0 (regs_of small_state) =
      Inr (Emitted, Some small_intent, regs_of small_state, 1)"
    unfolding four xe_loop.simps small_step by simp
  moreover have "xs_batch small_state = 1" "xs_status small_state = Ready"
      "xe_max small_executive = 4" "hd (tl_shape plain_tensors (ec_payload quiet_events)) = 1"
    by (simp_all add: small_executive_def small_state_def plain_tensors_def quiet_events_def)
  ultimately show ?thesis
    unfolding xe_tick_def xe_tick_with_eq [OF plain_clone small_exec_ok small_state_ok] tick_guarded_def
    by (simp add: quiet_events_ok tick_end_def)
qed

section \<open>The three ends of a tick\<close>

lemma tick_run_cases:
  assumes "clone_law T" and "exec_ok E" and "state_ok T E s" and "ec_validate T events None = Inr events"
    and "hd (tl_shape T (ec_payload events)) = xs_batch s" and "xs_status s \<notin> {Halted, Exhausted}"
  shows "(\<exists>n rg st intent rg'. n < nat (xe_max E) \<and> xrun T E events (xs_batch s) n (regs_of s) rg
            \<and> xe_step T E events False (xs_batch s) rg = Inr (Yield st intent rg')
            \<and> xe_tick T E events s = Inr (mk_tick E intent st (int n + 1), next_state E s st rg' (int n + 1)))
       \<or> (\<exists>rg. xrun T E events (xs_batch s) (nat (xe_max E)) (regs_of s) rg
            \<and> xe_tick T E events s = Inr (mk_tick E None Exhausted (xe_max E), next_state E s Exhausted rg (xe_max E)))
       \<or> (\<exists>n rg e. n < nat (xe_max E) \<and> xrun T E events (xs_batch s) n (regs_of s) rg
            \<and> xe_step T E events False (xs_batch s) rg = Inl e \<and> xe_tick T E events s = Inl e)"
proof -
  have m: "1 \<le> xe_max E" using assms(2) by (simp add: exec_ok_def)
  have batch: "0 < xs_batch s" using assms(3) by (simp add: state_ok_def xe_check_state_iff)
  note same = xe_loop_trusted [OF assms(1,2) state_ok_regs [OF assms(3)] assms(5) batch, of False, symmetric]
  have tick: "xe_tick T E events s = bind_r
      (xe_loop T E events False (xs_batch s) (nat (xe_max E)) 0 (regs_of s)) (\<lambda>r. Inr (tick_end E s r))"
    using assms(6) unfolding xe_tick_def xe_tick_with_eq [OF assms(1-3)] tick_guarded_def
    by (simp add: assms(4,5) same)
  show ?thesis
  proof (rule xe_loop_cases [of T E events "xs_batch s" "nat (xe_max E)" "regs_of s" 0])
    fix rg assume run: "xrun T E events (xs_batch s) (nat (xe_max E)) (regs_of s) rg"
      and loop: "xe_loop T E events False (xs_batch s) (nat (xe_max E)) 0 (regs_of s) =
        Inr (Ready, None, rg, 0 + int (nat (xe_max E)))"
    have "xe_tick T E events s = Inr (mk_tick E None Exhausted (xe_max E), next_state E s Exhausted rg (xe_max E))"
      using m by (simp add: tick loop tick_end_def)
    then show ?thesis using run by blast
  next
    fix n rg st intent rg'
    assume n: "n < nat (xe_max E)" and run: "xrun T E events (xs_batch s) n (regs_of s) rg"
      and step: "xe_step T E events False (xs_batch s) rg = Inr (Yield st intent rg')"
      and loop: "xe_loop T E events False (xs_batch s) (nat (xe_max E)) 0 (regs_of s) =
        Inr (st, intent, rg', 0 + int n + 1)"
    have "st \<noteq> Ready"
      using step by (auto simp: xe_step_def Let_def bind_r_eq_Inr split: if_splits xop.splits)
    then have "xe_tick T E events s = Inr (mk_tick E intent st (int n + 1), next_state E s st rg' (int n + 1))"
      by (simp add: tick loop tick_end_def)
    then show ?thesis using n run step by blast
  next
    fix n rg e
    assume n: "n < nat (xe_max E)" and run: "xrun T E events (xs_batch s) n (regs_of s) rg"
      and step: "xe_step T E events False (xs_batch s) rg = Inl e"
      and loop: "xe_loop T E events False (xs_batch s) (nat (xe_max E)) 0 (regs_of s) = Inl e"
    then show ?thesis by (auto simp: tick)
  qed
qed

section \<open>Properties\<close>



text \<open>
  C5. A session keeps the state well typed.  Whatever events arrive, after every sequence of ticks that
  returns, the state passes the validators, its pointer lies in the program, the counters are those of
  the ticks made, no tick ran more than the allowed instructions, and a tick carries an intention, valid
  and of the declared width, exactly when its status is \<open>emitted\<close>.  A halted state never changes again and an
  exhausted one accepts no tick.
\<close>

theorem executive_session_typed:
  assumes "clone_law T" and "exec_ok E" and "state_ok T E s"
    and "xe_session (\<lambda>s e. xe_tick T E e s) s es = Inr (outs, s')"
  shows "state_ok T E s' \<and> length outs = length es
    \<and> xs_executed s' = xs_executed s + sum_list (map xt_executed outs)
    \<and> (\<forall>out\<in>set outs. 0 \<le> xt_executed out \<and> xt_executed out \<le> xe_max E
         \<and> intent_ok T E (xt_status out) (xt_intention out))
    \<and> (xs_status s = Halted \<longrightarrow> s' = s) \<and> (xs_status s' \<noteq> Halted \<longrightarrow> xs_ticks s' = xs_ticks s + int (length es))
    \<and> (xs_status s = Exhausted \<longrightarrow> es = [])"
  by (rule session_invariant [OF assms])

theorem executive_session_typed_witness:
  "\<exists>outs s'. xe_session (\<lambda>s e. xe_tick plain_tensors small_executive e s) small_state [quiet_events] = Inr (outs, s')
     \<and> state_ok plain_tensors small_executive s' \<and> xs_executed s' = sum_list (map xt_executed outs)"
proof -
  have run: "xe_session (\<lambda>s e. xe_tick plain_tensors small_executive e s) small_state [quiet_events] =
      Inr ([mk_tick small_executive (Some small_intent) Emitted 1],
           next_state small_executive small_state Emitted (regs_of small_state) 1)"
    by (simp add: small_tick)
  show ?thesis
    using executive_session_typed [OF plain_clone small_exec_ok small_state_ok run] run
    by (simp add: small_state_def)
qed

text \<open>
  C6. A tick is the run of single instructions up to the first that yields.  Exactly one of three things
  happens: an instruction yields within the budget and the tick reports it, with the state as that
  instruction left it; none of the first \<open>max_instructions_per_tick\<close> yields and the state is exhausted; or an
  instruction raises first, and the tick raises the same.
\<close>

theorem executive_tick_is_run:
  assumes "clone_law T" and "exec_ok E" and "state_ok T E s" and "ec_validate T events None = Inr events"
    and "hd (tl_shape T (ec_payload events)) = xs_batch s" and "xs_status s \<notin> {Halted, Exhausted}"
  shows "(\<exists>n rg st intent rg'. n < nat (xe_max E) \<and> xrun T E events (xs_batch s) n (regs_of s) rg
            \<and> xe_step T E events False (xs_batch s) rg = Inr (Yield st intent rg')
            \<and> xe_tick T E events s = Inr (mk_tick E intent st (int n + 1), next_state E s st rg' (int n + 1)))
       \<or> (\<exists>rg. xrun T E events (xs_batch s) (nat (xe_max E)) (regs_of s) rg
            \<and> xe_tick T E events s = Inr (mk_tick E None Exhausted (xe_max E), next_state E s Exhausted rg (xe_max E)))
       \<or> (\<exists>n rg e. n < nat (xe_max E) \<and> xrun T E events (xs_batch s) n (regs_of s) rg
            \<and> xe_step T E events False (xs_batch s) rg = Inl e \<and> xe_tick T E events s = Inl e)"
  by (rule tick_run_cases [OF assms])

theorem executive_tick_is_run_witness:
  "\<exists>rg intent rg'. xrun plain_tensors small_executive quiet_events 1 0 (regs_of small_state) rg
     \<and> xe_step plain_tensors small_executive quiet_events False 1 rg = Inr (Yield Emitted intent rg')"
proof -
  have b: "xs_batch small_state = 1" "xs_status small_state = Ready"
      "hd (tl_shape plain_tensors (ec_payload quiet_events)) = 1"
    by (simp_all add: small_state_def plain_tensors_def quiet_events_def)
  note cases = executive_tick_is_run [OF plain_clone small_exec_ok small_state_ok quiet_events_ok,
      unfolded b, simplified]
  show ?thesis
  proof (rule disjE [OF cases], goal_cases)
    case 1
    then obtain n rg st intent rg' where n: "xrun plain_tensors small_executive quiet_events 1 n (regs_of small_state) rg"
        "xe_step plain_tensors small_executive quiet_events False 1 rg = Inr (Yield st intent rg')"
        "mk_tick small_executive (Some small_intent) Emitted 1 = mk_tick small_executive intent st (int n + 1)"
      by (auto simp: small_tick)
    then have "n = 0" "st = Emitted" by (simp_all add: mk_tick_def)
    then show ?thesis using n(1,2) by blast
  next
    case 2
    then show ?thesis by (auto simp: small_tick mk_tick_def)
  qed
qed

text \<open>
  C7. What a tick may raise.  From a well-typed state a tick raises one of the executive's own errors
  (\<open>ValueError\<close>, \<open>TypeError\<close>, \<open>RuntimeError\<close>, \<open>LookupError\<close>) or an error an operator of its registry raised: no
  failed assertion, index or key of the interpreter itself.
\<close>

theorem executive_errors:
  assumes "clone_law T" and "exec_ok E" and "state_ok T E s" and "xe_tick T E events s = Inl e"
  shows "e \<in> own_errors \<or> operator_raises (xe_operators E) e"
  using tick_guarded_errors [OF assms(1-3)] assms(4)
  by (simp add: xe_tick_def xe_tick_with_eq [OF assms(1-3)])

theorem executive_errors_witness:
  "xe_tick plain_tensors small_executive quiet_events (small_state\<lparr>xs_status := Exhausted\<rparr>) = Inl RuntimeError
     \<and> (RuntimeError \<in> own_errors \<or> operator_raises (xe_operators small_executive) RuntimeError)"
proof -
  let ?s = "small_state\<lparr>xs_status := Exhausted\<rparr>"
  have ok: "state_ok plain_tensors small_executive ?s"
    using small_state_ok by (auto simp: state_ok_def xe_check_state_iff known_status_def)
  have "xs_batch ?s = 1" "hd (tl_shape plain_tensors (ec_payload quiet_events)) = 1"
    by (simp_all add: small_state_def plain_tensors_def quiet_events_def)
  then have "xe_tick plain_tensors small_executive quiet_events ?s = Inl RuntimeError"
    unfolding xe_tick_def xe_tick_with_eq [OF plain_clone small_exec_ok ok] tick_guarded_def
    by (simp add: quiet_events_ok)
  then show ?thesis using executive_errors [OF plain_clone small_exec_ok ok] by blast
qed

end
