(* ===== verification/ExecutiveHandoff.thy ===== *)
theory ExecutiveHandoff
  imports ExecutiveArtifact ExecutiveTick
begin

text \<open>
  \<open>executive_artifact_can_handoff\<close> of \<open>executive_bank.py\<close>: does some control-flow path lead from the first
  instruction to the terminal HALT?  The worklist search is proved to return, and its answer to be exact
  for the control-flow graph; the graph in turn covers every step the executive can make, so a program
  without such a path never gets there.
\<close>

section \<open>The search\<close>

text \<open>
  The successors pushed for one instruction, in the order of the code.  \<open>pending\<close> is kept with its end
  first, since the code pops from the end.
\<close>

definition handoff_targets :: "xinstruction \<Rightarrow> int \<Rightarrow> int list result" where
  "handoff_targets i p =
     (case xi_op i of
        Branch \<Rightarrow> bind_r (int_target (xi_true i)) (\<lambda>t. bind_r (int_target (xi_false i)) (\<lambda>f.
          bind_r (int_target (xi_unknown i)) (\<lambda>u. Inr [t, f, u])))
      | Wait \<Rightarrow> Inr [next_pointer i p]
      | Emit \<Rightarrow> Inr [next_pointer i p]
      | Handoff \<Rightarrow> Inr [next_pointer i p]
      | Halt \<Rightarrow> Inr []
      | _ \<Rightarrow> Inr [p + 1])"

function handoff_loop :: "xinstruction list \<Rightarrow> int list \<Rightarrow> int list \<Rightarrow> bool result" where
  "handoff_loop is [] reachable = Inr False"
| "handoff_loop is (p # pending) reachable =
     (if p \<in> set reachable then handoff_loop is pending reachable
      else if p = int (length is) - 1 then Inr True
      else case slot_at is p of
        Inl e \<Rightarrow> Inl e
      | Inr i \<Rightarrow> (case handoff_targets i p of
          Inl e \<Rightarrow> Inl e
        | Inr ts \<Rightarrow> handoff_loop is (rev ts @ pending) (p # reachable)))"
  by pat_completeness auto

text \<open>Every instruction that is expanded is a new index of the list, counted from either end.\<close>

definition open_indices :: "xinstruction list \<Rightarrow> int list \<Rightarrow> int set" where
  "open_indices is reachable = {- int (length is)..<int (length is)} - set reachable"

lemma finite_open_indices [simp]: "finite (open_indices is reachable)"
  by (simp add: open_indices_def)

termination handoff_loop
proof (relation "measures [\<lambda>(is, pending, reachable). card (open_indices is reachable),
    \<lambda>(is, pending, reachable). length pending]")
  fix "is" :: "xinstruction list" and p pending reachable i ts
  assume p: "p \<notin> set reachable" and i: "slot_at is p = Inr i"
  have "p \<in> open_indices is reachable"
    using p i by (auto simp: open_indices_def slot_at_def py_index_def bind_r_eq_Inr in_range_def split: if_splits)
  moreover have "open_indices is (p # reachable) = open_indices is reachable - {p}"
    by (auto simp: open_indices_def)
  ultimately have "card (open_indices is (p # reachable)) < card (open_indices is reachable)"
    by (simp add: card_Diff1_less del: card_Diff_insert)
  then show "((is, rev ts @ pending, p # reachable), (is, p # pending, reachable))
      \<in> measures [\<lambda>(is, pending, reachable). card (open_indices is reachable),
          \<lambda>(is, pending, reachable). length pending]"
    by simp
qed simp_all

definition executive_artifact_can_handoff :: "'t tensor_lib \<Rightarrow> 't operator_torch \<Rightarrow> xartifact \<Rightarrow> bool result" where
  "executive_artifact_can_handoff T Q a =
     bind_r (xa_validate T Q a) (\<lambda>a'. handoff_loop (xp_instructions (xa_program a')) [0] [])"

section \<open>The control-flow graph\<close>

definition flow :: "xinstruction list \<Rightarrow> (int \<times> int) set" where
  "flow is = {(p, q). in_range p (length is) \<and> (\<exists>ts. handoff_targets (is ! nat p) p = Inr ts \<and> q \<in> set ts)}"

lemma targets_in_range:
  assumes "xp_validate pr = Inr pr" and "in_range p (length (xp_instructions pr))"
  shows "\<exists>ts. handoff_targets (xp_instructions pr ! nat p) p = Inr ts
    \<and> (\<forall>q\<in>set ts. in_range q (length (xp_instructions pr)))"
proof -
  let ?is = "xp_instructions pr" and ?i = "xp_instructions pr ! nat p"
  have valid: "xi_validate (xp_slots pr) (length ?is) ?i = Inr ()"
    using valid_program(4) [OF assms(1)] in_range_nat [OF assms(2)] by simp
  have pass: "in_range (p + 1) (length ?is)" if "xi_op ?i \<noteq> Halt"
  proof -
    have "nat p \<noteq> length ?is - 1"
      using that valid_program(2,5) [OF assms(1)] by (auto simp: last_conv_nth)
    with assms(2) show ?thesis by (auto simp: in_range_def)
  qed
  have succ: "in_range (next_pointer ?i p) (length ?is)" if "xi_op ?i \<in> {Wait, Emit, Handoff}"
  proof (cases "xi_next ?i")
    case None
    then show ?thesis using pass that by (auto simp: next_pointer_def)
  next
    case (Some t)
    then show ?thesis using valid by (auto simp: next_pointer_def xi_validate_def opt_in_range_def split: if_splits)
  qed
  have ops: "xi_operands_ok ?i (length ?is)" "\<And>s. xi_op ?i \<noteq> OtherOp s" using operands_ok [OF valid] by blast+
  show ?thesis
  proof (cases "xi_op ?i")
    case Branch
    then show ?thesis using ops(1)
      by (auto simp: handoff_targets_def xi_operands_ok_def opt_in_range_def int_target_def split: option.splits)
  qed (use pass succ ops in \<open>auto simp: handoff_targets_def\<close>)
qed

lemma no_flow_from_end:
  assumes "xp_validate pr = Inr pr"
  shows "(int (length (xp_instructions pr)) - 1, q) \<notin> flow (xp_instructions pr)"
proof -
  obtain m where m: "length (xp_instructions pr) = Suc m"
    using valid_program(2) [OF assms] by (cases "xp_instructions pr") auto
  then have "xp_instructions pr \<noteq> []" by auto
  then have "xp_instructions pr ! nat (int (length (xp_instructions pr)) - 1) = last (xp_instructions pr)"
    by (simp add: last_conv_nth m)
  then show ?thesis using valid_program(5) [OF assms] by (simp add: flow_def handoff_targets_def)
qed

text \<open>
  The invariant of the search: what is pending or expanded is reachable, the end is not expanded, and the
  successors of what is expanded are expanded or pending.
\<close>

definition search_inv :: "xinstruction list \<Rightarrow> int list \<Rightarrow> int list \<Rightarrow> bool" where
  "search_inv is pending reachable \<longleftrightarrow>
     (\<forall>p\<in>set pending \<union> set reachable. (0, p) \<in> (flow is)\<^sup>* \<and> in_range p (length is))
     \<and> int (length is) - 1 \<notin> set reachable \<and> 0 \<in> set pending \<union> set reachable
     \<and> (\<forall>p\<in>set reachable. \<forall>q. (p, q) \<in> flow is \<longrightarrow> q \<in> set pending \<union> set reachable)"

lemma closed_reaches:
  assumes "(p, q) \<in> (flow is)\<^sup>*" and "p \<in> R" and "\<And>x y. x \<in> R \<Longrightarrow> (x, y) \<in> flow is \<Longrightarrow> y \<in> R"
  shows "q \<in> R"
  using assms by (induction rule: rtrancl_induct) blast+

lemma handoff_loop_exact:
  assumes "xp_validate pr = Inr pr" and "search_inv (xp_instructions pr) pending reachable"
  shows "handoff_loop (xp_instructions pr) pending reachable =
    Inr ((0, int (length (xp_instructions pr)) - 1) \<in> (flow (xp_instructions pr))\<^sup>*)"
  using assms(2)
proof (induction "xp_instructions pr" pending reachable rule: handoff_loop.induct)
  case (1 reachable)
  let ?is = "xp_instructions pr"
  have "int (length ?is) - 1 \<notin> set reachable" "0 \<in> set reachable"
    "\<And>x y. x \<in> set reachable \<Longrightarrow> (x, y) \<in> flow ?is \<Longrightarrow> y \<in> set reachable"
    using 1 by (auto simp: search_inv_def)
  then have "(0, int (length ?is) - 1) \<notin> (flow ?is)\<^sup>*" using closed_reaches by metis
  then show ?case by simp
next
  case (2 p pending reachable)
  let ?is = "xp_instructions pr"
  note inv = 2(3) [unfolded search_inv_def]
  show ?case
  proof (cases "p \<in> set reachable")
    case True
    then have "search_inv ?is pending reachable" using inv unfolding search_inv_def by auto
    then show ?thesis using 2(1) [OF True] True by simp
  next
    case False
    show ?thesis
    proof (cases "p = int (length ?is) - 1")
      case True
      then show ?thesis using False inv by auto
    next
      case no_end: False
      have p: "in_range p (length ?is)" "(0, p) \<in> (flow ?is)\<^sup>*" using inv by auto
      have slot: "slot_at ?is p = Inr (?is ! nat p)" using slot_at_in_range [OF p(1)] by blast
      obtain ts where ts: "handoff_targets (?is ! nat p) p = Inr ts" "\<forall>q\<in>set ts. in_range q (length ?is)"
        using targets_in_range [OF assms(1) p(1)] by blast
      have out: "(p, q) \<in> flow ?is \<longleftrightarrow> q \<in> set ts" for q using p(1) ts(1) by (simp add: flow_def)
      have "(0, q) \<in> (flow ?is)\<^sup>*" if "q \<in> set ts" for q
        using p(2) that unfolding out [symmetric] by (rule rtrancl_into_rtrancl)
      then have "search_inv ?is (rev ts @ pending) (p # reachable)"
        using inv ts(2) out no_end unfolding search_inv_def by auto
      then show ?thesis using 2(2) [OF False no_end slot ts(1)] False no_end slot ts(1) by simp
    qed
  qed
qed

section \<open>The graph covers the executive\<close>

lemma step_flow:
  assumes "exec_ok E" and "regs_ok T E batch rg" and "0 < batch"
    and "xe_step T E events trusted batch rg = Inr out"
  shows "case out of Next rg' \<Rightarrow> (rg_pointer rg, rg_pointer rg') \<in> flow (xp_instructions (xe_program E))
    | Yield st intent rg' \<Rightarrow> (rg_pointer rg, rg_pointer rg') \<in> flow (xp_instructions (xe_program E))
        \<or> st = Halted \<and> rg' = rg"
proof -
  define i where "i = xp_instructions (xe_program E) ! nat (rg_pointer rg)"
  have p: "in_range (rg_pointer rg) (length (xp_instructions (xe_program E)))"
    using assms(2) by (auto simp: regs_ok_def)
  note run = assms(4) [unfolded xe_step_def Let_def, folded i_def]
  have edge: "(rg_pointer rg, q) \<in> flow (xp_instructions (xe_program E))"
    if "handoff_targets i (rg_pointer rg) = Inr ts" "q \<in> set ts" for ts q
    using p that by (auto simp: flow_def i_def)
  show ?thesis
  proof (cases "xi_op i")
    case Branch
    then obtain v t where t: "branch_pointer T batch i v = Inr t" "out = Next (rg\<lparr>rg_pointer := t\<rparr>)"
      using run p by (auto simp: bind_r_eq_Inr)
    have "xp_validate (xe_program E) = Inr (xe_program E)" using assms(1) by (simp add: exec_ok_def)
    then obtain ts where ts: "handoff_targets i (rg_pointer rg) = Inr ts"
      using targets_in_range [OF _ p] by (auto simp: i_def)
    then have "t \<in> set ts"
      using branch_pointer_target [OF t(1) assms(3)] Branch
      by (auto simp: handoff_targets_def bind_r_eq_Inr int_target_def split: option.splits)
    then show ?thesis using edge [OF ts] t(2) by simp
  next
    case Call
    then obtain rg' where "xe_call T E trusted batch i rg = Inr rg'" "out = Next rg'"
      using run p by (auto simp: bind_r_eq_Inr)
    moreover have "rg_pointer rg' = rg_pointer rg + 1"
      using calculation(1) by (auto simp: xe_call_def bind_r_eq_Inr split: option.splits)
    ultimately show ?thesis using edge [of "[rg_pointer rg + 1]"] Call by (simp add: handoff_targets_def)
  qed (use run p edge [of "[rg_pointer rg + 1]"] edge [of "[next_pointer i (rg_pointer rg)]"] in
      \<open>auto simp: handoff_targets_def bind_r_eq_Inr split: if_splits\<close>)
qed

lemma loop_flow:
  assumes "clone_law T" and "exec_ok E" and "regs_ok T E batch rg" and "0 < batch"
    and "hd (tl_shape T (ec_payload events)) = batch"
    and "xe_loop T E events True batch n k rg = Inr (st, intent, rg', k')"
  shows "(rg_pointer rg, rg_pointer rg') \<in> (flow (xp_instructions (xe_program E)))\<^sup>*"
  using assms(3,6)
proof (induction n arbitrary: k rg)
  case (Suc n)
  obtain out where out: "xe_step T E events True batch rg = Inr out"
    using Suc.prems(2) by (auto split: sum.splits)
  note edge = step_flow [OF assms(2) Suc.prems(1) assms(4) out]
  note ok = xe_step_ok [OF assms(1,2) Suc.prems(1) assms(5,4) out]
  show ?case
  proof (cases out)
    case (Next rg1)
    then have "(rg_pointer rg1, rg_pointer rg') \<in> (flow (xp_instructions (xe_program E)))\<^sup>*"
      using Suc.IH [of rg1 "k + 1"] Suc.prems(2) ok by (simp add: out)
    then show ?thesis using edge Next by (simp add: converse_rtrancl_into_rtrancl)
  next
    case (Yield st1 intent1 rg1)
    then have "rg' = rg1" using Suc.prems(2) by (simp add: out)
    then show ?thesis using edge Yield by auto
  qed
qed simp

lemma tick_flow:
  assumes "clone_law T" and "exec_ok E" and "state_ok T E s" and "xe_tick T E events s = Inr (out, s')"
  shows "(xs_pointer s, xs_pointer s') \<in> (flow (xp_instructions (xe_program E)))\<^sup>*"
proof -
  have tick: "tick_guarded T E events s = Inr (out, s')"
    using assms(4) by (simp add: xe_tick_def xe_tick_with_eq [OF assms(1-3)])
  have batch: "0 < xs_batch s" using assms(3) by (simp add: state_ok_def xe_check_state_iff)
  show ?thesis
  proof (cases "xs_status s = Halted")
    case True
    then have "s' = s" using tick by (auto simp: tick_guarded_def bind_r_eq_Inr split: if_splits)
    then show ?thesis by simp
  next
    case False
    then obtain st intent rg k where shape: "hd (tl_shape T (ec_payload events)) = xs_batch s"
        and loop: "xe_loop T E events True (xs_batch s) (nat (xe_max E)) 0 (regs_of s) = Inr (st, intent, rg, k)"
        and out: "(out, s') = tick_end E s (st, intent, rg, k)"
      using tick by (auto simp: tick_guarded_def bind_r_eq_Inr split: if_splits)
    have "xs_pointer s' = rg_pointer rg" using out by (simp add: tick_end_def Let_def next_state_def)
    moreover have "rg_pointer (regs_of s) = xs_pointer s" by (simp add: regs_of_def)
    ultimately show ?thesis
      using loop_flow [OF assms(1,2) state_ok_regs [OF assms(3)] batch shape loop] by simp
  qed
qed

lemma session_flow:
  assumes "clone_law T" and "exec_ok E" and "state_ok T E s"
    and "xe_session (\<lambda>s e. xe_tick T E e s) s es = Inr (outs, s')"
  shows "(xs_pointer s, xs_pointer s') \<in> (flow (xp_instructions (xe_program E)))\<^sup>*"
  using assms(3,4)
proof (induction es arbitrary: s outs)
  case (Cons e es)
  obtain out s1 outs1 where tick: "xe_tick T E e s = Inr (out, s1)"
      and rest: "xe_session (\<lambda>s e. xe_tick T E e s) s1 es = Inr (outs1, s')"
    using Cons.prems(2) by (auto simp: bind_r_eq_Inr)
  have "tick_guarded T E e s = Inr (out, s1)"
    using tick by (simp add: xe_tick_def xe_tick_with_eq [OF assms(1,2) Cons.prems(1)])
  note ok = tick_guarded_ok(1) [OF assms(1,2) Cons.prems(1) this]
  show ?case using rtrancl_trans [OF tick_flow [OF assms(1,2) Cons.prems(1) tick] Cons.IH [OF ok rest]] .
qed simp

lemma can_handoff_eq:
  assumes "xa_validate T Q a = Inr a"
  shows "executive_artifact_can_handoff T Q a =
    Inr ((0, int (length (xp_instructions (xa_program a))) - 1) \<in> (flow (xp_instructions (xa_program a)))\<^sup>*)"
proof -
  have valid: "xp_validate (xa_program a) = Inr (xa_program a)" using assms by (simp add: xa_validate_iff)
  have "in_range 0 (length (xp_instructions (xa_program a)))"
    using valid_program(2) [OF valid] by (simp add: in_range_def)
  then have "search_inv (xp_instructions (xa_program a)) [0] []" by (simp add: search_inv_def)
  from handoff_loop_exact [OF valid this] show ?thesis by (simp add: executive_artifact_can_handoff_def assms)
qed

lemma initial_pointer: "xe_initial_state T E batch device dtype = Inr s \<Longrightarrow> xs_pointer s = 0"
  by (auto simp: xe_initial_state_def bind_r_eq_Inr xs_validate_iff)

lemma temporal_equality_loops:
  "executive_artifact_can_handoff T Q (temporal_equality_artifact 3 2) = Inr False"
proof -
  have "xa_validate T Q (temporal_equality_artifact 3 2) = Inr (temporal_equality_artifact 3 2)"
    using temporal_equality_valid [of 3 2 T Q] by (simp add: build_temporal_equality_executive_artifact_def)
  then show ?thesis
    by (simp add: executive_artifact_can_handoff_def)
       (simp add: temporal_equality_artifact_def temporal_equality_program_def instr_def call_instr_def
        slot_at_def py_index_def in_range_def handoff_targets_def next_pointer_def int_target_def)
qed

definition waiting_artifact :: xartifact where
  "waiting_artifact = \<lparr>xa_program = \<lparr>xp_slots = 1,
       xp_instructions = [(instr Wait)\<lparr>xi_next := Some 0\<rparr>, instr Halt], xp_schema = EXECUTIVE_PROGRAM_SCHEMA\<rparr>,
     xa_specs = [], xa_width = 1, xa_schema = EXECUTIVE_PROGRAM_ARTIFACT_SCHEMA\<rparr>"

definition waiting_executive :: "plain_tensor executive" where
  "waiting_executive = \<lparr>xe_program = xa_program waiting_artifact,
     xe_operators = \<lparr>xr_operators = [], xr_handles = [], xr_digest = digest_payload (PList [])\<rparr>,
     xe_intention_width = 1, xe_max = 4, xe_token = 7\<rparr>"

lemma waiting_valid: "xa_validate T Q waiting_artifact = Inr waiting_artifact"
  by (simp add: xa_validate_iff waiting_artifact_def xp_validate_def instr_def xi_validate_def xi_operands_ok_def
      opt_in_range_def in_range_def calls_bound_def)

lemma waiting_loops: "executive_artifact_can_handoff T Q waiting_artifact = Inr False"
  by (simp add: executive_artifact_can_handoff_def waiting_valid)
     (simp add: waiting_artifact_def instr_def slot_at_def py_index_def in_range_def handoff_targets_def
       next_pointer_def)

lemma waiting_instantiates: "xa_instantiate plain_tensors Q waiting_artifact 4 7 = Inr waiting_executive"
proof -
  have "xp_validate (xa_program waiting_artifact) = Inr (xa_program waiting_artifact)"
    using waiting_valid [of plain_tensors Q] by (simp add: xa_validate_iff)
  then show ?thesis
    by (simp add: xa_instantiate_def xa_registry_def waiting_valid xe_init_def waiting_executive_def)
       (simp add: waiting_artifact_def xa_registry_of_def xr_init_def Let_def)
qed

lemma waiting_tick:
  "\<exists>s out s'. xe_initial_state plain_tensors waiting_executive 1 ''cpu'' float32 = Inr s
     \<and> xe_tick plain_tensors waiting_executive quiet_events s = Inr (out, s')"
proof -
  let ?empty = "\<lparr>wv_kind = KEmpty, wv_payload = NoPayload, wv_present = tl_zeros plain_tensors [1] torch_bool ''cpu'',
      wv_confidence = tl_zeros plain_tensors [1] float32 ''cpu''\<rparr>"
  let ?s = "\<lparr>xs_workspace = [?empty], xs_accumulator = ?empty, xs_pointer = 0, xs_status = Ready, xs_batch = 1,
      xs_operators = [], xs_registry = digest_payload (PList []), xs_ticks = 0, xs_executed = 0,
      xs_schema = EXECUTIVE_STATE_SCHEMA\<rparr>"
  have "wv_ok plain_tensors 1 ?empty"
    by (simp add: wv_ok_def wv_validate_def plain_tensors_def float32_not_bool)
  then have "xs_validate plain_tensors 1 ?s = Inr ?s" by (simp add: xs_validate_iff known_status_def)
  then have init: "xe_initial_state plain_tensors waiting_executive 1 ''cpu'' float32 = Inr ?s"
    by (simp add: xe_initial_state_def wv_empty_def waiting_executive_def waiting_artifact_def xr_initial_states_def)
  have exec: "exec_ok waiting_executive"
    using instantiates [OF waiting_valid, of 4 plain_tensors undefined 7]
      waiting_instantiates [of undefined] by simp
  have ok: "state_ok plain_tensors waiting_executive ?s" using initial_state_ok [OF exec init] by blast
  have four: "(4::nat) = Suc 3" by simp
  have "xe_step plain_tensors waiting_executive quiet_events True 1 (regs_of ?s) =
      Inr (Yield Waiting None (regs_of ?s))"
    by (simp add: xe_step_def Let_def waiting_executive_def waiting_artifact_def instr_def regs_of_def in_range_def
        next_pointer_def)
  then have "xe_loop plain_tensors waiting_executive quiet_events True 1 4 0 (regs_of ?s) =
      Inr (Waiting, None, regs_of ?s, 1)"
    unfolding four xe_loop.simps by simp
  moreover have "xe_max waiting_executive = 4" "hd (tl_shape plain_tensors (ec_payload quiet_events)) = 1"
    by (simp_all add: waiting_executive_def plain_tensors_def quiet_events_def)
  ultimately have "\<exists>r. xe_tick plain_tensors waiting_executive quiet_events ?s = Inr r"
    unfolding xe_tick_def xe_tick_with_eq [OF plain_clone exec ok] tick_guarded_def
    by (simp add: quiet_events_ok)
  then show ?thesis using init by auto
qed

section \<open>Properties\<close>

text \<open>
  C14. The hand-off test is exact.  On a valid artifact the worklist search returns, and says yes exactly when
  the control-flow graph of the program has a path from the first instruction to the terminal HALT.
\<close>

theorem handoff_test_exact:
  assumes "xa_validate T Q a = Inr a"
  shows "\<exists>b. executive_artifact_can_handoff T Q a = Inr b
    \<and> (b \<longleftrightarrow> (0, int (length (xp_instructions (xa_program a))) - 1) \<in> (flow (xp_instructions (xa_program a)))\<^sup>*)"
  using can_handoff_eq [OF assms] by blast

theorem handoff_test_exact_witness:
  "(0, 8) \<notin> (flow (xp_instructions temporal_equality_program))\<^sup>*"
proof -
  have valid: "xa_validate column_torch column_ops (temporal_equality_artifact 3 2) = Inr (temporal_equality_artifact 3 2)"
    using temporal_equality_valid [of 3 2] by (simp add: build_temporal_equality_executive_artifact_def)
  have "int (length (xp_instructions temporal_equality_program)) - 1 = 8"
    by (simp add: temporal_equality_program_def)
  then show ?thesis
    using handoff_test_exact [OF valid] temporal_equality_loops [of column_torch column_ops]
    by (simp add: temporal_equality_artifact_def)
qed

text \<open>
  A program without hand-off never reaches its terminal HALT: when the test says no, then from the
  initial state, over every sequence of events and whatever the operators answer, the pointer of the
  executive never stands at the last instruction.
\<close>

lemma no_handoff_never_ends:
  assumes "clone_law T" and "executive_artifact_can_handoff T Q a = Inr False" and "1 \<le> m"
    and "xa_instantiate T Q a m token = Inr E" and "xe_initial_state T E batch device dtype = Inr s"
    and "xe_session (\<lambda>s e. xe_tick T E e s) s es = Inr (outs, s')"
  shows "xs_pointer s' \<noteq> int (length (xp_instructions (xa_program a))) - 1"
proof -
  have valid: "xa_validate T Q a = Inr a"
    using assms(2) by (auto simp: executive_artifact_can_handoff_def bind_r_eq_Inr xa_validate_iff)
  have E: "exec_ok E" "xe_program E = xa_program a" using instantiates [OF valid assms(3), of token] assms(4) by auto
  have "(0, xs_pointer s') \<in> (flow (xp_instructions (xa_program a)))\<^sup>*"
    using session_flow [OF assms(1) E(1) conjunct1 [OF initial_state_ok [OF E(1) assms(5)]] assms(6)]
      initial_pointer [OF assms(5)] by (simp add: E(2))
  then show ?thesis using assms(2) can_handoff_eq [OF valid] by auto
qed

end
