(* ===== verification/ExecutiveCompose.thy ===== *)
theory ExecutiveCompose
  imports ExecutiveHandoff
begin

text \<open>
  \<open>compose_executive_artifacts\<close> of \<open>executive_bank.py\<close>: several artifacts become one sequential artifact.
  Every component keeps its own slots and, unless compatible operators are shared, its own operator
  handles; its targets are relocated, and the terminal HALT of a component that is not the last one
  becomes the start of the next.

  \<open>lay_out\<close> is the first loop of the code (offsets and handle maps), \<open>compose_components\<close> the second one
  (instructions and specs).  The first half of the theory shows when composing succeeds and what the
  composed file holds.
\<close>

section \<open>Offsets and handle maps\<close>

type_synonym spec_key = "operator_kind \<times> int option \<times> int option \<times> string"

definition spec_key :: "operator_spec \<Rightarrow> spec_key" where
  "spec_key s = (ox_kind s, ox_width s, ox_delay s, ox_schema s)"

fun shared_map :: "operator_spec list \<Rightarrow> int \<Rightarrow> (spec_key \<times> int) list \<Rightarrow>
    (int \<times> int) list \<times> int \<times> (spec_key \<times> int) list" where
  "shared_map [] handle shared = ([], handle, shared)"
| "shared_map (s # ss) handle shared =
     (case map_of shared (spec_key s) of
        Some g \<Rightarrow> (let (m, handle', shared') = shared_map ss handle shared
                   in ((ox_handle s, g) # m, handle', shared'))
      | None \<Rightarrow> (let (m, handle', shared') = shared_map ss (handle + 1) ((spec_key s, handle) # shared)
                 in ((ox_handle s, handle) # m, handle', shared')))"

definition own_map :: "operator_spec list \<Rightarrow> int \<Rightarrow> (int \<times> int) list" where
  "own_map specs handle = map (\<lambda>s. (ox_handle s, handle + ox_handle s)) specs"

definition maximum_handle :: "operator_spec list \<Rightarrow> int" where
  "maximum_handle specs = (if specs = [] then -1 else Max (set (map ox_handle specs)))"

definition handle_map :: "bool \<Rightarrow> operator_spec list \<Rightarrow> int \<Rightarrow> (spec_key \<times> int) list \<Rightarrow>
    (int \<times> int) list \<times> int \<times> (spec_key \<times> int) list" where
  "handle_map share specs handle shared =
     (if share then shared_map specs handle shared
      else (own_map specs handle, handle + (maximum_handle specs + 1), shared))"

record component_layout =
  cl_artifact :: xartifact
  cl_program :: int
  cl_slots :: int
  cl_handles :: "(int \<times> int) list"

definition body_length :: "xartifact \<Rightarrow> int" where
  "body_length a = int (length (xp_instructions (xa_program a))) - 1"

fun lay_out :: "bool \<Rightarrow> xartifact list \<Rightarrow> int \<Rightarrow> int \<Rightarrow> int \<Rightarrow> (spec_key \<times> int) list \<Rightarrow>
    component_layout list \<times> int \<times> int" where
  "lay_out share [] body slots handle shared = ([], body, slots)"
| "lay_out share (a # as) body slots handle shared =
     (let (m, handle', shared') = handle_map share (xa_specs a) handle shared;
          (ls, body', slots') = lay_out share as (body + body_length a)
             (slots + xp_slots (xa_program a)) handle' shared'
      in (\<lparr>cl_artifact = a, cl_program = body, cl_slots = slots, cl_handles = m\<rparr> # ls, body', slots'))"

section \<open>The composed instructions and specs\<close>

definition relocate_target :: "component_layout \<Rightarrow> bool \<Rightarrow> int \<Rightarrow> int \<Rightarrow> int" where
  "relocate_target l non_final next_component target =
     (if target = body_length (cl_artifact l) \<and> non_final then next_component
      else cl_program l + target)"

definition intermediate_handoff :: "bool \<Rightarrow> bool \<Rightarrow> xinstruction \<Rightarrow> bool" where
  "intermediate_handoff final_emit_only non_final i \<longleftrightarrow> final_emit_only \<and> non_final \<and> xi_op i = Emit"

definition relocate_instruction :: "bool \<Rightarrow> component_layout \<Rightarrow> bool \<Rightarrow> int \<Rightarrow> xinstruction \<Rightarrow> xinstruction result" where
  "relocate_instruction final_emit_only l non_final next_component i =
     (let handoff = intermediate_handoff final_emit_only non_final i;
          slot = (\<lambda>s. s + cl_slots l); goto = relocate_target l non_final next_component
      in bind_r (if handoff then Inr None
                 else case xi_handle i of
                   None \<Rightarrow> Inr None
                 | Some h \<Rightarrow> (case map_of (cl_handles l) h of None \<Rightarrow> Inl KeyError | Some g \<Rightarrow> Inr (Some g)))
           (\<lambda>handle. Inr
             \<lparr>xi_op = (if handoff then Handoff else xi_op i),
              xi_source = (if handoff then None else map_option slot (xi_source i)),
              xi_destination = (if handoff then None else map_option slot (xi_destination i)),
              xi_handle = handle,
              xi_arguments = (if handoff then [] else map slot (xi_arguments i)),
              xi_true = (if handoff then None else map_option goto (xi_true i)),
              xi_false = (if handoff then None else map_option goto (xi_false i)),
              xi_unknown = (if handoff then None else map_option goto (xi_unknown i)),
              xi_next = map_option goto (xi_next i)\<rparr>))"

fun compose_specs :: "bool \<Rightarrow> (int \<times> int) list \<Rightarrow> operator_spec list \<Rightarrow> spec_key list \<Rightarrow>
    (operator_spec list \<times> spec_key list) result" where
  "compose_specs share m [] emitted = Inr ([], emitted)"
| "compose_specs share m (s # ss) emitted =
     (if share \<and> spec_key s \<in> set emitted then compose_specs share m ss emitted
      else case map_of m (ox_handle s) of
        None \<Rightarrow> Inl KeyError
      | Some g \<Rightarrow>
          bind_r (compose_specs share m ss (if share then spec_key s # emitted else emitted)) (\<lambda>(specs, emitted').
            Inr (s\<lparr>ox_handle := g\<rparr> # specs, emitted')))"

fun compose_components :: "bool \<Rightarrow> bool \<Rightarrow> component_layout list \<Rightarrow> int \<Rightarrow> spec_key list \<Rightarrow>
    (xinstruction list \<times> operator_spec list) result" where
  "compose_components share final_emit_only [] body_end emitted = Inr ([], [])"
| "compose_components share final_emit_only (l # ls) body_end emitted =
     (let non_final = (ls \<noteq> []); next_component = (case ls of [] \<Rightarrow> body_end | n # _ \<Rightarrow> cl_program n)
      in bind_r (map_r (relocate_instruction final_emit_only l non_final next_component)
                   (butlast (xp_instructions (xa_program (cl_artifact l))))) (\<lambda>is.
         bind_r (compose_specs share (cl_handles l) (xa_specs (cl_artifact l)) emitted) (\<lambda>(specs, emitted').
         bind_r (compose_components share final_emit_only ls body_end emitted') (\<lambda>(is', specs').
           Inr (is @ is', specs @ specs')))))"

definition executive_halt :: xinstruction where
  "executive_halt = instr Halt"

definition compose_executive_artifacts :: "'t tensor_lib \<Rightarrow> 't operator_torch \<Rightarrow> xartifact list \<Rightarrow> bool \<Rightarrow> bool \<Rightarrow>
    string \<Rightarrow> xartifact result" where
  "compose_executive_artifacts T Q as share final_emit_only schema =
     (if as = [] then Inl ValueError
      else if schema \<notin> {LEGACY_EXECUTIVE_PROGRAM_SCHEMA, EXECUTIVE_PROGRAM_SCHEMA} then Inl ValueError
      else
        bind_r (map_r (xa_validate T Q) as) (\<lambda>validated.
        if \<exists>a\<in>set validated. xa_schema a \<noteq> EXECUTIVE_PROGRAM_ARTIFACT_SCHEMA then Inl ValueError
        else if \<exists>a\<in>set validated. xa_width a \<noteq> xa_width (hd validated) then Inl ValueError
        else
          bind_r (all_r (\<lambda>a. bind_r (executive_artifact_can_handoff T Q a) (\<lambda>b.
                    if b then Inr () else Inl ValueError)) (butlast validated)) (\<lambda>_.
          if \<exists>a\<in>set validated. body_length a < 1 then Inl ValueError
          else
            let (ls, body_end, slots) = lay_out share validated 0 0 0 []
            in bind_r (compose_components share final_emit_only ls body_end []) (\<lambda>(is, specs).
                 xa_validate T Q
                   \<lparr>xa_program = \<lparr>xp_slots = slots, xp_instructions = is @ [executive_halt], xp_schema = schema\<rparr>,
                    xa_specs = sort_key ox_handle specs, xa_width = xa_width (hd validated),
                    xa_schema = EXECUTIVE_PROGRAM_ARTIFACT_SCHEMA\<rparr>))))"

section \<open>Where the components lie\<close>

lemma validated_body: "xa_validate T Q a = Inr u \<Longrightarrow> 0 \<le> body_length a"
  by (cases "xp_instructions (xa_program a)")
     (auto simp: xa_validate_iff xp_validate_def body_length_def split: if_splits)

lemma lay_out_artifacts:
  "lay_out share as body slots handle shared = (ls, e, n) \<Longrightarrow> map cl_artifact ls = as"
  by (induction as arbitrary: body slots handle shared ls e n)
     (fastforce simp: Let_def split: prod.splits)+

lemma lay_out_cons:
  assumes "lay_out share (a # as) body slots handle shared = (ls, e, n)"
  obtains m handle' shared' ls' where "handle_map share (xa_specs a) handle shared = (m, handle', shared')"
    and "lay_out share as (body + body_length a) (slots + xp_slots (xa_program a)) handle' shared' = (ls', e, n)"
    and "ls = \<lparr>cl_artifact = a, cl_program = body, cl_slots = slots, cl_handles = m\<rparr> # ls'"
  using assms by (auto split: prod.splits)

lemma lay_out_offsets:
  assumes "lay_out share as body slots handle shared = (ls, e, n)"
  shows "e = body + sum_list (map body_length as) \<and> n = slots + sum_list (map (xp_slots \<circ> xa_program) as)
    \<and> (\<forall>k<length as. cl_program (ls ! k) = body + sum_list (map body_length (take k as))
         \<and> cl_slots (ls ! k) = slots + sum_list (map (xp_slots \<circ> xa_program) (take k as)))"
  using assms
proof (induction as arbitrary: body slots handle shared ls)
  case (Cons a as)
  obtain m handle' shared' ls' where rest: "lay_out share as (body + body_length a)
      (slots + xp_slots (xa_program a)) handle' shared' = (ls', e, n)"
    and ls: "ls = \<lparr>cl_artifact = a, cl_program = body, cl_slots = slots, cl_handles = m\<rparr> # ls'"
    using Cons.prems by (rule lay_out_cons)
  show ?case
    using Cons.IH [OF rest] unfolding ls by (auto simp: nth_Cons' take_Cons' less_Suc_eq_0_disj)
qed simp

lemma shared_map_handles: "shared_map specs handle shared = (m, r) \<Longrightarrow> map fst m = map ox_handle specs"
  by (induction specs arbitrary: handle shared m r) (fastforce split: prod.splits option.splits)+

lemma handle_map_handles: "handle_map share specs handle shared = (m, r) \<Longrightarrow> map fst m = map ox_handle specs"
  by (cases share) (auto simp: handle_map_def own_map_def comp_def dest: shared_map_handles)

lemma lay_out_handles:
  assumes "lay_out share as body slots handle shared = (ls, e, n)"
  shows "\<forall>k<length as. map fst (cl_handles (ls ! k)) = map ox_handle (xa_specs (as ! k))"
  using assms
proof (induction as arbitrary: body slots handle shared ls)
  case (Cons a as)
  obtain m handle' shared' ls' where m: "handle_map share (xa_specs a) handle shared = (m, handle', shared')"
    and rest: "lay_out share as (body + body_length a) (slots + xp_slots (xa_program a)) handle' shared' = (ls', e, n)"
    and ls: "ls = \<lparr>cl_artifact = a, cl_program = body, cl_slots = slots, cl_handles = m\<rparr> # ls'"
    using Cons.prems by (rule lay_out_cons)
  show ?case using Cons.IH [OF rest] handle_map_handles [OF m] by (auto simp: ls nth_Cons' less_Suc_eq_0_disj)
qed simp

text \<open>
  The offsets are consecutive, so the terminal of a component is relocated to the same address whether or
  not it is the last one.
\<close>

definition next_component :: "component_layout list \<Rightarrow> int \<Rightarrow> nat \<Rightarrow> int" where
  "next_component ls body_end k = (if Suc k < length ls then cl_program (ls ! Suc k) else body_end)"

lemma next_component_eq:
  assumes "lay_out share as body slots handle shared = (ls, e, n)" and "k < length as"
  shows "next_component ls e k = cl_program (ls ! k) + body_length (as ! k)"
proof -
  have len: "length ls = length as" using arg_cong [OF lay_out_artifacts [OF assms(1)], of length] by simp
  have k: "sum_list (map body_length (take (Suc k) as)) = sum_list (map body_length (take k as)) + body_length (as ! k)"
    using assms(2) by (simp add: take_Suc_conv_app_nth)
  show ?thesis
  proof (cases "Suc k < length as")
    case True
    then show ?thesis
      using lay_out_offsets [OF assms(1)] k assms(2) by (simp add: next_component_def len)
  next
    case False
    then have "take (Suc k) as = as" by simp
    then show ?thesis
      using lay_out_offsets [OF assms(1)] k False assms(2) by (simp add: next_component_def len)
  qed
qed

lemma relocate_target_eq:
  assumes "following = cl_program l + body_length (cl_artifact l)"
  shows "relocate_target l non_final following t = cl_program l + t"
  by (simp add: relocate_target_def assms)

section \<open>Where the instructions lie\<close>

lemma composed_instructions:
  assumes "lay_out share as body slots handle shared = (ls, e, n)"
    and "compose_components share fe ls e emitted = Inr (is, specs)" and "\<forall>a\<in>set as. 0 \<le> body_length a"
  shows "int (length is) = e - body \<and> (\<forall>k<length as. \<forall>p<length (xp_instructions (xa_program (as ! k))) - 1.
      relocate_instruction fe (ls ! k) (Suc k < length ls) (next_component ls e k)
        (xp_instructions (xa_program (as ! k)) ! p) = Inr (is ! nat (cl_program (ls ! k) - body + int p)))"
  using assms
proof (induction as arbitrary: body slots handle shared ls emitted "is" specs)
  case (Cons a as)
  obtain m handle' shared' ls' where rest: "lay_out share as (body + body_length a)
      (slots + xp_slots (xa_program a)) handle' shared' = (ls', e, n)"
    and ls: "ls = \<lparr>cl_artifact = a, cl_program = body, cl_slots = slots, cl_handles = m\<rparr> # ls'"
    using Cons.prems(1) by (rule lay_out_cons)
  define l where "l = hd ls"
  define following where "following = next_component ls e 0"
  have l: "ls = l # ls'" "cl_artifact l = a" "cl_program l = body" by (simp_all add: ls l_def)
  have following: "following = (case ls' of [] \<Rightarrow> e | n # _ \<Rightarrow> cl_program n)"
    by (cases ls') (simp_all add: following_def next_component_def l(1))
  obtain is1 emitted' is2 specs2 where
      is1: "map_r (relocate_instruction fe l (ls' \<noteq> []) following) (butlast (xp_instructions (xa_program a))) = Inr is1"
    and is2: "compose_components share fe ls' e emitted' = Inr (is2, specs2)" and "is": "is = is1 @ is2"
    using Cons.prems(2) by (auto simp: l bind_r_eq_Inr following)
  have bodies: "\<forall>a\<in>set as. 0 \<le> body_length a" and a: "0 \<le> body_length a" using Cons.prems(3) by simp_all
  have len1: "int (length is1) = body_length a"
    using map_r_length [OF is1] a by (cases "xp_instructions (xa_program a)") (auto simp: body_length_def)
  note IH = Cons.IH [OF rest is2 bodies]
  have "relocate_instruction fe (ls ! k) (Suc k < length ls) (next_component ls e k)
        (xp_instructions (xa_program ((a # as) ! k)) ! p) = Inr (is ! nat (cl_program (ls ! k) - body + int p))"
    if k: "k < length (a # as)" and p: "p < length (xp_instructions (xa_program ((a # as) ! k))) - 1" for k p
  proof (cases k)
    case 0
    have p1: "p < length is1" using p map_r_length [OF is1] by (simp add: 0)
    then have "relocate_instruction fe l (ls' \<noteq> []) following (butlast (xp_instructions (xa_program a)) ! p) = Inr (is1 ! p)"
      using is1 by (auto simp: map_r_Inr_iff list_all2_conv_all_nth)
    moreover have "butlast (xp_instructions (xa_program a)) ! p = xp_instructions (xa_program a) ! p"
      using p by (simp add: 0 nth_butlast)
    moreover have "(ls' \<noteq> []) = (Suc k < length ls)" by (simp add: l(1) 0)
    moreover have "is ! p = is1 ! p" using p1 by (simp add: "is" nth_append)
    ultimately have "relocate_instruction fe l (Suc k < length ls) following (xp_instructions (xa_program a) ! p) = Inr (is ! p)"
      by (simp only:)
    then show ?thesis by (simp add: 0 ls l_def following_def)
  next
    case (Suc j)
    have j: "j < length as" using k by (simp add: Suc)
    have start: "0 \<le> cl_program (ls' ! j) - (body + body_length a)"
      using lay_out_offsets [OF rest] j bodies by (auto intro!: sum_list_nonneg dest!: in_set_takeD)
    then have "nat (cl_program (ls' ! j) - body + int p) =
        length is1 + nat (cl_program (ls' ! j) - (body + body_length a) + int p)"
      using len1 by linarith
    moreover have "next_component ls e k = next_component ls' e j" by (simp add: next_component_def l Suc)
    ultimately show ?thesis using IH p j by (simp add: Suc l "is" nth_append)
  qed
  moreover have "int (length is) = e - body" using IH len1 by (simp add: "is")
  ultimately show ?case by blast
qed simp

section \<open>The operator specs\<close>

text \<open>
  \<open>sharing_inv\<close> holds between two components: the specs written so far have distinct handles below the
  next free one, and when operators are shared every key of the table has been written under its handle.
\<close>

definition sharing_inv :: "bool \<Rightarrow> (spec_key \<times> int) list \<Rightarrow> spec_key list \<Rightarrow> operator_spec list \<Rightarrow> int \<Rightarrow> bool" where
  "sharing_inv share shared emitted written handle \<longleftrightarrow> 0 \<le> handle
     \<and> distinct (map ox_handle written)
     \<and> (\<forall>d\<in>set written. 0 \<le> ox_handle d \<and> ox_handle d < handle \<and> ox_validate d = Inr d)
     \<and> (share \<longrightarrow> set emitted = fst ` set shared
          \<and> (\<forall>(k, g)\<in>set shared. \<exists>d\<in>set written. spec_key d = k \<and> ox_handle d = g))"

lemma same_key_same_spec: "spec_key d = spec_key s \<Longrightarrow> ox_handle d = g \<Longrightarrow> d = s\<lparr>ox_handle := g\<rparr>"
  by (cases d, cases s) (simp add: spec_key_def)

lemma ox_validate_handle: "ox_validate s = Inr s \<Longrightarrow> 0 \<le> g \<Longrightarrow> ox_validate (s\<lparr>ox_handle := g\<rparr>) = Inr (s\<lparr>ox_handle := g\<rparr>)"
  by (auto simp: ox_validate_def positive_option_def split: if_splits option.splits)

lemma spec_handle_nonneg: "ox_validate s = Inr s \<Longrightarrow> 0 \<le> ox_handle s"
  by (simp add: ox_validate_def split: if_splits)

lemma shared_specs:
  assumes "sharing_inv True shared emitted written handle" and "shared_map specs handle shared = (m, handle', shared')"
    and "\<forall>s\<in>set specs. ox_validate s = Inr s" and "distinct (map ox_handle specs)"
    and "\<forall>s\<in>set specs. map_of m' (ox_handle s) = map_of m (ox_handle s)"
  shows "\<exists>out emitted'. compose_specs True m' specs emitted = Inr (out, emitted')
    \<and> sharing_inv True shared' emitted' (written @ out) handle'
    \<and> (\<forall>s\<in>set specs. \<exists>g. map_of m (ox_handle s) = Some g \<and> s\<lparr>ox_handle := g\<rparr> \<in> set (written @ out))"
  using assms
proof (induction specs arbitrary: shared emitted written handle m)
  case (Cons s ss)
  have rest: "\<forall>s\<in>set ss. ox_validate s = Inr s" "distinct (map ox_handle ss)"
    and "ox_handle s \<notin> ox_handle ` set ss" using Cons.prems(3,4) by auto
  then have other: "\<forall>t\<in>set ss. ox_handle t \<noteq> ox_handle s" by (metis image_eqI)
  have table: "set emitted = fst ` set shared" using Cons.prems(1) by (simp add: sharing_inv_def)
  show ?case
  proof (cases "map_of shared (spec_key s)")
    case (Some g)
    obtain m1 where m1: "shared_map ss handle shared = (m1, handle', shared')" "m = (ox_handle s, g) # m1"
      using Cons.prems(2) by (auto simp: Some split: prod.splits)
    have "\<forall>t\<in>set ss. map_of m' (ox_handle t) = map_of m1 (ox_handle t)" using Cons.prems(5) other by (simp add: m1(2))
    note IH = Cons.IH [OF Cons.prems(1) m1(1) rest this]
    have "spec_key s \<in> set emitted" using Some unfolding table by (force dest: map_of_SomeD)
    moreover have "s\<lparr>ox_handle := g\<rparr> \<in> set written"
      using Cons.prems(1) map_of_SomeD [OF Some] same_key_same_spec by (fastforce simp: sharing_inv_def)
    ultimately show ?thesis using IH other by (fastforce simp: m1(2))
  next
    case None
    obtain m1 where m1: "shared_map ss (handle + 1) ((spec_key s, handle) # shared) = (m1, handle', shared')"
        "m = (ox_handle s, handle) # m1"
      using Cons.prems(2) by (auto simp: None split: prod.splits)
    have m1': "\<forall>t\<in>set ss. map_of m' (ox_handle t) = map_of m1 (ox_handle t)" using Cons.prems(5) other by (simp add: m1(2))
    let ?s = "s\<lparr>ox_handle := handle\<rparr>"
    have "sharing_inv True ((spec_key s, handle) # shared) (spec_key s # emitted) (written @ [?s]) (handle + 1)"
      using Cons.prems(1,3) ox_validate_handle [of s handle] by (auto simp: sharing_inv_def spec_key_def)
    note IH = Cons.IH [OF this m1(1) rest m1']
    have "spec_key s \<notin> set emitted" using None unfolding table by (simp add: map_of_eq_None_iff)
    moreover have "map_of m' (ox_handle s) = Some handle" using Cons.prems(5) by (simp add: m1(2))
    ultimately show ?thesis using IH other by (fastforce simp: m1(2))
  qed
qed (auto simp: sharing_inv_def)

lemma own_specs:
  assumes "\<forall>s\<in>set specs. map_of m' (ox_handle s) = Some (handle + ox_handle s)"
  shows "compose_specs False m' specs emitted = Inr (map (\<lambda>s. s\<lparr>ox_handle := handle + ox_handle s\<rparr>) specs, emitted)"
  using assms by (induction specs) simp_all

lemma map_of_own_map:
  "distinct (map ox_handle specs) \<Longrightarrow> s \<in> set specs \<Longrightarrow> map_of (own_map specs handle) (ox_handle s) = Some (handle + ox_handle s)"
  by (force simp: own_map_def comp_def intro: map_of_is_SomeI)

lemma maximum_handle_bound: "s \<in> set specs \<Longrightarrow> ox_handle s \<le> maximum_handle specs"
  by (auto simp: maximum_handle_def)

lemma component_specs:
  assumes "sharing_inv share shared emitted written handle"
    and "handle_map share specs handle shared = (m, handle', shared')"
    and "\<forall>s\<in>set specs. ox_validate s = Inr s" and "distinct (map ox_handle specs)"
  shows "\<exists>out emitted'. compose_specs share m specs emitted = Inr (out, emitted')
    \<and> sharing_inv share shared' emitted' (written @ out) handle'
    \<and> (\<forall>s\<in>set specs. \<exists>g. map_of m (ox_handle s) = Some g \<and> s\<lparr>ox_handle := g\<rparr> \<in> set (written @ out))"
proof (cases share)
  case True
  then show ?thesis using shared_specs [of shared emitted written handle specs m handle' shared' m] assms
    by (simp add: handle_map_def)
next
  case False
  have m: "m = own_map specs handle" "handle' = handle + (maximum_handle specs + 1)" "shared' = shared"
    using assms(2) by (auto simp: handle_map_def False)
  let ?out = "map (\<lambda>s. s\<lparr>ox_handle := handle + ox_handle s\<rparr>) specs"
  have out: "compose_specs share m specs emitted = Inr (?out, emitted)"
    using own_specs [of specs m handle] map_of_own_map [OF assms(4)] by (simp add: m(1) False)
  have top: "-1 \<le> maximum_handle specs"
  proof (cases specs)
    case (Cons s ss)
    then have "0 \<le> ox_handle s" "ox_handle s \<le> maximum_handle specs"
      using assms(3) by (simp_all add: spec_handle_nonneg maximum_handle_bound)
    then show ?thesis by linarith
  qed (simp add: maximum_handle_def)
  have "distinct (map ox_handle ?out)" using assms(4) by (auto simp: comp_def distinct_map inj_on_def)
  moreover have "0 \<le> ox_handle d \<and> handle \<le> ox_handle d \<and> ox_handle d < handle' \<and> ox_validate d = Inr d" if d: "d \<in> set ?out" for d
  proof -
    obtain s where s: "s \<in> set specs" "d = s\<lparr>ox_handle := handle + ox_handle s\<rparr>" using d by auto
    have "0 \<le> handle" using assms(1) by (simp add: sharing_inv_def)
    then show ?thesis
      using s(1) assms(3) spec_handle_nonneg [of s] maximum_handle_bound [OF s(1)] ox_validate_handle [of s "handle + ox_handle s"]
      by (simp add: s(2) m(2))
  qed
  ultimately have "sharing_inv share shared emitted (written @ ?out) handle'"
    using assms(1) top by (fastforce simp: sharing_inv_def False m(2))
  then show ?thesis using out map_of_own_map [OF assms(4)] by (auto simp: m)
qed

section \<open>When composing succeeds\<close>

text \<open>
  The only thing that can still fail once the components are laid out is the handle of an instruction that
  no spec of its artifact declares.  The artifact validator looks at the handles of CALL alone.
\<close>

definition handle_resolves :: "bool \<Rightarrow> bool \<Rightarrow> xartifact \<Rightarrow> xinstruction \<Rightarrow> bool" where
  "handle_resolves fe non_final a i \<longleftrightarrow> intermediate_handoff fe non_final i
     \<or> set_option (xi_handle i) \<subseteq> set (map ox_handle (xa_specs a))"

fun handles_resolve :: "bool \<Rightarrow> xartifact list \<Rightarrow> bool" where
  "handles_resolve fe [] = True"
| "handles_resolve fe (a # as) =
     ((\<forall>i\<in>set (butlast (xp_instructions (xa_program a))). handle_resolves fe (as \<noteq> []) a i) \<and> handles_resolve fe as)"

definition specs_ok :: "xartifact \<Rightarrow> bool" where
  "specs_ok a \<longleftrightarrow> (\<forall>s\<in>set (xa_specs a). ox_validate s = Inr s) \<and> distinct (map ox_handle (xa_specs a))"

lemma relocate_instruction_cases:
  assumes "map fst (cl_handles l) = map ox_handle (xa_specs a)"
  shows "if handle_resolves fe nf a i then is_ok (relocate_instruction fe l nf following i)
    else relocate_instruction fe l nf following i = Inl KeyError"
proof -
  have none: "map_of (cl_handles l) h = None \<longleftrightarrow> h \<notin> ox_handle ` set (xa_specs a)" for h
    using arg_cong [OF assms, of set] by (simp add: map_of_eq_None_iff)
  moreover have "h \<in> ox_handle ` set (xa_specs a)" if "map_of (cl_handles l) h = Some g" for h g
    using none [of h] that by auto
  ultimately show ?thesis
    by (cases "xi_handle i")
       (auto simp: relocate_instruction_def handle_resolves_def is_ok_iff Let_def split: option.splits if_splits)
qed

lemma map_r_first_error:
  assumes "\<And>x. x \<in> set xs \<Longrightarrow> if P x then is_ok (f x) else f x = Inl e"
  shows "if \<forall>x\<in>set xs. P x then is_ok (map_r f xs) else map_r f xs = Inl e"
  using assms
proof (induction xs)
  case (Cons x xs)
  have x: "if P x then is_ok (f x) else f x = Inl e" using Cons.prems by simp
  have "if \<forall>x\<in>set xs. P x then is_ok (map_r f xs) else map_r f xs = Inl e" using Cons by simp
  then show ?case using x by (auto simp: is_ok_iff split: if_splits)
qed simp

lemma compose_components_cases:
  assumes "lay_out share as body slots handle shared = (ls, e, n)"
    and "sharing_inv share shared emitted written handle" and "\<forall>a\<in>set as. specs_ok a"
  shows "if handles_resolve fe as then is_ok (compose_components share fe ls b emitted)
    else compose_components share fe ls b emitted = Inl KeyError"
  using assms
proof (induction as arbitrary: body slots handle shared ls emitted written)
  case (Cons a as)
  obtain m handle' shared' ls' where m: "handle_map share (xa_specs a) handle shared = (m, handle', shared')"
    and rest: "lay_out share as (body + body_length a) (slots + xp_slots (xa_program a)) handle' shared' = (ls', e, n)"
    and ls: "ls = \<lparr>cl_artifact = a, cl_program = body, cl_slots = slots, cl_handles = m\<rparr> # ls'"
    using Cons.prems(1) by (rule lay_out_cons)
  obtain out emitted' where out: "compose_specs share m (xa_specs a) emitted = Inr (out, emitted')"
    and inv: "sharing_inv share shared' emitted' (written @ out) handle'"
    using component_specs [OF Cons.prems(2) m] Cons.prems(3) by (auto simp: specs_ok_def)
  have IH: "if handles_resolve fe as then is_ok (compose_components share fe ls' b emitted')
    else compose_components share fe ls' b emitted' = Inl KeyError"
    using Cons.IH [OF rest inv] Cons.prems(3) by simp
  define following where "following = (case ls' of [] \<Rightarrow> b | n # _ \<Rightarrow> cl_program n)"
  have nf: "(ls' \<noteq> []) = (as \<noteq> [])" using lay_out_artifacts [OF rest] by auto
  have "if \<forall>i\<in>set (butlast (xp_instructions (xa_program a))). handle_resolves fe (as \<noteq> []) a i
    then is_ok (map_r (relocate_instruction fe (hd ls) (as \<noteq> []) following) (butlast (xp_instructions (xa_program a))))
    else map_r (relocate_instruction fe (hd ls) (as \<noteq> []) following) (butlast (xp_instructions (xa_program a))) = Inl KeyError"
    by (intro map_r_first_error relocate_instruction_cases) (simp add: ls handle_map_handles [OF m])
  then show ?case
    using IH by (auto simp: ls is_ok_iff nf following_def [symmetric] out Let_def split: if_splits)
qed simp

lemma composed_specs:
  assumes "lay_out share as body slots handle shared = (ls, e, n)"
    and "sharing_inv share shared emitted written handle" and "\<forall>a\<in>set as. specs_ok a"
    and "compose_components share fe ls b emitted = Inr (is, specs)"
  shows "distinct (map ox_handle (written @ specs))
    \<and> (\<forall>d\<in>set (written @ specs). 0 \<le> ox_handle d \<and> ox_validate d = Inr d)
    \<and> (\<forall>k<length as. \<forall>s\<in>set (xa_specs (as ! k)). \<exists>g. map_of (cl_handles (ls ! k)) (ox_handle s) = Some g
         \<and> s\<lparr>ox_handle := g\<rparr> \<in> set (written @ specs))"
  using assms
proof (induction as arbitrary: body slots handle shared ls emitted written "is" specs)
  case Nil
  then show ?case by (auto simp: sharing_inv_def)
next
  case (Cons a as)
  obtain m handle' shared' ls' where m: "handle_map share (xa_specs a) handle shared = (m, handle', shared')"
    and rest: "lay_out share as (body + body_length a) (slots + xp_slots (xa_program a)) handle' shared' = (ls', e, n)"
    and ls: "ls = \<lparr>cl_artifact = a, cl_program = body, cl_slots = slots, cl_handles = m\<rparr> # ls'"
    using Cons.prems(1) by (rule lay_out_cons)
  obtain out emitted' where out: "compose_specs share m (xa_specs a) emitted = Inr (out, emitted')"
    and inv: "sharing_inv share shared' emitted' (written @ out) handle'"
    and here: "\<forall>s\<in>set (xa_specs a). \<exists>g. map_of m (ox_handle s) = Some g \<and> s\<lparr>ox_handle := g\<rparr> \<in> set (written @ out)"
    using component_specs [OF Cons.prems(2) m] Cons.prems(3) by (auto simp: specs_ok_def)
  obtain is2 specs2 where is2: "compose_components share fe ls' b emitted' = Inr (is2, specs2)" and specs: "specs = out @ specs2"
    using Cons.prems(4) by (auto simp: ls out bind_r_eq_Inr Let_def)
  have "\<forall>a\<in>set as. specs_ok a" using Cons.prems(3) by simp
  note IH = Cons.IH [OF rest inv this is2]
  have "\<exists>g. map_of (cl_handles (ls ! k)) (ox_handle s) = Some g \<and> s\<lparr>ox_handle := g\<rparr> \<in> set (written @ specs)"
    if "k < length (a # as)" and "s \<in> set (xa_specs ((a # as) ! k))" for k s
    using that IH here by (cases k) (fastforce simp: ls specs)+
  then show ?case using IH by (auto simp: specs)
qed

section \<open>The composed artifact is valid\<close>

definition moved :: "component_layout \<Rightarrow> xinstruction \<Rightarrow> xinstruction" where
  "moved l i =
     \<lparr>xi_op = xi_op i, xi_source = map_option (\<lambda>s. s + cl_slots l) (xi_source i),
      xi_destination = map_option (\<lambda>s. s + cl_slots l) (xi_destination i),
      xi_handle = Option.bind (xi_handle i) (map_of (cl_handles l)),
      xi_arguments = map (\<lambda>s. s + cl_slots l) (xi_arguments i),
      xi_true = map_option (\<lambda>t. cl_program l + t) (xi_true i), xi_false = map_option (\<lambda>t. cl_program l + t) (xi_false i),
      xi_unknown = map_option (\<lambda>t. cl_program l + t) (xi_unknown i),
      xi_next = map_option (\<lambda>t. cl_program l + t) (xi_next i)\<rparr>"

definition handoff_to :: "component_layout \<Rightarrow> xinstruction \<Rightarrow> xinstruction" where
  "handoff_to l i = (instr Handoff)\<lparr>xi_next := map_option (\<lambda>t. cl_program l + t) (xi_next i)\<rparr>"

lemma relocate_shape:
  assumes "relocate_instruction fe l nf following i = Inr i'"
    and "following = cl_program l + body_length (cl_artifact l)"
  shows "if intermediate_handoff fe nf i then i' = handoff_to l i
    else i' = moved l i \<and> (\<forall>h. xi_handle i = Some h \<longrightarrow> map_of (cl_handles l) h \<noteq> None)"
proof -
  have "relocate_target l nf following = (\<lambda>t. cl_program l + t)" using relocate_target_eq [OF assms(2)] by blast
  then show ?thesis
    using assms(1)
    by (cases "xi_handle i")
       (auto simp: relocate_instruction_def handoff_to_def instr_def moved_def Let_def bind_r_eq_Inr split: if_splits option.splits)
qed

lemma moved_valid:
  assumes i: "xi_validate n len i = Inr ()" and h: "\<forall>h. xi_handle i = Some h \<longrightarrow> map_of (cl_handles l) h \<noteq> None"
    and bounds: "0 \<le> cl_program l" "0 \<le> cl_slots l" "cl_slots l + n \<le> n'" "cl_program l + int len \<le> int len'"
    and handles: "\<forall>g\<in>snd ` set (cl_handles l). 0 \<le> g"
  shows "xi_validate n' len' (moved l i) = Inr ()"
proof -
  have move: "opt_in_range (map_option (\<lambda>t. cl_program l + t) t) len'" if "opt_in_range t len" for t
    using that bounds by (auto simp: opt_in_range_def in_range_def split: option.splits)
  have slots: "\<forall>slot\<in>set (xi_arguments i) \<union> set_option (xi_source i) \<union> set_option (xi_destination i). 0 \<le> slot \<and> slot < n"
    and op: "\<not> (case xi_op i of OtherOp _ \<Rightarrow> True | _ \<Rightarrow> False)" "xi_operands_ok i len"
    and nx: "xi_next i \<noteq> None \<Longrightarrow> xi_op i \<in> {Wait, Emit, Handoff} \<and> opt_in_range (xi_next i) len"
    using i by (auto simp: xi_validate_def split: if_splits)
  have eq: "set (xi_arguments (moved l i)) \<union> set_option (xi_source (moved l i)) \<union> set_option (xi_destination (moved l i))
      = (\<lambda>s. s + cl_slots l) ` (set (xi_arguments i) \<union> set_option (xi_source i) \<union> set_option (xi_destination i))"
    by (simp add: moved_def image_Un option.set_map)
  have "\<forall>slot\<in>set (xi_arguments (moved l i)) \<union> set_option (xi_source (moved l i))
      \<union> set_option (xi_destination (moved l i)). 0 \<le> slot \<and> slot < n'"
    unfolding eq ball_simps
  proof
    fix x assume "x \<in> set (xi_arguments i) \<union> set_option (xi_source i) \<union> set_option (xi_destination i)"
    then have "0 \<le> x \<and> x < n" using slots by blast
    then show "0 \<le> x + cl_slots l \<and> x + cl_slots l < n'" using bounds by linarith
  qed
  then have "\<not> (\<exists>slot\<in>set (xi_arguments (moved l i)) \<union> set_option (xi_source (moved l i))
      \<union> set_option (xi_destination (moved l i)). \<not> (0 \<le> slot \<and> slot < n'))" by blast
  moreover have "xi_operands_ok (moved l i) len'"
  proof -
    have "0 \<le> g" if "map_of (cl_handles l) h = Some g" for h g
      using handles map_of_SomeD [OF that] by force
    then show ?thesis
      using op(2) move [of "xi_true i"] move [of "xi_false i"] move [of "xi_unknown i"] h
      by (cases "xi_op i") (auto simp: moved_def xi_operands_ok_def split: option.splits)
  qed
  moreover have "xi_next (moved l i) \<noteq> None \<Longrightarrow> xi_op (moved l i) \<in> {Wait, Emit, Handoff} \<and> opt_in_range (xi_next (moved l i)) len'"
    using nx move [of "xi_next i"] by (auto simp: moved_def)
  ultimately show ?thesis using op(1) unfolding xi_validate_def by (auto simp: moved_def)
qed

lemma handoff_valid:
  assumes "xi_validate n len i = Inr ()" and "0 \<le> cl_program l" and "cl_program l + int len \<le> int len'"
  shows "xi_validate n' len' (handoff_to l i) = Inr ()"
  using assms
  by (auto simp: xi_validate_def handoff_to_def instr_def xi_operands_ok_def opt_in_range_def in_range_def
      split: if_splits option.splits)

definition composed_artifact :: "xinstruction list \<Rightarrow> operator_spec list \<Rightarrow> int \<Rightarrow> int \<Rightarrow> string \<Rightarrow> xartifact" where
  "composed_artifact is specs slots width schema =
     \<lparr>xa_program = \<lparr>xp_slots = slots, xp_instructions = is @ [executive_halt], xp_schema = schema\<rparr>,
      xa_specs = sort_key ox_handle specs, xa_width = width, xa_schema = EXECUTIVE_PROGRAM_ARTIFACT_SCHEMA\<rparr>"

lemma validate_all: "map_r (xa_validate T Q) as = Inr vs \<longleftrightarrow> vs = as \<and> (\<forall>a\<in>set as. xa_validate T Q a = Inr a)"
proof -
  have "xa_validate T Q a = Inr u \<longleftrightarrow> u = a \<and> xa_validate T Q a = Inr a" for a u by (auto simp: xa_validate_iff)
  then have "(\<lambda>a u. xa_validate T Q a = Inr u) = (\<lambda>a u. u = a \<and> xa_validate T Q a = Inr a)" by fast
  then show ?thesis unfolding map_r_Inr_iff by (simp only:) (induction as arbitrary: vs; auto simp: list_all2_Cons1)
qed

lemma sharing_start: "sharing_inv share [] [] [] 0"
  by (simp add: sharing_inv_def)

lemma composition_of:
  assumes "compose_executive_artifacts T Q as share fe schema = Inr c"
  obtains ls e n "is" specs where "lay_out share as 0 0 0 [] = (ls, e, n)"
    and "compose_components share fe ls e [] = Inr (is, specs)"
    and "c = composed_artifact is specs n (xa_width (hd as)) schema" and "xa_validate T Q c = Inr c"
    and "as \<noteq> []" and "\<forall>a\<in>set as. xa_validate T Q a = Inr a \<and> xa_width a = xa_width (hd as) \<and> 1 \<le> body_length a"
proof -
  obtain vs where vs: "map_r (xa_validate T Q) as = Inr vs"
    using assms by (cases "map_r (xa_validate T Q) as") (auto simp: compose_executive_artifacts_def split: if_splits)
  have as: "vs = as" "\<forall>a\<in>set as. xa_validate T Q a = Inr a" using vs validate_all by blast+
  obtain ls e n where ls: "lay_out share as 0 0 0 [] = (ls, e, n)" by (cases "lay_out share as 0 0 0 []") auto
  define W where "W \<longleftrightarrow> (\<exists>a\<in>set as. xa_width a \<noteq> xa_width (hd as))"
  define B where "B \<longleftrightarrow> (\<exists>a\<in>set as. body_length a < 1)"
  have "as \<noteq> []" "\<not> W" "\<not> B"
    and main: "bind_r (compose_components share fe ls e []) (\<lambda>(is, specs).
      xa_validate T Q (composed_artifact is specs n (xa_width (hd as)) schema)) = Inr c"
    using assms unfolding compose_executive_artifacts_def vs bind_r_Inr as(1) ls composed_artifact_def W_def [symmetric] B_def [symmetric]
    by (simp_all add: bind_r_eq_Inr [of "all_r _ _"] split: if_splits)
  then have ok: "as \<noteq> []" "\<forall>a\<in>set as. xa_width a = xa_width (hd as) \<and> 1 \<le> body_length a"
    unfolding W_def B_def not_less [symmetric] by blast+
  obtain "is" specs where "is": "compose_components share fe ls e [] = Inr (is, specs)"
      and c: "xa_validate T Q (composed_artifact is specs n (xa_width (hd as)) schema) = Inr c"
    using main by (auto simp: bind_r_eq_Inr)
  have eq: "c = composed_artifact is specs n (xa_width (hd as)) schema" using c by (simp add: xa_validate_iff)
  show thesis
    by (rule that [OF ls "is" eq c [folded eq] ok(1)]) (use ok(2) as(2) in blast)
qed

lemma valid_specs_ok: "xa_validate T Q a = Inr a \<Longrightarrow> specs_ok a"
  by (simp add: xa_validate_iff specs_ok_def)

lemma instructions_of_valid:
  assumes "xa_validate T Q a = Inr a"
  shows "\<forall>i\<in>set (xp_instructions (xa_program a)).
      xi_validate (xp_slots (xa_program a)) (length (xp_instructions (xa_program a))) i = Inr ()"
    and "1 \<le> xp_slots (xa_program a)" and "int (length (xp_instructions (xa_program a))) = body_length a + 1"
    and "xi_op (last (xp_instructions (xa_program a))) = Halt"
  using assms
  by (auto simp: xa_validate_iff xp_validate_def bind_r_eq_Inr all_r_Inr_iff body_length_def split: if_splits)

text \<open>Every address before the final HALT lies in the body of one component.\<close>

lemma body_of_address:
  assumes "0 \<le> q" and "q < int (sum_list ns)"
  shows "\<exists>k<length ns. \<exists>p<ns ! k. q = int (sum_list (take k ns) + p)"
  using assms
proof (induction ns arbitrary: q)
  case (Cons n ns)
  show ?case
  proof (cases "q < int n")
    case True
    then show ?thesis using Cons.prems(1) by (intro exI [of _ 0]) (auto intro: exI [of _ "nat q"])
  next
    case False
    obtain k p where "k < length ns" "p < ns ! k" "q - int n = int (sum_list (take k ns) + p)"
      using Cons.IH [of "q - int n"] Cons.prems False by auto
    then show ?thesis by (intro exI [of _ "Suc k"]) auto
  qed
qed simp

text \<open>Where a component lies in the composed program, and what its instructions became.\<close>

lemma component_placed:
  assumes ls: "lay_out share as 0 0 0 [] = (ls, e, n)" and "is": "compose_components share fe ls e [] = Inr (is, specs)"
    and valid: "\<forall>a\<in>set as. xa_validate T Q a = Inr a" and k: "k < length as"
  shows "cl_artifact (ls ! k) = as ! k" and "0 \<le> cl_program (ls ! k)" and "0 \<le> cl_slots (ls ! k)"
    and "cl_program (ls ! k) + body_length (as ! k) \<le> int (length is)"
    and "cl_slots (ls ! k) + xp_slots (xa_program (as ! k)) \<le> n"
    and "\<forall>g\<in>snd ` set (cl_handles (ls ! k)). 0 \<le> g"
    and "\<forall>s\<in>set (xa_specs (as ! k)). \<exists>g. map_of (cl_handles (ls ! k)) (ox_handle s) = Some g \<and> s\<lparr>ox_handle := g\<rparr> \<in> set specs"
    and "map fst (cl_handles (ls ! k)) = map ox_handle (xa_specs (as ! k))"
    and "\<forall>p. 0 \<le> p \<and> p < body_length (as ! k) \<longrightarrow>
      relocate_instruction fe (ls ! k) (Suc k < length as) (cl_program (ls ! k) + body_length (as ! k))
        (xp_instructions (xa_program (as ! k)) ! nat p) = Inr (is ! nat (cl_program (ls ! k) + p))"
proof -
  have len: "length ls = length as" and arts: "map cl_artifact ls = as"
    using lay_out_artifacts [OF ls] by auto
  show art: "cl_artifact (ls ! k) = as ! k" using arts k len by (metis nth_map)
  have bodies: "\<forall>a\<in>set as. 0 \<le> body_length a" using valid validated_body by blast
  have slots: "\<forall>a\<in>set as. 0 \<le> xp_slots (xa_program a)" using valid instructions_of_valid(2) by fastforce
  note at = lay_out_offsets [OF ls]
  have split: "sum_list (map f as) = sum_list (map f (take k as)) + f (as ! k) + sum_list (map f (drop (Suc k) as))" for f :: "xartifact \<Rightarrow> int"
    using arg_cong [OF id_take_nth_drop [OF k], of "\<lambda>xs. sum_list (map f xs)"] by simp
  show "0 \<le> cl_program (ls ! k)" "0 \<le> cl_slots (ls ! k)"
    using at k bodies slots by (auto intro!: sum_list_nonneg dest!: in_set_takeD)
  have "0 \<le> sum_list (map body_length (drop (Suc k) as))" "0 \<le> sum_list (map (xp_slots \<circ> xa_program) (drop (Suc k) as))"
    using bodies slots by (auto intro!: sum_list_nonneg dest!: in_set_dropD)
  note inside = this composed_instructions [OF ls "is" bodies]
  show "cl_program (ls ! k) + body_length (as ! k) \<le> int (length is)"
    using at k inside split [of body_length] by simp
  show "cl_slots (ls ! k) + xp_slots (xa_program (as ! k)) \<le> n"
    using at k inside split [of "xp_slots \<circ> xa_program"] by simp
  have "\<forall>a\<in>set as. specs_ok a" using valid valid_specs_ok by blast
  note specs = composed_specs [OF ls sharing_start this "is"]
  then show mapped: "\<forall>s\<in>set (xa_specs (as ! k)). \<exists>g. map_of (cl_handles (ls ! k)) (ox_handle s) = Some g \<and> s\<lparr>ox_handle := g\<rparr> \<in> set specs"
    using k by simp
  show handles: "map fst (cl_handles (ls ! k)) = map ox_handle (xa_specs (as ! k))"
    using lay_out_handles [OF ls] k by simp
  show "\<forall>g\<in>snd ` set (cl_handles (ls ! k)). 0 \<le> g"
  proof
    fix g assume "g \<in> snd ` set (cl_handles (ls ! k))"
    then obtain h where h: "(h, g) \<in> set (cl_handles (ls ! k))" by auto
    then have "h \<in> set (map ox_handle (xa_specs (as ! k)))" unfolding handles [symmetric] by force
    then obtain s where s: "s \<in> set (xa_specs (as ! k))" "h = ox_handle s" by auto
    have "distinct (map fst (cl_handles (ls ! k)))" unfolding handles using valid k by (simp add: xa_validate_iff)
    then have "map_of (cl_handles (ls ! k)) (ox_handle s) = Some g" using h s(2) by simp
    then have "s\<lparr>ox_handle := g\<rparr> \<in> set specs" using mapped s(1) by fastforce
    then show "0 \<le> g" using specs by fastforce
  qed
  show "\<forall>p. 0 \<le> p \<and> p < body_length (as ! k) \<longrightarrow>
      relocate_instruction fe (ls ! k) (Suc k < length as) (cl_program (ls ! k) + body_length (as ! k))
        (xp_instructions (xa_program (as ! k)) ! nat p) = Inr (is ! nat (cl_program (ls ! k) + p))"
  proof (intro allI impI)
    fix p assume p: "0 \<le> p \<and> p < body_length (as ! k)"
    then have "nat p < length (xp_instructions (xa_program (as ! k))) - 1" unfolding body_length_def by linarith
    then show "relocate_instruction fe (ls ! k) (Suc k < length as) (cl_program (ls ! k) + body_length (as ! k))
        (xp_instructions (xa_program (as ! k)) ! nat p) = Inr (is ! nat (cl_program (ls ! k) + p))"
      using inside(3) k p next_component_eq [OF ls k] by (auto simp: len)
  qed
qed

lemma address_in_component:
  assumes ls: "lay_out share as 0 0 0 [] = (ls, e, n)" and "is": "compose_components share fe ls e [] = Inr (is, specs)"
    and valid: "\<forall>a\<in>set as. xa_validate T Q a = Inr a" and q: "q < length is"
  obtains k p where "k < length as" and "0 \<le> p" and "p < body_length (as ! k)" and "int q = cl_program (ls ! k) + p"
proof -
  have bodies: "\<forall>a\<in>set as. 0 \<le> body_length a" using valid validated_body by blast
  let ?ns = "map (nat \<circ> body_length) as"
  have sum: "int (sum_list (map (nat \<circ> body_length) xs)) = sum_list (map body_length xs)" if "set xs \<subseteq> set as" for xs
    using that bodies by (induction xs) auto
  have "int (length is) = sum_list (map body_length as)"
    using composed_instructions [OF ls "is" bodies] lay_out_offsets [OF ls] by simp
  then have "int q < int (sum_list ?ns)" using q sum [of as] by simp
  then obtain k p where kp: "k < length ?ns" "p < ?ns ! k" "int q = int (sum_list (take k ?ns) + p)"
    using body_of_address [of "int q" ?ns] by auto
  have "int (sum_list (take k ?ns)) = cl_program (ls ! k)"
    using lay_out_offsets [OF ls] kp(1) sum [of "take k as"] by (simp add: take_map set_take_subset)
  then show thesis using that [of k "int p"] kp bodies by (simp add: nat_less_iff)
qed

lemma composed_valid:
  assumes ls: "lay_out share as 0 0 0 [] = (ls, e, n)" and "is": "compose_components share fe ls e [] = Inr (is, specs)"
    and valid: "\<forall>a\<in>set as. xa_validate T Q a = Inr a" and as: "as \<noteq> []"
    and schema: "schema \<in> {LEGACY_EXECUTIVE_PROGRAM_SCHEMA, EXECUTIVE_PROGRAM_SCHEMA}" and width: "1 \<le> width"
  shows "xa_validate T Q (composed_artifact is specs n width schema) = Inr (composed_artifact is specs n width schema)"
proof -
  let ?is = "is @ [executive_halt]"
  have shape: "xi_validate n (length ?is) i = Inr ()
      \<and> (xi_op i = Call \<longrightarrow> (\<exists>g. xi_handle i = Some g \<and> g \<in> ox_handle ` set specs))" if i: "i \<in> set is" for i
  proof -
    obtain q where q: "q < length is" "i = is ! q" using i by (auto simp: in_set_conv_nth)
    obtain k p where k: "k < length as" and p: "0 \<le> p" "p < body_length (as ! k)" "int q = cl_program (ls ! k) + p"
      using address_in_component [OF ls "is" valid q(1)] .
    note placed = component_placed [OF ls "is" valid k]
    define j where "j = xp_instructions (xa_program (as ! k)) ! nat p"
    have vk: "xa_validate T Q (as ! k) = Inr (as ! k)" using valid k by simp
    have "nat p < length (xp_instructions (xa_program (as ! k)))" using p by (auto simp: body_length_def)
    then have j: "xi_validate (xp_slots (xa_program (as ! k))) (length (xp_instructions (xa_program (as ! k)))) j = Inr ()"
        "j \<in> set (xp_instructions (xa_program (as ! k)))"
      using instructions_of_valid(1) [OF vk] by (simp_all add: j_def)
    have q': "nat (cl_program (ls ! k) + p) = q" using p(3) by simp
    have "relocate_instruction fe (ls ! k) (Suc k < length as) (cl_program (ls ! k) + body_length (as ! k)) j = Inr i"
      using placed(9) p(1,2) unfolding j_def q(2) q' [symmetric] by blast
    then have cases: "if intermediate_handoff fe (Suc k < length as) j then i = handoff_to (ls ! k) j
        else i = moved (ls ! k) j \<and> (\<forall>h. xi_handle j = Some h \<longrightarrow> map_of (cl_handles (ls ! k)) h \<noteq> None)"
      by (rule relocate_shape) (simp add: placed(1))
    have room: "cl_program (ls ! k) + int (length (xp_instructions (xa_program (as ! k)))) \<le> int (length ?is)"
      using placed(4) instructions_of_valid(3) [OF vk] by simp
    show ?thesis
    proof (cases "intermediate_handoff fe (Suc k < length as) j")
      case True
      then show ?thesis using cases handoff_valid [OF j(1) placed(2) room, of n] by (simp add: handoff_to_def instr_def)
    next
      case False
      have "\<exists>g. map_of (cl_handles (ls ! k)) h = Some g \<and> g \<in> ox_handle ` set specs"
        if call: "xi_op j = Call" "xi_handle j = Some h" for h
      proof -
        obtain s where s: "s \<in> set (xa_specs (as ! k))" "h = ox_handle s"
          using vk j(2) call by (auto simp: xa_validate_iff calls_bound_def)
        then show ?thesis using placed(7) by force
      qed
      moreover have "\<exists>h. xi_handle j = Some h" if "xi_op j = Call"
        using vk j(2) that by (auto simp: xa_validate_iff calls_bound_def)
      ultimately show ?thesis
        using False cases moved_valid [OF j(1) _ placed(2,3,5) room placed(6)] by (auto simp: moved_def)
    qed
  qed
  have slots: "1 \<le> n"
  proof -
    have "0 < length as" using as by simp
    note placed = component_placed(3,5) [OF ls "is" valid this]
    moreover have "1 \<le> xp_slots (xa_program (as ! 0))"
      using valid as by (intro instructions_of_valid(2) [of T Q]) simp
    ultimately show ?thesis by linarith
  qed
  have halt: "xi_validate n (length ?is) executive_halt = Inr ()"
    by (simp add: executive_halt_def instr_def xi_validate_def xi_operands_ok_def)
  have "\<forall>a\<in>set as. specs_ok a" using valid valid_specs_ok by blast
  note specs = composed_specs [OF ls sharing_start this "is"]
  have "all_r (xi_validate n (length ?is)) ?is = Inr ()" using shape halt by (auto simp: all_r_Inr_iff)
  then have program: "xp_validate \<lparr>xp_slots = n, xp_instructions = ?is, xp_schema = schema\<rparr> =
      Inr \<lparr>xp_slots = n, xp_instructions = ?is, xp_schema = schema\<rparr>"
    using schema slots by (auto simp: xp_validate_def executive_halt_def instr_def)
  have calls: "calls_bound (composed_artifact is specs n width schema)"
    using shape by (fastforce simp: calls_bound_def composed_artifact_def executive_halt_def instr_def)
  have "distinct (map ox_handle (sort_key ox_handle specs))"
    using specs by (simp add: distinct_map distinct_sort)
  then show ?thesis
    using program calls specs width by (simp add: xa_validate_iff composed_artifact_def)
qed

section \<open>Success and failure of composing\<close>

lemma all_handoff:
  assumes "\<forall>a\<in>set as. xa_validate T Q a = Inr a"
  shows "all_r (\<lambda>a. bind_r (executive_artifact_can_handoff T Q a) (\<lambda>b. if b then Inr () else Inl ValueError)) as =
    (if \<forall>a\<in>set as. executive_artifact_can_handoff T Q a = Inr True then Inr () else Inl ValueError)"
  using assms by (induction as) (auto simp: can_handoff_eq)

text \<open>Everything but the handles fits: the checks of the code before it composes.\<close>

definition components_fit :: "'t tensor_lib \<Rightarrow> 't operator_torch \<Rightarrow> xartifact list \<Rightarrow> string \<Rightarrow> bool" where
  "components_fit T Q as schema \<longleftrightarrow> as \<noteq> [] \<and> schema \<in> {LEGACY_EXECUTIVE_PROGRAM_SCHEMA, EXECUTIVE_PROGRAM_SCHEMA}
     \<and> (\<forall>a\<in>set as. xa_width a = xa_width (hd as) \<and> 1 \<le> body_length a)
     \<and> (\<forall>a\<in>set (butlast as). executive_artifact_can_handoff T Q a = Inr True)"

lemma compose_run:
  assumes valid: "\<forall>a\<in>set as. xa_validate T Q a = Inr a" and ls: "lay_out share as 0 0 0 [] = (ls, e, n)"
  shows "compose_executive_artifacts T Q as share fe schema =
    (if components_fit T Q as schema
     then bind_r (compose_components share fe ls e []) (\<lambda>(is, specs).
       xa_validate T Q (composed_artifact is specs n (xa_width (hd as)) schema))
     else Inl ValueError)"
proof -
  have vs: "map_r (xa_validate T Q) as = Inr as" using valid validate_all by blast
  have as: "\<forall>a\<in>set as. xa_schema a = EXECUTIVE_PROGRAM_ARTIFACT_SCHEMA" using valid by (simp add: xa_validate_iff)
  define W where "W \<longleftrightarrow> (\<exists>a\<in>set as. xa_width a \<noteq> xa_width (hd as))"
  define B where "B \<longleftrightarrow> (\<exists>a\<in>set as. body_length a < 1)"
  define H where "H \<longleftrightarrow> (\<forall>a\<in>set (butlast as). executive_artifact_can_handoff T Q a = Inr True)"
  define S where "S \<longleftrightarrow> schema \<in> {LEGACY_EXECUTIVE_PROGRAM_SCHEMA, EXECUTIVE_PROGRAM_SCHEMA}"
  have "\<forall>a\<in>set (butlast as). xa_validate T Q a = Inr a" using valid by (auto dest: in_set_butlastD)
  note handoff = all_handoff [OF this, folded H_def]
  have "components_fit T Q as schema \<longleftrightarrow> as \<noteq> [] \<and> S \<and> \<not> W \<and> H \<and> \<not> B"
    unfolding components_fit_def W_def B_def S_def H_def not_less [symmetric] by blast
  then show ?thesis
    using as unfolding compose_executive_artifacts_def vs bind_r_Inr ls handoff W_def [symmetric] B_def [symmetric]
      S_def [symmetric] composed_artifact_def by auto
qed

text \<open>With \<open>final_emit_only\<close> no instruction before the last component is an EMIT.\<close>

lemma quiet_prelude:
  assumes ls: "lay_out share as 0 0 0 [] = (ls, e, n)" and "is": "compose_components share True ls e [] = Inr (is, specs)"
    and valid: "\<forall>a\<in>set as. xa_validate T Q a = Inr a" and as: "as \<noteq> []"
    and q: "0 \<le> q" "q < cl_program (ls ! (length as - 1))"
  shows "xi_op (is ! nat q) \<noteq> Emit"
proof -
  have last: "length as - 1 < length as" using as by simp
  have "q < int (length is)" using component_placed(4) [OF ls "is" valid last] validated_body valid q(2) nth_mem [OF last] by fastforce
  then have "nat q < length is" using q(1) by (simp add: nat_less_iff)
  then obtain k p where k: "k < length as" and p: "0 \<le> p" "p < body_length (as ! k)" "int (nat q) = cl_program (ls ! k) + p"
    by (rule address_in_component [OF ls "is" valid])
  note placed = component_placed [OF ls "is" valid k]
  have "Suc k < length as"
  proof (rule ccontr)
    assume "\<not> Suc k < length as"
    then have "k = length as - 1" using k by simp
    then show False using p(1,3) q by simp
  qed
  moreover have q': "nat (cl_program (ls ! k) + p) = nat q" using p(3) q(1) by simp
  then have "relocate_instruction True (ls ! k) (Suc k < length as) (cl_program (ls ! k) + body_length (as ! k))
      (xp_instructions (xa_program (as ! k)) ! nat p) = Inr (is ! nat q)"
    using placed(9) p(1,2) by metis
  from relocate_shape [OF this] show ?thesis
    using \<open>Suc k < length as\<close>
    by (auto simp: placed(1) intermediate_handoff_def handoff_to_def moved_def instr_def split: if_splits)
qed

lemma compose_cases:
  assumes valid: "\<forall>a\<in>set as. xa_validate T Q a = Inr a"
  shows "components_fit T Q as schema \<Longrightarrow> handles_resolve fe as \<Longrightarrow>
      \<exists>c. compose_executive_artifacts T Q as share fe schema = Inr c"
    and "components_fit T Q as schema \<Longrightarrow> \<not> handles_resolve fe as \<Longrightarrow>
      compose_executive_artifacts T Q as share fe schema = Inl KeyError"
    and "\<not> components_fit T Q as schema \<Longrightarrow> compose_executive_artifacts T Q as share fe schema = Inl ValueError"
proof -
  obtain ls e n where ls: "lay_out share as 0 0 0 [] = (ls, e, n)" by (cases "lay_out share as 0 0 0 []") auto
  note run = compose_run [OF valid ls, of fe schema]
  have "\<forall>a\<in>set as. specs_ok a" using valid valid_specs_ok by blast
  note cases = compose_components_cases [OF ls sharing_start this, of fe e]
  show "compose_executive_artifacts T Q as share fe schema = Inl ValueError" if "\<not> components_fit T Q as schema"
    using run that by simp
  show "compose_executive_artifacts T Q as share fe schema = Inl KeyError"
    if "components_fit T Q as schema" "\<not> handles_resolve fe as"
    using run that cases by simp
  show "\<exists>c. compose_executive_artifacts T Q as share fe schema = Inr c"
    if fit: "components_fit T Q as schema" and resolve: "handles_resolve fe as"
  proof -
    obtain "is" specs where "is": "compose_components share fe ls e [] = Inr (is, specs)"
      using cases resolve by (auto simp: is_ok_iff)
    have as: "as \<noteq> []" "schema \<in> {LEGACY_EXECUTIVE_PROGRAM_SCHEMA, EXECUTIVE_PROGRAM_SCHEMA}"
      using fit by (simp_all add: components_fit_def)
    have "1 \<le> xa_width (hd as)" using valid as(1) by (simp add: xa_validate_iff)
    then show ?thesis using composed_valid [OF ls "is" valid as] run fit by (simp add: "is")
  qed
qed

lemma composition_facts:
  assumes "compose_executive_artifacts T Q as share fe schema = Inr c"
  shows "xa_validate T Q c = Inr c" and "xa_width c = xa_width (hd as)"
    and "xp_slots (xa_program c) = sum_list (map (xp_slots \<circ> xa_program) as)"
    and "int (length (xp_instructions (xa_program c))) = sum_list (map body_length as) + 1"
    and "fe \<Longrightarrow> 0 \<le> q \<Longrightarrow> q < sum_list (map body_length (butlast as)) \<Longrightarrow> xi_op (xp_instructions (xa_program c) ! nat q) \<noteq> Emit"
proof -
  obtain ls e n "is" specs where ls: "lay_out share as 0 0 0 [] = (ls, e, n)"
    and "is": "compose_components share fe ls e [] = Inr (is, specs)"
    and c: "c = composed_artifact is specs n (xa_width (hd as)) schema" and cv: "xa_validate T Q c = Inr c" and as: "as \<noteq> []"
    and good: "\<forall>a\<in>set as. xa_validate T Q a = Inr a \<and> xa_width a = xa_width (hd as) \<and> 1 \<le> body_length a"
    using assms by (rule composition_of)
  have valid: "\<forall>a\<in>set as. xa_validate T Q a = Inr a" and bodies: "\<forall>a\<in>set as. 0 \<le> body_length a"
    using good validated_body by blast+
  note at = lay_out_offsets [OF ls] and len = composed_instructions [OF ls "is" bodies]
  show "xa_validate T Q c = Inr c" by (rule cv)
  show "xa_width c = xa_width (hd as)" "xp_slots (xa_program c) = sum_list (map (xp_slots \<circ> xa_program) as)"
    "int (length (xp_instructions (xa_program c))) = sum_list (map body_length as) + 1"
    using at len by (simp_all add: c composed_artifact_def)
  assume fe: fe and q: "0 \<le> q" "q < sum_list (map body_length (butlast as))"
  have start: "cl_program (ls ! (length as - 1)) = sum_list (map body_length (butlast as))"
    using at as by (simp add: butlast_conv_take)
  have "xi_op (is ! nat q) \<noteq> Emit"
    using quiet_prelude [OF ls _ valid as q(1)] "is" fe q(2) start by simp
  moreover have "q < int (length is)"
  proof -
    have "cl_program (ls ! (length as - 1)) \<le> int (length is)"
      using component_placed(4) [OF ls "is" valid, of "length as - 1"] bodies as nth_mem [of "length as - 1" as] by fastforce
    then show ?thesis using q(2) start by simp
  qed
  ultimately show "xi_op (xp_instructions (xa_program c) ! nat q) \<noteq> Emit"
    using q(1) by (simp add: c composed_artifact_def nth_append nat_less_iff)
qed

section \<open>A prelude and a skill\<close>

text \<open>A prelude that stores the event, composed with a skill that waits for ever.\<close>

definition prelude_artifact :: xartifact where
  "prelude_artifact = \<lparr>xa_program = \<lparr>xp_slots = 1,
       xp_instructions = [(instr Receive)\<lparr>xi_destination := Some 0\<rparr>, instr Halt], xp_schema = EXECUTIVE_PROGRAM_SCHEMA\<rparr>,
     xa_specs = [], xa_width = 1, xa_schema = EXECUTIVE_PROGRAM_ARTIFACT_SCHEMA\<rparr>"

definition relay_artifact :: xartifact where
  "relay_artifact = \<lparr>xa_program = \<lparr>xp_slots = 2,
       xp_instructions = [(instr Receive)\<lparr>xi_destination := Some 0\<rparr>, (instr Wait)\<lparr>xi_next := Some 1\<rparr>, instr Halt],
       xp_schema = EXECUTIVE_PROGRAM_SCHEMA\<rparr>,
     xa_specs = [], xa_width = 1, xa_schema = EXECUTIVE_PROGRAM_ARTIFACT_SCHEMA\<rparr>"

lemma prelude_valid: "xa_validate T Q prelude_artifact = Inr prelude_artifact"
  by (simp add: xa_validate_iff prelude_artifact_def xp_validate_def instr_def xi_validate_def xi_operands_ok_def
      opt_in_range_def in_range_def calls_bound_def)

lemma prelude_hands_off: "executive_artifact_can_handoff T Q prelude_artifact = Inr True"
  by (simp add: executive_artifact_can_handoff_def prelude_valid)
     (simp add: prelude_artifact_def instr_def slot_at_def py_index_def in_range_def handoff_targets_def)

lemma relay_fits: "components_fit T Q [prelude_artifact, waiting_artifact] EXECUTIVE_PROGRAM_SCHEMA"
  by (simp add: components_fit_def prelude_hands_off)
     (simp add: prelude_artifact_def waiting_artifact_def body_length_def)

lemma relay_resolves: "handles_resolve fe [prelude_artifact, waiting_artifact]"
  by (simp add: handle_resolves_def prelude_artifact_def waiting_artifact_def instr_def)

lemma relay_layout:
  "lay_out share [prelude_artifact, waiting_artifact] 0 0 0 [] =
    ([\<lparr>cl_artifact = prelude_artifact, cl_program = 0, cl_slots = 0, cl_handles = []\<rparr>,
      \<lparr>cl_artifact = waiting_artifact, cl_program = 1, cl_slots = 1, cl_handles = []\<rparr>], 2, 2)"
  by (simp add: handle_map_def own_map_def maximum_handle_def)
     (simp add: prelude_artifact_def waiting_artifact_def body_length_def handle_map_def own_map_def maximum_handle_def)

lemma relay_composes:
  "compose_executive_artifacts T Q [prelude_artifact, waiting_artifact] share fe EXECUTIVE_PROGRAM_SCHEMA = Inr relay_artifact"
proof -
  have valid: "\<forall>a\<in>set [prelude_artifact, waiting_artifact]. xa_validate T Q a = Inr a"
    by (simp add: prelude_valid waiting_valid)
  have parts: "compose_components share fe [\<lparr>cl_artifact = prelude_artifact, cl_program = 0, cl_slots = 0, cl_handles = []\<rparr>,
      \<lparr>cl_artifact = waiting_artifact, cl_program = 1, cl_slots = 1, cl_handles = []\<rparr>] 2 [] =
      Inr (butlast (xp_instructions (xa_program relay_artifact)), [])"
    by (simp add: prelude_artifact_def waiting_artifact_def relay_artifact_def relocate_instruction_def
        intermediate_handoff_def relocate_target_def body_length_def instr_def)
  have whole: "composed_artifact (butlast (xp_instructions (xa_program relay_artifact))) [] 2 1 EXECUTIVE_PROGRAM_SCHEMA = relay_artifact"
    by (simp add: composed_artifact_def relay_artifact_def executive_halt_def)
  have relay: "xa_validate T Q relay_artifact = Inr relay_artifact"
    by (simp add: xa_validate_iff relay_artifact_def xp_validate_def instr_def xi_validate_def xi_operands_ok_def
        opt_in_range_def in_range_def calls_bound_def)
  have width: "xa_width (hd [prelude_artifact, waiting_artifact]) = 1" by (simp add: prelude_artifact_def)
  show ?thesis
    unfolding compose_run [OF valid relay_layout] parts width bind_r_Inr prod.case whole relay by (simp add: relay_fits)
qed

section \<open>Properties\<close>

text \<open>
  C8. Composing is total.  For valid artifacts it succeeds exactly when the width agrees, every component has
  a body, every one but the last can hand off, and every handle is declared; the result passes the
  artifact validator, has the slots and the instructions of all bodies and one HALT, and with
  \<open>final_emit_only\<close> no EMIT before the last component.  A handle no spec declares is a KeyError, every other
  refusal a ValueError.
\<close>

theorem composition_total:
  assumes "\<forall>a\<in>set as. xa_validate T Q a = Inr a"
  shows "if components_fit T Q as schema \<and> handles_resolve fe as
    then \<exists>c. compose_executive_artifacts T Q as share fe schema = Inr c \<and> xa_validate T Q c = Inr c
      \<and> xp_slots (xa_program c) = sum_list (map (xp_slots \<circ> xa_program) as)
      \<and> int (length (xp_instructions (xa_program c))) = sum_list (map body_length as) + 1
      \<and> (fe \<longrightarrow> (\<forall>q. 0 \<le> q \<and> q < sum_list (map body_length (butlast as)) \<longrightarrow>
             xi_op (xp_instructions (xa_program c) ! nat q) \<noteq> Emit))
    else compose_executive_artifacts T Q as share fe schema =
      (if components_fit T Q as schema then Inl KeyError else Inl ValueError)"
proof (cases "components_fit T Q as schema \<and> handles_resolve fe as")
  case True
  then obtain c where c: "compose_executive_artifacts T Q as share fe schema = Inr c"
    using compose_cases(1) [OF assms] by blast
  show ?thesis unfolding if_P [OF True] using c composition_facts [OF c] by blast
next
  case False
  then show ?thesis using compose_cases(2,3) [OF assms] by (cases "components_fit T Q as schema") simp_all
qed

theorem composition_total_witness:
  "\<exists>c. compose_executive_artifacts column_torch column_ops [prelude_artifact, waiting_artifact] True True
      EXECUTIVE_PROGRAM_SCHEMA = Inr c \<and> xp_slots (xa_program c) = 2"
proof -
  have valid: "\<forall>a\<in>set [prelude_artifact, waiting_artifact]. xa_validate column_torch column_ops a = Inr a"
    by (simp add: prelude_valid waiting_valid)
  have "sum_list (map (xp_slots \<circ> xa_program) [prelude_artifact, waiting_artifact]) = 2"
    by (simp add: prelude_artifact_def waiting_artifact_def)
  then show ?thesis
    using composition_total [OF valid, of EXECUTIVE_PROGRAM_SCHEMA True True]
    unfolding if_P [OF conjI [OF relay_fits relay_resolves]] by auto
qed

end
