(* ===== verification/ExecutiveComposeRun.thy ===== *)
theory ExecutiveComposeRun
  imports ExecutiveCompose
begin

text \<open>
  How a component runs inside a composition (\<open>compose_executive_artifacts\<close>).  \<open>place_regs\<close> puts the registers
  of a component, running on its own, into the registers of the composition: its slots and operator states
  at their relocated places, the pointer moved, everything else left as it is.  One instruction of the
  composition is then one instruction of the component, errors included, so runs and whole sessions carry
  over.
\<close>

section \<open>Registers of a component inside the composition\<close>

definition place_slots :: "int \<Rightarrow> 'v list \<Rightarrow> 'v list \<Rightarrow> 'v list" where
  "place_slots offset base ws = take (nat offset) base @ ws @ drop (nat offset + length ws) base"

definition place_operators :: "(int \<times> int) list \<Rightarrow> (int \<times> 's) list \<Rightarrow> (int \<times> 's) list \<Rightarrow> (int \<times> 's) list" where
  "place_operators hm base ops =
     map (\<lambda>(g, s). (g, case find (\<lambda>x. snd x = g) hm of
                         None \<Rightarrow> s
                       | Some (h, _) \<Rightarrow> (case map_of ops h of None \<Rightarrow> s | Some s' \<Rightarrow> s'))) base"

definition place_regs :: "component_layout \<Rightarrow> 't xregs \<Rightarrow> 't xregs \<Rightarrow> 't xregs" where
  "place_regs l base rg =
     \<lparr>rg_workspace = place_slots (cl_slots l) (rg_workspace base) (rg_workspace rg),
      rg_accumulator = rg_accumulator rg,
      rg_operators = place_operators (cl_handles l) (rg_operators base) (rg_operators rg),
      rg_pointer = cl_program l + rg_pointer rg\<rparr>"

fun map_outcome :: "('t xregs \<Rightarrow> 't xregs) \<Rightarrow> 't xoutcome \<Rightarrow> 't xoutcome" where
  "map_outcome f (Next rg) = Next (f rg)"
| "map_outcome f (Yield st intent rg) = Yield st intent (f rg)"

lemma place_slot:
  assumes "in_range s (length ws)" and "0 \<le> offset" and "nat offset \<le> length base"
  shows "slot_at (place_slots offset base ws) (s + offset) = slot_at ws s"
proof -
  have "in_range (s + offset) (length (place_slots offset base ws))"
    using assms by (auto simp: in_range_def place_slots_def)
  moreover have "nat (s + offset) = nat offset + nat s" using assms by (auto simp: in_range_def)
  moreover have "nat s < length ws" using assms(1) by (rule in_range_nat)
  ultimately show ?thesis
    using slot_at_in_range [of "s + offset" "place_slots offset base ws"] slot_at_in_range [OF assms(1)] assms(3)
    by (simp add: place_slots_def nth_append)
qed

lemma place_write:
  assumes "in_range s (length ws)" and "0 \<le> offset" and "nat offset \<le> length base"
  shows "write_slot T c (place_slots offset base ws) (s + offset) v =
    bind_r (write_slot T c ws s v) (\<lambda>ws'. Inr (place_slots offset base ws'))"
proof -
  have "in_range (s + offset) (length (place_slots offset base ws))"
    using assms by (auto simp: in_range_def place_slots_def)
  moreover have "nat (s + offset) = nat offset + nat s" using assms by (auto simp: in_range_def)
  moreover have "nat s < length ws" using assms(1) by (rule in_range_nat)
  ultimately show ?thesis
    using py_index_in_range [of "s + offset" "place_slots offset base ws"] py_index_in_range [OF assms(1)] assms(3)
    by (simp add: write_slot_def place_slots_def list_update_append)
qed

lemma place_arguments:
  assumes "\<forall>s\<in>set ks. in_range s (length ws)" and "0 \<le> offset" and "nat offset \<le> length base"
  shows "map_r (slot_at (place_slots offset base ws)) (map (\<lambda>s. s + offset) ks) = map_r (slot_at ws) ks"
  unfolding map_r_map using assms by (intro map_r_cong refl place_slot) auto

lemma find_handle:
  assumes "map_of hm h = Some g" and "distinct (map snd hm)"
  shows "find (\<lambda>x. snd x = g) hm = Some (h, g)"
  using assms
proof (induction hm)
  case (Cons x hm)
  have "snd x \<noteq> g" if "map_of hm h = Some g"
    using Cons.prems(2) map_of_SomeD [OF that] by (force simp: image_iff)
  then show ?case using Cons by (cases x) (auto split: if_splits)
qed simp

lemma found_entry: "find P xs = Some x \<Longrightarrow> x \<in> set xs \<and> P x"
  by (induction xs) (auto split: if_splits)

lemma place_operators_lookup:
  assumes "map_of hm h = Some g" and "distinct (map snd hm)" and "g \<in> fst ` set base" and "map_of ops h = Some s"
  shows "map_of (place_operators hm base ops) g = Some s"
  using assms(3) unfolding place_operators_def
  by (induction base) (auto simp: find_handle [OF assms(1,2)] assms(4))

lemma update_present:
  assumes "distinct (map fst kvs)" and "k \<in> fst ` set kvs"
  shows "AList.update k v kvs = map (\<lambda>(k', v'). (k', if k' = k then v else v')) kvs"
  using assms
proof (induction kvs)
  case (Cons x kvs)
  have new: "fst x \<notin> fst ` set kvs" using Cons.prems(1) by simp
  have "(case y of (k', v') \<Rightarrow> (k', if k' = fst x then v else v')) = y" if "y \<in> set kvs" for y
    using new that by (cases y) (auto simp: rev_image_eqI)
  then have "map (\<lambda>(k', v'). (k', if k' = fst x then v else v')) kvs = kvs" by (rule map_idI)
  then show ?case using Cons by (cases x) (auto simp: image_iff)
qed simp

lemma place_operators_update:
  assumes "map_of hm h = Some g" and "distinct (map snd hm)" and "distinct (map fst base)" and "g \<in> fst ` set base"
    and "distinct (map fst hm)"
  shows "AList.update g s (place_operators hm base ops) = place_operators hm base (AList.update h s ops)"
proof -
  have "map fst (place_operators hm base ops) = map fst base"
    by (simp add: place_operators_def comp_def split_def)
  then have "AList.update g s (place_operators hm base ops) =
      map (\<lambda>(k', v'). (k', if k' = g then s else v')) (place_operators hm base ops)"
    using assms(3,4) by (intro update_present) (metis, metis list.set_map)
  also have "\<dots> = place_operators hm base (AList.update h s ops)"
  proof -
    have "h' \<noteq> h" if "find (\<lambda>x. snd x = k) hm = Some (h', g')" and "k \<noteq> g" for k h' g'
    proof -
      have "(h', g') \<in> set hm" "g' = k" using found_entry [OF that(1)] by auto
      then have "map_of hm h' = Some k" using assms(5) by simp
      then show ?thesis using assms(1) that(2) by auto
    qed
    then show ?thesis
      by (auto simp: place_operators_def find_handle [OF assms(1,2)] update_conv' split: option.splits prod.splits)
  qed
  finally show ?thesis .
qed

section \<open>One instruction\<close>

text \<open>Two operators that do the same under different handles.\<close>

definition same_operator :: "'t xoperator \<Rightarrow> 't xoperator \<Rightarrow> bool" where
  "same_operator p q \<longleftrightarrow> op_input_kinds q = op_input_kinds p \<and> op_output_kind q = op_output_kind p
     \<and> op_initial q = op_initial p \<and> op_validate q = op_validate p \<and> op_run q = op_run p"

lemma ox_build_handle_free:
  assumes "ox_build T Q s = Inr p" and "0 \<le> g"
  shows "\<exists>q. ox_build T Q (s\<lparr>ox_handle := g\<rparr>) = Inr q \<and> same_operator p q"
proof -
  have valid: "ox_validate s = Inr s" using assms(1) ox_validate_result [of s] by (auto simp: ox_build_def bind_r_eq_Inr)
  show ?thesis
    using assms ox_validate_handle [OF valid assms(2)] ox_build_total [OF ox_validate_handle [OF valid assms(2)], of T Q] valid
    by (auto simp: ox_build_def same_operator_def bind_r_eq_Inr singleton_operator_def delay_operator_def
        equality_operator_def binary_intention_operator_def pure_operator_def split: operator_kind.splits if_splits)
qed

lemma xr_call_same:
  assumes "xr_operator r h = Inr p" and "xr_operator r' g = Inr q" and "same_operator p q"
  shows "xr_call T r' trusted batch g vs s = xr_call T r trusted batch h vs s"
proof -
  have same: "op_input_kinds q = op_input_kinds p" "op_output_kind q = op_output_kind p"
      "op_validate q = op_validate p" "op_run q = op_run p"
    using assms(3) by (simp_all add: same_operator_def)
  show ?thesis unfolding xr_call_def assms(1,2) bind_r_Inr same ..
qed

text \<open>What the composition guarantees of a component.\<close>

definition embedded :: "bool \<Rightarrow> component_layout \<Rightarrow> 't executive \<Rightarrow> 't executive \<Rightarrow> bool" where
  "embedded quiet l C E \<longleftrightarrow> 0 \<le> cl_program l \<and> 0 \<le> cl_slots l
     \<and> cl_slots l + xp_slots (xe_program C) \<le> xp_slots (xe_program E)
     \<and> cl_program l + int (length (xp_instructions (xe_program C))) \<le> int (length (xp_instructions (xe_program E)))
     \<and> distinct (map fst (cl_handles l)) \<and> distinct (map snd (cl_handles l))
     \<and> xe_intention_width E = xe_intention_width C
     \<and> (\<forall>p. 0 \<le> p \<and> p + 1 < int (length (xp_instructions (xe_program C))) \<longrightarrow>
          xp_instructions (xe_program E) ! nat (cl_program l + p) =
              (let i = xp_instructions (xe_program C) ! nat p
               in if quiet \<and> xi_op i = Emit then handoff_to l i else moved l i))
     \<and> (\<forall>h g. map_of (cl_handles l) h = Some g \<longrightarrow>
          (\<exists>p q. xr_operator (xe_operators C) h = Inr p \<and> xr_operator (xe_operators E) g = Inr q \<and> same_operator p q))
     \<and> (\<forall>i\<in>set (xp_instructions (xe_program C)). xi_op i = Call \<longrightarrow>
          (\<exists>h g. xi_handle i = Some h \<and> map_of (cl_handles l) h = Some g))"

text \<open>The registers of the composition have room for those of the component.\<close>

definition hosts :: "component_layout \<Rightarrow> 't executive \<Rightarrow> 't xregs \<Rightarrow> 't xregs \<Rightarrow> bool" where
  "hosts l C base rg \<longleftrightarrow> cl_slots l + xp_slots (xe_program C) \<le> int (length (rg_workspace base))
     \<and> int (length (rg_workspace rg)) = xp_slots (xe_program C)
     \<and> distinct (map fst (rg_operators base))
     \<and> (\<forall>(h, g)\<in>set (cl_handles l). h \<in> fst ` set (rg_operators rg) \<and> g \<in> fst ` set (rg_operators base))"

lemma place_regs_simps:
  "rg_workspace (place_regs l base rg) = place_slots (cl_slots l) (rg_workspace base) (rg_workspace rg)"
  "rg_accumulator (place_regs l base rg) = rg_accumulator rg"
  "rg_operators (place_regs l base rg) = place_operators (cl_handles l) (rg_operators base) (rg_operators rg)"
  "rg_pointer (place_regs l base rg) = cl_program l + rg_pointer rg"
  by (simp_all add: place_regs_def)

lemma place_call:
  assumes emb: "embedded quiet l C E" and host: "hosts l C base rg"
    and valid: "xi_validate (xp_slots (xe_program C)) n i = Inr ()"
    and i: "i \<in> set (xp_instructions (xe_program C))" "xi_op i = Call"
  shows "xe_call T E trusted batch (moved l i) (place_regs l base rg) =
    bind_r (xe_call T C trusted batch i rg) (\<lambda>rg'. Inr (place_regs l base rg'))"
proof -
  obtain h g p q where h: "xi_handle i = Some h" "map_of (cl_handles l) h = Some g"
      "xr_operator (xe_operators C) h = Inr p" "xr_operator (xe_operators E) g = Inr q" "same_operator p q"
    using emb i unfolding embedded_def by metis
  obtain d where d: "xi_destination i = Some d"
    using operands_ok [OF valid] i(2) by (auto simp: xi_operands_ok_def)
  have ws: "int (length (rg_workspace rg)) = xp_slots (xe_program C)" using host by (simp add: hosts_def)
  have room: "0 \<le> cl_slots l" "nat (cl_slots l) \<le> length (rg_workspace base)"
    using emb host by (auto simp: embedded_def hosts_def)
  have keys: "h \<in> fst ` set (rg_operators rg)" "g \<in> fst ` set (rg_operators base)"
    using host map_of_SomeD [OF h(2)] by (auto simp: hosts_def)
  then obtain s where s: "map_of (rg_operators rg) h = Some s" by (metis domD dom_map_of_conv_image_fst)
  have snds: "distinct (map snd (cl_handles l))" "distinct (map fst (cl_handles l))" "distinct (map fst (rg_operators base))"
    using emb host by (simp_all add: embedded_def hosts_def)
  have args: "map_r (slot_at (rg_workspace (place_regs l base rg))) (xi_arguments (moved l i)) =
      map_r (slot_at (rg_workspace rg)) (xi_arguments i)"
    unfolding place_regs_simps moved_def xinstruction.simps
    using place_arguments [of "xi_arguments i" "rg_workspace rg"] slot_operand(3) [OF valid ws] room by blast
  have look: "map_of (rg_operators (place_regs l base rg)) g = Some s"
    using place_operators_lookup [OF h(2) snds(1) keys(2) s] by (simp add: place_regs_simps)
  have wrote: "write_slot T c (rg_workspace (place_regs l base rg)) (d + cl_slots l) v =
      bind_r (write_slot T c (rg_workspace rg) d v) (\<lambda>ws'. Inr (place_slots (cl_slots l) (rg_workspace base) ws'))" for c v
    unfolding place_regs_simps by (rule place_write [OF slot_operand(2) [OF valid ws d] room])
  have update: "AList.update g s' (rg_operators (place_regs l base rg)) =
      place_operators (cl_handles l) (rg_operators base) (AList.update h s' (rg_operators rg))" for s'
    unfolding place_regs_simps by (rule place_operators_update [OF h(2) snds(1,3) keys(2) snds(2)])
  have dest: "xi_destination (moved l i) = Some (d + cl_slots l)" "xi_handle (moved l i) = Some g"
    by (simp_all add: moved_def d h)
  show ?thesis
    unfolding xe_call_def dest args h(1) d the_int_def option.simps bind_r_Inr h(3,4) look s
      xr_call_same [OF h(3,4,5)] wrote update
    by (auto simp: bind_r_def place_regs_def split: sum.splits)
qed

lemma row_target_shift:
  "row_target T present payload (c + t) (c + f) (c + u) row = c + row_target T present payload t f u row"
  by (simp add: row_target_def Let_def)

lemma agree_shift:
  "xs \<noteq> [] \<Longrightarrow> (if \<forall>x\<in>set (map (\<lambda>x. c + x) xs). x = hd (map (\<lambda>x. c + x) xs) then Inr (hd (map (\<lambda>x. c + x) xs)) else Inl e) =
     bind_r (if \<forall>x\<in>set xs. x = hd xs then Inr (hd xs) else Inl e) (\<lambda>t::int. Inr (c + t))"
  by (cases xs) simp_all

lemma place_branch:
  assumes "0 < batch"
  shows "branch_pointer T batch (moved l i) v = bind_r (branch_pointer T batch i v) (\<lambda>t. Inr (cl_program l + t))"
proof (cases "wv_payload v")
  case (TensorPayload payload)
  show ?thesis
  proof (cases "\<exists>t f u. xi_true i = Some t \<and> xi_false i = Some f \<and> xi_unknown i = Some u")
    case True
    then obtain t f u where tfu: "xi_true i = Some t" "xi_false i = Some f" "xi_unknown i = Some u" by blast
    define ts where "ts = map (row_target T (wv_present v) payload t f u) [0..<nat batch]"
    have shift: "map (row_target T (wv_present v) payload (cl_program l + t) (cl_program l + f) (cl_program l + u)) [0..<nat batch]
        = map (\<lambda>x. cl_program l + x) ts"
      by (simp add: row_target_shift ts_def)
    have "ts \<noteq> []" using assms by (simp add: ts_def)
    note agree = agree_shift [OF this]
    show ?thesis
      unfolding branch_pointer_def moved_def xinstruction.simps tfu option.map int_target_def option.case bind_r_Inr
        TensorPayload workspace_payload.case shift ts_def [symmetric] Let_def agree by simp
  next
    case False
    then show ?thesis
      by (cases "xi_unknown i"; cases "xi_true i"; cases "xi_false i")
         (simp_all add: branch_pointer_def moved_def int_target_def TensorPayload)
  qed
qed (simp_all add: branch_pointer_def)

lemma place_emit:
  assumes "xe_intention_width E = xe_intention_width C"
  shows "emit_intention T E v = emit_intention T C v"
  unfolding emit_intention_def assms ..

lemma place_next_pointer: "next_pointer (moved l i) (cl_program l + p) = cl_program l + next_pointer i p"
  by (simp add: next_pointer_def moved_def split: option.splits)

lemma place_step:
  assumes emb: "embedded quiet l C E" and host: "hosts l C base rg" and C: "exec_ok C" and batch: "0 < batch"
    and p: "0 \<le> rg_pointer rg" "rg_pointer rg + 1 < int (length (xp_instructions (xe_program C)))"
    and op: "\<not> (quiet \<and> xi_op (xp_instructions (xe_program C) ! nat (rg_pointer rg)) = Emit)"
  shows "xe_step T E events trusted batch (place_regs l base rg) =
    bind_r (xe_step T C events trusted batch rg) (\<lambda>out. Inr (map_outcome (place_regs l base) out))"
proof -
  define i where "i = xp_instructions (xe_program C) ! nat (rg_pointer rg)"
  have here: "in_range (rg_pointer rg) (length (xp_instructions (xe_program C)))" using p by (simp add: in_range_def)
  have there: "in_range (cl_program l + rg_pointer rg) (length (xp_instructions (xe_program E)))"
      "xp_instructions (xe_program E) ! nat (cl_program l + rg_pointer rg) = moved l i"
    using emb p op by (auto simp: embedded_def Let_def i_def in_range_def)
  have valid: "xi_validate (xp_slots (xe_program C)) (length (xp_instructions (xe_program C))) i = Inr ()"
    unfolding i_def by (rule instruction_valid [OF C here])
  have i: "i \<in> set (xp_instructions (xe_program C))" unfolding i_def by (rule nth_mem [OF in_range_nat [OF here]])
  have ws: "int (length (rg_workspace rg)) = xp_slots (xe_program C)" using host by (simp add: hosts_def)
  have room: "0 \<le> cl_slots l" "nat (cl_slots l) \<le> length (rg_workspace base)"
    and width: "xe_intention_width E = xe_intention_width C"
    using emb host by (auto simp: embedded_def hosts_def)
  note operands = operands_ok [OF valid, THEN conjunct1, unfolded xi_operands_ok_def]
  have slot: "slot_at (place_slots (cl_slots l) (rg_workspace base) (rg_workspace rg)) (s + cl_slots l) = slot_at (rg_workspace rg) s"
    if "xi_source i = Some s" for s
    by (rule place_slot [OF slot_operand(1) [OF valid ws that] room])
  have wrote: "write_slot T c (place_slots (cl_slots l) (rg_workspace base) (rg_workspace rg)) (d + cl_slots l) v =
      bind_r (write_slot T c (rg_workspace rg) d v) (\<lambda>ws'. Inr (place_slots (cl_slots l) (rg_workspace base) ws'))"
    if "xi_destination i = Some d" for d c v
    by (rule place_write [OF slot_operand(2) [OF valid ws that] room])
  have fields: "xi_op (moved l i) = xi_op i" "xi_source (moved l i) = map_option (\<lambda>s. s + cl_slots l) (xi_source i)"
      "xi_destination (moved l i) = map_option (\<lambda>s. s + cl_slots l) (xi_destination i)"
    by (simp_all add: moved_def)
  note unfold = xe_step_def Let_def place_regs_simps there here i_def [symmetric] fields the_int_def
  have update: "(place_regs l base rg)\<lparr>rg_pointer := q\<rparr> = place_regs l base (rg\<lparr>rg_pointer := q - cl_program l\<rparr>)" for q
    by (simp add: place_regs_def)
  show ?thesis
  proof (cases "xi_op i")
    case Receive
    then obtain d where "xi_destination i = Some d" using operands by auto
    then show ?thesis using Receive wrote by (auto simp: unfold bind_r_def place_regs_def split: sum.splits)
  next
    case Read
    then obtain s where "xi_source i = Some s" using operands by auto
    then show ?thesis using Read slot by (auto simp: unfold bind_r_def place_regs_def split: sum.splits)
  next
    case Write
    then obtain d where "xi_destination i = Some d" using operands by auto
    then show ?thesis using Write wrote by (auto simp: unfold bind_r_def place_regs_def split: sum.splits)
  next
    case CopySlot
    then obtain s d where "xi_source i = Some s" "xi_destination i = Some d" using operands by auto
    then show ?thesis using CopySlot slot wrote by (auto simp: unfold bind_r_def place_regs_def split: sum.splits)
  next
    case Call
    then show ?thesis using place_call [OF emb host valid i Call]
      by (auto simp: unfold bind_r_def split: sum.splits)
  next
    case Branch
    then obtain s where "xi_source i = Some s" using operands by auto
    then show ?thesis using Branch slot
      by (auto simp: unfold place_branch [OF batch] bind_r_def place_regs_def split: sum.splits)
  next
    case Wait
    then show ?thesis by (simp add: unfold place_next_pointer update)
  next
    case Emit
    then obtain s where "xi_source i = Some s" using operands by auto
    then show ?thesis using Emit slot
      by (auto simp: unfold place_emit [OF width] bind_r_def place_next_pointer update split: sum.splits)
  next
    case Handoff
    then show ?thesis by (simp add: unfold place_next_pointer update)
  next
    case Halt
    then show ?thesis by (simp add: unfold)
  next
    case OtherOp
    then show ?thesis using operands_ok [OF valid] by simp
  qed
qed

section \<open>Every component is embedded\<close>

definition layout_of :: "bool \<Rightarrow> xartifact list \<Rightarrow> nat \<Rightarrow> component_layout" where
  "layout_of share as k = fst (lay_out share as 0 0 0 []) ! k"

lemma registry_finds:
  assumes "xa_registry_of T Q specs = Inr r" and "distinct (map ox_handle specs)" and "s \<in> set specs"
    and "ox_build T Q s = Inr p"
  shows "xr_operator r (ox_handle s) = Inr p"
proof -
  obtain ps where ps: "map_r (ox_build T Q) specs = Inr ps" "xr_operators r = map (\<lambda>p. (op_handle p, p)) ps"
      "map op_handle ps = map ox_handle specs"
    using registry_of_spec [OF assms(1)] by blast
  obtain k where k: "k < length specs" "specs ! k = s" using assms(3) by (auto simp: in_set_conv_nth)
  have "k < length ps" "ps ! k = p" "op_handle p = ox_handle s"
    using ps(1) k assms(4) ox_build_handle by (auto simp: map_r_Inr_iff list_all2_conv_all_nth)
  then have "(ox_handle s, p) \<in> set (xr_operators r)" unfolding ps(2) by force
  moreover have "distinct (map fst (xr_operators r))" using assms(2) ps(3) by (simp add: ps(2) comp_def)
  ultimately show ?thesis by (simp add: xr_operator_def)
qed

lemma lay_out_own:
  assumes "lay_out False as body slots handle shared = (ls, e, n)"
  shows "\<forall>k<length as. \<exists>handle'. cl_handles (ls ! k) = own_map (xa_specs (as ! k)) handle'"
  using assms
proof (induction as arbitrary: body slots handle shared ls)
  case (Cons a as)
  obtain m handle' shared' ls' where m: "handle_map False (xa_specs a) handle shared = (m, handle', shared')"
    and rest: "lay_out False as (body + body_length a) (slots + xp_slots (xa_program a)) handle' shared' = (ls', e, n)"
    and ls: "ls = \<lparr>cl_artifact = a, cl_program = body, cl_slots = slots, cl_handles = m\<rparr> # ls'"
    using Cons.prems by (rule lay_out_cons)
  show ?case using Cons.IH [OF rest] m by (auto simp: ls handle_map_def nth_Cons' less_Suc_eq_0_disj)
qed simp

lemma handles_injective:
  assumes ls: "lay_out share as 0 0 0 [] = (ls, e, n)" and "is": "compose_components share fe ls e [] = Inr (is, specs)"
    and valid: "\<forall>a\<in>set as. xa_validate T Q a = Inr a" and k: "k < length as"
    and keys: "share \<Longrightarrow> distinct (map spec_key (xa_specs (as ! k)))"
  shows "distinct (map snd (cl_handles (ls ! k)))"
proof (cases share)
  case False
  obtain handle' where "cl_handles (ls ! k) = own_map (xa_specs (as ! k)) handle'"
    using lay_out_own [of as 0 0 0 "[]" ls e n] ls k False by auto
  moreover have "distinct (map ox_handle (xa_specs (as ! k)))" using valid k by (simp add: xa_validate_iff)
  ultimately show ?thesis by (auto simp: own_map_def comp_def distinct_map inj_on_def)
next
  case True
  note placed = component_placed(7,8) [OF ls "is" valid k]
  let ?hm = "cl_handles (ls ! k)"
  have fsts: "distinct (map fst ?hm)" unfolding placed(2) using valid k by (simp add: xa_validate_iff)
  have "\<forall>a\<in>set as. specs_ok a" using valid valid_specs_ok by blast
  then have written: "distinct (map ox_handle specs)" using composed_specs [OF ls sharing_start _ "is"] by simp
  have spec: "\<exists>s\<in>set (xa_specs (as ! k)). ox_handle s = fst x \<and> s\<lparr>ox_handle := snd x\<rparr> \<in> set specs" if "x \<in> set ?hm" for x
  proof -
    have "fst x \<in> set (map fst ?hm)" using that by simp
    then obtain s where s: "s \<in> set (xa_specs (as ! k))" "ox_handle s = fst x" unfolding placed(2) by auto
    have "map_of ?hm (fst x) = Some (snd x)" using fsts that by simp
    then show ?thesis using placed(1) s by fastforce
  qed
  have "inj_on snd (set ?hm)"
  proof (rule inj_onI)
    fix x y assume x: "x \<in> set ?hm" and y: "y \<in> set ?hm" and eq: "snd x = snd y"
    obtain s t where s: "s \<in> set (xa_specs (as ! k))" "ox_handle s = fst x" "s\<lparr>ox_handle := snd x\<rparr> \<in> set specs"
      and t: "t \<in> set (xa_specs (as ! k))" "ox_handle t = fst y" "t\<lparr>ox_handle := snd x\<rparr> \<in> set specs"
      using spec [OF x] spec [OF y] eq by auto
    have "s\<lparr>ox_handle := snd x\<rparr> = t\<lparr>ox_handle := snd x\<rparr>"
      by (rule inj_onD [OF conjunct2 [OF written [unfolded distinct_map]] _ s(3) t(3)]) simp
    then have "spec_key (s\<lparr>ox_handle := snd x\<rparr>) = spec_key (t\<lparr>ox_handle := snd x\<rparr>)" by (rule arg_cong)
    then have "spec_key s = spec_key t" by (simp add: spec_key_def)
    then have "s = t" using keys [OF True] s(1) t(1) by (auto simp: distinct_map dest: inj_onD)
    then show "x = y" using s(2) t(2) eq by (simp add: prod_eq_iff)
  qed
  moreover have "distinct ?hm" using fsts by (simp add: distinct_map)
  ultimately show ?thesis by (simp add: distinct_map)
qed

lemma instantiated:
  assumes "xa_instantiate T Q a m token = Inr E" and "xa_validate T Q a = Inr a"
  shows "xe_program E = xa_program a" and "xe_intention_width E = xa_width a" and "xe_max E = m"
    and "xa_registry_of T Q (xa_specs a) = Inr (xe_operators E)"
  using assms by (auto simp: xa_instantiate_def xa_registry_def xe_init_def bind_r_eq_Inr split: if_splits)

lemma composition_embeds:
  assumes compose: "compose_executive_artifacts T Q as share fe schema = Inr c" and k: "k < length as"
    and keys: "share \<Longrightarrow> distinct (map spec_key (xa_specs (as ! k)))"
    and C: "xa_instantiate T Q (as ! k) m token = Inr C" and E: "xa_instantiate T Q c m' token' = Inr E"
  shows "embedded (fe \<and> Suc k < length as) (layout_of share as k) C E"
proof -
  obtain ls e n "is" specs where ls: "lay_out share as 0 0 0 [] = (ls, e, n)"
    and "is": "compose_components share fe ls e [] = Inr (is, specs)"
    and c: "c = composed_artifact is specs n (xa_width (hd as)) schema" "xa_validate T Q c = Inr c"
    and as: "\<forall>a\<in>set as. xa_validate T Q a = Inr a \<and> xa_width a = xa_width (hd as) \<and> 1 \<le> body_length a"
    using compose by (rule composition_of)
  have valid: "\<forall>a\<in>set as. xa_validate T Q a = Inr a" and width: "xa_width (as ! k) = xa_width (hd as)"
    and vk: "xa_validate T Q (as ! k) = Inr (as ! k)" using as k nth_mem by blast+
  note placed = component_placed [OF ls "is" valid k]
  note E = instantiated [OF E c(2)] and C = instantiated [OF C vk]
  have l: "layout_of share as k = ls ! k" by (simp add: layout_of_def ls)
  have instrs: "xp_instructions (xe_program E) = is @ [executive_halt]" by (simp add: E(1) c(1) composed_artifact_def)
  have fsts: "distinct (map fst (cl_handles (ls ! k)))" unfolding placed(8) using vk by (simp add: xa_validate_iff)
  have "xp_instructions (xe_program E) ! nat (cl_program (ls ! k) + p) =
          (let i = xp_instructions (xe_program C) ! nat p
           in if (fe \<and> Suc k < length as) \<and> xi_op i = Emit then handoff_to (ls ! k) i else moved (ls ! k) i)"
    if p: "0 \<le> p" "p + 1 < int (length (xp_instructions (xe_program C)))" for p
  proof -
    have body: "p < body_length (as ! k)" using p(2) by (simp add: C(1) body_length_def)
    have at: "0 \<le> cl_program (ls ! k) + p" "cl_program (ls ! k) + p < int (length is)" using placed(2,4) body p(1) by simp_all
    then have nth: "(is @ [executive_halt]) ! nat (cl_program (ls ! k) + p) = is ! nat (cl_program (ls ! k) + p)"
      by (simp add: nth_append nat_less_iff)
    have "relocate_instruction fe (ls ! k) (Suc k < length as) (cl_program (ls ! k) + body_length (as ! k))
        (xp_instructions (xa_program (as ! k)) ! nat p) = Inr (is ! nat (cl_program (ls ! k) + p))"
      using placed(9) p(1) body by blast
    from relocate_shape [OF this] show ?thesis
      unfolding instrs nth C(1) by (simp add: placed(1) intermediate_handoff_def Let_def split: if_splits)
  qed
  moreover have "\<exists>p q. xr_operator (xe_operators C) h = Inr p \<and> xr_operator (xe_operators E) g = Inr q \<and> same_operator p q"
    if g: "map_of (cl_handles (ls ! k)) h = Some g" for h g
  proof -
    have "h \<in> set (map fst (cl_handles (ls ! k)))" using map_of_SomeD [OF g] by force
    then obtain s where s: "s \<in> set (xa_specs (as ! k))" "ox_handle s = h" unfolding placed(8) by auto
    then have at: "s\<lparr>ox_handle := g\<rparr> \<in> set specs" using placed(7) g by fastforce
    have "ox_validate s = Inr s" using vk s(1) by (simp add: xa_validate_iff)
    then obtain p where p: "ox_build T Q s = Inr p" using ox_build_total by blast
    have "0 \<le> g" using placed(6) map_of_SomeD [OF g] by force
    then obtain q where q: "ox_build T Q (s\<lparr>ox_handle := g\<rparr>) = Inr q" "same_operator p q"
      using ox_build_handle_free [OF p] by blast
    have "xr_operator (xe_operators C) h = Inr p"
      using registry_finds [OF C(4) _ s(1) p] vk s(2) by (simp add: xa_validate_iff)
    moreover have "s\<lparr>ox_handle := g\<rparr> \<in> set (xa_specs c)" using at by (simp add: c(1) composed_artifact_def)
    then have "xr_operator (xe_operators E) g = Inr q"
      using registry_finds [OF E(4) _ _ q(1)] c(2) by (simp add: xa_validate_iff)
    ultimately show ?thesis using q(2) by blast
  qed
  moreover have "\<exists>h g. xi_handle i = Some h \<and> map_of (cl_handles (ls ! k)) h = Some g"
    if i: "i \<in> set (xp_instructions (xe_program C))" "xi_op i = Call" for i
  proof -
    obtain h s where h: "xi_handle i = Some h" and s: "s \<in> set (xa_specs (as ! k))" "ox_handle s = h"
      using vk i C(1) by (force simp: xa_validate_iff calls_bound_def)
    then show ?thesis using placed(7) by blast
  qed
  moreover have "cl_program (ls ! k) + int (length (xp_instructions (xe_program C))) \<le> int (length (xp_instructions (xe_program E)))"
    using placed(4) instructions_of_valid(3) [OF vk] by (simp add: instrs C(1))
  moreover have "cl_slots (ls ! k) + xp_slots (xe_program C) \<le> xp_slots (xe_program E)"
    using placed(5) by (simp add: C(1) E(1) c(1) composed_artifact_def)
  ultimately show ?thesis
    using placed(2,3) fsts handles_injective [OF ls "is" valid k keys] width
    unfolding embedded_def l by (simp add: E(2) C(2) c(1) composed_artifact_def)
qed

section \<open>Runs\<close>

lemma operator_key: "registry_ok r \<Longrightarrow> xr_operator r h = Inr p \<Longrightarrow> h \<in> set (xr_handles r)"
  by (force simp: registry_ok_def xr_operator_def split: option.splits dest: map_of_SomeD)

lemma regs_hosted:
  assumes emb: "embedded quiet l C E" and "exec_ok C" and "exec_ok E" and rg: "regs_ok T C batch rg" and base: "regs_ok T E batch base"
  shows "hosts l C base rg"
proof -
  have "h \<in> fst ` set (rg_operators rg) \<and> g \<in> fst ` set (rg_operators base)" if hg: "(h, g) \<in> set (cl_handles l)" for h g
  proof -
    have "map_of (cl_handles l) h = Some g" using emb hg by (simp add: embedded_def)
    then have "h \<in> set (xr_handles (xe_operators C))" "g \<in> set (xr_handles (xe_operators E))"
      using emb assms(2,3) operator_key unfolding embedded_def exec_ok_def by metis+
    then show ?thesis using rg base unfolding regs_ok_def ops_ok_def by (metis list.set_map)
  qed
  then show ?thesis using emb rg base by (auto simp: hosts_def embedded_def regs_ok_def ops_ok_def)
qed

lemma step_not_terminal:
  assumes C: "exec_ok C" and p: "in_range (rg_pointer rg) (length (xp_instructions (xe_program C)))"
    and step: "xe_step T C events trusted batch rg = Inr (Next rg')"
  shows "rg_pointer rg + 1 < int (length (xp_instructions (xe_program C)))"
    and "xi_op (xp_instructions (xe_program C) ! nat (rg_pointer rg)) \<noteq> Emit"
proof -
  have "xi_op (xp_instructions (xe_program C) ! nat (rg_pointer rg)) \<noteq> Halt"
    using step p by (auto simp: xe_step_def Let_def)
  then show "rg_pointer rg + 1 < int (length (xp_instructions (xe_program C)))"
    using xe_fall_through [OF C p] by (simp add: in_range_def)
  show "xi_op (xp_instructions (xe_program C) ! nat (rg_pointer rg)) \<noteq> Emit"
    using step p by (auto simp: xe_step_def Let_def bind_r_eq_Inr)
qed

lemma place_run:
  assumes "clone_law T" and emb: "embedded quiet l C E" and C: "exec_ok C" and E: "exec_ok E" and batch: "0 < batch"
    and events: "hd (tl_shape T (ec_payload events)) = batch" and base: "regs_ok T E batch base"
    and run: "xrun T C events batch n rg rg'" and rg: "regs_ok T C batch rg"
  shows "xrun T E events batch n (place_regs l base rg) (place_regs l base rg') \<and> regs_ok T C batch rg'"
  using run rg
proof (induction rule: xrun.induct)
  case (xrun_Suc rg rg1 n rg2)
  have p: "in_range (rg_pointer rg) (length (xp_instructions (xe_program C)))" using xrun_Suc.prems by (simp add: regs_ok_def)
  note inner = step_not_terminal [OF C p xrun_Suc.hyps(1)]
  have "xe_step T E events False batch (place_regs l base rg) = Inr (Next (place_regs l base rg1))"
    using place_step [OF emb regs_hosted [OF emb C E xrun_Suc.prems base] C batch _ inner(1), of T events False] p inner(2)
      xrun_Suc.hyps(1) by (simp add: in_range_def)
  moreover have "regs_ok T C batch rg1"
    using xe_step_ok [OF assms(1) C xrun_Suc.prems events batch] xrun_Suc.hyps(1)
      xe_step_trusted [OF assms(1) C xrun_Suc.prems events, of False] by fastforce
  ultimately show ?case using xrun_Suc.IH xrun.xrun_Suc by blast
qed (simp add: xrun_0)

text \<open>Any registers of the composition hold those of each of its components.\<close>

definition slice_regs :: "component_layout \<Rightarrow> 't executive \<Rightarrow> 't xregs \<Rightarrow> 't xregs" where
  "slice_regs l C RG =
     \<lparr>rg_workspace = take (nat (xp_slots (xe_program C))) (drop (nat (cl_slots l)) (rg_workspace RG)),
      rg_accumulator = rg_accumulator RG,
      rg_operators = map (\<lambda>h. (h, the (map_of (rg_operators RG) (the (map_of (cl_handles l) h))))) (xr_handles (xe_operators C)),
      rg_pointer = rg_pointer RG - cl_program l\<rparr>"

lemma slice_back:
  assumes "distinct (map fst (rg_operators RG))" and "distinct (map fst (cl_handles l))"
    and "\<forall>(h, g)\<in>set (cl_handles l). h \<in> set (xr_handles (xe_operators C))"
    and "0 \<le> xp_slots (xe_program C)" and "0 \<le> cl_slots l"
    and "cl_slots l + xp_slots (xe_program C) \<le> int (length (rg_workspace RG))"
  shows "place_regs l RG (slice_regs l C RG) = RG"
proof -
  have "place_slots (cl_slots l) (rg_workspace RG) (rg_workspace (slice_regs l C RG)) = rg_workspace RG"
    using assms(4-6) append_take_drop_id [of "nat (cl_slots l)" "rg_workspace RG"]
      append_take_drop_id [of "nat (xp_slots (xe_program C))" "drop (nat (cl_slots l)) (rg_workspace RG)"]
    by (simp add: place_slots_def slice_regs_def add.commute)
  moreover have "place_operators (cl_handles l) (rg_operators RG) (rg_operators (slice_regs l C RG)) = rg_operators RG"
  proof -
    have "(case x of (g, s) \<Rightarrow> (g, case find (\<lambda>x. snd x = g) (cl_handles l) of None \<Rightarrow> s
        | Some (h, _) \<Rightarrow> (case map_of (rg_operators (slice_regs l C RG)) h of None \<Rightarrow> s | Some s' \<Rightarrow> s'))) = x"
      if "x \<in> set (rg_operators RG)" for x
    proof (cases "find (\<lambda>y. snd y = fst x) (cl_handles l)")
      case None
      then show ?thesis by (cases x) simp
    next
      case (Some hg)
      then have hg: "hg \<in> set (cl_handles l)" "snd hg = fst x" using found_entry [OF Some] by simp_all
      then have "map_of (cl_handles l) (fst hg) = Some (fst x)"
        by (intro map_of_is_SomeI [OF assms(2)]) (metis prod.collapse)
      moreover have "map_of (rg_operators RG) (fst x) = Some (snd x)" using that assms(1) by simp
      moreover have "fst hg \<in> set (xr_handles (xe_operators C))" using hg(1) assms(3) by auto
      ultimately have "map_of (rg_operators (slice_regs l C RG)) (fst hg) = Some (snd x)"
        by (simp add: slice_regs_def map_of_map_restrict)
      then show ?thesis using Some by (cases x; cases hg) simp
    qed
    then show ?thesis unfolding place_operators_def by (rule map_idI)
  qed
  ultimately show ?thesis by (simp add: place_regs_def slice_regs_def)
qed

section \<open>The last component takes over\<close>

definition place_state :: "component_layout \<Rightarrow> 't xstate \<Rightarrow> 't xstate \<Rightarrow> 't xstate" where
  "place_state l S s =
     \<lparr>xs_workspace = place_slots (cl_slots l) (xs_workspace S) (xs_workspace s),
      xs_accumulator = xs_accumulator s, xs_pointer = cl_program l + xs_pointer s, xs_status = xs_status s,
      xs_batch = xs_batch s, xs_operators = place_operators (cl_handles l) (xs_operators S) (xs_operators s),
      xs_registry = xs_registry S, xs_ticks = xs_ticks S + xs_ticks s, xs_executed = xs_executed S + xs_executed s,
      xs_schema = EXECUTIVE_STATE_SCHEMA\<rparr>"

lemma place_operators_keys: "map fst (place_operators hm base ops) = map fst base"
  by (simp add: place_operators_def comp_def split_def)

lemma place_regs_ok:
  assumes emb: "embedded quiet l C E" and C: "exec_ok C" and rg: "regs_ok T C batch rg" and base: "regs_ok T E batch base"
  shows "regs_ok T E batch (place_regs l base rg)"
proof -
  have each: "0 \<le> g \<and> os_validate T s = Inr s \<and> (\<exists>q. xr_operator (xe_operators E) g = Inr q \<and> op_validate q s batch = Inr ())"
    if gs: "(g, s) \<in> set (place_operators (cl_handles l) (rg_operators base) (rg_operators rg))" for g s
  proof -
    obtain s0 where s0: "(g, s0) \<in> set (rg_operators base)"
      and s: "s = (case find (\<lambda>x. snd x = g) (cl_handles l) of None \<Rightarrow> s0
          | Some (h, _) \<Rightarrow> (case map_of (rg_operators rg) h of None \<Rightarrow> s0 | Some s' \<Rightarrow> s'))"
      using gs by (auto simp: place_operators_def)
    have old: "0 \<le> g" "os_validate T s0 = Inr s0"
        "\<exists>q. xr_operator (xe_operators E) g = Inr q \<and> op_validate q s0 batch = Inr ()"
      using base s0 unfolding regs_ok_def ops_ok_def by blast+
    show ?thesis
    proof (cases "s = s0")
      case False
      then obtain h g' where h: "find (\<lambda>x. snd x = g) (cl_handles l) = Some (h, g')" "map_of (rg_operators rg) h = Some s"
        using s by (auto split: option.splits)
      have "(h, g) \<in> set (cl_handles l)" using found_entry [OF h(1)] by auto
      then have "map_of (cl_handles l) h = Some g" using emb by (simp add: embedded_def)
      then obtain p q where "xr_operator (xe_operators C) h = Inr p" "xr_operator (xe_operators E) g = Inr q" "same_operator p q"
        using emb unfolding embedded_def by blast
      moreover have "ops_ok T C batch (rg_operators rg)" using rg by (simp add: regs_ok_def)
      note ops_ok_lookup [OF this h(2)]
      ultimately show ?thesis using old(1) by (auto simp: same_operator_def)
    qed (use old in simp)
  qed
  have "rg_pointer rg < int (length (xp_instructions (xe_program C)))" "0 \<le> rg_pointer rg"
    using rg by (auto simp: regs_ok_def in_range_def)
  then have "in_range (cl_program l + rg_pointer rg) (length (xp_instructions (xe_program E)))"
    using emb by (auto simp: embedded_def in_range_def)
  moreover have "int (length (place_slots (cl_slots l) (rg_workspace base) (rg_workspace rg))) = xp_slots (xe_program E)"
    using emb rg base by (auto simp: embedded_def regs_ok_def place_slots_def)
  moreover have "\<forall>v\<in>set (place_slots (cl_slots l) (rg_workspace base) (rg_workspace rg)). wv_ok T batch v"
    using rg base by (auto simp: regs_ok_def place_slots_def dest: in_set_takeD in_set_dropD)
  ultimately show ?thesis
    using each rg base by (auto simp: regs_ok_def ops_ok_def place_regs_simps place_operators_keys)
qed

lemma place_loop:
  assumes "clone_law T" and emb: "embedded False l C E" and C: "exec_ok C" and E: "exec_ok E" and batch: "0 < batch"
    and events: "hd (tl_shape T (ec_payload events)) = batch" and base: "regs_ok T E batch base"
    and halt: "xi_op (xp_instructions (xe_program E) ! nat (cl_program l + int (length (xp_instructions (xe_program C))) - 1)) = Halt"
    and rg: "regs_ok T C batch rg"
  shows "xe_loop T E events True batch n k (place_regs l base rg) =
    bind_r (xe_loop T C events True batch n k rg) (\<lambda>(st, intent, rg', k'). Inr (st, intent, place_regs l base rg', k'))"
  using rg
proof (induction n arbitrary: k rg)
  case (Suc n)
  let ?len = "int (length (xp_instructions (xe_program C)))"
  have p: "in_range (rg_pointer rg) (length (xp_instructions (xe_program C)))" using Suc.prems by (simp add: regs_ok_def)
  have step: "xe_step T E events True batch (place_regs l base rg) =
      bind_r (xe_step T C events True batch rg) (\<lambda>out. Inr (map_outcome (place_regs l base) out))"
  proof (cases "rg_pointer rg + 1 < ?len")
    case True
    then show ?thesis
      using place_step [OF emb regs_hosted [OF emb C E Suc.prems base] C batch _ True, of T events True] p
      by (simp add: in_range_def)
  next
    case False
    then have last: "rg_pointer rg = ?len - 1" using p by (auto simp: in_range_def)
    have "xp_instructions (xe_program C) \<noteq> []" using p by (auto simp: in_range_def)
    moreover have "xi_op (last (xp_instructions (xe_program C))) = Halt"
      using C by (auto simp: exec_ok_def xp_validate_def bind_r_eq_Inr split: if_splits)
    ultimately have "xi_op (xp_instructions (xe_program C) ! nat (rg_pointer rg)) = Halt"
      unfolding last by (simp add: last_conv_nth nat_diff_distrib')
    moreover have "xi_op (xp_instructions (xe_program E) ! nat (cl_program l + rg_pointer rg)) = Halt"
      using halt by (simp add: last algebra_simps)
    moreover have "in_range (cl_program l + rg_pointer rg) (length (xp_instructions (xe_program E)))"
      using place_regs_ok [OF emb C Suc.prems base] by (simp add: regs_ok_def place_regs_simps)
    ultimately show ?thesis using p by (simp add: xe_step_def Let_def place_regs_simps)
  qed
  show ?case
  proof (cases "xe_step T C events True batch rg")
    case (Inr out)
    show ?thesis
    proof (cases out)
      case (Next rg1)
      have "regs_ok T C batch rg1"
        using xe_step_ok [OF assms(1) C Suc.prems events batch Inr] by (simp add: Next)
      then show ?thesis using Suc.IH by (simp add: step Inr Next)
    qed (simp add: step Inr)
  qed (simp add: step)
qed simp

definition answer :: "'t xtick \<Rightarrow> 't intent_event option \<times> xstatus \<times> int" where
  "answer out = (xt_intention out, xt_status out, xt_executed out)"

lemma answer_mk_tick [simp]: "answer (mk_tick E intent st k) = (intent, st, k)"
  by (simp add: answer_def mk_tick_def)

definition takeover_ok :: "'t tensor_lib \<times> component_layout \<times> 't executive \<times> 't executive \<times> 't xstate \<Rightarrow> 't xstate \<Rightarrow> bool" where
  "takeover_ok x s = (case x of (T, l, C, E, S) \<Rightarrow> clone_law T \<and> exec_ok C \<and> exec_ok E \<and> embedded False l C E
     \<and> xi_op (xp_instructions (xe_program E) ! nat (cl_program l + int (length (xp_instructions (xe_program C))) - 1)) = Halt
     \<and> xe_max E = xe_max C \<and> state_ok T E S \<and> state_ok T C s \<and> xs_batch s = xs_batch S)"

definition answered :: "('t xtick \<times> 's) result \<Rightarrow> (('t intent_event option \<times> xstatus \<times> int) \<times> 's) result" where
  "answered r = bind_r r (\<lambda>(out, s). Inr (answer out, s))"

lemma place_state_regs:
  assumes "state_ok T E S" and "state_ok T C s"
  shows "regs_of (place_state l S s) = place_regs l (regs_of S) (regs_of s)"
proof -
  have "distinct (map fst (xs_operators S))" "distinct (map fst (xs_operators s))"
    using assms by (auto simp: state_ok_def xe_check_state_iff ops_ok_def)
  then show ?thesis
    by (simp add: regs_of_def place_state_def place_regs_def dict_of_distinct place_operators_keys)
qed

lemma place_state_ok:
  assumes "embedded quiet l C E" and "exec_ok C" and "state_ok T E S" and "state_ok T C s" and "xs_batch s = xs_batch S"
  shows "state_ok T E (place_state l S s)"
proof -
  have "regs_ok T E (xs_batch S) (place_regs l (regs_of S) (regs_of s))"
    using place_regs_ok [OF assms(1,2)] state_ok_regs [OF assms(3)] state_ok_regs [OF assms(4)] assms(5) by simp
  then have "regs_ok T E (xs_batch S) (regs_of (place_state l S s))" by (simp add: place_state_regs [OF assms(3,4)])
  moreover have "distinct (map fst (xs_operators S))" using assms(3) by (auto simp: state_ok_def xe_check_state_iff ops_ok_def)
  then have "dict_of (xs_operators (place_state l S s)) = xs_operators (place_state l S s)"
    by (simp add: dict_of_distinct place_state_def place_operators_keys)
  ultimately show ?thesis
    using assms(3-5)
    by (auto simp: state_ok_def xe_check_state_iff regs_ok_def regs_of_def place_state_def in_range_def)
qed

lemma tick_takeover:
  assumes "takeover_ok (T, l, C, E, S) s"
  shows "answered (xe_tick T E events (place_state l S s)) =
    bind_r (answered (xe_tick T C events s)) (\<lambda>(out, s'). Inr (out, place_state l S s'))"
proof -
  have T: "clone_law T" and C: "exec_ok C" and E: "exec_ok E" and emb: "embedded False l C E"
    and halt: "xi_op (xp_instructions (xe_program E) ! nat (cl_program l + int (length (xp_instructions (xe_program C))) - 1)) = Halt"
    and max: "xe_max E = xe_max C" and S: "state_ok T E S" and s: "state_ok T C s" and batch: "xs_batch s = xs_batch S"
    using assms by (simp_all add: takeover_ok_def)
  note placed = place_state_ok [OF emb C S s batch]
  have same: "xs_batch (place_state l S s) = xs_batch s" "xs_status (place_state l S s) = xs_status s"
    by (simp_all add: place_state_def)
  show ?thesis
  proof (cases "hd (tl_shape T (ec_payload events)) = xs_batch s \<and> xs_status s \<notin> {Halted, Exhausted}")
    case False
    then show ?thesis
      unfolding xe_tick_def xe_tick_with_eq [OF T C s] xe_tick_with_eq [OF T E placed]
      by (cases "ec_validate T events None") (auto simp: tick_guarded_def same answered_def)
  next
    case True
    have pos: "0 < xs_batch s" using s by (simp add: state_ok_def xe_check_state_iff)
    note S_regs = state_ok_regs [OF S, folded batch]
    note loop = place_loop [OF T emb C E pos _ S_regs halt state_ok_regs [OF s], of events "nat (xe_max C)" 0]
    have run: "xe_loop T E events True (xs_batch s) (nat (xe_max E)) 0 (regs_of (place_state l S s)) =
        bind_r (xe_loop T C events True (xs_batch s) (nat (xe_max C)) 0 (regs_of s))
          (\<lambda>(st, intent, rg', k'). Inr (st, intent, place_regs l (regs_of S) rg', k'))"
      using loop True by (simp add: place_state_regs [OF S s] max)
    have next_eq: "next_state E (place_state l S s) st (place_regs l (regs_of S) rg) k = place_state l S (next_state C s st rg k)"
      if "regs_ok T C (xs_batch s) rg" for st rg k
    proof -
      have "sorted (map fst (rg_operators rg))" using that unfolding regs_ok_def ops_ok_def by blast
      then have "sort_key fst (rg_operators rg) = rg_operators rg" by (rule sort_key_id_if_sorted)
      moreover have "rg_operators (regs_of S) = xs_operators S" and "sorted (map fst (xs_operators S))"
        using S by (auto simp: regs_of_def state_ok_def xe_check_state_iff ops_ok_def dict_of_distinct)
      then have "sort_key fst (place_operators (cl_handles l) (xs_operators S) (rg_operators rg)) =
          place_operators (cl_handles l) (xs_operators S) (rg_operators rg)"
        by (intro sort_key_id_if_sorted) (simp add: place_operators_keys)
      ultimately show ?thesis
        using \<open>rg_operators (regs_of S) = xs_operators S\<close>
        by (simp add: next_state_def place_state_def place_regs_def regs_of_def)
    qed
    show ?thesis
    proof (cases "xe_loop T C events True (xs_batch s) (nat (xe_max C)) 0 (regs_of s)")
      case (Inl e)
      then show ?thesis
        unfolding xe_tick_def xe_tick_with_eq [OF T C s] xe_tick_with_eq [OF T E placed]
        using True run by (cases "ec_validate T events None") (auto simp: tick_guarded_def same answered_def)
    next
      case (Inr r)
      obtain st intent rg k where r: "r = (st, intent, rg, k)" by (cases r)
      have "regs_ok T C (xs_batch s) rg"
        using xe_loop_ok [OF T C state_ok_regs [OF s] conjunct1 [OF True] pos Inr [unfolded r]] by simp
      note next_eq [OF this]
      then show ?thesis
        unfolding xe_tick_def xe_tick_with_eq [OF T C s] xe_tick_with_eq [OF T E placed]
        using True run Inr r
        by (cases "ec_validate T events None")
           (auto simp: tick_guarded_def same answered_def tick_end_def max Let_def)
    qed
  qed
qed

interpretation takeover: tick_simulation takeover_ok
  "\<lambda>(T, l, C, E, S) s e. answered (xe_tick T C e s)" "\<lambda>(T, l, C, E, S) s e. answered (xe_tick T E e s)"
  "\<lambda>(T, l, C, E, S). place_state l S"
proof
  fix x :: "'t tensor_lib \<times> component_layout \<times> 't executive \<times> 't executive \<times> 't xstate" and s :: "'t xstate" and e
  assume inv: "takeover_ok x s"
  obtain T l C E S where x: "x = (T, l, C, E, S)" by (cases x)
  show "(case x of (T, l, C, E, S) \<Rightarrow> \<lambda>s e. answered (xe_tick T E e s)) ((case x of (T, l, C, E, S) \<Rightarrow> place_state l S) s) e =
      bind_r ((case x of (T, l, C, E, S) \<Rightarrow> \<lambda>s e. answered (xe_tick T C e s)) s e)
        (\<lambda>(out, s'). Inr (out, (case x of (T, l, C, E, S) \<Rightarrow> place_state l S) s'))"
    using tick_takeover [OF inv [unfolded x]] by (simp add: x)
  fix out s'
  assume "(case x of (T, l, C, E, S) \<Rightarrow> \<lambda>s e. answered (xe_tick T C e s)) s e = Inr (out, s')"
  then obtain tick where tick: "xe_tick T C e s = Inr (tick, s')" by (auto simp: x answered_def bind_r_eq_Inr)
  have ok: "clone_law T" "exec_ok C" "state_ok T C s" using inv by (simp_all add: x takeover_ok_def)
  have "tick_guarded T C e s = Inr (tick, s')" using tick by (simp add: xe_tick_def xe_tick_with_eq [OF ok])
  then have "state_ok T C s'" and "xs_batch s' = xs_batch s"
    using tick_guarded_ok(1) [OF ok]
    by (auto simp: tick_guarded_def bind_r_eq_Inr tick_end_def Let_def next_state_def split: if_splits)
  then show "takeover_ok x s'" using inv by (simp add: x takeover_ok_def)
qed

section \<open>A prelude and a skill, run\<close>

definition idle_value :: "plain_tensor workspace_value" where
  "idle_value = small_value\<lparr>wv_kind := KValue\<rparr>"

definition idle_state :: "plain_tensor executive \<Rightarrow> plain_tensor xstate" where
  "idle_state E = \<lparr>xs_workspace = replicate (nat (xp_slots (xe_program E))) idle_value, xs_accumulator = idle_value,
     xs_pointer = 0, xs_status = Ready, xs_batch = 1, xs_operators = [], xs_registry = xr_digest (xe_operators E),
     xs_ticks = 0, xs_executed = 0, xs_schema = EXECUTIVE_STATE_SCHEMA\<rparr>"

lemma idle_value_ok: "wv_ok plain_tensors 1 idle_value"
  by (simp add: wv_ok_def wv_validate_def idle_value_def small_value_def plain_tensors_def tl_ndim_def float32_not_bool)

lemma idle_state_ok:
  assumes "exec_ok E" and "xr_handles (xe_operators E) = []"
  shows "state_ok plain_tensors E (idle_state E)"
proof -
  have "xp_instructions (xe_program E) \<noteq> []" "1 \<le> xp_slots (xe_program E)"
    using assms(1) by (auto simp: exec_ok_def xp_validate_def bind_r_eq_Inr split: if_splits)
  then show ?thesis
    using idle_value_ok assms(2)
    by (simp add: state_ok_def xe_check_state_iff idle_state_def known_status_def ops_ok_def in_range_def)
qed

definition bare_executive :: "xartifact \<Rightarrow> plain_tensor executive" where
  "bare_executive a = \<lparr>xe_program = xa_program a,
     xe_operators = \<lparr>xr_operators = [], xr_handles = [], xr_digest = digest_payload (PList [])\<rparr>,
     xe_intention_width = xa_width a, xe_max = 4, xe_token = 7\<rparr>"

lemma bare_instantiates:
  assumes "xa_validate plain_tensors Q a = Inr a" and "xa_specs a = []"
  shows "xa_instantiate plain_tensors Q a 4 7 = Inr (bare_executive a)" and "exec_ok (bare_executive a)"
proof -
  have "xp_validate (xa_program a) = Inr (xa_program a)" "1 \<le> xa_width a" using assms(1) by (simp_all add: xa_validate_iff)
  then show run: "xa_instantiate plain_tensors Q a 4 7 = Inr (bare_executive a)"
    by (simp add: xa_instantiate_def xa_registry_def assms xe_init_def bare_executive_def xa_registry_of_def xr_init_def Let_def)
  show "exec_ok (bare_executive a)" using instantiates [OF assms(1), of 4 7] run by auto
qed

lemma quiet_value: "\<exists>v. wv_from_events plain_tensors quiet_events = Inr v"
proof -
  have clone: "clone_collection plain_tensors quiet_events = quiet_events"
    by (rule clone_collection_id [OF plain_clone quiet_events_ok])
  have shape: "tl_shape plain_tensors (ec_payload quiet_events) = [1, 0, 2]"
      "tl_dtype plain_tensors (ec_payload quiet_events) = float32"
    by (simp_all add: quiet_events_def plain_tensors_def)
  have present: "tl_any_rows plain_tensors (ec_present quiet_events) = ([1], torch_bool, [Fin 0])"
    by (simp add: quiet_events_def plain_tensors_def plain_rows_def)
  have zero: "tl_zeros plain_tensors [1] float32 d = ([1], float32, [Fin 0])" for d
    by (simp add: plain_tensors_def)
  have parts: "tl_shape plain_tensors ([1], t, xs) = [1]" "tl_dtype plain_tensors ([1], t, xs) = t"
      "tl_floating plain_tensors ([1], t, xs) = (t = float32)" "tl_finite plain_tensors ([1], t, xs) = list_all isfinite xs"
      "tl_negative plain_tensors ([1], t, xs) = list_ex (\<lambda>v. v < Fin 0) xs" "tl_clone plain_tensors x = x"
      "tl_equal plain_tensors x x" for t xs x
    by (simp_all add: plain_tensors_def)
  show ?thesis
    by (simp add: wv_from_events_def quiet_events_ok shape Let_def present zero clone parts wv_validate_def)
qed

lemma prelude_step:
  "\<exists>rg. xe_step plain_tensors (bare_executive prelude_artifact) quiet_events False 1
      (regs_of (idle_state (bare_executive prelude_artifact))) = Inr (Next rg) \<and> rg_pointer rg = 1"
proof -
  obtain v where v: "wv_from_events plain_tensors quiet_events = Inr v" using quiet_value by blast
  define rg where "rg = regs_of (idle_state (bare_executive prelude_artifact))"
  have rg: "rg_pointer rg = 0" "rg_workspace rg = [idle_value]"
    by (simp_all add: rg_def regs_of_def idle_state_def bare_executive_def prelude_artifact_def)
  have program: "xp_instructions (xe_program (bare_executive prelude_artifact)) = [(instr Receive)\<lparr>xi_destination := Some 0\<rparr>, instr Halt]"
    by (simp add: bare_executive_def prelude_artifact_def)
  show ?thesis
    unfolding rg_def [symmetric]
    by (simp add: xe_step_def Let_def program rg v in_range_def instr_def write_slot_def py_index_def the_int_def)
qed

section \<open>Properties\<close>

lemma composed_parts:
  assumes "compose_executive_artifacts T Q as share fe schema = Inr c" and "k < length as"
  shows "xa_validate T Q (as ! k) = Inr (as ! k)" and "xa_validate T Q c = Inr c"
    and "Suc k < length as \<Longrightarrow>
      cl_program (layout_of share as (Suc k)) = cl_program (layout_of share as k) + body_length (as ! k)"
    and "k = length as - 1 \<Longrightarrow> xi_op (xp_instructions (xa_program c) !
      nat (cl_program (layout_of share as k) + int (length (xp_instructions (xa_program (as ! k)))) - 1)) = Halt"
proof -
  obtain ls e n "is" specs where ls: "lay_out share as 0 0 0 [] = (ls, e, n)"
    and "is": "compose_components share fe ls e [] = Inr (is, specs)"
    and c: "c = composed_artifact is specs n (xa_width (hd as)) schema" and cv: "xa_validate T Q c = Inr c"
    and good: "\<forall>a\<in>set as. xa_validate T Q a = Inr a \<and> xa_width a = xa_width (hd as) \<and> 1 \<le> body_length a"
    using assms(1) by (rule composition_of)
  show vk: "xa_validate T Q (as ! k) = Inr (as ! k)" using good assms(2) by simp
  show "xa_validate T Q c = Inr c" by (rule cv)
  have len: "length ls = length as" using lay_out_artifacts [OF ls] by auto
  note following = next_component_eq [OF ls assms(2)]
  show "cl_program (layout_of share as (Suc k)) = cl_program (layout_of share as k) + body_length (as ! k)"
    if "Suc k < length as"
    using following that by (simp add: layout_of_def ls next_component_def len)
  assume k: "k = length as - 1"
  have "\<forall>a\<in>set as. 0 \<le> body_length a" using good by auto
  then have "int (length is) = e" using composed_instructions [OF ls "is"] by simp
  moreover have "e = cl_program (ls ! k) + body_length (as ! k)"
  proof -
    have "\<not> Suc k < length as" using k by simp
    then show ?thesis using following by (simp add: next_component_def len)
  qed
  ultimately have "nat (cl_program (ls ! k) + int (length (xp_instructions (xa_program (as ! k)))) - 1) = length is"
    using instructions_of_valid(3) [OF vk] by simp
  then show "xi_op (xp_instructions (xa_program c) !
      nat (cl_program (layout_of share as k) + int (length (xp_instructions (xa_program (as ! k)))) - 1)) = Halt"
    by (simp add: layout_of_def ls c composed_artifact_def executive_halt_def instr_def)
qed



text \<open>
  The last component takes over.  From a state whose pointer lies in the last component, a composition
  answers every sequence of events as that component alone would, intention, status, instruction count and
  errors included, and carries the same state at the relocated places.
\<close>

lemma last_component_takes_over:
  assumes "clone_law T" and "compose_executive_artifacts T Q as share fe schema = Inr c" and "as \<noteq> []"
    and "share \<Longrightarrow> distinct (map spec_key (xa_specs (last as)))"
    and "xa_instantiate T Q (last as) m token = Inr C" and "xa_instantiate T Q c m token' = Inr E" and "1 \<le> m"
    and "state_ok T C s" and "state_ok T E S" and "xs_batch s = xs_batch S"
  shows "xe_session (\<lambda>s e. answered (xe_tick T E e s)) (place_state (layout_of share as (length as - 1)) S s) es =
    bind_r (xe_session (\<lambda>s e. answered (xe_tick T C e s)) s es)
      (\<lambda>(outs, s'). Inr (outs, place_state (layout_of share as (length as - 1)) S s'))"
proof -
  have k: "length as - 1 < length as" "last as = as ! (length as - 1)" using assms(3) by (simp_all add: last_conv_nth)
  note parts = composed_parts [OF assms(2) k(1)]
  have "exec_ok C" using instantiates [OF parts(1) assms(7), of token] assms(5) by (auto simp: k(2))
  moreover have "exec_ok E" using instantiates [OF parts(2) assms(7), of token'] assms(6) by auto
  moreover have "\<not> Suc (length as - 1) < length as" using assms(3) by simp
  then have "embedded False (layout_of share as (length as - 1)) C E"
    using composition_embeds [OF assms(2) k(1) assms(4) [unfolded k(2)] assms(5) [unfolded k(2)] assms(6)] k(1) by simp
  moreover have "xe_program C = xa_program (as ! (length as - 1))" "xe_program E = xa_program c" "xe_max E = xe_max C"
    using instantiated [OF assms(5) [unfolded k(2)] parts(1)] instantiated [OF assms(6) parts(2)] by simp_all
  ultimately have "takeover_ok (T, layout_of share as (length as - 1), C, E, S) s"
    using assms(1,8-10) parts(4) by (simp add: takeover_ok_def)
  from takeover.sessions_agree [OF this, of es] show ?thesis by simp
qed

end
