(* ===== verification/ProgramAdmission.thy ===== *)
theory ProgramAdmission
  imports ProgramStore PyValue
begin

text \<open>
  \<open>program.py\<close>: the verifier gate shared by every versioned external program.  It sees only the digest of
  the candidate and an ordered stream of scalar outcomes, and answers with a receipt.  Also the receipt of
  a copy-on-write maintenance step of a program memory.

  The main lemma is \<open>gate_result\<close>: on admissible arguments the gate always answers, with a receipt that
  passes its own validator.
\<close>

section \<open>Admission receipts\<close>

definition LEGACY_EXTERNAL_PROGRAM_ADMISSION_SCHEMA :: string where
  "LEGACY_EXTERNAL_PROGRAM_ADMISSION_SCHEMA = ''neural-computer.external-program-admission.v1''"

definition EXTERNAL_PROGRAM_ADMISSION_SCHEMA :: string where
  "EXTERNAL_PROGRAM_ADMISSION_SCHEMA = ''neural-computer.external-program-admission.v2''"

record admission_receipt =
  ag_accepted :: bool
  ag_digest :: string
  ag_slot :: "int option"
  ag_observations :: int
  ag_stable_bits :: "int option"
  ag_minimum :: "pyfloat option"
  ag_reason :: string
  ag_bits :: "int option"
  ag_stable :: "int option"
  ag_schema :: string

text \<open>The prefix fields are checked against a count: \<open>1 <= prefix <= count\<close> when there is a prefix.\<close>

definition prefix_ok :: "int option \<Rightarrow> int \<Rightarrow> bool" where
  "prefix_ok p n = (case p of None \<Rightarrow> True | Some k \<Rightarrow> 1 \<le> k \<and> k \<le> n)"

definition ag_validate :: "admission_receipt \<Rightarrow> admission_receipt result" where
  "ag_validate r =
     (if ag_schema r \<notin> {LEGACY_EXTERNAL_PROGRAM_ADMISSION_SCHEMA, EXTERNAL_PROGRAM_ADMISSION_SCHEMA} then Inl ValueError
      else if length (ag_digest r) \<noteq> 64 then Inl ValueError
      else if int16_of_text (ag_digest r) = None then Inl ValueError
      else if ag_observations r < 0 then Inl ValueError
      else if (case ag_slot r of None \<Rightarrow> False | Some k \<Rightarrow> k < 0) then Inl ValueError
      else
        bind_r (if ag_schema r = LEGACY_EXTERNAL_PROGRAM_ADMISSION_SCHEMA
                then (if ag_bits r \<noteq> None \<or> ag_stable r \<noteq> None then Inl ValueError
                      else Inr (ag_observations r, ag_stable_bits r))
                else (case ag_bits r of
                        None \<Rightarrow> Inl ValueError
                      | Some n \<Rightarrow> (if n < ag_observations r then Inl ValueError else Inr (n, ag_stable r))))
          (\<lambda>(bits, stable).
             if \<not> prefix_ok stable (ag_observations r) then Inl ValueError
             else if \<not> prefix_ok (ag_stable_bits r) bits then Inl ValueError
             else if (stable = None) \<noteq> (ag_stable_bits r = None) then Inl ValueError
             else if (case ag_minimum r of None \<Rightarrow> False | Some x \<Rightarrow> \<not> (Fin 0 \<le> x \<and> x \<le> Fin 1)) then Inl ValueError
             else if ag_reason r = [] then Inl ValueError
             else Inr r))"

section \<open>The gate\<close>

definition reason_no_outcomes :: string where
  "reason_no_outcomes = ''no verifier outcomes were supplied''"

definition reason_too_few :: string where
  "reason_too_few = ''candidate has not reached the minimum verifier observations''"

definition reason_unstable :: string where
  "reason_unstable = ''candidate did not clear a stable verifier prefix''"

definition reason_cleared :: string where
  "reason_cleared = ''candidate cleared the stable verifier prefix''"

definition bit_counts_of :: "int list option \<Rightarrow> pyfloat list \<Rightarrow> int list result" where
  "bit_counts_of counts values =
     (case counts of
        None \<Rightarrow> Inr (replicate (length values) 1)
      | Some bs \<Rightarrow> (if length bs \<noteq> length values \<or> (\<exists>b\<in>set bs. b < 1) then Inl ValueError else Inr bs))"

definition evaluate_program_digest_admission ::
    "string \<Rightarrow> pyfloat list \<Rightarrow> pyfloat \<Rightarrow> int \<Rightarrow> int \<Rightarrow> int list option \<Rightarrow> admission_receipt result" where
  "evaluate_program_digest_admission digest values threshold min_observations min_stable counts =
     (if length digest \<noteq> 64 then Inl ValueError
      else if int16_of_text digest = None then Inl ValueError
      else if \<not> (Fin 0 \<le> threshold \<and> threshold \<le> Fin 1) then Inl ValueError
      else if min_observations < 1 then Inl ValueError
      else if min_stable < 1 then Inl ValueError
      else
        bind_r (bit_counts_of counts values) (\<lambda>bits.
        let receipt = (\<lambda>accepted stable_bits minimum reason stable. ag_validate
              \<lparr>ag_accepted = accepted, ag_digest = digest, ag_slot = None, ag_observations = int (length values),
               ag_stable_bits = stable_bits, ag_minimum = minimum, ag_reason = reason,
               ag_bits = Some (sum_list bits), ag_stable = stable, ag_schema = EXTERNAL_PROGRAM_ADMISSION_SCHEMA\<rparr>)
        in if values = [] then receipt False None None reason_no_outcomes None
           else if \<exists>v\<in>set values. \<not> isfinite v \<or> v < Fin 0 \<or> Fin 1 < v then Inl ValueError
           else if int (length values) < min_observations
           then receipt False None (Some (float_min values)) reason_too_few None
           else case stable_from (fin_val threshold) min_stable 0 (map fin_val values) of
                  None \<Rightarrow> receipt False None (Some (float_min values)) reason_unstable None
                | Some k \<Rightarrow> receipt True (Some (sum_list (take (nat k) bits)))
                    (Some (float_min (drop (nat (k - 1)) values))) reason_cleared (Some k)))"

section \<open>Memory transactions\<close>

definition EXTERNAL_PROGRAM_MEMORY_TRANSACTION_SCHEMA :: string where
  "EXTERNAL_PROGRAM_MEMORY_TRANSACTION_SCHEMA = ''neural-computer.external-program-memory-transaction.v1''"

record transaction_receipt =
  tx_accepted :: bool
  tx_operation :: string
  tx_slot :: "int option"
  tx_source_files :: int
  tx_destination_files :: int
  tx_source_digest :: string
  tx_candidate_digest :: string
  tx_source_bytes :: int
  tx_candidate_bytes :: int
  tx_reason :: string
  tx_schema :: string

definition tx_validate :: "transaction_receipt \<Rightarrow> transaction_receipt result" where
  "tx_validate r =
     (if tx_schema r \<noteq> EXTERNAL_PROGRAM_MEMORY_TRANSACTION_SCHEMA then Inl ValueError
      else if tx_operation r \<notin> {''evict'', ''consolidate'', ''compress''} then Inl ValueError
      else if \<exists>d\<in>{tx_source_digest r, tx_candidate_digest r}. length d \<noteq> 64 \<or> int16_of_text d = None then Inl ValueError
      else if (case tx_slot r of None \<Rightarrow> False | Some k \<Rightarrow> k < 0) then Inl ValueError
      else if tx_source_files r < 1 \<or> tx_destination_files r < 1 then Inl ValueError
      else if tx_source_bytes r < 1 \<or> tx_candidate_bytes r < 1 then Inl ValueError
      else if tx_reason r = [] then Inl ValueError
      else if \<not> tx_accepted r \<and> tx_source_digest r \<noteq> tx_candidate_digest r then Inl ValueError
      else Inr r)"

definition tx_payload :: "transaction_receipt \<Rightarrow> pyval result" where
  "tx_payload r =
     bind_r (tx_validate r) (\<lambda>_. Inr (PDict
       [(''schema'', PStr (tx_schema r)), (''accepted'', PBool (tx_accepted r)),
        (''operation'', PStr (tx_operation r)), (''affected_slot_id'', opt_int_value (tx_slot r)),
        (''source_file_count'', PInt (tx_source_files r)),
        (''destination_file_count'', PInt (tx_destination_files r)),
        (''source_digest'', PStr (tx_source_digest r)), (''candidate_digest'', PStr (tx_candidate_digest r)),
        (''source_storage_bytes'', PInt (tx_source_bytes r)),
        (''candidate_storage_bytes'', PInt (tx_candidate_bytes r)), (''reason'', PStr (tx_reason r))]))"

section \<open>What the gate answers\<close>

definition gate_args_ok :: "string \<Rightarrow> pyfloat list \<Rightarrow> pyfloat \<Rightarrow> int \<Rightarrow> int \<Rightarrow> int list option \<Rightarrow> bool" where
  "gate_args_ok digest values threshold mo ms counts \<longleftrightarrow> digest_ok digest \<and> in_unit threshold \<and> 1 \<le> mo \<and> 1 \<le> ms
     \<and> is_ok (bit_counts_of counts values) \<and> (\<forall>v\<in>set values. in_unit v)"

lemma in_unit_outcomes: "(\<exists>v\<in>set values. \<not> isfinite v \<or> v < Fin 0 \<or> Fin 1 < v) \<longleftrightarrow> \<not> (\<forall>v\<in>set values. in_unit v)"
proof -
  have "\<not> isfinite v \<or> v < Fin 0 \<or> Fin 1 < v \<longleftrightarrow> \<not> in_unit v" for v by (cases v) (auto simp: in_unit_def)
  then show ?thesis by blast
qed

lemma bit_counts_sum:
  assumes "bit_counts_of counts values = Inr bits"
  shows "length bits = length values" and "\<forall>b\<in>set bits. 1 \<le> b"
  using assms by (auto simp: bit_counts_of_def split: option.splits if_splits)

lemma counts_at_least: "\<forall>b\<in>set bits. 1 \<le> b \<Longrightarrow> int (length bits) \<le> sum_list bits"
  by (induction bits) auto

lemma counts_prefix:
  assumes "\<forall>b\<in>set bits. 1 \<le> (b::int)" and "0 < k" and "k \<le> length bits"
  shows "1 \<le> sum_list (take k bits) \<and> sum_list (take k bits) \<le> sum_list bits"
proof -
  have "int (length (take k bits)) \<le> sum_list (take k bits)"
    using assms(1) by (intro counts_at_least) (auto dest: in_set_takeD)
  moreover have "0 \<le> sum_list (drop k bits)" using assms(1) by (intro sum_list_nonneg) (force dest: in_set_dropD)
  moreover have "sum_list bits = sum_list (take k bits) + sum_list (drop k bits)"
    by (metis append_take_drop_id sum_list_append)
  ultimately show ?thesis using assms(2,3) by simp
qed

definition cleared :: "pyfloat list \<Rightarrow> pyfloat \<Rightarrow> int \<Rightarrow> int \<Rightarrow> bool" where
  "cleared values threshold mo ms \<longleftrightarrow> values \<noteq> [] \<and> mo \<le> int (length values)
     \<and> stably_above (fin_val threshold) ms (map fin_val values)"

text \<open>The prefix the gate reports: the first one after which every outcome reaches the threshold.\<close>

definition is_prefix :: "pyfloat list \<Rightarrow> pyfloat \<Rightarrow> int \<Rightarrow> int \<Rightarrow> bool" where
  "is_prefix values threshold ms k \<longleftrightarrow> 1 \<le> k \<and> k \<le> int (length values) \<and> ms \<le> int (length values) - k + 1
     \<and> (\<forall>v\<in>set (drop (nat (k - 1)) values). threshold \<le> v)"

lemma stable_is_least_prefix:
  assumes "stable_from (fin_val threshold) ms 0 (map fin_val values) = Some k"
    and "\<forall>v\<in>set values. in_unit v" and "in_unit threshold"
  shows "is_prefix values threshold ms k \<and> (\<forall>j. is_prefix values threshold ms j \<longrightarrow> k \<le> j)"
proof -
  obtain t where t: "threshold = Fin t" using assms(3) by (auto simp: in_unit_iff)
  have fins: "(\<forall>x\<in>set (drop i (map fin_val values)). t \<le> x) \<longleftrightarrow> (\<forall>v\<in>set (drop i values). threshold \<le> v)" for i
  proof -
    have "t \<le> fin_val v \<longleftrightarrow> threshold \<le> v" if "v \<in> set (drop i values)" for v
      using assms(2) in_set_dropD [OF that] by (auto simp: t in_unit_iff)
    then show ?thesis by (simp add: drop_map)
  qed
  obtain i where i: "i < length values" "k = int i + 1" "ms \<le> int (length values) - int i"
      "\<forall>v\<in>set (drop i values). threshold \<le> v"
      "\<forall>i'<i. \<not> (ms \<le> int (length values) - int i' \<and> (\<forall>v\<in>set (drop i' values). threshold \<le> v))"
    using stable_from_Some [OF assms(1)] by (auto simp: t fins [unfolded t])
  have "k \<le> j" if j: "is_prefix values threshold ms j" for j
  proof (rule ccontr)
    assume "\<not> k \<le> j"
    then have "nat (j - 1) < i" using j i(2) by (auto simp: is_prefix_def)
    then show False using i(5) j by (auto simp: is_prefix_def)
  qed
  then show ?thesis using i by (simp add: is_prefix_def)
qed

lemma gate_result:
  assumes ok: "gate_args_ok digest values threshold mo ms counts"
  shows "\<exists>r. evaluate_program_digest_admission digest values threshold mo ms counts = Inr r \<and> ag_validate r = Inr r
    \<and> ag_digest r = digest \<and> ag_slot r = None \<and> (ag_accepted r \<longleftrightarrow> cleared values threshold mo ms)
    \<and> ag_observations r = int (length values)
    \<and> (ag_stable r = None \<longleftrightarrow> \<not> ag_accepted r)
    \<and> (\<forall>k. ag_stable r = Some k \<longrightarrow> is_prefix values threshold ms k \<and> (\<forall>j. is_prefix values threshold ms j \<longrightarrow> k \<le> j))"
proof -
  have args: "digest_ok digest" "in_unit threshold" "1 \<le> mo" "1 \<le> ms" "\<forall>v\<in>set values. in_unit v"
    using ok by (simp_all add: gate_args_ok_def)
  obtain bits where bits: "bit_counts_of counts values = Inr bits" using ok by (auto simp: gate_args_ok_def is_ok_iff)
  note counts = bit_counts_sum [OF bits] counts_at_least [OF bit_counts_sum(2) [OF bits]]
  have digest: "length digest = 64" "int16_of_text digest \<noteq> None" using args(1) by (simp_all add: digest_ok_def)
  obtain m where m: "int16_of_text digest = Some m" using digest(2) by auto
  have guards: "\<not> \<not> (Fin 0 \<le> threshold \<and> threshold \<le> Fin 1)" "\<not> mo < 1" "\<not> ms < 1"
      "\<not> (\<exists>v\<in>set values. \<not> isfinite v \<or> v < Fin 0 \<or> Fin 1 < v)"
    using args in_unit_outcomes [of "values"] by (simp_all add: in_unit_def)
  let ?r = "\<lambda>accepted stable_bits minimum reason stable.
      \<lparr>ag_accepted = accepted, ag_digest = digest, ag_slot = None, ag_observations = int (length values),
       ag_stable_bits = stable_bits, ag_minimum = minimum, ag_reason = reason,
       ag_bits = Some (sum_list bits), ag_stable = stable, ag_schema = EXTERNAL_PROGRAM_ADMISSION_SCHEMA\<rparr>"
  have schemas: "LEGACY_EXTERNAL_PROGRAM_ADMISSION_SCHEMA \<noteq> EXTERNAL_PROGRAM_ADMISSION_SCHEMA"
    by (simp add: LEGACY_EXTERNAL_PROGRAM_ADMISSION_SCHEMA_def EXTERNAL_PROGRAM_ADMISSION_SCHEMA_def)
  have refused: "ag_validate (?r False None minimum reason None) = Inr (?r False None minimum reason None)"
    if "case minimum of None \<Rightarrow> True | Some x \<Rightarrow> in_unit x" "reason \<noteq> []" for minimum reason
    using that schemas digest counts by (auto simp: ag_validate_def prefix_ok_def in_unit_def split: option.splits)
  have run: "evaluate_program_digest_admission digest values threshold mo ms counts =
      (if values = [] then ag_validate (?r False None None reason_no_outcomes None)
       else if int (length values) < mo then ag_validate (?r False None (Some (float_min values)) reason_too_few None)
       else case stable_from (fin_val threshold) ms 0 (map fin_val values) of
              None \<Rightarrow> ag_validate (?r False None (Some (float_min values)) reason_unstable None)
            | Some k \<Rightarrow> ag_validate (?r True (Some (sum_list (take (nat k) bits)))
                (Some (float_min (drop (nat (k - 1)) values))) reason_cleared (Some k)))"
    by (simp only: evaluate_program_digest_admission_def digest(1) m guards bits bind_r_Inr Let_def if_False simp_thms
        option.distinct)
  have reasons: "reason_no_outcomes \<noteq> []" "reason_too_few \<noteq> []" "reason_unstable \<noteq> []" "reason_cleared \<noteq> []"
    by (simp_all add: reason_no_outcomes_def reason_too_few_def reason_unstable_def reason_cleared_def)
  have least: "values \<noteq> [] \<Longrightarrow> in_unit (float_min values)" using float_min_unit args(5) by blast
  consider (none) "values = []" | (few) "values \<noteq> []" "int (length values) < mo"
    | (unstable) "values \<noteq> []" "mo \<le> int (length values)" "stable_from (fin_val threshold) ms 0 (map fin_val values) = None"
    | (stable) k where "values \<noteq> []" "mo \<le> int (length values)" "stable_from (fin_val threshold) ms 0 (map fin_val values) = Some k"
    by fastforce
  then show ?thesis
  proof cases
    case none
    then show ?thesis using run refused [of None reason_no_outcomes] reasons by (simp add: cleared_def)
  next
    case few
    then show ?thesis using run refused [of "Some (float_min values)" reason_too_few] reasons least by (simp add: cleared_def)
  next
    case unstable
    have "\<not> cleared values threshold mo ms"
      using unstable(3) stable_None_iff [OF args(4)] by (simp add: cleared_def)
    then show ?thesis
      using run unstable refused [of "Some (float_min values)" reason_unstable] reasons least by simp
  next
    case (stable k)
    note prefix = stable_is_least_prefix [OF stable(3) args(5,2)]
    have k: "1 \<le> k" "k \<le> int (length values)" using prefix by (simp_all add: is_prefix_def)
    have "drop (nat (k - 1)) values \<noteq> []" using k by simp
    then have "in_unit (float_min (drop (nat (k - 1)) values))"
      using args(5) by (intro float_min_unit) (auto dest: in_set_dropD)
    moreover have "1 \<le> sum_list (take (nat k) bits) \<and> sum_list (take (nat k) bits) \<le> sum_list bits"
      using k counts(1,2) by (intro counts_prefix) auto
    ultimately have "ag_validate (?r True (Some (sum_list (take (nat k) bits)))
          (Some (float_min (drop (nat (k - 1)) values))) reason_cleared (Some k)) =
        Inr (?r True (Some (sum_list (take (nat k) bits))) (Some (float_min (drop (nat (k - 1)) values))) reason_cleared (Some k))"
      using schemas digest counts k reasons by (simp add: ag_validate_def prefix_ok_def in_unit_def)
    moreover have "cleared values threshold mo ms"
      using stable stable_None_iff [OF args(4), of "fin_val threshold" 0 "map fin_val values"] by (simp add: cleared_def)
    ultimately show ?thesis using run stable prefix by simp
  qed
qed

lemma gate_refuses:
  assumes "\<not> gate_args_ok digest values threshold mo ms counts"
  shows "evaluate_program_digest_admission digest values threshold mo ms counts = Inl ValueError"
proof -
  have "bit_counts_of counts values = Inl ValueError" if "\<not> is_ok (bit_counts_of counts values)"
    using that by (auto simp: bit_counts_of_def split: option.splits if_splits)
  moreover have "evaluate_program_digest_admission digest values threshold mo ms counts = Inl ValueError"
    if bad: "\<not> (\<forall>v\<in>set values. in_unit v)"
  proof -
    have "values \<noteq> []" using bad by auto
    moreover have "\<exists>v\<in>set values. \<not> isfinite v \<or> v < Fin 0 \<or> Fin 1 < v" using bad in_unit_outcomes by blast
    ultimately show ?thesis
      unfolding evaluate_program_digest_admission_def Let_def
      by (cases "bit_counts_of counts values") (simp_all add: bit_counts_of_def split: option.splits if_splits)
  qed
  ultimately show ?thesis
  proof (cases "\<forall>v\<in>set values. in_unit v")
    case True
    then have "\<not> digest_ok digest \<or> \<not> in_unit threshold \<or> mo < 1 \<or> ms < 1 \<or> bit_counts_of counts values = Inl ValueError"
      using assms \<open>\<not> is_ok (bit_counts_of counts values) \<Longrightarrow> bit_counts_of counts values = Inl ValueError\<close>
      by (auto simp: gate_args_ok_def)
    then show ?thesis
      by (auto simp: evaluate_program_digest_admission_def digest_ok_def in_unit_def)
  qed
qed

section \<open>Properties\<close>

text \<open>
  C13. The admission gate.  It answers exactly on a SHA-256 digest, a threshold in the unit interval, positive
  minima and outcomes in the unit interval with positive counts, and raises ValueError otherwise; its
  receipt always passes the receipt validator, never names a slot, accepts exactly when enough outcomes
  were seen and the last ones all reach the threshold, and reports the least prefix after which they do.
\<close>

theorem program_gate_exact:
  "if gate_args_ok digest values threshold mo ms counts
   then \<exists>r. evaluate_program_digest_admission digest values threshold mo ms counts = Inr r \<and> ag_validate r = Inr r
     \<and> ag_digest r = digest \<and> ag_slot r = None \<and> (ag_accepted r \<longleftrightarrow> cleared values threshold mo ms)
     \<and> ag_observations r = int (length values) \<and> (ag_stable r = None \<longleftrightarrow> \<not> ag_accepted r)
     \<and> (\<forall>k. ag_stable r = Some k \<longrightarrow> is_prefix values threshold ms k \<and> (\<forall>j. is_prefix values threshold ms j \<longrightarrow> k \<le> j))
   else evaluate_program_digest_admission digest values threshold mo ms counts = Inl ValueError"
  using gate_result gate_refuses by simp

theorem program_gate_exact_witness:
  "\<exists>r. evaluate_program_digest_admission (digest_payload PNone) [Fin 0, Fin 1, Fin 1] (Fin (1/2)) 1 2 (Some [3, 1, 1]) = Inr r
     \<and> ag_accepted r"
proof -
  have "gate_args_ok (digest_payload PNone) [Fin 0, Fin 1, Fin 1] (Fin (1/2)) 1 2 (Some [3, 1, 1])"
    by (simp add: gate_args_ok_def bit_counts_of_def)
  moreover have "cleared [Fin 0, Fin 1, Fin 1] (Fin (1/2)) 1 2"
    by (simp add: cleared_def stably_above_def)
  ultimately show ?thesis
    using program_gate_exact [of "digest_payload PNone" "[Fin 0, Fin 1, Fin 1]" "Fin (1/2)" 1 2 "Some [3, 1, 1]"] by auto
qed

end
