(* ===== verification/ExecutiveBank.thy ===== *)
theory ExecutiveBank
  imports ExecutiveArtifact ProgramAdmission SearchLedger
begin

text \<open>
  \<open>ExternalExecutiveProgramBank\<close> of \<open>executive_bank.py\<close>: an append-only bank of executive artifacts that
  passed the admission gate.  An admission is kept as its receipt, whose fields are the code's payload
  dictionary.  The digest of the bank is taken on a JSON text that holds floats; how a float is written
  is the parameter \<open>float_text\<close>.  Reading and writing bank files is not modelled.

  \<open>bank_ok\<close> is the invariant; the bank is an interpretation of the append-only contract
  \<open>program_store\<close>, so a slot, once filled, keeps its artifact.
\<close>

section \<open>The bank\<close>

definition EXTERNAL_EXECUTIVE_PROGRAM_BANK_SCHEMA :: string where
  "EXTERNAL_EXECUTIVE_PROGRAM_BANK_SCHEMA = ''neural-computer.external-executive-program-bank.v1''"

record xbank =
  xb_controller :: string
  xb_capacity :: int
  xb_artifacts :: "xartifact list"
  xb_admissions :: "admission_receipt list"
  xb_version :: int

definition xb_init :: "string \<Rightarrow> int \<Rightarrow> xbank result" where
  "xb_init controller_digest capacity =
     (if capacity < 1 then Inl ValueError
      else bind_r (validate_digest controller_digest) (\<lambda>_. Inr
        \<lparr>xb_controller = controller_digest, xb_capacity = capacity, xb_artifacts = [], xb_admissions = [],
         xb_version = 0\<rparr>))"

definition xb_count :: "xbank \<Rightarrow> int" where
  "xb_count b = int (length (xb_artifacts b))"

definition xb_configuration :: "xbank \<Rightarrow> pyval" where
  "xb_configuration b = PDict
     [(''schema'', PStr EXTERNAL_EXECUTIVE_PROGRAM_BANK_SCHEMA), (''controller_digest'', PStr (xb_controller b)),
      (''capacity'', PInt (xb_capacity b)),
      (''storage'', PStr ''append_only_verified_self_contained_executive_artifacts_v1'')]"

text \<open>\<open>from_payload(artifact.payload())\<close>: an independent copy.\<close>

definition xa_copy :: "'t tensor_lib \<Rightarrow> 't operator_torch \<Rightarrow> xartifact \<Rightarrow> xartifact result" where
  "xa_copy T Q a = bind_r (xa_payload T Q a) (xa_from_payload T Q)"

definition xb_artifact :: "'t tensor_lib \<Rightarrow> 't operator_torch \<Rightarrow> xbank \<Rightarrow> int \<Rightarrow> xartifact result" where
  "xb_artifact T Q b slot =
     (if \<not> (0 \<le> slot \<and> slot < xb_count b) then Inl IndexError
      else xa_copy T Q (xb_artifacts b ! nat slot))"

definition reason_full :: string where
  "reason_full = ''verified executive artifact could not enter a full bank''"

definition reason_committed :: string where
  "reason_committed = ''verified executive artifact committed''"

definition reason_attached :: string where
  "reason_attached = ''verified experience attached to an identical executive artifact''"

definition xb_commit :: "xbank \<Rightarrow> admission_receipt \<Rightarrow> int \<Rightarrow> string \<Rightarrow> (xbank \<times> admission_receipt) result" where
  "xb_commit b r slot reason =
     bind_r (ag_validate (r\<lparr>ag_slot := Some slot, ag_reason := reason\<rparr>)) (\<lambda>r'.
       Inr (b\<lparr>xb_admissions := xb_admissions b @ [r'], xb_version := xb_version b + 1\<rparr>, r'))"

definition xb_admit :: "'t tensor_lib \<Rightarrow> 't operator_torch \<Rightarrow> xbank \<Rightarrow> xartifact \<Rightarrow> pyfloat list \<Rightarrow> pyfloat \<Rightarrow> int \<Rightarrow> int \<Rightarrow>
    int list option \<Rightarrow> (xbank \<times> admission_receipt) result" where
  "xb_admit T Q b a outcomes threshold min_observations min_stable counts =
     bind_r (xa_validate T Q a) (\<lambda>_.
     bind_r (xa_digest T Q a) (\<lambda>digest.
     bind_r (evaluate_program_digest_admission digest outcomes threshold min_observations min_stable counts) (\<lambda>r.
       if \<not> ag_accepted r then Inr (b, r)
       else
         bind_r (map_r (xa_digest T Q) (xb_artifacts b)) (\<lambda>digests.
           case digest_slot digest digests 0 of
             None \<Rightarrow>
               (if xb_count b \<ge> xb_capacity b
                then bind_r (ag_validate (r\<lparr>ag_accepted := False, ag_reason := reason_full\<rparr>)) (\<lambda>r'. Inr (b, r'))
                else bind_r (xa_copy T Q a) (\<lambda>a'.
                       xb_commit (b\<lparr>xb_artifacts := xb_artifacts b @ [a']\<rparr>) r (xb_count b) reason_committed))
           | Some slot \<Rightarrow> xb_commit b r slot reason_attached))))"

definition xb_executable :: "'t tensor_lib \<Rightarrow> 't operator_torch \<Rightarrow> xbank \<Rightarrow> int \<Rightarrow> string \<Rightarrow> int \<Rightarrow> nat \<Rightarrow> 't executive result" where
  "xb_executable T Q b slot controller_digest max_instructions token =
     bind_r (validate_digest controller_digest) (\<lambda>_.
       if controller_digest \<noteq> xb_controller b then Inl ValueError
       else bind_r (xb_artifact T Q b slot) (\<lambda>a. xa_instantiate T Q a max_instructions token))"

text \<open>\<open>receipt.payload()\<close> as canonical JSON text, and the digest of the bank.\<close>

definition ag_json :: "(pyfloat \<Rightarrow> string) \<Rightarrow> admission_receipt \<Rightarrow> string" where
  "ag_json float_text r =
     (let number = (\<lambda>x. json_dumps (opt_int_value x))
      in json_object
       ([(''schema'', json_string (ag_schema r)), (''accepted'', json_dumps (PBool (ag_accepted r))),
         (''candidate_digest'', json_string (ag_digest r)), (''slot'', number (ag_slot r)),
         (''observations'', int_text (ag_observations r)), (''stable_bits_to_threshold'', number (ag_stable_bits r)),
         (''stable_prefix_minimum'', case ag_minimum r of None \<Rightarrow> ''null'' | Some x \<Rightarrow> float_text x),
         (''reason'', json_string (ag_reason r))]
        @ (if ag_schema r = EXTERNAL_PROGRAM_ADMISSION_SCHEMA
           then [(''unique_verifier_bits'', number (ag_bits r)),
                 (''stable_observations_to_threshold'', number (ag_stable r))]
           else [])))"

definition xb_digest :: "(pyfloat \<Rightarrow> string) \<Rightarrow> 't tensor_lib \<Rightarrow> 't operator_torch \<Rightarrow> xbank \<Rightarrow> string result" where
  "xb_digest float_text T Q b =
     bind_r (map_r (xa_digest T Q) (xb_artifacts b)) (\<lambda>digests. Inr (sha256_hex (json_object
       [(''configuration'', json_dumps (xb_configuration b)), (''version'', int_text (xb_version b)),
        (''artifact_digests'', json_array (map json_string digests)),
        (''admissions'', json_array (map (ag_json float_text) (xb_admissions b)))])))"

section \<open>The invariant\<close>

text \<open>The digest of a valid artifact, as a value.\<close>

definition artifact_digest :: "'t tensor_lib \<Rightarrow> 't operator_torch \<Rightarrow> xartifact \<Rightarrow> string" where
  "artifact_digest T Q a = (case xa_digest T Q a of Inl _ \<Rightarrow> [] | Inr d \<Rightarrow> d)"

lemma artifact_digest_valid: "xa_validate T Q a = Inr a \<Longrightarrow> xa_digest T Q a = Inr (artifact_digest T Q a)"
  using xa_digest_total by (fastforce simp: artifact_digest_def)

lemma artifact_digest_ok: "xa_validate T Q a = Inr a \<Longrightarrow> digest_ok (artifact_digest T Q a)"
  using xa_digest_total [of T Q a]
  by (auto simp: artifact_digest_def xa_digest_def xa_digest_with_def bind_r_eq_Inr)

lemma digests_of_valid:
  "\<forall>a\<in>set as. xa_validate T Q a = Inr a \<Longrightarrow> map_r (xa_digest T Q) as = Inr (map (artifact_digest T Q) as)"
  by (rule map_r_total) (simp add: artifact_digest_valid)

lemma xa_copy_valid: "xa_validate T Q a = Inr a \<Longrightarrow> xa_copy T Q a = Inr a"
  using xa_roundtrip by (fastforce simp: xa_copy_def)

text \<open>
  Every artifact is valid, no two have the same digest, the bank is not over its capacity, the version
  counts the admissions, and every admission names the slot whose artifact has the admitted digest.
\<close>

definition admission_ok :: "'t tensor_lib \<Rightarrow> 't operator_torch \<Rightarrow> xbank \<Rightarrow> admission_receipt \<Rightarrow> bool" where
  "admission_ok T Q b r \<longleftrightarrow> ag_validate r = Inr r \<and> ag_accepted r
     \<and> (\<exists>k. ag_slot r = Some k \<and> in_range k (length (xb_artifacts b))
          \<and> ag_digest r = artifact_digest T Q (xb_artifacts b ! nat k))"

definition bank_ok :: "'t tensor_lib \<Rightarrow> 't operator_torch \<Rightarrow> xbank \<Rightarrow> bool" where
  "bank_ok T Q b \<longleftrightarrow> digest_ok (xb_controller b) \<and> 1 \<le> xb_capacity b \<and> xb_count b \<le> xb_capacity b
     \<and> (\<forall>a\<in>set (xb_artifacts b). xa_validate T Q a = Inr a) \<and> distinct (map (artifact_digest T Q) (xb_artifacts b))
     \<and> xb_version b = int (length (xb_admissions b)) \<and> (\<forall>r\<in>set (xb_admissions b). admission_ok T Q b r)"

lemma ag_validate_Inr: "ag_validate r = Inr r' \<Longrightarrow> r' = r"
  by (auto simp: ag_validate_def bind_r_eq_Inr Let_def split: if_splits option.splits)

text \<open>A slot, a reason and a withdrawn acceptance do not matter to the validator.\<close>

lemma ag_validate_replace:
  assumes "ag_validate r = Inr r" and "reason \<noteq> []" and "0 \<le> k"
  shows "ag_validate (r\<lparr>ag_slot := Some k, ag_reason := reason\<rparr>) = Inr (r\<lparr>ag_slot := Some k, ag_reason := reason\<rparr>)"
    and "ag_validate (r\<lparr>ag_accepted := b, ag_reason := reason\<rparr>) = Inr (r\<lparr>ag_accepted := b, ag_reason := reason\<rparr>)"
  using assms by (cases r; auto simp: ag_validate_def bind_r_eq_Inr split: if_splits option.splits)+

lemma reasons_given: "reason_full \<noteq> []" "reason_committed \<noteq> []" "reason_attached \<noteq> []"
  by (simp_all add: reason_full_def reason_committed_def reason_attached_def)

lemma xb_commit_valid:
  assumes "ag_validate r = Inr r" and "reason \<noteq> []" and "0 \<le> k"
  shows "xb_commit b r k reason = (let r' = r\<lparr>ag_slot := Some k, ag_reason := reason\<rparr>
    in Inr (b\<lparr>xb_admissions := xb_admissions b @ [r'], xb_version := xb_version b + 1\<rparr>, r'))"
  using ag_validate_replace(1) [OF assms] by (simp add: xb_commit_def Let_def)

section \<open>One admission\<close>

definition bank_digests :: "'t tensor_lib \<Rightarrow> 't operator_torch \<Rightarrow> xbank \<Rightarrow> string list" where
  "bank_digests T Q b = map (artifact_digest T Q) (xb_artifacts b)"

text \<open>What becomes of the bank: the receipt \<open>r\<close> of the admission is kept when it is accepted.\<close>

definition bank_kept :: "xbank \<Rightarrow> admission_receipt \<Rightarrow> xbank" where
  "bank_kept b r = b\<lparr>xb_admissions := xb_admissions b @ [r], xb_version := xb_version b + 1\<rparr>"

definition bank_grown :: "xbank \<Rightarrow> xartifact \<Rightarrow> xbank" where
  "bank_grown b a = b\<lparr>xb_artifacts := xb_artifacts b @ [a]\<rparr>"

lemma admit_exact:
  assumes b: "bank_ok T Q b" and a: "xa_validate T Q a = Inr a"
  shows "if \<not> gate_args_ok (artifact_digest T Q a) outcomes threshold mo ms counts
    then xb_admit T Q b a outcomes threshold mo ms counts = Inl ValueError
    else \<exists>b' r. xb_admit T Q b a outcomes threshold mo ms counts = Inr (b', r) \<and> ag_validate r = Inr r
      \<and> ag_digest r = artifact_digest T Q a
      \<and> (ag_accepted r \<longleftrightarrow> cleared outcomes threshold mo ms
            \<and> (artifact_digest T Q a \<in> set (bank_digests T Q b) \<or> xb_count b < xb_capacity b))
      \<and> (if \<not> ag_accepted r then b' = b
         else \<exists>k. ag_slot r = Some k
           \<and> (if artifact_digest T Q a \<in> set (bank_digests T Q b)
              then in_range k (length (xb_artifacts b)) \<and> bank_digests T Q b ! nat k = artifact_digest T Q a
                \<and> b' = bank_kept b r
              else k = xb_count b \<and> b' = bank_kept (bank_grown b a) r))"
proof (cases "gate_args_ok (artifact_digest T Q a) outcomes threshold mo ms counts")
  case False
  then show ?thesis
    using gate_refuses [OF False] artifact_digest_valid [OF a] by (simp add: xb_admit_def a)
next
  case True
  obtain r where r: "evaluate_program_digest_admission (artifact_digest T Q a) outcomes threshold mo ms counts = Inr r"
      "ag_validate r = Inr r" "ag_digest r = artifact_digest T Q a" "ag_accepted r \<longleftrightarrow> cleared outcomes threshold mo ms"
    using gate_result [OF True] by blast
  have digests: "map_r (xa_digest T Q) (xb_artifacts b) = Inr (bank_digests T Q b)"
    using b by (auto simp: bank_ok_def bank_digests_def intro: digests_of_valid)
  have run: "xb_admit T Q b a outcomes threshold mo ms counts =
      (if \<not> ag_accepted r then Inr (b, r)
       else case digest_slot (artifact_digest T Q a) (bank_digests T Q b) 0 of
              None \<Rightarrow>
                (if xb_count b \<ge> xb_capacity b
                 then Inr (b, r\<lparr>ag_accepted := False, ag_reason := reason_full\<rparr>)
                 else xb_commit (bank_grown b a) r (xb_count b) reason_committed)
            | Some slot \<Rightarrow> xb_commit b r slot reason_attached)"
    by (simp add: xb_admit_def a artifact_digest_valid [OF a] r(1) digests xa_copy_valid [OF a] bank_grown_def
        ag_validate_replace(2) [OF r(2) reasons_given(1) order_refl] cong: option.case_cong)
  note commit = xb_commit_valid [OF r(2)]
  consider (refused) "\<not> ag_accepted r"
    | (new) "ag_accepted r" "digest_slot (artifact_digest T Q a) (bank_digests T Q b) 0 = None"
    | (known) k where "ag_accepted r" "digest_slot (artifact_digest T Q a) (bank_digests T Q b) 0 = Some k"
    by fastforce
  then show ?thesis
  proof cases
    case refused
    then show ?thesis using True run r by simp
  next
    case new
    have "artifact_digest T Q a \<notin> set (bank_digests T Q b)"
      using digest_slot_cases [of "artifact_digest T Q a" "bank_digests T Q b" 0] new(2) by simp
    moreover have "0 \<le> xb_count b" by (simp add: xb_count_def)
    ultimately show ?thesis
      using True run r new commit [OF reasons_given(2)] ag_validate_replace [OF r(2)] reasons_given
      by (auto simp: bank_kept_def Let_def)
  next
    case (known k)
    have k: "0 \<le> k" "k < int (length (xb_artifacts b))" "bank_digests T Q b ! nat k = artifact_digest T Q a"
      using digest_slot_cases [of "artifact_digest T Q a" "bank_digests T Q b" 0] known(2) by (simp_all add: bank_digests_def)
    then have "artifact_digest T Q a \<in> set (bank_digests T Q b)"
      by (metis bank_digests_def length_map nat_less_iff nth_mem)
    then show ?thesis
      using True run r known k commit [OF reasons_given(3) k(1)] ag_validate_replace(1) [OF r(2) reasons_given(3) k(1)]
      by (auto simp: bank_kept_def Let_def in_range_def)
  qed
qed

lemma admission_ok_grown: "admission_ok T Q b r \<Longrightarrow> admission_ok T Q (bank_grown b a) r"
  by (auto simp: admission_ok_def bank_grown_def in_range_def nth_append)

lemma admission_ok_kept [simp]: "admission_ok T Q (bank_kept b r) r' \<longleftrightarrow> admission_ok T Q b r'"
  by (simp add: admission_ok_def bank_kept_def)

lemma bank_kept_ok: "bank_ok T Q b \<Longrightarrow> admission_ok T Q b r \<Longrightarrow> bank_ok T Q (bank_kept b r)"
  by (auto simp: bank_ok_def) (auto simp: bank_kept_def xb_count_def)

lemma bank_grown_ok:
  assumes "bank_ok T Q b" and "xa_validate T Q a = Inr a" and "artifact_digest T Q a \<notin> set (bank_digests T Q b)"
    and "xb_count b < xb_capacity b"
  shows "bank_ok T Q (bank_grown b a)"
proof -
  have "\<forall>r\<in>set (xb_admissions b). admission_ok T Q (bank_grown b a) r"
    using assms(1) by (auto simp: bank_ok_def intro: admission_ok_grown)
  then show ?thesis using assms by (auto simp: bank_ok_def bank_grown_def bank_digests_def xb_count_def)
qed

lemma xb_init_ok: "xb_init d c = Inr b \<Longrightarrow> bank_ok T Q b"
  by (auto simp: xb_init_def bank_ok_def validate_digest_def xb_count_def digest_ok_def bind_r_eq_Inr
      split: if_splits option.splits)

text \<open>One admission either changes nothing, attaches a receipt, or appends an artifact with its receipt.\<close>

lemma admit_effect:
  assumes b: "bank_ok T Q b" and run: "xb_admit T Q b a outcomes threshold mo ms counts = Inr (b', r)"
  shows "bank_ok T Q b' \<and> (xb_artifacts b' = xb_artifacts b \<or> xb_artifacts b' = xb_artifacts b @ [a])
    \<and> xb_controller b' = xb_controller b \<and> (\<exists>rs. xb_admissions b' = xb_admissions b @ rs)"
proof -
  have a: "xa_validate T Q a = Inr a"
    using run by (auto simp: xb_admit_def bind_r_eq_Inr xa_validate_iff)
  let ?d = "artifact_digest T Q a"
  note exact = admit_exact [OF b a, of outcomes threshold mo ms counts]
  have args: "gate_args_ok ?d outcomes threshold mo ms counts" using exact run by (auto split: if_splits)
  have what: "ag_validate r = Inr r" "ag_digest r = ?d"
      "ag_accepted r \<longleftrightarrow> cleared outcomes threshold mo ms \<and> (?d \<in> set (bank_digests T Q b) \<or> xb_count b < xb_capacity b)"
      "if \<not> ag_accepted r then b' = b
         else \<exists>k. ag_slot r = Some k
           \<and> (if ?d \<in> set (bank_digests T Q b)
              then in_range k (length (xb_artifacts b)) \<and> bank_digests T Q b ! nat k = ?d \<and> b' = bank_kept b r
              else k = xb_count b \<and> b' = bank_kept (bank_grown b a) r)"
    using exact run args by auto
  consider (refused) "\<not> ag_accepted r" "b' = b"
    | (known) k where "ag_accepted r" "ag_slot r = Some k" "in_range k (length (xb_artifacts b))"
        "bank_digests T Q b ! nat k = ?d" "b' = bank_kept b r"
    | (new) "ag_accepted r" "ag_slot r = Some (xb_count b)" "?d \<notin> set (bank_digests T Q b)" "xb_count b < xb_capacity b"
        "b' = bank_kept (bank_grown b a) r"
    using what(3,4) by (auto split: if_splits)
  then show ?thesis
  proof cases
    case refused
    then show ?thesis using b by simp
  next
    case (known k)
    have "admission_ok T Q b r"
      using known what by (auto simp: admission_ok_def bank_digests_def in_range_def nat_less_iff)
    then show ?thesis using known(5) bank_kept_ok [OF b] by (simp add: bank_kept_def)
  next
    case new
    have "admission_ok T Q (bank_grown b a) r"
      using new what by (simp add: admission_ok_def bank_grown_def xb_count_def in_range_def)
    then show ?thesis
      using new(5) bank_kept_ok [OF bank_grown_ok [OF b a new(3,4)]] by (simp add: bank_kept_def bank_grown_def)
  qed
qed

section \<open>The bank is append-only\<close>

type_synonym 't bank_state = "'t tensor_lib \<times> 't operator_torch \<times> xbank"

definition xbank_step :: "'t bank_state \<Rightarrow> 't bank_state \<Rightarrow> bool" where
  "xbank_step x y \<longleftrightarrow> (case (x, y) of ((T, Q, b), (T', Q', b')) \<Rightarrow> T' = T \<and> Q' = Q
     \<and> (\<exists>a outcomes threshold mo ms counts r. xb_admit T Q b a outcomes threshold mo ms counts = Inr (b', r)))"

definition xbank_inv :: "'t bank_state \<Rightarrow> bool" where
  "xbank_inv x \<longleftrightarrow> (case x of (T, Q, b) \<Rightarrow> bank_ok T Q b)"

definition xbank_files :: "'t bank_state \<Rightarrow> xartifact list" where
  "xbank_files x = xb_artifacts (snd (snd x))"

lemma xb_artifact_iff:
  assumes "bank_ok T Q b"
  shows "xb_artifact T Q b k = Inr a \<longleftrightarrow> in_range k (length (xb_artifacts b)) \<and> a = xb_artifacts b ! nat k"
proof -
  have "xa_copy T Q (xb_artifacts b ! nat k) = Inr (xb_artifacts b ! nat k)" if "in_range k (length (xb_artifacts b))"
    using that assms by (intro xa_copy_valid) (auto simp: bank_ok_def in_range_def)
  then show ?thesis by (auto simp: xb_artifact_def xb_count_def in_range_def)
qed

interpretation executive_store: program_store xbank_inv xbank_files "\<lambda>x. replicate (length (xbank_files x)) True"
  "\<lambda>x. case x of (T, Q, b) \<Rightarrow> xb_artifact T Q b" xbank_step
proof
  fix x y :: "'t bank_state" and k and a
  assume inv: "xbank_inv x"
  obtain T Q b where x: "x = (T, Q, b)" by (cases x)
  have b: "bank_ok T Q b" using inv by (simp add: xbank_inv_def x)
  show "length (replicate (length (xbank_files x)) True) = length (xbank_files x)" by simp
  show "(case x of (T, Q, b) \<Rightarrow> xb_artifact T Q b) k = Inr a \<longleftrightarrow>
      in_range k (length (xbank_files x)) \<and> a = xbank_files x ! nat k"
    using xb_artifact_iff [OF b] by (simp add: x xbank_files_def)
  assume "xbank_step x y"
  then obtain b' a outcomes threshold mo ms counts r where
    y: "y = (T, Q, b')" "xb_admit T Q b a outcomes threshold mo ms counts = Inr (b', r)"
    by (auto simp: xbank_step_def x split: prod.splits)
  note effect = admit_effect [OF b y(2)]
  show "xbank_inv y" using effect by (simp add: xbank_inv_def y)
  have same: "(replicate n True)[m := True] = replicate n True" for n m
    by (metis list_update_beyond list_update_id not_le_imp_less nth_replicate length_replicate)
  have grown: "replicate (Suc n) True = replicate n True @ [True]" for n
    by (simp add: replicate_append_same)
  show "(\<exists>p m. xbank_files y = xbank_files x @ [p]
        \<and> replicate (length (xbank_files y)) True = replicate (length (xbank_files x)) True @ [m])
      \<or> (\<exists>k. xbank_files y = xbank_files x
        \<and> replicate (length (xbank_files y)) True = (replicate (length (xbank_files x)) True)[k := True])"
    using effect same grown by (auto simp: xbank_files_def x y)
qed

section \<open>Properties\<close>

lemma bank_controller_same:
  assumes "xbank_step\<^sup>*\<^sup>* x y" and "xbank_inv x"
  shows "xb_controller (snd (snd y)) = xb_controller (snd (snd x))"
  using assms
proof (induction rule: rtranclp_induct)
  case (step y z)
  obtain T Q b where y: "y = (T, Q, b)" by (cases y)
  have "bank_ok T Q b" using executive_store.steps_inv [OF step.hyps(1) step.prems] by (simp add: y xbank_inv_def)
  then show ?case using step admit_effect by (fastforce simp: y xbank_step_def)
qed simp

text \<open>
  C11. One admission to a bank of executives.  A valid artifact is refused with ValueError exactly when the gate
  refuses the arguments.  Otherwise the call answers with a valid receipt on the artifact's digest, accepted
  exactly when the outcomes clear the gate and the bank knows the digest or has room; a refusal leaves the
  bank as it was, a known digest only adds the receipt to the slot that holds it, and a new artifact is
  appended at the next slot together with its receipt.
\<close>

theorem bank_admission_exact:
  assumes "bank_ok T Q b" and "xa_validate T Q a = Inr a"
  shows "if \<not> gate_args_ok (artifact_digest T Q a) outcomes threshold mo ms counts
    then xb_admit T Q b a outcomes threshold mo ms counts = Inl ValueError
    else \<exists>b' r. xb_admit T Q b a outcomes threshold mo ms counts = Inr (b', r) \<and> ag_validate r = Inr r
      \<and> ag_digest r = artifact_digest T Q a
      \<and> (ag_accepted r \<longleftrightarrow> cleared outcomes threshold mo ms
            \<and> (artifact_digest T Q a \<in> set (bank_digests T Q b) \<or> xb_count b < xb_capacity b))
      \<and> (if \<not> ag_accepted r then b' = b
         else \<exists>k. ag_slot r = Some k
           \<and> (if artifact_digest T Q a \<in> set (bank_digests T Q b)
              then in_range k (length (xb_artifacts b)) \<and> bank_digests T Q b ! nat k = artifact_digest T Q a
                \<and> b' = bank_kept b r
              else k = xb_count b \<and> b' = bank_kept (bank_grown b a) r))"
  by (rule admit_exact [OF assms])
lemma equality_artifact_valid:
  "xa_validate column_torch column_ops (temporal_equality_artifact 3 2) = Inr (temporal_equality_artifact 3 2)"
  using temporal_equality_valid [of 3 2] by (simp add: build_temporal_equality_executive_artifact_def)

definition new_bank :: xbank where
  "new_bank = \<lparr>xb_controller = digest_payload PNone, xb_capacity = 16, xb_artifacts = [], xb_admissions = [],
     xb_version = 0\<rparr>"

lemma new_bank_init: "xb_init (digest_payload PNone) 16 = Inr new_bank"
proof -
  have "digest_ok (digest_payload PNone)" by simp
  then show ?thesis by (auto simp: xb_init_def new_bank_def validate_digest_def digest_ok_def split: option.splits)
qed

lemma cleared_arguments:
  "digest_ok d \<Longrightarrow> gate_args_ok d [Fin 1] (Fin (4/5)) 1 1 None" "cleared [Fin 1] (Fin (4/5)) 1 1"
  by (simp_all add: gate_args_ok_def bit_counts_of_def in_unit_def cleared_def stably_above_def is_ok_iff)

theorem bank_admission_exact_witness:
  "\<exists>b' r. xb_admit column_torch column_ops new_bank (temporal_equality_artifact 3 2) [Fin 1] (Fin (4/5)) 1 1 None
      = Inr (b', r) \<and> ag_accepted r \<and> ag_slot r = Some 0"
proof -
  have b: "bank_ok column_torch column_ops new_bank" using xb_init_ok [OF new_bank_init] .
  have "artifact_digest column_torch column_ops (temporal_equality_artifact 3 2) \<notin> set (bank_digests column_torch column_ops new_bank)"
    "xb_count new_bank = 0" "xb_capacity new_bank = 16"
    by (simp_all add: bank_digests_def new_bank_def xb_count_def)
  then show ?thesis
    using bank_admission_exact [OF b equality_artifact_valid, of "[Fin 1]" "Fin (4/5)" 1 1 None]
      cleared_arguments(1) [OF artifact_digest_ok [OF equality_artifact_valid]] cleared_arguments(2)
    by (auto split: if_splits)
qed

text \<open>
  C12. A slot of the bank, once filled, keeps its artifact over any sequence of admissions; the bank stays
  within its capacity, with pairwise different digests and every admission naming the slot that holds the
  admitted digest, and what a slot holds still instantiates to a runnable executive for the controller of
  the bank.
\<close>

theorem bank_append_only:
  assumes "xb_init controller capacity = Inr b0" and "xbank_step\<^sup>*\<^sup>* (T, Q, b0) (T, Q, b)"
    and "xb_artifact T Q b k = Inr a" and "xbank_step\<^sup>*\<^sup>* (T, Q, b) (T, Q, b')" and "1 \<le> m"
  shows "bank_ok T Q b' \<and> xb_artifact T Q b' k = Inr a
    \<and> (\<exists>E. xb_executable T Q b' k controller m tok = Inr E \<and> exec_ok E \<and> xe_program E = xa_program a)"
proof -
  have ok0: "xbank_inv (T, Q, b0)" using xb_init_ok [OF assms(1)] by (simp add: xbank_inv_def)
  have ok: "xbank_inv (T, Q, b)" using executive_store.steps_inv [OF assms(2) ok0] .
  have ok': "bank_ok T Q b'" using executive_store.steps_inv [OF assms(4) ok] by (simp add: xbank_inv_def)
  have same: "xb_artifact T Q b' k = Inr a"
    using executive_store.lookup_stable [OF assms(4) ok, of k a] assms(3) by simp
  have controller: "xb_controller y = xb_controller x"
    if "xbank_step\<^sup>*\<^sup>* (T, Q, x) (T, Q, y)" "bank_ok T Q x" for x y
    using bank_controller_same [OF that(1)] that(2) by (simp add: xbank_inv_def)
  have "xb_controller b' = controller"
    using controller [OF assms(2)] controller [OF assms(4)] ok0 ok assms(1)
    by (auto simp: xbank_inv_def xb_init_def bind_r_eq_Inr split: if_splits)
  moreover have "validate_digest controller = Inr ()"
    using assms(1) by (auto simp: xb_init_def validate_digest_def split: if_splits option.splits)
  moreover have "xa_validate T Q a = Inr a"
    using xb_artifact_iff [OF ok'] same ok' by (auto simp: bank_ok_def in_range_def)
  ultimately show ?thesis
    using ok' same instantiates [OF _ assms(5), of T Q a tok] by (auto simp: xb_executable_def)
qed

theorem bank_append_only_witness:
  "\<exists>b E. xbank_step (column_torch, column_ops, new_bank) (column_torch, column_ops, b)
     \<and> xb_executable column_torch column_ops b 0 (digest_payload PNone) 128 7 = Inr E \<and> exec_ok E"
proof -
  have b0: "bank_ok column_torch column_ops new_bank" using xb_init_ok [OF new_bank_init] .
  have new: "artifact_digest column_torch column_ops (temporal_equality_artifact 3 2) \<notin> set (bank_digests column_torch column_ops new_bank)"
    "xb_count new_bank < xb_capacity new_bank"
    by (simp_all add: bank_digests_def new_bank_def xb_count_def)
  obtain b r where b: "xb_admit column_torch column_ops new_bank (temporal_equality_artifact 3 2) [Fin 1] (Fin (4/5)) 1 1 None
      = Inr (b, r)" "b = bank_kept (bank_grown new_bank (temporal_equality_artifact 3 2)) r"
    using admit_exact [OF b0 equality_artifact_valid, of "[Fin 1]" "Fin (4/5)" 1 1 None] new
      cleared_arguments(1) [OF artifact_digest_ok [OF equality_artifact_valid]] cleared_arguments(2)
    by (auto split: if_splits)
  have step: "xbank_step (column_torch, column_ops, new_bank) (column_torch, column_ops, b)"
    unfolding xbank_step_def prod.case using b(1) by blast
  have "xb_artifact column_torch column_ops b 0 = Inr (temporal_equality_artifact 3 2)"
    using admit_effect [OF b0 b(1)] xb_artifact_iff [of column_torch column_ops b 0]
    by (simp add: b(2) bank_kept_def bank_grown_def new_bank_def in_range_def)
  from bank_append_only [OF new_bank_init r_into_rtranclp [of xbank_step, OF step] this rtranclp.rtrancl_refl, of 128 7]
  show ?thesis using step by auto
qed

end
