(* ===== verification/Spec2Isabelle.thy ===== *)
theory Spec2Isabelle
  imports SpliceSearch FrontierGrowth CompositionCredit RecipeMemory RecipeCompositionSearch CompositionProposer Promotion InducedLibrary
    ExecutiveComposeRun ExecutiveBank
begin

text \<open>
  A verification development for the external program store of the neural computer agent
  (\<open>src/src/neural_computer\<close>).

  The agent keeps what it has learned to do as files outside its trained controller: small programs in
  three instruction sets, found by searches that see nothing but scalar outcomes, admitted to append-only
  memories by a gate, composed into longer files, and run by interpreters with explicit budgets.  This
  store is deterministic code with exact contracts, and it is what is modelled.  The controller, the world
  models and the content memories are torch modules whose behaviour is that of trained weights; they are
  outside (see the end).

  \<^bold>\<open>Conventions.\<close>  A call that may raise is \<open>exn + 'a\<close>: \<open>Inl e\<close> for an exception of class \<open>e\<close>, \<open>Inr x\<close> for
  a return (\<open>Prelude\<close>).  A guard that raises is a branch, in the order of the source.  A method that mutates
  \<open>self\<close> returns the new record.  A dataclass is a record, its \<open>validate\<close> a function that returns the
  record or the exception.  Python integers are \<open>int\<close>; only the canonical stream of the induced library
  is 64-bit arithmetic, which it keeps by masking.  Payload dictionaries are \<open>pyval\<close>, with the canonical
  JSON text and SHA-256 written out (\<open>PyValue\<close>, \<open>Sha256\<close>), so every checksum is the value the code
  computes.  Floats are exact rationals with infinities and NaN (\<open>PyFloat\<close>): comparisons are exact, sums
  and quotients are exact where the interpreter rounds.

  \<^bold>\<open>The parts.\<close>

  \<^item> \<^bold>\<open>Control-flow programs\<close> (\<open>control_flow.py\<close>).  \<open>ControlFlow\<close>: instructions, validator, payload and digest, the
    bounded executor (\<open>cf_step\<close>, \<open>cf_loop\<close>, \<open>cp_execute\<close>).  \<open>ControlFlowEdit\<close>: insertion, deletion,
    composition, splicing, each with its relocation of jump targets.  \<open>ControlFlowMemory\<close>: the admission
    gate on scalar outcomes, and the memory.  Lemmas: \<open>ControlFlowExec\<close> (totality, bounds, budgets),
    \<open>ControlFlowLocalEdit\<close>, \<open>ControlFlowCompose\<close> and \<open>ControlFlowSplice\<close> (an edited file runs as the parts it is
    made of; the locales \<open>relocation\<close> and \<open>embedding\<close> carry these proofs).

  \<^item> \<^bold>\<open>Searches over control-flow programs.\<close>  \<open>CompositionSearch\<close> (\<open>control_flow_composition.py\<close>),
    \<open>SpliceSearch\<close> (\<open>control_flow_splice.py\<close>), \<open>ControlFlowSearch\<close> (\<open>control_flow_search.py\<close>): what is offered, what is
    recorded, and that the search evaluates every candidate once and then reports exhaustion.
    \<open>CompositionProposer\<close> (\<open>composition_proposer.py\<close>): the shortlist of slots and combiners.

  \<^item> \<^bold>\<open>The control-flow frontier\<close> (\<open>control_flow_frontier.py\<close>).  \<open>ControlFlowFrontier\<close>: a beam of provisional programs,
    the credit of edit factors, proposing from a policy or at random, recording and pruning.
    \<open>FrontierNeighborhood\<close>: what an edit is, and that the enumeration of edits and the inference of factors are exact.
    \<open>FrontierRun\<close>: what a search does and keeps.  \<open>FrontierGrowth\<close>: the horizon and the root of the search
    grow by transactions.

  \<^item> \<^bold>\<open>Recipes.\<close>  \<open>RecipeBasis\<close> (\<open>recipe_basis.py\<close>): instructions over a register of opaque slots and the two
    expressibility probes; their properties are in \<open>RecipeProbe\<close> and \<open>RecipeSequence\<close>.  \<open>RecipeProgram\<close>, \<open>RecipeMemory\<close>,
    \<open>RecipeProposal\<close>, \<open>RecipeSearch\<close> (\<open>recipe_program.py\<close>, in the order of the file): programs and
    admission, the memory, the memories of proposal credit, the sequence search; \<open>RecipeSearchRun\<close> says what
    the search does.  \<open>PayloadItem\<close>, \<open>CreditPayload\<close>, \<open>CreditRestored\<close>: saving and restoring the memories of
    proposal credit, those of the recipe search and that of the frontier; \<open>CompositionCredit\<close>: the policy of the
    composition search, with its two earlier formats.  \<open>RecipeComposition\<close> and \<open>RecipeCompositionSearch\<close> (\<open>recipe_composition.py\<close>): files composed of
    files, with provenance, compaction and their own search; the properties are in \<open>RecipeProvenance\<close>
    and \<open>RecipeCompositionMemory\<close>.

  \<^item> \<^bold>\<open>The typed executive.\<close>  \<open>EventInterface\<close> (the part of \<open>interface.py\<close> that crosses the tick), \<open>Executive\<close>
    (\<open>executive.py\<close>): typed workspace values, operators behind opaque handles, programs, sealed state, the
    checked and the trusted tick.  \<open>ExecutiveRun\<close> and \<open>ExecutiveTick\<close> prove what a tick does.
    \<open>ExecutiveOperators\<close> (\<open>executive_operators.py\<close>, \<open>executive_memory.py\<close>): the operators an artifact may name.

  \<^item> \<^bold>\<open>Executive artifacts\<close> (\<open>executive_bank.py\<close>).  \<open>ExecutiveArtifact\<close>: specs, artifacts, payload, instantiation.
    \<open>ExecutiveCompose\<close>: composition, when it succeeds and what it holds; \<open>ExecutiveComposeRun\<close>: how a component
    runs inside it.  \<open>ExecutiveHandoff\<close>: the test whether a program can reach its end.  \<open>ProgramAdmission\<close>
    (\<open>program.py\<close>): the admission gate; \<open>ExecutiveBank\<close>: the bank behind it.

  \<^item> \<^bold>\<open>Promotion\<close> (\<open>promotion.py\<close>): gates, evidence, decisions and the ledger of consumed holdouts.
    \<^bold>\<open>Induced library\<close> (\<open>induced_library.py\<close>): records found again by the distance of their signatures.

  \<^bold>\<open>How the parts interact.\<close>  A search proposes a candidate program; its caller evaluates it and records
  outcomes; a gate decides on the outcomes; a memory appends what the gate accepted; composition takes files
  out of a memory and makes a new one, which goes through the gate again.  Three contracts carry this and are
  stated once, as locales: \<open>program_store\<close> (\<open>ProgramStore\<close>: an append-only store of files and protection
  marks), interpreted by the control-flow memory, the recipe memory, the composition memory, the executive
  bank and the induced library; \<open>search_ledger\<close> and its extension \<open>exhaustive_search\<close> (\<open>SearchLedger\<close>: no
  candidate twice, every candidate once), interpreted by the composition, splice, edit, recipe and
  recipe-composition searches, the ledger alone also by the frontier and by the ledger of holdouts; and
  \<open>relocation\<close> with \<open>embedding\<close> and \<open>segment\<close> (\<open>ControlFlowEdit\<close>), interpreted by the edits of a
  control-flow file.  Smaller contracts are \<open>tick_simulation\<close> (two machines whose ticks correspond:
  the trusted tick, and the last component of a composition), \<open>delay_line\<close> (the value delay),
  \<open>move_system\<close> (the states of the sequence probe), \<open>stats_codec\<close> (what the tables of one context promise to
  the memory that saves one per context) and \<open>checkpoint\<close> (a payload with its reader), which the four credit
  memories interpret.

  \<^bold>\<open>Loops and bounds.\<close>  The executor of control-flow programs and the executive tick have budgets in the
  code (\<open>max_steps\<close>, the instruction budget), and the models recurse on them.  The breadth-first probe has the
  frontier budget of the code; its fuel is proved to suffice.  The random proposal of the recipe search has
  the code's 64 attempts, that of the frontier its retry limit, for parents and again for the edits of each.
  The worklist of the hand-off test and the closure loop of the compaction
  end by measures on what is not visited yet; recursive provenance methods end because a source is looked up
  before its file.  \<open>search_loop n\<close> is the caller's loop, proved to exhaust the space once \<open>n\<close> reaches its
  size.

  \<^bold>\<open>Parameters and hypotheses.\<close>  Torch and the random generator are not under \<open>src\<close>.
  \<open>torch_lib\<close> (logarithm, root, softmax, draws): \<open>torch_ok\<close> says that softmax keeps the length and gives
  positive values and that a draw is an index; \<open>softmax_sums\<close> that softmax sums to one.
  \<open>rng\<close> is a generator with explicit state: \<open>rng_ok\<close> says that \<open>multinomial\<close> draws an index of positive
  weight and \<open>randint(n)\<close> a number below \<open>n\<close>.  \<open>math_lib\<close> is \<open>math.log1p\<close> and \<open>math.sqrt\<close>, without any
  hypothesis.  \<open>tensor_lib\<close> and \<open>operator_torch\<close> are the tensor operations of the executive:
  \<open>clone_law\<close> says that a clone is equal to its original, \<open>window_laws\<close> what slicing and concatenation do.
  \<open>float_text\<close> is Python's text of a float, \<open>float_lib\<close> that text with the two conversions \<open>float(text)\<close> and
  \<open>float(integer)\<close>, both without hypothesis.  \<open>ord\<close> is the order in
  which Python iterates over a set: \<open>enumerates\<close> says that it is an enumeration.  \<open>pick\<close> is a random
  index.  The code identifies files by digests; where a property speaks of files, \<open>files_distinct\<close> or
  \<open>no_collisions\<close> says that SHA-256 tells apart the files at hand.  Each hypothesis is discharged at a concrete
  instance in the witness of the property that uses it.

  \<^bold>\<open>Not modelled.\<close>  Reading and writing files on disk (\<open>checkpoint.py\<close>, \<open>state_store.py\<close>, the \<open>save\<close> and
  \<open>load\<close> methods): atomic replacement and torch serialisation are behaviour of the system, not of this
  code.  Reading back the states of the searches, whose statistics are tensors and whose histories may hold any
  value; where a digest is taken on such a payload (the growth of the frontier), the text of a float and the
  memory of a tensor are parameters.  A policy update made by a call of the
  frontier that raises afterwards.  The learned modules (\<open>world_model.py\<close>, \<open>register.py\<close>, \<open>runtime.py\<close>, \<open>plasticity.py\<close> and the like),
  the content memories keyed by learned vectors (\<open>episodic.py\<close>, \<open>stream_binding.py\<close>, \<open>temporal_memory.py\<close> and the
  like), retention, capacity and cost statistics, which are tensor arithmetic on such keys, and device input
  and output (\<open>human_io.py\<close>, \<open>live.py\<close>): what they compute is what torch computes.  The remaining searches over
  opaque tensor programs (\<open>program_search.py\<close>, \<open>program_frontier.py\<close>) edit rows of tensors.  Experiments, tools,
  scripts and tests are not part of the package.
\<close>

end
